(* ===== verification/Prelude.thy ===== *)
theory Prelude
  imports
    Main
    "HOL-Library.Word"
    "HOL-Library.Char_ord"
    "HOL-Library.List_Lexorder"
    "HOL-Library.Product_Lexorder"
    "HOL-Library.Multiset"
begin

text \<open>
  Shared vocabulary of the development: Rust's \<open>Result\<close> as a sum with its sequencing
  operators, \<open>BTreeMap\<close> and \<open>BTreeSet\<close> as ordered association lists and ordered lists,
  strings as their UTF-8 bytes, and the standard-library string functions that the sources call.
  The collections \<open>result_simps\<close>, \<open>btree_simps\<close> and \<open>string_simps\<close> carry the component proofs.
\<close>

named_theorems result_simps \<open>rewriting of result sequencing\<close>
named_theorems btree_simps \<open>lookup after update in ordered maps and sets\<close>
named_theorems string_simps \<open>unfolding of the string library\<close>

section \<open>Results\<close>

text \<open>
  A Rust \<open>Result<T, E>\<close> is the sum \<open>'e + 't\<close>, the error on the left. \<open>rbind\<close> is the
  \<open>?\<close> operator, \<open>ok_or\<close> the conversion of an \<open>Option\<close>. A \<open>for\<close> loop whose body may
  return early is \<open>fold_r\<close>, and \<open>check_each\<close> is such a loop without a loop variable.
\<close>

fun rbind :: "'e + 'a \<Rightarrow> ('a \<Rightarrow> 'e + 'b) \<Rightarrow> 'e + 'b" where
  "rbind (Inl e) f = Inl e"
| "rbind (Inr a) f = f a"

fun ok_or :: "'e \<Rightarrow> 'a option \<Rightarrow> 'e + 'a" where
  "ok_or e None = Inl e"
| "ok_or e (Some a) = Inr a"

fun fold_r :: "('a \<Rightarrow> 's \<Rightarrow> 'e + 's) \<Rightarrow> 'a list \<Rightarrow> 's \<Rightarrow> 'e + 's" where
  "fold_r f [] s = Inr s"
| "fold_r f (x # xs) s = rbind (f x s) (fold_r f xs)"

fun check_each :: "('a \<Rightarrow> 'e + unit) \<Rightarrow> 'a list \<Rightarrow> 'e + unit" where
  "check_each f [] = Inr ()"
| "check_each f (x # xs) = rbind (f x) (\<lambda>_. check_each f xs)"

definition is_ok :: "'e + 'a \<Rightarrow> bool" where
  "is_ok r = (case r of Inl _ \<Rightarrow> False | Inr _ \<Rightarrow> True)"

lemma is_ok_simps [simp]: "is_ok (Inr a)" "\<not> is_ok (Inl e)"
  by (simp_all add: is_ok_def)

lemma is_ok_iff: "is_ok r \<longleftrightarrow> (\<exists>a. r = Inr a)"
  by (cases r) simp_all

lemma rbind_cong [fundef_cong]:
  "r = r' \<Longrightarrow> (\<And>a. r' = Inr a \<Longrightarrow> f a = g a) \<Longrightarrow> rbind r f = rbind r' g"
  by (cases r') simp_all

lemma rbind_eq_Inr [simp, result_simps]:
  "rbind r f = Inr b \<longleftrightarrow> (\<exists>a. r = Inr a \<and> f a = Inr b)"
  by (cases r) simp_all

lemma rbind_eq_Inl [result_simps]:
  "rbind r f = Inl e \<longleftrightarrow> r = Inl e \<or> (\<exists>a. r = Inr a \<and> f a = Inl e)"
  by (cases r) simp_all

lemma ok_or_eq_Inr [simp, result_simps]: "ok_or e x = Inr a \<longleftrightarrow> x = Some a"
  by (cases x) simp_all

lemma ok_or_eq_Inl [simp, result_simps]: "ok_or e x = Inl e' \<longleftrightarrow> x = None \<and> e' = e"
  by (cases x) auto

lemma check_each_ok [simp, result_simps]:
  "check_each f xs = Inr u \<longleftrightarrow> (\<forall>x \<in> set xs. f x = Inr ())"
  by (induction xs) auto

lemma check_each_cong [fundef_cong]:
  "xs = ys \<Longrightarrow> (\<And>x. x \<in> set ys \<Longrightarrow> f x = g x) \<Longrightarrow> check_each f xs = check_each g ys"
proof (induction ys arbitrary: xs)
  case (Cons y ys)
  then show ?case by (cases "g y") simp_all
qed simp

lemma fold_r_append:
  "fold_r f (xs @ ys) s = rbind (fold_r f xs s) (fold_r f ys)"
proof (induction xs arbitrary: s)
  case (Cons x xs)
  then show ?case by (cases "f x s") simp_all
qed simp

lemma fold_r_cong [fundef_cong]:
  "xs = ys \<Longrightarrow> s = t \<Longrightarrow> (\<And>x s. x \<in> set ys \<Longrightarrow> f x s = g x s) \<Longrightarrow> fold_r f xs s = fold_r g ys t"
proof (induction ys arbitrary: xs s t)
  case (Cons y ys)
  then show ?case by (cases "g y t") simp_all
qed simp

text \<open>Invariants of a loop with early exit.\<close>

lemma fold_r_invariant:
  assumes "fold_r f xs s = Inr t" and "P s"
    and "\<And>x s s'. x \<in> set xs \<Longrightarrow> P s \<Longrightarrow> f x s = Inr s' \<Longrightarrow> P s'"
  shows "P t"
  using assms
proof (induction xs arbitrary: s)
  case Nil
  then show ?case by simp
next
  case (Cons x xs)
  from Cons.prems(1) obtain s' where s': "f x s = Inr s'" "fold_r f xs s' = Inr t" by auto
  have "P s'" using Cons.prems(3)[of x s s'] Cons.prems(2) s'(1) by simp
  then show ?case by (rule Cons.IH[OF s'(2)]) (use Cons.prems(3) in auto)
qed

lemma fold_r_total:
  assumes "P s" and "\<And>x s. x \<in> set xs \<Longrightarrow> P s \<Longrightarrow> \<exists>s'. f x s = Inr s' \<and> P s'"
  shows "\<exists>t. fold_r f xs s = Inr t \<and> P t"
  using assms
proof (induction xs arbitrary: s)
  case Nil
  then show ?case by simp
next
  case (Cons x xs)
  from Cons.prems(2)[of x s] Cons.prems(1) obtain s' where s': "f x s = Inr s'" "P s'" by auto
  have "\<exists>t. fold_r f xs s' = Inr t \<and> P t" by (rule Cons.IH[OF s'(2)]) (simp add: Cons.prems(2))
  with s'(1) show ?case by simp
qed

section \<open>Computations that may not return\<close>

text \<open>
  A loop whose termination depends on its input, or an operation that may panic, yields
  \<open>('e + 'a) option\<close>: \<^const>\<open>None\<close> when no value is returned at all. \<open>dbind\<close> sequences such
  computations, \<open>fold_d\<close> is the \<open>for\<close> loop over one.
\<close>

fun dbind :: "('e + 'a) option \<Rightarrow> ('a \<Rightarrow> ('e + 'b) option) \<Rightarrow> ('e + 'b) option" where
  "dbind None f = None"
| "dbind (Some (Inl e)) f = Some (Inl e)"
| "dbind (Some (Inr a)) f = f a"

fun fold_d :: "('a \<Rightarrow> 's \<Rightarrow> ('e + 's) option) \<Rightarrow> 'a list \<Rightarrow> 's \<Rightarrow> ('e + 's) option" where
  "fold_d f [] s = Some (Inr s)"
| "fold_d f (x # xs) s = dbind (f x s) (fold_d f xs)"

lemma dbind_eq_Inr [simp, result_simps]:
  "dbind r f = Some (Inr b) \<longleftrightarrow> (\<exists>a. r = Some (Inr a) \<and> f a = Some (Inr b))"
  by (cases "(r, f)" rule: dbind.cases) simp_all

lemma fold_d_invariant:
  assumes "fold_d f xs s = Some (Inr t)" and "P s"
    and "\<And>x s s'. x \<in> set xs \<Longrightarrow> P s \<Longrightarrow> f x s = Some (Inr s') \<Longrightarrow> P s'"
  shows "P t"
  using assms
proof (induction xs arbitrary: s)
  case Nil
  then show ?case by simp
next
  case (Cons x xs)
  from Cons.prems(1) obtain s' where s': "f x s = Some (Inr s')" "fold_d f xs s' = Some (Inr t)" by auto
  have "P s'" using Cons.prems(3)[of x s s'] Cons.prems(2) s'(1) by simp
  then show ?case by (rule Cons.IH[OF s'(2)]) (use Cons.prems(3) in auto)
qed

text \<open>A loop that carries an invariant through the prefixes of its list returns.\<close>

lemma fold_d_total:
  assumes "P [] s"
    and "\<And>done x todo s. xs = done @ x # todo \<Longrightarrow> P done s \<Longrightarrow> \<exists>s'. f x s = Some (Inr s') \<and> P (done @ [x]) s'"
  shows "\<exists>t. fold_d f xs s = Some (Inr t) \<and> P xs t"
  using assms
proof (induction xs arbitrary: s P)
  case Nil
  then show ?case by simp
next
  case (Cons x xs)
  from Cons.prems(2)[of "[]" x xs s] Cons.prems(1) obtain s' where s': "f x s = Some (Inr s')" "P [x] s'"
    by auto
  have "\<exists>t. fold_d f xs s' = Some (Inr t) \<and> P (x # xs) t"
    by (rule Cons.IH[of "\<lambda>d. P (x # d)"]) (use s'(2) Cons.prems(2)[of "x # _"] in auto)
  with s'(1) show ?case by simp
qed

section \<open>Operations on a state\<close>

text \<open>
  An operation that may fail part of the way: it returns a result or an error, and in either case
  the state it leaves behind. \<open>sbind\<close> is the \<open>?\<close> operator after an \<open>await\<close>.
\<close>

type_synonym ('s, 'e, 'a) op = "'s \<Rightarrow> ('e + 'a) \<times> 's"

definition sret :: "'a \<Rightarrow> ('s, 'e, 'a) op" where
  "sret a s = (Inr a, s)"

definition sfail :: "'e \<Rightarrow> ('s, 'e, 'a) op" where
  "sfail e s = (Inl e, s)"

definition sbind :: "('s, 'e, 'a) op \<Rightarrow> ('a \<Rightarrow> ('s, 'e, 'b) op) \<Rightarrow> ('s, 'e, 'b) op" where
  "sbind m f s = (case m s of (Inl e, s') \<Rightarrow> (Inl e, s') | (Inr a, s') \<Rightarrow> f a s')"

definition slift :: "'e + 'a \<Rightarrow> ('s, 'e, 'a) op" where
  "slift r s = (r, s)"

lemma sbind_cases:
  "sbind m f s = (r, t) \<longleftrightarrow>
     (\<exists>e. m s = (Inl e, t) \<and> r = Inl e) \<or> (\<exists>a s'. m s = (Inr a, s') \<and> f a s' = (r, t))"
  by (cases "m s"; cases "fst (m s)") (auto simp: sbind_def)

lemma sret_simps [simp]: "sret a s = (r, t) \<longleftrightarrow> r = Inr a \<and> t = s" "sfail e s = (r, t) \<longleftrightarrow> r = Inl e \<and> t = s"
  "slift x s = (r, t) \<longleftrightarrow> r = x \<and> t = s"
  by (auto simp: sret_def sfail_def slift_def)

text \<open>What holds of the result and the state of an operation, computed backwards through it.\<close>

definition wp :: "('s, 'e, 'a) op \<Rightarrow> ('e + 'a \<Rightarrow> 's \<Rightarrow> bool) \<Rightarrow> 's \<Rightarrow> bool" where
  "wp m Q s = (case m s of (r, s') \<Rightarrow> Q r s')"

lemma wpD: "wp m Q s \<Longrightarrow> m s = (r, s') \<Longrightarrow> Q r s'"
  by (simp add: wp_def)

lemma wpI: "(\<And>r s'. m s = (r, s') \<Longrightarrow> Q r s') \<Longrightarrow> wp m Q s"
  by (simp add: wp_def split: prod.split)

lemma wp_sbind: "wp (sbind m f) Q s = wp m (\<lambda>r s'. case r of Inl e \<Rightarrow> Q (Inl e) s' | Inr a \<Rightarrow> wp (f a) Q s') s"
  by (simp add: wp_def sbind_def split: prod.split sum.split)

lemma wp_simps [simp]: "wp (sret a) Q s = Q (Inr a) s" "wp (sfail e) Q s = Q (Inl e) s" "wp (slift x) Q s = Q x s"
  by (simp_all add: wp_def sret_def sfail_def slift_def)

lemma mem_map_filter: "y \<in> set (List.map_filter f xs) \<longleftrightarrow> (\<exists>x \<in> set xs. f x = Some y)"
  by (induction xs) (auto simp: map_filter_simps split: option.split)

section \<open>Ordered maps and sets\<close>

text \<open>
  A \<open>BTreeMap<K, V>\<close> is an association list with strictly increasing keys, a \<open>BTreeSet<K>\<close>
  a strictly increasing list. Lookup is \<^const>\<open>map_of\<close>; insertion and removal keep the order, so
  iterating over the list is iterating over the Rust container.
\<close>

type_synonym ('k, 'v) btree_map = "('k \<times> 'v) list"
type_synonym 'k btree_set = "'k list"

abbreviation bt_wf :: "('k::linorder, 'v) btree_map \<Rightarrow> bool" where
  "bt_wf m \<equiv> sorted_wrt (<) (map fst m)"

abbreviation bs_wf :: "'k::linorder btree_set \<Rightarrow> bool" where
  "bs_wf s \<equiv> sorted_wrt (<) s"

abbreviation bt_get :: "('k, 'v) btree_map \<Rightarrow> 'k \<Rightarrow> 'v option" where
  "bt_get \<equiv> map_of"

fun bt_insert :: "'k::linorder \<Rightarrow> 'v \<Rightarrow> ('k, 'v) btree_map \<Rightarrow> ('k, 'v) btree_map" where
  "bt_insert k v [] = [(k, v)]"
| "bt_insert k v ((k', v') # m) =
     (if k < k' then (k, v) # (k', v') # m
      else if k = k' then (k, v) # m
      else (k', v') # bt_insert k v m)"

definition bt_remove :: "'k \<Rightarrow> ('k, 'v) btree_map \<Rightarrow> ('k, 'v) btree_map" where
  "bt_remove k m = filter (\<lambda>(k', _). k' \<noteq> k) m"

fun bs_insert :: "'k::linorder \<Rightarrow> 'k btree_set \<Rightarrow> 'k btree_set" where
  "bs_insert k [] = [k]"
| "bs_insert k (k' # s) =
     (if k < k' then k # k' # s else if k = k' then k' # s else k' # bs_insert k s)"

definition bs_extend :: "'k::linorder list \<Rightarrow> 'k btree_set \<Rightarrow> 'k btree_set" where
  "bs_extend xs s = fold bs_insert xs s"

definition bs_of :: "'k::linorder list \<Rightarrow> 'k btree_set" where
  "bs_of xs = bs_extend xs []"

lemma bt_get_insert [simp, btree_simps]: "bt_get (bt_insert k v m) = (bt_get m)(k \<mapsto> v)"
  by (induction k v m rule: bt_insert.induct) auto

lemma bt_get_remove [simp, btree_simps]: "bt_get (bt_remove k m) = (bt_get m)(k := None)"
  by (induction m) (auto simp: bt_remove_def)

lemma bt_insert_keys: "fst ` set (bt_insert k v m) = insert k (fst ` set m)"
  by (induction k v m rule: bt_insert.induct) auto

lemma bt_insert_wf [simp, btree_simps]: "bt_wf m \<Longrightarrow> bt_wf (bt_insert k v m)"
proof (induction k v m rule: bt_insert.induct)
  case (2 k v k' v' m)
  have "set (map fst (bt_insert k v m)) = insert k (set (map fst m))"
    using bt_insert_keys[of k v m] by simp
  with 2 show ?case by auto
qed simp

lemma bt_remove_wf [simp, btree_simps]: "bt_wf m \<Longrightarrow> bt_wf (bt_remove k m)"
  by (induction m) (auto simp: bt_remove_def)

lemma bt_wf_distinct: "bt_wf m \<Longrightarrow> distinct (map fst m)"
  by (induction m) auto

lemma bt_get_mem: "bt_wf m \<Longrightarrow> (k, v) \<in> set m \<longleftrightarrow> bt_get m k = Some v"
  by (simp add: bt_wf_distinct)

lemma set_bs_insert [simp, btree_simps]: "set (bs_insert k s) = insert k (set s)"
  by (induction s) auto

lemma bs_insert_wf [simp, btree_simps]: "bs_wf s \<Longrightarrow> bs_wf (bs_insert k s)"
  by (induction s) auto

lemma set_bs_extend [simp, btree_simps]: "set (bs_extend xs s) = set xs \<union> set s"
  unfolding bs_extend_def by (induction xs arbitrary: s) auto

lemma bs_extend_wf [simp, btree_simps]: "bs_wf s \<Longrightarrow> bs_wf (bs_extend xs s)"
  unfolding bs_extend_def by (induction xs arbitrary: s) auto

lemma set_bs_of [simp, btree_simps]: "set (bs_of xs) = set xs"
  by (simp add: bs_of_def)

lemma bs_of_wf [simp, btree_simps]: "bs_wf (bs_of xs)"
  by (simp add: bs_of_def)

lemma bs_wf_distinct: "bs_wf s \<Longrightarrow> distinct s"
  by (induction s) auto

lemma bs_wf_filter [simp]: "bs_wf s \<Longrightarrow> bs_wf (filter P s)"
  by (induction s) auto

lemma bs_wf_eq: "bs_wf s \<Longrightarrow> bs_wf t \<Longrightarrow> set s = set t \<Longrightarrow> s = t"
  by (rule strict_sorted_equal)

lemma bt_rebuild: "distinct (map fst m) \<Longrightarrow> map (\<lambda>k. (k, the (bt_get m k))) (map fst m) = m"
  by (auto intro!: map_idI)

lemma bt_wf_eqI:
  assumes "bt_wf m" and "bt_wf n" and "bt_get m = bt_get n"
  shows "m = n"
proof -
  have "set (map fst m) = set (map fst n)"
    using assms(3) by (metis dom_map_of_conv_image_fst list.set_map)
  then have "map fst m = map fst n" using assms(1,2) bs_wf_eq by blast
  then show ?thesis using assms bt_rebuild[of m] bt_rebuild[of n] bt_wf_distinct by metis
qed

lemma bt_wf_set_eqI:
  assumes "bt_wf m" and "bt_wf n" and "\<And>k v. (k, v) \<in> set m \<longleftrightarrow> (k, v) \<in> set n"
  shows "m = n"
proof (rule bt_wf_eqI[OF assms(1,2)])
  have "bt_get m k = Some v \<longleftrightarrow> bt_get n k = Some v" for k v
    using assms(3) bt_get_mem[OF assms(1)] bt_get_mem[OF assms(2)] by blast
  then show "bt_get m = bt_get n" by (metis ext not_Some_eq)
qed

end
