(* ===== verification/Rust_Std.thy ===== *)
theory Rust_Std
  imports Prelude
begin

text \<open>
  The parts of Rust's standard library that the modelled sources call: strings as UTF-8 byte
  sequences with their code points, trimming and integer parsing, byte-order conversions of
  machine integers, and the textual forms of IP addresses accepted by \<open>std::net\<close>.
\<close>

section \<open>Strings\<close>

text \<open>
  A Rust \<open>str\<close> is a sequence of UTF-8 bytes; \<^typ>\<open>string\<close> is a list of bytes, so a \<open>str\<close> and a
  \<open>[u8]\<close> have the same representation, \<open>len()\<close> is \<^const>\<open>length\<close> and \<open>as_bytes()\<close> the identity.
  The order of \<open>str\<close> and of \<open>[u8]\<close> is the lexicographic order of bytes, as in
  \<open>HOL-Library.List_Lexorder\<close>.
\<close>

type_synonym bytes = string

abbreviation (input) byte :: "nat \<Rightarrow> char" where
  "byte n \<equiv> char_of n"

abbreviation (input) byte_val :: "char \<Rightarrow> nat" where
  "byte_val c \<equiv> of_char c"

text \<open>
  A code point is represented by the bytes that encode it: the first byte of every code point is
  not of the form \<open>10xxxxxx\<close>, the others are. On valid UTF-8 \<open>utf8_chars\<close> is \<open>chars()\<close>.
\<close>

definition is_continuation :: "char \<Rightarrow> bool" where
  "is_continuation c = (128 \<le> byte_val c \<and> byte_val c < 192)"

fun utf8_chars :: "string \<Rightarrow> string list" where
  "utf8_chars [] = []"
| "utf8_chars (c # cs) =
     (case utf8_chars cs of
        [] \<Rightarrow> [[c]]
      | g # gs \<Rightarrow> if is_continuation (hd g) then (c # g) # gs else [c] # g # gs)"

definition chars_count :: "string \<Rightarrow> nat" where
  "chars_count s = length (utf8_chars s)"

lemma utf8_chars_nonempty: "g \<in> set (utf8_chars s) \<Longrightarrow> g \<noteq> []"
  by (induction s arbitrary: g rule: utf8_chars.induct) (auto split: list.splits if_splits)

lemma concat_utf8_chars: "concat (utf8_chars s) = s"
  by (induction s rule: utf8_chars.induct) (auto split: list.splits)

lemma chars_count_le_length: "chars_count s \<le> length s"
  unfolding chars_count_def
  by (induction s rule: utf8_chars.induct) (auto split: list.splits)

text \<open>\<open>char::is_whitespace\<close>: the code points with the Unicode property \<open>White_Space\<close>.\<close>

definition is_whitespace :: "string \<Rightarrow> bool" where
  "is_whitespace g = (map byte_val g \<in> set (
     [[9], [10], [11], [12], [13], [32], [194, 133], [194, 160], [225, 154, 128]]
     @ map (\<lambda>b. [226, 128, b]) ([128..<139] @ [168, 169, 175])
     @ [[226, 129, 159], [227, 128, 128 :: nat]]))"

definition str_trim :: "string \<Rightarrow> string" where
  "str_trim s = concat (rev (dropWhile is_whitespace (rev (dropWhile is_whitespace (utf8_chars s)))))"

definition is_ascii_digit :: "char \<Rightarrow> bool" where
  "is_ascii_digit c = (48 \<le> byte_val c \<and> byte_val c \<le> 57)"

definition digit_val :: "char \<Rightarrow> nat" where
  "digit_val c = byte_val c - 48"

definition decimal :: "string \<Rightarrow> nat" where
  "decimal s = foldl (\<lambda>a c. a * 10 + digit_val c) 0 s"

definition i64_range :: "int \<Rightarrow> bool" where
  "i64_range i = (- (2 ^ 63) \<le> i \<and> i < 2 ^ 63)"

text \<open>\<open>str::parse::<i64>\<close>: an optional sign and at least one digit, within range.\<close>

definition parse_i64 :: "string \<Rightarrow> int option" where
  "parse_i64 s =
     (let (neg, ds) = (case s of
            c # cs \<Rightarrow> (if c = CHR ''-'' then (True, cs) else if c = CHR ''+'' then (False, cs) else (False, s))
          | [] \<Rightarrow> (False, []))
      in if ds = [] \<or> \<not> list_all is_ascii_digit ds then None
         else let v = (if neg then - int (decimal ds) else int (decimal ds))
              in if i64_range v then Some v else None)"

lemma parse_i64_range: "parse_i64 s = Some v \<Longrightarrow> i64_range v"
  by (auto simp: parse_i64_def Let_def split: if_splits list.splits prod.splits)

text \<open>Prefixes, searching and splitting.\<close>

fun strip_prefix :: "'a list \<Rightarrow> 'a list \<Rightarrow> 'a list option" where
  "strip_prefix [] s = Some s"
| "strip_prefix (p # ps) [] = None"
| "strip_prefix (p # ps) (c # cs) = (if p = c then strip_prefix ps cs else None)"

definition starts_with :: "'a list \<Rightarrow> 'a list \<Rightarrow> bool" where
  "starts_with s p = (strip_prefix p s \<noteq> None)"

lemma strip_prefix_eq: "strip_prefix p s = Some r \<longleftrightarrow> s = p @ r"
  by (induction p s rule: strip_prefix.induct) auto

lemma starts_with_iff: "starts_with s p \<longleftrightarrow> (\<exists>r. s = p @ r)"
  by (auto simp: starts_with_def strip_prefix_eq)

text \<open>The byte index of the first occurrence of an ASCII character.\<close>

fun find_char :: "char \<Rightarrow> string \<Rightarrow> nat option" where
  "find_char c [] = None"
| "find_char c (x # xs) = (if x = c then Some 0 else map_option Suc (find_char c xs))"

text \<open>\<open>rsplit_once\<close>: the text before and after the last occurrence.\<close>

fun rsplit_once :: "char \<Rightarrow> string \<Rightarrow> (string \<times> string) option" where
  "rsplit_once c [] = None"
| "rsplit_once c (x # xs) =
     (case rsplit_once c xs of
        Some (a, b) \<Rightarrow> Some (x # a, b)
      | None \<Rightarrow> if x = c then Some ([], xs) else None)"

lemma find_char_Some:
  "find_char c s = Some n \<Longrightarrow> n < length s \<and> s ! n = c \<and> c \<notin> set (take n s)"
  by (induction s arbitrary: n) (auto split: if_splits)

lemma rsplit_once_None: "rsplit_once c s = None \<longleftrightarrow> c \<notin> set s"
  by (induction s) (auto split: option.splits)

lemma rsplit_once_Some: "rsplit_once c s = Some (a, b) \<Longrightarrow> s = a @ c # b \<and> c \<notin> set b"
  by (induction s arbitrary: a b) (auto split: option.splits if_splits simp: rsplit_once_None)

section \<open>Machine integers and their bytes\<close>

type_synonym u8 = "8 word"
type_synonym u16 = "16 word"
type_synonym u32 = "32 word"
type_synonym u64 = "64 word"

fun be_bytes :: "nat \<Rightarrow> nat \<Rightarrow> bytes" where
  "be_bytes 0 x = []"
| "be_bytes (Suc n) x = be_bytes n (x div 256) @ [byte (x mod 256)]"

definition of_be_bytes :: "bytes \<Rightarrow> nat" where
  "of_be_bytes bs = foldl (\<lambda>a c. a * 256 + byte_val c) 0 bs"

definition u16_be :: "u16 \<Rightarrow> bytes" where
  "u16_be w = be_bytes 2 (unat w)"

definition u64_be :: "u64 \<Rightarrow> bytes" where
  "u64_be w = be_bytes 8 (unat w)"

definition u64_from_be :: "bytes \<Rightarrow> u64 option" where
  "u64_from_be bs = (if length bs = 8 then Some (of_nat (of_be_bytes bs)) else None)"

lemma length_be_bytes [simp]: "length (be_bytes n x) = n"
  by (induction n x rule: be_bytes.induct) simp_all

lemma length_u16_be [simp]: "length (u16_be w) = 2"
  by (simp add: u16_be_def)

lemma length_u64_be [simp]: "length (u64_be w) = 8"
  by (simp add: u64_be_def)

lemma of_be_bytes_snoc: "of_be_bytes (bs @ [c]) = of_be_bytes bs * 256 + byte_val c"
  by (simp add: of_be_bytes_def)

lemma of_be_be_bytes: "x < 256 ^ n \<Longrightarrow> of_be_bytes (be_bytes n x) = x"
proof (induction n x rule: be_bytes.induct)
  case (1 x)
  then show ?case by (simp add: of_be_bytes_def)
next
  case (2 n x)
  then have "x div 256 < 256 ^ n" by (simp add: less_mult_imp_div_less)
  with 2 show ?case by (simp add: of_be_bytes_snoc)
qed

lemma unat_u16_lt: "unat (w :: u16) < 256 ^ 2"
  using unsigned_less[of w] by simp

lemma unat_u64_lt: "unat (w :: u64) < 256 ^ 8"
  using unsigned_less[of w] by simp

lemma u64_add_nat: "unat (s :: u64) + m < 2 ^ 64 \<Longrightarrow> unat (s + of_nat m) = unat s + m"
  by (simp add: unat_word_ariths(1) unat_of_nat mod_add_right_eq del: of_nat_Suc)

lemma u64_from_be_be [simp]: "u64_from_be (u64_be w) = Some w"
  unfolding u64_from_be_def using unat_u64_lt[of w] by (simp add: u64_be_def of_be_be_bytes)

lemma u64_be_inject [simp]: "u64_be v = u64_be w \<longleftrightarrow> v = w"
  using u64_from_be_be by (metis option.inject)

lemma u16_be_inject [simp]: "u16_be v = u16_be w \<longleftrightarrow> v = w"
proof
  assume "u16_be v = u16_be w"
  then have "of_be_bytes (be_bytes 2 (unat v)) = of_be_bytes (be_bytes 2 (unat w))"
    by (simp add: u16_be_def)
  then show "v = w" using unat_u16_lt by (simp only: of_be_be_bytes word_unat_eq_iff)
qed simp

text \<open>Big-endian byte strings of the same width are ordered like the numbers.\<close>

lemma lex_append_less:
  fixes xs ys :: "'a::linorder list"
  assumes "length xs = length ys"
  shows "xs @ us < ys @ vs \<longleftrightarrow> xs < ys \<or> xs = ys \<and> us < vs"
  using assms by (induction xs ys rule: list_induct2) auto

lemma lex_prefix_less [simp]:
  fixes p :: "'a::linorder list"
  shows "p @ us < p @ vs \<longleftrightarrow> us < vs"
  by (simp add: lex_append_less)

lemma lex_prefix_le [simp]:
  fixes p :: "'a::linorder list"
  shows "p @ us \<le> p @ vs \<longleftrightarrow> us \<le> vs"
  by (auto simp: order.order_iff_strict)

lemma byte_less: "a < 256 \<Longrightarrow> b < 256 \<Longrightarrow> byte a < byte b \<longleftrightarrow> a < b"
  by (simp add: less_char_def)

lemma nat_less_div_mod:
  "(x :: nat) < y \<longleftrightarrow> x div k < y div k \<or> x div k = y div k \<and> x mod k < y mod k"
  by (metis div_le_mono less_le_not_le linorder_not_le mult_div_mod_eq nat_add_left_cancel_less
      nat_less_le)

lemma be_bytes_less:
  "x < 256 ^ n \<Longrightarrow> y < 256 ^ n \<Longrightarrow> be_bytes n x < be_bytes n y \<longleftrightarrow> x < y"
proof (induction n arbitrary: x y)
  case 0
  then show ?case by simp
next
  case (Suc n)
  have d: "x div 256 < 256 ^ n" "y div 256 < 256 ^ n"
    using Suc.prems by (simp_all add: less_mult_imp_div_less)
  have inj: "be_bytes n (x div 256) = be_bytes n (y div 256) \<longleftrightarrow> x div 256 = y div 256"
    using d of_be_be_bytes by metis
  have "byte (x mod 256) < byte (y mod 256) \<longleftrightarrow> x mod 256 < y mod 256"
    by (simp add: less_char_def)
  then have "be_bytes (Suc n) x < be_bytes (Suc n) y \<longleftrightarrow>
      x div 256 < y div 256 \<or> x div 256 = y div 256 \<and> x mod 256 < y mod 256"
    using Suc.IH[OF d] inj by (simp add: lex_append_less)
  also have "\<dots> \<longleftrightarrow> x < y"
    by (rule nat_less_div_mod[symmetric])
  finally show ?case .
qed

lemma u64_of_nat:
  assumes "a < 2 ^ 64" and "b < 2 ^ 64"
  shows "(of_nat a :: u64) = of_nat b \<longleftrightarrow> a = b" "(of_nat a :: u64) < of_nat b \<longleftrightarrow> a < b"
  using assms by (simp_all add: word_unat_eq_iff word_less_nat_alt unat_of_nat)

lemma u64_be_less [simp]: "u64_be v < u64_be w \<longleftrightarrow> v < w"
  using be_bytes_less[OF unat_u64_lt unat_u64_lt] by (simp add: u64_be_def word_less_nat_alt)

lemma u64_be_le [simp]: "u64_be v \<le> u64_be w \<longleftrightarrow> v \<le> w"
  by (auto simp: order.order_iff_strict)

lemma u16_be_less [simp]: "u16_be v < u16_be w \<longleftrightarrow> v < w"
  using be_bytes_less[OF unat_u16_lt unat_u16_lt] by (simp add: u16_be_def word_less_nat_alt)

section \<open>Addresses\<close>

text \<open>
  The recursive-descent parser of \<open>std::net\<close> for \<open>Ipv4Addr\<close> and \<open>Ipv6Addr\<close>: each reader consumes
  a prefix of the text or fails. Octets have one to three digits without a leading zero; groups have
  one to four hexadecimal digits; an embedded IPv4 address stands for two groups.
\<close>

definition hex_digit :: "nat \<Rightarrow> char \<Rightarrow> nat option" where
  "hex_digit radix c =
     (let b = byte_val c;
          d = (if 48 \<le> b \<and> b \<le> 57 then b - 48
               else if 97 \<le> b \<and> b \<le> 102 then b - 87
               else if 65 \<le> b \<and> b \<le> 70 then b - 55 else 99)
      in if d < radix then Some d else None)"

definition read_number :: "nat \<Rightarrow> nat \<Rightarrow> bool \<Rightarrow> nat \<Rightarrow> string \<Rightarrow> string option" where
  "read_number radix max_digits allow_zero_prefix bound s =
     (let ds = takeWhile (\<lambda>c. hex_digit radix c \<noteq> None) s;
          val = foldl (\<lambda>a c. a * radix + the (hex_digit radix c)) 0 ds
      in if ds = [] \<or> length ds > max_digits
            \<or> (\<not> allow_zero_prefix \<and> hd ds = CHR ''0'' \<and> length ds > 1) \<or> val > bound
         then None else Some (drop (length ds) s))"

definition read_sep :: "char \<Rightarrow> nat \<Rightarrow> (string \<Rightarrow> string option) \<Rightarrow> string \<Rightarrow> string option" where
  "read_sep sep i rd s =
     (if i = 0 then rd s
      else case s of c # cs \<Rightarrow> if c = sep then rd cs else None | [] \<Rightarrow> None)"

definition read_octet :: "string \<Rightarrow> string option" where
  "read_octet = read_number 10 3 False 255"

definition read_ipv4 :: "string \<Rightarrow> string option" where
  "read_ipv4 s =
     Option.bind (read_sep CHR ''.'' 0 read_octet s) (\<lambda>s1.
     Option.bind (read_sep CHR ''.'' 1 read_octet s1) (\<lambda>s2.
     Option.bind (read_sep CHR ''.'' 2 read_octet s2) (\<lambda>s3.
       read_sep CHR ''.'' 3 read_octet s3)))"

text \<open>
  \<open>read_groups n i s\<close> reads groups \<open>i, i + 1, \<dots>\<close> of at most \<open>i + n\<close>: the number of groups read, whether
  the last two were an IPv4 address, and the rest of the text.
\<close>

fun read_groups :: "nat \<Rightarrow> nat \<Rightarrow> string \<Rightarrow> nat \<times> bool \<times> string" where
  "read_groups 0 i s = (i, False, s)"
| "read_groups (Suc n) i s =
     (case (if n > 0 then read_sep CHR '':'' i read_ipv4 s else None) of
        Some r \<Rightarrow> (i + 2, True, r)
      | None \<Rightarrow>
          (case read_sep CHR '':'' i (read_number 16 4 True 65535) s of
             Some r \<Rightarrow> read_groups n (Suc i) r
           | None \<Rightarrow> (i, False, s)))"

definition read_ipv6 :: "string \<Rightarrow> string option" where
  "read_ipv6 s =
     (let (head_size, head_ipv4, r) = read_groups 8 0 s in
      if head_size = 8 then Some r
      else if head_ipv4 then None
      else case r of
             c # d # r' \<Rightarrow>
               if c = CHR '':'' \<and> d = CHR '':''
               then Some (snd (snd (read_groups (8 - (head_size + 1)) 0 r'))) else None
           | _ \<Rightarrow> None)"

definition parses_ipv4 :: "string \<Rightarrow> bool" where
  "parses_ipv4 s = (length s \<le> 15 \<and> read_ipv4 s = Some [])"

definition parses_ipv6 :: "string \<Rightarrow> bool" where
  "parses_ipv6 s = (read_ipv6 s = Some [])"

section \<open>Reversed order\<close>

text \<open>\<open>std::cmp::Reverse\<close>: the order of the wrapped type, reversed.\<close>

datatype 'a reverse = Reverse (unreverse: 'a)

instantiation reverse :: (linorder) linorder
begin

definition less_eq_reverse :: "'a reverse \<Rightarrow> 'a reverse \<Rightarrow> bool" where
  "less_eq_reverse x y = (unreverse y \<le> unreverse x)"

definition less_reverse :: "'a reverse \<Rightarrow> 'a reverse \<Rightarrow> bool" where
  "less_reverse x y = (unreverse y < unreverse x)"

instance
  by standard (auto simp: less_eq_reverse_def less_reverse_def reverse.expand)

end


section \<open>Saturating arithmetic\<close>

definition saturating_add :: "'a::len word \<Rightarrow> 'a word \<Rightarrow> 'a word" where
  "saturating_add a b = (if a + b < a then - 1 else a + b)"

definition saturating_sub :: "'a::len word \<Rightarrow> 'a word \<Rightarrow> 'a word" where
  "saturating_sub a b = (if b \<le> a then a - b else 0)"

section \<open>Decoding UTF-8\<close>

text \<open>
  The decoder behind \<open>String::from_utf8\<close> and \<open>String::from_utf8_lossy\<close>: the next chunk is a code
  point, or the longest proper start of one (at least one byte), which is invalid.
\<close>

definition utf8_next :: "char \<Rightarrow> bytes \<Rightarrow> nat \<times> bool" where
  "utf8_next b0 rest =
     (let x = byte_val b0;
          within = (\<lambda>i lo hi. i < length rest \<and> lo \<le> byte_val (rest ! i) \<and> byte_val (rest ! i) \<le> hi)
      in if x < 128 then (1, True)
         else if 194 \<le> x \<and> x \<le> 223 then
           (if within 0 128 191 then (2, True) else (1, False))
         else if 224 \<le> x \<and> x \<le> 239 then
           (if \<not> within 0 (if x = 224 then 160 else 128) (if x = 237 then 159 else 191) then (1, False)
            else if \<not> within 1 128 191 then (2, False) else (3, True))
         else if 240 \<le> x \<and> x \<le> 244 then
           (if \<not> within 0 (if x = 240 then 144 else 128) (if x = 244 then 143 else 191) then (1, False)
            else if \<not> within 1 128 191 then (2, False)
            else if \<not> within 2 128 191 then (3, False) else (4, True))
         else (1, False))"

fun utf8_chunks :: "bytes \<Rightarrow> (bytes \<times> bool) list" where
  "utf8_chunks [] = []"
| "utf8_chunks (b # bs) =
     (case utf8_next b bs of (n, ok) \<Rightarrow> (b # take (n - 1) bs, ok) # utf8_chunks (drop (n - 1) bs))"

definition from_utf8 :: "bytes \<Rightarrow> string option" where
  "from_utf8 b = (if list_all snd (utf8_chunks b) then Some b else None)"

definition from_utf8_lossy :: "bytes \<Rightarrow> string" where
  "from_utf8_lossy b =
     concat (map (\<lambda>(c, ok). if ok then c else [byte 239, byte 191, byte 189]) (utf8_chunks b))"

abbreviation valid_utf8 :: "bytes \<Rightarrow> bool" where
  "valid_utf8 b \<equiv> list_all snd (utf8_chunks b)"

lemma concat_utf8_chunks: "concat (map fst (utf8_chunks b)) = b"
  by (induction b rule: utf8_chunks.induct) (auto split: prod.split)

lemma from_utf8_Some: "from_utf8 b = Some s \<longleftrightarrow> s = b \<and> valid_utf8 b"
  by (auto simp: from_utf8_def)

lemma from_utf8_lossy_valid [simp]:
  assumes "valid_utf8 b"
  shows "from_utf8_lossy b = b"
proof -
  have "map (\<lambda>(c, ok). if ok then c else [byte 239, byte 191, byte 189]) (utf8_chunks b) = map fst (utf8_chunks b)"
    using assms by (auto simp: list_all_iff)
  then show ?thesis unfolding from_utf8_lossy_def by (simp only: concat_utf8_chunks)
qed

lemma ascii_valid: "\<forall>c \<in> set b. byte_val c < (128 :: nat) \<Longrightarrow> valid_utf8 b"
  by (induction b rule: utf8_chunks.induct) (auto simp: utf8_next_def)

text \<open>The text before the first separator, as \<open>split(sep).next()\<close> yields it.\<close>

definition split_first :: "char \<Rightarrow> string \<Rightarrow> string" where
  "split_first sep s = takeWhile (\<lambda>c. c \<noteq> sep) s"

definition ends_with :: "'a list \<Rightarrow> 'a list \<Rightarrow> bool" where
  "ends_with s p = starts_with (rev s) (rev p)"

lemma ends_with_iff: "ends_with s p \<longleftrightarrow> (\<exists>r. s = r @ p)"
  unfolding ends_with_def starts_with_iff by (metis rev_append rev_rev_ident)

end
