(* ===== verification/Canonical_Json.thy ===== *)
theory Canonical_Json
  imports Rust_Std
begin

text \<open>
  Canonical JSON values as the sources see them through \<open>ruma\<close>: a \<open>CanonicalJsonObject\<close> is a
  \<open>BTreeMap<String, CanonicalJsonValue>\<close>. The record \<open>ruma\<close> collects the operations of that crate
  that the modelled code calls; it is a parameter of every definition that needs one of them.
\<close>

datatype json =
    JNull
  | JBool bool
  | JInt int
  | JStr string
  | JArr "json list"
  | JObj "(string \<times> json) list"

type_synonym jobj = "(string, json) btree_map"

text \<open>The integers of canonical JSON are those of \<open>js_int\<close>: at most 53 bits.\<close>

definition js_int_max :: int where
  "js_int_max = 2 ^ 53 - 1"

text \<open>
  The operations of \<open>ruma\<close>: identifier grammars and server names, reference hashes, canonical
  serialisation, redaction, and signature checking. \<open>'v\<close> is the room version.
\<close>

datatype verified = VerifiedAll | VerifiedSignatures

type_synonym public_key_map = "(string, (string, string) btree_map) btree_map"

record 'v ruma =
  user_id_ok :: "string \<Rightarrow> bool"
  room_id_ok :: "string \<Rightarrow> bool"
  event_id_ok :: "string \<Rightarrow> bool"
  user_server_name :: "string \<Rightarrow> string"
  room_server_name :: "string \<Rightarrow> string option"
  reference_hash :: "jobj \<Rightarrow> 'v \<Rightarrow> string option"
  json_to_string :: "jobj \<Rightarrow> string option"
  signing_string :: "jobj \<Rightarrow> string option"
  base64_parse :: "string \<Rightarrow> bytes option"
  ed25519_verify :: "bytes \<Rightarrow> bytes \<Rightarrow> bytes \<Rightarrow> bool"
  ruma_verify_event :: "public_key_map \<Rightarrow> jobj \<Rightarrow> 'v \<Rightarrow> string + verified"
  ruma_redact :: "jobj \<Rightarrow> 'v \<Rightarrow> string + jobj"

fun str_prop :: "jobj \<Rightarrow> string \<Rightarrow> string option" where
  "str_prop obj key = (case bt_get obj key of Some (JStr s) \<Rightarrow> Some s | _ \<Rightarrow> None)"

fun obj_prop :: "jobj \<Rightarrow> string \<Rightarrow> jobj option" where
  "obj_prop obj key = (case bt_get obj key of Some (JObj v) \<Rightarrow> Some v | _ \<Rightarrow> None)"

text \<open>
  A concrete instance of the parameter, for closed examples: identifiers are recognised by their
  sigil, the server name is what follows the first colon, keys and signatures verify when equal.
\<close>

definition after_colon :: "string \<Rightarrow> string" where
  "after_colon s = tl (dropWhile (\<lambda>c. c \<noteq> CHR '':'') s)"

definition sample_ruma :: "'v ruma" where
  "sample_ruma = \<lparr>
     user_id_ok = (\<lambda>s. starts_with s ''@'' \<and> CHR '':'' \<in> set s),
     room_id_ok = (\<lambda>s. starts_with s ''!''),
     event_id_ok = (\<lambda>s. starts_with s ''$''),
     user_server_name = after_colon,
     room_server_name = (\<lambda>s. if CHR '':'' \<in> set s then Some (after_colon s) else None),
     reference_hash = (\<lambda>raw v. Some ''h''),
     json_to_string = (\<lambda>raw. Some (concat (map fst raw))),
     signing_string = (\<lambda>raw. Some (concat (map fst raw))),
     base64_parse = Some,
     ed25519_verify = (\<lambda>k sig m. k = sig),
     ruma_verify_event = (\<lambda>keys raw v. if keys = [] then Inl ''no keys'' else Inr VerifiedAll),
     ruma_redact = (\<lambda>raw v. Inr [])\<rparr>"

declare str_prop.simps [simp del] obj_prop.simps [simp del]

end
