(* ===== verification/Acl.thy ===== *)
theory Acl
  imports Canonical_Json
begin

text \<open>
  Server access control lists (\<open>acl.rs\<close>): parsing of the content, the host part of a server name,
  the glob matcher with its iterative backtracking, and the admission decision. The matcher is
  proved equal to the recursive reading of globs.
\<close>

record server_acl =
  allow :: "string list"
  deny :: "string list"
  allow_ip_literals :: bool

definition acl_list :: "jobj \<Rightarrow> string \<Rightarrow> string list" where
  "acl_list c key =
     (case bt_get c key of
        Some (JArr a) \<Rightarrow> List.map_filter (\<lambda>j. case j of JStr s \<Rightarrow> Some s | _ \<Rightarrow> None) a
      | _ \<Rightarrow> [])"

definition acl_from_content :: "jobj \<Rightarrow> server_acl" where
  "acl_from_content c =
     \<lparr>allow = acl_list c ''allow'', deny = acl_list c ''deny'',
      allow_ip_literals = (bt_get c ''allow_ip_literals'' \<noteq> Some (JBool False))\<rparr>"

definition host_without_port :: "string \<Rightarrow> string" where
  "host_without_port name =
     (case strip_prefix ''['' name of
        Some rest \<Rightarrow>
          (case find_char CHR '']'' rest of
             Some i \<Rightarrow> take (i + 2) name
           | None \<Rightarrow> name)
      | None \<Rightarrow>
          (case rsplit_once CHR '':'' name of
             Some (host, port) \<Rightarrow>
               if port \<noteq> [] \<and> list_all is_ascii_digit port then host else name
           | None \<Rightarrow> name))"

definition strip_suffix_char :: "char \<Rightarrow> string \<Rightarrow> string option" where
  "strip_suffix_char c s = (if s \<noteq> [] \<and> last s = c then Some (butlast s) else None)"

definition is_ip_literal :: "string \<Rightarrow> bool" where
  "is_ip_literal host =
     (case Option.bind (strip_prefix ''['' host) (strip_suffix_char CHR '']'') of
        Some inner \<Rightarrow> parses_ipv6 inner
      | None \<Rightarrow> parses_ipv4 host)"

section \<open>The glob matcher\<close>

text \<open>
  The loop runs over code points: \<open>pi\<close> and \<open>ti\<close> are the positions in pattern and text, \<open>star\<close> the
  position of the last asterisk passed and \<open>mark\<close> the text position it currently extends to.
\<close>

fun skip_stars :: "string list \<Rightarrow> bool" where
  "skip_stars [] = True"
| "skip_stars (c # cs) = (c = ''*'' \<and> skip_stars cs)"

function glob_loop :: "string list \<Rightarrow> string list \<Rightarrow> nat \<Rightarrow> nat \<Rightarrow> nat option \<Rightarrow> nat \<Rightarrow> bool" where
  "glob_loop p t pi ti star mark =
     (if ti < length t then
        (if pi < length p \<and> (p ! pi = ''?'' \<or> p ! pi = t ! ti)
         then glob_loop p t (pi + 1) (ti + 1) star mark
         else if pi < length p \<and> p ! pi = ''*''
         then glob_loop p t (pi + 1) ti (Some pi) ti
         else case star of
                Some sp \<Rightarrow> glob_loop p t (sp + 1) (mark + 1) star (mark + 1)
              | None \<Rightarrow> False)
      else skip_stars (drop pi p))"
  by pat_completeness auto
termination
  by (relation "measures [\<lambda>(p, t, pi, ti, star, mark). length t - min mark ti,
                          \<lambda>(p, t, pi, ti, star, mark). length p - pi]") auto

declare glob_loop.simps [simp del]

definition glob_match :: "string \<Rightarrow> string \<Rightarrow> bool" where
  "glob_match pattern s = glob_loop (utf8_chars pattern) (utf8_chars s) 0 0 None 0"

definition is_allowed :: "server_acl \<Rightarrow> string \<Rightarrow> bool" where
  "is_allowed acl server_name =
     (let host = host_without_port server_name in
      if is_ip_literal host \<and> \<not> allow_ip_literals acl then False
      else if list_ex (\<lambda>g. glob_match g server_name) (deny acl) then False
      else list_ex (\<lambda>g. glob_match g server_name) (allow acl))"

section \<open>The reading of globs\<close>

fun glob_spec :: "string list \<Rightarrow> string list \<Rightarrow> bool" where
  "glob_spec [] t = (t = [])"
| "glob_spec (c # p) [] = (c = ''*'' \<and> glob_spec p [])"
| "glob_spec (c # p) (x # t) =
     (if c = ''*'' then glob_spec p (x # t) \<or> glob_spec (c # p) t
      else (c = ''?'' \<or> c = x) \<and> glob_spec p t)"

lemma glob_spec_star: "glob_spec (''*'' # p) t \<longleftrightarrow> (\<exists>k \<le> length t. glob_spec p (drop k t))"
proof (induction t)
  case (Cons x t)
  have "(\<exists>k \<le> length (x # t). glob_spec p (drop k (x # t))) \<longleftrightarrow>
        glob_spec p (x # t) \<or> (\<exists>k \<le> length t. glob_spec p (drop k t))"
    by (metis Suc_le_mono drop0 drop_Suc_Cons length_Cons not0_implies_Suc zero_le)
  with Cons.IH show ?case by simp
qed simp

lemma glob_spec_plain_append:
  assumes "''*'' \<notin> set seg" and "glob_spec (seg @ p) t"
  shows "length seg \<le> length t \<and> glob_spec p (drop (length seg) t)"
  using assms
proof (induction seg arbitrary: t)
  case (Cons c seg)
  then show ?case by (cases t) (auto split: if_splits)
qed simp

lemma glob_spec_nil_iff: "glob_spec p [] \<longleftrightarrow> skip_stars p"
  by (induction p) simp_all

text \<open>
  The invariant of the loop: since the last asterisk, the pattern segment passed is free of
  asterisks and was matched against the text between \<open>mark\<close> and \<open>ti\<close>.
\<close>

definition glob_inv :: "string list \<Rightarrow> nat \<Rightarrow> nat \<Rightarrow> nat option \<Rightarrow> nat \<Rightarrow> bool" where
  "glob_inv p pi ti star mark \<longleftrightarrow> pi \<le> length p \<and>
     (case star of None \<Rightarrow> True
      | Some sp \<Rightarrow> sp < pi \<and> mark \<le> ti \<and> ti - mark = pi - Suc sp \<and>
                  ''*'' \<notin> set (take (pi - Suc sp) (drop (Suc sp) p)))"

definition glob_goal :: "string list \<Rightarrow> string list \<Rightarrow> nat \<Rightarrow> nat \<Rightarrow> nat option \<Rightarrow> nat \<Rightarrow> bool" where
  "glob_goal p t pi ti star mark \<longleftrightarrow> glob_spec (drop pi p) (drop ti t) \<or>
     (case star of None \<Rightarrow> False
      | Some sp \<Rightarrow> \<exists>k. mark < k \<and> k \<le> length t \<and> glob_spec (drop (Suc sp) p) (drop k t))"

text \<open>Once a later asterisk is reached, giving the earlier one more text cannot help.\<close>

lemma glob_star_absorbs:
  assumes inv: "glob_inv p pi ti (Some sp) mark" and pi: "pi < length p" "p ! pi = ''*''"
    and k: "mark < k" "k \<le> length t" "glob_spec (drop (Suc sp) p) (drop k t)"
  shows "glob_spec (drop pi p) (drop ti t)"
proof -
  let ?n = "pi - Suc sp"
  have seg: "drop (Suc sp) p = take ?n (drop (Suc sp) p) @ drop pi p"
    using inv append_take_drop_id[of ?n "drop (Suc sp) p"] by (simp add: glob_inv_def)
  have len: "length (take ?n (drop (Suc sp) p)) = ?n" using inv pi by (simp add: glob_inv_def)
  have "?n \<le> length (drop k t) \<and> glob_spec (drop pi p) (drop ?n (drop k t))"
    using glob_spec_plain_append[of "take ?n (drop (Suc sp) p)" "drop pi p" "drop k t"] k(3) inv seg len
    by (simp add: glob_inv_def)
  then have fit: "?n + k \<le> length t" and rest: "glob_spec (drop pi p) (drop (?n + k) t)"
    using k(2) by (auto simp: add.commute)
  have p: "drop pi p = ''*'' # drop (Suc pi) p" using pi by (metis Cons_nth_drop_Suc)
  from rest obtain j where j: "j \<le> length t - (?n + k)" "glob_spec (drop (Suc pi) p) (drop (?n + k + j) t)"
    unfolding p glob_spec_star by (auto simp: add.commute add.left_commute)
  have ti: "ti \<le> ?n + k" using inv k(1) by (auto simp: glob_inv_def)
  define i where "i = ?n + k + j - ti"
  have "ti + i = ?n + k + j" using ti by (simp add: i_def)
  then have "i \<le> length (drop ti t) \<and> glob_spec (drop (Suc pi) p) (drop i (drop ti t))"
    using j fit by (simp add: add.commute)
  then show ?thesis unfolding p glob_spec_star by blast
qed

lemma ex_drop_shift:
  assumes "m \<le> length t"
  shows "(\<exists>k \<ge> m. k \<le> length t \<and> P (drop k t)) \<longleftrightarrow> (\<exists>k \<le> length (drop m t). P (drop k (drop m t)))"
proof
  assume "\<exists>k \<ge> m. k \<le> length t \<and> P (drop k t)"
  then obtain k where "m \<le> k" "k \<le> length t" "P (drop k t)" by blast
  then show "\<exists>k \<le> length (drop m t). P (drop k (drop m t))" by (intro exI[of _ "k - m"]) simp
next
  assume "\<exists>k \<le> length (drop m t). P (drop k (drop m t))"
  then obtain k where "k \<le> length t - m" "P (drop (k + m) t)" by auto
  with assms show "\<exists>k \<ge> m. k \<le> length t \<and> P (drop k t)" by (intro exI[of _ "k + m"]) simp
qed

lemma glob_goal_star:
  assumes "glob_inv p pi ti star mark" and pi: "pi < length p" "p ! pi = ''*''" and ti: "ti < length t"
  shows "glob_goal p t (pi + 1) ti (Some pi) ti \<longleftrightarrow> glob_goal p t pi ti star mark"
proof -
  have p: "drop pi p = ''*'' # drop (Suc pi) p" using pi by (metis Cons_nth_drop_Suc)
  have "glob_goal p t (pi + 1) ti (Some pi) ti \<longleftrightarrow> (\<exists>k \<ge> ti. k \<le> length t \<and> glob_spec (drop (Suc pi) p) (drop k t))"
    using ti by (auto simp: glob_goal_def order.order_iff_strict)
  also have "\<dots> \<longleftrightarrow> glob_spec (drop pi p) (drop ti t)"
    unfolding p glob_spec_star using ti by (intro ex_drop_shift) simp
  also have "\<dots> \<longleftrightarrow> glob_goal p t pi ti star mark"
    using assms glob_star_absorbs[of p pi ti _ mark _ t] by (auto simp: glob_goal_def split: option.splits)
  finally show ?thesis .
qed

lemma glob_goal_end:
  assumes inv: "glob_inv p pi ti star mark" and ti: "ti = length t"
  shows "glob_goal p t pi ti star mark \<longleftrightarrow> skip_stars (drop pi p)"
proof -
  have False if star: "star = Some sp" and k: "mark < k" "k \<le> length t"
    "glob_spec (drop (Suc sp) p) (drop k t)" for sp k
  proof -
    let ?n = "pi - Suc sp"
    have "drop (Suc sp) p = take ?n (drop (Suc sp) p) @ drop pi p"
      using inv star append_take_drop_id[of ?n "drop (Suc sp) p"] by (simp add: glob_inv_def)
    then have "length (take ?n (drop (Suc sp) p)) \<le> length (drop k t)"
      using glob_spec_plain_append[of "take ?n (drop (Suc sp) p)" "drop pi p" "drop k t"] k(3) inv star
      by (simp add: glob_inv_def)
    with inv star k ti show False by (auto simp: glob_inv_def)
  qed
  then show ?thesis using ti by (auto simp: glob_goal_def glob_spec_nil_iff split: option.splits)
qed

lemma glob_goal_match:
  assumes "pi < length p" "ti < length t" "p ! pi = ''?'' \<or> p ! pi = t ! ti" "p ! pi \<noteq> ''*''"
  shows "glob_goal p t (pi + 1) (ti + 1) star mark \<longleftrightarrow> glob_goal p t pi ti star mark"
proof -
  have "drop pi p = p ! pi # drop (Suc pi) p" "drop ti t = t ! ti # drop (Suc ti) t"
    using assms by (simp_all add: Cons_nth_drop_Suc)
  with assms(3,4) have "glob_spec (drop pi p) (drop ti t) \<longleftrightarrow> glob_spec (drop (Suc pi) p) (drop (Suc ti) t)"
    by simp
  then show ?thesis by (simp add: glob_goal_def)
qed

lemma glob_inv_match:
  assumes "glob_inv p pi ti star mark" "pi < length p" "p ! pi \<noteq> ''*''"
  shows "glob_inv p (pi + 1) (ti + 1) star mark"
proof (cases star)
  case (Some sp)
  with assms have "Suc pi - Suc sp = Suc (pi - Suc sp)" "drop (Suc sp) p ! (pi - Suc sp) = p ! pi"
    by (auto simp: glob_inv_def)
  with assms Some show ?thesis
    by (auto simp: glob_inv_def take_Suc_conv_app_nth)
qed (use assms in \<open>simp add: glob_inv_def\<close>)

lemma glob_goal_mismatch:
  assumes "ti < length t" "\<not> (pi < length p \<and> (p ! pi = ''?'' \<or> p ! pi = t ! ti))"
    "\<not> (pi < length p \<and> p ! pi = ''*'')"
  shows "\<not> glob_spec (drop pi p) (drop ti t)"
proof (cases "pi < length p")
  case True
  have "drop pi p = p ! pi # drop (Suc pi) p" "drop ti t = t ! ti # drop (Suc ti) t"
    using True assms by (simp_all add: Cons_nth_drop_Suc)
  with True assms show ?thesis by simp
qed (use assms in simp)

lemma glob_tail_split:
  assumes "Suc mark \<le> length t"
  shows "(\<exists>k. mark < k \<and> k \<le> length t \<and> P (drop k t)) \<longleftrightarrow>
    P (drop (Suc mark) t) \<or> (\<exists>k. Suc mark < k \<and> k \<le> length t \<and> P (drop k t))"
  using assms by (metis Suc_lessD Suc_lessI lessI)

lemma glob_loop_end: "\<not> ti < length t \<Longrightarrow> glob_loop p t pi ti star mark = skip_stars (drop pi p)"
  by (rule trans[OF glob_loop.simps]) (simp only: if_False)

lemma glob_loop_correct:
  assumes "glob_inv p pi ti star mark" and "ti \<le> length t" and "''*'' \<notin> set t"
  shows "glob_loop p t pi ti star mark = glob_goal p t pi ti star mark"
  using assms
proof (induction p t pi ti star mark rule: glob_loop.induct)
  case (1 p t pi ti star mark)
  let ?match = "pi < length p \<and> (p ! pi = ''?'' \<or> p ! pi = t ! ti)"
  let ?star = "pi < length p \<and> p ! pi = ''*''"
  consider (fin) "ti = length t"
    | (match) "ti < length t" and "?match"
    | (asterisk) "ti < length t" and "\<not> ?match" and "?star"
    | (again) "ti < length t" and "\<not> ?match" and "\<not> ?star"
    using "1.prems"(2) by linarith
  then show ?case
  proof cases
    case fin
    have "glob_loop p t pi ti star mark = skip_stars (drop pi p)" by (rule glob_loop_end) (simp add: fin)
    then show ?thesis using glob_goal_end[OF "1.prems"(1) fin] by (rule trans[OF _ sym])
  next
    case match
    have "t ! ti \<in> set t" using match(1) by simp
    then have ns: "p ! pi \<noteq> ''*''" using match(2) "1.prems"(3) by auto
    have "glob_loop p t (pi + 1) (ti + 1) star mark = glob_goal p t (pi + 1) (ti + 1) star mark"
      using match ns glob_inv_match[OF "1.prems"(1)] "1.prems"(3) by (intro "1.IH"(1)) simp_all
    then show ?thesis
      using match glob_goal_match[of pi p ti t star mark] ns by (simp add: glob_loop.simps[of p t pi ti])
  next
    case asterisk
    have "glob_loop p t (pi + 1) ti (Some pi) ti = glob_goal p t (pi + 1) ti (Some pi) ti"
      using asterisk "1.prems" by (intro "1.IH"(2)) (simp_all add: glob_inv_def)
    then show ?thesis
      using asterisk glob_goal_star[OF "1.prems"(1) _ _ asterisk(1)] by (simp add: glob_loop.simps[of p t pi ti])
  next
    case again
    note no = glob_goal_mismatch[OF again]
    show ?thesis
    proof (cases star)
      case None
      with again no show ?thesis by (auto simp: glob_loop.simps[of p t pi ti] glob_goal_def)
    next
      case (Some sp)
      have m: "Suc mark \<le> length t" using "1.prems"(1) Some again(1) by (simp add: glob_inv_def)
      have "glob_loop p t (sp + 1) (mark + 1) star (mark + 1)
          = glob_goal p t (sp + 1) (mark + 1) star (mark + 1)"
        using again Some "1.prems" m by (intro "1.IH"(3)) (simp_all add: glob_inv_def)
      moreover have "\<dots> = glob_goal p t pi ti star mark"
        using Some no m glob_tail_split[of mark t "glob_spec (drop (Suc sp) p)"] by (simp add: glob_goal_def)
      ultimately show ?thesis using again Some by (auto simp: glob_loop.simps[of p t pi ti])
    qed
  qed
qed

lemma glob_match_spec:
  assumes "''*'' \<notin> set (utf8_chars s)"
  shows "glob_match pattern s = glob_spec (utf8_chars pattern) (utf8_chars s)"
  using glob_loop_correct[of "utf8_chars pattern" 0 0 None 0 "utf8_chars s"] assms
  by (simp add: glob_match_def glob_inv_def glob_goal_def)

section \<open>Who may participate\<close>

text \<open>
  C31: For a server name free of asterisks (every valid one is), \<open>is_allowed\<close> decides exactly this
  policy: the host, without its port, is not an unpermitted IP literal, no \<open>deny\<close> glob matches the
  name, and at least one \<open>allow\<close> glob does, where a glob matches in the declarative sense of
  \<open>glob_spec\<close> (an asterisk stands for any run of characters, a question mark for exactly one).
  The globs are matched against the whole name as it was sent, port included, as the comment in the
  body of the function has it; its doc comment says that the port is stripped first, which the code does
  for the IP literals only. The iterative backtracking of \<open>glob_match\<close> is thereby shown equivalent to
  the declarative reading.
\<close>

theorem is_allowed_exact:
  assumes "''*'' \<notin> set (utf8_chars name)"
  shows "is_allowed acl name \<longleftrightarrow>
    (is_ip_literal (host_without_port name) \<longrightarrow> allow_ip_literals acl) \<and>
    (\<forall>g \<in> set (deny acl). \<not> glob_spec (utf8_chars g) (utf8_chars name)) \<and>
    (\<exists>g \<in> set (allow acl). glob_spec (utf8_chars g) (utf8_chars name))"
  using glob_match_spec[OF assms] by (auto simp: is_allowed_def Let_def list_ex_iff)

theorem is_allowed_exact_witness:
  "''*'' \<notin> set (utf8_chars ''ok.example:8448'') \<and>
   is_allowed \<lparr>allow = [''*''], deny = [''*.evil''], allow_ip_literals = False\<rparr> ''ok.example:8448'' \<and>
   \<not> is_allowed \<lparr>allow = [''*''], deny = [''*.evil''], allow_ip_literals = False\<rparr> ''a.evil''"
proof -
  let ?acl = "\<lparr>allow = [''*''], deny = [''*.evil''], allow_ip_literals = False\<rparr>"
  have ok: "''*'' \<notin> set (utf8_chars ''ok.example:8448'')" "''*'' \<notin> set (utf8_chars ''a.evil'')"
    by code_simp+
  have "is_ip_literal (host_without_port ''ok.example:8448'') = False"
    "glob_spec (utf8_chars ''*.evil'') (utf8_chars ''ok.example:8448'') = False"
    "glob_spec (utf8_chars ''*'') (utf8_chars ''ok.example:8448'')"
    "glob_spec (utf8_chars ''*.evil'') (utf8_chars ''a.evil'')"
    by code_simp+
  then show ?thesis using is_allowed_exact[OF ok(1), of ?acl] is_allowed_exact[OF ok(2), of ?acl] ok(1)
    by simp
qed

text \<open>
  The matcher treats an asterisk of the text literally before it tries the asterisk of the
  pattern as a wildcard, so the documented rule that an asterisk matches any run of characters
  fails once the text itself holds one: the pattern \<open>*\<close> does not match the text \<open>*a\<close>, although
  the declarative reading matches it.
\<close>

theorem glob_match_star_in_text:
  "\<not> glob_match ''*'' ''*a'' \<and> glob_spec (utf8_chars ''*'') (utf8_chars ''*a'')"
  by code_simp

end
