(* ===== verification/Room_Version.thy ===== *)
theory Room_Version
  imports Canonical_Json
begin

text \<open>
  Room versions 8 to 12 and the gates that depend on them (\<open>room_version.rs\<close>).
\<close>

datatype room_version = V8 | V9 | V10 | V11 | V12

datatype state_res_version = SR_V2 | SR_V2_1

datatype unsupported_room_version = UnsupportedRoomVersion string

fun version_rank :: "room_version \<Rightarrow> nat" where
  "version_rank V8 = 0"
| "version_rank V9 = 1"
| "version_rank V10 = 2"
| "version_rank V11 = 3"
| "version_rank V12 = 4"

lemma version_rank_inject: "version_rank v = version_rank w \<longleftrightarrow> v = w"
  by (cases v; cases w) simp_all

instantiation room_version :: linorder
begin

definition less_eq_room_version :: "room_version \<Rightarrow> room_version \<Rightarrow> bool" where
  "less_eq_room_version v w = (version_rank v \<le> version_rank w)"

definition less_room_version :: "room_version \<Rightarrow> room_version \<Rightarrow> bool" where
  "less_room_version v w = (version_rank v < version_rank w)"

instance
  by standard (auto simp: less_eq_room_version_def less_room_version_def version_rank_inject)

end

definition default_version :: room_version where
  "default_version = V12"

definition parse_version :: "string \<Rightarrow> unsupported_room_version + room_version" where
  "parse_version s =
     (if s = ''8'' then Inr V8
      else if s = ''9'' then Inr V9
      else if s = ''10'' then Inr V10
      else if s = ''11'' then Inr V11
      else if s = ''12'' then Inr V12
      else Inl (UnsupportedRoomVersion s))"

fun version_str :: "room_version \<Rightarrow> string" where
  "version_str V8 = ''8''"
| "version_str V9 = ''9''"
| "version_str V10 = ''10''"
| "version_str V11 = ''11''"
| "version_str V12 = ''12''"

definition all_versions :: "room_version list" where
  "all_versions = [V8, V9, V10, V11, V12]"

definition room_id_is_create_event_id :: "room_version \<Rightarrow> bool" where
  "room_id_is_create_event_id v = (v \<ge> V12)"

definition strict_byte_limits :: "room_version \<Rightarrow> bool" where
  "strict_byte_limits v = (v \<ge> V11)"

definition create_event_in_auth_events :: "room_version \<Rightarrow> bool" where
  "create_event_in_auth_events v = (v \<le> V11)"

definition creator_in_create_content :: "room_version \<Rightarrow> bool" where
  "creator_in_create_content v = (v \<le> V10)"

definition lenient_power_levels :: "room_version \<Rightarrow> bool" where
  "lenient_power_levels v = (v \<le> V9)"

definition privileged_creators :: "room_version \<Rightarrow> bool" where
  "privileged_creators v = (v \<ge> V12)"

fun state_res :: "room_version \<Rightarrow> state_res_version" where
  "state_res V12 = SR_V2_1"
| "state_res _ = SR_V2"

lemmas version_gates =
  room_id_is_create_event_id_def strict_byte_limits_def create_event_in_auth_events_def
  creator_in_create_content_def lenient_power_levels_def privileged_creators_def
  less_eq_room_version_def less_room_version_def

text \<open>The gates on one version each; used to evaluate concrete cases.\<close>

lemma gate_eqs [simp]:
  "room_id_is_create_event_id v \<longleftrightarrow> v = V12"
  "privileged_creators v \<longleftrightarrow> v = V12"
  "create_event_in_auth_events v \<longleftrightarrow> v \<noteq> V12"
  by (cases v; simp add: version_gates)+

lemma gate_lenient [simp]: "lenient_power_levels v \<longleftrightarrow> v = V8 \<or> v = V9"
  by (cases v) (simp_all add: version_gates)

lemma gate_creator [simp]: "creator_in_create_content v \<longleftrightarrow> v = V8 \<or> v = V9 \<or> v = V10"
  by (cases v) (simp_all add: version_gates)

lemma gate_strict [simp]: "strict_byte_limits v \<longleftrightarrow> v = V11 \<or> v = V12"
  by (cases v) (simp_all add: version_gates)

text \<open>
  Parsing accepts exactly the five supported versions, and printing a version and parsing the
  text gives the version back.
\<close>

theorem parse_version_exact:
  "parse_version s = Inr v \<longleftrightarrow> s = version_str v"
  by (cases v) (auto simp: parse_version_def)

end
