(* ===== verification/Event.thy ===== *)
theory Event
  imports Room_Version
begin

text \<open>
  The event representation of \<open>event.rs\<close>: the typed view \<open>Pdu\<close> of a raw canonical object, the
  conversions between the two, event and room identifiers as reference hashes, and the accessors
  of the trait \<open>Event\<close> for \<open>IdentifiedPdu\<close>. The texts inside \<open>EventFormatError\<close> come from the
  JSON library and are not represented.
\<close>

record pdu =
  pdu_room_id :: "string option"
  pdu_sender :: string
  pdu_origin_server_ts :: nat
  pdu_event_type :: string
  pdu_state_key :: "string option"
  pdu_content :: jobj
  pdu_auth_events :: "string list"
  pdu_prev_events :: "string list"
  pdu_depth :: nat
  pdu_hashes :: "string option"
  pdu_signatures :: jobj
  pdu_unsigned :: "jobj option"

datatype event_format_error = Shape | Canonical

section \<open>Parsing the typed view\<close>

text \<open>
  One function per field type of the derived deserialiser: a required or optional string with the
  grammar of an identifier, an unsigned integer, an object, a list of identifiers, the \<open>hashes\<close>
  structure. An absent or \<open>null\<close> optional field is \<open>None\<close>.
\<close>

definition de_string :: "(string \<Rightarrow> bool) \<Rightarrow> json option \<Rightarrow> event_format_error + string" where
  "de_string ok v = (case v of Some (JStr s) \<Rightarrow> if ok s then Inr s else Inl Shape | _ \<Rightarrow> Inl Shape)"

definition de_opt :: "(json option \<Rightarrow> event_format_error + 'a) \<Rightarrow> json option \<Rightarrow> event_format_error + 'a option" where
  "de_opt de v = (case v of None \<Rightarrow> Inr None | Some JNull \<Rightarrow> Inr None
                  | Some j \<Rightarrow> rbind (de (Some j)) (\<lambda>a. Inr (Some a)))"

definition de_uint :: "json option \<Rightarrow> event_format_error + nat" where
  "de_uint v = (case v of
     Some (JInt i) \<Rightarrow> if 0 \<le> i \<and> i \<le> js_int_max then Inr (nat i) else Inl Shape
   | _ \<Rightarrow> Inl Shape)"

definition de_obj :: "json option \<Rightarrow> event_format_error + jobj" where
  "de_obj v = (case v of Some (JObj m) \<Rightarrow> Inr m | _ \<Rightarrow> Inl Shape)"

fun de_elems :: "(string \<Rightarrow> bool) \<Rightarrow> json list \<Rightarrow> event_format_error + string list" where
  "de_elems ok [] = Inr []"
| "de_elems ok (j # js) =
     rbind (de_string ok (Some j)) (\<lambda>s. rbind (de_elems ok js) (\<lambda>ss. Inr (s # ss)))"

definition de_list :: "(string \<Rightarrow> bool) \<Rightarrow> json option \<Rightarrow> event_format_error + string list" where
  "de_list ok v = (case v of Some (JArr js) \<Rightarrow> de_elems ok js | _ \<Rightarrow> Inl Shape)"

definition de_hashes :: "json option \<Rightarrow> event_format_error + string" where
  "de_hashes v = (case v of
     Some (JObj m) \<Rightarrow> de_string (\<lambda>_. True) (bt_get m ''sha256'')
   | Some (JArr [j]) \<Rightarrow> de_string (\<lambda>_. True) (Some j)
   | _ \<Rightarrow> Inl Shape)"

definition from_canonical :: "'v ruma \<Rightarrow> jobj \<Rightarrow> event_format_error + pdu" where
  "from_canonical R raw =
     rbind (de_opt (de_string (room_id_ok R)) (bt_get raw ''room_id'')) (\<lambda>rid.
     rbind (de_string (user_id_ok R) (bt_get raw ''sender'')) (\<lambda>snd.
     rbind (de_uint (bt_get raw ''origin_server_ts'')) (\<lambda>ts.
     rbind (de_string (\<lambda>_. True) (bt_get raw ''type'')) (\<lambda>ty.
     rbind (de_opt (de_string (\<lambda>_. True)) (bt_get raw ''state_key'')) (\<lambda>sk.
     rbind (de_obj (bt_get raw ''content'')) (\<lambda>c.
     rbind (de_list (event_id_ok R) (bt_get raw ''auth_events'')) (\<lambda>auth.
     rbind (de_list (event_id_ok R) (bt_get raw ''prev_events'')) (\<lambda>prev.
     rbind (de_uint (bt_get raw ''depth'')) (\<lambda>d.
     rbind (de_opt de_hashes (bt_get raw ''hashes'')) (\<lambda>h.
     rbind (case bt_get raw ''signatures'' of None \<Rightarrow> Inr [] | v \<Rightarrow> de_obj v) (\<lambda>sigs.
     rbind (de_opt de_obj (bt_get raw ''unsigned'')) (\<lambda>u.
       Inr \<lparr>pdu_room_id = rid, pdu_sender = snd, pdu_origin_server_ts = ts, pdu_event_type = ty,
            pdu_state_key = sk, pdu_content = c, pdu_auth_events = auth, pdu_prev_events = prev,
            pdu_depth = d, pdu_hashes = h, pdu_signatures = sigs, pdu_unsigned = u\<rparr>))))))))))))"

text \<open>
  Serialisation writes the fields in key order; a field that \<open>skip_serializing_if\<close> leaves out
  has no value here.
\<close>

definition pdu_fields :: "pdu \<Rightarrow> (string \<times> json option) list" where
  "pdu_fields p =
     [(''auth_events'', Some (JArr (map JStr (pdu_auth_events p)))),
      (''content'', Some (JObj (pdu_content p))),
      (''depth'', Some (JInt (int (pdu_depth p)))),
      (''hashes'', map_option (\<lambda>h. JObj [(''sha256'', JStr h)]) (pdu_hashes p)),
      (''origin_server_ts'', Some (JInt (int (pdu_origin_server_ts p)))),
      (''prev_events'', Some (JArr (map JStr (pdu_prev_events p)))),
      (''room_id'', map_option JStr (pdu_room_id p)),
      (''sender'', Some (JStr (pdu_sender p))),
      (''signatures'', if pdu_signatures p = [] then None else Some (JObj (pdu_signatures p))),
      (''state_key'', map_option JStr (pdu_state_key p)),
      (''type'', Some (JStr (pdu_event_type p))),
      (''unsigned'', map_option JObj (pdu_unsigned p))]"

fun present :: "('k \<times> 'v option) list \<Rightarrow> ('k \<times> 'v) list" where
  "present [] = []"
| "present ((k, None) # fs) = present fs"
| "present ((k, Some v) # fs) = (k, v) # present fs"

definition to_canonical :: "pdu \<Rightarrow> event_format_error + jobj" where
  "to_canonical p =
     (if int (pdu_origin_server_ts p) \<le> js_int_max \<and> int (pdu_depth p) \<le> js_int_max
      then Inr (present (pdu_fields p))
      else Inl Canonical)"

section \<open>Identifiers\<close>

definition compute_event_id :: "room_version ruma \<Rightarrow> jobj \<Rightarrow> room_version \<Rightarrow> event_format_error + string" where
  "compute_event_id R raw v =
     rbind (ok_or Canonical (reference_hash R raw v)) (\<lambda>hash.
       let eid = CHR ''$'' # hash in if event_id_ok R eid then Inr eid else Inl Shape)"

definition room_id_for_create :: "room_version ruma \<Rightarrow> jobj \<Rightarrow> room_version \<Rightarrow> event_format_error + string" where
  "room_id_for_create R raw v =
     rbind (ok_or Canonical (reference_hash R raw v)) (\<lambda>hash.
       let rid = CHR ''!'' # hash in if room_id_ok R rid then Inr rid else Inl Shape)"

record identified_pdu =
  ip_event_id :: string
  ip_pdu :: pdu

definition identify :: "room_version ruma \<Rightarrow> jobj \<Rightarrow> room_version \<Rightarrow> event_format_error + identified_pdu" where
  "identify R raw v =
     rbind (compute_event_id R raw v) (\<lambda>eid.
     rbind (from_canonical R raw) (\<lambda>p. Inr \<lparr>ip_event_id = eid, ip_pdu = p\<rparr>))"

text \<open>The accessors of the trait \<open>Event\<close>.\<close>

definition event_id :: "identified_pdu \<Rightarrow> string" where
  "event_id e = ip_event_id e"

definition room_id :: "identified_pdu \<Rightarrow> string option" where
  "room_id e = pdu_room_id (ip_pdu e)"

definition sender :: "identified_pdu \<Rightarrow> string" where
  "sender e = pdu_sender (ip_pdu e)"

definition event_type :: "identified_pdu \<Rightarrow> string" where
  "event_type e = pdu_event_type (ip_pdu e)"

definition state_key :: "identified_pdu \<Rightarrow> string option" where
  "state_key e = pdu_state_key (ip_pdu e)"

definition content :: "identified_pdu \<Rightarrow> jobj" where
  "content e = pdu_content (ip_pdu e)"

definition origin_server_ts :: "identified_pdu \<Rightarrow> nat" where
  "origin_server_ts e = pdu_origin_server_ts (ip_pdu e)"

definition auth_events :: "identified_pdu \<Rightarrow> string list" where
  "auth_events e = pdu_auth_events (ip_pdu e)"

definition prev_events :: "identified_pdu \<Rightarrow> string list" where
  "prev_events e = pdu_prev_events (ip_pdu e)"

definition is_state :: "identified_pdu \<Rightarrow> bool" where
  "is_state e = (state_key e \<noteq> None)"

lemmas event_accessors = event_id_def room_id_def sender_def event_type_def state_key_def
  content_def origin_server_ts_def auth_events_def prev_events_def is_state_def

section \<open>Round trip\<close>

definition pdu_wf :: "'v ruma \<Rightarrow> pdu \<Rightarrow> bool" where
  "pdu_wf R p \<longleftrightarrow>
     (\<forall>r. pdu_room_id p = Some r \<longrightarrow> room_id_ok R r) \<and> user_id_ok R (pdu_sender p) \<and>
     list_all (event_id_ok R) (pdu_auth_events p) \<and> list_all (event_id_ok R) (pdu_prev_events p) \<and>
     int (pdu_origin_server_ts p) \<le> js_int_max \<and> int (pdu_depth p) \<le> js_int_max"

lemma de_elems_ok: "de_elems ok js = Inr ss \<longleftrightarrow> js = map JStr ss \<and> list_all ok ss"
proof (induction js arbitrary: ss)
  case (Cons j js)
  then show ?case
    by (cases j; cases ss) (auto simp: de_string_def)
qed auto

lemma de_string_ok: "de_string ok v = Inr s \<longleftrightarrow> v = Some (JStr s) \<and> ok s"
  by (auto simp: de_string_def split: option.splits json.splits)

lemma de_uint_ok: "de_uint v = Inr n \<longleftrightarrow> v = Some (JInt (int n)) \<and> int n \<le> js_int_max"
  by (auto simp: de_uint_def split: option.splits json.splits if_splits)

lemma de_obj_ok: "de_obj v = Inr m \<longleftrightarrow> v = Some (JObj m)"
  by (auto simp: de_obj_def split: option.splits json.splits)

lemma de_list_ok: "de_list ok v = Inr ss \<longleftrightarrow> v = Some (JArr (map JStr ss)) \<and> list_all ok ss"
  by (auto simp: de_list_def de_elems_ok split: option.splits json.splits)

lemmas de_ok = de_string_ok de_uint_ok de_obj_ok de_list_ok

lemma de_opt_None: "de_opt de None = Inr None"
  by (simp add: de_opt_def)

lemma de_opt_Some: "j \<noteq> JNull \<Longrightarrow> de_opt de (Some j) = rbind (de (Some j)) (\<lambda>a. Inr (Some a))"
  by (cases j) (simp_all add: de_opt_def)

lemma bt_get_present:
  "distinct (map fst fs) \<Longrightarrow> bt_get (present fs) k = (case map_of fs k of Some v \<Rightarrow> v | None \<Rightarrow> None)"
proof (induction fs rule: present.induct)
  case (2 k' fs)
  then have "map_of fs k' = None" by (simp add: map_of_eq_None_iff)
  with 2 show ?case by (cases "k = k'") simp_all
qed auto

text \<open>Every property of the typed view is found again at its own key of the serialised object.\<close>

lemma to_canonical_get:
  assumes "to_canonical p = Inr raw"
  shows "bt_get raw ''room_id'' = map_option JStr (pdu_room_id p)"
    and "bt_get raw ''sender'' = Some (JStr (pdu_sender p))"
    and "bt_get raw ''origin_server_ts'' = Some (JInt (int (pdu_origin_server_ts p)))"
    and "bt_get raw ''type'' = Some (JStr (pdu_event_type p))"
    and "bt_get raw ''state_key'' = map_option JStr (pdu_state_key p)"
    and "bt_get raw ''content'' = Some (JObj (pdu_content p))"
    and "bt_get raw ''auth_events'' = Some (JArr (map JStr (pdu_auth_events p)))"
    and "bt_get raw ''prev_events'' = Some (JArr (map JStr (pdu_prev_events p)))"
    and "bt_get raw ''depth'' = Some (JInt (int (pdu_depth p)))"
    and "bt_get raw ''hashes'' = map_option (\<lambda>h. JObj [(''sha256'', JStr h)]) (pdu_hashes p)"
    and "bt_get raw ''signatures'' =
           (if pdu_signatures p = [] then None else Some (JObj (pdu_signatures p)))"
    and "bt_get raw ''unsigned'' = map_option JObj (pdu_unsigned p)"
proof -
  have d: "distinct (map fst (pdu_fields p))" by (simp add: pdu_fields_def)
  have raw: "raw = present (pdu_fields p)"
    using assms by (simp add: to_canonical_def split: if_splits)
  have look: "bt_get raw k = (case map_of (pdu_fields p) k of Some v \<Rightarrow> v | None \<Rightarrow> None)" for k
    unfolding raw by (rule bt_get_present[OF d])
  note get = look pdu_fields_def
  show "bt_get raw ''room_id'' = map_option JStr (pdu_room_id p)" by (simp add: get)
  show "bt_get raw ''sender'' = Some (JStr (pdu_sender p))" by (simp add: get)
  show "bt_get raw ''origin_server_ts'' = Some (JInt (int (pdu_origin_server_ts p)))"
    by (simp add: get)
  show "bt_get raw ''type'' = Some (JStr (pdu_event_type p))" by (simp add: get)
  show "bt_get raw ''state_key'' = map_option JStr (pdu_state_key p)" by (simp add: get)
  show "bt_get raw ''content'' = Some (JObj (pdu_content p))" by (simp add: get)
  show "bt_get raw ''auth_events'' = Some (JArr (map JStr (pdu_auth_events p)))"
    by (simp add: get)
  show "bt_get raw ''prev_events'' = Some (JArr (map JStr (pdu_prev_events p)))"
    by (simp add: get)
  show "bt_get raw ''depth'' = Some (JInt (int (pdu_depth p)))" by (simp add: get)
  show "bt_get raw ''hashes'' = map_option (\<lambda>h. JObj [(''sha256'', JStr h)]) (pdu_hashes p)"
    by (simp add: get)
  show "bt_get raw ''signatures'' =
      (if pdu_signatures p = [] then None else Some (JObj (pdu_signatures p)))"
    by (simp add: get)
  show "bt_get raw ''unsigned'' = map_option JObj (pdu_unsigned p)" by (simp add: get)
qed

lemma de_opt_string: "de_opt (de_string ok) (map_option JStr v) = Inr v \<longleftrightarrow> (\<forall>s. v = Some s \<longrightarrow> ok s)"
  by (cases v) (auto simp: de_opt_def de_string_def)

lemma from_to_canonical:
  assumes "pdu_wf R p" and raw: "to_canonical p = Inr raw"
  shows "from_canonical R raw = Inr p"
proof -
  note get = to_canonical_get[OF raw]
  have h: "de_opt de_hashes (map_option (\<lambda>h. JObj [(''sha256'', JStr h)]) x) = Inr x" for x
    by (cases x) (simp_all add: de_opt_def de_hashes_def de_string_def)
  have u: "de_opt de_obj (map_option JObj x) = Inr x" for x
    by (cases x) (simp_all add: de_opt_def de_obj_def)
  have s: "(case (if x = [] then None else Some (JObj x)) of None \<Rightarrow> Inr [] | v \<Rightarrow> de_obj v) = Inr x" for x
    by (simp add: de_obj_def)
  have strs: "de_opt (de_string (room_id_ok R)) (map_option JStr (pdu_room_id p)) = Inr (pdu_room_id p)"
    "de_opt (de_string (\<lambda>_. True)) (map_option JStr (pdu_state_key p)) = Inr (pdu_state_key p)"
    "de_string (user_id_ok R) (Some (JStr (pdu_sender p))) = Inr (pdu_sender p)"
    "de_string (\<lambda>_. True) (Some (JStr (pdu_event_type p))) = Inr (pdu_event_type p)"
    "de_list (event_id_ok R) (Some (JArr (map JStr (pdu_auth_events p)))) = Inr (pdu_auth_events p)"
    "de_list (event_id_ok R) (Some (JArr (map JStr (pdu_prev_events p)))) = Inr (pdu_prev_events p)"
    using assms(1) by (simp_all add: pdu_wf_def de_opt_string de_ok)
  have nums: "de_uint (Some (JInt (int (pdu_origin_server_ts p)))) = Inr (pdu_origin_server_ts p)"
    "de_uint (Some (JInt (int (pdu_depth p)))) = Inr (pdu_depth p)"
    "de_obj (Some (JObj (pdu_content p))) = Inr (pdu_content p)"
    using assms(1) by (simp_all add: pdu_wf_def de_ok)
  show ?thesis
    unfolding from_canonical_def get h u s strs nums rbind.simps by simp
qed

lemma de_opt_string_Some: "de_opt (de_string ok) v = Inr (Some s) \<Longrightarrow> ok s"
  by (cases "v = Some JNull"; cases v) (auto simp: de_opt_None de_opt_Some de_ok, simp add: de_opt_def)

lemma from_canonical_wf:
  assumes "from_canonical R raw = Inr p"
  shows "pdu_wf R p"
  using assms unfolding from_canonical_def rbind_eq_Inr
  by (elim exE conjE) (auto simp only: pdu_wf_def de_ok pdu.simps sum.inject dest: de_opt_string_Some)

text \<open>
  C32: The typed view survives serialisation. Whatever \<open>Pdu::from_canonical\<close> accepts can be
  serialised by \<open>to_canonical\<close>, and parsing the result gives the same typed event: unknown
  properties of the raw object are dropped once, and nothing else changes.
\<close>

theorem pdu_canonical_roundtrip:
  assumes "from_canonical R raw = Inr p"
  shows "\<exists>raw'. to_canonical p = Inr raw' \<and> from_canonical R raw' = Inr p"
proof -
  have wf: "pdu_wf R p" using assms by (rule from_canonical_wf)
  then obtain raw' where "to_canonical p = Inr raw'" by (auto simp: pdu_wf_def to_canonical_def)
  with from_to_canonical[OF wf] show ?thesis by blast
qed

end
