(* ===== verification/Validation.thy ===== *)
theory Validation
  imports Event
begin

text \<open>
  The structural gate of an event (\<open>validation.rs\<close>): size of the canonical form, typed shape,
  per-field limits, reference counts, the hashes and signatures a complete event carries, and the
  rule on \<open>room_id\<close>. Signature checking and redaction delegate to \<open>ruma\<close>, a parameter.
\<close>

definition MAX_PDU_BYTES :: nat where "MAX_PDU_BYTES = 65536"
definition MAX_TYPE_BYTES :: nat where "MAX_TYPE_BYTES = 255"
definition MAX_STATE_KEY_BYTES :: nat where "MAX_STATE_KEY_BYTES = 255"
definition MAX_AUTH_EVENTS :: nat where "MAX_AUTH_EVENTS = 10"
definition MAX_PREV_EVENTS :: nat where "MAX_PREV_EVENTS = 20"

lemmas size_limits = MAX_PDU_BYTES_def MAX_TYPE_BYTES_def MAX_STATE_KEY_BYTES_def
  MAX_AUTH_EVENTS_def MAX_PREV_EVENTS_def

datatype malformed_cause = Unserializable | BadFormat event_format_error

datatype validation_error =
    TooLarge nat
  | Malformed malformed_cause
  | FieldTooLong string nat
  | TooManyRefs string nat nat
  | MissingField string
  | CreateWithRoomId

definition field_len :: "room_version \<Rightarrow> string \<Rightarrow> nat" where
  "field_len v s = (if strict_byte_limits v then length s else chars_count s)"

definition is_create_pdu :: "pdu \<Rightarrow> bool" where
  "is_create_pdu p = (pdu_event_type p = ''m.room.create'' \<and> pdu_state_key p = Some '''')"

definition check_limits :: "room_version \<Rightarrow> pdu \<Rightarrow> validation_error + unit" where
  "check_limits v p =
     (if field_len v (pdu_event_type p) > MAX_TYPE_BYTES
      then Inl (FieldTooLong ''type'' MAX_TYPE_BYTES)
      else if (case pdu_state_key p of Some sk \<Rightarrow> field_len v sk > MAX_STATE_KEY_BYTES | None \<Rightarrow> False)
      then Inl (FieldTooLong ''state_key'' MAX_STATE_KEY_BYTES)
      else if length (pdu_auth_events p) > MAX_AUTH_EVENTS
      then Inl (TooManyRefs ''auth_events'' (length (pdu_auth_events p)) MAX_AUTH_EVENTS)
      else if length (pdu_prev_events p) > MAX_PREV_EVENTS
      then Inl (TooManyRefs ''prev_events'' (length (pdu_prev_events p)) MAX_PREV_EVENTS)
      else Inr ())"

definition check_complete :: "room_version \<Rightarrow> pdu \<Rightarrow> validation_error + unit" where
  "check_complete v p =
     (if pdu_hashes p = None then Inl (MissingField ''hashes'')
      else if pdu_signatures p = [] then Inl (MissingField ''signatures'')
      else if room_id_is_create_event_id v \<and> is_create_pdu p
      then if pdu_room_id p \<noteq> None then Inl CreateWithRoomId else Inr ()
      else if pdu_room_id p = None then Inl (MissingField ''room_id'')
      else Inr ())"

definition validate_pdu :: "'v ruma \<Rightarrow> jobj \<Rightarrow> room_version \<Rightarrow> validation_error + pdu" where
  "validate_pdu R raw v =
     (case json_to_string R raw of
        None \<Rightarrow> Inl (Malformed Unserializable)
      | Some canonical \<Rightarrow>
          if length canonical > MAX_PDU_BYTES then Inl (TooLarge (length canonical))
          else case from_canonical R raw of
            Inl e \<Rightarrow> Inl (Malformed (BadFormat e))
          | Inr p \<Rightarrow> rbind (check_limits v p) (\<lambda>_. rbind (check_complete v p) (\<lambda>_. Inr p)))"

datatype verify_outcome = Verified | SignedButHashMismatch

datatype verification_error = VerificationError string

definition verify_event ::
  "room_version ruma \<Rightarrow> jobj \<Rightarrow> room_version \<Rightarrow> public_key_map \<Rightarrow> verification_error + verify_outcome" where
  "verify_event R raw v keys =
     (case ruma_verify_event R keys raw v of
        Inr VerifiedAll \<Rightarrow> Inr Verified
      | Inr VerifiedSignatures \<Rightarrow> Inr SignedButHashMismatch
      | Inl e \<Rightarrow> Inl (VerificationError e))"

definition redact :: "room_version ruma \<Rightarrow> jobj \<Rightarrow> room_version \<Rightarrow> verification_error + jobj" where
  "redact R raw v = (case ruma_redact R raw v of Inr o' \<Rightarrow> Inr o' | Inl e \<Rightarrow> Inl (VerificationError e))"

section \<open>What passes\<close>

lemma check_limits_ok:
  "check_limits v p = Inr () \<longleftrightarrow>
     field_len v (pdu_event_type p) \<le> MAX_TYPE_BYTES \<and>
     (\<forall>sk. pdu_state_key p = Some sk \<longrightarrow> field_len v sk \<le> MAX_STATE_KEY_BYTES) \<and>
     length (pdu_auth_events p) \<le> MAX_AUTH_EVENTS \<and> length (pdu_prev_events p) \<le> MAX_PREV_EVENTS"
  by (auto simp: check_limits_def not_less split: option.splits)

lemma check_complete_ok:
  "check_complete v p = Inr () \<longleftrightarrow>
     pdu_hashes p \<noteq> None \<and> pdu_signatures p \<noteq> [] \<and>
     (pdu_room_id p = None \<longleftrightarrow> room_id_is_create_event_id v \<and> is_create_pdu p)"
  by (auto simp: check_complete_def)

text \<open>
  \<open>validate_pdu\<close> accepts exactly the events whose canonical form is at most 65536 bytes, that
  have the typed shape \<open>from_canonical\<close> reads, whose \<open>type\<close> and \<open>state_key\<close> are at most 255 long
  (bytes from version 11 on, code points before), with at most 10 \<open>auth_events\<close> and 20
  \<open>prev_events\<close>, that carry hashes and a signature, and whose \<open>room_id\<close> is absent precisely on
  the create events of version 12 and later. It returns the typed view unchanged.
\<close>

theorem validate_pdu_exact:
  "validate_pdu R raw v = Inr p \<longleftrightarrow>
     (\<exists>canonical. json_to_string R raw = Some canonical \<and> length canonical \<le> MAX_PDU_BYTES) \<and>
     from_canonical R raw = Inr p \<and>
     field_len v (pdu_event_type p) \<le> MAX_TYPE_BYTES \<and>
     (\<nexists>sk. pdu_state_key p = Some sk \<and> field_len v sk > MAX_STATE_KEY_BYTES) \<and>
     length (pdu_auth_events p) \<le> MAX_AUTH_EVENTS \<and> length (pdu_prev_events p) \<le> MAX_PREV_EVENTS \<and>
     pdu_hashes p \<noteq> None \<and> pdu_signatures p \<noteq> [] \<and>
     (pdu_room_id p = None \<longleftrightarrow> room_id_is_create_event_id v \<and> is_create_pdu p)"
proof -
  have "validate_pdu R raw v = Inr p \<longleftrightarrow>
     (\<exists>canonical. json_to_string R raw = Some canonical \<and> length canonical \<le> MAX_PDU_BYTES) \<and>
     from_canonical R raw = Inr p \<and> check_limits v p = Inr () \<and> check_complete v p = Inr ()"
    by (auto simp: validate_pdu_def not_less split: option.splits sum.splits)
  then show ?thesis unfolding check_limits_ok check_complete_ok by (auto simp: not_less)
qed

text \<open>
  Moving a room to byte limits only tightens the gate: apart from the rule on create events,
  an event that version 11 accepts is accepted by every earlier version too.
\<close>

theorem byte_limits_tighten:
  assumes "validate_pdu R raw V11 = Inr p" and "v \<le> V11"
  shows "validate_pdu R raw v = Inr p"
proof -
  have "field_len v s \<le> field_len V11 s" for s
    using chars_count_le_length[of s] by (simp add: field_len_def)
  then have "check_limits V11 p = Inr () \<Longrightarrow> check_limits v p = Inr ()"
    unfolding check_limits_ok by (meson order_trans)
  moreover have "check_complete V11 p = Inr () \<Longrightarrow> check_complete v p = Inr ()"
    unfolding check_complete_ok using assms(2) by (cases v) (auto simp: version_gates)
  ultimately show ?thesis
    using assms(1) by (auto simp: validate_pdu_def split: option.splits if_splits sum.splits)
qed

end
