(* ===== verification/Power_Levels.thy ===== *)
theory Power_Levels
  imports Event
begin

text \<open>
  Power levels of a room-state snapshot (\<open>power_levels.rs\<close>): the level type with its order, the
  set of room creators, the resolution of an \<open>m.room.power_levels\<close> content into levels, and the
  lookups the authorisation rules make. \<open>MalformedState\<close> carries the cause in place of the text.
\<close>

section \<open>Levels\<close>

datatype power_level = PLInt int | Infinite

fun level_le :: "power_level \<Rightarrow> power_level \<Rightarrow> bool" where
  "level_le Infinite Infinite = True"
| "level_le Infinite (PLInt _) = False"
| "level_le (PLInt _) Infinite = True"
| "level_le (PLInt a) (PLInt b) = (a \<le> b)"

instantiation power_level :: linorder
begin

definition less_eq_power_level :: "power_level \<Rightarrow> power_level \<Rightarrow> bool" where
  "less_eq_power_level = level_le"

definition less_power_level :: "power_level \<Rightarrow> power_level \<Rightarrow> bool" where
  "less_power_level p q = (p \<le> q \<and> \<not> q \<le> p)"

instance
proof
  fix x y z :: power_level
  show "x < y \<longleftrightarrow> x \<le> y \<and> \<not> y \<le> x" by (simp add: less_power_level_def)
  show "x \<le> x" by (cases x) (simp_all add: less_eq_power_level_def)
  show "x \<le> y \<Longrightarrow> y \<le> z \<Longrightarrow> x \<le> z" by (cases x; cases y; cases z) (simp_all add: less_eq_power_level_def)
  show "x \<le> y \<Longrightarrow> y \<le> x \<Longrightarrow> x = y" by (cases x; cases y) (simp_all add: less_eq_power_level_def)
  show "x \<le> y \<or> y \<le> x" by (cases x; cases y) (auto simp: less_eq_power_level_def)
qed

end

lemma power_level_le [simp, code]:
  "Infinite \<le> Infinite \<longleftrightarrow> True" "Infinite \<le> PLInt a \<longleftrightarrow> False" "PLInt a \<le> Infinite \<longleftrightarrow> True" "PLInt a \<le> PLInt b \<longleftrightarrow> a \<le> b"
  by (simp_all add: less_eq_power_level_def)

lemma power_level_order [simp]: "PLInt a < PLInt b \<longleftrightarrow> a < b" "PLInt a < Infinite"
  unfolding less_power_level_def by auto

lemma power_level_not_above [simp]: "\<not> Infinite < p"
  unfolding less_power_level_def by (cases p) simp_all

lemma power_level_top [simp]: "p \<le> Infinite"
  by (cases p) simp_all

definition satisfies :: "power_level \<Rightarrow> int \<Rightarrow> bool" where
  "satisfies p level = (p \<ge> PLInt level)"

lemma satisfies_simps [simp]:
  "satisfies Infinite l" "satisfies (PLInt a) l \<longleftrightarrow> l \<le> a"
  by (simp_all add: satisfies_def)

section \<open>Creators\<close>

definition creators :: "'v ruma \<Rightarrow> room_version \<Rightarrow> identified_pdu \<Rightarrow> string btree_set" where
  "creators R v create =
     (let named = (if creator_in_create_content v then
                     (case bt_get (content create) ''creator'' of
                        Some (JStr s) \<Rightarrow> if user_id_ok R s then Some s else None
                      | _ \<Rightarrow> None)
                   else None);
          set0 = [case named of Some u \<Rightarrow> u | None \<Rightarrow> sender create]
      in if privileged_creators v then
           (case bt_get (content create) ''additional_creators'' of
              Some (JArr extra) \<Rightarrow>
                fold (\<lambda>j acc. case j of JStr s \<Rightarrow> if user_id_ok R s then bs_insert s acc else acc
                              | _ \<Rightarrow> acc) extra set0
            | _ \<Rightarrow> set0)
         else set0)"

section \<open>Resolution\<close>

definition level_value :: "json \<Rightarrow> bool \<Rightarrow> int option" where
  "level_value v lenient =
     (case v of
        JInt i \<Rightarrow> Some i
      | JStr s \<Rightarrow> if lenient then parse_i64 (str_trim s) else None
      | _ \<Rightarrow> None)"

datatype malformed_state =
    NotInteger string
  | NotIntegerEntry string string
  | NotObject string
  | NotUserId string

record room_power_levels =
  rpl_version :: room_version
  rpl_creators :: "string btree_set"
  has_pl_event :: bool
  users :: "(string, int) btree_map"
  users_default :: int
  events :: "(string, int) btree_map"
  events_default :: int
  state_default :: int
  ban :: int
  kick :: int
  redact :: int
  invite :: int

definition int_prop :: "jobj \<Rightarrow> string \<Rightarrow> int \<Rightarrow> bool \<Rightarrow> malformed_state + int" where
  "int_prop c key dflt lenient =
     (case bt_get c key of
        None \<Rightarrow> Inr dflt
      | Some v \<Rightarrow> ok_or (NotInteger key) (level_value v lenient))"

definition int_map :: "jobj \<Rightarrow> string \<Rightarrow> bool \<Rightarrow> malformed_state + (string, int) btree_map" where
  "int_map c key lenient =
     (case bt_get c key of
        None \<Rightarrow> Inr []
      | Some (JObj obj) \<Rightarrow>
          fold_r (\<lambda>(k, v) out. case level_value v lenient of
                    Some i \<Rightarrow> Inr (bt_insert k i out)
                  | None \<Rightarrow> Inl (NotIntegerEntry key k)) obj []
      | Some _ \<Rightarrow> Inl (NotObject key))"

definition users_map :: "'v ruma \<Rightarrow> jobj \<Rightarrow> bool \<Rightarrow> malformed_state + (string, int) btree_map" where
  "users_map R c lenient =
     (case bt_get c ''users'' of
        None \<Rightarrow> Inr []
      | Some (JObj obj) \<Rightarrow>
          fold_r (\<lambda>(k, v) out.
                    if user_id_ok R k then
                      (case level_value v lenient of
                         Some i \<Rightarrow> Inr (bt_insert k i out)
                       | None \<Rightarrow> Inl (NotIntegerEntry ''users'' k))
                    else Inl (NotUserId k)) obj []
      | Some _ \<Rightarrow> Inl (NotObject ''users''))"

definition resolve_levels ::
  "'v ruma \<Rightarrow> room_version \<Rightarrow> identified_pdu \<Rightarrow> identified_pdu option \<Rightarrow> malformed_state + room_power_levels" where
  "resolve_levels R v create power_levels =
     (let c = (case power_levels of None \<Rightarrow> [] | Some e \<Rightarrow> content e);
          lenient = lenient_power_levels v
      in rbind (users_map R c lenient) (\<lambda>us.
         rbind (int_prop c ''users_default'' 0 lenient) (\<lambda>ud.
         rbind (int_map c ''events'' lenient) (\<lambda>es.
         rbind (int_prop c ''events_default'' 0 lenient) (\<lambda>ed.
         rbind (int_prop c ''state_default'' 50 lenient) (\<lambda>sd.
         rbind (int_prop c ''ban'' 50 lenient) (\<lambda>bn.
         rbind (int_prop c ''kick'' 50 lenient) (\<lambda>kk.
         rbind (int_prop c ''redact'' 50 lenient) (\<lambda>rd.
         rbind (int_prop c ''invite'' 0 lenient) (\<lambda>iv.
           Inr \<lparr>rpl_version = v, rpl_creators = creators R v create,
                has_pl_event = (power_levels \<noteq> None), users = us, users_default = ud,
                events = es, events_default = ed, state_default = sd, ban = bn, kick = kk,
                redact = rd, invite = iv\<rparr>))))))))))"

definition user_level :: "room_power_levels \<Rightarrow> string \<Rightarrow> power_level" where
  "user_level p u =
     (if privileged_creators (rpl_version p) \<and> u \<in> set (rpl_creators p) then Infinite
      else case bt_get (users p) u of
             Some pl \<Rightarrow> PLInt pl
           | None \<Rightarrow>
               if \<not> has_pl_event p \<and> \<not> privileged_creators (rpl_version p) \<and> u \<in> set (rpl_creators p)
               then PLInt 100
               else PLInt (users_default p))"

definition required_for :: "room_power_levels \<Rightarrow> string \<Rightarrow> bool \<Rightarrow> int" where
  "required_for p ty is_st =
     (case bt_get (events p) ty of
        Some pl \<Rightarrow> pl
      | None \<Rightarrow> if is_st then state_default p else events_default p)"

section \<open>Lemmas\<close>

lemma bs_wf_fold_creators:
  "bs_wf acc \<Longrightarrow> bs_wf (fold (\<lambda>j acc. case j of JStr s \<Rightarrow> if ok s then bs_insert s acc else acc
                              | _ \<Rightarrow> acc) js acc)"
  by (induction js arbitrary: acc) (auto split: json.splits)

lemma creators_wf: "bs_wf (creators R v create)"
  by (auto simp: creators_def Let_def bs_wf_fold_creators split: option.splits json.splits)

text \<open>What a table of levels resolves to: the level of every entry, and nothing else.\<close>

lemma level_fold_total:
  assumes "\<forall>(k, v) \<in> set obj. ok k \<and> level_value v l \<noteq> None"
  shows "\<exists>out. fold_r (\<lambda>(k, v) out. if ok k then
              (case level_value v l of Some i \<Rightarrow> Inr (bt_insert k i out) | None \<Rightarrow> Inl (e k))
              else Inl (f k)) obj acc = Inr out"
  using assms
  by (induction obj arbitrary: acc) (auto split: option.splits)

lemma users_map_total:
  assumes "bt_get c ''users'' = None \<or> (\<exists>obj. bt_get c ''users'' = Some (JObj obj) \<and>
      (\<forall>(k, v) \<in> set obj. user_id_ok R k \<and> level_value v l \<noteq> None))"
  shows "\<exists>us. users_map R c l = Inr us"
  using assms level_fold_total[of _ "user_id_ok R" l]
  by (auto simp: users_map_def)

lemma int_map_total:
  assumes "bt_get c key = None \<or> (\<exists>obj. bt_get c key = Some (JObj obj) \<and>
      (\<forall>(k, v) \<in> set obj. level_value v l \<noteq> None))"
  shows "\<exists>es. int_map c key l = Inr es"
  using assms level_fold_total[of _ "\<lambda>_. True" l]
  by (auto simp: int_map_def)

lemma int_prop_total:
  "(\<And>v. bt_get c key = Some v \<Longrightarrow> level_value v l \<noteq> None) \<Longrightarrow> \<exists>i. int_prop c key d l = Inr i"
  by (auto simp: int_prop_def split: option.splits)

lemma level_fold_get:
  assumes "fold_r (\<lambda>(k, v) out. if ok k then
              (case level_value v l of Some i \<Rightarrow> Inr (bt_insert k i out) | None \<Rightarrow> Inl (e k))
              else Inl (f k)) obj acc = Inr out"
    and "distinct (map fst obj)"
  shows "bt_get out k = (case bt_get obj k of Some v \<Rightarrow> level_value v l | None \<Rightarrow> bt_get acc k)"
  using assms
proof (induction obj arbitrary: acc)
  case (Cons a obj)
  obtain k' v' where a: "a = (k', v')" by (cases a)
  from Cons.prems obtain i where i: "level_value v' l = Some i"
    and rest: "fold_r (\<lambda>(k, v) out. if ok k then
              (case level_value v l of Some i \<Rightarrow> Inr (bt_insert k i out) | None \<Rightarrow> Inl (e k))
              else Inl (f k)) obj (bt_insert k' i acc) = Inr out"
    by (auto simp: a split: if_splits option.splits)
  have "bt_get obj k' = None" using Cons.prems(2) a by (simp add: map_of_eq_None_iff)
  then show ?case using Cons.IH[OF rest] Cons.prems(2) i a by (auto split: option.splits)
qed simp

lemma users_map_get:
  assumes "users_map R c l = Inr us" and "\<And>obj. bt_get c ''users'' = Some (JObj obj) \<Longrightarrow> bt_wf obj"
  shows "bt_get us u = (case obj_prop c ''users'' of
           Some obj \<Rightarrow> (case bt_get obj u of Some v \<Rightarrow> level_value v l | None \<Rightarrow> None)
         | None \<Rightarrow> None)"
proof (cases "bt_get c ''users''")
  case None
  with assms(1) show ?thesis by (simp add: users_map_def obj_prop.simps)
next
  case (Some j)
  then obtain obj where j: "j = JObj obj" using assms(1) by (cases j) (simp_all add: users_map_def)
  have d: "distinct (map fst obj)" using assms(2) Some j bt_wf_distinct by blast
  from assms(1) Some j have f: "fold_r (\<lambda>(k, v) out. if user_id_ok R k then
        (case level_value v l of Some i \<Rightarrow> Inr (bt_insert k i out)
         | None \<Rightarrow> Inl (NotIntegerEntry ''users'' k)) else Inl (NotUserId k)) obj [] = Inr us"
    by (simp add: users_map_def)
  from level_fold_get[OF f d, of u] Some j show ?thesis by (simp add: obj_prop.simps split: option.split)
qed

text \<open>
  Power levels without an \<open>m.room.power_levels\<close> event. The defaults are those of the schema,
  the creator of a room up to version 11 has level 100, creators of version 12 rooms are above
  every integer level, and everybody else has level 0.
\<close>

theorem resolve_levels_defaults:
  "\<exists>p. resolve_levels R v create None = Inr p \<and>
     users_default p = 0 \<and> events_default p = 0 \<and> state_default p = 50 \<and>
     ban p = 50 \<and> kick p = 50 \<and> redact p = 50 \<and> invite p = 0 \<and>
     (\<forall>u. user_level p u =
        (if u \<in> set (creators R v create) then (if v = V12 then Infinite else PLInt 100)
         else PLInt 0))"
  by (auto simp: resolve_levels_def users_map_def int_map_def int_prop_def user_level_def)

end
