(* ===== verification/Auth_Rules.thy ===== *)
theory Auth_Rules
  imports Power_Levels
begin

text \<open>
  The authorisation rules of \<open>auth.rs\<close>: the selection of auth events, the structural check of an
  event's own \<open>auth_events\<close>, and the rules evaluated against a state snapshot. A rejection keeps
  the tag of the failed rule; the explanatory text is not represented. This theory holds the
  definitions; \<open>Auth_Facts\<close> holds what is proved of them.
\<close>

datatype rejection = Rejection (rule: string)

type_synonym auth_result = "rejection + unit"

definition reject :: "string \<Rightarrow> auth_result" where
  "reject r = Inl (Rejection r)"

text \<open>Read access to a snapshot by event type and state key, and the map that backs it.\<close>

type_synonym state_view = "string \<Rightarrow> string \<Rightarrow> identified_pdu option"
type_synonym state_map = "(string \<times> string, identified_pdu) btree_map"

definition state_map_get :: "state_map \<Rightarrow> state_view" where
  "state_map_get m ty sk = bt_get m (ty, sk)"

definition membership :: "state_view \<Rightarrow> string \<Rightarrow> string" where
  "membership st user =
     (case st ''m.room.member'' user of
        None \<Rightarrow> ''leave''
      | Some e \<Rightarrow> (case str_prop (content e) ''membership'' of None \<Rightarrow> ''leave'' | Some m \<Rightarrow> m))"

section \<open>Selection of auth events\<close>

definition tpi_token :: "jobj \<Rightarrow> string option" where
  "tpi_token c =
     Option.bind (obj_prop c ''third_party_invite'') (\<lambda>tpi.
     Option.bind (obj_prop tpi ''signed'') (\<lambda>sgnd. str_prop sgnd ''token''))"

definition insert_opt :: "string \<Rightarrow> string option \<Rightarrow> (string \<times> string) btree_set \<Rightarrow> (string \<times> string) btree_set" where
  "insert_opt ty k s = (case k of None \<Rightarrow> s | Some x \<Rightarrow> bs_insert (ty, x) s)"

definition auth_types_for_event ::
  "room_version \<Rightarrow> string \<Rightarrow> string \<Rightarrow> string option \<Rightarrow> jobj \<Rightarrow> (string \<times> string) btree_set" where
  "auth_types_for_event v ty sndr sk c =
     (if ty = ''m.room.create'' then []
      else
        let s0 = (if create_event_in_auth_events v then bs_insert (''m.room.create'', []) [] else []);
            s1 = bs_insert (''m.room.power_levels'', []) s0;
            s2 = bs_insert (''m.room.member'', sndr) s1
        in if ty = ''m.room.member'' then
             let s3 = insert_opt ''m.room.member'' sk s2;
                 mem = (case str_prop c ''membership'' of Some m \<Rightarrow> m | None \<Rightarrow> []);
                 s4 = (if mem \<in> {''join'', ''invite'', ''knock''}
                       then bs_insert (''m.room.join_rules'', []) s3 else s3);
                 s5 = (if mem = ''invite''
                       then insert_opt ''m.room.third_party_invite'' (tpi_token c) s4 else s4)
             in if mem = ''join''
                then insert_opt ''m.room.member'' (str_prop c ''join_authorised_via_users_server'') s5
                else s5
           else s2)"

definition auth_types_of :: "room_version \<Rightarrow> identified_pdu \<Rightarrow> (string \<times> string) btree_set" where
  "auth_types_of v e = auth_types_for_event v (event_type e) (sender e) (state_key e) (content e)"

section \<open>Structural checks of the auth events\<close>

record auth_entry =
  entry_event :: identified_pdu
  rejected :: bool

definition state_pair :: "identified_pdu \<Rightarrow> string \<times> string" where
  "state_pair e = (event_type e, case state_key e of None \<Rightarrow> [] | Some k \<Rightarrow> k)"

definition check_auth_entry ::
  "room_version \<Rightarrow> identified_pdu \<Rightarrow> (string \<times> string) btree_set \<Rightarrow> auth_entry
     \<Rightarrow> (string \<times> string) btree_set \<times> bool \<Rightarrow> rejection + (string \<times> string) btree_set \<times> bool" where
  "check_auth_entry v event allowed entry acc =
     (let (seen, have_create) = acc;
          e = entry_event entry;
          key = state_pair e
      in if key \<in> set seen then Inl (Rejection ''auth_events.duplicate'')
         else if key \<notin> set allowed then Inl (Rejection ''auth_events.selection'')
         else if rejected entry then Inl (Rejection ''auth_events.rejected'')
         else if room_id e \<noteq> room_id event
                \<and> \<not> (room_id_is_create_event_id v \<and> fst key = ''m.room.create'')
         then Inl (Rejection ''auth_events.room_id'')
         else Inr (bs_insert key seen, have_create \<or> fst key = ''m.room.create''))"

definition check_auth_events :: "room_version \<Rightarrow> identified_pdu \<Rightarrow> auth_entry list \<Rightarrow> auth_result" where
  "check_auth_events v event entries =
     (let is_create = (event_type event = ''m.room.create'');
          allowed = auth_types_of v event
      in rbind (fold_r (check_auth_entry v event allowed) entries ([], False)) (\<lambda>(seen, have_create).
           if create_event_in_auth_events v \<and> \<not> have_create \<and> \<not> is_create
           then reject ''auth_events.create'' else Inr ()))"

section \<open>The create event\<close>

definition check_create :: "room_version ruma \<Rightarrow> room_version \<Rightarrow> identified_pdu \<Rightarrow> auth_result" where
  "check_create R v event =
     (if prev_events event \<noteq> [] then reject ''create.prev_events''
      else if room_id_is_create_event_id v \<and> room_id event \<noteq> None then reject ''create.room_id''
      else if \<not> room_id_is_create_event_id v
             \<and> \<not> (case room_id event of
                    None \<Rightarrow> False
                  | Some rid \<Rightarrow> room_server_name R rid = Some (user_server_name R (sender event)))
      then reject ''create.room_id''
      else if (case bt_get (content event) ''room_version'' of
                 None \<Rightarrow> False
               | Some (JStr s) \<Rightarrow> \<not> is_ok (parse_version s)
               | Some _ \<Rightarrow> True)
      then reject ''create.room_version''
      else if creator_in_create_content v
             \<and> (case bt_get (content event) ''creator'' of Some (JStr _) \<Rightarrow> False | _ \<Rightarrow> True)
      then reject ''create.creator''
      else if privileged_creators v
             \<and> (case bt_get (content event) ''additional_creators'' of
                  None \<Rightarrow> False
                | Some (JArr arr) \<Rightarrow>
                    \<not> list_all (\<lambda>j. case j of JStr s \<Rightarrow> user_id_ok R s | _ \<Rightarrow> False) arr
                | Some _ \<Rightarrow> True)
      then reject ''create.additional_creators''
      else Inr ())"

section \<open>Membership\<close>

definition user_from_str :: "'v ruma \<Rightarrow> room_power_levels \<Rightarrow> string \<Rightarrow> power_level" where
  "user_from_str R pwr user =
     (if user_id_ok R user then user_level pwr user else PLInt (users_default pwr))"

definition join_rule_of :: "state_view \<Rightarrow> string" where
  "join_rule_of st =
     (case st ''m.room.join_rules'' [] of
        None \<Rightarrow> ''invite''
      | Some e \<Rightarrow> (case str_prop (content e) ''join_rule'' of None \<Rightarrow> ''invite'' | Some r \<Rightarrow> r))"

definition signed_by_any_key :: "'v ruma \<Rightarrow> jobj \<Rightarrow> string list \<Rightarrow> bool" where
  "signed_by_any_key R sgnd candidate_keys =
     (case signing_string R sgnd of
        None \<Rightarrow> False
      | Some message \<Rightarrow>
          (case obj_prop sgnd ''signatures'' of
             None \<Rightarrow> False
           | Some sig_map \<Rightarrow>
               list_ex (\<lambda>key_b64.
                 case base64_parse R key_b64 of
                   None \<Rightarrow> False
                 | Some key \<Rightarrow>
                     list_ex (\<lambda>(_, sigs). case sigs of
                         JObj m \<Rightarrow>
                           list_ex (\<lambda>(key_id, sig).
                             starts_with key_id ''ed25519:'' \<and>
                             (case sig of
                                JStr sig_b64 \<Rightarrow>
                                  (case base64_parse R sig_b64 of
                                     None \<Rightarrow> False
                                   | Some s \<Rightarrow> ed25519_verify R key s message)
                              | _ \<Rightarrow> False)) m
                       | _ \<Rightarrow> False) sig_map) candidate_keys))"

definition candidate_keys :: "jobj \<Rightarrow> string list" where
  "candidate_keys c =
     (case str_prop c ''public_key'' of None \<Rightarrow> [] | Some k \<Rightarrow> [k])
     @ (case bt_get c ''public_keys'' of
          Some (JArr arr) \<Rightarrow>
            List.map_filter (\<lambda>j. case j of JObj m \<Rightarrow> str_prop m ''public_key'' | _ \<Rightarrow> None) arr
        | _ \<Rightarrow> [])"

definition check_third_party_invite ::
  "'v ruma \<Rightarrow> identified_pdu \<Rightarrow> jobj \<Rightarrow> string \<Rightarrow> string \<Rightarrow> state_view \<Rightarrow> auth_result" where
  "check_third_party_invite R event tpi target target_mem st =
     (if target_mem = ''ban'' then reject ''member.3pi.ban''
      else case obj_prop tpi ''signed'' of
        None \<Rightarrow> reject ''member.3pi.signed''
      | Some sgnd \<Rightarrow>
          (case (str_prop sgnd ''mxid'', str_prop sgnd ''token'') of
             (Some mxid, Some token) \<Rightarrow>
               if mxid \<noteq> target then reject ''member.3pi.mxid''
               else (case st ''m.room.third_party_invite'' token of
                       None \<Rightarrow> reject ''member.3pi.token''
                     | Some tpi_event \<Rightarrow>
                         if sender event \<noteq> sender tpi_event then reject ''member.3pi.sender''
                         else if signed_by_any_key R sgnd (candidate_keys (content tpi_event))
                         then Inr () else reject ''member.3pi.signature'')
           | _ \<Rightarrow> reject ''member.3pi.signed''))"

text \<open>Rule 5.3: joins.\<close>

definition first_join_creator :: "room_version \<Rightarrow> identified_pdu \<Rightarrow> string" where
  "first_join_creator v create =
     (if creator_in_create_content v
      then (case str_prop (content create) ''creator'' of Some u \<Rightarrow> u | None \<Rightarrow> sender create)
      else sender create)"

definition is_first_join :: "room_version \<Rightarrow> identified_pdu \<Rightarrow> identified_pdu \<Rightarrow> string \<Rightarrow> bool" where
  "is_first_join v event create target \<longleftrightarrow>
     prev_events event = [event_id create] \<and> target = first_join_creator v create"

definition check_restricted_join ::
  "'v ruma \<Rightarrow> identified_pdu \<Rightarrow> state_view \<Rightarrow> room_power_levels \<Rightarrow> auth_result" where
  "check_restricted_join R event st pwr =
     (case str_prop (content event) ''join_authorised_via_users_server'' of
        None \<Rightarrow> reject ''member.join.restricted''
      | Some authoriser \<Rightarrow>
          if \<not> user_id_ok R authoriser then reject ''member.join.restricted''
          else if membership st authoriser \<noteq> ''join'' then reject ''member.join.restricted''
          else if \<not> satisfies (user_level pwr authoriser) (invite pwr)
          then reject ''member.join.restricted''
          else Inr ())"

definition check_join ::
  "'v ruma \<Rightarrow> room_version \<Rightarrow> identified_pdu \<Rightarrow> identified_pdu \<Rightarrow> string \<Rightarrow> state_view
     \<Rightarrow> room_power_levels \<Rightarrow> auth_result" where
  "check_join R v event create target st pwr =
     (let sender_mem = membership st (sender event); join_rule = join_rule_of st in
      if is_first_join v event create target then Inr ()
      else if sender event \<noteq> target then reject ''member.join.sender''
      else if sender_mem = ''ban'' then reject ''member.join.ban''
      else if join_rule = ''invite'' \<or> join_rule = ''knock'' then
        (if sender_mem = ''invite'' \<or> sender_mem = ''join'' then Inr ()
         else reject ''member.join.rule'')
      else if join_rule = ''restricted'' \<or> join_rule = ''knock_restricted'' then
        (if sender_mem = ''join'' \<or> sender_mem = ''invite'' then Inr ()
         else check_restricted_join R event st pwr)
      else if join_rule = ''public'' then Inr ()
      else reject ''member.join.rule'')"

text \<open>Rule 5.4: invites.\<close>

definition check_invite ::
  "'v ruma \<Rightarrow> identified_pdu \<Rightarrow> string \<Rightarrow> state_view \<Rightarrow> room_power_levels \<Rightarrow> power_level \<Rightarrow> auth_result" where
  "check_invite R event target st pwr sender_pl =
     (let sender_mem = membership st (sender event); target_mem = membership st target in
      case obj_prop (content event) ''third_party_invite'' of
        Some tpi \<Rightarrow> check_third_party_invite R event tpi target target_mem st
      | None \<Rightarrow>
          if sender_mem \<noteq> ''join'' then reject ''member.invite.sender''
          else if target_mem = ''join'' \<or> target_mem = ''ban'' then reject ''member.invite.target''
          else if satisfies sender_pl (invite pwr) then Inr ()
          else reject ''member.invite.level'')"

text \<open>Rule 5.5: leaving, kicking and unbanning.\<close>

definition check_leave ::
  "'v ruma \<Rightarrow> identified_pdu \<Rightarrow> string \<Rightarrow> state_view \<Rightarrow> room_power_levels \<Rightarrow> power_level \<Rightarrow> auth_result" where
  "check_leave R event target st pwr sender_pl =
     (let sender_mem = membership st (sender event); target_mem = membership st target in
      if sender event = target then
        (if sender_mem \<in> {''invite'', ''join'', ''knock''} then Inr ()
         else reject ''member.leave.self'')
      else if sender_mem \<noteq> ''join'' then reject ''member.leave.sender''
      else if target_mem = ''ban'' \<and> \<not> satisfies sender_pl (ban pwr)
      then reject ''member.leave.unban''
      else if satisfies sender_pl (kick pwr) \<and> user_from_str R pwr target < sender_pl
      then Inr ()
      else reject ''member.leave.kick'')"

text \<open>Rule 5.6: bans.\<close>

definition check_ban ::
  "'v ruma \<Rightarrow> identified_pdu \<Rightarrow> string \<Rightarrow> state_view \<Rightarrow> room_power_levels \<Rightarrow> power_level \<Rightarrow> auth_result" where
  "check_ban R event target st pwr sender_pl =
     (if membership st (sender event) \<noteq> ''join'' then reject ''member.ban.sender''
      else if satisfies sender_pl (ban pwr) \<and> user_from_str R pwr target < sender_pl
      then Inr ()
      else reject ''member.ban.level'')"

text \<open>Rule 5.7: knocks.\<close>

definition check_knock :: "identified_pdu \<Rightarrow> string \<Rightarrow> state_view \<Rightarrow> auth_result" where
  "check_knock event target st =
     (let sender_mem = membership st (sender event); join_rule = join_rule_of st in
      if join_rule \<noteq> ''knock'' \<and> join_rule \<noteq> ''knock_restricted'' then reject ''member.knock.rule''
      else if sender event \<noteq> target then reject ''member.knock.sender''
      else if sender_mem \<notin> {''ban'', ''invite'', ''join''} then Inr ()
      else reject ''member.knock.membership'')"

definition check_member ::
  "'v ruma \<Rightarrow> room_version \<Rightarrow> identified_pdu \<Rightarrow> identified_pdu \<Rightarrow> state_view \<Rightarrow> room_power_levels
     \<Rightarrow> power_level \<Rightarrow> auth_result" where
  "check_member R v event create st pwr sender_pl =
     (case state_key event of
        None \<Rightarrow> reject ''member.state_key''
      | Some target \<Rightarrow>
          (case str_prop (content event) ''membership'' of
             None \<Rightarrow> reject ''member.membership''
           | Some m \<Rightarrow>
               if m = ''join'' then check_join R v event create target st pwr
               else if m = ''invite'' then check_invite R event target st pwr sender_pl
               else if m = ''leave'' then check_leave R event target st pwr sender_pl
               else if m = ''ban'' then check_ban R event target st pwr sender_pl
               else if m = ''knock'' then check_knock event target st
               else reject ''member.unknown''))"

section \<open>Power levels\<close>

definition level_ok :: "bool \<Rightarrow> json \<Rightarrow> bool" where
  "level_ok lenient v =
     (case v of
        JInt _ \<Rightarrow> True
      | JStr s \<Rightarrow> lenient \<and> parse_i64 (str_trim s) \<noteq> None
      | _ \<Rightarrow> False)"

definition scalar_keys :: "string list" where
  "scalar_keys = [''users_default'', ''events_default'', ''state_default'', ''ban'', ''redact'',
                  ''kick'', ''invite'']"

definition get_int :: "bool \<Rightarrow> jobj \<Rightarrow> string \<Rightarrow> int option" where
  "get_int lenient obj key = Option.bind (bt_get obj key) (\<lambda>v. level_value v lenient)"

definition bt_collect :: "('k::linorder \<times> 'v) list \<Rightarrow> ('k, 'v) btree_map" where
  "bt_collect xs = fold (\<lambda>(k, v) m. bt_insert k v m) xs []"

definition entry_map :: "bool \<Rightarrow> jobj \<Rightarrow> string \<Rightarrow> (string, int) btree_map" where
  "entry_map lenient obj key =
     (case bt_get obj key of
        Some (JObj m) \<Rightarrow>
          bt_collect (List.map_filter (\<lambda>(k, v). map_option (\<lambda>i. (k, i)) (level_value v lenient)) m)
      | _ \<Rightarrow> [])"

text \<open>Rules 10.1 to 10.4: the form of the content.\<close>

definition check_pl_scalars :: "bool \<Rightarrow> jobj \<Rightarrow> auth_result" where
  "check_pl_scalars lenient c =
     check_each (\<lambda>key. case bt_get c key of
         None \<Rightarrow> Inr ()
       | Some v \<Rightarrow> if level_ok lenient v then Inr () else reject ''power_levels.int'') scalar_keys"

definition check_pl_maps :: "bool \<Rightarrow> jobj \<Rightarrow> auth_result" where
  "check_pl_maps lenient c =
     check_each (\<lambda>key. case bt_get c key of
         None \<Rightarrow> Inr ()
       | Some (JObj m) \<Rightarrow>
           if list_all (\<lambda>(_, v). level_ok lenient v) m then Inr () else reject ''power_levels.int''
       | Some _ \<Rightarrow> reject ''power_levels.int'') [''events'', ''notifications'']"

definition check_pl_users :: "'v ruma \<Rightarrow> bool \<Rightarrow> jobj \<Rightarrow> auth_result" where
  "check_pl_users R lenient c =
     (case bt_get c ''users'' of
        None \<Rightarrow> Inr ()
      | Some (JObj m) \<Rightarrow>
          check_each (\<lambda>(k, v).
            if \<not> user_id_ok R k then reject ''power_levels.users''
            else if \<not> level_ok lenient v then reject ''power_levels.int'' else Inr ()) m
      | Some _ \<Rightarrow> reject ''power_levels.users'')"

definition check_pl_creators :: "room_version \<Rightarrow> jobj \<Rightarrow> room_power_levels \<Rightarrow> auth_result" where
  "check_pl_creators v c pwr =
     (if privileged_creators v then
        (case bt_get c ''users'' of
           Some (JObj us) \<Rightarrow>
             check_each (\<lambda>u. if bt_get us u \<noteq> None then reject ''power_levels.creator'' else Inr ())
               (rpl_creators pwr)
         | _ \<Rightarrow> Inr ())
      else Inr ())"

text \<open>Rule 10.6: alterations of the scalar properties.\<close>

definition check_scalar_change :: "bool \<Rightarrow> jobj \<Rightarrow> jobj \<Rightarrow> power_level \<Rightarrow> string \<Rightarrow> auth_result" where
  "check_scalar_change lenient old new sender_pl key =
     (let old_v = get_int lenient old key; new_v = get_int lenient new key in
      if old_v \<noteq> new_v
         \<and> ((case old_v of Some x \<Rightarrow> \<not> satisfies sender_pl x | None \<Rightarrow> False)
            \<or> (case new_v of Some x \<Rightarrow> \<not> satisfies sender_pl x | None \<Rightarrow> False))
      then reject ''power_levels.alter'' else Inr ())"

text \<open>Rules 10.7 to 10.10: alterations of the tables.\<close>

definition check_old_entry ::
  "string \<Rightarrow> power_level \<Rightarrow> bool \<Rightarrow> (string, int) btree_map \<Rightarrow> string \<times> int \<Rightarrow> auth_result" where
  "check_old_entry sndr sender_pl is_users new_map entry =
     (let (k, old_v) = entry in
      if bt_get new_map k = Some old_v then Inr ()
      else if is_users then
        (if k \<noteq> sndr \<and> PLInt old_v \<ge> sender_pl then reject ''power_levels.demote'' else Inr ())
      else if \<not> satisfies sender_pl old_v then reject ''power_levels.alter'' else Inr ())"

definition check_new_entry :: "power_level \<Rightarrow> (string, int) btree_map \<Rightarrow> string \<times> int \<Rightarrow> auth_result" where
  "check_new_entry sender_pl old_map entry =
     (let (k, new_v) = entry in
      if bt_get old_map k = Some new_v then Inr ()
      else if \<not> satisfies sender_pl new_v then reject ''power_levels.grant'' else Inr ())"

definition check_entry_changes ::
  "bool \<Rightarrow> string \<Rightarrow> jobj \<Rightarrow> jobj \<Rightarrow> power_level \<Rightarrow> string \<Rightarrow> auth_result" where
  "check_entry_changes lenient sndr old new sender_pl key =
     (let old_map = entry_map lenient old key; new_map = entry_map lenient new key in
      rbind (check_each (check_old_entry sndr sender_pl (key = ''users'') new_map) old_map) (\<lambda>_.
        check_each (check_new_entry sender_pl old_map) new_map))"

definition check_power_levels ::
  "'v ruma \<Rightarrow> room_version \<Rightarrow> identified_pdu \<Rightarrow> state_view \<Rightarrow> room_power_levels \<Rightarrow> power_level \<Rightarrow> auth_result" where
  "check_power_levels R v event st pwr sender_pl =
     (let c = content event; lenient = lenient_power_levels v in
      rbind (check_pl_scalars lenient c) (\<lambda>_.
      rbind (check_pl_maps lenient c) (\<lambda>_.
      rbind (check_pl_users R lenient c) (\<lambda>_.
      rbind (check_pl_creators v c pwr) (\<lambda>_.
        case st ''m.room.power_levels'' [] of
          None \<Rightarrow> Inr ()
        | Some previous \<Rightarrow>
            let old = content previous in
            rbind (check_each (check_scalar_change lenient old c sender_pl) scalar_keys) (\<lambda>_.
              check_each (check_entry_changes lenient (sender event) old c sender_pl)
                [''events'', ''notifications'', ''users'']))))))"

section \<open>The rules against a state\<close>

definition room_id_matches_create :: "identified_pdu \<Rightarrow> identified_pdu \<Rightarrow> bool" where
  "room_id_matches_create event create =
     (case room_id event of None \<Rightarrow> False | Some rid \<Rightarrow> drop 1 rid = drop 1 (event_id create))"

definition user_keyed_by_other :: "identified_pdu \<Rightarrow> bool" where
  "user_keyed_by_other event =
     (case state_key event of None \<Rightarrow> False | Some sk \<Rightarrow> starts_with sk ''@'' \<and> sk \<noteq> sender event)"

definition check_state_dependent ::
  "room_version ruma \<Rightarrow> room_version \<Rightarrow> identified_pdu \<Rightarrow> state_view \<Rightarrow> auth_result" where
  "check_state_dependent R v event st =
     (if event_type event = ''m.room.create'' then check_create R v event
      else case st ''m.room.create'' [] of
        None \<Rightarrow> reject ''state.create''
      | Some create \<Rightarrow>
          if room_id_is_create_event_id v \<and> \<not> room_id_matches_create event create
          then reject ''room_id.create''
          else if bt_get (content create) ''m.federate'' = Some (JBool False)
                 \<and> user_server_name R (sender event) \<noteq> user_server_name R (sender create)
          then reject ''federate''
          else case resolve_levels R v create (st ''m.room.power_levels'' []) of
            Inl _ \<Rightarrow> reject ''state.power_levels''
          | Inr pwr \<Rightarrow>
              let sender_pl = user_level pwr (sender event) in
              if event_type event = ''m.room.member''
              then check_member R v event create st pwr sender_pl
              else if membership st (sender event) \<noteq> ''join'' then reject ''sender.membership''
              else if event_type event = ''m.room.third_party_invite'' then
                (if satisfies sender_pl (invite pwr) then Inr ()
                 else reject ''third_party_invite.level'')
              else if \<not> satisfies sender_pl (required_for pwr (event_type event) (is_state event))
              then reject ''event.level''
              else if user_keyed_by_other event then reject ''state_key.user''
              else if event_type event = ''m.room.power_levels''
              then check_power_levels R v event st pwr sender_pl
              else Inr ())"

end
