(* ===== verification/Auth_Powers.thy ===== *)
theory Auth_Powers
  imports Auth_Facts
begin

text \<open>
  What acceptance of an event implies for power levels and membership: an accepted
  \<open>m.room.power_levels\<close> event resolves without error and lifts nobody above the sender; joins,
  kicks, bans and ordinary events are accepted only with the standing the room demands.
\<close>

section \<open>Accepted contents resolve\<close>

lemma level_ok_iff: "level_ok l v \<longleftrightarrow> level_value v l \<noteq> None"
  by (cases v) (simp_all add: level_ok_def level_value_def)

lemma check_pl_scalars_ok:
  "check_pl_scalars l c = Inr u \<longleftrightarrow>
     (\<forall>key \<in> set scalar_keys. \<forall>v. bt_get c key = Some v \<longrightarrow> level_value v l \<noteq> None)"
  by (auto simp: check_pl_scalars_def level_ok_iff reject_def split: option.splits if_splits)

lemma check_pl_maps_ok:
  "check_pl_maps l c = Inr u \<longleftrightarrow>
     (\<forall>key \<in> {''events'', ''notifications''}. bt_get c key = None \<or>
        (\<exists>m. bt_get c key = Some (JObj m) \<and> (\<forall>(k, v) \<in> set m. level_value v l \<noteq> None)))"
proof -
  have one: "(case bt_get c key of None \<Rightarrow> Inr ()
       | Some (JObj m) \<Rightarrow>
           if list_all (\<lambda>(_, v). level_ok l v) m then Inr () else reject ''power_levels.int''
       | Some _ \<Rightarrow> reject ''power_levels.int'') = Inr () \<longleftrightarrow>
      bt_get c key = None \<or>
        (\<exists>m. bt_get c key = Some (JObj m) \<and> (\<forall>(k, v) \<in> set m. level_value v l \<noteq> None))" for key
    by (auto simp: level_ok_iff list_all_iff case_prod_beta split: option.splits json.splits)
  show ?thesis unfolding check_pl_maps_def check_each_ok one by simp
qed

lemma check_pl_users_ok:
  "check_pl_users R l c = Inr u \<longleftrightarrow> bt_get c ''users'' = None \<or>
     (\<exists>m. bt_get c ''users'' = Some (JObj m) \<and>
        (\<forall>(k, v) \<in> set m. user_id_ok R k \<and> level_value v l \<noteq> None))"
proof (cases "bt_get c ''users''")
  case (Some j)
  then show ?thesis
    by (cases j) (simp_all add: check_pl_users_def level_ok_iff case_prod_beta)
qed (simp add: check_pl_users_def)

lemma check_power_levels_form:
  assumes "check_power_levels R v e st p pl = Inr ()"
  shows "check_pl_scalars (lenient_power_levels v) (content e) = Inr ()"
    and "check_pl_maps (lenient_power_levels v) (content e) = Inr ()"
    and "check_pl_users R (lenient_power_levels v) (content e) = Inr ()"
  using assms by (auto simp: check_power_levels_def Let_def)

text \<open>
  An \<open>m.room.power_levels\<close> event that passes its own authorisation never makes the room
  state malformed: resolving the power levels from it succeeds, in every room version and
  whatever the create event. The error \<open>state.power_levels\<close> therefore cannot arise from a state
  whose events were accepted.
\<close>

theorem accepted_power_levels_resolve:
  assumes "check_power_levels R v e st p pl = Inr ()"
  shows "\<exists>q. resolve_levels R v create (Some e) = Inr q"
proof -
  let ?l = "lenient_power_levels v" and ?c = "content e"
  note form = check_power_levels_form[OF assms]
  have int: "\<exists>i. int_prop ?c key d ?l = Inr i" if "key \<in> set scalar_keys" for key d
    using form(1) that by (intro int_prop_total) (auto simp: check_pl_scalars_ok)
  have us: "\<exists>us. users_map R ?c ?l = Inr us"
    using form(3) by (intro users_map_total) (simp add: check_pl_users_ok)
  have es: "\<exists>es. int_map ?c ''events'' ?l = Inr es"
    using form(2) by (intro int_map_total) (simp add: check_pl_maps_ok)
  obtain us ud es ed sd bn kk rd iv where
    "users_map R ?c ?l = Inr us" "int_prop ?c ''users_default'' 0 ?l = Inr ud"
    "int_map ?c ''events'' ?l = Inr es" "int_prop ?c ''events_default'' 0 ?l = Inr ed"
    "int_prop ?c ''state_default'' 50 ?l = Inr sd" "int_prop ?c ''ban'' 50 ?l = Inr bn"
    "int_prop ?c ''kick'' 50 ?l = Inr kk" "int_prop ?c ''redact'' 50 ?l = Inr rd"
    "int_prop ?c ''invite'' 0 ?l = Inr iv"
    using us es int by (metis list.set_intros(1) list.set_intros(2) scalar_keys_def)
  then show ?thesis by (simp only: resolve_levels_def Let_def option.case rbind.simps) blast
qed

section \<open>No escalation\<close>

lemma level_fold_collect:
  assumes "fold_r (\<lambda>(k, v) out. if ok k then
              (case level_value v l of Some i \<Rightarrow> Inr (bt_insert k i out) | None \<Rightarrow> Inl (e k))
              else Inl (f k)) obj acc = Inr out"
  shows "out = fold (\<lambda>(k, v) m. bt_insert k v m)
           (List.map_filter (\<lambda>(k, v). map_option (\<lambda>i. (k, i)) (level_value v l)) obj) acc"
  using assms
  by (induction obj arbitrary: acc) (auto simp: List.map_filter_simps split: if_splits option.splits)

lemma users_map_entry_map: "users_map R c l = Inr us \<Longrightarrow> us = entry_map l c ''users''"
  by (auto simp: users_map_def entry_map_def bt_collect_def dest!: level_fold_collect
      split: option.splits json.splits)

lemma resolve_levels_users:
  assumes "resolve_levels R v create (Some e) = Inr q"
  shows "users q = entry_map (lenient_power_levels v) (content e) ''users''"
    and "int_prop (content e) ''users_default'' 0 (lenient_power_levels v) = Inr (users_default q)"
    and "has_pl_event q" and "rpl_version q = v" and "rpl_creators q = creators R v create"
  using assms
  by (auto simp only: resolve_levels_def Let_def option.case rbind_eq_Inr sum.inject
      room_power_levels.simps option.simps simp_thms dest: users_map_entry_map)

lemma int_prop_get_int: "int_prop c key d l = Inr i \<Longrightarrow> i = (case get_int l c key of Some x \<Rightarrow> x | None \<Rightarrow> d)"
  by (auto simp: int_prop_def get_int_def split: option.splits)

text \<open>The alterations that \<open>check_power_levels\<close> lets through.\<close>

lemma check_power_levels_changes:
  assumes "check_power_levels R v e st p pl = Inr ()" and "st ''m.room.power_levels'' [] = Some prev"
  defines "l \<equiv> lenient_power_levels v"
  shows "\<And>key. key \<in> set scalar_keys \<Longrightarrow>
            check_scalar_change l (content prev) (content e) pl key = Inr ()"
    and "\<And>key. key \<in> {''events'', ''notifications'', ''users''} \<Longrightarrow>
            check_entry_changes l (sender e) (content prev) (content e) pl key = Inr ()"
  using assms by (auto simp: check_power_levels_def Let_def)

lemma check_scalar_change_ok:
  "check_scalar_change l old new pl key = Inr u \<longleftrightarrow>
     get_int l old key = get_int l new key \<or>
     (\<forall>x. get_int l old key = Some x \<longrightarrow> PLInt x \<le> pl) \<and> (\<forall>x. get_int l new key = Some x \<longrightarrow> PLInt x \<le> pl)"
  by (auto simp: check_scalar_change_def Let_def reject_def satisfies_def split: option.splits if_splits)

lemma check_entry_changes_ok:
  assumes "check_entry_changes l s old new pl key = Inr u"
  shows "bt_get (entry_map l new key) k = Some n \<Longrightarrow> bt_get (entry_map l old key) k \<noteq> Some n \<Longrightarrow> PLInt n \<le> pl"
    and "bt_get (entry_map l old key) k = Some n \<Longrightarrow> bt_get (entry_map l new key) k \<noteq> Some n \<Longrightarrow>
           (if key = ''users'' then k = s \<or> PLInt n < pl else PLInt n \<le> pl)"
proof -
  have new: "check_new_entry pl (entry_map l old key) (k, n) = Inr ()"
    if "bt_get (entry_map l new key) k = Some n"
    using assms map_of_SomeD[OF that] by (auto simp: check_entry_changes_def Let_def)
  have old: "check_old_entry s pl (key = ''users'') (entry_map l new key) (k, n) = Inr ()"
    if "bt_get (entry_map l old key) k = Some n"
    using assms map_of_SomeD[OF that] by (auto simp: check_entry_changes_def Let_def)
  show "bt_get (entry_map l new key) k = Some n \<Longrightarrow> bt_get (entry_map l old key) k \<noteq> Some n \<Longrightarrow> PLInt n \<le> pl"
    using new by (auto simp: check_new_entry_def reject_def satisfies_def split: if_splits)
  show "bt_get (entry_map l old key) k = Some n \<Longrightarrow> bt_get (entry_map l new key) k \<noteq> Some n \<Longrightarrow>
           (if key = ''users'' then k = s \<or> PLInt n < pl else PLInt n \<le> pl)"
    using old by (auto simp: check_old_entry_def reject_def satisfies_def not_le split: if_splits)
qed

text \<open>What an accepted event of an ordinary type went through.\<close>

lemma accepted_ordinary:
  assumes "check_state_dependent R v e st = Inr ()"
    and "event_type e \<noteq> ''m.room.create''" and "event_type e \<noteq> ''m.room.member''"
  obtains create p where "st ''m.room.create'' [] = Some create"
    and "resolve_levels R v create (st ''m.room.power_levels'' []) = Inr p"
    and "membership st (sender e) = ''join''"
    and "event_type e = ''m.room.third_party_invite'' \<Longrightarrow> satisfies (user_level p (sender e)) (invite p)"
    and "event_type e \<noteq> ''m.room.third_party_invite'' \<Longrightarrow>
           satisfies (user_level p (sender e)) (required_for p (event_type e) (is_state e))
           \<and> \<not> user_keyed_by_other e"
    and "event_type e = ''m.room.power_levels'' \<Longrightarrow>
           check_power_levels R v e st p (user_level p (sender e)) = Inr ()"
proof -
  from assms obtain create where c: "st ''m.room.create'' [] = Some create"
    by (auto simp: check_state_dependent_def split: option.splits)
  with assms obtain p where p: "resolve_levels R v create (st ''m.room.power_levels'' []) = Inr p"
    by (auto simp: check_state_dependent_def split: sum.splits)
  show ?thesis
    by (rule that[OF c p]) (use assms c p in \<open>auto simp: check_state_dependent_def Let_def split: if_splits\<close>)
qed

lemma users_default_change:
  assumes "check_scalar_change l (content prev) (content e) pl ''users_default'' = Inr ()"
    and "int_prop (content prev) ''users_default'' 0 l = Inr d"
    and "int_prop (content e) ''users_default'' 0 l = Inr d'"
  shows "PLInt d' \<le> max pl (PLInt (max 0 d))"
  using assms int_prop_get_int[OF assms(2)] int_prop_get_int[OF assms(3)]
  by (auto simp: check_scalar_change_ok le_max_iff_disj split: option.splits)

text \<open>
  C8: No escalation through power-level events. When an \<open>m.room.power_levels\<close> event replaces an
  existing one, the level of every user afterwards is bounded by the largest of: the sender's own
  level, the level the user had before, and the default level (at least 0) of the old content. And
  a user listed at or above the sender's level keeps exactly that entry, unless it is the sender's
  own.
\<close>

theorem power_levels_no_escalation:
  assumes ok: "check_state_dependent R v e st = Inr ()"
    and ty: "event_type e = ''m.room.power_levels''"
    and create: "st ''m.room.create'' [] = Some create"
    and prev: "st ''m.room.power_levels'' [] = Some prev"
    and p: "resolve_levels R v create (Some prev) = Inr p"
    and q: "resolve_levels R v create (Some e) = Inr q"
  shows "user_level q u \<le>
           max (user_level p (sender e)) (max (user_level p u) (PLInt (max 0 (users_default p)))) \<and>
         (u \<noteq> sender e \<and> bt_get (users p) u = Some n \<and> user_level p (sender e) \<le> PLInt n \<longrightarrow>
           bt_get (users q) u = Some n)"
proof -
  let ?pl = "user_level p (sender e)" and ?l = "lenient_power_levels v"
  have chk: "check_power_levels R v e st p ?pl = Inr ()"
    by (rule accepted_ordinary[OF ok]) (use ty create prev p in auto)
  note ch = check_power_levels_changes[OF chk prev]
  note us = resolve_levels_users[OF p] resolve_levels_users[OF q]
  have ent: "check_entry_changes ?l (sender e) (content prev) (content e) ?pl ''users'' = Inr ()"
    using ch(2) by simp
  have dfl: "PLInt (users_default q) \<le> max ?pl (PLInt (max 0 (users_default p)))"
    by (rule users_default_change[OF ch(1) us(2) us(7)]) (simp add: scalar_keys_def)
  have bound: "user_level q u \<le> max ?pl (max (user_level p u) (PLInt (max 0 (users_default p))))"
  proof (cases "v = V12 \<and> u \<in> set (creators R v create)")
    case True
    then have "user_level p u = Infinite" by (auto simp: user_level_def us)
    then show ?thesis by (simp add: max_def)
  next
    case no: False
    show ?thesis
    proof (cases "bt_get (users q) u")
      case None
      with no have "user_level q u = PLInt (users_default q)" by (auto simp: user_level_def us)
      with dfl show ?thesis by (metis max.coboundedI1 max.coboundedI2 le_max_iff_disj)
    next
      case (Some n)
      with no have q': "user_level q u = PLInt n" by (auto simp: user_level_def us)
      have "PLInt n \<le> ?pl \<or> bt_get (users p) u = Some n"
        using check_entry_changes_ok(1)[OF ent, of u n] Some by (auto simp: us)
      moreover have "user_level p u = PLInt n" if "bt_get (users p) u = Some n"
        using that no by (auto simp: user_level_def us)
      ultimately show ?thesis using q' by (auto simp: le_max_iff_disj)
    qed
  qed
  have "bt_get (users q) u = Some n"
    if "u \<noteq> sender e" "bt_get (users p) u = Some n" "?pl \<le> PLInt n"
  proof (rule ccontr)
    assume "bt_get (users q) u \<noteq> Some n"
    then have "PLInt n < ?pl" using check_entry_changes_ok(2)[OF ent, of u n] that by (simp add: us)
    with that(3) show False by simp
  qed
  with bound show ?thesis by blast
qed

section \<open>Membership\<close>

lemma accepted_member:
  assumes "check_state_dependent R v e st = Inr ()" and "event_type e = ''m.room.member''"
  obtains create p t m where "st ''m.room.create'' [] = Some create"
    and "resolve_levels R v create (st ''m.room.power_levels'' []) = Inr p"
    and "state_key e = Some t" and "str_prop (content e) ''membership'' = Some m"
    and "check_member R v e create st p (user_level p (sender e)) = Inr ()"
proof -
  from assms obtain create where c: "st ''m.room.create'' [] = Some create"
    by (auto simp: check_state_dependent_def split: option.splits)
  with assms obtain p where p: "resolve_levels R v create (st ''m.room.power_levels'' []) = Inr p"
    by (auto simp: check_state_dependent_def split: sum.splits)
  have m: "check_member R v e create st p (user_level p (sender e)) = Inr ()"
    using assms c p by (auto simp: check_state_dependent_def Let_def split: if_splits)
  then obtain t mm where "state_key e = Some t" "str_prop (content e) ''membership'' = Some mm"
    by (auto simp: check_member_def split: option.splits)
  with c p m that show ?thesis by blast
qed

text \<open>
  C9: Who can join. An accepted join is the room's first join by its creator directly after the
  create event, or a user joining for themselves who is not banned, and then either the room is
  public, or the user is already invited or joined, or the room is restricted and the join names a
  joined member with the power to invite.
\<close>

theorem accepted_join_cases:
  assumes "check_state_dependent R v e st = Inr ()" and "event_type e = ''m.room.member''"
    and "str_prop (content e) ''membership'' = Some ''join''"
  shows "\<exists>create p. st ''m.room.create'' [] = Some create \<and>
     resolve_levels R v create (st ''m.room.power_levels'' []) = Inr p \<and>
     (prev_events e = [event_id create] \<and> state_key e = Some (first_join_creator v create) \<or>
      state_key e = Some (sender e) \<and> membership st (sender e) \<noteq> ''ban'' \<and>
      (join_rule_of st = ''public'' \<or> membership st (sender e) \<in> {''invite'', ''join''} \<or>
       join_rule_of st \<in> {''restricted'', ''knock_restricted''} \<and>
       (\<exists>a. str_prop (content e) ''join_authorised_via_users_server'' = Some a \<and> user_id_ok R a \<and>
            membership st a = ''join'' \<and> satisfies (user_level p a) (invite p))))"
proof -
  from assms(1,2) obtain create p t where
    cp: "st ''m.room.create'' [] = Some create"
      "resolve_levels R v create (st ''m.room.power_levels'' []) = Inr p"
    and t: "state_key e = Some t"
    and chk: "check_member R v e create st p (user_level p (sender e)) = Inr ()"
    by (rule accepted_member)
  have "check_join R v e create t st p = Inr ()"
    using chk t assms(3) by (simp add: check_member_def)
  then show ?thesis
    using cp t
    by (auto simp: check_join_def check_restricted_join_def is_first_join_def Let_def
        split: if_splits option.splits)
qed

text \<open>
  C10: Removing somebody else from a room. An accepted ban, or an accepted leave event about another
  user, comes from a joined sender whose power is strictly above the target's and reaches the ban
  or kick level; lifting a ban reaches the ban level as well.
\<close>

theorem removal_needs_seniority:
  assumes "check_state_dependent R v e st = Inr ()" and "event_type e = ''m.room.member''"
    and "str_prop (content e) ''membership'' = Some m" and "state_key e = Some t"
    and "m = ''ban'' \<or> m = ''leave'' \<and> t \<noteq> sender e"
  shows "\<exists>create p. st ''m.room.create'' [] = Some create \<and>
     resolve_levels R v create (st ''m.room.power_levels'' []) = Inr p \<and>
     membership st (sender e) = ''join'' \<and>
     user_from_str R p t < user_level p (sender e) \<and>
     satisfies (user_level p (sender e)) (if m = ''ban'' then ban p else kick p) \<and>
     (m = ''leave'' \<and> membership st t = ''ban'' \<longrightarrow> satisfies (user_level p (sender e)) (ban p))"
proof -
  from assms(1,2) obtain create p where
    cp: "st ''m.room.create'' [] = Some create"
      "resolve_levels R v create (st ''m.room.power_levels'' []) = Inr p"
    and chk: "check_member R v e create st p (user_level p (sender e)) = Inr ()"
    by (rule accepted_member)
  have "m = ''ban'' \<and> check_ban R e t st p (user_level p (sender e)) = Inr () \<or>
        m = ''leave'' \<and> t \<noteq> sender e \<and> check_leave R e t st p (user_level p (sender e)) = Inr ()"
    using chk assms(3-5) by (auto simp: check_member_def)
  then show ?thesis
    using cp by (auto simp: check_ban_def check_leave_def Let_def split: if_splits)
qed

text \<open>
  Ordinary events. An accepted event that is neither the create event nor a membership event
  comes from a joined sender with the level its type requires, the invite level for third-party
  invites, and a state key that starts with an at sign is the sender's own user ID.
\<close>

theorem accepted_event_standing:
  assumes "check_state_dependent R v e st = Inr ()"
    and "event_type e \<noteq> ''m.room.create''" and "event_type e \<noteq> ''m.room.member''"
  shows "\<exists>create p. st ''m.room.create'' [] = Some create \<and>
     resolve_levels R v create (st ''m.room.power_levels'' []) = Inr p \<and>
     membership st (sender e) = ''join'' \<and>
     (if event_type e = ''m.room.third_party_invite''
      then satisfies (user_level p (sender e)) (invite p)
      else satisfies (user_level p (sender e)) (required_for p (event_type e) (is_state e)) \<and>
           (\<forall>sk. state_key e = Some sk \<and> starts_with sk ''@'' \<longrightarrow> sk = sender e))"
  using assms
proof (rule accepted_ordinary)
  fix create p
  assume *: "st ''m.room.create'' [] = Some create"
    "resolve_levels R v create (st ''m.room.power_levels'' []) = Inr p"
    "membership st (sender e) = ''join''"
    "event_type e = ''m.room.third_party_invite'' \<Longrightarrow> satisfies (user_level p (sender e)) (invite p)"
    "event_type e \<noteq> ''m.room.third_party_invite'' \<Longrightarrow>
       satisfies (user_level p (sender e)) (required_for p (event_type e) (is_state e))
       \<and> \<not> user_keyed_by_other e"
  then show ?thesis by (auto simp: user_keyed_by_other_def)
qed

end
