(* ===== verification/State_Res.thy ===== *)
theory State_Res
  imports Auth_Rules
begin

text \<open>
  State resolution v2 and v2.1 (\<open>state_res.rs\<close>). \<open>fetch\<close> is the caller's event source. The loops
  that follow \<open>auth_events\<close> terminate only on the acyclic graphs that content hashes give, so they
  are \<^theory_text>\<open>partial_function\<close>s in the option type: \<^const>\<open>None\<close> is a call that returns nothing.
\<close>

type_synonym state_ids = "(string \<times> string, string) btree_map"
type_synonym fetch = "string \<Rightarrow> identified_pdu option"
type_synonym chain_cache = "(string, string btree_set) btree_map"

datatype state_res_error = MissingEvent string | MissingCreate

definition fetch_r :: "fetch \<Rightarrow> string \<Rightarrow> state_res_error + identified_pdu" where
  "fetch_r fetch eid = ok_or (MissingEvent eid) (fetch eid)"

abbreviation create_key :: "string \<times> string" where
  "create_key \<equiv> (''m.room.create'', '''')"

abbreviation pl_key :: "string \<times> string" where
  "pl_key \<equiv> (''m.room.power_levels'', '''')"

section \<open>Conflicts\<close>

definition partition_step ::
  "state_ids list \<Rightarrow> string \<times> string \<Rightarrow> state_ids \<times> string btree_set \<Rightarrow> state_ids \<times> string btree_set" where
  "partition_step state_sets key = (\<lambda>(unconflicted, conflicted).
     let first = bt_get (hd state_sets) key in
     case first of
       Some val \<Rightarrow>
         if list_all (\<lambda>s. bt_get s key = first) state_sets
         then (bt_insert key val unconflicted, conflicted)
         else (unconflicted, bs_extend (List.map_filter (\<lambda>s. bt_get s key) state_sets) conflicted)
     | None \<Rightarrow> (unconflicted, bs_extend (List.map_filter (\<lambda>s. bt_get s key) state_sets) conflicted))"

definition partition_sets :: "state_ids list \<Rightarrow> state_ids \<times> string btree_set" where
  "partition_sets state_sets =
     (let keys = fold (\<lambda>s. bs_extend (map fst s)) state_sets []
      in fold (partition_step state_sets) keys ([], []))"

section \<open>Auth chains\<close>

text \<open>
  The traversal: a node is expanded into its post-marker and its unfinished auth events, and
  enters \<open>order\<close> when its post-marker is popped. The head of the list is the top of the stack.
\<close>

definition push_auth ::
  "chain_cache \<Rightarrow> string btree_set \<Rightarrow> string list \<Rightarrow> (string \<times> bool) list \<Rightarrow> (string \<times> bool) list" where
  "push_auth cache finished auth stack =
     fold (\<lambda>a st. if a \<notin> set finished \<and> bt_get cache a = None then (a, False) # st else st) auth stack"

partial_function (option) ac_visit ::
  "fetch \<Rightarrow> chain_cache \<Rightarrow> (string \<times> bool) list \<Rightarrow> string btree_set \<Rightarrow> string list
     \<Rightarrow> (state_res_error + string list) option" where
  "ac_visit fetch cache stack finished order =
     (case stack of
        [] \<Rightarrow> Some (Inr order)
      | (node, post) # rest \<Rightarrow>
          if post then
            (if node \<in> set finished then ac_visit fetch cache rest finished order
             else ac_visit fetch cache rest (bs_insert node finished) (order @ [node]))
          else if node \<in> set finished \<or> bt_get cache node \<noteq> None
          then ac_visit fetch cache rest finished order
          else (case fetch node of
                  None \<Rightarrow> Some (Inl (MissingEvent node))
                | Some event \<Rightarrow>
                    ac_visit fetch cache (push_auth cache finished (auth_events event) ((node, True) # rest))
                      finished order))"

declare ac_visit.simps [code]

definition chain_of :: "chain_cache \<Rightarrow> identified_pdu \<Rightarrow> string btree_set" where
  "chain_of cache event =
     fold (\<lambda>a chain. let chain = bs_insert a chain in
             case bt_get cache a of Some sub \<Rightarrow> bs_extend sub chain | None \<Rightarrow> chain)
          (auth_events event) []"

definition ac_fill :: "fetch \<Rightarrow> string \<Rightarrow> chain_cache \<Rightarrow> state_res_error + chain_cache" where
  "ac_fill fetch node cache =
     rbind (fetch_r fetch node) (\<lambda>event. Inr (bt_insert node (chain_of cache event) cache))"

definition auth_chain ::
  "fetch \<Rightarrow> string \<Rightarrow> chain_cache \<Rightarrow> (state_res_error + string btree_set \<times> chain_cache) option" where
  "auth_chain fetch eid cache =
     (case bt_get cache eid of
        Some chain \<Rightarrow> Some (Inr (chain, cache))
      | None \<Rightarrow>
          dbind (ac_visit fetch cache [(eid, False)] [] []) (\<lambda>order.
          dbind (Some (fold_r (ac_fill fetch) order cache)) (\<lambda>cache'.
            Some (Inr (case bt_get cache' eid of Some chain \<Rightarrow> chain | None \<Rightarrow> [], cache')))))"

section \<open>The conflicted state subgraph\<close>

type_synonym auth_graph = "(string, string list) btree_map"

partial_function (option) cs_edges ::
  "fetch \<Rightarrow> string list \<Rightarrow> auth_graph \<Rightarrow> (state_res_error + auth_graph) option" where
  "cs_edges fetch stack edges =
     (case stack of
        [] \<Rightarrow> Some (Inr edges)
      | eid # rest \<Rightarrow>
          if bt_get edges eid \<noteq> None then cs_edges fetch rest edges
          else (case fetch eid of
                  None \<Rightarrow> Some (Inl (MissingEvent eid))
                | Some event \<Rightarrow>
                    cs_edges fetch (rev (auth_events event) @ rest) (bt_insert eid (auth_events event) edges)))"

declare cs_edges.simps [code]

definition reaches_get :: "(string, bool) btree_map \<Rightarrow> string \<Rightarrow> bool" where
  "reaches_get reaches a = (bt_get reaches a = Some True)"

definition reaches_step ::
  "string \<times> string list \<Rightarrow> (string, bool) btree_map \<times> bool \<Rightarrow> (string, bool) btree_map \<times> bool" where
  "reaches_step = (\<lambda>(node, auth) (reaches, changed).
     if bt_get reaches node = Some False \<and> list_ex (reaches_get reaches) auth
     then (bt_insert node True reaches, True) else (reaches, changed))"

definition unreached :: "auth_graph \<Rightarrow> (string, bool) btree_map \<Rightarrow> nat" where
  "unreached edges reaches = length (filter (\<lambda>(k, _). bt_get reaches k = Some False) edges)"

lemma unreached_step:
  assumes "reaches_step e (r, c) = (r', c')" and "e \<in> set edges"
  shows "unreached edges r' \<le> unreached edges r \<and>
    (c' = c \<and> r' = r \<or> c' \<and> unreached edges r' < unreached edges r)"
proof (cases e)
  case (Pair node auth)
  show ?thesis
  proof (cases "bt_get r node = Some False \<and> list_ex (reaches_get r) auth")
    case True
    then have r': "r' = bt_insert node True r" "c'" using assms(1) Pair by (auto simp: reaches_step_def)
    have "length (filter (\<lambda>(k, _). bt_get r' k = Some False) edges)
        < length (filter (\<lambda>(k, _). bt_get r k = Some False) edges)"
    proof -
      have "filter (\<lambda>(k, _). bt_get r' k = Some False) edges
          = filter (\<lambda>(k, _). k \<noteq> node) (filter (\<lambda>(k, _). bt_get r k = Some False) edges)"
        by (auto simp: r' intro!: filter_cong split: if_splits)
      moreover have "(node, auth) \<in> set (filter (\<lambda>(k, _). bt_get r k = Some False) edges)"
        using assms(2) Pair True by simp
      ultimately show ?thesis by (metis (mono_tags, lifting) case_prod_conv length_filter_less)
    qed
    with r'(2) show ?thesis by (simp add: unreached_def)
  next
    case False
    then show ?thesis using assms(1) Pair by (auto simp: reaches_step_def)
  qed
qed

lemma unreached_pass:
  assumes "fold reaches_step es (r, c) = (r', c')" and "set es \<subseteq> set edges"
  shows "unreached edges r' \<le> unreached edges r \<and> (c' = c \<and> r' = r \<or> c' \<and> unreached edges r' < unreached edges r)"
  using assms
proof (induction es arbitrary: r c)
  case (Cons e es)
  obtain r1 c1 where s: "reaches_step e (r, c) = (r1, c1)" by fastforce
  from unreached_step[OF s, of edges] Cons.IH[of r1 c1] Cons.prems s show ?case by auto
qed simp

function reaches_fix :: "auth_graph \<Rightarrow> (string, bool) btree_map \<Rightarrow> (string, bool) btree_map" where
  "reaches_fix edges reaches =
     (let r = fold reaches_step edges (reaches, False) in
      if snd r then reaches_fix edges (fst r) else fst r)"
  by pat_completeness auto
termination
proof (relation "measure (\<lambda>(edges, reaches). unreached edges reaches)")
  fix edges :: auth_graph and reaches x
  assume x: "x = fold reaches_step edges (reaches, False)" "snd x"
  then show "((edges, fst x), edges, reaches) \<in> measure (\<lambda>(edges, reaches). unreached edges reaches)"
    using unreached_pass[of edges reaches False "fst x" "snd x" edges] by (simp add: prod_eq_iff)
qed simp

declare reaches_fix.simps [simp del]

definition conflicted_subgraph ::
  "string btree_set \<Rightarrow> fetch \<Rightarrow> (state_res_error + string btree_set) option" where
  "conflicted_subgraph conflicted fetch =
     dbind (cs_edges fetch (rev conflicted) []) (\<lambda>edges.
       let reaches = reaches_fix edges (map (\<lambda>(k, _). (k, k \<in> set conflicted)) edges) in
       Some (Inr (map fst (filter (\<lambda>(eid, auth). eid \<in> set conflicted \<or> list_ex (reaches_get reaches) auth) edges))))"

section \<open>Reverse topological power ordering\<close>

definition is_power_event :: "identified_pdu \<Rightarrow> bool" where
  "is_power_event event =
     (if event_type event = ''m.room.power_levels'' \<or> event_type event = ''m.room.join_rules''
      then state_key event = Some ''''
      else if event_type event = ''m.room.member''
      then (case bt_get (content event) ''membership'' of
              Some (JStr m) \<Rightarrow> (m = ''leave'' \<or> m = ''ban'') \<and> state_key event \<noteq> Some (sender event)
            | _ \<Rightarrow> False)
      else False)"

definition default_user_level :: "jobj \<Rightarrow> int" where
  "default_user_level pl_content = (case bt_get pl_content ''users_default'' of Some (JInt i) \<Rightarrow> i | _ \<Rightarrow> 0)"

definition user_level_in :: "jobj \<Rightarrow> string \<Rightarrow> int" where
  "user_level_in pl_content user =
     (case bt_get pl_content ''users'' of
        Some (JObj us) \<Rightarrow> (case bt_get us user of Some (JInt i) \<Rightarrow> i | _ \<Rightarrow> default_user_level pl_content)
      | _ \<Rightarrow> default_user_level pl_content)"

definition is_pl_event :: "identified_pdu \<Rightarrow> bool" where
  "is_pl_event e = (event_type e = ''m.room.power_levels'' \<and> state_key e = Some '''')"

fun find_auth_level :: "fetch \<Rightarrow> string \<Rightarrow> string list \<Rightarrow> state_res_error + int option" where
  "find_auth_level fetch user [] = Inr None"
| "find_auth_level fetch user (a # as) =
     rbind (fetch_r fetch a) (\<lambda>auth.
       if is_pl_event auth then Inr (Some (user_level_in (content auth) user))
       else find_auth_level fetch user as)"

definition sender_power_at ::
  "room_version \<Rightarrow> identified_pdu \<Rightarrow> string btree_set \<Rightarrow> fetch \<Rightarrow> state_res_error + power_level" where
  "sender_power_at v event crs fetch =
     (if privileged_creators v \<and> sender event \<in> set crs then Inr Infinite
      else rbind (find_auth_level fetch (sender event) (auth_events event)) (\<lambda>found.
        case found of
          Some l \<Rightarrow> Inr (PLInt l)
        | None \<Rightarrow> Inr (if sender event \<in> set crs then PLInt 100 else PLInt 0)))"

text \<open>The sort key of an event: senders of higher power first, then older, then by id.\<close>

type_synonym sort_key = "power_level reverse \<times> nat \<times> string"

record power_order =
  po_keys :: "(string, sort_key) btree_map"
  po_pending :: "(string, string btree_set) btree_map"
  po_dependents :: "(string, string list) btree_map"
  po_cache :: chain_cache

definition add_dependent :: "string \<Rightarrow> string \<Rightarrow> (string, string list) btree_map \<Rightarrow> (string, string list) btree_map" where
  "add_dependent eid d m =
     bt_insert d ((case bt_get m d of Some ids \<Rightarrow> ids | None \<Rightarrow> []) @ [eid]) m"

definition po_collect ::
  "room_version \<Rightarrow> string btree_set \<Rightarrow> fetch \<Rightarrow> string btree_set \<Rightarrow> string \<Rightarrow> power_order
     \<Rightarrow> (state_res_error + power_order) option" where
  "po_collect v evs fetch crs eid po =
     dbind (Some (fetch_r fetch eid)) (\<lambda>event.
     dbind (Some (sender_power_at v event crs fetch)) (\<lambda>lvl.
     dbind (auth_chain fetch eid (po_cache po)) (\<lambda>(chain, cache).
       let deps = filter (\<lambda>a. a \<in> set evs) chain in
       Some (Inr (po\<lparr>
         po_keys := bt_insert eid (Reverse lvl, origin_server_ts event, eid) (po_keys po),
         po_dependents := fold (add_dependent eid) deps (po_dependents po),
         po_pending := bt_insert eid deps (po_pending po),
         po_cache := cache\<rparr>)))))"

text \<open>
  One round of the algorithm releases the dependents of the popped event. An absent entry of
  \<open>pending\<close> or \<open>keys\<close> would be a panic of the source, and yields \<^const>\<open>None\<close>.
\<close>

type_synonym ready_set = "(sort_key \<times> string) btree_set"

fun release_dependents ::
  "(string, sort_key) btree_map \<Rightarrow> string \<Rightarrow> string list \<Rightarrow> (string, string btree_set) btree_map \<Rightarrow> ready_set
     \<Rightarrow> ((string, string btree_set) btree_map \<times> ready_set) option" where
  "release_dependents keys eid [] pending ready = Some (pending, ready)"
| "release_dependents keys eid (d # ds) pending ready =
     (case bt_get pending d of
        None \<Rightarrow> None
      | Some deps \<Rightarrow>
          let deps' = filter (\<lambda>x. x \<noteq> eid) deps; pending' = bt_insert d deps' pending in
          if deps' = [] then
            (case bt_get keys d of
               None \<Rightarrow> None
             | Some k \<Rightarrow> release_dependents keys eid ds pending' (bs_insert (k, d) ready))
          else release_dependents keys eid ds pending' ready)"

lemma length_bs_insert: "length (bs_insert k s) \<le> Suc (length s)"
  by (induction s) auto

lemma release_dependents_length:
  "release_dependents keys eid ds pending ready = Some (pending', ready') \<Longrightarrow>
   length ready' \<le> length ready + length ds"
proof (induction ds arbitrary: pending ready)
  case (Cons d ds)
  from Cons.prems consider
      k pend where "release_dependents keys eid ds pend (bs_insert (k, d) ready) = Some (pending', ready')"
    | pend where "release_dependents keys eid ds pend ready = Some (pending', ready')"
    by (auto simp: Let_def split: option.splits if_splits)
  then show ?case
  proof cases
    case 1
    from Cons.IH[OF 1] show ?thesis using length_bs_insert[of "(k, d)" ready] by simp
  next
    case 2
    from Cons.IH[OF 2] show ?thesis by simp
  qed
qed simp

definition waiting :: "(string, string list) btree_map \<Rightarrow> nat" where
  "waiting dependents = sum_list (map (length \<circ> snd) dependents)"

lemma waiting_remove_le: "waiting (bt_remove k m) \<le> waiting m"
  by (induction m) (auto simp: waiting_def bt_remove_def)

lemma waiting_remove: "bt_get m k = Some ds \<Longrightarrow> waiting (bt_remove k m) + length ds \<le> waiting m"
proof (induction m)
  case (Cons p m)
  then show ?case
    using waiting_remove_le[of k m] by (cases p) (auto simp: waiting_def bt_remove_def split: if_splits)
qed simp

lemma bt_remove_absent: "bt_get m k = None \<Longrightarrow> bt_remove k m = m"
  by (induction m) (auto simp: bt_remove_def split: if_splits)

function kahn ::
  "(string, sort_key) btree_map \<Rightarrow> ready_set \<Rightarrow> (string, string btree_set) btree_map
     \<Rightarrow> (string, string list) btree_map \<Rightarrow> string list \<Rightarrow> string list option" where
  "kahn keys [] pending dependents out = Some out"
| "kahn keys ((k, eid) # ready) pending dependents out =
     (case release_dependents keys eid
             (case bt_get dependents eid of Some ds \<Rightarrow> ds | None \<Rightarrow> []) pending ready of
        None \<Rightarrow> None
      | Some (pending', ready') \<Rightarrow> kahn keys ready' pending' (bt_remove eid dependents) (out @ [eid]))"
  by pat_completeness auto
termination
proof (relation "measure (\<lambda>(_, ready, _, dependents, _). length ready + waiting dependents)", goal_cases)
  case (2 keys k eid ready pending dependents out x pending' ready')
  then have "length ready' \<le> length ready + length (case bt_get dependents eid of Some ds \<Rightarrow> ds | None \<Rightarrow> [])"
    by (auto dest: release_dependents_length)
  moreover have "waiting (bt_remove eid dependents)
      + length (case bt_get dependents eid of Some ds \<Rightarrow> ds | None \<Rightarrow> []) \<le> waiting dependents"
    by (auto simp: bt_remove_absent waiting_remove split: option.split)
  ultimately show ?case by simp
qed simp

definition ready_of ::
  "(string, sort_key) btree_map \<Rightarrow> (string, string btree_set) btree_map \<Rightarrow> ready_set" where
  "ready_of keys pending =
     bs_of (List.map_filter (\<lambda>(eid, deps). if deps = [] then map_option (\<lambda>k. (k, eid)) (bt_get keys eid) else None)
              pending)"

definition reverse_topological_power_order ::
  "room_version \<Rightarrow> string btree_set \<Rightarrow> fetch \<Rightarrow> string btree_set \<Rightarrow> chain_cache
     \<Rightarrow> (state_res_error + string list \<times> chain_cache) option" where
  "reverse_topological_power_order v evs fetch crs cache =
     dbind (fold_d (po_collect v evs fetch crs) evs
              \<lparr>po_keys = [], po_pending = [], po_dependents = [], po_cache = cache\<rparr>) (\<lambda>po.
       map_option (\<lambda>out. Inr (out, po_cache po))
         (kahn (po_keys po) (ready_of (po_keys po) (po_pending po)) (po_pending po) (po_dependents po) []))"

section \<open>Iterative auth checks\<close>

definition state_entry_key :: "identified_pdu \<Rightarrow> string \<times> string" where
  "state_entry_key e = (event_type e, case state_key e of Some k \<Rightarrow> k | None \<Rightarrow> '''')"

text \<open>The create event of a version 12 room: the room id with its sigil exchanged.\<close>

definition create_from_room_id :: "'v ruma \<Rightarrow> fetch \<Rightarrow> identified_pdu \<Rightarrow> identified_pdu option" where
  "create_from_room_id R fetch event =
     (case room_id event of
        Some rid \<Rightarrow> let cid = CHR ''$'' # tl rid in if event_id_ok R cid then fetch cid else None
      | None \<Rightarrow> None)"

fun auth_fallback :: "fetch \<Rightarrow> string \<times> string \<Rightarrow> string list \<Rightarrow> identified_pdu option" where
  "auth_fallback fetch key [] = None"
| "auth_fallback fetch key (a # as) =
     (case fetch a of
        Some ae \<Rightarrow> if state_entry_key ae = key then Some ae else auth_fallback fetch key as
      | None \<Rightarrow> auth_fallback fetch key as)"

definition effective_entry ::
  "'v ruma \<Rightarrow> room_version \<Rightarrow> fetch \<Rightarrow> state_ids \<Rightarrow> identified_pdu \<Rightarrow> string \<times> string
     \<Rightarrow> (string \<times> string, identified_pdu) btree_map
     \<Rightarrow> state_res_error + (string \<times> string, identified_pdu) btree_map" where
  "effective_entry R v fetch state event key eff =
     (case bt_get state key of
        Some existing \<Rightarrow> rbind (fetch_r fetch existing) (\<lambda>e. Inr (bt_insert key e eff))
      | None \<Rightarrow>
          if fst key = ''m.room.create'' \<and> room_id_is_create_event_id v
          then Inr (case create_from_room_id R fetch event of Some c \<Rightarrow> bt_insert key c eff | None \<Rightarrow> eff)
          else Inr (case auth_fallback fetch key (auth_events event) of
                      Some ae \<Rightarrow> bt_insert key ae eff | None \<Rightarrow> eff))"

definition effective_state ::
  "'v ruma \<Rightarrow> room_version \<Rightarrow> fetch \<Rightarrow> state_ids \<Rightarrow> identified_pdu
     \<Rightarrow> state_res_error + (string \<times> string, identified_pdu) btree_map" where
  "effective_state R v fetch state event =
     fold_r (effective_entry R v fetch state event)
       (bs_insert create_key (auth_types_of v event)) []"

definition auth_check_step ::
  "room_version ruma \<Rightarrow> room_version \<Rightarrow> fetch \<Rightarrow> string \<Rightarrow> state_ids \<Rightarrow> state_res_error + state_ids" where
  "auth_check_step R v fetch eid state =
     rbind (fetch_r fetch eid) (\<lambda>event.
     rbind (effective_state R v fetch state event) (\<lambda>eff.
       Inr (if is_ok (check_state_dependent R v event (state_map_get eff))
            then bt_insert (state_entry_key event) eid state else state)))"

definition iterative_auth_checks ::
  "room_version ruma \<Rightarrow> room_version \<Rightarrow> string list \<Rightarrow> state_ids \<Rightarrow> fetch \<Rightarrow> state_res_error + state_ids" where
  "iterative_auth_checks R v order initial fetch = fold_r (auth_check_step R v fetch) order initial"

section \<open>The mainline\<close>

fun pl_in_list :: "fetch \<Rightarrow> string list \<Rightarrow> state_res_error + string option" where
  "pl_in_list fetch [] = Inr None"
| "pl_in_list fetch (a # as) =
     rbind (fetch_r fetch a) (\<lambda>auth. if is_pl_event auth then Inr (Some a) else pl_in_list fetch as)"

definition pl_in_auth_events :: "identified_pdu \<Rightarrow> fetch \<Rightarrow> state_res_error + string option" where
  "pl_in_auth_events event fetch = pl_in_list fetch (auth_events event)"

partial_function (option) mainline_loop ::
  "fetch \<Rightarrow> string option \<Rightarrow> nat \<Rightarrow> (string, nat) btree_map \<Rightarrow> (state_res_error + (string, nat) btree_map) option" where
  "mainline_loop fetch current index mainline =
     (case current of
        None \<Rightarrow> Some (Inr mainline)
      | Some eid \<Rightarrow>
          (case rbind (fetch_r fetch eid) (\<lambda>event. pl_in_auth_events event fetch) of
             Inl e \<Rightarrow> Some (Inl e)
           | Inr nxt \<Rightarrow> mainline_loop fetch nxt (index + 1) (bt_insert eid index mainline)))"

declare mainline_loop.simps [code]

definition build_mainline :: "string option \<Rightarrow> fetch \<Rightarrow> (state_res_error + (string, nat) btree_map) option" where
  "build_mainline start fetch = mainline_loop fetch start 0 []"

definition usize_max :: nat where
  "usize_max = 2 ^ 64 - 1"

partial_function (option) position_loop ::
  "(string, nat) btree_map \<Rightarrow> fetch \<Rightarrow> (string, nat) btree_map \<Rightarrow> string option \<Rightarrow> string list
     \<Rightarrow> (state_res_error + nat \<times> string list) option" where
  "position_loop mainline fetch cache current walked =
     (case current of
        None \<Rightarrow> Some (Inr (usize_max, walked))
      | Some eid \<Rightarrow>
          (case bt_get mainline eid of
             Some i \<Rightarrow> Some (Inr (i, walked))
           | None \<Rightarrow>
               (case bt_get cache eid of
                  Some i \<Rightarrow> Some (Inr (i, walked))
                | None \<Rightarrow>
                    (case rbind (fetch_r fetch eid) (\<lambda>e. pl_in_auth_events e fetch) of
                       Inl err \<Rightarrow> Some (Inl err)
                     | Inr nxt \<Rightarrow> position_loop mainline fetch cache nxt (walked @ [eid])))))"

declare position_loop.simps [code]

definition mainline_position ::
  "identified_pdu \<Rightarrow> (string, nat) btree_map \<Rightarrow> fetch \<Rightarrow> (string, nat) btree_map
     \<Rightarrow> (state_res_error + nat \<times> (string, nat) btree_map) option" where
  "mainline_position event mainline fetch cache =
     (case bt_get cache (event_id event) of
        Some pos \<Rightarrow> Some (Inr (pos, cache))
      | None \<Rightarrow>
          dbind (Some (pl_in_auth_events event fetch)) (\<lambda>current.
          dbind (position_loop mainline fetch cache current [event_id event]) (\<lambda>(pos, walked).
            Some (Inr (pos, fold (\<lambda>eid. bt_insert eid pos) walked cache)))))"

section \<open>Resolution\<close>

definition chain_union ::
  "fetch \<Rightarrow> state_ids \<Rightarrow> string btree_set list \<times> chain_cache \<Rightarrow> (state_res_error + string btree_set list \<times> chain_cache) option" where
  "chain_union fetch s = (\<lambda>(chs, cache).
     dbind (fold_d (\<lambda>eid (chain, cache).
              dbind (auth_chain fetch eid cache) (\<lambda>(c, cache'). Some (Inr (bs_extend c chain, cache'))))
            (map snd s) ([], cache)) (\<lambda>(chain, cache').
       Some (Inr (chs @ [chain], cache'))))"

definition auth_difference_of :: "string btree_set list \<Rightarrow> string btree_set" where
  "auth_difference_of chs =
     filter (\<lambda>eid. \<not> list_all (\<lambda>c. eid \<in> set c) chs) (bs_of (concat chs))"

definition add_power_event ::
  "fetch \<Rightarrow> string btree_set \<Rightarrow> string \<Rightarrow> string btree_set \<times> chain_cache
     \<Rightarrow> (state_res_error + string btree_set \<times> chain_cache) option" where
  "add_power_event fetch full_conflicted eid = (\<lambda>(power_set, cache).
     dbind (Some (fetch_r fetch eid)) (\<lambda>event.
       if is_power_event event then
         dbind (auth_chain fetch eid cache) (\<lambda>(chain, cache').
           Some (Inr (bs_extend (filter (\<lambda>a. a \<in> set full_conflicted) chain) (bs_insert eid power_set), cache')))
       else Some (Inr (power_set, cache))))"

definition find_create :: "state_ids \<Rightarrow> state_ids list \<Rightarrow> string option" where
  "find_create unconflicted state_sets =
     (case bt_get unconflicted create_key of
        Some c \<Rightarrow> Some c
      | None \<Rightarrow> (case List.map_filter (\<lambda>s. bt_get s create_key) state_sets of [] \<Rightarrow> None | c # _ \<Rightarrow> Some c))"

text \<open>The mainline sort: greater position first, then the smaller timestamp, then the smaller id.\<close>

type_synonym mainline_key = "nat reverse \<times> nat \<times> string"

definition add_position ::
  "(string, nat) btree_map \<Rightarrow> fetch \<Rightarrow> string \<Rightarrow> mainline_key list \<times> (string, nat) btree_map
     \<Rightarrow> (state_res_error + mainline_key list \<times> (string, nat) btree_map) option" where
  "add_position mainline fetch eid = (\<lambda>(ordered, cache).
     dbind (Some (fetch_r fetch eid)) (\<lambda>event.
     dbind (mainline_position event mainline fetch cache) (\<lambda>(pos, cache').
       Some (Inr (ordered @ [(Reverse pos, origin_server_ts event, eid)], cache')))))"

definition mainline_order ::
  "(string, nat) btree_map \<Rightarrow> fetch \<Rightarrow> string list \<Rightarrow> (state_res_error + string list) option" where
  "mainline_order mainline fetch remaining =
     dbind (fold_d (add_position mainline fetch) remaining ([], [])) (\<lambda>(ordered, cache).
       Some (Inr (map (snd \<circ> snd) (sort ordered))))"

definition full_conflicted_set ::
  "room_version \<Rightarrow> fetch \<Rightarrow> string btree_set \<Rightarrow> string btree_set list \<Rightarrow> (state_res_error + string btree_set) option" where
  "full_conflicted_set v fetch conflicted chs =
     (let base = bs_extend (auth_difference_of chs) conflicted in
      if state_res v = SR_V2_1
      then dbind (conflicted_subgraph conflicted fetch) (\<lambda>sub. Some (Inr (bs_extend sub base)))
      else Some (Inr base))"

text \<open>Steps 2 to 5: the checks over the power events, the mainline order, the rest, the unconflicted map.\<close>

definition resolve_ordered ::
  "room_version ruma \<Rightarrow> room_version \<Rightarrow> state_ids \<Rightarrow> string btree_set \<Rightarrow> string btree_set \<Rightarrow> string list \<Rightarrow> fetch
     \<Rightarrow> (state_res_error + state_ids) option" where
  "resolve_ordered R v unconflicted full_conflicted power_set sorted_power fetch =
     dbind (Some (iterative_auth_checks R v sorted_power
              (if state_res v = SR_V2 then unconflicted else []) fetch)) (\<lambda>partial.
     dbind (build_mainline (bt_get partial pl_key) fetch) (\<lambda>mainline.
     dbind (mainline_order mainline fetch (filter (\<lambda>eid. eid \<notin> set power_set) full_conflicted)) (\<lambda>sorted_remaining.
     dbind (Some (iterative_auth_checks R v sorted_remaining partial fetch)) (\<lambda>resolved.
       Some (Inr (fold (\<lambda>(k, w). bt_insert k w) unconflicted resolved))))))"

definition resolve ::
  "room_version ruma \<Rightarrow> room_version \<Rightarrow> state_ids list \<Rightarrow> fetch \<Rightarrow> (state_res_error + state_ids) option" where
  "resolve R v state_sets fetch =
     (if state_sets = [] then Some (Inr [])
      else case partition_sets state_sets of (unconflicted, conflicted) \<Rightarrow>
        if conflicted = [] then Some (Inr unconflicted)
        else
          dbind (fold_d (chain_union fetch) state_sets ([], [])) (\<lambda>(chs, cache1).
          dbind (full_conflicted_set v fetch conflicted chs) (\<lambda>full_conflicted.
          dbind (Some (ok_or MissingCreate (find_create unconflicted state_sets))) (\<lambda>create_id.
          dbind (Some (fetch_r fetch create_id)) (\<lambda>create.
          dbind (fold_d (add_power_event fetch full_conflicted) full_conflicted ([], cache1)) (\<lambda>(power_set, cache2).
          dbind (reverse_topological_power_order v power_set fetch (creators R v create) cache2) (\<lambda>(sorted_power, cache3).
            resolve_ordered R v unconflicted full_conflicted power_set sorted_power fetch)))))))"

end
