(* ===== verification/Auth_Chain.thy ===== *)
theory Auth_Chain
  imports State_Res
begin

text \<open>
  The auth graph behind \<open>state_res.rs\<close> and what the traversals over it compute: \<open>auth_chain\<close> yields
  the proper ancestors of an event whatever the cache holds, \<open>conflicted_subgraph\<close> the events on
  paths between conflicted events. Both are shown to return.
\<close>

section \<open>The auth graph\<close>

definition auth_edge :: "fetch \<Rightarrow> (string \<times> string) set" where
  "auth_edge fetch = {(n, a). \<exists>e. fetch n = Some e \<and> a \<in> set (auth_events e)}"

definition ancestors :: "fetch \<Rightarrow> string \<Rightarrow> string set" where
  "ancestors fetch n = {a. (n, a) \<in> (auth_edge fetch)\<^sup>+}"

text \<open>
  What the caller of \<open>resolve\<close> provides: the events form an acyclic graph, and every event of the
  set \<open>known\<close> can be fetched with all it references.
\<close>

definition auth_dag :: "fetch \<Rightarrow> string set \<Rightarrow> bool" where
  "auth_dag fetch known \<longleftrightarrow> wf ((auth_edge fetch)\<inverse>) \<and>
     (\<forall>n \<in> known. \<exists>e. fetch n = Some e \<and> set (auth_events e) \<subseteq> known)"

lemma auth_dagD:
  assumes "auth_dag fetch known" and "n \<in> known"
  obtains e where "fetch n = Some e" and "set (auth_events e) \<subseteq> known"
  using assms by (auto simp: auth_dag_def)

lemma auth_events_known:
  assumes "auth_dag fetch known" and "n \<in> known" and "fetch n = Some e" and "a \<in> set (auth_events e)"
  shows "a \<in> known" and "\<exists>ae. fetch a = Some ae"
proof -
  show a: "a \<in> known" using auth_dagD[OF assms(1,2)] assms(3,4) by (metis option.inject subsetD)
  show "\<exists>ae. fetch a = Some ae" using auth_dagD[OF assms(1) a] by blast
qed

lemma auth_dag_wf: "auth_dag fetch known \<Longrightarrow> wf ((auth_edge fetch)\<inverse>)"
  by (simp add: auth_dag_def)

lemma auth_edge_fetch: "fetch n = Some e \<Longrightarrow> (n, a) \<in> auth_edge fetch \<longleftrightarrow> a \<in> set (auth_events e)"
  by (simp add: auth_edge_def)

lemma ancestors_step:
  assumes "fetch n = Some e"
  shows "ancestors fetch n = set (auth_events e) \<union> (\<Union>a \<in> set (auth_events e). ancestors fetch a)"
  using assms by (auto simp: ancestors_def auth_edge_fetch dest: tranclD intro: trancl_into_trancl2)
    (metis auth_edge_fetch rtranclD tranclD)

lemma auth_dag_reach:
  assumes "auth_dag fetch known" and "n \<in> known" and "(n, a) \<in> (auth_edge fetch)\<^sup>*"
  shows "a \<in> known"
  using assms(3,2)
proof (induction rule: rtrancl_induct)
  case (step y z)
  then show ?case using auth_dagD[OF assms(1), of y] by (metis auth_edge_fetch subsetD)
qed

lemma ancestors_known: "auth_dag fetch known \<Longrightarrow> n \<in> known \<Longrightarrow> ancestors fetch n \<subseteq> known"
  by (auto simp: ancestors_def intro: auth_dag_reach trancl_into_rtrancl)

lemma ancestors_irrefl: "auth_dag fetch known \<Longrightarrow> n \<notin> ancestors fetch n"
  by (metis (no_types, lifting) ancestors_def auth_dag_wf converse_iff mem_Collect_eq trancl_converse wf_irrefl wf_trancl)

lemma ancestors_trans: "a \<in> ancestors fetch n \<Longrightarrow> b \<in> ancestors fetch a \<Longrightarrow> b \<in> ancestors fetch n"
  by (auto simp: ancestors_def)

section \<open>Chains\<close>

definition chains_sound :: "fetch \<Rightarrow> chain_cache \<Rightarrow> bool" where
  "chains_sound fetch cache \<longleftrightarrow>
     (\<forall>n ch. bt_get cache n = Some ch \<longrightarrow> bs_wf ch \<and> set ch = ancestors fetch n)"

lemma chain_of_sound:
  assumes "chains_sound fetch cache" and "fetch n = Some e"
    and "set (auth_events e) \<subseteq> dom (bt_get cache)"
  shows "bs_wf (chain_of cache e)" and "set (chain_of cache e) = ancestors fetch n"
proof -
  let ?step = "\<lambda>a chain. let chain = bs_insert a chain in
     case bt_get cache a of Some sub \<Rightarrow> bs_extend sub chain | None \<Rightarrow> chain"
  have "bs_wf (fold ?step as acc) \<and> set (fold ?step as acc) = set acc \<union> set as \<union> (\<Union>a \<in> set as. ancestors fetch a)"
    if "set as \<subseteq> dom (bt_get cache)" and "bs_wf acc" for as acc
    using that
  proof (induction as arbitrary: acc)
    case (Cons a as)
    then obtain sub where sub: "bt_get cache a = Some sub" by auto
    then have "set sub = ancestors fetch a" using assms(1) by (simp add: chains_sound_def)
    with Cons sub show ?case by (auto simp: Let_def)
  qed simp
  from this[OF assms(3), of "[]"] show "bs_wf (chain_of cache e)" "set (chain_of cache e) = ancestors fetch n"
    unfolding chain_of_def ancestors_step[of fetch n, OF assms(2)] by simp_all
qed

text \<open>
  The invariant of the traversal: filling the cache along \<open>order\<close> succeeds, keeps it sound and
  covers exactly the finished events beyond those cached before.
\<close>

definition visit_inv :: "fetch \<Rightarrow> chain_cache \<Rightarrow> string btree_set \<Rightarrow> string list \<Rightarrow> bool" where
  "visit_inv fetch cache finished order \<longleftrightarrow> set finished = set order \<and>
     (\<exists>cache'. fold_r (ac_fill fetch) order cache = Inr cache' \<and> chains_sound fetch cache' \<and>
        dom (bt_get cache') = dom (bt_get cache) \<union> set order)"

lemma visit_inv_finish:
  assumes "visit_inv fetch cache finished order" and "fetch n = Some e"
    and "set (auth_events e) \<subseteq> set order \<union> dom (bt_get cache)"
  shows "visit_inv fetch cache (bs_insert n finished) (order @ [n])"
proof -
  from assms(1) obtain c where c: "fold_r (ac_fill fetch) order cache = Inr c" "chains_sound fetch c"
    "dom (bt_get c) = dom (bt_get cache) \<union> set order" "set finished = set order"
    by (auto simp: visit_inv_def)
  have "set (auth_events e) \<subseteq> dom (bt_get c)" using assms(3) c(3) by blast
  note ch = chain_of_sound[OF c(2) assms(2) this]
  have "fold_r (ac_fill fetch) (order @ [n]) cache = Inr (bt_insert n (chain_of c e) c)"
    by (simp add: fold_r_append c(1) ac_fill_def fetch_r_def assms(2))
  moreover have "chains_sound fetch (bt_insert n (chain_of c e) c)"
    using c(2) ch by (auto simp: chains_sound_def)
  ultimately show ?thesis using c(3,4) by (auto simp: visit_inv_def)
qed

lemma push_auth_eq:
  "push_auth cache finished auth stack =
     map (\<lambda>a. (a, False)) (rev (filter (\<lambda>a. a \<notin> set finished \<and> bt_get cache a = None) auth)) @ stack"
  unfolding push_auth_def by (induction auth arbitrary: stack) auto

text \<open>Visiting one entry of the stack hands the rest of the stack on with the entry done.\<close>

definition visits :: "fetch \<Rightarrow> chain_cache \<Rightarrow> string \<Rightarrow> bool" where
  "visits fetch cache n \<longleftrightarrow> (\<forall>rest fin order. visit_inv fetch cache fin order \<longrightarrow>
     (\<exists>fin' order'. ac_visit fetch cache ((n, False) # rest) fin order = ac_visit fetch cache rest fin' order' \<and>
        visit_inv fetch cache fin' order' \<and> set order \<subseteq> set order' \<and> n \<in> set order' \<union> dom (bt_get cache)))"

lemma visits_list:
  assumes "\<forall>a \<in> set as. visits fetch cache a" and "visit_inv fetch cache fin order"
  shows "\<exists>fin' order'. ac_visit fetch cache (map (\<lambda>a. (a, False)) as @ rest) fin order = ac_visit fetch cache rest fin' order' \<and>
    visit_inv fetch cache fin' order' \<and> set order \<subseteq> set order' \<and> set as \<subseteq> set order' \<union> dom (bt_get cache)"
  using assms
proof (induction as arbitrary: fin order)
  case Nil
  then show ?case by auto
next
  case (Cons a as)
  from Cons.prems have "visits fetch cache a" by simp
  then obtain fin1 order1 where 1: "ac_visit fetch cache ((a, False) # map (\<lambda>a. (a, False)) as @ rest) fin order
        = ac_visit fetch cache (map (\<lambda>a. (a, False)) as @ rest) fin1 order1"
      "visit_inv fetch cache fin1 order1" "set order \<subseteq> set order1" "a \<in> set order1 \<union> dom (bt_get cache)"
    using Cons.prems(2) unfolding visits_def by blast
  from Cons.IH[OF _ 1(2)] Cons.prems(1) obtain fin2 order2 where
      "ac_visit fetch cache (map (\<lambda>a. (a, False)) as @ rest) fin1 order1 = ac_visit fetch cache rest fin2 order2"
      "visit_inv fetch cache fin2 order2" "set order1 \<subseteq> set order2" "set as \<subseteq> set order2 \<union> dom (bt_get cache)"
    by auto
  with 1 show ?case by (intro exI[of _ fin2] exI[of _ order2]) auto
qed

lemma visits_node:
  assumes fetch: "fetch n = Some e" and IH: "\<forall>a \<in> set (auth_events e). visits fetch cache a"
  shows "visits fetch cache n"
  unfolding visits_def
proof (intro allI impI)
  fix rest fin order
  assume inv: "visit_inv fetch cache fin order"
  then have fin: "set fin = set order" by (simp add: visit_inv_def)
  show "\<exists>fin' order'. ac_visit fetch cache ((n, False) # rest) fin order = ac_visit fetch cache rest fin' order' \<and>
      visit_inv fetch cache fin' order' \<and> set order \<subseteq> set order' \<and> n \<in> set order' \<union> dom (bt_get cache)"
  proof (cases "n \<in> set fin \<or> bt_get cache n \<noteq> None")
    case True
    then show ?thesis using inv fin
      by (intro exI[of _ fin] exI[of _ order]) (auto simp: ac_visit.simps[of fetch cache "(n, False) # rest"])
  next
    case False
    let ?as = "rev (filter (\<lambda>a. a \<notin> set fin \<and> bt_get cache a = None) (auth_events e))"
    from visits_list[of ?as fetch cache fin order "(n, True) # rest"] IH inv obtain fin1 order1 where
      1: "ac_visit fetch cache (map (\<lambda>a. (a, False)) ?as @ (n, True) # rest) fin order
            = ac_visit fetch cache ((n, True) # rest) fin1 order1"
         "visit_inv fetch cache fin1 order1" "set order \<subseteq> set order1" "set ?as \<subseteq> set order1 \<union> dom (bt_get cache)"
      by auto
    have expand: "ac_visit fetch cache ((n, False) # rest) fin order = ac_visit fetch cache ((n, True) # rest) fin1 order1"
      using False fetch 1(1) by (simp add: ac_visit.simps[of fetch cache "(n, False) # rest"] push_auth_eq)
    have deps: "set (auth_events e) \<subseteq> set order1 \<union> dom (bt_get cache)"
      using 1(3,4) fin by auto
    have fin1: "set fin1 = set order1" using 1(2) by (simp add: visit_inv_def)
    show ?thesis
    proof (cases "n \<in> set fin1")
      case True
      then show ?thesis using 1 expand fin1
        by (intro exI[of _ fin1] exI[of _ order1]) (auto simp: ac_visit.simps[of fetch cache "(n, True) # rest"])
    next
      case False
      then show ?thesis using expand visit_inv_finish[OF 1(2) fetch deps] 1(3)
        by (intro exI[of _ "bs_insert n fin1"] exI[of _ "order1 @ [n]"])
           (auto simp: ac_visit.simps[of fetch cache "(n, True) # rest"])
    qed
  qed
qed

lemma visits_known:
  assumes "auth_dag fetch known"
  shows "n \<in> known \<longrightarrow> visits fetch cache n"
proof (induction n rule: wf_induct_rule[OF auth_dag_wf[OF assms]])
  case (1 n)
  show ?case
  proof
    assume n: "n \<in> known"
    then obtain e where e: "fetch n = Some e" "set (auth_events e) \<subseteq> known"
      using auth_dagD[OF assms] by blast
    show "visits fetch cache n"
      by (rule visits_node[of fetch n, OF e(1)]) (use 1 e in \<open>auto simp: auth_edge_fetch\<close>)
  qed
qed

lemma auth_chain_correct:
  assumes dag: "auth_dag fetch known" and n: "n \<in> known" and sound: "chains_sound fetch cache"
  shows "\<exists>chain cache'. auth_chain fetch n cache = Some (Inr (chain, cache')) \<and>
    bs_wf chain \<and> set chain = ancestors fetch n \<and> chains_sound fetch cache'"
proof (cases "bt_get cache n")
  case (Some chain)
  then show ?thesis using sound by (simp add: auth_chain_def chains_sound_def)
next
  case None
  have "visit_inv fetch cache [] []" using sound by (auto simp: visit_inv_def)
  then obtain fin order where v: "ac_visit fetch cache [(n, False)] [] [] = ac_visit fetch cache [] fin order"
      "visit_inv fetch cache fin order" "n \<in> set order \<union> dom (bt_get cache)"
    using visits_known[OF dag, of n cache] n unfolding visits_def by blast
  then obtain c where c: "fold_r (ac_fill fetch) order cache = Inr c" "chains_sound fetch c"
      "dom (bt_get c) = dom (bt_get cache) \<union> set order"
    by (auto simp: visit_inv_def)
  with v(3) obtain ch where ch: "bt_get c n = Some ch" by auto
  have "auth_chain fetch n cache = Some (Inr (ch, c))"
    using None v(1) c(1) ch by (simp add: auth_chain_def ac_visit.simps[of fetch cache "[]"])
  then show ?thesis using c(2) ch by (auto simp: chains_sound_def)
qed

text \<open>
  C30: On an acyclic auth graph whose events can all be fetched, the iterative traversal of
  \<open>auth_chain\<close> returns, and returns the ordered set of exactly the proper ancestors of the event
  (its auth events, theirs, and so on, without the event itself), for every cache that holds only
  correct chains; the updated cache again holds only correct chains.
\<close>

theorem auth_chain_exact:
  assumes "auth_dag fetch known" and "n \<in> known" and "chains_sound fetch cache"
  shows "\<exists>chain cache'. auth_chain fetch n cache = Some (Inr (chain, cache')) \<and>
    bs_wf chain \<and> set chain = ancestors fetch n \<and> chains_sound fetch cache'"
  using assms by (rule auth_chain_correct)

section \<open>The conflicted state subgraph\<close>

definition reachable_from :: "fetch \<Rightarrow> string set \<Rightarrow> string set" where
  "reachable_from fetch S = {n. \<exists>c \<in> S. (c, n) \<in> (auth_edge fetch)\<^sup>*}"

text \<open>The events on \<open>auth_events\<close> paths between two events of \<open>S\<close>, endpoints included.\<close>

definition between :: "fetch \<Rightarrow> string set \<Rightarrow> string set" where
  "between fetch S = {n. n \<in> reachable_from fetch S \<and> (\<exists>d \<in> S. (n, d) \<in> (auth_edge fetch)\<^sup>*)}"

lemma finite_ancestors:
  assumes "auth_dag fetch known"
  shows "n \<in> known \<longrightarrow> finite (ancestors fetch n)"
proof (induction n rule: wf_induct_rule[OF auth_dag_wf[OF assms]])
  case (1 n)
  show ?case
  proof
    assume "n \<in> known"
    then obtain e where e: "fetch n = Some e" "set (auth_events e) \<subseteq> known"
      using auth_dagD[OF assms] by blast
    then show "finite (ancestors fetch n)"
      using 1 by (auto simp: ancestors_step[of fetch n e] auth_edge_fetch)
  qed
qed

lemma reachable_from_ancestors: "reachable_from fetch S = S \<union> (\<Union>c \<in> S. ancestors fetch c)"
  by (auto simp: reachable_from_def ancestors_def rtrancl_eq_or_trancl)

lemma finite_reachable_from:
  assumes "auth_dag fetch known" and "S \<subseteq> known" and "finite S"
  shows "finite (reachable_from fetch S)"
  unfolding reachable_from_ancestors using assms finite_ancestors[OF assms(1)] by auto

lemma reachable_from_known: "auth_dag fetch known \<Longrightarrow> S \<subseteq> known \<Longrightarrow> reachable_from fetch S \<subseteq> known"
  by (auto simp: reachable_from_def intro: auth_dag_reach)

lemma reachable_from_step:
  "n \<in> reachable_from fetch S \<Longrightarrow> (n, a) \<in> auth_edge fetch \<Longrightarrow> a \<in> reachable_from fetch S"
  by (auto simp: reachable_from_def intro: rtrancl_into_rtrancl)

lemma reachable_from_least:
  assumes "S \<subseteq> T" and "\<And>n a. n \<in> T \<Longrightarrow> (n, a) \<in> auth_edge fetch \<Longrightarrow> a \<in> T"
  shows "reachable_from fetch S \<subseteq> T"
proof
  fix n
  assume "n \<in> reachable_from fetch S"
  then obtain c where "c \<in> S" "(c, n) \<in> (auth_edge fetch)\<^sup>*" by (auto simp: reachable_from_def)
  from this(2,1) show "n \<in> T" by (induction rule: rtrancl_induct) (use assms in auto)
qed

text \<open>The edge collection: what is recorded, and what is still on the stack.\<close>

definition edges_inv :: "fetch \<Rightarrow> string set \<Rightarrow> string list \<Rightarrow> auth_graph \<Rightarrow> bool" where
  "edges_inv fetch S stack edges \<longleftrightarrow> bt_wf edges \<and>
     set stack \<union> dom (bt_get edges) \<subseteq> reachable_from fetch S \<and> S \<subseteq> set stack \<union> dom (bt_get edges) \<and>
     (\<forall>n as. bt_get edges n = Some as \<longrightarrow>
        (\<exists>e. fetch n = Some e \<and> as = auth_events e) \<and> set as \<subseteq> set stack \<union> dom (bt_get edges))"

lemma edges_invD:
  assumes "edges_inv fetch S stack edges" and "bt_get edges n = Some as"
  shows "\<exists>e. fetch n = Some e \<and> as = auth_events e" and "set as \<subseteq> set stack \<union> dom (bt_get edges)"
  using assms unfolding edges_inv_def by blast+

lemma edges_inv_expand:
  assumes inv: "edges_inv fetch S (n # rest) edges" and e: "fetch n = Some e"
  shows "edges_inv fetch S (rev (auth_events e) @ rest) (bt_insert n (auth_events e) edges)"
proof -
  have "n \<in> reachable_from fetch S" using inv by (simp add: edges_inv_def)
  then have "set (auth_events e) \<subseteq> reachable_from fetch S"
    using reachable_from_step[of n fetch S] e by (auto simp: auth_edge_fetch)
  moreover have "set as \<subseteq> set (auth_events e) \<union> set rest \<union> insert n (dom (bt_get edges))"
    if "bt_get edges m = Some as" for m as
    using edges_invD(2)[OF inv that] by auto
  ultimately show ?thesis using inv e unfolding edges_inv_def by (auto split: if_splits)
qed

lemma edges_inv_skip:
  "edges_inv fetch S (n # rest) edges \<Longrightarrow> bt_get edges n = Some as \<Longrightarrow> edges_inv fetch S rest edges"
  unfolding edges_inv_def by (simp add: insert_absorb domI)

lemma cs_edges_total:
  assumes dag: "auth_dag fetch known" and S: "S \<subseteq> known" "finite S" and inv: "edges_inv fetch S stack edges"
  shows "\<exists>edges'. cs_edges fetch stack edges = Some (Inr edges') \<and> edges_inv fetch S [] edges'"
  using inv
proof (induction "card (reachable_from fetch S - dom (bt_get edges))" "length stack"
       arbitrary: stack edges rule: wf_induct_rule[OF wf_lex_prod[OF wf_less wf_less], split_format(complete)])
  case (1 stack edges)
  show ?case
  proof (cases stack)
    case Nil
    then show ?thesis using 1(2) by (simp add: cs_edges.simps[of fetch "[]"])
  next
    case (Cons n rest)
    then have n: "n \<in> reachable_from fetch S" using 1(2) by (simp add: edges_inv_def)
    show ?thesis
    proof (cases "bt_get edges n")
      case (Some as)
      have "\<exists>edges'. cs_edges fetch rest edges = Some (Inr edges') \<and> edges_inv fetch S [] edges'"
        by (rule 1(1)) (use Cons Some 1(2) edges_inv_skip in auto)
      then show ?thesis using Cons Some by (simp add: cs_edges.simps[of fetch "n # rest"])
    next
      case None
      from n have "n \<in> known" using reachable_from_known[OF dag S(1)] by blast
      then obtain e where e: "fetch n = Some e" using auth_dagD[OF dag] by blast
      have "card (reachable_from fetch S - dom (bt_get (bt_insert n (auth_events e) edges)))
          < card (reachable_from fetch S - dom (bt_get edges))"
        using n None finite_reachable_from[OF dag S] by (intro psubset_card_mono) auto
      then have "\<exists>edges'. cs_edges fetch (rev (auth_events e) @ rest) (bt_insert n (auth_events e) edges)
          = Some (Inr edges') \<and> edges_inv fetch S [] edges'"
        by (intro 1(1)) (use Cons edges_inv_expand[of fetch S n rest edges e] 1(2) e in auto)
      then show ?thesis using Cons None e by (simp add: cs_edges.simps[of fetch "n # rest"])
    qed
  qed
qed

lemma edges_inv_final:
  assumes "edges_inv fetch S [] edges"
  shows "dom (bt_get edges) = reachable_from fetch S"
proof
  show "dom (bt_get edges) \<subseteq> reachable_from fetch S" using assms by (simp add: edges_inv_def)
  show "reachable_from fetch S \<subseteq> dom (bt_get edges)"
  proof (rule reachable_from_least)
    show "S \<subseteq> dom (bt_get edges)" using assms by (simp add: edges_inv_def)
    fix n a assume "n \<in> dom (bt_get edges)" and a: "(n, a) \<in> auth_edge fetch"
    then obtain as where "bt_get edges n = Some as" by blast
    with edges_invD[OF assms this] a show "a \<in> dom (bt_get edges)" by (auto simp: auth_edge_fetch)
  qed
qed

text \<open>The fixpoint: sound marks stay sound, and no step is left to fire at the end.\<close>

definition marks_sound :: "fetch \<Rightarrow> string set \<Rightarrow> (string, bool) btree_map \<Rightarrow> bool" where
  "marks_sound fetch S reaches \<longleftrightarrow> (\<forall>n. reaches_get reaches n \<longrightarrow> (\<exists>d \<in> S. (n, d) \<in> (auth_edge fetch)\<^sup>*))"

lemma reaches_step_keeps:
  assumes "marks_sound fetch S r" and "\<exists>e. fetch n = Some e \<and> as = auth_events e"
    and "reaches_step (n, as) (r, c) = (r', c')"
  shows "marks_sound fetch S r' \<and> dom (bt_get r') = dom (bt_get r) \<and> (\<forall>m. reaches_get r m \<longrightarrow> reaches_get r' m)"
proof (cases "bt_get r n = Some False \<and> list_ex (reaches_get r) as")
  case True
  then obtain a d where "(n, a) \<in> auth_edge fetch" "(a, d) \<in> (auth_edge fetch)\<^sup>*" "d \<in> S"
    using assms(1,2) by (auto simp: list_ex_iff marks_sound_def auth_edge_fetch)
  moreover from this have "(n, d) \<in> (auth_edge fetch)\<^sup>*" by (rule_tac converse_rtrancl_into_rtrancl)
  moreover have "r' = bt_insert n True r" using True assms(3) by (auto simp: reaches_step_def)
  ultimately show ?thesis using assms(1) True by (auto simp: marks_sound_def reaches_get_def)
next
  case False
  then show ?thesis using assms(1,3) by (auto simp: reaches_step_def)
qed

lemma reaches_pass_keeps:
  assumes "marks_sound fetch S r" and "\<forall>(n, as) \<in> set es. \<exists>e. fetch n = Some e \<and> as = auth_events e"
    and "fold reaches_step es (r, c) = (r', c')"
  shows "marks_sound fetch S r' \<and> dom (bt_get r') = dom (bt_get r) \<and> (\<forall>m. reaches_get r m \<longrightarrow> reaches_get r' m)"
  using assms
proof (induction es arbitrary: r c)
  case (Cons x es)
  obtain n as where x: "x = (n, as)" by fastforce
  obtain r1 c1 where s: "reaches_step x (r, c) = (r1, c1)" by fastforce
  have 1: "marks_sound fetch S r1 \<and> dom (bt_get r1) = dom (bt_get r) \<and> (\<forall>m. reaches_get r m \<longrightarrow> reaches_get r1 m)"
    using reaches_step_keeps[of fetch S r n as c r1 c1] Cons.prems s x by simp
  with Cons.IH[of r1 c1] Cons.prems s show ?case by auto
qed simp

lemma reaches_pass_fixed:
  assumes "fold reaches_step es (r, False) = (r', False)"
  shows "r' = r \<and> (\<forall>(n, as) \<in> set es. \<not> (bt_get r n = Some False \<and> list_ex (reaches_get r) as))"
  using assms
proof (induction es)
  case (Cons x es)
  have stay: "fold reaches_step es (r, True) = (r', c') \<Longrightarrow> c'" for es r r' c'
    by (induction es arbitrary: r) (auto simp: reaches_step_def split: if_splits)
  obtain n as where x: "x = (n, as)" by fastforce
  show ?case
  proof (cases "bt_get r n = Some False \<and> list_ex (reaches_get r) as")
    case True
    then show ?thesis using Cons.prems x stay by (auto simp: reaches_step_def)
  next
    case False
    then have "fold reaches_step es (r, False) = (r', False)" using Cons.prems x by (auto simp: reaches_step_def)
    with Cons.IH False x show ?thesis by auto
  qed
qed simp

lemma reaches_fix_spec:
  assumes "marks_sound fetch S r" and "\<forall>(n, as) \<in> set edges. \<exists>e. fetch n = Some e \<and> as = auth_events e"
  shows "let r' = reaches_fix edges r in marks_sound fetch S r' \<and> dom (bt_get r') = dom (bt_get r) \<and>
    (\<forall>m. reaches_get r m \<longrightarrow> reaches_get r' m) \<and>
    (\<forall>(n, as) \<in> set edges. \<not> (bt_get r' n = Some False \<and> list_ex (reaches_get r') as))"
  using assms
proof (induction edges r rule: reaches_fix.induct)
  case (1 edges r)
  obtain r1 c1 where p: "fold reaches_step edges (r, False) = (r1, c1)" by fastforce
  note keep = reaches_pass_keeps[OF "1.prems" p]
  show ?case
  proof (cases c1)
    case True
    then have "reaches_fix edges r = reaches_fix edges r1" by (simp add: reaches_fix.simps[of edges r] p)
    moreover have "let r' = reaches_fix edges r1 in marks_sound fetch S r' \<and> dom (bt_get r') = dom (bt_get r1) \<and>
        (\<forall>m. reaches_get r1 m \<longrightarrow> reaches_get r' m) \<and>
        (\<forall>(n, as) \<in> set edges. \<not> (bt_get r' n = Some False \<and> list_ex (reaches_get r') as))"
      using "1.IH"[of "(r1, c1)"] p True keep "1.prems"(2) by simp
    ultimately show ?thesis using keep by (simp add: Let_def)
  next
    case False
    then have "reaches_fix edges r = r" using reaches_pass_fixed[of edges r r1] p
      by (simp add: reaches_fix.simps[of edges r])
    then show ?thesis using reaches_pass_fixed[of edges r r1] p False "1.prems"(1) by (simp add: Let_def)
  qed
qed

lemma reaches_fix_exact:
  assumes inv: "edges_inv fetch (set S) [] edges"
  defines "r \<equiv> reaches_fix edges (map (\<lambda>(k, _). (k, k \<in> set S)) edges)"
  assumes n: "n \<in> reachable_from fetch (set S)"
  shows "reaches_get r n \<longleftrightarrow> (\<exists>d \<in> set S. (n, d) \<in> (auth_edge fetch)\<^sup>*)"
proof -
  let ?r0 = "map (\<lambda>(k, _). (k, k \<in> set S)) edges"
  have r0: "bt_get ?r0 k = map_option (\<lambda>_. k \<in> set S) (bt_get edges k)" for k
    by (induction edges) auto
  have "bt_wf edges" using inv by (simp add: edges_inv_def)
  then have ok: "\<forall>(n, as) \<in> set edges. \<exists>e. fetch n = Some e \<and> as = auth_events e"
    using edges_invD(1)[OF inv] by (auto simp: bt_get_mem)
  have "marks_sound fetch (set S) ?r0" by (auto simp: marks_sound_def reaches_get_def r0)
  note fx = reaches_fix_spec[OF this ok, folded r_def, unfolded Let_def]
  then have sound: "marks_sound fetch (set S) r" and dom: "dom (bt_get r) = dom (bt_get ?r0)"
    and grow: "\<And>m. reaches_get ?r0 m \<Longrightarrow> reaches_get r m"
    and fixed: "\<And>n as. (n, as) \<in> set edges \<Longrightarrow> bt_get r n = Some False \<Longrightarrow> \<not> list_ex (reaches_get r) as"
    by blast+
  have domE: "dom (bt_get ?r0) = reachable_from fetch (set S)"
    using edges_inv_final[OF inv] by (auto simp: r0 dom_def)
  have "reaches_get r n" if "(n, d) \<in> (auth_edge fetch)\<^sup>*" and "d \<in> set S" for d
    using that(1) n
  proof (induction rule: converse_rtrancl_induct)
    case base
    then have "reaches_get ?r0 d" using domE that(2) by (auto simp: reaches_get_def r0 dom_def)
    then show ?case by (rule grow)
  next
    case (step x y)
    have y: "reaches_get r y" using step reachable_from_step by blast
    from step(4) obtain as where as: "bt_get edges x = Some as" using edges_inv_final[OF inv] by blast
    then have "y \<in> set as" using step(1) edges_invD(1)[OF inv as] by (auto simp: auth_edge_fetch)
    with y have "list_ex (reaches_get r) as" by (auto simp: list_ex_iff)
    with fixed[of x as] as have "bt_get r x \<noteq> Some False"
      using \<open>bt_wf edges\<close> by (auto simp: bt_get_mem)
    moreover have "x \<in> dom (bt_get r)" using step(4) dom domE by simp
    ultimately show ?case by (auto simp: reaches_get_def)
  qed
  then show ?thesis using sound by (auto simp: marks_sound_def)
qed

lemma conflicted_subgraph_correct:
  assumes "auth_dag fetch known" and "set S \<subseteq> known"
  shows "\<exists>sub. conflicted_subgraph S fetch = Some (Inr sub) \<and> bs_wf sub \<and> set sub = between fetch (set S)"
proof -
  have "edges_inv fetch (set S) (rev S) []"
    by (auto simp: edges_inv_def reachable_from_def)
  then obtain edges where e: "cs_edges fetch (rev S) [] = Some (Inr edges)" "edges_inv fetch (set S) [] edges"
    using cs_edges_total[OF assms] by blast
  define r where "r = reaches_fix edges (map (\<lambda>(k, _). (k, k \<in> set S)) edges)"
  let ?sub = "map fst (filter (\<lambda>(eid, auth). eid \<in> set S \<or> list_ex (reaches_get r) auth) edges)"
  have wf: "bt_wf edges" using e(2) by (simp add: edges_inv_def)
  have mem: "n \<in> set ?sub \<longleftrightarrow> (\<exists>as. bt_get edges n = Some as \<and> (n \<in> set S \<or> list_ex (reaches_get r) as))" for n
    using wf by (force simp: bt_get_mem)
  have "n \<in> set ?sub \<longleftrightarrow> n \<in> between fetch (set S)" for n
  proof (cases "n \<in> reachable_from fetch (set S)")
    case False
    then show ?thesis using mem[of n] edges_inv_final[OF e(2)] by (auto simp: between_def)
  next
    case True
    then obtain as where as: "bt_get edges n = Some as" using edges_inv_final[OF e(2)] by blast
    have child: "a \<in> set as \<longleftrightarrow> (n, a) \<in> auth_edge fetch" for a
      using edges_invD(1)[OF e(2) as] by (auto simp: auth_edge_fetch)
    have "list_ex (reaches_get r) as \<longleftrightarrow> (\<exists>a d. (n, a) \<in> auth_edge fetch \<and> (a, d) \<in> (auth_edge fetch)\<^sup>* \<and> d \<in> set S)"
      using reaches_fix_exact[OF e(2), folded r_def] reachable_from_step[OF True] child
      by (auto simp: list_ex_iff)
    then show ?thesis using mem[of n] as True
      by (auto simp: between_def intro: converse_rtrancl_into_rtrancl elim: converse_rtranclE)
  qed
  moreover have "bs_wf ?sub" using wf by (induction edges) auto
  moreover have "conflicted_subgraph S fetch = Some (Inr ?sub)"
    by (simp add: conflicted_subgraph_def e(1) r_def Let_def)
  ultimately show ?thesis by blast
qed

text \<open>
  On an acyclic graph of fetchable events, \<open>conflicted_subgraph\<close> returns exactly the events
  that lie on an \<open>auth_events\<close> path between two conflicted events, endpoints included, as an
  ordered set: the two passes (edge collection, marking until nothing changes) are complete.
\<close>

theorem conflicted_subgraph_exact:
  assumes "auth_dag fetch known" and "set S \<subseteq> known"
  shows "\<exists>sub. conflicted_subgraph S fetch = Some (Inr sub) \<and> bs_wf sub \<and> set sub = between fetch (set S)"
  using assms by (rule conflicted_subgraph_correct)

end
