(* ===== verification/Power_Order.thy ===== *)
theory Power_Order
  imports Auth_Chain
begin

text \<open>
  The reverse topological power ordering of \<open>state_res.rs\<close>: Kahn's algorithm over the auth
  ancestors, picking the least sort key among the events that are ready. The result is
  characterised completely by \<open>power_ordered\<close>.
\<close>

section \<open>The specification\<close>

text \<open>
  A list is power ordered when it enumerates the set once, every event comes after its ancestors,
  and each event has the least key among the events whose ancestors were all placed before it.
\<close>

definition power_ordered ::
  "(string \<Rightarrow> string set) \<Rightarrow> (string \<Rightarrow> 'k::linorder) \<Rightarrow> string set \<Rightarrow> string list \<Rightarrow> bool" where
  "power_ordered anc key evs out \<longleftrightarrow> distinct out \<and> set out = evs \<and>
     (\<forall>xs e ys. out = xs @ e # ys \<longrightarrow> anc e \<inter> evs \<subseteq> set xs \<and>
        (\<forall>e' \<in> set ys. anc e' \<inter> evs \<subseteq> set xs \<longrightarrow> key e < key e'))"

text \<open>The specification has at most one solution.\<close>

lemma power_ordered_tail:
  assumes "distinct (pre @ x # xs)" "distinct (pre @ y # ys)" and "set (pre @ x # xs) = set (pre @ y # ys)"
    and "\<And>e'. e' \<in> set xs \<Longrightarrow> anc e' \<inter> evs \<subseteq> set pre \<Longrightarrow> key x < key e'"
    and "\<And>e'. e' \<in> set ys \<Longrightarrow> anc e' \<inter> evs \<subseteq> set pre \<Longrightarrow> key y < (key e' :: 'k::linorder)"
    and "anc x \<inter> evs \<subseteq> set pre" "anc y \<inter> evs \<subseteq> set pre"
  shows "x = y"
proof (rule ccontr)
  assume "x \<noteq> y"
  then have "y \<in> set xs" "x \<in> set ys" using assms(1-3) by auto
  with assms(4)[of y] assms(5)[of x] assms(6,7) show False by (meson less_asym)
qed

lemma power_ordered_unique:
  assumes "power_ordered anc key evs xs" and "power_ordered anc key evs ys"
  shows "xs = ys"
proof -
  have "zs = ws" if "xs = pre @ zs" "ys = pre @ ws" for pre zs ws
    using that
  proof (induction zs arbitrary: pre ws)
    case Nil
    have "set ys = set xs" "distinct ys" using assms by (auto simp: power_ordered_def)
    with Nil show ?case by (cases ws) auto
  next
    case (Cons z zs)
    have eq: "set ys = set xs" "distinct ys" "distinct xs" using assms by (auto simp: power_ordered_def)
    show ?case
    proof (cases ws)
      case Nil
      with Cons.prems eq show ?thesis by auto
    next
      case (Cons w ws')
      have "anc z \<inter> evs \<subseteq> set pre \<and> (\<forall>e' \<in> set zs. anc e' \<inter> evs \<subseteq> set pre \<longrightarrow> key z < key e')"
        using assms(1) Cons.prems(1) unfolding power_ordered_def by blast
      moreover have "anc w \<inter> evs \<subseteq> set pre \<and> (\<forall>e' \<in> set ws'. anc e' \<inter> evs \<subseteq> set pre \<longrightarrow> key w < key e')"
        using assms(2) Cons.prems(2) Cons unfolding power_ordered_def by blast
      ultimately have "z = w"
        using power_ordered_tail[of pre z zs w ws' anc evs key] eq Cons.prems Cons by auto
      then show ?thesis using Cons.IH[of "pre @ [z]" ws'] Cons.prems Cons by simp
    qed
  qed
  then show ?thesis by (metis append_Nil)
qed

section \<open>Kahn's algorithm\<close>

lemma release_dependents_spec:
  assumes "distinct ds" and "\<forall>d \<in> set ds. bt_get pending d \<noteq> None \<and> bt_get keys d \<noteq> None" and "bs_wf ready"
  shows "\<exists>pending' ready'. release_dependents keys eid ds pending ready = Some (pending', ready') \<and> bs_wf ready' \<and>
    (\<forall>e. bt_get pending' e = (if e \<in> set ds then map_option (filter (\<lambda>x. x \<noteq> eid)) (bt_get pending e) else bt_get pending e)) \<and>
    set ready' = set ready \<union> {(the (bt_get keys d), d) |d. d \<in> set ds \<and> filter (\<lambda>x. x \<noteq> eid) (the (bt_get pending d)) = []}"
  using assms
proof (induction ds arbitrary: pending ready)
  case Nil
  then show ?case by simp
next
  case (Cons d ds)
  then obtain deps k where d: "bt_get pending d = Some deps" "bt_get keys d = Some k" by auto
  let ?deps = "filter (\<lambda>x. x \<noteq> eid) deps"
  let ?pending = "bt_insert d ?deps pending"
  let ?ready = "if ?deps = [] then bs_insert (k, d) ready else ready"
  have "\<exists>pending' ready'. release_dependents keys eid ds ?pending ?ready = Some (pending', ready') \<and> bs_wf ready' \<and>
    (\<forall>e. bt_get pending' e = (if e \<in> set ds then map_option (filter (\<lambda>x. x \<noteq> eid)) (bt_get ?pending e) else bt_get ?pending e)) \<and>
    set ready' = set ?ready \<union> {(the (bt_get keys d), d) |d. d \<in> set ds \<and> filter (\<lambda>x. x \<noteq> eid) (the (bt_get ?pending d)) = []}"
    using Cons.prems by (intro Cons.IH) auto
  then obtain pending' ready' where r: "release_dependents keys eid ds ?pending ?ready = Some (pending', ready')"
    "bs_wf ready'"
    "\<forall>e. bt_get pending' e = (if e \<in> set ds then map_option (filter (\<lambda>x. x \<noteq> eid)) (bt_get ?pending e) else bt_get ?pending e)"
    "set ready' = set ?ready \<union> {(the (bt_get keys d), d) |d. d \<in> set ds \<and> filter (\<lambda>x. x \<noteq> eid) (the (bt_get ?pending d)) = []}"
    by blast
  have "release_dependents keys eid (d # ds) pending ready = Some (pending', ready')"
    using r(1) d by (simp add: Let_def split: if_splits)
  moreover have "bt_get pending' e = (if e \<in> set (d # ds) then map_option (filter (\<lambda>x. x \<noteq> eid)) (bt_get pending e) else bt_get pending e)" for e
    using r(3)[rule_format, of e] Cons.prems(1) d by auto
  moreover have "set ready' = set ready \<union> {(the (bt_get keys d'), d') |d'. d' \<in> set (d # ds) \<and> filter (\<lambda>x. x \<noteq> eid) (the (bt_get pending d')) = []}"
  proof -
    have ne: "d' \<in> set ds \<Longrightarrow> bt_get ?pending d' = bt_get pending d'" for d' using Cons.prems(1) by auto
    have "{(the (bt_get keys d'), d') |d'. d' \<in> set ds \<and> filter (\<lambda>x. x \<noteq> eid) (the (bt_get ?pending d')) = []}
        = {(the (bt_get keys d'), d') |d'. d' \<in> set ds \<and> filter (\<lambda>x. x \<noteq> eid) (the (bt_get pending d')) = []}"
      by (metis (mono_tags, lifting) ne)
    then show ?thesis unfolding r(4) using d by auto
  qed
  ultimately show ?case using r(2) by blast
qed

text \<open>The state of the loop after the events \<open>out\<close> have been placed.\<close>

definition placed :: "(string \<Rightarrow> string set) \<Rightarrow> (string \<Rightarrow> 'k::linorder) \<Rightarrow> string set \<Rightarrow> string list \<Rightarrow> bool" where
  "placed anc key evs out \<longleftrightarrow> (\<forall>xs e ys. out = xs @ e # ys \<longrightarrow> anc e \<inter> evs \<subseteq> set xs \<and>
     (\<forall>e' \<in> evs - set (xs @ [e]). anc e' \<inter> evs \<subseteq> set xs \<longrightarrow> key e < key e'))"

lemma placed_snoc:
  assumes "placed anc key evs out" and "anc n \<inter> evs \<subseteq> set out"
    and "\<And>e'. e' \<in> evs - set (out @ [n]) \<Longrightarrow> anc e' \<inter> evs \<subseteq> set out \<Longrightarrow> key n < key e'"
  shows "placed anc key evs (out @ [n])"
  unfolding placed_def
proof (intro allI impI)
  fix xs e ys
  assume "out @ [n] = xs @ e # ys"
  then consider "ys = []" "out = xs" "n = e" | zs where "out = xs @ e # zs"
    by (cases ys rule: rev_cases) auto
  then show "anc e \<inter> evs \<subseteq> set xs \<and> (\<forall>e' \<in> evs - set (xs @ [e]). anc e' \<inter> evs \<subseteq> set xs \<longrightarrow> key e < key e')"
  proof cases
    case 1
    then show ?thesis using assms(2,3) by blast
  next
    case 2
    then show ?thesis using assms(1) unfolding placed_def by blast
  qed
qed

definition kahn_inv ::
  "(string \<Rightarrow> string set) \<Rightarrow> (string \<Rightarrow> sort_key) \<Rightarrow> string set \<Rightarrow> ready_set \<Rightarrow> (string, string btree_set) btree_map
     \<Rightarrow> (string, string list) btree_map \<Rightarrow> string list \<Rightarrow> bool" where
  "kahn_inv anc key evs ready pending dependents out \<longleftrightarrow>
     distinct out \<and> set out \<subseteq> evs \<and> bs_wf ready \<and>
     set ready = {(key e, e) |e. e \<in> evs - set out \<and> anc e \<inter> evs \<subseteq> set out} \<and>
     (\<forall>e \<in> evs. \<exists>deps. bt_get pending e = Some deps \<and> set deps = anc e \<inter> evs - set out) \<and>
     (\<forall>d \<in> evs - set out. let ds = (case bt_get dependents d of Some ds \<Rightarrow> ds | None \<Rightarrow> []) in
        distinct ds \<and> set ds = {e \<in> evs. d \<in> anc e}) \<and>
     placed anc key evs out"

lemma kahn_step:
  assumes inv: "kahn_inv anc key evs ((k, n) # ready) pending dependents out"
    and keys: "\<forall>e \<in> evs. bt_get keys e = Some (key e)" and inj: "inj_on key evs" and irr: "\<forall>e. e \<notin> anc e"
  shows "\<exists>pending' ready'. release_dependents keys n (case bt_get dependents n of Some ds \<Rightarrow> ds | None \<Rightarrow> []) pending ready
      = Some (pending', ready') \<and>
    kahn_inv anc key evs ready' pending' (bt_remove n dependents) (out @ [n])"
proof -
  let ?ds = "case bt_get dependents n of Some ds \<Rightarrow> ds | None \<Rightarrow> []"
  have rdy: "insert (k, n) (set ready) = {(key e, e) |e. e \<in> evs - set out \<and> anc e \<inter> evs \<subseteq> set out}"
    and wf: "bs_wf ((k, n) # ready)" using inv by (auto simp: kahn_inv_def)
  then have n: "k = key n" "n \<in> evs" "n \<notin> set out" "anc n \<inter> evs \<subseteq> set out" by auto
  have ds: "distinct ?ds" "set ?ds = {e \<in> evs. n \<in> anc e}" using inv n by (auto simp: kahn_inv_def Let_def)
  have pend: "\<And>e. e \<in> evs \<Longrightarrow> \<exists>deps. bt_get pending e = Some deps \<and> set deps = anc e \<inter> evs - set out"
    using inv by (simp add: kahn_inv_def)
  have pre: "\<forall>d \<in> set ?ds. bt_get pending d \<noteq> None \<and> bt_get keys d \<noteq> None"
  proof
    fix d assume "d \<in> set ?ds"
    then have "d \<in> evs" unfolding ds(2) by simp
    with pend[of d] keys show "bt_get pending d \<noteq> None \<and> bt_get keys d \<noteq> None" by auto
  qed
  have wfr: "bs_wf ready" using wf by simp
  from release_dependents_spec[OF ds(1) pre wfr, of n]
  obtain pending' ready' where r: "release_dependents keys n ?ds pending ready = Some (pending', ready')" "bs_wf ready'"
    "\<forall>e. bt_get pending' e = (if e \<in> set ?ds then map_option (filter (\<lambda>x. x \<noteq> n)) (bt_get pending e) else bt_get pending e)"
    "set ready' = set ready \<union> {(the (bt_get keys d), d) |d. d \<in> set ?ds \<and> filter (\<lambda>x. x \<noteq> n) (the (bt_get pending d)) = []}"
    by blast
  have pend': "\<exists>deps. bt_get pending' e = Some deps \<and> set deps = anc e \<inter> evs - set (out @ [n])" if "e \<in> evs" for e
    using pend[OF that] r(3) ds(2) that n by auto
  have old: "set ready = {(key e, e) |e. e \<in> evs - set out \<and> anc e \<inter> evs \<subseteq> set out} - {(k, n)}"
    using rdy wf by auto
  have rel: "filter (\<lambda>x. x \<noteq> n) (the (bt_get pending d)) = [] \<longleftrightarrow> anc d \<inter> evs \<subseteq> set (out @ [n])" if "d \<in> evs" for d
    using pend[OF that] by (auto simp: filter_empty_conv)
  have new: "{(the (bt_get keys d), d) |d. d \<in> set ?ds \<and> filter (\<lambda>x. x \<noteq> n) (the (bt_get pending d)) = []}
      = {(key d, d) |d. d \<in> evs \<and> n \<in> anc d \<and> anc d \<inter> evs \<subseteq> set (out @ [n])}"
    using ds(2) keys rel by force
  have notout: "d \<notin> set out" if "n \<in> anc d" "d \<in> evs" for d
  proof
    assume "d \<in> set out"
    then obtain xs ys where "out = xs @ d # ys" by (meson split_list)
    then have "anc d \<inter> evs \<subseteq> set xs" "set xs \<subseteq> set out"
      using inv unfolding kahn_inv_def placed_def by auto
    with that n show False by blast
  qed
  have "set ready' = {(key e, e) |e. e \<in> evs - set (out @ [n]) \<and> anc e \<inter> evs \<subseteq> set (out @ [n])}"
    unfolding r(4) new old using n(1) notout irr by auto
  moreover have "key n < key e'" if "e' \<in> evs - set (out @ [n])" "anc e' \<inter> evs \<subseteq> set out" for e'
  proof -
    have "(key e', e') \<in> set ready" using that old n by auto
    then have "(k, n) < (key e', e')" using wf by auto
    moreover have "key e' \<noteq> key n" using inj that n by (auto dest: inj_onD)
    ultimately show ?thesis using n(1) by auto
  qed
  ultimately have "kahn_inv anc key evs ready' pending' (bt_remove n dependents) (out @ [n])"
    using inv n r(2) pend' placed_snoc[of anc key evs out n] unfolding kahn_inv_def by simp
  with r(1) show ?thesis by blast
qed

lemma kahn_correct:
  assumes "kahn_inv anc key evs ready pending dependents out"
    and "\<forall>e \<in> evs. bt_get keys e = Some (key e)" and "inj_on key evs" and "\<forall>e. e \<notin> anc e"
    and wf: "wf {(a, e). a \<in> anc e}"
  shows "\<exists>out'. kahn keys ready pending dependents out = Some out' \<and> power_ordered anc key evs out'"
  using assms(1-4)
proof (induction keys ready pending dependents out rule: kahn.induct)
  case (1 keys pending dependents out)
  have "evs \<subseteq> set out"
  proof (rule ccontr)
    assume "\<not> evs \<subseteq> set out"
    then obtain e where e: "e \<in> evs - set out" "\<forall>a. a \<in> anc e \<longrightarrow> a \<notin> evs - set out"
      using wf[unfolded wf_eq_minimal, rule_format, of _ "evs - set out"] by fastforce
    then have "(key e, e) \<in> set []" using "1.prems"(1) unfolding kahn_inv_def by blast
    then show False by simp
  qed
  moreover have "anc e \<inter> evs \<subseteq> set xs \<and> (\<forall>e' \<in> set ys. anc e' \<inter> evs \<subseteq> set xs \<longrightarrow> key e < key e')"
    if o: "out = xs @ e # ys" for xs e ys
  proof -
    have "set ys \<subseteq> evs - set (xs @ [e])" using "1.prems"(1) o unfolding kahn_inv_def by auto
    moreover have "anc e \<inter> evs \<subseteq> set xs \<and>
        (\<forall>e' \<in> evs - set (xs @ [e]). anc e' \<inter> evs \<subseteq> set xs \<longrightarrow> key e < key e')"
      using "1.prems"(1) o unfolding kahn_inv_def placed_def by blast
    ultimately show ?thesis by blast
  qed
  moreover have "distinct out" "set out \<subseteq> evs" using "1.prems"(1) by (simp_all add: kahn_inv_def)
  ultimately show ?case unfolding power_ordered_def by auto
next
  case (2 keys k n ready pending dependents out)
  from kahn_step[OF "2.prems"] obtain pending' ready' where
    r: "release_dependents keys n (case bt_get dependents n of Some ds \<Rightarrow> ds | None \<Rightarrow> []) pending ready = Some (pending', ready')"
       "kahn_inv anc key evs ready' pending' (bt_remove n dependents) (out @ [n])" by blast
  from "2.IH"[OF r(1) refl r(2) "2.prems"(2-4)] show ?case using r(1) by simp
qed

section \<open>Collecting keys and dependencies\<close>

definition sort_key_of :: "room_version \<Rightarrow> fetch \<Rightarrow> string btree_set \<Rightarrow> string \<Rightarrow> sort_key" where
  "sort_key_of v fetch crs eid =
     (case fetch eid of
        Some e \<Rightarrow> (Reverse (case sender_power_at v e crs fetch of Inr l \<Rightarrow> l | Inl _ \<Rightarrow> PLInt 0), origin_server_ts e, eid)
      | None \<Rightarrow> (Reverse (PLInt 0), 0, eid))"

lemma sort_key_of_inj: "inj_on (sort_key_of v fetch crs) S"
proof (rule inj_onI)
  fix x y
  assume "sort_key_of v fetch crs x = sort_key_of v fetch crs y"
  then have "snd (snd (sort_key_of v fetch crs x)) = snd (snd (sort_key_of v fetch crs y))" by simp
  then show "x = y" by (simp add: sort_key_of_def split: option.splits)
qed

lemma find_auth_level_total:
  assumes "\<forall>a \<in> set as. fetch a \<noteq> None"
  shows "\<exists>r. find_auth_level fetch user as = Inr r"
  using assms
proof (induction as)
  case (Cons a as)
  then obtain e r where "fetch a = Some e" "find_auth_level fetch user as = Inr r" by auto
  then show ?case by (cases "is_pl_event e") (simp_all add: fetch_r_def)
qed simp

lemma sender_power_total:
  assumes "auth_dag fetch known" and "n \<in> known" and "fetch n = Some e"
  shows "\<exists>l. sender_power_at v e crs fetch = Inr l"
proof -
  have "\<forall>a \<in> set (auth_events e). fetch a \<noteq> None"
    using auth_events_known(2)[OF assms] by auto
  from find_auth_level_total[OF this, of "sender e"] obtain r where
    "find_auth_level fetch (sender e) (auth_events e) = Inr r" by blast
  then show ?thesis by (auto simp: sender_power_at_def split: option.split)
qed

lemma add_dependents_get:
  assumes "distinct deps"
  shows "bt_get (fold (add_dependent eid) deps m) d =
    (if d \<in> set deps then Some ((case bt_get m d of Some ids \<Rightarrow> ids | None \<Rightarrow> []) @ [eid]) else bt_get m d)"
  using assms by (induction deps arbitrary: m) (auto simp: add_dependent_def)

definition waiting_on :: "(string, string list) btree_map \<Rightarrow> string \<Rightarrow> string list" where
  "waiting_on dependents d = (case bt_get dependents d of Some ds \<Rightarrow> ds | None \<Rightarrow> [])"

definition collected :: "room_version \<Rightarrow> string btree_set \<Rightarrow> fetch \<Rightarrow> string btree_set \<Rightarrow> string list \<Rightarrow> power_order \<Rightarrow> bool" where
  "collected v evs fetch crs dn po \<longleftrightarrow>
     chains_sound fetch (po_cache po) \<and> bt_wf (po_pending po) \<and> dom (bt_get (po_pending po)) = set dn \<and>
     (\<forall>e \<in> set dn. bt_get (po_keys po) e = Some (sort_key_of v fetch crs e)) \<and>
     (\<forall>e deps. bt_get (po_pending po) e = Some deps \<longrightarrow> set deps = ancestors fetch e \<inter> set evs) \<and>
     (\<forall>d \<in> set evs. distinct (waiting_on (po_dependents po) d) \<and>
        set (waiting_on (po_dependents po) d) = {e \<in> set dn. d \<in> ancestors fetch e})"

lemma po_collect_step:
  assumes dag: "auth_dag fetch known" and n: "n \<in> known" "n \<notin> set dn"
    and inv: "collected v evs fetch crs dn po"
  shows "\<exists>po'. po_collect v evs fetch crs n po = Some (Inr po') \<and> collected v evs fetch crs (dn @ [n]) po'"
proof -
  obtain e where e: "fetch n = Some e" using auth_dagD[OF dag n(1)] by blast
  obtain l where l: "sender_power_at v e crs fetch = Inr l" using sender_power_total[OF dag n(1) e] by blast
  have "chains_sound fetch (po_cache po)" using inv by (simp add: collected_def)
  then obtain chain cache where ch: "auth_chain fetch n (po_cache po) = Some (Inr (chain, cache))"
    "bs_wf chain" "set chain = ancestors fetch n" "chains_sound fetch cache"
    using auth_chain_correct[OF dag n(1)] by blast
  define deps where "deps = filter (\<lambda>a. a \<in> set evs) chain"
  have deps: "distinct deps" "set deps = ancestors fetch n \<inter> set evs"
    using ch(2,3) bs_wf_distinct[of chain] by (auto simp: deps_def)
  define po' where "po' = po\<lparr>
     po_keys := bt_insert n (Reverse l, origin_server_ts e, n) (po_keys po),
     po_dependents := fold (add_dependent n) deps (po_dependents po),
     po_pending := bt_insert n deps (po_pending po), po_cache := cache\<rparr>"
  have run: "po_collect v evs fetch crs n po = Some (Inr po')"
    by (simp add: po_collect_def fetch_r_def e l ch(1) Let_def po'_def deps_def)
  have key: "sort_key_of v fetch crs n = (Reverse l, origin_server_ts e, n)"
    by (simp add: sort_key_of_def e l)
  have wait: "waiting_on (po_dependents po') d
      = (if d \<in> set deps then waiting_on (po_dependents po) d @ [n] else waiting_on (po_dependents po) d)" for d
    using add_dependents_get[OF deps(1), of n "po_dependents po" d] by (simp add: waiting_on_def po'_def)
  have "distinct (waiting_on (po_dependents po') d) \<and>
      set (waiting_on (po_dependents po') d) = {e \<in> set (dn @ [n]). d \<in> ancestors fetch e}" if "d \<in> set evs" for d
    using inv that n(2) unfolding wait collected_def deps(2) by auto
  then have "collected v evs fetch crs (dn @ [n]) po'"
    using inv key ch(4) deps(2) unfolding collected_def by (auto simp: po'_def)
  with run show ?thesis by blast
qed

lemma po_collect_all:
  assumes dag: "auth_dag fetch known" and evs: "set evs \<subseteq> known" "distinct evs" and sound: "chains_sound fetch cache"
  shows "\<exists>po. fold_d (po_collect v evs fetch crs) evs \<lparr>po_keys = [], po_pending = [], po_dependents = [], po_cache = cache\<rparr>
      = Some (Inr po) \<and> collected v evs fetch crs evs po"
proof (rule fold_d_total[where P = "collected v evs fetch crs"])
  show "collected v evs fetch crs [] \<lparr>po_keys = [], po_pending = [], po_dependents = [], po_cache = cache\<rparr>"
    using sound by (simp add: collected_def waiting_on_def)
next
  fix dn x todo po
  assume "evs = dn @ x # todo" and "collected v evs fetch crs dn po"
  then show "\<exists>po'. po_collect v evs fetch crs x po = Some (Inr po') \<and> collected v evs fetch crs (dn @ [x]) po'"
    using po_collect_step[OF dag, of x dn] evs by auto
qed

lemma ready_of_set:
  assumes "collected v evs fetch crs evs po"
  shows "set (ready_of (po_keys po) (po_pending po))
    = {(sort_key_of v fetch crs e, e) |e. e \<in> set evs \<and> ancestors fetch e \<inter> set evs = {}}"
proof -
  have wf: "bt_wf (po_pending po)" and dom: "dom (bt_get (po_pending po)) = set evs"
    and key: "\<And>e. e \<in> set evs \<Longrightarrow> bt_get (po_keys po) e = Some (sort_key_of v fetch crs e)"
    and deps: "\<And>e ds. bt_get (po_pending po) e = Some ds \<Longrightarrow> set ds = ancestors fetch e \<inter> set evs"
    using assms by (auto simp: collected_def)
  have mem: "x \<in> set (ready_of (po_keys po) (po_pending po)) \<longleftrightarrow>
      (\<exists>e. bt_get (po_pending po) e = Some [] \<and> map_option (\<lambda>k. (k, e)) (bt_get (po_keys po) e) = Some x)" for x
    unfolding ready_of_def set_bs_of mem_map_filter using bt_get_mem[OF wf]
    by (auto split: if_splits intro!: bexI[of _ "(_, [])"])
  have none: "bt_get (po_pending po) e = Some [] \<longleftrightarrow> e \<in> set evs \<and> ancestors fetch e \<inter> set evs = {}" for e
    using dom deps[of e] by (metis domD domI set_empty)
  have "x \<in> set (ready_of (po_keys po) (po_pending po)) \<longleftrightarrow>
      (\<exists>e. e \<in> set evs \<and> ancestors fetch e \<inter> set evs = {} \<and> x = (sort_key_of v fetch crs e, e))" for x
    unfolding mem none by (rule ex_cong1) (use key in \<open>auto simp del: split_paired_Ex\<close>)
  then show ?thesis by blast
qed

lemma power_order_correct:
  assumes dag: "auth_dag fetch known" and evs: "set evs \<subseteq> known" "bs_wf evs" and sound: "chains_sound fetch cache"
  shows "\<exists>out cache'. reverse_topological_power_order v evs fetch crs cache = Some (Inr (out, cache')) \<and>
    power_ordered (ancestors fetch) (sort_key_of v fetch crs) (set evs) out \<and> chains_sound fetch cache'"
proof -
  obtain po where po: "fold_d (po_collect v evs fetch crs) evs
      \<lparr>po_keys = [], po_pending = [], po_dependents = [], po_cache = cache\<rparr> = Some (Inr po)"
      "collected v evs fetch crs evs po"
    using po_collect_all[OF dag evs(1) bs_wf_distinct[OF evs(2)] sound] by blast
  have wf: "wf {(a, e). a \<in> ancestors fetch e}"
  proof -
    have "{(a, e). a \<in> ancestors fetch e} = ((auth_edge fetch)\<inverse>)\<^sup>+"
      by (auto simp: ancestors_def trancl_converse)
    then show ?thesis using wf_trancl[OF auth_dag_wf[OF dag]] by simp
  qed
  have "\<exists>deps. bt_get (po_pending po) e = Some deps \<and> set deps = ancestors fetch e \<inter> set evs" if "e \<in> set evs" for e
    using po(2) that unfolding collected_def by blast
  then have "kahn_inv (ancestors fetch) (sort_key_of v fetch crs) (set evs)
      (ready_of (po_keys po) (po_pending po)) (po_pending po) (po_dependents po) []"
    unfolding kahn_inv_def ready_of_set[OF po(2)] using po(2)
    by (auto simp: collected_def placed_def waiting_on_def ready_of_def)
  from kahn_correct[OF this, of "po_keys po"] obtain out where
    "kahn (po_keys po) (ready_of (po_keys po) (po_pending po)) (po_pending po) (po_dependents po) [] = Some out"
    "power_ordered (ancestors fetch) (sort_key_of v fetch crs) (set evs) out"
    using po(2) sort_key_of_inj ancestors_irrefl[OF dag] wf by (auto simp: collected_def)
  then show ?thesis using po by (auto simp: reverse_topological_power_order_def collected_def)
qed

text \<open>
  C29: On an acyclic graph of fetchable events the power ordering returns, and its result is the
  unique list that enumerates the given events once, with every event after all of its auth
  ancestors in the set, and with the least key (greater sender power first, then the smaller
  timestamp, then the smaller event id) among the events available at each point. In particular
  nothing is lost to a cycle and the panics of the source are not reached.
\<close>

theorem power_order_exact:
  assumes "auth_dag fetch known" and "set evs \<subseteq> known" and "bs_wf evs" and "chains_sound fetch cache"
  shows "\<exists>out cache'. reverse_topological_power_order v evs fetch crs cache = Some (Inr (out, cache')) \<and>
    power_ordered (ancestors fetch) (sort_key_of v fetch crs) (set evs) out \<and>
    (\<forall>other. power_ordered (ancestors fetch) (sort_key_of v fetch crs) (set evs) other \<longrightarrow> other = out)"
  using power_order_correct[OF assms] power_ordered_unique by blast

end
