(* ===== verification/Resolution.thy ===== *)
theory Resolution
  imports Power_Order
begin

text \<open>
  State resolution as a whole: what \<open>partition\<close>, the iterative auth checks, the mainline and
  \<open>resolve\<close> of \<open>state_res.rs\<close> compute, stated over the sets the resolution algorithm is
  specified with.
\<close>

section \<open>Conflicted and unconflicted state\<close>

definition agreed :: "state_ids set \<Rightarrow> string \<times> string \<Rightarrow> string \<Rightarrow> bool" where
  "agreed sets k w \<longleftrightarrow> sets \<noteq> {} \<and> (\<forall>s \<in> sets. bt_get s k = Some w)"

definition conflicted_ids :: "state_ids set \<Rightarrow> string set" where
  "conflicted_ids sets = {i. \<exists>k. \<exists>s \<in> sets. bt_get s k = Some i \<and> (\<nexists>w. agreed sets k w)}"

lemma partition_step_spec:
  assumes "sets \<noteq> []"
  shows "partition_step sets k (u, c) =
    (if \<exists>w. agreed (set sets) k w then (bt_insert k (the (bt_get (hd sets) k)) u, c)
     else (u, bs_extend (List.map_filter (\<lambda>s. bt_get s k) sets) c))"
proof -
  have "hd sets \<in> set sets" using assms by simp
  then have "(\<exists>w. agreed (set sets) k w) \<longleftrightarrow>
      bt_get (hd sets) k \<noteq> None \<and> list_all (\<lambda>s. bt_get s k = bt_get (hd sets) k) sets"
    using assms unfolding agreed_def list_all_iff by fastforce
  then show ?thesis by (auto simp: partition_step_def Let_def split: option.split)
qed

lemma partition_fold:
  assumes "sets \<noteq> []" and "bt_wf u" and "bs_wf c"
  shows "case fold (partition_step sets) ks (u, c) of (u', c') \<Rightarrow> bt_wf u' \<and> bs_wf c' \<and>
    (\<forall>k. bt_get u' k = (if k \<in> set ks \<and> (\<exists>w. agreed (set sets) k w) then bt_get (hd sets) k else bt_get u k)) \<and>
    set c' = set c \<union> {i. \<exists>k \<in> set ks. (\<exists>s \<in> set sets. bt_get s k = Some i) \<and> (\<nexists>w. agreed (set sets) k w)}"
  using assms(2,3)
proof (induction ks arbitrary: u c)
  case (Cons k ks)
  have hd: "hd sets \<in> set sets" using assms(1) by simp
  show ?case
  proof (cases "\<exists>w. agreed (set sets) k w")
    case True
    then obtain w where w: "bt_get (hd sets) k = Some w" using hd by (auto simp: agreed_def)
    let ?u = "bt_insert k (the (bt_get (hd sets) k)) u"
    have step: "partition_step sets k (u, c) = (?u, c)" using partition_step_spec[OF assms(1)] True by simp
    have "bt_wf ?u" using Cons.prems by simp
    from Cons.IH[OF this Cons.prems(2)] show ?thesis using True w by (auto simp: step split: prod.splits)
  next
    case False
    let ?c = "bs_extend (List.map_filter (\<lambda>s. bt_get s k) sets) c"
    have step: "partition_step sets k (u, c) = (u, ?c)" using partition_step_spec[OF assms(1)] False by simp
    have "bs_wf ?c" using Cons.prems by simp
    from Cons.IH[OF Cons.prems(1) this] show ?thesis using False
      by (auto simp: step mem_map_filter split: prod.splits)
  qed
qed simp

lemma set_fold_extend: "set (fold (\<lambda>s. bs_extend (f s)) xs acc) = set acc \<union> (\<Union>s \<in> set xs. set (f s))"
  by (induction xs arbitrary: acc) auto

lemma partition_sets_spec:
  assumes ne: "sets \<noteq> []" and p: "partition_sets sets = (u, c)"
  shows "bt_wf u" "bs_wf c" "bt_get u k = Some w \<longleftrightarrow> agreed (set sets) k w" "set c = conflicted_ids (set sets)"
proof -
  let ?ks = "fold (\<lambda>s. bs_extend (map fst s)) sets []"
  have ks: "k \<in> set ?ks \<longleftrightarrow> (\<exists>s \<in> set sets. bt_get s k \<noteq> None)" for k
    unfolding set_fold_extend by (auto simp: map_of_eq_None_iff)
  note fold = partition_fold[OF ne, of "[]" "[]" ?ks] p[unfolded partition_sets_def Let_def]
  show "bt_wf u" "bs_wf c" using fold by auto
  have get: "bt_get u k = (if k \<in> set ?ks \<and> (\<exists>w. agreed (set sets) k w) then bt_get (hd sets) k else None)"
    using fold by (auto simp del: split_paired_All)
  have hd: "hd sets \<in> set sets" using ne by simp
  then show "bt_get u k = Some w \<longleftrightarrow> agreed (set sets) k w" unfolding get ks by (auto simp: agreed_def)
  have "set c = {i. \<exists>k \<in> set ?ks. (\<exists>s \<in> set sets. bt_get s k = Some i) \<and> (\<nexists>w. agreed (set sets) k w)}"
    using fold by (simp del: split_paired_All)
  then show "set c = conflicted_ids (set sets)" unfolding ks conflicted_ids_def Bex_def
    by (auto simp: ks)
qed

lemma partition_sets_cong:
  assumes "sets \<noteq> []" and "set sets = set sets'"
  shows "partition_sets sets = partition_sets sets'"
proof -
  obtain u c u' c' where p: "partition_sets sets = (u, c)" "partition_sets sets' = (u', c')" by fastforce
  have ne': "sets' \<noteq> []" using assms by auto
  note s = partition_sets_spec[OF assms(1) p(1)] and s' = partition_sets_spec[OF ne' p(2)]
  have "bt_get u = bt_get u'" using s(3) s'(3) assms(2) by (metis not_None_eq ext)
  then show ?thesis using p bt_wf_eqI[OF s(1) s'(1)] bs_wf_eq[OF s(2) s'(2)] s(4) s'(4) assms(2) by simp
qed

text \<open>
  State sets that all agree are resolved to that state without fetching a single event, and
  the empty family of sets resolves to the empty state.
\<close>

theorem resolve_agreement:
  assumes "bt_wf s" and "set sets \<subseteq> {s}"
  shows "resolve R v sets fetch = Some (Inr (if sets = [] then [] else s))"
proof (cases "sets = []")
  case False
  obtain u c where p: "partition_sets sets = (u, c)" by fastforce
  have sets: "set sets = {s}" using assms(2) False by (cases sets) auto
  note spec = partition_sets_spec[OF False p]
  have "bt_get u k = Some w \<longleftrightarrow> bt_get s k = Some w" for k w using spec(3) sets by (simp add: agreed_def)
  then have "u = s" using bt_wf_eqI[OF spec(1) assms(1)] by (metis not_None_eq ext)
  moreover have "set c = {}" using spec(4) sets by (auto simp: conflicted_ids_def agreed_def)
  ultimately show ?thesis using False p by (simp add: resolve_def)
qed (simp add: resolve_def)

section \<open>Iterative auth checks\<close>

text \<open>
  What the iterative checks are meant to do, step by step: the states through which they pass. An event enters
  the state reached before it, under its own key, exactly if the rules pass on the entries of that state which
  they select, completed from the event's auth events.
\<close>

definition passes_on :: "room_version ruma \<Rightarrow> room_version \<Rightarrow> fetch \<Rightarrow> state_ids \<Rightarrow> string \<Rightarrow> string \<times> string \<Rightarrow> bool" where
  "passes_on R v fetch state i k \<longleftrightarrow> (\<exists>e eff. fetch i = Some e \<and> state_entry_key e = k \<and>
     effective_state R v fetch state e = Inr eff \<and> check_state_dependent R v e (state_map_get eff) = Inr ())"

fun replayed :: "room_version ruma \<Rightarrow> room_version \<Rightarrow> fetch \<Rightarrow> string list \<Rightarrow> state_ids list \<Rightarrow> bool" where
  "replayed R v fetch [] states \<longleftrightarrow> length states = 1"
| "replayed R v fetch (i # order) states \<longleftrightarrow>
     (\<exists>e s s' rest. states = s # s' # rest \<and> fetch i = Some e \<and> replayed R v fetch order (s' # rest) \<and>
        (if passes_on R v fetch s i (state_entry_key e) then s' = bt_insert (state_entry_key e) i s else s' = s))"

lemma replayed_length: "replayed R v fetch order states \<Longrightarrow> length states = Suc (length order)"
  by (induction order arbitrary: states) fastforce+

lemma replayed_checks:
  "iterative_auth_checks R v order s fetch = Inr s' \<Longrightarrow> \<exists>states. replayed R v fetch order states \<and> hd states = s \<and> List.last states = s'"
proof (induction order arbitrary: s)
  case Nil
  then show ?case by (intro exI[of _ "[s]"]) (simp add: iterative_auth_checks_def)
next
  case (Cons i order)
  then obtain s1 where step: "auth_check_step R v fetch i s = Inr s1" and "iterative_auth_checks R v order s1 fetch = Inr s'"
    by (auto simp: iterative_auth_checks_def)
  with Cons.IH obtain states where st: "replayed R v fetch order states" "hd states = s1" "List.last states = s'" by blast
  from replayed_length[OF st(1)] have ne: "states = hd states # tl states" by (cases states) auto
  from step obtain e eff where e: "fetch i = Some e" "effective_state R v fetch s e = Inr eff"
    "s1 = (if is_ok (check_state_dependent R v e (state_map_get eff)) then bt_insert (state_entry_key e) i s else s)"
    by (auto simp: auth_check_step_def fetch_r_def)
  then have "if passes_on R v fetch s i (state_entry_key e) then s1 = bt_insert (state_entry_key e) i s else s1 = s"
    by (auto simp: passes_on_def is_ok_iff)
  then have "replayed R v fetch (i # order) (s # states)"
    using e(1) st(1,2) ne by (auto intro!: exI[of _ s1] exI[of _ "tl states"])
  then show ?case using st(3) ne by (intro exI[of _ "s # states"]) auto
qed

text \<open>An entry at the end was there at the start, or it is of an event that passed on the state just before it.\<close>

lemma replayed_origin:
  "replayed R v fetch order states \<Longrightarrow> bt_get (List.last states) k = Some i \<Longrightarrow>
     bt_get (hd states) k = Some i \<or> (\<exists>j < length order. order ! j = i \<and> passes_on R v fetch (states ! j) i k)"
proof (induction order arbitrary: states)
  case Nil
  then show ?case by (cases states) auto
next
  case (Cons x order)
  then obtain e s s' rest where st: "states = s # s' # rest" "fetch x = Some e" "replayed R v fetch order (s' # rest)"
    "if passes_on R v fetch s x (state_entry_key e) then s' = bt_insert (state_entry_key e) x s else s' = s" by auto
  from Cons.IH[OF st(3)] Cons.prems(2) st(1) have "bt_get s' k = Some i \<or>
    (\<exists>j < length order. order ! j = i \<and> passes_on R v fetch ((s' # rest) ! j) i k)" by simp
  then show ?case
  proof
    assume g: "bt_get s' k = Some i"
    show ?thesis
    proof (cases "passes_on R v fetch s x (state_entry_key e) \<and> k = state_entry_key e")
      case True
      then have "x = i" using g st(4) by simp
      then show ?thesis using True st(1) by (intro disjI2 exI[of _ 0]) simp
    qed (use g st(1,4) in \<open>auto split: if_splits\<close>)
  next
    assume "\<exists>j < length order. order ! j = i \<and> passes_on R v fetch ((s' # rest) ! j) i k"
    then obtain j where "j < length order" "order ! j = i" "passes_on R v fetch ((s' # rest) ! j) i k" by blast
    then show ?thesis using st(1) by (intro disjI2 exI[of _ "Suc j"]) simp
  qed
qed

lemma fold_insert_get:
  "bt_wf u \<Longrightarrow> bt_get (fold (\<lambda>(k, w). bt_insert k w) u m) k = (case bt_get u k of Some w \<Rightarrow> Some w | None \<Rightarrow> bt_get m k)"
proof (induction u arbitrary: m)
  case (Cons p u)
  obtain k' w' where p: "p = (k', w')" by fastforce
  have "bt_get u k' = None" using Cons.prems p by (auto simp: map_of_eq_None_iff)
  then show ?case using Cons p by (auto split: option.split)
qed simp

lemma resolve_conflicted:
  assumes "sets \<noteq> []" and "partition_sets sets = (u, c)" and "c \<noteq> []"
  shows "resolve R v sets fetch =
    dbind (fold_d (chain_union fetch) sets ([], [])) (\<lambda>(chs, cache1).
    dbind (full_conflicted_set v fetch c chs) (\<lambda>fc.
    dbind (Some (ok_or MissingCreate (find_create u sets))) (\<lambda>create_id.
    dbind (Some (fetch_r fetch create_id)) (\<lambda>create.
    dbind (fold_d (add_power_event fetch fc) fc ([], cache1)) (\<lambda>(ps, cache2).
    dbind (reverse_topological_power_order v ps fetch (creators R v create) cache2) (\<lambda>(sorted_power, cache3).
      resolve_ordered R v u fc ps sorted_power fetch))))))"
  using assms by (simp add: resolve_def)

lemma resolve_ordered_steps:
  assumes "resolve_ordered R v u fc ps sp fetch = Some (Inr r)"
  obtains order partial resolved where
    "iterative_auth_checks R v sp (if state_res v = SR_V2 then u else []) fetch = Inr partial"
    "iterative_auth_checks R v order partial fetch = Inr resolved"
    "r = fold (\<lambda>(k, w). bt_insert k w) u resolved"
  using assms unfolding resolve_ordered_def dbind_eq_Inr by blast

lemma resolve_steps:
  assumes "resolve R v sets fetch = Some (Inr r)" and "sets \<noteq> []" and "partition_sets sets = (u, c)"
  shows "r = u \<or> (\<exists>fc ps sp. resolve_ordered R v u fc ps sp fetch = Some (Inr r))"
proof (cases "c = []")
  case False
  then show ?thesis using assms(1) unfolding resolve_conflicted[OF assms(2,3) False] dbind_eq_Inr
    by (auto split: prod.splits)
qed (use assms in \<open>simp add: resolve_def\<close>)

text \<open>
  C5: In every resolved state the unconflicted part wins and nothing unauthorised enters. The resolution passes
  through a sequence of states, starting from the entries on which all state sets agree (from version 12 on,
  from nothing), in which each event of an order enters the state reached before it exactly if the rules pass
  on that state; the result is the last of these states with the agreed entries put over it. So a key on which
  all state sets agree keeps its event, and any other entry of the result is an event that the rules passed,
  under that key, on the state that the events before it had made.
\<close>

theorem resolve_sound:
  assumes "resolve R v sets fetch = Some (Inr r)" and "sets \<noteq> []"
  shows "\<exists>u order states. (\<forall>k w. bt_get u k = Some w \<longleftrightarrow> agreed (set sets) k w) \<and>
    replayed R v fetch order states \<and> hd states = (if state_res v = SR_V2 then u else []) \<and>
    (\<forall>k. bt_get r k = (case bt_get u k of Some w \<Rightarrow> Some w | None \<Rightarrow> bt_get (List.last states) k)) \<and>
    (\<forall>k i. bt_get r k = Some i \<longrightarrow> agreed (set sets) k i \<or>
       (\<exists>j < length order. order ! j = i \<and> passes_on R v fetch (states ! j) i k))"
proof -
  obtain u c where p: "partition_sets sets = (u, c)" by fastforce
  note spec = partition_sets_spec[OF assms(2) p]
  let ?s = "if state_res v = SR_V2 then u else []"
  have "\<exists>order last. iterative_auth_checks R v order ?s fetch = Inr last \<and>
      (\<forall>k. bt_get r k = (case bt_get u k of Some w \<Rightarrow> Some w | None \<Rightarrow> bt_get last k))"
    using resolve_steps[OF assms p]
  proof (elim disjE exE)
    assume "r = u"
    then show ?thesis by (intro exI[of _ "[]"] exI[of _ ?s]) (auto simp: iterative_auth_checks_def split: option.split)
  next
    fix fc ps sp
    assume "resolve_ordered R v u fc ps sp fetch = Some (Inr r)"
    then obtain order partial resolved where
      1: "iterative_auth_checks R v sp ?s fetch = Inr partial" "iterative_auth_checks R v order partial fetch = Inr resolved"
      and r: "r = fold (\<lambda>(k, w). bt_insert k w) u resolved" by (rule resolve_ordered_steps)
    have "iterative_auth_checks R v (sp @ order) ?s fetch = Inr resolved"
      using 1 by (simp add: iterative_auth_checks_def fold_r_append)
    then show ?thesis using fold_insert_get[OF spec(1)] r by blast
  qed
  then obtain order last where run: "iterative_auth_checks R v order ?s fetch = Inr last"
    and get: "\<And>k. bt_get r k = (case bt_get u k of Some w \<Rightarrow> Some w | None \<Rightarrow> bt_get last k)" by blast
  from replayed_checks[OF run] obtain states where st: "replayed R v fetch order states" "hd states = ?s" "List.last states = last" by blast
  have "agreed (set sets) k i \<or> (\<exists>j < length order. order ! j = i \<and> passes_on R v fetch (states ! j) i k)" if "bt_get r k = Some i" for k i
    using replayed_origin[OF st(1), of k i] that unfolding st(2,3) get spec(3)[symmetric] by (auto split: option.splits if_splits)
  then show ?thesis using spec(3) st get by (intro exI[of _ u] exI[of _ order] exI[of _ states] conjI) auto
qed

section \<open>The full conflicted set\<close>

definition chain_set :: "fetch \<Rightarrow> state_ids \<Rightarrow> string set" where
  "chain_set fetch s = (\<Union>i \<in> snd ` set s. ancestors fetch i)"

definition auth_difference_set :: "fetch \<Rightarrow> state_ids set \<Rightarrow> string set" where
  "auth_difference_set fetch sets = (\<Union>s \<in> sets. chain_set fetch s) - (\<Inter>s \<in> sets. chain_set fetch s)"

definition full_conflict :: "room_version \<Rightarrow> fetch \<Rightarrow> state_ids set \<Rightarrow> string set" where
  "full_conflict v fetch sets = conflicted_ids sets \<union> auth_difference_set fetch sets \<union>
     (if state_res v = SR_V2_1 then between fetch (conflicted_ids sets) else {})"

text \<open>The events the caller can fetch, and the state sets over them.\<close>

definition resolvable :: "fetch \<Rightarrow> string set \<Rightarrow> state_ids set \<Rightarrow> bool" where
  "resolvable fetch known sets \<longleftrightarrow> auth_dag fetch known \<and> (\<forall>s \<in> sets. bt_wf s \<and> snd ` set s \<subseteq> known)"

lemma chain_union_step:
  assumes dag: "auth_dag fetch known" and s: "snd ` set s \<subseteq> known" and sound: "chains_sound fetch cache"
  shows "\<exists>chain cache'. chain_union fetch s (chs, cache) = Some (Inr (chs @ [chain], cache')) \<and>
    set chain = chain_set fetch s \<and> chains_sound fetch cache'"
proof -
  let ?f = "\<lambda>eid (chain, cache). dbind (auth_chain fetch eid cache) (\<lambda>(c, cache'). Some (Inr (bs_extend c chain, cache')))"
  have "\<exists>t. fold_d ?f (map snd s) ([], cache) = Some (Inr t) \<and>
      (case t of (chain, cache') \<Rightarrow> set chain = (\<Union>i \<in> set (map snd s). ancestors fetch i) \<and> chains_sound fetch cache')"
  proof (rule fold_d_total[where P = "\<lambda>dn (chain, cache'). set chain = (\<Union>i \<in> set dn. ancestors fetch i) \<and> chains_sound fetch cache'"])
    fix dn x todo st
    assume ms: "map snd s = dn @ x # todo" and st: "case st of (chain, cache') \<Rightarrow> set chain = (\<Union>i \<in> set dn. ancestors fetch i) \<and> chains_sound fetch cache'"
    obtain chain c where st': "st = (chain, c)" by fastforce
    have "x \<in> set (map snd s)" unfolding ms by simp
    then have "x \<in> known" using s by auto
    then obtain ch c' where "auth_chain fetch x c = Some (Inr (ch, c'))" "set ch = ancestors fetch x" "chains_sound fetch c'"
      using auth_chain_correct[OF dag, of x c] st st' by auto
    then show "\<exists>st'. ?f x st = Some (Inr st') \<and>
        (case st' of (chain, cache') \<Rightarrow> set chain = (\<Union>i \<in> set (dn @ [x]). ancestors fetch i) \<and> chains_sound fetch cache')"
      using st st' by auto
  qed (use sound in simp)
  then show ?thesis by (auto simp: chain_union_def chain_set_def)
qed

lemma chain_union_all:
  assumes res: "resolvable fetch known (set sets)"
  shows "\<exists>chs cache. fold_d (chain_union fetch) sets ([], []) = Some (Inr (chs, cache)) \<and>
    map set chs = map (chain_set fetch) sets \<and> chains_sound fetch cache"
proof -
  have "\<exists>t. fold_d (chain_union fetch) sets ([], []) = Some (Inr t) \<and>
      (case t of (chs, cache) \<Rightarrow> map set chs = map (chain_set fetch) sets \<and> chains_sound fetch cache)"
  proof (rule fold_d_total[where P = "\<lambda>dn (chs, cache). map set chs = map (chain_set fetch) dn \<and> chains_sound fetch cache"])
    fix dn x todo st
    assume "sets = dn @ x # todo" and st: "case st of (chs, cache) \<Rightarrow> map set chs = map (chain_set fetch) dn \<and> chains_sound fetch cache"
    moreover from this have "snd ` set x \<subseteq> known" "auth_dag fetch known" using res by (auto simp: resolvable_def)
    ultimately show "\<exists>st'. chain_union fetch x st = Some (Inr st') \<and>
        (case st' of (chs, cache) \<Rightarrow> map set chs = map (chain_set fetch) (dn @ [x]) \<and> chains_sound fetch cache)"
      using chain_union_step[of fetch known x "snd st" "fst st"] by (cases st) auto
  qed (simp add: chains_sound_def)
  then show ?thesis by auto
qed

lemma auth_difference_of_set:
  assumes "map set chs = map (chain_set fetch) sets"
  shows "set (auth_difference_of chs) = auth_difference_set fetch (set sets)"
proof -
  have "set ` set chs = chain_set fetch ` set sets"
    using arg_cong[OF assms, of set] by simp
  then have "(\<Union>c \<in> set chs. set c) = (\<Union>s \<in> set sets. chain_set fetch s)"
    "(\<Inter>c \<in> set chs. set c) = (\<Inter>s \<in> set sets. chain_set fetch s)"
    by (metis image_image image_ident)+
  then show ?thesis by (auto simp: auth_difference_of_def auth_difference_set_def list_all_iff)
qed

lemma conflicted_known: "resolvable fetch known sets \<Longrightarrow> conflicted_ids sets \<subseteq> known"
  by (force simp: resolvable_def conflicted_ids_def dest: map_of_SomeD)

lemma between_known: "auth_dag fetch known \<Longrightarrow> S \<subseteq> known \<Longrightarrow> between fetch S \<subseteq> known"
  using reachable_from_known[of fetch known S] by (auto simp: between_def)

lemma full_conflict_known:
  assumes "resolvable fetch known sets"
  shows "full_conflict v fetch sets \<subseteq> known"
proof -
  have dag: "auth_dag fetch known" using assms by (simp add: resolvable_def)
  have "chain_set fetch s \<subseteq> known" if "s \<in> sets" for s
    using assms that ancestors_known[OF dag] unfolding resolvable_def chain_set_def by blast
  then have "auth_difference_set fetch sets \<subseteq> known" by (auto simp: auth_difference_set_def)
  then show ?thesis using conflicted_known[OF assms] between_known[OF dag conflicted_known[OF assms]]
    by (auto simp: full_conflict_def)
qed

lemma full_conflicted_set_spec:
  assumes res: "resolvable fetch known (set sets)" and chs: "map set chs = map (chain_set fetch) sets"
    and c: "bs_wf c" "set c = conflicted_ids (set sets)"
  shows "\<exists>fc. full_conflicted_set v fetch c chs = Some (Inr fc) \<and> bs_wf fc \<and> set fc = full_conflict v fetch (set sets)"
proof -
  have dag: "auth_dag fetch known" using res by (simp add: resolvable_def)
  obtain sub where "conflicted_subgraph c fetch = Some (Inr sub)" "bs_wf sub" "set sub = between fetch (set c)"
    using conflicted_subgraph_correct[OF dag, of c] conflicted_known[OF res] c(2) by auto
  then show ?thesis using c auth_difference_of_set[OF chs]
    by (auto simp: full_conflicted_set_def Let_def full_conflict_def)
qed

section \<open>The power events\<close>

definition power_events :: "fetch \<Rightarrow> string set \<Rightarrow> string set" where
  "power_events fetch S = {i \<in> S. \<exists>e. fetch i = Some e \<and> is_power_event e}"

definition power_closure :: "fetch \<Rightarrow> string set \<Rightarrow> string set" where
  "power_closure fetch S = power_events fetch S \<union> (S \<inter> (\<Union>i \<in> power_events fetch S. ancestors fetch i))"

lemma add_power_event_step:
  assumes dag: "auth_dag fetch known" and x: "x \<in> known" "x \<in> set fc" and ps: "bs_wf ps" and sound: "chains_sound fetch cache"
  shows "\<exists>ps' cache'. add_power_event fetch fc x (ps, cache) = Some (Inr (ps', cache')) \<and> bs_wf ps' \<and>
    chains_sound fetch cache' \<and>
    set ps' = set ps \<union> (if x \<in> power_events fetch (set fc) then insert x (set fc \<inter> ancestors fetch x) else {})"
proof -
  obtain e where e: "fetch x = Some e" using auth_dagD[OF dag x(1)] by blast
  obtain ch c' where "auth_chain fetch x cache = Some (Inr (ch, c'))" "set ch = ancestors fetch x" "chains_sound fetch c'"
    using auth_chain_correct[OF dag x(1) sound] by blast
  then show ?thesis using e x(2) ps sound by (auto simp: add_power_event_def fetch_r_def power_events_def)
qed

lemma add_power_events_all:
  assumes dag: "auth_dag fetch known" and fc: "set fc \<subseteq> known" and sound: "chains_sound fetch cache"
  shows "\<exists>ps cache'. fold_d (add_power_event fetch fc) fc ([], cache) = Some (Inr (ps, cache')) \<and> bs_wf ps \<and>
    set ps = power_closure fetch (set fc) \<and> chains_sound fetch cache'"
proof -
  let ?P = "\<lambda>dn (ps, cache). bs_wf ps \<and> chains_sound fetch cache \<and>
    set ps = (\<Union>x \<in> set dn \<inter> power_events fetch (set fc). insert x (set fc \<inter> ancestors fetch x))"
  have "\<exists>t. fold_d (add_power_event fetch fc) fc ([], cache) = Some (Inr t) \<and> ?P fc t"
  proof (rule fold_d_total[where P = ?P])
    fix dn x todo st
    assume fc': "fc = dn @ x # todo" and st: "?P dn st"
    have "x \<in> known" "x \<in> set fc" using fc fc' by auto
    then show "\<exists>st'. add_power_event fetch fc x st = Some (Inr st') \<and> ?P (dn @ [x]) st'"
      using add_power_event_step[OF dag, of x fc "fst st" "snd st"] st by (cases st) auto
  qed (use sound in simp)
  then obtain ps c where t: "fold_d (add_power_event fetch fc) fc ([], cache) = Some (Inr (ps, c))" "?P fc (ps, c)"
    by auto
  moreover have "(\<Union>x \<in> set fc \<inter> power_events fetch (set fc). insert x (set fc \<inter> ancestors fetch x)) = power_closure fetch (set fc)"
    by (auto simp: power_closure_def power_events_def)
  ultimately show ?thesis by auto
qed

section \<open>The mainline\<close>

definition pl_next :: "fetch \<Rightarrow> string \<Rightarrow> string option" where
  "pl_next fetch n =
     (case rbind (fetch_r fetch n) (\<lambda>e. pl_in_auth_events e fetch) of Inr nxt \<Rightarrow> nxt | Inl _ \<Rightarrow> None)"

lemma pl_in_list_total:
  assumes "\<forall>a \<in> set as. \<exists>e. fetch a = Some e"
  shows "\<exists>r. pl_in_list fetch as = Inr r \<and> (\<forall>a. r = Some a \<longrightarrow> a \<in> set as)"
  using assms
proof (induction as)
  case (Cons a as)
  then obtain e r where "fetch a = Some e" "pl_in_list fetch as = Inr r" "\<forall>a. r = Some a \<longrightarrow> a \<in> set as" by auto
  then show ?case by (cases "is_pl_event e") (auto simp: fetch_r_def)
qed simp

lemma pl_next_total:
  assumes dag: "auth_dag fetch known" and n: "n \<in> known"
  shows "rbind (fetch_r fetch n) (\<lambda>e. pl_in_auth_events e fetch) = Inr (pl_next fetch n)"
    and "pl_next fetch n = Some m \<Longrightarrow> (n, m) \<in> auth_edge fetch \<and> m \<in> known"
proof -
  obtain e where e: "fetch n = Some e" using auth_dagD[OF dag n] by blast
  have "\<forall>a \<in> set (auth_events e). \<exists>ae. fetch a = Some ae" using auth_events_known(2)[OF dag n e] by blast
  from pl_in_list_total[OF this] obtain r where r: "pl_in_list fetch (auth_events e) = Inr r" "\<forall>a. r = Some a \<longrightarrow> a \<in> set (auth_events e)"
    by blast
  have eq: "pl_next fetch n = r" using e r(1) by (simp add: pl_next_def fetch_r_def pl_in_auth_events_def)
  show "rbind (fetch_r fetch n) (\<lambda>e. pl_in_auth_events e fetch) = Inr (pl_next fetch n)"
    using e r(1) eq by (simp add: fetch_r_def pl_in_auth_events_def)
  show "pl_next fetch n = Some m \<Longrightarrow> (n, m) \<in> auth_edge fetch \<and> m \<in> known"
    using eq r(2) e auth_events_known(1)[OF dag n e] by (auto simp: auth_edge_fetch[of fetch n e])
qed

text \<open>Induction along the power-levels chain of an event.\<close>

lemma pl_chain_induct [consumes 2, case_names chain]:
  assumes dag: "auth_dag fetch known" and "n \<in> known"
    and step: "\<And>n. n \<in> known \<Longrightarrow> (\<And>m. pl_next fetch n = Some m \<Longrightarrow> P m) \<Longrightarrow> P n"
  shows "P n"
proof -
  have "n \<in> known \<longrightarrow> P n"
  proof (induction n rule: wf_induct_rule[OF auth_dag_wf[OF dag]])
    case (1 n)
    then show ?case using step[of n] pl_next_total(2)[OF dag, of n] by auto
  qed
  with assms(2) show ?thesis by blast
qed

text \<open>The index of an event on the mainline of \<open>start\<close> is its distance along the chain.\<close>

inductive at_distance :: "fetch \<Rightarrow> string \<Rightarrow> nat \<Rightarrow> string \<Rightarrow> bool" for fetch where
  here: "at_distance fetch n 0 n"
| there: "pl_next fetch n = Some m \<Longrightarrow> at_distance fetch m i k \<Longrightarrow> at_distance fetch n (Suc i) k"

inductive_cases at_distanceE: "at_distance fetch n i k"

lemma at_distance_step:
  "at_distance fetch n i k \<longleftrightarrow> (i = 0 \<and> k = n) \<or> (\<exists>j m. i = Suc j \<and> pl_next fetch n = Some m \<and> at_distance fetch m j k)"
  by (auto elim: at_distanceE intro: at_distance.intros)

lemma at_distance_ancestor:
  assumes dag: "auth_dag fetch known" and "at_distance fetch n i k" and "n \<in> known"
  shows "k = n \<or> k \<in> ancestors fetch n"
  using assms(2,3)
proof (induction rule: at_distance.induct)
  case (there n m i k)
  then have "(n, m) \<in> auth_edge fetch" "m \<in> known" using pl_next_total(2)[OF dag] by auto
  then show ?case using there.IH by (auto simp: ancestors_def intro: trancl_into_trancl2)
qed simp

lemma mainline_loop_spec:
  assumes dag: "auth_dag fetch known" and "n \<in> known"
  shows "\<forall>i m. \<exists>m'. mainline_loop fetch (Some n) i m = Some (Inr m') \<and>
    (\<forall>k. (\<nexists>j. at_distance fetch n j k) \<longrightarrow> bt_get m' k = bt_get m k) \<and>
    (\<forall>j k. at_distance fetch n j k \<longrightarrow> bt_get m' k = Some (i + j))"
  using assms
proof (induction rule: pl_chain_induct)
  case (chain n)
  have run: "mainline_loop fetch (Some n) i m = mainline_loop fetch (pl_next fetch n) (i + 1) (bt_insert n i m)" for i m
    by (simp only: mainline_loop.simps[of fetch "Some n"] option.case pl_next_total(1)[OF dag chain(1)] sum.case)
  show ?case
  proof (cases "pl_next fetch n")
    case None
    then have dist: "at_distance fetch n j k \<longleftrightarrow> j = 0 \<and> k = n" for j k by (simp add: at_distance_step[of fetch n])
    show ?thesis unfolding run None dist by (auto simp: mainline_loop.simps[of fetch None])
  next
    case (Some p)
    have p: "(n, p) \<in> auth_edge fetch" "p \<in> known" using pl_next_total(2)[OF dag chain(1) Some] by auto
    have nodist: "\<not> at_distance fetch p j n" for j
    proof
      assume "at_distance fetch p j n"
      then have "n = p \<or> n \<in> ancestors fetch p" using at_distance_ancestor[OF dag _ p(2)] by blast
      then have "n \<in> ancestors fetch n" using p(1) by (auto simp: ancestors_def intro: trancl_into_trancl2)
      then show False using ancestors_irrefl[OF dag] by blast
    qed
    have dist: "at_distance fetch n j k \<longleftrightarrow> j = 0 \<and> k = n \<or> (\<exists>i. j = Suc i \<and> at_distance fetch p i k)" for j k
      using Some by (simp add: at_distance_step[of fetch n])
    show ?thesis
    proof (intro allI)
      fix i m
      from chain(2)[OF Some] obtain m' where m': "mainline_loop fetch (Some p) (i + 1) (bt_insert n i m) = Some (Inr m')"
        "\<And>k. (\<nexists>j. at_distance fetch p j k) \<Longrightarrow> bt_get m' k = bt_get (bt_insert n i m) k"
        "\<And>j k. at_distance fetch p j k \<Longrightarrow> bt_get m' k = Some (i + 1 + j)" by blast
      have "bt_get m' k = bt_get m k" if "\<nexists>j. at_distance fetch n j k" for k
        using m'(2)[of k] that unfolding dist by auto
      moreover have "bt_get m' k = Some (i + j)" if "at_distance fetch n j k" for j k
        using that m'(2)[of n] m'(3)[of _ k] nodist unfolding dist by auto
      ultimately show "\<exists>m'. mainline_loop fetch (Some n) i m = Some (Inr m') \<and>
          (\<forall>k. (\<nexists>j. at_distance fetch n j k) \<longrightarrow> bt_get m' k = bt_get m k) \<and>
          (\<forall>j k. at_distance fetch n j k \<longrightarrow> bt_get m' k = Some (i + j))"
        using m'(1) unfolding run Some by blast
    qed
  qed
qed

lemma build_mainline_spec:
  assumes dag: "auth_dag fetch known" and "n \<in> known"
  shows "\<exists>m. build_mainline (Some n) fetch = Some (Inr m) \<and> (\<forall>k i. bt_get m k = Some i \<longleftrightarrow> at_distance fetch n i k)"
proof -
  obtain m where m: "build_mainline (Some n) fetch = Some (Inr m)"
    "\<And>k. (\<nexists>j. at_distance fetch n j k) \<Longrightarrow> bt_get m k = None"
    "\<And>j k. at_distance fetch n j k \<Longrightarrow> bt_get m k = Some j"
    using mainline_loop_spec[OF assms] unfolding build_mainline_def by (metis add_0 map_of.simps(1))
  then have "bt_get m k = Some i \<longleftrightarrow> at_distance fetch n i k" for k i
    by (metis option.distinct(1) option.inject)
  with m(1) show ?thesis by blast
qed

text \<open>
  The mainline position of what hangs below \<open>current\<close>: the index of the first event of the chain
  that is on the mainline.
\<close>

inductive position_of :: "(string, nat) btree_map \<Rightarrow> fetch \<Rightarrow> string option \<Rightarrow> nat \<Rightarrow> bool" for mainline fetch where
  off: "position_of mainline fetch None usize_max"
| on: "bt_get mainline n = Some i \<Longrightarrow> position_of mainline fetch (Some n) i"
| below: "bt_get mainline n = None \<Longrightarrow> position_of mainline fetch (pl_next fetch n) p \<Longrightarrow> position_of mainline fetch (Some n) p"

inductive_cases position_offE: "position_of mainline fetch None p"
inductive_cases position_onE: "position_of mainline fetch (Some n) p"

lemma position_of_unique: "position_of mainline fetch cur p \<Longrightarrow> position_of mainline fetch cur q \<Longrightarrow> p = q"
proof (induction arbitrary: q rule: position_of.induct)
  case off
  then show ?case by (auto elim: position_offE)
next
  case (on n i)
  from on(2,1) show ?case by (auto elim: position_onE)
next
  case (below n p)
  have "position_of mainline fetch (pl_next fetch n) q"
    using below.prems below.hyps(1) by (rule_tac position_onE[OF below.prems]) simp_all
  then show ?case by (rule below.IH)
qed

definition positions_sound :: "(string, nat) btree_map \<Rightarrow> fetch \<Rightarrow> (string, nat) btree_map \<Rightarrow> bool" where
  "positions_sound mainline fetch cache \<longleftrightarrow>
     (\<forall>n p. bt_get cache n = Some p \<longrightarrow> position_of mainline fetch (pl_next fetch n) p)"

lemma position_loop_spec:
  assumes dag: "auth_dag fetch known" and "n \<in> known" and sound: "positions_sound mainline fetch cache"
  shows "\<forall>walked. \<exists>p ws. position_loop mainline fetch cache (Some n) walked = Some (Inr (p, walked @ ws)) \<and>
    position_of mainline fetch (Some n) p \<and> (\<forall>w \<in> set ws. position_of mainline fetch (pl_next fetch w) p)"
  using assms(1,2)
proof (induction rule: pl_chain_induct)
  case (chain n)
  show ?case
  proof (cases "bt_get mainline n")
    case (Some i)
    then show ?thesis by (auto simp: position_loop.simps[of mainline fetch cache "Some n"] intro: position_of.on)
  next
    case off: None
    show ?thesis
    proof (cases "bt_get cache n")
      case (Some i)
      then have "position_of mainline fetch (Some n) i"
        using sound off by (auto simp: positions_sound_def intro: position_of.below)
      then show ?thesis using Some off by (auto simp: position_loop.simps[of mainline fetch cache "Some n"])
    next
      case None
      have run: "position_loop mainline fetch cache (Some n) walked = position_loop mainline fetch cache (pl_next fetch n) (walked @ [n])" for walked
        by (simp only: position_loop.simps[of mainline fetch cache "Some n"] option.case off None pl_next_total(1)[OF dag chain(1)] sum.case)
      have "\<exists>p ws. position_loop mainline fetch cache (pl_next fetch n) walked = Some (Inr (p, walked @ ws)) \<and>
          position_of mainline fetch (pl_next fetch n) p \<and> (\<forall>w \<in> set ws. position_of mainline fetch (pl_next fetch w) p)" for walked
      proof (cases "pl_next fetch n")
        case None
        then show ?thesis by (auto simp: position_loop.simps[of mainline fetch cache None] intro: position_of.off)
      next
        case (Some m)
        then show ?thesis using chain(2)[OF Some] by simp
      qed
      note rest = this
      show ?thesis
      proof
        fix walked
        from rest[of "walked @ [n]"] obtain p ws where r:
          "position_loop mainline fetch cache (pl_next fetch n) (walked @ [n]) = Some (Inr (p, walked @ [n] @ ws))"
          "position_of mainline fetch (pl_next fetch n) p" "\<forall>w \<in> set ws. position_of mainline fetch (pl_next fetch w) p"
          by auto
        then show "\<exists>p ws. position_loop mainline fetch cache (Some n) walked = Some (Inr (p, walked @ ws)) \<and>
            position_of mainline fetch (Some n) p \<and> (\<forall>w \<in> set ws. position_of mainline fetch (pl_next fetch w) p)"
          unfolding run using off by (intro exI[of _ p] exI[of _ "n # ws"]) (auto intro: position_of.below)
      qed
    qed
  qed
qed

lemma fold_insert_const:
  "bt_get (fold (\<lambda>i. bt_insert i p) ws cache) n = (if n \<in> set ws then Some p else bt_get cache n)"
  by (induction ws arbitrary: cache) auto

lemma mainline_position_spec:
  assumes dag: "auth_dag fetch known" and n: "n \<in> known" and e: "fetch n = Some e" "event_id e = n"
    and sound: "positions_sound mainline fetch cache"
  shows "\<exists>p cache'. mainline_position e mainline fetch cache = Some (Inr (p, cache')) \<and>
    position_of mainline fetch (pl_next fetch n) p \<and> positions_sound mainline fetch cache'"
proof (cases "bt_get cache n")
  case (Some p)
  then show ?thesis using sound e(2) by (auto simp: mainline_position_def positions_sound_def)
next
  case None
  have pl: "pl_in_auth_events e fetch = Inr (pl_next fetch n)"
    using pl_next_total(1)[OF dag n] e(1) by (simp add: fetch_r_def)
  obtain p ws where loop: "position_loop mainline fetch cache (pl_next fetch n) [n] = Some (Inr (p, [n] @ ws))"
    "position_of mainline fetch (pl_next fetch n) p" "\<forall>w \<in> set ws. position_of mainline fetch (pl_next fetch w) p"
  proof (cases "pl_next fetch n")
    case None
    then show ?thesis using that[of usize_max "[]"]
      by (auto simp: position_loop.simps[of mainline fetch cache None] intro: position_of.off)
  next
    case (Some m)
    then have "m \<in> known" using pl_next_total(2)[OF dag n] by blast
    from position_loop_spec[OF dag this sound] that Some show ?thesis by metis
  qed
  have "positions_sound mainline fetch (fold (\<lambda>i. bt_insert i p) (n # ws) cache)"
    using sound loop(2,3) unfolding positions_sound_def fold_insert_const by auto
  then show ?thesis using None pl loop e(2) by (auto simp: mainline_position_def)
qed

text \<open>The order of the remaining events, from their positions.\<close>

definition mainline_sorted :: "(string, nat) btree_map \<Rightarrow> fetch \<Rightarrow> string list \<Rightarrow> bool" where
  "mainline_sorted mainline fetch ids \<longleftrightarrow> (\<exists>keys. map (snd \<circ> snd) keys = ids \<and> sorted keys \<and>
     (\<forall>(p, ts, i) \<in> set keys. position_of mainline fetch (pl_next fetch i) (unreverse p) \<and>
        (\<exists>e. fetch i = Some e \<and> origin_server_ts e = ts)))"

lemma mainline_order_correct:
  assumes dag: "auth_dag fetch known" and rem: "set rem \<subseteq> known" and ids: "\<And>n e. fetch n = Some e \<Longrightarrow> event_id e = n"
  shows "\<exists>out. mainline_order mainline fetch rem = Some (Inr out) \<and> mset out = mset rem \<and> mainline_sorted mainline fetch out"
proof -
  let ?P = "\<lambda>dn (keys, cache). map (snd \<circ> snd) keys = dn \<and> positions_sound mainline fetch cache \<and>
    (\<forall>(p, ts, i) \<in> set keys. position_of mainline fetch (pl_next fetch i) (unreverse p) \<and>
       (\<exists>e. fetch i = Some e \<and> origin_server_ts e = ts))"
  have "\<exists>t. fold_d (add_position mainline fetch) rem ([], []) = Some (Inr t) \<and> ?P rem t"
  proof (rule fold_d_total[where P = ?P])
    fix dn x todo st
    assume r: "rem = dn @ x # todo" and st: "?P dn st"
    obtain keys cache where st': "st = (keys, cache)" by fastforce
    have x: "x \<in> known" using rem r by auto
    then obtain e where e: "fetch x = Some e" using auth_dagD[OF dag] by blast
    have "positions_sound mainline fetch cache" using st st' by simp
    from mainline_position_spec[OF dag x e ids[OF e] this] obtain p cache' where
      "mainline_position e mainline fetch cache = Some (Inr (p, cache'))"
      "position_of mainline fetch (pl_next fetch x) p" "positions_sound mainline fetch cache'" by blast
    then show "\<exists>st'. add_position mainline fetch x st = Some (Inr st') \<and> ?P (dn @ [x]) st'"
      using st e by (auto simp: st' add_position_def fetch_r_def)
  qed (simp add: positions_sound_def)
  then obtain keys cache where t: "fold_d (add_position mainline fetch) rem ([], []) = Some (Inr (keys, cache))"
    "?P rem (keys, cache)" by auto
  have "map (snd \<circ> snd) keys = rem" using t(2) by simp
  then have "mset (map (snd \<circ> snd) (sort keys)) = mset rem" using mset_map[of "snd \<circ> snd" keys] by simp
  moreover have "mainline_sorted mainline fetch (map (snd \<circ> snd) (sort keys))"
    unfolding mainline_sorted_def using t(2) by (intro exI[of _ "sort keys"]) simp
  ultimately show ?thesis using t(1) by (simp add: mainline_order_def)
qed

section \<open>Resolution returns, and what it depends on\<close>

definition values_known :: "string set \<Rightarrow> state_ids \<Rightarrow> bool" where
  "values_known known s \<longleftrightarrow> (\<forall>k i. bt_get s k = Some i \<longrightarrow> i \<in> known)"

lemma effective_state_total:
  assumes dag: "auth_dag fetch known" and s: "values_known known s"
  shows "\<exists>eff. effective_state R v fetch s e = Inr eff"
proof -
  have "\<exists>eff'. effective_entry R v fetch s e k eff = Inr eff'" for k eff
  proof (cases "bt_get s k")
    case (Some i)
    then obtain x where "fetch i = Some x" using s auth_dagD[OF dag] by (metis values_known_def)
    then show ?thesis using Some by (simp add: effective_entry_def fetch_r_def)
  qed (simp add: effective_entry_def)
  then show ?thesis unfolding effective_state_def
    using fold_r_total[of "\<lambda>_. True" "[]" _ "effective_entry R v fetch s e"] by blast
qed

lemma iterative_auth_checks_total:
  assumes dag: "auth_dag fetch known" and order: "set order \<subseteq> known" and s: "values_known known s"
  shows "\<exists>s'. iterative_auth_checks R v order s fetch = Inr s' \<and> values_known known s'"
  unfolding iterative_auth_checks_def
proof (rule fold_r_total[where P = "values_known known", OF s])
  fix x st
  assume "x \<in> set order" and st: "values_known known st"
  then have x: "x \<in> known" using order by blast
  then obtain e where e: "fetch x = Some e" using auth_dagD[OF dag] by blast
  obtain eff where "effective_state R v fetch st e = Inr eff" using effective_state_total[OF dag st] by blast
  then show "\<exists>st'. auth_check_step R v fetch x st = Inr st' \<and> values_known known st'"
    using e x st by (auto simp: auth_check_step_def fetch_r_def values_known_def)
qed

lemma resolve_ordered_total:
  assumes dag: "auth_dag fetch known" and u: "values_known known u" and fc: "set fc \<subseteq> known" and sp: "set sp \<subseteq> known"
    and ids: "\<And>n e. fetch n = Some e \<Longrightarrow> event_id e = n"
  shows "\<exists>r. resolve_ordered R v u fc ps sp fetch = Some (Inr r)"
proof -
  have "values_known known (if state_res v = SR_V2 then u else [])" using u by (simp add: values_known_def)
  then obtain partial where p: "iterative_auth_checks R v sp (if state_res v = SR_V2 then u else []) fetch = Inr partial"
    "values_known known partial" using iterative_auth_checks_total[OF dag sp] by blast
  obtain m where m: "build_mainline (bt_get partial pl_key) fetch = Some (Inr m)"
  proof (cases "bt_get partial pl_key")
    case None
    then show ?thesis using that by (simp add: build_mainline_def mainline_loop.simps[of fetch None])
  next
    case (Some n)
    then have "n \<in> known" using p(2) by (simp add: values_known_def del: split_paired_All)
    then show ?thesis using build_mainline_spec[OF dag] Some that by metis
  qed
  let ?rem = "filter (\<lambda>i. i \<notin> set ps) fc"
  have rem: "set ?rem \<subseteq> known" using fc by auto
  obtain out where out: "mainline_order m fetch ?rem = Some (Inr out)" "mset out = mset ?rem"
    using mainline_order_correct[OF dag rem ids] by blast
  have "set out \<subseteq> known" using out(2) rem by (metis set_mset_mset)
  then obtain resolved where "iterative_auth_checks R v out partial fetch = Inr resolved"
    using iterative_auth_checks_total[OF dag _ p(2)] by blast
  then show ?thesis using p(1) m out(1) by (simp add: resolve_ordered_def)
qed

lemma agreed_known:
  assumes "resolvable fetch known sets" and "agreed sets k w"
  shows "w \<in> known"
proof -
  obtain s where "s \<in> sets" "bt_get s k = Some w" using assms(2) by (auto simp: agreed_def)
  then show ?thesis using assms(1) by (force simp: resolvable_def dest: map_of_SomeD)
qed

lemma find_create_known:
  assumes "resolvable fetch known (set sets)" and "find_create u sets = Some c"
    and "\<And>k w. bt_get u k = Some w \<Longrightarrow> agreed (set sets) k w"
  shows "c \<in> known"
proof (cases "bt_get u create_key")
  case (Some w)
  then show ?thesis using assms(2) agreed_known[OF assms(1) assms(3)] by (simp add: find_create_def)
next
  case None
  then have "c \<in> set (List.map_filter (\<lambda>s. bt_get s create_key) sets)"
    using assms(2) by (auto simp: find_create_def split: list.splits)
  then obtain s where "s \<in> set sets" "bt_get s create_key = Some c" by (auto simp: mem_map_filter)
  then show ?thesis using assms(1) by (force simp: resolvable_def dest: map_of_SomeD)
qed

text \<open>A conflict is resolved through the sets of the specification, whatever the caches hold.\<close>

lemma resolve_through_sets:
  assumes res: "resolvable fetch known (set sets)" and p: "sets \<noteq> []" "partition_sets sets = (u, c)" "c \<noteq> []"
    and create: "find_create u sets = Some create_id" "fetch create_id = Some create"
  shows "\<exists>fc ps sp. bs_wf fc \<and> set fc = full_conflict v fetch (set sets) \<and>
    bs_wf ps \<and> set ps = power_closure fetch (set fc) \<and>
    power_ordered (ancestors fetch) (sort_key_of v fetch (creators R v create)) (set ps) sp \<and>
    resolve R v sets fetch = resolve_ordered R v u fc ps sp fetch"
proof -
  note spec = partition_sets_spec[OF p(1,2)]
  have dag: "auth_dag fetch known" using res by (simp add: resolvable_def)
  obtain chs cache1 where ch: "fold_d (chain_union fetch) sets ([], []) = Some (Inr (chs, cache1))"
    "map set chs = map (chain_set fetch) sets" "chains_sound fetch cache1" using chain_union_all[OF res] by blast
  obtain fc where fc: "full_conflicted_set v fetch c chs = Some (Inr fc)" "bs_wf fc" "set fc = full_conflict v fetch (set sets)"
    using full_conflicted_set_spec[OF res ch(2) spec(2,4)] by blast
  have fck: "set fc \<subseteq> known" using fc(3) full_conflict_known[OF res] by blast
  obtain ps cache2 where ps: "fold_d (add_power_event fetch fc) fc ([], cache1) = Some (Inr (ps, cache2))" "bs_wf ps"
    "set ps = power_closure fetch (set fc)" "chains_sound fetch cache2" using add_power_events_all[OF dag fck ch(3)] by blast
  have "set ps \<subseteq> known" using ps(3) fck by (auto simp: power_closure_def power_events_def)
  then obtain sp cache3 where sp: "reverse_topological_power_order v ps fetch (creators R v create) cache2 = Some (Inr (sp, cache3))"
    "power_ordered (ancestors fetch) (sort_key_of v fetch (creators R v create)) (set ps) sp"
    using power_order_correct[OF dag _ ps(2,4)] by blast
  have "resolve R v sets fetch = resolve_ordered R v u fc ps sp fetch"
    unfolding resolve_conflicted[OF p] using ch(1) fc(1) ps(1) sp(1) create by (simp add: fetch_r_def)
  then show ?thesis using fc ps sp by blast
qed

text \<open>
  C6: When the caller provides what \<open>resolve\<close> asks for (an acyclic graph, every event of the
  state sets fetchable with its auth chain, under its own id) and some state set holds a create
  event, resolution returns a state: it does not diverge, panic or report an error.
\<close>

theorem resolve_returns:
  assumes res: "resolvable fetch known (set sets)" and ids: "\<And>n e. fetch n = Some e \<Longrightarrow> event_id e = n"
    and create: "s \<in> set sets" "bt_get s create_key = Some create_id"
  shows "\<exists>r. resolve R v sets fetch = Some (Inr r)"
proof -
  obtain u c where p: "partition_sets sets = (u, c)" by fastforce
  have ne: "sets \<noteq> []" using create by auto
  note spec = partition_sets_spec[OF ne p]
  have dag: "auth_dag fetch known" using res by (simp add: resolvable_def)
  have "create_id \<in> set (List.map_filter (\<lambda>s. bt_get s create_key) sets)" using create by (auto simp: mem_map_filter)
  then obtain cid where cid: "find_create u sets = Some cid"
    by (cases "bt_get u create_key"; cases "List.map_filter (\<lambda>s. bt_get s create_key) sets")
       (auto simp: find_create_def)
  have "cid \<in> known" by (rule find_create_known[OF res cid]) (simp add: spec(3))
  then obtain cr where cr: "fetch cid = Some cr" using auth_dagD[OF dag] by blast
  show ?thesis
  proof (cases "c = []")
    case True
    then show ?thesis using ne p by (simp add: resolve_def)
  next
    case False
    obtain fc ps sp where r: "set fc = full_conflict v fetch (set sets)" "set ps = power_closure fetch (set fc)"
      "power_ordered (ancestors fetch) (sort_key_of v fetch (creators R v cr)) (set ps) sp"
      "resolve R v sets fetch = resolve_ordered R v u fc ps sp fetch"
      using resolve_through_sets[OF res ne p False cid cr, of v R] by blast
    have "set fc \<subseteq> known" using r(1) full_conflict_known[OF res] by blast
    moreover from this have "set sp \<subseteq> known" using r(2,3) by (auto simp: power_ordered_def power_closure_def power_events_def)
    moreover have "values_known known u" unfolding values_known_def using agreed_known[OF res] spec(3) by blast
    ultimately show ?thesis using resolve_ordered_total[OF dag _ _ _ ids] r(4) by metis
  qed
qed

text \<open>
  C7: Resolution depends only on which state sets there are: the order in which a server sees
  the forks, and seeing one twice, do not matter, provided the sets agree on the create event.
  So servers that hold the same forks resolve them to the same state.
\<close>

theorem resolve_order_independent:
  assumes res: "resolvable fetch known (set sets)" and same: "set sets' = set sets"
    and create: "agreed (set sets) create_key create_id"
  shows "resolve R v sets' fetch = resolve R v sets fetch"
proof -
  obtain u c where p: "partition_sets sets = (u, c)" by fastforce
  have ne: "sets \<noteq> []" "sets' \<noteq> []" using create same by (auto simp: agreed_def)
  have p': "partition_sets sets' = (u, c)" using partition_sets_cong[OF ne(1) same[symmetric]] p by simp
  note spec = partition_sets_spec[OF ne(1) p]
  have u: "bt_get u create_key = Some create_id" using create spec(3) by blast
  have dag: "auth_dag fetch known" using res by (simp add: resolvable_def)
  obtain cr where cr: "fetch create_id = Some cr"
    using auth_dagD[OF dag agreed_known[OF res create]] by blast
  show ?thesis
  proof (cases "c = []")
    case True
    then show ?thesis using ne p p' by (simp add: resolve_def)
  next
    case False
    have fnd: "find_create u sets = Some create_id" "find_create u sets' = Some create_id" using u by (simp_all add: find_create_def)
    have res': "resolvable fetch known (set sets')" using res same by simp
    obtain fc ps sp fc' ps' sp' where
      1: "bs_wf fc" "set fc = full_conflict v fetch (set sets)" "bs_wf ps" "set ps = power_closure fetch (set fc)"
         "power_ordered (ancestors fetch) (sort_key_of v fetch (creators R v cr)) (set ps) sp"
         "resolve R v sets fetch = resolve_ordered R v u fc ps sp fetch" and
      2: "bs_wf fc'" "set fc' = full_conflict v fetch (set sets')" "bs_wf ps'" "set ps' = power_closure fetch (set fc')"
         "power_ordered (ancestors fetch) (sort_key_of v fetch (creators R v cr)) (set ps') sp'"
         "resolve R v sets' fetch = resolve_ordered R v u fc' ps' sp' fetch"
      using resolve_through_sets[OF res ne(1) p False fnd(1) cr, of v R]
        resolve_through_sets[OF res' ne(2) p' False fnd(2) cr, of v R] by metis
    have "fc' = fc" using bs_wf_eq[OF 2(1) 1(1)] 1(2) 2(2) same by simp
    moreover from this have "ps' = ps" using bs_wf_eq[OF 2(3) 1(3)] 1(4) 2(4) by simp
    moreover from this have "sp' = sp" using power_ordered_unique[OF 2(5)] 1(5) by simp
    ultimately show ?thesis using 1(6) 2(6) by simp
  qed
qed

text \<open>
  C1: A conflict is resolved through exactly the sets the algorithm is specified with: the
  conflicted ids, the auth difference of the full auth chains and, from version 12 on, the
  conflicted subgraph make the full conflicted set; its power events with their ancestors inside
  it are checked first, in reverse topological power order; the rest follows.
\<close>

theorem resolve_refines:
  assumes "resolvable fetch known (set sets)" and "conflicted_ids (set sets) \<noteq> {}"
    and "agreed (set sets) create_key create_id" and "fetch create_id = Some create"
  shows "\<exists>u fc ps sp. (\<forall>k w. bt_get u k = Some w \<longleftrightarrow> agreed (set sets) k w) \<and>
    set fc = full_conflict v fetch (set sets) \<and> set ps = power_closure fetch (full_conflict v fetch (set sets)) \<and>
    power_ordered (ancestors fetch) (sort_key_of v fetch (creators R v create)) (set ps) sp \<and>
    resolve R v sets fetch = resolve_ordered R v u fc ps sp fetch"
proof -
  obtain u c where p: "partition_sets sets = (u, c)" by fastforce
  have ne: "sets \<noteq> []" using assms(3) by (auto simp: agreed_def)
  note spec = partition_sets_spec[OF ne p]
  have c: "c \<noteq> []" using spec(4) assms(2) by auto
  have "bt_get u create_key = Some create_id" using spec(3) assms(3) by blast
  then have fnd: "find_create u sets = Some create_id" by (simp add: find_create_def)
  from resolve_through_sets[OF assms(1) ne p c fnd assms(4), of v R] obtain fc ps sp where
    fc: "set fc = full_conflict v fetch (set sets)" and ps: "set ps = power_closure fetch (set fc)"
    and sp: "power_ordered (ancestors fetch) (sort_key_of v fetch (creators R v create)) (set ps) sp"
    and run: "resolve R v sets fetch = resolve_ordered R v u fc ps sp fetch" by blast
  show ?thesis
    by (rule exI[of _ u], rule exI[of _ fc], rule exI[of _ ps], rule exI[of _ sp])
       (use spec(3) fc ps[unfolded fc] sp run in blast)
qed

text \<open>
  The remaining events are all kept and sorted by mainline position (greater first), then
  timestamp, then event id, where the position of an event is the index, on the mainline, of the
  first mainline event on its chain of power-levels events, or the maximal value when there is
  none; the memo of positions never changes the outcome.
\<close>

theorem mainline_order_exact:
  assumes "auth_dag fetch known" and "set rem \<subseteq> known" and "\<And>n e. fetch n = Some e \<Longrightarrow> event_id e = n"
  shows "\<exists>out. mainline_order mainline fetch rem = Some (Inr out) \<and> mset out = mset rem \<and> mainline_sorted mainline fetch out"
  using assms by (rule mainline_order_correct)

end
