(* ===== verification/Core_Examples.thy ===== *)
theory Core_Examples
  imports Auth_Powers Acl Validation Resolution
begin

text \<open>
  A small room of version 11, on which the theorems about events, authorisation and state
  resolution are applied: Alice creates it, joins, sets power levels and a public join rule; Bob
  joins; each sets a topic, which makes two forks.
\<close>

section \<open>The room\<close>

abbreviation rv_ruma :: "room_version ruma" where
  "rv_ruma \<equiv> sample_ruma"

definition mk_event ::
  "string \<Rightarrow> string \<Rightarrow> string option \<Rightarrow> string \<Rightarrow> jobj \<Rightarrow> string list \<Rightarrow> string list \<Rightarrow> nat \<Rightarrow> identified_pdu" where
  "mk_event eid ty sk sndr c auth prev ts = \<lparr>ip_event_id = eid, ip_pdu =
     \<lparr>pdu_room_id = Some ''!r:s'', pdu_sender = sndr, pdu_origin_server_ts = ts, pdu_event_type = ty,
      pdu_state_key = sk, pdu_content = c, pdu_auth_events = auth, pdu_prev_events = prev, pdu_depth = ts,
      pdu_hashes = Some ''h'', pdu_signatures = [(''s'', JObj [])], pdu_unsigned = None\<rparr>\<rparr>"

lemma mk_event_simps [simp]:
  "event_id (mk_event eid ty sk sndr c auth prev ts) = eid"
  "room_id (mk_event eid ty sk sndr c auth prev ts) = Some ''!r:s''"
  "event_type (mk_event eid ty sk sndr c auth prev ts) = ty"
  "state_key (mk_event eid ty sk sndr c auth prev ts) = sk"
  "sender (mk_event eid ty sk sndr c auth prev ts) = sndr"
  "content (mk_event eid ty sk sndr c auth prev ts) = c"
  "auth_events (mk_event eid ty sk sndr c auth prev ts) = auth"
  "prev_events (mk_event eid ty sk sndr c auth prev ts) = prev"
  "origin_server_ts (mk_event eid ty sk sndr c auth prev ts) = ts"
  by (simp_all add: mk_event_def event_accessors)

definition ev_create :: identified_pdu where
  "ev_create = mk_event ''$c'' ''m.room.create'' (Some '''') ''@a:s'' [] [] [] 0"

definition ev_alice :: identified_pdu where
  "ev_alice = mk_event ''$j'' ''m.room.member'' (Some ''@a:s'') ''@a:s'' [(''membership'', JStr ''join'')]
     [''$c''] [''$c''] 1"

definition ev_levels :: identified_pdu where
  "ev_levels = mk_event ''$p'' ''m.room.power_levels'' (Some '''') ''@a:s''
     [(''users'', JObj [(''@a:s'', JInt 100), (''@b:s'', JInt 50)])] [''$c'', ''$j''] [''$j''] 2"

definition ev_rules :: identified_pdu where
  "ev_rules = mk_event ''$r'' ''m.room.join_rules'' (Some '''') ''@a:s'' [(''join_rule'', JStr ''public'')]
     [''$c'', ''$j'', ''$p''] [''$p''] 3"

definition ev_bob :: identified_pdu where
  "ev_bob = mk_event ''$b'' ''m.room.member'' (Some ''@b:s'') ''@b:s'' [(''membership'', JStr ''join'')]
     [''$c'', ''$p'', ''$r''] [''$r''] 4"

definition ev_topic_a :: identified_pdu where
  "ev_topic_a = mk_event ''$t'' ''m.room.topic'' (Some '''') ''@a:s'' [] [''$c'', ''$j'', ''$p''] [''$b''] 5"

definition ev_topic_b :: identified_pdu where
  "ev_topic_b = mk_event ''$u'' ''m.room.topic'' (Some '''') ''@b:s'' [] [''$c'', ''$p'', ''$b''] [''$b''] 6"

definition room_fetch :: fetch where
  "room_fetch = map_of [(''$c'', ev_create), (''$j'', ev_alice), (''$p'', ev_levels), (''$r'', ev_rules),
     (''$b'', ev_bob), (''$t'', ev_topic_a), (''$u'', ev_topic_b)]"

definition room_ids :: "string list" where
  "room_ids = [''$c'', ''$j'', ''$p'', ''$r'', ''$b'', ''$t'', ''$u'']"

text \<open>The state after Bob joined, and the two forks.\<close>

definition room_state :: "(string \<times> string, identified_pdu) btree_map" where
  "room_state = [((''m.room.create'', ''''), ev_create), ((''m.room.join_rules'', ''''), ev_rules),
     ((''m.room.member'', ''@a:s''), ev_alice), ((''m.room.member'', ''@b:s''), ev_bob),
     ((''m.room.power_levels'', ''''), ev_levels)]"

definition fork :: "string \<Rightarrow> state_ids" where
  "fork topic = [((''m.room.create'', ''''), ''$c''), ((''m.room.join_rules'', ''''), ''$r''),
     ((''m.room.member'', ''@a:s''), ''$j''), ((''m.room.member'', ''@b:s''), ''$b''),
     ((''m.room.power_levels'', ''''), ''$p''), ((''m.room.topic'', ''''), topic)]"

lemmas room_events = ev_create_def ev_alice_def ev_levels_def ev_rules_def ev_bob_def ev_topic_a_def ev_topic_b_def

lemma room_fetch_dag: "auth_dag room_fetch (set room_ids)"
proof -
  let ?rank = "\<lambda>n. the (map_of (zip room_ids [0 ..< 7]) n)"
  have "(auth_edge room_fetch)\<inverse> \<subseteq> measure ?rank"
    by (auto simp: auth_edge_def room_fetch_def room_events room_ids_def upt_rec split: if_splits)
  then have "wf ((auth_edge room_fetch)\<inverse>)" by (rule wf_subset[OF wf_measure])
  moreover have "\<forall>n \<in> set room_ids. \<exists>e. room_fetch n = Some e \<and> set (auth_events e) \<subseteq> set room_ids"
    by (simp add: room_ids_def room_fetch_def room_events)
  ultimately show ?thesis by (simp add: auth_dag_def)
qed

lemma room_fetch_ids: "room_fetch n = Some e \<Longrightarrow> event_id e = n"
  by (auto simp: room_fetch_def room_events split: if_splits)

lemma forks_resolvable: "resolvable room_fetch (set room_ids) (set [fork ''$t'', fork ''$u''])"
proof -
  have "bt_wf (fork t)" for t by (simp add: fork_def less_list_code less_char_def)
  moreover have "snd ` set (fork ''$t'') \<subseteq> set room_ids" "snd ` set (fork ''$u'') \<subseteq> set room_ids"
    by (simp_all add: fork_def room_ids_def)
  ultimately show ?thesis using room_fetch_dag by (simp add: resolvable_def)
qed

section \<open>State resolution\<close>

theorem auth_chain_exact_witness:
  "\<exists>chain cache'. auth_chain room_fetch ''$b'' [] = Some (Inr (chain, cache')) \<and>
    bs_wf chain \<and> set chain = ancestors room_fetch ''$b'' \<and> chains_sound room_fetch cache'"
  by (rule auth_chain_exact[OF room_fetch_dag]) (simp_all add: room_ids_def chains_sound_def)

theorem conflicted_subgraph_exact_witness:
  "\<exists>sub. conflicted_subgraph [''$t'', ''$u''] room_fetch = Some (Inr sub) \<and> bs_wf sub \<and>
    set sub = between room_fetch {''$t'', ''$u''}"
  using conflicted_subgraph_exact[OF room_fetch_dag, of "[''$t'', ''$u'']"] by (simp add: room_ids_def)

theorem power_order_exact_witness:
  "\<exists>out cache'. reverse_topological_power_order V11 [''$p'', ''$r''] room_fetch [''@a:s''] [] = Some (Inr (out, cache')) \<and>
    power_ordered (ancestors room_fetch) (sort_key_of V11 room_fetch [''@a:s'']) {''$p'', ''$r''} out"
  using power_order_exact[OF room_fetch_dag, of "[''$p'', ''$r'']" "[]" V11 "[''@a:s'']"]
  by (auto simp: room_ids_def chains_sound_def less_list_code less_char_def)

theorem resolve_agreement_witness:
  "resolve rv_ruma V11 [fork ''$t'', fork ''$t''] (\<lambda>_. None) = Some (Inr (fork ''$t''))"
proof -
  have "bt_wf (fork ''$t'')" by (simp add: fork_def less_list_code less_char_def)
  from resolve_agreement[OF this, of "[fork ''$t'', fork ''$t'']" rv_ruma V11] show ?thesis by simp
qed

theorem resolve_returns_witness:
  "\<exists>r. resolve rv_ruma V11 [fork ''$t'', fork ''$u''] room_fetch = Some (Inr r)"
  by (rule resolve_returns[OF forks_resolvable room_fetch_ids, of "fork ''$t''" "''$c''"]) (simp_all add: fork_def)

lemma forks_agree_create: "agreed (set [fork ''$t'', fork ''$u'']) create_key ''$c''"
  by (simp add: agreed_def fork_def)

theorem resolve_order_independent_witness:
  "resolve rv_ruma V12 [fork ''$u'', fork ''$t'', fork ''$u''] room_fetch
     = resolve rv_ruma V12 [fork ''$t'', fork ''$u''] room_fetch"
  by (rule resolve_order_independent[OF forks_resolvable _ forks_agree_create]) auto

theorem resolve_refines_witness:
  "\<exists>u fc ps sp. set fc = full_conflict V11 room_fetch (set [fork ''$t'', fork ''$u'']) \<and>
    power_ordered (ancestors room_fetch) (sort_key_of V11 room_fetch (creators rv_ruma V11 ev_create)) (set ps) sp \<and>
    resolve rv_ruma V11 [fork ''$t'', fork ''$u''] room_fetch = resolve_ordered rv_ruma V11 u fc ps sp room_fetch"
proof -
  have "\<not> agreed (set [fork ''$t'', fork ''$u'']) (''m.room.topic'', '''') w" for w
    by (auto simp: agreed_def fork_def)
  moreover have "bt_get (fork ''$t'') (''m.room.topic'', '''') = Some ''$t''" by (simp add: fork_def)
  ultimately have "''$t'' \<in> conflicted_ids (set [fork ''$t'', fork ''$u''])"
    unfolding conflicted_ids_def mem_Collect_eq
    by (intro exI[of _ "(''m.room.topic'', '''')"] bexI[of _ "fork ''$t''"]) (auto simp del: split_paired_Ex)
  then have c: "conflicted_ids (set [fork ''$t'', fork ''$u'']) \<noteq> {}" by blast
  have f: "room_fetch ''$c'' = Some ev_create" by (simp add: room_fetch_def)
  from resolve_refines[OF forks_resolvable c forks_agree_create f, of V11 rv_ruma] show ?thesis
    by (elim exE conjE) (intro exI conjI, assumption+)
qed

theorem mainline_order_exact_witness:
  "\<exists>out. mainline_order [(''$p'', 0)] room_fetch [''$t'', ''$u''] = Some (Inr out) \<and> mset out = {#''$t'', ''$u''#} \<and>
    mainline_sorted [(''$p'', 0)] room_fetch out"
  using mainline_order_exact[OF room_fetch_dag _ room_fetch_ids, of "[''$t'', ''$u'']" "[(''$p'', 0)]"]
  by (simp add: room_ids_def)

theorem resolve_sound_witness:
  "resolve rv_ruma V11 [fork ''$t'', fork ''$u''] room_fetch = Some (Inr (fork ''$u'')) \<and>
   (\<exists>order states. replayed rv_ruma V11 room_fetch order states \<and> (\<exists>j < length order. order ! j = ''$u'' \<and>
      passes_on rv_ruma V11 room_fetch (states ! j) ''$u'' (''m.room.topic'', [])))"
proof -
  have r: "resolve rv_ruma V11 [fork ''$t'', fork ''$u''] room_fetch = Some (Inr (fork ''$u''))"
    by code_simp
  have g: "bt_get (fork ''$u'') (''m.room.topic'', []) = Some ''$u''" by (simp add: fork_def)
  have "\<not> agreed (set [fork ''$t'', fork ''$u'']) (''m.room.topic'', []) ''$u''"
    by (simp add: agreed_def) (simp add: fork_def)
  with g resolve_sound[OF r] show ?thesis using r by blast
qed

section \<open>Authorisation\<close>

theorem auth_selection_complete_witness:
  "check_state_dependent rv_ruma V11 ev_topic_b (state_map_get room_state)
     = check_state_dependent rv_ruma V11 ev_topic_b
         (\<lambda>ty sk. if (ty, sk) \<in> set ((''m.room.create'', []) # auth_types_of V11 ev_topic_b)
                  then state_map_get room_state ty sk else None)"
  by (rule auth_selection_complete) (auto simp: agree_on_def)

theorem check_auth_events_exact_witness:
  "check_auth_events V11 ev_bob
     [\<lparr>entry_event = ev_create, rejected = False\<rparr>, \<lparr>entry_event = ev_levels, rejected = False\<rparr>,
      \<lparr>entry_event = ev_rules, rejected = False\<rparr>] = Inr ()"
proof -
  have "entry_fine V11 ev_bob \<lparr>entry_event = ev_create, rejected = False\<rparr>"
    "entry_fine V11 ev_bob \<lparr>entry_event = ev_levels, rejected = False\<rparr>"
    "entry_fine V11 ev_bob \<lparr>entry_event = ev_rules, rejected = False\<rparr>" by code_simp+
  then show ?thesis by (subst check_auth_events_exact) (simp add: room_events state_pair_def)
qed

text \<open>Alice demotes nobody and raises Bob to 60; she bans Bob; Bob cannot be raised above her.\<close>

definition ev_levels2 :: identified_pdu where
  "ev_levels2 = mk_event ''$q'' ''m.room.power_levels'' (Some '''') ''@a:s''
     [(''users'', JObj [(''@a:s'', JInt 100), (''@b:s'', JInt 60)])] [''$c'', ''$j'', ''$p''] [''$b''] 7"

definition ev_ban :: identified_pdu where
  "ev_ban = mk_event ''$x'' ''m.room.member'' (Some ''@b:s'') ''@a:s'' [(''membership'', JStr ''ban'')]
     [''$c'', ''$j'', ''$p'', ''$b''] [''$b''] 8"

theorem power_levels_no_escalation_witness:
  "\<exists>p q. resolve_levels rv_ruma V11 ev_create (Some ev_levels) = Inr p \<and>
     resolve_levels rv_ruma V11 ev_create (Some ev_levels2) = Inr q \<and>
     user_level q ''@b:s'' \<le>
       max (user_level p ''@a:s'') (max (user_level p ''@b:s'') (PLInt (max 0 (users_default p))))"
proof -
  let ?st = "state_map_get room_state"
  have ok: "check_state_dependent rv_ruma V11 ev_levels2 ?st = Inr ()" by code_simp
  have st: "?st ''m.room.create'' [] = Some ev_create" "?st ''m.room.power_levels'' [] = Some ev_levels"
    by (simp_all add: state_map_get_def room_state_def)
  have ty: "event_type ev_levels2 = ''m.room.power_levels''" and sn: "sender ev_levels2 = ''@a:s''"
    by (simp_all add: ev_levels2_def)
  have "is_ok (resolve_levels rv_ruma V11 ev_create (Some ev_levels))"
    "is_ok (resolve_levels rv_ruma V11 ev_create (Some ev_levels2))" by code_simp+
  then obtain p q where pq: "resolve_levels rv_ruma V11 ev_create (Some ev_levels) = Inr p"
    "resolve_levels rv_ruma V11 ev_create (Some ev_levels2) = Inr q" by (auto simp: is_ok_iff)
  show ?thesis using power_levels_no_escalation[OF ok ty st pq, of "''@b:s''" 0] pq sn by auto
qed

theorem accepted_power_levels_resolve_witness:
  "\<exists>q. resolve_levels rv_ruma V11 ev_create (Some ev_levels2) = Inr q"
proof -
  have "\<exists>p. resolve_levels rv_ruma V11 ev_create (Some ev_levels) = Inr p \<and>
      check_power_levels rv_ruma V11 ev_levels2 (state_map_get room_state) p (PLInt 100) = Inr ()"
  proof -
    have "case resolve_levels rv_ruma V11 ev_create (Some ev_levels) of
        Inr p \<Rightarrow> check_power_levels rv_ruma V11 ev_levels2 (state_map_get room_state) p (PLInt 100) = Inr ()
      | Inl _ \<Rightarrow> False" by code_simp
    then show ?thesis by (auto split: sum.splits)
  qed
  then show ?thesis using accepted_power_levels_resolve by blast
qed

theorem accepted_join_cases_witness:
  "\<exists>create p. state_map_get room_state ''m.room.create'' [] = Some create \<and>
     resolve_levels rv_ruma V11 create (state_map_get room_state ''m.room.power_levels'' []) = Inr p \<and>
     (prev_events ev_bob = [event_id create] \<and> state_key ev_bob = Some (first_join_creator V11 create) \<or>
      membership (state_map_get room_state) (sender ev_bob) \<noteq> ''ban'')"
proof -
  have 1: "check_state_dependent rv_ruma V11 ev_bob (state_map_get room_state) = Inr ()" by code_simp
  have 2: "event_type ev_bob = ''m.room.member''" "str_prop (content ev_bob) ''membership'' = Some ''join''"
    by (simp_all add: ev_bob_def str_prop.simps)
  show ?thesis using accepted_join_cases[OF 1 2] by blast
qed

theorem removal_needs_seniority_witness:
  "\<exists>create p. state_map_get room_state ''m.room.create'' [] = Some create \<and>
     resolve_levels rv_ruma V11 create (state_map_get room_state ''m.room.power_levels'' []) = Inr p \<and>
     user_from_str rv_ruma p ''@b:s'' < user_level p (sender ev_ban) \<and>
     satisfies (user_level p (sender ev_ban)) (ban p)"
proof -
  have 1: "check_state_dependent rv_ruma V11 ev_ban (state_map_get room_state) = Inr ()" by code_simp
  have 2: "event_type ev_ban = ''m.room.member''" "str_prop (content ev_ban) ''membership'' = Some ''ban''"
    "state_key ev_ban = Some ''@b:s''"
    by (simp_all add: ev_ban_def str_prop.simps)
  show ?thesis using removal_needs_seniority[OF 1 2] by simp blast
qed

theorem accepted_event_standing_witness:
  "\<exists>create p. state_map_get room_state ''m.room.create'' [] = Some create \<and>
     resolve_levels rv_ruma V11 create (state_map_get room_state ''m.room.power_levels'' []) = Inr p \<and>
     membership (state_map_get room_state) (sender ev_topic_b) = ''join''"
proof -
  have 1: "check_state_dependent rv_ruma V11 ev_topic_b (state_map_get room_state) = Inr ()" by code_simp
  have 2: "event_type ev_topic_b \<noteq> ''m.room.create''" "event_type ev_topic_b \<noteq> ''m.room.member''"
    by (simp_all add: ev_topic_b_def)
  show ?thesis using accepted_event_standing[OF 1 2] by blast
qed

section \<open>Events\<close>

definition raw_topic :: jobj where
  "raw_topic = [(''auth_events'', JArr [JStr ''$c'']), (''content'', JObj []), (''depth'', JInt 3),
     (''hashes'', JObj [(''sha256'', JStr ''h'')]), (''origin_server_ts'', JInt 7),
     (''prev_events'', JArr [JStr ''$b'']), (''room_id'', JStr ''!r:s''), (''sender'', JStr ''@a:s''),
     (''signatures'', JObj [(''s'', JObj [])]), (''state_key'', JStr ''''), (''type'', JStr ''m.room.topic'')]"

theorem pdu_canonical_roundtrip_witness:
  "\<exists>p raw'. from_canonical rv_ruma raw_topic = Inr p \<and> to_canonical p = Inr raw' \<and>
     from_canonical rv_ruma raw' = Inr p"
proof -
  have "is_ok (from_canonical rv_ruma raw_topic)" by code_simp
  then obtain p where p: "from_canonical rv_ruma raw_topic = Inr p" by (auto simp: is_ok_iff)
  show ?thesis using pdu_canonical_roundtrip[OF p] p by blast
qed

definition pdu_topic :: pdu where
  "pdu_topic = \<lparr>pdu_room_id = Some ''!r:s'', pdu_sender = ''@a:s'', pdu_origin_server_ts = 7,
     pdu_event_type = ''m.room.topic'', pdu_state_key = Some '''', pdu_content = [], pdu_auth_events = [''$c''],
     pdu_prev_events = [''$b''], pdu_depth = 3, pdu_hashes = Some ''h'', pdu_signatures = [(''s'', JObj [])],
     pdu_unsigned = None\<rparr>"

theorem byte_limits_tighten_witness:
  "validate_pdu rv_ruma raw_topic V11 = Inr pdu_topic \<and> validate_pdu rv_ruma raw_topic V8 = Inr pdu_topic"
proof -
  have "from_canonical rv_ruma raw_topic = Inr pdu_topic" by code_simp
  moreover have "check_limits V11 pdu_topic = Inr ()" "check_complete V11 pdu_topic = Inr ()"
    by (simp_all add: check_limits_def check_complete_def field_len_def size_limits is_create_pdu_def pdu_topic_def)
  ultimately have p: "validate_pdu rv_ruma raw_topic V11 = Inr pdu_topic"
    by (simp add: validate_pdu_def size_limits sample_ruma_def raw_topic_def)
  show ?thesis using byte_limits_tighten[OF p, of V8] p by (simp add: less_eq_room_version_def)
qed

end
