(* ===== verification/Store.thy ===== *)
theory Store
  imports Rust_Std
begin

text \<open>
  The storage layer (\<open>saltator-store\<close>): write batches and the staged overlay, the engine
  interface, and the key layout \<open>keyspace | shard | table | key\<close> with its range bounds. An engine
  is represented by its contents in key order; RocksDB, below it, is third-party code, and its
  I/O failures, which are fatal to a node, are not represented.
\<close>

section \<open>Write batches\<close>

datatype batch_op = Put bytes bytes | Delete bytes | DeleteRange bytes bytes

type_synonym write_batch = "batch_op list"

definition wb_put :: "bytes \<Rightarrow> bytes \<Rightarrow> write_batch \<Rightarrow> write_batch" where
  "wb_put k v ops = ops @ [Put k v]"

definition wb_delete :: "bytes \<Rightarrow> write_batch \<Rightarrow> write_batch" where
  "wb_delete k ops = ops @ [Delete k]"

definition wb_delete_range :: "bytes \<Rightarrow> bytes \<Rightarrow> write_batch \<Rightarrow> write_batch" where
  "wb_delete_range s e ops = ops @ [DeleteRange s e]"

definition staged_op :: "bytes \<Rightarrow> batch_op \<Rightarrow> bytes option option" where
  "staged_op key b =
     (case b of
        Put k v \<Rightarrow> if k = key then Some (Some v) else None
      | Delete k \<Rightarrow> if k = key then Some None else None
      | DeleteRange s e \<Rightarrow> if s \<le> key \<and> key < e then Some None else None)"

fun first_staged :: "bytes \<Rightarrow> batch_op list \<Rightarrow> bytes option option" where
  "first_staged key [] = None"
| "first_staged key (b # bs) = (case staged_op key b of Some r \<Rightarrow> Some r | None \<Rightarrow> first_staged key bs)"

definition staged :: "write_batch \<Rightarrow> bytes \<Rightarrow> bytes option option" where
  "staged ops key = first_staged key (rev ops)"

section \<open>The engine\<close>

type_synonym kv = "(bytes, bytes) btree_map"

definition kv_get :: "kv \<Rightarrow> bytes \<Rightarrow> bytes option" where
  "kv_get db k = bt_get db k"

definition kv_put :: "kv \<Rightarrow> bytes \<Rightarrow> bytes \<Rightarrow> kv" where
  "kv_put db k v = bt_insert k v db"

definition kv_delete :: "kv \<Rightarrow> bytes \<Rightarrow> kv" where
  "kv_delete db k = bt_remove k db"

definition kv_delete_range :: "kv \<Rightarrow> bytes \<Rightarrow> bytes \<Rightarrow> kv" where
  "kv_delete_range db s e = filter (\<lambda>(k, _). \<not> (s \<le> k \<and> k < e)) db"

fun apply_op :: "batch_op \<Rightarrow> kv \<Rightarrow> kv" where
  "apply_op (Put k v) db = kv_put db k v"
| "apply_op (Delete k) db = kv_delete db k"
| "apply_op (DeleteRange s e) db = kv_delete_range db s e"

definition kv_write_batch :: "kv \<Rightarrow> write_batch \<Rightarrow> kv" where
  "kv_write_batch db ops = fold apply_op ops db"

definition kv_range :: "kv \<Rightarrow> bytes \<Rightarrow> bytes \<Rightarrow> (bytes \<times> bytes) list" where
  "kv_range db s e = filter (\<lambda>(k, _). s \<le> k \<and> k < e) db"

definition kv_scan :: "kv \<Rightarrow> bytes \<Rightarrow> bytes \<Rightarrow> nat \<Rightarrow> bool \<Rightarrow> (bytes \<times> bytes) list" where
  "kv_scan db s e limit reverse =
     (if reverse then take limit (filter (\<lambda>(k, _). k < e) (rev (filter (\<lambda>(k, _). s \<le> k \<and> k \<le> e) db)))
      else take limit (filter (\<lambda>(k, _). s \<le> k \<and> k < e) db))"

definition kv_last_in_range :: "kv \<Rightarrow> bytes \<Rightarrow> bytes \<Rightarrow> (bytes \<times> bytes) option" where
  "kv_last_in_range db s e =
     (case filter (\<lambda>(k, _). k < e) (rev (filter (\<lambda>(k, _). s \<le> k \<and> k \<le> e) db)) of
        [] \<Rightarrow> None
      | x # _ \<Rightarrow> Some x)"

text \<open>
  The contract of \<open>KvEngine\<close>, for any representation of the contents: point reads after point
  writes and range deletions, batches applied in order, ordered scans of exactly the entries in
  range.
\<close>

locale kv_engine =
  fixes ok :: "'db \<Rightarrow> bool"
    and read :: "'db \<Rightarrow> bytes \<Rightarrow> bytes option"
    and put :: "'db \<Rightarrow> bytes \<Rightarrow> bytes \<Rightarrow> 'db"
    and del :: "'db \<Rightarrow> bytes \<Rightarrow> 'db"
    and del_range :: "'db \<Rightarrow> bytes \<Rightarrow> bytes \<Rightarrow> 'db"
    and write_ops :: "'db \<Rightarrow> write_batch \<Rightarrow> 'db"
    and scan_range :: "'db \<Rightarrow> bytes \<Rightarrow> bytes \<Rightarrow> (bytes \<times> bytes) list"
  assumes read_put: "read (put db k v) k' = (if k' = k then Some v else read db k')"
    and read_del: "read (del db k) k' = (if k' = k then None else read db k')"
    and read_del_range: "ok db \<Longrightarrow> read (del_range db s e) k' = (if s \<le> k' \<and> k' < e then None else read db k')"
    and ok_put: "ok db \<Longrightarrow> ok (put db k v)"
    and ok_del: "ok db \<Longrightarrow> ok (del db k)"
    and ok_del_range: "ok db \<Longrightarrow> ok (del_range db s e)"
    and write_nil: "write_ops db [] = db"
    and write_snoc: "write_ops db (ops @ [b]) =
      (case b of Put k v \<Rightarrow> put (write_ops db ops) k v | Delete k \<Rightarrow> del (write_ops db ops) k
       | DeleteRange s e \<Rightarrow> del_range (write_ops db ops) s e)"
    and scan_mem: "ok db \<Longrightarrow> (k, v) \<in> set (scan_range db s e) \<longleftrightarrow> read db k = Some v \<and> s \<le> k \<and> k < e"
    and scan_sorted: "ok db \<Longrightarrow> bt_wf (scan_range db s e)"
begin

lemma write_ok: "ok db \<Longrightarrow> ok (write_ops db ops)"
  by (induction ops rule: rev_induct)
     (auto simp: write_nil write_snoc ok_put ok_del ok_del_range split: batch_op.split)

text \<open>The staged overlay answers what the batch would leave behind.\<close>

lemma read_write:
  "ok db \<Longrightarrow> read (write_ops db ops) key = (case staged ops key of Some r \<Rightarrow> r | None \<Rightarrow> read db key)"
proof (induction ops rule: rev_induct)
  case Nil
  then show ?case by (simp add: write_nil staged_def)
next
  case (snoc b ops)
  then show ?case using write_ok[of db ops]
    by (cases b) (auto simp: write_snoc read_put read_del read_del_range staged_def staged_op_def)
qed

text \<open>A range of an engine is determined by what its keys read as.\<close>

lemma scan_eqI:
  assumes "ok db" and "ok db'" and "\<And>k. s \<le> k \<Longrightarrow> k < e \<Longrightarrow> read db k = read db' k"
  shows "scan_range db s e = scan_range db' s e"
proof -
  have "bt_get (scan_range db s e) k = bt_get (scan_range db' s e) k" for k
    using assms scan_mem scan_sorted bt_get_mem by (metis not_None_eq)
  then show ?thesis using bt_wf_eqI scan_sorted assms(1,2) by blast
qed

end

lemma kv_delete_range_get: "kv_get (kv_delete_range db s e) k = (if s \<le> k \<and> k < e then None else kv_get db k)"
  by (induction db) (auto simp: kv_get_def kv_delete_range_def)

lemma filter_keys_wf: "bt_wf m \<Longrightarrow> bt_wf (filter P m)"
  by (induction m) auto

interpretation rocks: kv_engine bt_wf kv_get kv_put kv_delete kv_delete_range kv_write_batch kv_range
proof
  show "kv_write_batch db (ops @ [b]) =
      (case b of Put k v \<Rightarrow> kv_put (kv_write_batch db ops) k v | Delete k \<Rightarrow> kv_delete (kv_write_batch db ops) k
       | DeleteRange s e \<Rightarrow> kv_delete_range (kv_write_batch db ops) s e)" for db ops b
    by (cases b) (simp_all add: kv_write_batch_def)
  show "bt_wf db \<Longrightarrow> (k, v) \<in> set (kv_range db s e) \<longleftrightarrow> kv_get db k = Some v \<and> s \<le> k \<and> k < e" for db k v s e
    by (auto simp: kv_range_def kv_get_def bt_get_mem)
  show "bt_wf db \<Longrightarrow> kv_get (kv_delete_range db s e) k = (if s \<le> k \<and> k < e then None else kv_get db k)" for db s e k
    by (rule kv_delete_range_get)
qed (simp_all add: kv_get_def kv_put_def kv_delete_def kv_write_batch_def kv_range_def filter_keys_wf
      kv_delete_range_def)

text \<open>
  The staged-overlay lookup of a batch reads, for every key, exactly what the key would read
  after the batch is applied to the engine, including keys covered by range deletions and keys
  written several times.
\<close>

theorem staged_overlay_exact:
  assumes "bt_wf db"
  shows "(case staged ops k of Some r \<Rightarrow> r | None \<Rightarrow> kv_get db k) = kv_get (kv_write_batch db ops) k"
  using rocks.read_write[OF assms, of ops k] by simp

theorem staged_overlay_exact_witness:
  "(case staged [Put ''a'' ''1'', DeleteRange ''a'' ''c'', Put ''b'' ''2''] ''a'' of
      Some r \<Rightarrow> r | None \<Rightarrow> kv_get [(''a'', ''0'')] ''a'')
   = kv_get (kv_write_batch [(''a'', ''0'')] [Put ''a'' ''1'', DeleteRange ''a'' ''c'', Put ''b'' ''2'']) ''a''"
  by (rule staged_overlay_exact) simp

lemma kv_write_batch_wf: "bt_wf db \<Longrightarrow> bt_wf (kv_write_batch db ops)"
  by (rule rocks.write_ok)

lemma kv_write_batch_append: "kv_write_batch db (xs @ ys) = kv_write_batch (kv_write_batch db xs) ys"
  by (simp add: kv_write_batch_def)

section \<open>Key layout\<close>

datatype keyspace = Meta | Room | User | FedOut

fun ks_byte :: "keyspace \<Rightarrow> nat" where
  "ks_byte Meta = 0"
| "ks_byte Room = 1"
| "ks_byte User = 2"
| "ks_byte FedOut = 3"

fun ks_name :: "keyspace \<Rightarrow> string" where
  "ks_name Meta = ''meta''"
| "ks_name Room = ''room''"
| "ks_name User = ''user''"
| "ks_name FedOut = ''fedout''"

definition key :: "keyspace \<Rightarrow> u16 \<Rightarrow> u8 \<Rightarrow> bytes \<Rightarrow> bytes" where
  "key ks shard table k = byte (ks_byte ks) # u16_be shard @ byte (unat table) # k"

definition shard_bounds :: "keyspace \<Rightarrow> u16 \<Rightarrow> bytes \<times> bytes" where
  "shard_bounds ks shard =
     (byte (ks_byte ks) # u16_be shard,
      if shard = - 1 then [byte (ks_byte ks + 1)] else byte (ks_byte ks) # u16_be (shard + 1))"

definition table_bounds :: "keyspace \<Rightarrow> u16 \<Rightarrow> u8 \<Rightarrow> bytes \<times> bytes" where
  "table_bounds ks shard table =
     (key ks shard table [],
      if table = - 1 then byte (ks_byte ks) # u16_be (shard + 1)
      else key ks shard (table + 1) [])"

lemma ks_byte_inject [simp]: "ks_byte a = ks_byte b \<longleftrightarrow> a = b"
  by (cases a; cases b) simp_all

lemma ks_byte_bound: "ks_byte ks \<le> 3"
  by (cases ks) simp_all

definition shard_prefix :: "keyspace \<Rightarrow> u16 \<Rightarrow> bytes" where
  "shard_prefix ks shard = byte (ks_byte ks) # u16_be shard"

lemma length_shard_prefix [simp]: "length (shard_prefix ks shard) = 3"
  by (simp add: shard_prefix_def)

lemma key_prefix: "key ks shard table k = shard_prefix ks shard @ byte (unat table) # k"
  by (simp add: key_def shard_prefix_def)

lemma shard_prefix_inject [simp]: "shard_prefix a s = shard_prefix b t \<longleftrightarrow> a = b \<and> s = t"
proof -
  have "ks_byte a < 256" "ks_byte b < 256" using ks_byte_bound[of a] ks_byte_bound[of b] by simp_all
  then have "byte (ks_byte a) = byte (ks_byte b) \<longleftrightarrow> ks_byte a = ks_byte b"
    by (metis mod_less of_char_of)
  then show ?thesis by (simp add: shard_prefix_def)
qed

lemma shard_prefix_less:
  "shard_prefix a s < shard_prefix b t \<longleftrightarrow> ks_byte a < ks_byte b \<or> a = b \<and> s < t"
proof -
  have "ks_byte a < 256" "ks_byte b < 256" using ks_byte_bound[of a] ks_byte_bound[of b] by simp_all
  then have "byte (ks_byte a) < byte (ks_byte b) \<longleftrightarrow> ks_byte a < ks_byte b" by (rule byte_less)
  moreover have "byte (ks_byte a) = byte (ks_byte b) \<longleftrightarrow> a = b"
    using shard_prefix_inject[of a 0 b 0] by (simp add: shard_prefix_def)
  ultimately show ?thesis by (auto simp: shard_prefix_def)
qed

lemma unat_u8_lt: "unat (t :: u8) < 256"
  using unsigned_less[of t] by simp

lemma unat_u8_mod [simp]: "unat (t :: u8) mod 256 = unat t"
  using unat_u8_lt by (rule mod_less)

lemma byte_eq: "a < 256 \<Longrightarrow> b < 256 \<Longrightarrow> byte a = byte b \<longleftrightarrow> a = b"
  by (metis mod_less of_char_of)

lemma table_byte_less: "byte (unat s) < byte (unat t) \<longleftrightarrow> s < (t :: u8)"
  by (simp add: byte_less unat_u8_lt word_less_nat_alt)

lemma table_byte_inject: "byte (unat s) = byte (unat t) \<longleftrightarrow> s = (t :: u8)"
  by (metis linorder_less_linear order_less_irrefl table_byte_less)

lemma prefix_le_append:
  fixes p q :: "'a::linorder list"
  assumes "length p = length q"
  shows "p \<le> q @ r \<longleftrightarrow> p \<le> q" and "q @ r < p \<longleftrightarrow> q < p"
  using lex_append_less[OF assms, of "[]" r] lex_append_less[OF assms[symmetric], of r "[]"] assms
  by (auto simp: order.order_iff_strict)

lemma unat_u8_eq [simp]: "unat s = unat t \<longleftrightarrow> s = (t :: u8)"
  by (simp add: word_unat_eq_iff)

lemma key_less:
  "key a s t k < key b u w l \<longleftrightarrow>
     ks_byte a < ks_byte b \<or> a = b \<and> (s < u \<or> s = u \<and> (t < w \<or> t = w \<and> k < l))"
  by (auto simp: key_prefix lex_append_less shard_prefix_less table_byte_less table_byte_inject)

lemma key_inject [simp]: "key a s t k = key b u w l \<longleftrightarrow> a = b \<and> s = u \<and> t = w \<and> k = l"
  by (auto simp: key_prefix table_byte_inject)

lemma key_le:
  "key a s t k \<le> key b u w l \<longleftrightarrow>
     ks_byte a < ks_byte b \<or> a = b \<and> (s < u \<or> s = u \<and> (t < w \<or> t = w \<and> k \<le> l))"
  by (auto simp: order.order_iff_strict key_less)

lemma unat_succ: "s \<noteq> - 1 \<Longrightarrow> unat (s + 1) = Suc (unat (s :: 'a::len word))"
  by (metis add.commute add_eq_0_iff2 unatSuc)

lemma word_succ_least: "s \<noteq> - 1 \<Longrightarrow> u < s + 1 \<longleftrightarrow> u \<le> (s :: 'a::len word)"
  by (simp add: word_less_nat_alt word_le_nat_alt unat_succ less_Suc_eq_le)

lemma shard_bounds_mem:
  "fst (shard_bounds ks shard) \<le> key ks' shard' t k \<and> key ks' shard' t k < snd (shard_bounds ks shard)
     \<longleftrightarrow> ks' = ks \<and> shard' = shard"
proof -
  have start: "shard_prefix ks shard \<le> key ks' shard' t k \<longleftrightarrow> shard_prefix ks shard \<le> shard_prefix ks' shard'"
    by (simp add: key_prefix prefix_le_append)
  show ?thesis
  proof (cases "shard = - 1")
    case True
    have "byte (ks_byte ks') < byte (ks_byte ks + 1) \<longleftrightarrow> ks_byte ks' < ks_byte ks + 1"
      using ks_byte_bound[of ks'] ks_byte_bound[of ks] by (intro byte_less) simp_all
    moreover have "byte (ks_byte ks') = byte (ks_byte ks + 1) \<longleftrightarrow> ks_byte ks' = ks_byte ks + 1"
      using ks_byte_bound[of ks'] ks_byte_bound[of ks] by (intro byte_eq) simp_all
    ultimately have "key ks' shard' t k < [byte (ks_byte ks + 1)] \<longleftrightarrow> ks_byte ks' \<le> ks_byte ks"
      by (auto simp: key_def)
    then show ?thesis unfolding shard_bounds_def using start True
      by (auto simp: shard_prefix_def[symmetric] order.order_iff_strict shard_prefix_less)
  next
    case False
    have "key ks' shard' t k < shard_prefix ks (shard + 1) \<longleftrightarrow> shard_prefix ks' shard' < shard_prefix ks (shard + 1)"
      by (simp add: key_prefix prefix_le_append)
    then show ?thesis unfolding shard_bounds_def using start False
      by (auto simp: shard_prefix_def[symmetric] order.order_iff_strict shard_prefix_less word_succ_least)
  qed
qed

text \<open>
  The bounds of a shard cover exactly its keys: a key built for any keyspace, shard and table
  lies in \<open>[start, end)\<close> if and only if it belongs to that keyspace and shard, for every shard
  index including the last.
\<close>

theorem shard_bounds_exact:
  "(case shard_bounds ks shard of (start, end') \<Rightarrow> start \<le> key ks' shard' t k \<and> key ks' shard' t k < end')
     \<longleftrightarrow> ks' = ks \<and> shard' = shard"
  by (simp add: case_prod_beta shard_bounds_mem)

lemma table_bounds_low:
  assumes "table \<noteq> - 1"
  shows "key ks shard table [] \<le> key ks' shard' t k \<and> key ks' shard' t k < key ks shard (table + 1) [] \<longleftrightarrow>
    ks' = ks \<and> shard' = shard \<and> t = table"
  using assms by (cases "ks' = ks"; cases "shard' = shard"; cases "t = table") (auto simp: key_le key_less word_succ_least)

lemma table_bounds_high:
  assumes "shard \<noteq> - 1"
  shows "key ks shard (- 1) [] \<le> key ks' shard' t k \<and> key ks' shard' t k < shard_prefix ks (shard + 1) \<longleftrightarrow>
    ks' = ks \<and> shard' = shard \<and> t = - 1"
proof -
  have "key ks' shard' t k < shard_prefix ks (shard + 1) \<longleftrightarrow> ks_byte ks' < ks_byte ks \<or> ks' = ks \<and> shard' \<le> shard"
    using assms by (simp add: key_prefix prefix_le_append shard_prefix_less word_succ_least)
  then show ?thesis
    by (cases "ks' = ks"; cases "shard' = shard"; cases "t = - 1") (auto simp: key_le word_order.extremum_strict)
qed

text \<open>
  The bounds of a table cover exactly its keys, except for the last table of the last shard:
  a key lies in \<open>[start, end)\<close> if and only if its keyspace, shard and table are the given ones.
\<close>

theorem table_bounds_exact:
  assumes "\<not> (table = - 1 \<and> shard = - 1)"
  shows "(case table_bounds ks shard table of (start, end') \<Rightarrow> start \<le> key ks' shard' t k \<and> key ks' shard' t k < end')
     \<longleftrightarrow> ks' = ks \<and> shard' = shard \<and> t = table"
  using assms table_bounds_low[of table] table_bounds_high[of shard]
  by (cases "table = - 1") (simp_all add: table_bounds_def shard_prefix_def)

theorem table_bounds_exact_witness:
  "(case table_bounds Room 7 255 of (start, end') \<Rightarrow> start \<le> key Room 7 255 ''k'' \<and> key Room 7 255 ''k'' < end') \<and>
   \<not> (case table_bounds Room 7 255 of (start, end') \<Rightarrow> start \<le> key Room 8 0 '''' \<and> key Room 8 0 '''' < end')"
  using table_bounds_exact[where table = 255 and shard = 7 and ks = Room and ks' = Room and shard' = 7 and t = 255 and k = "''k''"]
    table_bounds_exact[where table = 255 and shard = 7 and ks = Room and ks' = Room and shard' = 8 and t = 0 and k = "''''"]
  by simp

text \<open>
  For the last table of the last shard the upper bound wraps around in the release profile
  (the shard component is incremented without a check, unlike in \<open>shard_bounds\<close>), so the range is
  empty: no key of that table lies within its own bounds.
\<close>

theorem table_bounds_wraps:
  "\<not> (case table_bounds ks (- 1) (- 1) of (start, end') \<Rightarrow>
        start \<le> key ks (- 1) (- 1) k \<and> key ks (- 1) (- 1) k < end')"
proof -
  have "\<not> key ks (- 1) (- 1) k < shard_prefix ks 0"
    by (simp add: key_prefix prefix_le_append shard_prefix_less)
  then show ?thesis by (simp add: table_bounds_def shard_prefix_def)
qed

end
