(* ===== verification/Shard.thy ===== *)
theory Shard
  imports Store
begin

text \<open>
  Shards and the contexts their applications run in (\<open>saltator-shard\<close>: \<open>lib.rs\<close>, \<open>app.rs\<close>,
  \<open>read.rs\<close>). An application is a function from a context and a command to a response and the
  context it leaves; the state of a context is the engine it reads, the batch it stages, the
  sequence counter and the records emitted.
\<close>

section \<open>Identities\<close>

record shard_id =
  sid_keyspace :: keyspace
  sid_index :: u16

definition METADATA :: shard_id where
  "METADATA = \<lparr>sid_keyspace = Meta, sid_index = 0\<rparr>"

definition group :: "shard_id \<Rightarrow> u64" where
  "group s = or (push_bit 16 (of_nat (ks_byte (sid_keyspace s)))) (ucast (sid_index s))"

definition from_group :: "u64 \<Rightarrow> shard_id option" where
  "from_group g =
     (let index = ucast (and g 0xffff); ks = drop_bit 16 g in
      map_option (\<lambda>k. \<lparr>sid_keyspace = k, sid_index = index\<rparr>)
        (find (\<lambda>k. ks = of_nat (ks_byte k)) [Meta, Room, User, FedOut]))"

section \<open>Codecs\<close>

text \<open>
  The serialisation of a type (\<open>postcard\<close>, a third-party crate): a parameter of the definitions
  that store values. What is relied upon is that decoding inverts encoding.
\<close>

record 'a codec =
  enc :: "'a \<Rightarrow> bytes"
  dec :: "bytes \<Rightarrow> 'a option"

definition lossless :: "'a codec \<Rightarrow> bool" where
  "lossless c \<longleftrightarrow> (\<forall>x. dec c (enc c x) = Some x)"

lemma losslessD [simp]: "lossless c \<Longrightarrow> dec c (enc c x) = Some x"
  by (simp add: lossless_def)

datatype store_error = Engine string

definition decode_r :: "string \<Rightarrow> 'a codec \<Rightarrow> bytes \<Rightarrow> store_error + 'a" where
  "decode_r what c b = ok_or (Engine what) (dec c b)"

lemma decode_r_enc [simp]: "lossless c \<Longrightarrow> decode_r what c (enc c x) = Inr x"
  by (simp add: decode_r_def)

section \<open>The context of one application\<close>

definition APP_TABLE_MIN :: u8 where "APP_TABLE_MIN = 8"
definition T_SCHEMA :: u8 where "T_SCHEMA = APP_TABLE_MIN"
definition APP_TABLE_FIRST :: u8 where "APP_TABLE_FIRST = APP_TABLE_MIN + 1"

record apply_ctx =
  ctx_shard :: shard_id
  ctx_engine :: kv
  ctx_wb :: write_batch
  ctx_seq :: u64
  ctx_emits :: "(u64 \<times> bytes) list"

definition ctx_key :: "shard_id \<Rightarrow> u8 \<Rightarrow> bytes \<Rightarrow> bytes" where
  "ctx_key s table k = key (sid_keyspace s) (sid_index s) table k"

definition ctx_get :: "apply_ctx \<Rightarrow> u8 \<Rightarrow> bytes \<Rightarrow> bytes option" where
  "ctx_get ctx table k =
     (let full = ctx_key (ctx_shard ctx) table k in
      case staged (ctx_wb ctx) full of Some r \<Rightarrow> r | None \<Rightarrow> kv_get (ctx_engine ctx) full)"

definition end_key :: "shard_id \<Rightarrow> u8 \<Rightarrow> bytes \<Rightarrow> bytes" where
  "end_key s table e =
     (if e = [] then snd (table_bounds (sid_keyspace s) (sid_index s) table) else ctx_key s table e)"

definition strip_entries :: "nat \<Rightarrow> (bytes \<times> bytes) list \<Rightarrow> (bytes \<times> bytes) list" where
  "strip_entries prefix kvs = map (\<lambda>(k, v). (drop prefix k, v)) kvs"

definition ctx_range :: "apply_ctx \<Rightarrow> u8 \<Rightarrow> bytes \<Rightarrow> bytes \<Rightarrow> (bytes \<times> bytes) list" where
  "ctx_range ctx table start e =
     (let start_k = ctx_key (ctx_shard ctx) table start; prefix = length start_k - length start
      in strip_entries prefix (kv_range (ctx_engine ctx) start_k (end_key (ctx_shard ctx) table e)))"

definition ctx_put :: "u8 \<Rightarrow> bytes \<Rightarrow> bytes \<Rightarrow> apply_ctx \<Rightarrow> apply_ctx" where
  "ctx_put table k v ctx = ctx\<lparr>ctx_wb := wb_put (ctx_key (ctx_shard ctx) table k) v (ctx_wb ctx)\<rparr>"

definition ctx_delete :: "u8 \<Rightarrow> bytes \<Rightarrow> apply_ctx \<Rightarrow> apply_ctx" where
  "ctx_delete table k ctx = ctx\<lparr>ctx_wb := wb_delete (ctx_key (ctx_shard ctx) table k) (ctx_wb ctx)\<rparr>"

definition ctx_emit :: "bytes \<Rightarrow> apply_ctx \<Rightarrow> u64 \<times> apply_ctx" where
  "ctx_emit payload ctx =
     (let seq = ctx_seq ctx + 1 in (seq, ctx\<lparr>ctx_seq := seq, ctx_emits := ctx_emits ctx @ [(seq, payload)]\<rparr>))"

section \<open>Reads outside of an application\<close>

record read_ctx =
  rd_shard :: shard_id
  rd_engine :: kv

definition rd_get :: "read_ctx \<Rightarrow> u8 \<Rightarrow> bytes \<Rightarrow> bytes option" where
  "rd_get ctx table k = kv_get (rd_engine ctx) (ctx_key (rd_shard ctx) table k)"

definition rd_range :: "read_ctx \<Rightarrow> u8 \<Rightarrow> bytes \<Rightarrow> bytes \<Rightarrow> (bytes \<times> bytes) list" where
  "rd_range ctx table start e =
     (let start_k = ctx_key (rd_shard ctx) table start; prefix = length start_k - length start
      in strip_entries prefix (kv_range (rd_engine ctx) start_k (end_key (rd_shard ctx) table e)))"

definition rd_scan :: "read_ctx \<Rightarrow> u8 \<Rightarrow> bytes \<Rightarrow> bytes \<Rightarrow> nat \<Rightarrow> bool \<Rightarrow> (bytes \<times> bytes) list" where
  "rd_scan ctx table start e limit reverse =
     (let start_k = ctx_key (rd_shard ctx) table start; prefix = length start_k - length start
      in strip_entries prefix (kv_scan (rd_engine ctx) start_k (end_key (rd_shard ctx) table e) limit reverse))"

datatype read_op =
    ReadGet u8 bytes
  | ReadRange u8 bytes bytes
  | ReadScan u8 bytes bytes u32 bool
  | ReadSeq
  | ReadVoters

datatype read_value =
    Value "bytes option"
  | Entries "(bytes \<times> bytes) list"
  | Seq u64
  | Voters "u64 list"

datatype shard_error = ReservedTable u8 | VotersAtRpcLayer

definition table_of :: "u8 \<Rightarrow> shard_error + u8" where
  "table_of t = (if t < APP_TABLE_MIN then Inl (ReservedTable t) else Inr t)"

definition execute :: "read_ctx \<Rightarrow> u64 \<Rightarrow> read_op \<Rightarrow> shard_error + read_value" where
  "execute ctx seq op =
     (case op of
        ReadGet table k \<Rightarrow> rbind (table_of table) (\<lambda>t. Inr (Value (rd_get ctx t k)))
      | ReadRange table start e \<Rightarrow> rbind (table_of table) (\<lambda>t. Inr (Entries (rd_range ctx t start e)))
      | ReadScan table start e limit reverse \<Rightarrow>
          rbind (table_of table) (\<lambda>t. Inr (Entries (rd_scan ctx t start e (unat limit) reverse)))
      | ReadSeq \<Rightarrow> Inr (Seq seq)
      | ReadVoters \<Rightarrow> Inl VotersAtRpcLayer)"

section \<open>Facts on identities and contexts\<close>

lemma ffff_mask: "(0xffff :: u64) = mask 16"
  by (simp add: mask_eq_exp_minus_1)

lemma group_index: "ucast (and (group s) 0xffff) = sid_index s"
  unfolding group_def ffff_mask by (rule bit_word_eqI) (auto simp: bit_simps)

lemma group_keyspace: "drop_bit 16 (group s) = of_nat (ks_byte (sid_keyspace s))"
proof -
  have small: "(of_nat (ks_byte (sid_keyspace s)) :: u64) = take_bit 48 (of_nat (ks_byte (sid_keyspace s)))"
    by (cases "sid_keyspace s") simp_all
  show ?thesis unfolding group_def
    by (subst (2) small, rule bit_word_eqI) (auto simp: bit_simps dest: bit_imp_le_length)
qed

lemma group_split: "g = or (push_bit 16 (drop_bit 16 g)) (ucast (ucast (and g 0xffff) :: u16))" for g :: u64
  unfolding ffff_mask by (rule bit_word_eqI) (auto simp: bit_simps, metis le_add_diff_inverse linorder_not_less)

lemma find_keyspace:
  "find (\<lambda>k. x = (of_nat (ks_byte k) :: u64)) [Meta, Room, User, FedOut] = Some k \<longleftrightarrow> x = of_nat (ks_byte k)"
  by (cases k) auto

lemma from_group_group [simp]: "from_group (group s) = Some s"
  unfolding from_group_def Let_def using find_keyspace[of "drop_bit 16 (group s)" "sid_keyspace s"]
  by (simp add: group_index group_keyspace)

lemma group_inject: "group s = group t \<longleftrightarrow> s = t"
  by (metis from_group_group option.inject)

text \<open>
  Group numbers and shard identities correspond exactly: reading a group number back gives a
  shard if and only if it is that shard's group number, so distinct shards never share a Raft group
  and numbers of no known keyspace are refused.
\<close>

theorem from_group_exact: "from_group g = Some s \<longleftrightarrow> group s = g"
proof
  assume "from_group g = Some s"
  then have "drop_bit 16 g = of_nat (ks_byte (sid_keyspace s))" "sid_index s = ucast (and g 0xffff)"
    unfolding from_group_def Let_def map_option_eq_Some find_keyspace by auto
  then show "group s = g" using group_split[of g] by (simp add: group_def)
qed auto

section \<open>Applications\<close>

text \<open>
  What an application can do to its context: stage writes to tables at or above
  \<open>APP_TABLE_MIN\<close> of its own shard, and emit records.
\<close>

inductive ctx_step :: "apply_ctx \<Rightarrow> apply_ctx \<Rightarrow> bool" where
  put: "APP_TABLE_MIN \<le> table \<Longrightarrow> ctx_step ctx (ctx_put table k v ctx)"
| delete: "APP_TABLE_MIN \<le> table \<Longrightarrow> ctx_step ctx (ctx_delete table k ctx)"
| emit: "ctx_step ctx (snd (ctx_emit payload ctx))"

inductive_cases ctx_stepE: "ctx_step ctx ctx'"

abbreviation ctx_steps :: "apply_ctx \<Rightarrow> apply_ctx \<Rightarrow> bool" where
  "ctx_steps \<equiv> ctx_step\<^sup>*\<^sup>*"

record app =
  app_apply :: "apply_ctx \<Rightarrow> bytes \<Rightarrow> store_error + bytes \<times> apply_ctx"
  app_schema_version :: u32
  app_migrate :: "apply_ctx \<Rightarrow> u32 \<Rightarrow> store_error + apply_ctx"

text \<open>The operations a batch entry touches, and the invariant of a context relative to its start.\<close>

fun op_within :: "(bytes \<Rightarrow> bool) \<Rightarrow> batch_op \<Rightarrow> bool" where
  "op_within P (Put k v) = P k"
| "op_within P (Delete k) = P k"
| "op_within P (DeleteRange s e) = (\<forall>k. s \<le> k \<and> k < e \<longrightarrow> P k)"

definition app_key :: "shard_id \<Rightarrow> bytes \<Rightarrow> bool" where
  "app_key s full \<longleftrightarrow> (\<exists>table k. APP_TABLE_MIN \<le> table \<and> full = ctx_key s table k)"

fun consecutive :: "u64 \<Rightarrow> (u64 \<times> bytes) list \<Rightarrow> bool" where
  "consecutive seq [] = True"
| "consecutive seq ((q, _) # emits) = (q = seq + 1 \<and> consecutive (seq + 1) emits)"

definition ctx_extends :: "apply_ctx \<Rightarrow> apply_ctx \<Rightarrow> bool" where
  "ctx_extends c c' \<longleftrightarrow> ctx_shard c' = ctx_shard c \<and> ctx_engine c' = ctx_engine c \<and>
     (\<exists>ops. ctx_wb c' = ctx_wb c @ ops \<and> (\<forall>b \<in> set ops. op_within (app_key (ctx_shard c)) b)) \<and>
     (\<exists>new. ctx_emits c' = ctx_emits c @ new \<and> consecutive (ctx_seq c) new \<and>
            ctx_seq c' = ctx_seq c + of_nat (length new))"

lemma consecutive_append:
  "consecutive s xs \<Longrightarrow> consecutive (s + of_nat (length xs)) ys \<Longrightarrow> consecutive s (xs @ ys)"
  by (induction xs arbitrary: s) (auto simp: add.assoc)

lemma ctx_extends_refl [simp]: "ctx_extends c c"
  by (simp add: ctx_extends_def)

lemma ctx_extends_trans:
  assumes "ctx_extends a b" and "ctx_extends b c"
  shows "ctx_extends a c"
proof -
  from assms(1) obtain o1 n1 where 1: "ctx_wb b = ctx_wb a @ o1" "\<forall>x \<in> set o1. op_within (app_key (ctx_shard a)) x"
    "ctx_emits b = ctx_emits a @ n1" "consecutive (ctx_seq a) n1" "ctx_seq b = ctx_seq a + of_nat (length n1)"
    "ctx_shard b = ctx_shard a" "ctx_engine b = ctx_engine a" by (auto simp: ctx_extends_def)
  from assms(2) 1(6) obtain o2 n2 where 2: "ctx_wb c = ctx_wb b @ o2" "\<forall>x \<in> set o2. op_within (app_key (ctx_shard a)) x"
    "ctx_emits c = ctx_emits b @ n2" "consecutive (ctx_seq b) n2" "ctx_seq c = ctx_seq b + of_nat (length n2)"
    "ctx_shard c = ctx_shard b" "ctx_engine c = ctx_engine b" by (auto simp: ctx_extends_def)
  have "consecutive (ctx_seq a) (n1 @ n2)" using consecutive_append[OF 1(4)] 2(4) 1(5) by simp
  then show ?thesis unfolding ctx_extends_def using 1 2
    by (intro conjI exI[of _ "o1 @ o2"] exI[of _ "n1 @ n2"]) (auto simp: add.assoc)
qed

lemma ctx_step_extends: "ctx_step c c' \<Longrightarrow> ctx_extends c c'"
proof (induction rule: ctx_step.induct)
  case (put table ctx k v)
  then show ?case by (auto simp: ctx_extends_def ctx_put_def wb_put_def app_key_def)
next
  case (delete table ctx k)
  then show ?case by (auto simp: ctx_extends_def ctx_delete_def wb_delete_def app_key_def)
next
  case (emit ctx payload)
  then show ?case by (auto simp: ctx_extends_def ctx_emit_def Let_def)
qed

lemma ctx_steps_extends: "ctx_steps c c' \<Longrightarrow> ctx_extends c c'"
  by (induction rule: rtranclp_induct) (auto intro: ctx_extends_trans ctx_step_extends)

text \<open>
  The interface an application offers to the runtime: it goes through the operations of the
  context, which is what Rust's privacy gives, and keeps off the runtime's tables.
\<close>

locale shard_app =
  fixes A :: app
  assumes apply_steps: "app_apply A ctx cmd = Inr (r, ctx') \<Longrightarrow> ctx_steps ctx ctx'"
    and migrate_steps: "app_migrate A ctx to = Inr ctx' \<Longrightarrow> ctx_steps ctx ctx'"
begin

lemma apply_extends: "app_apply A ctx cmd = Inr (r, ctx') \<Longrightarrow> ctx_extends ctx ctx'"
  using apply_steps ctx_steps_extends by blast

lemma migrate_extends: "app_migrate A ctx to = Inr ctx' \<Longrightarrow> ctx_extends ctx ctx'"
  using migrate_steps ctx_steps_extends by blast

end

text \<open>Reads of a context after its own writes.\<close>

lemma ctx_key_inject [simp]: "ctx_key s t k = ctx_key s t' k' \<longleftrightarrow> t = t' \<and> k = k'"
  by (simp add: ctx_key_def)

lemma ctx_get_put [simp]:
  "ctx_get (ctx_put t k v ctx) t' k' = (if t' = t \<and> k' = k then Some v else ctx_get ctx t' k')"
  by (auto simp: ctx_get_def ctx_put_def wb_put_def staged_def staged_op_def Let_def split: option.split)

lemma ctx_get_delete [simp]:
  "ctx_get (ctx_delete t k ctx) t' k' = (if t' = t \<and> k' = k then None else ctx_get ctx t' k')"
  by (auto simp: ctx_get_def ctx_delete_def wb_delete_def staged_def staged_op_def Let_def split: option.split)

lemma ctx_get_emit [simp]: "ctx_get (snd (ctx_emit p ctx)) t k = ctx_get ctx t k"
  by (simp add: ctx_get_def ctx_emit_def Let_def split: option.split)

lemma ctx_shard_simps [simp]:
  "ctx_shard (ctx_put t k v ctx) = ctx_shard ctx" "ctx_shard (ctx_delete t k ctx) = ctx_shard ctx"
  "ctx_shard (snd (ctx_emit p ctx)) = ctx_shard ctx"
  by (simp_all add: ctx_put_def ctx_delete_def ctx_emit_def Let_def)

lemma ctx_engine_simps [simp]:
  "ctx_engine (ctx_put t k v ctx) = ctx_engine ctx" "ctx_engine (ctx_delete t k ctx) = ctx_engine ctx"
  "ctx_engine (snd (ctx_emit p ctx)) = ctx_engine ctx"
  by (simp_all add: ctx_put_def ctx_delete_def ctx_emit_def Let_def)

lemma ctx_seq_simps [simp]:
  "ctx_seq (ctx_put t k v ctx) = ctx_seq ctx" "ctx_seq (ctx_delete t k ctx) = ctx_seq ctx"
  "ctx_emits (ctx_put t k v ctx) = ctx_emits ctx" "ctx_emits (ctx_delete t k ctx) = ctx_emits ctx"
  "ctx_seq (snd (ctx_emit p ctx)) = ctx_seq ctx + 1" "fst (ctx_emit p ctx) = ctx_seq ctx + 1"
  "ctx_emits (snd (ctx_emit p ctx)) = ctx_emits ctx @ [(ctx_seq ctx + 1, p)]"
  by (simp_all add: ctx_put_def ctx_delete_def ctx_emit_def Let_def)

text \<open>The engine contents once the staged batch of a context is applied.\<close>

definition committed :: "apply_ctx \<Rightarrow> kv" where
  "committed ctx = kv_write_batch (ctx_engine ctx) (ctx_wb ctx)"

lemma committed_get:
  "bt_wf (ctx_engine ctx) \<Longrightarrow> kv_get (committed ctx) (ctx_key (ctx_shard ctx) t k) = ctx_get ctx t k"
  unfolding committed_def ctx_get_def Let_def by (rule rocks.read_write)

end
