(* ===== verification/Shard_Runtime.thy ===== *)
theory Shard_Runtime
  imports Shard
begin

text \<open>
  The shard runtime (\<open>storage.rs\<close> of \<open>saltator-shard\<close>): the Raft log kept in the engine, and the
  generic state machine that applies committed entries, migrates the schema, and builds and
  installs snapshots. Types of \<open>openraft\<close> are type variables: \<open>'l\<close> log ids, \<open>'m\<close> memberships,
  \<open>'v\<close> votes; the record \<open>raft_types\<close> holds what the code uses of them and the codecs.
\<close>

definition T_LOG :: u8 where "T_LOG = 0"
definition T_RAFT :: u8 where "T_RAFT = 1"
definition T_SM_META :: u8 where "T_SM_META = 2"

definition K_VOTE :: bytes where "K_VOTE = ''vote''"
definition K_COMMITTED :: bytes where "K_COMMITTED = ''committed''"
definition K_LAST_PURGED :: bytes where "K_LAST_PURGED = ''last_purged''"
definition K_LAST_APPLIED :: bytes where "K_LAST_APPLIED = ''last_applied''"
definition K_MEMBERSHIP :: bytes where "K_MEMBERSHIP = ''membership''"
definition K_SNAPSHOT :: bytes where "K_SNAPSHOT = ''snapshot''"
definition K_SNAPSHOT_SEQ :: bytes where "K_SNAPSHOT_SEQ = ''snapshot_seq''"
definition K_SEQ :: bytes where "K_SEQ = ''seq''"
definition K_SCHEMA_VERSION :: bytes where "K_SCHEMA_VERSION = ''version''"
definition RUNTIME_CMD_PREFIX :: char where "RUNTIME_CMD_PREFIX = byte 255"

lemmas cell_names = K_VOTE_def K_COMMITTED_def K_LAST_PURGED_def K_LAST_APPLIED_def K_MEMBERSHIP_def
  K_SNAPSHOT_def K_SNAPSHOT_SEQ_def K_SEQ_def

datatype runtime_command = Migrate u32

datatype runtime_response = RuntimeOk | RuntimeRejected string

datatype 'm payload = Blank | Normal bytes | Membership 'm

record ('l, 'm) entry =
  entry_log_id :: 'l
  entry_payload :: "'m payload"

type_synonym ('l, 'm) stored_membership = "'l option \<times> 'm"

record ('l, 'm) snapshot_content =
  sc_last_applied :: "'l option"
  sc_membership :: "('l, 'm) stored_membership"
  sc_seq :: u64
  sc_kv :: "(bytes \<times> bytes) list"

record ('l, 'm) snapshot_meta =
  sm_last_log_id :: "'l option"
  sm_last_membership :: "('l, 'm) stored_membership"
  sm_snapshot_id :: string

record ('l, 'm) stored_snapshot =
  ss_meta :: "('l, 'm) snapshot_meta"
  ss_data :: bytes

record ('l, 'm, 'v) raft_types =
  c_u32 :: "u32 codec"
  c_u64 :: "u64 codec"
  c_vote :: "'v codec"
  c_log_id :: "'l option codec"
  c_entry :: "('l, 'm) entry codec"
  c_membership :: "('l, 'm) stored_membership codec"
  c_command :: "runtime_command codec"
  c_response :: "runtime_response codec"
  c_content :: "('l, 'm) snapshot_content codec"
  c_snapshot :: "('l, 'm) stored_snapshot codec"
  log_index :: "'l \<Rightarrow> u64"
  leader_str :: "'l \<Rightarrow> string"
  default_membership :: "('l, 'm) stored_membership"

datatype storage_error = ReadError | WriteError store_error

definition decode_s :: "'a codec \<Rightarrow> bytes \<Rightarrow> storage_error + 'a" where
  "decode_s c b = ok_or ReadError (dec c b)"

definition get_cell :: "kv \<Rightarrow> bytes \<Rightarrow> 'a codec \<Rightarrow> storage_error + 'a option" where
  "get_cell db k c =
     (case kv_get db k of
        Some b \<Rightarrow> rbind (decode_s c b) (\<lambda>x. Inr (Some x))
      | None \<Rightarrow> Inr None)"

fun flatten_opt :: "'a option option \<Rightarrow> 'a option" where
  "flatten_opt (Some x) = x"
| "flatten_opt None = None"

definition stored_schema_version :: "u32 codec \<Rightarrow> kv \<Rightarrow> shard_id \<Rightarrow> store_error + u32" where
  "stored_schema_version c db s =
     (case kv_get db (ctx_key s T_SCHEMA K_SCHEMA_VERSION) of
        Some b \<Rightarrow> decode_r ''schema cell'' c b
      | None \<Rightarrow> Inr 1)"

definition read_seq :: "u64 codec \<Rightarrow> kv \<Rightarrow> shard_id \<Rightarrow> store_error + u64" where
  "read_seq c db s =
     (case kv_get db (ctx_key s T_SM_META K_SEQ) of
        Some b \<Rightarrow> decode_r ''seq decode'' c b
      | None \<Rightarrow> Inr 0)"

definition app_bounds :: "shard_id \<Rightarrow> bytes \<times> bytes" where
  "app_bounds s = (ctx_key s APP_TABLE_MIN [], snd (shard_bounds (sid_keyspace s) (sid_index s)))"

section \<open>The Raft log\<close>

definition log_key :: "shard_id \<Rightarrow> u64 \<Rightarrow> bytes" where
  "log_key s index = ctx_key s T_LOG (u64_be index)"

definition raft_key :: "shard_id \<Rightarrow> bytes \<Rightarrow> bytes" where
  "raft_key s k = ctx_key s T_RAFT k"

definition log_bounds :: "shard_id \<Rightarrow> bytes \<times> bytes" where
  "log_bounds s = table_bounds (sid_keyspace s) (sid_index s) T_LOG"

definition last_log_id :: "('l, 'm, 'v) raft_types \<Rightarrow> shard_id \<Rightarrow> kv \<Rightarrow> storage_error + 'l option" where
  "last_log_id T s db =
     (case log_bounds s of (start, e) \<Rightarrow>
        (case kv_last_in_range db start e of
           Some (_, v) \<Rightarrow> rbind (decode_s (c_entry T) v) (\<lambda>entry. Inr (Some (entry_log_id entry)))
         | None \<Rightarrow> Inr None))"

datatype bound = Included u64 | Excluded u64 | Unbounded

definition try_get_log_entries ::
  "('l, 'm, 'v) raft_types \<Rightarrow> shard_id \<Rightarrow> kv \<Rightarrow> bound \<Rightarrow> bound \<Rightarrow> storage_error + ('l, 'm) entry list" where
  "try_get_log_entries T s db lo hi =
     (let start = (case lo of Included i \<Rightarrow> i | Excluded i \<Rightarrow> i + 1 | Unbounded \<Rightarrow> 0);
          e = (case hi of Included i \<Rightarrow> i + 1 | Excluded i \<Rightarrow> i | Unbounded \<Rightarrow> - 1);
          e_key = (if e = - 1 then snd (log_bounds s) else log_key s e);
          raw = kv_range db (log_key s start) e_key
      in fold_r (\<lambda>(_, v) acc. rbind (decode_s (c_entry T) v) (\<lambda>x. Inr (acc @ [x]))) raw [])"

definition get_log_state :: "('l, 'm, 'v) raft_types \<Rightarrow> shard_id \<Rightarrow> kv \<Rightarrow> storage_error + 'l option \<times> 'l option" where
  "get_log_state T s db =
     rbind (get_cell db (raft_key s K_LAST_PURGED) (c_log_id T)) (\<lambda>p.
       let last_purged = flatten_opt p in
       rbind (last_log_id T s db) (\<lambda>l.
         Inr (last_purged, case l of Some x \<Rightarrow> Some x | None \<Rightarrow> last_purged)))"

definition save_vote :: "('l, 'm, 'v) raft_types \<Rightarrow> shard_id \<Rightarrow> 'v \<Rightarrow> kv \<Rightarrow> kv" where
  "save_vote T s vote db = kv_put db (raft_key s K_VOTE) (enc (c_vote T) vote)"

definition read_vote :: "('l, 'm, 'v) raft_types \<Rightarrow> shard_id \<Rightarrow> kv \<Rightarrow> storage_error + 'v option" where
  "read_vote T s db = get_cell db (raft_key s K_VOTE) (c_vote T)"

definition save_committed :: "('l, 'm, 'v) raft_types \<Rightarrow> shard_id \<Rightarrow> 'l option \<Rightarrow> kv \<Rightarrow> kv" where
  "save_committed T s committed_id db = kv_put db (raft_key s K_COMMITTED) (enc (c_log_id T) committed_id)"

definition read_committed :: "('l, 'm, 'v) raft_types \<Rightarrow> shard_id \<Rightarrow> kv \<Rightarrow> storage_error + 'l option" where
  "read_committed T s db =
     rbind (get_cell db (raft_key s K_COMMITTED) (c_log_id T)) (\<lambda>c. Inr (flatten_opt c))"

definition log_append :: "('l, 'm, 'v) raft_types \<Rightarrow> shard_id \<Rightarrow> ('l, 'm) entry list \<Rightarrow> kv \<Rightarrow> kv" where
  "log_append T s entries db =
     kv_write_batch db
       (fold (\<lambda>e. wb_put (log_key s (log_index T (entry_log_id e))) (enc (c_entry T) e)) entries [])"

definition log_truncate :: "('l, 'm, 'v) raft_types \<Rightarrow> shard_id \<Rightarrow> 'l \<Rightarrow> kv \<Rightarrow> kv" where
  "log_truncate T s l db =
     kv_write_batch db (wb_delete_range (log_key s (log_index T l)) (snd (log_bounds s)) [])"

definition log_purge :: "('l, 'm, 'v) raft_types \<Rightarrow> shard_id \<Rightarrow> 'l \<Rightarrow> kv \<Rightarrow> kv" where
  "log_purge T s l db =
     kv_write_batch db
       (wb_delete_range (fst (log_bounds s)) (log_key s (log_index T l + 1))
         (wb_put (raft_key s K_LAST_PURGED) (enc (c_log_id T) (Some l)) []))"

section \<open>The state machine\<close>

definition sm_meta_key :: "shard_id \<Rightarrow> bytes \<Rightarrow> bytes" where
  "sm_meta_key s k = ctx_key s T_SM_META k"

definition last_applied :: "('l, 'm, 'v) raft_types \<Rightarrow> shard_id \<Rightarrow> kv \<Rightarrow> storage_error + 'l option" where
  "last_applied T s db =
     rbind (get_cell db (sm_meta_key s K_LAST_APPLIED) (c_log_id T)) (\<lambda>c. Inr (flatten_opt c))"

definition sm_seq :: "('l, 'm, 'v) raft_types \<Rightarrow> shard_id \<Rightarrow> kv \<Rightarrow> storage_error + u64" where
  "sm_seq T s db =
     rbind (get_cell db (sm_meta_key s K_SEQ) (c_u64 T)) (\<lambda>c. Inr (case c of Some q \<Rightarrow> q | None \<Rightarrow> 0))"

definition sm_membership ::
  "('l, 'm, 'v) raft_types \<Rightarrow> shard_id \<Rightarrow> kv \<Rightarrow> storage_error + ('l, 'm) stored_membership" where
  "sm_membership T s db =
     rbind (get_cell db (sm_meta_key s K_MEMBERSHIP) (c_membership T)) (\<lambda>c.
       Inr (case c of Some m \<Rightarrow> m | None \<Rightarrow> default_membership T))"

definition next_snapshot_seq :: "('l, 'm, 'v) raft_types \<Rightarrow> shard_id \<Rightarrow> kv \<Rightarrow> storage_error + u64 \<times> kv" where
  "next_snapshot_seq T s db =
     rbind (get_cell db (sm_meta_key s K_SNAPSHOT_SEQ) (c_u64 T)) (\<lambda>c.
       let seq = (case c of Some q \<Rightarrow> q | None \<Rightarrow> 0) + 1 in
       Inr (seq, kv_put db (sm_meta_key s K_SNAPSHOT_SEQ) (enc (c_u64 T) seq)))"

definition apply_runtime ::
  "('l, 'm, 'v) raft_types \<Rightarrow> app \<Rightarrow> apply_ctx \<Rightarrow> bytes \<Rightarrow> store_error + bytes \<times> apply_ctx" where
  "apply_runtime T A ctx cmd =
     (case dec (c_command T) cmd of
        None \<Rightarrow> Inr (enc (c_response T) (RuntimeRejected ''undecodable''), ctx)
      | Some (Migrate to) \<Rightarrow>
          rbind (case ctx_get ctx T_SCHEMA K_SCHEMA_VERSION of
                   Some b \<Rightarrow> decode_r ''schema cell'' (c_u32 T) b
                 | None \<Rightarrow> Inr 1) (\<lambda>current.
            if to \<noteq> current + 1
            then Inr (enc (c_response T) (RuntimeRejected ''migration step''), ctx)
            else if to > app_schema_version A
            then Inr (enc (c_response T) (RuntimeRejected ''binary too old''), ctx)
            else rbind (app_migrate A ctx to) (\<lambda>ctx'.
              Inr (enc (c_response T) RuntimeOk, ctx_put T_SCHEMA K_SCHEMA_VERSION (enc (c_u32 T) to) ctx'))))"

definition apply_command ::
  "('l, 'm, 'v) raft_types \<Rightarrow> app \<Rightarrow> apply_ctx \<Rightarrow> bytes \<Rightarrow> store_error + bytes \<times> apply_ctx" where
  "apply_command T A ctx cmd =
     (case cmd of
        c # rest \<Rightarrow> if c = RUNTIME_CMD_PREFIX then apply_runtime T A ctx rest else app_apply A ctx cmd
      | [] \<Rightarrow> app_apply A ctx cmd)"

definition apply_entry ::
  "('l, 'm, 'v) raft_types \<Rightarrow> app \<Rightarrow> ('l, 'm) entry \<Rightarrow> bytes list \<times> apply_ctx
     \<Rightarrow> storage_error + bytes list \<times> apply_ctx" where
  "apply_entry T A entry = (\<lambda>(responses, ctx).
     (case entry_payload entry of
        Blank \<Rightarrow> Inr (responses @ [[]], ctx)
      | Normal cmd \<Rightarrow>
          (case apply_command T A ctx cmd of
             Inl e \<Rightarrow> Inl (WriteError e)
           | Inr (response, ctx') \<Rightarrow> Inr (responses @ [response], ctx'))
      | Membership m \<Rightarrow>
          Inr (responses @ [[]],
               ctx\<lparr>ctx_wb := wb_put (sm_meta_key (ctx_shard ctx) K_MEMBERSHIP)
                              (enc (c_membership T) (Some (entry_log_id entry), m)) (ctx_wb ctx)\<rparr>)))"

text \<open>
  One call of \<open>apply\<close>: the responses, the engine after the batch, and the records published.
\<close>

definition sm_apply ::
  "('l, 'm, 'v) raft_types \<Rightarrow> app \<Rightarrow> shard_id \<Rightarrow> ('l, 'm) entry list \<Rightarrow> kv
     \<Rightarrow> storage_error + bytes list \<times> kv \<times> (u64 \<times> bytes) list" where
  "sm_apply T A s entries db =
     rbind (sm_seq T s db) (\<lambda>seq0.
     rbind (fold_r (apply_entry T A) entries
              ([], \<lparr>ctx_shard = s, ctx_engine = db, ctx_wb = [], ctx_seq = seq0, ctx_emits = []\<rparr>)) (\<lambda>(responses, ctx).
       let wb1 = (if entries = [] then ctx_wb ctx
                  else wb_put (sm_meta_key s K_LAST_APPLIED) (enc (c_log_id T) (Some (entry_log_id (last entries)))) (ctx_wb ctx));
           wb2 = (if ctx_seq ctx \<noteq> seq0 then wb_put (sm_meta_key s K_SEQ) (enc (c_u64 T) (ctx_seq ctx)) wb1 else wb1)
       in Inr (responses, kv_write_batch db wb2, ctx_emits ctx)))"

section \<open>Snapshots\<close>

fun nat_str :: "nat \<Rightarrow> string" where
  "nat_str n = (if n < 10 then [byte (48 + n)] else nat_str (n div 10) @ [byte (48 + n mod 10)])"

declare nat_str.simps [simp del]

definition snapshot_name :: "('l, 'm, 'v) raft_types \<Rightarrow> 'l option \<Rightarrow> u64 \<Rightarrow> string" where
  "snapshot_name T l snap_seq =
     (case l of
        Some x \<Rightarrow> leader_str T x @ ''-'' @ nat_str (unat (log_index T x)) @ ''-'' @ nat_str (unat snap_seq)
      | None \<Rightarrow> ''none-'' @ nat_str (unat snap_seq))"

definition build_snapshot ::
  "('l, 'm, 'v) raft_types \<Rightarrow> shard_id \<Rightarrow> kv \<Rightarrow> storage_error + ('l, 'm) snapshot_meta \<times> bytes \<times> kv" where
  "build_snapshot T s db =
     rbind (last_applied T s db) (\<lambda>la.
     rbind (sm_membership T s db) (\<lambda>mem.
     rbind (sm_seq T s db) (\<lambda>seq.
       let app_kv = strip_entries 3 (kv_range db (fst (app_bounds s)) (snd (app_bounds s)));
           data = enc (c_content T) \<lparr>sc_last_applied = la, sc_membership = mem, sc_seq = seq, sc_kv = app_kv\<rparr>
       in rbind (next_snapshot_seq T s db) (\<lambda>(snap_seq, db1).
            let meta = \<lparr>sm_last_log_id = la, sm_last_membership = mem, sm_snapshot_id = snapshot_name T la snap_seq\<rparr>
            in Inr (meta, data,
                 kv_put db1 (sm_meta_key s K_SNAPSHOT) (enc (c_snapshot T) \<lparr>ss_meta = meta, ss_data = data\<rparr>))))))"

definition install_snapshot ::
  "('l, 'm, 'v) raft_types \<Rightarrow> shard_id \<Rightarrow> ('l, 'm) snapshot_meta \<Rightarrow> bytes \<Rightarrow> kv \<Rightarrow> storage_error + kv" where
  "install_snapshot T s meta data db =
     rbind (decode_s (c_content T) data) (\<lambda>content.
       let wb1 = wb_delete_range (fst (app_bounds s)) (snd (app_bounds s)) [];
           prefix = take 3 (ctx_key s 0 []);
           wb2 = fold (\<lambda>(k, v). wb_put (prefix @ k) v) (sc_kv content) wb1;
           wb3 = wb_put (sm_meta_key s K_SEQ) (enc (c_u64 T) (sc_seq content)) wb2;
           wb4 = wb_put (sm_meta_key s K_LAST_APPLIED) (enc (c_log_id T) (sm_last_log_id meta)) wb3;
           wb5 = wb_put (sm_meta_key s K_MEMBERSHIP) (enc (c_membership T) (sm_last_membership meta)) wb4;
           wb6 = wb_put (sm_meta_key s K_SNAPSHOT) (enc (c_snapshot T) \<lparr>ss_meta = meta, ss_data = data\<rparr>) wb5
       in Inr (kv_write_batch db wb6))"

definition get_current_snapshot ::
  "('l, 'm, 'v) raft_types \<Rightarrow> shard_id \<Rightarrow> kv \<Rightarrow> storage_error + (('l, 'm) snapshot_meta \<times> bytes) option" where
  "get_current_snapshot T s db =
     rbind (get_cell db (sm_meta_key s K_SNAPSHOT) (c_snapshot T)) (\<lambda>c.
       Inr (map_option (\<lambda>x. (ss_meta x, ss_data x)) c))"

end
