(* ===== verification/Shard_Facts.thy ===== *)
theory Shard_Facts
  imports Shard_Runtime
begin

text \<open>
  Correctness of the shard runtime: what one \<open>apply\<close> call touches and publishes, schema
  migrations, the Raft log as a map from indices to entries, and the transfer of a shard by snapshot.
\<close>

section \<open>Batches and the keys they touch\<close>

lemma batch_untouched:
  assumes "bt_wf db" and "\<forall>b \<in> set ops. op_within P b" and "\<not> P k"
  shows "kv_get (kv_write_batch db ops) k = kv_get db k"
proof -
  have "staged ops k = None" using assms(2)
  proof (induction ops rule: rev_induct)
    case (snoc b ops)
    then show ?case using assms(3) by (cases b) (auto simp: staged_def staged_op_def)
  qed (simp add: staged_def)
  then show ?thesis using rocks.read_write[OF assms(1), of ops k] by simp
qed

lemma op_within_mono: "(\<And>k. P k \<Longrightarrow> Q k) \<Longrightarrow> op_within P b \<Longrightarrow> op_within Q b"
  by (cases b) auto

lemma kv_get_wb_put:
  assumes "bt_wf db"
  shows "kv_get (kv_write_batch db (wb_put k v ops)) k' = (if k' = k then Some v else kv_get (kv_write_batch db ops) k')"
  by (simp add: wb_put_def kv_write_batch_def kv_put_def kv_get_def)

definition meta_key :: "shard_id \<Rightarrow> bytes \<Rightarrow> bool" where
  "meta_key s full \<longleftrightarrow> (\<exists>k. full = ctx_key s T_SM_META k)"

lemma table_numbers [simp]: "APP_TABLE_MIN = 8" "T_SCHEMA = 8" "APP_TABLE_FIRST = 9" "T_LOG = 0" "T_RAFT = 1" "T_SM_META = 2"
  by (simp_all add: APP_TABLE_MIN_def T_SCHEMA_def APP_TABLE_FIRST_def T_LOG_def T_RAFT_def T_SM_META_def)

lemma meta_not_app [simp]: "\<not> app_key s (sm_meta_key s' k)"
  by (auto simp: app_key_def sm_meta_key_def ctx_key_def)

section \<open>One application\<close>

lemma apply_runtime_extends:
  assumes "shard_app A" and "apply_runtime T A ctx cmd = Inr (r, ctx')"
  shows "ctx_extends ctx ctx'"
proof (cases "dec (c_command T) cmd")
  case None
  then show ?thesis using assms(2) by (auto simp: apply_runtime_def)
next
  case (Some c)
  obtain to where c: "c = Migrate to" by (cases c)
  from assms(2) Some c consider "ctx' = ctx" | m where "app_migrate A ctx to = Inr m"
      "ctx' = ctx_put T_SCHEMA K_SCHEMA_VERSION (enc (c_u32 T) to) m"
    by (auto simp: apply_runtime_def split: if_splits)
  then show ?thesis
  proof cases
    case 2
    have "ctx_step m ctx'" unfolding 2(2) by (rule ctx_step.put) simp
    with shard_app.migrate_extends[OF assms(1) 2(1)] show ?thesis
      using ctx_extends_trans ctx_step_extends by blast
  qed simp
qed

lemma apply_command_extends:
  assumes "shard_app A" and "apply_command T A ctx cmd = Inr (r, ctx')"
  shows "ctx_extends ctx ctx'"
  using assms apply_runtime_extends[OF assms(1)] shard_app.apply_extends[OF assms(1)]
  by (auto simp: apply_command_def split: list.splits if_splits)

text \<open>The contexts within one call, from the empty batch on.\<close>

definition run_inv :: "shard_id \<Rightarrow> kv \<Rightarrow> u64 \<Rightarrow> nat \<Rightarrow> bytes list \<times> apply_ctx \<Rightarrow> bool" where
  "run_inv s db seq0 n = (\<lambda>(rs, ctx). length rs = n \<and> ctx_shard ctx = s \<and> ctx_engine ctx = db \<and>
     (\<forall>b \<in> set (ctx_wb ctx). op_within (\<lambda>k. app_key s k \<or> k = sm_meta_key s K_MEMBERSHIP) b) \<and>
     consecutive seq0 (ctx_emits ctx) \<and> ctx_seq ctx = seq0 + of_nat (length (ctx_emits ctx)))"

lemma run_inv_step:
  assumes app: "shard_app A" and inv: "run_inv s db seq0 n (rs, ctx)" and step: "apply_entry T A e (rs, ctx) = Inr (rs', ctx')"
  shows "run_inv s db seq0 (Suc n) (rs', ctx')"
proof (cases "entry_payload e")
  case Blank
  then show ?thesis using inv step by (auto simp: apply_entry_def run_inv_def)
next
  case (Normal cmd)
  then obtain r where r: "apply_command T A ctx cmd = Inr (r, ctx')" "rs' = rs @ [r]"
    using step by (auto simp: apply_entry_def split: sum.splits)
  from apply_command_extends[OF app r(1)] obtain ops new where x: "ctx_shard ctx' = ctx_shard ctx" "ctx_engine ctx' = ctx_engine ctx"
    "ctx_wb ctx' = ctx_wb ctx @ ops" "\<forall>b \<in> set ops. op_within (app_key (ctx_shard ctx)) b"
    "ctx_emits ctx' = ctx_emits ctx @ new" "consecutive (ctx_seq ctx) new" "ctx_seq ctx' = ctx_seq ctx + of_nat (length new)"
    by (auto simp: ctx_extends_def)
  have sh: "ctx_shard ctx = s" and cs: "consecutive seq0 (ctx_emits ctx)" "ctx_seq ctx = seq0 + of_nat (length (ctx_emits ctx))"
    using inv by (auto simp: run_inv_def)
  have "op_within (\<lambda>k. app_key s k \<or> k = sm_meta_key s K_MEMBERSHIP) b" if "b \<in> set ops" for b
    using x(4) that sh by (auto intro: op_within_mono[of "app_key s"])
  moreover have "consecutive seq0 (ctx_emits ctx @ new)" using consecutive_append[OF cs(1)] x(6) cs(2) by simp
  ultimately show ?thesis using inv x r(2) cs by (auto simp: run_inv_def)
next
  case (Membership m)
  then show ?thesis using inv step by (auto simp: apply_entry_def run_inv_def wb_put_def)
qed

lemma run_inv_fold:
  assumes app: "shard_app A" and "run_inv s db seq0 n st" and "fold_r (apply_entry T A) es st = Inr st'"
  shows "run_inv s db seq0 (n + length es) st'"
  using assms(2,3)
proof (induction es arbitrary: n st)
  case (Cons e es)
  then obtain st1 where st1: "apply_entry T A e st = Inr st1" "fold_r (apply_entry T A) es st1 = Inr st'" by auto
  have "run_inv s db seq0 (Suc n) st1"
    using run_inv_step[OF app, of s db seq0 n "fst st" "snd st" T e "fst st1" "snd st1"] Cons.prems(1) st1(1) by simp
  from Cons.IH[OF this st1(2)] show ?case by simp
qed simp

lemma sm_seq_get: "sm_seq T s db = Inr q \<longleftrightarrow>
  (case kv_get db (sm_meta_key s K_SEQ) of None \<Rightarrow> q = 0 | Some b \<Rightarrow> dec (c_u64 T) b = Some q)"
  by (auto simp: sm_seq_def get_cell_def decode_s_def split: option.splits)

text \<open>
  C33: One call of \<open>apply\<close> answers every entry, touches only the application tables and the
  bookkeeping cells of its own shard (no other shard, not the Raft log), publishes records numbered
  consecutively after the stored sequence number, and leaves the stored sequence number equal to
  the last one published, so a subscriber sees no gap and no repetition.
\<close>

theorem sm_apply_isolated:
  assumes app: "shard_app A" and db: "bt_wf db" and codec: "lossless (c_u64 T)"
    and run: "sm_apply T A s entries db = Inr (responses, db', emits)" and seq0: "sm_seq T s db = Inr seq0"
  shows "length responses = length entries \<and> consecutive seq0 emits \<and>
    sm_seq T s db' = Inr (seq0 + of_nat (length emits)) \<and>
    (\<forall>k. \<not> app_key s k \<and> \<not> meta_key s k \<longrightarrow> kv_get db' k = kv_get db k)"
proof -
  let ?ctx0 = "\<lparr>ctx_shard = s, ctx_engine = db, ctx_wb = [], ctx_seq = seq0, ctx_emits = []\<rparr>"
  from run seq0 obtain ctx where fold: "fold_r (apply_entry T A) entries ([], ?ctx0) = Inr (responses, ctx)"
    and em: "emits = ctx_emits ctx" and
    db': "db' = kv_write_batch db (let wb1 = (if entries = [] then ctx_wb ctx
        else wb_put (sm_meta_key s K_LAST_APPLIED) (enc (c_log_id T) (Some (entry_log_id (last entries)))) (ctx_wb ctx))
      in if ctx_seq ctx \<noteq> seq0 then wb_put (sm_meta_key s K_SEQ) (enc (c_u64 T) (ctx_seq ctx)) wb1 else wb1)"
    by (auto simp: sm_apply_def Let_def)
  have "run_inv s db seq0 0 ([], ?ctx0)" by (simp add: run_inv_def)
  from run_inv_fold[OF app this fold] have inv: "length responses = length entries" "consecutive seq0 emits"
    "ctx_seq ctx = seq0 + of_nat (length emits)"
    "\<forall>b \<in> set (ctx_wb ctx). op_within (\<lambda>k. app_key s k \<or> k = sm_meta_key s K_MEMBERSHIP) b"
    using em by (auto simp: run_inv_def)
  have cells: "sm_meta_key s K_SEQ \<noteq> sm_meta_key s K_MEMBERSHIP" "sm_meta_key s K_SEQ \<noteq> sm_meta_key s K_LAST_APPLIED"
    by (simp_all add: sm_meta_key_def cell_names)
  have base: "kv_get (kv_write_batch db (ctx_wb ctx)) k = kv_get db k" if "\<not> app_key s k" "k \<noteq> sm_meta_key s K_MEMBERSHIP" for k
    using batch_untouched[OF db inv(4), of k] that by simp
  have "kv_get db' (sm_meta_key s K_SEQ) = (if ctx_seq ctx \<noteq> seq0 then Some (enc (c_u64 T) (ctx_seq ctx)) else kv_get db (sm_meta_key s K_SEQ))"
    using base[of "sm_meta_key s K_SEQ"] cells unfolding db' by (simp add: Let_def kv_get_wb_put[OF db])
  then have "sm_seq T s db' = Inr (seq0 + of_nat (length emits))"
    unfolding inv(3)[symmetric] using seq0 codec unfolding sm_seq_get by auto
  moreover have "kv_get db' k = kv_get db k" if "\<not> app_key s k" "\<not> meta_key s k" for k
  proof -
    have "k \<noteq> sm_meta_key s c" for c using that(2) by (auto simp: meta_key_def sm_meta_key_def)
    then show ?thesis using base[OF that(1)] unfolding db' by (simp add: Let_def kv_get_wb_put[OF db])
  qed
  ultimately show ?thesis using inv(1,2) by blast
qed

section \<open>Migrations\<close>

text \<open>
  A schema migration moves the stored version by exactly one step, never past what the binary
  speaks, and writes the new version together with the migration; a stale or skipping proposal is
  answered with a rejection that leaves the context untouched.
\<close>

theorem migrate_exact:
  assumes "lossless (c_u32 T)" and "lossless (c_command T)" and "lossless (c_response T)"
    and cur: "stored_schema_version (c_u32 T) (committed ctx) (ctx_shard ctx) = Inr current" and db: "bt_wf (ctx_engine ctx)"
    and run: "apply_runtime T A ctx (enc (c_command T) (Migrate to)) = Inr (resp, ctx')"
  shows "(dec (c_response T) resp = Some RuntimeOk \<and> to = current + 1 \<and> to \<le> app_schema_version A \<and>
            ctx_get ctx' T_SCHEMA K_SCHEMA_VERSION = Some (enc (c_u32 T) to)) \<or>
         (\<exists>why. dec (c_response T) resp = Some (RuntimeRejected why)) \<and> ctx' = ctx \<and>
            (to \<noteq> current + 1 \<or> to > app_schema_version A)"
proof -
  have "(case ctx_get ctx T_SCHEMA K_SCHEMA_VERSION of Some b \<Rightarrow> decode_r ''schema cell'' (c_u32 T) b | None \<Rightarrow> Inr 1) = Inr current"
    using cur committed_get[OF db, of T_SCHEMA K_SCHEMA_VERSION] by (simp add: stored_schema_version_def)
  then show ?thesis using run assms(1-3)
    by (auto simp: apply_runtime_def split: if_splits)
qed

section \<open>The Raft log\<close>

text \<open>The log as the map from indices to stored entries.\<close>

definition log_at :: "shard_id \<Rightarrow> kv \<Rightarrow> u64 \<Rightarrow> bytes option" where
  "log_at s db i = kv_get db (log_key s i)"

lemma log_key_inject [simp]: "log_key s i = log_key s j \<longleftrightarrow> i = j"
  by (simp add: log_key_def)

lemma log_key_order: "log_key s i < log_key s j \<longleftrightarrow> i < j" "log_key s i \<le> log_key s j \<longleftrightarrow> i \<le> j"
  by (simp_all add: log_key_def ctx_key_def key_less key_le)

lemma log_key_bounds: "fst (log_bounds s) \<le> log_key s i" "log_key s i < snd (log_bounds s)"
  by (simp_all add: log_bounds_def table_bounds_def log_key_def ctx_key_def key_le key_less)

lemma raft_not_log [simp]: "raft_key s k \<noteq> log_key s i" "log_key s i \<noteq> raft_key s k"
  by (simp_all add: raft_key_def log_key_def)

lemma log_append_at:
  "log_at s (log_append T s entries db) i =
     (case find (\<lambda>e. log_index T (entry_log_id e) = i) (rev entries) of
        Some e \<Rightarrow> Some (enc (c_entry T) e)
      | None \<Rightarrow> log_at s db i)"
proof (induction entries rule: rev_induct)
  case Nil
  then show ?case by (simp add: log_append_def log_at_def kv_write_batch_def)
next
  case (snoc e entries)
  then show ?case
    by (auto simp: log_append_def log_at_def kv_write_batch_def wb_put_def kv_get_def kv_put_def)
qed

text \<open>
  The Raft log behaves as a map from indices to entries: appending stores each entry at its
  index (the later of two with one index wins), truncation removes exactly the entries from the
  given index on, and purging removes exactly those up to and including it, for every index short of
  the largest, while recording what was purged.
\<close>

theorem log_ops_exact:
  assumes "bt_wf db" and "lossless (c_log_id T)" and "log_index T l \<noteq> - 1"
  shows "log_at s (log_append T s entries db) i =
           (case find (\<lambda>e. log_index T (entry_log_id e) = i) (rev entries) of
              Some e \<Rightarrow> Some (enc (c_entry T) e)
            | None \<Rightarrow> log_at s db i) \<and>
         log_at s (log_truncate T s l db) i = (if log_index T l \<le> i then None else log_at s db i) \<and>
         log_at s (log_purge T s l db) i = (if i \<le> log_index T l then None else log_at s db i) \<and>
         get_cell (log_purge T s l db) (raft_key s K_LAST_PURGED) (c_log_id T) = Inr (Some (Some l))"
proof (intro conjI)
  show "log_at s (log_append T s entries db) i =
      (case find (\<lambda>e. log_index T (entry_log_id e) = i) (rev entries) of
         Some e \<Rightarrow> Some (enc (c_entry T) e)
       | None \<Rightarrow> log_at s db i)"
    by (rule log_append_at)
  have read: "kv_get (kv_write_batch db (wb_delete_range a b ops)) k = (if a \<le> k \<and> k < b then None else kv_get (kv_write_batch db ops) k)" for a b ops k
    by (simp add: wb_delete_range_def kv_write_batch_def kv_delete_range_get)
  show "log_at s (log_truncate T s l db) i = (if log_index T l \<le> i then None else log_at s db i)"
    unfolding log_at_def log_truncate_def read
    by (simp add: log_key_order log_key_bounds kv_write_batch_def)
  show "log_at s (log_purge T s l db) i = (if i \<le> log_index T l then None else log_at s db i)"
    unfolding log_at_def log_purge_def read
    by (simp add: log_key_order log_key_bounds kv_get_wb_put[OF assms(1)] word_succ_least[OF assms(3)])
       (simp add: kv_write_batch_def)
  have "\<not> raft_key s K_LAST_PURGED < log_key s (log_index T l + 1)"
    by (simp add: raft_key_def log_key_def ctx_key_def key_less)
  then show "get_cell (log_purge T s l db) (raft_key s K_LAST_PURGED) (c_log_id T) = Inr (Some (Some l))"
    unfolding get_cell_def log_purge_def read using assms(2)
    by (simp add: kv_get_wb_put[OF assms(1)] decode_s_def)
qed

text \<open>Reading a stretch of the log back.\<close>

definition log_ok :: "('l, 'm, 'v) raft_types \<Rightarrow> shard_id \<Rightarrow> kv \<Rightarrow> bool" where
  "log_ok T s db \<longleftrightarrow> bt_wf db \<and>
     (\<forall>k v. fst (log_bounds s) \<le> k \<and> k < snd (log_bounds s) \<and> kv_get db k = Some v \<longrightarrow>
        (\<exists>e. dec (c_entry T) v = Some e \<and> k = log_key s (log_index T (entry_log_id e))))"

lemma decode_all:
  assumes "\<forall>(k, v) \<in> set raw. \<exists>e. dec c v = Some e"
  shows "fold_r (\<lambda>(_, v) acc. rbind (decode_s c v) (\<lambda>x. Inr (acc @ [x]))) raw acc = Inr (acc @ map (\<lambda>(k, v). the (dec c v)) raw)"
  using assms by (induction raw arbitrary: acc) (auto simp: decode_s_def)

text \<open>
  Reading a stretch of a well-formed log returns exactly its entries with indices in the
  requested range, in increasing index order, for half-open ranges with a bound below the largest
  index.
\<close>

theorem log_read_exact:
  assumes ok: "log_ok T s db" and hi: "hi \<noteq> - 1"
  shows "\<exists>es. try_get_log_entries T s db (Included lo) (Excluded hi) = Inr es \<and>
    sorted_wrt (<) (map (log_index T \<circ> entry_log_id) es) \<and>
    set es = {e. \<exists>v. log_at s db (log_index T (entry_log_id e)) = Some v \<and> dec (c_entry T) v = Some e \<and>
                 lo \<le> log_index T (entry_log_id e) \<and> log_index T (entry_log_id e) < hi}"
proof -
  let ?raw = "kv_range db (log_key s lo) (log_key s hi)"
  have wf: "bt_wf db" using ok by (simp add: log_ok_def)
  have mem: "(k, v) \<in> set ?raw \<longleftrightarrow> kv_get db k = Some v \<and> log_key s lo \<le> k \<and> k < log_key s hi" for k v
    by (rule rocks.scan_mem[OF wf])
  have dc: "\<exists>e. dec (c_entry T) v = Some e \<and> k = log_key s (log_index T (entry_log_id e))" if "(k, v) \<in> set ?raw" for k v
  proof -
    from that have kv: "kv_get db k = Some v" "log_key s lo \<le> k" "k < log_key s hi" using mem by auto
    have "fst (log_bounds s) \<le> k" "k < snd (log_bounds s)"
      using kv(2,3) log_key_bounds[of s] by (meson order_trans less_trans)+
    then show ?thesis using ok kv(1) unfolding log_ok_def by blast
  qed
  define es where "es = map (\<lambda>(k, v). the (dec (c_entry T) v)) ?raw"
  have run: "try_get_log_entries T s db (Included lo) (Excluded hi) = Inr es"
    using decode_all[of ?raw "c_entry T" "[]"] dc hi unfolding try_get_log_entries_def es_def by (auto simp: Let_def)
  have keys: "map (\<lambda>e. log_key s (log_index T (entry_log_id e))) es = map fst ?raw"
    unfolding es_def map_map by (rule map_cong[OF refl]) (use dc in fastforce)
  have "sorted_wrt (<) (map fst ?raw)" by (rule rocks.scan_sorted[OF wf])
  then have "sorted_wrt (<) (map (log_key s) (map (log_index T \<circ> entry_log_id) es))"
    using keys by (simp add: comp_def)
  then have "sorted_wrt (<) (map (log_index T \<circ> entry_log_id) es)"
    unfolding sorted_wrt_map by (simp add: log_key_order)
  moreover have "e \<in> set es \<longleftrightarrow> (\<exists>v. log_at s db (log_index T (entry_log_id e)) = Some v \<and> dec (c_entry T) v = Some e \<and>
      lo \<le> log_index T (entry_log_id e) \<and> log_index T (entry_log_id e) < hi)" for e
  proof
    assume "e \<in> set es"
    then obtain k v where kv: "(k, v) \<in> set ?raw" "e = the (dec (c_entry T) v)" by (auto simp: es_def)
    from dc[OF kv(1)] kv(2) have d: "dec (c_entry T) v = Some e" "k = log_key s (log_index T (entry_log_id e))" by auto
    with kv(1) mem[of k v] show "\<exists>v. log_at s db (log_index T (entry_log_id e)) = Some v \<and> dec (c_entry T) v = Some e \<and>
        lo \<le> log_index T (entry_log_id e) \<and> log_index T (entry_log_id e) < hi"
      by (auto simp: log_at_def log_key_order)
  next
    assume "\<exists>v. log_at s db (log_index T (entry_log_id e)) = Some v \<and> dec (c_entry T) v = Some e \<and>
        lo \<le> log_index T (entry_log_id e) \<and> log_index T (entry_log_id e) < hi"
    then obtain v where v: "(log_key s (log_index T (entry_log_id e)), v) \<in> set ?raw" "dec (c_entry T) v = Some e"
      using mem by (auto simp: log_at_def log_key_order)
    then show "e \<in> set es" unfolding es_def by force
  qed
  ultimately show ?thesis using run by blast
qed

section \<open>Snapshots\<close>

text \<open>Every key the runtime writes has the layout of \<open>key\<close>.\<close>

definition laid_out :: "kv \<Rightarrow> bool" where
  "laid_out db \<longleftrightarrow> (\<forall>k \<in> fst ` set db. \<exists>ks sh t r. k = key ks sh t r)"

lemma app_bounds_exact:
  "fst (app_bounds s) \<le> key ks sh t r \<and> key ks sh t r < snd (app_bounds s) \<longleftrightarrow> app_key s (key ks sh t r)"
proof -
  have "fst (shard_bounds (sid_keyspace s) (sid_index s)) \<le> fst (app_bounds s)"
    by (simp add: shard_bounds_def app_bounds_def ctx_key_def key_prefix shard_prefix_def[symmetric] prefix_le_append)
  then have "fst (app_bounds s) \<le> key ks sh t r \<and> key ks sh t r < snd (app_bounds s) \<longleftrightarrow>
      fst (app_bounds s) \<le> key ks sh t r \<and> ks = sid_keyspace s \<and> sh = sid_index s"
    using shard_bounds_mem[of "sid_keyspace s" "sid_index s" ks sh t r] by (auto simp: app_bounds_def)
  then show ?thesis
    by (cases "ks = sid_keyspace s"; cases "sh = sid_index s")
       (auto simp: app_bounds_def app_key_def ctx_key_def key_le le_less[of "8 :: u8"])
qed

lemma fold_wb_put: "fold (\<lambda>(k, v). wb_put (p @ k) v) kvs wb = wb @ map (\<lambda>(k, v). Put (p @ k) v) kvs"
  by (induction kvs arbitrary: wb) (auto simp: wb_put_def)

lemma kv_get_puts:
  assumes "distinct (map fst kvs)"
  shows "kv_get (kv_write_batch db (map (\<lambda>(k, v). Put (p @ k) v) kvs)) (p @ k)
    = (case map_of kvs k of Some v \<Rightarrow> Some v | None \<Rightarrow> kv_get db (p @ k))"
  using assms
proof (induction kvs arbitrary: db)
  case (Cons x kvs)
  obtain a b where x: "x = (a, b)" by fastforce
  have "map_of kvs a = None" using Cons.prems x by (auto simp: map_of_eq_None_iff)
  then show ?case using Cons x
    by (auto simp: kv_write_batch_def kv_put_def kv_get_def split: option.split)
qed (simp add: kv_write_batch_def)

lemma kv_get_puts_other:
  assumes "\<And>k'. k \<noteq> p @ k'"
  shows "kv_get (kv_write_batch db (map (\<lambda>(k, v). Put (p @ k) v) kvs)) k = kv_get db k"
  using assms by (induction kvs arbitrary: db) (auto simp: kv_write_batch_def kv_put_def kv_get_def)

lemma strip_range:
  fixes s :: shard_id
  assumes wf: "bt_wf db" and lo: "laid_out db"
  defines "kvs \<equiv> strip_entries 3 (kv_range db (fst (app_bounds s)) (snd (app_bounds s)))"
  shows "distinct (map fst kvs)"
    and "map_of kvs (byte (unat t) # r) = (if APP_TABLE_MIN \<le> t then kv_get db (ctx_key s t r) else None)"
proof -
  let ?raw = "kv_range db (fst (app_bounds s)) (snd (app_bounds s))"
  let ?p = "shard_prefix (sid_keyspace s) (sid_index s)"
  have mem: "(k, v) \<in> set ?raw \<longleftrightarrow> kv_get db k = Some v \<and> fst (app_bounds s) \<le> k \<and> k < snd (app_bounds s)" for k v
    by (rule rocks.scan_mem[OF wf])
  have pre: "k = ?p @ drop 3 k \<and> app_key s k" if "(k, v) \<in> set ?raw" for k v
  proof -
    have "kv_get db k = Some v" using mem that by blast
    then have "k \<in> fst ` set db" by (force simp: kv_get_def dest: map_of_SomeD)
    then obtain ks sh t r where k: "k = key ks sh t r" using lo by (auto simp: laid_out_def)
    then have "app_key s k" using mem that app_bounds_exact by blast
    then show ?thesis by (auto simp: app_key_def ctx_key_def key_prefix)
  qed
  have "inj_on (drop 3) (fst ` set ?raw)"
  proof (rule inj_onI)
    fix x y
    assume "x \<in> fst ` set ?raw" "y \<in> fst ` set ?raw" "drop 3 x = drop 3 y"
    then obtain v w where "(x, v) \<in> set ?raw" "(y, w) \<in> set ?raw" by auto
    then have "x = ?p @ drop 3 x" "y = ?p @ drop 3 y" using pre by blast+
    with \<open>drop 3 x = drop 3 y\<close> show "x = y" by simp
  qed
  moreover have "distinct (map fst ?raw)" using rocks.scan_sorted[OF wf] bt_wf_distinct by blast
  moreover have "map fst kvs = map (drop 3) (map fst ?raw)" by (auto simp: kvs_def strip_entries_def)
  ultimately show dist: "distinct (map fst kvs)" by (simp add: distinct_map comp_inj_on)
  have "map_of kvs (byte (unat t) # r) = Some v \<longleftrightarrow> APP_TABLE_MIN \<le> t \<and> kv_get db (ctx_key s t r) = Some v" for v
  proof -
    have "map_of kvs (byte (unat t) # r) = Some v \<longleftrightarrow> (byte (unat t) # r, v) \<in> set kvs"
      using dist by simp
    also have "\<dots> \<longleftrightarrow> (ctx_key s t r, v) \<in> set ?raw"
    proof
      assume "(byte (unat t) # r, v) \<in> set kvs"
      then obtain k where k: "(k, v) \<in> set ?raw" "drop 3 k = byte (unat t) # r"
        by (auto simp: kvs_def strip_entries_def)
      then show "(ctx_key s t r, v) \<in> set ?raw" using pre[OF k(1)] by (simp add: ctx_key_def key_prefix)
    next
      assume k: "(ctx_key s t r, v) \<in> set ?raw"
      have "drop 3 (ctx_key s t r) = byte (unat t) # r" by (simp add: ctx_key_def key_prefix)
      then show "(byte (unat t) # r, v) \<in> set kvs" using k by (force simp: kvs_def strip_entries_def)
    qed
    also have "\<dots> \<longleftrightarrow> APP_TABLE_MIN \<le> t \<and> kv_get db (ctx_key s t r) = Some v"
      using mem app_bounds_exact[of s "sid_keyspace s" "sid_index s" t r] by (auto simp: ctx_key_def app_key_def)
    finally show ?thesis .
  qed
  then show "map_of kvs (byte (unat t) # r) = (if APP_TABLE_MIN \<le> t then kv_get db (ctx_key s t r) else None)"
    by (metis not_None_eq)
qed

lemma install_reads:
  assumes db: "bt_wf db" and content: "decode_s (c_content T) data = Inr content" and dist: "distinct (map fst (sc_kv content))"
    and run: "install_snapshot T s meta data db = Inr db'"
  shows "kv_get db' (ctx_key s t r) =
    (if t = T_SM_META then
       (if r = K_SNAPSHOT then Some (enc (c_snapshot T) \<lparr>ss_meta = meta, ss_data = data\<rparr>)
        else if r = K_MEMBERSHIP then Some (enc (c_membership T) (sm_last_membership meta))
        else if r = K_LAST_APPLIED then Some (enc (c_log_id T) (sm_last_log_id meta))
        else if r = K_SEQ then Some (enc (c_u64 T) (sc_seq content))
        else case map_of (sc_kv content) (byte (unat t) # r) of Some v \<Rightarrow> Some v | None \<Rightarrow> kv_get db (ctx_key s t r))
     else case map_of (sc_kv content) (byte (unat t) # r) of
       Some v \<Rightarrow> Some v
     | None \<Rightarrow> if APP_TABLE_MIN \<le> t then None else kv_get db (ctx_key s t r))"
proof -
  let ?p = "shard_prefix (sid_keyspace s) (sid_index s)"
  have p: "take 3 (ctx_key s 0 []) = ?p" by (simp add: ctx_key_def key_prefix)
  have k: "ctx_key s t r = ?p @ byte (unat t) # r" by (simp add: ctx_key_def key_prefix)
  let ?db1 = "kv_delete_range db (fst (app_bounds s)) (snd (app_bounds s))"
  have base: "kv_get (kv_write_batch db (fold (\<lambda>(k, v). wb_put (?p @ k) v) (sc_kv content) (wb_delete_range (fst (app_bounds s)) (snd (app_bounds s)) []))) (ctx_key s t r)
      = (case map_of (sc_kv content) (byte (unat t) # r) of Some v \<Rightarrow> Some v
         | None \<Rightarrow> if app_key s (ctx_key s t r) then None else kv_get db (ctx_key s t r))"
    unfolding fold_wb_put kv_write_batch_append k
    using kv_get_puts[OF dist, of ?db1 ?p "byte (unat t) # r"] app_bounds_exact[of s "sid_keyspace s" "sid_index s" t r]
    by (simp add: kv_write_batch_def wb_delete_range_def kv_delete_range_get key_prefix split: option.split)
  have ak: "app_key s (ctx_key s t r) \<longleftrightarrow> APP_TABLE_MIN \<le> t" by (auto simp: app_key_def)
  have db': "db' = kv_write_batch db
      (wb_put (sm_meta_key s K_SNAPSHOT) (enc (c_snapshot T) \<lparr>ss_meta = meta, ss_data = data\<rparr>)
      (wb_put (sm_meta_key s K_MEMBERSHIP) (enc (c_membership T) (sm_last_membership meta))
      (wb_put (sm_meta_key s K_LAST_APPLIED) (enc (c_log_id T) (sm_last_log_id meta))
      (wb_put (sm_meta_key s K_SEQ) (enc (c_u64 T) (sc_seq content))
      (fold (\<lambda>(k, v). wb_put (?p @ k) v) (sc_kv content)
        (wb_delete_range (fst (app_bounds s)) (snd (app_bounds s)) []))))))"
    using run content unfolding install_snapshot_def p by (simp add: Let_def)
  show ?thesis unfolding db' kv_get_wb_put[OF db] base ak sm_meta_key_def ctx_key_inject
    by (cases "t = T_SM_META") (simp_all split: option.split)
qed

lemma build_snapshot_parts:
  assumes "build_snapshot T s db = Inr (meta, data, db1)"
  shows "\<exists>la mem seq. last_applied T s db = Inr la \<and> sm_membership T s db = Inr mem \<and> sm_seq T s db = Inr seq \<and>
    sm_last_log_id meta = la \<and> sm_last_membership meta = mem \<and>
    data = enc (c_content T) \<lparr>sc_last_applied = la, sc_membership = mem, sc_seq = seq,
      sc_kv = strip_entries 3 (kv_range db (fst (app_bounds s)) (snd (app_bounds s)))\<rparr>"
  using assms by (auto simp: build_snapshot_def Let_def)

text \<open>
  C34: A snapshot transfers a shard faithfully: installing on any replica what another replica built
  makes every application table read as on the source (rows the target had beyond the snapshot
  disappear), carries over the sequence number, the last applied log id and the membership, and
  leaves the Raft log and the cells of the target untouched.
\<close>

theorem snapshot_transfer:
  assumes src: "bt_wf db" "laid_out db" and tgt: "bt_wf db2"
    and codecs: "lossless (c_content T)" "lossless (c_u64 T)" "lossless (c_log_id T)" "lossless (c_membership T)"
    and build: "build_snapshot T s db = Inr (meta, data, db1)"
    and install: "install_snapshot T s meta data db2 = Inr db2'"
  shows "(\<forall>t r. APP_TABLE_MIN \<le> t \<longrightarrow> kv_get db2' (ctx_key s t r) = kv_get db (ctx_key s t r)) \<and>
    sm_seq T s db2' = sm_seq T s db \<and> last_applied T s db2' = last_applied T s db \<and>
    sm_membership T s db2' = sm_membership T s db \<and>
    (\<forall>t r. t < T_SM_META \<longrightarrow> kv_get db2' (ctx_key s t r) = kv_get db2 (ctx_key s t r))"
proof -
  let ?kvs = "strip_entries 3 (kv_range db (fst (app_bounds s)) (snd (app_bounds s)))"
  from build_snapshot_parts[OF build] obtain la mem seq where parts:
    "last_applied T s db = Inr la" "sm_membership T s db = Inr mem" "sm_seq T s db = Inr seq"
    "sm_last_log_id meta = la" "sm_last_membership meta = mem"
    "data = enc (c_content T) \<lparr>sc_last_applied = la, sc_membership = mem, sc_seq = seq, sc_kv = ?kvs\<rparr>" by blast
  define content where "content = \<lparr>sc_last_applied = la, sc_membership = mem, sc_seq = seq, sc_kv = ?kvs\<rparr>"
  have dec: "decode_s (c_content T) data = Inr content" using codecs(1) parts(6) by (simp add: decode_s_def content_def)
  have dist: "distinct (map fst (sc_kv content))" using strip_range(1)[OF src] by (simp add: content_def)
  note reads = install_reads[OF tgt dec dist install]
  have row: "map_of (sc_kv content) (byte (unat t) # r) = (if APP_TABLE_MIN \<le> t then kv_get db (ctx_key s t r) else None)" for t r
    using strip_range(2)[OF src] by (simp add: content_def)
  have names: "K_SNAPSHOT \<noteq> K_SEQ" "K_MEMBERSHIP \<noteq> K_SEQ" "K_LAST_APPLIED \<noteq> K_SEQ" "K_SNAPSHOT \<noteq> K_LAST_APPLIED"
    "K_MEMBERSHIP \<noteq> K_LAST_APPLIED" "K_SNAPSHOT \<noteq> K_MEMBERSHIP" by (simp_all add: cell_names)
  have "kv_get db2' (ctx_key s t r) = kv_get db (ctx_key s t r)" if "APP_TABLE_MIN \<le> t" for t r
    using that unfolding reads row by (auto split: option.split)
  moreover have "sm_seq T s db2' = sm_seq T s db"
    unfolding parts(3) sm_seq_get sm_meta_key_def reads using names codecs(2) by (simp add: content_def)
  moreover have "last_applied T s db2' = Inr la"
    unfolding last_applied_def get_cell_def sm_meta_key_def reads using names codecs(3) parts(4) by (simp add: decode_s_def)
  moreover have "sm_membership T s db2' = Inr mem"
    unfolding sm_membership_def get_cell_def sm_meta_key_def reads using names codecs(4) parts(5) by (simp add: decode_s_def)
  moreover have "kv_get db2' (ctx_key s t r) = kv_get db2 (ctx_key s t r)" if "t < T_SM_META" for t r
  proof -
    have "\<not> APP_TABLE_MIN \<le> t" "t \<noteq> T_SM_META" using that by (auto simp: not_le intro: less_trans)
    then show ?thesis unfolding reads row by simp
  qed
  ultimately show ?thesis using parts(1,2) by simp
qed

end
