(* ===== verification/Shard_Reads.thy ===== *)
theory Shard_Reads
  imports Shard_Facts
begin

text \<open>
  Facts on the reads of a shard's tables, shared by the applications: ranges and scans list exactly
  the rows of the table between the bounds, in key order; and steps of a context made of several
  operations.
\<close>

section \<open>Ranges\<close>

lemma between_prefix:
  fixes p :: "'a::linorder list"
  assumes "p \<le> k" and "k < p @ e"
  shows "\<exists>r. k = p @ r \<and> r < e"
  using assms
proof (induction p arbitrary: k)
  case (Cons x p)
  then obtain y ks where k: "k = y # ks" by (cases k) auto
  with Cons show ?case by auto
qed simp

lemma ctx_key_order [simp]:
  "ctx_key s t k < ctx_key s t k' \<longleftrightarrow> k < k'" "ctx_key s t k \<le> ctx_key s t k' \<longleftrightarrow> k \<le> k'"
  by (simp_all add: ctx_key_def key_less key_le)

lemma ctx_key_length: "length (ctx_key s t k) - length k = 4"
  by (simp add: ctx_key_def key_def)

lemma ctx_key_drop: "drop 4 (ctx_key s t k) = k"
  by (simp add: ctx_key_def key_prefix)

lemma ctx_key_between:
  assumes "ctx_key s t a \<le> k" and "k < ctx_key s t b"
  shows "\<exists>r. k = ctx_key s t r \<and> a \<le> r \<and> r < b"
proof -
  let ?p = "shard_prefix (sid_keyspace s) (sid_index s) @ [byte (unat t)]"
  have key: "ctx_key s t r = ?p @ r" for r by (simp add: ctx_key_def key_prefix)
  have "?p \<le> k" using assms(1) unfolding key by (metis append_Nil2 lex_prefix_le order_trans Nil_le_Cons)
  with assms(2) obtain r where "k = ?p @ r" "r < b" unfolding key using between_prefix by blast
  then show ?thesis using assms(1) unfolding key by (metis lex_prefix_le)
qed

lemma end_key_next:
  assumes "t \<noteq> - 1"
  shows "end_key s t [] = ctx_key s (t + 1) []"
  using assms by (simp add: end_key_def table_bounds_def ctx_key_def)

lemma ctx_key_below_next:
  assumes "t \<noteq> - 1"
  shows "ctx_key s t r < ctx_key s (t + 1) []"
  using word_succ_least[OF assms] by (simp add: ctx_key_def key_less)

lemma byte_between:
  assumes "byte (unat t) \<le> c" and "c < byte (unat (t + 1))" and "t \<noteq> (- 1 :: u8)"
  shows "c = byte (unat t)"
proof -
  have c: "c = byte (byte_val c)" by simp
  have lt: "byte_val c < 256" "unat (t + 1) < 256" "unat t < 256" by (simp_all add: unat_u8_lt)
  have "byte_val c < unat (t + 1)" using assms(2) byte_less[OF lt(1,2)] c by metis
  moreover have "\<not> byte_val c < unat t" using assms(1) byte_less[OF lt(1,3)] c by (metis leD)
  ultimately have "byte_val c = unat t" using unat_succ[OF assms(3)] by linarith
  then show ?thesis using c by metis
qed

lemma ctx_key_between_open:
  assumes "ctx_key s t a \<le> k" and "k < end_key s t []" and "t \<noteq> - 1"
  shows "\<exists>r. k = ctx_key s t r \<and> a \<le> r"
proof -
  let ?p = "shard_prefix (sid_keyspace s) (sid_index s)"
  have key: "ctx_key s u r = ?p @ byte (unat u) # r" for u r by (simp add: ctx_key_def key_prefix)
  have "?p \<le> k" using assms(1) unfolding key by (metis append_Nil2 lex_prefix_le order_trans Nil_le_Cons)
  with assms(2) obtain q where q: "k = ?p @ q" "q < byte (unat (t + 1)) # []"
    unfolding end_key_next[OF assms(3)] key using between_prefix by blast
  have le: "byte (unat t) # a \<le> q" using assms(1) unfolding key q(1) lex_prefix_le .
  then obtain c r where cr: "q = c # r" by (cases q) auto
  have "c < byte (unat (t + 1))" using q(2) cr by simp
  moreover have "byte (unat t) \<le> c" "c = byte (unat t) \<Longrightarrow> a \<le> r" using le cr by auto
  ultimately have "c = byte (unat t)" "a \<le> r" using byte_between assms(3) by blast+
  then show ?thesis using q(1) cr key by auto
qed

lemma open_end_mem:
  assumes "t \<noteq> - 1"
  shows "(\<exists>r. k = ctx_key s t r \<and> a \<le> r \<and> (e = [] \<or> r < e)) \<longleftrightarrow> ctx_key s t a \<le> k \<and> k < end_key s t e"
proof (cases "e = []")
  case True
  then show ?thesis using ctx_key_between_open[OF _ _ assms, of s a k] ctx_key_below_next[OF assms] end_key_next[OF assms]
    by auto
next
  case False
  then show ?thesis using ctx_key_between[of s t a k e] by (auto simp: end_key_def)
qed

text \<open>A range of a table lists the rows of the table between the two keys, in order; an empty end key means the end of the table.\<close>

lemma rd_range_rows:
  assumes wf: "bt_wf (rd_engine rd)" and t: "t \<noteq> - 1"
  shows "(r, v) \<in> set (rd_range rd t a e) \<longleftrightarrow> rd_get rd t r = Some v \<and> a \<le> r \<and> (e = [] \<or> r < e)"
proof -
  let ?raw = "kv_range (rd_engine rd) (ctx_key (rd_shard rd) t a) (end_key (rd_shard rd) t e)"
  have "(r, v) \<in> set (rd_range rd t a e) \<longleftrightarrow> (\<exists>k. (k, v) \<in> set ?raw \<and> r = drop 4 k)"
    by (auto simp: rd_range_def Let_def strip_entries_def ctx_key_length)
  also have "\<dots> \<longleftrightarrow> (ctx_key (rd_shard rd) t r, v) \<in> set ?raw"
    using rocks.scan_mem[OF wf] open_end_mem[OF t] ctx_key_drop by metis
  also have "\<dots> \<longleftrightarrow> rd_get rd t r = Some v \<and> a \<le> r \<and> (e = [] \<or> r < e)"
    using rocks.scan_mem[OF wf] open_end_mem[OF t, of "ctx_key (rd_shard rd) t r" "rd_shard rd" a e] by (auto simp: rd_get_def)
  finally show ?thesis .
qed

lemma rd_range_sorted:
  assumes wf: "bt_wf (rd_engine rd)" and t: "t \<noteq> - 1"
  shows "bt_wf (rd_range rd t a e)"
proof -
  let ?raw = "kv_range (rd_engine rd) (ctx_key (rd_shard rd) t a) (end_key (rd_shard rd) t e)"
  have keys: "\<exists>r. fst x = ctx_key (rd_shard rd) t r" if "x \<in> set ?raw" for x
    using that rocks.scan_mem[OF wf] open_end_mem[OF t] by (metis prod.collapse)
  have "sorted_wrt (\<lambda>x y. drop 4 (fst x) < drop 4 (fst y)) ?raw"
  proof (rule sorted_wrt_mono_rel[OF _ rocks.scan_sorted[OF wf, of "ctx_key (rd_shard rd) t a" "end_key (rd_shard rd) t e", unfolded sorted_wrt_map]])
    fix x y
    assume xy: "x \<in> set ?raw" "y \<in> set ?raw" "fst x < fst y"
    then obtain r q where "fst x = ctx_key (rd_shard rd) t r" "fst y = ctx_key (rd_shard rd) t q" using keys by metis
    with xy(3) show "drop 4 (fst x) < drop 4 (fst y)" by (simp add: ctx_key_drop)
  qed
  then show ?thesis
    by (simp add: rd_range_def Let_def strip_entries_def ctx_key_length comp_def split_beta sorted_wrt_map)
qed

lemma rd_scan_forward: "rd_scan rd t a e limit False = take limit (rd_range rd t a e)"
  by (simp add: rd_scan_def rd_range_def kv_scan_def kv_range_def strip_entries_def Let_def take_map)

lemma ctx_range_rd: "ctx_range ctx t a e = rd_range \<lparr>rd_shard = ctx_shard ctx, rd_engine = ctx_engine ctx\<rparr> t a e"
  by (simp add: ctx_range_def rd_range_def)


section \<open>Composite keys\<close>

text \<open>
  Keys made of a name, a zero byte and a rest, as every application builds them. Names without a zero
  byte can be read back from the key, and the keys of one name are an interval.
\<close>

definition no_nul :: "string \<Rightarrow> bool" where
  "no_nul d \<longleftrightarrow> byte 0 \<notin> set d"

lemma takeWhile_nul: "no_nul d \<Longrightarrow> takeWhile (\<lambda>b. b \<noteq> byte 0) (d @ byte 0 # r) = d"
  by (auto simp: no_nul_def takeWhile_append)

lemma nul_key_inject:
  assumes "no_nul d" and "no_nul d'"
  shows "d @ byte 0 # r = d' @ byte 0 # r' \<longleftrightarrow> d = d' \<and> r = r'"
  using takeWhile_nul[OF assms(1), of r] takeWhile_nul[OF assms(2), of r'] by (metis same_append_eq list.inject)

lemma nul_prefix_range: "d @ byte 0 # [] \<le> k \<and> k < d @ byte 0 # e \<longleftrightarrow> (\<exists>r. k = d @ byte 0 # r \<and> r < e)"
  using between_prefix[of "d @ [byte 0]" k e] by auto

lemma nul_prefix_all: "d @ byte 0 # [] \<le> k \<and> k < d @ [byte 1] \<longleftrightarrow> (\<exists>r. k = d @ byte 0 # r)"
proof
  assume b: "d @ [byte 0] \<le> k \<and> k < d @ [byte 1]"
  have "d @ [] \<le> d @ [byte 0]" unfolding lex_prefix_le by simp
  with b between_prefix[of d k "[byte 1]"] obtain q where q: "k = d @ q" "q < [byte 1]" by force
  have "[byte 0] \<le> q" using b q(1) by simp
  with q(2) show "\<exists>r. k = d @ byte 0 # r" using q(1) by (cases q) (auto simp: less_char_def)
qed (auto simp: less_char_def)

lemma nul_range:
  assumes "no_nul d" and "no_nul d'"
  shows "d @ byte 0 # [] \<le> d' @ byte 0 # r \<and> d' @ byte 0 # r < d @ byte 0 # e \<longleftrightarrow> d' = d \<and> r < e"
  unfolding nul_prefix_range using nul_key_inject[OF assms(2,1)] by auto

lemma nul_range_all:
  assumes "no_nul d" and "no_nul d'"
  shows "d @ byte 0 # [] \<le> d' @ byte 0 # r \<and> d' @ byte 0 # r < d @ [byte 1] \<longleftrightarrow> d' = d"
  unfolding nul_prefix_all using nul_key_inject[OF assms(2,1)] by auto

section \<open>Steps of a context\<close>

lemma ctx_emit_seq: "ctx_emit p ctx = (ctx_seq ctx + 1, snd (ctx_emit p ctx))"
  by (simp add: ctx_emit_def Let_def)

lemma fold_delete_get:
  "ctx_get (fold (\<lambda>(k, _). ctx_delete t k) kvs ctx) t' k =
     (if t' = t \<and> k \<in> fst ` set kvs then None else ctx_get ctx t' k)"
  by (induction kvs arbitrary: ctx) (auto simp: split_beta)

lemma fold_delete_steps: "APP_TABLE_MIN \<le> t \<Longrightarrow> ctx_steps ctx (fold (\<lambda>(k, _). ctx_delete t k) kvs ctx)"
proof (induction kvs arbitrary: ctx)
  case (Cons x kvs)
  then have "ctx_step ctx (ctx_delete t (fst x) ctx)" by (auto intro: ctx_step.intros)
  with Cons show ?case by (auto simp: split_beta intro: converse_rtranclp_into_rtranclp)
qed simp

lemma put_steps: "8 \<le> t \<Longrightarrow> ctx_steps ctx (ctx_put t k v ctx)"
  by (rule r_into_rtranclp[of ctx_step]) (simp add: ctx_step.put)

lemma fold_delete_frame:
  "ctx_engine (fold (\<lambda>(k, _). ctx_delete t k) kvs c) = ctx_engine c"
  "ctx_shard (fold (\<lambda>(k, _). ctx_delete t k) kvs c) = ctx_shard c"
  "ctx_seq (fold (\<lambda>(k, _). ctx_delete t k) kvs c) = ctx_seq c"
  "ctx_emits (fold (\<lambda>(k, _). ctx_delete t k) kvs c) = ctx_emits c"
  by (induction kvs arbitrary: c) (auto simp: ctx_delete_def split_beta)

end
