(* ===== verification/Fedout.thy ===== *)
theory Fedout
  imports Shard_Reads
begin

text \<open>
  The federation-out shard (\<open>saltator-fedout\<close>): delivery cursors, the outbox of ephemeral events
  and the drain marker, as a shard application over the byte-level tables, with its readers.
\<close>

definition T_PDU_CURSOR :: u8 where "T_PDU_CURSOR = APP_TABLE_FIRST"
definition T_EDU_OUTBOX :: u8 where "T_EDU_OUTBOX = APP_TABLE_FIRST + 1"
definition T_DRAIN :: u8 where "T_DRAIN = APP_TABLE_FIRST + 2"
definition T_AS_CURSOR :: u8 where "T_AS_CURSOR = APP_TABLE_FIRST + 3"
definition K_DRAIN_MARKER :: bytes where "K_DRAIN_MARKER = ''user_outbox_drained''"
definition FEDOUT_SCHEMA_VERSION :: u32 where "FEDOUT_SCHEMA_VERSION = 2"

definition FED_OUT_SHARD :: shard_id where
  "FED_OUT_SHARD = \<lparr>sid_keyspace = FedOut, sid_index = 0\<rparr>"

record outbound_edu =
  edu_destination :: string
  edu_json :: bytes

datatype fedout_command =
    EnqueueEdus "outbound_edu list"
  | AckEdus string u64
  | AdvancePduCursor u16 string u64
  | SetDrainMarker u64
  | AdvanceAsCursor string u16 u64

datatype fedout_response = FedOutOk

record fedout_codecs =
  fc_command :: "fedout_command codec"
  fc_response :: "fedout_response codec"
  fc_u64 :: "u64 codec"

section \<open>Keys\<close>

definition dest_key :: "string \<Rightarrow> bytes \<Rightarrow> bytes" where
  "dest_key destination rest = destination @ byte 0 # rest"

definition as_cursor_key :: "string \<Rightarrow> u16 \<Rightarrow> bytes" where
  "as_cursor_key as_id room_shard = as_id @ byte 0 # u16_be room_shard"

definition cursor_key :: "u16 \<Rightarrow> string \<Rightarrow> bytes" where
  "cursor_key room_shard destination = u16_be room_shard @ destination"

section \<open>The command interpreter\<close>

definition fedout_migrate :: "apply_ctx \<Rightarrow> u32 \<Rightarrow> store_error + apply_ctx" where
  "fedout_migrate ctx to = (if to = 2 then Inr ctx else Inl (Engine ''no migration registered for fedout schema step''))"

fun enqueue_edus :: "outbound_edu list \<Rightarrow> apply_ctx \<Rightarrow> apply_ctx" where
  "enqueue_edus [] ctx = ctx"
| "enqueue_edus (edu # edus) ctx =
     (case ctx_emit (edu_json edu) ctx of (seq, ctx1) \<Rightarrow>
        enqueue_edus edus (ctx_put T_EDU_OUTBOX (dest_key (edu_destination edu) (u64_be seq)) (edu_json edu) ctx1))"

definition ack_edus :: "string \<Rightarrow> u64 \<Rightarrow> apply_ctx \<Rightarrow> apply_ctx" where
  "ack_edus destination up_to ctx =
     (let start = dest_key destination []; e = dest_key destination (u64_be (up_to + 1)) in
      fold (\<lambda>(k, _). ctx_delete T_EDU_OUTBOX k) (ctx_range ctx T_EDU_OUTBOX start e) ctx)"

definition advance_cell :: "string \<Rightarrow> u64 codec \<Rightarrow> u8 \<Rightarrow> bytes \<Rightarrow> u64 \<Rightarrow> apply_ctx \<Rightarrow> store_error + apply_ctx" where
  "advance_cell what c table k up_to ctx =
     rbind (case ctx_get ctx table k of Some b \<Rightarrow> decode_r what c b | None \<Rightarrow> Inr 0) (\<lambda>current.
       Inr (if up_to > current then ctx_put table k (enc c up_to) ctx else ctx))"

definition fedout_run :: "fedout_codecs \<Rightarrow> fedout_command \<Rightarrow> apply_ctx \<Rightarrow> store_error + apply_ctx" where
  "fedout_run C cmd ctx =
     (case cmd of
        EnqueueEdus entries \<Rightarrow> Inr (enqueue_edus entries ctx)
      | AckEdus destination up_to \<Rightarrow> Inr (ack_edus destination up_to ctx)
      | AdvancePduCursor room_shard destination up_to \<Rightarrow>
          advance_cell ''cursor decode'' (fc_u64 C) T_PDU_CURSOR (cursor_key room_shard destination) up_to ctx
      | AdvanceAsCursor as_id room_shard up_to \<Rightarrow>
          advance_cell ''as cursor decode'' (fc_u64 C) T_AS_CURSOR (as_cursor_key as_id room_shard) up_to ctx
      | SetDrainMarker up_to \<Rightarrow>
          advance_cell ''marker decode'' (fc_u64 C) T_DRAIN K_DRAIN_MARKER up_to ctx)"

definition fedout_apply :: "fedout_codecs \<Rightarrow> apply_ctx \<Rightarrow> bytes \<Rightarrow> store_error + bytes \<times> apply_ctx" where
  "fedout_apply C ctx command =
     rbind (decode_r ''fedout command decode'' (fc_command C) command) (\<lambda>cmd.
     rbind (fedout_run C cmd ctx) (\<lambda>ctx'.
       Inr (enc (fc_response C) FedOutOk, ctx')))"

definition fedout_app :: "fedout_codecs \<Rightarrow> app" where
  "fedout_app C = \<lparr>app_apply = fedout_apply C, app_schema_version = FEDOUT_SCHEMA_VERSION, app_migrate = fedout_migrate\<rparr>"

section \<open>Readers\<close>

definition edu_destinations :: "read_ctx \<Rightarrow> string list" where
  "edu_destinations rd =
     fold (\<lambda>(k, _) out. let dest = takeWhile (\<lambda>b. b \<noteq> byte 0) k in
             if out \<noteq> [] \<and> last out = dest then out else out @ [dest])
       (rd_range rd T_EDU_OUTBOX [] []) []"

fun outbox_rows :: "nat \<Rightarrow> nat \<Rightarrow> (bytes \<times> bytes) list \<Rightarrow> (u64 \<times> bytes) list \<Rightarrow> store_error + (u64 \<times> bytes) list" where
  "outbox_rows start_len limit [] out = Inr out"
| "outbox_rows start_len limit ((k, v) # rows) out =
     (if length out \<ge> limit then Inr out
      else rbind (ok_or (Engine ''outbox key: bad seq'') (u64_from_be (drop start_len k))) (\<lambda>seq.
        outbox_rows start_len limit rows (out @ [(seq, v)])))"

definition edu_outbox :: "read_ctx \<Rightarrow> string \<Rightarrow> nat \<Rightarrow> store_error + (u64 \<times> bytes) list" where
  "edu_outbox rd destination limit =
     (let start = dest_key destination []; e = destination @ [byte 1] in
      outbox_rows (length start) limit (rd_range rd T_EDU_OUTBOX start e) [])"

definition read_cell :: "string \<Rightarrow> u64 codec \<Rightarrow> bytes option \<Rightarrow> store_error + u64 option" where
  "read_cell what c b = (case b of Some b \<Rightarrow> rbind (decode_r what c b) (\<lambda>x. Inr (Some x)) | None \<Rightarrow> Inr None)"

definition pdu_cursor :: "fedout_codecs \<Rightarrow> read_ctx \<Rightarrow> u16 \<Rightarrow> string \<Rightarrow> store_error + u64 option" where
  "pdu_cursor C rd room_shard destination =
     read_cell ''cursor decode'' (fc_u64 C) (rd_get rd T_PDU_CURSOR (cursor_key room_shard destination))"

definition u16_from_be2 :: "bytes \<Rightarrow> u16" where
  "u16_from_be2 k = of_nat (of_be_bytes (take 2 k))"

definition pdu_cursors :: "fedout_codecs \<Rightarrow> read_ctx \<Rightarrow> store_error + (u16 \<times> string \<times> u64) list" where
  "pdu_cursors C rd =
     fold_r (\<lambda>(k, v) out.
         if length k < 2 then Inr out
         else rbind (decode_r ''cursor decode'' (fc_u64 C) v) (\<lambda>seq. Inr (out @ [(u16_from_be2 k, drop 2 k, seq)])))
       (rd_range rd T_PDU_CURSOR [] []) []"

definition as_cursor :: "fedout_codecs \<Rightarrow> read_ctx \<Rightarrow> string \<Rightarrow> u16 \<Rightarrow> store_error + u64 option" where
  "as_cursor C rd as_id room_shard =
     read_cell ''as cursor decode'' (fc_u64 C) (rd_get rd T_AS_CURSOR (as_cursor_key as_id room_shard))"

definition drain_marker :: "fedout_codecs \<Rightarrow> read_ctx \<Rightarrow> store_error + u64" where
  "drain_marker C rd =
     (case rd_get rd T_DRAIN K_DRAIN_MARKER of
        Some b \<Rightarrow> decode_r ''marker decode'' (fc_u64 C) b
      | None \<Rightarrow> Inr 0)"

section \<open>The application keeps to its context\<close>

lemmas fedout_tables = T_PDU_CURSOR_def T_EDU_OUTBOX_def T_DRAIN_def T_AS_CURSOR_def

lemma fedout_tables_app [simp]:
  "T_EDU_OUTBOX \<noteq> - 1" "8 \<le> T_PDU_CURSOR" "8 \<le> T_EDU_OUTBOX" "8 \<le> T_DRAIN" "8 \<le> T_AS_CURSOR"
  by (simp_all add: fedout_tables)

lemma enqueue_steps: "ctx_steps ctx (enqueue_edus edus ctx)"
proof (induction edus arbitrary: ctx)
  case (Cons edu edus)
  let ?c1 = "snd (ctx_emit (edu_json edu) ctx)"
  let ?c2 = "ctx_put T_EDU_OUTBOX (dest_key (edu_destination edu) (u64_be (ctx_seq ctx + 1))) (edu_json edu) ?c1"
  have "ctx_step ctx ?c1" "ctx_step ?c1 ?c2" by (auto intro: ctx_step.intros)
  then have "ctx_steps ctx ?c2" by (meson converse_rtranclp_into_rtranclp rtranclp.rtrancl_refl)
  then show ?case using Cons[of ?c2] ctx_emit_seq[of "edu_json edu" ctx]
    by (simp add: split_beta)
qed simp

lemma advance_steps:
  "APP_TABLE_MIN \<le> t \<Longrightarrow> advance_cell w c t k u ctx = Inr ctx' \<Longrightarrow> ctx_steps ctx ctx'"
  by (auto simp: advance_cell_def put_steps split: if_splits)

lemma fedout_run_steps: "fedout_run C cmd ctx = Inr ctx' \<Longrightarrow> ctx_steps ctx ctx'"
  by (cases cmd)
     (auto simp: fedout_run_def ack_edus_def Let_def intro: enqueue_steps intro!: fold_delete_steps elim!: advance_steps[rotated])

interpretation fedout: shard_app "fedout_app C" for C
  by standard (auto simp: fedout_app_def fedout_apply_def fedout_migrate_def intro: fedout_run_steps split: if_splits)

section \<open>Keys of the outbox\<close>

lemma dest_key_inject:
  "no_nul d \<Longrightarrow> no_nul d' \<Longrightarrow> dest_key d r = dest_key d' r' \<longleftrightarrow> d = d' \<and> r = r'"
  unfolding dest_key_def by (rule nul_key_inject)

section \<open>Cursors\<close>

definition cell_value :: "u64 codec \<Rightarrow> apply_ctx \<Rightarrow> u8 \<Rightarrow> bytes \<Rightarrow> u64 option" where
  "cell_value c ctx t k = (case ctx_get ctx t k of Some b \<Rightarrow> dec c b | None \<Rightarrow> Some 0)"

definition is_cursor :: "u8 \<Rightarrow> bool" where
  "is_cursor t \<longleftrightarrow> t = T_PDU_CURSOR \<or> t = T_AS_CURSOR \<or> t = T_DRAIN"

lemma enqueue_get_other: "t \<noteq> T_EDU_OUTBOX \<Longrightarrow> ctx_get (enqueue_edus edus ctx) t k = ctx_get ctx t k"
proof (induction edus arbitrary: ctx)
  case (Cons edu edus)
  then show ?case by (subst enqueue_edus.simps, subst ctx_emit_seq) simp
qed simp

lemma advance_cell_value:
  assumes "lossless c" and "advance_cell w c t k u ctx = Inr ctx'" and "cell_value c ctx t' k' = Some n"
  shows "cell_value c ctx' t' k' = Some (if t' = t \<and> k' = k then max u n else n)"
  using assms by (auto simp: advance_cell_def cell_value_def decode_r_def max_def word_gt_0 split: option.splits if_splits)

lemma fedout_tables_distinct [simp]:
  "T_EDU_OUTBOX \<noteq> T_PDU_CURSOR" "T_EDU_OUTBOX \<noteq> T_AS_CURSOR" "T_EDU_OUTBOX \<noteq> T_DRAIN"
  "T_PDU_CURSOR \<noteq> T_AS_CURSOR" "T_PDU_CURSOR \<noteq> T_DRAIN" "T_AS_CURSOR \<noteq> T_DRAIN"
  by (simp_all add: fedout_tables)

text \<open>
  Delivery progress never goes back: whatever command the federation-out shard applies, every
  cursor (of a remote server, of an application service, and the drain marker) keeps its value or
  grows, and the command that advances a cursor sets it to the maximum of the old and the proposed
  value, so stale and repeated acknowledgements are harmless.
\<close>

theorem cursors_monotone:
  assumes "lossless (fc_u64 C)" and "fedout_run C cmd ctx = Inr ctx'" and "is_cursor t"
    and "cell_value (fc_u64 C) ctx t k = Some n"
  shows "\<exists>m. cell_value (fc_u64 C) ctx' t k = Some m \<and> n \<le> m \<and>
    (cmd = AdvancePduCursor rs d u \<and> t = T_PDU_CURSOR \<and> k = cursor_key rs d \<longrightarrow> m = max u n)"
proof (cases cmd)
  case (EnqueueEdus entries)
  have "t \<noteq> T_EDU_OUTBOX" using assms(3) by (auto simp: is_cursor_def)
  then have "cell_value (fc_u64 C) ctx' t k = Some n"
    using EnqueueEdus assms(2,4) by (auto simp: fedout_run_def cell_value_def enqueue_get_other)
  then show ?thesis using EnqueueEdus by simp
next
  case (AckEdus d u)
  have "t \<noteq> T_EDU_OUTBOX" using assms(3) by (auto simp: is_cursor_def)
  then have "cell_value (fc_u64 C) ctx' t k = Some n"
    using AckEdus assms(2,4) by (auto simp: fedout_run_def cell_value_def ack_edus_def Let_def fold_delete_get)
  then show ?thesis using AckEdus by simp
next
  case (AdvancePduCursor rs' d' u')
  then show ?thesis
    using advance_cell_value[OF assms(1) _ assms(4), of _ T_PDU_CURSOR "cursor_key rs' d'" u' ctx'] assms(2)
    by (auto simp: fedout_run_def)
next
  case (SetDrainMarker u')
  then show ?thesis
    using advance_cell_value[OF assms(1) _ assms(4), of _ T_DRAIN K_DRAIN_MARKER u' ctx'] assms(2)
    by (auto simp: fedout_run_def)
next
  case (AdvanceAsCursor a rs' u')
  then show ?thesis
    using advance_cell_value[OF assms(1) _ assms(4), of _ T_AS_CURSOR "as_cursor_key a rs'" u' ctx'] assms(2)
    by (auto simp: fedout_run_def)
qed

section \<open>The outbox\<close>

lemma dest_range:
  "no_nul d \<Longrightarrow> no_nul d' \<Longrightarrow> dest_key d [] \<le> dest_key d' r \<and> dest_key d' r < dest_key d e \<longleftrightarrow> d' = d \<and> r < e"
  unfolding dest_key_def by (rule nul_range)

lemma dest_range_all:
  "no_nul d \<Longrightarrow> no_nul d' \<Longrightarrow> dest_key d [] \<le> dest_key d' r \<and> dest_key d' r < d @ [byte 1] \<longleftrightarrow> d' = d"
  unfolding dest_key_def by (rule nul_range_all)

lemma ack_get:
  assumes wf: "bt_wf (ctx_engine ctx)" and fresh: "ctx_wb ctx = []" and nul: "no_nul d" "no_nul d'"
  shows "ctx_get (ack_edus d up_to ctx) T_EDU_OUTBOX (dest_key d' (u64_be q)) =
    (if d' = d \<and> q < up_to + 1 then None else ctx_get ctx T_EDU_OUTBOX (dest_key d' (u64_be q)))"
proof -
  let ?rd = "\<lparr>rd_shard = ctx_shard ctx, rd_engine = ctx_engine ctx\<rparr>"
  let ?kvs = "ctx_range ctx T_EDU_OUTBOX (dest_key d []) (dest_key d (u64_be (up_to + 1)))"
  have read: "rd_get ?rd t k = ctx_get ctx t k" for t k
    by (simp add: rd_get_def ctx_get_def fresh staged_def Let_def)
  have "dest_key d (u64_be (up_to + 1)) \<noteq> []" by (simp add: dest_key_def)
  then have mem: "(k, v) \<in> set ?kvs \<longleftrightarrow> ctx_get ctx T_EDU_OUTBOX k = Some v \<and> dest_key d [] \<le> k \<and> k < dest_key d (u64_be (up_to + 1))" for k v
    unfolding ctx_range_rd using rd_range_rows[of ?rd] wf read by simp
  have "dest_key d' (u64_be q) \<in> fst ` set ?kvs \<longleftrightarrow>
      (\<exists>v. ctx_get ctx T_EDU_OUTBOX (dest_key d' (u64_be q)) = Some v) \<and> d' = d \<and> q < up_to + 1"
  proof -
    have "dest_key d' (u64_be q) \<in> fst ` set ?kvs \<longleftrightarrow> (\<exists>v. (dest_key d' (u64_be q), v) \<in> set ?kvs)" by force
    then show ?thesis unfolding mem dest_range[OF nul] by auto
  qed
  then show ?thesis unfolding ack_edus_def Let_def fold_delete_get by auto
qed

text \<open>
  Acknowledging delivery to a server up to a sequence number removes from the applied outbox
  exactly the rows of that server with numbers up to and including it; rows of other servers, also
  those whose name extends or precedes it, and later rows stay.
\<close>

theorem ack_edus_exact:
  assumes "bt_wf (ctx_engine ctx)" and "ctx_wb ctx = []" and "no_nul d" and "no_nul d'" and "up_to \<noteq> - 1"
  shows "ctx_get (ack_edus d up_to ctx) T_EDU_OUTBOX (dest_key d' (u64_be q)) =
    (if d' = d \<and> q \<le> up_to then None else ctx_get ctx T_EDU_OUTBOX (dest_key d' (u64_be q)))"
  using ack_get[OF assms(1-4)] word_succ_least[OF assms(5)] by simp

text \<open>
  At the largest sequence number the exclusive bound wraps to zero in the release profile, and
  the acknowledgement removes nothing.
\<close>

theorem ack_edus_wraps:
  assumes "bt_wf (ctx_engine ctx)" and "ctx_wb ctx = []" and "no_nul d"
  shows "ctx_get (ack_edus d (- 1) ctx) T_EDU_OUTBOX (dest_key d (u64_be q)) = ctx_get ctx T_EDU_OUTBOX (dest_key d (u64_be q))"
  using ack_get[OF assms(1,2,3,3), of "- 1" q] by simp

text \<open>Enqueueing: the rows written, in the order of the entries.\<close>

lemma enqueue_seq: "ctx_seq (enqueue_edus edus ctx) = ctx_seq ctx + of_nat (length edus)"
proof (induction edus arbitrary: ctx)
  case (Cons edu edus)
  then show ?case
    by (subst enqueue_edus.simps, subst ctx_emit_seq) (simp add: ctx_put_def ctx_emit_def Let_def ac_simps)
qed simp

lemma enqueue_get:
  assumes "\<forall>edu \<in> set edus. no_nul (edu_destination edu)" and "unat (ctx_seq ctx) + length edus < 2 ^ 64" and "no_nul d"
  shows "ctx_get (enqueue_edus edus ctx) T_EDU_OUTBOX (dest_key d (u64_be q)) =
    (if unat (ctx_seq ctx) < unat q \<and> unat q \<le> unat (ctx_seq ctx) + length edus \<and>
        edu_destination (edus ! (unat q - Suc (unat (ctx_seq ctx)))) = d
     then Some (edu_json (edus ! (unat q - Suc (unat (ctx_seq ctx)))))
     else ctx_get ctx T_EDU_OUTBOX (dest_key d (u64_be q)))"
  using assms(1,2)
proof (induction edus arbitrary: ctx)
  case (Cons edu edus)
  let ?s = "ctx_seq ctx"
  let ?c = "ctx_put T_EDU_OUTBOX (dest_key (edu_destination edu) (u64_be (?s + 1))) (edu_json edu) (snd (ctx_emit (edu_json edu) ctx))"
  have s1: "unat (?s + 1) = Suc (unat ?s)" using u64_add_nat[of ?s 1] Cons.prems(2) by simp
  have cs: "ctx_seq ?c = ?s + 1" by (simp add: ctx_put_def ctx_emit_def Let_def)
  have run: "enqueue_edus (edu # edus) ctx = enqueue_edus edus ?c"
    by (subst enqueue_edus.simps, subst ctx_emit_seq) simp
  have IH: "ctx_get (enqueue_edus edus ?c) T_EDU_OUTBOX (dest_key d (u64_be q)) =
    (if unat (?s + 1) < unat q \<and> unat q \<le> unat (?s + 1) + length edus \<and>
        edu_destination (edus ! (unat q - Suc (unat (?s + 1)))) = d
     then Some (edu_json (edus ! (unat q - Suc (unat (?s + 1)))))
     else ctx_get ?c T_EDU_OUTBOX (dest_key d (u64_be q)))"
    using Cons.IH[of ?c] Cons.prems s1 cs by simp
  have head: "ctx_get ?c T_EDU_OUTBOX (dest_key d (u64_be q)) =
      (if d = edu_destination edu \<and> q = ?s + 1 then Some (edu_json edu) else ctx_get ctx T_EDU_OUTBOX (dest_key d (u64_be q)))"
    using dest_key_inject[OF assms(3), of "edu_destination edu"] Cons.prems(1) by simp
  have q: "q = ?s + 1 \<longleftrightarrow> unat q = Suc (unat ?s)" using s1 by (metis word_unat_eq_iff)
  consider "unat q \<le> unat ?s" | "unat q = Suc (unat ?s)" | j where "unat q = Suc (Suc (unat ?s + j))"
    by (metis add_Suc less_imp_Suc_add not_less_eq_eq le_SucE not_le)
  then show ?case unfolding run IH head s1 q by cases auto
qed auto

text \<open>
  Enqueueing numbers the entries consecutively after the shard's sequence number and stores the
  \<open>i\<close>-th one under its destination and number; every other row of the outbox is left as it was.
\<close>

theorem enqueue_edus_exact:
  assumes "\<forall>edu \<in> set edus. no_nul (edu_destination edu)" and "unat (ctx_seq ctx) + length edus < 2 ^ 64" and "no_nul d"
  shows "ctx_get (enqueue_edus edus ctx) T_EDU_OUTBOX (dest_key d (u64_be q)) =
    (if unat (ctx_seq ctx) < unat q \<and> unat q \<le> unat (ctx_seq ctx) + length edus \<and>
        edu_destination (edus ! (unat q - Suc (unat (ctx_seq ctx)))) = d
     then Some (edu_json (edus ! (unat q - Suc (unat (ctx_seq ctx)))))
     else ctx_get ctx T_EDU_OUTBOX (dest_key d (u64_be q)))"
  using assms by (rule enqueue_get)

text \<open>Reading the outbox of one server.\<close>

definition outbox_ok :: "read_ctx \<Rightarrow> bool" where
  "outbox_ok rd \<longleftrightarrow> bt_wf (rd_engine rd) \<and>
     (\<forall>k v. rd_get rd T_EDU_OUTBOX k = Some v \<longrightarrow> (\<exists>d q. no_nul d \<and> k = dest_key d (u64_be q)))"

lemma outbox_rows_spec:
  assumes "\<forall>(k, v) \<in> set rows. \<exists>q. u64_from_be (drop n k) = Some q" and "length out \<le> limit"
  shows "outbox_rows n limit rows out = Inr (take limit (out @ map (\<lambda>(k, v). (the (u64_from_be (drop n k)), v)) rows))"
  using assms
proof (induction rows arbitrary: out)
  case (Cons row rows)
  obtain k v where row: "row = (k, v)" by fastforce
  with Cons.prems obtain q where q: "u64_from_be (drop n k) = Some q" by auto
  show ?case
  proof (cases "length out \<ge> limit")
    case False
    then show ?thesis using Cons.IH[of "out @ [(q, v)]"] Cons.prems row q by simp
  qed (use row Cons.prems in simp)
qed simp

text \<open>
  The delivery worker reads, for a server, exactly its pending rows in increasing order of
  their sequence numbers, cut at the limit: oldest first, nothing of another server, nothing skipped.
\<close>

theorem edu_outbox_exact:
  assumes ok: "outbox_ok rd" and d: "no_nul d"
  shows "\<exists>rows. edu_outbox rd d limit = Inr (take limit rows) \<and> sorted_wrt (<) (map fst rows) \<and>
    (\<forall>q v. (q, v) \<in> set rows \<longleftrightarrow> rd_get rd T_EDU_OUTBOX (dest_key d (u64_be q)) = Some v)"
proof -
  let ?kvs = "rd_range rd T_EDU_OUTBOX (dest_key d []) (d @ [byte 1])"
  let ?n = "length (dest_key d [])"
  have wf: "bt_wf (rd_engine rd)" using ok by (simp add: outbox_ok_def)
  have mem: "(k, v) \<in> set ?kvs \<longleftrightarrow> rd_get rd T_EDU_OUTBOX k = Some v \<and> dest_key d [] \<le> k \<and> k < d @ [byte 1]" for k v
    by (simp add: rd_range_rows[OF wf])
  have key: "drop ?n (dest_key d r) = r" for r by (simp add: dest_key_def)
  have rows: "(k, v) \<in> set ?kvs \<longleftrightarrow> (\<exists>q. k = dest_key d (u64_be q) \<and> rd_get rd T_EDU_OUTBOX k = Some v)" for k v
  proof
    assume "(k, v) \<in> set ?kvs"
    then have k: "rd_get rd T_EDU_OUTBOX k = Some v" "dest_key d [] \<le> k" "k < d @ [byte 1]" using mem by auto
    then obtain d' q where dq: "no_nul d'" "k = dest_key d' (u64_be q)" using ok by (auto simp: outbox_ok_def)
    with k(2,3) dest_range_all[OF d dq(1), of "u64_be q"] have "d' = d" by simp
    with dq k(1) show "\<exists>q. k = dest_key d (u64_be q) \<and> rd_get rd T_EDU_OUTBOX k = Some v" by blast
  next
    assume "\<exists>q. k = dest_key d (u64_be q) \<and> rd_get rd T_EDU_OUTBOX k = Some v"
    then obtain q where "k = dest_key d (u64_be q)" "rd_get rd T_EDU_OUTBOX k = Some v" by blast
    then show "(k, v) \<in> set ?kvs" using mem dest_range_all[OF d d, of "u64_be q"] by simp
  qed
  define out where "out = map (\<lambda>(k, v). (the (u64_from_be (drop ?n k)), v)) ?kvs"
  have "\<forall>(k, v) \<in> set ?kvs. \<exists>q. u64_from_be (drop ?n k) = Some q" using rows key by auto
  from outbox_rows_spec[OF this, of "[]" limit] have run: "edu_outbox rd d limit = Inr (take limit out)"
    by (simp add: edu_outbox_def Let_def out_def)
  have out_mem: "(q, v) \<in> set out \<longleftrightarrow> rd_get rd T_EDU_OUTBOX (dest_key d (u64_be q)) = Some v" for q v
  proof -
    have "(q, v) \<in> set out \<longleftrightarrow> (\<exists>k. (k, v) \<in> set ?kvs \<and> q = the (u64_from_be (drop ?n k)))" by (force simp: out_def)
    also have "\<dots> \<longleftrightarrow> rd_get rd T_EDU_OUTBOX (dest_key d (u64_be q)) = Some v" unfolding rows by (auto simp: key)
    finally show ?thesis .
  qed
  have "sorted_wrt (<) (map fst out)"
    unfolding out_def sorted_wrt_map
  proof (rule sorted_wrt_mono_rel)
    show "sorted_wrt (\<lambda>x y. fst x < fst y) ?kvs" using rd_range_sorted[OF wf] by (simp add: sorted_wrt_map)
    fix x y
    assume xy: "x \<in> set ?kvs" "y \<in> set ?kvs" "fst x < fst y"
    then obtain p q where "fst x = dest_key d (u64_be p)" "fst y = dest_key d (u64_be q)" using rows by (metis prod.collapse)
    with xy(3) show "fst (case x of (k, v) \<Rightarrow> (the (u64_from_be (drop ?n k)), v)) < fst (case y of (k, v) \<Rightarrow> (the (u64_from_be (drop ?n k)), v))"
      by (simp add: split_beta key) (simp add: dest_key_def)
  qed
  with run out_mem show ?thesis by blast
qed

end
