(* ===== verification/Shard_Examples.thy ===== *)
theory Shard_Examples
  imports Fedout
begin

text \<open>
  Concrete codecs, and a federation-out shard on them, on which the theorems about the shard runtime
  are applied. The last section shows how the batching of entries shows through \<open>ctx_range\<close>.
\<close>

section \<open>Codecs\<close>

fun put_bytes :: "bytes \<Rightarrow> bytes" where
  "put_bytes [] = [byte 0]"
| "put_bytes (c # cs) = byte 1 # c # put_bytes cs"

fun get_bytes :: "bytes \<Rightarrow> (bytes \<times> bytes) option" where
  "get_bytes (t # c # r) =
     (if t = byte 0 then Some ([], c # r) else map_option (\<lambda>(s, r'). (c # s, r')) (get_bytes r))"
| "get_bytes [t] = (if t = byte 0 then Some ([], []) else None)"
| "get_bytes [] = None"

lemma get_put_bytes [simp]: "get_bytes (put_bytes s @ r) = Some (s, r)"
proof (induction s)
  case Nil
  then show ?case by (cases r) simp_all
qed simp

fun put_kvs :: "(bytes \<times> bytes) list \<Rightarrow> bytes" where
  "put_kvs [] = [byte 0]"
| "put_kvs ((k, v) # m) = byte 1 # put_bytes k @ put_bytes v @ put_kvs m"

fun get_kvs :: "nat \<Rightarrow> bytes \<Rightarrow> (bytes \<times> bytes) list option" where
  "get_kvs (Suc n) (t # r) =
     (if t = byte 0 then Some []
      else (case get_bytes r of
              Some (k, r1) \<Rightarrow> (case get_bytes r1 of
                Some (v, r2) \<Rightarrow> map_option ((#) (k, v)) (get_kvs n r2)
              | None \<Rightarrow> None)
            | None \<Rightarrow> None))"
| "get_kvs _ _ = None"

lemma get_put_kvs: "length m < n \<Longrightarrow> get_kvs n (put_kvs m) = Some m"
proof (induction m arbitrary: n)
  case Nil
  then show ?case by (cases n) simp_all
next
  case (Cons x m)
  then show ?case by (cases n; cases x) simp_all
qed

lemma length_put_kvs: "length m < length (put_kvs m)"
  by (induction m) auto

definition u64_codec :: "u64 codec" where
  "u64_codec = \<lparr>enc = u64_be, dec = u64_from_be\<rparr>"

definition u32_codec :: "u32 codec" where
  "u32_codec = \<lparr>enc = (\<lambda>w. be_bytes 4 (unat w)), dec = (\<lambda>b. Some (of_nat (of_be_bytes b)))\<rparr>"

definition log_id_codec :: "u64 option codec" where
  "log_id_codec = \<lparr>enc = (\<lambda>l. case l of None \<Rightarrow> [] | Some w \<Rightarrow> u64_be w),
     dec = (\<lambda>b. if b = [] then Some None else map_option Some (u64_from_be b))\<rparr>"

definition membership_codec :: "(u64, unit) stored_membership codec" where
  "membership_codec = \<lparr>enc = (\<lambda>(l, _). enc log_id_codec l), dec = (\<lambda>b. map_option (\<lambda>l. (l, ())) (dec log_id_codec b))\<rparr>"

definition entry_codec :: "(u64, unit) entry codec" where
  "entry_codec = \<lparr>
     enc = (\<lambda>e. u64_be (entry_log_id e) @ (case entry_payload e of
              Blank \<Rightarrow> [byte 0] | Normal c \<Rightarrow> byte 1 # c | Membership _ \<Rightarrow> [byte 2])),
     dec = (\<lambda>b. case (u64_from_be (take 8 b), drop 8 b) of
              (Some l, t # c) \<Rightarrow>
                if t = byte 0 then Some \<lparr>entry_log_id = l, entry_payload = Blank\<rparr>
                else if t = byte 1 then Some \<lparr>entry_log_id = l, entry_payload = Normal c\<rparr>
                else Some \<lparr>entry_log_id = l, entry_payload = Membership ()\<rparr>
            | _ \<Rightarrow> None)\<rparr>"

definition command_codec :: "runtime_command codec" where
  "command_codec = \<lparr>enc = (\<lambda>c. case c of Migrate to \<Rightarrow> enc u32_codec to), dec = (\<lambda>b. map_option Migrate (dec u32_codec b))\<rparr>"

definition response_codec :: "runtime_response codec" where
  "response_codec = \<lparr>enc = (\<lambda>r. case r of RuntimeOk \<Rightarrow> [] | RuntimeRejected w \<Rightarrow> CHR ''r'' # w),
     dec = (\<lambda>b. Some (case b of [] \<Rightarrow> RuntimeOk | _ # w \<Rightarrow> RuntimeRejected w))\<rparr>"

definition content_codec :: "(u64, unit) snapshot_content codec" where
  "content_codec = \<lparr>
     enc = (\<lambda>c. put_bytes (enc log_id_codec (sc_last_applied c)) @ put_bytes (enc membership_codec (sc_membership c))
                 @ u64_be (sc_seq c) @ put_kvs (sc_kv c)),
     dec = (\<lambda>b. case get_bytes b of
              Some (l, r) \<Rightarrow> (case get_bytes r of
                Some (m, r1) \<Rightarrow>
                  (case (dec log_id_codec l, dec membership_codec m, u64_from_be (take 8 r1), get_kvs (length r1) (drop 8 r1)) of
                     (Some la, Some mem, Some q, Some kvs) \<Rightarrow>
                       Some \<lparr>sc_last_applied = la, sc_membership = mem, sc_seq = q, sc_kv = kvs\<rparr>
                   | _ \<Rightarrow> None)
              | None \<Rightarrow> None)
            | None \<Rightarrow> None)\<rparr>"

lemma u64_codec_lossless [simp]: "lossless u64_codec"
  by (simp add: lossless_def u64_codec_def)

lemma u32_codec_lossless [simp]: "lossless u32_codec"
proof -
  have "unat (w :: u32) < 256 ^ 4" for w using unsigned_less[of w] by simp
  then show ?thesis by (simp add: lossless_def u32_codec_def of_be_be_bytes)
qed

lemma u64_be_nonempty [simp]: "u64_be w \<noteq> []"
  using length_u64_be[of w] by (metis list.size(3) zero_neq_numeral)

lemma log_id_codec_lossless [simp]: "lossless log_id_codec"
  by (simp add: lossless_def log_id_codec_def split: option.split)

lemma membership_codec_lossless [simp]: "lossless membership_codec"
  by (simp add: lossless_def membership_codec_def losslessD[OF log_id_codec_lossless])

lemma entry_codec_lossless [simp]: "lossless entry_codec"
  by (simp add: lossless_def entry_codec_def split: payload.split)

lemma command_codec_lossless [simp]: "lossless command_codec"
  by (simp add: lossless_def command_codec_def losslessD[OF u32_codec_lossless] split: runtime_command.split)

lemma response_codec_lossless [simp]: "lossless response_codec"
  by (simp add: lossless_def response_codec_def split: runtime_response.split)

lemma content_codec_lossless [simp]: "lossless content_codec"
proof -
  have "get_kvs (8 + length (put_kvs m)) (put_kvs m) = Some m" for m
    using length_put_kvs[of m] by (intro get_put_kvs) simp
  then show ?thesis
    by (simp add: lossless_def content_codec_def losslessD[OF log_id_codec_lossless] losslessD[OF membership_codec_lossless])
qed

definition raft :: "(u64, unit, unit) raft_types" where
  "raft = \<lparr>c_u32 = u32_codec, c_u64 = u64_codec, c_vote = \<lparr>enc = \<lambda>_. [], dec = \<lambda>_. Some ()\<rparr>,
     c_log_id = log_id_codec, c_entry = entry_codec, c_membership = membership_codec, c_command = command_codec,
     c_response = response_codec, c_content = content_codec,
     c_snapshot = \<lparr>enc = \<lambda>x. ss_data x, dec = \<lambda>_. None\<rparr>,
     log_index = id, leader_str = (\<lambda>_. ''L''), default_membership = (None, ())\<rparr>"

lemma raft_simps [simp]:
  "c_u32 raft = u32_codec" "c_u64 raft = u64_codec" "c_log_id raft = log_id_codec" "c_entry raft = entry_codec"
  "c_membership raft = membership_codec" "c_command raft = command_codec" "c_response raft = response_codec"
  "c_content raft = content_codec" "log_index raft = id"
  by (simp_all add: raft_def)

text \<open>A federation-out command codec that knows the two commands of the examples.\<close>

definition an_edu :: outbound_edu where
  "an_edu = \<lparr>edu_destination = ''a.test'', edu_json = ''{}''\<rparr>"

definition fedout_codec :: fedout_codecs where
  "fedout_codec = \<lparr>fc_command = \<lparr>enc = (\<lambda>c. case c of EnqueueEdus _ \<Rightarrow> ''E'' | _ \<Rightarrow> ''A''),
       dec = (\<lambda>b. if b = ''E'' then Some (EnqueueEdus [an_edu]) else if b = ''A'' then Some (AckEdus ''a.test'' 1) else None)\<rparr>,
     fc_response = \<lparr>enc = \<lambda>_. ''k'', dec = \<lambda>_. Some FedOutOk\<rparr>, fc_u64 = u64_codec\<rparr>"

definition enq_entry :: "(u64, unit) entry" where
  "enq_entry = \<lparr>entry_log_id = 1, entry_payload = Normal ''E''\<rparr>"

definition ack_entry :: "(u64, unit) entry" where
  "ack_entry = \<lparr>entry_log_id = 2, entry_payload = Normal ''A''\<rparr>"



abbreviation out_key :: "u64 \<Rightarrow> bytes" where
  "out_key q \<equiv> ctx_key FED_OUT_SHARD T_EDU_OUTBOX (dest_key ''a.test'' (u64_be q))"

abbreviation fed_meta :: "bytes \<Rightarrow> bytes" where
  "fed_meta k \<equiv> sm_meta_key FED_OUT_SHARD k"

abbreviation fed_apply :: "(u64, unit) entry list \<Rightarrow> kv \<Rightarrow> storage_error + bytes list \<times> kv \<times> (u64 \<times> bytes) list" where
  "fed_apply es db \<equiv> sm_apply raft (fedout_app fedout_codec) FED_OUT_SHARD es db"

definition db_enq :: kv where
  "db_enq = kv_write_batch [] [Put (out_key 1) ''{}'', Put (fed_meta K_LAST_APPLIED) (u64_be 1), Put (fed_meta K_SEQ) (u64_be 1)]"

definition db_both :: kv where
  "db_both = kv_write_batch [] [Put (out_key 1) ''{}'', Put (fed_meta K_LAST_APPLIED) (u64_be 2), Put (fed_meta K_SEQ) (u64_be 1)]"

definition db_acked :: kv where
  "db_acked = kv_write_batch db_enq [Delete (out_key 1), Put (fed_meta K_LAST_APPLIED) (u64_be 2)]"

lemma codec_enc: "enc u64_codec w = u64_be w" "enc log_id_codec (Some w) = u64_be w" "dec u64_codec (u64_be w) = Some w"
  by (simp_all add: u64_codec_def log_id_codec_def)

lemma not_prefix: "CHR ''E'' \<noteq> byte 255" "CHR ''A'' \<noteq> byte 255" "byte 255 \<noteq> CHR ''E''" "byte 255 \<noteq> CHR ''A''"
  by code_simp+

lemma fed_enq: "fedout_apply fedout_codec ctx ''E'' =
  Inr (''k'', ctx_put T_EDU_OUTBOX (dest_key ''a.test'' (u64_be (ctx_seq ctx + 1))) ''{}'' (snd (ctx_emit ''{}'' ctx)))"
  by (simp add: fedout_apply_def decode_r_def fedout_codec_def fedout_run_def an_edu_def ctx_emit_def Let_def)

lemma fed_ack: "fedout_apply fedout_codec ctx ''A'' = Inr (''k'', ack_edus ''a.test'' 1 ctx)"
  by (simp add: fedout_apply_def decode_r_def fedout_codec_def fedout_run_def)

lemma fed_apply_entry:
  "apply_entry raft (fedout_app fedout_codec) enq_entry (rs, ctx) =
     Inr (rs @ [''k''], ctx_put T_EDU_OUTBOX (dest_key ''a.test'' (u64_be (ctx_seq ctx + 1))) ''{}'' (snd (ctx_emit ''{}'' ctx)))"
  "apply_entry raft (fedout_app fedout_codec) ack_entry (rs, ctx) = Inr (rs @ [''k''], ack_edus ''a.test'' 1 ctx)"
  by (simp_all add: apply_entry_def enq_entry_def ack_entry_def apply_command_def RUNTIME_CMD_PREFIX_def not_prefix
    fedout_app_def fed_enq fed_ack)

lemma ack_empty: "ctx_engine ctx = [] \<Longrightarrow> ack_edus d q ctx = ctx"
  by (simp add: ack_edus_def ctx_range_def kv_range_def strip_entries_def Let_def)

lemma seq_empty: "sm_seq raft FED_OUT_SHARD [] = Inr 0"
  by (simp add: sm_seq_def get_cell_def kv_get_def)

lemma run_enq: "fed_apply [enq_entry] [] = Inr ([''k''], db_enq, [(1, ''{}'')])"
  by (simp add: sm_apply_def seq_empty fed_apply_entry Let_def ctx_emit_def ctx_put_def wb_put_def db_enq_def codec_enc)
     (simp add: enq_entry_def)

lemma run_both: "fed_apply [enq_entry, ack_entry] [] = Inr ([''k'', ''k''], db_both, [(1, ''{}'')])"
  by (simp add: sm_apply_def seq_empty fed_apply_entry Let_def ctx_emit_def ctx_put_def wb_put_def db_both_def codec_enc ack_empty)
     (simp add: ack_entry_def)

lemma db_get:
  "kv_get db_enq k = (if k = fed_meta K_SEQ then Some (u64_be 1) else if k = fed_meta K_LAST_APPLIED then Some (u64_be 1)
     else if k = out_key 1 then Some ''{}'' else None)"
  "kv_get db_both k = (if k = fed_meta K_SEQ then Some (u64_be 1) else if k = fed_meta K_LAST_APPLIED then Some (u64_be 2)
     else if k = out_key 1 then Some ''{}'' else None)"
  by (simp_all add: db_enq_def db_both_def rocks.read_write staged_def staged_op_def, simp_all add: kv_get_def)

lemma db_wf [simp]: "bt_wf db_enq" "bt_wf db_both" "bt_wf db_acked"
  unfolding db_enq_def db_both_def db_acked_def by (intro kv_write_batch_wf; simp)+

lemma seq_enq: "sm_seq raft FED_OUT_SHARD db_enq = Inr 1"
  by (simp add: sm_seq_def get_cell_def db_get decode_s_def codec_enc)




abbreviation fresh_ctx :: "kv \<Rightarrow> u64 \<Rightarrow> apply_ctx" where
  "fresh_ctx db q \<equiv> \<lparr>ctx_shard = FED_OUT_SHARD, ctx_engine = db, ctx_wb = [], ctx_seq = q, ctx_emits = []\<rparr>"

lemma a_test_no_nul [simp]: "no_nul ''a.test''"
  by (simp add: no_nul_def, code_simp)

theorem sm_apply_isolated_witness:
  "consecutive 0 [(1, ''{}'')] \<and> sm_seq raft FED_OUT_SHARD db_enq = Inr 1"
  using sm_apply_isolated[OF fedout.shard_app_axioms _ _ run_enq seq_empty] by simp

lemma ack_engine: "ctx_engine (ack_edus d q ctx) = ctx_engine ctx" "ctx_shard (ack_edus d q ctx) = ctx_shard ctx"
  "ctx_seq (ack_edus d q ctx) = ctx_seq ctx" "ctx_emits (ack_edus d q ctx) = ctx_emits ctx"
  by (simp_all add: ack_edus_def Let_def fold_delete_frame)

lemma run_ack:
  "fed_apply [ack_entry] db_enq =
     Inr ([''k''], kv_write_batch db_enq (wb_put (fed_meta K_LAST_APPLIED) (u64_be 2) (ctx_wb (ack_edus ''a.test'' 1 (fresh_ctx db_enq 1)))), [])"
  by (simp add: sm_apply_def seq_enq fed_apply_entry Let_def ack_engine codec_enc) (simp add: ack_entry_def)

lemma enq_row: "ctx_get (fresh_ctx db_enq 1) T_EDU_OUTBOX (dest_key ''a.test'' (u64_be 1)) = Some ''{}''"
  by (simp add: ctx_get_def staged_def Let_def db_get sm_meta_key_def fedout_tables)

text \<open>
  The outcome of applying the same two committed entries depends on how the Raft layer groups
  them: an acknowledgement applied in the same call as the enqueue it acknowledges leaves the row
  in the outbox, while applied in a later call it removes the row, because the range read of a
  context sees only what earlier calls wrote. Replicas that group the log differently diverge.
\<close>

theorem batching_changes_outcome:
  "\<exists>rs1 db1 em1 rs2 db2 em2 rs12 db12 em12.
     fed_apply [enq_entry] [] = Inr (rs1, db1, em1) \<and> fed_apply [ack_entry] db1 = Inr (rs2, db2, em2) \<and>
     fed_apply [enq_entry, ack_entry] [] = Inr (rs12, db12, em12) \<and> rs12 = rs1 @ rs2 \<and> em12 = em1 @ em2 \<and>
     kv_get db2 (out_key 1) = None \<and> kv_get db12 (out_key 1) = Some ''{}''"
proof -
  let ?c = "fresh_ctx db_enq 1"
  have "ctx_get (ack_edus ''a.test'' 1 ?c) T_EDU_OUTBOX (dest_key ''a.test'' (u64_be 1)) = None"
    using ack_get[of ?c "''a.test''" "''a.test''" 1 1] by simp
  then have "kv_get (kv_write_batch db_enq (ctx_wb (ack_edus ''a.test'' 1 ?c))) (out_key 1) = None"
    using committed_get[of "ack_edus ''a.test'' 1 ?c"] by (simp add: committed_def ack_engine)
  then have row: "kv_get (kv_write_batch db_enq (wb_put (fed_meta K_LAST_APPLIED) (u64_be 2) (ctx_wb (ack_edus ''a.test'' 1 ?c)))) (out_key 1) = None"
    by (simp add: kv_get_wb_put sm_meta_key_def fedout_tables)
  have "kv_get db_both (out_key 1) = Some ''{}''" by (simp add: db_get sm_meta_key_def fedout_tables)
  with row show ?thesis using run_enq run_ack run_both by auto
qed

theorem ack_edus_exact_witness:
  "ctx_get (ack_edus ''a.test'' 1 (fresh_ctx db_enq 1)) T_EDU_OUTBOX (dest_key ''a.test'' (u64_be 1)) = None"
  using ack_edus_exact[of "fresh_ctx db_enq 1" "''a.test''" "''a.test''" 1 1] by simp

theorem ack_edus_wraps_witness:
  "ctx_get (ack_edus ''a.test'' (- 1) (fresh_ctx db_enq 1)) T_EDU_OUTBOX (dest_key ''a.test'' (u64_be 1)) = Some ''{}''"
  using ack_edus_wraps[of "fresh_ctx db_enq 1" "''a.test''" 1] enq_row by simp

theorem enqueue_edus_exact_witness:
  "ctx_get (enqueue_edus [an_edu, an_edu] (fresh_ctx db_enq 1)) T_EDU_OUTBOX (dest_key ''a.test'' (u64_be 3)) = Some ''{}''"
  using enqueue_edus_exact[of "[an_edu, an_edu]" "fresh_ctx db_enq 1" "''a.test''" 3] by (simp add: an_edu_def)

theorem edu_outbox_exact_witness:
  "\<exists>rows. edu_outbox \<lparr>rd_shard = FED_OUT_SHARD, rd_engine = db_enq\<rparr> ''a.test'' 10 = Inr (take 10 rows) \<and>
     sorted_wrt (<) (map fst rows) \<and> (1, ''{}'') \<in> set rows"
proof -
  let ?rd = "\<lparr>rd_shard = FED_OUT_SHARD, rd_engine = db_enq\<rparr>"
  have rows: "rd_get ?rd T_EDU_OUTBOX k = (if k = dest_key ''a.test'' (u64_be 1) then Some ''{}'' else None)" for k
    by (simp add: rd_get_def db_get sm_meta_key_def fedout_tables)
  then have "outbox_ok ?rd" by (auto simp: outbox_ok_def split: if_splits intro!: exI[of _ "''a.test''"])
  from edu_outbox_exact[OF this, of "''a.test''" 10] show ?thesis using rows by auto
qed

theorem cursors_monotone_witness:
  "\<exists>m. cell_value u64_codec (ctx_put T_PDU_CURSOR (cursor_key 3 ''a.test'') (u64_be 9) (fresh_ctx [] 0)) T_PDU_CURSOR
          (cursor_key 3 ''a.test'') = Some m \<and> 0 \<le> m \<and> m = 9"
proof -
  let ?c = "fresh_ctx [] 0"
  have codec: "fc_u64 fedout_codec = u64_codec" by (simp add: fedout_codec_def)
  have get: "ctx_get ?c t k = None" for t k by (simp add: ctx_get_def staged_def Let_def kv_get_def)
  then have run: "fedout_run fedout_codec (AdvancePduCursor 3 ''a.test'' 9) ?c =
      Inr (ctx_put T_PDU_CURSOR (cursor_key 3 ''a.test'') (u64_be 9) ?c)"
    by (simp add: fedout_run_def advance_cell_def codec codec_enc)
  have "cell_value (fc_u64 fedout_codec) ?c T_PDU_CURSOR (cursor_key 3 ''a.test'') = Some 0"
    by (simp add: cell_value_def get)
  from cursors_monotone[OF _ run _ this, of 3 "''a.test''" 9] show ?thesis
    by (simp add: codec is_cursor_def)
qed

theorem migrate_exact_witness:
  "\<exists>why. dec response_codec (enc response_codec (RuntimeRejected ''migration step'')) = Some (RuntimeRejected why)"
proof -
  let ?c = "fresh_ctx [] 0"
  have get: "ctx_get ?c t k = None" for t k by (simp add: ctx_get_def staged_def Let_def kv_get_def)
  have cur: "stored_schema_version (c_u32 raft) (committed ?c) (ctx_shard ?c) = Inr 1"
    by (simp add: stored_schema_version_def committed_def kv_write_batch_def kv_get_def)
  have run: "apply_runtime raft (fedout_app fedout_codec) ?c (enc (c_command raft) (Migrate 7)) =
      Inr (enc (c_response raft) (RuntimeRejected ''migration step''), ?c)"
    using get[of T_SCHEMA K_SCHEMA_VERSION] by (simp add: apply_runtime_def)
  show ?thesis using migrate_exact[OF _ _ _ cur _ run] by simp
qed




theorem log_ops_exact_witness:
  "log_at FED_OUT_SHARD (log_append raft FED_OUT_SHARD [enq_entry, ack_entry] []) 2 = Some (enc entry_codec ack_entry) \<and>
   log_at FED_OUT_SHARD (log_truncate raft FED_OUT_SHARD 1 (log_append raft FED_OUT_SHARD [enq_entry, ack_entry] [])) 2 = None \<and>
   log_at FED_OUT_SHARD (log_purge raft FED_OUT_SHARD 1 (log_append raft FED_OUT_SHARD [enq_entry, ack_entry] [])) 2
     = Some (enc entry_codec ack_entry)"
proof -
  let ?db = "log_append raft FED_OUT_SHARD [enq_entry, ack_entry] []"
  have wf: "bt_wf ?db" unfolding log_append_def by (rule kv_write_batch_wf) simp
  have 1: "log_at FED_OUT_SHARD ?db 2 = Some (enc entry_codec ack_entry)"
    using log_ops_exact[of "[]" raft 1 FED_OUT_SHARD "[enq_entry, ack_entry]" 2] by (simp add: ack_entry_def)
  have "\<not> (2 :: u64) \<le> 1" by (simp add: word_le_nat_alt)
  then show ?thesis using 1 log_ops_exact[OF wf, of raft 1 FED_OUT_SHARD "[]" 2] by simp
qed

theorem log_read_exact_witness:
  "\<exists>es. try_get_log_entries raft FED_OUT_SHARD (log_append raft FED_OUT_SHARD [ack_entry] []) (Included 0) (Excluded 9) = Inr es \<and>
     ack_entry \<in> set es"
proof -
  let ?db = "log_append raft FED_OUT_SHARD [ack_entry] []"
  have id2: "entry_log_id ack_entry = 2" by (simp add: ack_entry_def)
  have db: "kv_get ?db k = (if k = log_key FED_OUT_SHARD 2 then Some (enc entry_codec ack_entry) else None)" for k
    by (simp add: log_append_def wb_put_def kv_write_batch_def kv_put_def kv_get_def ack_entry_def)
  have wf: "bt_wf ?db" unfolding log_append_def by (rule kv_write_batch_wf) simp
  then have "log_ok raft FED_OUT_SHARD ?db" using losslessD[OF entry_codec_lossless, of ack_entry]
    by (auto simp: log_ok_def db id2 split: if_splits)
  from log_read_exact[OF this, of 9 0] show ?thesis
    using losslessD[OF entry_codec_lossless, of ack_entry] by (auto simp: log_at_def db id2)
qed

lemma db_enq_laid_out: "laid_out db_enq"
proof -
  have "\<exists>v. kv_get db_enq k = Some v" if "k \<in> fst ` set db_enq" for k
    using that bt_get_mem[OF db_wf(1)] unfolding kv_get_def by force
  then show ?thesis unfolding laid_out_def db_get sm_meta_key_def ctx_key_def by (metis option.distinct(1))
qed

theorem snapshot_transfer_witness:
  "\<exists>meta data db1 db2. build_snapshot raft FED_OUT_SHARD db_enq = Inr (meta, data, db1) \<and>
     install_snapshot raft FED_OUT_SHARD meta data [] = Inr db2 \<and>
     sm_seq raft FED_OUT_SHARD db2 = Inr 1 \<and> kv_get db2 (out_key 1) = Some ''{}''"
proof -
  have cells: "last_applied raft FED_OUT_SHARD db_enq = Inr (Some 1)" "sm_membership raft FED_OUT_SHARD db_enq = Inr (None, ())"
    "get_cell db_enq (fed_meta K_SNAPSHOT_SEQ) u64_codec = Inr None"
    using losslessD[OF log_id_codec_lossless, of "Some 1"]
    by (simp_all add: last_applied_def sm_membership_def get_cell_def db_get sm_meta_key_def cell_names decode_s_def codec_enc
        fedout_tables raft_def)
  obtain meta data db1 where b: "build_snapshot raft FED_OUT_SHARD db_enq = Inr (meta, data, db1)"
    unfolding build_snapshot_def next_snapshot_seq_def using cells seq_enq by (simp add: Let_def)
  then have "\<exists>c. dec content_codec data = Some c"
    using cells seq_enq losslessD[OF content_codec_lossless] by (auto simp: build_snapshot_def next_snapshot_seq_def Let_def)
  then obtain db2 where i: "install_snapshot raft FED_OUT_SHARD meta data [] = Inr db2"
    by (auto simp: install_snapshot_def decode_s_def Let_def)
  have "kv_get db_enq (out_key 1) = Some ''{}''" by (simp add: db_get sm_meta_key_def fedout_tables)
  moreover have "sm_seq raft FED_OUT_SHARD db2 = Inr 1" "kv_get db2 (out_key 1) = kv_get db_enq (out_key 1)"
    using snapshot_transfer[OF db_wf(1) db_enq_laid_out _ _ _ _ _ b i] seq_enq by simp_all
  ultimately show ?thesis using b i by auto
qed


end
