(* ===== verification/Placement.thy ===== *)
theory Placement
  imports Shard
begin

text \<open>
  Placement of shard groups and media blobs on the nodes of a cluster (\<open>placement.rs\<close> of
  \<open>saltator-cluster\<close>): the roster and its transitions, rendezvous hashing, replica sets and the
  quorum a blob needs.
\<close>

unbundle bit_operations_syntax

section \<open>Topology and roster\<close>

type_synonym node_id = u64

record cluster_config =
  room_shards :: u16
  user_shards :: u16
  replication_factor :: u8

definition default_config :: cluster_config where
  "default_config = \<lparr>room_shards = 1, user_shards = 1, replication_factor = 3\<rparr>"

definition shard_groups :: "keyspace \<Rightarrow> u16 \<Rightarrow> u64 list" where
  "shard_groups ks n = map (\<lambda>i. group \<lparr>sid_keyspace = ks, sid_index = of_nat i\<rparr>) [0..<unat n]"

definition data_groups :: "cluster_config \<Rightarrow> u64 list" where
  "data_groups config =
     shard_groups Room (room_shards config) @ shard_groups User (user_shards config)
     @ [group \<lparr>sid_keyspace = FedOut, sid_index = 0\<rparr>]"

datatype node_status = Active | Draining | Unreachable

record node_info =
  advertise_addr :: string
  node_status :: node_status

type_synonym roster = "(node_id, node_info) btree_map"

definition active_nodes :: "roster \<Rightarrow> node_id btree_set" where
  "active_nodes r = map fst (filter (\<lambda>(_, i). node_status i = Active) r)"

datatype roster_error = UnknownNode | LastActiveNode | NotDraining

text \<open>\<open>next.entry(node).and_modify(|i| i.status = s)\<close>.\<close>

definition set_status :: "node_id \<Rightarrow> node_status \<Rightarrow> roster \<Rightarrow> roster" where
  "set_status node s r = map (\<lambda>(n, i). if n = node then (n, i\<lparr>node_status := s\<rparr>) else (n, i)) r"

definition plan_drain :: "roster \<Rightarrow> node_id \<Rightarrow> roster_error + roster" where
  "plan_drain r node =
     rbind (ok_or UnknownNode (bt_get r node)) (\<lambda>info.
       if node_status info = Active \<and> length (active_nodes r) \<le> 1 then Inl LastActiveNode
       else Inr (set_status node Draining r))"

definition plan_undrain :: "roster \<Rightarrow> node_id \<Rightarrow> roster_error + roster" where
  "plan_undrain r node =
     (if bt_get r node = None then Inl UnknownNode else Inr (set_status node Active r))"

definition plan_mark_unreachable :: "roster \<Rightarrow> node_id \<Rightarrow> roster_error + roster" where
  "plan_mark_unreachable r node =
     rbind (ok_or UnknownNode (bt_get r node)) (\<lambda>info.
       if node_status info \<noteq> Active then Inr r
       else if length (active_nodes r) \<le> 1 then Inl LastActiveNode
       else Inr (set_status node Unreachable r))"

definition plan_mark_reachable :: "roster \<Rightarrow> node_id \<Rightarrow> roster_error + roster" where
  "plan_mark_reachable r node =
     rbind (ok_or UnknownNode (bt_get r node)) (\<lambda>info.
       if node_status info \<noteq> Unreachable then Inr r
       else Inr (set_status node Active r))"

definition plan_removal :: "roster \<Rightarrow> node_id \<Rightarrow> roster_error + roster" where
  "plan_removal r node =
     rbind (ok_or UnknownNode (bt_get r node)) (\<lambda>info.
       if node_status info \<noteq> Draining then Inl NotDraining
       else Inr (bt_remove node r))"

section \<open>Rendezvous hashing\<close>

definition score :: "u64 \<Rightarrow> node_id \<Rightarrow> u64" where
  "score g node =
     (let x0 = (g * 0x9E3779B97F4A7C15) XOR (node * 0xD6E8FEB86659FD93);
          x1 = (x0 XOR drop_bit 30 x0) * 0xBF58476D1CE4E5B9;
          x2 = (x1 XOR drop_bit 27 x1) * 0x94D049BB133111EB
      in x2 XOR drop_bit 31 x2)"

definition ranked :: "u64 \<Rightarrow> node_id btree_set \<Rightarrow> node_id list" where
  "ranked g nodes = sort_key (\<lambda>n. (Reverse (score g n), n)) nodes"

type_synonym placement = "(u64, node_id list) btree_map"

definition replicas :: "placement \<Rightarrow> u64 \<Rightarrow> node_id list" where
  "replicas p g = (case bt_get p g of Some r \<Rightarrow> r | None \<Rightarrow> [])"

definition groups_for :: "placement \<Rightarrow> node_id \<Rightarrow> u64 list" where
  "groups_for p node = map fst (filter (\<lambda>(_, r). node \<in> set r) p)"

definition room_rf :: "cluster_config \<Rightarrow> u8 option \<Rightarrow> node_id btree_set \<Rightarrow> nat" where
  "room_rf config rf_cap nodes =
     (case rf_cap of
        Some cap \<Rightarrow> max (unat cap) 1
      | None \<Rightarrow> max (min (unat (replication_factor config)) (length nodes)) 1)"

definition is_room_group :: "u64 \<Rightarrow> bool" where
  "is_room_group g = (case from_group g of Some s \<Rightarrow> sid_keyspace s = Room | None \<Rightarrow> False)"

definition group_replicas :: "cluster_config \<Rightarrow> u8 option \<Rightarrow> node_id btree_set \<Rightarrow> u64 \<Rightarrow> node_id list" where
  "group_replicas config rf_cap nodes g =
     take (if is_room_group g then room_rf config rf_cap nodes else length nodes) (ranked g nodes)"

definition assign :: "cluster_config \<Rightarrow> u8 option \<Rightarrow> node_id btree_set \<Rightarrow> placement" where
  "assign config rf_cap nodes =
     fold (\<lambda>g. bt_insert g (group_replicas config rf_cap nodes g)) (data_groups config) []"

section \<open>Blobs\<close>

definition blob_key :: "string \<Rightarrow> u64" where
  "blob_key blob_id =
     fold (\<lambda>b h. (h XOR of_nat (byte_val b)) * 0x00000100000001B3) blob_id 0xCBF29CE484222325
     XOR 0x424C4F42424C4F42"

definition blob_replicas :: "string \<Rightarrow> u8 \<Rightarrow> node_id btree_set \<Rightarrow> node_id list" where
  "blob_replicas blob_id rf nodes =
     take (max (min (unat rf) (length nodes)) 1) (ranked (blob_key blob_id) nodes)"

definition may_evict :: "roster \<Rightarrow> node_id \<Rightarrow> bool" where
  "may_evict r node \<longleftrightarrow> node \<in> set (active_nodes r)"

definition blob_quorum :: "nat \<Rightarrow> nat" where
  "blob_quorum n = n div 2 + 1"



section \<open>The roster keeps an active node\<close>

lemma set_status_get:
  "bt_get (set_status node s r) n = (if n = node then map_option (\<lambda>i. i\<lparr>node_status := s\<rparr>) (bt_get r n) else bt_get r n)"
  by (induction r) (auto simp: set_status_def)

lemma set_status_keys [simp]: "map fst (set_status node s r) = map fst r"
  by (induction r) (auto simp: set_status_def)

lemma active_mem: "bt_wf r \<Longrightarrow> n \<in> set (active_nodes r) \<longleftrightarrow> (\<exists>i. bt_get r n = Some i \<and> node_status i = Active)"
  by (force simp: active_nodes_def bt_get_mem[symmetric])

lemma active_wf: "bt_wf r \<Longrightarrow> bs_wf (active_nodes r)"
  by (induction r) (auto simp: active_nodes_def)

text \<open>
  A transition of the roster: one of the five plans accepted for some node, or the admission of a
  node, which records it as active.
\<close>

inductive roster_step :: "roster \<Rightarrow> roster \<Rightarrow> bool" where
  drain: "plan_drain r node = Inr r' \<Longrightarrow> roster_step r r'"
| undrain: "plan_undrain r node = Inr r' \<Longrightarrow> roster_step r r'"
| unreachable: "plan_mark_unreachable r node = Inr r' \<Longrightarrow> roster_step r r'"
| reachable: "plan_mark_reachable r node = Inr r' \<Longrightarrow> roster_step r r'"
| removal: "plan_removal r node = Inr r' \<Longrightarrow> roster_step r r'"
| admit: "roster_step r (bt_insert node \<lparr>advertise_addr = addr, node_status = Active\<rparr> r)"

lemma other_active:
  assumes "bt_wf r" and "\<not> length (active_nodes r) \<le> 1"
  shows "\<exists>m \<in> set (active_nodes r). m \<noteq> node"
proof (rule ccontr)
  assume "\<not> ?thesis"
  then have "set (active_nodes r) \<subseteq> {node}" by auto
  then have "card (set (active_nodes r)) \<le> 1" using card_mono[of "{node}"] by fastforce
  then show False using assms bs_wf_distinct[OF active_wf[OF assms(1)]] distinct_card by fastforce
qed

lemma set_status_keeps_active:
  assumes "bt_wf r" and "m \<in> set (active_nodes r)" and "m \<noteq> node \<or> s = Active"
  shows "m \<in> set (active_nodes (set_status node s r))"
  using assms active_mem[of r m] active_mem[of "set_status node s r" m] by (auto simp: set_status_get)

lemma roster_step_wf: "roster_step r r' \<Longrightarrow> bt_wf r \<Longrightarrow> bt_wf r'"
  by (induction rule: roster_step.induct)
     (auto simp: plan_drain_def plan_undrain_def plan_mark_unreachable_def plan_mark_reachable_def plan_removal_def
       split: if_splits)

lemma roster_step_active:
  assumes "roster_step r r'" and "bt_wf r" and "active_nodes r \<noteq> []"
  shows "active_nodes r' \<noteq> []"
proof -
  obtain m where m: "m \<in> set (active_nodes r)" using assms(3) by (cases "active_nodes r") auto
  have keep: "active_nodes (set_status node s r) \<noteq> []" if "s = Active \<or> \<not> length (active_nodes r) \<le> 1 \<or> node \<notin> set (active_nodes r)" for node s
    using that set_status_keeps_active[OF assms(2)] other_active[OF assms(2)] m by (metis empty_iff list.set(1))
  from assms(1) show ?thesis
  proof cases
    case (removal node)
    then have "m \<noteq> node" using m active_mem[OF assms(2)] by (auto simp: plan_removal_def split: if_splits)
    with removal m have "m \<in> set (active_nodes r')"
      using active_mem[OF assms(2)] active_mem[of r' m] assms(2) by (auto simp: plan_removal_def split: if_splits)
    then show ?thesis by auto
  next
    case (admit node addr)
    then have "node \<in> set (active_nodes r')" using active_mem[of r' node] assms(2) by auto
    then show ?thesis by auto
  qed (use keep active_mem[OF assms(2)] assms(3) in \<open>auto simp: plan_drain_def plan_undrain_def plan_mark_unreachable_def
        plan_mark_reachable_def split: if_splits\<close>)
qed




section \<open>The scorer has no ties\<close>

lemma xor_left_cancel: "x XOR y = x XOR z \<longleftrightarrow> y = z" for x y z :: u64
proof
  assume "x XOR y = x XOR z"
  then have "x XOR (x XOR y) = x XOR (x XOR z)" by (rule arg_cong)
  then show "y = z" by (simp add: xor.assoc[symmetric])
qed simp

lemma xor_zero: "x XOR y = 0 \<longleftrightarrow> x = y" for x y :: u64
  using xor_left_cancel[of x y x] by auto

lemma xorshift_inj:
  fixes x y :: u64
  assumes "x XOR drop_bit (Suc k) x = y XOR drop_bit (Suc k) y"
  shows "x = y"
proof -
  define z where "z = x XOR y"
  have "(x XOR drop_bit (Suc k) x) XOR (y XOR drop_bit (Suc k) y) = 0" using assms by simp
  then have shift: "z XOR drop_bit (Suc k) z = 0"
    unfolding z_def by (simp add: drop_bit_xor ac_simps)
  then have "z = drop_bit (Suc k) z" by (simp only: xor_zero)
  then have bits: "bit z i \<longleftrightarrow> bit z (Suc k + i)" for i by (metis bit_drop_bit_eq comp_apply)
  have "\<not> bit z i" for i
  proof (induction "64 - i" arbitrary: i rule: less_induct)
    case less
    show ?case
    proof (cases "i < 64")
      case True
      then show ?thesis using less[of "Suc k + i"] bits[of i] by simp
    next
      case False
      then show ?thesis using bit_imp_le_length[of z i] by auto
    qed
  qed
  then have "z = 0" by (intro bit_word_eqI) simp
  then show ?thesis by (simp add: z_def xor_zero)
qed

lemma mult_inj:
  fixes x y c d :: u64
  assumes "x * c = y * c" and "c * d = 1"
  shows "x = y"
proof -
  have "x = x * (c * d)" "y = y * (c * d)" using assms(2) by simp_all
  then show ?thesis using assms(1) by (metis mult.assoc)
qed

lemma score_inject: "score g a = score g b \<longleftrightarrow> a = b"
proof
  assume eq: "score g a = score g b"
  let ?x0 = "\<lambda>n. (g * 0x9E3779B97F4A7C15) XOR (n * 0xD6E8FEB86659FD93) :: u64"
  let ?x1 = "\<lambda>x. (x XOR drop_bit (Suc 29) x) * 0xBF58476D1CE4E5B9 :: u64"
  let ?x2 = "\<lambda>x. (x XOR drop_bit (Suc 26) x) * 0x94D049BB133111EB :: u64"
  have "?x2 (?x1 (?x0 a)) XOR drop_bit (Suc 30) (?x2 (?x1 (?x0 a))) = ?x2 (?x1 (?x0 b)) XOR drop_bit (Suc 30) (?x2 (?x1 (?x0 b)))"
    using eq by (simp add: score_def Let_def)
  then have "?x2 (?x1 (?x0 a)) = ?x2 (?x1 (?x0 b))" by (rule xorshift_inj)
  then have "?x1 (?x0 a) XOR drop_bit (Suc 26) (?x1 (?x0 a)) = ?x1 (?x0 b) XOR drop_bit (Suc 26) (?x1 (?x0 b))"
    by (rule mult_inj[where d = "0x319642B2D24D8EC3"]) simp
  then have "?x1 (?x0 a) = ?x1 (?x0 b)" by (rule xorshift_inj)
  then have "?x0 a XOR drop_bit (Suc 29) (?x0 a) = ?x0 b XOR drop_bit (Suc 29) (?x0 b)"
    by (rule mult_inj[where d = "0x96DE1B173F119089"]) simp
  then have "?x0 a = ?x0 b" by (rule xorshift_inj)
  then have "a * 0xD6E8FEB86659FD93 = b * 0xD6E8FEB86659FD93" by (simp only: xor_left_cancel)
  then show "a = b" by (rule mult_inj[where d = "0xCFEE444D8B59A89B"]) simp
qed simp



section \<open>Rankings and replica sets\<close>

abbreviation rank_key :: "u64 \<Rightarrow> node_id \<Rightarrow> u64 reverse \<times> node_id" where
  "rank_key g n \<equiv> (Reverse (score g n), n)"

lemma set_ranked [simp]: "set (ranked g nodes) = set nodes"
  by (simp add: ranked_def)

lemma length_ranked [simp]: "length (ranked g nodes) = length nodes"
  by (simp add: ranked_def)

lemma distinct_ranked [simp]: "distinct (ranked g nodes) = distinct nodes"
  by (simp add: ranked_def)

text \<open>Scores never tie, so a ranking is strictly decreasing in the score.\<close>

lemma ranked_strict:
  assumes "distinct nodes"
  shows "sorted_wrt (\<lambda>a b. score g b < score g a) (ranked g nodes)"
proof -
  have "sorted (map (rank_key g) (ranked g nodes))" by (simp add: ranked_def)
  then have le: "sorted_wrt (\<lambda>a b. rank_key g a \<le> rank_key g b) (ranked g nodes)" by (simp only: sorted_map)
  have "sorted_wrt (\<lambda>a b. rank_key g a \<le> rank_key g b \<and> a \<noteq> b) (ranked g nodes)"
    using le assms by (simp add: sorted_wrt_iff_nth_less nth_eq_iff_index_eq)
  then show ?thesis
  proof (rule sorted_wrt_mono_rel[rotated])
    fix a b
    assume "rank_key g a \<le> rank_key g b \<and> a \<noteq> b"
    then show "score g b < score g a"
      using score_inject[of g a b] by (auto simp: less_eq_reverse_def less_reverse_def less_eq_prod_def)
  qed
qed

lemma ranked_insert:
  assumes "n \<notin> set nodes" and "bs_wf nodes"
  shows "ranked g (bs_insert n nodes) = insort_key (rank_key g) n (ranked g nodes)"
proof -
  have "distinct (bs_insert n nodes)" "distinct nodes" using assms(2) by (simp_all add: bs_wf_distinct)
  then have "mset (bs_insert n nodes) = mset (insort_key (rank_key g) n (ranked g nodes))"
    using assms(1) by (subst set_eq_iff_mset_eq_distinct[symmetric]) (auto simp: distinct_insort set_insort_key)
  then show ?thesis unfolding ranked_def
    by (intro sort_key_inj_key_eq) (auto simp: inj_on_def sorted_insort_key)
qed

lemma take_insort_set: "set (take k (insort_key f n xs)) \<subseteq> insert n (set (take k xs))"
proof (induction xs arbitrary: k)
  case Nil
  then show ?case by (cases k) auto
next
  case (Cons y ys)
  show ?case
  proof (cases k)
    case (Suc j)
    have "set (take j (y # ys)) \<subseteq> insert y (set (take j ys))" using set_take_subset_set_take[of j "Suc j" "y # ys"] by simp
    then show ?thesis using Suc Cons[of j] by auto
  qed simp
qed

lemma take_insort_lost:
  assumes "distinct (n # xs)"
  shows "card (set (take k xs) - set (take k (insort_key f n xs))) \<le> 1"
proof -
  let ?A = "set (take k xs)" and ?B = "set (take k (insort_key f n xs))"
  have d: "distinct (take k xs)" "distinct (take k (insort_key f n xs))"
    using assms by (auto simp: distinct_insort)
  then have "card ?A \<le> card ?B" by (simp add: distinct_card length_insort)
  moreover have "?B - {n} \<subseteq> ?A \<inter> ?B" using take_insort_set[of k f n xs] by blast
  then have "card ?B - 1 \<le> card (?A \<inter> ?B)" using card_mono[of "?A \<inter> ?B" "?B - {n}"] card_Diff_singleton_if[of ?B n] by (simp split: if_splits)
  moreover have "card (?A - ?B) = card ?A - card (?A \<inter> ?B)" by (rule card_Diff_subset_Int) simp
  ultimately show ?thesis by linarith
qed

text \<open>The replica set of a key at a size, and how it reacts to a new node.\<close>

lemma top_join:
  assumes "n \<notin> set nodes" and "bs_wf nodes" and "k = k' \<or> length nodes \<le> k \<and> k \<le> k'"
  shows "set (take k' (ranked g (bs_insert n nodes))) \<subseteq> insert n (set (take k (ranked g nodes)))"
    and "card (set (take k (ranked g nodes)) - set (take k' (ranked g (bs_insert n nodes)))) \<le> 1"
proof -
  have d: "distinct (n # ranked g nodes)" using assms(1,2) bs_wf_distinct by auto
  show "set (take k' (ranked g (bs_insert n nodes))) \<subseteq> insert n (set (take k (ranked g nodes)))"
    using assms(3)
  proof
    assume "length nodes \<le> k \<and> k \<le> k'"
    then show ?thesis using set_take_subset[of k' "ranked g (bs_insert n nodes)"] by auto
  qed (simp add: ranked_insert[OF assms(1,2)] take_insort_set)
  have "set (take k (ranked g nodes)) - set (take k' (ranked g (bs_insert n nodes)))
      \<subseteq> set (take k (ranked g nodes)) - set (take k (ranked g (bs_insert n nodes)))"
    using assms(3) set_take_subset_set_take[of k k' "ranked g (bs_insert n nodes)"] by auto
  moreover have "card (set (take k (ranked g nodes)) - set (take k (ranked g (bs_insert n nodes)))) \<le> 1"
    unfolding ranked_insert[OF assms(1,2)] by (rule take_insort_lost[OF d])
  ultimately show "card (set (take k (ranked g nodes)) - set (take k' (ranked g (bs_insert n nodes)))) \<le> 1"
    by (meson List.finite_set card_mono finite_Diff order_trans)
qed

lemma length_bs_insert_new: "n \<notin> set s \<Longrightarrow> length (bs_insert n s) = Suc (length s)"
  by (induction s) auto

lemma assign_get:
  "bt_get (assign config cap nodes) g =
     (if g \<in> set (data_groups config) then Some (group_replicas config cap nodes g) else None)"
proof -
  have "bt_get (fold (\<lambda>g. bt_insert g (f g)) gs m) g = (if g \<in> set gs then Some (f g) else bt_get m g)"
    for f :: "u64 \<Rightarrow> node_id list" and gs m
    by (induction gs arbitrary: m) auto
  then show ?thesis by (simp add: assign_def)
qed

lemma replicas_assign:
  "replicas (assign config cap nodes) g = (if g \<in> set (data_groups config) then group_replicas config cap nodes g else [])"
  by (simp add: replicas_def assign_get)

definition group_size :: "cluster_config \<Rightarrow> u8 option \<Rightarrow> nat \<Rightarrow> u64 \<Rightarrow> nat" where
  "group_size config cap n g =
     (if \<exists>i. g = group \<lparr>sid_keyspace = Room, sid_index = i\<rparr>
      then min n (max 1 (unat (case cap of Some c \<Rightarrow> c | None \<Rightarrow> replication_factor config)))
      else n)"

lemma group_size_pos: "0 < n \<Longrightarrow> 0 < group_size config cap n g"
  by (simp add: group_size_def less_max_iff_disj)

lemma is_room_iff:
  assumes "g \<in> set (data_groups config)"
  shows "is_room_group g \<longleftrightarrow> (\<exists>i. g = group \<lparr>sid_keyspace = Room, sid_index = i\<rparr>)"
  using assms by (auto simp: data_groups_def shard_groups_def is_room_group_def group_inject)

lemma length_group_replicas:
  assumes "g \<in> set (data_groups config)" and "nodes \<noteq> []"
  shows "length (group_replicas config cap nodes g) = group_size config cap (length nodes) g"
  using assms(2) is_room_iff[OF assms(1)]
  by (cases nodes) (auto simp: group_replicas_def group_size_def room_rf_def split: option.split)

text \<open>
  The placement hosts every data group, and only those: on distinct nodes of the given set, as
  many as the replication factor (or the override) asks for and the cluster has, at least one; user
  and federation-out groups on all of them. The hosts are listed by strictly decreasing weight, and
  every node left out weighs less than every node chosen.
\<close>

theorem assign_exact:
  assumes "bs_wf nodes" and "nodes \<noteq> []" and "hosts = replicas (assign config cap nodes) g"
  shows "if g \<in> set (data_groups config)
    then hosts \<noteq> [] \<and> distinct hosts \<and> set hosts \<subseteq> set nodes \<and>
      length hosts = group_size config cap (length nodes) g \<and>
      sorted_wrt (\<lambda>a b. score g b < score g a) hosts \<and>
      (\<forall>a \<in> set hosts. \<forall>b \<in> set nodes - set hosts. score g b < score g a)
    else hosts = []"
proof (cases "g \<in> set (data_groups config)")
  case True
  have d: "distinct nodes" using assms(1) by (rule bs_wf_distinct)
  define k where "k = (if is_room_group g then room_rf config cap nodes else length nodes)"
  have hosts: "hosts = take k (ranked g nodes)"
    using True assms(3) by (simp add: replicas_assign group_replicas_def k_def)
  have sw: "sorted_wrt (\<lambda>a b. score g b < score g a) (take k (ranked g nodes) @ drop k (ranked g nodes))"
    using ranked_strict[OF d] by simp
  have rest: "set nodes - set hosts \<subseteq> set (drop k (ranked g nodes))"
    using set_ranked[of g nodes] unfolding hosts by (metis DiffD1 DiffD2 UnE append_take_drop_id set_append subsetI)
  have len: "length hosts = group_size config cap (length nodes) g"
    using True assms(2,3) by (simp add: replicas_assign length_group_replicas)
  moreover have "0 < length nodes" using assms(2) by simp
  ultimately have "0 < length hosts" by (simp add: group_size_pos)
  then have "hosts \<noteq> []" by simp
  moreover have "set hosts \<subseteq> set nodes" using set_take_subset[of k "ranked g nodes"] by (simp add: hosts)
  ultimately show ?thesis using True d len sw rest unfolding hosts sorted_wrt_append by auto
qed (simp add: assms(3) replicas_assign)

lemma group_replicas_join:
  assumes "n \<notin> set nodes" and "bs_wf nodes"
  shows "set (group_replicas config cap (bs_insert n nodes) g) \<subseteq> insert n (set (group_replicas config cap nodes g)) \<and>
    card (set (group_replicas config cap nodes g) - set (group_replicas config cap (bs_insert n nodes) g)) \<le> 1"
proof -
  let ?k = "if is_room_group g then room_rf config cap nodes else length nodes"
  let ?k' = "if is_room_group g then room_rf config cap (bs_insert n nodes) else length (bs_insert n nodes)"
  have "?k = ?k' \<or> length nodes \<le> ?k \<and> ?k \<le> ?k'"
    using assms(1) by (auto simp: room_rf_def length_bs_insert_new split: option.split)
  then show ?thesis using top_join[OF assms, of ?k ?k' g] by (simp add: group_replicas_def)
qed

text \<open>
  A node that joins disturbs the cluster as little as possible: in every data group the new
  replica set consists of the newcomer and members of the old one, and at most one old member is
  displaced. Read the other way, a node that leaves costs a group at most the one replacement. The
  same holds for the replicas of a media blob.
\<close>

theorem join_displaces_at_most_one:
  assumes "n \<notin> set nodes" and "bs_wf nodes"
  shows "set (replicas (assign config cap (bs_insert n nodes)) g) \<subseteq> insert n (set (replicas (assign config cap nodes) g)) \<and>
    card (set (replicas (assign config cap nodes) g) - set (replicas (assign config cap (bs_insert n nodes)) g)) \<le> 1 \<and>
    set (blob_replicas b rf (bs_insert n nodes)) \<subseteq> insert n (set (blob_replicas b rf nodes)) \<and>
    card (set (blob_replicas b rf nodes) - set (blob_replicas b rf (bs_insert n nodes))) \<le> 1"
proof -
  let ?k = "max (min (unat rf) (length nodes)) 1"
  let ?k' = "max (min (unat rf) (length (bs_insert n nodes))) 1"
  have "?k = ?k' \<or> length nodes \<le> ?k \<and> ?k \<le> ?k'" using assms(1) by (auto simp: length_bs_insert_new)
  then have "set (blob_replicas b rf (bs_insert n nodes)) \<subseteq> insert n (set (blob_replicas b rf nodes)) \<and>
    card (set (blob_replicas b rf nodes) - set (blob_replicas b rf (bs_insert n nodes))) \<le> 1"
    using top_join[OF assms, of ?k ?k' "blob_key b"] by (simp add: blob_replicas_def)
  then show ?thesis using group_replicas_join[OF assms, of config cap g]
    by (cases "g \<in> set (data_groups config)") (simp_all add: replicas_assign)
qed

text \<open>
  C39: Whatever sequence of drains, undrains, failure marks, recoveries, removals and admissions the
  roster goes through, a cluster that starts with an active node keeps one, and the placement
  derived from the roster always gives every data group a nonempty set of hosts, all of them active.
\<close>

theorem roster_keeps_groups_hosted:
  assumes "roster_step\<^sup>*\<^sup>* r r'" and "bt_wf r" and "active_nodes r \<noteq> []"
    and "g \<in> set (data_groups config)"
  shows "active_nodes r' \<noteq> [] \<and> replicas (assign config cap (active_nodes r')) g \<noteq> [] \<and>
    (\<forall>n \<in> set (replicas (assign config cap (active_nodes r')) g).
       \<exists>i. bt_get r' n = Some i \<and> node_status i = Active)"
proof -
  from assms(1-3) have r': "bt_wf r' \<and> active_nodes r' \<noteq> []"
    by (induction rule: rtranclp_induct) (auto intro: roster_step_wf dest: roster_step_active)
  let ?h = "group_replicas config cap (active_nodes r') g"
  have "length ?h = group_size config cap (length (active_nodes r')) g"
    using r' assms(4) by (simp add: length_group_replicas)
  then have "0 < length ?h" using group_size_pos[of "length (active_nodes r')"] r' by simp
  then have "?h \<noteq> []" by simp
  moreover have "set ?h \<subseteq> set (active_nodes r')"
    unfolding group_replicas_def by (metis set_ranked set_take_subset)
  ultimately show ?thesis using r' assms(4) active_mem[of r'] by (auto simp: replicas_assign)
qed

text \<open>
  A blob acknowledged by a quorum of its replicas is found by every later quorum: any two sets
  of replicas that each reach the quorum share a node. A quorum is always within reach: it never
  exceeds the number of replicas, and losing any strict minority of them leaves one.
\<close>

theorem blob_quorums_intersect:
  assumes "nodes \<noteq> []" and "R = set (blob_replicas b rf nodes)"
    and "A \<subseteq> R" and "B \<subseteq> R" and "blob_quorum (card R) \<le> card A" and "blob_quorum (card R) \<le> card B"
  shows "A \<inter> B \<noteq> {} \<and> 0 < card R \<and> blob_quorum (card R) \<le> card R \<and>
    (\<forall>D \<subseteq> R. 2 * card D < card R \<longrightarrow> blob_quorum (card R) \<le> card (R - D))"
proof -
  have fin: "finite R" using assms(2) by simp
  have "blob_replicas b rf nodes \<noteq> []" using assms(1) length_ranked[of "blob_key b" nodes]
    by (auto simp: blob_replicas_def simp del: length_ranked)
  then have pos: "0 < card R" using assms(2) by (simp add: card_gt_0_iff)
  have "A \<inter> B \<noteq> {}"
  proof
    assume "A \<inter> B = {}"
    then have "card A + card B = card (A \<union> B)"
      using assms(3,4) fin by (simp add: card_Un_disjoint finite_subset)
    also have "\<dots> \<le> card R" using assms(3,4) fin by (simp add: card_mono)
    finally show False using assms(5,6) by (simp add: blob_quorum_def)
  qed
  moreover have "blob_quorum (card R) \<le> card (R - D)" if "D \<subseteq> R" "2 * card D < card R" for D
    using that fin by (simp add: card_Diff_subset finite_subset blob_quorum_def)
  moreover have "blob_quorum (card R) \<le> card R" using pos by (simp add: blob_quorum_def)
  ultimately show ?thesis using pos by blast
qed


end
