(* ===== verification/Meta_Group.thy ===== *)
theory Meta_Group
  imports Placement Shard_Reads
begin

text \<open>
  The metadata group (\<open>lib.rs\<close> of \<open>saltator-cluster\<close>): the replicated key-value application with its
  change journal, and the control plane that keeps the topology, the roster and the placement in it.
\<close>

section \<open>The application\<close>

datatype meta_command =
    MetaSet string bytes
  | MetaDelete string

record meta_response =
  previous :: "bytes option"

record meta_change =
  change_key :: string

record meta_codecs =
  mc_command :: "meta_command codec"
  mc_response :: "meta_response codec"
  mc_change :: "meta_change codec"
  mc_u32 :: "u32 codec"

definition T_KV :: u8 where "T_KV = APP_TABLE_FIRST"
definition T_CHANGES :: u8 where "T_CHANGES = APP_TABLE_FIRST + 1"
definition META_SCHEMA_VERSION :: u32 where "META_SCHEMA_VERSION = 3"

definition stored_meta_schema :: "'z meta_codecs_scheme \<Rightarrow> apply_ctx \<Rightarrow> store_error + u32" where
  "stored_meta_schema C ctx =
     (case ctx_get ctx T_SCHEMA ''version'' of
        Some b \<Rightarrow> decode_r ''schema cell decode'' (mc_u32 C) b
      | None \<Rightarrow> Inr 1)"

definition meta_run :: "meta_command \<Rightarrow> apply_ctx \<Rightarrow> string \<times> bytes option \<times> apply_ctx" where
  "meta_run cmd ctx =
     (case cmd of
        MetaSet k v \<Rightarrow> (k, ctx_get ctx T_KV k, ctx_put T_KV k v ctx)
      | MetaDelete k \<Rightarrow> (k, ctx_get ctx T_KV k, ctx_delete T_KV k ctx))"

definition journal_change :: "'z meta_codecs_scheme \<Rightarrow> string \<Rightarrow> apply_ctx \<Rightarrow> apply_ctx" where
  "journal_change C k ctx =
     (let payload = enc (mc_change C) \<lparr>change_key = k\<rparr> in
      case ctx_emit payload ctx of (seq, ctx1) \<Rightarrow> ctx_put T_CHANGES (u64_be seq) payload ctx1)"

definition meta_apply :: "'z meta_codecs_scheme \<Rightarrow> apply_ctx \<Rightarrow> bytes \<Rightarrow> store_error + bytes \<times> apply_ctx" where
  "meta_apply C ctx command =
     rbind (decode_r ''meta command decode'' (mc_command C) command) (\<lambda>cmd.
       case meta_run cmd ctx of (k, prev, ctx1) \<Rightarrow>
         rbind (stored_meta_schema C ctx1) (\<lambda>schema.
           Inr (enc (mc_response C) \<lparr>previous = prev\<rparr>,
                if schema \<ge> 2 then journal_change C k ctx1 else ctx1)))"

definition meta_migrate :: "apply_ctx \<Rightarrow> u32 \<Rightarrow> store_error + apply_ctx" where
  "meta_migrate ctx to =
     (if to = 2 \<or> to = 3 then Inr ctx else Inl (Engine ''no migration registered for meta schema step''))"

definition meta_replay :: "read_ctx \<Rightarrow> u64 \<Rightarrow> nat \<Rightarrow> (u64 \<times> bytes) list" where
  "meta_replay rd from_seq limit =
     map (\<lambda>(k, v). (of_nat (of_be_bytes (take 8 k)), v)) (rd_scan rd T_CHANGES (u64_be (from_seq + 1)) [] limit False)"

definition meta_app :: "'z meta_codecs_scheme \<Rightarrow> app" where
  "meta_app C = \<lparr>app_apply = meta_apply C, app_schema_version = META_SCHEMA_VERSION, app_migrate = meta_migrate\<rparr>"

lemma meta_tables [simp]: "8 \<le> T_KV" "8 \<le> T_CHANGES" "T_KV \<noteq> T_CHANGES" "T_CHANGES \<noteq> T_KV" "T_KV \<noteq> 8" "T_CHANGES \<noteq> 8"
  "8 \<noteq> T_KV" "8 \<noteq> T_CHANGES"
  by (simp_all add: T_KV_def T_CHANGES_def)

lemma meta_run_steps: "meta_run cmd ctx = (k, prev, ctx') \<Longrightarrow> ctx_steps ctx ctx'"
  by (auto simp: meta_run_def split: meta_command.splits intro!: r_into_rtranclp ctx_step.intros)

lemma journal_steps: "ctx_steps ctx (journal_change C k ctx)"
proof -
  let ?p = "enc (mc_change C) \<lparr>change_key = k\<rparr>"
  have "ctx_step ctx (snd (ctx_emit ?p ctx))" by (rule ctx_step.emit)
  moreover have "ctx_step (snd (ctx_emit ?p ctx)) (journal_change C k ctx)"
    by (simp add: journal_change_def Let_def split_beta ctx_step.put)
  ultimately show ?thesis by (meson converse_rtranclp_into_rtranclp r_into_rtranclp)
qed

lemma meta_apply_steps: "meta_apply C ctx cmd = Inr (r, ctx') \<Longrightarrow> ctx_steps ctx ctx'"
proof -
  assume "meta_apply C ctx cmd = Inr (r, ctx')"
  then obtain c k prev ctx1 where 1: "meta_run c ctx = (k, prev, ctx1)" "ctx' = ctx1 \<or> ctx' = journal_change C k ctx1"
    by (auto simp: meta_apply_def split_beta split: if_splits) (metis prod.collapse)+
  then show ?thesis using meta_run_steps[OF 1(1)] journal_steps[of ctx1 C k] by (metis rtranclp_trans)
qed

interpretation meta: shard_app "meta_app C" for C
  by standard (auto simp: meta_app_def meta_migrate_def intro: meta_apply_steps split: if_splits)



section \<open>What the application promises\<close>

fun cmd_key :: "meta_command \<Rightarrow> string" where
  "cmd_key (MetaSet k v) = k"
| "cmd_key (MetaDelete k) = k"

fun cmd_value :: "meta_command \<Rightarrow> bytes option" where
  "cmd_value (MetaSet k v) = Some v"
| "cmd_value (MetaDelete k) = None"

lemma meta_run_facts:
  assumes "meta_run cmd ctx = (k, prev, ctx')"
  shows "k = cmd_key cmd" "prev = ctx_get ctx T_KV (cmd_key cmd)"
    "ctx_get ctx' t k' = (if t = T_KV \<and> k' = cmd_key cmd then cmd_value cmd else ctx_get ctx t k')"
    "ctx_seq ctx' = ctx_seq ctx" "ctx_emits ctx' = ctx_emits ctx"
  using assms by (cases cmd; force simp: meta_run_def)+

lemma journal_facts:
  fixes k C defines "p \<equiv> enc (mc_change C) \<lparr>change_key = k\<rparr>"
  shows "ctx_get (journal_change C k ctx) t k' =
      (if t = T_CHANGES \<and> k' = u64_be (ctx_seq ctx + 1) then Some p else ctx_get ctx t k')"
    "ctx_seq (journal_change C k ctx) = ctx_seq ctx + 1"
    "ctx_emits (journal_change C k ctx) = ctx_emits ctx @ [(ctx_seq ctx + 1, p)]"
  by (simp_all add: journal_change_def Let_def split_beta p_def)

text \<open>
  The metadata group is a key-value map with a change journal: a command answers with the value
  its key had, leaves the key reading as the command says and every other key as it was; once the
  stored schema has reached version 2, it emits exactly one change naming the key, under the next
  sequence number, and files it in the journal under the same number, and before that it emits
  nothing.
\<close>

theorem meta_kv_exact:
  assumes "lossless (mc_command C)" and "lossless (mc_response C)"
    and "meta_apply C ctx (enc (mc_command C) cmd) = Inr (resp, ctx')" and "stored_meta_schema C ctx = Inr schema"
    and "p = enc (mc_change C) \<lparr>change_key = cmd_key cmd\<rparr>"
  shows "dec (mc_response C) resp = Some \<lparr>previous = ctx_get ctx T_KV (cmd_key cmd)\<rparr> \<and>
    (\<forall>k. ctx_get ctx' T_KV k = (if k = cmd_key cmd then cmd_value cmd else ctx_get ctx T_KV k)) \<and>
    (if 2 \<le> schema
     then ctx_seq ctx' = ctx_seq ctx + 1 \<and> ctx_emits ctx' = ctx_emits ctx @ [(ctx_seq ctx + 1, p)] \<and>
       ctx_get ctx' T_CHANGES (u64_be (ctx_seq ctx + 1)) = Some p
     else ctx_seq ctx' = ctx_seq ctx \<and> ctx_emits ctx' = ctx_emits ctx)"
proof -
  obtain k prev ctx1 where run: "meta_run cmd ctx = (k, prev, ctx1)" by (cases "meta_run cmd ctx")
  note facts = meta_run_facts[OF run]
  have "stored_meta_schema C ctx1 = Inr schema"
    using assms(4) facts(3)[of T_SCHEMA] by (simp add: stored_meta_schema_def)
  then have r: "resp = enc (mc_response C) \<lparr>previous = prev\<rparr>"
    and c: "ctx' = (if 2 \<le> schema then journal_change C k ctx1 else ctx1)"
    using assms(1,3) run by (auto simp: meta_apply_def)
  show ?thesis using assms(2,5) facts journal_facts[of C k ctx1] by (simp add: r c)
qed

definition journal_ok :: "read_ctx \<Rightarrow> bool" where
  "journal_ok rd \<longleftrightarrow> bt_wf (rd_engine rd) \<and> (\<forall>k v. rd_get rd T_CHANGES k = Some v \<longrightarrow> (\<exists>q. k = u64_be q))"

lemma of_be_u64: "of_nat (of_be_bytes (u64_be q)) = q"
  using u64_from_be_be[of q] by (simp add: u64_from_be_def)

text \<open>
  A subscriber that resumes after a sequence number is replayed exactly the journalled changes
  with greater numbers, in order and without gaps, cut at the limit.
\<close>

theorem meta_replay_exact:
  assumes "journal_ok rd" and "from_seq \<noteq> - 1"
  shows "\<exists>rows. meta_replay rd from_seq limit = take limit rows \<and> sorted_wrt (<) (map fst rows) \<and>
    (\<forall>q v. (q, v) \<in> set rows \<longleftrightarrow> from_seq < q \<and> rd_get rd T_CHANGES (u64_be q) = Some v)"
proof -
  let ?raw = "rd_range rd T_CHANGES (u64_be (from_seq + 1)) []"
  let ?f = "\<lambda>(k :: bytes, v :: bytes). (of_nat (of_be_bytes (take 8 k)) :: u64, v)"
  have wf: "bt_wf (rd_engine rd)" and t: "T_CHANGES \<noteq> - 1" using assms(1) by (simp_all add: journal_ok_def T_CHANGES_def)
  have mem: "(k, v) \<in> set ?raw \<longleftrightarrow> rd_get rd T_CHANGES k = Some v \<and> u64_be (from_seq + 1) \<le> k" for k v
    using rd_range_rows[OF wf t] by simp
  have key: "\<exists>q. fst x = u64_be q \<and> ?f x = (q, snd x)" if "x \<in> set ?raw" for x
  proof -
    obtain k v where x: "x = (k, v)" by (cases x)
    with that mem assms(1) obtain q where "k = u64_be q" by (auto simp: journal_ok_def)
    then show ?thesis by (auto simp: x of_be_u64)
  qed
  have gt: "from_seq + 1 \<le> q \<longleftrightarrow> from_seq < q" for q
    using word_succ_least[OF assms(2), of q] by (simp add: linorder_not_less[symmetric])
  have "sorted_wrt (\<lambda>x y. fst (?f x) < fst (?f y)) ?raw"
  proof (rule sorted_wrt_mono_rel[OF _ rd_range_sorted[OF wf t, unfolded sorted_wrt_map]])
    fix x y
    assume "x \<in> set ?raw" "y \<in> set ?raw" "fst x < fst y"
    then show "fst (?f x) < fst (?f y)" using key[of x] key[of y] by force
  qed
  moreover have "(q, v) \<in> set (map ?f ?raw) \<longleftrightarrow> from_seq < q \<and> rd_get rd T_CHANGES (u64_be q) = Some v" for q v
  proof
    assume "(q, v) \<in> set (map ?f ?raw)"
    then obtain x where x: "x \<in> set ?raw" "?f x = (q, v)" by auto
    from key[OF x(1)] x(2) have "fst x = u64_be q" "snd x = v" by simp_all
    then have "x = (u64_be q, v)" by (simp add: prod_eq_iff)
    then show "from_seq < q \<and> rd_get rd T_CHANGES (u64_be q) = Some v" using x(1) mem gt by simp
  next
    assume "from_seq < q \<and> rd_get rd T_CHANGES (u64_be q) = Some v"
    then have "(u64_be q, v) \<in> set ?raw" using mem gt by simp
    then have "?f (u64_be q, v) \<in> set (map ?f ?raw)" unfolding set_map by (rule imageI)
    then show "(q, v) \<in> set (map ?f ?raw)" by (simp add: of_be_u64)
  qed
  ultimately show ?thesis
    by (intro exI[of _ "map ?f ?raw"]) (simp add: meta_replay_def rd_scan_forward take_map sorted_wrt_map)
qed


end
