(* ===== verification/Control_Plane.thy ===== *)
theory Control_Plane
  imports Meta_Group
begin

text \<open>
  The control plane of a cluster (\<open>MetadataHandle\<close> in \<open>lib.rs\<close> of \<open>saltator-cluster\<close>): admission,
  draining, removal and failure marks as read-modify-write updates of the records kept in the
  metadata group. The group itself is an interface: the record \<open>meta_handle\<close> holds its operations,
  the locale \<open>meta_store\<close> what they promise, failures in the middle of an update included.
\<close>

datatype cluster_error =
    RaftError string
  | StorageError string
  | CodecError string
  | RosterRefused roster_error
  | IndexPanic

record 's meta_handle =
  h_node_id :: node_id
  h_read :: "string \<Rightarrow> ('s, cluster_error, bytes option) op"
  h_propose :: "bytes \<Rightarrow> ('s, cluster_error, bytes) op"
  h_add_learner :: "node_id \<Rightarrow> string \<Rightarrow> ('s, cluster_error, unit) op"
  h_set_voters :: "node_id btree_set \<Rightarrow> ('s, cluster_error, unit) op"
  h_voter_ids :: "'s \<Rightarrow> node_id btree_set"

record control_codecs = meta_codecs +
  cc_config :: "cluster_config codec"
  cc_roster :: "roster codec"
  cc_placement :: "placement codec"

definition K_CONFIG :: string where "K_CONFIG = ''cluster/config''"
definition K_ROSTER :: string where "K_ROSTER = ''cluster/roster''"
definition K_PLACEMENT :: string where "K_PLACEMENT = ''cluster/placement''"

lemma record_keys [simp]: "K_CONFIG \<noteq> K_ROSTER" "K_CONFIG \<noteq> K_PLACEMENT" "K_ROSTER \<noteq> K_PLACEMENT"
  "K_ROSTER \<noteq> K_CONFIG" "K_PLACEMENT \<noteq> K_CONFIG" "K_PLACEMENT \<noteq> K_ROSTER"
  by (simp_all add: K_CONFIG_def K_ROSTER_def K_PLACEMENT_def)

section \<open>Records\<close>

definition decode_blob :: "'a codec \<Rightarrow> bytes option \<Rightarrow> cluster_error + 'a option" where
  "decode_blob c b =
     (case b of
        Some x \<Rightarrow> rbind (ok_or (CodecError ''decode'') (dec c x)) (\<lambda>v. Inr (Some v))
      | None \<Rightarrow> Inr None)"

definition get_blob :: "'s meta_handle \<Rightarrow> 'a codec \<Rightarrow> string \<Rightarrow> ('s, cluster_error, 'a option) op" where
  "get_blob H c k = sbind (h_read H k) (\<lambda>b. slift (decode_blob c b))"

definition meta_write ::
  "'s meta_handle \<Rightarrow> ('z meta_codecs_scheme) \<Rightarrow> meta_command \<Rightarrow> ('s, cluster_error, meta_response) op" where
  "meta_write H C cmd =
     sbind (h_propose H (enc (mc_command C) cmd)) (\<lambda>resp.
       slift (ok_or (CodecError ''decode'') (dec (mc_response C) resp)))"

definition set_blob ::
  "'s meta_handle \<Rightarrow> ('z meta_codecs_scheme) \<Rightarrow> 'a codec \<Rightarrow> string \<Rightarrow> 'a \<Rightarrow> ('s, cluster_error, unit) op" where
  "set_blob H C c k v = sbind (meta_write H C (MetaSet k (enc c v))) (\<lambda>_. sret ())"

definition read_config :: "'s meta_handle \<Rightarrow> control_codecs \<Rightarrow> ('s, cluster_error, cluster_config option) op" where
  "read_config H C = get_blob H (cc_config C) K_CONFIG"

definition read_roster :: "'s meta_handle \<Rightarrow> control_codecs \<Rightarrow> ('s, cluster_error, roster) op" where
  "read_roster H C =
     sbind (get_blob H (cc_roster C) K_ROSTER) (\<lambda>r. sret (case r of Some x \<Rightarrow> x | None \<Rightarrow> []))"

definition read_placement :: "'s meta_handle \<Rightarrow> control_codecs \<Rightarrow> ('s, cluster_error, placement) op" where
  "read_placement H C =
     sbind (get_blob H (cc_placement C) K_PLACEMENT) (\<lambda>p. sret (case p of Some x \<Rightarrow> x | None \<Rightarrow> []))"

section \<open>Updates\<close>

definition write_roster ::
  "'s meta_handle \<Rightarrow> control_codecs \<Rightarrow> u8 option \<Rightarrow> roster \<Rightarrow> ('s, cluster_error, unit) op" where
  "write_roster H C rf_cap r =
     sbind (read_config H C) (\<lambda>cfg.
       let config = (case cfg of Some c \<Rightarrow> c | None \<Rightarrow> default_config);
           p = assign config rf_cap (active_nodes r)
       in sbind (set_blob H C (cc_roster C) K_ROSTER r) (\<lambda>_.
            set_blob H C (cc_placement C) K_PLACEMENT p))"

definition update_roster ::
  "'s meta_handle \<Rightarrow> control_codecs \<Rightarrow> u8 option \<Rightarrow> (roster \<Rightarrow> roster_error + roster) \<Rightarrow> ('s, cluster_error, roster) op" where
  "update_roster H C rf_cap plan =
     sbind (read_roster H C) (\<lambda>r.
       case plan r of
         Inl e \<Rightarrow> sfail (RosterRefused e)
       | Inr r' \<Rightarrow> if r' \<noteq> r then sbind (write_roster H C rf_cap r') (\<lambda>_. sret r') else sret r')"

definition admit_node ::
  "'s meta_handle \<Rightarrow> control_codecs \<Rightarrow> u8 option \<Rightarrow> node_id \<Rightarrow> string \<Rightarrow> ('s, cluster_error, unit) op" where
  "admit_node H C rf_cap node addr =
     sbind (h_add_learner H node addr) (\<lambda>_. \<lambda>s.
       sbind (h_set_voters H (bs_insert node (h_voter_ids H s))) (\<lambda>_.
         sbind (read_roster H C) (\<lambda>r.
           write_roster H C rf_cap (bt_insert node \<lparr>advertise_addr = addr, node_status = Active\<rparr> r))) s)"

definition drain_node :: "'s meta_handle \<Rightarrow> control_codecs \<Rightarrow> u8 option \<Rightarrow> node_id \<Rightarrow> ('s, cluster_error, roster) op" where
  "drain_node H C rf_cap node = update_roster H C rf_cap (\<lambda>r. plan_drain r node)"

definition undrain_node :: "'s meta_handle \<Rightarrow> control_codecs \<Rightarrow> u8 option \<Rightarrow> node_id \<Rightarrow> ('s, cluster_error, roster) op" where
  "undrain_node H C rf_cap node = update_roster H C rf_cap (\<lambda>r. plan_undrain r node)"

definition remove_node :: "'s meta_handle \<Rightarrow> control_codecs \<Rightarrow> u8 option \<Rightarrow> node_id \<Rightarrow> ('s, cluster_error, roster) op" where
  "remove_node H C rf_cap node =
     sbind (read_roster H C) (\<lambda>r.
       case plan_removal r node of
         Inl e \<Rightarrow> sfail (RosterRefused e)
       | Inr r' \<Rightarrow> \<lambda>s.
           let voters = h_voter_ids H s in
           sbind (if node \<in> set voters then h_set_voters H (filter (\<lambda>v. v \<noteq> node) voters) else sret ()) (\<lambda>_.
             sbind (write_roster H C rf_cap r') (\<lambda>_. sret r')) s)"

definition mark_unreachable :: "'s meta_handle \<Rightarrow> control_codecs \<Rightarrow> u8 option \<Rightarrow> node_id \<Rightarrow> ('s, cluster_error, bool) op" where
  "mark_unreachable H C rf_cap node =
     sbind (update_roster H C rf_cap (\<lambda>r. plan_mark_unreachable r node)) (\<lambda>r.
       case bt_get r node of Some i \<Rightarrow> sret (node_status i = Unreachable) | None \<Rightarrow> sfail IndexPanic)"

definition mark_reachable :: "'s meta_handle \<Rightarrow> control_codecs \<Rightarrow> u8 option \<Rightarrow> node_id \<Rightarrow> ('s, cluster_error, bool) op" where
  "mark_reachable H C rf_cap node =
     sbind (update_roster H C rf_cap (\<lambda>r. plan_mark_reachable r node)) (\<lambda>r.
       case bt_get r node of Some i \<Rightarrow> sret (node_status i = Active) | None \<Rightarrow> sfail IndexPanic)"

definition bootstrap_cluster ::
  "'s meta_handle \<Rightarrow> control_codecs \<Rightarrow> u8 option \<Rightarrow> cluster_config \<Rightarrow> string \<Rightarrow> ('s, cluster_error, unit) op" where
  "bootstrap_cluster H C rf_cap config self_addr =
     sbind (set_blob H C (cc_config C) K_CONFIG config) (\<lambda>_.
       write_roster H C rf_cap [(h_node_id H, \<lparr>advertise_addr = self_addr, node_status = Active\<rparr>)])"



section \<open>What the group promises\<close>

text \<open>
  The interface of the metadata group: \<open>stored\<close> is the map the group holds. A read returns the
  stored value or fails; a write that succeeds has taken effect, a write that fails has taken effect
  or not by the time it returns; voter changes leave the map alone. A proposal that times out and commits
  only after later operations have begun is outside this interface.
\<close>

locale meta_store =
  fixes H :: "'s meta_handle" and C :: control_codecs and stored :: "'s \<Rightarrow> string \<Rightarrow> bytes option"
    and valid :: "'s \<Rightarrow> bool"
  assumes read: "valid s \<Longrightarrow> h_read H k s = (r, s') \<Longrightarrow> s' = s \<and> (\<forall>b. r = Inr b \<longrightarrow> b = stored s k)"
    and write_ok: "valid s \<Longrightarrow> h_propose H (enc (mc_command C) (MetaSet k v)) s = (Inr resp, s') \<Longrightarrow>
      valid s' \<and> stored s' = (stored s)(k \<mapsto> v) \<and> h_voter_ids H s' = h_voter_ids H s"
    and write_fails: "valid s \<Longrightarrow> h_propose H (enc (mc_command C) (MetaSet k v)) s = (Inl e, s') \<Longrightarrow>
      valid s' \<and> (stored s' = stored s \<or> stored s' = (stored s)(k \<mapsto> v))"
    and learner: "valid s \<Longrightarrow> h_add_learner H n a s = (res, s') \<Longrightarrow> valid s' \<and> stored s' = stored s"
    and voters: "valid s \<Longrightarrow> h_set_voters H vs s = (res, s') \<Longrightarrow>
      valid s' \<and> stored s' = stored s \<and> (\<forall>u. res = Inr u \<longrightarrow> h_voter_ids H s' = vs)"
begin

lemma set_blob_cases:
  assumes "set_blob H C c k v s = (r, s')" and "valid s"
  shows "valid s'" and "r = Inr u \<Longrightarrow> stored s' = (stored s)(k \<mapsto> enc c v) \<and> h_voter_ids H s' = h_voter_ids H s"
    and "stored s' = stored s \<or> stored s' = (stored s)(k \<mapsto> enc c v)"
  using assms write_ok[OF assms(2), of k "enc c v"] write_fails[OF assms(2), of k "enc c v"]
  by (fastforce simp: set_blob_def meta_write_def sbind_cases)+

lemma get_blob_cases:
  assumes "get_blob H c k s = (r, s')" and "valid s"
  shows "s' = s" and "r = Inr x \<Longrightarrow> decode_blob c (stored s k) = Inr x"
  using assms read[OF assms(2), of k] by (fastforce simp: get_blob_def sbind_cases)+


end

text \<open>
  The invariant of the stored records: each decodes; a stored roster has an active node, and a stored
  placement was derived from such a roster. The records are in step when the placement is the one of
  the stored roster and topology.
\<close>

definition stored_config :: "control_codecs \<Rightarrow> (string \<Rightarrow> bytes option) \<Rightarrow> cluster_config" where
  "stored_config C m =
     (case m K_CONFIG of Some b \<Rightarrow> (case dec (cc_config C) b of Some c \<Rightarrow> c | None \<Rightarrow> default_config) | None \<Rightarrow> default_config)"

definition control_ok :: "control_codecs \<Rightarrow> u8 option \<Rightarrow> (string \<Rightarrow> bytes option) \<Rightarrow> bool" where
  "control_ok C cap m \<longleftrightarrow>
     (\<forall>b. m K_CONFIG = Some b \<longrightarrow> (\<exists>c. b = enc (cc_config C) c)) \<and>
     (\<forall>b. m K_ROSTER = Some b \<longrightarrow> (\<exists>r. b = enc (cc_roster C) r \<and> bt_wf r \<and> active_nodes r \<noteq> [])) \<and>
     (\<forall>b. m K_PLACEMENT = Some b \<longrightarrow>
        (\<exists>config r. b = enc (cc_placement C) (assign config cap (active_nodes r)) \<and> bt_wf r \<and> active_nodes r \<noteq> []))"

definition in_step :: "control_codecs \<Rightarrow> u8 option \<Rightarrow> (string \<Rightarrow> bytes option) \<Rightarrow> bool" where
  "in_step C cap m \<longleftrightarrow>
     (\<exists>r. m K_ROSTER = Some (enc (cc_roster C) r) \<and>
          m K_PLACEMENT = Some (enc (cc_placement C) (assign (stored_config C m) cap (active_nodes r))))"

definition stored_roster :: "control_codecs \<Rightarrow> (string \<Rightarrow> bytes option) \<Rightarrow> roster" where
  "stored_roster C m = (case m K_ROSTER of Some b \<Rightarrow> (case dec (cc_roster C) b of Some r \<Rightarrow> r | None \<Rightarrow> []) | None \<Rightarrow> [])"

locale control = meta_store H C stored valid
  for H :: "'s meta_handle" and C :: control_codecs and stored :: "'s \<Rightarrow> string \<Rightarrow> bytes option" and valid :: "'s \<Rightarrow> bool" +
  fixes cap :: "u8 option"
  assumes codecs: "lossless (cc_config C)" "lossless (cc_roster C)" "lossless (cc_placement C)"
begin

lemma read_roster_cases:
  assumes "read_roster H C s = (res, s')" and "valid s" and "control_ok C cap (stored s)"
  shows "s' = s" and "res = Inr r \<Longrightarrow> r = stored_roster C (stored s)" and "bt_wf (stored_roster C (stored s))"
    and "stored_roster C (stored s) = [] \<or> active_nodes (stored_roster C (stored s)) \<noteq> []"
proof -
  obtain x where x: "get_blob H (cc_roster C) K_ROSTER s = (x, s')"
    using assms(1) by (auto simp: read_roster_def sbind_cases)
  show "s' = s" by (rule get_blob_cases(1)[OF x assms(2)])
  have ok: "\<And>b. stored s K_ROSTER = Some b \<Longrightarrow> \<exists>r. b = enc (cc_roster C) r \<and> bt_wf r \<and> active_nodes r \<noteq> []"
    using assms(3) by (auto simp: control_ok_def)
  have "bt_wf (stored_roster C (stored s)) \<and> (stored_roster C (stored s) = [] \<or> active_nodes (stored_roster C (stored s)) \<noteq> [])"
  proof (cases "stored s K_ROSTER")
    case (Some b)
    with ok obtain r where "b = enc (cc_roster C) r" "bt_wf r" "active_nodes r \<noteq> []" by blast
    then show ?thesis using Some codecs(2) by (simp add: stored_roster_def)
  qed (simp add: stored_roster_def)
  then show "bt_wf (stored_roster C (stored s))"
    and "stored_roster C (stored s) = [] \<or> active_nodes (stored_roster C (stored s)) \<noteq> []" by blast+
  show "r = stored_roster C (stored s)" if got: "res = Inr r"
  proof -
    obtain y where y: "get_blob H (cc_roster C) K_ROSTER s = (Inr y, s')" "r = (case y of Some z \<Rightarrow> z | None \<Rightarrow> [])"
      using assms(1) got by (auto simp: read_roster_def sbind_cases)
    have "decode_blob (cc_roster C) (stored s K_ROSTER) = Inr y" by (rule get_blob_cases(2)[OF y(1) assms(2) refl])
    then show ?thesis using y(2) by (auto simp: decode_blob_def stored_roster_def split: option.splits)
  qed
qed

lemma write_roster_cases:
  assumes "write_roster H C cap r s = (res, s')" and "valid s" and "control_ok C cap (stored s)"
    and "bt_wf r" and "active_nodes r \<noteq> []"
  shows "valid s'" and "control_ok C cap (stored s')"
    and "res = Inr u \<Longrightarrow> stored s' = (stored s)(K_ROSTER \<mapsto> enc (cc_roster C) r,
        K_PLACEMENT \<mapsto> enc (cc_placement C) (assign (stored_config C (stored s)) cap (active_nodes r))) \<and>
        h_voter_ids H s' = h_voter_ids H s"
proof -
  let ?m = "stored s"
  let ?p = "enc (cc_placement C) (assign (stored_config C ?m) cap (active_nodes r))"
  let ?m1 = "?m(K_ROSTER \<mapsto> enc (cc_roster C) r)"
  have cfg_ok: "\<And>b. ?m K_CONFIG = Some b \<Longrightarrow> \<exists>c. b = enc (cc_config C) c" using assms(3) by (auto simp: control_ok_def)
  have m1: "control_ok C cap ?m1" "control_ok C cap (?m1(K_PLACEMENT \<mapsto> ?p))"
    using assms(3,4,5) by (auto simp: control_ok_def)
  from assms(1) consider e where "read_config H C s = (Inl e, s')" "res = Inl e"
    | cfg s0 where "read_config H C s = (Inr cfg, s0)"
      "sbind (set_blob H C (cc_roster C) K_ROSTER r) (\<lambda>_. set_blob H C (cc_placement C) K_PLACEMENT
         (assign (case cfg of Some c \<Rightarrow> c | None \<Rightarrow> default_config) cap (active_nodes r))) s0 = (res, s')"
    by (auto simp: write_roster_def sbind_cases Let_def)
  then have "valid s' \<and> control_ok C cap (stored s') \<and>
    (\<forall>u. res = Inr u \<longrightarrow> stored s' = ?m1(K_PLACEMENT \<mapsto> ?p) \<and> h_voter_ids H s' = h_voter_ids H s)"
  proof cases
    case 1
    then have "s' = s" using get_blob_cases(1)[OF _ assms(2)] by (simp add: read_config_def)
    then show ?thesis using assms(2,3) 1(2) by simp
  next
    case 2
    have s0: "s0 = s" and "decode_blob (cc_config C) (?m K_CONFIG) = Inr cfg"
      using get_blob_cases[OF 2(1)[unfolded read_config_def] assms(2)] by auto
    then have cfg: "(case cfg of Some c \<Rightarrow> c | None \<Rightarrow> default_config) = stored_config C ?m"
      by (auto simp: stored_config_def decode_blob_def split: option.splits)
    obtain r1 s1 where w1: "set_blob H C (cc_roster C) K_ROSTER r s = (r1, s1)"
      and rest: "(\<exists>e. r1 = Inl e \<and> res = Inl e \<and> s1 = s') \<or>
        (r1 = Inr () \<and> set_blob H C (cc_placement C) K_PLACEMENT (assign (stored_config C ?m) cap (active_nodes r)) s1 = (res, s'))"
      using 2(2) s0 cfg by (auto simp: sbind_cases)
    note f1 = set_blob_cases[OF w1 assms(2)]
    show ?thesis using rest
    proof
      assume "\<exists>e. r1 = Inl e \<and> res = Inl e \<and> s1 = s'"
      then show ?thesis using f1(1,3) assms(3) m1(1) by auto
    next
      assume w2: "r1 = Inr () \<and> set_blob H C (cc_placement C) K_PLACEMENT (assign (stored_config C ?m) cap (active_nodes r)) s1 = (res, s')"
      then have s1: "stored s1 = ?m1" "h_voter_ids H s1 = h_voter_ids H s" using f1(2) by auto
      note f2 = set_blob_cases[OF conjunct2[OF w2] f1(1)]
      show ?thesis using f2 s1 m1 by auto
    qed
  qed
  then show "valid s'" "control_ok C cap (stored s')"
    "res = Inr u \<Longrightarrow> stored s' = ?m1(K_PLACEMENT \<mapsto> ?p) \<and> h_voter_ids H s' = h_voter_ids H s" by auto
qed

text \<open>Plans that keep an active node, applied to the stored roster.\<close>

lemma update_roster_cases:
  assumes "update_roster H C cap plan s = (res, s')" and "valid s" and "control_ok C cap (stored s)"
    and plan: "\<forall>r r'. bt_wf r \<and> (r = [] \<or> active_nodes r \<noteq> []) \<and> plan r = Inr r' \<longrightarrow> bt_wf r' \<and> active_nodes r' \<noteq> []"
  shows "valid s'" and "control_ok C cap (stored s')"
    and "res = Inr r' \<Longrightarrow> in_step C cap (stored s) \<Longrightarrow> in_step C cap (stored s')"
    and "res = Inr r' \<Longrightarrow> plan (stored_roster C (stored s)) = Inr r' \<and> stored_roster C (stored s') = r'"
proof -
  let ?r = "stored_roster C (stored s)"
  from assms(1) consider e where "read_roster H C s = (Inl e, s')" "res = Inl e"
    | s0 where "read_roster H C s = (Inr ?r, s0)" "s0 = s"
      "(case plan ?r of Inl e \<Rightarrow> sfail (RosterRefused e)
        | Inr r' \<Rightarrow> if r' \<noteq> ?r then sbind (write_roster H C cap r') (\<lambda>_. sret r') else sret r') s = (res, s')"
    using read_roster_cases[OF _ assms(2,3)] unfolding update_roster_def sbind_cases by blast
  then have "valid s' \<and> control_ok C cap (stored s') \<and>
    (\<forall>r'. res = Inr r' \<longrightarrow> (in_step C cap (stored s) \<longrightarrow> in_step C cap (stored s')) \<and> plan ?r = Inr r' \<and> stored_roster C (stored s') = r')"
  proof cases
    case 1
    then show ?thesis using read_roster_cases(1)[OF 1(1) assms(2,3)] assms(2,3) by simp
  next
    case 2
    show ?thesis
    proof (cases "plan ?r")
      case (Inl e)
      then show ?thesis using 2(3) assms(2,3) by simp
    next
      case (Inr r')
      show ?thesis
      proof (cases "r' = ?r")
        case True
        then show ?thesis using 2(3) Inr assms(2,3) by auto
      next
        case False
        then obtain x where w: "write_roster H C cap r' s = (x, s')" "(\<exists>e. x = Inl e \<and> res = Inl e) \<or> (x = Inr () \<and> res = Inr r')"
          using 2(3) Inr by (auto simp: sbind_cases)
        have ok: "bt_wf r'" "active_nodes r' \<noteq> []"
          using plan read_roster_cases(3,4)[OF 2(1) assms(2,3)] Inr by blast+
        note f = write_roster_cases[OF w(1) assms(2,3) ok]
        have "in_step C cap (stored s')" "stored_roster C (stored s') = r'" if "x = Inr ()"
          using f(3)[OF that] codecs(2) by (auto simp: in_step_def stored_config_def stored_roster_def)
        then show ?thesis using f(1,2) w(2) Inr by auto
      qed
    qed
  qed
  then show "valid s'" "control_ok C cap (stored s')"
    "res = Inr r' \<Longrightarrow> in_step C cap (stored s) \<Longrightarrow> in_step C cap (stored s')"
    "res = Inr r' \<Longrightarrow> plan ?r = Inr r' \<and> stored_roster C (stored s') = r'" by auto
qed

lemma plan_keeps_active:
  assumes "bt_wf r" and "r = [] \<or> active_nodes r \<noteq> []"
    and "plan = (\<lambda>r. plan_drain r n) \<or> plan = (\<lambda>r. plan_undrain r n) \<or> plan = (\<lambda>r. plan_mark_unreachable r n) \<or>
      plan = (\<lambda>r. plan_mark_reachable r n) \<or> plan = (\<lambda>r. plan_removal r n)"
    and "plan r = Inr r'"
  shows "bt_wf r' \<and> active_nodes r' \<noteq> []"
proof -
  have "r \<noteq> []"
    using assms(3,4) by (auto simp: plan_drain_def plan_undrain_def plan_mark_unreachable_def plan_mark_reachable_def plan_removal_def)
  moreover have "roster_step r r'" using assms(3,4) by (auto intro: roster_step.intros)
  ultimately show ?thesis using assms(1,2) roster_step_wf roster_step_active by blast
qed

end

section \<open>Operations of the control plane\<close>

datatype control_op =
    OpBootstrap cluster_config string
  | OpAdmit node_id string
  | OpDrain node_id
  | OpUndrain node_id
  | OpRemove node_id
  | OpUnreachable node_id
  | OpReachable node_id

fun run_op :: "'s meta_handle \<Rightarrow> control_codecs \<Rightarrow> u8 option \<Rightarrow> control_op \<Rightarrow> ('s, cluster_error, unit) op" where
  "run_op H C cap (OpBootstrap config addr) = bootstrap_cluster H C cap config addr"
| "run_op H C cap (OpAdmit n addr) = admit_node H C cap n addr"
| "run_op H C cap (OpDrain n) = sbind (drain_node H C cap n) (\<lambda>_. sret ())"
| "run_op H C cap (OpUndrain n) = sbind (undrain_node H C cap n) (\<lambda>_. sret ())"
| "run_op H C cap (OpRemove n) = sbind (remove_node H C cap n) (\<lambda>_. sret ())"
| "run_op H C cap (OpUnreachable n) = sbind (mark_unreachable H C cap n) (\<lambda>_. sret ())"
| "run_op H C cap (OpReachable n) = sbind (mark_reachable H C cap n) (\<lambda>_. sret ())"

context control
begin

lemma set_blob_wp:
  assumes "valid s"
    and "\<And>r s'. valid s' \<Longrightarrow> (r = Inr () \<Longrightarrow> stored s' = (stored s)(k \<mapsto> enc c v)) \<Longrightarrow>
      stored s' = stored s \<or> stored s' = (stored s)(k \<mapsto> enc c v) \<Longrightarrow> Q r s'"
  shows "wp (set_blob H C c k v) Q s"
proof (rule wpI)
  fix r s'
  assume "set_blob H C c k v s = (r, s')"
  note f = set_blob_cases[OF this assms(1)]
  show "Q r s'" using f(2) by (intro assms(2)[OF f(1) _ f(3)]) blast
qed

lemma write_roster_wp:
  assumes "valid s" and "control_ok C cap (stored s)" and "bt_wf r" and "active_nodes r \<noteq> []"
    and "\<And>res s'. valid s' \<Longrightarrow> control_ok C cap (stored s') \<Longrightarrow>
      (res = Inr () \<Longrightarrow> in_step C cap (stored s') \<and> stored_roster C (stored s') = r \<and> h_voter_ids H s' = h_voter_ids H s) \<Longrightarrow> Q res s'"
  shows "wp (write_roster H C cap r) Q s"
proof (rule wpI, rule assms(5))
  fix res s'
  assume w: "write_roster H C cap r s = (res, s')"
  note f = write_roster_cases[OF w assms(1-4)]
  show "valid s'" "control_ok C cap (stored s')" by (rule f(1), rule f(2))
  assume "res = Inr ()"
  from f(3)[OF this] show "in_step C cap (stored s') \<and> stored_roster C (stored s') = r \<and> h_voter_ids H s' = h_voter_ids H s"
    using codecs(2) by (auto simp: in_step_def stored_config_def stored_roster_def)
qed

lemma read_roster_wp:
  assumes "valid s" and "control_ok C cap (stored s)"
    and "\<And>e. Q (Inl e) s"
    and "\<And>r. r = stored_roster C (stored s) \<Longrightarrow> bt_wf r \<Longrightarrow> r = [] \<or> active_nodes r \<noteq> [] \<Longrightarrow> Q (Inr r) s"
  shows "wp (read_roster H C) Q s"
proof (rule wpI)
  fix res s'
  assume r: "read_roster H C s = (res, s')"
  show "Q res s'" using read_roster_cases[OF r assms(1,2)] assms(3,4) by (cases res) auto
qed

lemma bootstrap_ok:
  assumes "valid s" and "control_ok C cap (stored s)"
  shows "wp (bootstrap_cluster H C cap config addr)
    (\<lambda>res s'. valid s' \<and> control_ok C cap (stored s') \<and> (res = Inr () \<longrightarrow> in_step C cap (stored s'))) s"
  unfolding bootstrap_cluster_def wp_sbind
proof (rule set_blob_wp[OF assms(1)])
  fix r s1
  let ?r = "[(h_node_id H, \<lparr>advertise_addr = addr, node_status = Active\<rparr>)]"
  assume s1: "valid s1" "stored s1 = stored s \<or> stored s1 = (stored s)(K_CONFIG \<mapsto> enc (cc_config C) config)"
  then have ok: "control_ok C cap (stored s1)" using assms(2) by (auto simp: control_ok_def)
  have r: "bt_wf ?r" "active_nodes ?r \<noteq> []" by (simp_all add: active_nodes_def)
  show "case r of Inl e \<Rightarrow> valid s1 \<and> control_ok C cap (stored s1) \<and> (Inl e = Inr () \<longrightarrow> in_step C cap (stored s1))
    | Inr x \<Rightarrow> wp (write_roster H C cap ?r) (\<lambda>res s'. valid s' \<and> control_ok C cap (stored s') \<and> (res = Inr () \<longrightarrow> in_step C cap (stored s'))) s1"
    using s1(1) ok write_roster_wp[OF s1(1) ok r] by (simp split: sum.split)
qed

definition settled :: "(roster \<Rightarrow> roster) \<Rightarrow> 's \<Rightarrow> cluster_error + 'b \<Rightarrow> 's \<Rightarrow> bool" where
  "settled f s res s' \<longleftrightarrow> valid s' \<and> control_ok C cap (stored s') \<and>
     (\<forall>u. res = Inr u \<longrightarrow> in_step C cap (stored s') \<and> stored_roster C (stored s') = f (stored_roster C (stored s)))"

lemma admit_ok:
  assumes "valid s" and "control_ok C cap (stored s)"
  shows "wp (admit_node H C cap n addr)
    (\<lambda>res s'. settled (bt_insert n \<lparr>advertise_addr = addr, node_status = Active\<rparr>) s res s' \<and>
       (res = Inr () \<longrightarrow> n \<in> set (h_voter_ids H s'))) s"
proof (rule wpI)
  fix res s'
  assume run: "admit_node H C cap n addr s = (res, s')"
  obtain r1 s1 where l: "h_add_learner H n addr s = (r1, s1)" by fastforce
  then have s1: "valid s1" "stored s1 = stored s" using learner[OF assms(1)] by auto
  obtain r2 s2 where v: "h_set_voters H (bs_insert n (h_voter_ids H s1)) s1 = (r2, s2)" by fastforce
  then have s2: "valid s2" "stored s2 = stored s" "r2 = Inr () \<Longrightarrow> h_voter_ids H s2 = bs_insert n (h_voter_ids H s1)"
    using voters[OF s1(1)] s1(2) by auto
  have ok: "control_ok C cap (stored s2)" using s2(2) assms(2) by simp
  let ?f = "bt_insert n \<lparr>advertise_addr = addr, node_status = Active\<rparr>"
  let ?Q = "\<lambda>res s'. settled ?f s res s' \<and> (res = Inr () \<longrightarrow> h_voter_ids H s' = h_voter_ids H s2)"
  have rest: "wp (sbind (read_roster H C) (\<lambda>r. write_roster H C cap (?f r))) ?Q s2"
    unfolding wp_sbind
  proof (rule read_roster_wp[OF s2(1) ok], goal_cases)
    case 1
    then show ?case using s2(1) ok by (simp add: settled_def)
  next
    case (2 r)
    have "n \<in> set (active_nodes (?f r))" using active_mem[of "?f r" n] 2(2) by simp
    then have "active_nodes (?f r) \<noteq> []" by auto
    then show ?case using write_roster_wp[OF s2(1) ok, of "?f r"] 2 s2(2) by (simp add: settled_def)
  qed
  have failed: "settled ?f s (Inl e) s1" "settled ?f s (Inl e) s2" for e
    using s1 s2(1,2) ok assms(2) by (simp_all add: settled_def)
  show "settled ?f s res s' \<and> (res = Inr () \<longrightarrow> n \<in> set (h_voter_ids H s'))"
  proof (cases r1)
    case (Inl e)
    then show ?thesis using run l failed(1)[of e] by (auto simp: admit_node_def sbind_def)
  next
    case r1: (Inr u)
    show ?thesis
    proof (cases r2)
      case (Inl e)
      then show ?thesis using run l v r1 failed(2)[of e] by (auto simp: admit_node_def sbind_def)
    next
      case (Inr u')
      then have "sbind (read_roster H C) (\<lambda>r. write_roster H C cap (?f r)) s2 = (res, s')"
        using run l v r1 by (simp add: admit_node_def sbind_def)
      from wpD[OF rest this] show ?thesis using s2(3) Inr by simp
    qed
  qed
qed

lemma remove_ok:
  assumes "valid s" and "control_ok C cap (stored s)"
  shows "wp (remove_node H C cap n)
    (\<lambda>res s'. settled (bt_remove n) s res s' \<and> (\<forall>r. res = Inr r \<longrightarrow> n \<notin> set (h_voter_ids H s') \<and>
       (\<exists>i. bt_get (stored_roster C (stored s)) n = Some i \<and> node_status i = Draining))) s"
  unfolding remove_node_def wp_sbind
proof (rule read_roster_wp[OF assms], goal_cases)
  case 1
  then show ?case using assms by (simp add: settled_def)
next
  case (2 r)
  show ?case
  proof (cases "plan_removal r n")
    case (Inl e)
    then show ?thesis using assms by (simp add: settled_def)
  next
    case (Inr r')
    then have r': "bt_wf r'" "active_nodes r' \<noteq> []" "r' = bt_remove n r"
      "\<exists>i. bt_get r n = Some i \<and> node_status i = Draining"
      using plan_keeps_active[of r "\<lambda>r. plan_removal r n" n r'] 2 by (auto simp: plan_removal_def split: if_splits)
    define m where "m = (if n \<in> set (h_voter_ids H s) then h_set_voters H (filter (\<lambda>v. v \<noteq> n) (h_voter_ids H s)) else sret ())"
    obtain r1 s1 where v: "m s = (r1, s1)" by fastforce
    then have s1: "valid s1" "stored s1 = stored s" "r1 = Inr () \<Longrightarrow> n \<notin> set (h_voter_ids H s1)"
      using voters[OF assms(1)] assms(1) by (auto simp: m_def split: if_splits)
    have ok: "control_ok C cap (stored s1)" using s1(2) assms(2) by simp
    have rest: "wp (sbind (write_roster H C cap r') (\<lambda>_. sret r'))
      (\<lambda>res s'. settled (bt_remove n) s res s' \<and> (\<forall>r. res = Inr r \<longrightarrow> h_voter_ids H s' = h_voter_ids H s1)) s1"
      unfolding wp_sbind
      by (rule write_roster_wp[OF s1(1) ok r'(1,2)]) (use 2(1) r'(3) in \<open>auto simp: settled_def split: sum.split\<close>)
    show ?thesis
      unfolding Inr sum.case
      by (rule wpI) (use v s1 ok 2(1) r'(4) wpD[OF rest] in \<open>auto simp: Let_def m_def[symmetric] sbind_cases settled_def\<close>)
  qed
qed

lemma update_ok:
  assumes "valid s" and "control_ok C cap (stored s)"
    and "plan = (\<lambda>r. plan_drain r n) \<or> plan = (\<lambda>r. plan_undrain r n) \<or> plan = (\<lambda>r. plan_mark_unreachable r n) \<or>
      plan = (\<lambda>r. plan_mark_reachable r n)"
  shows "wp (update_roster H C cap plan)
    (\<lambda>res s'. valid s' \<and> control_ok C cap (stored s') \<and>
       (\<forall>r. res = Inr r \<longrightarrow> (in_step C cap (stored s) \<longrightarrow> in_step C cap (stored s')) \<and>
          plan (stored_roster C (stored s)) = Inr r \<and> stored_roster C (stored s') = r)) s"
proof (rule wpI)
  fix res s'
  assume u: "update_roster H C cap plan s = (res, s')"
  have plan: "\<forall>r r'. bt_wf r \<and> (r = [] \<or> active_nodes r \<noteq> []) \<and> plan r = Inr r' \<longrightarrow> bt_wf r' \<and> active_nodes r' \<noteq> []"
    using plan_keeps_active[of _ plan n] assms(3) by blast
  note f = update_roster_cases[OF u assms(1,2) plan]
  show "valid s' \<and> control_ok C cap (stored s') \<and>
       (\<forall>r. res = Inr r \<longrightarrow> (in_step C cap (stored s) \<longrightarrow> in_step C cap (stored s')) \<and>
          plan (stored_roster C (stored s)) = Inr r \<and> stored_roster C (stored s') = r)"
    using f by blast
qed

lemma wp_weaken: "wp m P s \<Longrightarrow> (\<And>r s'. P r s' \<Longrightarrow> Q r s') \<Longrightarrow> wp m Q s"
  by (simp add: wp_def split: prod.splits)

lemma run_op_ok:
  assumes "valid s" and "control_ok C cap (stored s)"
  shows "wp (run_op H C cap op) (\<lambda>res s'. valid s' \<and> control_ok C cap (stored s') \<and>
    (res = Inr () \<and> in_step C cap (stored s) \<longrightarrow> in_step C cap (stored s'))) s"
proof (cases op)
  case (OpBootstrap config addr)
  then show ?thesis using wp_weaken[OF bootstrap_ok[OF assms]] by simp
next
  case (OpAdmit n addr)
  then show ?thesis using wp_weaken[OF admit_ok[OF assms]] by (simp add: settled_def)
next
  case (OpRemove n)
  show ?thesis unfolding OpRemove run_op.simps wp_sbind
    by (rule wp_weaken[OF remove_ok[OF assms]]) (auto simp: settled_def split: sum.split)
next
  case (OpDrain n)
  show ?thesis unfolding OpDrain run_op.simps wp_sbind drain_node_def
    by (rule wp_weaken[OF update_ok[OF assms]]) (auto split: sum.split)
next
  case (OpUndrain n)
  show ?thesis unfolding OpUndrain run_op.simps wp_sbind undrain_node_def
    by (rule wp_weaken[OF update_ok[OF assms]]) (auto split: sum.split)
next
  case (OpUnreachable n)
  show ?thesis unfolding OpUnreachable run_op.simps wp_sbind mark_unreachable_def
    by (rule wp_weaken[OF update_ok[OF assms]]) (auto split: sum.split option.split)
next
  case (OpReachable n)
  show ?thesis unfolding OpReachable run_op.simps wp_sbind mark_reachable_def
    by (rule wp_weaken[OF update_ok[OF assms]]) (auto split: sum.split option.split)
qed

text \<open>The indexing of the roster after a mark is in range.\<close>

lemma mark_present:
  "plan_mark_unreachable r n = Inr r' \<Longrightarrow> bt_get r' n \<noteq> None"
  "plan_mark_reachable r n = Inr r' \<Longrightarrow> bt_get r' n \<noteq> None"
  by (auto simp: plan_mark_unreachable_def plan_mark_reachable_def set_status_get split: if_splits)

end




section \<open>The group as the shard runtime provides it\<close>

text \<open>
  The metadata group of a node that can commit: a proposal is one entry applied by the shard's state
  machine to the metadata application, a read is a lookup in the applied table.
\<close>

record 'l group_state =
  gs_db :: kv
  gs_voters :: "node_id btree_set"
  gs_next :: 'l

definition group_propose ::
  "('l, 'm, 'v) raft_types \<Rightarrow> 'z meta_codecs_scheme \<Rightarrow> ('l \<Rightarrow> 'l) \<Rightarrow> bytes \<Rightarrow> ('l group_state, cluster_error, bytes) op" where
  "group_propose T C succ cmd s =
     (case sm_apply T (meta_app C) METADATA [\<lparr>entry_log_id = gs_next s, entry_payload = Normal cmd\<rparr>] (gs_db s) of
        Inl e \<Rightarrow> (Inl (StorageError ''apply''), s)
      | Inr (responses, db, _) \<Rightarrow> (Inr (last responses), s\<lparr>gs_db := db, gs_next := succ (gs_next s)\<rparr>))"

definition group_stored :: "'l group_state \<Rightarrow> string \<Rightarrow> bytes option" where
  "group_stored s k = rd_get \<lparr>rd_shard = METADATA, rd_engine = gs_db s\<rparr> T_KV k"

definition group_handle ::
  "('l, 'm, 'v) raft_types \<Rightarrow> 'z meta_codecs_scheme \<Rightarrow> ('l \<Rightarrow> 'l) \<Rightarrow> node_id \<Rightarrow> 'l group_state meta_handle" where
  "group_handle T C succ self =
     \<lparr>h_node_id = self,
      h_read = (\<lambda>k s. (Inr (group_stored s k), s)),
      h_propose = group_propose T C succ,
      h_add_learner = (\<lambda>n addr s. (Inr (), s)),
      h_set_voters = (\<lambda>vs s. (Inr (), s\<lparr>gs_voters := vs\<rparr>)),
      h_voter_ids = gs_voters\<rparr>"

lemma meta_apply_get:
  assumes "lossless (mc_command C)" and "meta_apply C ctx (enc (mc_command C) cmd) = Inr (resp, ctx')"
  shows "ctx_get ctx' T_KV k = (if k = cmd_key cmd then cmd_value cmd else ctx_get ctx T_KV k)"
proof -
  obtain k1 prev ctx1 where run: "meta_run cmd ctx = (k1, prev, ctx1)" by (cases "meta_run cmd ctx")
  then have "ctx' = ctx1 \<or> ctx' = journal_change C k1 ctx1" using assms by (auto simp: meta_apply_def)
  then show ?thesis using meta_run_facts(3)[OF run, of T_KV k] journal_facts(1)[of C k1 ctx1 T_KV k] by auto
qed

lemma meta_apply_frame:
  assumes "meta_apply C ctx cmd = Inr (resp, ctx')"
  shows "ctx_shard ctx' = ctx_shard ctx" "ctx_engine ctx' = ctx_engine ctx"
  using ctx_steps_extends[OF meta_apply_steps[OF assms]] by (simp_all add: ctx_extends_def)

text \<open>What is relied upon of the encoding of commands: it can be read back, and no command starts with the byte that marks commands of the runtime.\<close>

definition plain_commands :: "'z meta_codecs_scheme \<Rightarrow> bool" where
  "plain_commands C \<longleftrightarrow> lossless (mc_command C) \<and> (\<forall>c. \<exists>b bs. enc (mc_command C) c = b # bs \<and> b \<noteq> RUNTIME_CMD_PREFIX)"

lemma group_propose_ok:
  assumes "plain_commands C" and "bt_wf (gs_db s)" and "group_propose T C succ (enc (mc_command C) cmd) s = (Inr resp, s')"
  shows "bt_wf (gs_db s')" and "group_stored s' k = (if k = cmd_key cmd then cmd_value cmd else group_stored s k)"
    and "gs_voters s' = gs_voters s"
proof -
  let ?e = "\<lparr>entry_log_id = gs_next s, entry_payload = Normal (enc (mc_command C) cmd)\<rparr>"
  obtain rs db em where run: "sm_apply T (meta_app C) METADATA [?e] (gs_db s) = Inr (rs, db, em)"
    and s': "s' = s\<lparr>gs_db := db, gs_next := succ (gs_next s)\<rparr>"
    using assms(3) by (auto simp: group_propose_def split: sum.splits prod.splits)
  obtain b bs where b: "enc (mc_command C) cmd = b # bs" "b \<noteq> RUNTIME_CMD_PREFIX" using assms(1) unfolding plain_commands_def by blast
  obtain seq0 where seq: "sm_seq T METADATA (gs_db s) = Inr seq0" using run by (auto simp: sm_apply_def)
  let ?ctx = "\<lparr>ctx_shard = METADATA, ctx_engine = gs_db s, ctx_wb = [], ctx_seq = seq0, ctx_emits = []\<rparr>"
  have cmd: "apply_command T (meta_app C) ?ctx (enc (mc_command C) cmd) = meta_apply C ?ctx (enc (mc_command C) cmd)"
    using b by (simp add: apply_command_def meta_app_def)
  then obtain r ctx' where app: "meta_apply C ?ctx (enc (mc_command C) cmd) = Inr (r, ctx')"
    using run seq by (cases "meta_apply C ?ctx (enc (mc_command C) cmd)") (auto simp: sm_apply_def apply_entry_def)
  have db: "\<exists>a b. db = kv_write_batch (gs_db s) (wb_put (sm_meta_key METADATA K_LAST_APPLIED) a (ctx_wb ctx')) \<or>
      db = kv_write_batch (gs_db s) (wb_put (sm_meta_key METADATA K_SEQ) b (wb_put (sm_meta_key METADATA K_LAST_APPLIED) a (ctx_wb ctx')))"
    using run seq cmd app by (auto simp: sm_apply_def apply_entry_def Let_def split: if_splits)
  have ctx_db: "kv_get (kv_write_batch (gs_db s) (ctx_wb ctx')) (ctx_key METADATA T_KV k) = ctx_get ctx' T_KV k" for k
    using committed_get[of ctx' T_KV k] meta_apply_frame[OF app] assms(2) by (simp add: committed_def)
  have "ctx_key METADATA T_KV k \<noteq> sm_meta_key METADATA c" for k c by (simp add: sm_meta_key_def T_KV_def)
  then have get: "kv_get db (ctx_key METADATA T_KV k) = ctx_get ctx' T_KV k" for k
    using db ctx_db[of k] by (auto simp: kv_get_wb_put[OF assms(2)])
  have "ctx_get ?ctx T_KV k = group_stored s k" for k by (simp add: ctx_get_def staged_def Let_def group_stored_def rd_get_def)
  then show "group_stored s' k = (if k = cmd_key cmd then cmd_value cmd else group_stored s k)"
    using get[of k] meta_apply_get[OF _ app, of k] assms(1)
    by (simp add: group_stored_def rd_get_def s' plain_commands_def)
  show "bt_wf (gs_db s')" using db kv_write_batch_wf[OF assms(2)] s' by auto
  show "gs_voters s' = gs_voters s" by (simp add: s')
qed

locale group_codecs =
  fixes T :: "('l, 'm, 'v) raft_types" and C :: control_codecs and succ :: "'l \<Rightarrow> 'l" and self :: node_id
    and cap :: "u8 option"
  assumes plain: "plain_commands C"
    and records: "lossless (cc_config C)" "lossless (cc_roster C)" "lossless (cc_placement C)"
begin

lemma propose_fails: "group_propose T C succ b s = (Inl e, s') \<Longrightarrow> s' = s"
  by (auto simp: group_propose_def split: sum.splits prod.splits)

end

sublocale group_codecs \<subseteq> control "group_handle T C succ self" C group_stored "\<lambda>s. bt_wf (gs_db s)" cap
proof
  fix s k v resp s'
  assume "bt_wf (gs_db s)" and "h_propose (group_handle T C succ self) (enc (mc_command C) (MetaSet k v)) s = (Inr resp, s')"
  then show "bt_wf (gs_db s') \<and> group_stored s' = (group_stored s)(k \<mapsto> v) \<and>
    h_voter_ids (group_handle T C succ self) s' = h_voter_ids (group_handle T C succ self) s"
    using group_propose_ok[OF plain, of s T succ "MetaSet k v" resp s'] by (auto simp: group_handle_def)
qed (use propose_fails records in \<open>auto simp: group_handle_def group_stored_def\<close>)


context group_codecs
begin

lemma group_control: "control (group_handle T C succ self) C group_stored (\<lambda>s. bt_wf (gs_db s))"
  by unfold_locales

end

section \<open>Properties of the control plane\<close>

text \<open>
  C40: The records of the control plane stay sound through any sequence of bootstraps, admissions,
  drains, undrains, removals and failure marks, each of which may fail at any of its steps and leave
  part of its writes behind: a stored roster always has an active node, and a stored placement is
  always one derived from a roster with an active node.
\<close>

theorem control_plane_safe:
  assumes "control H C stored valid" and "valid s" and "control_ok C cap (stored s)"
  shows "control_ok C cap (stored (fold (\<lambda>op s. snd (run_op H C cap op s)) ops s))"
proof -
  have "valid s \<Longrightarrow> control_ok C cap (stored s) \<Longrightarrow>
    control_ok C cap (stored (fold (\<lambda>op s. snd (run_op H C cap op s)) ops s))"
  proof (induction ops arbitrary: s)
    case (Cons op ops)
    obtain r s' where "run_op H C cap op s = (r, s')" by fastforce
    then show ?case using Cons wpD[OF control.run_op_ok[OF assms(1) Cons.prems]] by simp
  qed simp
  with assms(2,3) show ?thesis by blast
qed

text \<open>
  On a metadata group run by the shard runtime, an admission that succeeds leaves the node a
  voter, active in the roster, and the placement in step with the roster; a removal that succeeds had
  a draining node to remove, and leaves it neither a voter nor in the roster, with the placement in
  step.
\<close>

theorem admit_remove_exact:
  assumes "plain_commands C" and "lossless (cc_config C)" and "lossless (cc_roster C)" and "lossless (cc_placement C)"
    and "bt_wf (gs_db s)" and "control_ok C cap (group_stored s)"
    and "admit_node (group_handle T C succ self) C cap n addr s = (Inr (), s1)"
    and "remove_node (group_handle T C succ self) C cap m s = (Inr r, s2)"
  shows "n \<in> set (gs_voters s1) \<and> in_step C cap (group_stored s1) \<and>
    bt_get (stored_roster C (group_stored s1)) n = Some \<lparr>advertise_addr = addr, node_status = Active\<rparr> \<and>
    m \<notin> set (gs_voters s2) \<and> in_step C cap (group_stored s2) \<and>
    bt_get (stored_roster C (group_stored s2)) m = None \<and>
    (\<exists>i. bt_get (stored_roster C (group_stored s)) m = Some i \<and> node_status i = Draining)"
proof -
  have loc: "group_codecs C" using assms(1-4) by unfold_locales
  let ?H = "group_handle T C succ self"
  have voters: "h_voter_ids ?H = gs_voters" by (simp add: group_handle_def)
  note ctl = group_codecs.group_control[OF loc, of T succ self]
  note add = wpD[OF control.admit_ok[OF ctl assms(5,6)] assms(7), unfolded control.settled_def[OF ctl] voters]
  note rem = wpD[OF control.remove_ok[OF ctl assms(5,6)] assms(8), unfolded control.settled_def[OF ctl] voters]
  from add rem show ?thesis by simp
qed


end
