(* ===== verification/Liveness.thy ===== *)
theory Liveness
  imports Control_Plane
begin

text \<open>
  The failure detector of the metadata leader (\<open>liveness.rs\<close> of \<open>saltator-cluster\<close>): the per-node
  hysteresis state and one round of probing. Instants are milliseconds as \<open>nat\<close>;
  \<open>Instant::duration_since\<close> saturates at zero, which is subtraction of naturals.
\<close>

definition RECOVERY_STREAK :: u32 where "RECOVERY_STREAK = 3"

datatype verdict = VMarkUnreachable | VMarkReachable | VNone

record observed =
  failing_since :: "nat option"
  ok_streak :: u32

definition fresh_observed :: observed where
  "fresh_observed = \<lparr>failing_since = None, ok_streak = 0\<rparr>"

record tracker =
  grace :: nat
  tracked :: "(node_id, observed) btree_map"

definition new_tracker :: "nat \<Rightarrow> tracker" where
  "new_tracker g = \<lparr>grace = g, tracked = []\<rparr>"

definition tracker_reset :: "tracker \<Rightarrow> tracker" where
  "tracker_reset t = t\<lparr>tracked := []\<rparr>"

definition forget :: "node_id \<Rightarrow> tracker \<Rightarrow> tracker" where
  "forget node t = t\<lparr>tracked := bt_remove node (tracked t)\<rparr>"

definition entry_or_default :: "node_id \<Rightarrow> tracker \<Rightarrow> observed" where
  "entry_or_default node t = (case bt_get (tracked t) node of Some e \<Rightarrow> e | None \<Rightarrow> fresh_observed)"

definition remember :: "node_id \<Rightarrow> observed \<Rightarrow> tracker \<Rightarrow> tracker" where
  "remember node e t = t\<lparr>tracked := bt_insert node e (tracked t)\<rparr>"

definition observe :: "node_id \<Rightarrow> node_status \<Rightarrow> bool \<Rightarrow> nat \<Rightarrow> tracker \<Rightarrow> verdict \<times> tracker" where
  "observe node status up now t =
     (case status of
        Draining \<Rightarrow> (VNone, forget node t)
      | Active \<Rightarrow>
          if up then (VNone, forget node t)
          else
            let e = entry_or_default node t;
                since = (case failing_since e of Some x \<Rightarrow> x | None \<Rightarrow> now);
                e' = \<lparr>failing_since = Some since, ok_streak = 0\<rparr>
            in if now - since \<ge> grace t then (VMarkUnreachable, forget node t)
               else (VNone, remember node e' t)
      | Unreachable \<Rightarrow>
          let e = (entry_or_default node t)\<lparr>failing_since := None\<rparr> in
          if \<not> up then (VNone, remember node (e\<lparr>ok_streak := 0\<rparr>) t)
          else
            let e' = e\<lparr>ok_streak := ok_streak e + 1\<rparr> in
            if ok_streak e' \<ge> RECOVERY_STREAK then (VMarkReachable, forget node t)
            else (VNone, remember node e' t))"

definition retain_known :: "roster \<Rightarrow> tracker \<Rightarrow> tracker" where
  "retain_known r t = t\<lparr>tracked := filter (\<lambda>(n, _). bt_get r n \<noteq> None) (tracked t)\<rparr>"

section \<open>One round of the detector\<close>

record detector =
  det_tracker :: tracker
  det_was_leader :: bool

text \<open>
  What a round observes of the world: leadership, the stored schema version (if it can be read), the
  local roster (if it can be read), and the outcome and the time of the probe of each node.
\<close>

record world =
  w_leader :: bool
  w_schema :: "u32 option"
  w_roster :: "roster option"
  w_ping :: "node_id \<Rightarrow> bool"
  w_now :: "node_id \<Rightarrow> nat"

definition judge_node ::
  "'s meta_handle \<Rightarrow> control_codecs \<Rightarrow> u8 option \<Rightarrow> node_id \<Rightarrow> world \<Rightarrow> node_id \<times> node_info
     \<Rightarrow> tracker \<times> 's \<Rightarrow> tracker \<times> 's" where
  "judge_node H C cap self w = (\<lambda>(n, info) (t, s).
     if n = self then
       (t, if node_status info = Unreachable then snd (mark_reachable H C cap n s) else s)
     else case observe n (node_status info) (w_ping w n) (w_now w n) t of
       (VMarkUnreachable, t') \<Rightarrow> (t', snd (mark_unreachable H C cap n s))
     | (VMarkReachable, t') \<Rightarrow> (t', snd (mark_reachable H C cap n s))
     | (VNone, t') \<Rightarrow> (t', s))"

definition detector_round ::
  "'s meta_handle \<Rightarrow> control_codecs \<Rightarrow> u8 option \<Rightarrow> node_id \<Rightarrow> world \<Rightarrow> detector \<times> 's \<Rightarrow> detector \<times> 's" where
  "detector_round H C cap self w = (\<lambda>(d, s).
     if \<not> w_leader w then (\<lparr>det_tracker = tracker_reset (det_tracker d), det_was_leader = False\<rparr>, s)
     else
       let t = (if det_was_leader d then det_tracker d else tracker_reset (det_tracker d));
           d' = \<lparr>det_tracker = t, det_was_leader = True\<rparr>
       in case w_schema w of
            Some v \<Rightarrow>
              if v \<ge> 3 then
                (case w_roster w of
                   None \<Rightarrow> (d', s)
                 | Some r \<Rightarrow>
                     (case fold (judge_node H C cap self w) r (t, s) of
                        (t', s') \<Rightarrow> (d'\<lparr>det_tracker := retain_known r t'\<rparr>, s')))
              else (d', s)
          | None \<Rightarrow> (d', s))"

section \<open>The hysteresis\<close>

text \<open>A history of one node, most recent observation last, and the verdict on its last one.\<close>

type_synonym history = "(node_status \<times> bool \<times> nat) list"

fun track :: "node_id \<Rightarrow> history \<Rightarrow> verdict \<times> tracker \<Rightarrow> verdict \<times> tracker" where
  "track node [] vt = vt"
| "track node ((st, up, now) # h) (v, t) = track node h (observe node st up now t)"

lemma track_snoc: "track node (h @ [(st, up, now)]) vt = observe node st up now (snd (track node h vt))"
  by (induction node h vt rule: track.induct) auto

text \<open>
  What the entry of a node says of its history: the current run of failures began at
  \<open>failing_since\<close>, the current run of successes has length \<open>ok_streak\<close>.
\<close>

definition explains :: "history \<Rightarrow> observed option \<Rightarrow> bool" where
  "explains h e =
     (case e of
        None \<Rightarrow> True
      | Some o' \<Rightarrow>
          (\<forall>since. failing_since o' = Some since \<longrightarrow>
             (\<exists>h1 h2. h = h1 @ (Active, False, since) # h2 \<and> (\<forall>x \<in> set h2. fst x = Active \<and> \<not> fst (snd x)))) \<and>
          (\<exists>h1 h2. h = h1 @ h2 \<and> length h2 = unat (ok_streak o') \<and> (\<forall>x \<in> set h2. fst x = Unreachable \<and> fst (snd x))) \<and>
          ok_streak o' < RECOVERY_STREAK)"

abbreviation failing_run :: "history \<Rightarrow> bool" where
  "failing_run h \<equiv> \<forall>x \<in> set h. fst x = Active \<and> \<not> fst (snd x)"

abbreviation answering_run :: "history \<Rightarrow> bool" where
  "answering_run h \<equiv> \<forall>x \<in> set h. fst x = Unreachable \<and> fst (snd x)"

lemma tracked_simps [simp]:
  "bt_get (tracked (forget n t)) n = None" "bt_get (tracked (remember n e t)) n = Some e"
  "grace (forget n t) = grace t" "grace (remember n e t) = grace t"
  by (simp_all add: forget_def remember_def)

lemma observe_grace: "grace (snd (observe node st up now t)) = grace t"
  by (simp add: observe_def Let_def split: node_status.split)

lemma explains_fresh: "explains h (Some fresh_observed)"
  unfolding explains_def fresh_observed_def RECOVERY_STREAK_def by (auto intro: exI[of _ h])

lemma explains_entry: "explains h (bt_get (tracked t) node) \<Longrightarrow> explains h (Some (entry_or_default node t))"
  by (cases "bt_get (tracked t) node") (auto simp: entry_or_default_def explains_fresh)

lemma observe_active:
  assumes ex: "explains h (bt_get (tracked t) node)" and run: "observe node Active False now t = (v, t')"
  shows "explains (h @ [(Active, False, now)]) (bt_get (tracked t') node) \<and> v \<noteq> VMarkReachable \<and>
    (v = VMarkUnreachable \<longrightarrow> (\<exists>h1 since h2. h @ [(Active, False, now)] = h1 @ (Active, False, since) # h2 \<and>
       failing_run h2 \<and> grace t \<le> now - since))"
proof -
  let ?h = "h @ [(Active, False, now)]"
  let ?e = "entry_or_default node t"
  define since where "since = (case failing_since ?e of Some x \<Rightarrow> x | None \<Rightarrow> now)"
  have since: "\<exists>h1 h2. ?h = h1 @ (Active, False, since) # h2 \<and> failing_run h2"
  proof (cases "failing_since ?e")
    case None
    then show ?thesis by (auto simp: since_def intro: exI[of _ h])
  next
    case (Some x)
    then obtain h1 h2 where "h = h1 @ (Active, False, x) # h2" "failing_run h2"
      using explains_entry[OF ex] by (auto simp: explains_def)
    then show ?thesis using Some by (intro exI[of _ h1] exI[of _ "h2 @ [(Active, False, now)]"]) (auto simp: since_def)
  qed
  have "explains ?h (Some \<lparr>failing_since = Some since, ok_streak = 0\<rparr>)"
    using since unfolding explains_def by (auto simp: RECOVERY_STREAK_def intro: exI[of _ ?h])
  then have ex': "explains ?h (Some \<lparr>failing_since = Some since, ok_streak = 0\<rparr>)" .
  show ?thesis
  proof (cases "grace t \<le> now - since")
    case True
    then have "v = VMarkUnreachable" "bt_get (tracked t') node = None"
      using run by (auto simp: observe_def Let_def since_def[symmetric])
    then show ?thesis using since True by (auto simp: explains_def)
  next
    case False
    then have "v = VNone" "bt_get (tracked t') node = Some \<lparr>failing_since = Some since, ok_streak = 0\<rparr>"
      using run by (auto simp: observe_def Let_def since_def[symmetric])
    then show ?thesis using ex' by simp
  qed
qed

lemma observe_unreachable:
  assumes ex: "explains h (bt_get (tracked t) node)" and run: "observe node Unreachable up now t = (v, t')"
  shows "explains (h @ [(Unreachable, up, now)]) (bt_get (tracked t') node) \<and> v \<noteq> VMarkUnreachable \<and>
    (v = VMarkReachable \<longrightarrow> (\<exists>h1 h2. h @ [(Unreachable, up, now)] = h1 @ h2 \<and>
       length h2 = unat RECOVERY_STREAK \<and> answering_run h2))"
proof (cases up)
  case False
  then show ?thesis using run
    by (auto simp: observe_def Let_def explains_def RECOVERY_STREAK_def intro: exI[of _ "h @ [(Unreachable, False, now)]"])
next
  case True
  let ?e = "entry_or_default node t"
  obtain h1 h2 where h: "h = h1 @ h2" "length h2 = unat (ok_streak ?e)" "answering_run h2" and lt: "ok_streak ?e < RECOVERY_STREAK"
    using explains_entry[OF ex] by (auto simp: explains_def)
  have "ok_streak ?e \<noteq> - 1" using lt by (auto simp: RECOVERY_STREAK_def)
  then have next': "unat (ok_streak ?e + 1) = Suc (length h2)" using h(2) unat_succ by metis
  have split: "h @ [(Unreachable, True, now)] = h1 @ (h2 @ [(Unreachable, True, now)])" "answering_run (h2 @ [(Unreachable, True, now)])"
    using h by auto
  have len: "length (h2 @ [(Unreachable, True, now)]) = unat (ok_streak ?e + 1)" using next' by simp
  have wit: "\<exists>a b. h @ [(Unreachable, True, now)] = a @ b \<and> length b = unat (ok_streak ?e + 1) \<and> answering_run b"
    using split len by blast
  have top: "ok_streak ?e + 1 = RECOVERY_STREAK" if "\<not> ok_streak ?e + 1 < RECOVERY_STREAK"
    using that lt next' h(2) by (simp add: word_less_nat_alt word_unat_eq_iff RECOVERY_STREAK_def)
  show ?thesis
  proof (cases "ok_streak ?e + 1 < RECOVERY_STREAK")
    case lt': True
    then have "v = VNone" "bt_get (tracked t') node = Some (?e\<lparr>failing_since := None, ok_streak := ok_streak ?e + 1\<rparr>)"
      using run True by (auto simp: observe_def Let_def linorder_not_less[symmetric] split: if_splits)
    then show ?thesis using wit lt' True unfolding explains_def by simp
  next
    case False
    then have "v = VMarkReachable" "bt_get (tracked t') node = None" using run True by (auto simp: observe_def Let_def linorder_not_less[symmetric] split: if_splits)
    then show ?thesis using wit top[OF False] True unfolding explains_def by simp
  qed
qed

lemma observe_explains:
  assumes "explains h (bt_get (tracked t) node)" and "observe node st up now t = (v, t')"
  shows "explains (h @ [(st, up, now)]) (bt_get (tracked t') node)"
    and "v = VMarkUnreachable \<Longrightarrow> \<exists>h1 since h2. h @ [(st, up, now)] = h1 @ (Active, False, since) # h2 \<and>
       failing_run h2 \<and> grace t \<le> now - since"
    and "v = VMarkReachable \<Longrightarrow> \<exists>h1 h2. h @ [(st, up, now)] = h1 @ h2 \<and> length h2 = unat RECOVERY_STREAK \<and> answering_run h2"
proof -
  have quiet: "v = VNone \<and> bt_get (tracked t') node = None" if "st = Draining \<or> st = Active \<and> up"
    using that assms(2) by (auto simp: observe_def)
  consider "st = Draining \<or> st = Active \<and> up" | "st = Active" "\<not> up" | "st = Unreachable" by (cases st) auto
  then have "explains (h @ [(st, up, now)]) (bt_get (tracked t') node) \<and>
    (v = VMarkUnreachable \<longrightarrow> (\<exists>h1 since h2. h @ [(st, up, now)] = h1 @ (Active, False, since) # h2 \<and>
       failing_run h2 \<and> grace t \<le> now - since)) \<and>
    (v = VMarkReachable \<longrightarrow> (\<exists>h1 h2. h @ [(st, up, now)] = h1 @ h2 \<and> length h2 = unat RECOVERY_STREAK \<and> answering_run h2))"
  proof cases
    case 1
    then show ?thesis using quiet by (simp add: explains_def)
  next
    case 2
    then show ?thesis using observe_active[OF assms(1), of now v t'] assms(2) by simp
  next
    case 3
    then show ?thesis using observe_unreachable[OF assms(1), of up now v t'] assms(2) by simp
  qed
  then show "explains (h @ [(st, up, now)]) (bt_get (tracked t') node)"
    and "v = VMarkUnreachable \<Longrightarrow> \<exists>h1 since h2. h @ [(st, up, now)] = h1 @ (Active, False, since) # h2 \<and>
       failing_run h2 \<and> grace t \<le> now - since"
    and "v = VMarkReachable \<Longrightarrow> \<exists>h1 h2. h @ [(st, up, now)] = h1 @ h2 \<and> length h2 = unat RECOVERY_STREAK \<and> answering_run h2"
    by blast+
qed

lemma track_explains:
  "explains h (bt_get (tracked (snd (track node h (VNone, new_tracker g)))) node)
   \<and> grace (snd (track node h (VNone, new_tracker g))) = g"
proof (induction h rule: rev_induct)
  case Nil
  then show ?case by (simp add: new_tracker_def explains_def)
next
  case (snoc x h)
  obtain st up now where x: "x = (st, up, now)" by (cases x)
  let ?t = "snd (track node h (VNone, new_tracker g))"
  obtain v t' where o': "observe node st up now ?t = (v, t')" by fastforce
  show ?case using observe_explains(1)[OF conjunct1[OF snoc] o'] snoc observe_grace[of node st up now ?t] o'
    by (simp add: x track_snoc)
qed

text \<open>
  The failure detector only condemns an active node after an unbroken run of failed probes that
  spans the whole grace period, and only restores an unreachable one after as many successful probes
  in a row as the recovery streak demands; a node being drained is never judged.
\<close>

theorem detector_hysteresis:
  assumes "track node (h @ [(st, up, now)]) (VNone, new_tracker g) = (v, t)"
  shows "(v = VMarkUnreachable \<longrightarrow> (\<exists>h1 since h2. h @ [(st, up, now)] = h1 @ (Active, False, since) # h2 \<and>
            failing_run h2 \<and> g \<le> now - since)) \<and>
         (v = VMarkReachable \<longrightarrow> (\<exists>h1 h2. h @ [(st, up, now)] = h1 @ h2 \<and>
            length h2 = unat RECOVERY_STREAK \<and> answering_run h2)) \<and>
         (st = Draining \<longrightarrow> v = VNone)"
proof -
  let ?t = "snd (track node h (VNone, new_tracker g))"
  have o': "observe node st up now ?t = (v, t)" using assms by (simp add: track_snoc)
  have ex: "explains h (bt_get (tracked ?t) node)" "grace ?t = g" using track_explains[of h node g] by auto
  have "st = Draining \<Longrightarrow> v = VNone" using o' by (auto simp: observe_def)
  then show ?thesis using observe_explains(2,3)[OF ex(1) o'] by (intro conjI impI) (simp_all only: ex(2))
qed


section \<open>The detector and the control plane\<close>

lemma marks_respect_drain:
  assumes "plan_mark_unreachable r m = Inr r' \<or> plan_mark_reachable r m = Inr r'"
    and "bt_get r n = Some i" and "node_status i = Draining"
  shows "bt_get r' n = Some i"
  using assms by (auto simp: plan_mark_unreachable_def plan_mark_reachable_def set_status_get split: if_splits)

lemma snd_discard: "snd (sbind m (\<lambda>_. sret ()) s) = snd (m s)"
  by (cases "m s"; cases "fst (m s)") (auto simp: sbind_def sret_def)

context control
begin

lemma marks_sound:
  assumes "valid s" and "control_ok C cap (stored s)"
  shows "valid (snd (mark_reachable H C cap n s)) \<and> control_ok C cap (stored (snd (mark_reachable H C cap n s)))"
    and "valid (snd (mark_unreachable H C cap n s)) \<and> control_ok C cap (stored (snd (mark_unreachable H C cap n s)))"
  using wpD[OF run_op_ok[OF assms, of "OpReachable n"]] wpD[OF run_op_ok[OF assms, of "OpUnreachable n"]]
    snd_discard[of "mark_reachable H C cap n" s] snd_discard[of "mark_unreachable H C cap n" s]
  by (metis prod.collapse run_op.simps(6,7))+

lemma judge_sound:
  assumes "judge_node H C cap self w x (t, s) = (t', s')" and "valid s" and "control_ok C cap (stored s)"
  shows "valid s' \<and> control_ok C cap (stored s')"
  using assms marks_sound[OF assms(2,3), of "fst x"]
  by (cases x) (auto simp: judge_node_def split: if_splits prod.splits verdict.splits)

lemma judge_all_sound:
  assumes "fold (judge_node H C cap self w) r (t, s) = (t', s')" and "valid s" and "control_ok C cap (stored s)"
  shows "valid s' \<and> control_ok C cap (stored s')"
  using assms
proof (induction r arbitrary: t s)
  case (Cons x r)
  obtain t1 s1 where j: "judge_node H C cap self w x (t, s) = (t1, s1)" by fastforce
  with Cons.prems(1) have "fold (judge_node H C cap self w) r (t1, s1) = (t', s')" by simp
  then show ?case using Cons.IH judge_sound[OF j Cons.prems(2,3)] by blast
qed simp

end

text \<open>
  A round of the failure detector keeps the records of the control plane sound, whatever it
  observes, however stale the roster it reads, and however the marks it proposes fail: no round takes
  the last active node away.
\<close>

theorem detector_round_safe:
  assumes "control H C stored valid" and "valid s" and "control_ok C cap (stored s)"
    and "detector_round H C cap self w (d, s) = (d', s')"
  shows "valid s' \<and> control_ok C cap (stored s')"
  using assms(2-4) control.judge_all_sound[OF assms(1)]
  by (fastforce simp: detector_round_def Let_def split: if_splits option.splits prod.splits)


end
