(* ===== verification/Cluster_Examples.thy ===== *)
theory Cluster_Examples
  imports Shard_Examples Liveness
begin

text \<open>
  A concrete cluster: codecs for the records of the control plane, a metadata group run by the shard
  runtime, and the theorems about placement, the metadata group and the failure detector applied to
  small topologies.
\<close>

section \<open>Codecs\<close>

definition list_codec :: "('a \<Rightarrow> bytes \<times> bytes) \<Rightarrow> (bytes \<times> bytes \<Rightarrow> 'a) \<Rightarrow> 'a list codec" where
  "list_codec f g = \<lparr>enc = (\<lambda>xs. put_kvs (map f xs)), dec = (\<lambda>b. map_option (map g) (get_kvs (length b) b))\<rparr>"

lemma list_codec_lossless:
  assumes "\<And>x. g (f x) = x"
  shows "lossless (list_codec f g)"
proof -
  have "get_kvs (length (put_kvs (map f xs))) (put_kvs (map f xs)) = Some (map f xs)" for xs
    using length_put_kvs[of "map f xs"] by (rule get_put_kvs)
  then show ?thesis using assms by (simp add: lossless_def list_codec_def comp_def)
qed

definition be_u64 :: "bytes \<Rightarrow> u64" where
  "be_u64 b = of_nat (of_be_bytes b)"

lemma be_u64_be [simp]: "be_u64 (u64_be q) = q"
  by (simp add: be_u64_def of_be_u64)

fun status_byte :: "node_status \<Rightarrow> char" where
  "status_byte Active = CHR ''a''"
| "status_byte Draining = CHR ''d''"
| "status_byte Unreachable = CHR ''u''"

definition roster_codec :: "roster codec" where
  "roster_codec = list_codec (\<lambda>(n, i). (u64_be n, status_byte (node_status i) # advertise_addr i))
     (\<lambda>(k, v). (be_u64 k, \<lparr>advertise_addr = tl v,
        node_status = (if hd v = CHR ''a'' then Active else if hd v = CHR ''d'' then Draining else Unreachable)\<rparr>))"

definition nodes_codec :: "node_id list codec" where
  "nodes_codec = list_codec (\<lambda>n. (u64_be n, [])) (\<lambda>(k, _). be_u64 k)"

definition placement_codec :: "placement codec" where
  "placement_codec = list_codec (\<lambda>(g, ns). (u64_be g, enc nodes_codec ns))
     (\<lambda>(k, v). (be_u64 k, case dec nodes_codec v of Some ns \<Rightarrow> ns | None \<Rightarrow> []))"

definition config_codec :: "cluster_config codec" where
  "config_codec = \<lparr>enc = (\<lambda>c. u16_be (room_shards c) @ u16_be (user_shards c) @ [byte (unat (replication_factor c))]),
     dec = (\<lambda>b. Some \<lparr>room_shards = of_nat (of_be_bytes (take 2 b)), user_shards = of_nat (of_be_bytes (take 2 (drop 2 b))),
        replication_factor = of_nat (byte_val (last b))\<rparr>)\<rparr>"

lemma nodes_codec_lossless [simp]: "lossless nodes_codec"
  unfolding nodes_codec_def by (rule list_codec_lossless) simp

lemma roster_codec_lossless [simp]: "lossless roster_codec"
  unfolding roster_codec_def
proof (rule list_codec_lossless)
  fix x :: "node_id \<times> node_info"
  show "(\<lambda>(k, v). (be_u64 k, \<lparr>advertise_addr = tl v,
        node_status = (if hd v = CHR ''a'' then Active else if hd v = CHR ''d'' then Draining else Unreachable)\<rparr>))
      ((\<lambda>(n, i). (u64_be n, status_byte (node_status i) # advertise_addr i)) x) = x"
    by (cases x; cases "node_status (snd x)") simp_all
qed

lemma placement_codec_lossless [simp]: "lossless placement_codec"
  unfolding placement_codec_def by (rule list_codec_lossless) (auto simp: losslessD[OF nodes_codec_lossless])

lemma u16_of_be: "of_nat (of_be_bytes (u16_be w)) = w"
  using unat_u16_lt[of w] by (simp add: u16_be_def of_be_be_bytes)

lemma config_codec_lossless [simp]: "lossless config_codec"
  by (simp add: lossless_def config_codec_def u16_of_be)

definition meta_command_codec :: "meta_command codec" where
  "meta_command_codec = \<lparr>enc = (\<lambda>c. case c of MetaSet k v \<Rightarrow> CHR ''s'' # put_bytes k @ v | MetaDelete k \<Rightarrow> CHR ''d'' # k),
     dec = (\<lambda>b. case b of [] \<Rightarrow> None
              | t # r \<Rightarrow> if t = CHR ''s'' then map_option (\<lambda>(k, v). MetaSet k v) (get_bytes r) else Some (MetaDelete r))\<rparr>"

definition meta_response_codec :: "meta_response codec" where
  "meta_response_codec = \<lparr>enc = (\<lambda>r. case previous r of None \<Rightarrow> [] | Some b \<Rightarrow> CHR ''p'' # b),
     dec = (\<lambda>b. Some \<lparr>previous = (case b of [] \<Rightarrow> None | _ # r \<Rightarrow> Some r)\<rparr>)\<rparr>"

definition example_codecs :: control_codecs where
  "example_codecs = \<lparr>mc_command = meta_command_codec, mc_response = meta_response_codec,
     mc_change = \<lparr>enc = change_key, dec = (\<lambda>b. Some \<lparr>change_key = b\<rparr>)\<rparr>, mc_u32 = u32_codec,
     cc_config = config_codec, cc_roster = roster_codec, cc_placement = placement_codec\<rparr>"

lemma meta_command_lossless [simp]: "lossless meta_command_codec"
  by (simp add: lossless_def meta_command_codec_def split: meta_command.split)

lemma meta_response_lossless [simp]: "lossless meta_response_codec"
  by (simp add: lossless_def meta_response_codec_def split: option.split)

lemma example_codecs_simps [simp]:
  "mc_command example_codecs = meta_command_codec" "mc_response example_codecs = meta_response_codec"
  "mc_u32 example_codecs = u32_codec" "cc_config example_codecs = config_codec"
  "cc_roster example_codecs = roster_codec" "cc_placement example_codecs = placement_codec"
  by (simp_all add: example_codecs_def)

lemma example_plain [simp]: "plain_commands example_codecs"
proof -
  have "CHR ''s'' \<noteq> byte 255" "CHR ''d'' \<noteq> byte 255" by code_simp+
  then have "\<exists>b bs. enc meta_command_codec c = b # bs \<and> b \<noteq> RUNTIME_CMD_PREFIX" for c
    by (cases c) (simp_all add: meta_command_codec_def RUNTIME_CMD_PREFIX_def)
  then show ?thesis by (simp add: plain_commands_def)
qed

interpretation example_group: group_codecs raft example_codecs "\<lambda>i. i + 1" 1 None
  by standard simp_all

section \<open>Placement\<close>

definition two_rooms :: cluster_config where
  "two_rooms = \<lparr>room_shards = 2, user_shards = 1, replication_factor = 2\<rparr>"

definition node :: "node_status \<Rightarrow> node_info" where
  "node st = \<lparr>advertise_addr = ''a:1'', node_status = st\<rparr>"

lemma u64_order [simp]: "(1 :: u64) < 2" "(2 :: u64) < 3" "(1 :: u64) < 3" "(3 :: u64) < 4" "(1 :: u64) < 4" "(2 :: u64) < 4"
  by (simp_all add: word_less_nat_alt)

lemma fedout_group: "group \<lparr>sid_keyspace = FedOut, sid_index = 0\<rparr> \<in> set (data_groups two_rooms)"
  by (simp add: data_groups_def)

theorem assign_exact_witness:
  "\<exists>hosts. hosts = replicas (assign two_rooms None [1, 2, 3]) (group \<lparr>sid_keyspace = FedOut, sid_index = 0\<rparr>) \<and>
     distinct hosts \<and> length hosts = group_size two_rooms None 3 (group \<lparr>sid_keyspace = FedOut, sid_index = 0\<rparr>)"
  using assign_exact[of "[1, 2, 3]" _ two_rooms None "group \<lparr>sid_keyspace = FedOut, sid_index = 0\<rparr>"] fedout_group
  by (simp add: numeral_3_eq_3)

theorem join_displaces_at_most_one_witness:
  "set (blob_replicas ''blob'' 2 [1, 2, 3, 4]) \<subseteq> insert 4 (set (blob_replicas ''blob'' 2 [1, 2, 3])) \<and>
   card (set (blob_replicas ''blob'' 2 [1, 2, 3]) - set (blob_replicas ''blob'' 2 [1, 2, 3, 4])) \<le> 1"
proof -
  have "bs_insert (4 :: node_id) [1, 2, 3] = [1, 2, 3, 4]" by (simp add: word_less_nat_alt)
  then show ?thesis using join_displaces_at_most_one[of 4 "[1, 2, 3]" two_rooms None 0 "''blob''" 2] by simp
qed

lemma drain_example: "roster_step [(1, node Active), (2, node Active)] [(1, node Active), (2, node Draining)]"
  by (rule roster_step.drain[of _ 2]) (simp add: plan_drain_def active_nodes_def set_status_def node_def)

theorem roster_keeps_groups_hosted_witness:
  "active_nodes [(1, node Active), (2, node Draining)] \<noteq> [] \<and>
   replicas (assign two_rooms None (active_nodes [(1, node Active), (2, node Draining)]))
     (group \<lparr>sid_keyspace = FedOut, sid_index = 0\<rparr>) \<noteq> []"
  using roster_keeps_groups_hosted[OF r_into_rtranclp[of roster_step, OF drain_example] _ _ fedout_group, of None]
  by (simp add: active_nodes_def node_def)

theorem blob_quorums_intersect_witness:
  "set (blob_replicas ''blob'' 2 [1, 2, 3]) \<inter> set (blob_replicas ''blob'' 2 [1, 2, 3]) \<noteq> {} \<and>
   blob_quorum (card (set (blob_replicas ''blob'' 2 [1, 2, 3]))) \<le> card (set (blob_replicas ''blob'' 2 [1, 2, 3]))"
proof -
  let ?R = "set (blob_replicas ''blob'' 2 [1, 2, 3])"
  have "distinct (blob_replicas ''blob'' 2 [1, 2, 3])" unfolding blob_replicas_def by (rule distinct_take) simp
  then have "card ?R = 2" by (simp add: distinct_card blob_replicas_def)
  then show ?thesis using blob_quorums_intersect[of "[1, 2, 3]" ?R "''blob''" 2 ?R ?R] by (simp add: blob_quorum_def)
qed

section \<open>The metadata group\<close>

definition empty_group :: "u64 group_state" where
  "empty_group = \<lparr>gs_db = [], gs_voters = [1], gs_next = 1\<rparr>"

lemma fresh_meta_get: "ctx_get \<lparr>ctx_shard = s, ctx_engine = [], ctx_wb = [], ctx_seq = q, ctx_emits = []\<rparr> t k = None"
  by (simp add: ctx_get_def staged_def Let_def kv_get_def)

theorem meta_kv_exact_witness:
  "dec meta_response_codec [] = Some \<lparr>previous = None\<rparr> \<and>
   ctx_get (ctx_put T_KV ''k'' ''v'' (\<lparr>ctx_shard = METADATA, ctx_engine = [], ctx_wb = [], ctx_seq = 0, ctx_emits = []\<rparr>)) T_KV ''k'' = Some ''v''"
proof -
  let ?c = "\<lparr>ctx_shard = METADATA, ctx_engine = [], ctx_wb = [], ctx_seq = 0, ctx_emits = []\<rparr>"
  have schema: "stored_meta_schema example_codecs ?c = Inr 1" by (simp add: stored_meta_schema_def fresh_meta_get)
  have "meta_apply example_codecs ?c (enc (mc_command example_codecs) (MetaSet ''k'' ''v'')) = Inr ([], ctx_put T_KV ''k'' ''v'' ?c)"
    by (simp add: meta_apply_def meta_run_def stored_meta_schema_def fresh_meta_get meta_response_codec_def word_le_nat_alt)
  from meta_kv_exact[OF _ _ this schema refl] show ?thesis by (simp add: fresh_meta_get)
qed

definition journal_db :: kv where
  "journal_db = kv_put [] (ctx_key METADATA T_CHANGES (u64_be 5)) ''k''"

theorem meta_replay_exact_witness:
  "\<exists>rows. meta_replay \<lparr>rd_shard = METADATA, rd_engine = journal_db\<rparr> 3 10 = take 10 rows \<and> (5, ''k'') \<in> set rows"
proof -
  let ?rd = "\<lparr>rd_shard = METADATA, rd_engine = journal_db\<rparr>"
  have get: "rd_get ?rd T_CHANGES k = (if k = u64_be 5 then Some ''k'' else None)" for k
    by (simp add: rd_get_def journal_db_def kv_get_def kv_put_def)
  have "bt_wf journal_db" by (simp add: journal_db_def kv_put_def)
  then have "journal_ok ?rd" by (auto simp: journal_ok_def get split: if_splits)
  moreover have "(3 :: u64) < 5" by (simp add: word_less_nat_alt)
  ultimately show ?thesis using meta_replay_exact[of ?rd 3 10] get by (auto intro: exI)
qed

section \<open>The control plane\<close>

abbreviation ex_handle :: "u64 group_state meta_handle" where
  "ex_handle \<equiv> group_handle raft example_codecs (\<lambda>i. i + 1) 1"

lemma empty_group_ok: "bt_wf (gs_db empty_group)" "control_ok example_codecs None (group_stored empty_group)"
  by (simp_all add: empty_group_def control_ok_def group_stored_def rd_get_def kv_get_def)

theorem control_plane_safe_witness:
  "control_ok example_codecs None (group_stored
     (fold (\<lambda>op s. snd (run_op ex_handle example_codecs None op s)) [OpBootstrap two_rooms ''a:1'', OpAdmit 2 ''b:1'', OpDrain 1] empty_group))"
  by (rule control_plane_safe[OF example_group.group_control empty_group_ok])

theorem detector_round_safe_witness:
  "\<exists>d s. detector_round ex_handle example_codecs None 1
      \<lparr>w_leader = True, w_schema = Some 3, w_roster = Some [(2, node Active)], w_ping = (\<lambda>_. False), w_now = (\<lambda>_. 0)\<rparr>
      (\<lparr>det_tracker = new_tracker 0, det_was_leader = True\<rparr>, empty_group) = (d, s) \<and>
     control_ok example_codecs None (group_stored s)"
proof -
  let ?w = "\<lparr>w_leader = True, w_schema = Some 3, w_roster = Some [(2, node Active)], w_ping = (\<lambda>_. False), w_now = (\<lambda>_. 0)\<rparr>"
  obtain d s where r: "detector_round ex_handle example_codecs None 1 ?w (\<lparr>det_tracker = new_tracker 0, det_was_leader = True\<rparr>, empty_group) = (d, s)"
    by fastforce
  show ?thesis using detector_round_safe[OF example_group.group_control empty_group_ok r] r by blast
qed

theorem detector_hysteresis_witness:
  "\<exists>h1 since h2. [(Active, False, 0), (Active, False, 40)] = h1 @ (Active, False, since) # h2 \<and> failing_run h2 \<and> 30 \<le> (40 :: nat) - since"
proof -
  have "track 2 ([(Active, False, 0)] @ [(Active, False, 40)]) (VNone, new_tracker 30) = (VMarkUnreachable, new_tracker 30)"
    by (simp add: observe_def Let_def new_tracker_def entry_or_default_def fresh_observed_def remember_def forget_def bt_remove_def)
  from detector_hysteresis[OF this] show ?thesis by simp
qed


text \<open>A group whose cells for the sequence number and the schema are absent commits every write.\<close>

definition calm :: "u64 group_state \<Rightarrow> bool" where
  "calm s \<longleftrightarrow> bt_wf (gs_db s) \<and> kv_get (gs_db s) (sm_meta_key METADATA K_SEQ) = None \<and>
     kv_get (gs_db s) (ctx_key METADATA T_SCHEMA ''version'') = None"

lemma calm_propose:
  assumes "calm s"
  shows "\<exists>s'. group_propose raft example_codecs (\<lambda>i. i + 1) (enc meta_command_codec (MetaSet k v)) s
    = (Inr (enc meta_response_codec \<lparr>previous = group_stored s k\<rparr>), s') \<and> calm s'"
proof -
  let ?ctx = "\<lparr>ctx_shard = METADATA, ctx_engine = gs_db s, ctx_wb = [], ctx_seq = 0, ctx_emits = []\<rparr>"
  let ?e = "\<lparr>entry_log_id = gs_next s, entry_payload = Normal (enc meta_command_codec (MetaSet k v))\<rparr>"
  let ?ctx' = "ctx_put T_KV k v ?ctx"
  have wf: "bt_wf (gs_db s)" using assms by (simp add: calm_def)
  have seq: "sm_seq raft METADATA (gs_db s) = Inr 0" using assms by (simp add: sm_seq_def get_cell_def calm_def)
  have old: "ctx_get ?ctx t k = kv_get (gs_db s) (ctx_key METADATA t k)" for t k
    by (simp add: ctx_get_def staged_def Let_def)
  have "stored_meta_schema example_codecs ?ctx' = Inr 1"
    using assms by (simp add: stored_meta_schema_def old calm_def)
  then have run: "meta_apply example_codecs ?ctx (enc meta_command_codec (MetaSet k v)) =
      Inr (enc meta_response_codec \<lparr>previous = group_stored s k\<rparr>, ?ctx')"
    by (simp add: meta_apply_def meta_run_def old group_stored_def rd_get_def word_le_nat_alt)
  obtain b bs where "enc meta_command_codec (MetaSet k v) = b # bs" "b \<noteq> RUNTIME_CMD_PREFIX"
    using example_plain unfolding plain_commands_def by fastforce
  then have "apply_command raft (meta_app example_codecs) ?ctx (enc meta_command_codec (MetaSet k v)) =
      Inr (enc meta_response_codec \<lparr>previous = group_stored s k\<rparr>, ?ctx')"
    using run by (simp add: apply_command_def meta_app_def)
  then have "sm_apply raft (meta_app example_codecs) METADATA [?e] (gs_db s) =
      Inr ([enc meta_response_codec \<lparr>previous = group_stored s k\<rparr>],
           kv_write_batch (gs_db s) (wb_put (sm_meta_key METADATA K_LAST_APPLIED) (enc log_id_codec (Some (gs_next s))) (ctx_wb ?ctx')), [])"
    using seq by (simp add: sm_apply_def apply_entry_def Let_def)
  moreover have "calm (s\<lparr>gs_db := kv_write_batch (gs_db s) (wb_put (sm_meta_key METADATA K_LAST_APPLIED) x (ctx_wb ?ctx')), gs_next := y\<rparr>)" for x y
    using assms kv_write_batch_wf[OF wf]
    by (simp add: calm_def ctx_put_def kv_get_wb_put[OF wf] sm_meta_key_def cell_names T_KV_def)
       (simp add: wb_put_def kv_write_batch_def kv_put_def kv_get_def)
  ultimately show ?thesis by (simp add: group_propose_def)
qed

lemma calm_set_blob:
  assumes "calm s"
  shows "\<exists>s'. set_blob ex_handle example_codecs c k v s = (Inr (), s') \<and> calm s'"
proof -
  obtain s' where p: "group_propose raft example_codecs (\<lambda>i. i + 1) (enc meta_command_codec (MetaSet k (enc c v))) s
    = (Inr (enc meta_response_codec \<lparr>previous = group_stored s k\<rparr>), s')" "calm s'" using calm_propose[OF assms] by blast
  have "h_propose ex_handle = group_propose raft example_codecs (\<lambda>i. i + 1)" by (simp add: group_handle_def)
  then show ?thesis using p by (simp add: set_blob_def meta_write_def sbind_def slift_def sret_def)
qed

lemma calm_write_roster:
  assumes "calm s" and "group_stored s K_CONFIG = None"
  shows "\<exists>s'. write_roster ex_handle example_codecs None r s = (Inr (), s') \<and> calm s'"
proof -
  have "read_config ex_handle example_codecs s = (Inr None, s)"
    using assms(2) by (simp add: read_config_def get_blob_def sbind_def slift_def group_handle_def decode_blob_def)
  then show ?thesis using calm_set_blob[OF assms(1), of roster_codec K_ROSTER r] calm_set_blob[of _ placement_codec K_PLACEMENT]
    by (fastforce simp: write_roster_def sbind_def)
qed

definition draining_roster :: roster where
  "draining_roster = [(1, node Active), (2, node Draining)]"

definition draining_group :: "u64 group_state" where
  "draining_group = \<lparr>gs_db = kv_put [] (ctx_key METADATA T_KV K_ROSTER) (enc roster_codec draining_roster), gs_voters = [1, 2], gs_next = 1\<rparr>"

lemma draining_stored: "group_stored draining_group k = (if k = K_ROSTER then Some (enc roster_codec draining_roster) else None)"
  by (simp add: group_stored_def rd_get_def draining_group_def kv_put_def kv_get_def)

lemma draining_ok: "calm draining_group" "control_ok example_codecs None (group_stored draining_group)"
  "read_roster ex_handle example_codecs draining_group = (Inr draining_roster, draining_group)"
proof -
  show "calm draining_group"
    by (simp add: calm_def draining_group_def kv_put_def kv_get_def sm_meta_key_def T_KV_def)
  have "bt_wf draining_roster" "active_nodes draining_roster \<noteq> []"
    by (simp_all add: draining_roster_def active_nodes_def node_def)
  then show "control_ok example_codecs None (group_stored draining_group)"
    by (auto simp: control_ok_def draining_stored)
  show "read_roster ex_handle example_codecs draining_group = (Inr draining_roster, draining_group)"
    by (simp add: read_roster_def get_blob_def sbind_def slift_def sret_def group_handle_def decode_blob_def draining_stored)
qed

theorem admit_remove_exact_witness:
  "\<exists>s1 r s2. admit_node ex_handle example_codecs None 3 ''c:1'' draining_group = (Inr (), s1) \<and>
     remove_node ex_handle example_codecs None 2 draining_group = (Inr r, s2) \<and>
     3 \<in> set (gs_voters s1) \<and> 2 \<notin> set (gs_voters s2) \<and>
     bt_get (stored_roster example_codecs (group_stored s2)) 2 = None"
proof -
  have voters: "calm (draining_group\<lparr>gs_voters := vs\<rparr>)" "group_stored (draining_group\<lparr>gs_voters := vs\<rparr>) = group_stored draining_group" for vs
    using draining_ok(1) by (simp_all add: calm_def group_stored_def fun_eq_iff)
  have none: "group_stored (draining_group\<lparr>gs_voters := vs\<rparr>) K_CONFIG = None" for vs by (simp add: voters draining_stored)
  have read: "read_roster ex_handle example_codecs (draining_group\<lparr>gs_voters := vs\<rparr>) = (Inr draining_roster, draining_group\<lparr>gs_voters := vs\<rparr>)" for vs
    by (simp add: read_roster_def get_blob_def sbind_def slift_def sret_def group_handle_def decode_blob_def voters draining_stored)
  have parts: "h_add_learner ex_handle n a s = (Inr (), s)" "h_set_voters ex_handle vs s = (Inr (), s\<lparr>gs_voters := vs\<rparr>)" "h_voter_ids ex_handle = gs_voters" for n a s vs
    by (simp_all add: group_handle_def)
  obtain s1 where a: "admit_node ex_handle example_codecs None 3 ''c:1'' draining_group = (Inr (), s1)"
    using calm_write_roster[OF voters(1) none] by (fastforce simp: admit_node_def sbind_def parts read)
  have plan: "plan_removal draining_roster 2 = Inr [(1, node Active)]"
    by (simp add: plan_removal_def draining_roster_def node_def bt_remove_def)
  have vs: "gs_voters draining_group = [1, 2]" by (simp add: draining_group_def)
  obtain s2 where w: "write_roster ex_handle example_codecs None [(1, node Active)] (draining_group\<lparr>gs_voters := [1]\<rparr>) = (Inr (), s2)"
    using calm_write_roster[OF voters(1) none] by blast
  have b: "remove_node ex_handle example_codecs None 2 draining_group = (Inr [(1, node Active)], s2)"
    using w by (simp add: remove_node_def sbind_def parts draining_ok(3) plan Let_def sret_def vs)
  have wf: "bt_wf (gs_db draining_group)" using draining_ok(1) by (simp add: calm_def)
  show ?thesis using admit_remove_exact[OF _ _ _ _ wf draining_ok(2) a b] a b by auto
qed


end
