(* ===== verification/Ctx_Monad.thy ===== *)
theory Ctx_Monad
  imports Shard_Reads
begin

text \<open>
  Applications as programs over their context: a command reads tables, stages writes, emits records,
  and stops at the first error, whose context is dropped with the batch. \<open>confined S\<close> says that a
  program writes to the tables of \<open>S\<close> only; its rules follow the structure of a program, so that the
  frame of every command, and the interface to the runtime, are found by applying them.
\<close>

type_synonym 'a ap = "apply_ctx \<Rightarrow> store_error + 'a \<times> apply_ctx"

named_theorems confined_intros \<open>the tables a program writes\<close>

definition aret :: "'a \<Rightarrow> 'a ap" where
  "aret a ctx = Inr (a, ctx)"

definition alift :: "store_error + 'a \<Rightarrow> 'a ap" where
  "alift r ctx = rbind r (\<lambda>a. Inr (a, ctx))"

definition abind :: "'a ap \<Rightarrow> ('a \<Rightarrow> 'b ap) \<Rightarrow> 'b ap" where
  "abind m f ctx = rbind (m ctx) (\<lambda>(a, ctx'). f a ctx')"

definition aseq :: "unit ap \<Rightarrow> 'b ap \<Rightarrow> 'b ap" where
  "aseq m n = abind m (\<lambda>_. n)"

definition aget :: "u8 \<Rightarrow> bytes \<Rightarrow> bytes option ap" where
  "aget t k ctx = Inr (ctx_get ctx t k, ctx)"

definition arange :: "u8 \<Rightarrow> bytes \<Rightarrow> bytes \<Rightarrow> (bytes \<times> bytes) list ap" where
  "arange t s e ctx = Inr (ctx_range ctx t s e, ctx)"

definition aput :: "u8 \<Rightarrow> bytes \<Rightarrow> bytes \<Rightarrow> unit ap" where
  "aput t k v ctx = Inr ((), ctx_put t k v ctx)"

definition adelete :: "u8 \<Rightarrow> bytes \<Rightarrow> unit ap" where
  "adelete t k ctx = Inr ((), ctx_delete t k ctx)"

definition aemit :: "bytes \<Rightarrow> u64 ap" where
  "aemit p ctx = Inr (ctx_emit p ctx)"

fun afold :: "('x \<Rightarrow> 's \<Rightarrow> 's ap) \<Rightarrow> 'x list \<Rightarrow> 's \<Rightarrow> 's ap" where
  "afold f [] s = aret s"
| "afold f (x # xs) s = abind (f x s) (afold f xs)"

fun afor :: "('x \<Rightarrow> unit ap) \<Rightarrow> 'x list \<Rightarrow> unit ap" where
  "afor f [] = aret ()"
| "afor f (x # xs) = aseq (f x) (afor f xs)"

text \<open>Reading a row of a type: an absent row is no value, a row that does not decode an error.\<close>

definition decode_opt :: "string \<Rightarrow> 'a codec \<Rightarrow> bytes option \<Rightarrow> store_error + 'a option" where
  "decode_opt what c b = (case b of Some b \<Rightarrow> rbind (decode_r what c b) (\<lambda>x. Inr (Some x)) | None \<Rightarrow> Inr None)"

definition aget_typed :: "string \<Rightarrow> 'a codec \<Rightarrow> u8 \<Rightarrow> bytes \<Rightarrow> 'a option ap" where
  "aget_typed what c t k = abind (aget t k) (\<lambda>b. alift (decode_opt what c b))"

text \<open>The row of a table, decoded, as a view of the state.\<close>

definition row :: "'a codec \<Rightarrow> apply_ctx \<Rightarrow> u8 \<Rightarrow> bytes \<Rightarrow> 'a option" where
  "row c ctx t k = Option.bind (ctx_get ctx t k) (dec c)"

section \<open>Runs of a program\<close>

lemma aret_eq [simp]: "aret a ctx = Inr (b, ctx') \<longleftrightarrow> b = a \<and> ctx' = ctx"
  by (auto simp: aret_def)

lemma alift_eq [simp]: "alift r ctx = Inr (b, ctx') \<longleftrightarrow> r = Inr b \<and> ctx' = ctx"
  by (cases r) (auto simp: alift_def)

lemma abind_eq [simp]:
  "abind m f ctx = Inr (b, ctx') \<longleftrightarrow> (\<exists>a ctx1. m ctx = Inr (a, ctx1) \<and> f a ctx1 = Inr (b, ctx'))"
  by (cases "m ctx") (auto simp: abind_def)

lemma aseq_eq [simp]:
  "aseq m n ctx = Inr (b, ctx') \<longleftrightarrow> (\<exists>ctx1. m ctx = Inr ((), ctx1) \<and> n ctx1 = Inr (b, ctx'))"
  by (simp add: aseq_def)

lemma aget_eq [simp]: "aget t k ctx = Inr (b, ctx') \<longleftrightarrow> b = ctx_get ctx t k \<and> ctx' = ctx"
  by (auto simp: aget_def)

lemma arange_eq [simp]: "arange t s e ctx = Inr (b, ctx') \<longleftrightarrow> b = ctx_range ctx t s e \<and> ctx' = ctx"
  by (auto simp: arange_def)

lemma aput_eq [simp]: "aput t k v ctx = Inr (b, ctx') \<longleftrightarrow> ctx' = ctx_put t k v ctx"
  by (auto simp: aput_def)

lemma adelete_eq [simp]: "adelete t k ctx = Inr (b, ctx') \<longleftrightarrow> ctx' = ctx_delete t k ctx"
  by (auto simp: adelete_def)

lemma aemit_eq [simp]: "aemit p ctx = Inr (q, ctx') \<longleftrightarrow> q = ctx_seq ctx + 1 \<and> ctx' = snd (ctx_emit p ctx)"
  by (auto simp: aemit_def ctx_emit_def Let_def)

lemma decode_opt_eq:
  "decode_opt what c b = Inr x \<longleftrightarrow> (case b of None \<Rightarrow> x = None | Some v \<Rightarrow> (\<exists>y. dec c v = Some y \<and> x = Some y))"
  by (auto simp: decode_opt_def decode_r_def split: option.split)

lemma aget_typed_eq [simp]:
  "aget_typed what c t k ctx = Inr (x, ctx') \<longleftrightarrow> decode_opt what c (ctx_get ctx t k) = Inr x \<and> ctx' = ctx"
  by (auto simp: aget_typed_def)

lemma decode_opt_row: "decode_opt what c (ctx_get ctx t k) = Inr x \<Longrightarrow> row c ctx t k = x"
  by (auto simp: decode_opt_eq row_def split: option.splits)

lemma decode_opt_None: "decode_opt what c b = Inr None \<longleftrightarrow> b = None"
  by (auto simp: decode_opt_eq split: option.split)

text \<open>A typed read that succeeds reads the row; a row that does not decode is an error, not an absence.\<close>

lemma abind_typedE:
  assumes "abind (aget_typed what c t k) f ctx = Inr (b, ctx')"
  obtains "f (row c ctx t k) ctx = Inr (b, ctx')" and "ctx_get ctx t k = None \<longleftrightarrow> row c ctx t k = None"
  using assms by (auto simp: decode_opt_eq row_def split: option.splits)

lemma row_put [simp]:
  "lossless c \<Longrightarrow> row c (ctx_put t k (enc c x) ctx) t' k' = (if t' = t \<and> k' = k then Some x else row c ctx t' k')"
  by (simp add: row_def)

lemma row_put_other [simp]: "t' \<noteq> t \<Longrightarrow> row c (ctx_put t k v ctx) t' k' = row c ctx t' k'"
  by (simp add: row_def)

lemma row_delete [simp]: "row c (ctx_delete t k ctx) t' k' = (if t' = t \<and> k' = k then None else row c ctx t' k')"
  by (simp add: row_def)

lemma row_emit [simp]: "row c (snd (ctx_emit p ctx)) t k = row c ctx t k"
  by (simp add: row_def)

section \<open>Frames\<close>

inductive step_in :: "u8 set \<Rightarrow> apply_ctx \<Rightarrow> apply_ctx \<Rightarrow> bool" for S where
  put: "t \<in> S \<Longrightarrow> step_in S ctx (ctx_put t k v ctx)"
| delete: "t \<in> S \<Longrightarrow> step_in S ctx (ctx_delete t k ctx)"
| emit: "step_in S ctx (snd (ctx_emit p ctx))"

abbreviation steps_in :: "u8 set \<Rightarrow> apply_ctx \<Rightarrow> apply_ctx \<Rightarrow> bool" where
  "steps_in S \<equiv> (step_in S)\<^sup>*\<^sup>*"

definition confined :: "u8 set \<Rightarrow> 'a ap \<Rightarrow> bool" where
  "confined S m \<longleftrightarrow> (\<forall>ctx a ctx'. m ctx = Inr (a, ctx') \<longrightarrow> steps_in S ctx ctx')"

lemma confinedD: "confined S m \<Longrightarrow> m ctx = Inr (a, ctx') \<Longrightarrow> steps_in S ctx ctx'"
  by (auto simp: confined_def)

lemma step_in_mono: "step_in S ctx ctx' \<Longrightarrow> S \<subseteq> T \<Longrightarrow> step_in T ctx ctx'"
  by (induction rule: step_in.induct) (auto intro: step_in.intros)

lemma confined_mono: "confined S m \<Longrightarrow> S \<subseteq> T \<Longrightarrow> confined T m"
  unfolding confined_def by (blast intro: mono_rtranclp[THEN mp, rotated] step_in_mono)

lemma step_in_frame:
  assumes "step_in S ctx ctx'"
  shows "ctx_engine ctx' = ctx_engine ctx" "ctx_shard ctx' = ctx_shard ctx"
    "t \<notin> S \<Longrightarrow> ctx_get ctx' t k = ctx_get ctx t k"
  using assms by (induction rule: step_in.induct) auto

lemma steps_in_frame:
  assumes "steps_in S ctx ctx'"
  shows "ctx_engine ctx' = ctx_engine ctx" "ctx_shard ctx' = ctx_shard ctx"
    "t \<notin> S \<Longrightarrow> ctx_get ctx' t k = ctx_get ctx t k"
  using assms by (induction rule: rtranclp_induct) (simp_all add: step_in_frame)

lemma steps_in_row: "steps_in S ctx ctx' \<Longrightarrow> t \<notin> S \<Longrightarrow> row c ctx' t k = row c ctx t k"
  by (simp add: row_def steps_in_frame)

lemma steps_in_range: "steps_in S ctx ctx' \<Longrightarrow> ctx_range ctx' t a e = ctx_range ctx t a e"
  by (simp add: ctx_range_def steps_in_frame)

lemma steps_in_ctx_steps:
  assumes "steps_in S ctx ctx'" and "\<forall>t \<in> S. APP_TABLE_MIN \<le> t"
  shows "ctx_steps ctx ctx'"
proof -
  have "ctx_step a b" if "step_in S a b" for a b
    using that assms(2) by cases (auto intro: ctx_step.intros)
  then show ?thesis using assms(1) by (metis mono_rtranclp)
qed

lemma confined_aret [confined_intros]: "confined S (aret a)"
  by (simp add: confined_def)

lemma confined_alift [confined_intros]: "confined S (alift r)"
  by (simp add: confined_def)

lemma confined_aget [confined_intros]: "confined S (aget t k)" "confined S (aget_typed w c t k)"
  by (simp_all add: confined_def)

lemma confined_arange [confined_intros]: "confined S (arange t a e)"
  by (simp add: confined_def)

lemma confined_aput [confined_intros]: "t \<in> S \<Longrightarrow> confined S (aput t k v)"
  by (auto simp: confined_def intro: step_in.intros)

lemma confined_adelete [confined_intros]: "t \<in> S \<Longrightarrow> confined S (adelete t k)"
  by (auto simp: confined_def intro: step_in.intros)

lemma confined_aemit [confined_intros]: "confined S (aemit p)"
  by (auto simp: confined_def intro: step_in.intros)

lemma confined_abind [confined_intros]:
  "confined S m \<Longrightarrow> (\<And>a. confined S (f a)) \<Longrightarrow> confined S (abind m f)"
  unfolding confined_def by (metis abind_eq rtranclp_trans)

lemma confined_aseq [confined_intros]: "confined S m \<Longrightarrow> confined S n \<Longrightarrow> confined S (aseq m n)"
  unfolding aseq_def by (rule confined_abind)

lemma confined_afold [confined_intros]: "(\<And>x s. confined S (f x s)) \<Longrightarrow> confined S (afold f xs s)"
  by (induction xs arbitrary: s) (auto intro: confined_intros)

lemma confined_afor [confined_intros]: "(\<And>x. confined S (f x)) \<Longrightarrow> confined S (afor f xs)"
  by (induction xs) (auto intro: confined_intros)

lemma confined_if [confined_intros]: "(P \<Longrightarrow> confined S m) \<Longrightarrow> (\<not> P \<Longrightarrow> confined S n) \<Longrightarrow> confined S (if P then m else n)"
  by simp

lemma confined_option [confined_intros]:
  "(x = None \<Longrightarrow> confined S m) \<Longrightarrow> (\<And>y. x = Some y \<Longrightarrow> confined S (f y)) \<Longrightarrow>
     confined S (case x of None \<Rightarrow> m | Some y \<Rightarrow> f y)"
  by (cases x) simp_all

lemma confined_prod [confined_intros]:
  "(\<And>a b. x = (a, b) \<Longrightarrow> confined S (f a b)) \<Longrightarrow> confined S (case x of (a, b) \<Rightarrow> f a b)"
  by (cases x) simp

lemma confined_prod_arg [confined_intros]:
  "(\<And>a b. x = (a, b) \<Longrightarrow> confined S (f a b s)) \<Longrightarrow> confined S ((case x of (a, b) \<Rightarrow> f a b) s)"
  by (cases x) simp

lemma confined_Let [confined_intros]: "(\<And>y. confined S (f y)) \<Longrightarrow> confined S (Let x f)"
  by (simp add: Let_def)

text \<open>Loops that delete the keys of a list.\<close>

definition adelete_rows :: "u8 \<Rightarrow> (bytes \<times> bytes) list \<Rightarrow> unit ap" where
  "adelete_rows t kvs = afor (\<lambda>(k, _). adelete t k) kvs"

lemma adelete_rows_eq [simp]:
  "adelete_rows t kvs ctx = Inr (u, ctx') \<longleftrightarrow> ctx' = fold (\<lambda>(k, _). ctx_delete t k) kvs ctx"
  unfolding adelete_rows_def
  by (induction kvs arbitrary: ctx) (auto simp: split_beta)

lemma confined_adelete_rows [confined_intros]: "t \<in> S \<Longrightarrow> confined S (adelete_rows t kvs)"
  unfolding adelete_rows_def by (intro confined_intros)

section \<open>Ranges of a table without staged writes\<close>

text \<open>
  A range reads the engine and not the staged writes. For a table that the batch has not written yet,
  which is every table at the start of a batch, the two agree.
\<close>

definition settled :: "u8 \<Rightarrow> apply_ctx \<Rightarrow> bool" where
  "settled t ctx \<longleftrightarrow> t \<noteq> - 1 \<and> bt_wf (ctx_engine ctx) \<and>
     (\<forall>k. ctx_get ctx t k = kv_get (ctx_engine ctx) (ctx_key (ctx_shard ctx) t k))"

lemma settled_unstaged: "bt_wf (ctx_engine ctx) \<Longrightarrow> ctx_wb ctx = [] \<Longrightarrow> t \<noteq> - 1 \<Longrightarrow> settled t ctx"
  by (simp add: settled_def ctx_get_def staged_def Let_def)

lemma settled_steps: "settled t ctx \<Longrightarrow> steps_in S ctx ctx' \<Longrightarrow> t \<notin> S \<Longrightarrow> settled t ctx'"
  by (simp add: settled_def steps_in_frame)

lemma settled_writes [simp]:
  "t' \<noteq> t \<Longrightarrow> settled t (ctx_put t' k v ctx) = settled t ctx" "t' \<noteq> t \<Longrightarrow> settled t (ctx_delete t' k ctx) = settled t ctx"
  "settled t (snd (ctx_emit p ctx)) = settled t ctx"
  by (simp_all add: settled_def)

lemma settled_range:
  assumes "settled t ctx"
  shows "(k, v) \<in> set (ctx_range ctx t a e) \<longleftrightarrow> ctx_get ctx t k = Some v \<and> a \<le> k \<and> (e = [] \<or> k < e)"
  unfolding ctx_range_rd using assms rd_range_rows[of "\<lparr>rd_shard = ctx_shard ctx, rd_engine = ctx_engine ctx\<rparr>" t k v a e]
  by (simp add: settled_def rd_get_def)

lemma settled_range_sorted: "settled t ctx \<Longrightarrow> bt_wf (ctx_range ctx t a e)"
  unfolding ctx_range_rd by (rule rd_range_sorted) (simp_all add: settled_def)

lemma settled_range_keys:
  "settled t ctx \<Longrightarrow> k \<in> fst ` set (ctx_range ctx t a e) \<longleftrightarrow> ctx_get ctx t k \<noteq> None \<and> a \<le> k \<and> (e = [] \<or> k < e)"
  unfolding image_iff Bex_def by (simp add: split_paired_Ex settled_range)

lemma settled_range_nul:
  assumes "settled t ctx"
  shows "(k, v) \<in> set (ctx_range ctx t (d @ [byte 0]) (d @ [byte 1])) \<longleftrightarrow>
    ctx_get ctx t k = Some v \<and> (\<exists>r. k = d @ byte 0 # r)"
  using settled_range[OF assms] nul_prefix_all[of d k] by auto

text \<open>Loops and their invariants.\<close>

lemma afold_invariant:
  assumes "afold f xs s ctx = Inr (t, ctx')" and "P s ctx"
    and "\<And>x s c s' c'. x \<in> set xs \<Longrightarrow> P s c \<Longrightarrow> f x s c = Inr (s', c') \<Longrightarrow> P s' c'"
  shows "P t ctx'"
  using assms
proof (induction xs arbitrary: s ctx)
  case (Cons x xs)
  from Cons.prems(1) obtain s1 c1 where 1: "f x s ctx = Inr (s1, c1)" "afold f xs s1 c1 = Inr (t, ctx')" by auto
  have "P s1 c1" using Cons.prems(3)[of x s ctx s1 c1] Cons.prems(2) 1(1) by simp
  then show ?case by (rule Cons.IH[OF 1(2)]) (rule Cons.prems(3); simp)
qed simp

lemma afor_invariant:
  assumes "afor f xs ctx = Inr (u, ctx')" and "P ctx"
    and "\<And>x c c'. x \<in> set xs \<Longrightarrow> P c \<Longrightarrow> f x c = Inr ((), c') \<Longrightarrow> P c'"
  shows "P ctx'"
  using assms
proof (induction xs arbitrary: ctx)
  case (Cons x xs)
  from Cons.prems(1) obtain c1 where 1: "f x ctx = Inr ((), c1)" "afor f xs c1 = Inr (u, ctx')" by auto
  have "P c1" using Cons.prems(3)[of x ctx c1] Cons.prems(2) 1(1) by simp
  then show ?case by (rule Cons.IH[OF 1(2)]) (rule Cons.prems(3); simp)
qed simp

text \<open>What the rounds of a loop establish for each element, when later rounds keep it.\<close>

lemma afold_each:
  assumes "afold f xs s ctx = Inr (t, ctx')" and "x \<in> set xs" and "I s ctx"
    and "\<And>y s c s' c'. y \<in> set xs \<Longrightarrow> I s c \<Longrightarrow> f y s c = Inr (s', c') \<Longrightarrow> I s' c' \<and> Q y c'"
    and "\<And>y z s c s' c'. y \<in> set xs \<Longrightarrow> I s c \<Longrightarrow> Q z c \<Longrightarrow> f y s c = Inr (s', c') \<Longrightarrow> Q z c'"
  shows "Q x ctx'"
  using assms
proof (induction xs arbitrary: s ctx)
  case (Cons y ys)
  from Cons.prems(1) obtain s1 c1 where 1: "f y s ctx = Inr (s1, c1)" "afold f ys s1 c1 = Inr (t, ctx')" by auto
  have 2: "I s1 c1" "Q y c1" using Cons.prems(4)[of y s ctx s1 c1] Cons.prems(3) 1(1) by simp_all
  show ?case
  proof (cases "x \<in> set ys")
    case True
    then show ?thesis
    proof (rule Cons.IH[OF 1(2) _ 2(1)])
      fix y' s c s' c'
      assume y: "y' \<in> set ys" "I s c" "f y' s c = Inr (s', c')"
      then show "I s' c' \<and> Q y' c'" using Cons.prems(4)[of y' s c s' c'] by simp
      show "Q z c'" if "Q z c" for z using Cons.prems(5)[of y' s c z s' c'] y that by simp
    qed
  next
    case False
    then have "x = y" using Cons.prems(2) by simp
    have "I t ctx' \<and> Q x ctx'"
    proof (rule afold_invariant[OF 1(2), of "\<lambda>s c. I s c \<and> Q x c"])
      show "I s1 c1 \<and> Q x c1" using 2 \<open>x = y\<close> by simp
      fix z s c s' c'
      assume "z \<in> set ys" "I s c \<and> Q x c" "f z s c = Inr (s', c')"
      then show "I s' c' \<and> Q x c'" using Cons.prems(4)[of z s c s' c'] Cons.prems(5)[of z s c x s' c'] by simp
    qed
    then show ?thesis by simp
  qed
next
  case Nil
  from Nil.prems(2) show ?case by simp
qed

end
