(* ===== verification/User_Types.thy ===== *)
theory User_Types
  imports Ctx_Monad
begin

text \<open>
  The stored records, keys, commands and responses of the user shard (\<open>types.rs\<close> of
  \<open>saltator-userserver\<close>). Secrets reach the machine hashed: a token hash is a byte string.
\<close>

section \<open>Tables\<close>

definition T_ACCOUNT :: u8 where "T_ACCOUNT = APP_TABLE_FIRST"
definition T_TOKEN :: u8 where "T_TOKEN = APP_TABLE_FIRST + 1"
definition T_DEVICE :: u8 where "T_DEVICE = APP_TABLE_FIRST + 2"
definition T_PROFILE :: u8 where "T_PROFILE = APP_TABLE_FIRST + 3"
definition T_ACCOUNT_DATA :: u8 where "T_ACCOUNT_DATA = APP_TABLE_FIRST + 4"
definition T_FILTER :: u8 where "T_FILTER = APP_TABLE_FIRST + 5"
definition T_MEMBERSHIP :: u8 where "T_MEMBERSHIP = APP_TABLE_FIRST + 6"
definition T_CURSOR :: u8 where "T_CURSOR = APP_TABLE_FIRST + 7"
definition T_ALIAS :: u8 where "T_ALIAS = APP_TABLE_FIRST + 8"
definition T_MEDIA :: u8 where "T_MEDIA = APP_TABLE_FIRST + 9"
definition T_DIRECTORY :: u8 where "T_DIRECTORY = APP_TABLE_FIRST + 10"
definition T_INVITE_STATE :: u8 where "T_INVITE_STATE = APP_TABLE_FIRST + 11"
definition T_DEVICE_KEYS :: u8 where "T_DEVICE_KEYS = APP_TABLE_FIRST + 12"
definition T_ONE_TIME_KEY :: u8 where "T_ONE_TIME_KEY = APP_TABLE_FIRST + 13"
definition T_TO_DEVICE :: u8 where "T_TO_DEVICE = APP_TABLE_FIRST + 14"
definition T_KEY_CHANGE :: u8 where "T_KEY_CHANGE = APP_TABLE_FIRST + 15"
definition T_PUSHER :: u8 where "T_PUSHER = APP_TABLE_FIRST + 16"
definition T_BACKUP_VERSION :: u8 where "T_BACKUP_VERSION = APP_TABLE_FIRST + 17"
definition T_BACKUP_KEY :: u8 where "T_BACKUP_KEY = APP_TABLE_FIRST + 18"
definition T_FALLBACK_KEY :: u8 where "T_FALLBACK_KEY = APP_TABLE_FIRST + 19"
definition T_CROSS_SIGNING :: u8 where "T_CROSS_SIGNING = APP_TABLE_FIRST + 20"
definition T_USER_EDU_OUTBOX :: u8 where "T_USER_EDU_OUTBOX = APP_TABLE_FIRST + 21"
definition T_TO_DEVICE_SEEN :: u8 where "T_TO_DEVICE_SEEN = APP_TABLE_FIRST + 22"
definition T_TO_DEVICE_SEEN_IDX :: u8 where "T_TO_DEVICE_SEEN_IDX = APP_TABLE_FIRST + 23"
definition T_UIA_SESSION :: u8 where "T_UIA_SESSION = APP_TABLE_FIRST + 24"
definition T_UIA_SESSION_IDX :: u8 where "T_UIA_SESSION_IDX = APP_TABLE_FIRST + 25"
definition T_REG_TOKEN :: u8 where "T_REG_TOKEN = APP_TABLE_FIRST + 26"
definition T_EXTERNAL_ID :: u8 where "T_EXTERNAL_ID = APP_TABLE_FIRST + 27"
definition T_EXTERNAL_ID_USER :: u8 where "T_EXTERNAL_ID_USER = APP_TABLE_FIRST + 28"
definition T_ROOM_BLOCKED :: u8 where "T_ROOM_BLOCKED = APP_TABLE_FIRST + 29"
definition T_NOTICES_ROOM :: u8 where "T_NOTICES_ROOM = APP_TABLE_FIRST + 30"
definition T_LOGIN_TOKEN :: u8 where "T_LOGIN_TOKEN = APP_TABLE_FIRST + 31"
definition T_TXN_SEEN :: u8 where "T_TXN_SEEN = APP_TABLE_FIRST + 32"
definition T_TXN_SEEN_IDX :: u8 where "T_TXN_SEEN_IDX = APP_TABLE_FIRST + 33"
definition T_USERNAME :: u8 where "T_USERNAME = APP_TABLE_FIRST + 34"

lemma user_tables [simp]:
  "T_ACCOUNT = 9" "T_TOKEN = 10" "T_DEVICE = 11" "T_PROFILE = 12" "T_ACCOUNT_DATA = 13" "T_FILTER = 14"
  "T_MEMBERSHIP = 15" "T_CURSOR = 16" "T_ALIAS = 17" "T_MEDIA = 18" "T_DIRECTORY = 19" "T_INVITE_STATE = 20"
  "T_DEVICE_KEYS = 21" "T_ONE_TIME_KEY = 22" "T_TO_DEVICE = 23" "T_KEY_CHANGE = 24" "T_PUSHER = 25"
  "T_BACKUP_VERSION = 26" "T_BACKUP_KEY = 27" "T_FALLBACK_KEY = 28" "T_CROSS_SIGNING = 29"
  "T_USER_EDU_OUTBOX = 30" "T_TO_DEVICE_SEEN = 31" "T_TO_DEVICE_SEEN_IDX = 32" "T_UIA_SESSION = 33"
  "T_UIA_SESSION_IDX = 34" "T_REG_TOKEN = 35" "T_EXTERNAL_ID = 36" "T_EXTERNAL_ID_USER = 37"
  "T_ROOM_BLOCKED = 38" "T_NOTICES_ROOM = 39" "T_LOGIN_TOKEN = 40" "T_TXN_SEEN = 41" "T_TXN_SEEN_IDX = 42"
  "T_USERNAME = 43"
  by (simp_all add: T_ACCOUNT_def T_TOKEN_def T_DEVICE_def T_PROFILE_def T_ACCOUNT_DATA_def T_FILTER_def
      T_MEMBERSHIP_def T_CURSOR_def T_ALIAS_def T_MEDIA_def T_DIRECTORY_def T_INVITE_STATE_def T_DEVICE_KEYS_def
      T_ONE_TIME_KEY_def T_TO_DEVICE_def T_KEY_CHANGE_def T_PUSHER_def T_BACKUP_VERSION_def T_BACKUP_KEY_def
      T_FALLBACK_KEY_def T_CROSS_SIGNING_def T_USER_EDU_OUTBOX_def T_TO_DEVICE_SEEN_def T_TO_DEVICE_SEEN_IDX_def
      T_UIA_SESSION_def T_UIA_SESSION_IDX_def T_REG_TOKEN_def T_EXTERNAL_ID_def T_EXTERNAL_ID_USER_def
      T_ROOM_BLOCKED_def T_NOTICES_ROOM_def T_LOGIN_TOKEN_def T_TXN_SEEN_def T_TXN_SEEN_IDX_def T_USERNAME_def)

section \<open>Keys\<close>

definition user_key :: "string \<Rightarrow> string \<Rightarrow> bytes" where
  "user_key user_id rest = user_id @ byte 0 # rest"

definition external_key :: "string \<Rightarrow> string \<Rightarrow> bytes" where
  "external_key auth_provider external_id = user_key auth_provider external_id"

definition device_scoped_key :: "string \<Rightarrow> string \<Rightarrow> string \<Rightarrow> bytes" where
  "device_scoped_key user_id device_id rest = user_id @ byte 0 # device_id @ byte 0 # rest"

text \<open>The loop of \<open>prefix_end\<close> looks at the last byte: it runs over the reversed prefix.\<close>

fun prefix_end_rev :: "bytes \<Rightarrow> bytes" where
  "prefix_end_rev [] = []"
| "prefix_end_rev (b # bs) = (if byte_val b < (255 :: nat) then byte (Suc (byte_val b)) # bs else prefix_end_rev bs)"

definition prefix_end :: "bytes \<Rightarrow> bytes" where
  "prefix_end prefix = rev (prefix_end_rev (rev prefix))"

definition to_device_key :: "string \<Rightarrow> string \<Rightarrow> u64 \<Rightarrow> bytes" where
  "to_device_key user_id device_id seq = device_scoped_key user_id device_id [] @ u64_be seq"

definition account_data_key :: "string \<Rightarrow> string \<Rightarrow> string \<Rightarrow> bytes" where
  "account_data_key user_id room_id data_type = user_id @ byte 0 # room_id @ byte 0 # data_type"

definition user_end :: "string \<Rightarrow> bytes" where
  "user_end user_id = user_id @ [byte 1]"

lemma prefix_end_nul [simp]: "prefix_end (p @ [byte 0]) = p @ [byte 1]"
  by (simp add: prefix_end_def)

section \<open>Stored records\<close>

datatype account_state = Active | Locked | Deactivated

fun can_authenticate :: "account_state \<Rightarrow> bool" where
  "can_authenticate Active = True"
| "can_authenticate _ = False"

record account =
  acc_password_hash :: "string option"
  acc_created_ts :: u64
  acc_state :: account_state
  acc_admin :: bool
  acc_erased :: bool

record account_v2 =
  av2_password_hash :: "string option"
  av2_created_ts :: u64
  av2_deactivated :: bool

record uia_session =
  uia_request_hash :: bytes
  uia_completed :: "string list"
  uia_registration_token :: "string option"
  uia_created_ts :: u64

record login_token_entry =
  lt_user_id :: string
  lt_expires_ts :: u64

record reg_token =
  rt_uses_allowed :: "u64 option"
  rt_used :: u64
  rt_expiry_ts :: "u64 option"
  rt_created_ts :: u64

definition reg_token_usable :: "reg_token \<Rightarrow> u64 \<Rightarrow> bool" where
  "reg_token_usable t now \<longleftrightarrow>
     (case rt_expiry_ts t of None \<Rightarrow> True | Some e \<Rightarrow> now < e) \<and>
     (case rt_uses_allowed t of None \<Rightarrow> True | Some allowed \<Rightarrow> rt_used t < allowed)"

record blocked_room =
  br_by :: string
  br_ts :: u64

datatype token_kind = Access | Refresh

record token_entry =
  tok_user_id :: string
  tok_device_id :: string
  tok_kind :: token_kind
  tok_created_ts :: u64
  tok_expires_ts :: "u64 option"
  tok_state :: account_state

record token_entry_v4 =
  tv4_user_id :: string
  tv4_device_id :: string
  tv4_kind :: token_kind
  tv4_created_ts :: u64
  tv4_expires_ts :: "u64 option"

record device =
  dev_display_name :: "string option"
  dev_created_ts :: u64
  dev_access_token_hash :: "bytes option"
  dev_refresh_token_hash :: "bytes option"

record profile =
  prof_displayname :: "string option"
  prof_avatar_url :: "string option"

record account_data_entry =
  ad_json :: bytes
  ad_seq :: u64

record membership_entry =
  mem_membership :: string
  mem_event_id :: string
  mem_sender :: string
  mem_room_seq :: u64
  mem_seq :: u64
  mem_forgotten :: bool

record alias_entry =
  al_room_id :: string
  al_creator :: string

record media_meta =
  med_owner :: string
  med_content_type :: "string option"
  med_filename :: "string option"
  med_size :: u64
  med_created_ts :: u64
  med_pending :: bool
  med_blob :: "string option"

record membership_change =
  mc_user_id :: string
  mc_room_id :: string
  mc_membership :: string
  mc_event_id :: string
  mc_sender :: string
  mc_room_seq :: u64

record session_cmd =
  ses_user_id :: string
  ses_device_id :: string
  ses_display_name :: "string option"
  ses_token_hash :: bytes
  ses_refresh_hash :: "bytes option"
  ses_expires_ts :: "u64 option"
  ses_ts :: u64

record otk_entry =
  otk_order :: u64
  otk_json :: bytes

record fallback_entry =
  fb_key_id :: string
  fb_json :: bytes
  fb_used :: bool

record backup_version_meta =
  bv_algorithm :: string
  bv_auth_data :: bytes
  bv_count :: u64
  bv_etag :: u64
  bv_deleted :: bool

record to_device_message =
  tdm_user_id :: string
  tdm_device_id :: string
  tdm_json :: bytes

record user_outbound_edu =
  uedu_destination :: string
  uedu_json :: bytes

record key_change_entry =
  kc_user_id :: string
  kc_membership :: "(string \<times> bool) option"

record claim_request =
  cr_user_id :: string
  cr_device_id :: string
  cr_algorithm :: string

record claimed_key =
  ck_user_id :: string
  ck_device_id :: string
  ck_key_id :: string
  ck_key_json :: bytes

end
