(* ===== verification/User_Commands.thy ===== *)
theory User_Commands
  imports User_Types
begin

text \<open>
  The commands and responses of the user shard (\<open>types.rs\<close>), and the crates its machine calls: the
  codecs of \<open>postcard\<close> and the JSON values of \<open>serde_json\<close>, which are parameters.
\<close>

datatype (plugins only: size) user_command =
    Register string "string option" u64 "session_cmd option"
  | CreateSession session_cmd
  | RefreshSession bytes session_cmd
  | DeleteDevice string string
  | DeleteAllDevices string
  | SetDeviceName string string "string option"
  | UpsertDevice string string "string option" u64
  | SetProfile string "string option option" "string option option"
  | PutAccountData string string string bytes
  | PutFilter string string bytes
  | ApplyRoomChanges string u64 "membership_change list"
  | CreateAlias string string string
  | DeleteAlias string
  | PutMedia string media_meta
  | SetRoomVisibility string bool
  | RecordRemoteInvite string string string string "bytes list"
  | RecordRemoteKnock string string string string "bytes list"
  | RecordRemoteLeave string string
  | ForgetRoom string string
  | UploadKeys string string "bytes option" "(string \<times> bytes) list" "(string \<times> bytes) list"
  | ClaimKeys "claim_request list"
  | SetCrossSigningKeys string "bytes option" "bytes option" "bytes option"
  | AddSignatures string "(string \<times> bytes) list"
  | SendToDevice "to_device_message list"
  | AckToDevice string string u64
  | RecordKeyChange string
  | QueueOutboundEdus "user_outbound_edu list"
  | AckOutboundEdus string u64
  | ChangePassword string string bool string
  | Deactivate string
  | SetPusher string string string string "bytes option"
  | CreateBackupVersion string string bytes
  | UpdateBackupVersion string u64 string bytes
  | DeleteBackupVersion string u64
  | PutBackupKeys string u64 "(string \<times> string \<times> bytes) list"
  | DeleteBackupKeys string u64 "string option" "string option"
  | SendToDeviceDeduped string string u64 "to_device_message list"
  | SetLocked string bool
  | SetAdmin string bool
  | AdminSetPassword string string bool
  | SetErased string
  | CompleteUiaStage string bytes string "string option" u64 u64
  | RegisterWithToken string "string option" u64 "session_cmd option" "string option"
  | CreateRegistrationToken string "u64 option" "u64 option" u64
  | DeleteRegistrationToken string
  | LinkExternalId string string string
  | UnlinkExternalId string string
  | SetNoticesRoom string string
  | SetRoomBlocked string bool string u64
  | CreateLoginToken bytes string u64 u64
  | ConsumeLoginToken bytes u64
  | MarkTxn string string string string u64

datatype (plugins only: size) user_response =
    UserOk
  | UserExists
  | AliasExists
  | InvalidGrant
  | UserNotFound
  | Stale
  | OneTimeKeyCounts "(string, u64) btree_map"
  | ClaimedKeys "claimed_key list"
  | BackupVersion u64
  | BackupStatus u64 u64
  | InvalidState
  | UiaRequestMismatch
  | UiaCompleted "string list" "string option"
  | InvalidToken
  | TokenExists
  | ExternalIdInUse string
  | LoginTokenOwner string

datatype user_change_payload = UserChange string

text \<open>
  JSON values of \<open>serde_json\<close>, whose objects are ordered maps. Of a number the code observes
  \<open>as_i64\<close> and the conversion of \<open>as_f64\<close> to an integer.
\<close>

datatype json_value =
    VNull
  | VBool bool
  | VNumber "int option" "int option"
  | VString string
  | VArray "json_value list"
  | VObject "(string \<times> json_value) list"

fun value_get :: "json_value \<Rightarrow> string \<Rightarrow> json_value option" where
  "value_get (VObject m) k = bt_get m k"
| "value_get _ k = None"

fun as_object :: "json_value \<Rightarrow> (string, json_value) btree_map option" where
  "as_object (VObject m) = Some m"
| "as_object _ = None"

fun as_bool :: "json_value \<Rightarrow> bool option" where
  "as_bool (VBool b) = Some b"
| "as_bool _ = None"

fun number_as_int :: "json_value \<Rightarrow> int option" where
  "number_as_int (VNumber i f) = (case i of Some n \<Rightarrow> Some n | None \<Rightarrow> f)"
| "number_as_int _ = None"

record user_codecs =
  uc_command :: "user_command codec"
  uc_response :: "user_response codec"
  uc_change :: "user_change_payload codec"
  uc_account :: "account codec"
  uc_account_v2 :: "account_v2 codec"
  uc_token :: "token_entry codec"
  uc_token_v4 :: "token_entry_v4 codec"
  uc_device :: "device codec"
  uc_profile :: "profile codec"
  uc_account_data :: "account_data_entry codec"
  uc_membership :: "membership_entry codec"
  uc_alias :: "alias_entry codec"
  uc_media :: "media_meta codec"
  uc_uia :: "uia_session codec"
  uc_reg_token :: "reg_token codec"
  uc_login_token :: "login_token_entry codec"
  uc_blocked :: "blocked_room codec"
  uc_otk :: "otk_entry codec"
  uc_fallback :: "fallback_entry codec"
  uc_backup :: "backup_version_meta codec"
  uc_key_change :: "key_change_entry codec"
  uc_string :: "string codec"
  uc_u64 :: "u64 codec"
  uc_byte_lists :: "bytes list codec"
  json_from_slice :: "bytes \<Rightarrow> json_value option"
  json_to_vec :: "json_value \<Rightarrow> bytes option"

end
