(* ===== verification/User_Sessions.thy ===== *)
theory User_Sessions
  imports User_Commands
begin

text \<open>
  The user machine, first part (\<open>machine.rs\<close> of \<open>saltator-userserver\<close>): accounts, sessions and
  devices, registration, interactive authentication, identity links and login tokens. Every definition
  is a program over the context of the command.
\<close>

section \<open>Shared operations\<close>

definition opt_list :: "'a option \<Rightarrow> 'a list" where
  "opt_list x = (case x of None \<Rightarrow> [] | Some a \<Rightarrow> [a])"

text \<open>\<open>&k[n..]\<close> panics beyond the end of \<open>k\<close>; the command then has no result.\<close>

definition aslice_from :: "nat \<Rightarrow> bytes \<Rightarrow> bytes ap" where
  "aslice_from n k = (if n \<le> length k then aret (drop n k) else alift (Inl (Engine ''slice index out of range'')))"

definition account_state :: "user_codecs \<Rightarrow> string \<Rightarrow> account_state ap" where
  "account_state C user_id =
     abind (aget_typed ''account decode'' (uc_account C) T_ACCOUNT user_id) (\<lambda>account.
       aret (case account of None \<Rightarrow> Deactivated | Some a \<Rightarrow> acc_state a))"

definition token_v4_to_v5 :: "token_entry_v4 \<Rightarrow> account_state \<Rightarrow> token_entry" where
  "token_v4_to_v5 old state =
     \<lparr>tok_user_id = tv4_user_id old, tok_device_id = tv4_device_id old, tok_kind = tv4_kind old,
      tok_created_ts = tv4_created_ts old, tok_expires_ts = tv4_expires_ts old, tok_state = state\<rparr>"

definition decode_token :: "user_codecs \<Rightarrow> bytes \<Rightarrow> store_error + token_entry \<times> bool" where
  "decode_token C b =
     (case dec (uc_token C) b of
        Some entry \<Rightarrow> Inr (entry, True)
      | None \<Rightarrow> rbind (decode_r ''token v4 decode'' (uc_token_v4 C) b) (\<lambda>old.
          Inr (token_v4_to_v5 old Active, False)))"

definition device_hashes :: "user_codecs \<Rightarrow> (bytes \<times> bytes) list \<Rightarrow> store_error + bytes list" where
  "device_hashes C rows =
     fold_r (\<lambda>(_, v) hashes. rbind (decode_r ''device decode'' (uc_device C) v) (\<lambda>device.
         Inr (hashes @ opt_list (dev_access_token_hash device) @ opt_list (dev_refresh_token_hash device)))) rows []"

definition restamp_token :: "user_codecs \<Rightarrow> account_state \<Rightarrow> bytes \<Rightarrow> unit ap" where
  "restamp_token C state h =
     abind (aget_typed ''token decode'' (uc_token C) T_TOKEN h) (\<lambda>e.
       case e of
         None \<Rightarrow> aret ()
       | Some entry \<Rightarrow> aput T_TOKEN h (enc (uc_token C) (entry\<lparr>tok_state := state\<rparr>)))"

definition restamp_tokens :: "user_codecs \<Rightarrow> string \<Rightarrow> account_state \<Rightarrow> unit ap" where
  "restamp_tokens C user_id state =
     abind (arange T_DEVICE (user_key user_id []) (user_end user_id)) (\<lambda>rows.
     abind (alift (device_hashes C rows)) (afor (restamp_token C state)))"

definition account_v2_to_v3 :: "account_v2 \<Rightarrow> account" where
  "account_v2_to_v3 old =
     \<lparr>acc_password_hash = av2_password_hash old, acc_created_ts = av2_created_ts old,
      acc_state = (if av2_deactivated old then Deactivated else Active), acc_admin = False, acc_erased = False\<rparr>"

definition emit_user_change :: "user_codecs \<Rightarrow> string \<Rightarrow> u64 ap" where
  "emit_user_change C user_id = aemit (enc (uc_change C) (UserChange user_id))"

definition put_key_change :: "user_codecs \<Rightarrow> u64 \<Rightarrow> string \<Rightarrow> (string \<times> bool) option \<Rightarrow> unit ap" where
  "put_key_change C seq user_id membership =
     aput T_KEY_CHANGE (u64_be seq) (enc (uc_key_change C) \<lparr>kc_user_id = user_id, kc_membership = membership\<rparr>)"

definition log_key_change :: "user_codecs \<Rightarrow> string \<Rightarrow> unit ap" where
  "log_key_change C user_id = abind (emit_user_change C user_id) (\<lambda>seq. put_key_change C seq user_id None)"

definition adelete_opt :: "u8 \<Rightarrow> bytes option \<Rightarrow> unit ap" where
  "adelete_opt t h = (case h of None \<Rightarrow> aret () | Some k \<Rightarrow> adelete t k)"

definition write_session :: "user_codecs \<Rightarrow> session_cmd \<Rightarrow> unit ap" where
  "write_session C s =
     (let dkey = user_key (ses_user_id s) (ses_device_id s) in
      abind (aget_typed ''device decode'' (uc_device C) T_DEVICE dkey) (\<lambda>existing.
      aseq (case existing of
              None \<Rightarrow> aret ()
            | Some prev \<Rightarrow> aseq (adelete_opt T_TOKEN (dev_access_token_hash prev))
                (adelete_opt T_TOKEN (dev_refresh_token_hash prev)))
      (let device = \<lparr>dev_display_name = (case existing of Some prev \<Rightarrow> dev_display_name prev | None \<Rightarrow> ses_display_name s),
             dev_created_ts = (case existing of Some d \<Rightarrow> dev_created_ts d | None \<Rightarrow> ses_ts s),
             dev_access_token_hash = Some (ses_token_hash s), dev_refresh_token_hash = ses_refresh_hash s\<rparr> in
      aseq (aput T_DEVICE dkey (enc (uc_device C) device))
      (abind (account_state C (ses_user_id s)) (\<lambda>state.
       aseq (aput T_TOKEN (ses_token_hash s) (enc (uc_token C)
              \<lparr>tok_user_id = ses_user_id s, tok_device_id = ses_device_id s, tok_kind = Access,
               tok_created_ts = ses_ts s, tok_expires_ts = ses_expires_ts s, tok_state = state\<rparr>))
       (case ses_refresh_hash s of
          None \<Rightarrow> aret ()
        | Some rh \<Rightarrow> aput T_TOKEN rh (enc (uc_token C)
              \<lparr>tok_user_id = ses_user_id s, tok_device_id = ses_device_id s, tok_kind = Refresh,
               tok_created_ts = ses_ts s, tok_expires_ts = None, tok_state = state\<rparr>)))))))"

definition drop_device_rows :: "string \<Rightarrow> string \<Rightarrow> unit ap" where
  "drop_device_rows user_id device_id =
     (let prefix = device_scoped_key user_id device_id [] in
      afor (\<lambda>table. abind (arange table prefix (prefix_end prefix)) (adelete_rows table))
        [T_ONE_TIME_KEY, T_TO_DEVICE, T_PUSHER, T_FALLBACK_KEY])"

definition delete_device :: "user_codecs \<Rightarrow> string \<Rightarrow> string \<Rightarrow> bool ap" where
  "delete_device C user_id device_id =
     (let dkey = user_key user_id device_id in
      abind (aget_typed ''device decode'' (uc_device C) T_DEVICE dkey) (\<lambda>d.
      case d of
        None \<Rightarrow> aret False
      | Some device \<Rightarrow>
          aseq (adelete_opt T_TOKEN (dev_access_token_hash device))
         (aseq (adelete_opt T_TOKEN (dev_refresh_token_hash device))
         (aseq (adelete T_DEVICE dkey)
         (aseq (adelete T_DEVICE_KEYS dkey)
         (aseq (drop_device_rows user_id device_id)
            (aret True)))))))"

definition delete_devices_step :: "user_codecs \<Rightarrow> string \<Rightarrow> string option \<Rightarrow> bytes \<times> bytes \<Rightarrow> bool \<Rightarrow> bool ap" where
  "delete_devices_step C user_id keep kv any =
     abind (alift (ok_or (Engine ''device id not UTF-8'') (from_utf8 (drop (length (user_key user_id [])) (fst kv))))) (\<lambda>device_id.
       if keep = Some device_id then aret any
       else abind (delete_device C user_id device_id) (\<lambda>deleted. aret (any \<or> deleted)))"

definition delete_devices_except :: "user_codecs \<Rightarrow> string \<Rightarrow> string option \<Rightarrow> bool ap" where
  "delete_devices_except C user_id keep =
     abind (arange T_DEVICE (user_key user_id []) (user_end user_id)) (\<lambda>rows.
       afold (delete_devices_step C user_id keep) rows False)"

definition apply_deactivate :: "user_codecs \<Rightarrow> string \<Rightarrow> user_response ap" where
  "apply_deactivate C user_id =
     abind (aget_typed ''account decode'' (uc_account C) T_ACCOUNT user_id) (\<lambda>a.
       case a of
         None \<Rightarrow> aret UserNotFound
       | Some account \<Rightarrow>
           aseq (aput T_ACCOUNT user_id (enc (uc_account C)
                  (account\<lparr>acc_state := Deactivated, acc_password_hash := None\<rparr>)))
          (abind (delete_devices_except C user_id None) (\<lambda>any.
           aseq (if any then log_key_change C user_id else aret ()) (aret UserOk))))"

definition consume_reg_token :: "user_codecs \<Rightarrow> string option \<Rightarrow> u64 \<Rightarrow> bool ap" where
  "consume_reg_token C registration_token ts =
     (case registration_token of
        None \<Rightarrow> aret True
      | Some token \<Rightarrow> abind (aget_typed ''reg token decode'' (uc_reg_token C) T_REG_TOKEN token) (\<lambda>e.
          case e of
            None \<Rightarrow> aret False
          | Some entry \<Rightarrow>
              if \<not> reg_token_usable entry ts then aret False
              else aseq (aput T_REG_TOKEN token (enc (uc_reg_token C) (entry\<lparr>rt_used := rt_used entry + 1\<rparr>))) (aret True)))"

definition apply_register ::
  "user_codecs \<Rightarrow> string \<Rightarrow> string option \<Rightarrow> u64 \<Rightarrow> session_cmd option \<Rightarrow> string option \<Rightarrow> user_response ap" where
  "apply_register C user_id password_hash ts session registration_token =
     abind (aget T_USERNAME user_id) (\<lambda>name.
     abind (aget T_ACCOUNT user_id) (\<lambda>existing.
       if name \<noteq> None \<or> existing \<noteq> None then aret UserExists
       else abind (consume_reg_token C registration_token ts) (\<lambda>usable.
         if \<not> usable then aret InvalidToken
         else
           aseq (aput T_ACCOUNT user_id (enc (uc_account C)
             \<lparr>acc_password_hash = password_hash, acc_created_ts = ts, acc_state = Active, acc_admin = False, acc_erased = False\<rparr>))
          (aseq (aput T_USERNAME user_id [byte 1])
          (aseq (case session of None \<Rightarrow> aret () | Some s \<Rightarrow> write_session C s)
             (aret UserOk))))))"

definition uia_idx_key :: "u64 \<Rightarrow> string \<Rightarrow> bytes" where
  "uia_idx_key created_ts session_id = u64_be created_ts @ session_id"

definition sweep_uia_sessions :: "u64 \<Rightarrow> unit ap" where
  "sweep_uia_sessions expire_before_ts =
     abind (arange T_UIA_SESSION_IDX [] (u64_be expire_before_ts)) (\<lambda>rows.
       afor (\<lambda>(k, _). abind (aslice_from 8 k) (\<lambda>session_id.
           aseq (adelete T_UIA_SESSION session_id) (adelete T_UIA_SESSION_IDX k))) rows)"

section \<open>Sessions and devices\<close>

definition create_session :: "user_codecs \<Rightarrow> session_cmd \<Rightarrow> user_response ap" where
  "create_session C session =
     abind (aget T_ACCOUNT (ses_user_id session)) (\<lambda>a.
       if a = None then aret UserNotFound else aseq (write_session C session) (aret UserOk))"

definition refresh_session :: "user_codecs \<Rightarrow> bytes \<Rightarrow> session_cmd \<Rightarrow> user_response ap" where
  "refresh_session C old_refresh_hash session =
     abind (aget_typed ''token decode'' (uc_token C) T_TOKEN old_refresh_hash) (\<lambda>entry.
       if (case entry of None \<Rightarrow> False
           | Some e \<Rightarrow> tok_kind e = Refresh \<and> tok_user_id e = ses_user_id session \<and> tok_device_id e = ses_device_id session)
       then aseq (write_session C session) (aret UserOk)
       else aret InvalidGrant)"

definition delete_device_cmd :: "user_codecs \<Rightarrow> string \<Rightarrow> string \<Rightarrow> user_response ap" where
  "delete_device_cmd C user_id device_id =
     abind (delete_device C user_id device_id) (\<lambda>deleted.
       if deleted then aseq (log_key_change C user_id) (aret UserOk) else aret UserNotFound)"

definition delete_all_devices :: "user_codecs \<Rightarrow> string \<Rightarrow> user_response ap" where
  "delete_all_devices C user_id =
     abind (delete_devices_except C user_id None) (\<lambda>any.
       aseq (if any then log_key_change C user_id else aret ()) (aret UserOk))"

definition upsert_device :: "user_codecs \<Rightarrow> string \<Rightarrow> string \<Rightarrow> string option \<Rightarrow> u64 \<Rightarrow> user_response ap" where
  "upsert_device C user_id device_id display_name ts =
     (let dkey = user_key user_id device_id in
      abind (aget_typed ''device decode'' (uc_device C) T_DEVICE dkey) (\<lambda>existing.
      let device = (case existing of
          Some d \<Rightarrow> d\<lparr>dev_display_name := display_name\<rparr>
        | None \<Rightarrow> \<lparr>dev_display_name = display_name, dev_created_ts = ts, dev_access_token_hash = None, dev_refresh_token_hash = None\<rparr>) in
      aseq (aput T_DEVICE dkey (enc (uc_device C) device))
     (aseq (log_key_change C user_id) (aret UserOk))))"

definition set_device_name :: "user_codecs \<Rightarrow> string \<Rightarrow> string \<Rightarrow> string option \<Rightarrow> user_response ap" where
  "set_device_name C user_id device_id display_name =
     (let dkey = user_key user_id device_id in
      abind (aget_typed ''device decode'' (uc_device C) T_DEVICE dkey) (\<lambda>d.
      case d of
        None \<Rightarrow> aret UserNotFound
      | Some device \<Rightarrow>
          aseq (aput T_DEVICE dkey (enc (uc_device C) (device\<lparr>dev_display_name := display_name\<rparr>)))
         (aseq (log_key_change C user_id) (aret UserOk))))"

section \<open>The life of an account\<close>

definition change_password :: "user_codecs \<Rightarrow> string \<Rightarrow> string \<Rightarrow> bool \<Rightarrow> string \<Rightarrow> user_response ap" where
  "change_password C user_id password_hash logout_others keep_device =
     abind (aget_typed ''account decode'' (uc_account C) T_ACCOUNT user_id) (\<lambda>a.
       case a of
         None \<Rightarrow> aret UserNotFound
       | Some account \<Rightarrow>
           aseq (aput T_ACCOUNT user_id (enc (uc_account C) (account\<lparr>acc_password_hash := Some password_hash\<rparr>)))
          (abind (if logout_others then delete_devices_except C user_id (Some keep_device) else aret False) (\<lambda>any.
           aseq (if any then log_key_change C user_id else aret ()) (aret UserOk))))"

definition set_locked :: "user_codecs \<Rightarrow> string \<Rightarrow> bool \<Rightarrow> user_response ap" where
  "set_locked C user_id locked =
     abind (aget_typed ''account decode'' (uc_account C) T_ACCOUNT user_id) (\<lambda>a.
       case a of
         None \<Rightarrow> aret UserNotFound
       | Some account \<Rightarrow>
           if acc_state account = Deactivated then aret InvalidState
           else let state = (if locked then Locked else Active) in
             aseq (aput T_ACCOUNT user_id (enc (uc_account C) (account\<lparr>acc_state := state\<rparr>)))
            (aseq (restamp_tokens C user_id state) (aret UserOk)))"

definition set_admin :: "user_codecs \<Rightarrow> string \<Rightarrow> bool \<Rightarrow> user_response ap" where
  "set_admin C user_id admin =
     abind (aget_typed ''account decode'' (uc_account C) T_ACCOUNT user_id) (\<lambda>a.
       case a of
         None \<Rightarrow> aret UserNotFound
       | Some account \<Rightarrow> aseq (aput T_ACCOUNT user_id (enc (uc_account C) (account\<lparr>acc_admin := admin\<rparr>))) (aret UserOk))"

definition admin_set_password :: "user_codecs \<Rightarrow> string \<Rightarrow> string \<Rightarrow> bool \<Rightarrow> user_response ap" where
  "admin_set_password C user_id password_hash logout_devices =
     abind (aget_typed ''account decode'' (uc_account C) T_ACCOUNT user_id) (\<lambda>a.
       case a of
         None \<Rightarrow> aret UserNotFound
       | Some account \<Rightarrow>
           if acc_state account = Deactivated then aret InvalidState
           else
             aseq (aput T_ACCOUNT user_id (enc (uc_account C) (account\<lparr>acc_password_hash := Some password_hash\<rparr>)))
            (abind (if logout_devices then delete_devices_except C user_id None else aret False) (\<lambda>any.
             aseq (if any then log_key_change C user_id else aret ()) (aret UserOk))))"

definition set_erased :: "user_codecs \<Rightarrow> string \<Rightarrow> user_response ap" where
  "set_erased C user_id =
     abind (aget_typed ''account decode'' (uc_account C) T_ACCOUNT user_id) (\<lambda>a.
       case a of
         None \<Rightarrow> aret UserNotFound
       | Some account \<Rightarrow>
           if acc_state account \<noteq> Deactivated then aret InvalidState
           else
             aseq (aput T_ACCOUNT user_id (enc (uc_account C) (account\<lparr>acc_erased := True\<rparr>)))
            (aseq (adelete T_PROFILE user_id) (aret UserOk)))"

definition complete_uia_stage ::
  "user_codecs \<Rightarrow> string \<Rightarrow> bytes \<Rightarrow> string \<Rightarrow> string option \<Rightarrow> u64 \<Rightarrow> u64 \<Rightarrow> user_response ap" where
  "complete_uia_stage C session_id request_hash stage registration_token now_ts expire_before_ts =
     aseq (sweep_uia_sessions expire_before_ts)
    (abind (aget_typed ''uia session decode'' (uc_uia C) T_UIA_SESSION session_id) (\<lambda>existing.
       if (case existing of None \<Rightarrow> False | Some s \<Rightarrow> uia_request_hash s \<noteq> request_hash)
       then aret UiaRequestMismatch
       else
         abind (case existing of
             Some s \<Rightarrow> aret s
           | None \<Rightarrow> aseq (aput T_UIA_SESSION_IDX (uia_idx_key now_ts session_id) [])
               (aret \<lparr>uia_request_hash = request_hash, uia_completed = [], uia_registration_token = None, uia_created_ts = now_ts\<rparr>))
         (\<lambda>s0.
         let s1 = (if stage \<in> set (uia_completed s0) then s0 else s0\<lparr>uia_completed := uia_completed s0 @ [stage]\<rparr>);
             s2 = (if registration_token \<noteq> None then s1\<lparr>uia_registration_token := registration_token\<rparr> else s1) in
         aseq (aput T_UIA_SESSION session_id (enc (uc_uia C) s2))
           (aret (UiaCompleted (uia_completed s2) (uia_registration_token s2))))))"

definition create_registration_token :: "user_codecs \<Rightarrow> string \<Rightarrow> u64 option \<Rightarrow> u64 option \<Rightarrow> u64 \<Rightarrow> user_response ap" where
  "create_registration_token C token uses_allowed expiry_ts ts =
     abind (aget T_REG_TOKEN token) (\<lambda>b.
       if b \<noteq> None then aret TokenExists
       else aseq (aput T_REG_TOKEN token (enc (uc_reg_token C)
              \<lparr>rt_uses_allowed = uses_allowed, rt_used = 0, rt_expiry_ts = expiry_ts, rt_created_ts = ts\<rparr>)) (aret UserOk))"

definition delete_registration_token :: "string \<Rightarrow> user_response ap" where
  "delete_registration_token token =
     abind (aget T_REG_TOKEN token) (\<lambda>b.
       if b = None then aret UserNotFound else aseq (adelete T_REG_TOKEN token) (aret UserOk))"

section \<open>Identity links\<close>

definition link_external_id :: "user_codecs \<Rightarrow> string \<Rightarrow> string \<Rightarrow> string \<Rightarrow> user_response ap" where
  "link_external_id C user_id auth_provider external_id =
     abind (aget_typed ''account decode'' (uc_account C) T_ACCOUNT user_id) (\<lambda>a.
       case a of
         None \<Rightarrow> aret UserNotFound
       | Some account \<Rightarrow>
           if acc_state account = Deactivated then aret InvalidState
           else let fwd = external_key auth_provider external_id; rev = user_key user_id auth_provider in
             abind (aget_typed ''external id owner decode'' (uc_string C) T_EXTERNAL_ID fwd) (\<lambda>owner.
             case (case owner of Some o' \<Rightarrow> if o' \<noteq> user_id then Some o' else None | None \<Rightarrow> None) of
               Some o' \<Rightarrow> aret (ExternalIdInUse o')
             | None \<Rightarrow>
                 abind (aget_typed ''external id decode'' (uc_string C) T_EXTERNAL_ID_USER rev) (\<lambda>prev.
                 aseq (case prev of
                         Some p \<Rightarrow> if p \<noteq> external_id then adelete T_EXTERNAL_ID (external_key auth_provider p) else aret ()
                       | None \<Rightarrow> aret ())
                (aseq (aput T_EXTERNAL_ID fwd (enc (uc_string C) user_id))
                (aseq (aput T_EXTERNAL_ID_USER rev (enc (uc_string C) external_id))
                   (aret UserOk))))))"

definition unlink_external_id :: "user_codecs \<Rightarrow> string \<Rightarrow> string \<Rightarrow> user_response ap" where
  "unlink_external_id C user_id auth_provider =
     (let rev = user_key user_id auth_provider in
      abind (aget_typed ''external id decode'' (uc_string C) T_EXTERNAL_ID_USER rev) (\<lambda>e.
      case e of
        None \<Rightarrow> aret UserNotFound
      | Some external_id \<Rightarrow>
          aseq (adelete T_EXTERNAL_ID (external_key auth_provider external_id))
         (aseq (adelete T_EXTERNAL_ID_USER rev) (aret UserOk))))"

section \<open>Login tokens\<close>

definition stale_login_tokens :: "user_codecs \<Rightarrow> u64 \<Rightarrow> (bytes \<times> bytes) list \<Rightarrow> store_error + bytes list" where
  "stale_login_tokens C now_ts rows =
     fold_r (\<lambda>(k, v) stale. rbind (decode_r ''login token decode'' (uc_login_token C) v) (\<lambda>entry.
         Inr (if lt_expires_ts entry \<le> now_ts then stale @ [k] else stale))) rows []"

definition create_login_token :: "user_codecs \<Rightarrow> bytes \<Rightarrow> string \<Rightarrow> u64 \<Rightarrow> u64 \<Rightarrow> user_response ap" where
  "create_login_token C token_hash user_id expires_ts now_ts =
     abind (arange T_LOGIN_TOKEN [] []) (\<lambda>rows.
     abind (alift (stale_login_tokens C now_ts rows)) (\<lambda>stale.
     aseq (afor (adelete T_LOGIN_TOKEN) stale)
    (abind (aget_typed ''account decode'' (uc_account C) T_ACCOUNT user_id) (\<lambda>a.
       case a of
         None \<Rightarrow> aret UserNotFound
       | Some account \<Rightarrow>
           if \<not> can_authenticate (acc_state account) then aret InvalidState
           else aseq (aput T_LOGIN_TOKEN token_hash (enc (uc_login_token C)
                  \<lparr>lt_user_id = user_id, lt_expires_ts = expires_ts\<rparr>)) (aret UserOk)))))"

definition consume_login_token :: "user_codecs \<Rightarrow> bytes \<Rightarrow> u64 \<Rightarrow> user_response ap" where
  "consume_login_token C token_hash now_ts =
     abind (aget T_LOGIN_TOKEN token_hash) (\<lambda>raw.
     case raw of
       None \<Rightarrow> aret InvalidGrant
     | Some raw \<Rightarrow>
         aseq (adelete T_LOGIN_TOKEN token_hash)
        (abind (alift (decode_r ''login token decode'' (uc_login_token C) raw)) (\<lambda>entry.
         if lt_expires_ts entry \<le> now_ts then aret InvalidGrant
         else abind (aget_typed ''account decode'' (uc_account C) T_ACCOUNT (lt_user_id entry)) (\<lambda>account.
           if (case account of None \<Rightarrow> False | Some a \<Rightarrow> can_authenticate (acc_state a))
           then aret (LoginTokenOwner (lt_user_id entry))
           else aret InvalidGrant))))"

end
