(* ===== verification/User_Rooms.thy ===== *)
theory User_Rooms
  imports User_Sessions
begin

text \<open>
  The user machine, second part: profiles, account data and filters, the projection of room
  memberships with its cursor, aliases, the public directory, media, remote invitations and knocks,
  notices rooms and blocked rooms.
\<close>

definition set_profile :: "user_codecs \<Rightarrow> string \<Rightarrow> string option option \<Rightarrow> string option option \<Rightarrow> user_response ap" where
  "set_profile C user_id displayname avatar_url =
     abind (aget_typed ''profile decode'' (uc_profile C) T_PROFILE user_id) (\<lambda>p.
       let p0 = (case p of None \<Rightarrow> \<lparr>prof_displayname = None, prof_avatar_url = None\<rparr> | Some p \<Rightarrow> p);
           p1 = (case displayname of None \<Rightarrow> p0 | Some d \<Rightarrow> p0\<lparr>prof_displayname := d\<rparr>);
           p2 = (case avatar_url of None \<Rightarrow> p1 | Some a \<Rightarrow> p1\<lparr>prof_avatar_url := a\<rparr>) in
       aseq (aput T_PROFILE user_id (enc (uc_profile C) p2)) (aret UserOk))"

definition put_account_data :: "user_codecs \<Rightarrow> string \<Rightarrow> string \<Rightarrow> string \<Rightarrow> bytes \<Rightarrow> user_response ap" where
  "put_account_data C user_id room_id data_type json =
     abind (emit_user_change C user_id) (\<lambda>seq.
       aseq (aput T_ACCOUNT_DATA (account_data_key user_id room_id data_type)
              (enc (uc_account_data C) \<lparr>ad_json = json, ad_seq = seq\<rparr>)) (aret UserOk))"

definition put_filter :: "string \<Rightarrow> string \<Rightarrow> bytes \<Rightarrow> user_response ap" where
  "put_filter user_id filter_id json = aseq (aput T_FILTER (user_key user_id filter_id) json) (aret UserOk)"

section \<open>The projection of memberships\<close>

definition read_cursor :: "bytes option \<Rightarrow> store_error + u64" where
  "read_cursor b = (case b of Some b \<Rightarrow> ok_or (Engine ''cursor width'') (u64_from_be b) | None \<Rightarrow> Inr 0)"

definition apply_room_change :: "user_codecs \<Rightarrow> membership_change \<Rightarrow> unit ap" where
  "apply_room_change C c =
     (let mkey = user_key (mc_user_id c) (mc_room_id c) in
      abind (aget_typed ''membership decode'' (uc_membership C) T_MEMBERSHIP mkey) (\<lambda>existing.
      if (case existing of None \<Rightarrow> False | Some e \<Rightarrow> mc_room_seq c \<le> mem_room_seq e) then aret ()
      else abind (emit_user_change C (mc_user_id c)) (\<lambda>seq.
        let was_joined = (case existing of None \<Rightarrow> False | Some e \<Rightarrow> mem_membership e = ''join'');
            now_joined = (mc_membership c = ''join'') in
        aseq (if was_joined \<noteq> now_joined
              then put_key_change C seq (mc_user_id c) (Some (mc_room_id c, now_joined)) else aret ())
        (aput T_MEMBERSHIP mkey (enc (uc_membership C)
           \<lparr>mem_membership = mc_membership c, mem_event_id = mc_event_id c, mem_sender = mc_sender c,
            mem_room_seq = mc_room_seq c, mem_seq = seq, mem_forgotten = False\<rparr>)))))"

definition apply_room_changes :: "user_codecs \<Rightarrow> string \<Rightarrow> u64 \<Rightarrow> membership_change list \<Rightarrow> user_response ap" where
  "apply_room_changes C source upto_seq changes =
     abind (aget T_CURSOR source) (\<lambda>b.
     abind (alift (read_cursor b)) (\<lambda>cursor.
       if upto_seq \<le> cursor then aret Stale
       else aseq (afor (apply_room_change C) changes)
           (aseq (aput T_CURSOR source (u64_be upto_seq)) (aret UserOk))))"

section \<open>Aliases, directory, media\<close>

definition create_alias :: "user_codecs \<Rightarrow> string \<Rightarrow> string \<Rightarrow> string \<Rightarrow> user_response ap" where
  "create_alias C alias room_id creator =
     abind (aget T_ALIAS alias) (\<lambda>b.
       if b \<noteq> None then aret AliasExists
       else aseq (aput T_ALIAS alias (enc (uc_alias C) \<lparr>al_room_id = room_id, al_creator = creator\<rparr>)) (aret UserOk))"

definition delete_alias :: "string \<Rightarrow> user_response ap" where
  "delete_alias alias =
     abind (aget T_ALIAS alias) (\<lambda>b.
       if b = None then aret UserNotFound else aseq (adelete T_ALIAS alias) (aret UserOk))"

definition set_room_visibility :: "string \<Rightarrow> bool \<Rightarrow> user_response ap" where
  "set_room_visibility room_id public =
     aseq (if public then aput T_DIRECTORY room_id [byte 1] else adelete T_DIRECTORY room_id) (aret UserOk)"

definition put_media :: "user_codecs \<Rightarrow> string \<Rightarrow> media_meta \<Rightarrow> user_response ap" where
  "put_media C media_id meta = aseq (aput T_MEDIA media_id (enc (uc_media C) meta)) (aret UserOk)"

section \<open>Rooms of other servers\<close>

definition record_remote :: "user_codecs \<Rightarrow> string \<Rightarrow> string \<Rightarrow> string \<Rightarrow> string \<Rightarrow> string \<Rightarrow> bytes list \<Rightarrow> user_response ap" where
  "record_remote C membership user_id room_id sender event_id stripped_state =
     abind (emit_user_change C user_id) (\<lambda>seq.
       let mkey = user_key user_id room_id in
       aseq (aput T_MEMBERSHIP mkey (enc (uc_membership C)
              \<lparr>mem_membership = membership, mem_event_id = event_id, mem_sender = sender,
               mem_room_seq = 0, mem_seq = seq, mem_forgotten = False\<rparr>))
      (aseq (aput T_INVITE_STATE mkey (enc (uc_byte_lists C) stripped_state)) (aret UserOk)))"

definition record_remote_invite :: "user_codecs \<Rightarrow> string \<Rightarrow> string \<Rightarrow> string \<Rightarrow> string \<Rightarrow> bytes list \<Rightarrow> user_response ap" where
  "record_remote_invite C user_id room_id sender event_id stripped_state =
     record_remote C ''invite'' user_id room_id sender event_id stripped_state"

definition record_remote_knock :: "user_codecs \<Rightarrow> string \<Rightarrow> string \<Rightarrow> string \<Rightarrow> string \<Rightarrow> bytes list \<Rightarrow> user_response ap" where
  "record_remote_knock C user_id room_id sender event_id stripped_state =
     record_remote C ''knock'' user_id room_id sender event_id stripped_state"

definition record_remote_leave :: "user_codecs \<Rightarrow> string \<Rightarrow> string \<Rightarrow> user_response ap" where
  "record_remote_leave C user_id room_id =
     abind (emit_user_change C user_id) (\<lambda>seq.
       let mkey = user_key user_id room_id in
       abind (aget_typed ''membership decode'' (uc_membership C) T_MEMBERSHIP mkey) (\<lambda>e.
       aseq (if (case e of None \<Rightarrow> False | Some e \<Rightarrow> mem_membership e = ''join'')
             then put_key_change C seq user_id (Some (room_id, False)) else aret ())
      (aseq (aput T_MEMBERSHIP mkey (enc (uc_membership C)
              \<lparr>mem_membership = ''leave'', mem_event_id = [], mem_sender = user_id,
               mem_room_seq = 0, mem_seq = seq, mem_forgotten = False\<rparr>))
      (aseq (adelete T_INVITE_STATE mkey) (aret UserOk)))))"

definition forget_room :: "user_codecs \<Rightarrow> string \<Rightarrow> string \<Rightarrow> user_response ap" where
  "forget_room C user_id room_id =
     (let mkey = user_key user_id room_id in
      abind (aget_typed ''membership decode'' (uc_membership C) T_MEMBERSHIP mkey) (\<lambda>e.
      aseq (case e of
              None \<Rightarrow> aret ()
            | Some entry \<Rightarrow> aput T_MEMBERSHIP mkey (enc (uc_membership C) (entry\<lparr>mem_forgotten := True\<rparr>)))
        (aret UserOk)))"

section \<open>Server-wide room metadata\<close>

definition set_notices_room :: "user_codecs \<Rightarrow> string \<Rightarrow> string \<Rightarrow> user_response ap" where
  "set_notices_room C user_id room_id = aseq (aput T_NOTICES_ROOM user_id (enc (uc_string C) room_id)) (aret UserOk)"

definition set_room_blocked :: "user_codecs \<Rightarrow> string \<Rightarrow> bool \<Rightarrow> string \<Rightarrow> u64 \<Rightarrow> user_response ap" where
  "set_room_blocked C room_id blocked by ts =
     aseq (if blocked then aput T_ROOM_BLOCKED room_id (enc (uc_blocked C) \<lparr>br_by = by, br_ts = ts\<rparr>)
           else adelete T_ROOM_BLOCKED room_id)
       (aret UserOk)"

end
