(* ===== verification/User_Keys.thy ===== *)
theory User_Keys
  imports User_Sessions
begin

text \<open>
  The user machine, third part: end-to-end encryption keys and their claims, cross-signing, the
  to-device inbox with its deduplication, client transactions, the legacy outbox, pushers and key
  backups.
\<close>

section \<open>Device keys and one-time keys\<close>

definition otk_next_order :: "user_codecs \<Rightarrow> (bytes \<times> bytes) list \<Rightarrow> u64" where
  "otk_next_order C existing =
     (case map (\<lambda>e. otk_order e + 1) (List.map_filter (\<lambda>(_, v). dec (uc_otk C) v) existing) of
        [] \<Rightarrow> 0
      | o1 # os \<Rightarrow> fold max os o1)"

definition otk_ids :: "bytes \<Rightarrow> (bytes \<times> bytes) list \<Rightarrow> string btree_set" where
  "otk_ids prefix existing = bs_of (List.map_filter (\<lambda>(k, _). map_option from_utf8_lossy (strip_prefix prefix k)) existing)"

definition upload_otk ::
  "user_codecs \<Rightarrow> string \<Rightarrow> string \<Rightarrow> string \<times> bytes \<Rightarrow> string btree_set \<times> u64 \<Rightarrow> (string btree_set \<times> u64) ap" where
  "upload_otk C user_id device_id otk st =
     (case otk of (key_id, json) \<Rightarrow> case st of (ids, next_order) \<Rightarrow>
      let key = device_scoped_key user_id device_id key_id in
      abind (aget T_ONE_TIME_KEY key) (\<lambda>b.
        if b = None \<and> key_id \<notin> set ids
        then aseq (aput T_ONE_TIME_KEY key (enc (uc_otk C) \<lparr>otk_order = next_order, otk_json = json\<rparr>))
               (aret (bs_insert key_id ids, next_order + 1))
        else aret (ids, next_order)))"

definition upload_fallback :: "user_codecs \<Rightarrow> string \<Rightarrow> string \<Rightarrow> string \<times> bytes \<Rightarrow> unit ap" where
  "upload_fallback C user_id device_id fb =
     (case fb of (key_id, json) \<Rightarrow>
      let fkey = device_scoped_key user_id device_id (split_first CHR '':'' key_id) in
      abind (aget_typed ''fallback decode'' (uc_fallback C) T_FALLBACK_KEY fkey) (\<lambda>existing.
      let used = (case existing of None \<Rightarrow> False | Some e \<Rightarrow> fb_key_id e = key_id \<and> fb_used e) in
      aput T_FALLBACK_KEY fkey (enc (uc_fallback C) \<lparr>fb_key_id = key_id, fb_json = json, fb_used = used\<rparr>)))"

definition count_algorithms :: "string list \<Rightarrow> (string, u64) btree_map" where
  "count_algorithms ids =
     fold (\<lambda>id counts. let algo = split_first CHR '':'' id in
        bt_insert algo ((case bt_get counts algo of None \<Rightarrow> 0 | Some n \<Rightarrow> n) + 1) counts) ids []"

definition upload_keys ::
  "user_codecs \<Rightarrow> string \<Rightarrow> string \<Rightarrow> bytes option \<Rightarrow> (string \<times> bytes) list \<Rightarrow> (string \<times> bytes) list \<Rightarrow> user_response ap" where
  "upload_keys C user_id device_id device_keys one_time_keys fallback_keys =
     aseq (case device_keys of
             None \<Rightarrow> aret ()
           | Some dk \<Rightarrow> aseq (aput T_DEVICE_KEYS (user_key user_id device_id) dk) (log_key_change C user_id))
    (let prefix = user_key user_id device_id @ [byte 0] in
     abind (arange T_ONE_TIME_KEY prefix (prefix_end prefix)) (\<lambda>existing.
     abind (afold (upload_otk C user_id device_id) one_time_keys (otk_ids prefix existing, otk_next_order C existing)) (\<lambda>st.
     aseq (afor (upload_fallback C user_id device_id) fallback_keys)
       (aret (OneTimeKeyCounts (count_algorithms (fst st)))))))"

text \<open>\<open>min_by_key\<close>: the first element with the least key.\<close>

fun min_by_key :: "('a \<Rightarrow> 'k::linorder) \<Rightarrow> 'a list \<Rightarrow> 'a option" where
  "min_by_key f [] = None"
| "min_by_key f (x # xs) =
     (case min_by_key f xs of None \<Rightarrow> Some x | Some y \<Rightarrow> if f y < f x then Some y else Some x)"

definition otk_candidates :: "user_codecs \<Rightarrow> bytes \<Rightarrow> string \<Rightarrow> (bytes \<times> bytes) list \<Rightarrow> (u64 \<times> bytes \<times> string \<times> bytes) list" where
  "otk_candidates C scope algorithm rows =
     List.map_filter (\<lambda>(k, v).
       Option.bind (map_option from_utf8_lossy (strip_prefix scope k)) (\<lambda>key_id.
         if \<not> starts_with key_id (algorithm @ '':'') then None
         else Option.bind (dec (uc_otk C) v) (\<lambda>entry. Some (otk_order entry, k, key_id, otk_json entry)))) rows"

definition claim_key :: "user_codecs \<Rightarrow> claim_request \<Rightarrow> claimed_key list \<Rightarrow> claimed_key list ap" where
  "claim_key C req claimed =
     (let scope = user_key (cr_user_id req) (cr_device_id req) @ [byte 0] in
      abind (arange T_ONE_TIME_KEY scope (prefix_end scope)) (\<lambda>rows.
      case min_by_key fst (otk_candidates C scope (cr_algorithm req) rows) of
        Some (_, full_key, key_id, json) \<Rightarrow>
          aseq (adelete T_ONE_TIME_KEY full_key)
            (aret (claimed @ [\<lparr>ck_user_id = cr_user_id req, ck_device_id = cr_device_id req, ck_key_id = key_id, ck_key_json = json\<rparr>]))
      | None \<Rightarrow>
          let fkey = device_scoped_key (cr_user_id req) (cr_device_id req) (cr_algorithm req) in
          abind (aget_typed ''fallback decode'' (uc_fallback C) T_FALLBACK_KEY fkey) (\<lambda>e.
          case e of
            None \<Rightarrow> aret claimed
          | Some entry \<Rightarrow>
              aseq (if \<not> fb_used entry
                    then aput T_FALLBACK_KEY fkey (enc (uc_fallback C) (entry\<lparr>fb_used := True\<rparr>)) else aret ())
                (aret (claimed @ [\<lparr>ck_user_id = cr_user_id req, ck_device_id = cr_device_id req,
                                   ck_key_id = fb_key_id entry, ck_key_json = fb_json entry\<rparr>])))))"

definition claim_keys :: "user_codecs \<Rightarrow> claim_request list \<Rightarrow> user_response ap" where
  "claim_keys C claims = abind (afold (claim_key C) claims []) (\<lambda>claimed. aret (ClaimedKeys claimed))"

section \<open>Cross-signing\<close>

definition set_cross_signing_keys ::
  "user_codecs \<Rightarrow> string \<Rightarrow> bytes option \<Rightarrow> bytes option \<Rightarrow> bytes option \<Rightarrow> user_response ap" where
  "set_cross_signing_keys C user_id master self_signing user_signing =
     aseq (afor (\<lambda>(kind, key). case key of None \<Rightarrow> aret () | Some json \<Rightarrow> aput T_CROSS_SIGNING (user_key user_id kind) json)
             [(''master'', master), (''self_signing'', self_signing), (''user_signing'', user_signing)])
    (aseq (log_key_change C user_id) (aret UserOk))"

fun fold_opt :: "('a \<Rightarrow> 's \<Rightarrow> 's option) \<Rightarrow> 'a list \<Rightarrow> 's \<Rightarrow> 's option" where
  "fold_opt f [] s = Some s"
| "fold_opt f (x # xs) s = Option.bind (f x s) (fold_opt f xs)"

definition entry_or_object :: "string \<Rightarrow> (string, json_value) btree_map \<Rightarrow> json_value" where
  "entry_or_object k m = (case bt_get m k of Some v \<Rightarrow> v | None \<Rightarrow> VObject [])"

definition merge_signer :: "string \<times> json_value \<Rightarrow> json_value \<Rightarrow> json_value option" where
  "merge_signer p sigs =
     (case p of (signer, keys) \<Rightarrow>
      Option.bind (as_object sigs) (\<lambda>m.
      Option.bind (as_object keys) (\<lambda>ks.
      Option.bind (fold_opt (\<lambda>(key_id, sig) per_signer.
            map_option (\<lambda>pm. VObject (bt_insert key_id sig pm)) (as_object per_signer)) ks (entry_or_object signer m)) (\<lambda>per_signer.
        Some (VObject (bt_insert signer per_signer m))))))"

definition merge_signatures :: "user_codecs \<Rightarrow> bytes \<Rightarrow> bytes \<Rightarrow> bytes option" where
  "merge_signatures C stored patch =
     Option.bind (json_from_slice C stored) (\<lambda>obj.
     Option.bind (json_from_slice C patch) (\<lambda>patch.
     Option.bind (as_object obj) (\<lambda>m.
     Option.bind (as_object patch) (\<lambda>ps.
     Option.bind (fold_opt merge_signer ps (entry_or_object ''signatures'' m)) (\<lambda>sigs.
       json_to_vec C (VObject (bt_insert ''signatures'' sigs m)))))))"

definition holds_key :: "user_codecs \<Rightarrow> string \<Rightarrow> bytes \<Rightarrow> bool" where
  "holds_key C target stored =
     (case Option.bind (json_from_slice C stored) (\<lambda>v.
             Option.bind (value_get v ''keys'') (\<lambda>ks. map_option (map fst) (as_object ks))) of
        None \<Rightarrow> False
      | Some ids \<Rightarrow> list_ex (\<lambda>id. id = target \<or> ends_with id target) ids)"

fun sign_cross_key :: "user_codecs \<Rightarrow> string \<Rightarrow> string \<Rightarrow> bytes \<Rightarrow> string list \<Rightarrow> bool \<Rightarrow> bool ap" where
  "sign_cross_key C user_id target patch [] changed = aret changed"
| "sign_cross_key C user_id target patch (kind # kinds) changed =
     (let ckey = user_key user_id kind in
      abind (aget T_CROSS_SIGNING ckey) (\<lambda>b.
      case b of
        None \<Rightarrow> sign_cross_key C user_id target patch kinds changed
      | Some stored \<Rightarrow>
          if holds_key C target stored
          then (case merge_signatures C stored patch of
                  Some updated \<Rightarrow> aseq (aput T_CROSS_SIGNING ckey updated) (aret True)
                | None \<Rightarrow> aret changed)
          else sign_cross_key C user_id target patch kinds changed))"

definition add_signature :: "user_codecs \<Rightarrow> string \<Rightarrow> string \<times> bytes \<Rightarrow> bool \<Rightarrow> bool ap" where
  "add_signature C user_id tp changed =
     (case tp of (target, patch) \<Rightarrow>
      let dkey = user_key user_id target in
      abind (aget T_DEVICE_KEYS dkey) (\<lambda>b.
      case b of
        Some stored \<Rightarrow>
          (case merge_signatures C stored patch of
             Some updated \<Rightarrow> aseq (aput T_DEVICE_KEYS dkey updated) (aret True)
           | None \<Rightarrow> aret changed)
      | None \<Rightarrow> sign_cross_key C user_id target patch [''master'', ''self_signing'', ''user_signing''] changed))"

definition add_signatures :: "user_codecs \<Rightarrow> string \<Rightarrow> (string \<times> bytes) list \<Rightarrow> user_response ap" where
  "add_signatures C user_id targets =
     abind (afold (add_signature C user_id) targets False) (\<lambda>changed.
       aseq (if changed then log_key_change C user_id else aret ()) (aret UserOk))"

section \<open>To-device messages and transactions\<close>

definition TO_DEVICE_SEEN_HORIZON_MS :: u64 where "TO_DEVICE_SEEN_HORIZON_MS = 60 * 60 * 1000"
definition TXN_SEEN_HORIZON_MS :: u64 where "TXN_SEEN_HORIZON_MS = 24 * 60 * 60 * 1000"

definition txn_key :: "string \<Rightarrow> string \<Rightarrow> string \<Rightarrow> string \<Rightarrow> bytes" where
  "txn_key user_id device_id scope txn_id =
     user_id @ byte 0 # device_id @ byte 0 # scope @ byte 0 # txn_id"

definition recipient_devices :: "to_device_message \<Rightarrow> string list ap" where
  "recipient_devices m =
     (if tdm_device_id m = ''*''
      then let start = user_key (tdm_user_id m) [] in
           abind (arange T_DEVICE start (user_end (tdm_user_id m))) (\<lambda>rows.
             aret (map (\<lambda>(k, _). from_utf8_lossy (drop (length start) k)) rows))
      else abind (aget T_DEVICE (user_key (tdm_user_id m) (tdm_device_id m))) (\<lambda>b.
             aret (if b \<noteq> None then [tdm_device_id m] else [])))"

definition queue_message :: "user_codecs \<Rightarrow> to_device_message \<Rightarrow> unit ap" where
  "queue_message C m =
     abind (recipient_devices m) (\<lambda>device_ids.
       if device_ids = [] then aret ()
       else abind (emit_user_change C (tdm_user_id m)) (\<lambda>seq.
         afor (\<lambda>device_id. aput T_TO_DEVICE (to_device_key (tdm_user_id m) device_id seq) (tdm_json m)) device_ids))"

definition queue_to_device :: "user_codecs \<Rightarrow> to_device_message list \<Rightarrow> unit ap" where
  "queue_to_device C messages = afor (queue_message C) messages"

definition send_to_device :: "user_codecs \<Rightarrow> to_device_message list \<Rightarrow> user_response ap" where
  "send_to_device C messages = aseq (queue_to_device C messages) (aret UserOk)"

text \<open>The prune of a time index: drop its rows before the horizon, and what they point to.\<close>

definition prune_index :: "u8 \<Rightarrow> u8 \<Rightarrow> u64 \<Rightarrow> unit ap" where
  "prune_index idx seen cutoff =
     abind (arange idx [] (u64_be cutoff)) (\<lambda>rows.
       afor (\<lambda>(k, _). aseq (adelete idx k) (if length k > 8 then adelete seen (drop 8 k) else aret ())) rows)"

definition send_to_device_deduped ::
  "user_codecs \<Rightarrow> string \<Rightarrow> string \<Rightarrow> u64 \<Rightarrow> to_device_message list \<Rightarrow> user_response ap" where
  "send_to_device_deduped C origin message_id ts_ms messages =
     (let seen_key = user_key origin message_id in
      abind (aget T_TO_DEVICE_SEEN seen_key) (\<lambda>b.
        if b \<noteq> None then aret UserOk
        else aseq (aput T_TO_DEVICE_SEEN seen_key (enc (uc_u64 C) ts_ms))
            (aseq (aput T_TO_DEVICE_SEEN_IDX (u64_be ts_ms @ seen_key) [])
            (aseq (prune_index T_TO_DEVICE_SEEN_IDX T_TO_DEVICE_SEEN (saturating_sub ts_ms TO_DEVICE_SEEN_HORIZON_MS))
            (aseq (queue_to_device C messages) (aret UserOk))))))"

definition mark_txn :: "user_codecs \<Rightarrow> string \<Rightarrow> string \<Rightarrow> string \<Rightarrow> string \<Rightarrow> u64 \<Rightarrow> user_response ap" where
  "mark_txn C user_id device_id scope txn_id ts =
     (let key = txn_key user_id device_id scope txn_id in
      aseq (aput T_TXN_SEEN key (enc (uc_u64 C) ts))
     (aseq (aput T_TXN_SEEN_IDX (u64_be ts @ key) [])
     (aseq (prune_index T_TXN_SEEN_IDX T_TXN_SEEN (saturating_sub ts TXN_SEEN_HORIZON_MS))
        (aret UserOk))))"

definition ack_to_device :: "string \<Rightarrow> string \<Rightarrow> u64 \<Rightarrow> user_response ap" where
  "ack_to_device user_id device_id up_to =
     (let prefix = device_scoped_key user_id device_id [] in
      abind (arange T_TO_DEVICE prefix (prefix @ u64_be (saturating_add up_to 1))) (\<lambda>rows.
        aseq (adelete_rows T_TO_DEVICE rows) (aret UserOk)))"

definition record_key_change :: "user_codecs \<Rightarrow> string \<Rightarrow> user_response ap" where
  "record_key_change C user_id = aseq (log_key_change C user_id) (aret UserOk)"

definition queue_outbound_edus :: "user_codecs \<Rightarrow> user_outbound_edu list \<Rightarrow> user_response ap" where
  "queue_outbound_edus C entries =
     aseq (afor (\<lambda>edu. abind (aemit (enc (uc_change C) (UserChange []))) (\<lambda>seq.
             aput T_USER_EDU_OUTBOX (uedu_destination edu @ byte 0 # u64_be seq) (uedu_json edu))) entries)
       (aret UserOk)"

definition ack_outbound_edus :: "string \<Rightarrow> u64 \<Rightarrow> user_response ap" where
  "ack_outbound_edus destination up_to =
     abind (arange T_USER_EDU_OUTBOX (user_key destination []) (destination @ byte 0 # u64_be (up_to + 1))) (\<lambda>rows.
       aseq (adelete_rows T_USER_EDU_OUTBOX rows) (aret UserOk))"

definition set_pusher :: "string \<Rightarrow> string \<Rightarrow> string \<Rightarrow> string \<Rightarrow> bytes option \<Rightarrow> user_response ap" where
  "set_pusher user_id device_id app_id pushkey json =
     (let suffix = byte 0 # app_id @ byte 0 # pushkey in
      abind (arange T_PUSHER (user_key user_id []) (user_end user_id)) (\<lambda>rows.
      aseq (afor (\<lambda>(k, _). if ends_with k suffix then adelete T_PUSHER k else aret ()) rows)
     (aseq (case json of
              None \<Rightarrow> aret ()
            | Some j \<Rightarrow> aput T_PUSHER (device_scoped_key user_id device_id app_id @ byte 0 # pushkey) j)
        (aret UserOk))))"

section \<open>Key backups\<close>

definition backup_version_key :: "string \<Rightarrow> u64 \<Rightarrow> bytes" where
  "backup_version_key user_id version = user_key user_id [] @ u64_be version"

definition backup_key_prefix :: "string \<Rightarrow> u64 \<Rightarrow> string option \<Rightarrow> string option \<Rightarrow> bytes" where
  "backup_key_prefix user_id version room_id session_id =
     backup_version_key user_id version @ byte 0 #
       (case room_id of
          None \<Rightarrow> []
        | Some room \<Rightarrow> room @ byte 0 # (case session_id of None \<Rightarrow> [] | Some session \<Rightarrow> session))"

definition live_meta :: "backup_version_meta option \<Rightarrow> backup_version_meta option" where
  "live_meta m = (case m of Some v \<Rightarrow> if bv_deleted v then None else Some v | None \<Rightarrow> None)"

definition backup_meta :: "user_codecs \<Rightarrow> string \<Rightarrow> u64 \<Rightarrow> backup_version_meta option ap" where
  "backup_meta C user_id version =
     abind (aget_typed ''backup meta decode'' (uc_backup C) T_BACKUP_VERSION (backup_version_key user_id version)) (\<lambda>m.
       aret (live_meta m))"

definition put_backup_meta :: "user_codecs \<Rightarrow> string \<Rightarrow> u64 \<Rightarrow> backup_version_meta \<Rightarrow> unit ap" where
  "put_backup_meta C user_id version meta =
     aput T_BACKUP_VERSION (backup_version_key user_id version) (enc (uc_backup C) meta)"

definition backup_fields :: "user_codecs \<Rightarrow> bytes \<Rightarrow> bool \<times> int \<times> int" where
  "backup_fields C b =
     (let v = (case json_from_slice C b of None \<Rightarrow> VNull | Some v \<Rightarrow> v);
          int_field = (\<lambda>key. case Option.bind (value_get v key) number_as_int of None \<Rightarrow> 0 | Some n \<Rightarrow> n)
      in (case Option.bind (value_get v ''is_verified'') as_bool of None \<Rightarrow> False | Some x \<Rightarrow> x,
          int_field ''first_message_index'', int_field ''forwarded_count''))"

definition backup_key_wins :: "user_codecs \<Rightarrow> bytes \<Rightarrow> bytes \<Rightarrow> bool" where
  "backup_key_wins C new old =
     (case backup_fields C new of (new_verified, new_index, new_forwarded) \<Rightarrow>
      case backup_fields C old of (old_verified, old_index, old_forwarded) \<Rightarrow>
        if new_verified \<noteq> old_verified then new_verified
        else if new_index \<noteq> old_index then new_index < old_index
        else new_forwarded < old_forwarded)"

definition create_backup_version :: "user_codecs \<Rightarrow> string \<Rightarrow> string \<Rightarrow> bytes \<Rightarrow> user_response ap" where
  "create_backup_version C user_id algorithm auth_data =
     (let start = user_key user_id [] in
      abind (arange T_BACKUP_VERSION start (user_end user_id)) (\<lambda>rows.
      let last_version = (if rows = [] then 0
            else case u64_from_be (drop (length start) (fst (last rows))) of None \<Rightarrow> 0 | Some v \<Rightarrow> v);
          version = last_version + 1 in
      aseq (put_backup_meta C user_id version
              \<lparr>bv_algorithm = algorithm, bv_auth_data = auth_data, bv_count = 0, bv_etag = 0, bv_deleted = False\<rparr>)
        (aret (BackupVersion version))))"

definition update_backup_version :: "user_codecs \<Rightarrow> string \<Rightarrow> u64 \<Rightarrow> string \<Rightarrow> bytes \<Rightarrow> user_response ap" where
  "update_backup_version C user_id version algorithm auth_data =
     abind (backup_meta C user_id version) (\<lambda>m.
       case m of
         None \<Rightarrow> aret UserNotFound
       | Some meta \<Rightarrow> aseq (put_backup_meta C user_id version (meta\<lparr>bv_algorithm := algorithm, bv_auth_data := auth_data\<rparr>)) (aret UserOk))"

definition delete_backup_version :: "user_codecs \<Rightarrow> string \<Rightarrow> u64 \<Rightarrow> user_response ap" where
  "delete_backup_version C user_id version =
     abind (backup_meta C user_id version) (\<lambda>m.
       case m of
         None \<Rightarrow> aret UserNotFound
       | Some meta \<Rightarrow>
           let prefix = backup_key_prefix user_id version None None in
           abind (arange T_BACKUP_KEY prefix (prefix_end prefix)) (\<lambda>rows.
           aseq (adelete_rows T_BACKUP_KEY rows)
          (aseq (put_backup_meta C user_id version (meta\<lparr>bv_deleted := True, bv_count := 0\<rparr>)) (aret UserOk))))"

definition put_backup_key ::
  "user_codecs \<Rightarrow> string \<Rightarrow> u64 \<Rightarrow> string \<times> string \<times> bytes \<Rightarrow> backup_version_meta \<times> bool \<Rightarrow> (backup_version_meta \<times> bool) ap" where
  "put_backup_key C user_id version rsj st =
     (case rsj of (room_id, session_id, json) \<Rightarrow> case st of (meta, changed) \<Rightarrow>
      let key = backup_key_prefix user_id version (Some room_id) (Some session_id) in
      abind (aget T_BACKUP_KEY key) (\<lambda>b.
      case (case b of
              None \<Rightarrow> (meta\<lparr>bv_count := bv_count meta + 1\<rparr>, True)
            | Some old \<Rightarrow> (meta, backup_key_wins C json old)) of (meta', replace) \<Rightarrow>
        if replace then aseq (aput T_BACKUP_KEY key json) (aret (meta', True))
        else aret (meta', changed)))"

definition put_backup_keys :: "user_codecs \<Rightarrow> string \<Rightarrow> u64 \<Rightarrow> (string \<times> string \<times> bytes) list \<Rightarrow> user_response ap" where
  "put_backup_keys C user_id version keys =
     abind (backup_meta C user_id version) (\<lambda>m.
       case m of
         None \<Rightarrow> aret UserNotFound
       | Some meta \<Rightarrow>
           abind (afold (put_backup_key C user_id version) keys (meta, False)) (\<lambda>st.
           case st of (meta1, changed) \<Rightarrow>
             let meta2 = (if changed then meta1\<lparr>bv_etag := bv_etag meta1 + 1\<rparr> else meta1) in
             aseq (if changed then put_backup_meta C user_id version meta2 else aret ())
               (aret (BackupStatus (bv_count meta2) (bv_etag meta2)))))"

definition delete_backup_keys :: "user_codecs \<Rightarrow> string \<Rightarrow> u64 \<Rightarrow> string option \<Rightarrow> string option \<Rightarrow> user_response ap" where
  "delete_backup_keys C user_id version room_id session_id =
     abind (backup_meta C user_id version) (\<lambda>m.
       case m of
         None \<Rightarrow> aret UserNotFound
       | Some meta \<Rightarrow>
           abind (if session_id \<noteq> None
                  then let key = backup_key_prefix user_id version room_id session_id in
                       abind (aget T_BACKUP_KEY key) (\<lambda>b.
                         if b \<noteq> None then aseq (adelete T_BACKUP_KEY key) (aret (1 :: u64)) else aret 0)
                  else let prefix = backup_key_prefix user_id version room_id None in
                       abind (arange T_BACKUP_KEY prefix (prefix_end prefix)) (\<lambda>rows.
                         aseq (adelete_rows T_BACKUP_KEY rows) (aret (of_nat (length rows))))) (\<lambda>removed.
           let meta2 = (if removed > 0
                 then meta\<lparr>bv_count := saturating_sub (bv_count meta) removed, bv_etag := bv_etag meta + 1\<rparr> else meta) in
           aseq (if removed > 0 then put_backup_meta C user_id version meta2 else aret ())
             (aret (BackupStatus (bv_count meta2) (bv_etag meta2)))))"

end
