(* ===== verification/User_Machine.thy ===== *)
theory User_Machine
  imports User_Rooms User_Keys
begin

text \<open>
  The user shard as a shard application: the dispatch of its commands, the migrations of its schema,
  and its interface to the runtime. The tables each command writes follow from the programs.
\<close>

definition USER_SCHEMA_VERSION :: u32 where "USER_SCHEMA_VERSION = 6"

definition USER_SHARD :: shard_id where
  "USER_SHARD = \<lparr>sid_keyspace = User, sid_index = 0\<rparr>"

definition user_command_run :: "user_codecs \<Rightarrow> user_command \<Rightarrow> user_response ap" where
  "user_command_run C cmd =
     (case cmd of
        Register user_id password_hash ts session \<Rightarrow> apply_register C user_id password_hash ts session None
      | RegisterWithToken user_id password_hash ts session registration_token \<Rightarrow>
          apply_register C user_id password_hash ts session registration_token
      | CreateSession session \<Rightarrow> create_session C session
      | RefreshSession old_refresh_hash session \<Rightarrow> refresh_session C old_refresh_hash session
      | DeleteDevice user_id device_id \<Rightarrow> delete_device_cmd C user_id device_id
      | DeleteAllDevices user_id \<Rightarrow> delete_all_devices C user_id
      | UpsertDevice user_id device_id display_name ts \<Rightarrow> upsert_device C user_id device_id display_name ts
      | SetDeviceName user_id device_id display_name \<Rightarrow> set_device_name C user_id device_id display_name
      | SetProfile user_id displayname avatar_url \<Rightarrow> set_profile C user_id displayname avatar_url
      | PutAccountData user_id room_id data_type json \<Rightarrow> put_account_data C user_id room_id data_type json
      | PutFilter user_id filter_id json \<Rightarrow> put_filter user_id filter_id json
      | ApplyRoomChanges source upto_seq changes \<Rightarrow> apply_room_changes C source upto_seq changes
      | CreateAlias alias room_id creator \<Rightarrow> create_alias C alias room_id creator
      | DeleteAlias alias \<Rightarrow> delete_alias alias
      | SetRoomVisibility room_id public \<Rightarrow> set_room_visibility room_id public
      | PutMedia media_id meta \<Rightarrow> put_media C media_id meta
      | RecordRemoteInvite user_id room_id sender event_id stripped_state \<Rightarrow>
          record_remote_invite C user_id room_id sender event_id stripped_state
      | RecordRemoteKnock user_id room_id sender event_id stripped_state \<Rightarrow>
          record_remote_knock C user_id room_id sender event_id stripped_state
      | RecordRemoteLeave user_id room_id \<Rightarrow> record_remote_leave C user_id room_id
      | ForgetRoom user_id room_id \<Rightarrow> forget_room C user_id room_id
      | UploadKeys user_id device_id device_keys one_time_keys fallback_keys \<Rightarrow>
          upload_keys C user_id device_id device_keys one_time_keys fallback_keys
      | ClaimKeys claims \<Rightarrow> claim_keys C claims
      | SetCrossSigningKeys user_id master self_signing user_signing \<Rightarrow>
          set_cross_signing_keys C user_id master self_signing user_signing
      | AddSignatures user_id targets \<Rightarrow> add_signatures C user_id targets
      | SendToDevice messages \<Rightarrow> send_to_device C messages
      | SendToDeviceDeduped origin message_id ts_ms messages \<Rightarrow> send_to_device_deduped C origin message_id ts_ms messages
      | MarkTxn user_id device_id scope txn_id ts \<Rightarrow> mark_txn C user_id device_id scope txn_id ts
      | RecordKeyChange user_id \<Rightarrow> record_key_change C user_id
      | QueueOutboundEdus entries \<Rightarrow> queue_outbound_edus C entries
      | AckOutboundEdus destination up_to \<Rightarrow> ack_outbound_edus destination up_to
      | ChangePassword user_id password_hash logout_others keep_device \<Rightarrow>
          change_password C user_id password_hash logout_others keep_device
      | Deactivate user_id \<Rightarrow> apply_deactivate C user_id
      | SetLocked user_id locked \<Rightarrow> set_locked C user_id locked
      | SetAdmin user_id admin \<Rightarrow> set_admin C user_id admin
      | AdminSetPassword user_id password_hash logout_devices \<Rightarrow> admin_set_password C user_id password_hash logout_devices
      | CompleteUiaStage session_id request_hash stage registration_token now_ts expire_before_ts \<Rightarrow>
          complete_uia_stage C session_id request_hash stage registration_token now_ts expire_before_ts
      | CreateRegistrationToken token uses_allowed expiry_ts ts \<Rightarrow> create_registration_token C token uses_allowed expiry_ts ts
      | DeleteRegistrationToken token \<Rightarrow> delete_registration_token token
      | LinkExternalId user_id auth_provider external_id \<Rightarrow> link_external_id C user_id auth_provider external_id
      | UnlinkExternalId user_id auth_provider \<Rightarrow> unlink_external_id C user_id auth_provider
      | SetNoticesRoom user_id room_id \<Rightarrow> set_notices_room C user_id room_id
      | SetRoomBlocked room_id blocked by ts \<Rightarrow> set_room_blocked C room_id blocked by ts
      | CreateLoginToken token_hash user_id expires_ts now_ts \<Rightarrow> create_login_token C token_hash user_id expires_ts now_ts
      | ConsumeLoginToken token_hash now_ts \<Rightarrow> consume_login_token C token_hash now_ts
      | SetErased user_id \<Rightarrow> set_erased C user_id
      | CreateBackupVersion user_id algorithm auth_data \<Rightarrow> create_backup_version C user_id algorithm auth_data
      | UpdateBackupVersion user_id version algorithm auth_data \<Rightarrow> update_backup_version C user_id version algorithm auth_data
      | DeleteBackupVersion user_id version \<Rightarrow> delete_backup_version C user_id version
      | PutBackupKeys user_id version keys \<Rightarrow> put_backup_keys C user_id version keys
      | DeleteBackupKeys user_id version room_id session_id \<Rightarrow> delete_backup_keys C user_id version room_id session_id
      | SetPusher user_id device_id app_id pushkey json \<Rightarrow> set_pusher user_id device_id app_id pushkey json
      | AckToDevice user_id device_id up_to \<Rightarrow> ack_to_device user_id device_id up_to)"

definition user_apply :: "user_codecs \<Rightarrow> apply_ctx \<Rightarrow> bytes \<Rightarrow> store_error + bytes \<times> apply_ctx" where
  "user_apply C ctx command =
     rbind (decode_r ''user command decode'' (uc_command C) command) (\<lambda>cmd.
     rbind (user_command_run C cmd ctx) (\<lambda>(resp, ctx'). Inr (enc (uc_response C) resp, ctx')))"

section \<open>Migrations\<close>

definition drop_edu_outbox :: "unit ap" where
  "drop_edu_outbox = abind (arange T_USER_EDU_OUTBOX [] []) (adelete_rows T_USER_EDU_OUTBOX)"

definition migrate_accounts :: "user_codecs \<Rightarrow> unit ap" where
  "migrate_accounts C =
     abind (arange T_ACCOUNT [] []) (afor (\<lambda>(k, v).
       abind (alift (decode_r ''account v2 decode'' (uc_account_v2 C) v)) (\<lambda>old.
         aput T_ACCOUNT k (enc (uc_account C) (account_v2_to_v3 old)))))"

definition migrate_tokens :: "user_codecs \<Rightarrow> unit ap" where
  "migrate_tokens C =
     abind (arange T_TOKEN [] []) (afor (\<lambda>(k, v).
       abind (alift (decode_r ''token v4 decode'' (uc_token_v4 C) v)) (\<lambda>old.
       abind (account_state C (tv4_user_id old)) (\<lambda>state.
         aput T_TOKEN k (enc (uc_token C) (token_v4_to_v5 old state))))))"

definition backfill_usernames :: "unit ap" where
  "backfill_usernames = abind (arange T_ACCOUNT [] []) (afor (\<lambda>(k, _). aput T_USERNAME k [byte 1]))"

definition user_migrate_run :: "user_codecs \<Rightarrow> u32 \<Rightarrow> unit ap" where
  "user_migrate_run C to =
     (if to = 2 then drop_edu_outbox
      else if to = 3 then migrate_accounts C
      else if to = 6 then backfill_usernames
      else if to = 5 then migrate_tokens C
      else if to = 4 then aret ()
      else alift (Inl (Engine ''no migration registered for user schema step'')))"

definition user_migrate :: "user_codecs \<Rightarrow> apply_ctx \<Rightarrow> u32 \<Rightarrow> store_error + apply_ctx" where
  "user_migrate C ctx to = rbind (user_migrate_run C to ctx) (\<lambda>(_, ctx'). Inr ctx')"

definition user_app :: "user_codecs \<Rightarrow> app" where
  "user_app C = \<lparr>app_apply = user_apply C, app_schema_version = USER_SCHEMA_VERSION, app_migrate = user_migrate C\<rparr>"

end
