(* ===== verification/User_Frames.thy ===== *)
theory User_Frames
  imports User_Machine
begin

text \<open>
  The tables every command of the user shard writes, and the shard as an application of the runtime.
\<close>

section \<open>The shared operations\<close>

lemma confined_aslice [confined_intros]: "confined S (aslice_from n k)"
  unfolding aslice_from_def by (intro confined_intros)

lemma confined_adelete_opt [confined_intros]: "t \<in> S \<Longrightarrow> confined S (adelete_opt t h)"
  unfolding adelete_opt_def by (intro confined_intros)

lemma confined_account_state [confined_intros]: "confined S (account_state C u)"
  unfolding account_state_def by (intro confined_intros)

lemma confined_emit_user_change [confined_intros]: "confined S (emit_user_change C u)"
  unfolding emit_user_change_def by (intro confined_intros)

lemma confined_put_key_change [confined_intros]: "T_KEY_CHANGE \<in> S \<Longrightarrow> confined S (put_key_change C q u m)"
  unfolding put_key_change_def by (intro confined_intros)

lemma confined_log_key_change [confined_intros]: "T_KEY_CHANGE \<in> S \<Longrightarrow> confined S (log_key_change C u)"
  unfolding log_key_change_def by (intro confined_intros)

lemma confined_restamp [confined_intros]: "T_TOKEN \<in> S \<Longrightarrow> confined S (restamp_tokens C u s)"
  unfolding restamp_tokens_def restamp_token_def by (intro confined_intros)

lemma confined_write_session [confined_intros]:
  "T_TOKEN \<in> S \<Longrightarrow> T_DEVICE \<in> S \<Longrightarrow> confined S (write_session C s)"
  unfolding write_session_def by (intro confined_intros)

lemma confined_drop_device_rows:
  "confined {T_ONE_TIME_KEY, T_TO_DEVICE, T_PUSHER, T_FALLBACK_KEY} (drop_device_rows u d)"
  unfolding drop_device_rows_def Let_def afor.simps by (intro confined_intros) simp_all

definition device_tables :: "u8 set" where
  "device_tables = {T_TOKEN, T_DEVICE, T_DEVICE_KEYS, T_ONE_TIME_KEY, T_TO_DEVICE, T_PUSHER, T_FALLBACK_KEY}"

lemma confined_delete_device [confined_intros]:
  assumes "device_tables \<subseteq> S"
  shows "confined S (delete_device C u d)"
proof -
  have "confined device_tables (delete_device C u d)"
    unfolding delete_device_def Let_def
    by (intro confined_intros confined_mono[OF confined_drop_device_rows]) (simp_all add: device_tables_def)
  then show ?thesis using assms by (rule confined_mono)
qed

lemma confined_delete_devices_except [confined_intros]:
  "device_tables \<subseteq> S \<Longrightarrow> confined S (delete_devices_except C u keep)"
  unfolding delete_devices_except_def delete_devices_step_def by (intro confined_intros)

lemma confined_consume_reg_token [confined_intros]: "T_REG_TOKEN \<in> S \<Longrightarrow> confined S (consume_reg_token C t ts)"
  unfolding consume_reg_token_def by (intro confined_intros)

lemma confined_sweep [confined_intros]:
  "T_UIA_SESSION \<in> S \<Longrightarrow> T_UIA_SESSION_IDX \<in> S \<Longrightarrow> confined S (sweep_uia_sessions e)"
  unfolding sweep_uia_sessions_def by (intro confined_intros)

lemma confined_record_remote [confined_intros]:
  "T_MEMBERSHIP \<in> S \<Longrightarrow> T_INVITE_STATE \<in> S \<Longrightarrow> confined S (record_remote C m u r s e st)"
  unfolding record_remote_def by (intro confined_intros)

lemma confined_queue [confined_intros]: "T_TO_DEVICE \<in> S \<Longrightarrow> confined S (queue_to_device C ms)"
  unfolding queue_to_device_def queue_message_def recipient_devices_def by (intro confined_intros)

lemma confined_prune [confined_intros]: "idx \<in> S \<Longrightarrow> seen \<in> S \<Longrightarrow> confined S (prune_index idx seen c)"
  unfolding prune_index_def by (intro confined_intros)

lemma confined_backup_meta [confined_intros]: "confined S (backup_meta C u v)"
  "T_BACKUP_VERSION \<in> S \<Longrightarrow> confined S (put_backup_meta C u v m)"
  unfolding backup_meta_def put_backup_meta_def by (intro confined_intros; assumption)+

lemma confined_sign_cross_key [confined_intros]:
  "T_CROSS_SIGNING \<in> S \<Longrightarrow> confined S (sign_cross_key C u t p kinds ch)"
proof (induction kinds arbitrary: ch)
  case (Cons k kinds)
  then show ?case unfolding sign_cross_key.simps by (intro confined_intros) auto
qed (simp add: confined_intros)

lemma confined_room_change [confined_intros]:
  "T_MEMBERSHIP \<in> S \<Longrightarrow> T_KEY_CHANGE \<in> S \<Longrightarrow> confined S (apply_room_change C c)"
  unfolding apply_room_change_def by (intro confined_intros)

lemma confined_upload_otk [confined_intros]: "T_ONE_TIME_KEY \<in> S \<Longrightarrow> confined S (upload_otk C u d o1 st)"
  unfolding upload_otk_def by (intro confined_intros)

lemma confined_upload_fallback [confined_intros]: "T_FALLBACK_KEY \<in> S \<Longrightarrow> confined S (upload_fallback C u d f)"
  unfolding upload_fallback_def by (intro confined_intros)

lemma confined_claim_key [confined_intros]:
  "T_ONE_TIME_KEY \<in> S \<Longrightarrow> T_FALLBACK_KEY \<in> S \<Longrightarrow> confined S (claim_key C r cl)"
  unfolding claim_key_def by (intro confined_intros)

lemma confined_add_signature [confined_intros]:
  "T_DEVICE_KEYS \<in> S \<Longrightarrow> T_CROSS_SIGNING \<in> S \<Longrightarrow> confined S (add_signature C u tp ch)"
  unfolding add_signature_def by (intro confined_intros)

lemma confined_put_backup_key [confined_intros]: "T_BACKUP_KEY \<in> S \<Longrightarrow> confined S (put_backup_key C u v k st)"
  unfolding put_backup_key_def by (intro confined_intros)

section \<open>Commands\<close>

fun cmd_tables :: "user_command \<Rightarrow> u8 set" where
  "cmd_tables (Register _ _ _ _) = {T_ACCOUNT, T_USERNAME, T_TOKEN, T_DEVICE, T_REG_TOKEN}"
| "cmd_tables (RegisterWithToken _ _ _ _ _) = {T_ACCOUNT, T_USERNAME, T_TOKEN, T_DEVICE, T_REG_TOKEN}"
| "cmd_tables (CreateSession _) = {T_TOKEN, T_DEVICE}"
| "cmd_tables (RefreshSession _ _) = {T_TOKEN, T_DEVICE}"
| "cmd_tables (DeleteDevice _ _) = insert T_KEY_CHANGE device_tables"
| "cmd_tables (DeleteAllDevices _) = insert T_KEY_CHANGE device_tables"
| "cmd_tables (UpsertDevice _ _ _ _) = {T_DEVICE, T_KEY_CHANGE}"
| "cmd_tables (SetDeviceName _ _ _) = {T_DEVICE, T_KEY_CHANGE}"
| "cmd_tables (SetProfile _ _ _) = {T_PROFILE}"
| "cmd_tables (PutAccountData _ _ _ _) = {T_ACCOUNT_DATA}"
| "cmd_tables (PutFilter _ _ _) = {T_FILTER}"
| "cmd_tables (ApplyRoomChanges _ _ _) = {T_MEMBERSHIP, T_KEY_CHANGE, T_CURSOR}"
| "cmd_tables (CreateAlias _ _ _) = {T_ALIAS}"
| "cmd_tables (DeleteAlias _) = {T_ALIAS}"
| "cmd_tables (SetRoomVisibility _ _) = {T_DIRECTORY}"
| "cmd_tables (PutMedia _ _) = {T_MEDIA}"
| "cmd_tables (RecordRemoteInvite _ _ _ _ _) = {T_MEMBERSHIP, T_INVITE_STATE}"
| "cmd_tables (RecordRemoteKnock _ _ _ _ _) = {T_MEMBERSHIP, T_INVITE_STATE}"
| "cmd_tables (RecordRemoteLeave _ _) = {T_MEMBERSHIP, T_INVITE_STATE, T_KEY_CHANGE}"
| "cmd_tables (ForgetRoom _ _) = {T_MEMBERSHIP}"
| "cmd_tables (UploadKeys _ _ _ _ _) = {T_DEVICE_KEYS, T_ONE_TIME_KEY, T_FALLBACK_KEY, T_KEY_CHANGE}"
| "cmd_tables (ClaimKeys _) = {T_ONE_TIME_KEY, T_FALLBACK_KEY}"
| "cmd_tables (SetCrossSigningKeys _ _ _ _) = {T_CROSS_SIGNING, T_KEY_CHANGE}"
| "cmd_tables (AddSignatures _ _) = {T_DEVICE_KEYS, T_CROSS_SIGNING, T_KEY_CHANGE}"
| "cmd_tables (SendToDevice _) = {T_TO_DEVICE}"
| "cmd_tables (SendToDeviceDeduped _ _ _ _) = {T_TO_DEVICE, T_TO_DEVICE_SEEN, T_TO_DEVICE_SEEN_IDX}"
| "cmd_tables (MarkTxn _ _ _ _ _) = {T_TXN_SEEN, T_TXN_SEEN_IDX}"
| "cmd_tables (RecordKeyChange _) = {T_KEY_CHANGE}"
| "cmd_tables (QueueOutboundEdus _) = {T_USER_EDU_OUTBOX}"
| "cmd_tables (AckOutboundEdus _ _) = {T_USER_EDU_OUTBOX}"
| "cmd_tables (ChangePassword _ _ _ _) = insert T_ACCOUNT (insert T_KEY_CHANGE device_tables)"
| "cmd_tables (Deactivate _) = insert T_ACCOUNT (insert T_KEY_CHANGE device_tables)"
| "cmd_tables (SetLocked _ _) = {T_ACCOUNT, T_TOKEN}"
| "cmd_tables (SetAdmin _ _) = {T_ACCOUNT}"
| "cmd_tables (AdminSetPassword _ _ _) = insert T_ACCOUNT (insert T_KEY_CHANGE device_tables)"
| "cmd_tables (CompleteUiaStage _ _ _ _ _ _) = {T_UIA_SESSION, T_UIA_SESSION_IDX}"
| "cmd_tables (CreateRegistrationToken _ _ _ _) = {T_REG_TOKEN}"
| "cmd_tables (DeleteRegistrationToken _) = {T_REG_TOKEN}"
| "cmd_tables (LinkExternalId _ _ _) = {T_EXTERNAL_ID, T_EXTERNAL_ID_USER}"
| "cmd_tables (UnlinkExternalId _ _) = {T_EXTERNAL_ID, T_EXTERNAL_ID_USER}"
| "cmd_tables (SetNoticesRoom _ _) = {T_NOTICES_ROOM}"
| "cmd_tables (SetRoomBlocked _ _ _ _) = {T_ROOM_BLOCKED}"
| "cmd_tables (CreateLoginToken _ _ _ _) = {T_LOGIN_TOKEN}"
| "cmd_tables (ConsumeLoginToken _ _) = {T_LOGIN_TOKEN}"
| "cmd_tables (SetErased _) = {T_ACCOUNT, T_PROFILE}"
| "cmd_tables (CreateBackupVersion _ _ _) = {T_BACKUP_VERSION}"
| "cmd_tables (UpdateBackupVersion _ _ _ _) = {T_BACKUP_VERSION}"
| "cmd_tables (DeleteBackupVersion _ _) = {T_BACKUP_VERSION, T_BACKUP_KEY}"
| "cmd_tables (PutBackupKeys _ _ _) = {T_BACKUP_VERSION, T_BACKUP_KEY}"
| "cmd_tables (DeleteBackupKeys _ _ _ _) = {T_BACKUP_VERSION, T_BACKUP_KEY}"
| "cmd_tables (SetPusher _ _ _ _ _) = {T_PUSHER}"
| "cmd_tables (AckToDevice _ _ _) = {T_TO_DEVICE}"

lemmas session_defs = apply_register_def create_session_def refresh_session_def delete_device_cmd_def
  delete_all_devices_def upsert_device_def set_device_name_def change_password_def set_locked_def set_admin_def
  admin_set_password_def set_erased_def complete_uia_stage_def create_registration_token_def
  delete_registration_token_def link_external_id_def unlink_external_id_def create_login_token_def
  consume_login_token_def apply_deactivate_def

lemmas room_defs = set_profile_def put_account_data_def put_filter_def apply_room_changes_def
  create_alias_def delete_alias_def set_room_visibility_def put_media_def record_remote_invite_def
  record_remote_knock_def record_remote_leave_def forget_room_def set_notices_room_def set_room_blocked_def

lemmas e2ee_defs = upload_keys_def claim_keys_def
  set_cross_signing_keys_def add_signatures_def send_to_device_def send_to_device_deduped_def
  mark_txn_def ack_to_device_def record_key_change_def queue_outbound_edus_def ack_outbound_edus_def set_pusher_def
  create_backup_version_def update_backup_version_def delete_backup_version_def  put_backup_keys_def delete_backup_keys_def

lemma user_command_confined: "confined (cmd_tables cmd) (user_command_run C cmd)"
  by (cases cmd; simp only: user_command_run_def user_command.case cmd_tables.simps session_defs room_defs e2ee_defs;
      intro confined_intros; (simp; fail)?; auto)

section \<open>The application\<close>

lemma user_migrate_confined:
  "confined {T_USER_EDU_OUTBOX, T_ACCOUNT, T_TOKEN, T_USERNAME} (user_migrate_run C to)"
  unfolding user_migrate_run_def drop_edu_outbox_def migrate_accounts_def migrate_tokens_def backfill_usernames_def
  by (intro confined_intros) simp_all

lemma cmd_tables_app: "t \<in> cmd_tables cmd \<Longrightarrow> 8 \<le> t"
  by (cases cmd) (auto simp: device_tables_def)

interpretation user: shard_app "user_app C" for C
proof
  fix ctx command r ctx'
  assume "app_apply (user_app C) ctx command = Inr (r, ctx')"
  then obtain cmd resp where "user_command_run C cmd ctx = Inr (resp, ctx')"
    by (auto simp: user_app_def user_apply_def)
  then show "ctx_steps ctx ctx'"
    using confinedD[OF user_command_confined] steps_in_ctx_steps cmd_tables_app by (metis table_numbers(1))
next
  fix ctx to ctx'
  assume "app_migrate (user_app C) ctx to = Inr ctx'"
  then have "user_migrate_run C to ctx = Inr ((), ctx')"
    by (auto simp: user_app_def user_migrate_def)
  from confinedD[OF user_migrate_confined this] show "ctx_steps ctx ctx'"
    by (rule steps_in_ctx_steps) simp
qed

text \<open>What a command leaves alone.\<close>

lemma user_command_frame:
  assumes "user_command_run C cmd ctx = Inr (r, ctx')"
  shows "t \<notin> cmd_tables cmd \<Longrightarrow> ctx_get ctx' t k = ctx_get ctx t k"
    "t \<notin> cmd_tables cmd \<Longrightarrow> row c ctx' t k = row c ctx t k"
    "ctx_engine ctx' = ctx_engine ctx" "ctx_shard ctx' = ctx_shard ctx"
  using confinedD[OF user_command_confined assms] by (simp_all add: steps_in_frame steps_in_row)

end
