(* ===== verification/User_Auth.thy ===== *)
theory User_Auth
  imports User_Frames
begin

text \<open>
  Authentication reads the token table only, so the account state mirrored on every token has to be
  the state of its account. This theory shows that every command keeps it so.
\<close>

text \<open>What the machine relies on of \<open>postcard\<close>: decoding inverts encoding, for every stored type.\<close>

locale user_wire =
  fixes C :: user_codecs
  assumes wire_account [simp]: "lossless (uc_account C)" and wire_token [simp]: "lossless (uc_token C)"
    and wire_device [simp]: "lossless (uc_device C)" and wire_profile [simp]: "lossless (uc_profile C)"
    and wire_account_data [simp]: "lossless (uc_account_data C)" and wire_membership [simp]: "lossless (uc_membership C)"
    and wire_alias [simp]: "lossless (uc_alias C)" and wire_media [simp]: "lossless (uc_media C)"
    and wire_uia [simp]: "lossless (uc_uia C)" and wire_reg_token [simp]: "lossless (uc_reg_token C)"
    and wire_login_token [simp]: "lossless (uc_login_token C)" and wire_blocked [simp]: "lossless (uc_blocked C)"
    and wire_otk [simp]: "lossless (uc_otk C)" and wire_fallback [simp]: "lossless (uc_fallback C)"
    and wire_backup [simp]: "lossless (uc_backup C)" and wire_key_change [simp]: "lossless (uc_key_change C)"
    and wire_string [simp]: "lossless (uc_string C)" and wire_u64 [simp]: "lossless (uc_u64 C)"
    and wire_byte_lists [simp]: "lossless (uc_byte_lists C)"

section \<open>The invariant\<close>

abbreviation tok_at :: "user_codecs \<Rightarrow> apply_ctx \<Rightarrow> bytes \<Rightarrow> token_entry option" where
  "tok_at C ctx h \<equiv> row (uc_token C) ctx T_TOKEN h"

abbreviation dev_at :: "user_codecs \<Rightarrow> apply_ctx \<Rightarrow> bytes \<Rightarrow> device option" where
  "dev_at C ctx k \<equiv> row (uc_device C) ctx T_DEVICE k"

abbreviation acc_at :: "user_codecs \<Rightarrow> apply_ctx \<Rightarrow> string \<Rightarrow> account option" where
  "acc_at C ctx u \<equiv> row (uc_account C) ctx T_ACCOUNT u"

definition refs :: "device \<Rightarrow> bytes set" where
  "refs d = set (opt_list (dev_access_token_hash d) @ opt_list (dev_refresh_token_hash d))"

text \<open>
  \<open>owned X\<close>: a token is held by its device, whose account exists and, unless the user is in \<open>X\<close>, is in
  the state recorded on the token.
\<close>

definition owned :: "user_codecs \<Rightarrow> string set \<Rightarrow> apply_ctx \<Rightarrow> bytes \<Rightarrow> token_entry \<Rightarrow> bool" where
  "owned C X ctx h e \<longleftrightarrow> no_nul (tok_user_id e) \<and>
     (\<exists>d. dev_at C ctx (user_key (tok_user_id e) (tok_device_id e)) = Some d \<and> h \<in> refs d) \<and>
     (\<exists>a. acc_at C ctx (tok_user_id e) = Some a \<and> (tok_user_id e \<notin> X \<longrightarrow> tok_state e = acc_state a))"

definition mirror :: "user_codecs \<Rightarrow> string set \<Rightarrow> apply_ctx \<Rightarrow> bool" where
  "mirror C X ctx \<longleftrightarrow>
     (\<forall>h e. tok_at C ctx h = Some e \<longrightarrow> owned C X ctx h e) \<and>
     (\<forall>u d dv h e. no_nul u \<longrightarrow> dev_at C ctx (user_key u d) = Some dv \<longrightarrow> h \<in> refs dv \<longrightarrow>
        tok_at C ctx h = Some e \<longrightarrow> tok_user_id e = u \<and> tok_device_id e = d)"

lemma mirrorD:
  assumes "mirror C X ctx"
  shows "tok_at C ctx h = Some e \<Longrightarrow> owned C X ctx h e"
    "no_nul u \<Longrightarrow> dev_at C ctx (user_key u d) = Some dv \<Longrightarrow> h \<in> refs dv \<Longrightarrow> tok_at C ctx h = Some e \<Longrightarrow>
       tok_user_id e = u \<and> tok_device_id e = d"
  using assms unfolding mirror_def by blast+

lemma mirrorI:
  assumes "\<And>h e. tok_at C ctx h = Some e \<Longrightarrow> owned C X ctx h e"
    and "\<And>u d dv h e. no_nul u \<Longrightarrow> dev_at C ctx (user_key u d) = Some dv \<Longrightarrow> h \<in> refs dv \<Longrightarrow>
        tok_at C ctx h = Some e \<Longrightarrow> tok_user_id e = u \<and> tok_device_id e = d"
  shows "mirror C X ctx"
  using assms unfolding mirror_def by blast

text \<open>The invariant depends on three tables.\<close>

lemma mirror_frame:
  assumes "\<And>k. tok_at C ctx' k = tok_at C ctx k" and "\<And>k. dev_at C ctx' k = dev_at C ctx k" and "\<And>k. acc_at C ctx' k = acc_at C ctx k"
  shows "mirror C X ctx' = mirror C X ctx"
  unfolding mirror_def owned_def assms ..

lemma mirror_mono: "mirror C X ctx \<Longrightarrow> X \<subseteq> Y \<Longrightarrow> mirror C Y ctx"
  unfolding mirror_def owned_def by blast

lemma user_key_inject: "no_nul u \<Longrightarrow> no_nul u' \<Longrightarrow> user_key u d = user_key u' d' \<longleftrightarrow> u = u' \<and> d = d'"
  unfolding user_key_def by (rule nul_key_inject)

definition ctx_delete_opt :: "u8 \<Rightarrow> bytes option \<Rightarrow> apply_ctx \<Rightarrow> apply_ctx" where
  "ctx_delete_opt t h ctx = (case h of None \<Rightarrow> ctx | Some k \<Rightarrow> ctx_delete t k ctx)"

lemma adelete_opt_eq [simp]: "adelete_opt t h ctx = Inr (u, ctx') \<longleftrightarrow> ctx' = ctx_delete_opt t h ctx"
  by (auto simp: adelete_opt_def ctx_delete_opt_def split: option.split)

lemma ctx_get_delete_opt [simp]:
  "ctx_get (ctx_delete_opt t h ctx) t' k = (if t' = t \<and> h = Some k then None else ctx_get ctx t' k)"
  by (auto simp: ctx_delete_opt_def split: option.split)

lemma row_delete_opt [simp]:
  "row c (ctx_delete_opt t h ctx) t' k = (if t' = t \<and> h = Some k then None else row c ctx t' k)"
  by (simp add: row_def)

lemma refs_iff: "h \<in> refs d \<longleftrightarrow> dev_access_token_hash d = Some h \<or> dev_refresh_token_hash d = Some h"
  by (auto simp: refs_def opt_list_def split: option.splits)

text \<open>Deleting a device drops the tokens it holds and its row.\<close>

lemma delete_device_run:
  assumes "delete_device C u d ctx = Inr (b, ctx')"
  shows "(dev_at C ctx (user_key u d) = None \<and> ctx_get ctx T_DEVICE (user_key u d) = None \<and> b = False \<and> ctx' = ctx) \<or>
    (\<exists>dv c. dev_at C ctx (user_key u d) = Some dv \<and> b = True \<and>
      c = ctx_delete T_DEVICE_KEYS (user_key u d) (ctx_delete T_DEVICE (user_key u d)
        (ctx_delete_opt T_TOKEN (dev_refresh_token_hash dv) (ctx_delete_opt T_TOKEN (dev_access_token_hash dv) ctx))) \<and>
      steps_in {T_ONE_TIME_KEY, T_TO_DEVICE, T_PUSHER, T_FALLBACK_KEY} c ctx')"
proof -
  let ?k = "user_key u d"
  from assms show ?thesis unfolding delete_device_def Let_def
  proof (rule abind_typedE)
    assume run: "(case dev_at C ctx ?k of None \<Rightarrow> aret False | Some device \<Rightarrow>
          aseq (adelete_opt T_TOKEN (dev_access_token_hash device))
         (aseq (adelete_opt T_TOKEN (dev_refresh_token_hash device))
         (aseq (adelete T_DEVICE ?k) (aseq (adelete T_DEVICE_KEYS ?k) (aseq (drop_device_rows u d) (aret True)))))) ctx = Inr (b, ctx')"
      and absent: "ctx_get ctx T_DEVICE ?k = None \<longleftrightarrow> dev_at C ctx ?k = None"
    then show ?thesis using confinedD[OF confined_drop_device_rows[of u d]]
      by (cases "dev_at C ctx ?k") (auto simp del: user_tables)
  qed
qed

lemma delete_device_effect:
  assumes "delete_device C u d ctx = Inr (b, ctx')"
  shows "acc_at C ctx' k = acc_at C ctx k"
    "dev_at C ctx' k = (if k = user_key u d then None else dev_at C ctx k)"
    "tok_at C ctx' h = (if \<exists>dv. dev_at C ctx (user_key u d) = Some dv \<and> h \<in> refs dv then None else tok_at C ctx h)"
  using delete_device_run[OF assms] by (auto simp: steps_in_row refs_iff)

lemma delete_device_mirror:
  assumes del: "delete_device C u d ctx = Inr (b, ctx')" and m: "mirror C X ctx"
  shows "mirror C X ctx'"
proof (rule mirrorI)
  note eff = delete_device_effect[OF del]
  fix h e
  assume t: "tok_at C ctx' h = Some e"
  then have t0: "tok_at C ctx h = Some e" and nd: "\<And>dv. dev_at C ctx (user_key u d) = Some dv \<Longrightarrow> h \<notin> refs dv"
    unfolding eff by (auto split: if_splits)
  have o: "owned C X ctx h e" using mirrorD(1)[OF m t0] .
  then have "user_key (tok_user_id e) (tok_device_id e) \<noteq> user_key u d"
    using nd unfolding owned_def by auto
  with o show "owned C X ctx' h e" unfolding owned_def eff by simp
next
  note eff = delete_device_effect[OF del]
  fix u' d' dv h e
  assume a: "no_nul u'" "dev_at C ctx' (user_key u' d') = Some dv" "h \<in> refs dv" "tok_at C ctx' h = Some e"
  then have "dev_at C ctx (user_key u' d') = Some dv" "tok_at C ctx h = Some e" unfolding eff by (auto split: if_splits)
  then show "tok_user_id e = u' \<and> tok_device_id e = d'" using mirrorD(2)[OF m] a by blast
qed

lemma user_range:
  assumes "settled T_DEVICE ctx"
  shows "(k, v) \<in> set (ctx_range ctx T_DEVICE (user_key u []) (user_end u)) \<longleftrightarrow>
    ctx_get ctx T_DEVICE k = Some v \<and> (\<exists>d. k = user_key u d)"
  using settled_range_nul[OF assms, of k v u] by (simp add: user_key_def user_end_def)

text \<open>Deleting the devices of a user: the invariant stays, and no device is left but the one kept.\<close>

lemma delete_devices_stepE:
  assumes "delete_devices_step C u keep kv any c = Inr (any', c')"
  obtains (keep) "c' = c" "keep \<noteq> None" "any' = any"
  | (delete) d b where "delete_device C u d c = Inr (b, c')" "d = drop (length (user_key u [])) (fst kv)" "any' = (any \<or> b)"
  using assms unfolding delete_devices_step_def by (auto simp: from_utf8_Some split: if_splits)

lemma delete_devices_mirror:
  assumes del: "delete_devices_except C u keep ctx = Inr (any, ctx')" and m: "mirror C X ctx"
  shows "mirror C X ctx'" and "\<And>k. acc_at C ctx' k = acc_at C ctx k"
proof -
  from del have "afold (delete_devices_step C u keep) (ctx_range ctx T_DEVICE (user_key u []) (user_end u)) False ctx = Inr (any, ctx')"
    by (simp add: delete_devices_except_def del: user_tables)
  then have "mirror C X ctx' \<and> (\<forall>k. acc_at C ctx' k = acc_at C ctx k)"
  proof (rule afold_invariant)
    show "mirror C X ctx \<and> (\<forall>k. acc_at C ctx k = acc_at C ctx k)" using m by simp
    fix x s c s' c'
    assume I: "mirror C X c \<and> (\<forall>k. acc_at C c k = acc_at C ctx k)" and "delete_devices_step C u keep x s c = Inr (s', c')"
    from this(2) show "mirror C X c' \<and> (\<forall>k. acc_at C c' k = acc_at C ctx k)"
      by (cases rule: delete_devices_stepE) (use I delete_device_mirror delete_device_effect(1) in auto)
  qed
  then show "mirror C X ctx'" and "\<And>k. acc_at C ctx' k = acc_at C ctx k" by auto
qed

lemma delete_devices_all:
  assumes del: "delete_devices_except C u None ctx = Inr (any, ctx')" and s: "settled T_DEVICE ctx"
  shows "dev_at C ctx' (user_key u d) = None"
proof -
  let ?rows = "ctx_range ctx T_DEVICE (user_key u []) (user_end u)"
  have loop: "afold (delete_devices_step C u None) ?rows False ctx = Inr (any, ctx')"
    using del by (simp add: delete_devices_except_def del: user_tables)
  show ?thesis
  proof (cases "dev_at C ctx (user_key u d)")
    case None
    from loop show ?thesis
    proof (rule afold_invariant[where P = "\<lambda>_ c. dev_at C c (user_key u d) = None"])
      show "dev_at C c' (user_key u d) = None"
        if "dev_at C c (user_key u d) = None" "delete_devices_step C u None x s c = Inr (s', c')" for x s c s' c'
        using that(2) by (cases rule: delete_devices_stepE) (use that(1) delete_device_effect(2) in auto)
    qed (rule None)
  next
    case (Some dv)
    obtain v where "ctx_get ctx T_DEVICE (user_key u d) = Some v" using Some by (auto simp: row_def bind_eq_Some_conv)
    then have x: "(user_key u d, v) \<in> set ?rows" using user_range[OF s] by blast
    have "dev_at C ctx' (fst (user_key u d, v)) = None"
    proof (rule afold_each[OF loop x, where I = "\<lambda>_ _. True" and Q = "\<lambda>x c. dev_at C c (fst x) = None"])
      fix y s c s' c'
      assume y: "y \<in> set ?rows" and step: "delete_devices_step C u None y s c = Inr (s', c')"
      obtain d' where "fst y = user_key u d'" using user_range[OF assms(2), of "fst y" "snd y" u] y by auto
      with step show "True \<and> dev_at C c' (fst y) = None"
        by (cases rule: delete_devices_stepE) (auto simp: user_key_def delete_device_effect(2) simp del: user_tables)
      show "dev_at C c' (fst z) = None" if "dev_at C c (fst z) = None" for z
        using step by (cases rule: delete_devices_stepE) (use that in \<open>auto simp: delete_device_effect(2) simp del: user_tables\<close>)
    qed simp
    then show ?thesis by simp
  qed
qed

lemma mirror_settle:
  assumes m: "mirror C {u} ctx"
    and "\<And>h e. tok_at C ctx h = Some e \<Longrightarrow> tok_user_id e = u \<Longrightarrow> \<exists>a. acc_at C ctx u = Some a \<and> tok_state e = acc_state a"
  shows "mirror C {} ctx"
proof (rule mirrorI)
  fix h e
  assume t: "tok_at C ctx h = Some e"
  show "owned C {} ctx h e"
    using mirrorD(1)[OF m t] assms(2)[OF t] unfolding owned_def by (cases "tok_user_id e = u") auto
qed (use mirrorD(2)[OF m] in blast)

section \<open>Sessions\<close>

lemma account_state_eq:
  "account_state C u ctx = Inr (st, c) \<Longrightarrow> c = ctx \<and> st = (case acc_at C ctx u of None \<Rightarrow> Deactivated | Some a \<Rightarrow> acc_state a) \<and>
     (ctx_get ctx T_ACCOUNT u = None \<longleftrightarrow> acc_at C ctx u = None)"
  unfolding account_state_def by (erule abind_typedE) auto

definition session_ok :: "user_codecs \<Rightarrow> apply_ctx \<Rightarrow> session_cmd \<Rightarrow> bool" where
  "session_ok C ctx s \<longleftrightarrow> no_nul (ses_user_id s) \<and>
     (\<forall>k dv h. dev_at C ctx k = Some dv \<longrightarrow> h \<in> refs dv \<longrightarrow> k \<noteq> user_key (ses_user_id s) (ses_device_id s) \<longrightarrow>
        ses_token_hash s \<noteq> h \<and> ses_refresh_hash s \<noteq> Some h)"

context user_wire
begin

lemma write_session_effect:
  assumes "write_session C s ctx = Inr (r, ctx')"
  defines "k \<equiv> user_key (ses_user_id s) (ses_device_id s)"
    and "st \<equiv> (case acc_at C ctx (ses_user_id s) of None \<Rightarrow> Deactivated | Some a \<Rightarrow> acc_state a)"
  shows "acc_at C ctx' u = acc_at C ctx u"
    and "\<exists>dv. refs dv = {ses_token_hash s} \<union> set_option (ses_refresh_hash s) \<and>
        (\<forall>k'. dev_at C ctx' k' = (if k' = k then Some dv else dev_at C ctx k'))"
    and "tok_at C ctx' h = Some e \<Longrightarrow>
      (tok_user_id e = ses_user_id s \<and> tok_device_id e = ses_device_id s \<and> tok_state e = st \<and>
        h \<in> {ses_token_hash s} \<union> set_option (ses_refresh_hash s)) \<or>
      (tok_at C ctx h = Some e \<and> h \<notin> {ses_token_hash s} \<union> set_option (ses_refresh_hash s) \<and>
        (\<forall>dv. dev_at C ctx k = Some dv \<longrightarrow> h \<notin> refs dv))"
    and "ctx_get ctx T_ACCOUNT (ses_user_id s) = None \<longleftrightarrow> acc_at C ctx (ses_user_id s) = None"
proof -
  let ?dv = "\<lparr>dev_display_name = (case dev_at C ctx k of Some prev \<Rightarrow> dev_display_name prev | None \<Rightarrow> ses_display_name s),
             dev_created_ts = (case dev_at C ctx k of Some d \<Rightarrow> dev_created_ts d | None \<Rightarrow> ses_ts s),
             dev_access_token_hash = Some (ses_token_hash s), dev_refresh_token_hash = ses_refresh_hash s\<rparr>"
  let ?te = "\<lambda>st kd x. \<lparr>tok_user_id = ses_user_id s, tok_device_id = ses_device_id s, tok_kind = kd,
               tok_created_ts = ses_ts s, tok_expires_ts = x, tok_state = st\<rparr>"
  let ?c0 = "case dev_at C ctx k of None \<Rightarrow> ctx | Some prev \<Rightarrow>
      ctx_delete_opt T_TOKEN (dev_refresh_token_hash prev) (ctx_delete_opt T_TOKEN (dev_access_token_hash prev) ctx)"
  let ?c1 = "ctx_put T_TOKEN (ses_token_hash s) (enc (uc_token C) (?te st Access (ses_expires_ts s)))
      (ctx_put T_DEVICE k (enc (uc_device C) ?dv) ?c0)"
  have c0: "acc_at C ?c0 u = acc_at C ctx u" "dev_at C ?c0 k' = dev_at C ctx k'"
    "tok_at C ?c0 h = (if \<exists>dv. dev_at C ctx k = Some dv \<and> h \<in> refs dv then None else tok_at C ctx h)" for u k' h
    by (cases "dev_at C ctx k"; simp add: refs_iff)+
  have "ctx' = (case ses_refresh_hash s of None \<Rightarrow> ?c1 | Some rh \<Rightarrow> ctx_put T_TOKEN rh (enc (uc_token C) (?te st Refresh None)) ?c1) \<and>
      (ctx_get ctx T_ACCOUNT (ses_user_id s) = None \<longleftrightarrow> acc_at C ctx (ses_user_id s) = None)"
    using assms(1) unfolding write_session_def Let_def k_def[symmetric]
  proof (rule abind_typedE)
    assume a: "aseq (case dev_at C ctx k of None \<Rightarrow> aret () | Some prev \<Rightarrow>
           aseq (adelete_opt T_TOKEN (dev_access_token_hash prev)) (adelete_opt T_TOKEN (dev_refresh_token_hash prev)))
        (aseq (aput T_DEVICE k (enc (uc_device C) ?dv))
        (abind (account_state C (ses_user_id s)) (\<lambda>state.
          aseq (aput T_TOKEN (ses_token_hash s) (enc (uc_token C) (?te state Access (ses_expires_ts s))))
          (case ses_refresh_hash s of None \<Rightarrow> aret ()
           | Some rh \<Rightarrow> aput T_TOKEN rh (enc (uc_token C) (?te state Refresh None)))))) ctx = Inr (r, ctx')"
    have p: "(case dev_at C ctx k of None \<Rightarrow> aret () | Some prev \<Rightarrow>
           aseq (adelete_opt T_TOKEN (dev_access_token_hash prev)) (adelete_opt T_TOKEN (dev_refresh_token_hash prev))) ctx = Inr (x, c) \<longleftrightarrow> c = ?c0" for x c
      by (cases "dev_at C ctx k") auto
    have g: "ctx_get (ctx_put T_DEVICE k (enc (uc_device C) ?dv) ?c0) T_ACCOUNT (ses_user_id s) = ctx_get ctx T_ACCOUNT (ses_user_id s)"
      by (cases "dev_at C ctx k") simp_all
    have q: "acc_at C (ctx_put T_DEVICE k (enc (uc_device C) ?dv) ?c0) (ses_user_id s) = acc_at C ctx (ses_user_id s)"
      using c0(1) by simp
    show ?thesis using a account_state_eq[of C "ses_user_id s" "ctx_put T_DEVICE k (enc (uc_device C) ?dv) ?c0"]
      unfolding q g st_def[symmetric] by (cases "ses_refresh_hash s") (auto simp: p simp del: user_tables)
  qed
  then have run: "ctx' = (case ses_refresh_hash s of None \<Rightarrow> ?c1 | Some rh \<Rightarrow> ctx_put T_TOKEN rh (enc (uc_token C) (?te st Refresh None)) ?c1)"
    and present: "ctx_get ctx T_ACCOUNT (ses_user_id s) = None \<longleftrightarrow> acc_at C ctx (ses_user_id s) = None" by auto
  show "ctx_get ctx T_ACCOUNT (ses_user_id s) = None \<longleftrightarrow> acc_at C ctx (ses_user_id s) = None" by (rule present)
  show "acc_at C ctx' u = acc_at C ctx u" unfolding run using c0(1) by (cases "ses_refresh_hash s") simp_all
  show "\<exists>dv. refs dv = {ses_token_hash s} \<union> set_option (ses_refresh_hash s) \<and>
        (\<forall>k'. dev_at C ctx' k' = (if k' = k then Some dv else dev_at C ctx k'))"
    unfolding run using c0(2) by (intro exI[of _ ?dv]) (cases "ses_refresh_hash s"; auto simp: refs_iff)
  assume "tok_at C ctx' h = Some e"
  then show "(tok_user_id e = ses_user_id s \<and> tok_device_id e = ses_device_id s \<and> tok_state e = st \<and>
        h \<in> {ses_token_hash s} \<union> set_option (ses_refresh_hash s)) \<or>
      (tok_at C ctx h = Some e \<and> h \<notin> {ses_token_hash s} \<union> set_option (ses_refresh_hash s) \<and>
        (\<forall>dv. dev_at C ctx k = Some dv \<longrightarrow> h \<notin> refs dv))"
    unfolding run using c0(3) by (cases "ses_refresh_hash s") (auto split: if_splits)
qed

lemma write_session_mirror:
  assumes run: "write_session C s ctx = Inr (r, ctx')" and m: "mirror C {} ctx" and ok: "session_ok C ctx s"
    and acc: "acc_at C ctx (ses_user_id s) = Some a"
  shows "mirror C {} ctx'"
proof (rule mirrorI)
  let ?k = "user_key (ses_user_id s) (ses_device_id s)" and ?N = "{ses_token_hash s} \<union> set_option (ses_refresh_hash s)"
  note eff = write_session_effect[OF run]
  obtain dv where dv: "refs dv = ?N" "\<And>k'. dev_at C ctx' k' = (if k' = ?k then Some dv else dev_at C ctx k')"
    using eff(2) by blast
  fix h e
  assume t: "tok_at C ctx' h = Some e"
  from eff(3)[OF t] show "owned C {} ctx' h e"
  proof (elim disjE conjE)
    assume "tok_user_id e = ses_user_id s" "tok_device_id e = ses_device_id s" "h \<in> ?N"
      "tok_state e = (case acc_at C ctx (ses_user_id s) of None \<Rightarrow> Deactivated | Some a \<Rightarrow> acc_state a)"
    then show ?thesis using ok acc dv unfolding owned_def eff(1) session_ok_def by simp
  next
    assume h: "tok_at C ctx h = Some e" "\<forall>dv. dev_at C ctx ?k = Some dv \<longrightarrow> h \<notin> refs dv"
    have o: "owned C {} ctx h e" using mirrorD(1)[OF m h(1)] .
    then have "user_key (tok_user_id e) (tok_device_id e) \<noteq> ?k" using h(2) unfolding owned_def by auto
    with o show ?thesis unfolding owned_def eff(1) dv(2) by simp
  qed
next
  let ?k = "user_key (ses_user_id s) (ses_device_id s)" and ?N = "{ses_token_hash s} \<union> set_option (ses_refresh_hash s)"
  note eff = write_session_effect[OF run]
  obtain dv where dv: "refs dv = ?N" "\<And>k'. dev_at C ctx' k' = (if k' = ?k then Some dv else dev_at C ctx k')"
    using eff(2) by blast
  fix u d dv' h e
  assume a: "no_nul u" "dev_at C ctx' (user_key u d) = Some dv'" "h \<in> refs dv'" "tok_at C ctx' h = Some e"
  show "tok_user_id e = u \<and> tok_device_id e = d"
  proof (cases "user_key u d = ?k")
    case True
    then have "u = ses_user_id s" "d = ses_device_id s" using user_key_inject a(1) ok by (auto simp: session_ok_def)
    moreover have "h \<in> ?N" using a(2,3) dv True by simp
    ultimately show ?thesis using eff(3)[OF a(4)] by blast
  next
    case False
    then have d: "dev_at C ctx (user_key u d) = Some dv'" using a(2) dv(2) by simp
    then have "h \<notin> ?N" using ok a(3) False unfolding session_ok_def by (auto simp: elem_set)
    then have "tok_at C ctx h = Some e" using eff(3)[OF a(4)] by blast
    then show ?thesis using mirrorD(2)[OF m a(1) d a(3)] by blast
  qed
qed

section \<open>Locking\<close>

lemma restamp_token_effect:
  assumes "restamp_token C st x ctx = Inr (r, ctx')"
  shows "tok_at C ctx' h = (if h = x then map_option (tok_state_update (\<lambda>_. st)) (tok_at C ctx h) else tok_at C ctx h)"
  using assms unfolding restamp_token_def by (elim abind_typedE) (auto split: option.splits)

lemma restamp_loop:
  assumes "afor (restamp_token C st) hs ctx = Inr (r, ctx')"
  shows "tok_at C ctx' h = (if h \<in> set hs then map_option (tok_state_update (\<lambda>_. st)) (tok_at C ctx h) else tok_at C ctx h)"
  using assms
proof (induction hs arbitrary: ctx)
  case (Cons x hs)
  from Cons.prems obtain c1 where "restamp_token C st x ctx = Inr ((), c1)" "afor (restamp_token C st) hs c1 = Inr (r, ctx')"
    by auto
  then show ?case using Cons.IH restamp_token_effect[of st x ctx] by (cases "tok_at C ctx h") auto
qed simp

lemma device_hashes_mem:
  assumes "device_hashes C rows = Inr hs"
  shows "h \<in> set hs \<longleftrightarrow> (\<exists>(k, v) \<in> set rows. \<exists>dv. dec (uc_device C) v = Some dv \<and> h \<in> refs dv)"
proof -
  have "h \<in> set t \<longleftrightarrow> h \<in> set s \<or> (\<exists>(k, v) \<in> set rows. \<exists>dv. dec (uc_device C) v = Some dv \<and> h \<in> refs dv)"
    if "fold_r (\<lambda>(_, v) hashes. rbind (decode_r ''device decode'' (uc_device C) v) (\<lambda>device.
         Inr (hashes @ opt_list (dev_access_token_hash device) @ opt_list (dev_refresh_token_hash device)))) rows s = Inr t" for s t
    using that
  proof (induction rows arbitrary: s)
    case (Cons x rows)
    obtain k v where x: "x = (k, v)" by (cases x)
    from Cons.prems x obtain dv where dv: "dec (uc_device C) v = Some dv"
      and rest: "fold_r (\<lambda>(_, v) hashes. rbind (decode_r ''device decode'' (uc_device C) v) (\<lambda>device.
         Inr (hashes @ opt_list (dev_access_token_hash device) @ opt_list (dev_refresh_token_hash device)))) rows
         (s @ opt_list (dev_access_token_hash dv) @ opt_list (dev_refresh_token_hash dv)) = Inr t"
      by (auto simp: decode_r_def)
    show ?case using Cons.IH[OF rest] dv x by (auto simp: refs_def)
  qed simp
  from this[of "[]" hs] assms show ?thesis by (simp add: device_hashes_def)
qed

lemma restamp_mirror:
  assumes run: "restamp_tokens C u st ctx = Inr (r, ctx')" and m: "mirror C {u} ctx" and s: "settled T_DEVICE ctx"
    and u: "no_nul u" and a: "acc_at C ctx u = Some a" "acc_state a = st"
  shows "mirror C {} ctx'"
proof -
  let ?rows = "ctx_range ctx T_DEVICE (user_key u []) (user_end u)"
  obtain hs where hs: "device_hashes C ?rows = Inr hs" and loop: "afor (restamp_token C st) hs ctx = Inr (r, ctx')"
    using run unfolding restamp_tokens_def by (auto simp del: user_tables)
  note eff = restamp_loop[OF loop]
  have keep: "dev_at C ctx' k = dev_at C ctx k" "acc_at C ctx' k = acc_at C ctx k" for k
    using confinedD[OF confined_restamp[of "{T_TOKEN}"] run] by (simp_all add: steps_in_row)
  have mem: "h \<in> set hs \<longleftrightarrow> (\<exists>d dv. dev_at C ctx (user_key u d) = Some dv \<and> h \<in> refs dv)" for h
  proof -
    have "h \<in> set hs \<longleftrightarrow> (\<exists>k v dv. (k, v) \<in> set ?rows \<and> dec (uc_device C) v = Some dv \<and> h \<in> refs dv)"
      unfolding device_hashes_mem[OF hs] by blast
    also have "\<dots> \<longleftrightarrow> (\<exists>d dv. dev_at C ctx (user_key u d) = Some dv \<and> h \<in> refs dv)"
      unfolding user_range[OF s] row_def bind_eq_Some_conv by blast
    finally show ?thesis .
  qed
  have mine: "tok_user_id e = u" if "h \<in> set hs" "tok_at C ctx h = Some e" for h e
    using that mem mirrorD(2)[OF m u] by blast
  have "mirror C {u} ctx'"
  proof (rule mirrorI)
    fix h e
    assume t: "tok_at C ctx' h = Some e"
    then obtain e0 where e0: "tok_at C ctx h = Some e0" and e: "e = e0 \<or> (h \<in> set hs \<and> e = e0\<lparr>tok_state := st\<rparr>)"
      unfolding eff by (auto split: if_splits)
    have "owned C {u} ctx h e0" using mirrorD(1)[OF m e0] .
    then show "owned C {u} ctx' h e" using e mine[of h e0] e0 unfolding owned_def keep by auto
  next
    fix v d dv h e
    assume b: "no_nul v" "dev_at C ctx' (user_key v d) = Some dv" "h \<in> refs dv" "tok_at C ctx' h = Some e"
    then obtain e0 where "tok_at C ctx h = Some e0" "tok_user_id e = tok_user_id e0" "tok_device_id e = tok_device_id e0"
      unfolding eff by (auto split: if_splits)
    then show "tok_user_id e = v \<and> tok_device_id e = d" using mirrorD(2)[OF m b(1)] b unfolding keep by auto
  qed
  then show ?thesis
  proof (rule mirror_settle)
    fix h e
    assume t: "tok_at C ctx' h = Some e" "tok_user_id e = u"
    have "\<exists>e0. tok_at C ctx h = Some e0 \<and> tok_user_id e0 = tok_user_id e \<and> (h \<in> set hs \<longrightarrow> e = e0\<lparr>tok_state := st\<rparr>)"
      using t(1) unfolding eff by (auto split: if_splits)
    then obtain e0 where e0: "tok_at C ctx h = Some e0" "tok_user_id e0 = u" and e: "h \<in> set hs \<longrightarrow> e = e0\<lparr>tok_state := st\<rparr>"
      using t(2) by blast
    have "h \<in> set hs" using mirrorD(1)[OF m e0(1)] e0(2) mem unfolding owned_def by auto
    then show "\<exists>a. acc_at C ctx' u = Some a \<and> tok_state e = acc_state a" using a e unfolding keep by simp
  qed
qed

section \<open>Every command\<close>

lemma put_account_owned:
  assumes "mirror C X ctx"
    and "\<And>h e. owned C X ctx h e \<Longrightarrow> owned C Y (ctx_put T_ACCOUNT u v ctx) h e"
  shows "mirror C Y (ctx_put T_ACCOUNT u v ctx)"
proof (rule mirrorI)
  fix h e
  assume "tok_at C (ctx_put T_ACCOUNT u v ctx) h = Some e"
  then show "owned C Y (ctx_put T_ACCOUNT u v ctx) h e" using mirrorD(1)[OF assms(1)] assms(2) by simp
qed (use mirrorD(2)[OF assms(1)] in simp)

lemma put_account_mirror:
  assumes "mirror C X ctx" and "acc_at C ctx u = Some a" and "acc_state a' = acc_state a"
  shows "mirror C X (ctx_put T_ACCOUNT u (enc (uc_account C) a') ctx)"
  using assms(1) by (rule put_account_owned) (use assms(2,3) in \<open>auto simp: owned_def\<close>)

lemma put_account_mirror_but:
  assumes "mirror C X ctx"
  shows "mirror C (insert u X) (ctx_put T_ACCOUNT u (enc (uc_account C) a') ctx)"
  using assms(1) by (rule put_account_owned) (auto simp: owned_def)

lemma new_account_mirror:
  assumes "mirror C X ctx" and "ctx_get ctx T_ACCOUNT u = None"
  shows "mirror C X (ctx_put T_ACCOUNT u (enc (uc_account C) a') ctx)"
proof -
  have "acc_at C ctx u = None" using assms(2) by (simp add: row_def)
  then show ?thesis by (intro put_account_owned[OF assms(1)]) (auto simp: owned_def)
qed

lemma put_device_mirror:
  assumes "mirror C X ctx" and "refs dv = (case dev_at C ctx k of None \<Rightarrow> {} | Some d \<Rightarrow> refs d)"
  shows "mirror C X (ctx_put T_DEVICE k (enc (uc_device C) dv) ctx)"
proof (rule mirrorI)
  fix h e
  assume "tok_at C (ctx_put T_DEVICE k (enc (uc_device C) dv) ctx) h = Some e"
  then have "owned C X ctx h e" using mirrorD(1)[OF assms(1)] by simp
  moreover from this obtain d where "dev_at C ctx (user_key (tok_user_id e) (tok_device_id e)) = Some d" "h \<in> refs d"
    unfolding owned_def by blast
  then have "\<exists>d. dev_at C (ctx_put T_DEVICE k (enc (uc_device C) dv) ctx) (user_key (tok_user_id e) (tok_device_id e)) = Some d \<and> h \<in> refs d"
    using assms(2) by (cases "user_key (tok_user_id e) (tok_device_id e) = k") auto
  ultimately show "owned C X (ctx_put T_DEVICE k (enc (uc_device C) dv) ctx) h e" unfolding owned_def by simp
next
  fix u d dv' h e
  assume a: "no_nul u" "dev_at C (ctx_put T_DEVICE k (enc (uc_device C) dv) ctx) (user_key u d) = Some dv'" "h \<in> refs dv'"
    "tok_at C (ctx_put T_DEVICE k (enc (uc_device C) dv) ctx) h = Some e"
  then obtain dv0 where "dev_at C ctx (user_key u d) = Some dv0" "h \<in> refs dv0"
    using assms(2) by (auto split: if_splits option.splits)
  then show "tok_user_id e = u \<and> tok_device_id e = d" using mirrorD(2)[OF assms(1) a(1)] a(4) by simp
qed

lemma mirror_steps:
  assumes "steps_in S ctx ctx'" and "mirror C X ctx" and "S \<inter> {T_ACCOUNT, T_TOKEN, T_DEVICE} = {}"
  shows "mirror C X ctx'"
proof -
  have "T_ACCOUNT \<notin> S" "T_TOKEN \<notin> S" "T_DEVICE \<notin> S" using assms(3) by auto
  note same = this[THEN steps_in_row[OF assms(1)]]
  have "mirror C X ctx' = mirror C X ctx" by (rule mirror_frame) (rule same)+
  then show ?thesis using assms(2) by simp
qed

lemma log_mirror: "log_key_change C u ctx = Inr (r, ctx') \<Longrightarrow> mirror C X ctx \<Longrightarrow> mirror C X ctx'"
  using mirror_steps[OF confinedD[OF confined_log_key_change[of "{T_KEY_CHANGE}"]]] by simp

lemma log_opt_mirror:
  "aseq (if any then log_key_change C u else aret ()) (aret x) ctx = Inr (r, ctx') \<Longrightarrow> mirror C X ctx \<Longrightarrow> mirror C X ctx'"
  using log_mirror by (auto split: if_splits)

end

fun cmd_ok :: "user_codecs \<Rightarrow> apply_ctx \<Rightarrow> user_command \<Rightarrow> bool" where
  "cmd_ok C ctx (Register u _ _ (Some s)) = (ses_user_id s = u \<and> session_ok C ctx s)"
| "cmd_ok C ctx (RegisterWithToken u _ _ (Some s) _) = (ses_user_id s = u \<and> session_ok C ctx s)"
| "cmd_ok C ctx (CreateSession s) = session_ok C ctx s"
| "cmd_ok C ctx (RefreshSession _ s) = session_ok C ctx s"
| "cmd_ok C ctx (SetLocked u _) = no_nul u"
| "cmd_ok C ctx _ = True"

context user_wire
begin

lemma register_mirror:
  assumes run: "apply_register C u p ts session rt ctx = Inr (r, ctx')" and m: "mirror C {} ctx"
    and ok: "\<And>s. session = Some s \<Longrightarrow> ses_user_id s = u \<and> session_ok C ctx s"
  shows "mirror C {} ctx'"
proof -
  let ?a = "\<lparr>acc_password_hash = p, acc_created_ts = ts, acc_state = Active, acc_admin = False, acc_erased = False\<rparr>"
  from run consider "ctx' = ctx"
    | c where "consume_reg_token C rt ts ctx = Inr (False, c)" "ctx' = c"
    | c where "consume_reg_token C rt ts ctx = Inr (True, c)" "ctx_get ctx T_ACCOUNT u = None"
      "(case session of None \<Rightarrow> aret () | Some s \<Rightarrow> write_session C s)
         (ctx_put T_USERNAME u [byte 1] (ctx_put T_ACCOUNT u (enc (uc_account C) ?a) c)) = Inr ((), ctx')"
    unfolding apply_register_def by (auto split: if_splits simp del: user_tables)
  then show ?thesis
  proof cases
    case 1
    then show ?thesis using m by simp
  next
    case (2 c)
    then show ?thesis using mirror_steps[OF confinedD[OF confined_consume_reg_token[of "{T_REG_TOKEN}"]] m] by simp
  next
    case (3 c)
    have st: "steps_in {T_REG_TOKEN} ctx c" using confinedD[OF confined_consume_reg_token[of "{T_REG_TOKEN}"] 3(1)] by simp
    let ?c = "ctx_put T_USERNAME u [byte 1] (ctx_put T_ACCOUNT u (enc (uc_account C) ?a) c)"
    have "mirror C {} c" using mirror_steps[OF st m] by simp
    then have "mirror C {} (ctx_put T_ACCOUNT u (enc (uc_account C) ?a) c)"
      by (rule new_account_mirror) (use 3(2) in \<open>simp add: steps_in_frame[OF st]\<close>)
    then have mc: "mirror C {} ?c" by (subst mirror_frame) simp_all
    show ?thesis
    proof (cases session)
      case None
      then show ?thesis using 3(3) mc by simp
    next
      case (Some s)
      have "dev_at C ?c k = dev_at C ctx k" for k by (simp add: steps_in_row[OF st])
      then have "session_ok C ?c s" using ok[OF Some] unfolding session_ok_def by auto
      moreover have "acc_at C ?c (ses_user_id s) = Some ?a" using ok[OF Some] by simp
      ultimately show ?thesis using write_session_mirror[of s ?c "()" ctx' ?a] 3(3) mc Some by simp
    qed
  qed
qed

lemma create_session_mirror:
  assumes run: "create_session C s ctx = Inr (r, ctx')" and m: "mirror C {} ctx" and ok: "session_ok C ctx s"
  shows "mirror C {} ctx'"
proof -
  from run consider "ctx' = ctx" | "write_session C s ctx = Inr ((), ctx')" "ctx_get ctx T_ACCOUNT (ses_user_id s) \<noteq> None"
    unfolding create_session_def by (auto split: if_splits simp del: user_tables)
  then show ?thesis
  proof cases
    case 2
    then obtain a where "acc_at C ctx (ses_user_id s) = Some a" using write_session_effect(4)[OF 2(1)] by auto
    then show ?thesis using write_session_mirror[OF 2(1) m ok] by blast
  qed (use m in simp)
qed

lemma refresh_session_mirror:
  assumes run: "refresh_session C h s ctx = Inr (r, ctx')" and m: "mirror C {} ctx" and ok: "session_ok C ctx s"
  shows "mirror C {} ctx'"
  using run unfolding refresh_session_def
proof (rule abind_typedE)
  assume run: "(if (case tok_at C ctx h of None \<Rightarrow> False
           | Some e \<Rightarrow> tok_kind e = Refresh \<and> tok_user_id e = ses_user_id s \<and> tok_device_id e = ses_device_id s)
       then aseq (write_session C s) (aret UserOk) else aret InvalidGrant) ctx = Inr (r, ctx')"
  show ?thesis
  proof (cases "tok_at C ctx h")
    case (Some e)
    have "\<exists>a. acc_at C ctx (tok_user_id e) = Some a" using mirrorD(1)[OF m Some] unfolding owned_def by blast
    then show ?thesis using run Some m write_session_mirror[OF _ m ok] by (auto split: if_splits simp del: user_tables)
  qed (use run m in simp)
qed

lemma delete_device_cmd_mirror:
  assumes run: "delete_device_cmd C u d ctx = Inr (r, ctx')" and m: "mirror C {} ctx"
  shows "mirror C {} ctx'"
  using run delete_device_mirror[OF _ m] log_mirror unfolding delete_device_cmd_def
  by (auto split: if_splits simp del: user_tables)

lemma delete_all_devices_mirror:
  assumes run: "delete_all_devices C u ctx = Inr (r, ctx')" and m: "mirror C {} ctx"
  shows "mirror C {} ctx'"
proof -
  from run obtain any c where 1: "delete_devices_except C u None ctx = Inr (any, c)"
    and 2: "aseq (if any then log_key_change C u else aret ()) (aret UserOk) c = Inr (r, ctx')"
    unfolding delete_all_devices_def abind_eq by blast
  show ?thesis by (rule log_opt_mirror[OF 2]) (rule delete_devices_mirror(1)[OF 1 m])
qed

lemma refs_same [simp]: "refs (d\<lparr>dev_display_name := x\<rparr>) = refs d"
  by (simp add: refs_def)

lemma upsert_device_mirror:
  assumes run: "upsert_device C u d n ts ctx = Inr (r, ctx')" and m: "mirror C {} ctx"
  shows "mirror C {} ctx'"
  using run unfolding upsert_device_def Let_def
proof (rule abind_typedE)
  let ?dv = "case dev_at C ctx (user_key u d) of Some d \<Rightarrow> d\<lparr>dev_display_name := n\<rparr>
    | None \<Rightarrow> \<lparr>dev_display_name = n, dev_created_ts = ts, dev_access_token_hash = None, dev_refresh_token_hash = None\<rparr>"
  assume "aseq (aput T_DEVICE (user_key u d) (enc (uc_device C) ?dv)) (aseq (log_key_change C u) (aret UserOk)) ctx = Inr (r, ctx')"
  then have "log_key_change C u (ctx_put T_DEVICE (user_key u d) (enc (uc_device C) ?dv) ctx) = Inr ((), ctx')" by auto
  moreover have "mirror C {} (ctx_put T_DEVICE (user_key u d) (enc (uc_device C) ?dv) ctx)"
    by (rule put_device_mirror[OF m]) (auto simp: refs_iff split: option.split)
  ultimately show ?thesis using log_mirror by blast
qed

lemma set_device_name_mirror:
  assumes run: "set_device_name C u d n ctx = Inr (r, ctx')" and m: "mirror C {} ctx"
  shows "mirror C {} ctx'"
  using run unfolding set_device_name_def Let_def
proof (rule abind_typedE)
  assume run: "(case dev_at C ctx (user_key u d) of None \<Rightarrow> aret UserNotFound | Some device \<Rightarrow>
      aseq (aput T_DEVICE (user_key u d) (enc (uc_device C) (device\<lparr>dev_display_name := n\<rparr>)))
        (aseq (log_key_change C u) (aret UserOk))) ctx = Inr (r, ctx')"
  show ?thesis
  proof (cases "dev_at C ctx (user_key u d)")
    case (Some dv)
    then have "log_key_change C u (ctx_put T_DEVICE (user_key u d) (enc (uc_device C) (dv\<lparr>dev_display_name := n\<rparr>)) ctx) = Inr ((), ctx')"
      using run by auto
    moreover have "mirror C {} (ctx_put T_DEVICE (user_key u d) (enc (uc_device C) (dv\<lparr>dev_display_name := n\<rparr>)) ctx)"
      by (rule put_device_mirror[OF m]) (simp add: Some[simplified])
    ultimately show ?thesis using log_mirror by blast
  qed (use run m in simp)
qed

text \<open>The commands that rewrite an account.\<close>

lemma account_caseE:
  assumes "abind (aget_typed w (uc_account C) T_ACCOUNT u) (\<lambda>a. case a of None \<Rightarrow> aret x | Some acc \<Rightarrow> f acc) ctx = Inr (r, ctx')"
  obtains "acc_at C ctx u = None" "ctx' = ctx" "r = x" | a where "acc_at C ctx u = Some a" "f a ctx = Inr (r, ctx')"
  using assms by (elim abind_typedE) (cases "acc_at C ctx u"; simp)

lemma logout_mirror:
  assumes run: "abind (if b then delete_devices_except C u keep else aret False) (\<lambda>any.
      aseq (if any then log_key_change C u else aret ()) (aret x)) ctx = Inr (r, ctx')" and m: "mirror C {} ctx"
  shows "mirror C {} ctx'"
proof -
  from run obtain any c where 1: "(if b then delete_devices_except C u keep else aret False) ctx = Inr (any, c)"
    and 2: "aseq (if any then log_key_change C u else aret ()) (aret x) c = Inr (r, ctx')"
    unfolding abind_eq by blast
  have "mirror C {} c" using 1 delete_devices_mirror(1)[OF _ m] m by (auto split: if_splits)
  then show ?thesis by (rule log_opt_mirror[OF 2])
qed

lemma change_password_mirror:
  assumes run: "change_password C u p b keep ctx = Inr (r, ctx')" and m: "mirror C {} ctx"
  shows "mirror C {} ctx'"
  using run unfolding change_password_def
proof (cases rule: account_caseE)
  case (2 a)
  let ?c = "ctx_put T_ACCOUNT u (enc (uc_account C) (a\<lparr>acc_password_hash := Some p\<rparr>)) ctx"
  have "mirror C {} ?c" by (rule put_account_mirror[OF m 2(1)]) simp
  then show ?thesis using 2(2) logout_mirror[of b u "Some keep" UserOk ?c r ctx'] by (simp del: abind_eq user_tables)
qed (use m in simp)

lemma admin_set_password_mirror:
  assumes run: "admin_set_password C u p b ctx = Inr (r, ctx')" and m: "mirror C {} ctx"
  shows "mirror C {} ctx'"
  using run unfolding admin_set_password_def
proof (cases rule: account_caseE)
  case (2 a)
  let ?c = "ctx_put T_ACCOUNT u (enc (uc_account C) (a\<lparr>acc_password_hash := Some p\<rparr>)) ctx"
  have "mirror C {} ?c" by (rule put_account_mirror[OF m 2(1)]) simp
  then show ?thesis using 2(2) m logout_mirror[of b u None UserOk ?c r ctx']
    by (simp del: abind_eq user_tables split: if_splits)
qed (use m in simp)

lemma set_admin_mirror:
  assumes run: "set_admin C u b ctx = Inr (r, ctx')" and m: "mirror C {} ctx"
  shows "mirror C {} ctx'"
  using run unfolding set_admin_def
proof (cases rule: account_caseE)
  case (2 a)
  then show ?thesis using put_account_mirror[OF m 2(1), of "a\<lparr>acc_admin := b\<rparr>"] by (simp del: user_tables)
qed (use m in simp)

lemma set_erased_mirror:
  assumes run: "set_erased C u ctx = Inr (r, ctx')" and m: "mirror C {} ctx"
  shows "mirror C {} ctx'"
  using run unfolding set_erased_def
proof (cases rule: account_caseE)
  case (2 a)
  let ?c = "ctx_put T_ACCOUNT u (enc (uc_account C) (a\<lparr>acc_erased := True\<rparr>)) ctx"
  have mc: "mirror C {} ?c" by (rule put_account_mirror[OF m 2(1)]) simp
  have "mirror C {} (ctx_delete T_PROFILE u ?c)" by (subst mirror_frame[of C _ ?c]) (simp_all add: mc[simplified])
  then show ?thesis using 2(2) m by (simp del: user_tables split: if_splits)
qed (use m in simp)

lemma set_locked_mirror:
  assumes run: "set_locked C u b ctx = Inr (r, ctx')" and m: "mirror C {} ctx" and s: "settled T_DEVICE ctx" and u: "no_nul u"
  shows "mirror C {} ctx'"
  using run unfolding set_locked_def
proof (cases rule: account_caseE)
  case (2 a)
  let ?st = "if b then Locked else Active"
  let ?c = "ctx_put T_ACCOUNT u (enc (uc_account C) (a\<lparr>acc_state := ?st\<rparr>)) ctx"
  have mc: "mirror C {u} ?c" by (rule put_account_mirror_but[OF m])
  have "settled T_DEVICE ?c" using s by simp
  note restamp = restamp_mirror[of u ?st ?c "()" ctx' "a\<lparr>acc_state := ?st\<rparr>", OF _ mc this u]
  show ?thesis using 2(2) m restamp by (simp del: user_tables add: Let_def split: if_split_asm)
qed (use m in simp)

lemma deactivate_mirror:
  assumes run: "apply_deactivate C u ctx = Inr (r, ctx')" and m: "mirror C {} ctx" and s: "settled T_DEVICE ctx"
  shows "mirror C {} ctx'"
  using run unfolding apply_deactivate_def
proof (cases rule: account_caseE)
  case (2 a)
  let ?c = "ctx_put T_ACCOUNT u (enc (uc_account C) (a\<lparr>acc_state := Deactivated, acc_password_hash := None\<rparr>)) ctx"
  from 2(2) obtain any c1 where 1: "delete_devices_except C u None ?c = Inr (any, c1)"
    and log: "aseq (if any then log_key_change C u else aret ()) (aret UserOk) c1 = Inr (r, ctx')"
    by (auto simp del: user_tables)
  have "settled T_DEVICE ?c" using s by simp
  note gone = delete_devices_all[OF 1 this]
  have "mirror C {u} c1" by (rule delete_devices_mirror(1)[OF 1 put_account_mirror_but[OF m]])
  then have "mirror C {} c1"
  proof (rule mirror_settle)
    fix h e
    assume "tok_at C c1 h = Some e" "tok_user_id e = u"
    then show "\<exists>a. acc_at C c1 u = Some a \<and> tok_state e = acc_state a"
      using mirrorD(1)[OF \<open>mirror C {u} c1\<close>] gone unfolding owned_def by fastforce
  qed
  then show ?thesis by (rule log_opt_mirror[OF log])
qed (use m in simp)

lemma command_mirror:
  assumes run: "user_command_run C cmd ctx = Inr (r, ctx')" and m: "mirror C {} ctx"
    and s: "settled T_DEVICE ctx" and ok: "cmd_ok C ctx cmd"
  shows "mirror C {} ctx'"
proof (cases "cmd_tables cmd \<inter> {T_ACCOUNT, T_TOKEN, T_DEVICE} = {}")
  case True
  then show ?thesis using mirror_steps[OF confinedD[OF user_command_confined run] m] by simp
next
  case False
  then show ?thesis
  proof (cases cmd)
    case (Register u p ts session)
    then show ?thesis using register_mirror[of u p ts session None ctx r ctx'] run m ok
      by (cases session) (auto simp: user_command_run_def)
  next
    case (RegisterWithToken u p ts session rt)
    then show ?thesis using register_mirror[of u p ts session rt ctx r ctx'] run m ok
      by (cases session) (auto simp: user_command_run_def)
  next
    case (CreateSession x)
    then show ?thesis using create_session_mirror run m ok by (auto simp: user_command_run_def)
  next
    case (RefreshSession h x)
    then show ?thesis using refresh_session_mirror run m ok by (auto simp: user_command_run_def)
  next
    case (DeleteDevice u d)
    then show ?thesis using delete_device_cmd_mirror run m by (auto simp: user_command_run_def)
  next
    case (DeleteAllDevices u)
    then show ?thesis using delete_all_devices_mirror run m by (auto simp: user_command_run_def)
  next
    case (UpsertDevice u d n ts)
    then show ?thesis using upsert_device_mirror run m by (auto simp: user_command_run_def)
  next
    case (SetDeviceName u d n)
    then show ?thesis using set_device_name_mirror run m by (auto simp: user_command_run_def)
  next
    case (ChangePassword u p b k)
    then show ?thesis using change_password_mirror run m by (auto simp: user_command_run_def)
  next
    case (Deactivate u)
    then show ?thesis using deactivate_mirror[OF _ m s] run by (auto simp: user_command_run_def)
  next
    case (SetLocked u b)
    then show ?thesis using set_locked_mirror[OF _ m s] run ok by (auto simp: user_command_run_def)
  next
    case (SetAdmin u b)
    then show ?thesis using set_admin_mirror run m by (auto simp: user_command_run_def)
  next
    case (AdminSetPassword u p b)
    then show ?thesis using admin_set_password_mirror run m by (auto simp: user_command_run_def)
  next
    case (SetErased u)
    then show ?thesis using set_erased_mirror run m by (auto simp: user_command_run_def)
  qed (use False in \<open>auto simp: device_tables_def\<close>)
qed

end

section \<open>Histories\<close>

text \<open>
  The states of a shard that applies its commands one per batch: every command starts from the
  engine as the commands before it left it.
\<close>

definition batch_ctx :: "kv \<Rightarrow> u64 \<Rightarrow> apply_ctx" where
  "batch_ctx db seq = \<lparr>ctx_shard = USER_SHARD, ctx_engine = db, ctx_wb = [], ctx_seq = seq, ctx_emits = []\<rparr>"

inductive user_history :: "user_codecs \<Rightarrow> (apply_ctx \<Rightarrow> user_command \<Rightarrow> bool) \<Rightarrow> kv \<Rightarrow> u64 \<Rightarrow> bool"
  for C ok where
  start: "user_history C ok [] 0"
| command: "user_history C ok db seq \<Longrightarrow> ok (batch_ctx db seq) cmd \<Longrightarrow>
    user_command_run C cmd (batch_ctx db seq) = Inr (r, ctx') \<Longrightarrow> user_history C ok (committed ctx') (ctx_seq ctx')"

lemma batch_get: "ctx_get (batch_ctx db q) t k = kv_get db (ctx_key USER_SHARD t k)"
  by (simp add: ctx_get_def batch_ctx_def staged_def Let_def)

lemma batch_settled: "bt_wf db \<Longrightarrow> t \<noteq> - 1 \<Longrightarrow> settled t (batch_ctx db seq)"
  by (rule settled_unstaged) (simp_all add: batch_ctx_def)

lemma committed_batch:
  assumes "bt_wf (ctx_engine ctx)" and "ctx_shard ctx = USER_SHARD"
  shows "ctx_get (batch_ctx (committed ctx) q) t k = ctx_get ctx t k" "bt_wf (committed ctx)"
proof -
  show "bt_wf (committed ctx)" using assms(1) unfolding committed_def by (rule kv_write_batch_wf)
  show "ctx_get (batch_ctx (committed ctx) q) t k = ctx_get ctx t k"
    using committed_get[OF assms(1), of t k] assms(2) by (simp add: batch_get)
qed

text \<open>An invariant of single commands holds throughout a history.\<close>

lemma history_invariant:
  assumes "user_history C ok db seq"
    and "\<And>q. I (batch_ctx [] q)"
    and "\<And>ctx cmd r ctx'. user_command_run C cmd ctx = Inr (r, ctx') \<Longrightarrow> I ctx \<Longrightarrow> ok ctx cmd \<Longrightarrow>
      bt_wf (ctx_engine ctx) \<Longrightarrow> ctx_wb ctx = [] \<Longrightarrow> I ctx'"
    and "\<And>ctx ctx'. (\<And>t k. ctx_get ctx' t k = ctx_get ctx t k) \<Longrightarrow> I ctx \<Longrightarrow> I ctx'"
  shows "I (batch_ctx db q) \<and> bt_wf db"
  using assms(1)
proof (induction arbitrary: q rule: user_history.induct)
  case start
  then show ?case using assms(2) by simp
next
  case (command db seq cmd r ctx')
  have f: "ctx_engine ctx' = db" "ctx_shard ctx' = USER_SHARD"
    using user_command_frame(3,4)[OF command.hyps(3)] by (simp_all add: batch_ctx_def)
  have "I ctx'" by (rule assms(3)[OF command.hyps(3)]) (use command in \<open>simp_all add: batch_ctx_def\<close>)
  then have "I (batch_ctx (committed ctx') q)" by (rule assms(4)[rotated]) (rule committed_batch; use f command.IH in simp)
  then show ?case using committed_batch(2)[of ctx'] f command.IH by simp
qed

text \<open>
  C35: Authentication is sound in every history of a user shard that applies its commands one per batch and
  whose commands meet \<open>cmd_ok\<close>: every token on file is held by an existing device of its user, and the state
  it records is the state of that user's account. So a token that authenticates belongs to an account that may
  authenticate: locking or deactivating an account takes effect on every token, and unlocking gives the
  sessions back. \<open>cmd_ok\<close> is what the gateway provides and \<open>apply\<close> does not check: the users of sessions and
  of locks are named without zero bytes, the session of a registration is one of the registered user, and the
  hashes of a new session, of tokens just drawn at random, are not those of another device. Within one batch
  the statement fails, as \<open>session_survives_deactivation_in_batch\<close> shows.
\<close>

theorem tokens_mirror_accounts:
  assumes "user_wire C" and "user_history C (cmd_ok C) db seq"
    and "row (uc_token C) (batch_ctx db q) T_TOKEN h = Some e"
  shows "\<exists>a dv. row (uc_account C) (batch_ctx db q) T_ACCOUNT (tok_user_id e) = Some a \<and> tok_state e = acc_state a \<and>
    row (uc_device C) (batch_ctx db q) T_DEVICE (user_key (tok_user_id e) (tok_device_id e)) = Some dv \<and>
    (dev_access_token_hash dv = Some h \<or> dev_refresh_token_hash dv = Some h)"
proof -
  have "mirror C {} (batch_ctx db q) \<and> bt_wf db"
    using assms(2)
  proof (rule history_invariant)
    show "mirror C {} (batch_ctx [] q)" for q
      by (simp add: mirror_def row_def batch_get kv_get_def)
    show "mirror C {} ctx'" if "user_command_run C cmd ctx = Inr (r, ctx')" "mirror C {} ctx" "cmd_ok C ctx cmd"
      "bt_wf (ctx_engine ctx)" "ctx_wb ctx = []" for ctx cmd r ctx'
      using user_wire.command_mirror[OF assms(1) that(1,2) _ that(3)] settled_unstaged[OF that(4,5)] by simp
    show "mirror C {} ctx'" if "\<And>t k. ctx_get ctx' t k = ctx_get ctx t k" "mirror C {} ctx" for ctx ctx'
      using that by (simp add: mirror_def owned_def row_def)
  qed
  then have "owned C {} (batch_ctx db q) h e" using mirrorD(1) assms(3) by blast
  then show ?thesis unfolding owned_def refs_iff by auto
qed

text \<open>
  Deactivation removes the devices that a range of the device table finds, and a range does not see
  what the batch has staged: a session written in the same batch, before the deactivation of its
  account, keeps an active token on a deactivated account.
\<close>

theorem session_survives_deactivation_in_batch:
  fixes s :: session_cmd
  assumes "user_wire C" and "settled T_DEVICE ctx" and "row (uc_account C) ctx T_ACCOUNT (ses_user_id s) = Some a" and "acc_state a = Active"
    and "\<And>d. ctx_get ctx T_DEVICE (user_key (ses_user_id s) d) = None"
    and "ses_refresh_hash s = None"
  shows "\<exists>c1 c2 e a'. user_command_run C (CreateSession s) ctx = Inr (UserOk, c1) \<and>
    user_command_run C (Deactivate (ses_user_id s)) c1 = Inr (UserOk, c2) \<and>
    row (uc_account C) c2 T_ACCOUNT (ses_user_id s) = Some a' \<and> acc_state a' = Deactivated \<and>
    row (uc_token C) c2 T_TOKEN (ses_token_hash s) = Some e \<and> tok_user_id e = ses_user_id s \<and> tok_state e = Active"
proof -
  note [simp] = user_wire.wire_account[OF assms(1)] user_wire.wire_token[OF assms(1)] user_wire.wire_device[OF assms(1)]
  note [simp] = abind_def aseq_def aret_def alift_def aget_def arange_def aput_def aget_typed_def Let_def decode_opt_def
  let ?u = "ses_user_id s"
  have "kv \<notin> set (ctx_range ctx T_DEVICE (user_key ?u []) (user_end ?u))" for kv :: "bytes \<times> bytes"
    using user_range[OF assms(2), of "fst kv" "Product_Type.snd kv" ?u] assms(5) by auto
  then have "set (ctx_range ctx T_DEVICE (user_key ?u []) (user_end ?u)) = {}" by (rule equals0I[OF notE])
  then have range: "ctx_range c T_DEVICE (user_key ?u []) (user_end ?u) = []" if "ctx_engine c = ctx_engine ctx" "ctx_shard c = ctx_shard ctx" for c
    using that by (simp add: ctx_range_def del: user_tables)
  obtain v where v: "ctx_get ctx T_ACCOUNT ?u = Some v" "dec (uc_account C) v = Some a"
    using assms(3) by (auto simp: row_def bind_eq_Some_conv)
  have "\<exists>c1 e. user_command_run C (CreateSession s) ctx = Inr (UserOk, c1) \<and> ctx_engine c1 = ctx_engine ctx \<and> ctx_shard c1 = ctx_shard ctx \<and>
      ctx_get c1 T_ACCOUNT ?u = Some v \<and> row (uc_token C) c1 T_TOKEN (ses_token_hash s) = Some e \<and> tok_user_id e = ?u \<and> tok_state e = Active"
    using v assms(4-6) by (simp add: user_command_run_def create_session_def write_session_def account_state_def decode_r_def)
  then obtain c1 e where c1: "user_command_run C (CreateSession s) ctx = Inr (UserOk, c1)" "ctx_engine c1 = ctx_engine ctx" "ctx_shard c1 = ctx_shard ctx"
    "ctx_get c1 T_ACCOUNT ?u = Some v" and e: "row (uc_token C) c1 T_TOKEN (ses_token_hash s) = Some e" "tok_user_id e = ?u" "tok_state e = Active" by blast
  let ?a = "a\<lparr>acc_state := Deactivated, acc_password_hash := None\<rparr>"
  have "user_command_run C (Deactivate ?u) c1 = Inr (UserOk, ctx_put T_ACCOUNT ?u (enc (uc_account C) ?a) c1)"
    using c1 v range[of "ctx_put T_ACCOUNT ?u (enc (uc_account C) ?a) c1"]
    by (simp add: user_command_run_def apply_deactivate_def delete_devices_except_def decode_r_def del: user_tables)
  then show ?thesis using c1(1) e by (intro exI conjI) (assumption | simp)+
qed

end
