(* ===== verification/User_Names.thy ===== *)
theory User_Names
  imports User_Auth
begin

text \<open>
  Names, registration tokens, identity links and login tokens: what is unique stays unique.
\<close>

section \<open>Replay of a log\<close>

text \<open>
  The shard's log, applied in whatever batches the Raft layer hands over: the commands of a batch run on one
  context, whose staged writes the later ones of the batch see in \<open>get\<close> and not in \<open>range\<close>, and the batch is
  committed as a whole. The result holds the responses and the state reached.
\<close>

definition user_batch :: "user_codecs \<Rightarrow> user_command list \<Rightarrow> user_response list \<times> apply_ctx \<Rightarrow> store_error + user_response list \<times> apply_ctx" where
  "user_batch C = fold_r (\<lambda>cmd (rs, ctx). rbind (user_command_run C cmd ctx) (\<lambda>(r, ctx'). Inr (rs @ [r], ctx')))"

definition user_replay :: "user_codecs \<Rightarrow> user_command list list \<Rightarrow> user_response list \<times> kv \<times> u64 \<Rightarrow> store_error + user_response list \<times> kv \<times> u64" where
  "user_replay C = fold_r (\<lambda>cmds (rs, db, seq).
     rbind (user_batch C cmds (rs, batch_ctx db seq)) (\<lambda>(rs', ctx'). Inr (rs', committed ctx', ctx_seq ctx')))"

text \<open>The same as a relation: a command runs on the context as it stands, and a commit may fall between any two.\<close>

inductive user_log :: "user_codecs \<Rightarrow> apply_ctx \<Rightarrow> user_command list \<Rightarrow> user_response list \<Rightarrow> apply_ctx \<Rightarrow> bool" for C where
  idle: "user_log C ctx [] [] ctx"
| command: "user_command_run C cmd ctx = Inr (r, c1) \<Longrightarrow> user_log C c1 cmds rs ctx' \<Longrightarrow> user_log C ctx (cmd # cmds) (r # rs) ctx'"
| commit: "user_log C (batch_ctx (committed ctx) (ctx_seq ctx)) cmds rs ctx' \<Longrightarrow> user_log C ctx cmds rs ctx'"

text \<open>What a commit needs of a context.\<close>

definition sane :: "apply_ctx \<Rightarrow> bool" where
  "sane ctx \<longleftrightarrow> bt_wf (ctx_engine ctx) \<and> ctx_shard ctx = USER_SHARD"

lemma sane_batch [simp]: "sane (batch_ctx db seq) \<longleftrightarrow> bt_wf db"
  by (simp add: sane_def batch_ctx_def)

lemma sane_command: "user_command_run C cmd ctx = Inr (r, ctx') \<Longrightarrow> sane ctx \<Longrightarrow> sane ctx'"
  using user_command_frame(3,4) by (auto simp: sane_def)

lemma sane_commit:
  assumes "sane ctx"
  shows "sane (batch_ctx (committed ctx) q)" "ctx_get (batch_ctx (committed ctx) q) t k = ctx_get ctx t k"
  using assms committed_batch[of ctx] by (auto simp: sane_def batch_ctx_def)

lemma user_log_append: "user_log C ctx cmds rs c1 \<Longrightarrow> user_log C c1 cmds' rs' ctx' \<Longrightarrow> user_log C ctx (cmds @ cmds') (rs @ rs') ctx'"
  by (induction rule: user_log.induct) (auto intro: user_log.intros)

lemma user_batch_log:
  "user_batch C cmds (rs, ctx) = Inr (rs', ctx') \<Longrightarrow> \<exists>new. rs' = rs @ new \<and> user_log C ctx cmds new ctx'"
proof (induction cmds arbitrary: rs ctx)
  case Nil
  then show ?case by (auto simp: user_batch_def intro: user_log.idle)
next
  case (Cons cmd cmds)
  from Cons.prems obtain r c1 where run: "user_command_run C cmd ctx = Inr (r, c1)" and "user_batch C cmds (rs @ [r], c1) = Inr (rs', ctx')"
    by (auto simp: user_batch_def)
  with Cons.IH obtain new where "rs' = rs @ r # new" "user_log C c1 cmds new ctx'" by fastforce
  then show ?case using user_log.command[OF run] by blast
qed

lemma user_replay_log:
  "user_replay C batches (rs, db, seq) = Inr (rs', db', seq') \<Longrightarrow>
     \<exists>new. rs' = rs @ new \<and> user_log C (batch_ctx db seq) (concat batches) new (batch_ctx db' seq')"
proof (induction batches arbitrary: rs db seq)
  case Nil
  then show ?case by (auto simp: user_replay_def intro: user_log.idle)
next
  case (Cons cmds batches)
  from Cons.prems obtain rs1 c1 where b: "user_batch C cmds (rs, batch_ctx db seq) = Inr (rs1, c1)"
    and "user_replay C batches (rs1, committed c1, ctx_seq c1) = Inr (rs', db', seq')"
    by (auto simp: user_replay_def)
  with Cons.IH obtain new where new: "rs' = rs1 @ new" "user_log C (batch_ctx (committed c1) (ctx_seq c1)) (concat batches) new (batch_ctx db' seq')"
    by blast
  from user_batch_log[OF b] obtain new1 where "rs1 = rs @ new1" "user_log C (batch_ctx db seq) cmds new1 c1" by blast
  with new user_log_append[OF _ user_log.commit[OF new(2)]] show ?case by auto
qed

lemma user_log_length: "user_log C ctx cmds rs ctx' \<Longrightarrow> length rs = length cmds"
  by (induction rule: user_log.induct) simp_all

text \<open>What holds after one command and is kept by the next ones still holds before a later command.\<close>

definition view_pred :: "(apply_ctx \<Rightarrow> bool) \<Rightarrow> bool" where
  "view_pred P \<longleftrightarrow> (\<forall>ctx ctx'. (\<forall>t k. ctx_get ctx' t k = ctx_get ctx t k) \<longrightarrow> P ctx \<longrightarrow> P ctx')"

lemma view_predD: "view_pred P \<Longrightarrow> sane ctx \<Longrightarrow> P ctx \<Longrightarrow> P (batch_ctx (committed ctx) q)"
  unfolding view_pred_def using sane_commit(2) by blast

lemma log_keep:
  assumes "user_log C ctx cmds rs ctx'" and "sane ctx" and "view_pred P" and "P ctx" and "j < length cmds"
    and "\<And>k ctx r ctx'. k < j \<Longrightarrow> user_command_run C (cmds ! k) ctx = Inr (r, ctx') \<Longrightarrow> P ctx \<Longrightarrow> P ctx'"
  shows "\<exists>c c'. P c \<and> user_command_run C (cmds ! j) c = Inr (rs ! j, c')"
  using assms(1,2,4,5,6)
proof (induction arbitrary: j rule: user_log.induct)
  case (command cmd ctx r c1 cmds rs ctx')
  show ?case
  proof (cases j)
    case (Suc i)
    have "P c1" using command.prems(4)[of 0 ctx r c1] command.hyps(1) command.prems(2) Suc by simp
    moreover have "P c'" if "k < i" "user_command_run C (cmds ! k) c = Inr (q, c')" "P c" for k c q c'
      using command.prems(4)[of "Suc k" c q c'] that Suc by simp
    ultimately show ?thesis
      using command.IH[of i] sane_command[OF command.hyps(1) command.prems(1)] command.prems(3) Suc by simp
  qed (use command in auto)
next
  case (commit ctx cmds rs ctx')
  show ?case
    by (rule commit.IH[OF sane_commit(1)[OF commit.prems(1)] view_predD[OF assms(3) commit.prems(1,2)] commit.prems(3)])
       (rule commit.prems(4))
qed simp

lemma log_stable:
  assumes "user_log C ctx cmds rs ctx'" and "sane ctx" and "i < j" and "j < length cmds"
    and "view_pred P" and "\<And>ctx ctx'. user_command_run C (cmds ! i) ctx = Inr (rs ! i, ctx') \<Longrightarrow> P ctx'"
    and "\<And>k ctx r ctx'. i < k \<Longrightarrow> k < j \<Longrightarrow> user_command_run C (cmds ! k) ctx = Inr (r, ctx') \<Longrightarrow> P ctx \<Longrightarrow> P ctx'"
  shows "\<exists>c c'. P c \<and> user_command_run C (cmds ! j) c = Inr (rs ! j, c')"
  using assms(1,2,3,4,6,7)
proof (induction arbitrary: i j rule: user_log.induct)
  case (command cmd ctx r c1 cmds rs ctx')
  from command.prems(2) obtain j' where j: "j = Suc j'" by (cases j) auto
  note sane = sane_command[OF command.hyps(1) command.prems(1)]
  have later: "P c'" if "i \<le> k" "k < j'" "user_command_run C (cmds ! k) c = Inr (q, c')" "P c" for k c q c'
    using command.prems(5)[of "Suc k" c q c'] that j by simp
  have len: "j' < length cmds" using command.prems(3) j by simp
  show ?case
  proof (cases i)
    case 0
    then have "P c1" using command.prems(4)[of ctx c1] command.hyps(1) by simp
    from log_keep[OF command.hyps(2) sane assms(5) this len] later show ?thesis using j 0 by simp
  next
    case (Suc i')
    have "\<exists>c c'. P c \<and> user_command_run C (cmds ! j') c = Inr (rs ! j', c')"
    proof (rule command.IH[OF sane _ len])
      show "i' < j'" using command.prems(2) j Suc by simp
      show "P c'" if "user_command_run C (cmds ! i') c = Inr (rs ! i', c')" for c c'
        using command.prems(4)[of c c'] that Suc by simp
      show "P c'" if "i' < k" "k < j'" "user_command_run C (cmds ! k) c = Inr (q, c')" "P c" for k c q c'
        using later[of k c q c'] that Suc by simp
    qed
    then show ?thesis using j by simp
  qed
next
  case (commit ctx cmds rs ctx')
  show ?case
    by (rule commit.IH[OF sane_commit(1)[OF commit.prems(1)] commit.prems(2,3)]) (rule commit.prems(4) commit.prems(5); assumption)+
qed simp

lemma replay_stable:
  assumes "user_replay C batches ([], db, seq) = Inr (rs, db', seq')" and "bt_wf db" and "i < j" and "j < length (concat batches)"
    and "view_pred P" and "\<And>ctx ctx'. user_command_run C (concat batches ! i) ctx = Inr (rs ! i, ctx') \<Longrightarrow> P ctx'"
    and "\<And>k ctx r ctx'. i < k \<Longrightarrow> k < j \<Longrightarrow> user_command_run C (concat batches ! k) ctx = Inr (r, ctx') \<Longrightarrow> P ctx \<Longrightarrow> P ctx'"
  shows "\<exists>ctx ctx'. P ctx \<and> user_command_run C (concat batches ! j) ctx = Inr (rs ! j, ctx')"
proof -
  have "user_log C (batch_ctx db seq) (concat batches) rs (batch_ctx db' seq')" using user_replay_log[OF assms(1)] by simp
  from log_stable[OF this _ assms(3-6)] assms(2,7) show ?thesis by simp
qed

section \<open>Names\<close>

fun registers :: "string \<Rightarrow> user_command \<Rightarrow> bool" where
  "registers u (Register u' _ _ _) = (u' = u)"
| "registers u (RegisterWithToken u' _ _ _ _) = (u' = u)"
| "registers u _ = False"

lemma register_taken:
  assumes "apply_register C u p ts session rt ctx = Inr (r, ctx')"
  shows "ctx_get ctx T_USERNAME u \<noteq> None \<Longrightarrow> r = UserExists \<and> ctx' = ctx"
    and "r = UserOk \<Longrightarrow> ctx_get ctx' T_USERNAME u \<noteq> None"
    and "ctx_get ctx T_USERNAME v \<noteq> None \<Longrightarrow> ctx_get ctx' T_USERNAME v \<noteq> None"
proof -
  note w = steps_in_frame(3)[OF confinedD[OF confined_write_session[of "{T_TOKEN, T_DEVICE}"]]]
  note t = steps_in_frame(3)[OF confinedD[OF confined_consume_reg_token[of "{T_REG_TOKEN}"]]]
  show "ctx_get ctx T_USERNAME u \<noteq> None \<Longrightarrow> r = UserExists \<and> ctx' = ctx"
    using assms unfolding apply_register_def by auto
  show "r = UserOk \<Longrightarrow> ctx_get ctx' T_USERNAME u \<noteq> None"
    using assms unfolding apply_register_def by (auto simp: w split: if_splits option.splits)
  show "ctx_get ctx T_USERNAME v \<noteq> None \<Longrightarrow> ctx_get ctx' T_USERNAME v \<noteq> None"
    using assms unfolding apply_register_def by (auto simp: w t split: if_splits option.splits)
qed

lemma names_stay:
  assumes "user_command_run C cmd ctx = Inr (r, ctx')" and "ctx_get ctx T_USERNAME v \<noteq> None"
  shows "ctx_get ctx' T_USERNAME v \<noteq> None"
proof (cases "T_USERNAME \<in> cmd_tables cmd")
  case True
  then show ?thesis using assms register_taken(3) by (cases cmd) (auto simp: user_command_run_def device_tables_def)
next
  case False
  then show ?thesis using assms(2) user_command_frame(1)[OF assms(1)] by simp
qed

lemma registered_name:
  assumes "user_command_run C cmd ctx = Inr (r, ctx')" and "registers u cmd"
  shows "ctx_get ctx T_USERNAME u \<noteq> None \<Longrightarrow> r = UserExists" and "r = UserOk \<Longrightarrow> ctx_get ctx' T_USERNAME u \<noteq> None"
  using assms register_taken(1,2) by (cases cmd; force simp: user_command_run_def)+

text \<open>
  C36: A name is handed out once in the life of a server: in any log, grouped into batches in any
  way, of all the registrations of one name at most one succeeds, and once a name is taken every later
  registration of it is refused, in the same batch or a later one, whatever has happened to the account in
  between.
\<close>

theorem names_unique:
  assumes "user_replay C batches ([], db, seq) = Inr (rs, db', seq')" and "bt_wf db"
    and "i < j" and "j < length (concat batches)" and "registers u (concat batches ! i)" and "registers u (concat batches ! j)"
    and "rs ! i = UserOk"
  shows "rs ! j = UserExists"
proof -
  have "\<exists>ctx ctx'. ctx_get ctx T_USERNAME u \<noteq> None \<and> user_command_run C (concat batches ! j) ctx = Inr (rs ! j, ctx')"
    by (rule replay_stable[OF assms(1-4), of "\<lambda>ctx. ctx_get ctx T_USERNAME u \<noteq> None"])
       (use registered_name(2)[OF _ assms(5)] assms(7) names_stay in \<open>auto simp: view_pred_def simp del: user_tables\<close>)
  then show ?thesis using registered_name(1)[OF _ assms(6)] by blast
qed

section \<open>Registration tokens\<close>

fun spends :: "string \<Rightarrow> user_command \<Rightarrow> bool" where
  "spends t (RegisterWithToken _ _ _ _ (Some t')) = (t' = t)"
| "spends t _ = False"

abbreviation reg_at :: "user_codecs \<Rightarrow> apply_ctx \<Rightarrow> string \<Rightarrow> reg_token option" where
  "reg_at C ctx t \<equiv> row (uc_reg_token C) ctx T_REG_TOKEN t"

context user_wire
begin

lemma register_token_effect:
  assumes run: "apply_register C u p ts session rt ctx = Inr (r, ctx')" and e: "reg_at C ctx t = Some e"
  shows "if rt = Some t \<and> r = UserOk
    then reg_token_usable e ts \<and> reg_at C ctx' t = Some (e\<lparr>rt_used := rt_used e + 1\<rparr>)
    else reg_at C ctx' t = Some e"
proof -
  note w = steps_in_row[OF confinedD[OF confined_write_session[of "{T_TOKEN, T_DEVICE}"]]]
  have consume: "c = ctx \<and> b = (rt = None) \<or> (\<exists>t' e'. rt = Some t' \<and> reg_at C ctx t' = Some e' \<and> reg_token_usable e' ts \<and> b \<and>
      c = ctx_put T_REG_TOKEN t' (enc (uc_reg_token C) (e'\<lparr>rt_used := rt_used e' + 1\<rparr>)) ctx)"
    if "consume_reg_token C rt ts ctx = Inr (b, c)" for b c
    using that unfolding consume_reg_token_def
    by (cases rt) (auto elim!: abind_typedE split: option.splits if_splits simp del: abind_eq user_tables)
  from run consider "ctx' = ctx" "r = UserExists"
    | b c where "consume_reg_token C rt ts ctx = Inr (b, c)" "\<not> b" "ctx' = c" "r = InvalidToken"
    | c a where "consume_reg_token C rt ts ctx = Inr (True, c)" "r = UserOk"
      "(case session of None \<Rightarrow> aret () | Some s \<Rightarrow> write_session C s)
         (ctx_put T_USERNAME u [byte 1] (ctx_put T_ACCOUNT u (enc (uc_account C) a) c)) = Inr ((), ctx')"
    unfolding apply_register_def by (auto split: if_splits simp del: user_tables)
  then show ?thesis
  proof cases
    case 1
    then show ?thesis using e by simp
  next
    case (2 b c)
    then show ?thesis using e consume[OF 2(1)] by auto
  next
    case (3 c a)
    have "reg_at C ctx' t = reg_at C c t" using 3(3) by (cases session) (auto simp: w)
    then show ?thesis using e consume[OF 3(1)] 3(2) by (auto split: if_splits)
  qed
qed

lemma token_step:
  assumes run: "user_command_run C cmd ctx = Inr (r, ctx')" and e: "reg_at C ctx t = Some e"
    and "cmd \<noteq> DeleteRegistrationToken t"
  shows "if spends t cmd \<and> r = UserOk
    then (\<exists>ts. reg_token_usable e ts) \<and> reg_at C ctx' t = Some (e\<lparr>rt_used := rt_used e + 1\<rparr>)
    else reg_at C ctx' t = Some e"
proof (cases "T_REG_TOKEN \<in> cmd_tables cmd")
  case False
  then have "\<not> spends t cmd" by (cases "(t, cmd)" rule: spends.cases) auto
  then show ?thesis using e by (simp add: user_command_frame(2)[OF run False] del: user_tables)
next
  case True
  then consider u p ts s where "cmd = Register u p ts s" | u p ts s rt where "cmd = RegisterWithToken u p ts s rt"
    | tk ua ex ts where "cmd = CreateRegistrationToken tk ua ex ts" | tk where "cmd = DeleteRegistrationToken tk"
    by (cases cmd) (auto simp: device_tables_def)
  then show ?thesis
  proof cases
    case 1
    then show ?thesis using run register_token_effect[OF _ e, of u p ts s None] by (simp add: user_command_run_def)
  next
    case 2
    have sp: "spends t cmd \<longleftrightarrow> rt = Some t" using 2 by (cases rt) auto
    show ?thesis unfolding sp using run 2 register_token_effect[OF _ e, of u p ts s rt r ctx'] by (auto simp: user_command_run_def split: if_splits)
  next
    case 3
    have "ctx_get ctx T_REG_TOKEN t \<noteq> None" using e by (auto simp: row_def bind_eq_Some_conv)
    then have "ctx' = ctx \<or> (tk \<noteq> t \<and> (\<exists>v. ctx' = ctx_put T_REG_TOKEN tk v ctx))"
      using run 3 by (auto simp: user_command_run_def create_registration_token_def split: if_splits)
    then have "ctx_get ctx' T_REG_TOKEN t = ctx_get ctx T_REG_TOKEN t" by auto
    then show ?thesis using e 3 by (simp add: row_def)
  next
    case 4
    then have "ctx' = ctx \<or> ctx' = ctx_delete T_REG_TOKEN tk ctx" "tk \<noteq> t"
      using run assms(3) by (auto simp: user_command_run_def delete_registration_token_def split: if_splits)
    then show ?thesis using e 4 by auto
  qed
qed

lemma reg_token_uses_from:
  assumes "user_log C ctx cmds rs ctx'" and "sane ctx"
    and "reg_at C ctx t = Some e" and "rt_uses_allowed e = Some n" and "rt_used e \<le> n"
    and "DeleteRegistrationToken t \<notin> set cmds"
  shows "unat (rt_used e) + length (filter (\<lambda>(cmd, r). spends t cmd \<and> r = UserOk) (zip cmds rs)) \<le> unat n"
  using assms
proof (induction arbitrary: e rule: user_log.induct)
  case (idle ctx)
  then show ?case by (simp add: word_le_nat_alt)
next
  case (command cmd ctx r c1 cmds rs ctx')
  note step = token_step[OF command.hyps(1) command.prems(2)] command.prems(5)
  note IH = command.IH[OF sane_command[OF command.hyps(1) command.prems(1)]]
  show ?case
  proof (cases "spends t cmd \<and> r = UserOk")
    case True
    then obtain ts where us: "reg_token_usable e ts" and a: "reg_at C c1 t = Some (e\<lparr>rt_used := rt_used e + 1\<rparr>)"
      using step by auto
    have lt: "rt_used e < n" using us command.prems(3) by (auto simp: reg_token_usable_def)
    then have "rt_used e \<noteq> - 1" by (metis word_not_simps(3))
    then have s1: "unat (rt_used e + 1) = Suc (unat (rt_used e))" by (rule unat_succ)
    have "rt_used e + 1 \<le> n" using lt s1 by (simp add: word_le_nat_alt word_less_nat_alt)
    then show ?thesis using IH[OF a] command.prems(3,5) True s1 by simp
  next
    case False
    then have a: "reg_at C c1 t = Some e" using step by auto
    show ?thesis using IH[OF a command.prems(3,4)] command.prems(5) False by auto
  qed
next
  case (commit ctx cmds rs ctx')
  have "reg_at C (batch_ctx (committed ctx) (ctx_seq ctx)) t = Some e"
    using commit.prems(2) by (simp add: row_def sane_commit(2)[OF commit.prems(1)])
  from commit.IH[OF sane_commit(1)[OF commit.prems(1)] this commit.prems(3-5)] show ?case .
qed

end

text \<open>
  C37: A registration token authorises no more registrations than it allows: in any log that does not delete
  the token, grouped into batches in any way, the successful registrations that spend it and the uses it had
  before never exceed the number allowed, however the registrations are interleaved, within a batch too.
\<close>

theorem reg_token_uses_bounded:
  assumes "user_wire C" and "user_replay C batches ([], db, seq) = Inr (rs, db', seq')" and "bt_wf db"
    and "row (uc_reg_token C) (batch_ctx db q) T_REG_TOKEN t = Some e" and "rt_uses_allowed e = Some n" and "rt_used e \<le> n"
    and "DeleteRegistrationToken t \<notin> set (concat batches)"
  shows "unat (rt_used e) + length (filter (\<lambda>(cmd, r). spends t cmd \<and> r = UserOk) (zip (concat batches) rs)) \<le> unat n"
proof -
  have "user_log C (batch_ctx db seq) (concat batches) rs (batch_ctx db' seq')" using user_replay_log[OF assms(2)] by simp
  from user_wire.reg_token_uses_from[OF assms(1) this _ _ assms(5,6,7)] assms(3,4) show ?thesis by (simp add: row_def batch_get)
qed

section \<open>Identity links\<close>

abbreviation ext_owner :: "user_codecs \<Rightarrow> apply_ctx \<Rightarrow> string \<Rightarrow> string \<Rightarrow> string option" where
  "ext_owner C ctx p x \<equiv> row (uc_string C) ctx T_EXTERNAL_ID (external_key p x)"

abbreviation ext_subject :: "user_codecs \<Rightarrow> apply_ctx \<Rightarrow> string \<Rightarrow> string \<Rightarrow> string option" where
  "ext_subject C ctx u p \<equiv> row (uc_string C) ctx T_EXTERNAL_ID_USER (user_key u p)"

definition linked :: "user_codecs \<Rightarrow> apply_ctx \<Rightarrow> bool" where
  "linked C ctx \<longleftrightarrow>
     (\<forall>p x u. no_nul p \<longrightarrow> ext_owner C ctx p x = Some u \<longrightarrow> no_nul u \<and> ext_subject C ctx u p = Some x) \<and>
     (\<forall>u p x. no_nul u \<longrightarrow> no_nul p \<longrightarrow> ext_subject C ctx u p = Some x \<longrightarrow> ext_owner C ctx p x = Some u)"

lemma linked_frame:
  assumes "\<And>p x. ext_owner C ctx' p x = ext_owner C ctx p x" and "\<And>u p. ext_subject C ctx' u p = ext_subject C ctx u p"
  shows "linked C ctx' = linked C ctx"
  unfolding linked_def assms ..

fun link_ok :: "apply_ctx \<Rightarrow> user_command \<Rightarrow> bool" where
  "link_ok ctx (LinkExternalId u p _) = (no_nul u \<and> no_nul p)"
| "link_ok ctx (UnlinkExternalId u p) = (no_nul u \<and> no_nul p)"
| "link_ok ctx _ = True"

lemma external_key_inject: "no_nul p \<Longrightarrow> no_nul p' \<Longrightarrow> external_key p x = external_key p' x' \<longleftrightarrow> p = p' \<and> x = x'"
  unfolding external_key_def by (rule user_key_inject)

context user_wire
begin

lemma link_run:
  assumes "link_external_id C u p x ctx = Inr (r, ctx')"
  shows "ctx' = ctx \<or> (ext_owner C ctx p x \<in> {None, Some u} \<and>
    (\<exists>c. (c = ctx \<or> (\<exists>prev. ext_subject C ctx u p = Some prev \<and> prev \<noteq> x \<and> c = ctx_delete T_EXTERNAL_ID (external_key p prev) ctx)) \<and>
      (\<forall>prev. ext_subject C ctx u p = Some prev \<longrightarrow> prev \<noteq> x \<longrightarrow> c = ctx_delete T_EXTERNAL_ID (external_key p prev) ctx) \<and>
      ctx' = ctx_put T_EXTERNAL_ID_USER (user_key u p) (enc (uc_string C) x) (ctx_put T_EXTERNAL_ID (external_key p x) (enc (uc_string C) u) c)))"
  using assms unfolding link_external_id_def Let_def
proof (cases rule: account_caseE)
  case (2 a)
  then show ?thesis
    by (auto elim!: abind_typedE split: if_splits option.splits simp del: abind_eq user_tables)
qed simp

lemma link_linked:
  assumes run: "link_external_id C u p x ctx = Inr (r, ctx')" and l: "linked C ctx" and nn: "no_nul u" "no_nul p"
  shows "linked C ctx'"
proof -
  from link_run[OF run] consider "ctx' = ctx" | c where "ext_owner C ctx p x \<in> {None, Some u}"
    "\<And>prev. ext_subject C ctx u p = Some prev \<Longrightarrow> prev \<noteq> x \<Longrightarrow> c = ctx_delete T_EXTERNAL_ID (external_key p prev) ctx"
    "c = ctx \<or> (\<exists>prev. ext_subject C ctx u p = Some prev \<and> prev \<noteq> x \<and> c = ctx_delete T_EXTERNAL_ID (external_key p prev) ctx)"
    "ctx' = ctx_put T_EXTERNAL_ID_USER (user_key u p) (enc (uc_string C) x) (ctx_put T_EXTERNAL_ID (external_key p x) (enc (uc_string C) u) c)"
    by blast
  then show ?thesis
  proof cases
    case (2 c)
    note fwd = l[unfolded linked_def, THEN conjunct1, rule_format] and rev = l[unfolded linked_def, THEN conjunct2, rule_format]
    have sub: "ext_subject C ctx' u' p' = (if u' = u \<and> p' = p then Some x else ext_subject C ctx u' p')" if "no_nul u'" "no_nul p'" for u' p'
      using 2(3,4) user_key_inject[OF that(1) nn(1)] by auto
    have own: "ext_owner C ctx' p' x' = (if p' = p \<and> x' = x then Some u
        else if p' = p \<and> ext_subject C ctx u p = Some x' then None else ext_owner C ctx p' x')" if "no_nul p'" for p' x'
      using 2(2-4) external_key_inject[OF that nn(2)] by auto
    show ?thesis unfolding linked_def
    proof (intro conjI allI impI; (elim conjE)?)
      fix p' x' u'
      assume a: "no_nul p'" "ext_owner C ctx' p' x' = Some u'"
      show nu: "no_nul u'" using a own[OF a(1)] fwd[OF a(1)] nn by (auto split: if_splits)
      show "ext_subject C ctx' u' p' = Some x'"
        using a own[OF a(1), of x'] fwd[OF a(1), of x' u'] sub[OF nu a(1)] by (auto split: if_splits)
    next
      fix u' p' x'
      assume a: "no_nul u'" "no_nul p'" "ext_subject C ctx' u' p' = Some x'"
      show "ext_owner C ctx' p' x' = Some u'"
      proof (cases "u' = u \<and> p' = p")
        case True
        then show ?thesis using a(3) sub[OF a(1,2)] own[OF a(2), of x'] by (simp del: user_tables)
      next
        case False
        then have o: "ext_owner C ctx p' x' = Some u'" using a(3) sub[OF a(1,2)] rev[OF a(1,2)] by (auto split: if_splits simp del: user_tables)
        then have "\<not> (p' = p \<and> x' = x)" using 2(1) False by auto
        moreover have "\<not> (p' = p \<and> ext_subject C ctx u p = Some x')" using rev[OF nn] o False by auto
        ultimately show ?thesis using own[OF a(2), of x'] o by auto
      qed
    qed
  qed (use l in simp)
qed

lemma unlink_linked:
  assumes run: "unlink_external_id C u p ctx = Inr (r, ctx')" and l: "linked C ctx" and nn: "no_nul u" "no_nul p"
  shows "linked C ctx'"
  using run unfolding unlink_external_id_def Let_def
proof (rule abind_typedE)
  assume run: "(case ext_subject C ctx u p of None \<Rightarrow> aret UserNotFound | Some external_id \<Rightarrow>
          aseq (adelete T_EXTERNAL_ID (external_key p external_id)) (aseq (adelete T_EXTERNAL_ID_USER (user_key u p)) (aret UserOk))) ctx
        = Inr (r, ctx')"
  show ?thesis
  proof (cases "ext_subject C ctx u p")
    case (Some x)
    then have c: "ctx' = ctx_delete T_EXTERNAL_ID_USER (user_key u p) (ctx_delete T_EXTERNAL_ID (external_key p x) ctx)"
      using run by simp
    note fwd = l[unfolded linked_def, THEN conjunct1, rule_format] and rev = l[unfolded linked_def, THEN conjunct2, rule_format]
    have sub: "ext_subject C ctx' u' p' = (if u' = u \<and> p' = p then None else ext_subject C ctx u' p')" if "no_nul u'" "no_nul p'" for u' p'
      using c user_key_inject[OF that(1) nn(1)] by auto
    have own: "ext_owner C ctx' p' x' = (if p' = p \<and> x' = x then None else ext_owner C ctx p' x')" if "no_nul p'" for p' x'
      using c external_key_inject[OF that nn(2)] by auto
    show ?thesis unfolding linked_def
    proof (intro conjI allI impI; (elim conjE)?)
      fix p' x' u'
      assume a: "no_nul p'" "ext_owner C ctx' p' x' = Some u'"
      show nu: "no_nul u'" using a own[OF a(1)] fwd[OF a(1)] by (auto split: if_splits)
      show "ext_subject C ctx' u' p' = Some x'"
        using a own[OF a(1), of x'] fwd[OF a(1), of x' u'] sub[OF nu a(1)] Some by (auto split: if_splits)
    next
      fix u' p' x'
      assume a: "no_nul u'" "no_nul p'" "ext_subject C ctx' u' p' = Some x'"
      then have b: "\<not> (u' = u \<and> p' = p)" "ext_subject C ctx u' p' = Some x'"
        using sub[OF a(1,2)] by (auto split: if_splits simp del: user_tables)
      then have o: "ext_owner C ctx p' x' = Some u'" using rev[OF a(1,2)] by blast
      then have "\<not> (p' = p \<and> x' = x)" using rev[OF nn Some] b(1) by auto
      then show "ext_owner C ctx' p' x' = Some u'" using own[OF a(2), of x'] o by (simp del: user_tables)
    qed
  qed (use run l in simp)
qed

lemma command_linked:
  assumes run: "user_command_run C cmd ctx = Inr (r, ctx')" and l: "linked C ctx" and ok: "link_ok ctx cmd"
  shows "linked C ctx'"
proof (cases "cmd_tables cmd \<inter> {T_EXTERNAL_ID, T_EXTERNAL_ID_USER} = {}")
  case True
  then have "T_EXTERNAL_ID \<notin> cmd_tables cmd" "T_EXTERNAL_ID_USER \<notin> cmd_tables cmd" by auto
  then have "linked C ctx' = linked C ctx" by (intro linked_frame user_command_frame(2)[OF run])
  then show ?thesis using l by simp
next
  case False
  then consider u p x where "cmd = LinkExternalId u p x" | u p where "cmd = UnlinkExternalId u p"
    by (cases cmd) (auto simp: device_tables_def)
  then show ?thesis using link_linked unlink_linked run l ok by cases (auto simp: user_command_run_def)
qed

end

text \<open>
  The two indexes of the identity links never drift: in every history, a subject at a provider is owned
  by a user exactly if that user's link to the provider is the subject. So a subject belongs to at most
  one account, an account has at most one subject per provider, and relinking frees the old subject.
\<close>

theorem links_agree:
  assumes "user_wire C" and "user_history C link_ok db seq" and "no_nul u" and "no_nul p"
  shows "row (uc_string C) (batch_ctx db q) T_EXTERNAL_ID (external_key p x) = Some u \<longleftrightarrow>
    row (uc_string C) (batch_ctx db q) T_EXTERNAL_ID_USER (user_key u p) = Some x"
proof -
  have "linked C (batch_ctx db q) \<and> bt_wf db" using assms(2)
  proof (rule history_invariant)
    show "linked C (batch_ctx [] q)" for q by (simp add: linked_def row_def batch_get kv_get_def)
    show "linked C ctx'" if "\<And>t k. ctx_get ctx' t k = ctx_get ctx t k" "linked C ctx" for ctx ctx'
      using that(2) linked_frame[of C ctx' ctx] by (simp add: row_def that(1))
  qed (rule user_wire.command_linked[OF assms(1)])
  then show ?thesis using assms(3,4) unfolding linked_def by blast
qed

section \<open>Login tokens\<close>

text \<open>
  Redeeming a login token: in every case the token is gone afterwards, and the redemption vouches for
  its user exactly if the token was on file, had not expired and the account may authenticate now.
\<close>

theorem consume_login_token_exact:
  assumes "consume_login_token C h now ctx = Inr (r, ctx')"
  shows "ctx_get ctx' T_LOGIN_TOKEN k = (if k = h then None else ctx_get ctx T_LOGIN_TOKEN k) \<and>
    r = (case row (uc_login_token C) ctx T_LOGIN_TOKEN h of
           None \<Rightarrow> InvalidGrant
         | Some e \<Rightarrow> if now < lt_expires_ts e \<and>
               (\<exists>a. row (uc_account C) ctx T_ACCOUNT (lt_user_id e) = Some a \<and> acc_state a = Active)
             then LoginTokenOwner (lt_user_id e) else InvalidGrant)"
proof (cases "ctx_get ctx T_LOGIN_TOKEN h")
  case None
  then show ?thesis using assms by (auto simp: consume_login_token_def row_def)
next
  case (Some raw)
  let ?c = "ctx_delete T_LOGIN_TOKEN h ctx"
  from assms Some obtain e where e: "dec (uc_login_token C) raw = Some e"
    and run: "(if lt_expires_ts e \<le> now then aret InvalidGrant
         else abind (aget_typed ''account decode'' (uc_account C) T_ACCOUNT (lt_user_id e)) (\<lambda>account.
           if (case account of None \<Rightarrow> False | Some a \<Rightarrow> can_authenticate (acc_state a))
           then aret (LoginTokenOwner (lt_user_id e)) else aret InvalidGrant)) ?c = Inr (r, ctx')"
    by (auto simp: consume_login_token_def decode_r_def simp del: user_tables)
  have row: "row (uc_login_token C) ctx T_LOGIN_TOKEN h = Some e" using Some e by (simp add: row_def)
  have can: "can_authenticate s \<longleftrightarrow> s = Active" for s by (cases s) simp_all
  show ?thesis unfolding row using run
    by (auto simp: can row_delete linorder_not_le elim!: abind_typedE split: if_splits option.splits simp del: abind_eq)
qed

text \<open>
  A login token is spent once: in any log, grouped into batches in any way, after it has been redeemed every further redemption of it is
  refused unless a new one was created under the same hash.
\<close>

theorem login_token_once:
  assumes "user_replay C batches ([], db, seq) = Inr (rs, db', seq')" and "bt_wf db" and "i < j" and "j < length (concat batches)"
    and "concat batches ! i = ConsumeLoginToken h now" and "concat batches ! j = ConsumeLoginToken h now'"
    and "\<And>k u x n. i < k \<Longrightarrow> k < j \<Longrightarrow> concat batches ! k \<noteq> CreateLoginToken h u x n"
  shows "rs ! j = InvalidGrant"
proof -
  have stale_loop: "afor (adelete T_LOGIN_TOKEN) ks ctx = Inr (v, c) \<Longrightarrow> ctx_get ctx T_LOGIN_TOKEN h = None \<Longrightarrow> ctx_get c T_LOGIN_TOKEN h = None" for ks ctx v c
    by (erule afor_invariant) auto
  have stay: "ctx_get ctx' T_LOGIN_TOKEN h = None"
    if ij: "i < k" "k < j" and run: "user_command_run C (concat batches ! k) ctx = Inr (r, ctx')" and none: "ctx_get ctx T_LOGIN_TOKEN h = None" for k ctx r ctx'
  proof (cases "T_LOGIN_TOKEN \<in> cmd_tables (concat batches ! k)")
    case False
    then show ?thesis using user_command_frame(1)[OF run] none by simp
  next
    case True
    then consider h' u x n where "concat batches ! k = CreateLoginToken h' u x n" "h' \<noteq> h" | h' n where "concat batches ! k = ConsumeLoginToken h' n"
      using assms(7)[OF ij] by (cases "concat batches ! k") (auto simp: device_tables_def)
    then show ?thesis
    proof cases
      case 1
      then show ?thesis using run none unfolding create_login_token_def user_command_run_def
        by (auto dest!: stale_loop split: option.splits if_splits simp del: user_tables)
    next
      case 2
      then show ?thesis using run none consume_login_token_exact[of C h' n ctx r ctx' h] by (simp add: user_command_run_def)
    qed
  qed
  have "\<exists>ctx ctx'. ctx_get ctx T_LOGIN_TOKEN h = None \<and> user_command_run C (concat batches ! j) ctx = Inr (rs ! j, ctx')"
  proof (rule replay_stable[OF assms(1-4), of "\<lambda>ctx. ctx_get ctx T_LOGIN_TOKEN h = None"])
    show "ctx_get ctx' T_LOGIN_TOKEN h = None" if "user_command_run C (concat batches ! i) ctx = Inr (rs ! i, ctx')" for ctx ctx'
      using consume_login_token_exact[of C h now ctx "rs ! i" ctx' h] that assms(5) by (simp add: user_command_run_def)
  qed (use stay in \<open>auto simp: view_pred_def simp del: user_tables\<close>)
  then show ?thesis using consume_login_token_exact assms(6) by (fastforce simp: user_command_run_def row_def)
qed

end
