(* ===== verification/User_Claims.thy ===== *)
theory User_Claims
  imports User_Names
begin

text \<open>
  One-time keys and their claims, the to-device inbox, and the projection of memberships.
\<close>

section \<open>Claims of one-time keys\<close>

lemma min_by_key_Some:
  "min_by_key f xs = Some x \<Longrightarrow> x \<in> set xs \<and> (\<forall>y \<in> set xs. f x \<le> f y)"
proof (induction xs arbitrary: x)
  case (Cons a xs)
  show ?case
  proof (cases "min_by_key f xs")
    case None
    then have "xs = []" by (cases xs) (auto split: option.splits if_split_asm)
    then show ?thesis using Cons.prems by simp
  next
    case (Some y)
    then show ?thesis using Cons.IH[OF Some] Cons.prems by (fastforce split: if_splits)
  qed
qed simp

lemma min_by_key_None: "min_by_key f xs = None \<longleftrightarrow> xs = []"
  by (cases xs) (auto split: option.splits)

abbreviation otk_at :: "user_codecs \<Rightarrow> apply_ctx \<Rightarrow> string \<Rightarrow> string \<Rightarrow> string \<Rightarrow> otk_entry option" where
  "otk_at C ctx u d key_id \<equiv> row (uc_otk C) ctx T_ONE_TIME_KEY (device_scoped_key u d key_id)"

text \<open>The one-time keys a claim may take: those of the device whose identifier names the algorithm.\<close>

definition claimable :: "user_codecs \<Rightarrow> apply_ctx \<Rightarrow> claim_request \<Rightarrow> string \<Rightarrow> otk_entry \<Rightarrow> bool" where
  "claimable C ctx req key_id e \<longleftrightarrow>
     otk_at C ctx (cr_user_id req) (cr_device_id req) key_id = Some e \<and> starts_with key_id (cr_algorithm req @ '':'')"

definition key_ids_valid :: "apply_ctx \<Rightarrow> string \<Rightarrow> string \<Rightarrow> bool" where
  "key_ids_valid ctx u d \<longleftrightarrow>
     (\<forall>key_id. ctx_get ctx T_ONE_TIME_KEY (device_scoped_key u d key_id) \<noteq> None \<longrightarrow> valid_utf8 key_id)"

lemma device_scoped: "device_scoped_key u d x = user_key u d @ byte 0 # x"
  by (simp add: device_scoped_key_def user_key_def)

lemma scoped_range:
  assumes "settled t ctx"
  shows "(k, v) \<in> set (ctx_range ctx t (user_key u d @ [byte 0]) (prefix_end (user_key u d @ [byte 0]))) \<longleftrightarrow>
    ctx_get ctx t k = Some v \<and> (\<exists>x. k = device_scoped_key u d x)"
  unfolding prefix_end_nul device_scoped by (rule settled_range_nul[OF assms])

lemma otk_candidates_mem:
  assumes "settled T_ONE_TIME_KEY ctx" and "key_ids_valid ctx (cr_user_id req) (cr_device_id req)"
  defines "scope \<equiv> user_key (cr_user_id req) (cr_device_id req) @ [byte 0]"
  shows "(o1, k, key_id, json) \<in> set (otk_candidates C scope (cr_algorithm req) (ctx_range ctx T_ONE_TIME_KEY scope (prefix_end scope))) \<longleftrightarrow>
    k = device_scoped_key (cr_user_id req) (cr_device_id req) key_id \<and>
    (\<exists>e. claimable C ctx req key_id e \<and> otk_order e = o1 \<and> otk_json e = json)"
proof -
  let ?rows = "ctx_range ctx T_ONE_TIME_KEY scope (prefix_end scope)"
  let ?u = "cr_user_id req" and ?d = "cr_device_id req"
  have "(o1, k, key_id, json) \<in> set (otk_candidates C scope (cr_algorithm req) ?rows) \<longleftrightarrow>
    (\<exists>v x e. (k, v) \<in> set ?rows \<and> k = scope @ x \<and> from_utf8_lossy x = key_id \<and> starts_with key_id (cr_algorithm req @ '':'') \<and>
       dec (uc_otk C) v = Some e \<and> otk_order e = o1 \<and> otk_json e = json)"
    unfolding otk_candidates_def mem_map_filter Bex_def split_paired_Ex
    by (simp add: bind_eq_Some_conv strip_prefix_eq split: if_splits del: user_tables) blast
  also have "\<dots> \<longleftrightarrow> (\<exists>v x e. ctx_get ctx T_ONE_TIME_KEY k = Some v \<and> k = device_scoped_key ?u ?d x \<and> x = key_id \<and>
      starts_with key_id (cr_algorithm req @ '':'') \<and> dec (uc_otk C) v = Some e \<and> otk_order e = o1 \<and> otk_json e = json)"
  proof -
    have *: "scope @ x = device_scoped_key ?u ?d x" for x by (simp add: scope_def device_scoped)
    have "from_utf8_lossy x = x" if "ctx_get ctx T_ONE_TIME_KEY (device_scoped_key ?u ?d x) = Some v" for x v
      using assms(2) that by (auto simp: key_ids_valid_def simp del: user_tables)
    then have "(ctx_get ctx T_ONE_TIME_KEY k = Some v \<and> (\<exists>x. k = device_scoped_key ?u ?d x)) \<and> k = scope @ x \<and> from_utf8_lossy x = key_id \<and> R \<longleftrightarrow>
        ctx_get ctx T_ONE_TIME_KEY k = Some v \<and> k = device_scoped_key ?u ?d x \<and> x = key_id \<and> R" for v x R
      unfolding * by (auto simp del: user_tables)
    then show ?thesis unfolding scoped_range[OF assms(1), of _ _ ?u ?d, folded scope_def] by presburger
  qed
  also have "\<dots> \<longleftrightarrow> k = device_scoped_key ?u ?d key_id \<and> (\<exists>e. claimable C ctx req key_id e \<and> otk_order e = o1 \<and> otk_json e = json)"
    unfolding claimable_def row_def bind_eq_Some_conv by blast
  finally show ?thesis .
qed

text \<open>The claimed key as the response reports it.\<close>

definition handed :: "claim_request \<Rightarrow> string \<Rightarrow> bytes \<Rightarrow> claimed_key" where
  "handed req key_id json = \<lparr>ck_user_id = cr_user_id req, ck_device_id = cr_device_id req, ck_key_id = key_id, ck_key_json = json\<rparr>"

lemma claim_key_hit:
  assumes "settled T_ONE_TIME_KEY ctx" and "key_ids_valid ctx (cr_user_id req) (cr_device_id req)"
    and "claimable C ctx req k0 e0"
  shows "\<exists>key_id e. claimable C ctx req key_id e \<and> (\<forall>k' e'. claimable C ctx req k' e' \<longrightarrow> otk_order e \<le> otk_order e') \<and>
    (\<forall>c claimed. ctx_engine c = ctx_engine ctx \<longrightarrow> ctx_shard c = ctx_shard ctx \<longrightarrow> claim_key C req claimed c =
      Inr (claimed @ [handed req key_id (otk_json e)], ctx_delete T_ONE_TIME_KEY (device_scoped_key (cr_user_id req) (cr_device_id req) key_id) c))"
proof -
  let ?scope = "user_key (cr_user_id req) (cr_device_id req) @ [byte 0]"
  let ?cands = "otk_candidates C ?scope (cr_algorithm req) (ctx_range ctx T_ONE_TIME_KEY ?scope (prefix_end ?scope))"
  note mem = otk_candidates_mem[OF assms(1,2), where C = C]
  have "(otk_order e0, device_scoped_key (cr_user_id req) (cr_device_id req) k0, k0, otk_json e0) \<in> set ?cands"
    unfolding mem using assms(3) by blast
  then obtain o1 k key_id json where m: "min_by_key fst ?cands = Some (o1, k, key_id, json)"
    using min_by_key_None[of fst ?cands] by (cases "min_by_key fst ?cands") auto
  note least = min_by_key_Some[OF m]
  from least[THEN conjunct1, unfolded mem] obtain e where e: "k = device_scoped_key (cr_user_id req) (cr_device_id req) key_id"
    "claimable C ctx req key_id e" "otk_order e = o1" "otk_json e = json" by blast
  have "otk_order e \<le> otk_order e'" if "claimable C ctx req k' e'" for k' e'
  proof -
    have "(otk_order e', device_scoped_key (cr_user_id req) (cr_device_id req) k', k', otk_json e') \<in> set ?cands"
      unfolding mem using that by blast
    then show ?thesis using least e(3) by fastforce
  qed
  moreover have "claim_key C req claimed c = Inr (claimed @ [handed req key_id (otk_json e)],
      ctx_delete T_ONE_TIME_KEY (device_scoped_key (cr_user_id req) (cr_device_id req) key_id) c)"
    if "ctx_engine c = ctx_engine ctx" "ctx_shard c = ctx_shard ctx" for c claimed
  proof -
    have "ctx_range c T_ONE_TIME_KEY ?scope (prefix_end ?scope) = ctx_range ctx T_ONE_TIME_KEY ?scope (prefix_end ?scope)"
      by (simp add: ctx_range_def that)
    then show ?thesis unfolding claim_key_def Let_def
      using m e by (simp add: abind_def arange_def aseq_def adelete_def aret_def handed_def del: user_tables)
  qed
  ultimately show ?thesis using e(2) by blast
qed

text \<open>
  A claim takes the oldest one-time key of the device for the algorithm, hands out exactly that key and
  deletes it; no other one-time key is touched.
\<close>

theorem claim_takes_oldest:
  assumes "settled T_ONE_TIME_KEY ctx" and "key_ids_valid ctx (cr_user_id req) (cr_device_id req)"
    and "claimable C ctx req k0 e0"
  shows "\<exists>key_id e ctx'. user_command_run C (ClaimKeys [req]) ctx = Inr (ClaimedKeys [handed req key_id (otk_json e)], ctx') \<and>
    claimable C ctx req key_id e \<and> (\<forall>k' e'. claimable C ctx req k' e' \<longrightarrow> otk_order e \<le> otk_order e') \<and>
    (\<forall>k. ctx_get ctx' T_ONE_TIME_KEY k =
       (if k = device_scoped_key (cr_user_id req) (cr_device_id req) key_id then None else ctx_get ctx T_ONE_TIME_KEY k))"
proof -
  obtain key_id e where h: "claimable C ctx req key_id e" "\<forall>k' e'. claimable C ctx req k' e' \<longrightarrow> otk_order e \<le> otk_order e'"
    "claim_key C req [] ctx = Inr ([handed req key_id (otk_json e)], ctx_delete T_ONE_TIME_KEY (device_scoped_key (cr_user_id req) (cr_device_id req) key_id) ctx)"
    using claim_key_hit[OF assms] by (metis append_Nil)
  then have "user_command_run C (ClaimKeys [req]) ctx = Inr (ClaimedKeys [handed req key_id (otk_json e)],
      ctx_delete T_ONE_TIME_KEY (device_scoped_key (cr_user_id req) (cr_device_id req) key_id) ctx)"
    by (simp add: user_command_run_def claim_keys_def abind_def aret_def del: user_tables)
  then show ?thesis using h(1,2) by (intro exI conjI) (assumption | simp)+
qed

text \<open>
  C38: Within one batch the ranges do not see the deletions of earlier claims: of two claims for the same
  device and algorithm that are applied in one batch, both are handed the same one-time key.
\<close>

theorem claims_in_one_batch_repeat:
  assumes "settled T_ONE_TIME_KEY ctx" and "key_ids_valid ctx (cr_user_id req) (cr_device_id req)"
    and "claimable C ctx req k0 e0"
  shows "\<exists>key c1 c2. user_command_run C (ClaimKeys [req]) ctx = Inr (ClaimedKeys [key], c1) \<and>
    user_command_run C (ClaimKeys [req]) c1 = Inr (ClaimedKeys [key], c2)"
proof -
  obtain key_id and e :: otk_entry where h: "\<forall>c claimed. ctx_engine c = ctx_engine ctx \<longrightarrow> ctx_shard c = ctx_shard ctx \<longrightarrow> claim_key C req claimed c =
      Inr (claimed @ [handed req key_id (otk_json e)], ctx_delete T_ONE_TIME_KEY (device_scoped_key (cr_user_id req) (cr_device_id req) key_id) c)"
    using claim_key_hit[OF assms] by blast
  let ?d = "ctx_delete T_ONE_TIME_KEY (device_scoped_key (cr_user_id req) (cr_device_id req) key_id)"
  have "user_command_run C (ClaimKeys [req]) c = Inr (ClaimedKeys [handed req key_id (otk_json e)], ?d c)"
    if "ctx_engine c = ctx_engine ctx" "ctx_shard c = ctx_shard ctx" for c
    using h that by (simp add: user_command_run_def claim_keys_def abind_def aret_def del: user_tables)
  from this[of ctx] this[of "?d ctx"] show ?thesis by auto
qed

section \<open>The to-device inbox\<close>

lemma to_device_order:
  "to_device_key u d v < to_device_key u d w \<longleftrightarrow> v < w" "to_device_key u d v = to_device_key u d w \<longleftrightarrow> v = w"
  by (simp_all add: to_device_key_def)

text \<open>
  Acknowledging the to-device messages of a device up to a sequence number deletes exactly the messages
  of that device with numbers up to and including it.
\<close>

theorem ack_to_device_exact:
  assumes "user_command_run C (AckToDevice u d up_to) ctx = Inr (r, ctx')" and "settled T_TO_DEVICE ctx"
    and "up_to \<noteq> - 1" and "no_nul u" and "no_nul d" and "no_nul u'" and "no_nul d'"
  shows "r = UserOk \<and> ctx_get ctx' T_TO_DEVICE (to_device_key u' d' seq) =
    (if u' = u \<and> d' = d \<and> seq \<le> up_to then None else ctx_get ctx T_TO_DEVICE (to_device_key u' d' seq))"
proof -
  let ?p = "device_scoped_key u d []" and ?k = "to_device_key u' d' seq"
  let ?rows = "ctx_range ctx T_TO_DEVICE ?p (?p @ u64_be (saturating_add up_to 1))"
  have run: "r = UserOk" "ctx' = fold (\<lambda>(k, _). ctx_delete T_TO_DEVICE k) ?rows ctx"
    using assms(1) by (auto simp: user_command_run_def ack_to_device_def Let_def simp del: user_tables)
  have sat: "saturating_add up_to 1 = up_to + 1" using word_succ_least[OF assms(3), of up_to] by (simp add: saturating_add_def) (meson less_asym)
  have "?p \<le> ?k \<and> ?k < ?p @ u64_be (up_to + 1) \<longleftrightarrow> u' = u \<and> d' = d \<and> seq \<le> up_to"
  proof -
    have "?p \<le> ?k \<and> ?k < ?p @ u64_be (up_to + 1) \<longleftrightarrow> (\<exists>x. ?k = user_key u d @ byte 0 # x \<and> x < u64_be (up_to + 1))"
      using nul_prefix_range[of "user_key u d" ?k "u64_be (up_to + 1)"] by (simp add: device_scoped)
    also have "\<dots> \<longleftrightarrow> (\<exists>x. u' = u \<and> d' = d \<and> x = u64_be seq \<and> x < u64_be (up_to + 1))"
      using nul_key_inject[OF assms(6,4)] nul_key_inject[OF assms(7,5)]
      by (auto simp: to_device_key_def device_scoped_key_def user_key_def)
    finally show ?thesis using word_succ_least[OF assms(3), of seq] by auto
  qed
  then have "?k \<in> fst ` set ?rows \<longleftrightarrow> ctx_get ctx T_TO_DEVICE ?k \<noteq> None \<and> u' = u \<and> d' = d \<and> seq \<le> up_to"
    unfolding settled_range_keys[OF assms(2)] sat by (auto simp: device_scoped_key_def simp del: user_tables)
  then show ?thesis unfolding run(1) unfolding run(2) fold_delete_get by auto
qed

section \<open>The projection of memberships\<close>

abbreviation member_at :: "user_codecs \<Rightarrow> apply_ctx \<Rightarrow> string \<Rightarrow> string \<Rightarrow> membership_entry option" where
  "member_at C ctx u room \<equiv> row (uc_membership C) ctx T_MEMBERSHIP (user_key u room)"

definition from_change :: "membership_change \<Rightarrow> membership_entry \<Rightarrow> bool" where
  "from_change c m \<longleftrightarrow> mem_membership m = mc_membership c \<and> mem_event_id m = mc_event_id c \<and> mem_sender m = mc_sender c \<and>
     mem_room_seq m = mc_room_seq c \<and> \<not> mem_forgotten m"

text \<open>
  What a batch of changes makes of one row: the row stays if no change of its key is newer than it, and
  otherwise becomes that of a newest change.
\<close>

definition projected :: "membership_change list \<Rightarrow> membership_entry option \<Rightarrow> membership_entry option \<Rightarrow> bool" where
  "projected cs old new \<longleftrightarrow>
     (new = old \<and> (\<forall>c \<in> set cs. \<exists>m. old = Some m \<and> mc_room_seq c \<le> mem_room_seq m)) \<or>
     (\<exists>c \<in> set cs. (\<exists>m. new = Some m \<and> from_change c m) \<and> (\<forall>m. old = Some m \<longrightarrow> mem_room_seq m < mc_room_seq c) \<and>
        (\<forall>c' \<in> set cs. mc_room_seq c' \<le> mc_room_seq c))"

lemma projected_Cons:
  assumes "projected cs mid new"
    and "(mid = old \<and> (\<exists>m. old = Some m \<and> mc_room_seq c \<le> mem_room_seq m)) \<or>
      (\<exists>m. mid = Some m \<and> from_change c m \<and> (\<forall>m. old = Some m \<longrightarrow> mem_room_seq m < mc_room_seq c))"
  shows "projected (c # cs) old new"
  using assms(2)
proof
  assume m: "mid = old \<and> (\<exists>m. old = Some m \<and> mc_room_seq c \<le> mem_room_seq m)"
  then show ?thesis using assms(1) unfolding projected_def by (auto intro: order.trans less_imp_le)
next
  assume "\<exists>m. mid = Some m \<and> from_change c m \<and> (\<forall>m. old = Some m \<longrightarrow> mem_room_seq m < mc_room_seq c)"
  then obtain m where m: "mid = Some m" "from_change c m" "mem_room_seq m = mc_room_seq c" "\<And>m. old = Some m \<Longrightarrow> mem_room_seq m < mc_room_seq c"
    by (auto simp: from_change_def)
  from assms(1)[unfolded projected_def] show ?thesis
  proof
    assume "new = mid \<and> (\<forall>c \<in> set cs. \<exists>m. mid = Some m \<and> mc_room_seq c \<le> mem_room_seq m)"
    then show ?thesis unfolding projected_def using m by auto
  next
    assume "\<exists>c \<in> set cs. (\<exists>m. new = Some m \<and> from_change c m) \<and> (\<forall>m. mid = Some m \<longrightarrow> mem_room_seq m < mc_room_seq c) \<and>
        (\<forall>c' \<in> set cs. mc_room_seq c' \<le> mc_room_seq c)"
    then obtain d m' where d: "d \<in> set cs" "new = Some m'" "from_change d m'" "mc_room_seq c < mc_room_seq d"
      "\<forall>c' \<in> set cs. mc_room_seq c' \<le> mc_room_seq d" using m(1,3) by auto
    have "mem_room_seq m0 < mc_room_seq d" if "old = Some m0" for m0 using m(4)[OF that] d(4) by (rule less_trans)
    moreover have "\<forall>c' \<in> set (c # cs). mc_room_seq c' \<le> mc_room_seq d" using d(4,5) by (simp add: less_imp_le)
    ultimately show ?thesis unfolding projected_def using d(1-3) by (intro disjI2 bexI[of _ d]) simp_all
  qed
qed

definition concerns :: "string \<Rightarrow> string \<Rightarrow> membership_change \<Rightarrow> bool" where
  "concerns u room c \<longleftrightarrow> mc_user_id c = u \<and> mc_room_id c = room"

context user_wire
begin

lemma room_change_effect:
  assumes "apply_room_change C c ctx = Inr (r, ctx')" and "no_nul (mc_user_id c)" and "no_nul u"
  shows "if concerns u room c then (member_at C ctx' u room = member_at C ctx u room \<and>
      (\<exists>m. member_at C ctx u room = Some m \<and> mc_room_seq c \<le> mem_room_seq m)) \<or>
      (\<exists>m. member_at C ctx' u room = Some m \<and> from_change c m \<and> (\<forall>m. member_at C ctx u room = Some m \<longrightarrow> mem_room_seq m < mc_room_seq c))
    else member_at C ctx' u room = member_at C ctx u room"
  using assms(1) unfolding apply_room_change_def Let_def
proof (rule abind_typedE)
  let ?k = "user_key (mc_user_id c) (mc_room_id c)"
  let ?old = "row (uc_membership C) ctx T_MEMBERSHIP ?k"
  assume run: "(if (case ?old of None \<Rightarrow> False | Some e \<Rightarrow> mc_room_seq c \<le> mem_room_seq e) then aret ()
      else abind (emit_user_change C (mc_user_id c)) (\<lambda>seq.
        aseq (if (case ?old of None \<Rightarrow> False | Some e \<Rightarrow> mem_membership e = ''join'') \<noteq> (mc_membership c = ''join'')
              then put_key_change C seq (mc_user_id c) (Some (mc_room_id c, mc_membership c = ''join'')) else aret ())
        (aput T_MEMBERSHIP ?k (enc (uc_membership C)
           \<lparr>mem_membership = mc_membership c, mem_event_id = mc_event_id c, mem_sender = mc_sender c,
            mem_room_seq = mc_room_seq c, mem_seq = seq, mem_forgotten = False\<rparr>)))) ctx = Inr (r, ctx')"
  have key: "concerns u room c \<longleftrightarrow> user_key u room = ?k" using user_key_inject[OF assms(3,2)] by (auto simp: concerns_def)
  show ?thesis
  proof (cases "case ?old of None \<Rightarrow> False | Some e \<Rightarrow> mc_room_seq c \<le> mem_room_seq e")
    case True
    then show ?thesis using run key by (auto split: option.splits)
  next
    case False
    let ?m = "\<lparr>mem_membership = mc_membership c, mem_event_id = mc_event_id c, mem_sender = mc_sender c,
            mem_room_seq = mc_room_seq c, mem_seq = ctx_seq ctx + 1, mem_forgotten = False\<rparr>"
    have "row (uc_membership C) ctx' T_MEMBERSHIP k = (if k = ?k then Some ?m else row (uc_membership C) ctx T_MEMBERSHIP k)" for k
      using run False by (auto simp: emit_user_change_def put_key_change_def split: if_split_asm)
    moreover have "from_change c ?m" by (simp add: from_change_def)
    ultimately show ?thesis using False key by (auto split: option.splits)
  qed
qed

lemma room_changes_effect:
  assumes "afor (apply_room_change C) cs ctx = Inr (r, ctx')" and "\<forall>c \<in> set cs. no_nul (mc_user_id c)" and "no_nul u"
  shows "projected (filter (concerns u room) cs) (member_at C ctx u room) (member_at C ctx' u room)"
  using assms(1,2)
proof (induction cs arbitrary: ctx)
  case Nil
  then show ?case by (simp add: projected_def)
next
  case (Cons c cs)
  from Cons.prems(1) obtain c1 where 1: "apply_room_change C c ctx = Inr ((), c1)" "afor (apply_room_change C) cs c1 = Inr (r, ctx')" by auto
  have IH: "projected (filter (concerns u room) cs) (member_at C c1 u room) (member_at C ctx' u room)"
    using Cons.IH[OF 1(2)] Cons.prems(2) by simp
  have "no_nul (mc_user_id c)" using Cons.prems(2) by simp
  from room_change_effect[OF 1(1) this assms(3), of room] show ?case
    using IH projected_Cons[OF IH, of "member_at C ctx u room" c] by (cases "concerns u room c") simp_all
qed

end

text \<open>
  The projection of a room shard's changes: a batch at or behind the stored cursor changes nothing;
  otherwise the cursor moves to the batch's position, and each membership row either stays, when no
  change of the batch for that user and room is newer than it, or becomes that of a newest such change.
  So replayed and overlapping batches are harmless and memberships never go back.
\<close>

theorem projection_exact:
  assumes "user_wire C" and "user_command_run C (ApplyRoomChanges source upto_seq changes) ctx = Inr (r, ctx')"
    and "read_cursor (ctx_get ctx T_CURSOR source) = Inr cursor" and "\<forall>c \<in> set changes. no_nul (mc_user_id c)" and "no_nul u"
  shows "if upto_seq \<le> cursor then r = Stale \<and> ctx' = ctx
    else r = UserOk \<and> ctx_get ctx' T_CURSOR source = Some (u64_be upto_seq) \<and>
      projected (filter (concerns u room) changes)
        (row (uc_membership C) ctx T_MEMBERSHIP (user_key u room)) (row (uc_membership C) ctx' T_MEMBERSHIP (user_key u room))"
proof (cases "upto_seq \<le> cursor")
  case True
  then show ?thesis using assms(2,3) by (auto simp: user_command_run_def apply_room_changes_def)
next
  case False
  then obtain c1 where c1: "afor (apply_room_change C) changes ctx = Inr ((), c1)" "r = UserOk" "ctx' = ctx_put T_CURSOR source (u64_be upto_seq) c1"
    using assms(2,3) by (auto simp: user_command_run_def apply_room_changes_def simp del: user_tables)
  show ?thesis using user_wire.room_changes_effect[OF assms(1) c1(1) assms(4,5), of room] False c1(2,3) by simp
qed

end
