(* ===== verification/Wire_Codecs.thy ===== *)
theory Wire_Codecs
  imports Shard_Examples
begin

text \<open>
  Building blocks of a wire format, for closed examples: self-delimiting encodings of the primitive types
  and their combination along the structure of a record.
\<close>

section \<open>Self-delimiting encodings\<close>

record 'a pickle =
  pput :: "'a \<Rightarrow> bytes"
  pget :: "bytes \<Rightarrow> ('a \<times> bytes) option"

definition faithful :: "'a pickle \<Rightarrow> bool" where
  "faithful p \<longleftrightarrow> (\<forall>x r. pget p (pput p x @ r) = Some (x, r))"

lemma faithfulD [simp]: "faithful p \<Longrightarrow> pget p (pput p x @ r) = Some (x, r)"
  by (simp add: faithful_def)

definition pk_bytes :: "bytes pickle" where
  "pk_bytes = \<lparr>pput = put_bytes, pget = get_bytes\<rparr>"

definition pk_u64 :: "u64 pickle" where
  "pk_u64 = \<lparr>pput = u64_be, pget = (\<lambda>b. map_option (\<lambda>w. (w, drop 8 b)) (u64_from_be (take 8 b)))\<rparr>"

definition pk_bool :: "bool pickle" where
  "pk_bool = \<lparr>pput = (\<lambda>x. [if x then byte 1 else byte 0]), pget = (\<lambda>b. case b of [] \<Rightarrow> None | t # r \<Rightarrow> Some (t = byte 1, r))\<rparr>"

definition pk_unit :: "unit pickle" where
  "pk_unit = \<lparr>pput = (\<lambda>_. []), pget = (\<lambda>b. Some ((), b))\<rparr>"

definition pk_option :: "'a pickle \<Rightarrow> 'a option pickle" where
  "pk_option p = \<lparr>pput = (\<lambda>x. case x of None \<Rightarrow> [byte 0] | Some y \<Rightarrow> byte 1 # pput p y),
     pget = (\<lambda>b. case b of [] \<Rightarrow> None | t # r \<Rightarrow> if t = byte 0 then Some (None, r) else map_option (apfst Some) (pget p r))\<rparr>"

definition pk_pair :: "'a pickle \<Rightarrow> 'b pickle \<Rightarrow> ('a \<times> 'b) pickle" where
  "pk_pair p q = \<lparr>pput = (\<lambda>(x, y). pput p x @ pput q y),
     pget = (\<lambda>b. case pget p b of None \<Rightarrow> None | Some (x, r) \<Rightarrow> map_option (apfst (Pair x)) (pget q r))\<rparr>"

text \<open>A list is a chain of present elements; the bound of the loop is the length of the input.\<close>

fun put_list :: "('a \<Rightarrow> bytes) \<Rightarrow> 'a list \<Rightarrow> bytes" where
  "put_list f [] = [byte 0]"
| "put_list f (x # xs) = byte 1 # f x @ put_list f xs"

fun get_list :: "(bytes \<Rightarrow> ('a \<times> bytes) option) \<Rightarrow> nat \<Rightarrow> bytes \<Rightarrow> ('a list \<times> bytes) option" where
  "get_list g (Suc n) (t # b) =
     (if t = byte 0 then Some ([], b)
      else (case g b of None \<Rightarrow> None | Some (x, r) \<Rightarrow> map_option (apfst ((#) x)) (get_list g n r)))"
| "get_list g _ _ = None"

definition pk_list :: "'a pickle \<Rightarrow> 'a list pickle" where
  "pk_list p = \<lparr>pput = put_list (pput p), pget = (\<lambda>b. get_list (pget p) (length b) b)\<rparr>"

definition pk_via :: "('b \<Rightarrow> 'a) \<Rightarrow> ('a \<Rightarrow> 'b) \<Rightarrow> 'a pickle \<Rightarrow> 'b pickle" where
  "pk_via f g p = \<lparr>pput = (\<lambda>x. pput p (f x)), pget = (\<lambda>b. map_option (apfst g) (pget p b))\<rparr>"

definition codec_of :: "'a pickle \<Rightarrow> 'a codec" where
  "codec_of p = \<lparr>enc = pput p, dec = (\<lambda>b. case pget p b of Some (x, []) \<Rightarrow> Some x | _ \<Rightarrow> None)\<rparr>"

lemma byte_0_1 [simp]: "byte 0 \<noteq> byte 1" "byte 1 \<noteq> byte 0" "byte (Suc 0) \<noteq> byte 0" "byte 0 \<noteq> byte (Suc 0)"
  by code_simp+

lemma get_put_list: "faithful p \<Longrightarrow> length xs < n \<Longrightarrow> get_list (pget p) n (put_list (pput p) xs @ r) = Some (xs, r)"
proof (induction xs arbitrary: n)
  case Nil
  then show ?case by (cases n) simp_all
next
  case (Cons x xs)
  then show ?case by (cases n) simp_all
qed

lemma length_put_list: "length xs < length (put_list f xs)"
  by (induction xs) auto

lemma faithful_prims [simp]: "faithful pk_bytes" "faithful pk_u64" "faithful pk_bool" "faithful pk_unit"
  by (auto simp: faithful_def pk_bytes_def pk_u64_def pk_bool_def pk_unit_def)

lemma faithful_comb [simp]:
  "faithful p \<Longrightarrow> faithful (pk_option p)" "faithful p \<Longrightarrow> faithful q \<Longrightarrow> faithful (pk_pair p q)" "faithful p \<Longrightarrow> faithful (pk_list p)"
  by (auto simp: faithful_def pk_option_def pk_pair_def pk_list_def get_put_list length_put_list trans_less_add1 split: option.split)

lemma faithful_via [simp]: "faithful p \<Longrightarrow> (\<And>x. g (f x) = x) \<Longrightarrow> faithful (pk_via f g p)"
  by (simp add: faithful_def pk_via_def)

lemma lossless_codec_of [simp]: "faithful p \<Longrightarrow> lossless (codec_of p)"
  using faithfulD[of p _ "[]"] by (simp add: lossless_def codec_of_def)

end
