(* ===== verification/User_Codecs.thy ===== *)
theory User_Codecs
  imports User_Claims Wire_Codecs
begin

text \<open>
  A wire format for the records of the user shard, on which its theorems are applied.
\<close>

section \<open>The records of the user shard\<close>

definition pk_state :: "account_state pickle" where
  "pk_state = pk_via (\<lambda>s. (s = Active, s = Locked)) (\<lambda>(a, l). if a then Active else if l then Locked else Deactivated) (pk_pair pk_bool pk_bool)"

definition pk_kind :: "token_kind pickle" where
  "pk_kind = pk_via (\<lambda>k. k = Access) (\<lambda>b. if b then Access else Refresh) pk_bool"

definition pk_account :: "account pickle" where
  "pk_account = pk_via (\<lambda>x. (acc_password_hash x, acc_created_ts x, acc_state x, acc_admin x, acc_erased x))
     (\<lambda>(a, b, c, d, e). \<lparr>acc_password_hash = a, acc_created_ts = b, acc_state = c, acc_admin = d, acc_erased = e\<rparr>)
     (pk_pair (pk_option pk_bytes) (pk_pair pk_u64 (pk_pair pk_state (pk_pair pk_bool pk_bool))))"

definition pk_account_v2 :: "account_v2 pickle" where
  "pk_account_v2 = pk_via (\<lambda>x. (av2_password_hash x, av2_created_ts x, av2_deactivated x))
     (\<lambda>(a, b, c). \<lparr>av2_password_hash = a, av2_created_ts = b, av2_deactivated = c\<rparr>)
     (pk_pair (pk_option pk_bytes) (pk_pair pk_u64 pk_bool))"

definition pk_uia_session :: "uia_session pickle" where
  "pk_uia_session = pk_via (\<lambda>x. (uia_request_hash x, uia_completed x, uia_registration_token x, uia_created_ts x))
     (\<lambda>(a, b, c, d). \<lparr>uia_request_hash = a, uia_completed = b, uia_registration_token = c, uia_created_ts = d\<rparr>)
     (pk_pair pk_bytes (pk_pair (pk_list pk_bytes) (pk_pair (pk_option pk_bytes) pk_u64)))"

definition pk_login_token_entry :: "login_token_entry pickle" where
  "pk_login_token_entry = pk_via (\<lambda>x. (lt_user_id x, lt_expires_ts x))
     (\<lambda>(a, b). \<lparr>lt_user_id = a, lt_expires_ts = b\<rparr>)
     (pk_pair pk_bytes pk_u64)"

definition pk_reg_token :: "reg_token pickle" where
  "pk_reg_token = pk_via (\<lambda>x. (rt_uses_allowed x, rt_used x, rt_expiry_ts x, rt_created_ts x))
     (\<lambda>(a, b, c, d). \<lparr>rt_uses_allowed = a, rt_used = b, rt_expiry_ts = c, rt_created_ts = d\<rparr>)
     (pk_pair (pk_option pk_u64) (pk_pair pk_u64 (pk_pair (pk_option pk_u64) pk_u64)))"

definition pk_blocked_room :: "blocked_room pickle" where
  "pk_blocked_room = pk_via (\<lambda>x. (br_by x, br_ts x))
     (\<lambda>(a, b). \<lparr>br_by = a, br_ts = b\<rparr>)
     (pk_pair pk_bytes pk_u64)"

definition pk_token_entry :: "token_entry pickle" where
  "pk_token_entry = pk_via (\<lambda>x. (tok_user_id x, tok_device_id x, tok_kind x, tok_created_ts x, tok_expires_ts x, tok_state x))
     (\<lambda>(a, b, c, d, e, f). \<lparr>tok_user_id = a, tok_device_id = b, tok_kind = c, tok_created_ts = d, tok_expires_ts = e, tok_state = f\<rparr>)
     (pk_pair pk_bytes (pk_pair pk_bytes (pk_pair pk_kind (pk_pair pk_u64 (pk_pair (pk_option pk_u64) pk_state)))))"

definition pk_token_entry_v4 :: "token_entry_v4 pickle" where
  "pk_token_entry_v4 = pk_via (\<lambda>x. (tv4_user_id x, tv4_device_id x, tv4_kind x, tv4_created_ts x, tv4_expires_ts x))
     (\<lambda>(a, b, c, d, e). \<lparr>tv4_user_id = a, tv4_device_id = b, tv4_kind = c, tv4_created_ts = d, tv4_expires_ts = e\<rparr>)
     (pk_pair pk_bytes (pk_pair pk_bytes (pk_pair pk_kind (pk_pair pk_u64 (pk_option pk_u64)))))"

definition pk_device :: "device pickle" where
  "pk_device = pk_via (\<lambda>x. (dev_display_name x, dev_created_ts x, dev_access_token_hash x, dev_refresh_token_hash x))
     (\<lambda>(a, b, c, d). \<lparr>dev_display_name = a, dev_created_ts = b, dev_access_token_hash = c, dev_refresh_token_hash = d\<rparr>)
     (pk_pair (pk_option pk_bytes) (pk_pair pk_u64 (pk_pair (pk_option pk_bytes) (pk_option pk_bytes))))"

definition pk_profile :: "profile pickle" where
  "pk_profile = pk_via (\<lambda>x. (prof_displayname x, prof_avatar_url x))
     (\<lambda>(a, b). \<lparr>prof_displayname = a, prof_avatar_url = b\<rparr>)
     (pk_pair (pk_option pk_bytes) (pk_option pk_bytes))"

definition pk_account_data_entry :: "account_data_entry pickle" where
  "pk_account_data_entry = pk_via (\<lambda>x. (ad_json x, ad_seq x))
     (\<lambda>(a, b). \<lparr>ad_json = a, ad_seq = b\<rparr>)
     (pk_pair pk_bytes pk_u64)"

definition pk_membership_entry :: "membership_entry pickle" where
  "pk_membership_entry = pk_via (\<lambda>x. (mem_membership x, mem_event_id x, mem_sender x, mem_room_seq x, mem_seq x, mem_forgotten x))
     (\<lambda>(a, b, c, d, e, f). \<lparr>mem_membership = a, mem_event_id = b, mem_sender = c, mem_room_seq = d, mem_seq = e, mem_forgotten = f\<rparr>)
     (pk_pair pk_bytes (pk_pair pk_bytes (pk_pair pk_bytes (pk_pair pk_u64 (pk_pair pk_u64 pk_bool)))))"

definition pk_alias_entry :: "alias_entry pickle" where
  "pk_alias_entry = pk_via (\<lambda>x. (al_room_id x, al_creator x))
     (\<lambda>(a, b). \<lparr>al_room_id = a, al_creator = b\<rparr>)
     (pk_pair pk_bytes pk_bytes)"

definition pk_media_meta :: "media_meta pickle" where
  "pk_media_meta = pk_via (\<lambda>x. (med_owner x, med_content_type x, med_filename x, med_size x, med_created_ts x, med_pending x, med_blob x))
     (\<lambda>(a, b, c, d, e, f, g). \<lparr>med_owner = a, med_content_type = b, med_filename = c, med_size = d, med_created_ts = e, med_pending = f, med_blob = g\<rparr>)
     (pk_pair pk_bytes (pk_pair (pk_option pk_bytes) (pk_pair (pk_option pk_bytes) (pk_pair pk_u64 (pk_pair pk_u64 (pk_pair pk_bool (pk_option pk_bytes)))))))"

definition pk_otk_entry :: "otk_entry pickle" where
  "pk_otk_entry = pk_via (\<lambda>x. (otk_order x, otk_json x))
     (\<lambda>(a, b). \<lparr>otk_order = a, otk_json = b\<rparr>)
     (pk_pair pk_u64 pk_bytes)"

definition pk_fallback_entry :: "fallback_entry pickle" where
  "pk_fallback_entry = pk_via (\<lambda>x. (fb_key_id x, fb_json x, fb_used x))
     (\<lambda>(a, b, c). \<lparr>fb_key_id = a, fb_json = b, fb_used = c\<rparr>)
     (pk_pair pk_bytes (pk_pair pk_bytes pk_bool))"

definition pk_backup_version_meta :: "backup_version_meta pickle" where
  "pk_backup_version_meta = pk_via (\<lambda>x. (bv_algorithm x, bv_auth_data x, bv_count x, bv_etag x, bv_deleted x))
     (\<lambda>(a, b, c, d, e). \<lparr>bv_algorithm = a, bv_auth_data = b, bv_count = c, bv_etag = d, bv_deleted = e\<rparr>)
     (pk_pair pk_bytes (pk_pair pk_bytes (pk_pair pk_u64 (pk_pair pk_u64 pk_bool))))"

definition pk_key_change_entry :: "key_change_entry pickle" where
  "pk_key_change_entry = pk_via (\<lambda>x. (kc_user_id x, kc_membership x))
     (\<lambda>(a, b). \<lparr>kc_user_id = a, kc_membership = b\<rparr>)
     (pk_pair pk_bytes (pk_option (pk_pair pk_bytes pk_bool)))"

lemma faithful_enums [simp]: "faithful pk_state" "faithful pk_kind"
  unfolding pk_state_def pk_kind_def by (rule faithful_via; auto intro: account_state.exhaust token_kind.exhaust)+

lemma faithful_records [simp]:
  "faithful pk_account" "faithful pk_account_v2" "faithful pk_uia_session" "faithful pk_login_token_entry" "faithful pk_reg_token" "faithful pk_blocked_room" "faithful pk_token_entry" "faithful pk_token_entry_v4" "faithful pk_device" "faithful pk_profile" "faithful pk_account_data_entry" "faithful pk_membership_entry" "faithful pk_alias_entry" "faithful pk_media_meta" "faithful pk_otk_entry" "faithful pk_fallback_entry" "faithful pk_backup_version_meta" "faithful pk_key_change_entry"
  unfolding pk_account_def pk_account_v2_def pk_uia_session_def pk_login_token_entry_def pk_reg_token_def pk_blocked_room_def pk_token_entry_def pk_token_entry_v4_def pk_device_def pk_profile_def pk_account_data_entry_def pk_membership_entry_def pk_alias_entry_def pk_media_meta_def pk_otk_entry_def pk_fallback_entry_def pk_backup_version_meta_def pk_key_change_entry_def
  by (rule faithful_via; simp)+

text \<open>
  The codecs of the examples. Commands reach the machine decoded and no content of an event is
  looked at in the examples, so the remaining fields are left trivial.
\<close>

definition wire :: user_codecs where
  "wire = \<lparr>uc_command = \<lparr>enc = \<lambda>_. [], dec = \<lambda>_. None\<rparr>, uc_response = \<lparr>enc = \<lambda>_. [], dec = \<lambda>_. None\<rparr>,
     uc_change = \<lparr>enc = \<lambda>_. [], dec = \<lambda>_. None\<rparr>,
     uc_account = codec_of pk_account, uc_account_v2 = codec_of pk_account_v2, uc_token = codec_of pk_token_entry,
     uc_token_v4 = codec_of pk_token_entry_v4, uc_device = codec_of pk_device, uc_profile = codec_of pk_profile,
     uc_account_data = codec_of pk_account_data_entry, uc_membership = codec_of pk_membership_entry,
     uc_alias = codec_of pk_alias_entry, uc_media = codec_of pk_media_meta, uc_uia = codec_of pk_uia_session,
     uc_reg_token = codec_of pk_reg_token, uc_login_token = codec_of pk_login_token_entry,
     uc_blocked = codec_of pk_blocked_room, uc_otk = codec_of pk_otk_entry, uc_fallback = codec_of pk_fallback_entry,
     uc_backup = codec_of pk_backup_version_meta, uc_key_change = codec_of pk_key_change_entry,
     uc_string = codec_of pk_bytes, uc_u64 = codec_of pk_u64, uc_byte_lists = codec_of (pk_list pk_bytes),
     json_from_slice = (\<lambda>_. None), json_to_vec = (\<lambda>_. None)\<rparr>"

interpretation wire: user_wire wire
  by unfold_locales (simp_all add: wire_def)

lemma wire_versions [simp]: "lossless (uc_account_v2 wire)" "lossless (uc_token_v4 wire)"
  by (simp_all add: wire_def)

end
