(* ===== verification/User_Examples.thy ===== *)
theory User_Examples
  imports User_Codecs
begin

text \<open>
  The theorems about the user shard, applied to logs of commands that the machine runs on the wire
  format of \<open>User_Codecs\<close>.
\<close>

section \<open>Commands on an empty shard\<close>

definition a_session :: session_cmd where
  "a_session = \<lparr>ses_user_id = ''@a'', ses_device_id = ''D'', ses_display_name = None, ses_token_hash = ''h'',
     ses_refresh_hash = None, ses_expires_ts = None, ses_ts = 1\<rparr>"

lemma empty_get [simp]: "ctx_get (batch_ctx [] q) t k = None"
  by (simp add: batch_get kv_get_def)

lemma empty_row [simp]: "row c (batch_ctx [] q) t k = None"
  by (simp add: row_def)

lemma name_no_nul [simp]: "no_nul ''@a''"
  by (simp add: no_nul_def, code_simp)

lemma decode_opt_simps [simp]: "decode_opt w c None = Inr None" "lossless c \<Longrightarrow> decode_opt w c (Some (enc c x)) = Inr (Some x)"
  by (simp_all add: decode_opt_def)

text \<open>Programs run forwards.\<close>

lemmas runs = abind_def aseq_def aret_def alift_def aget_def arange_def aput_def adelete_def aemit_def aget_typed_def
  Let_def user_command_run_def

lemma batch_frame [simp]: "ctx_engine (batch_ctx db q) = db" "ctx_shard (batch_ctx db q) = USER_SHARD" "ctx_seq (batch_ctx db q) = q"
  by (simp_all add: batch_ctx_def)

lemma committed_row: "bt_wf (ctx_engine ctx) \<Longrightarrow> ctx_shard ctx = USER_SHARD \<Longrightarrow> row c (batch_ctx (committed ctx) q) t k = row c ctx t k"
  by (simp add: row_def committed_batch)

lemma committed_wf [simp]: "bt_wf (ctx_engine ctx) \<Longrightarrow> bt_wf (committed ctx)"
  unfolding committed_def by (rule kv_write_batch_wf)

lemmas after = committed_batch(1) committed_row

definition a_account :: account where
  "a_account = \<lparr>acc_password_hash = None, acc_created_ts = 1, acc_state = Active, acc_admin = False, acc_erased = False\<rparr>"

abbreviation empty_ctx :: apply_ctx where
  "empty_ctx \<equiv> batch_ctx [] 0"

abbreviation account_ctx :: apply_ctx where
  "account_ctx \<equiv> ctx_put T_USERNAME ''@a'' [byte 1] (ctx_put T_ACCOUNT ''@a'' (enc (uc_account wire) a_account) empty_ctx)"

lemma run_register: "user_command_run wire (Register ''@a'' None 1 None) empty_ctx = Inr (UserOk, account_ctx)"
  by (simp add: runs apply_register_def consume_reg_token_def a_account_def)

section \<open>Sessions\<close>

lemma run_session: "\<exists>ctx. user_command_run wire (Register ''@a'' None 1 (Some a_session)) empty_ctx = Inr (UserOk, ctx) \<and>
  ctx_engine ctx = [] \<and> ctx_shard ctx = USER_SHARD \<and> (\<exists>e. row (uc_token wire) ctx T_TOKEN ''h'' = Some e \<and> tok_user_id e = ''@a'')"
  by (simp add: runs apply_register_def consume_reg_token_def write_session_def account_state_def a_session_def)

theorem tokens_mirror_accounts_witness:
  "\<exists>db seq e a. user_history wire (cmd_ok wire) db seq \<and> row (uc_token wire) (batch_ctx db 0) T_TOKEN ''h'' = Some e \<and>
     row (uc_account wire) (batch_ctx db 0) T_ACCOUNT ''@a'' = Some a \<and> tok_state e = acc_state a"
proof -
  obtain ctx e where run: "user_command_run wire (Register ''@a'' None 1 (Some a_session)) empty_ctx = Inr (UserOk, ctx)"
    and f: "ctx_engine ctx = []" "ctx_shard ctx = USER_SHARD" and e: "row (uc_token wire) ctx T_TOKEN ''h'' = Some e" "tok_user_id e = ''@a''"
    using run_session by blast
  have "cmd_ok wire empty_ctx (Register ''@a'' None 1 (Some a_session))" by (simp add: session_ok_def a_session_def)
  from user_history.command[where ok = "cmd_ok wire", OF user_history.start this run]
  have h: "user_history wire (cmd_ok wire) (committed ctx) (ctx_seq ctx)" .
  moreover have t: "row (uc_token wire) (batch_ctx (committed ctx) 0) T_TOKEN ''h'' = Some e" using e(1) f by (simp add: after)
  ultimately show ?thesis using tokens_mirror_accounts[OF wire.user_wire_axioms h t] e(2) by auto
qed

theorem session_survives_deactivation_in_batch_witness:
  "\<exists>c1 c2 e. user_command_run wire (CreateSession a_session) (batch_ctx (committed account_ctx) 0) = Inr (UserOk, c1) \<and>
     user_command_run wire (Deactivate ''@a'') c1 = Inr (UserOk, c2) \<and>
     row (uc_token wire) c2 T_TOKEN ''h'' = Some e \<and> tok_user_id e = ''@a'' \<and> tok_state e = Active"
proof -
  let ?c = "batch_ctx (committed account_ctx) 0"
  have "settled T_DEVICE ?c" by (rule batch_settled) simp_all
  moreover have "row (uc_account wire) ?c T_ACCOUNT (ses_user_id a_session) = Some a_account" by (simp add: after a_session_def)
  moreover have "acc_state a_account = Active" "ses_refresh_hash a_session = None" by (simp_all add: a_account_def a_session_def)
  moreover have "ctx_get ?c T_DEVICE (user_key (ses_user_id a_session) d) = None" for d by (simp add: after)
  ultimately show ?thesis
    using session_survives_deactivation_in_batch[OF wire.user_wire_axioms, of ?c a_session a_account] by (auto simp: a_session_def simp del: user_tables)
qed

section \<open>Names and tokens\<close>

lemma run_names: "\<exists>db q. user_replay wire [[Register ''@a'' None 1 None, Register ''@a'' (Some ''p'') 2 None]] ([], [], 0) = Inr ([UserOk, UserExists], db, q)"
  unfolding user_replay_def user_batch_def fold_r.simps by (simp add: run_register, simp add: runs apply_register_def after)

theorem names_unique_witness:
  "\<exists>rs db q. user_replay wire [[Register ''@a'' None 1 None, Register ''@a'' (Some ''p'') 2 None]] ([], [], 0) = Inr (rs, db, q) \<and>
     rs ! 1 = UserExists"
  using run_names names_unique[of wire "[[Register ''@a'' None 1 None, Register ''@a'' (Some ''p'') 2 None]]" "[]" 0 _ _ _ 0 1 "''@a''"]
  by fastforce

definition token_ctx :: apply_ctx where
  "token_ctx = ctx_put T_REG_TOKEN ''t'' (enc (uc_reg_token wire)
     \<lparr>rt_uses_allowed = Some 1, rt_used = 0, rt_expiry_ts = None, rt_created_ts = 0\<rparr>) empty_ctx"

lemma run_spends: "\<exists>db q. user_replay wire [[RegisterWithToken ''@a'' None 1 None (Some ''t''), RegisterWithToken ''@b'' None 2 None (Some ''t'')]]
    ([], committed token_ctx, 0) = Inr ([UserOk, InvalidToken], db, q)"
  unfolding user_replay_def user_batch_def fold_r.simps
  by (simp add: runs apply_register_def consume_reg_token_def reg_token_usable_def after token_ctx_def)

theorem reg_token_uses_bounded_witness:
  "\<exists>rs db q. user_replay wire [[RegisterWithToken ''@a'' None 1 None (Some ''t''), RegisterWithToken ''@b'' None 2 None (Some ''t'')]]
      ([], committed token_ctx, 0) = Inr (rs, db, q) \<and>
     length (filter (\<lambda>(cmd, r). spends ''t'' cmd \<and> r = UserOk)
       (zip [RegisterWithToken ''@a'' None 1 None (Some ''t''), RegisterWithToken ''@b'' None 2 None (Some ''t'')] rs)) \<le> 1"
proof -
  let ?e = "\<lparr>rt_uses_allowed = Some 1, rt_used = 0, rt_expiry_ts = None, rt_created_ts = 0\<rparr> :: reg_token"
  obtain db q where r: "user_replay wire [[RegisterWithToken ''@a'' None 1 None (Some ''t''), RegisterWithToken ''@b'' None 2 None (Some ''t'')]]
      ([], committed token_ctx, 0) = Inr ([UserOk, InvalidToken], db, q)" using run_spends by blast
  have "row (uc_reg_token wire) (batch_ctx (committed token_ctx) 0) T_REG_TOKEN ''t'' = Some ?e" "bt_wf (committed token_ctx)"
    by (simp_all add: after token_ctx_def)
  from reg_token_uses_bounded[OF wire.user_wire_axioms r this(2,1), of 1] show ?thesis using r by (intro exI[of _ "[UserOk, InvalidToken]"] exI[of _ db] exI[of _ q]) simp
qed

lemma run_link: "\<exists>ctx. user_command_run wire (LinkExternalId ''@a'' ''p'' ''x'') (batch_ctx (committed account_ctx) 0) = Inr (UserOk, ctx) \<and>
    ctx_engine ctx = committed account_ctx \<and> ctx_shard ctx = USER_SHARD \<and>
    row (uc_string wire) ctx T_EXTERNAL_ID (external_key ''p'' ''x'') = Some ''@a''"
  by (simp add: runs link_external_id_def after a_account_def)

lemma p_no_nul [simp]: "no_nul ''p''" "no_nul ''D''"
  by (simp add: no_nul_def, code_simp)+

theorem links_agree_witness:
  "\<exists>db seq. user_history wire link_ok db seq \<and> row (uc_string wire) (batch_ctx db 0) T_EXTERNAL_ID (external_key ''p'' ''x'') = Some ''@a'' \<and>
     row (uc_string wire) (batch_ctx db 0) T_EXTERNAL_ID_USER (user_key ''@a'' ''p'') = Some ''x''"
proof -
  obtain ctx where run: "user_command_run wire (LinkExternalId ''@a'' ''p'' ''x'') (batch_ctx (committed account_ctx) 0) = Inr (UserOk, ctx)"
    and f: "ctx_engine ctx = committed account_ctx" "ctx_shard ctx = USER_SHARD"
    and row: "row (uc_string wire) ctx T_EXTERNAL_ID (external_key ''p'' ''x'') = Some ''@a''"
    using run_link by blast
  have "user_history wire link_ok (committed account_ctx) 0"
    using user_history.command[where ok = link_ok, OF user_history.start _ run_register] by simp
  from user_history.command[where ok = link_ok, OF this _ run] have h: "user_history wire link_ok (committed ctx) (ctx_seq ctx)" by simp
  have "row (uc_string wire) (batch_ctx (committed ctx) 0) T_EXTERNAL_ID (external_key ''p'' ''x'') = Some ''@a''"
    using row f by (simp add: after)
  with links_agree[OF wire.user_wire_axioms h, of "''@a''" "''p''" 0 "''x''"] h show ?thesis by (intro exI[of _ "committed ctx"] exI[of _ "ctx_seq ctx"]) simp
qed

definition login_ctx :: apply_ctx where
  "login_ctx = ctx_put T_LOGIN_TOKEN ''l'' (enc (uc_login_token wire) \<lparr>lt_user_id = ''@a'', lt_expires_ts = 9\<rparr>) account_ctx"

lemma run_login: "\<exists>ctx. consume_login_token wire ''l'' 5 login_ctx = Inr (LoginTokenOwner ''@a'', ctx)"
  by (simp add: runs consume_login_token_def login_ctx_def a_account_def)

theorem consume_login_token_exact_witness:
  "\<exists>ctx. consume_login_token wire ''l'' 5 login_ctx = Inr (LoginTokenOwner ''@a'', ctx) \<and> ctx_get ctx T_LOGIN_TOKEN ''l'' = None"
  using run_login consume_login_token_exact[of wire "''l''" 5 login_ctx _ _ "''l''"] by force

lemma run_logins: "\<exists>db q. user_replay wire [[ConsumeLoginToken ''l'' 5, ConsumeLoginToken ''l'' 6]] ([], committed login_ctx, 0) =
    Inr ([LoginTokenOwner ''@a'', InvalidGrant], db, q)"
  unfolding user_replay_def user_batch_def fold_r.simps
  by (simp add: runs consume_login_token_def login_ctx_def a_account_def after)

theorem login_token_once_witness:
  "\<exists>rs db q. user_replay wire [[ConsumeLoginToken ''l'' 5, ConsumeLoginToken ''l'' 6]] ([], committed login_ctx, 0) = Inr (rs, db, q) \<and>
     rs ! 0 = LoginTokenOwner ''@a'' \<and> rs ! 1 = InvalidGrant"
proof -
  obtain db q where r: "user_replay wire [[ConsumeLoginToken ''l'' 5, ConsumeLoginToken ''l'' 6]] ([], committed login_ctx, 0) =
    Inr ([LoginTokenOwner ''@a'', InvalidGrant], db, q)" using run_logins by blast
  have "bt_wf (committed login_ctx)" by (simp add: login_ctx_def)
  from login_token_once[OF r this, of 0 1 "''l''" 5 6] r show ?thesis
    by (intro exI[of _ "[LoginTokenOwner ''@a'', InvalidGrant]"] exI[of _ db] exI[of _ q]) simp
qed

section \<open>Keys, messages and memberships\<close>

definition a_claim :: claim_request where
  "a_claim = \<lparr>cr_user_id = ''@a'', cr_device_id = ''D'', cr_algorithm = ''s''\<rparr>"

definition keys_db :: kv where
  "keys_db = committed (ctx_put T_ONE_TIME_KEY (device_scoped_key ''@a'' ''D'' ''s:1'') (enc (uc_otk wire) \<lparr>otk_order = 4, otk_json = ''k''\<rparr>)
     (ctx_put T_TO_DEVICE (to_device_key ''@a'' ''D'' 3) ''m'' empty_ctx))"

lemma keys_wf [simp]: "bt_wf keys_db"
  by (simp add: keys_db_def)

lemma keys_settled [simp]: "t \<noteq> - 1 \<Longrightarrow> settled t (batch_ctx keys_db q)"
  by (rule batch_settled) simp_all

lemma keys_settled_otk: "settled T_ONE_TIME_KEY (batch_ctx keys_db 0)"
  by (rule keys_settled) simp

lemma key_claimable: "claimable wire (batch_ctx keys_db 0) a_claim ''s:1'' \<lparr>otk_order = 4, otk_json = ''k''\<rparr>"
  by (simp add: claimable_def a_claim_def keys_db_def after starts_with_def)

lemma key_ids: "key_ids_valid (batch_ctx keys_db 0) (cr_user_id a_claim) (cr_device_id a_claim)"
proof -
  have "valid_utf8 ''s:1''" by (rule ascii_valid) simp
  then show ?thesis by (auto simp: key_ids_valid_def a_claim_def keys_db_def after device_scoped_key_def)
qed

theorem claim_takes_oldest_witness:
  "\<exists>key_id e ctx'. user_command_run wire (ClaimKeys [a_claim]) (batch_ctx keys_db 0) = Inr (ClaimedKeys [handed a_claim key_id (otk_json e)], ctx') \<and>
     claimable wire (batch_ctx keys_db 0) a_claim key_id e"
  using claim_takes_oldest[OF keys_settled_otk key_ids key_claimable] by blast

theorem claims_in_one_batch_repeat_witness:
  "\<exists>key c1 c2. user_command_run wire (ClaimKeys [a_claim]) (batch_ctx keys_db 0) = Inr (ClaimedKeys [key], c1) \<and>
     user_command_run wire (ClaimKeys [a_claim]) c1 = Inr (ClaimedKeys [key], c2)"
  using claims_in_one_batch_repeat[OF keys_settled_otk key_ids key_claimable] by simp

lemma run_ack_to_device: "\<exists>r ctx. user_command_run wire (AckToDevice ''@a'' ''D'' 3) (batch_ctx keys_db 0) = Inr (r, ctx)"
  by (simp add: runs ack_to_device_def)

theorem ack_to_device_exact_witness:
  "\<exists>ctx. user_command_run wire (AckToDevice ''@a'' ''D'' 3) (batch_ctx keys_db 0) = Inr (UserOk, ctx) \<and>
     ctx_get ctx T_TO_DEVICE (to_device_key ''@a'' ''D'' 3) = None"
proof -
  obtain r ctx where "user_command_run wire (AckToDevice ''@a'' ''D'' 3) (batch_ctx keys_db 0) = Inr (r, ctx)" using run_ack_to_device by blast
  with ack_to_device_exact[OF this, of "''@a''" "''D''" 3] show ?thesis by simp
qed

definition a_change :: membership_change where
  "a_change = \<lparr>mc_user_id = ''@a'', mc_room_id = ''!r'', mc_membership = ''join'', mc_event_id = ''e'', mc_sender = ''@a'', mc_room_seq = 7\<rparr>"

lemma run_changes: "\<exists>ctx. user_command_run wire (ApplyRoomChanges ''room'' 7 [a_change]) empty_ctx = Inr (UserOk, ctx)"
  by (simp add: runs apply_room_changes_def apply_room_change_def read_cursor_def a_change_def emit_user_change_def put_key_change_def ctx_emit_def)

theorem projection_exact_witness:
  "\<exists>ctx. user_command_run wire (ApplyRoomChanges ''room'' 7 [a_change]) empty_ctx = Inr (UserOk, ctx) \<and>
     ctx_get ctx T_CURSOR ''room'' = Some (u64_be 7) \<and>
     (\<exists>m. row (uc_membership wire) ctx T_MEMBERSHIP (user_key ''@a'' ''!r'') = Some m \<and> mem_membership m = ''join'')"
proof -
  obtain ctx where r: "user_command_run wire (ApplyRoomChanges ''room'' 7 [a_change]) empty_ctx = Inr (UserOk, ctx)" using run_changes by blast
  have "read_cursor (ctx_get empty_ctx T_CURSOR ''room'') = Inr 0" "\<forall>c \<in> set [a_change]. no_nul (mc_user_id c)"
    by (simp_all add: read_cursor_def a_change_def)
  from projection_exact[OF wire.user_wire_axioms r this name_no_nul, of "''!r''"] r show ?thesis
    by (auto simp: projected_def concerns_def a_change_def from_change_def)
qed

end
