(* ===== verification/User_Reads.thy ===== *)
theory User_Reads
  imports User_Claims
begin

text \<open>
  The typed reads of the user shard (\<open>UserStore\<close> of \<open>machine.rs\<close>). The global half of the tables is on every
  node and is read from its applied state; the half of each user may be served by a replica on another node,
  reached by the operations of \<open>read.rs\<close>. The remote reader is a parameter.
\<close>

record user_store =
  us_read :: read_ctx
  us_per_user :: "(read_op \<Rightarrow> string + read_value) option"

definition us_remote_err :: "string \<Rightarrow> store_error" where
  "us_remote_err e = Engine (''remote read: '' @ e)"

definition us_new :: "read_ctx \<Rightarrow> user_store" where
  "us_new read = \<lparr>us_read = read, us_per_user = None\<rparr>"

definition with_remote_per_user :: "read_ctx \<Rightarrow> (read_op \<Rightarrow> string + read_value) \<Rightarrow> user_store" where
  "with_remote_per_user read reader = \<lparr>us_read = read, us_per_user = Some reader\<rparr>"

section \<open>Reading a half\<close>

definition user_get :: "user_store \<Rightarrow> u8 \<Rightarrow> bytes \<Rightarrow> store_error + bytes option" where
  "user_get S table k =
     (case us_per_user S of
        None \<Rightarrow> Inr (rd_get (us_read S) table k)
      | Some r \<Rightarrow> (case r (ReadGet table k) of
            Inl e \<Rightarrow> Inl (us_remote_err e)
          | Inr (Value v) \<Rightarrow> Inr v
          | Inr _ \<Rightarrow> Inl (Engine ''get returned'')))"

definition user_range_rows :: "user_store \<Rightarrow> u8 \<Rightarrow> bytes \<Rightarrow> bytes \<Rightarrow> store_error + (bytes \<times> bytes) list" where
  "user_range_rows S table start e =
     (case us_per_user S of
        None \<Rightarrow> Inr (rd_range (us_read S) table start e)
      | Some r \<Rightarrow> (case r (ReadRange table start e) of
            Inl e \<Rightarrow> Inl (us_remote_err e)
          | Inr (Entries v) \<Rightarrow> Inr v
          | Inr _ \<Rightarrow> Inl (Engine ''range returned'')))"

definition user_scan :: "user_store \<Rightarrow> u8 \<Rightarrow> bytes \<Rightarrow> bytes \<Rightarrow> nat \<Rightarrow> bool \<Rightarrow> store_error + (bytes \<times> bytes) list" where
  "user_scan S table start e limit reverse =
     (case us_per_user S of
        None \<Rightarrow> Inr (rd_scan (us_read S) table start e limit reverse)
      | Some r \<Rightarrow> (case r (ReadScan table start e (of_nat (min limit (2 ^ 32 - 1))) reverse) of
            Inl e \<Rightarrow> Inl (us_remote_err e)
          | Inr (Entries v) \<Rightarrow> Inr v
          | Inr _ \<Rightarrow> Inl (Engine ''scan returned'')))"

definition user_typed :: "string \<Rightarrow> 'a codec \<Rightarrow> user_store \<Rightarrow> u8 \<Rightarrow> bytes \<Rightarrow> store_error + 'a option" where
  "user_typed what c S table k = rbind (user_get S table k) (decode_opt what c)"

definition get_typed :: "string \<Rightarrow> 'a codec \<Rightarrow> user_store \<Rightarrow> u8 \<Rightarrow> bytes \<Rightarrow> store_error + 'a option" where
  "get_typed what c S table k = decode_opt what c (rd_get (us_read S) table k)"

text \<open>
  The loops over rows stop at the first row with an error. A key that is shorter than the prefix cut off
  panics; the read then has no result.
\<close>

fun each_row :: "('a \<Rightarrow> store_error + 'b) \<Rightarrow> 'a list \<Rightarrow> store_error + 'b list" where
  "each_row f [] = Inr []"
| "each_row f (x # xs) = rbind (f x) (\<lambda>y. rbind (each_row f xs) (\<lambda>ys. Inr (y # ys)))"

definition key_rest :: "bytes \<Rightarrow> bytes \<Rightarrow> store_error + bytes" where
  "key_rest start k =
     (if length k < length start then Inl (Engine ''slice index out of range'') else Inr (drop (length start) k))"

definition utf8_or :: "string \<Rightarrow> bytes \<Rightarrow> store_error + string" where
  "utf8_or msg b = ok_or (Engine msg) (from_utf8 b)"

definition named_row :: "string \<Rightarrow> bytes \<Rightarrow> (bytes \<Rightarrow> store_error + 'a) \<Rightarrow> bytes \<times> bytes \<Rightarrow> store_error + string \<times> 'a" where
  "named_row msg start f = (\<lambda>(k, v).
     rbind (key_rest start k) (\<lambda>rest. rbind (utf8_or msg rest) (\<lambda>name. rbind (f v) (\<lambda>x. Inr (name, x)))))"

definition numbered_row :: "string \<Rightarrow> bytes \<Rightarrow> bytes \<times> bytes \<Rightarrow> store_error + u64 \<times> bytes" where
  "numbered_row msg start = (\<lambda>(k, v).
     rbind (key_rest start k) (\<lambda>rest. rbind (ok_or (Engine msg) (u64_from_be rest)) (\<lambda>n. Inr (n, v))))"

text \<open>Two names with a zero byte between them.\<close>

definition pair_row ::
  "string \<Rightarrow> string \<Rightarrow> string \<Rightarrow> bytes \<Rightarrow> (bytes \<Rightarrow> store_error + 'a) \<Rightarrow> bytes \<times> bytes \<Rightarrow> store_error + string \<times> string \<times> 'a" where
  "pair_row shape first second start f = (\<lambda>(k, v).
     rbind (key_rest start k) (\<lambda>rest.
       if byte 0 \<notin> set rest then Inl (Engine shape)
       else rbind (utf8_or first (takeWhile (\<lambda>b. b \<noteq> byte 0) rest)) (\<lambda>a.
            rbind (utf8_or second (tl (dropWhile (\<lambda>b. b \<noteq> byte 0) rest))) (\<lambda>b.
            rbind (f v) (\<lambda>x. Inr (a, b, x))))))"

section \<open>Accounts, tokens and the namespace\<close>

definition us_account :: "user_codecs \<Rightarrow> user_store \<Rightarrow> string \<Rightarrow> store_error + account option" where
  "us_account C S user_id = user_typed ''account decode'' (uc_account C) S T_ACCOUNT user_id"

definition username_reserved :: "user_store \<Rightarrow> string \<Rightarrow> bool" where
  "username_reserved S user_id \<longleftrightarrow> rd_get (us_read S) T_USERNAME user_id \<noteq> None"

definition txn_seen :: "user_store \<Rightarrow> string \<Rightarrow> string \<Rightarrow> string \<Rightarrow> string \<Rightarrow> bool" where
  "txn_seen S user_id device_id scope txn_id \<longleftrightarrow>
     rd_get (us_read S) T_TXN_SEEN (txn_key user_id device_id scope txn_id) \<noteq> None"

text \<open>One page of accounts: the row after the last one of the page is the start of the next.\<close>

fun account_page :: "user_codecs \<Rightarrow> nat \<Rightarrow> (bytes \<times> bytes) list \<Rightarrow> store_error + (string \<times> account) list \<times> string option" where
  "account_page C limit [] = Inr ([], None)"
| "account_page C limit ((k, v) # rows) =
     rbind (utf8_or ''account key not UTF-8'' k) (\<lambda>user_id.
       case limit of
         0 \<Rightarrow> Inr ([], Some user_id)
       | Suc n \<Rightarrow> rbind (decode_r ''account decode'' (uc_account C) v) (\<lambda>a.
           rbind (account_page C n rows) (\<lambda>(out, nxt). Inr ((user_id, a) # out, nxt))))"

definition us_accounts ::
  "user_codecs \<Rightarrow> user_store \<Rightarrow> string option \<Rightarrow> nat \<Rightarrow> store_error + (string \<times> account) list \<times> string option" where
  "us_accounts C S from limit =
     rbind (user_scan S T_ACCOUNT (case from of None \<Rightarrow> [] | Some f \<Rightarrow> f) [] (min (Suc limit) (2 ^ 64 - 1)) False)
       (account_page C limit)"

definition us_login_token :: "user_codecs \<Rightarrow> user_store \<Rightarrow> bytes \<Rightarrow> store_error + login_token_entry option" where
  "us_login_token C S h = get_typed ''login token decode'' (uc_login_token C) S T_LOGIN_TOKEN h"

definition us_uia_session :: "user_codecs \<Rightarrow> user_store \<Rightarrow> string \<Rightarrow> store_error + uia_session option" where
  "us_uia_session C S session_id = get_typed ''uia session decode'' (uc_uia C) S T_UIA_SESSION session_id"

definition us_registration_token :: "user_codecs \<Rightarrow> user_store \<Rightarrow> string \<Rightarrow> store_error + reg_token option" where
  "us_registration_token C S token = get_typed ''reg token decode'' (uc_reg_token C) S T_REG_TOKEN token"

definition us_registration_tokens :: "user_codecs \<Rightarrow> user_store \<Rightarrow> store_error + (string \<times> reg_token) list" where
  "us_registration_tokens C S =
     each_row (named_row ''registration token not UTF-8'' [] (decode_r ''reg token decode'' (uc_reg_token C)))
       (rd_range (us_read S) T_REG_TOKEN [] [])"

definition us_notices_room :: "user_codecs \<Rightarrow> user_store \<Rightarrow> string \<Rightarrow> store_error + string option" where
  "us_notices_room C S user_id = user_typed ''notices room decode'' (uc_string C) S T_NOTICES_ROOM user_id"

definition us_blocked_room :: "user_codecs \<Rightarrow> user_store \<Rightarrow> string \<Rightarrow> store_error + blocked_room option" where
  "us_blocked_room C S room_id = get_typed ''blocked room decode'' (uc_blocked C) S T_ROOM_BLOCKED room_id"

definition us_blocked_rooms :: "user_codecs \<Rightarrow> user_store \<Rightarrow> store_error + (string \<times> blocked_room) list" where
  "us_blocked_rooms C S =
     each_row (named_row ''blocked room id not UTF-8'' [] (decode_r ''blocked room decode'' (uc_blocked C)))
       (rd_range (us_read S) T_ROOM_BLOCKED [] [])"

definition us_external_id_owner :: "user_codecs \<Rightarrow> user_store \<Rightarrow> string \<Rightarrow> string \<Rightarrow> store_error + string option" where
  "us_external_id_owner C S auth_provider external_id =
     get_typed ''external id owner decode'' (uc_string C) S T_EXTERNAL_ID (external_key auth_provider external_id)"

definition us_external_ids :: "user_codecs \<Rightarrow> user_store \<Rightarrow> string \<Rightarrow> store_error + (string \<times> string) list" where
  "us_external_ids C S user_id =
     (let start = user_key user_id [] in
      each_row (named_row ''auth provider not UTF-8'' start (decode_r ''external id decode'' (uc_string C)))
        (rd_range (us_read S) T_EXTERNAL_ID_USER start (user_end user_id)))"

definition us_profile :: "user_codecs \<Rightarrow> user_store \<Rightarrow> string \<Rightarrow> store_error + profile option" where
  "us_profile C S user_id = user_typed ''profile decode'' (uc_profile C) S T_PROFILE user_id"

definition us_token :: "user_codecs \<Rightarrow> user_store \<Rightarrow> bytes \<Rightarrow> store_error + token_entry option" where
  "us_token C S h = get_typed ''token decode'' (uc_token C) S T_TOKEN h"

definition token_compat :: "user_codecs \<Rightarrow> user_store \<Rightarrow> bytes \<Rightarrow> store_error + (token_entry \<times> bool) option" where
  "token_compat C S h =
     (case rd_get (us_read S) T_TOKEN h of
        None \<Rightarrow> Inr None
      | Some b \<Rightarrow> rbind (decode_token C b) (\<lambda>x. Inr (Some x)))"

section \<open>Devices, messages and keys\<close>

definition us_device :: "user_codecs \<Rightarrow> user_store \<Rightarrow> string \<Rightarrow> string \<Rightarrow> store_error + device option" where
  "us_device C S user_id device_id = user_typed ''device decode'' (uc_device C) S T_DEVICE (user_key user_id device_id)"

definition us_devices :: "user_codecs \<Rightarrow> user_store \<Rightarrow> string \<Rightarrow> store_error + (string \<times> device) list" where
  "us_devices C S user_id =
     (let start = user_key user_id [] in
      rbind (user_range_rows S T_DEVICE start (user_end user_id))
        (each_row (named_row ''device id not UTF-8'' start (decode_r ''device decode'' (uc_device C)))))"

definition us_device_keys :: "user_store \<Rightarrow> string \<Rightarrow> store_error + (string \<times> bytes) list" where
  "us_device_keys S user_id =
     (let start = user_key user_id [] in
      rbind (user_range_rows S T_DEVICE_KEYS start (user_end user_id))
        (each_row (named_row ''device id not UTF-8'' start Inr)))"

definition to_device_events :: "user_store \<Rightarrow> string \<Rightarrow> string \<Rightarrow> u64 \<Rightarrow> store_error + (u64 \<times> bytes) list" where
  "to_device_events S user_id device_id since =
     (let prefix = device_scoped_key user_id device_id [];
          start = prefix @ u64_be (saturating_add since 1) in
      rbind (user_range_rows S T_TO_DEVICE start (prefix_end prefix))
        (each_row (numbered_row ''to-device key shape'' prefix)))"

definition us_key_changes :: "user_codecs \<Rightarrow> user_store \<Rightarrow> u64 \<Rightarrow> u64 \<Rightarrow> store_error + key_change_entry list" where
  "us_key_changes C S since up_to =
     each_row (\<lambda>(_, v). decode_r ''key change decode'' (uc_key_change C) v)
       (rd_range (us_read S) T_KEY_CHANGE (u64_be (saturating_add since 1)) (u64_be (saturating_add up_to 1)))"

definition edu_outbox_destinations :: "user_store \<Rightarrow> string list" where
  "edu_outbox_destinations S =
     fold (\<lambda>(k, _) out.
        let dest = from_utf8_lossy (takeWhile (\<lambda>b. b \<noteq> byte 0) k)
        in if out \<noteq> [] \<and> List.last out = dest then out else out @ [dest])
       (rd_range (us_read S) T_USER_EDU_OUTBOX [] (replicate 256 (byte 255))) []"

definition edu_outbox_tail :: "user_store \<Rightarrow> u64" where
  "edu_outbox_tail S =
     fold (\<lambda>(k, _) m.
        if 8 \<le> length k then max m (case u64_from_be (drop (length k - 8) k) of Some n \<Rightarrow> n | None \<Rightarrow> 0) else m)
       (rd_range (us_read S) T_USER_EDU_OUTBOX [] []) 0"

definition us_edu_outbox :: "user_store \<Rightarrow> string \<Rightarrow> nat \<Rightarrow> store_error + (u64 \<times> bytes) list" where
  "us_edu_outbox S destination limit =
     (let start = user_key destination [] in
      each_row (numbered_row ''outbox key: bad seq'' start)
        (take limit (rd_range (us_read S) T_USER_EDU_OUTBOX start (prefix_end start))))"

definition one_time_key_counts :: "user_store \<Rightarrow> string \<Rightarrow> string \<Rightarrow> store_error + (string, u64) btree_map" where
  "one_time_key_counts S user_id device_id =
     (let prefix = device_scoped_key user_id device_id [] in
      rbind (each_row (\<lambda>(k, _). rbind (key_rest prefix k) (\<lambda>r. Inr (from_utf8_lossy r)))
          (rd_range (us_read S) T_ONE_TIME_KEY prefix (prefix_end prefix)))
        (\<lambda>ids. Inr (count_algorithms ids)))"

definition cross_signing_key :: "user_store \<Rightarrow> string \<Rightarrow> string \<Rightarrow> store_error + bytes option" where
  "cross_signing_key S user_id kind = user_get S T_CROSS_SIGNING (user_key user_id kind)"

definition unused_fallback_algorithms :: "user_codecs \<Rightarrow> user_store \<Rightarrow> string \<Rightarrow> string \<Rightarrow> store_error + string list" where
  "unused_fallback_algorithms C S user_id device_id =
     (let prefix = device_scoped_key user_id device_id [] in
      fold_r (\<lambda>(k, v) out.
          rbind (decode_r ''fallback decode'' (uc_fallback C) v) (\<lambda>entry.
            if fb_used entry then Inr out
            else rbind (key_rest prefix k) (\<lambda>r. Inr (out @ [from_utf8_lossy r]))))
        (rd_range (us_read S) T_FALLBACK_KEY prefix (prefix_end prefix)) [])"

section \<open>Backups of keys\<close>

definition latest_backup_version :: "user_codecs \<Rightarrow> user_store \<Rightarrow> string \<Rightarrow> store_error + (u64 \<times> backup_version_meta) option" where
  "latest_backup_version C S user_id =
     (let start = user_key user_id [] in
      fold_r (\<lambda>(k, v) latest.
          rbind (decode_r ''backup meta decode'' (uc_backup C) v) (\<lambda>meta.
            if bv_deleted meta then Inr latest
            else rbind (key_rest start k) (\<lambda>r.
                 rbind (ok_or (Engine ''backup version key shape'') (u64_from_be r)) (\<lambda>version. Inr (Some (version, meta))))))
        (rd_range (us_read S) T_BACKUP_VERSION start (user_end user_id)) None)"

definition us_backup_version :: "user_codecs \<Rightarrow> user_store \<Rightarrow> string \<Rightarrow> u64 \<Rightarrow> store_error + backup_version_meta option" where
  "us_backup_version C S user_id version =
     rbind (get_typed ''backup meta decode'' (uc_backup C) S T_BACKUP_VERSION (backup_version_key user_id version))
       (\<lambda>m. Inr (live_meta m))"

definition us_backup_keys ::
  "user_store \<Rightarrow> string \<Rightarrow> u64 \<Rightarrow> string option \<Rightarrow> string option \<Rightarrow> store_error + (string \<times> string \<times> bytes) list" where
  "us_backup_keys S user_id version room_id session_id =
     (case (room_id, session_id) of
        (Some room, Some session) \<Rightarrow>
          rbind (user_get S T_BACKUP_KEY (backup_key_prefix user_id version (Some room) (Some session)))
            (\<lambda>v. Inr (case v of Some v \<Rightarrow> [(room, session, v)] | None \<Rightarrow> []))
      | _ \<Rightarrow>
          let base = backup_key_prefix user_id version None None;
              prefix = backup_key_prefix user_id version room_id None in
          each_row (pair_row ''backup key shape'' ''room id not UTF-8'' ''session id not UTF-8'' base Inr)
            (rd_range (us_read S) T_BACKUP_KEY prefix (prefix_end prefix)))"

section \<open>Account data, filters and memberships\<close>

definition us_pushers :: "user_store \<Rightarrow> string \<Rightarrow> store_error + bytes list" where
  "us_pushers S user_id =
     rbind (user_range_rows S T_PUSHER (user_key user_id []) (user_end user_id)) (\<lambda>rows. Inr (map snd rows))"

definition us_account_data :: "user_codecs \<Rightarrow> user_store \<Rightarrow> string \<Rightarrow> string \<Rightarrow> string \<Rightarrow> store_error + account_data_entry option" where
  "us_account_data C S user_id room_id data_type =
     user_typed ''account data decode'' (uc_account_data C) S T_ACCOUNT_DATA (account_data_key user_id room_id data_type)"

definition account_data_all :: "user_codecs \<Rightarrow> user_store \<Rightarrow> string \<Rightarrow> store_error + (string \<times> string \<times> account_data_entry) list" where
  "account_data_all C S user_id =
     (let start = user_key user_id [] in
      each_row (pair_row ''account data key shape'' ''room id not UTF-8'' ''data type not UTF-8'' start
          (decode_r ''account data decode'' (uc_account_data C)))
        (rd_range (us_read S) T_ACCOUNT_DATA start (user_end user_id)))"

definition us_filter :: "user_store \<Rightarrow> string \<Rightarrow> string \<Rightarrow> store_error + bytes option" where
  "us_filter S user_id filter_id = user_get S T_FILTER (user_key user_id filter_id)"

definition us_membership :: "user_codecs \<Rightarrow> user_store \<Rightarrow> string \<Rightarrow> string \<Rightarrow> store_error + membership_entry option" where
  "us_membership C S user_id room_id =
     user_typed ''membership decode'' (uc_membership C) S T_MEMBERSHIP (user_key user_id room_id)"

definition us_memberships :: "user_codecs \<Rightarrow> user_store \<Rightarrow> string \<Rightarrow> store_error + (string \<times> membership_entry) list" where
  "us_memberships C S user_id =
     (let start = user_key user_id [] in
      rbind (user_range_rows S T_MEMBERSHIP start (user_end user_id))
        (each_row (named_row ''room id not UTF-8'' start (decode_r ''membership decode'' (uc_membership C)))))"

definition us_invite_state :: "user_codecs \<Rightarrow> user_store \<Rightarrow> string \<Rightarrow> string \<Rightarrow> store_error + bytes list option" where
  "us_invite_state C S user_id room_id =
     user_typed ''invite state decode'' (uc_byte_lists C) S T_INVITE_STATE (user_key user_id room_id)"

section \<open>The projection's cursors, aliases, the directory and media\<close>

definition us_cursor :: "user_store \<Rightarrow> string \<Rightarrow> store_error + u64" where
  "us_cursor S source = read_cursor (rd_get (us_read S) T_CURSOR source)"

definition us_alias :: "user_codecs \<Rightarrow> user_store \<Rightarrow> string \<Rightarrow> store_error + alias_entry option" where
  "us_alias C S alias = get_typed ''alias decode'' (uc_alias C) S T_ALIAS alias"

definition us_aliases :: "user_codecs \<Rightarrow> user_store \<Rightarrow> store_error + (string \<times> alias_entry) list" where
  "us_aliases C S =
     each_row (\<lambda>(k, v). rbind (decode_r ''alias decode'' (uc_alias C) v) (\<lambda>e. Inr (from_utf8_lossy k, e)))
       (rd_range (us_read S) T_ALIAS [] [])"

definition room_is_public :: "user_store \<Rightarrow> string \<Rightarrow> bool" where
  "room_is_public S room_id \<longleftrightarrow> rd_get (us_read S) T_DIRECTORY room_id \<noteq> None"

definition us_public_rooms :: "user_store \<Rightarrow> store_error + string list" where
  "us_public_rooms S = each_row (\<lambda>(k, _). utf8_or ''room id not UTF-8'' k) (rd_range (us_read S) T_DIRECTORY [] [])"

definition us_room_aliases :: "user_codecs \<Rightarrow> user_store \<Rightarrow> string \<Rightarrow> store_error + string list" where
  "us_room_aliases C S room_id =
     fold_r (\<lambda>(k, v) out.
         rbind (decode_r ''alias decode'' (uc_alias C) v) (\<lambda>entry.
           if al_room_id entry = room_id then rbind (utf8_or ''alias not UTF-8'' k) (\<lambda>a. Inr (out @ [a])) else Inr out))
       (rd_range (us_read S) T_ALIAS [] []) []"

definition us_media :: "user_codecs \<Rightarrow> user_store \<Rightarrow> string \<Rightarrow> store_error + media_meta option" where
  "us_media C S media_id = get_typed ''media decode'' (uc_media C) S T_MEDIA media_id"

definition media_blob_ids :: "user_codecs \<Rightarrow> user_store \<Rightarrow> store_error + string btree_set" where
  "media_blob_ids C S =
     fold_r (\<lambda>(k, v) out.
         rbind (decode_r ''media decode'' (uc_media C) v) (\<lambda>meta.
           if med_pending meta then Inr out
           else case med_blob meta of
                  Some blob \<Rightarrow> Inr (bs_insert blob out)
                | None \<Rightarrow> rbind (utf8_or ''media id not UTF-8'' k) (\<lambda>m. Inr (bs_insert m out))))
       (rd_range (us_read S) T_MEDIA [] []) []"

end
