(* ===== verification/User_Read_Facts.thy ===== *)
theory User_Read_Facts
  imports User_Reads
begin

text \<open>
  What the typed reads of the user shard return: the pages of the account list, the listings of one user, and
  the reads of a node that does not host the user's half of the tables.
\<close>

section \<open>Pages of accounts\<close>

text \<open>The accounts of a node from a name on, in the order of their names.\<close>

definition accounts_from :: "user_codecs \<Rightarrow> read_ctx \<Rightarrow> string option \<Rightarrow> (string \<times> account) list" where
  "accounts_from C rd from =
     map (\<lambda>(k, v). (k, the (dec (uc_account C) v))) (rd_range rd T_ACCOUNT (case from of None \<Rightarrow> [] | Some f \<Rightarrow> f) [])"

text \<open>Account names are text and account rows decode.\<close>

definition accounts_readable :: "user_codecs \<Rightarrow> read_ctx \<Rightarrow> bool" where
  "accounts_readable C rd \<longleftrightarrow>
     (\<forall>(k, v) \<in> set (rd_range rd T_ACCOUNT [] []). valid_utf8 k \<and> dec (uc_account C) v \<noteq> None)"

lemma accounts_readableD:
  assumes "bt_wf (rd_engine rd)" and "accounts_readable C rd" and "rd_get rd T_ACCOUNT k = Some v"
  shows "valid_utf8 k \<and> dec (uc_account C) v \<noteq> None"
proof -
  have "(k, v) \<in> set (rd_range rd T_ACCOUNT [] [])"
    using rd_range_rows[OF assms(1), of T_ACCOUNT] assms(3) by simp
  then show ?thesis using assms(2) unfolding accounts_readable_def by blast
qed

lemma account_page_rows:
  assumes "\<forall>(k, v) \<in> set rows. valid_utf8 k \<and> dec (uc_account C) v \<noteq> None"
  shows "account_page C limit rows =
    Inr (map (\<lambda>(k, v). (k, the (dec (uc_account C) v))) (take limit rows), if limit < length rows then Some (fst (rows ! limit)) else None)"
  using assms
proof (induction rows arbitrary: limit)
  case (Cons x rows)
  then show ?case
    by (cases limit) (auto simp: utf8_or_def from_utf8_def decode_r_def split: option.split)
qed simp

lemma rd_range_suffix:
  assumes wf: "bt_wf (rd_engine rd)" and t: "t \<noteq> - 1" and i: "i < length (rd_range rd t a [])"
  shows "rd_range rd t (fst (rd_range rd t a [] ! i)) [] = drop i (rd_range rd t a [])"
proof -
  let ?rows = "rd_range rd t a []"
  let ?k = "fst (?rows ! i)"
  have srt: "bt_wf ?rows" "bt_wf (rd_range rd t ?k [])" using rd_range_sorted[OF wf t] by blast+
  have k: "a \<le> ?k" using rd_range_rows[OF wf t, of ?k "snd (?rows ! i)" a "[]"] nth_mem[OF i] by simp
  have drop: "bt_wf (drop i ?rows)" using srt(1) by (simp add: sorted_wrt_drop drop_map[symmetric])
  have split: "?rows = take i ?rows @ ?rows ! i # drop (Suc i) ?rows" by (rule id_take_nth_drop[OF i])
  have "bt_wf (take i ?rows @ ?rows ! i # drop (Suc i) ?rows)" using srt(1) split by simp
  then have "\<forall>x \<in> set (take i ?rows). fst x < ?k" "\<forall>x \<in> set (drop (Suc i) ?rows). ?k < fst x"
    by (simp_all add: sorted_wrt_append)
  then have sub: "x \<in> set (drop i ?rows) \<longleftrightarrow> x \<in> set ?rows \<and> ?k \<le> fst x" for x
    using split Cons_nth_drop_Suc[OF i] by (metis Un_iff leD less_imp_le order_refl set_ConsD set_append list.set_intros)
  have "set (rd_range rd t ?k []) = set (drop i ?rows)"
    using sub k by (auto simp: rd_range_rows[OF wf t])
  then show ?thesis using bt_wf_set_eqI[OF srt(2) drop] by simp
qed

lemma accounts_from_mem:
  assumes "bt_wf (rd_engine rd)" and "accounts_readable C rd"
  shows "(u, a) \<in> set (accounts_from C rd from) \<longleftrightarrow>
    Option.bind (rd_get rd T_ACCOUNT u) (dec (uc_account C)) = Some a \<and> (case from of None \<Rightarrow> True | Some f \<Rightarrow> f \<le> u)"
proof -
  have t: "T_ACCOUNT \<noteq> - 1" by simp
  let ?f = "case from of None \<Rightarrow> [] | Some f \<Rightarrow> f"
  have "(u, a) \<in> set (accounts_from C rd from) \<longleftrightarrow>
      (\<exists>v. (u, v) \<in> set (rd_range rd T_ACCOUNT ?f []) \<and> a = the (dec (uc_account C) v))"
    by (auto simp: accounts_from_def simp del: user_tables)
  also have "\<dots> \<longleftrightarrow> (\<exists>v. rd_get rd T_ACCOUNT u = Some v \<and> ?f \<le> u \<and> dec (uc_account C) v = Some a)"
    using accounts_readableD[OF assms, of u] by (auto simp: rd_range_rows[OF assms(1) t] simp del: user_tables)
  also have "\<dots> \<longleftrightarrow> Option.bind (rd_get rd T_ACCOUNT u) (dec (uc_account C)) = Some a \<and> (case from of None \<Rightarrow> True | Some f \<Rightarrow> f \<le> u)"
    by (cases "from") (auto simp: bind_eq_Some_conv simp del: user_tables)
  finally show ?thesis .
qed

text \<open>
  The pages of the account list cover it: a page holds the next accounts in order of their names, at most
  as many as asked for, and the accounts from its start on are those of the page followed by those from the
  name it continues with; without such a name the page is the last. Following the names from the first page
  therefore lists every account exactly once, in order.
\<close>

theorem account_pages_cover:
  assumes "bt_wf (rd_engine rd)" and "accounts_readable C rd" and "limit < 2 ^ 64 - 1"
  shows "\<exists>page nxt. us_accounts C (us_new rd) from limit = Inr (page, nxt) \<and> length page \<le> limit \<and>
    accounts_from C rd from = page @ (case nxt of None \<Rightarrow> [] | Some _ \<Rightarrow> accounts_from C rd nxt) \<and>
    (case nxt of None \<Rightarrow> True | Some name \<Rightarrow> length page = limit \<and> (\<forall>(u, a) \<in> set page. u < name)) \<and>
    sorted_wrt (<) (map fst page) \<and>
    (\<forall>u a. (u, a) \<in> set (accounts_from C rd from) \<longleftrightarrow>
       Option.bind (rd_get rd T_ACCOUNT u) (dec (uc_account C)) = Some a \<and> (case from of None \<Rightarrow> True | Some f \<Rightarrow> f \<le> u))"
proof -
  let ?f = "case from of None \<Rightarrow> [] | Some f \<Rightarrow> f"
  let ?rows = "rd_range rd T_ACCOUNT ?f []"
  let ?d = "\<lambda>(k, v). (k :: string, the (dec (uc_account C) v))"
  have t: "T_ACCOUNT \<noteq> - 1" by simp
  have ok: "\<forall>(k, v) \<in> set ?rows. valid_utf8 k \<and> dec (uc_account C) v \<noteq> None"
    using accounts_readableD[OF assms(1,2)] by (fast dest: rd_range_rows[OF assms(1) t, THEN iffD1])
  have okt: "\<forall>(k, v) \<in> set (take (Suc limit) ?rows). valid_utf8 k \<and> dec (uc_account C) v \<noteq> None"
    using ok by (meson in_set_takeD)
  have srt: "bt_wf ?rows" by (rule rd_range_sorted[OF assms(1) t])
  have page: "us_accounts C (us_new rd) from limit =
      Inr (map ?d (take limit ?rows), if limit < length ?rows then Some (fst (?rows ! limit)) else None)"
    using account_page_rows[OF okt, of limit] assms(3)
    by (auto simp: us_accounts_def user_scan_def us_new_def rd_scan_forward min_def simp del: user_tables)
  have keys: "map fst (map ?d rows) = map fst rows" for rows :: "(string \<times> bytes) list" by (induction rows) auto
  have sortedp: "sorted_wrt (<) (map fst (map ?d (take limit ?rows)))"
    unfolding keys using srt by (simp add: sorted_wrt_take take_map[symmetric])
  show ?thesis
  proof (cases "limit < length ?rows")
    case False
    then have all: "accounts_from C rd from = map ?d (take limit ?rows)" by (simp add: accounts_from_def del: user_tables)
    show ?thesis
      by (intro exI[of _ "map ?d (take limit ?rows)"] exI[of _ None] conjI allI accounts_from_mem[OF assms(1,2)] sortedp)
         (use page False all in \<open>simp_all del: user_tables\<close>)
  next
    case True
    let ?n = "fst (?rows ! limit)"
    have rest: "accounts_from C rd (Some ?n) = map ?d (drop limit ?rows)"
      using rd_range_suffix[OF assms(1) t True] by (simp add: accounts_from_def del: user_tables)
    have below: "\<forall>(u, a) \<in> set (map ?d (take limit ?rows)). u < ?n"
    proof -
      have "fst x < ?n" if "x \<in> set (take limit ?rows)" for x
        using that srt True sorted_wrt_nth_less[of "(<)" "map fst ?rows" _ limit] by (auto simp: in_set_conv_nth)
      then show ?thesis by fastforce
    qed
    have split: "accounts_from C rd from = map ?d (take limit ?rows) @ accounts_from C rd (Some ?n)"
      unfolding rest by (simp add: accounts_from_def map_append[symmetric] del: map_append user_tables)
    show ?thesis
      by (intro exI[of _ "map ?d (take limit ?rows)"] exI[of _ "Some ?n"] conjI allI accounts_from_mem[OF assms(1,2)] sortedp)
         (use page True below split in \<open>simp_all del: user_tables map_append\<close>)
  qed
qed

section \<open>Reads of a half hosted elsewhere\<close>

text \<open>A replica answers the operations of the Read RPC from its applied state; an error travels as its text.\<close>

definition replica_reader :: "(shard_error \<Rightarrow> string) \<Rightarrow> read_ctx \<Rightarrow> u64 \<Rightarrow> read_op \<Rightarrow> string + read_value" where
  "replica_reader msg rd seq op = map_sum msg id (execute rd seq op)"

lemma replica_reads:
  assumes "APP_TABLE_MIN \<le> t"
  shows "user_get (with_remote_per_user rd (replica_reader msg rd' seq)) t k = user_get (us_new rd') t k"
    "user_range_rows (with_remote_per_user rd (replica_reader msg rd' seq)) t a e = user_range_rows (us_new rd') t a e"
    "limit < 2 ^ 32 \<Longrightarrow> user_scan (with_remote_per_user rd (replica_reader msg rd' seq)) t a e limit r = user_scan (us_new rd') t a e limit r"
  using assms
  by (simp_all add: user_get_def user_range_rows_def user_scan_def with_remote_per_user_def us_new_def replica_reader_def
      execute_def table_of_def unat_of_nat take_bit_nat_eq_self min_def)

text \<open>
  The reads that go to the node's own tables although they are of one user's data: with the user's half on
  another node, an entry of account data that the read of one entry returns is missing in the list of all.
\<close>

theorem remote_account_data_lost:
  assumes "lossless (uc_account_data C)"
    and "rd_get rd' T_ACCOUNT_DATA (account_data_key u room ty) = Some (enc (uc_account_data C) e)"
    and "rd_range rd T_ACCOUNT_DATA (user_key u []) (user_end u) = []"
  shows "us_account_data C (with_remote_per_user rd (replica_reader msg rd' seq)) u room ty = Inr (Some e) \<and>
    account_data_all C (with_remote_per_user rd (replica_reader msg rd' seq)) u = Inr []"
proof -
  have "user_get (with_remote_per_user rd (replica_reader msg rd' seq)) T_ACCOUNT_DATA k = Inr (rd_get rd' T_ACCOUNT_DATA k)" for k
    using replica_reads(1)[of T_ACCOUNT_DATA] by (simp add: user_get_def us_new_def APP_TABLE_MIN_def)
  then show ?thesis using assms
    by (simp add: us_account_data_def account_data_all_def user_typed_def with_remote_per_user_def decode_opt_def decode_r_def
        lossless_def Let_def del: user_tables)
qed

end
