(* ===== verification/Room_Types.thy ===== *)
theory Room_Types
  imports Ctx_Monad Canonical_Json
begin

text \<open>
  The stored records, keys, commands and responses of a room shard (\<open>types.rs\<close> of
  \<open>saltator-roomserver\<close>, and the keys of its \<open>machine.rs\<close>).
\<close>

section \<open>Tables and keys\<close>

definition T_EVENT :: u8 where "T_EVENT = APP_TABLE_FIRST"
definition T_SEQ :: u8 where "T_SEQ = APP_TABLE_FIRST + 1"
definition T_GROUP :: u8 where "T_GROUP = APP_TABLE_FIRST + 2"
definition T_ROOM :: u8 where "T_ROOM = APP_TABLE_FIRST + 3"
definition T_ROOM_SEQ :: u8 where "T_ROOM_SEQ = APP_TABLE_FIRST + 4"
definition T_RECEIPT :: u8 where "T_RECEIPT = APP_TABLE_FIRST + 5"
definition T_REDACT :: u8 where "T_REDACT = APP_TABLE_FIRST + 6"
definition T_HISTORY :: u8 where "T_HISTORY = APP_TABLE_FIRST + 7"
definition T_TXN :: u8 where "T_TXN = APP_TABLE_FIRST + 8"
definition T_TXN_IDX :: u8 where "T_TXN_IDX = APP_TABLE_FIRST + 9"
definition T_TXN_ECHO :: u8 where "T_TXN_ECHO = APP_TABLE_FIRST + 10"

lemma room_tables [simp]:
  "T_EVENT = 9" "T_SEQ = 10" "T_GROUP = 11" "T_ROOM = 12" "T_ROOM_SEQ = 13" "T_RECEIPT = 14" "T_REDACT = 15"
  "T_HISTORY = 16" "T_TXN = 17" "T_TXN_IDX = 18" "T_TXN_ECHO = 19"
  by (simp_all add: T_EVENT_def T_SEQ_def T_GROUP_def T_ROOM_def T_ROOM_SEQ_def T_RECEIPT_def T_REDACT_def
      T_HISTORY_def T_TXN_def T_TXN_IDX_def T_TXN_ECHO_def)

definition MAX_GROUP_CHAIN :: u16 where "MAX_GROUP_CHAIN = 32"

definition room_u64_key :: "string \<Rightarrow> u64 \<Rightarrow> bytes" where
  "room_u64_key room_id n = room_id @ byte 0 # u64_be n"

definition room_u64_end :: "string \<Rightarrow> bytes" where
  "room_u64_end room_id = room_id @ [byte 1]"

definition receipt_key :: "string \<Rightarrow> string \<Rightarrow> string \<Rightarrow> string \<Rightarrow> bytes" where
  "receipt_key room_id user_id receipt_type thread =
     room_id @ byte 0 # user_id @ byte 0 # receipt_type @ byte 0 # thread"

definition room_txn_key :: "string \<Rightarrow> string \<Rightarrow> string \<Rightarrow> string \<Rightarrow> bytes" where
  "room_txn_key user_id device_id scope txn_id =
     user_id @ byte 0 # device_id @ byte 0 # scope @ byte 0 # txn_id"

section \<open>Redaction directives\<close>

datatype redact_directive = Applies string | Pending string bool

definition directive_encode :: "redact_directive \<Rightarrow> string" where
  "directive_encode d =
     (case d of
        Applies eid \<Rightarrow> eid
      | Pending eid may_redact \<Rightarrow> CHR ''?'' # (if may_redact then CHR ''p'' else CHR ''-'') # eid)"

definition directive_decode :: "string \<Rightarrow> redact_directive" where
  "directive_decode s =
     (case s of
        m # f # eid \<Rightarrow>
          if m = CHR ''?'' \<and> f = CHR ''p'' then Pending eid True
          else if m = CHR ''?'' \<and> f = CHR ''-'' then Pending eid False
          else Applies s
      | _ \<Rightarrow> Applies s)"

section \<open>Records\<close>

datatype rejected_kind = AuthChain string | StateRejected string

fun rejected_reason :: "rejected_kind \<Rightarrow> string" where
  "rejected_reason (AuthChain r) = r"
| "rejected_reason (StateRejected r) = r"

record stored_event =
  se_raw :: bytes
  se_seq :: u64
  se_state_group_after :: u64
  se_depth :: u64
  se_rejected :: "rejected_kind option"
  se_history_idx :: "u64 option"
  se_imported :: bool
  se_relay :: bool

record state_group =
  sg_parent :: "u64 option"
  sg_chain_len :: u16
  sg_entries :: "((string \<times> string) \<times> string) list"

record room_meta =
  rm_version :: string
  rm_create_event_id :: string
  rm_current_group :: u64
  rm_next_group :: u64
  rm_extremities :: "string list"
  rm_history_frontier :: "string list"
  rm_next_history_idx :: u64
  rm_gap_markers :: "u64 list"

record txn_stamp =
  txn_user_id :: string
  txn_device_id :: string
  txn_scope :: string
  txn_txn_id :: string
  txn_ts :: u64

record import_event =
  ie_event_id :: string
  ie_raw :: bytes
  ie_depth :: u64

record import_segment =
  is_room_id :: string
  is_events :: "import_event list"
  is_state :: "((string \<times> string) \<times> string) list"
  is_timeline :: "import_event list"
  is_frontier_add :: "string list"

record import_history =
  ih_room_id :: string
  ih_events :: "import_event list"

record import_room =
  ir_room_id :: string
  ir_version :: string
  ir_create_event_id :: string
  ir_events :: "import_event list"
  ir_join_event_id :: string
  ir_join_raw :: bytes
  ir_join_depth :: u64
  ir_state :: "((string \<times> string) \<times> string) list"
  ir_history_frontier :: "string list"

record append_event =
  ae_room_id :: string
  ae_event_id :: string
  ae_raw :: bytes
  ae_depth :: u64
  ae_rejected :: "rejected_kind option"
  ae_new_groups :: "(u64 \<times> state_group) list"
  ae_state_group_after :: u64
  ae_new_current_group :: u64
  ae_new_extremities :: "string list"
  ae_next_group :: u64
  ae_create_version :: "string option"
  ae_redacts :: "string option"
  ae_relay :: bool

record receipt_cmd =
  rcp_room_id :: string
  rcp_user_id :: string
  rcp_receipt_type :: string
  rcp_event_id :: string
  rcp_thread_id :: "string option"
  rcp_ts :: u64

record receipt_record =
  rr_event_id :: string
  rr_thread_id :: "string option"
  rr_ts :: u64
  rr_seq :: u64

datatype room_command =
    Append append_event
  | ReceiptCommand receipt_cmd
  | Import import_room
  | ImportHistory import_history
  | ImportSegment import_segment
  | AppendStamped append_event txn_stamp

datatype room_response =
    Accepted string u64
  | Rejected string string
  | Duplicate string
  | ReceiptAt u64
  | History u64 bool
  | Segment u64

datatype seq_entry =
    SeqEvent string string
  | SeqReceipt string string string string u64

datatype change_payload = ChangeEvent string string | ChangeReceipt string

text \<open>
  The codecs of the shard: \<open>postcard\<close> for what it stores, \<open>serde_json\<close> for the text of events.
  \<open>canonical_of\<close> parses a text and then converts it to canonical JSON, either of which may fail;
  \<open>object_of\<close> reads it as an object directly, \<open>raw_of\<close> writes an object.
\<close>

datatype text_error = NotJson string | NotCanonical string

record room_codecs =
  rc_command :: "room_command codec"
  rc_response :: "room_response codec"
  rc_event :: "stored_event codec"
  rc_group :: "state_group codec"
  rc_meta :: "room_meta codec"
  rc_seq :: "seq_entry codec"
  rc_receipt :: "receipt_record codec"
  rc_change :: "change_payload codec"
  object_of :: "bytes \<Rightarrow> jobj option"
  canonical_of :: "bytes \<Rightarrow> text_error + json"
  raw_of :: "jobj \<Rightarrow> bytes option"

section \<open>The layout\<close>

lemma room_u64_key_inject [simp]: "room_u64_key r n = room_u64_key r' n' \<longleftrightarrow> r = r' \<and> n = n'"
  by (simp add: room_u64_key_def append_eq_append_conv)

lemma room_u64_key_less [simp]: "room_u64_key r n < room_u64_key r n' \<longleftrightarrow> n < n'"
  by (simp add: room_u64_key_def)

text \<open>
  A directive survives its encoding: an event identifier starts with \<open>$\<close> and is never mistaken for
  the pending form.
\<close>

lemma directive_roundtrip:
  assumes "\<And>eid. d = Applies eid \<Longrightarrow> hd eid = CHR ''$''"
  shows "directive_decode (directive_encode d) = d"
  using assms by (cases d) (auto simp: directive_decode_def directive_encode_def split: list.split)

lemma directive_bare: "hd eid \<noteq> CHR ''?'' \<Longrightarrow> directive_decode eid = Applies eid"
  by (auto simp: directive_decode_def split: list.split)

end
