(* ===== verification/Room_Machine.thy ===== *)
theory Room_Machine
  imports Room_Types
begin

text \<open>
  The room machine (\<open>machine.rs\<close> of \<open>saltator-roomserver\<close>): a deterministic interpreter of commands
  whose outcome the pipeline has computed. Every definition is a program over the context of the command.
\<close>

definition ROOM_SCHEMA_VERSION :: u32 where "ROOM_SCHEMA_VERSION = 2"

definition ROOM_SHARD :: shard_id where
  "ROOM_SHARD = \<lparr>sid_keyspace = Room, sid_index = 0\<rparr>"

section \<open>Shared steps\<close>

text \<open>The references of an event, as the loops over \<open>prev_events\<close> and \<open>auth_events\<close> see them.\<close>

definition id_list :: "jobj \<Rightarrow> string \<Rightarrow> string list" where
  "id_list obj k =
     (case bt_get obj k of
        Some (JArr a) \<Rightarrow> List.map_filter (\<lambda>v. case v of JStr s \<Rightarrow> Some s | _ \<Rightarrow> None) a
      | _ \<Rightarrow> [])"

definition prev_event_ids :: "jobj \<Rightarrow> string list" where
  "prev_event_ids obj = id_list obj ''prev_events''"

definition auth_event_ids :: "jobj \<Rightarrow> string list" where
  "auth_event_ids obj = id_list obj ''auth_events''"

text \<open>An event is visible once it is on the timeline or in the history order.\<close>

definition is_visible :: "stored_event option \<Rightarrow> bool" where
  "is_visible s = (case s of None \<Rightarrow> False | Some e \<Rightarrow> 0 < se_seq e \<or> se_history_idx e \<noteq> None)"

definition on_timeline :: "stored_event option \<Rightarrow> bool" where
  "on_timeline s = (case s of None \<Rightarrow> False | Some e \<Rightarrow> 0 < se_seq e)"

definition get_event :: "room_codecs \<Rightarrow> string \<Rightarrow> stored_event option ap" where
  "get_event C event_id = aget_typed ''event decode'' (rc_event C) T_EVENT event_id"

definition put_event :: "room_codecs \<Rightarrow> string \<Rightarrow> stored_event \<Rightarrow> unit ap" where
  "put_event C event_id stored = aput T_EVENT event_id (enc (rc_event C) stored)"

definition put_meta :: "room_codecs \<Rightarrow> string \<Rightarrow> room_meta \<Rightarrow> unit ap" where
  "put_meta C room_id meta = aput T_ROOM room_id (enc (rc_meta C) meta)"

definition put_group :: "room_codecs \<Rightarrow> string \<Rightarrow> u64 \<times> state_group \<Rightarrow> unit ap" where
  "put_group C room_id = (\<lambda>(gid, group). aput T_GROUP (room_u64_key room_id gid) (enc (rc_group C) group))"

text \<open>A supporting event of an import: stored off the timeline, unless it is stored already.\<close>

definition put_support :: "room_codecs \<Rightarrow> import_event \<Rightarrow> unit ap" where
  "put_support C ev =
     abind (aget T_EVENT (ie_event_id ev)) (\<lambda>b.
       if b \<noteq> None then aret ()
       else put_event C (ie_event_id ev)
         \<lparr>se_raw = ie_raw ev, se_seq = 0, se_state_group_after = 0, se_depth = ie_depth ev, se_rejected = None,
          se_history_idx = None, se_imported = True, se_relay = False\<rparr>)"

text \<open>Emitting an event: its change record, its place in the shard's and in the room's timeline.\<close>

definition emit_event :: "room_codecs \<Rightarrow> string \<Rightarrow> string \<Rightarrow> u64 ap" where
  "emit_event C room_id event_id = aemit (enc (rc_change C) (ChangeEvent room_id event_id))"

definition put_timeline :: "room_codecs \<Rightarrow> string \<Rightarrow> string \<Rightarrow> u64 \<Rightarrow> unit ap" where
  "put_timeline C room_id event_id seq =
     aseq (aput T_SEQ (u64_be seq) (enc (rc_seq C) (SeqEvent room_id event_id)))
          (aput T_ROOM_SEQ (room_u64_key room_id seq) event_id)"

section \<open>Receipts\<close>

definition apply_receipt :: "room_codecs \<Rightarrow> receipt_cmd \<Rightarrow> room_response ap" where
  "apply_receipt C cmd =
     (let k = receipt_key (rcp_room_id cmd) (rcp_user_id cmd) (rcp_receipt_type cmd)
                (case rcp_thread_id cmd of None \<Rightarrow> [] | Some t \<Rightarrow> t) in
      abind (aget_typed ''receipt decode'' (rc_receipt C) T_RECEIPT k) (\<lambda>existing.
      if (case existing of None \<Rightarrow> False | Some r \<Rightarrow> rr_event_id r = rcp_event_id cmd) then aret (ReceiptAt 0)
      else abind (aemit (enc (rc_change C) (ChangeReceipt (rcp_room_id cmd)))) (\<lambda>seq.
        aseq (aput T_SEQ (u64_be seq) (enc (rc_seq C)
               (SeqReceipt (rcp_room_id cmd) (rcp_user_id cmd) (rcp_receipt_type cmd) (rcp_event_id cmd) (rcp_ts cmd))))
       (aseq (aput T_RECEIPT k (enc (rc_receipt C)
               \<lparr>rr_event_id = rcp_event_id cmd, rr_thread_id = rcp_thread_id cmd, rr_ts = rcp_ts cmd, rr_seq = seq\<rparr>))
        (aret (ReceiptAt seq))))))"

section \<open>Appending an event\<close>

definition put_redact :: "string \<Rightarrow> string \<Rightarrow> unit ap" where
  "put_redact directive redactor_id =
     (case directive_decode directive of
        Applies target \<Rightarrow> aput T_REDACT target (directive_encode (Applies redactor_id))
      | Pending target may_redact \<Rightarrow>
          abind (aget T_REDACT target) (\<lambda>entry.
            if \<not> may_redact \<and> entry \<noteq> None then aret ()
            else aput T_REDACT target (directive_encode (Pending redactor_id may_redact))))"

definition append_rejected :: "room_codecs \<Rightarrow> append_event \<Rightarrow> rejected_kind \<Rightarrow> room_response ap" where
  "append_rejected C cmd rejected =
     aseq (put_event C (ae_event_id cmd)
       \<lparr>se_raw = ae_raw cmd, se_seq = 0, se_state_group_after = ae_state_group_after cmd, se_depth = ae_depth cmd,
        se_rejected = Some rejected, se_history_idx = None, se_imported = False, se_relay = False\<rparr>)
    (aseq (afor (put_group C (ae_room_id cmd)) (ae_new_groups cmd))
    (abind (aget_typed ''room meta decode'' (rc_meta C) T_ROOM (ae_room_id cmd)) (\<lambda>m.
     aseq (case m of
             Some meta \<Rightarrow>
               if rm_next_group meta < ae_next_group cmd
               then put_meta C (ae_room_id cmd) (meta\<lparr>rm_next_group := ae_next_group cmd\<rparr>) else aret ()
           | None \<Rightarrow> aret ())
     (aret (Rejected (ae_event_id cmd) (rejected_reason rejected))))))"

definition append_meta :: "room_codecs \<Rightarrow> append_event \<Rightarrow> room_meta ap" where
  "append_meta C cmd =
     (case ae_create_version cmd of
        Some version \<Rightarrow> aret
          \<lparr>rm_version = version, rm_create_event_id = ae_event_id cmd, rm_current_group = ae_new_current_group cmd,
           rm_next_group = ae_next_group cmd, rm_extremities = ae_new_extremities cmd, rm_history_frontier = [],
           rm_next_history_idx = 1, rm_gap_markers = []\<rparr>
      | None \<Rightarrow>
          abind (aget_typed ''room meta decode'' (rc_meta C) T_ROOM (ae_room_id cmd)) (\<lambda>m.
          case m of
            None \<Rightarrow> alift (Inl (Engine (''append to unknown room '' @ ae_room_id cmd @ '' (non-create)'')))
          | Some meta \<Rightarrow> aret (meta\<lparr>rm_current_group := ae_new_current_group cmd, rm_next_group := ae_next_group cmd,
                            rm_extremities := ae_new_extremities cmd\<rparr>)))"

definition append_accepted :: "room_codecs \<Rightarrow> append_event \<Rightarrow> room_response ap" where
  "append_accepted C cmd =
     abind (emit_event C (ae_room_id cmd) (ae_event_id cmd)) (\<lambda>seq.
     aseq (put_event C (ae_event_id cmd)
       \<lparr>se_raw = ae_raw cmd, se_seq = seq, se_state_group_after = ae_state_group_after cmd, se_depth = ae_depth cmd,
        se_rejected = None, se_history_idx = None, se_imported = False, se_relay = ae_relay cmd\<rparr>)
    (aseq (put_timeline C (ae_room_id cmd) (ae_event_id cmd) seq)
    (aseq (case ae_redacts cmd of None \<Rightarrow> aret () | Some directive \<Rightarrow> put_redact directive (ae_event_id cmd))
    (aseq (afor (put_group C (ae_room_id cmd)) (ae_new_groups cmd))
    (abind (append_meta C cmd) (\<lambda>meta.
     aseq (put_meta C (ae_room_id cmd) meta)
     (aret (Accepted (ae_event_id cmd) seq))))))))"

definition apply_append :: "room_codecs \<Rightarrow> append_event \<Rightarrow> room_response ap" where
  "apply_append C cmd =
     abind (aget T_EVENT (ae_event_id cmd)) (\<lambda>b.
       if b \<noteq> None then aret (Duplicate (ae_event_id cmd))
       else case ae_rejected cmd of
              Some rejected \<Rightarrow> append_rejected C cmd rejected
            | None \<Rightarrow> append_accepted C cmd)"

section \<open>Transactions\<close>

definition TXN_HORIZON_MS :: u64 where "TXN_HORIZON_MS = 24 * 60 * 60 * 1000"

definition txn_echo_value :: "txn_stamp \<Rightarrow> bytes" where
  "txn_echo_value txn = txn_user_id txn @ byte 0 # txn_device_id txn @ byte 0 # txn_txn_id txn"

definition prune_txn :: "bytes \<times> bytes \<Rightarrow> unit ap" where
  "prune_txn = (\<lambda>(k, _).
     aseq (adelete T_TXN_IDX k)
       (if length k > 8
        then abind (aget T_TXN (drop 8 k)) (\<lambda>stale.
          aseq (case stale of Some e \<Rightarrow> adelete T_TXN_ECHO e | None \<Rightarrow> aret ()) (adelete T_TXN (drop 8 k)))
        else aret ()))"

definition put_txn :: "txn_stamp \<Rightarrow> string \<Rightarrow> unit ap" where
  "put_txn txn event_id =
     (let k = room_txn_key (txn_user_id txn) (txn_device_id txn) (txn_scope txn) (txn_txn_id txn);
          cutoff = saturating_sub (txn_ts txn) TXN_HORIZON_MS in
      aseq (aput T_TXN k event_id)
     (aseq (aput T_TXN_IDX (u64_be (txn_ts txn) @ k) [])
     (aseq (aput T_TXN_ECHO event_id (txn_echo_value txn))
     (abind (arange T_TXN_IDX [] (u64_be cutoff)) (afor prune_txn)))))"

definition apply_stamped :: "room_codecs \<Rightarrow> append_event \<Rightarrow> txn_stamp \<Rightarrow> room_response ap" where
  "apply_stamped C event txn =
     abind (apply_append C event) (\<lambda>resp.
       aseq (case resp of Accepted eid _ \<Rightarrow> put_txn txn eid | _ \<Rightarrow> aret ()) (aret resp))"

section \<open>Importing a room\<close>

definition add_missing :: "room_codecs \<Rightarrow> string \<Rightarrow> string btree_set \<Rightarrow> string btree_set ap" where
  "add_missing C eid frontier =
     abind (get_event C eid) (\<lambda>s. aret (if is_visible s then frontier else bs_insert eid frontier))"

definition import_group_id :: "room_meta option \<Rightarrow> u64" where
  "import_group_id existing_meta = (case existing_meta of Some m \<Rightarrow> rm_next_group m | None \<Rightarrow> 1)"

definition import_finish :: "room_codecs \<Rightarrow> import_room \<Rightarrow> room_meta option \<Rightarrow> u64 \<Rightarrow> room_response ap" where
  "import_finish C cmd existing_meta seq =
     abind (afold (add_missing C) (ir_history_frontier cmd)
              (case existing_meta of Some m \<Rightarrow> bs_of (rm_history_frontier m) | None \<Rightarrow> [])) (\<lambda>frontier.
     aseq (put_meta C (ir_room_id cmd)
       \<lparr>rm_version = ir_version cmd, rm_create_event_id = ir_create_event_id cmd,
        rm_current_group = import_group_id existing_meta, rm_next_group = import_group_id existing_meta + 1,
        rm_extremities = [ir_join_event_id cmd], rm_history_frontier = frontier,
        rm_next_history_idx = (case existing_meta of Some m \<Rightarrow> rm_next_history_idx m | None \<Rightarrow> 1),
        rm_gap_markers = (case existing_meta of Some m \<Rightarrow> rm_gap_markers m | None \<Rightarrow> [])\<rparr>)
     (aret (Accepted (ir_join_event_id cmd) seq)))"

definition import_join :: "room_codecs \<Rightarrow> import_room \<Rightarrow> room_meta option \<Rightarrow> room_response ap" where
  "import_join C cmd existing_meta =
     abind (emit_event C (ir_room_id cmd) (ir_join_event_id cmd)) (\<lambda>seq.
     aseq (put_event C (ir_join_event_id cmd)
       \<lparr>se_raw = ir_join_raw cmd, se_seq = seq, se_state_group_after = import_group_id existing_meta,
        se_depth = ir_join_depth cmd, se_rejected = None, se_history_idx = None, se_imported = True, se_relay = False\<rparr>)
    (aseq (put_timeline C (ir_room_id cmd) (ir_join_event_id cmd) seq)
    (import_finish C cmd existing_meta seq)))"

definition import_known :: "room_codecs \<Rightarrow> import_room \<Rightarrow> room_meta option \<Rightarrow> bool ap" where
  "import_known C cmd existing_meta =
     (if existing_meta \<noteq> None then abind (get_event C (ir_join_event_id cmd)) (\<lambda>s. aret (on_timeline s)) else aret False)"

definition apply_import :: "room_codecs \<Rightarrow> import_room \<Rightarrow> room_response ap" where
  "apply_import C cmd =
     abind (aget_typed ''room meta decode'' (rc_meta C) T_ROOM (ir_room_id cmd)) (\<lambda>existing_meta.
     abind (import_known C cmd existing_meta) (\<lambda>known.
     if known then aret (Duplicate (ir_join_event_id cmd))
     else
       aseq (afor (put_support C) (ir_events cmd))
      (aseq (put_group C (ir_room_id cmd)
               (import_group_id existing_meta, \<lparr>sg_parent = None, sg_chain_len = 0, sg_entries = ir_state cmd\<rparr>))
      (import_join C cmd existing_meta))))"

section \<open>Importing a segment\<close>

record segment_acc =
  sa_appended :: u64
  sa_first :: "u64 option"
  sa_last :: "string option"

definition segment_event :: "room_codecs \<Rightarrow> string \<Rightarrow> u64 \<Rightarrow> import_event \<Rightarrow> segment_acc \<Rightarrow> segment_acc ap" where
  "segment_event C room_id group_id ev acc =
     abind (get_event C (ie_event_id ev)) (\<lambda>s.
       if on_timeline s then aret acc
       else abind (emit_event C room_id (ie_event_id ev)) (\<lambda>seq.
         aseq (put_event C (ie_event_id ev)
           \<lparr>se_raw = ie_raw ev, se_seq = seq, se_state_group_after = group_id, se_depth = ie_depth ev,
            se_rejected = None, se_history_idx = None, se_imported = False, se_relay = False\<rparr>)
        (aseq (put_timeline C room_id (ie_event_id ev) seq)
         (aret \<lparr>sa_appended = sa_appended acc + 1, sa_first = (case sa_first acc of Some f \<Rightarrow> Some f | None \<Rightarrow> Some seq),
                sa_last = Some (ie_event_id ev)\<rparr>))))"

definition MAX_GAP_MARKERS :: nat where "MAX_GAP_MARKERS = 1024"

definition mark_gap :: "u64 option \<Rightarrow> u64 list \<Rightarrow> u64 list" where
  "mark_gap first markers =
     (case first of
        None \<Rightarrow> markers
      | Some f \<Rightarrow> let ms = markers @ [f] in
          if length ms > MAX_GAP_MARKERS then drop (length ms - MAX_GAP_MARKERS) ms else ms)"

definition push_missing :: "room_codecs \<Rightarrow> string \<Rightarrow> string list \<Rightarrow> string list ap" where
  "push_missing C eid frontier =
     abind (get_event C eid) (\<lambda>s.
       aret (if \<not> is_visible s \<and> eid \<notin> set frontier then frontier @ [eid] else frontier))"

definition segment_meta :: "room_meta \<Rightarrow> segment_acc \<Rightarrow> string list \<Rightarrow> room_meta" where
  "segment_meta meta acc frontier = meta\<lparr>
     rm_next_group := rm_next_group meta + 1,
     rm_gap_markers := mark_gap (sa_first acc) (rm_gap_markers meta),
     rm_extremities := (case sa_last acc of
         Some l \<Rightarrow> if l \<in> set (rm_extremities meta) then rm_extremities meta else rm_extremities meta @ [l]
       | None \<Rightarrow> rm_extremities meta),
     rm_history_frontier := frontier\<rparr>"

definition segment_finish :: "room_codecs \<Rightarrow> import_segment \<Rightarrow> room_meta \<Rightarrow> segment_acc \<Rightarrow> room_response ap" where
  "segment_finish C cmd meta acc =
     abind (afold (push_missing C) (is_frontier_add cmd) (rm_history_frontier meta)) (\<lambda>frontier.
     aseq (put_meta C (is_room_id cmd) (segment_meta meta acc frontier))
     (aret (Segment (sa_appended acc))))"

definition apply_import_segment :: "room_codecs \<Rightarrow> import_segment \<Rightarrow> room_response ap" where
  "apply_import_segment C cmd =
     abind (aget_typed ''room meta decode'' (rc_meta C) T_ROOM (is_room_id cmd)) (\<lambda>m.
     case m of
       None \<Rightarrow> alift (Inl (Engine (''segment import to unknown room '' @ is_room_id cmd)))
     | Some meta \<Rightarrow>
         aseq (afor (put_support C) (is_events cmd))
        (aseq (put_group C (is_room_id cmd) (rm_next_group meta, \<lparr>sg_parent = None, sg_chain_len = 0, sg_entries = is_state cmd\<rparr>))
        (abind (afold (segment_event C (is_room_id cmd) (rm_next_group meta)) (is_timeline cmd)
                  \<lparr>sa_appended = 0, sa_first = None, sa_last = None\<rparr>)
         (segment_finish C cmd meta))))"

section \<open>Importing history\<close>

record history_acc =
  ha_batch_ids :: "string btree_set"
  ha_new_prevs :: "string list"
  ha_idx :: u64
  ha_indexed :: u64

definition history_stored :: "import_event \<Rightarrow> u64 \<Rightarrow> stored_event option \<Rightarrow> stored_event" where
  "history_stored ev idx existing =
     (case existing of
        Some s \<Rightarrow> s\<lparr>se_history_idx := Some idx\<rparr>
      | None \<Rightarrow> \<lparr>se_raw = ie_raw ev, se_seq = 0, se_state_group_after = 0, se_depth = ie_depth ev, se_rejected = None,
          se_history_idx = Some idx, se_imported = True, se_relay = False\<rparr>)"

definition history_event :: "room_codecs \<Rightarrow> string \<Rightarrow> import_event \<Rightarrow> history_acc \<Rightarrow> history_acc ap" where
  "history_event C room_id ev acc =
     abind (get_event C (ie_event_id ev)) (\<lambda>existing.
       if is_visible existing then aret (acc\<lparr>ha_batch_ids := bs_insert (ie_event_id ev) (ha_batch_ids acc)\<rparr>)
       else let stored = history_stored ev (ha_idx acc) existing in
         abind (alift (ok_or (Engine ''history event parse'') (object_of C (se_raw stored)))) (\<lambda>raw.
         aseq (put_event C (ie_event_id ev) stored)
        (aseq (aput T_HISTORY (room_u64_key room_id (ha_idx acc)) (ie_event_id ev))
         (aret \<lparr>ha_batch_ids = bs_insert (ie_event_id ev) (ha_batch_ids acc),
                ha_new_prevs = ha_new_prevs acc @ prev_event_ids raw,
                ha_idx = ha_idx acc + 1, ha_indexed = ha_indexed acc + 1\<rparr>))))"

definition still_missing :: "room_codecs \<Rightarrow> string btree_set \<Rightarrow> string \<Rightarrow> string list \<Rightarrow> string list ap" where
  "still_missing C batch_ids eid missing =
     (if eid \<in> set batch_ids then aret missing
      else abind (get_event C eid) (\<lambda>s. aret (if is_visible s then missing else missing @ [eid])))"

definition history_finish :: "room_codecs \<Rightarrow> import_history \<Rightarrow> room_meta \<Rightarrow> history_acc \<Rightarrow> room_response ap" where
  "history_finish C cmd meta acc =
     abind (afold (still_missing C (ha_batch_ids acc))
              (bs_extend (ha_new_prevs acc) (bs_of (rm_history_frontier meta))) []) (\<lambda>missing.
     aseq (put_meta C (ih_room_id cmd) (meta\<lparr>rm_history_frontier := missing, rm_next_history_idx := ha_idx acc\<rparr>))
     (aret (History (ha_indexed acc) (missing = []))))"

definition apply_import_history :: "room_codecs \<Rightarrow> import_history \<Rightarrow> room_response ap" where
  "apply_import_history C cmd =
     abind (aget_typed ''room meta decode'' (rc_meta C) T_ROOM (ih_room_id cmd)) (\<lambda>m.
     case m of
       None \<Rightarrow> alift (Inl (Engine (''history import to unknown room '' @ ih_room_id cmd)))
     | Some meta \<Rightarrow>
         abind (afold (history_event C (ih_room_id cmd)) (ih_events cmd)
                  \<lparr>ha_batch_ids = [], ha_new_prevs = [], ha_idx = rm_next_history_idx meta, ha_indexed = 0\<rparr>)
         (history_finish C cmd meta))"

section \<open>The application\<close>

definition room_command_run :: "room_codecs \<Rightarrow> room_command \<Rightarrow> room_response ap" where
  "room_command_run C cmd =
     (case cmd of
        Append e \<Rightarrow> apply_append C e
      | ReceiptCommand r \<Rightarrow> apply_receipt C r
      | Import i \<Rightarrow> apply_import C i
      | ImportHistory h \<Rightarrow> apply_import_history C h
      | ImportSegment s \<Rightarrow> apply_import_segment C s
      | AppendStamped e txn \<Rightarrow> apply_stamped C e txn)"

definition room_apply :: "room_codecs \<Rightarrow> apply_ctx \<Rightarrow> bytes \<Rightarrow> store_error + bytes \<times> apply_ctx" where
  "room_apply C ctx command =
     rbind (decode_r ''room command decode'' (rc_command C) command) (\<lambda>cmd.
     rbind (room_command_run C cmd ctx) (\<lambda>(resp, ctx'). Inr (enc (rc_response C) resp, ctx')))"

definition room_migrate :: "apply_ctx \<Rightarrow> u32 \<Rightarrow> store_error + apply_ctx" where
  "room_migrate ctx to =
     (if to = 2 then Inr ctx else Inl (Engine ''no migration registered for room schema step''))"

definition room_app :: "room_codecs \<Rightarrow> app" where
  "room_app C = \<lparr>app_apply = room_apply C, app_schema_version = ROOM_SCHEMA_VERSION, app_migrate = room_migrate\<rparr>"

definition payload_of :: "seq_entry \<Rightarrow> change_payload" where
  "payload_of e =
     (case e of SeqEvent room_id event_id \<Rightarrow> ChangeEvent room_id event_id | SeqReceipt room_id _ _ _ _ \<Rightarrow> ChangeReceipt room_id)"

definition room_replay :: "room_codecs \<Rightarrow> read_ctx \<Rightarrow> u64 \<Rightarrow> nat \<Rightarrow> store_error + (u64 \<times> bytes) list" where
  "room_replay C rd from_seq limit =
     fold_r (\<lambda>(k, v) out.
       rbind (ok_or (Engine ''seq key width'') (u64_from_be k)) (\<lambda>seq.
       rbind (decode_r ''seq entry decode'' (rc_seq C) v) (\<lambda>e.
         Inr (out @ [(seq, enc (rc_change C) (payload_of e))]))))
       (rd_scan rd T_SEQ (u64_be (from_seq + 1)) [] limit False) []"

end
