(* ===== verification/Room_Frames.thy ===== *)
theory Room_Frames
  imports Room_Machine
begin

text \<open>
  The tables every command of a room shard writes, which of its programs emit nothing, and the shard as
  an application of the runtime.
\<close>

section \<open>Tables\<close>

lemma confined_get_event [confined_intros]: "confined S (get_event C e)"
  unfolding get_event_def by (intro confined_intros)

lemma confined_put_event [confined_intros]: "T_EVENT \<in> S \<Longrightarrow> confined S (put_event C e s)"
  unfolding put_event_def by (intro confined_intros)

lemma confined_put_meta [confined_intros]: "T_ROOM \<in> S \<Longrightarrow> confined S (put_meta C r m)"
  unfolding put_meta_def by (intro confined_intros)

lemma confined_put_group [confined_intros]: "T_GROUP \<in> S \<Longrightarrow> confined S (put_group C r g)"
  unfolding put_group_def by (intro confined_intros)

lemma confined_put_support [confined_intros]: "T_EVENT \<in> S \<Longrightarrow> confined S (put_support C ev)"
  unfolding put_support_def by (intro confined_intros)

lemma confined_emit_event [confined_intros]: "confined S (emit_event C r e)"
  unfolding emit_event_def by (intro confined_intros)

lemma confined_put_timeline [confined_intros]: "T_SEQ \<in> S \<Longrightarrow> T_ROOM_SEQ \<in> S \<Longrightarrow> confined S (put_timeline C r e q)"
  unfolding put_timeline_def by (intro confined_intros)

lemma confined_put_redact [confined_intros]: "T_REDACT \<in> S \<Longrightarrow> confined S (put_redact d e)"
  unfolding put_redact_def by (cases "directive_decode d") (auto intro!: confined_intros)

lemma confined_add_missing [confined_intros]: "confined S (add_missing C e f)"
  unfolding add_missing_def by (intro confined_intros)

lemma confined_push_missing [confined_intros]: "confined S (push_missing C e f)"
  unfolding push_missing_def by (intro confined_intros)

lemma confined_still_missing [confined_intros]: "confined S (still_missing C b e f)"
  unfolding still_missing_def by (intro confined_intros)

lemma confined_append_meta [confined_intros]: "confined S (append_meta C cmd)"
  unfolding append_meta_def by (intro confined_intros)

lemma confined_prune_txn [confined_intros]: "T_TXN \<in> S \<Longrightarrow> T_TXN_IDX \<in> S \<Longrightarrow> T_TXN_ECHO \<in> S \<Longrightarrow> confined S (prune_txn kv)"
  unfolding prune_txn_def by (intro confined_intros)

lemma confined_put_txn [confined_intros]: "T_TXN \<in> S \<Longrightarrow> T_TXN_IDX \<in> S \<Longrightarrow> T_TXN_ECHO \<in> S \<Longrightarrow> confined S (put_txn t e)"
  unfolding put_txn_def Let_def by (intro confined_intros)

definition append_tables :: "u8 set" where
  "append_tables = {T_EVENT, T_SEQ, T_ROOM_SEQ, T_REDACT, T_GROUP, T_ROOM}"

lemma append_tables_mem [simp]:
  "T_EVENT \<in> append_tables" "T_SEQ \<in> append_tables" "T_ROOM_SEQ \<in> append_tables" "T_REDACT \<in> append_tables"
  "T_GROUP \<in> append_tables" "T_ROOM \<in> append_tables"
  unfolding append_tables_def by (rule insertI1 insertI2)+

lemma confined_append [confined_intros]: "append_tables \<subseteq> S \<Longrightarrow> confined S (apply_append C e)"
  unfolding apply_append_def append_rejected_def append_accepted_def
  by (intro confined_intros) (auto intro: append_tables_mem simp del: room_tables)

definition room_cmd_tables :: "room_command \<Rightarrow> u8 set" where
  "room_cmd_tables cmd =
     (case cmd of
        Append _ \<Rightarrow> append_tables
      | ReceiptCommand _ \<Rightarrow> {T_SEQ, T_RECEIPT}
      | Import _ \<Rightarrow> {T_EVENT, T_GROUP, T_SEQ, T_ROOM_SEQ, T_ROOM}
      | ImportHistory _ \<Rightarrow> {T_EVENT, T_HISTORY, T_ROOM}
      | ImportSegment _ \<Rightarrow> {T_EVENT, T_GROUP, T_SEQ, T_ROOM_SEQ, T_ROOM}
      | AppendStamped _ _ \<Rightarrow> append_tables \<union> {T_TXN, T_TXN_IDX, T_TXN_ECHO})"

lemma room_command_confined: "confined (room_cmd_tables cmd) (room_command_run C cmd)"
proof (cases cmd)
  case (Append e)
  then show ?thesis by (simp add: room_command_run_def room_cmd_tables_def confined_append)
next
  case (ReceiptCommand r)
  then show ?thesis by (simp only: room_command_run_def room_cmd_tables_def room_command.case)
      (unfold apply_receipt_def Let_def, intro confined_intros, simp_all)
next
  case (Import i)
  then show ?thesis by (simp only: room_command_run_def room_cmd_tables_def room_command.case)
      (unfold apply_import_def import_known_def import_join_def import_finish_def, intro confined_intros, simp_all)
next
  case (ImportHistory h)
  then show ?thesis by (simp only: room_command_run_def room_cmd_tables_def room_command.case)
      (unfold apply_import_history_def history_event_def history_finish_def Let_def, intro confined_intros, simp_all)
next
  case (ImportSegment s)
  then show ?thesis by (simp only: room_command_run_def room_cmd_tables_def room_command.case)
      (unfold apply_import_segment_def segment_event_def segment_finish_def, intro confined_intros, simp_all)
next
  case (AppendStamped e txn)
  have "confined S (case r of Accepted eid _ \<Rightarrow> put_txn txn eid | _ \<Rightarrow> aret ())"
    if "T_TXN \<in> S" "T_TXN_IDX \<in> S" "T_TXN_ECHO \<in> S" for S r
    using that by (cases r) (auto intro: confined_intros simp del: room_tables)
  with AppendStamped show ?thesis by (simp only: room_command_run_def room_cmd_tables_def room_command.case)
      (unfold apply_stamped_def, intro confined_intros, auto simp del: room_tables)
qed

lemma room_tables_app: "t \<in> room_cmd_tables cmd \<Longrightarrow> APP_TABLE_MIN \<le> t"
  by (cases cmd) (auto simp: room_cmd_tables_def append_tables_def APP_TABLE_MIN_def)

interpretation room: shard_app "room_app C" for C
proof
  show "ctx_steps ctx ctx'" if "app_apply (room_app C) ctx cmd = Inr (r, ctx')" for ctx cmd r ctx'
  proof -
    from that obtain c resp where "room_command_run C c ctx = Inr (resp, ctx')"
      by (auto simp: room_app_def room_apply_def)
    from confinedD[OF room_command_confined this] show ?thesis
      using room_tables_app by (blast intro: steps_in_ctx_steps)
  qed
  show "ctx_steps ctx ctx'" if "app_migrate (room_app C) ctx to = Inr ctx'" for ctx to ctx'
    using that by (auto simp: room_app_def room_migrate_def split: if_splits)
qed

lemma room_command_frame:
  assumes "room_command_run C cmd ctx = Inr (r, ctx')"
  shows "t \<notin> room_cmd_tables cmd \<Longrightarrow> ctx_get ctx' t k = ctx_get ctx t k"
    "t \<notin> room_cmd_tables cmd \<Longrightarrow> row c ctx' t k = row c ctx t k"
    "ctx_engine ctx' = ctx_engine ctx" "ctx_shard ctx' = ctx_shard ctx"
  using steps_in_frame[OF confinedD[OF room_command_confined assms]] by (simp_all add: row_def)

end
