(* ===== verification/Room_Journal.thy ===== *)
theory Room_Journal
  imports Room_Frames
begin

text \<open>
  The change stream of a room shard can be replayed from its state: every record a command emits has a
  row in the sequence table, written by the same command, from which the record is computed again.
\<close>

section \<open>Quiet programs\<close>

named_theorems quiet_intros \<open>programs that emit nothing\<close>

definition quiet :: "'a ap \<Rightarrow> bool" where
  "quiet m \<longleftrightarrow> (\<forall>ctx a ctx'. m ctx = Inr (a, ctx') \<longrightarrow> ctx_emits ctx' = ctx_emits ctx \<and> ctx_seq ctx' = ctx_seq ctx)"

lemma quietD: "quiet m \<Longrightarrow> m ctx = Inr (a, ctx') \<Longrightarrow> ctx_emits ctx' = ctx_emits ctx \<and> ctx_seq ctx' = ctx_seq ctx"
  unfolding quiet_def by blast

lemma quiet_basic [quiet_intros]:
  "quiet (aret a)" "quiet (alift r)" "quiet (aget t k)" "quiet (aget_typed w c t k)" "quiet (arange t s e)"
  "quiet (aput t k v)" "quiet (adelete t k)"
  by (auto simp: quiet_def)

lemma quiet_abind [quiet_intros]: "quiet m \<Longrightarrow> (\<And>a. quiet (f a)) \<Longrightarrow> quiet (abind m f)"
  unfolding quiet_def abind_eq by metis

lemma quiet_aseq [quiet_intros]: "quiet m \<Longrightarrow> quiet n \<Longrightarrow> quiet (aseq m n)"
  unfolding aseq_def by (rule quiet_abind)

lemma quiet_afold [quiet_intros]: "(\<And>x s. quiet (f x s)) \<Longrightarrow> quiet (afold f xs s)"
  by (induction xs arbitrary: s) (auto intro: quiet_intros)

lemma quiet_afor [quiet_intros]: "(\<And>x. quiet (f x)) \<Longrightarrow> quiet (afor f xs)"
  by (induction xs) (auto intro: quiet_intros)

lemma quiet_if [quiet_intros]: "quiet m \<Longrightarrow> quiet n \<Longrightarrow> quiet (if P then m else n)"
  by simp

lemma quiet_option [quiet_intros]: "quiet m \<Longrightarrow> (\<And>y. quiet (f y)) \<Longrightarrow> quiet (case x of None \<Rightarrow> m | Some y \<Rightarrow> f y)"
  by (cases x) simp_all

lemma quiet_prod [quiet_intros]: "(\<And>a b. quiet (f a b)) \<Longrightarrow> quiet (case x of (a, b) \<Rightarrow> f a b)"
  by (cases x) simp

lemma quiet_room [quiet_intros]:
  "quiet (get_event C e)" "quiet (put_event C e s)" "quiet (put_meta C r m)" "quiet (put_group C r g)"
  "quiet (put_support C ev)" "quiet (put_timeline C r e q)" "quiet (append_meta C cmd)" "quiet (prune_txn kv)"
  "quiet (put_txn txn e)" "quiet (add_missing C e f)" "quiet (push_missing C e l)" "quiet (still_missing C b e l)"
  unfolding get_event_def put_event_def put_meta_def put_group_def put_support_def put_timeline_def append_meta_def
    prune_txn_def put_txn_def add_missing_def push_missing_def still_missing_def Let_def
  by (intro quiet_intros)+

lemma quiet_redact [quiet_intros]: "quiet (put_redact d e)"
  unfolding put_redact_def by (cases "directive_decode d") (auto intro!: quiet_intros)

section \<open>The journal\<close>

text \<open>
  \<open>journalled es ctx ctx'\<close>: between the two contexts the entries \<open>es\<close> were emitted, consecutively, and
  written to the sequence table, which changed nowhere else.
\<close>

fun journal_rows :: "room_codecs \<Rightarrow> u64 \<Rightarrow> seq_entry list \<Rightarrow> (bytes \<Rightarrow> bytes option) \<Rightarrow> bytes \<Rightarrow> bytes option" where
  "journal_rows C q [] m = m"
| "journal_rows C q (e # es) m = journal_rows C (q + 1) es (m(u64_be (q + 1) \<mapsto> enc (rc_seq C) e))"

fun journal_emits :: "room_codecs \<Rightarrow> u64 \<Rightarrow> seq_entry list \<Rightarrow> (u64 \<times> bytes) list" where
  "journal_emits C q [] = []"
| "journal_emits C q (e # es) = (q + 1, enc (rc_change C) (payload_of e)) # journal_emits C (q + 1) es"

definition journalled :: "room_codecs \<Rightarrow> seq_entry list \<Rightarrow> apply_ctx \<Rightarrow> apply_ctx \<Rightarrow> bool" where
  "journalled C es ctx ctx' \<longleftrightarrow>
     ctx_emits ctx' = ctx_emits ctx @ journal_emits C (ctx_seq ctx) es \<and> ctx_seq ctx' = ctx_seq ctx + of_nat (length es) \<and>
     ctx_get ctx' T_SEQ = journal_rows C (ctx_seq ctx) es (ctx_get ctx T_SEQ)"

lemma journal_append:
  "journal_rows C q (es @ fs) m = journal_rows C (q + of_nat (length es)) fs (journal_rows C q es m)"
  "journal_emits C q (es @ fs) = journal_emits C q es @ journal_emits C (q + of_nat (length es)) fs"
  by (induction es arbitrary: q m) (simp_all add: add_ac)

lemma journalled_trans: "journalled C es a b \<Longrightarrow> journalled C fs b c \<Longrightarrow> journalled C (es @ fs) a c"
  unfolding journalled_def by (simp add: journal_append add_ac del: room_tables)

text \<open>Programs that neither emit nor write to the sequence table.\<close>

definition off_journal :: "'a ap \<Rightarrow> bool" where
  "off_journal m \<longleftrightarrow> quiet m \<and> confined (- {T_SEQ}) m"

lemma off_journalI: "quiet m \<Longrightarrow> confined (- {T_SEQ}) m \<Longrightarrow> off_journal m"
  by (simp add: off_journal_def)

lemma off_journal_seq: "off_journal m \<Longrightarrow> off_journal n \<Longrightarrow> off_journal (aseq m n)"
  unfolding off_journal_def by (blast intro: quiet_intros confined_intros)

lemma journalled_off:
  assumes "off_journal m" and "m ctx = Inr (a, ctx')"
  shows "journalled C [] ctx ctx'"
proof -
  have q: "quiet m" and c: "confined (- {T_SEQ}) m" using assms(1) by (simp_all only: off_journal_def)
  show ?thesis using quietD[OF q assms(2)] steps_in_frame(3)[OF confinedD[OF c assms(2)], of T_SEQ]
    by (simp add: journalled_def fun_eq_iff del: room_tables)
qed

lemma emit_fields [simp]:
  "ctx_emits (snd (ctx_emit p ctx)) = ctx_emits ctx @ [(ctx_seq ctx + 1, p)]" "ctx_seq (snd (ctx_emit p ctx)) = ctx_seq ctx + 1"
  by (simp_all add: ctx_emit_def Let_def)

lemma journalled_emit:
  "journalled C [e] ctx (ctx_put T_SEQ (u64_be (ctx_seq ctx + 1)) (enc (rc_seq C) e) (snd (ctx_emit (enc (rc_change C) (payload_of e)) ctx)))"
  by (auto simp: journalled_def fun_eq_iff simp del: room_tables)

lemma journalled_put_event:
  "journalled C es ctx (ctx_put T_SEQ k v (ctx_put T_EVENT i w c)) = journalled C es ctx (ctx_put T_SEQ k v c)"
  unfolding journalled_def by (simp add: fun_eq_iff)

text \<open>The shape of every command that puts an event on the timeline.\<close>

lemma journalled_timeline:
  assumes "\<And>seq. off_journal (rest seq)"
    and "abind (emit_event C r e) (\<lambda>seq. aseq (put_event C e (s seq)) (aseq (put_timeline C r e seq) (rest seq))) ctx = Inr (a, ctx')"
  shows "journalled C [SeqEvent r e] ctx ctx'"
proof -
  let ?q = "ctx_seq ctx + 1"
  let ?c1 = "snd (ctx_emit (enc (rc_change C) (ChangeEvent r e)) ctx)"
  let ?c2 = "ctx_put T_SEQ (u64_be ?q) (enc (rc_seq C) (SeqEvent r e)) (ctx_put T_EVENT e (enc (rc_event C) (s ?q)) ?c1)"
  from assms(2) have rest: "aseq (aput T_ROOM_SEQ (room_u64_key r ?q) e) (rest ?q) ?c2 = Inr (a, ctx')"
    by (auto simp: emit_event_def put_timeline_def put_event_def simp del: room_tables)
  have "journalled C [SeqEvent r e] ctx ?c2"
    unfolding journalled_put_event using journalled_emit[of C "SeqEvent r e" ctx] by (simp add: payload_of_def)
  moreover have "off_journal (aput T_ROOM_SEQ (room_u64_key r ?q) e)"
    by (rule off_journalI; intro quiet_intros confined_intros) simp
  then have "journalled C [] ?c2 ctx'" by (rule journalled_off[OF off_journal_seq[OF _ assms(1)] rest])
  ultimately show ?thesis by (rule journalled_trans[where fs = "[]", simplified])
qed

lemma journalled_refl: "journalled C [] ctx ctx"
  by (simp add: journalled_def)

lemma append_journalled:
  assumes "apply_append C cmd ctx = Inr (r, ctx')"
  shows "\<exists>es. journalled C es ctx ctx'"
proof -
  from assms consider "ctx' = ctx" | rej where "append_rejected C cmd rej ctx = Inr (r, ctx')"
    | "append_accepted C cmd ctx = Inr (r, ctx')"
    unfolding apply_append_def by (auto split: if_splits option.splits simp del: room_tables)
  then show ?thesis
  proof cases
    case 1
    then show ?thesis using journalled_refl by blast
  next
    case (2 rej)
    have "off_journal (append_rejected C cmd rej)"
      unfolding append_rejected_def by (rule off_journalI; intro quiet_intros confined_intros) simp_all
    from journalled_off[OF this 2] show ?thesis by blast
  next
    case 3
    have "off_journal (aseq (case ae_redacts cmd of None \<Rightarrow> aret () | Some directive \<Rightarrow> put_redact directive (ae_event_id cmd))
       (aseq (afor (put_group C (ae_room_id cmd)) (ae_new_groups cmd))
       (abind (append_meta C cmd) (\<lambda>meta. aseq (put_meta C (ae_room_id cmd) meta) (aret (Accepted (ae_event_id cmd) seq))))))" for seq
      by (rule off_journalI; intro quiet_intros confined_intros) simp_all
    from journalled_timeline[OF this 3[unfolded append_accepted_def]] show ?thesis by blast
  qed
qed

lemma receipt_journalled:
  assumes "apply_receipt C cmd ctx = Inr (r, ctx')"
  shows "\<exists>es. journalled C es ctx ctx'"
proof -
  let ?e = "SeqReceipt (rcp_room_id cmd) (rcp_user_id cmd) (rcp_receipt_type cmd) (rcp_event_id cmd) (rcp_ts cmd)"
  let ?c = "ctx_put T_SEQ (u64_be (ctx_seq ctx + 1)) (enc (rc_seq C) ?e) (snd (ctx_emit (enc (rc_change C) (payload_of ?e)) ctx))"
  from assms consider "ctx' = ctx" | k v where "ctx' = ctx_put T_RECEIPT k v ?c"
    unfolding apply_receipt_def Let_def by (auto simp: payload_of_def split: if_splits simp del: room_tables)
  then show ?thesis
  proof cases
    case 1
    then show ?thesis using journalled_refl by blast
  next
    case (2 k v)
    have "off_journal (aput T_RECEIPT k v)" by (rule off_journalI; intro quiet_intros confined_intros) simp
    from journalled_off[OF this, of ?c "()" ctx' C] journalled_trans[OF journalled_emit[of C ?e ctx]] show ?thesis
      unfolding 2 by (auto simp del: room_tables)
  qed
qed

lemma import_journalled:
  assumes "apply_import C cmd ctx = Inr (r, ctx')"
  shows "\<exists>es. journalled C es ctx ctx'"
proof -
  let ?g = "\<lparr>sg_parent = None, sg_chain_len = 0, sg_entries = ir_state cmd\<rparr>"
  let ?head = "\<lambda>m. aseq (afor (put_support C) (ir_events cmd)) (put_group C (ir_room_id cmd) (import_group_id m, ?g))"
  have known: "import_known C cmd m c = Inr (k, c') \<Longrightarrow> c' = c" for m c k c'
    unfolding import_known_def get_event_def by (auto split: if_splits)
  from assms consider "ctx' = ctx" | c1 m where "?head m ctx = Inr ((), c1)" "import_join C cmd m c1 = Inr (r, ctx')"
    unfolding apply_import_def by (auto dest!: known split: if_splits simp del: room_tables)
  then show ?thesis
  proof cases
    case 1
    then show ?thesis using journalled_refl by blast
  next
    case (2 c1 m)
    have head: "off_journal (?head m)" by (rule off_journalI; intro quiet_intros confined_intros; simp)
    have "off_journal (import_finish C cmd m seq)" for seq
      unfolding import_finish_def by (rule off_journalI; intro quiet_intros confined_intros; simp)
    from journalled_timeline[OF this 2(2)[unfolded import_join_def]] journalled_off[OF head 2(1)] journalled_trans show ?thesis by blast
  qed
qed

lemma segment_event_journalled:
  assumes "segment_event C room gid ev acc ctx = Inr (acc', ctx')"
  shows "\<exists>es. journalled C es ctx ctx'"
proof -
  let ?acc = "\<lambda>seq. \<lparr>sa_appended = sa_appended acc + 1, sa_first = (case sa_first acc of Some f \<Rightarrow> Some f | None \<Rightarrow> Some seq),
                sa_last = Some (ie_event_id ev)\<rparr>"
  let ?s = "\<lambda>seq. \<lparr>se_raw = ie_raw ev, se_seq = seq, se_state_group_after = gid, se_depth = ie_depth ev,
            se_rejected = None, se_history_idx = None, se_imported = False, se_relay = False\<rparr>"
  let ?put = "abind (emit_event C room (ie_event_id ev)) (\<lambda>seq. aseq (put_event C (ie_event_id ev) (?s seq))
      (aseq (put_timeline C room (ie_event_id ev) seq) (aret (?acc seq))))"
  from assms consider "ctx' = ctx" | "?put ctx = Inr (acc', ctx')"
    unfolding segment_event_def get_event_def abind_eq[of "aget_typed _ _ _ _"] by (auto split: if_splits simp del: room_tables abind_eq aseq_eq)
  then show ?thesis
  proof cases
    case 1
    then show ?thesis using journalled_refl by blast
  next
    case 2
    have "off_journal (aret (?acc seq))" for seq by (rule off_journalI; intro quiet_intros confined_intros)
    from journalled_timeline[OF this 2] show ?thesis by blast
  qed
qed

lemma segment_journalled:
  assumes "apply_import_segment C cmd ctx = Inr (r, ctx')"
  shows "\<exists>es. journalled C es ctx ctx'"
proof -
  let ?g = "\<lparr>sg_parent = None, sg_chain_len = 0, sg_entries = is_state cmd\<rparr>"
  let ?head = "\<lambda>m. aseq (afor (put_support C) (is_events cmd)) (put_group C (is_room_id cmd) (rm_next_group m, ?g))"
  from assms obtain m c1 acc acc' c2 where run: "?head m ctx = Inr ((), c1)"
    "afold (segment_event C (is_room_id cmd) (rm_next_group m)) (is_timeline cmd) acc c1 = Inr (acc', c2)"
    "segment_finish C cmd m acc' c2 = Inr (r, ctx')"
    unfolding apply_import_segment_def by (auto split: option.splits simp del: room_tables)
  have "off_journal (?head m)" by (rule off_journalI; intro quiet_intros confined_intros; simp)
  from journalled_off[OF this run(1)] have 1: "\<exists>es. journalled C es ctx c1" by blast
  have 2: "\<exists>es. journalled C es ctx c2"
    by (rule afold_invariant[OF run(2), of "\<lambda>_ c. \<exists>es. journalled C es ctx c"])
       (use 1 segment_event_journalled journalled_trans in blast)+
  have "off_journal (segment_finish C cmd m acc')"
    unfolding segment_finish_def by (rule off_journalI; intro quiet_intros confined_intros; simp)
  from journalled_off[OF this run(3)] 2 journalled_trans show ?thesis by blast
qed

lemma history_off: "off_journal (apply_import_history C cmd)"
  unfolding apply_import_history_def history_event_def history_finish_def Let_def
  by (rule off_journalI; intro quiet_intros confined_intros; simp)

lemma command_journalled:
  assumes "room_command_run C cmd ctx = Inr (r, ctx')"
  shows "\<exists>es. journalled C es ctx ctx'"
proof (cases cmd)
  case (AppendStamped e txn)
  then obtain resp c1 where run: "apply_append C e ctx = Inr (resp, c1)"
    "(case resp of Accepted eid _ \<Rightarrow> put_txn txn eid | _ \<Rightarrow> aret ()) c1 = Inr ((), ctx')"
    using assms by (auto simp: room_command_run_def apply_stamped_def)
  have "off_journal (case resp of Accepted eid _ \<Rightarrow> put_txn txn eid | _ \<Rightarrow> aret ())"
    by (cases resp) (auto intro!: off_journalI quiet_intros confined_intros)
  from journalled_off[OF this run(2)] append_journalled[OF run(1)] journalled_trans show ?thesis by blast
qed (use assms in \<open>auto simp: room_command_run_def intro: append_journalled receipt_journalled import_journalled
  segment_journalled journalled_off[OF history_off]\<close>)

section \<open>Histories\<close>

text \<open>
  The states of a room shard: batches of commands, in whatever grouping the Raft layer chose, each batch
  run in one context and then committed. The last component collects the records emitted so far.
\<close>

definition room_ctx :: "shard_id \<Rightarrow> kv \<Rightarrow> u64 \<Rightarrow> apply_ctx" where
  "room_ctx s db seq = \<lparr>ctx_shard = s, ctx_engine = db, ctx_wb = [], ctx_seq = seq, ctx_emits = []\<rparr>"

inductive room_run :: "room_codecs \<Rightarrow> (apply_ctx \<Rightarrow> room_command \<Rightarrow> bool) \<Rightarrow> apply_ctx \<Rightarrow> apply_ctx \<Rightarrow> bool"
  for C ok where
  stay: "room_run C ok ctx ctx"
| step: "room_run C ok ctx c1 \<Longrightarrow> ok c1 cmd \<Longrightarrow> room_command_run C cmd c1 = Inr (r, c2) \<Longrightarrow> room_run C ok ctx c2"

inductive room_history ::
  "room_codecs \<Rightarrow> (apply_ctx \<Rightarrow> room_command \<Rightarrow> bool) \<Rightarrow> shard_id \<Rightarrow> kv \<Rightarrow> u64 \<Rightarrow> (u64 \<times> bytes) list \<Rightarrow> bool"
  for C ok s where
  start: "room_history C ok s [] 0 []"
| batch: "room_history C ok s db seq out \<Longrightarrow> room_run C ok (room_ctx s db seq) ctx \<Longrightarrow>
    room_history C ok s (committed ctx) (ctx_seq ctx) (out @ ctx_emits ctx)"

lemma room_ctx_fields [simp]:
  "ctx_engine (room_ctx s db q) = db" "ctx_shard (room_ctx s db q) = s" "ctx_seq (room_ctx s db q) = q"
  "ctx_emits (room_ctx s db q) = []" "ctx_wb (room_ctx s db q) = []"
  by (simp_all add: room_ctx_def)

lemma room_ctx_get: "ctx_get (room_ctx s db q) t k = kv_get db (ctx_key s t k)"
  by (simp add: ctx_get_def staged_def Let_def)

lemma room_run_frame:
  assumes "room_run C ok ctx ctx'"
  shows "ctx_engine ctx' = ctx_engine ctx \<and> ctx_shard ctx' = ctx_shard ctx"
  using assms by induction (auto simp: room_command_frame)

lemma room_run_journalled:
  assumes "room_run C ok ctx ctx'"
  shows "\<exists>es. journalled C es ctx ctx'"
  using assms
proof induction
  case (step ctx c1 cmd r c2)
  then show ?case using command_journalled journalled_trans by blast
qed (use journalled_refl in blast)

lemma committed_room:
  assumes "bt_wf (ctx_engine ctx)"
  shows "ctx_get (room_ctx (ctx_shard ctx) (committed ctx) q) t k = ctx_get ctx t k" "bt_wf (committed ctx)"
  using assms committed_get[OF assms, of t k] kv_write_batch_wf[OF assms] by (simp_all add: room_ctx_get committed_def)

text \<open>All that was ever emitted is in the sequence table, and nothing else is.\<close>

lemma history_journal:
  assumes "room_history C ok s db seq out"
  shows "\<exists>es. out = journal_emits C 0 es \<and> seq = of_nat (length es) \<and> bt_wf db \<and>
    (\<forall>q. ctx_get (room_ctx s db q) T_SEQ = journal_rows C 0 es (\<lambda>_. None))"
  using assms
proof induction
  case start
  show ?case by (rule exI[of _ "[]"]) (simp add: room_ctx_get kv_get_def fun_eq_iff)
next
  case (batch db seq out ctx)
  then obtain es where es: "out = journal_emits C 0 es" "seq = of_nat (length es)" "bt_wf db"
    "ctx_get (room_ctx s db seq) T_SEQ = journal_rows C 0 es (\<lambda>_. None)" by blast
  from room_run_journalled[OF batch.hyps(2)] obtain fs where fs: "journalled C fs (room_ctx s db seq) ctx" by blast
  have f: "ctx_engine ctx = db" "ctx_shard ctx = s" using room_run_frame[OF batch.hyps(2)] by simp_all
  have "ctx_get (room_ctx s (committed ctx) q) T_SEQ = ctx_get ctx T_SEQ" for q
    using committed_room(1)[of ctx q T_SEQ] f es(3) by (simp add: fun_eq_iff del: room_tables)
  then show ?case using fs es f committed_room(2)[of ctx] unfolding journalled_def
    by (intro exI[of _ "es @ fs"]) (simp add: journal_append add_ac del: room_tables)
qed

section \<open>Replay\<close>

lemma journal_emits_nth:
  "journal_emits C 0 es = map (\<lambda>i. (of_nat (Suc i), enc (rc_change C) (payload_of (es ! i)))) [0..<length es]"
  by (induction es rule: rev_induct) (simp_all add: journal_append nth_append)

lemma journal_rows_nth:
  assumes "length es < 2 ^ 64"
  shows "journal_rows C 0 es (\<lambda>_. None) k = Some v \<longleftrightarrow>
    (\<exists>i < length es. k = u64_be (of_nat (Suc i)) \<and> v = enc (rc_seq C) (es ! i))"
  using assms
proof (induction es rule: rev_induct)
  case (snoc e es)
  have inj: "of_nat (Suc i) \<noteq> (of_nat (Suc (length es)) :: u64)" if "i < length es" for i
    using that snoc.prems u64_of_nat(1)[of "Suc i" "Suc (length es)"] by simp
  have "journal_rows C 0 (es @ [e]) (\<lambda>_. None) k =
      (if k = u64_be (of_nat (Suc (length es))) then Some (enc (rc_seq C) e) else journal_rows C 0 es (\<lambda>_. None) k)"
    by (simp add: journal_append add.commute)
  then show ?case using snoc inj by (auto simp: nth_append less_Suc_eq)
qed simp

text \<open>The rows after a sequence number, as a range reads them.\<close>

lemma history_rows:
  assumes "bt_wf db" and "ctx_get (room_ctx s db 0) T_SEQ = journal_rows C 0 es (\<lambda>_. None)" and "length es < 2 ^ 64" and "from \<noteq> - 1"
  shows "rd_range \<lparr>rd_shard = s, rd_engine = db\<rparr> T_SEQ (u64_be (from + 1)) [] =
    map (\<lambda>i. (u64_be (of_nat (Suc i)), enc (rc_seq C) (es ! i))) (filter (\<lambda>i. from < of_nat (Suc i)) [0..<length es])"
    (is "?rd = ?rows")
proof (rule bt_wf_set_eqI)
  have gt: "from + 1 \<le> q \<longleftrightarrow> from < q" for q
    using word_succ_least[OF assms(4), of q] by (simp add: linorder_not_less[symmetric])
  show "bt_wf ?rd" by (rule rd_range_sorted) (use assms(1) in simp_all)
  have up: "u64_be (of_nat (Suc i)) < u64_be (of_nat (Suc j))" if "i < j" "j < length es" for i j
    using that assms(3) u64_of_nat(2)[of "Suc i" "Suc j"] unfolding u64_be_less by simp
  show "bt_wf ?rows"
    unfolding sorted_wrt_map map_map comp_def fst_conv
    by (rule sorted_wrt_filter, rule sorted_wrt_mono_rel[OF up sorted_wrt_upt]) simp_all
  fix k v
  have "(k, v) \<in> set ?rd \<longleftrightarrow> ctx_get (room_ctx s db 0) T_SEQ k = Some v \<and> u64_be (from + 1) \<le> k"
    using rd_range_rows[of "\<lparr>rd_shard = s, rd_engine = db\<rparr>" T_SEQ k v] assms(1) by (simp add: rd_get_def room_ctx_get)
  also have "\<dots> \<longleftrightarrow> (k, v) \<in> set ?rows"
    unfolding assms(2) journal_rows_nth[OF assms(3)] set_map set_filter by (auto simp: gt simp del: of_nat_Suc)
  finally show "(k, v) \<in> set ?rd \<longleftrightarrow> (k, v) \<in> set ?rows" .
qed

lemma replay_emits:
  assumes "lossless (rc_seq C)" and "room_history C ok s db seq out" and "length out < 2 ^ 64" and "from_seq \<noteq> - 1"
  shows "room_replay C \<lparr>rd_shard = s, rd_engine = db\<rparr> from_seq limit = Inr (take limit (filter (\<lambda>(q, _). from_seq < q) out))"
proof -
  from history_journal[OF assms(2)] obtain es where es: "out = journal_emits C 0 es" "bt_wf db"
    "ctx_get (room_ctx s db 0) T_SEQ = journal_rows C 0 es (\<lambda>_. None)" by blast
  have len: "length es < 2 ^ 64" using assms(3) by (simp add: es(1) journal_emits_nth)
  let ?f = "\<lambda>(k, v) out. rbind (ok_or (Engine ''seq key width'') (u64_from_be k)) (\<lambda>seq.
       rbind (decode_r ''seq entry decode'' (rc_seq C) v) (\<lambda>e. Inr (out @ [(seq, enc (rc_change C) (payload_of e))])))"
  have loop: "fold_r ?f (map (\<lambda>i. (u64_be (of_nat (Suc i)), enc (rc_seq C) (es ! i))) is) acc =
      Inr (acc @ map (\<lambda>i. (of_nat (Suc i), enc (rc_change C) (payload_of (es ! i)))) is)" for "is" :: "nat list" and acc
    using assms(1) by (induction "is" arbitrary: acc) simp_all
  show ?thesis
    unfolding room_replay_def rd_scan_forward history_rows[OF es(2,3) len assms(4)] take_map loop es(1) journal_emits_nth
    by (simp add: take_map filter_map comp_def)
qed

text \<open>
  C12: A subscriber of a room shard misses nothing: replaying from a sequence number yields, byte for byte
  and in order, the records that the shard emitted with greater numbers, however its commands were
  grouped into batches.
\<close>

theorem change_stream_replayable:
  assumes "lossless (rc_seq C)" and "room_history C ok s db seq out" and "length out < 2 ^ 64" and "from_seq \<noteq> - 1"
  shows "room_replay C \<lparr>rd_shard = s, rd_engine = db\<rparr> from_seq limit = Inr (take limit (filter (\<lambda>(q, _). from_seq < q) out))"
  using assms by (rule replay_emits)

end
