(* ===== verification/Room_Timeline.thy ===== *)
theory Room_Timeline
  imports Room_Journal
begin

text \<open>
  The timeline of a room shard: every event that counts as placed has exactly one position, and the
  three tables that record positions agree.
\<close>

text \<open>What the machine relies on of \<open>postcard\<close>.\<close>

locale room_wire =
  fixes C :: room_codecs
  assumes wire_event [simp]: "lossless (rc_event C)" and wire_group [simp]: "lossless (rc_group C)"
    and wire_meta [simp]: "lossless (rc_meta C)" and wire_seq [simp]: "lossless (rc_seq C)"
    and wire_receipt [simp]: "lossless (rc_receipt C)"

abbreviation ev_at :: "room_codecs \<Rightarrow> apply_ctx \<Rightarrow> string \<Rightarrow> stored_event option" where
  "ev_at C ctx e \<equiv> row (rc_event C) ctx T_EVENT e"

abbreviation seq_at :: "room_codecs \<Rightarrow> apply_ctx \<Rightarrow> u64 \<Rightarrow> seq_entry option" where
  "seq_at C ctx q \<equiv> row (rc_seq C) ctx T_SEQ (u64_be q)"

abbreviation room_seq_at :: "apply_ctx \<Rightarrow> string \<Rightarrow> u64 \<Rightarrow> bytes option" where
  "room_seq_at ctx r q \<equiv> ctx_get ctx T_ROOM_SEQ (room_u64_key r q)"

definition timeline :: "room_codecs \<Rightarrow> apply_ctx \<Rightarrow> bool" where
  "timeline C ctx \<longleftrightarrow>
     (\<forall>e se. ev_at C ctx e = Some se \<longrightarrow> se_seq se \<noteq> 0 \<longrightarrow> (\<exists>r. seq_at C ctx (se_seq se) = Some (SeqEvent r e))) \<and>
     (\<forall>q r e. seq_at C ctx q = Some (SeqEvent r e) \<longrightarrow> (\<exists>se. ev_at C ctx e = Some se \<and> se_seq se = q)) \<and>
     (\<forall>q r e. seq_at C ctx q = Some (SeqEvent r e) \<longleftrightarrow> room_seq_at ctx r q = Some e) \<and>
     (\<forall>q. ctx_get ctx T_SEQ (u64_be q) \<noteq> None \<longrightarrow> q \<noteq> 0 \<and> q \<le> ctx_seq ctx)"

lemma timeline_frame:
  assumes "\<And>k. ctx_get ctx' T_EVENT k = ctx_get ctx T_EVENT k" and "\<And>k. ctx_get ctx' T_SEQ k = ctx_get ctx T_SEQ k"
    and "\<And>k. ctx_get ctx' T_ROOM_SEQ k = ctx_get ctx T_ROOM_SEQ k" and "ctx_seq ctx' = ctx_seq ctx"
  shows "timeline C ctx' = timeline C ctx"
  unfolding timeline_def row_def assms ..

lemma timelineD:
  assumes "timeline C ctx"
  shows "ev_at C ctx e = Some se \<Longrightarrow> se_seq se \<noteq> 0 \<Longrightarrow> \<exists>r. seq_at C ctx (se_seq se) = Some (SeqEvent r e)"
    "seq_at C ctx q = Some (SeqEvent r e) \<Longrightarrow> \<exists>se. ev_at C ctx e = Some se \<and> se_seq se = q"
    "seq_at C ctx q = Some (SeqEvent r e) \<longleftrightarrow> room_seq_at ctx r q = Some e"
    "ctx_get ctx T_SEQ (u64_be q) \<noteq> None \<Longrightarrow> q \<noteq> 0 \<and> q \<le> ctx_seq ctx"
  using assms unfolding timeline_def by blast+

lemma timeline_free:
  assumes "timeline C ctx" and "\<not> on_timeline (ev_at C ctx e)"
  shows "seq_at C ctx q \<noteq> Some (SeqEvent r e)"
proof
  assume a: "seq_at C ctx q = Some (SeqEvent r e)"
  then have "ctx_get ctx T_SEQ (u64_be q) \<noteq> None" by (auto simp: row_def bind_eq_Some_conv)
  then have "q \<noteq> 0" using timelineD(4)[OF assms(1)] by blast
  with timelineD(2)[OF assms(1) a] assms(2) show False by (auto simp: on_timeline_def word_gt_0)
qed

text \<open>Placing an event: the next number, in all three tables.\<close>

definition placed :: "room_codecs \<Rightarrow> string \<Rightarrow> string \<Rightarrow> stored_event \<Rightarrow> apply_ctx \<Rightarrow> apply_ctx" where
  "placed C r e s ctx = (let q = ctx_seq ctx + 1 in
     ctx_put T_ROOM_SEQ (room_u64_key r q) e (ctx_put T_SEQ (u64_be q) (enc (rc_seq C) (SeqEvent r e))
       (ctx_put T_EVENT e (enc (rc_event C) s) (snd (ctx_emit (enc (rc_change C) (ChangeEvent r e)) ctx)))))"

text \<open>Recording something that is not an event.\<close>

definition noted :: "room_codecs \<Rightarrow> seq_entry \<Rightarrow> apply_ctx \<Rightarrow> apply_ctx" where
  "noted C e ctx = ctx_put T_SEQ (u64_be (ctx_seq ctx + 1)) (enc (rc_seq C) e) (snd (ctx_emit (enc (rc_change C) (payload_of e)) ctx))"

text \<open>
  The invariant within a batch: numbers count the records emitted so far, and the timeline is in order
  as long as they have not wrapped around. \<open>N\<close> records were emitted before the batch.
\<close>

definition in_order :: "room_codecs \<Rightarrow> nat \<Rightarrow> apply_ctx \<Rightarrow> bool" where
  "in_order C N ctx \<longleftrightarrow> ctx_seq ctx = of_nat (N + length (ctx_emits ctx)) \<and>
     (N + length (ctx_emits ctx) < 2 ^ 64 \<longrightarrow> timeline C ctx)"

text \<open>Programs that leave the three tables alone and emit nothing.\<close>

definition off_timeline :: "'a ap \<Rightarrow> bool" where
  "off_timeline m \<longleftrightarrow> quiet m \<and> confined (- {T_EVENT, T_SEQ, T_ROOM_SEQ}) m"

text \<open>Storing an event off the timeline, in the place of one that is not on it.\<close>

context room_wire
begin

lemma timeline_offline:
  assumes "timeline C ctx" and "\<not> on_timeline (ev_at C ctx e)" and "se_seq s = 0"
  shows "timeline C (ctx_put T_EVENT e (enc (rc_event C) s) ctx)"
proof -
  let ?c = "ctx_put T_EVENT e (enc (rc_event C) s) ctx"
  note D = timelineD[OF assms(1)]
  note free = timeline_free[OF assms(1,2)]
  have s: "seq_at C ?c q = seq_at C ctx q" for q by simp
  have e: "ev_at C ?c x = (if x = e then Some s else ev_at C ctx x)" for x by simp
  show ?thesis unfolding timeline_def s e
  proof (intro conjI allI impI)
    fix x se
    assume "(if x = e then Some s else ev_at C ctx x) = Some se" "se_seq se \<noteq> 0"
    then show "\<exists>r. seq_at C ctx (se_seq se) = Some (SeqEvent r x)" using D(1) assms(3) by (auto split: if_splits)
  next
    fix q r x
    assume "seq_at C ctx q = Some (SeqEvent r x)"
    then show "\<exists>se. (if x = e then Some s else ev_at C ctx x) = Some se \<and> se_seq se = q" using D(2) free by auto
  next
    fix q r x
    show "seq_at C ctx q = Some (SeqEvent r x) \<longleftrightarrow> room_seq_at ?c r q = Some x" using D(3) by simp
  next
    fix q
    assume "ctx_get ?c T_SEQ (u64_be q) \<noteq> None"
    then show "q \<noteq> 0" "q \<le> ctx_seq ?c" using D(4)[of q] by auto
  qed
qed

lemma next_fresh:
  assumes "timeline C ctx" and "ctx_seq ctx + 1 \<noteq> 0"
  shows "ctx_seq ctx < ctx_seq ctx + 1" "ctx_get ctx T_SEQ (u64_be (ctx_seq ctx + 1)) = None"
    "room_seq_at ctx r (ctx_seq ctx + 1) \<noteq> Some x"
proof -
  show gt: "ctx_seq ctx < ctx_seq ctx + 1"
    using assms(2) word_succ_least[of "ctx_seq ctx" "ctx_seq ctx"] by (simp add: eq_neg_iff_add_eq_0)
  show new: "ctx_get ctx T_SEQ (u64_be (ctx_seq ctx + 1)) = None"
    using timelineD(4)[OF assms(1), of "ctx_seq ctx + 1"] gt by (metis linorder_not_le)
  show "room_seq_at ctx r (ctx_seq ctx + 1) \<noteq> Some x"
    using timelineD(3)[OF assms(1), of "ctx_seq ctx + 1" r x] new by (simp add: row_def)
qed

lemma timeline_noted:
  assumes "timeline C ctx" and "ctx_seq ctx + 1 \<noteq> 0" and "\<And>r x. e \<noteq> SeqEvent r x"
  shows "timeline C (noted C e ctx)"
proof -
  let ?q = "ctx_seq ctx + 1" and ?c = "noted C e ctx"
  note D = timelineD[OF assms(1)] and fresh = next_fresh[OF assms(1,2)]
  have s: "seq_at C ?c q = (if q = ?q then Some e else seq_at C ctx q)" for q by (simp add: noted_def Let_def)
  have o: "ev_at C ?c x = ev_at C ctx x" "room_seq_at ?c r q = room_seq_at ctx r q" "ctx_seq ?c = ?q"
    "ctx_get ?c T_SEQ (u64_be q) \<noteq> None \<longleftrightarrow> q = ?q \<or> ctx_get ctx T_SEQ (u64_be q) \<noteq> None" for x r q
    by (auto simp: noted_def Let_def)
  have keep: "seq_at C ctx q = Some x \<Longrightarrow> q \<noteq> ?q" for q x using fresh(2) by (auto simp: row_def)
  show ?thesis unfolding timeline_def s o
  proof (intro conjI allI impI)
    fix x se
    assume "ev_at C ctx x = Some se" "se_seq se \<noteq> 0"
    then show "\<exists>r. (if se_seq se = ?q then Some e else seq_at C ctx (se_seq se)) = Some (SeqEvent r x)"
      using D(1)[of x se] keep by (auto split: if_splits)
  next
    fix q r x
    assume "(if q = ?q then Some e else seq_at C ctx q) = Some (SeqEvent r x)"
    then show "\<exists>se. ev_at C ctx x = Some se \<and> se_seq se = q" using D(2)[of q r x] assms(3) by (auto split: if_splits)
  next
    fix q r x
    show "(if q = ?q then Some e else seq_at C ctx q) = Some (SeqEvent r x) \<longleftrightarrow> room_seq_at ctx r q = Some x"
      using D(3)[of q r x] fresh(3)[of r x] assms(3) by auto
  next
    fix q
    assume "q = ?q \<or> ctx_get ctx T_SEQ (u64_be q) \<noteq> None"
    then show "q \<noteq> 0" "q \<le> ?q" using D(4)[of q] assms(2) fresh(1) by (auto dest: order.trans less_imp_le)
  qed
qed

lemma timeline_placed:
  assumes "timeline C ctx" and "\<not> on_timeline (ev_at C ctx e)" and "se_seq s = ctx_seq ctx + 1" and "ctx_seq ctx + 1 \<noteq> 0"
  shows "timeline C (placed C r e s ctx)"
proof -
  let ?q = "ctx_seq ctx + 1" and ?c = "placed C r e s ctx"
  note D = timelineD[OF assms(1)]
  note gt = next_fresh(1)[OF assms(1,4)] and new = next_fresh(2)[OF assms(1,4)] and none = next_fresh(3)[OF assms(1,4)]
  note free = timeline_free[OF assms(1,2)]
  have s: "seq_at C ?c q = (if q = ?q then Some (SeqEvent r e) else seq_at C ctx q)" for q by (simp add: placed_def Let_def)
  have e: "ev_at C ?c x = (if x = e then Some s else ev_at C ctx x)" for x by (simp add: placed_def Let_def)
  have rs: "room_seq_at ?c r' q = (if r' = r \<and> q = ?q then Some e else room_seq_at ctx r' q)" for r' q
    by (simp add: placed_def Let_def)
  have sq: "ctx_seq ?c = ?q" "ctx_get ?c T_SEQ (u64_be q) \<noteq> None \<longleftrightarrow> q = ?q \<or> ctx_get ctx T_SEQ (u64_be q) \<noteq> None" for q
    by (auto simp: placed_def Let_def)
  show ?thesis unfolding timeline_def s e rs sq
  proof (intro conjI allI impI)
    fix x se
    assume "(if x = e then Some s else ev_at C ctx x) = Some se" "se_seq se \<noteq> 0"
    then show "\<exists>r'. (if se_seq se = ?q then Some (SeqEvent r e) else seq_at C ctx (se_seq se)) = Some (SeqEvent r' x)"
      using D(1)[of x se] new assms(3) by (auto simp: row_def split: if_splits)
  next
    fix q r' x
    assume "(if q = ?q then Some (SeqEvent r e) else seq_at C ctx q) = Some (SeqEvent r' x)"
    then show "\<exists>se. (if x = e then Some s else ev_at C ctx x) = Some se \<and> se_seq se = q"
      using D(2)[of q r' x] free[of q r'] assms(3) by (auto split: if_splits)
  next
    fix q r' x
    show "(if q = ?q then Some (SeqEvent r e) else seq_at C ctx q) = Some (SeqEvent r' x) \<longleftrightarrow>
        (if r' = r \<and> q = ?q then Some e else room_seq_at ctx r' q) = Some x"
      using D(3)[of q r' x] none by auto
  next
    fix q
    assume "q = ?q \<or> ctx_get ctx T_SEQ (u64_be q) \<noteq> None"
    then show "q \<noteq> 0" "q \<le> ?q" using D(4)[of q] assms(4) gt by (auto dest: order.trans less_imp_le)
  qed
qed

lemma in_order_placed:
  assumes "in_order C N ctx" and "\<not> on_timeline (ev_at C ctx e)" and "se_seq s = ctx_seq ctx + 1"
  shows "in_order C N (placed C r e s ctx)"
proof -
  let ?n = "N + length (ctx_emits ctx)"
  have seq: "ctx_seq ctx = of_nat ?n" using assms(1) by (simp add: in_order_def)
  have f: "ctx_emits (placed C r e s ctx) = ctx_emits ctx @ [(ctx_seq ctx + 1, enc (rc_change C) (ChangeEvent r e))]"
    "ctx_seq (placed C r e s ctx) = ctx_seq ctx + 1" by (simp_all add: placed_def Let_def)
  have "timeline C (placed C r e s ctx)" if n: "Suc ?n < 2 ^ 64"
  proof (rule timeline_placed)
    show "timeline C ctx" using assms(1) n unfolding in_order_def by simp
    show "ctx_seq ctx + 1 \<noteq> 0" using u64_of_nat(1)[of "Suc ?n" 0] n unfolding seq by (simp add: add.commute)
  qed (use assms in simp_all)
  then show ?thesis unfolding in_order_def f by (simp add: seq)
qed

lemma in_order_noted:
  assumes "in_order C N ctx" and "\<And>r x. e \<noteq> SeqEvent r x"
  shows "in_order C N (noted C e ctx)"
proof -
  let ?n = "N + length (ctx_emits ctx)"
  have seq: "ctx_seq ctx = of_nat ?n" using assms(1) by (simp add: in_order_def)
  have f: "ctx_emits (noted C e ctx) = ctx_emits ctx @ [(ctx_seq ctx + 1, enc (rc_change C) (payload_of e))]"
    "ctx_seq (noted C e ctx) = ctx_seq ctx + 1" by (simp_all add: noted_def)
  have "timeline C (noted C e ctx)" if n: "Suc ?n < 2 ^ 64"
  proof (rule timeline_noted)
    show "timeline C ctx" using assms(1) n unfolding in_order_def by simp
    show "ctx_seq ctx + 1 \<noteq> 0" using u64_of_nat(1)[of "Suc ?n" 0] n unfolding seq by (simp add: add.commute)
  qed (rule assms(2))
  then show ?thesis unfolding in_order_def f by (simp add: seq)
qed

lemma in_order_offline:
  assumes "in_order C N ctx" and "\<not> on_timeline (ev_at C ctx e)" and "se_seq s = 0"
  shows "in_order C N (ctx_put T_EVENT e (enc (rc_event C) s) ctx)"
  using assms timeline_offline unfolding in_order_def by simp

lemma in_order_off:
  assumes "off_timeline m" and "m ctx = Inr (a, ctx')" and "in_order C N ctx"
  shows "in_order C N ctx'"
proof -
  have q: "quiet m" and c: "confined (- {T_EVENT, T_SEQ, T_ROOM_SEQ}) m" using assms(1) by (simp_all only: off_timeline_def)
  have "timeline C ctx' = timeline C ctx"
    by (rule timeline_frame; (rule steps_in_frame(3)[OF confinedD[OF c assms(2)]])?) (use quietD[OF q assms(2)] in simp_all)
  then show ?thesis using assms(3) quietD[OF q assms(2)] unfolding in_order_def by simp
qed

lemma in_order_put: "t \<noteq> T_EVENT \<Longrightarrow> t \<noteq> T_SEQ \<Longrightarrow> t \<noteq> T_ROOM_SEQ \<Longrightarrow> in_order C N (ctx_put t k v ctx) = in_order C N ctx"
  using timeline_frame[of "ctx_put t k v ctx" ctx C] by (simp add: in_order_def)

lemma event_absent: "ctx_get ctx T_EVENT e = None \<Longrightarrow> \<not> on_timeline (ev_at C ctx e)"
  by (simp add: row_def on_timeline_def)

lemma support_in_order: "afor (put_support C) evs ctx = Inr (u, ctx') \<Longrightarrow> in_order C N ctx \<Longrightarrow> in_order C N ctx'"
proof (erule afor_invariant)
  fix ev c c'
  assume "in_order C N c" "put_support C ev c = Inr ((), c')"
  then show "in_order C N c'" unfolding put_support_def put_event_def
    by (auto split: if_splits intro!: in_order_offline event_absent simp del: room_tables)
qed

text \<open>The shape of every command that puts an event on the timeline.\<close>

lemma place_in_order:
  assumes "\<And>seq. off_timeline (rest seq)"
    and "abind (emit_event C r e) (\<lambda>seq. aseq (put_event C e (s seq)) (aseq (put_timeline C r e seq) (rest seq))) ctx = Inr (a, ctx')"
    and "\<And>seq. se_seq (s seq) = seq" and "\<not> on_timeline (ev_at C ctx e)" and "in_order C N ctx"
  shows "in_order C N ctx'"
proof -
  have "rest (ctx_seq ctx + 1) (placed C r e (s (ctx_seq ctx + 1)) ctx) = Inr (a, ctx')"
    using assms(2) by (simp add: emit_event_def put_event_def put_timeline_def placed_def Let_def)
  from in_order_off[OF assms(1) this in_order_placed[OF assms(5,4,3)]] show ?thesis .
qed

lemma append_in_order:
  assumes "apply_append C cmd ctx = Inr (r, ctx')" and "in_order C N ctx"
  shows "in_order C N ctx'"
proof -
  from assms(1) consider "ctx' = ctx"
    | rej where "ctx_get ctx T_EVENT (ae_event_id cmd) = None" "append_rejected C cmd rej ctx = Inr (r, ctx')"
    | "ctx_get ctx T_EVENT (ae_event_id cmd) = None" "append_accepted C cmd ctx = Inr (r, ctx')"
    unfolding apply_append_def by (auto split: if_splits option.splits simp del: room_tables)
  then show ?thesis
  proof cases
    case 1
    then show ?thesis using assms(2) by simp
  next
    case (2 rej)
    let ?s = "\<lparr>se_raw = ae_raw cmd, se_seq = 0, se_state_group_after = ae_state_group_after cmd, se_depth = ae_depth cmd,
        se_rejected = Some rej, se_history_idx = None, se_imported = False, se_relay = False\<rparr>"
    let ?rest = "aseq (afor (put_group C (ae_room_id cmd)) (ae_new_groups cmd))
      (abind (aget_typed ''room meta decode'' (rc_meta C) T_ROOM (ae_room_id cmd)) (\<lambda>m.
       aseq (case m of Some meta \<Rightarrow> if rm_next_group meta < ae_next_group cmd
                 then put_meta C (ae_room_id cmd) (meta\<lparr>rm_next_group := ae_next_group cmd\<rparr>) else aret ()
             | None \<Rightarrow> aret ())
       (aret (Rejected (ae_event_id cmd) (rejected_reason rej)))))"
    have "off_timeline ?rest" unfolding off_timeline_def by (rule conjI; intro quiet_intros confined_intros; simp)
    moreover have "?rest (ctx_put T_EVENT (ae_event_id cmd) (enc (rc_event C) ?s) ctx) = Inr (r, ctx')"
      using 2(2) by (auto simp: append_rejected_def put_event_def simp del: room_tables)
    ultimately show ?thesis
      by (rule in_order_off) (rule in_order_offline[OF assms(2) event_absent[OF 2(1)]], simp)
  next
    case 3
    have "off_timeline (aseq (case ae_redacts cmd of None \<Rightarrow> aret () | Some directive \<Rightarrow> put_redact directive (ae_event_id cmd))
       (aseq (afor (put_group C (ae_room_id cmd)) (ae_new_groups cmd))
       (abind (append_meta C cmd) (\<lambda>meta. aseq (put_meta C (ae_room_id cmd) meta) (aret (Accepted (ae_event_id cmd) seq))))))" for seq
      unfolding off_timeline_def by (rule conjI; intro quiet_intros confined_intros; simp)
    from place_in_order[OF this 3(2)[unfolded append_accepted_def] _ event_absent[OF 3(1)] assms(2)] show ?thesis by simp
  qed
qed

lemma segment_event_in_order:
  assumes "segment_event C room gid ev acc ctx = Inr (acc', ctx')" and "in_order C N ctx"
  shows "in_order C N ctx'"
proof -
  let ?acc = "\<lambda>seq. \<lparr>sa_appended = sa_appended acc + 1, sa_first = (case sa_first acc of Some f \<Rightarrow> Some f | None \<Rightarrow> Some seq),
                sa_last = Some (ie_event_id ev)\<rparr>"
  let ?s = "\<lambda>seq. \<lparr>se_raw = ie_raw ev, se_seq = seq, se_state_group_after = gid, se_depth = ie_depth ev,
            se_rejected = None, se_history_idx = None, se_imported = False, se_relay = False\<rparr>"
  let ?put = "abind (emit_event C room (ie_event_id ev)) (\<lambda>seq. aseq (put_event C (ie_event_id ev) (?s seq))
      (aseq (put_timeline C room (ie_event_id ev) seq) (aret (?acc seq))))"
  from assms(1) have "(if on_timeline (ev_at C ctx (ie_event_id ev)) then aret acc else ?put) ctx = Inr (acc', ctx')"
    unfolding segment_event_def get_event_def by (rule abind_typedE)
  then consider "ctx' = ctx" | "\<not> on_timeline (ev_at C ctx (ie_event_id ev))" "?put ctx = Inr (acc', ctx')"
    by (auto split: if_splits simp del: room_tables abind_eq aseq_eq)
  then show ?thesis
  proof cases
    case 1
    then show ?thesis using assms(2) by simp
  next
    case 2
    have "off_timeline (aret (?acc seq))" for seq unfolding off_timeline_def by (rule conjI; intro quiet_intros confined_intros)
    from place_in_order[OF this 2(2) _ 2(1) assms(2)] show ?thesis by simp
  qed
qed

lemma history_event_in_order:
  assumes "history_event C room ev acc ctx = Inr (acc', ctx')" and "in_order C N ctx"
  shows "in_order C N ctx'"
proof -
  let ?e = "ie_event_id ev"
  let ?s = "history_stored ev (ha_idx acc) (ev_at C ctx ?e)"
  from assms(1) have "(if is_visible (ev_at C ctx ?e) then aret (acc\<lparr>ha_batch_ids := bs_insert ?e (ha_batch_ids acc)\<rparr>)
     else abind (alift (ok_or (Engine ''history event parse'') (object_of C (se_raw ?s)))) (\<lambda>raw.
         aseq (put_event C ?e ?s) (aseq (aput T_HISTORY (room_u64_key room (ha_idx acc)) ?e)
         (aret \<lparr>ha_batch_ids = bs_insert ?e (ha_batch_ids acc), ha_new_prevs = ha_new_prevs acc @ prev_event_ids raw,
                ha_idx = ha_idx acc + 1, ha_indexed = ha_indexed acc + 1\<rparr>)))) ctx = Inr (acc', ctx')"
    unfolding history_event_def get_event_def Let_def by (rule abind_typedE)
  then consider "ctx' = ctx" | "\<not> is_visible (ev_at C ctx ?e)"
      "ctx' = ctx_put T_HISTORY (room_u64_key room (ha_idx acc)) ?e (ctx_put T_EVENT ?e (enc (rc_event C) ?s) ctx)"
    by (auto simp: put_event_def split: if_splits simp del: room_tables)
  then show ?thesis
  proof cases
    case 1
    then show ?thesis using assms(2) by simp
  next
    case 2
    then have "\<not> on_timeline (ev_at C ctx ?e)" "se_seq ?s = 0"
      by (auto simp: is_visible_def on_timeline_def history_stored_def word_gt_0 split: option.splits)
    from in_order_offline[OF assms(2) this] show ?thesis unfolding 2(2) by (subst in_order_put) simp_all
  qed
qed

lemma support_offline:
  "afor (put_support C) evs ctx = Inr (u, ctx') \<Longrightarrow> \<not> on_timeline (ev_at C ctx e) \<Longrightarrow> \<not> on_timeline (ev_at C ctx' e)"
proof (erule afor_invariant)
  fix ev c c'
  assume "\<not> on_timeline (ev_at C c e)" "put_support C ev c = Inr ((), c')"
  then show "\<not> on_timeline (ev_at C c' e)" unfolding put_support_def put_event_def
    by (auto simp: on_timeline_def split: if_splits)
qed

text \<open>An import of a room that the shard does not hold names a join that is not on the timeline.\<close>

lemma import_in_order:
  assumes "apply_import C cmd ctx = Inr (r, ctx')" and "in_order C N ctx"
    and "ctx_get ctx T_ROOM (ir_room_id cmd) = None \<Longrightarrow> \<not> on_timeline (ev_at C ctx (ir_join_event_id cmd))"
  shows "in_order C N ctx'"
proof -
  let ?j = "ir_join_event_id cmd"
  let ?g = "\<lparr>sg_parent = None, sg_chain_len = 0, sg_entries = ir_state cmd\<rparr>"
  have known: "c' = c \<and> (m \<noteq> None \<longrightarrow> k = on_timeline (ev_at C c ?j))" if "import_known C cmd m c = Inr (k, c')" for m c k c'
    using that unfolding import_known_def get_event_def by (auto split: if_splits elim!: abind_typedE dest!: decode_opt_row simp del: room_tables)
  from assms(1) consider "ctx' = ctx"
    | m c1 c2 where "\<not> on_timeline (ev_at C ctx ?j)" "afor (put_support C) (ir_events cmd) ctx = Inr ((), c1)"
      "put_group C (ir_room_id cmd) (import_group_id m, ?g) c1 = Inr ((), c2)" "import_join C cmd m c2 = Inr (r, ctx')"
    unfolding apply_import_def using assms(3)
    by (auto dest!: known simp: decode_opt_None split: if_splits simp del: room_tables) (metis decode_opt_None option.exhaust)+
  then show ?thesis
  proof cases
    case 1
    then show ?thesis using assms(2) by simp
  next
    case (2 m c1 c2)
    have off: "off_timeline (put_group C (ir_room_id cmd) (import_group_id m, ?g))"
      unfolding off_timeline_def by (rule conjI; intro quiet_intros confined_intros; simp)
    have fin: "off_timeline (import_finish C cmd m seq)" for seq
      unfolding off_timeline_def import_finish_def by (rule conjI; intro quiet_intros confined_intros; simp)
    have "\<not> on_timeline (ev_at C c2 ?j)"
      using support_offline[OF 2(2,1)] 2(3) by (simp add: put_group_def)
    from place_in_order[OF fin 2(4)[unfolded import_join_def] _ this in_order_off[OF off 2(3) support_in_order[OF 2(2) assms(2)]]]
    show ?thesis by simp
  qed
qed

lemma segment_in_order:
  assumes "apply_import_segment C cmd ctx = Inr (r, ctx')" and "in_order C N ctx"
  shows "in_order C N ctx'"
proof -
  let ?g = "\<lparr>sg_parent = None, sg_chain_len = 0, sg_entries = is_state cmd\<rparr>"
  from assms(1) obtain m c1 c2 acc acc' c3 where run: "afor (put_support C) (is_events cmd) ctx = Inr ((), c1)"
    "put_group C (is_room_id cmd) (rm_next_group m, ?g) c1 = Inr ((), c2)"
    "afold (segment_event C (is_room_id cmd) (rm_next_group m)) (is_timeline cmd) acc c2 = Inr (acc', c3)"
    "segment_finish C cmd m acc' c3 = Inr (r, ctx')"
    unfolding apply_import_segment_def by (auto split: option.splits simp del: room_tables)
  have off: "off_timeline (put_group C (is_room_id cmd) (rm_next_group m, ?g))" "off_timeline (segment_finish C cmd m acc')"
    unfolding off_timeline_def segment_finish_def by (rule conjI; intro quiet_intros confined_intros; simp)+
  have "in_order C N c2" by (rule in_order_off[OF off(1) run(2) support_in_order[OF run(1) assms(2)]])
  then have "in_order C N c3" by (rule afold_invariant[OF run(3), of "\<lambda>_. in_order C N"]) (rule segment_event_in_order)
  then show ?thesis by (rule in_order_off[OF off(2) run(4)])
qed

lemma history_in_order:
  assumes "apply_import_history C cmd ctx = Inr (r, ctx')" and "in_order C N ctx"
  shows "in_order C N ctx'"
proof -
  from assms(1) obtain m acc acc' c1 where run: "afold (history_event C (ih_room_id cmd)) (ih_events cmd) acc ctx = Inr (acc', c1)"
    "history_finish C cmd m acc' c1 = Inr (r, ctx')"
    unfolding apply_import_history_def by (auto split: option.splits simp del: room_tables)
  have off: "off_timeline (history_finish C cmd m acc')"
    unfolding off_timeline_def history_finish_def by (rule conjI; intro quiet_intros confined_intros; simp)
  have "in_order C N c1" by (rule afold_invariant[OF run(1), of "\<lambda>_. in_order C N"]) (use assms(2) history_event_in_order in auto)
  then show ?thesis by (rule in_order_off[OF off run(2)])
qed

end

section \<open>Histories\<close>

text \<open>What the server guarantees of an import: the join of a room it does not hold is a new event.\<close>

fun import_ok :: "room_codecs \<Rightarrow> apply_ctx \<Rightarrow> room_command \<Rightarrow> bool" where
  "import_ok C ctx (Import i) = (ctx_get ctx T_ROOM (ir_room_id i) = None \<longrightarrow> \<not> on_timeline (ev_at C ctx (ir_join_event_id i)))"
| "import_ok C ctx _ = True"

context room_wire
begin

lemma command_in_order:
  assumes "room_command_run C cmd ctx = Inr (r, ctx')" and "in_order C N ctx" and "import_ok C ctx cmd"
  shows "in_order C N ctx'"
proof (cases cmd)
  case (ReceiptCommand rc)
  let ?e = "SeqReceipt (rcp_room_id rc) (rcp_user_id rc) (rcp_receipt_type rc) (rcp_event_id rc) (rcp_ts rc)"
  let ?q = "ctx_seq ctx + 1"
  let ?c = "ctx_put T_SEQ (u64_be ?q) (enc (rc_seq C) ?e) (snd (ctx_emit (enc (rc_change C) (payload_of ?e)) ctx))"
  from assms(1) ReceiptCommand consider "ctx' = ctx" | k v where "ctx' = ctx_put T_RECEIPT k v ?c"
    by (auto simp: room_command_run_def apply_receipt_def Let_def payload_of_def split: if_splits simp del: room_tables)
  then show ?thesis
  proof cases
    case (2 k v)
    have "in_order C N ?c" using in_order_noted[OF assms(2), of ?e] by (simp add: noted_def Let_def)
    then show ?thesis unfolding 2 by (subst in_order_put) simp_all
  qed (use assms(2) in simp)
next
  case (AppendStamped e txn)
  then obtain resp c1 where run: "apply_append C e ctx = Inr (resp, c1)"
    "(case resp of Accepted eid _ \<Rightarrow> put_txn txn eid | _ \<Rightarrow> aret ()) c1 = Inr ((), ctx')"
    using assms(1) by (auto simp: room_command_run_def apply_stamped_def)
  have "off_timeline (case resp of Accepted eid _ \<Rightarrow> put_txn txn eid | _ \<Rightarrow> aret ())"
    unfolding off_timeline_def by (cases resp) (auto intro!: quiet_intros confined_intros)
  from in_order_off[OF this run(2) append_in_order[OF run(1) assms(2)]] show ?thesis .
qed (use assms append_in_order import_in_order segment_in_order history_in_order in \<open>auto simp: room_command_run_def\<close>)

end

lemma history_in_order_all:
  assumes "room_wire C" and "room_history C (import_ok C) s db seq out"
  shows "bt_wf db \<and> in_order C (length out) (room_ctx s db seq)"
  using assms(2)
proof induction
  case start
  have "timeline C (room_ctx s [] 0)" by (simp add: timeline_def row_def room_ctx_get kv_get_def)
  then show ?case by (simp add: in_order_def)
next
  case (batch db seq out ctx)
  have run: "in_order C (length out) c'" if "room_run C (import_ok C) c c'" "in_order C (length out) c" for c c'
    using that by induction (auto intro: room_wire.command_in_order[OF assms(1)])
  have io: "in_order C (length out) ctx" using run[OF batch.hyps(2)] batch.IH by blast
  have f: "ctx_engine ctx = db" "ctx_shard ctx = s" using room_run_frame[OF batch.hyps(2)] by simp_all
  have same: "ctx_get (room_ctx s (committed ctx) q) t k = ctx_get ctx t k" "bt_wf (committed ctx)" for q t k
    using committed_room[of ctx] f batch.IH by auto
  have "timeline C (room_ctx s (committed ctx) (ctx_seq ctx)) = timeline C ctx" by (rule timeline_frame) (simp_all add: same)
  then show ?case using io same(2) by (simp add: in_order_def)
qed

text \<open>
  C11: The timeline of a shard is exact, in every history with fewer than \<open>2^64\<close> records that meets \<open>import_ok\<close>,
  in whatever batches: an event that is stored with a position is at that position of the sequence, and an
  event that the sequence has at a position is stored with it, so no event is on the timeline twice; and the
  timeline of a room holds at a position exactly the event of that room that the sequence has there.
  \<open>import_ok\<close> is a condition on one command: an import of a room that the shard does not hold names a join that
  is not on its timeline yet. \<open>apply_import\<close> makes that test for a room it holds and not otherwise, and relies on
  an event being stored under one room only; without it a join could be placed a second time.
\<close>

theorem timeline_exact:
  assumes "room_wire C" and "room_history C (import_ok C) s db seq out" and "length out < 2 ^ 64"
  shows "((\<exists>se. row (rc_event C) (room_ctx s db seq) T_EVENT e = Some se \<and> se_seq se = q \<and> q \<noteq> 0) \<longleftrightarrow>
      (\<exists>r. row (rc_seq C) (room_ctx s db seq) T_SEQ (u64_be q) = Some (SeqEvent r e))) \<and>
    (row (rc_seq C) (room_ctx s db seq) T_SEQ (u64_be q) = Some (SeqEvent r e) \<longleftrightarrow>
      ctx_get (room_ctx s db seq) T_ROOM_SEQ (room_u64_key r q) = Some e)"
proof -
  have t: "timeline C (room_ctx s db seq)"
    using history_in_order_all[OF assms(1,2)] assms(3) by (auto simp: in_order_def)
  have "q \<noteq> 0" if "seq_at C (room_ctx s db seq) q = Some (SeqEvent r e)" for r
    using timelineD(4)[OF t, of q] that by (auto simp: row_def bind_eq_Some_conv)
  then show ?thesis using timelineD(1)[OF t, of e] timelineD(2)[OF t, of q _ e] timelineD(3)[OF t, of q r e] by blast
qed

end
