(* ===== verification/Room_Codecs.thy ===== *)
theory Room_Codecs
  imports Room_Timeline Wire_Codecs
begin

text \<open>
  A wire format for the records of the room shard, on which its theorems are applied. The texts of
  events are a parameter of it: two functions between texts and objects.
\<close>

definition pk_u16 :: "u16 pickle" where
  "pk_u16 = pk_via (\<lambda>w. ucast w) (\<lambda>w. ucast w) pk_u64"

definition pk_rejected :: "rejected_kind pickle" where
  "pk_rejected = pk_via (\<lambda>x. case x of AuthChain r \<Rightarrow> (True, r) | StateRejected r \<Rightarrow> (False, r))
     (\<lambda>(b, r). if b then AuthChain r else StateRejected r) (pk_pair pk_bool pk_bytes)"

definition pk_stored_event :: "stored_event pickle" where
  "pk_stored_event = pk_via (\<lambda>x. (se_raw x, se_seq x, se_state_group_after x, se_depth x, se_rejected x, se_history_idx x, se_imported x, se_relay x))
     (\<lambda>(a, b, c, d, e, f, g, h). \<lparr>se_raw = a, se_seq = b, se_state_group_after = c, se_depth = d, se_rejected = e, se_history_idx = f,
        se_imported = g, se_relay = h\<rparr>)
     (pk_pair pk_bytes (pk_pair pk_u64 (pk_pair pk_u64 (pk_pair pk_u64 (pk_pair (pk_option pk_rejected)
       (pk_pair (pk_option pk_u64) (pk_pair pk_bool pk_bool)))))))"

definition pk_state_group :: "state_group pickle" where
  "pk_state_group = pk_via (\<lambda>x. (sg_parent x, sg_chain_len x, sg_entries x))
     (\<lambda>(a, b, c). \<lparr>sg_parent = a, sg_chain_len = b, sg_entries = c\<rparr>)
     (pk_pair (pk_option pk_u64) (pk_pair pk_u16 (pk_list (pk_pair (pk_pair pk_bytes pk_bytes) pk_bytes))))"

definition pk_room_meta :: "room_meta pickle" where
  "pk_room_meta = pk_via (\<lambda>x. (rm_version x, rm_create_event_id x, rm_current_group x, rm_next_group x, rm_extremities x,
       rm_history_frontier x, rm_next_history_idx x, rm_gap_markers x))
     (\<lambda>(a, b, c, d, e, f, g, h). \<lparr>rm_version = a, rm_create_event_id = b, rm_current_group = c, rm_next_group = d, rm_extremities = e,
        rm_history_frontier = f, rm_next_history_idx = g, rm_gap_markers = h\<rparr>)
     (pk_pair pk_bytes (pk_pair pk_bytes (pk_pair pk_u64 (pk_pair pk_u64 (pk_pair (pk_list pk_bytes)
       (pk_pair (pk_list pk_bytes) (pk_pair pk_u64 (pk_list pk_u64))))))))"

definition pk_seq_entry :: "seq_entry pickle" where
  "pk_seq_entry = pk_via (\<lambda>x. case x of SeqEvent r e \<Rightarrow> (r, e, None) | SeqReceipt r u y e t \<Rightarrow> (r, e, Some (u, y, t)))
     (\<lambda>(r, e, x). case x of None \<Rightarrow> SeqEvent r e | Some (u, y, t) \<Rightarrow> SeqReceipt r u y e t)
     (pk_pair pk_bytes (pk_pair pk_bytes (pk_option (pk_pair pk_bytes (pk_pair pk_bytes pk_u64)))))"

definition pk_receipt_record :: "receipt_record pickle" where
  "pk_receipt_record = pk_via (\<lambda>x. (rr_event_id x, rr_thread_id x, rr_ts x, rr_seq x))
     (\<lambda>(a, b, c, d). \<lparr>rr_event_id = a, rr_thread_id = b, rr_ts = c, rr_seq = d\<rparr>)
     (pk_pair pk_bytes (pk_pair (pk_option pk_bytes) (pk_pair pk_u64 pk_u64)))"

definition pk_change :: "change_payload pickle" where
  "pk_change = pk_via (\<lambda>x. case x of ChangeEvent r e \<Rightarrow> (r, Some e) | ChangeReceipt r \<Rightarrow> (r, None))
     (\<lambda>(r, e). case e of Some e \<Rightarrow> ChangeEvent r e | None \<Rightarrow> ChangeReceipt r) (pk_pair pk_bytes (pk_option pk_bytes))"

lemma faithful_room [simp]:
  "faithful pk_u16" "faithful pk_rejected" "faithful pk_stored_event" "faithful pk_state_group" "faithful pk_room_meta"
  "faithful pk_seq_entry" "faithful pk_receipt_record" "faithful pk_change"
proof -
  show u16: "faithful pk_u16" unfolding pk_u16_def by (rule faithful_via) (simp_all add: unsigned_ucast_eq take_bit_word_eq_self)
  show rej: "faithful pk_rejected" unfolding pk_rejected_def by (rule faithful_via) (simp_all split: rejected_kind.split)
  show "faithful pk_stored_event" unfolding pk_stored_event_def by (rule faithful_via) (simp_all add: rej)
  show "faithful pk_state_group" unfolding pk_state_group_def by (rule faithful_via) (simp_all add: u16)
  show "faithful pk_room_meta" unfolding pk_room_meta_def by (rule faithful_via) simp_all
  show "faithful pk_seq_entry" unfolding pk_seq_entry_def by (rule faithful_via) (simp_all split: seq_entry.split)
  show "faithful pk_receipt_record" unfolding pk_receipt_record_def by (rule faithful_via) simp_all
  show "faithful pk_change" unfolding pk_change_def by (rule faithful_via) (simp_all split: change_payload.split)
qed

definition room_format :: "(bytes \<Rightarrow> jobj option) \<Rightarrow> (jobj \<Rightarrow> bytes option) \<Rightarrow> room_codecs" where
  "room_format parse print = \<lparr>rc_command = \<lparr>enc = \<lambda>_. [], dec = \<lambda>_. None\<rparr>, rc_response = \<lparr>enc = \<lambda>_. [], dec = \<lambda>_. None\<rparr>,
     rc_event = codec_of pk_stored_event, rc_group = codec_of pk_state_group, rc_meta = codec_of pk_room_meta,
     rc_seq = codec_of pk_seq_entry, rc_receipt = codec_of pk_receipt_record, rc_change = codec_of pk_change,
     object_of = parse, canonical_of = (\<lambda>b. case parse b of None \<Rightarrow> Inl (NotJson []) | Some obj \<Rightarrow> Inr (JObj obj)), raw_of = print\<rparr>"

interpretation room_format: room_wire "room_format parse print" for parse print
  by unfold_locales (simp_all add: room_format_def)

end
