(* ===== verification/Room_Store.thy ===== *)
theory Room_Store
  imports Room_Timeline Validation State_Res
begin

text \<open>
  The typed reads of a room shard (\<open>RoomStore\<close> of \<open>machine.rs\<close>): on the node that hosts the shard they
  read its applied state, elsewhere they send the operations of \<open>read.rs\<close> to a replica. The remote
  reader is a parameter.
\<close>

datatype room_store = Local read_ctx | Remote "read_op \<Rightarrow> string + read_value"

definition remote_err :: "string \<Rightarrow> store_error" where
  "remote_err e = Engine (''remote read: '' @ e)"

definition rs_get :: "room_store \<Rightarrow> u8 \<Rightarrow> bytes \<Rightarrow> store_error + bytes option" where
  "rs_get store table k =
     (case store of
        Local ctx \<Rightarrow> Inr (rd_get ctx table k)
      | Remote r \<Rightarrow> (case r (ReadGet table k) of
            Inl e \<Rightarrow> Inl (remote_err e)
          | Inr (Value v) \<Rightarrow> Inr v
          | Inr _ \<Rightarrow> Inl (Engine ''get returned'')))"

definition rs_scan :: "room_store \<Rightarrow> u8 \<Rightarrow> bytes \<Rightarrow> bytes \<Rightarrow> nat \<Rightarrow> bool \<Rightarrow> store_error + (bytes \<times> bytes) list" where
  "rs_scan store table start e limit reverse =
     (case store of
        Local ctx \<Rightarrow> Inr (rd_scan ctx table start e limit reverse)
      | Remote r \<Rightarrow> (case r (ReadScan table start e (of_nat (min limit (2 ^ 32 - 1))) reverse) of
            Inl e \<Rightarrow> Inl (remote_err e)
          | Inr (Entries v) \<Rightarrow> Inr v
          | Inr _ \<Rightarrow> Inl (Engine ''scan returned'')))"

definition rs_range :: "room_store \<Rightarrow> u8 \<Rightarrow> bytes \<Rightarrow> bytes \<Rightarrow> store_error + (bytes \<times> bytes) list" where
  "rs_range store table start e =
     (case store of
        Local ctx \<Rightarrow> Inr (rd_range ctx table start e)
      | Remote r \<Rightarrow> (case r (ReadRange table start e) of
            Inl e \<Rightarrow> Inl (remote_err e)
          | Inr (Entries v) \<Rightarrow> Inr v
          | Inr _ \<Rightarrow> Inl (Engine ''range returned'')))"

definition rs_typed :: "string \<Rightarrow> 'a codec \<Rightarrow> room_store \<Rightarrow> u8 \<Rightarrow> bytes \<Rightarrow> store_error + 'a option" where
  "rs_typed what c store table k = rbind (rs_get store table k) (decode_opt what c)"

definition event_sync :: "room_codecs \<Rightarrow> room_store \<Rightarrow> string \<Rightarrow> store_error + stored_event option" where
  "event_sync C store eid =
     (case store of
        Local ctx \<Rightarrow> decode_opt ''event decode'' (rc_event C) (rd_get ctx T_EVENT eid)
      | Remote _ \<Rightarrow> Inl (Engine ''event pipeline requires a hosted shard (sync read on remote store)''))"

section \<open>Events, rooms, state groups\<close>

definition rs_event :: "room_codecs \<Rightarrow> room_store \<Rightarrow> string \<Rightarrow> store_error + stored_event option" where
  "rs_event C store eid = rs_typed ''event decode'' (rc_event C) store T_EVENT eid"

definition rs_meta :: "room_codecs \<Rightarrow> room_store \<Rightarrow> string \<Rightarrow> store_error + room_meta option" where
  "rs_meta C store rid = rs_typed ''room meta decode'' (rc_meta C) store T_ROOM rid"

definition rs_group :: "room_codecs \<Rightarrow> room_store \<Rightarrow> string \<Rightarrow> u64 \<Rightarrow> store_error + state_group option" where
  "rs_group C store rid gid = rs_typed ''state group decode'' (rc_group C) store T_GROUP (room_u64_key rid gid)"

text \<open>One page of rooms: the row after the last one of the page is the start of the next.\<close>

fun room_page :: "room_codecs \<Rightarrow> nat \<Rightarrow> (bytes \<times> bytes) list \<Rightarrow> store_error + (string \<times> room_meta) list \<times> string option" where
  "room_page C limit [] = Inr ([], None)"
| "room_page C limit ((k, v) # rows) =
     rbind (ok_or (Engine ''room id not UTF-8'') (from_utf8 k)) (\<lambda>rid.
       case limit of
         0 \<Rightarrow> Inr ([], Some rid)
       | Suc n \<Rightarrow> rbind (decode_r ''room meta decode'' (rc_meta C) v) (\<lambda>m.
           rbind (room_page C n rows) (\<lambda>(out, nxt). Inr ((rid, m) # out, nxt))))"

definition rs_rooms ::
  "room_codecs \<Rightarrow> room_store \<Rightarrow> string option \<Rightarrow> nat \<Rightarrow> store_error + (string \<times> room_meta) list \<times> string option" where
  "rs_rooms C store from limit =
     rbind (rs_scan store T_ROOM (case from of None \<Rightarrow> [] | Some f \<Rightarrow> f) [] (min (Suc limit) usize_max) False)
       (room_page C limit)"

text \<open>
  The groups from one up to the nearest snapshot, nearest last. The loop follows whatever parents are
  stored, so it may fail to return.
\<close>

partial_function (option) group_chain ::
  "(u64 \<Rightarrow> store_error + state_group option) \<Rightarrow> u64 option \<Rightarrow> state_group list \<Rightarrow> (store_error + state_group list) option" where
  "group_chain lookup cursor chain =
     (case cursor of
        None \<Rightarrow> Some (Inr chain)
      | Some gid \<Rightarrow>
          (case lookup gid of
             Inl e \<Rightarrow> Some (Inl e)
           | Inr None \<Rightarrow> Some (Inl (Engine ''state group missing''))
           | Inr (Some g) \<Rightarrow> group_chain lookup (sg_parent g) (chain @ [g])))"

definition overlay_groups :: "state_group list \<Rightarrow> (string \<times> string, string) btree_map" where
  "overlay_groups chain = fold (\<lambda>g. fold (\<lambda>(k, v). bt_insert k v) (sg_entries g)) (rev chain) []"

definition resolve_group ::
  "room_codecs \<Rightarrow> room_store \<Rightarrow> string \<Rightarrow> u64 \<Rightarrow> (store_error + (string \<times> string, string) btree_map) option" where
  "resolve_group C store rid gid =
     dbind (group_chain (rs_group C store rid) (Some gid) []) (\<lambda>chain. Some (Inr (overlay_groups chain)))"

section \<open>Timelines\<close>

definition rs_timeline :: "room_codecs \<Rightarrow> room_store \<Rightarrow> u64 \<Rightarrow> nat \<Rightarrow> store_error + (u64 \<times> seq_entry) list" where
  "rs_timeline C store from limit =
     rbind (rs_scan store T_SEQ (u64_be (from + 1)) [] limit False)
       (\<lambda>rows. fold_r (\<lambda>(k, v) out.
          rbind (ok_or (Engine ''seq key width'') (u64_from_be k)) (\<lambda>seq.
          rbind (decode_r ''seq entry decode'' (rc_seq C) v) (\<lambda>e. Inr (out @ [(seq, e)])))) rows [])"

definition window_end :: "string \<Rightarrow> u64 option \<Rightarrow> bytes" where
  "window_end rid until =
     (case until of
        Some u \<Rightarrow> if u = - 1 then room_u64_end rid else room_u64_key rid (u + 1)
      | None \<Rightarrow> room_u64_end rid)"

text \<open>A key shorter than its number panics; the read then has no result.\<close>

definition window_row :: "string \<Rightarrow> string \<Rightarrow> bytes \<times> bytes \<Rightarrow> store_error + u64 \<times> string" where
  "window_row width utf8 = (\<lambda>(k, v).
     if length k < 8 then Inl (Engine ''slice index out of range'')
     else rbind (ok_or (Engine width) (u64_from_be (drop (length k - 8) k))) (\<lambda>n.
          rbind (ok_or (Engine utf8) (from_utf8 v)) (\<lambda>eid. Inr (n, eid))))"

definition room_window ::
  "u8 \<Rightarrow> string \<Rightarrow> string \<Rightarrow> room_store \<Rightarrow> string \<Rightarrow> u64 \<Rightarrow> u64 option \<Rightarrow> nat \<Rightarrow> bool \<Rightarrow> store_error + (u64 \<times> string) list" where
  "room_window table width utf8 store rid after until limit reverse =
     rbind (rs_scan store table (room_u64_key rid (saturating_add after 1)) (window_end rid until) limit reverse)
       (\<lambda>rows. fold_r (\<lambda>r out. rbind (window_row width utf8 r) (\<lambda>x. Inr (out @ [x]))) rows [])"

definition room_timeline ::
  "room_store \<Rightarrow> string \<Rightarrow> u64 \<Rightarrow> u64 option \<Rightarrow> nat \<Rightarrow> bool \<Rightarrow> store_error + (u64 \<times> string) list" where
  "room_timeline = room_window T_ROOM_SEQ ''room seq key width'' ''room seq value not UTF-8''"

definition room_history_page ::
  "room_store \<Rightarrow> string \<Rightarrow> u64 \<Rightarrow> u64 option \<Rightarrow> nat \<Rightarrow> bool \<Rightarrow> store_error + (u64 \<times> string) list" where
  "room_history_page = room_window T_HISTORY ''history key width'' ''history value not UTF-8''"

section \<open>Receipts\<close>

definition receipt_row :: "room_codecs \<Rightarrow> nat \<Rightarrow> bytes \<times> bytes \<Rightarrow> store_error + string \<times> string \<times> receipt_record" where
  "receipt_row C n = (\<lambda>(k, v).
     let rest = drop n k in
     if byte 0 \<notin> set rest then Inl (Engine ''receipt key shape'')
     else rbind (ok_or (Engine ''receipt user not UTF-8'') (from_utf8 (takeWhile (\<lambda>b. b \<noteq> byte 0) rest))) (\<lambda>user_id.
          rbind (ok_or (Engine ''receipt type not UTF-8'')
                   (from_utf8 (takeWhile (\<lambda>b. b \<noteq> byte 0) (tl (dropWhile (\<lambda>b. b \<noteq> byte 0) rest))))) (\<lambda>receipt_type.
          rbind (decode_r ''receipt decode'' (rc_receipt C) v) (\<lambda>r. Inr (user_id, receipt_type, r)))))"

definition rs_receipts :: "room_codecs \<Rightarrow> room_store \<Rightarrow> string \<Rightarrow> store_error + (string \<times> string \<times> receipt_record) list" where
  "rs_receipts C store rid =
     (let start = rid @ [byte 0] in
      rbind (rs_range store T_RECEIPT start (room_u64_end rid))
        (\<lambda>rows. fold_r (\<lambda>r out. rbind (receipt_row C (length start) r) (\<lambda>x. Inr (out @ [x]))) rows []))"

section \<open>Redactions and transactions\<close>

definition json_str :: "jobj \<Rightarrow> string \<Rightarrow> string option" where
  "json_str event k = (case bt_get event k of Some (JStr s) \<Rightarrow> Some s | _ \<Rightarrow> None)"

definition parse_raw :: "room_codecs \<Rightarrow> bytes \<Rightarrow> store_error + jobj" where
  "parse_raw C raw =
     (case canonical_of C raw of
        Inl (NotJson e) \<Rightarrow> Inl (Engine (''event json: '' @ e))
      | Inl (NotCanonical e) \<Rightarrow> Inl (Engine (''stored event: '' @ e))
      | Inr (JObj o') \<Rightarrow> Inr o'
      | Inr _ \<Rightarrow> Inl (Engine ''stored event not an object''))"

definition settle_pending :: "room_codecs \<Rightarrow> string \<Rightarrow> bool \<Rightarrow> bytes \<Rightarrow> bytes \<Rightarrow> store_error + string option" where
  "settle_pending C redactor_id may_redact target_raw redactor_raw =
     rbind (parse_raw C target_raw) (\<lambda>target.
     rbind (parse_raw C redactor_raw) (\<lambda>redactor.
       case (json_str target ''room_id'', json_str target ''sender'') of
         (Some rid, Some sndr) \<Rightarrow>
           if json_str redactor ''room_id'' \<noteq> Some rid then Inr None
           else if may_redact \<or> json_str redactor ''sender'' = Some sndr then Inr (Some redactor_id)
           else Inr None
       | _ \<Rightarrow> Inr None))"

definition redacted_by :: "room_codecs \<Rightarrow> room_store \<Rightarrow> string \<Rightarrow> store_error + string option" where
  "redacted_by C store eid =
     rbind (rs_get store T_REDACT eid) (\<lambda>entry.
     case entry of
       None \<Rightarrow> Inr None
     | Some entry \<Rightarrow> rbind (ok_or (Engine ''redact value not UTF-8'') (from_utf8 entry)) (\<lambda>entry.
         case directive_decode entry of
           Applies r \<Rightarrow> Inr (Some r)
         | Pending redactor_id may_redact \<Rightarrow>
             rbind (rs_event C store eid) (\<lambda>t.
             rbind (rs_event C store redactor_id) (\<lambda>r.
             case (t, r) of
               (Some target, Some redactor) \<Rightarrow>
                 if se_rejected target \<noteq> None then Inr None
                 else settle_pending C redactor_id may_redact (se_raw target) (se_raw redactor)
             | _ \<Rightarrow> Inr None))))"

definition txn_event :: "room_store \<Rightarrow> string \<Rightarrow> string \<Rightarrow> string \<Rightarrow> string \<Rightarrow> store_error + string option" where
  "txn_event store user_id device_id scope txn_id =
     rbind (rs_get store T_TXN (room_txn_key user_id device_id scope txn_id)) (\<lambda>v.
     case v of
       None \<Rightarrow> Inr None
     | Some v \<Rightarrow> rbind (ok_or (Engine ''txn event id not UTF-8'') (from_utf8 v)) (\<lambda>e. Inr (Some e)))"

text \<open>\<open>splitn(3, '\\0')\<close>: the parts before the first two separators and the rest.\<close>

definition txn_echo :: "room_store \<Rightarrow> string \<Rightarrow> store_error + (string \<times> string \<times> string) option" where
  "txn_echo store eid =
     rbind (rs_get store T_TXN_ECHO eid) (\<lambda>v.
     case v of
       None \<Rightarrow> Inr None
     | Some v \<Rightarrow> rbind (ok_or (Engine ''txn echo not UTF-8'') (from_utf8 v)) (\<lambda>v.
         case dropWhile (\<lambda>b. b \<noteq> byte 0) v of
           [] \<Rightarrow> Inl (Engine ''txn echo value shape'')
         | _ # r \<Rightarrow> (case dropWhile (\<lambda>b. b \<noteq> byte 0) r of
               [] \<Rightarrow> Inl (Engine ''txn echo value shape'')
             | _ # t \<Rightarrow> Inr (Some (takeWhile (\<lambda>b. b \<noteq> byte 0) v, takeWhile (\<lambda>b. b \<noteq> byte 0) r, t)))))"

definition redacted_form :: "jobj \<Rightarrow> jobj \<Rightarrow> jobj" where
  "redacted_form raw because =
     (let unsigned = (case bt_get raw ''unsigned'' of Some (JObj o') \<Rightarrow> o' | _ \<Rightarrow> [])
      in bt_insert ''unsigned'' (JObj (bt_insert ''redacted_because'' (JObj because) unsigned)) raw)"

definition served_event ::
  "room_version ruma \<Rightarrow> room_codecs \<Rightarrow> room_store \<Rightarrow> string \<Rightarrow> room_version \<Rightarrow> store_error + jobj option" where
  "served_event R C store eid version =
     rbind (rs_event C store eid) (\<lambda>s.
     case s of
       None \<Rightarrow> Inr None
     | Some stored \<Rightarrow>
         if se_rejected stored \<noteq> None then Inr None
         else rbind (parse_raw C (se_raw stored)) (\<lambda>raw.
              rbind (redacted_by C store eid) (\<lambda>r.
              case r of
                None \<Rightarrow> Inr (Some raw)
              | Some redactor_id \<Rightarrow> rbind (rs_event C store redactor_id) (\<lambda>e.
                  case e of
                    None \<Rightarrow> Inr (Some raw)
                  | Some redactor \<Rightarrow>
                      (case Validation.redact R raw version of
                         Inl _ \<Rightarrow> Inl (Engine ''redact'')
                       | Inr raw \<Rightarrow> rbind (parse_raw C (se_raw redactor)) (\<lambda>because.
                           Inr (Some (redacted_form raw because))))))))"

end
