(* ===== verification/Room_Pipeline.thy ===== *)
theory Room_Pipeline
  imports Room_Store "HOL-Library.Multiset"
begin

text \<open>
  The event pipeline of the room server (\<open>process_inner\<close> of \<open>lib.rs\<close>): from the JSON of an event to the
  command that persists its outcome. It reads the applied state of the shard, validates and verifies
  the event, checks the authorisation rules against its auth events and against the state before it,
  resolves forks, and computes state groups, extremities and the effect of a redaction.
\<close>

datatype restricted_denial = Forbidden | CannotValidate | CannotGrant

datatype room_error =
    UnknownRoom string
  | MissingEvents "string list"
  | MissingAuthEvents "string list"
  | ValidationFailed validation_error
  | VerificationFailed verification_error
  | FormatError event_format_error
  | VersionError unsupported_room_version
  | StateResFailed state_res_error
  | SignFailed string
  | MalformedEvent string
  | CannotAuthoriseJoin restricted_denial
  | ShardFailed string
  | StorageError string
  | CodecError string

text \<open>A stage of the pipeline may fail, and it may fail to return: its loops follow stored references.\<close>

type_synonym 'a stage = "(room_error + 'a) option"

definition lift_err :: "('e \<Rightarrow> room_error) \<Rightarrow> 'e + 'a \<Rightarrow> 'a stage" where
  "lift_err f r = Some (case r of Inl e \<Rightarrow> Inl (f e) | Inr a \<Rightarrow> Inr a)"

definition dret :: "'a \<Rightarrow> 'a stage" where
  "dret a = Some (Inr a)"

definition dfail :: "room_error \<Rightarrow> 'a stage" where
  "dfail e = Some (Inl e)"

fun storage_err :: "store_error \<Rightarrow> room_error" where
  "storage_err (Engine m) = StorageError m"

definition stored :: "store_error + 'a \<Rightarrow> 'a stage" where
  "stored r = lift_err storage_err r"

section \<open>Stored events\<close>

text \<open>The JSON of a stored event, converted by \<open>canonicalize\<close>.\<close>

definition canonicalize :: "text_error + json \<Rightarrow> room_error + jobj" where
  "canonicalize v =
     (case v of
        Inl (NotJson e) \<Rightarrow> Inl (CodecError e)
      | Inl (NotCanonical e) \<Rightarrow> Inl (MalformedEvent e)
      | Inr (JObj o') \<Rightarrow> Inr o'
      | Inr _ \<Rightarrow> Inl (MalformedEvent ''event must be an object''))"

definition parse_stored :: "room_version ruma \<Rightarrow> room_codecs \<Rightarrow> string \<Rightarrow> stored_event \<Rightarrow> room_error + identified_pdu" where
  "parse_stored R C eid s =
     rbind (canonicalize (canonical_of C (se_raw s))) (\<lambda>raw.
     case from_canonical R raw of
       Inl e \<Rightarrow> Inl (FormatError e)
     | Inr p \<Rightarrow> Inr \<lparr>ip_event_id = eid, ip_pdu = p\<rparr>)"

definition load_raw :: "room_codecs \<Rightarrow> room_store \<Rightarrow> string \<Rightarrow> room_error + jobj option" where
  "load_raw C store eid =
     (case rs_event C store eid of
        Inl e \<Rightarrow> Inl (storage_err e)
      | Inr None \<Rightarrow> Inr None
      | Inr (Some s) \<Rightarrow> (case object_of C (se_raw s) of
            None \<Rightarrow> Inl (CodecError ''event'')
          | Some o' \<Rightarrow> Inr (Some o')))"

definition materialize :: "room_version ruma \<Rightarrow> room_codecs \<Rightarrow> room_store \<Rightarrow> string \<Rightarrow> u64 \<Rightarrow> state_ids stage" where
  "materialize R C store rid gid =
     dbind (map_option (map_sum storage_err id) (resolve_group C store rid gid)) (\<lambda>m.
       if list_all (\<lambda>(_, v). event_id_ok R v) m then dret m else dfail (CodecError ''event id''))"

text \<open>
  The state groups behind a rejected event: its predecessors are searched, through further events without
  a group, to a depth of eight. The stack holds what remains to be searched, last in first out.
\<close>

definition behind_prev ::
  "room_codecs \<Rightarrow> room_store \<Rightarrow> nat \<Rightarrow> string \<Rightarrow> u64 btree_set \<times> (string \<times> nat) list \<Rightarrow> u64 btree_set \<times> (string \<times> nat) list" where
  "behind_prev C store depth prev = (\<lambda>(groups, stack).
     case rs_event C store prev of
       Inr (Some se) \<Rightarrow>
         if se_state_group_after se \<noteq> 0 then (bs_insert (se_state_group_after se) groups, stack)
         else (groups, (prev, Suc depth) # stack)
     | _ \<Rightarrow> (groups, stack))"

lemma behind_prev_stack:
  "\<exists>new. snd (fold (behind_prev C store d) prevs (groups, stack)) = map (\<lambda>p. (p, Suc d)) new @ stack"
proof (induction prevs arbitrary: groups stack)
  case Nil
  show ?case by (intro exI[of _ "[]"]) simp
next
  case (Cons p ps)
  have "\<exists>new. snd (behind_prev C store d p (groups, stack)) = map (\<lambda>p. (p, Suc d)) new @ stack"
    by (auto simp: behind_prev_def split: sum.split option.split intro: exI[of _ "[]"] exI[of _ "[p]"])
  then obtain g' new where n: "behind_prev C store d p (groups, stack) = (g', map (\<lambda>p. (p, Suc d)) new @ stack)"
    by (metis prod.collapse)
  from Cons.IH[of g' "map (\<lambda>p. (p, Suc d)) new @ stack"] obtain new' where
    "snd (fold (behind_prev C store d) (p # ps) (groups, stack)) = map (\<lambda>p. (p, Suc d)) (new' @ new) @ stack"
    using n by auto
  then show ?case by blast
qed

function groups_behind ::
  "room_codecs \<Rightarrow> room_store \<Rightarrow> (string \<times> nat) list \<Rightarrow> string btree_set \<Rightarrow> u64 btree_set \<Rightarrow> u64 btree_set" where
  "groups_behind C store [] seen groups = groups"
| "groups_behind C store ((eid, depth) # stack) seen groups =
     (if depth > 8 \<or> eid \<in> set seen then groups_behind C store stack seen groups
      else case load_raw C store eid of
             Inr (Some obj) \<Rightarrow>
               let r = fold (behind_prev C store depth) (prev_event_ids obj) (groups, stack)
               in groups_behind C store (snd r) (bs_insert eid seen) (fst r)
           | _ \<Rightarrow> groups_behind C store stack (bs_insert eid seen) groups)"
  by pat_completeness auto
termination
proof (relation "inv_image (mult less_than) (\<lambda>(C, store, stack, seen, groups). image_mset (\<lambda>(_, d). 9 - d) (mset stack))")
  show "wf (inv_image (mult less_than) (\<lambda>(C :: room_codecs, store :: room_store, stack :: (string \<times> nat) list, seen :: string btree_set, groups :: u64 btree_set).
      image_mset (\<lambda>(_, d). 9 - d) (mset stack)))"
    by (intro wf_inv_image wf_mult wf_less_than)
next
  fix C :: room_codecs and store :: room_store and eid :: string and depth :: nat and stack :: "(string \<times> nat) list"
    and seen :: "string btree_set" and groups :: "u64 btree_set" and obj :: jobj
    and r :: "u64 btree_set \<times> (string \<times> nat) list"
  assume "\<not> (depth > 8 \<or> eid \<in> set seen)"
    and "r = fold (behind_prev C store depth) (prev_event_ids obj) (groups, stack)"
  then obtain new where new: "snd r = map (\<lambda>p. (p, Suc depth)) new @ stack" and d: "depth \<le> 8"
    using behind_prev_stack[of C store depth "prev_event_ids obj" groups stack] by auto
  let ?M = "image_mset (\<lambda>(_, d). 9 - d) (mset stack)"
  have "(?M + image_mset (\<lambda>_. 8 - depth) (mset new), ?M + {#9 - depth#}) \<in> mult less_than"
    by (rule one_step_implies_mult) (use d in auto)
  then show "((C, store, snd r, bs_insert eid seen, fst r), (C, store, (eid, depth) # stack, seen, groups))
      \<in> inv_image (mult less_than) (\<lambda>(C, store, stack, seen, groups). image_mset (\<lambda>(_, d). 9 - d) (mset stack))"
    by (simp add: new image_mset.compositionality comp_def add.commute)
qed (auto intro: subset_implies_mult)

definition groups_behind_rejected :: "room_codecs \<Rightarrow> room_store \<Rightarrow> string \<Rightarrow> u64 btree_set" where
  "groups_behind_rejected C store eid = groups_behind C store [(eid, 0)] [] []"

section \<open>Validation and references\<close>

text \<open>An event whose signatures verify but whose content hash does not is processed in its redacted form.\<close>

definition verified_form ::
  "room_version ruma \<Rightarrow> public_key_map \<Rightarrow> jobj \<Rightarrow> room_version \<Rightarrow> room_error + jobj \<times> pdu" where
  "verified_form R keys raw v =
     rbind (map_sum ValidationFailed id (validate_pdu R raw v)) (\<lambda>p.
     rbind (map_sum VerificationFailed id (verify_event R raw v keys)) (\<lambda>outcome.
       case outcome of
         Verified \<Rightarrow> Inr (raw, p)
       | SignedButHashMismatch \<Rightarrow>
           rbind (map_sum VerificationFailed id (Validation.redact R raw v)) (\<lambda>raw.
           rbind (map_sum ValidationFailed id (validate_pdu R raw v)) (\<lambda>p. Inr (raw, p)))))"

definition fetch_auth ::
  "room_version ruma \<Rightarrow> room_codecs \<Rightarrow> room_store \<Rightarrow> string \<Rightarrow> (identified_pdu \<times> bool) list \<times> string list
     \<Rightarrow> room_error + (identified_pdu \<times> bool) list \<times> string list" where
  "fetch_auth R C store eid = (\<lambda>(auth, missing).
     rbind (map_sum storage_err id (rs_event C store eid)) (\<lambda>found.
       case found of
         Some se \<Rightarrow> rbind (parse_stored R C eid se) (\<lambda>e. Inr (auth @ [(e, se_rejected se \<noteq> None)], missing))
       | None \<Rightarrow> Inr (auth, missing @ [eid])))"

definition prev_group ::
  "room_codecs \<Rightarrow> room_store \<Rightarrow> string \<Rightarrow> u64 btree_set \<times> string list \<Rightarrow> room_error + u64 btree_set \<times> string list" where
  "prev_group C store eid = (\<lambda>(groups, missing).
     rbind (map_sum storage_err id (rs_event C store eid)) (\<lambda>found.
       case found of
         Some se \<Rightarrow>
           if se_state_group_after se = 0
           then (let behind = groups_behind_rejected C store eid in
                 if behind = [] then Inr (groups, missing @ [eid])
                 else Inr (bs_extend behind groups, missing))
           else Inr (bs_insert (se_state_group_after se) groups, missing)
       | None \<Rightarrow> Inr (groups, missing @ [eid])))"

text \<open>What state resolution and the rules may see: the event itself, and stored events not rejected by their auth chain.\<close>

definition fetch_event :: "room_version ruma \<Rightarrow> room_codecs \<Rightarrow> room_store \<Rightarrow> identified_pdu \<Rightarrow> fetch" where
  "fetch_event R C store event eid =
     (if eid = event_id event then Some event
      else case event_sync C store eid of
             Inr (Some se) \<Rightarrow>
               (case se_rejected se of
                  Some (AuthChain _) \<Rightarrow> None
                | _ \<Rightarrow> (case parse_stored R C eid se of Inr e \<Rightarrow> Some e | Inl _ \<Rightarrow> None))
           | _ \<Rightarrow> None)"

definition auth_entries :: "(identified_pdu \<times> bool) list \<Rightarrow> auth_entry list" where
  "auth_entries auth = map (\<lambda>(e, rej). \<lparr>entry_event = e, rejected = rej\<rparr>) auth"

text \<open>The state of the auth events; from version 12 on the create event joins it implicitly.\<close>

definition auth_state ::
  "room_version ruma \<Rightarrow> room_codecs \<Rightarrow> room_store \<Rightarrow> room_version \<Rightarrow> bool \<Rightarrow> room_meta option
     \<Rightarrow> (identified_pdu \<times> bool) list \<Rightarrow> state_map stage" where
  "auth_state R C store v is_create meta auth =
     (let st = bt_collect (map (\<lambda>(e, _). (state_pair e, e)) auth) in
      if \<not> is_create \<and> \<not> create_event_in_auth_events v
      then (case meta of
              None \<Rightarrow> None
            | Some m \<Rightarrow>
                let cid = rm_create_event_id m in
                dbind (stored (rs_event C store cid)) (\<lambda>found.
                  case found of
                    None \<Rightarrow> dfail (MissingEvents [cid])
                  | Some se \<Rightarrow>
                      if event_id_ok R cid
                      then dbind (Some (parse_stored R C cid se)) (\<lambda>e.
                             dret (bt_insert (''m.room.create'', []) e st))
                      else dfail (CodecError ''event id'')))
      else dret st)"

section \<open>State groups\<close>

text \<open>The next free group number and the groups to store.\<close>

type_synonym alloc = "u64 \<times> (u64 \<times> state_group) list"

definition full_group :: "state_ids \<Rightarrow> state_group" where
  "full_group st = \<lparr>sg_parent = None, sg_chain_len = 0, sg_entries = st\<rparr>"

definition alloc_group :: "state_group \<Rightarrow> alloc \<Rightarrow> u64 \<times> alloc" where
  "alloc_group g = (\<lambda>(next_group, new_groups). (next_group, next_group + 1, new_groups @ [(next_group, g)]))"

definition alloc_full :: "state_ids \<Rightarrow> alloc \<Rightarrow> u64 \<times> alloc" where
  "alloc_full st = alloc_group (full_group st)"

definition materialize_all ::
  "room_version ruma \<Rightarrow> room_codecs \<Rightarrow> room_store \<Rightarrow> string \<Rightarrow> u64 list \<Rightarrow> state_ids list stage" where
  "materialize_all R C store rid gids =
     fold_d (\<lambda>gid sets. dbind (materialize R C store rid gid) (\<lambda>m. dret (sets @ [m]))) gids []"

definition resolve_stage :: "room_version ruma \<Rightarrow> room_version \<Rightarrow> state_ids list \<Rightarrow> fetch \<Rightarrow> state_ids stage" where
  "resolve_stage R v sets fetch = map_option (map_sum StateResFailed id) (resolve R v sets fetch)"

definition state_before ::
  "room_version ruma \<Rightarrow> room_codecs \<Rightarrow> room_store \<Rightarrow> room_version \<Rightarrow> string \<Rightarrow> bool \<Rightarrow> u64 btree_set \<Rightarrow> fetch \<Rightarrow> u64
     \<Rightarrow> (state_ids \<times> u64 \<times> alloc) stage" where
  "state_before R C store v rid is_create prev_groups fetch next_group =
     (if is_create then dret ([], 0, next_group, [])
      else if length prev_groups = 1
      then dbind (materialize R C store rid (hd prev_groups)) (\<lambda>st. dret (st, hd prev_groups, next_group, []))
      else dbind (materialize_all R C store rid prev_groups) (\<lambda>sets.
           dbind (resolve_stage R v sets fetch) (\<lambda>st. dret (st, alloc_full st (next_group, [])))))"

definition state_view_of :: "room_version \<Rightarrow> identified_pdu \<Rightarrow> state_ids \<Rightarrow> fetch \<Rightarrow> room_error + state_map" where
  "state_view_of v event st fetch =
     fold_r (\<lambda>k view.
        case bt_get st k of
          None \<Rightarrow> Inr view
        | Some eid \<Rightarrow> rbind (ok_or (MissingEvents [eid]) (fetch eid)) (\<lambda>e. Inr (bt_insert k e view)))
       (bs_insert (''m.room.create'', []) (auth_types_of v event)) []"

definition delta_group :: "u64 \<Rightarrow> state_group \<Rightarrow> string \<times> string \<Rightarrow> string \<Rightarrow> state_group" where
  "delta_group gid p k eid = \<lparr>sg_parent = Some gid, sg_chain_len = sg_chain_len p + 1, sg_entries = [(k, eid)]\<rparr>"

definition state_after ::
  "room_codecs \<Rightarrow> room_store \<Rightarrow> string \<Rightarrow> bool \<Rightarrow> identified_pdu \<Rightarrow> state_ids \<Rightarrow> u64 \<Rightarrow> alloc
     \<Rightarrow> (state_ids \<times> u64 \<times> alloc) stage" where
  "state_after C store rid is_create event before before_group al =
     (case state_key event of
        None \<Rightarrow> dret (before, before_group, al)
      | Some sk \<Rightarrow>
          let k = (event_type event, sk); sa = bt_insert k (event_id event) before in
          if is_create then dret (sa, alloc_full sa al)
          else dbind (stored (rs_group C store rid before_group)) (\<lambda>parent.
            case parent of
              None \<Rightarrow> dfail (StorageError ''state group missing'')
            | Some p \<Rightarrow>
                if sg_chain_len p + 1 < MAX_GROUP_CHAIN
                then dret (sa, alloc_group (delta_group before_group p k (event_id event)) al)
                else dret (sa, alloc_full sa al)))"

section \<open>The tip of the room\<close>

definition extremities_after :: "room_meta option \<Rightarrow> identified_pdu \<Rightarrow> string btree_set" where
  "extremities_after meta event =
     (let old = (case meta of None \<Rightarrow> [] | Some m \<Rightarrow> bs_of (rm_extremities m))
      in bs_insert (event_id event) (fold removeAll (prev_events event) old))"

definition extremity_state ::
  "room_version ruma \<Rightarrow> room_codecs \<Rightarrow> room_store \<Rightarrow> string \<Rightarrow> string \<Rightarrow> state_ids \<Rightarrow> string \<Rightarrow> state_ids list \<Rightarrow> state_ids list stage" where
  "extremity_state R C store rid this sa eid sets =
     (if eid = this then dret (sets @ [sa])
      else dbind (stored (rs_event C store eid)) (\<lambda>found.
        case found of
          None \<Rightarrow> dfail (MissingEvents [eid])
        | Some se \<Rightarrow> dbind (materialize R C store rid (se_state_group_after se)) (\<lambda>m. dret (sets @ [m]))))"

definition current_group ::
  "room_version ruma \<Rightarrow> room_codecs \<Rightarrow> room_store \<Rightarrow> room_version \<Rightarrow> string \<Rightarrow> identified_pdu \<Rightarrow> fetch \<Rightarrow> string btree_set
     \<Rightarrow> state_ids \<Rightarrow> u64 \<Rightarrow> alloc \<Rightarrow> (u64 \<times> alloc) stage" where
  "current_group R C store v rid event fetch extremities sa after_group al =
     (if length extremities = 1 then dret (after_group, al)
      else dbind (fold_d (extremity_state R C store rid (event_id event) sa) extremities []) (\<lambda>sets.
           dbind (resolve_stage R v sets fetch) (\<lambda>resolved.
             if resolved = sa then dret (after_group, al) else dret (alloc_full resolved al))))"

section \<open>Redactions\<close>

definition sender_may_redact ::
  "room_version ruma \<Rightarrow> identified_pdu \<Rightarrow> room_version \<Rightarrow> state_ids \<Rightarrow> fetch \<Rightarrow> room_error + bool" where
  "sender_may_redact R event v st fetch =
     (case Option.bind (bt_get st (''m.room.create'', [])) fetch of
        None \<Rightarrow> Inr False
      | Some create \<Rightarrow>
          (case resolve_levels R v create (Option.bind (bt_get st (''m.room.power_levels'', [])) fetch) of
             Inl _ \<Rightarrow> Inl (MalformedEvent ''power levels'')
           | Inr pls \<Rightarrow> Inr (satisfies (user_level pls (sender event)) (Power_Levels.redact pls))))"

definition redaction_directive ::
  "room_version ruma \<Rightarrow> room_codecs \<Rightarrow> room_store \<Rightarrow> string \<Rightarrow> identified_pdu \<Rightarrow> room_version \<Rightarrow> state_ids \<Rightarrow> fetch
     \<Rightarrow> room_error + string option" where
  "redaction_directive R C store rid event v st fetch =
     (case bt_get (content event) ''redacts'' of
        Some (JStr target_id) \<Rightarrow>
          if \<not> event_id_ok R target_id then Inr None
          else rbind (map_sum storage_err id (rs_event C store target_id)) (\<lambda>found.
            case found of
              None \<Rightarrow> rbind (sender_may_redact R event v st fetch) (\<lambda>may_redact.
                Inr (Some (directive_encode (Pending target_id may_redact))))
            | Some se \<Rightarrow>
                if se_rejected se \<noteq> None then Inr None
                else rbind (parse_stored R C target_id se) (\<lambda>target.
                  if room_id target \<noteq> Some rid then Inr None
                  else if sender target = sender event
                  then Inr (Some (directive_encode (Applies target_id)))
                  else rbind (sender_may_redact R event v st fetch) (\<lambda>may_redact.
                    Inr (if may_redact then Some (directive_encode (Applies target_id)) else None))))
      | _ \<Rightarrow> Inr None)"

section \<open>The pipeline\<close>

text \<open>What the pipeline decides: the event is stored already, or a command is proposed to the shard.\<close>

datatype decision = AlreadyStored string | Propose append_event "txn_stamp option"

definition raw_bytes :: "room_codecs \<Rightarrow> jobj \<Rightarrow> room_error + bytes" where
  "raw_bytes C raw = ok_or (CodecError ''serialize'') (raw_of C raw)"

definition propose_rejected_with_state ::
  "room_codecs \<Rightarrow> string \<Rightarrow> identified_pdu \<Rightarrow> jobj \<Rightarrow> rejected_kind \<Rightarrow> (u64 \<times> state_group) list \<Rightarrow> u64 \<Rightarrow> u64 \<Rightarrow> decision stage" where
  "propose_rejected_with_state C rid event raw rej new_groups group_after next_group =
     dbind (Some (raw_bytes C raw)) (\<lambda>bytes.
       dret (Propose \<lparr>ae_room_id = rid, ae_event_id = event_id event, ae_raw = bytes,
         ae_depth = of_nat (pdu_depth (ip_pdu event)), ae_rejected = Some rej, ae_new_groups = new_groups,
         ae_state_group_after = group_after, ae_new_current_group = 0, ae_new_extremities = [],
         ae_next_group = next_group, ae_create_version = None, ae_redacts = None, ae_relay = False\<rparr> None))"

definition next_group_of :: "room_meta option \<Rightarrow> u64" where
  "next_group_of meta = (case meta of None \<Rightarrow> 1 | Some m \<Rightarrow> rm_next_group m)"

definition propose_rejected ::
  "room_codecs \<Rightarrow> string \<Rightarrow> identified_pdu \<Rightarrow> jobj \<Rightarrow> rejected_kind \<Rightarrow> room_meta option \<Rightarrow> decision stage" where
  "propose_rejected C rid event raw rej meta =
     propose_rejected_with_state C rid event raw rej [] 0 (next_group_of meta)"

text \<open>Steps 5a to 5c, for an event that passed the rules.\<close>

definition accept_event ::
  "room_version ruma \<Rightarrow> room_codecs \<Rightarrow> room_store \<Rightarrow> room_version \<Rightarrow> string \<Rightarrow> bool \<Rightarrow> bool \<Rightarrow> txn_stamp option
     \<Rightarrow> room_meta option \<Rightarrow> jobj \<Rightarrow> identified_pdu \<Rightarrow> state_ids \<Rightarrow> u64 \<Rightarrow> alloc \<Rightarrow> decision stage" where
  "accept_event R C store v rid is_create relay txn meta raw event before before_group al =
     dbind (state_after C store rid is_create event before before_group al) (\<lambda>(sa, after_group, al).
     let extremities = extremities_after meta event; fetch = fetch_event R C store event in
     dbind (current_group R C store v rid event fetch extremities sa after_group al) (\<lambda>(cur, next_group, new_groups).
     dbind (if event_type event = ''m.room.redaction''
            then Some (redaction_directive R C store rid event v before fetch) else dret None) (\<lambda>redacts.
     dbind (Some (raw_bytes C raw)) (\<lambda>bytes.
       dret (Propose \<lparr>ae_room_id = rid, ae_event_id = event_id event, ae_raw = bytes,
         ae_depth = of_nat (pdu_depth (ip_pdu event)), ae_rejected = None, ae_new_groups = new_groups,
         ae_state_group_after = after_group, ae_new_current_group = cur, ae_new_extremities = extremities,
         ae_next_group = next_group,
         ae_create_version = (if is_create then Some (version_str v) else None),
         ae_redacts = redacts, ae_relay = relay\<rparr> txn)))))"

text \<open>Steps 3 and 4: the rules over the auth events, then over the state before the event.\<close>

definition authorise_event ::
  "room_version ruma \<Rightarrow> room_codecs \<Rightarrow> room_store \<Rightarrow> room_version \<Rightarrow> string \<Rightarrow> bool \<Rightarrow> bool \<Rightarrow> txn_stamp option
     \<Rightarrow> room_meta option \<Rightarrow> jobj \<Rightarrow> identified_pdu \<Rightarrow> (identified_pdu \<times> bool) list \<Rightarrow> u64 btree_set \<Rightarrow> decision stage" where
  "authorise_event R C store v rid is_create relay txn meta raw event auth prev_groups =
     (case check_auth_events v event (auth_entries auth) of
        Inl rej \<Rightarrow> propose_rejected C rid event raw (AuthChain (rule rej)) meta
      | Inr _ \<Rightarrow>
     dbind (auth_state R C store v is_create meta auth) (\<lambda>ast.
     case check_state_dependent R v event (state_map_get ast) of
        Inl rej \<Rightarrow> propose_rejected C rid event raw (AuthChain (rule rej)) meta
      | Inr _ \<Rightarrow>
     let fetch = fetch_event R C store event in
     dbind (state_before R C store v rid is_create prev_groups fetch (next_group_of meta))
       (\<lambda>(before, before_group, next_group, new_groups).
     dbind (Some (state_view_of v event before fetch)) (\<lambda>view.
     case check_state_dependent R v event (state_map_get view) of
        Inl rej \<Rightarrow>
          propose_rejected_with_state C rid event raw (StateRejected (rule rej)) new_groups before_group next_group
      | Inr _ \<Rightarrow>
          accept_event R C store v rid is_create relay txn meta raw event before before_group
            (next_group, new_groups)))))"

definition process_inner ::
  "room_version ruma \<Rightarrow> room_codecs \<Rightarrow> public_key_map \<Rightarrow> room_store \<Rightarrow> jobj \<Rightarrow> room_version \<Rightarrow> string \<Rightarrow> bool
     \<Rightarrow> bool \<Rightarrow> bool \<Rightarrow> txn_stamp option \<Rightarrow> decision stage" where
  "process_inner R C keys store raw v rid is_create relay reject_missing_auth txn =
     dbind (Some (verified_form R keys raw v)) (\<lambda>(raw, p).
     dbind (lift_err FormatError (compute_event_id R raw v)) (\<lambda>eid.
     let event = \<lparr>ip_event_id = eid, ip_pdu = p\<rparr> in
     dbind (stored (rs_event C store eid)) (\<lambda>known.
     if known \<noteq> None then dret (AlreadyStored eid)
     else dbind (stored (rs_meta C store rid)) (\<lambda>meta.
     if \<not> is_create \<and> meta = None then dfail (UnknownRoom rid)
     else dbind (Some (fold_r (fetch_auth R C store) (auth_events event) ([], []))) (\<lambda>(auth, missing_auth).
     dbind (Some (fold_r (prev_group C store) (prev_events event) ([], []))) (\<lambda>(prev_groups, missing).
     if missing \<noteq> [] then dfail (MissingEvents missing)
     else if missing_auth \<noteq> []
     then (if reject_missing_auth
           then propose_rejected C rid event raw (AuthChain ''auth events unfetchable'') meta
           else dfail (MissingAuthEvents missing_auth))
     else authorise_event R C store v rid is_create relay txn meta raw event auth prev_groups))))))"

section \<open>Proposals\<close>

definition append_command :: "bool \<Rightarrow> append_event \<Rightarrow> txn_stamp option \<Rightarrow> room_command" where
  "append_command txn_records_available cmd txn =
     (case txn of
        Some t \<Rightarrow> if txn_records_available then AppendStamped cmd t else Append cmd
      | None \<Rightarrow> Append cmd)"

datatype outcome =
    OutAccepted string u64
  | OutRejected string string
  | OutDuplicate string

definition outcome_of :: "room_version ruma \<Rightarrow> room_response \<Rightarrow> room_error + outcome" where
  "outcome_of R resp =
     (let parse_id = (\<lambda>s. if event_id_ok R s then Inr s else Inl (CodecError ''event id'')) in
      case resp of
        Accepted eid seq \<Rightarrow> rbind (parse_id eid) (\<lambda>eid. Inr (OutAccepted eid seq))
      | Rejected eid reason \<Rightarrow> rbind (parse_id eid) (\<lambda>eid. Inr (OutRejected eid reason))
      | Duplicate eid \<Rightarrow> rbind (parse_id eid) (\<lambda>eid. Inr (OutDuplicate eid))
      | _ \<Rightarrow> Inl (CodecError ''unexpected non-event response to append''))"

section \<open>Classification\<close>

definition str_of :: "jobj \<Rightarrow> string \<Rightarrow> room_error + string" where
  "str_of obj k = (case bt_get obj k of
     Some (JStr s) \<Rightarrow> Inr s
   | _ \<Rightarrow> Inl (MalformedEvent (''missing string `'' @ k @ ''`'')))"

definition room_id_of :: "room_version ruma \<Rightarrow> jobj \<Rightarrow> room_error + string" where
  "room_id_of R raw =
     rbind (str_of raw ''room_id'') (\<lambda>rid. if room_id_ok R rid then Inr rid else Inl (MalformedEvent ''room_id''))"

definition classify ::
  "room_version ruma \<Rightarrow> room_codecs \<Rightarrow> room_store \<Rightarrow> jobj \<Rightarrow> room_error + room_version \<times> string \<times> bool" where
  "classify R C store raw =
     rbind (str_of raw ''type'') (\<lambda>ty.
     if ty = ''m.room.create'' \<and> bt_get raw ''state_key'' = Some (JStr [])
     then (case bt_get raw ''content'' of
             Some (JObj c) \<Rightarrow>
               rbind (case str_of c ''room_version'' of
                        Inr s \<Rightarrow> Inr s
                      | Inl _ \<Rightarrow> Inl (MalformedEvent ''create content without room_version'')) (\<lambda>s.
               rbind (map_sum VersionError id (parse_version s)) (\<lambda>v.
               rbind (if room_id_is_create_event_id v then map_sum FormatError id (room_id_for_create R raw v)
                      else room_id_of R raw) (\<lambda>rid. Inr (v, rid, True))))
           | _ \<Rightarrow> Inl (MalformedEvent ''create event without content''))
     else rbind (room_id_of R raw) (\<lambda>rid.
          rbind (map_sum storage_err id (rs_meta C store rid)) (\<lambda>m.
          rbind (ok_or (UnknownRoom rid) m) (\<lambda>m.
          rbind (map_sum VersionError id (parse_version (rm_version m))) (\<lambda>v. Inr (v, rid, False))))))"

end
