(* ===== verification/Room_Groups.thy ===== *)
theory Room_Groups
  imports Room_Pipeline Resolution
begin

text \<open>
  The state groups of a room: chains of deltas that end in a snapshot. The numbers of a room's groups
  stay below its next number, a delta points at an earlier group, and a chain holds at most
  \<open>MAX_GROUP_CHAIN\<close> groups, so that \<open>resolve_group\<close> returns the state a group stands for.
\<close>

section \<open>Chains\<close>

type_synonym groups = "u64 \<Rightarrow> state_group option"

definition linked :: "groups \<Rightarrow> u64 \<Rightarrow> state_group \<Rightarrow> bool" where
  "linked L gid g \<longleftrightarrow> sg_chain_len g < MAX_GROUP_CHAIN \<and>
     (case sg_parent g of
        None \<Rightarrow> sg_chain_len g = 0
      | Some p \<Rightarrow> p < gid \<and> (\<exists>gp. L p = Some gp \<and> sg_chain_len g = sg_chain_len gp + 1))"

definition chains_ok :: "groups \<Rightarrow> u64 \<Rightarrow> bool" where
  "chains_ok L n \<longleftrightarrow> n \<noteq> 0 \<and> (\<forall>gid g. L gid = Some g \<longrightarrow> gid \<noteq> 0 \<and> gid < n \<and> linked L gid g)"

inductive group_path :: "groups \<Rightarrow> u64 \<Rightarrow> state_group list \<Rightarrow> bool" for L where
  snapshot: "L gid = Some g \<Longrightarrow> sg_parent g = None \<Longrightarrow> group_path L gid [g]"
| delta: "L gid = Some g \<Longrightarrow> sg_parent g = Some p \<Longrightarrow> group_path L p gs \<Longrightarrow> group_path L gid (g # gs)"

definition state_is :: "groups \<Rightarrow> u64 \<Rightarrow> state_ids \<Rightarrow> bool" where
  "state_is L gid st \<longleftrightarrow> (\<exists>gs. group_path L gid gs \<and> overlay_groups gs = st)"

lemma chains_okD:
  assumes "chains_ok L n" and "L gid = Some g"
  shows "gid \<noteq> 0" "gid < n" "sg_chain_len g < MAX_GROUP_CHAIN" "sg_parent g = None \<Longrightarrow> sg_chain_len g = 0"
    "sg_parent g = Some p \<Longrightarrow> p < gid \<and> (\<exists>gp. L p = Some gp \<and> sg_chain_len g = sg_chain_len gp + 1)"
proof -
  have *: "gid \<noteq> 0" "gid < n" "linked L gid g" using assms by (simp_all add: chains_ok_def)
  then show "gid \<noteq> 0" "gid < n" "sg_chain_len g < MAX_GROUP_CHAIN" by (simp_all add: linked_def)
  show "sg_chain_len g = 0" if "sg_parent g = None" using *(3) that by (simp add: linked_def)
  show "p < gid \<and> (\<exists>gp. L p = Some gp \<and> sg_chain_len g = sg_chain_len gp + 1)" if "sg_parent g = Some p"
    using *(3) that by (simp add: linked_def)
qed

lemma path_head: "group_path L gid gs \<Longrightarrow> \<exists>g gs'. L gid = Some g \<and> gs = g # gs'"
  by (cases rule: group_path.cases) auto

lemma chain_len_step:
  fixes a b :: u16
  assumes "a = b + 1" and "b < MAX_GROUP_CHAIN"
  shows "unat a = Suc (unat b)"
proof -
  have "unat b < 32" using assms(2) by (simp add: MAX_GROUP_CHAIN_def word_less_nat_alt)
  then have "unat (b + 1) = unat b + 1" by (subst unat_add_lem[THEN iffD1]) simp_all
  then show ?thesis using assms(1) by simp
qed

lemma path_exists:
  assumes "chains_ok L n"
  shows "L gid = Some g \<Longrightarrow> \<exists>gs. group_path L gid gs \<and> length gs = Suc (unat (sg_chain_len g))"
proof (induction "unat gid" arbitrary: gid g rule: less_induct)
  case less
  note D = chains_okD[OF assms less.prems]
  show ?case
  proof (cases "sg_parent g")
    case None
    then show ?thesis using D(4) group_path.snapshot[of L gid g, OF less.prems] by (intro exI[of _ "[g]"]) simp
  next
    case (Some p)
    then obtain gp where p: "p < gid" "L p = Some gp" "sg_chain_len g = sg_chain_len gp + 1" using D(5) by blast
    from less.hyps[OF _ p(2)] p(1) obtain gs where gs: "group_path L p gs" "length gs = Suc (unat (sg_chain_len gp))"
      by (auto simp: word_less_nat_alt)
    have "unat (sg_chain_len g) = Suc (unat (sg_chain_len gp))"
      by (rule chain_len_step[OF p(3) chains_okD(3)[OF assms p(2)]])
    with gs group_path.delta[of L gid g p, OF less.prems Some] show ?thesis by (intro exI[of _ "g # gs"]) simp
  qed
qed

lemma path_chain: "group_path L gid gs \<Longrightarrow> group_chain (\<lambda>i. Inr (L i)) (Some gid) acc = Some (Inr (acc @ gs))"
  by (induction arbitrary: acc rule: group_path.induct) (simp_all add: group_chain.simps)

lemma path_unique: "group_path L gid gs \<Longrightarrow> group_path L gid gs' \<Longrightarrow> gs = gs'"
  using path_chain[of L gid gs "[]"] path_chain[of L gid gs' "[]"] by simp

lemma state_is_unique: "state_is L gid st \<Longrightarrow> state_is L gid st' \<Longrightarrow> st = st'"
  unfolding state_is_def using path_unique by blast

lemma state_is_total: "chains_ok L n \<Longrightarrow> L gid \<noteq> None \<Longrightarrow> \<exists>st. state_is L gid st"
  unfolding state_is_def using path_exists by blast

lemma path_extend: "group_path L gid gs \<Longrightarrow> (\<And>i g. L i = Some g \<Longrightarrow> L' i = Some g) \<Longrightarrow> group_path L' gid gs"
  by (induction rule: group_path.induct) (auto intro: group_path.intros)

lemma state_is_extend: "state_is L gid st \<Longrightarrow> (\<And>i g. L i = Some g \<Longrightarrow> L' i = Some g) \<Longrightarrow> state_is L' gid st"
  unfolding state_is_def using path_extend by blast

lemma fold_insert_wf: "bt_wf m \<Longrightarrow> bt_wf (fold (\<lambda>(k, v). bt_insert k v) es m)"
  by (induction es arbitrary: m) auto

lemma overlay_wf: "bt_wf (overlay_groups gs)"
proof -
  have "bt_wf (fold (\<lambda>g. fold (\<lambda>(k, v). bt_insert k v) (sg_entries g)) hs m)" if "bt_wf m" for hs and m :: state_ids
    using that by (induction hs arbitrary: m) (auto simp: fold_insert_wf)
  from this[of "[]"] show ?thesis by (simp add: overlay_groups_def)
qed

lemma overlay_Cons: "overlay_groups (g # gs) = fold (\<lambda>(k, v). bt_insert k v) (sg_entries g) (overlay_groups gs)"
  by (simp add: overlay_groups_def)

lemma state_is_wf: "state_is L gid st \<Longrightarrow> bt_wf st"
  unfolding state_is_def using overlay_wf by blast

lemma collect_self:
  assumes "bt_wf (st :: state_ids)"
  shows "fold (\<lambda>(k, v). bt_insert k v) st [] = st"
  by (intro bt_wf_eqI ext) (auto simp: fold_insert_get fold_insert_wf assms split: option.split)

text \<open>What a group added to the room stands for.\<close>

lemma state_is_full: "bt_wf st \<Longrightarrow> L gid = Some (full_group st) \<Longrightarrow> state_is L gid st"
  unfolding state_is_def
  by (intro exI[of _ "[full_group st]"]) (auto intro: group_path.snapshot simp: full_group_def overlay_groups_def collect_self)

lemma state_is_delta:
  assumes "state_is L p st" and "L gid = Some (delta_group p gp k e)"
  shows "state_is L gid (bt_insert k e st)"
proof -
  from assms(1) obtain gs where "group_path L p gs" "overlay_groups gs = st" by (auto simp: state_is_def)
  moreover from this(1) have "group_path L gid (delta_group p gp k e # gs)"
    by (rule group_path.delta[where p = p and L = L, OF assms(2), rotated]) (simp add: delta_group_def)
  ultimately show ?thesis unfolding state_is_def
    by (intro exI[of _ "delta_group p gp k e # gs"]) (simp add: delta_group_def overlay_Cons)
qed

section \<open>Resolved states are maps\<close>

lemma auth_checks_wf:
  assumes "iterative_auth_checks R v order st fetch = Inr st'" and "bt_wf st"
  shows "bt_wf st'"
  using assms unfolding iterative_auth_checks_def
  by (rule fold_r_invariant) (auto simp: auth_check_step_def Let_def split: if_splits sum.splits)

lemma resolve_wf:
  assumes "resolve R v sets fetch = Some (Inr st)"
  shows "bt_wf st"
proof (cases "sets = []")
  case True
  then show ?thesis using assms by (simp add: resolve_def)
next
  case False
  obtain u c where p: "partition_sets sets = (u, c)" by fastforce
  then have u: "bt_wf u" using partition_sets_spec(1)[OF False p] by simp
  have ord: "bt_wf st" if "resolve_ordered R v u fc ps sp fetch = Some (Inr st)" for fc ps sp
  proof -
    from that obtain part ord res where "iterative_auth_checks R v sp (if state_res v = SR_V2 then u else []) fetch = Inr part"
      "iterative_auth_checks R v ord part fetch = Inr res" and st: "st = fold (\<lambda>(k, w). bt_insert k w) u res"
      by (auto simp: resolve_ordered_def)
    moreover have "bt_wf (if state_res v = SR_V2 then u else [])" using u by simp
    ultimately have "bt_wf res" by (blast intro: auth_checks_wf)
    then show ?thesis unfolding st by (rule fold_insert_wf)
  qed
  then show ?thesis using assms False p u by (auto simp: resolve_def split: if_splits prod.splits)
qed

section \<open>Allocation\<close>

definition add_groups :: "(u64 \<times> state_group) list \<Rightarrow> groups \<Rightarrow> groups" where
  "add_groups gs L = fold (\<lambda>(i, g) L. L(i \<mapsto> g)) gs L"

text \<open>
  The groups a command adds to those it found: they extend them without replacing any, the chains stay in
  order, and the next number counts the added ones. \<open>n\<close> is the next number the command started from.
\<close>

definition alloc_ok :: "groups \<Rightarrow> u64 \<Rightarrow> alloc \<Rightarrow> bool" where
  "alloc_ok L n = (\<lambda>(n', gs). chains_ok (add_groups gs L) n' \<and> unat n' = unat n + length gs \<and> (gs \<noteq> [] \<longrightarrow> fst (hd gs) = n) \<and>
     (\<forall>i g. L i = Some g \<longrightarrow> add_groups gs L i = Some g))"

lemma add_groups_simps [simp]:
  "add_groups [] L = L" "add_groups (gs @ [(i, g)]) L = (add_groups gs L)(i \<mapsto> g)"
  by (simp_all add: add_groups_def)

lemma add_groups_mem: "i \<in> fst ` set gs \<Longrightarrow> \<exists>g. (i, g) \<in> set gs \<and> add_groups gs L i = Some g"
proof (induction gs rule: rev_induct)
  case (snoc p gs)
  obtain j h where p: "p = (j, h)" by fastforce
  show ?case
  proof (cases "i = j")
    case False
    then have "i \<in> fst ` set gs" using snoc.prems by (auto simp: p)
    from snoc.IH[OF this] False show ?thesis by (auto simp: p)
  qed (auto simp: p)
qed simp

lemma alloc_ok_start: "chains_ok L n \<Longrightarrow> alloc_ok L n (n, [])"
  by (simp add: alloc_ok_def)

lemma chains_ok_fresh: "chains_ok L n \<Longrightarrow> L n = None"
  by (metis chains_okD(2) option.exhaust order_less_irrefl)

lemma chains_ok_add:
  assumes "chains_ok L n" and "n < n + 1" and "linked L n g"
  shows "chains_ok (L(n \<mapsto> g)) (n + 1)"
proof -
  have keep: "linked (L(n \<mapsto> g)) i h" if "linked L i h" for i h
    using that chains_ok_fresh[OF assms(1)] by (auto simp: linked_def split: option.splits)
  show ?thesis unfolding chains_ok_def
  proof (intro conjI allI impI)
    show "n + 1 \<noteq> 0" using assms(2) by auto
    fix i h
    assume h: "(L(n \<mapsto> g)) i = Some h"
    show "i \<noteq> 0" "i < n + 1" "linked (L(n \<mapsto> g)) i h"
      using h assms keep[OF assms(3)] keep order.strict_trans[OF _ assms(2), of i]
      by (auto simp: chains_ok_def split: if_splits)
  qed
qed

lemma alloc_step:
  assumes "alloc_ok L n (n', gs)" and "linked (add_groups gs L) n' g" and "unat n + length gs + 1 < 2 ^ 64"
    and "alloc_group g (n', gs) = (i, al)"
  shows "alloc_ok L n al" "i = n'" "add_groups (snd al) L n' = Some g"
    "\<And>j h. add_groups gs L j = Some h \<Longrightarrow> add_groups (snd al) L j = Some h"
proof -
  have al: "i = n'" "al = (n' + 1, gs @ [(n', g)])" using assms(4) by (auto simp: alloc_group_def)
  have n': "chains_ok (add_groups gs L) n'" "unat n' = unat n + length gs" using assms(1) by (auto simp: alloc_ok_def)
  have "gs = [] \<Longrightarrow> n' = n" using n'(2) by (simp add: unsigned_word_eqI)
  then have hd: "fst (hd (gs @ [(n', g)])) = n" using assms(1) by (cases gs) (auto simp: alloc_ok_def)
  from n' have succ: "unat (n' + 1) = Suc (unat n')" using assms(3) by (subst unat_add_lem[THEN iffD1]) simp_all
  then have "n' < n' + 1" by (simp add: word_less_nat_alt)
  from chains_ok_add[OF n'(1) this assms(2)] have "chains_ok ((add_groups gs L)(n' \<mapsto> g)) (n' + 1)" .
  moreover have "add_groups gs L n' = None" by (rule chains_ok_fresh[OF n'(1)])
  moreover have "add_groups gs L j = Some h" if "L j = Some h" for j h using assms(1) that by (simp add: alloc_ok_def)
  ultimately show "alloc_ok L n al" using succ n'(2) hd unfolding al by (auto simp add: alloc_ok_def)
  show "i = n'" by (rule al(1))
  show "add_groups (snd al) L n' = Some g" by (simp add: al)
  show "add_groups (snd al) L j = Some h" if "add_groups gs L j = Some h" for j h
    using that \<open>add_groups gs L n' = None\<close> by (auto simp: al)
qed

lemma linked_full [simp]: "linked L n (full_group st)"
  by (simp add: linked_def full_group_def MAX_GROUP_CHAIN_def)

end
