(* ===== verification/Room_Alloc.thy ===== *)
theory Room_Alloc
  imports Room_Groups
begin

text \<open>
  The pipeline against the state groups of a room: what it reads of them, what it adds, and that the
  command it proposes keeps them in order.
\<close>

section \<open>Stages that succeed\<close>

lemma map_sum_Inr [simp]: "map_sum f id r = Inr a \<longleftrightarrow> r = Inr a"
  by (cases r) simp_all

lemma lift_stage [simp]:
  "map_option (map_sum f id) r = Some (Inr a) \<longleftrightarrow> r = Some (Inr a)" "stored x = Some (Inr b) \<longleftrightarrow> x = Inr b"
  "lift_err g y = Some (Inr c) \<longleftrightarrow> y = Inr c"
  by (auto simp: stored_def lift_err_def split: sum.split)

lemma dret_simps [simp]: "dret a = Some (Inr b) \<longleftrightarrow> b = a" "dfail e \<noteq> Some (Inr b)"
  by (auto simp: dret_def dfail_def)

section \<open>Reading\<close>

definition serves :: "read_ctx \<Rightarrow> apply_ctx \<Rightarrow> bool" where
  "serves rd ctx \<longleftrightarrow> (\<forall>t k. rd_get rd t k = ctx_get ctx t k)"

definition room_groups :: "room_codecs \<Rightarrow> apply_ctx \<Rightarrow> string \<Rightarrow> groups" where
  "room_groups C ctx rid gid = row (rc_group C) ctx T_GROUP (room_u64_key rid gid)"

definition room_next :: "room_codecs \<Rightarrow> apply_ctx \<Rightarrow> string \<Rightarrow> u64" where
  "room_next C ctx rid = next_group_of (row (rc_meta C) ctx T_ROOM rid)"

text \<open>The groups of a room are in order: they decode, and their chains are.\<close>

definition room_sound :: "room_codecs \<Rightarrow> apply_ctx \<Rightarrow> string \<Rightarrow> bool" where
  "room_sound C ctx rid \<longleftrightarrow> chains_ok (room_groups C ctx rid) (room_next C ctx rid) \<and>
     (\<forall>gid. ctx_get ctx T_GROUP (room_u64_key rid gid) \<noteq> None \<longrightarrow> room_groups C ctx rid gid \<noteq> None)"

lemma read_group:
  assumes "serves rd ctx" and "room_sound C ctx rid"
  shows "rs_group C (Local rd) rid = (\<lambda>gid. Inr (room_groups C ctx rid gid))"
proof
  fix gid
  have "rd_get rd T_GROUP (room_u64_key rid gid) = ctx_get ctx T_GROUP (room_u64_key rid gid)"
    using assms(1) by (simp only: serves_def)
  then show "rs_group C (Local rd) rid gid = Inr (room_groups C ctx rid gid)"
    using assms(2) unfolding rs_group_def rs_typed_def rs_get_def room_sound_def room_groups_def row_def
    by (auto simp: decode_opt_eq bind_eq_Some_conv split: option.split simp del: room_tables)
qed

lemma read_meta:
  assumes "serves rd ctx" and "rs_meta C (Local rd) rid = Inr m"
  shows "m = row (rc_meta C) ctx T_ROOM rid"
proof -
  have "rd_get rd T_ROOM rid = ctx_get ctx T_ROOM rid" using assms(1) by (simp only: serves_def)
  then show ?thesis using assms(2) decode_opt_row[of _ "rc_meta C" ctx T_ROOM rid m]
    by (simp add: rs_meta_def rs_typed_def rs_get_def del: room_tables)
qed

lemma resolve_read:
  assumes "serves rd ctx" and "room_sound C ctx rid"
  shows "resolve_group C (Local rd) rid gid = Some (Inr st) \<longleftrightarrow> state_is (room_groups C ctx rid) gid st"
proof -
  let ?L = "room_groups C ctx rid"
  have ok: "chains_ok ?L (room_next C ctx rid)" using assms(2) by (simp add: room_sound_def)
  show ?thesis
  proof (cases "?L gid")
    case None
    then have "\<not> state_is ?L gid st" using path_head by (fastforce simp: state_is_def)
    then show ?thesis using None by (simp add: resolve_group_def read_group[OF assms] group_chain.simps[of _ "Some gid"])
  next
    case (Some g)
    then obtain gs where gs: "group_path ?L gid gs" using path_exists[OF ok] by blast
    have "state_is ?L gid (overlay_groups gs)" using gs by (auto simp: state_is_def)
    then show ?thesis using path_chain[OF gs, of "[]"] state_is_unique
      by (auto simp: resolve_group_def read_group[OF assms])
  qed
qed

lemma materialize_resolve:
  "materialize R C store rid gid = Some (Inr st) \<Longrightarrow> resolve_group C store rid gid = Some (Inr st)"
  by (auto simp: materialize_def split: if_splits)

lemma materialize_all_resolve:
  assumes "materialize_all R C store rid gids = Some (Inr sets)"
  shows "list_all2 (\<lambda>gid st. resolve_group C store rid gid = Some (Inr st)) gids sets"
proof -
  let ?f = "\<lambda>gid sets. dbind (materialize R C store rid gid) (\<lambda>m. dret (sets @ [m]))"
  have "\<exists>more. sets = acc @ more \<and> list_all2 (\<lambda>gid st. resolve_group C store rid gid = Some (Inr st)) gids more"
    if "fold_d ?f gids acc = Some (Inr sets)" for acc
    using that
  proof (induction gids arbitrary: acc)
    case (Cons gid gids)
    then obtain m where m: "materialize R C store rid gid = Some (Inr m)" and rest: "fold_d ?f gids (acc @ [m]) = Some (Inr sets)"
      by auto
    from Cons.IH[OF rest] obtain more where "sets = (acc @ [m]) @ more"
      "list_all2 (\<lambda>gid st. resolve_group C store rid gid = Some (Inr st)) gids more" by blast
    with materialize_resolve[OF m] show ?case by (intro exI[of _ "m # more"]) simp
  qed simp
  from this[of "[]"] assms show ?thesis by (simp add: materialize_all_def)
qed

section \<open>The groups of an event\<close>

text \<open>The state before an event, and after it.\<close>

definition prior_state ::
  "room_version ruma \<Rightarrow> room_codecs \<Rightarrow> room_store \<Rightarrow> room_version \<Rightarrow> string \<Rightarrow> bool \<Rightarrow> u64 btree_set \<Rightarrow> fetch \<Rightarrow> state_ids \<Rightarrow> bool" where
  "prior_state R C store v rid is_create prev_groups fetch st \<longleftrightarrow>
     (if is_create then st = []
      else \<exists>sets. list_all2 (\<lambda>gid s. resolve_group C store rid gid = Some (Inr s)) prev_groups sets \<and>
        (if length sets = 1 then st = hd sets else resolve R v sets fetch = Some (Inr st)))"

definition with_event :: "identified_pdu \<Rightarrow> state_ids \<Rightarrow> state_ids" where
  "with_event e st = (case state_key e of None \<Rightarrow> st | Some sk \<Rightarrow> bt_insert (event_type e, sk) (event_id e) st)"

lemma state_before_spec:
  assumes "state_before R C store v rid is_create prevs fetch n = Some (Inr (st, bg, al))"
  shows "prior_state R C store v rid is_create prevs fetch st" "is_create \<Longrightarrow> al = (n, [])"
proof -
  consider "is_create" "st = []" "al = (n, [])" | "\<not> is_create" "length prevs = 1" "materialize R C store rid (hd prevs) = Some (Inr st)"
    | sets where "\<not> is_create" "length prevs \<noteq> 1" "materialize_all R C store rid prevs = Some (Inr sets)" "resolve R v sets fetch = Some (Inr st)"
    using assms by (auto simp: state_before_def resolve_stage_def split: if_splits)
  then show "prior_state R C store v rid is_create prevs fetch st"
  proof cases
    case 2
    then obtain g where "prevs = [g]" by (auto simp: length_Suc_conv)
    then show ?thesis using 2 materialize_resolve[of R C store rid g st] unfolding prior_state_def
      by (intro if_not_P[THEN iffD2]) (auto intro!: exI[of _ "[st]"])
  next
    case (3 sets)
    then show ?thesis using materialize_all_resolve[OF 3(3)] list_all2_lengthD by (fastforce simp: prior_state_def)
  qed (simp add: prior_state_def)
  show "al = (n, [])" if is_create using assms that by (simp add: state_before_def)
qed

text \<open>A node reads the state a command will meet: \<open>L\<close> are the groups of the room, \<open>n\<close> its next number.\<close>

definition sees :: "room_codecs \<Rightarrow> read_ctx \<Rightarrow> apply_ctx \<Rightarrow> string \<Rightarrow> groups \<Rightarrow> u64 \<Rightarrow> bool" where
  "sees C rd ctx rid L n \<longleftrightarrow> serves rd ctx \<and> room_sound C ctx rid \<and> L = room_groups C ctx rid \<and> n = room_next C ctx rid"

lemma seesD:
  assumes "sees C rd ctx rid L n"
  shows "chains_ok L n" "rs_group C (Local rd) rid gid = Inr (L gid)"
    "resolve_group C (Local rd) rid gid = Some (Inr st) \<longleftrightarrow> state_is L gid st"
  using assms read_group[of rd ctx C rid] resolve_read[of rd ctx C rid gid st] by (auto simp: sees_def room_sound_def)

lemma state_before_alloc:
  assumes sees: "sees C rd ctx rid L n" and "state_before R C (Local rd) v rid is_create prevs fetch n = Some (Inr (st, bg, al))" and "unat n + 1 < 2 ^ 64"
  shows "alloc_ok L n al" "length (snd al) \<le> 1" "bt_wf st" "\<not> is_create \<Longrightarrow> state_is (add_groups (snd al) L) bg st"
proof -
  note reads = seesD(3)[OF sees] and start = alloc_ok_start[OF seesD(1)[OF sees]]
  consider "is_create" "st = []" "al = (n, [])"
    | "\<not> is_create" "bg = hd prevs" "materialize R C (Local rd) rid (hd prevs) = Some (Inr st)" "al = (n, [])"
    | sets where "\<not> is_create" "resolve R v sets fetch = Some (Inr st)" "alloc_full st (n, []) = (bg, al)"
    using assms(2) by (auto simp: state_before_def resolve_stage_def split: if_splits)
  then have "alloc_ok L n al \<and> length (snd al) \<le> 1 \<and> bt_wf st \<and> (\<not> is_create \<longrightarrow> state_is (add_groups (snd al) L) bg st)"
  proof cases
    case 1
    then show ?thesis using start by simp
  next
    case 2
    then have "state_is L bg st" using materialize_resolve reads by blast
    then show ?thesis using 2 start state_is_wf by auto
  next
    case (3 sets)
    note wf = resolve_wf[OF 3(2)] and step = alloc_step[OF start linked_full _ 3(3)[unfolded alloc_full_def]]
    have "state_is (add_groups (snd al) L) bg st" using state_is_full[OF wf] step(2,3) assms(3) by simp
    then show ?thesis using step(1) assms(3) wf 3(3) by (auto simp: alloc_full_def alloc_group_def)
  qed
  then show "alloc_ok L n al" "length (snd al) \<le> 1" "bt_wf st" "\<not> is_create \<Longrightarrow> state_is (add_groups (snd al) L) bg st" by auto
qed

lemma state_after_alloc:
  assumes sees: "sees C rd ctx rid L n" and "state_after C (Local rd) rid is_create event st bg al = Some (Inr (sa, ag, al'))"
    and "alloc_ok L n al" and "unat n + length (snd al) + 1 < 2 ^ 64" and "bt_wf st"
    and "\<not> is_create \<Longrightarrow> state_is (add_groups (snd al) L) bg st"
  shows "alloc_ok L n al'" "length (snd al') \<le> Suc (length (snd al))" "sa = with_event event st"
    "is_create \<longrightarrow> is_state event \<Longrightarrow> state_is (add_groups (snd al') L) ag sa"
proof -
  obtain n' gs where al: "al = (n', gs)" by fastforce
  let ?sa = "with_event event st"
  have wf: "bt_wf ?sa" using assms(5) by (simp add: with_event_def split: option.split)
  have full: "alloc_full ?sa al = (ag, al') \<Longrightarrow> alloc_ok L n al' \<and> state_is (add_groups (snd al') L) ag ?sa"
    using alloc_step[of L n n' gs "full_group ?sa" ag al'] assms(3,4) state_is_full[OF wf]
    by (auto simp: al alloc_full_def)
  have delta: "alloc_ok L n al' \<and> state_is (add_groups (snd al') L) ag ?sa"
    if "state_key event = Some sk" "\<not> is_create" "L bg = Some p" "sg_chain_len p + 1 < MAX_GROUP_CHAIN"
      "alloc_group (delta_group bg p (event_type event, sk) (event_id event)) al = (ag, al')" for sk p
  proof -
    let ?g = "delta_group bg p (event_type event, sk) (event_id event)"
    have old: "add_groups gs L bg = Some p" and le: "unat n' = unat n + length gs"
      using assms(3) that(3) by (auto simp: alloc_ok_def al)
    have "bg < n'" using chains_okD(2)[OF seesD(1)[OF sees] that(3)] le by (simp add: word_less_nat_alt)
    then have "linked (add_groups gs L) n' ?g" using old that(4) by (simp add: linked_def delta_group_def)
    note step = alloc_step[OF assms(3)[unfolded al] this _ that(5)[unfolded al]]
    have "state_is (add_groups (snd al') L) bg st"
      by (rule state_is_extend[OF assms(6)[OF that(2)]]) (use step(4) assms(4) in \<open>simp add: al\<close>)
    from state_is_delta[OF this, of ag p] show ?thesis
      using step(1-3) assms(4) that(1) by (simp add: al with_event_def)
  qed
  have grp: "rs_group C (Local rd) rid bg = Inr (L bg)" by (rule seesD(2)[OF sees])
  have "alloc_ok L n al' \<and> length (snd al') \<le> Suc (length (snd al)) \<and> sa = ?sa \<and>
      ((is_create \<longrightarrow> is_state event) \<longrightarrow> state_is (add_groups (snd al') L) ag sa)"
  proof (cases "state_key event")
    case None
    then show ?thesis using assms(2,3,6) by (auto simp: state_after_def with_event_def is_state_def)
  next
    case (Some sk)
    have len: "alloc_group g al = (ag, al') \<Longrightarrow> length (snd al') = Suc (length (snd al))" for g
      by (auto simp: al alloc_group_def)
    have sa: "bt_insert (event_type event, sk) (event_id event) st = ?sa" by (simp add: with_event_def Some)
    from assms(2) consider "sa = ?sa" "alloc_full ?sa al = (ag, al')"
      | p where "\<not> is_create" "sa = ?sa" "L bg = Some p" "sg_chain_len p + 1 < MAX_GROUP_CHAIN"
        "alloc_group (delta_group bg p (event_type event, sk) (event_id event)) al = (ag, al')"
      by (auto simp: state_after_def Some Let_def sa grp split: if_splits option.splits)
    then show ?thesis
    proof cases
      case 1
      then show ?thesis using full len by (auto simp: alloc_full_def)
    next
      case (2 p)
      then show ?thesis using delta[OF Some] len by auto
    qed
  qed
  then show "alloc_ok L n al'" "length (snd al') \<le> Suc (length (snd al))" "sa = with_event event st"
    "is_create \<longrightarrow> is_state event \<Longrightarrow> state_is (add_groups (snd al') L) ag sa" by auto
qed

text \<open>The state of the room after an event: one extremity, or the resolution over all of them.\<close>

definition tip_entry :: "room_codecs \<Rightarrow> room_store \<Rightarrow> string \<Rightarrow> string \<Rightarrow> state_ids \<Rightarrow> string \<Rightarrow> state_ids \<Rightarrow> bool" where
  "tip_entry C store rid eid sa x s \<longleftrightarrow>
     (if x = eid then s = sa
      else \<exists>se. rs_event C store x = Inr (Some se) \<and> resolve_group C store rid (se_state_group_after se) = Some (Inr s))"

definition tip_state ::
  "room_version ruma \<Rightarrow> room_codecs \<Rightarrow> room_store \<Rightarrow> room_version \<Rightarrow> string \<Rightarrow> string \<Rightarrow> fetch \<Rightarrow> string btree_set \<Rightarrow> state_ids \<Rightarrow> state_ids \<Rightarrow> bool" where
  "tip_state R C store v rid eid fetch extremities sa st \<longleftrightarrow>
     (if length extremities = 1 then st = sa
      else \<exists>sets. list_all2 (tip_entry C store rid eid sa) extremities sets \<and> resolve R v sets fetch = Some (Inr st))"

lemma extremity_states:
  assumes "fold_d (extremity_state R C store rid eid sa) xs acc = Some (Inr sets)"
  shows "\<exists>more. sets = acc @ more \<and> list_all2 (tip_entry C store rid eid sa) xs more"
  using assms
proof (induction xs arbitrary: acc)
  case (Cons x xs)
  from Cons.prems obtain acc' where step: "extremity_state R C store rid eid sa x acc = Some (Inr acc')"
    and rest: "fold_d (extremity_state R C store rid eid sa) xs acc' = Some (Inr sets)" by auto
  from step obtain s where s: "acc' = acc @ [s]" "tip_entry C store rid eid sa x s"
    by (auto simp: extremity_state_def tip_entry_def split: if_splits option.splits dest!: materialize_resolve)
  from Cons.IH[OF rest] obtain more where "sets = acc' @ more" "list_all2 (tip_entry C store rid eid sa) xs more" by blast
  then show ?case using s by (intro exI[of _ "s # more"]) simp
qed simp

lemma current_group_alloc:
  assumes sees: "sees C rd ctx rid L n"
    and cur: "current_group R C (Local rd) v rid event fetch ext sa ag al = Some (Inr (cur, al'))"
    and "alloc_ok L n al" and "unat n + length (snd al) + 1 < 2 ^ 64"
  shows "alloc_ok L n al'" "\<And>i g. add_groups (snd al) L i = Some g \<Longrightarrow> add_groups (snd al') L i = Some g"
    "state_is (add_groups (snd al) L) ag sa \<Longrightarrow>
      \<exists>st. tip_state R C (Local rd) v rid (event_id event) fetch ext sa st \<and> state_is (add_groups (snd al') L) cur st"
proof -
  obtain n' gs where al: "al = (n', gs)" by fastforce
  from cur consider "length ext = 1" "cur = ag" "al' = al"
    | sets st where "length ext \<noteq> 1" "fold_d (extremity_state R C (Local rd) rid (event_id event) sa) ext [] = Some (Inr sets)"
      "resolve R v sets fetch = Some (Inr st)" "if st = sa then (cur, al') = (ag, al) else (cur, al') = alloc_full st al"
    by (auto simp: current_group_def resolve_stage_def split: if_splits)
  then have "alloc_ok L n al' \<and> (\<forall>i g. add_groups (snd al) L i = Some g \<longrightarrow> add_groups (snd al') L i = Some g) \<and>
    (state_is (add_groups (snd al) L) ag sa \<longrightarrow>
      (\<exists>st. tip_state R C (Local rd) v rid (event_id event) fetch ext sa st \<and> state_is (add_groups (snd al') L) cur st))"
  proof cases
    case 1
    then show ?thesis using assms(3) by (auto simp: tip_state_def)
  next
    case (2 sets st)
    have tip: "tip_state R C (Local rd) v rid (event_id event) fetch ext sa st"
      using extremity_states[OF 2(2)] 2(1,3) by (auto simp: tip_state_def)
    show ?thesis
    proof (cases "st = sa")
      case True
      then show ?thesis using 2(4) assms(3) tip by auto
    next
      case False
      then have a: "alloc_group (full_group st) (n', gs) = (cur, al')" using 2(4) by (simp add: al alloc_full_def)
      note step = alloc_step[OF assms(3)[unfolded al] linked_full _ a]
      have "state_is (add_groups (snd al') L) cur st" using state_is_full[OF resolve_wf[OF 2(3)]] step(2,3) assms(4) by (simp add: al)
      then show ?thesis using step(1,4) assms(4) tip by (auto simp: al)
    qed
  qed
  then show "alloc_ok L n al'" "\<And>i g. add_groups (snd al) L i = Some g \<Longrightarrow> add_groups (snd al') L i = Some g"
    "state_is (add_groups (snd al) L) ag sa \<Longrightarrow>
      \<exists>st. tip_state R C (Local rd) v rid (event_id event) fetch ext sa st \<and> state_is (add_groups (snd al') L) cur st"
    by auto
qed

section \<open>The runs of the pipeline\<close>

text \<open>An event that came as far as the rules, and one that passed them.\<close>

definition ready ::
  "room_version ruma \<Rightarrow> room_codecs \<Rightarrow> public_key_map \<Rightarrow> room_store \<Rightarrow> jobj \<Rightarrow> room_version \<Rightarrow> string \<Rightarrow> bool
     \<Rightarrow> jobj \<Rightarrow> identified_pdu \<Rightarrow> room_meta option \<Rightarrow> (identified_pdu \<times> bool) list \<Rightarrow> u64 btree_set \<Rightarrow> bool" where
  "ready R C keys store raw v rid is_create raw' event meta auth prevs \<longleftrightarrow>
     verified_form R keys raw v = Inr (raw', ip_pdu event) \<and> compute_event_id R raw' v = Inr (event_id event) \<and>
     rs_event C store (event_id event) = Inr None \<and> rs_meta C store rid = Inr meta \<and> (\<not> is_create \<longrightarrow> meta \<noteq> None) \<and>
     fold_r (fetch_auth R C store) (auth_events event) ([], []) = Inr (auth, []) \<and>
     fold_r (prev_group C store) (prev_events event) ([], []) = Inr (prevs, [])"

definition passes ::
  "room_version ruma \<Rightarrow> room_codecs \<Rightarrow> room_store \<Rightarrow> room_version \<Rightarrow> bool \<Rightarrow> room_meta option \<Rightarrow> identified_pdu
     \<Rightarrow> (identified_pdu \<times> bool) list \<Rightarrow> state_ids \<Rightarrow> bool" where
  "passes R C store v is_create meta event auth before \<longleftrightarrow>
     check_auth_events v event (auth_entries auth) = Inr () \<and>
     (\<exists>ast. auth_state R C store v is_create meta auth = Some (Inr ast) \<and> check_state_dependent R v event (state_map_get ast) = Inr ()) \<and>
     (\<exists>view. state_view_of v event before (fetch_event R C store event) = Inr view \<and>
       check_state_dependent R v event (state_map_get view) = Inr ())"

lemma process_proposes:
  assumes "process_inner R C keys store raw v rid is_create relay rej txn = Some (Inr (Propose cmd t))"
  obtains (early) raw' event meta kind where "rs_meta C store rid = Inr meta" "\<not> is_create \<longrightarrow> meta \<noteq> None"
      "propose_rejected C rid event raw' (AuthChain kind) meta = Some (Inr (Propose cmd t))"
  | (rules) raw' event meta auth prevs where "ready R C keys store raw v rid is_create raw' event meta auth prevs"
      "authorise_event R C store v rid is_create relay txn meta raw' event auth prevs = Some (Inr (Propose cmd t))"
proof -
  from assms obtain raw' p eid where 1: "verified_form R keys raw v = Inr (raw', p)" "compute_event_id R raw' v = Inr eid"
    "rs_event C store eid = Inr None"
    by (auto simp: process_inner_def Let_def split: if_splits)
  let ?e = "\<lparr>ip_event_id = eid, ip_pdu = p\<rparr>"
  from assms 1 obtain meta auth missing_auth prevs where
    2: "rs_meta C store rid = Inr meta" "\<not> is_create \<longrightarrow> meta \<noteq> None"
      "fold_r (fetch_auth R C store) (auth_events ?e) ([], []) = Inr (auth, missing_auth)"
      "fold_r (prev_group C store) (prev_events ?e) ([], []) = Inr (prevs, [])"
    and 3: "(if missing_auth \<noteq> []
       then (if rej then propose_rejected C rid ?e raw' (AuthChain ''auth events unfetchable'') meta
             else dfail (MissingAuthEvents missing_auth))
       else authorise_event R C store v rid is_create relay txn meta raw' ?e auth prevs) = Some (Inr (Propose cmd t))"
    by (auto simp: process_inner_def Let_def split: if_splits)
  show thesis
  proof (cases "missing_auth = []")
    case True
    then show thesis using 1 2 3 rules[of raw' ?e meta auth prevs] by (simp add: ready_def event_id_def)
  next
    case False
    then show thesis using 2 3 early by (auto split: if_splits)
  qed
qed

lemma authorise_proposes:
  assumes "authorise_event R C store v rid is_create relay txn meta raw event auth prevs = Some (Inr (Propose cmd t))"
  obtains (early) kind where "propose_rejected C rid event raw (AuthChain kind) meta = Some (Inr (Propose cmd t))"
  | (late) before bg n' gs kind where
      "state_before R C store v rid is_create prevs (fetch_event R C store event) (next_group_of meta) = Some (Inr (before, bg, n', gs))"
      "propose_rejected_with_state C rid event raw (StateRejected kind) gs bg n' = Some (Inr (Propose cmd t))"
  | (accept) before bg al where
      "state_before R C store v rid is_create prevs (fetch_event R C store event) (next_group_of meta) = Some (Inr (before, bg, al))"
      "passes R C store v is_create meta event auth before"
      "accept_event R C store v rid is_create relay txn meta raw event before bg al = Some (Inr (Propose cmd t))"
proof (cases "check_auth_events v event (auth_entries auth)")
  case (Inl r)
  then show thesis using assms early by (simp add: authorise_event_def)
next
  case (Inr u)
  with assms obtain ast where a: "auth_state R C store v is_create meta auth = Some (Inr ast)"
    by (auto simp: authorise_event_def Let_def)
  show thesis
  proof (cases "check_state_dependent R v event (state_map_get ast)")
    case (Inl r)
    then show thesis using assms Inr a early by (simp add: authorise_event_def)
  next
    case ok: (Inr u')
    with assms Inr a obtain before bg n' gs view where
      b: "state_before R C store v rid is_create prevs (fetch_event R C store event) (next_group_of meta) = Some (Inr (before, bg, n', gs))"
        "state_view_of v event before (fetch_event R C store event) = Inr view"
      and c: "(case check_state_dependent R v event (state_map_get view) of
        Inl rej \<Rightarrow> propose_rejected_with_state C rid event raw (StateRejected (rule rej)) gs bg n'
      | Inr _ \<Rightarrow> accept_event R C store v rid is_create relay txn meta raw event before bg (n', gs)) = Some (Inr (Propose cmd t))"
      by (auto simp: authorise_event_def Let_def)
    show thesis
    proof (cases "check_state_dependent R v event (state_map_get view)")
      case (Inl r)
      then show thesis using b c late by simp
    next
      case fine: (Inr u'')
      then show thesis using accept[OF b(1)] a b c Inr ok by (auto simp: passes_def)
    qed
  qed
qed

lemma accept_alloc:
  assumes sees: "sees C rd ctx rid L n"
    and before: "state_before R C (Local rd) v rid is_create prevs (fetch_event R C (Local rd) event) n = Some (Inr (st, bg, al))"
    and accept: "accept_event R C (Local rd) v rid is_create relay txn meta raw event st bg al = Some (Inr (Propose cmd t))"
    and room: "unat n + 3 < 2 ^ 64"
  shows "alloc_ok L n (ae_next_group cmd, ae_new_groups cmd)"
    "ae_room_id cmd = rid" "ae_event_id cmd = event_id event" "ae_rejected cmd = None"
    "ae_new_extremities cmd = extremities_after meta event" "ae_create_version cmd = (if is_create then Some (version_str v) else None)"
    "is_create \<longrightarrow> is_state event \<Longrightarrow>
       state_is (add_groups (ae_new_groups cmd) L) (ae_state_group_after cmd) (with_event event st) \<and>
       (\<exists>cur. tip_state R C (Local rd) v rid (event_id event) (fetch_event R C (Local rd) event)
           (extremities_after meta event) (with_event event st) cur \<and>
         state_is (add_groups (ae_new_groups cmd) L) (ae_new_current_group cmd) cur)"
proof -
  let ?f = "fetch_event R C (Local rd) event" and ?x = "extremities_after meta event"
  from accept obtain sa ag al1 cur n' gs where
    after: "state_after C (Local rd) rid is_create event st bg al = Some (Inr (sa, ag, al1))"
    and cur: "current_group R C (Local rd) v rid event ?f ?x sa ag al1 = Some (Inr (cur, n', gs))"
    and cmd: "ae_room_id cmd = rid" "ae_event_id cmd = event_id event" "ae_rejected cmd = None" "ae_new_groups cmd = gs"
      "ae_next_group cmd = n'" "ae_new_extremities cmd = ?x" "ae_state_group_after cmd = ag" "ae_new_current_group cmd = cur"
      "ae_create_version cmd = (if is_create then Some (version_str v) else None)"
    by (auto simp: accept_event_def Let_def)
  note b = state_before_alloc[OF sees before]
  have b': "alloc_ok L n al" "length (snd al) \<le> 1" "bt_wf st" "\<not> is_create \<Longrightarrow> state_is (add_groups (snd al) L) bg st"
    using b room by auto
  have a: "alloc_ok L n al1" "length (snd al1) \<le> 2" "sa = with_event event st"
    "is_create \<longrightarrow> is_state event \<Longrightarrow> state_is (add_groups (snd al1) L) ag sa"
    using state_after_alloc[OF sees after b'(1) _ b'(3,4)] b'(2) room by auto
  note c = current_group_alloc[OF sees cur a(1)]
  have c': "alloc_ok L n (n', gs)" "\<And>i g. add_groups (snd al1) L i = Some g \<Longrightarrow> add_groups gs L i = Some g"
    "state_is (add_groups (snd al1) L) ag sa \<Longrightarrow>
      \<exists>st'. tip_state R C (Local rd) v rid (event_id event) ?f ?x sa st' \<and> state_is (add_groups gs L) cur st'"
    using c a(2) room by auto
  show "alloc_ok L n (ae_next_group cmd, ae_new_groups cmd)" using c'(1) by (simp add: cmd)
  show "state_is (add_groups (ae_new_groups cmd) L) (ae_state_group_after cmd) (with_event event st) \<and>
       (\<exists>cur. tip_state R C (Local rd) v rid (event_id event) ?f ?x (with_event event st) cur \<and>
         state_is (add_groups (ae_new_groups cmd) L) (ae_new_current_group cmd) cur)"
    if "is_create \<longrightarrow> is_state event"
    using state_is_extend[OF a(4)[OF that] c'(2)] c'(3)[OF a(4)[OF that]] by (simp add: cmd a(3))
qed (use accept in \<open>auto simp: accept_event_def Let_def\<close>)

text \<open>Whatever the pipeline proposes, the groups it adds fit those of the room.\<close>

lemma process_alloc:
  assumes sees: "sees C rd ctx rid L n"
    and run: "process_inner R C keys (Local rd) raw v rid is_create relay rej txn = Some (Inr (Propose cmd t))"
    and room: "unat n + 3 < 2 ^ 64"
  shows "alloc_ok L n (ae_next_group cmd, ae_new_groups cmd)" "ae_room_id cmd = rid"
    "ae_rejected cmd \<noteq> None \<Longrightarrow> row (rc_meta C) ctx T_ROOM rid = None \<Longrightarrow> ae_new_groups cmd = []"
proof -
  have meta: "n = next_group_of m" "m = row (rc_meta C) ctx T_ROOM rid" if "rs_meta C (Local rd) rid = Inr m" for m
    using read_meta[OF _ that, of ctx] sees by (auto simp: sees_def room_next_def)
  have start: "alloc_ok L n (n, [])" by (rule alloc_ok_start[OF seesD(1)[OF sees]])
  have "alloc_ok L n (ae_next_group cmd, ae_new_groups cmd) \<and> ae_room_id cmd = rid \<and>
    (ae_rejected cmd \<noteq> None \<longrightarrow> row (rc_meta C) ctx T_ROOM rid = None \<longrightarrow> ae_new_groups cmd = [])"
    using run
  proof (cases rule: process_proposes)
    case (early raw' event m kind)
    then show ?thesis using meta start by (auto simp: propose_rejected_def propose_rejected_with_state_def)
  next
    case (rules raw' event m auth prevs)
    then have m: "rs_meta C (Local rd) rid = Inr m" "\<not> is_create \<longrightarrow> m \<noteq> None" by (auto simp: ready_def)
    from rules(2) show ?thesis
    proof (cases rule: authorise_proposes)
      case (early kind)
      then show ?thesis using meta(1)[OF m(1)] start by (auto simp: propose_rejected_def propose_rejected_with_state_def)
    next
      case (late before bg n' gs kind)
      note b = late(1)[folded meta(1)[OF m(1)]]
      have "alloc_ok L n (n', gs)" "is_create \<longrightarrow> gs = []"
        using state_before_alloc(1)[OF sees b] state_before_spec(2)[OF b] room by auto
      then show ?thesis using late(2) m(2) meta(2)[OF m(1)] by (auto simp: propose_rejected_with_state_def)
    next
      case (accept before bg al)
      then show ?thesis using accept_alloc(1,2,4)[OF sees accept(1)[folded meta(1)[OF m(1)]] accept(3) room] by auto
    qed
  qed
  then show "alloc_ok L n (ae_next_group cmd, ae_new_groups cmd)" "ae_room_id cmd = rid"
    "ae_rejected cmd \<noteq> None \<Longrightarrow> row (rc_meta C) ctx T_ROOM rid = None \<Longrightarrow> ae_new_groups cmd = []" by auto
qed

end
