(* ===== verification/Room_State.thy ===== *)
theory Room_State
  imports Room_Alloc Room_Timeline
begin

text \<open>
  The commands of a room shard against its state groups: what each adds to them, the invariant of every
  history of commands, and the state of a room after an event that the pipeline accepted.
\<close>

section \<open>Effects on the groups\<close>

definition groups_read :: "room_codecs \<Rightarrow> apply_ctx \<Rightarrow> string \<Rightarrow> bool" where
  "groups_read C ctx rid \<longleftrightarrow> (\<forall>gid. ctx_get ctx T_GROUP (room_u64_key rid gid) \<noteq> None \<longrightarrow> room_groups C ctx rid gid \<noteq> None)"

lemma room_sound_alt: "room_sound C ctx rid \<longleftrightarrow> chains_ok (room_groups C ctx rid) (room_next C ctx rid) \<and> groups_read C ctx rid"
  by (simp add: room_sound_def groups_read_def)

definition adds :: "room_codecs \<Rightarrow> string \<Rightarrow> (u64 \<times> state_group) list \<Rightarrow> apply_ctx \<Rightarrow> apply_ctx \<Rightarrow> bool" where
  "adds C r gs c c' \<longleftrightarrow>
     (\<forall>x. room_groups C c' x = (if x = r then add_groups gs (room_groups C c x) else room_groups C c x)) \<and>
     (\<forall>x. groups_read C c x \<longrightarrow> groups_read C c' x) \<and> (\<forall>x. x \<noteq> r \<longrightarrow> row (rc_meta C) c' T_ROOM x = row (rc_meta C) c T_ROOM x)"

lemma adds_trans: "adds C r gs a b \<Longrightarrow> adds C r hs b c \<Longrightarrow> adds C r (gs @ hs) a c"
  by (auto simp: adds_def add_groups_def)

text \<open>Programs that leave groups and metadata alone.\<close>

definition off_groups :: "'a ap \<Rightarrow> bool" where
  "off_groups m \<longleftrightarrow> confined (- {T_GROUP, T_ROOM}) m"

lemma adds_off:
  assumes "off_groups m" and "m c = Inr (a, c')"
  shows "adds C r [] c c'" "row (rc_meta C) c' T_ROOM x = row (rc_meta C) c T_ROOM x"
proof -
  have g: "ctx_get c' t k = ctx_get c t k" if "t \<in> {T_GROUP, T_ROOM}" for t k
    using steps_in_frame(3)[OF confinedD[OF assms(1)[unfolded off_groups_def] assms(2)], of t k] that by simp
  have "ctx_get c' T_GROUP k = ctx_get c T_GROUP k" "ctx_get c' T_ROOM k = ctx_get c T_ROOM k" for k
    using g[of T_GROUP] g[of T_ROOM] by simp_all
  then have "room_groups C c' = room_groups C c" "groups_read C c' = groups_read C c" "row (rc_meta C) c' T_ROOM = row (rc_meta C) c T_ROOM"
    by (simp_all add: fun_eq_iff room_groups_def groups_read_def row_def del: room_tables)
  then show "adds C r [] c c'" "row (rc_meta C) c' T_ROOM x = row (rc_meta C) c T_ROOM x"
    by (simp_all add: adds_def)
qed

lemma adds_meta:
  assumes "put_meta C r m c = Inr (u, c')"
  shows "adds C r [] c c'" "lossless (rc_meta C) \<Longrightarrow> row (rc_meta C) c' T_ROOM r = Some m"
proof -
  have c': "c' = ctx_put T_ROOM r (enc (rc_meta C) m) c" using assms by (simp add: put_meta_def)
  have "room_groups C c' = room_groups C c" "groups_read C c' = groups_read C c" unfolding c'
    by (simp_all add: fun_eq_iff room_groups_def groups_read_def row_def)
  then show "adds C r [] c c'" unfolding c' by (simp add: adds_def row_def)
  show "row (rc_meta C) c' T_ROOM r = Some m" if "lossless (rc_meta C)" using that by (simp add: c')
qed

context room_wire
begin

lemma adds_group:
  assumes "put_group C r (i, g) c = Inr (u, c')"
  shows "adds C r [(i, g)] c c'" "row (rc_meta C) c' T_ROOM x = row (rc_meta C) c T_ROOM x"
proof -
  have c': "c' = ctx_put T_GROUP (room_u64_key r i) (enc (rc_group C) g) c" using assms by (simp add: put_group_def)
  have groups: "room_groups C c' y j = (if y = r \<and> j = i then Some g else room_groups C c y j)" for y j
    unfolding c' room_groups_def by (simp del: room_tables)
  have "ctx_get c' T_GROUP (room_u64_key y j) = (if y = r \<and> j = i then Some (enc (rc_group C) g) else ctx_get c T_GROUP (room_u64_key y j))" for y j
    unfolding c' by (simp del: room_tables)
  then have "groups_read C c y \<longrightarrow> groups_read C c' y" for y by (auto simp: groups_read_def groups simp del: room_tables)
  moreover have "row (rc_meta C) c' T_ROOM y = row (rc_meta C) c T_ROOM y" for y unfolding c' by simp
  ultimately show "adds C r [(i, g)] c c'" "row (rc_meta C) c' T_ROOM x = row (rc_meta C) c T_ROOM x"
    by (auto simp: adds_def fun_eq_iff groups add_groups_def simp del: room_tables)
qed

lemma adds_groups:
  assumes "afor (put_group C r) gs c = Inr ((), c')"
  shows "adds C r gs c c'" "row (rc_meta C) c' T_ROOM x = row (rc_meta C) c T_ROOM x"
proof -
  have "adds C r gs c c' \<and> (\<forall>x. row (rc_meta C) c' T_ROOM x = row (rc_meta C) c T_ROOM x)"
    using assms
  proof (induction gs arbitrary: c)
    case Nil
    then show ?case by (simp add: adds_def)
  next
    case (Cons p gs)
    obtain i g where p: "p = (i, g)" by fastforce
    from Cons.prems obtain c1 where c1: "put_group C r (i, g) c = Inr ((), c1)" "afor (put_group C r) gs c1 = Inr ((), c')"
      by (auto simp: p)
    from adds_trans[OF adds_group(1)[OF c1(1)]] Cons.IH[OF c1(2)] adds_group(2)[OF c1(1)] show ?case by (auto simp: p)
  qed
  then show "adds C r gs c c'" "row (rc_meta C) c' T_ROOM x = row (rc_meta C) c T_ROOM x" by auto
qed

text \<open>Appending an event: its groups, and the metadata of an accepted one.\<close>

lemma append_adds:
  assumes run: "apply_append C cmd ctx = Inr (resp, ctx')"
  obtains (known) "resp = Duplicate (ae_event_id cmd)" "ctx' = ctx"
  | (rejected) kind where "ae_rejected cmd = Some kind" "adds C (ae_room_id cmd) (ae_new_groups cmd) ctx ctx'"
      "row (rc_meta C) ctx' T_ROOM (ae_room_id cmd) = map_option (\<lambda>m. if rm_next_group m < ae_next_group cmd
         then m\<lparr>rm_next_group := ae_next_group cmd\<rparr> else m) (row (rc_meta C) ctx T_ROOM (ae_room_id cmd))"
  | (accepted) m where "ae_rejected cmd = None" "adds C (ae_room_id cmd) (ae_new_groups cmd) ctx ctx'"
      "row (rc_meta C) ctx' T_ROOM (ae_room_id cmd) = Some m" "rm_next_group m = ae_next_group cmd"
      "rm_extremities m = ae_new_extremities cmd" "rm_current_group m = ae_new_current_group cmd"
proof -
  let ?r = "ae_room_id cmd" and ?e = "ae_event_id cmd"
  let ?red = "case ae_redacts cmd of None \<Rightarrow> aret () | Some directive \<Rightarrow> put_redact directive ?e"
  from run consider "resp = Duplicate ?e" "ctx' = ctx"
    | kind where "ae_rejected cmd = Some kind" "append_rejected C cmd kind ctx = Inr (resp, ctx')"
    | "ae_rejected cmd = None" "append_accepted C cmd ctx = Inr (resp, ctx')"
    unfolding apply_append_def by (auto split: if_splits option.splits simp del: room_tables)
  then show thesis
  proof cases
    case 1
    then show thesis by (rule known)
  next
    case (2 kind)
    let ?s = "\<lparr>se_raw = ae_raw cmd, se_seq = 0, se_state_group_after = ae_state_group_after cmd, se_depth = ae_depth cmd,
        se_rejected = Some kind, se_history_idx = None, se_imported = False, se_relay = False\<rparr>"
    from 2(2) obtain c1 c2 m where c1: "put_event C ?e ?s ctx = Inr ((), c1)" and c2: "afor (put_group C ?r) (ae_new_groups cmd) c1 = Inr ((), c2)"
      and m: "row (rc_meta C) c2 T_ROOM ?r = m" and c3: "(case m of
             Some meta \<Rightarrow> if rm_next_group meta < ae_next_group cmd
               then put_meta C ?r (meta\<lparr>rm_next_group := ae_next_group cmd\<rparr>) else aret ()
           | None \<Rightarrow> aret ()) c2 = Inr ((), ctx')"
      unfolding append_rejected_def by (auto dest: decode_opt_row simp del: room_tables)
    have off: "off_groups (put_event C ?e ?s)" unfolding off_groups_def by (intro confined_intros) simp
    note a = adds_trans[OF adds_off(1)[OF off c1] adds_groups(1)[OF c2], simplified]
    have m': "m = row (rc_meta C) ctx T_ROOM ?r" using m adds_off(2)[OF off c1, of C ?r] adds_groups(2)[OF c2, of ?r] by simp
    have b: "adds C ?r [] c2 ctx'" "row (rc_meta C) ctx' T_ROOM ?r = map_option (\<lambda>m. if rm_next_group m < ae_next_group cmd
         then m\<lparr>rm_next_group := ae_next_group cmd\<rparr> else m) m"
      using c3 adds_meta[of C ?r _ c2 "()" ctx'] m by (auto simp: adds_def split: option.splits if_splits simp del: room_tables)
    show thesis using rejected[OF 2(1) adds_trans[OF a b(1), simplified]] b(2) m' by simp
  next
    case 3
    let ?s = "\<lambda>seq. \<lparr>se_raw = ae_raw cmd, se_seq = seq, se_state_group_after = ae_state_group_after cmd, se_depth = ae_depth cmd,
        se_rejected = None, se_history_idx = None, se_imported = False, se_relay = ae_relay cmd\<rparr>"
    let ?head = "abind (emit_event C ?r ?e) (\<lambda>seq. aseq (put_event C ?e (?s seq)) (aseq (put_timeline C ?r ?e seq) ?red))"
    from 3(2) obtain c1 c2 c3 m where c1: "?head ctx = Inr ((), c1)" and c2: "afor (put_group C ?r) (ae_new_groups cmd) c1 = Inr ((), c2)"
      and m: "append_meta C cmd c2 = Inr (m, c3)" and c3: "put_meta C ?r m c3 = Inr ((), ctx')"
      unfolding append_accepted_def by (auto simp del: room_tables)
    have off: "off_groups ?head" unfolding off_groups_def by (intro confined_intros) simp_all
    have m': "c3 = c2" "rm_next_group m = ae_next_group cmd" "rm_extremities m = ae_new_extremities cmd"
      "rm_current_group m = ae_new_current_group cmd"
      using m unfolding append_meta_def by (auto split: option.splits simp del: room_tables)
    note a = adds_trans[OF adds_off(1)[OF off c1] adds_groups(1)[OF c2], simplified]
    note b = adds_meta[OF c3[unfolded m'(1)]]
    show thesis using accepted[OF 3(1) adds_trans[OF a b(1), simplified] b(2)[OF wire_meta] m'(2-4)] .
  qed
qed

lemma import_adds:
  assumes run: "apply_import C cmd ctx = Inr (resp, ctx')"
  obtains "ctx' = ctx"
  | m where "adds C (ir_room_id cmd) [(room_next C ctx (ir_room_id cmd), full_group (ir_state cmd))] ctx ctx'"
      "row (rc_meta C) ctx' T_ROOM (ir_room_id cmd) = Some m" "rm_next_group m = room_next C ctx (ir_room_id cmd) + 1"
proof -
  let ?r = "ir_room_id cmd"
  let ?m = "row (rc_meta C) ctx T_ROOM ?r"
  have known: "import_known C cmd m c = Inr (k, c') \<Longrightarrow> c' = c" for m c k c'
    unfolding import_known_def get_event_def by (auto split: if_splits)
  have gid: "import_group_id ?m = room_next C ctx ?r" by (simp add: import_group_id_def room_next_def next_group_of_def split: option.split)
  from run consider "ctx' = ctx" | c1 c2 where "afor (put_support C) (ir_events cmd) ctx = Inr ((), c1)"
    "put_group C ?r (import_group_id ?m, full_group (ir_state cmd)) c1 = Inr ((), c2)" "import_join C cmd ?m c2 = Inr (resp, ctx')"
    unfolding apply_import_def full_group_def by (auto dest!: known dest: decode_opt_row split: if_splits simp del: room_tables)
  then show thesis
  proof cases
    case (2 c1 c2)
    let ?s = "\<lambda>seq. \<lparr>se_raw = ir_join_raw cmd, se_seq = seq, se_state_group_after = import_group_id ?m,
        se_depth = ir_join_depth cmd, se_rejected = None, se_history_idx = None, se_imported = True, se_relay = False\<rparr>"
    let ?head = "abind (emit_event C ?r (ir_join_event_id cmd)) (\<lambda>seq. aseq (put_event C (ir_join_event_id cmd) (?s seq))
      (aseq (put_timeline C ?r (ir_join_event_id cmd) seq)
        (abind (afold (add_missing C) (ir_history_frontier cmd)
              (case ?m of Some m \<Rightarrow> bs_of (rm_history_frontier m) | None \<Rightarrow> [])) aret)))"
    from 2(3) obtain fr c3 m where c3: "?head c2 = Inr (fr, c3)" "put_meta C ?r m c3 = Inr ((), ctx')" "rm_next_group m = import_group_id ?m + 1"
      unfolding import_join_def import_finish_def by (auto simp del: room_tables)
    have off: "off_groups (afor (put_support C) (ir_events cmd))" "off_groups ?head"
      unfolding off_groups_def by (intro confined_intros; simp)+
    note a = adds_trans[OF adds_trans[OF adds_off(1)[OF off(1) 2(1)] adds_group(1)[OF 2(2)]]
      adds_trans[OF adds_off(1)[OF off(2) c3(1)] adds_meta(1)[OF c3(2)]], unfolded gid]
    show thesis by (rule that(2)[of m]) (use a adds_meta(2)[OF c3(2) wire_meta] c3(3) in \<open>simp_all add: gid del: room_tables\<close>)
  qed (rule that(1))
qed

lemma segment_adds:
  assumes run: "apply_import_segment C cmd ctx = Inr (resp, ctx')"
  obtains m where "adds C (is_room_id cmd) [(room_next C ctx (is_room_id cmd), full_group (Room_Types.is_state cmd))] ctx ctx'"
    "row (rc_meta C) ctx' T_ROOM (is_room_id cmd) = Some m" "rm_next_group m = room_next C ctx (is_room_id cmd) + 1"
proof -
  let ?r = "is_room_id cmd"
  from run obtain m acc acc' c1 c2 c3 where m: "row (rc_meta C) ctx T_ROOM ?r = Some m"
    and c1: "afor (put_support C) (is_events cmd) ctx = Inr ((), c1)"
    and c2: "put_group C ?r (rm_next_group m, full_group (Room_Types.is_state cmd)) c1 = Inr ((), c2)"
    and c3: "afold (segment_event C ?r (rm_next_group m)) (is_timeline cmd) acc c2 = Inr (acc', c3)"
    and fin: "segment_finish C cmd m acc' c3 = Inr (resp, ctx')"
    unfolding apply_import_segment_def full_group_def by (auto dest!: decode_opt_row split: option.splits simp del: room_tables)
  from fin obtain fr c4 where c4: "afold (push_missing C) (is_frontier_add cmd) (rm_history_frontier m) c3 = Inr (fr, c4)"
    "put_meta C ?r (segment_meta m acc' fr) c4 = Inr ((), ctx')"
    unfolding segment_finish_def by (auto simp del: room_tables)
  have off: "off_groups (afor (put_support C) (is_events cmd))"
    "off_groups (afold (segment_event C ?r (rm_next_group m)) (is_timeline cmd) acc)"
    "off_groups (afold (push_missing C) (is_frontier_add cmd) (rm_history_frontier m))"
    unfolding off_groups_def segment_event_def by (intro confined_intros; simp)+
  note a = adds_trans[OF adds_trans[OF adds_trans[OF adds_off(1)[OF off(1) c1] adds_group(1)[OF c2]] adds_off(1)[OF off(2) c3]]
    adds_trans[OF adds_off(1)[OF off(3) c4(1)] adds_meta(1)[OF c4(2)]], simplified]
  have n: "room_next C ctx ?r = rm_next_group m" by (simp add: room_next_def m next_group_of_def del: room_tables)
  show thesis using that a adds_meta(2)[OF c4(2) wire_meta] by (simp add: n segment_meta_def)
qed

lemma history_adds:
  assumes run: "apply_import_history C cmd ctx = Inr (resp, ctx')"
  shows "adds C (ih_room_id cmd) [] ctx ctx'" "room_next C ctx' (ih_room_id cmd) = room_next C ctx (ih_room_id cmd)"
proof -
  let ?r = "ih_room_id cmd"
  from run obtain m acc acc' c1 where m: "row (rc_meta C) ctx T_ROOM ?r = Some m"
    and c1: "afold (history_event C ?r) (ih_events cmd) acc ctx = Inr (acc', c1)" and fin: "history_finish C cmd m acc' c1 = Inr (resp, ctx')"
    unfolding apply_import_history_def by (auto dest!: decode_opt_row split: option.splits simp del: room_tables)
  from fin obtain fr c2 where c2: "afold (still_missing C (ha_batch_ids acc')) (bs_extend (ha_new_prevs acc') (bs_of (rm_history_frontier m))) [] c1 = Inr (fr, c2)"
    "put_meta C ?r (m\<lparr>rm_history_frontier := fr, rm_next_history_idx := ha_idx acc'\<rparr>) c2 = Inr ((), ctx')"
    unfolding history_finish_def by (auto simp del: room_tables)
  have off: "off_groups (afold (history_event C ?r) (ih_events cmd) acc)" "off_groups (afold (still_missing C b) l s)" for b l s
    unfolding off_groups_def history_event_def Let_def by (intro confined_intros; simp)+
  show "adds C ?r [] ctx ctx'"
    using adds_trans[OF adds_off(1)[OF off(1) c1] adds_trans[OF adds_off(1)[OF off(2) c2(1)] adds_meta(1)[OF c2(2)]]] by simp
  show "room_next C ctx' ?r = room_next C ctx ?r"
    using adds_meta(2)[OF c2(2) wire_meta] by (simp add: room_next_def next_group_of_def m del: room_tables)
qed

end

section \<open>The invariant\<close>

lemma adds_sound:
  assumes "adds C r gs ctx ctx'" and "\<And>x. room_sound C ctx x"
    and "chains_ok (add_groups gs (room_groups C ctx r)) (room_next C ctx' r)"
  shows "room_sound C ctx' x"
proof (cases "x = r")
  case True
  then show ?thesis using assms by (simp add: room_sound_alt adds_def)
next
  case False
  then have "room_next C ctx' x = room_next C ctx x" using assms(1) by (simp add: adds_def room_next_def del: room_tables)
  then show ?thesis using assms(1) assms(2)[of x] False by (simp add: room_sound_alt adds_def)
qed

text \<open>
  Commands that do not overtake each other. An event is appended by the pipeline, run on a state in which the
  room has the groups and the metadata that the command meets. The pipeline holds the lock of the room from
  its first read to the answer, which excludes other pipelines; the imports take no lock, so histories in
  which one falls in between are left out here. No counter is near the end of its range.
\<close>

definition unchanged :: "room_codecs \<Rightarrow> string \<Rightarrow> apply_ctx \<Rightarrow> apply_ctx \<Rightarrow> bool" where
  "unchanged C rid c c' \<longleftrightarrow> ctx_get c' T_ROOM rid = ctx_get c T_ROOM rid \<and>
     (\<forall>gid. ctx_get c' T_GROUP (room_u64_key rid gid) = ctx_get c T_GROUP (room_u64_key rid gid))"

definition proposed :: "room_version ruma \<Rightarrow> room_codecs \<Rightarrow> apply_ctx \<Rightarrow> append_event \<Rightarrow> bool" where
  "proposed R C ctx cmd \<longleftrightarrow> (\<exists>c rd keys raw v is_create relay rej txn t. serves rd c \<and> unchanged C (ae_room_id cmd) c ctx \<and>
     process_inner R C keys (Local rd) raw v (ae_room_id cmd) is_create relay rej txn = Some (Inr (Propose cmd t)))"

definition has_room :: "room_codecs \<Rightarrow> apply_ctx \<Rightarrow> string \<Rightarrow> bool" where
  "has_room C ctx rid \<longleftrightarrow> unat (room_next C ctx rid) + 3 < 2 ^ 64"

fun room_cmd_ok :: "room_version ruma \<Rightarrow> room_codecs \<Rightarrow> apply_ctx \<Rightarrow> room_command \<Rightarrow> bool" where
  "room_cmd_ok R C ctx (Append e) = (proposed R C ctx e \<and> has_room C ctx (ae_room_id e))"
| "room_cmd_ok R C ctx (AppendStamped e t) = (proposed R C ctx e \<and> has_room C ctx (ae_room_id e))"
| "room_cmd_ok R C ctx (Import i) = has_room C ctx (ir_room_id i)"
| "room_cmd_ok R C ctx (ImportSegment s) = has_room C ctx (is_room_id s)"
| "room_cmd_ok R C ctx _ = True"

lemma unchanged_same:
  assumes "unchanged C rid c ctx"
  shows "room_groups C ctx rid = room_groups C c rid" "room_next C ctx rid = room_next C c rid" "room_sound C ctx rid = room_sound C c rid"
    "row (rc_meta C) ctx T_ROOM rid = row (rc_meta C) c T_ROOM rid"
proof -
  show g: "room_groups C ctx rid = room_groups C c rid" "row (rc_meta C) ctx T_ROOM rid = row (rc_meta C) c T_ROOM rid"
    using assms by (simp_all add: unchanged_def room_groups_def fun_eq_iff row_def del: room_tables)
  then show n: "room_next C ctx rid = room_next C c rid" by (simp add: room_next_def del: room_tables)
  show "room_sound C ctx rid = room_sound C c rid" using assms g n by (simp add: room_sound_def unchanged_def del: room_tables)
qed

lemma proposed_alloc:
  assumes "proposed R C ctx cmd" and "has_room C ctx (ae_room_id cmd)" and "room_sound C ctx (ae_room_id cmd)"
  shows "alloc_ok (room_groups C ctx (ae_room_id cmd)) (room_next C ctx (ae_room_id cmd)) (ae_next_group cmd, ae_new_groups cmd)"
    "ae_rejected cmd \<noteq> None \<Longrightarrow> row (rc_meta C) ctx T_ROOM (ae_room_id cmd) = None \<Longrightarrow> ae_new_groups cmd = []"
proof -
  let ?r = "ae_room_id cmd"
  from assms(1) obtain c rd keys raw v ic relay rej txn t where s: "serves rd c" and u: "unchanged C ?r c ctx"
    and run: "process_inner R C keys (Local rd) raw v ?r ic relay rej txn = Some (Inr (Propose cmd t))" by (auto simp: proposed_def)
  have sees: "sees C rd c ?r (room_groups C ctx ?r) (room_next C ctx ?r)" using s assms(3) by (simp add: sees_def unchanged_same[OF u])
  note p = process_alloc[OF sees run assms(2)[unfolded has_room_def]]
  show "alloc_ok (room_groups C ctx ?r) (room_next C ctx ?r) (ae_next_group cmd, ae_new_groups cmd)" by (rule p(1))
  show "ae_new_groups cmd = []" if "ae_rejected cmd \<noteq> None" "row (rc_meta C) ctx T_ROOM ?r = None"
    using p(3) that by (simp add: unchanged_same(4)[OF u] del: room_tables)
qed

context room_wire
begin

lemma append_sound:
  assumes run: "apply_append C cmd ctx = Inr (resp, ctx')" and ok: "proposed R C ctx cmd" "has_room C ctx (ae_room_id cmd)"
    and sound: "\<And>x. room_sound C ctx x"
  shows "room_sound C ctx' x"
  using run
proof (cases rule: append_adds)
  case known
  then show ?thesis using sound by simp
next
  case (rejected kind)
  let ?r = "ae_room_id cmd" and ?L = "room_groups C ctx (ae_room_id cmd)" and ?n = "room_next C ctx (ae_room_id cmd)"
  note p = proposed_alloc[OF ok sound]
  have a: "chains_ok (add_groups (ae_new_groups cmd) ?L) (ae_next_group cmd)" "unat (ae_next_group cmd) = unat ?n + length (ae_new_groups cmd)"
    using p(1) by (auto simp: alloc_ok_def)
  have "room_next C ctx' ?r = ae_next_group cmd"
  proof (cases "row (rc_meta C) ctx T_ROOM ?r")
    case None
    then have "ae_new_groups cmd = []" using p(2) rejected(1) by simp
    then have "ae_next_group cmd = ?n" using a(2) by (simp add: unsigned_word_eqI)
    then show ?thesis using rejected(3) None by (simp add: room_next_def del: room_tables)
  next
    case (Some m)
    then have "rm_next_group m \<le> ae_next_group cmd" using a(2) by (simp add: word_le_nat_alt room_next_def next_group_of_def del: room_tables)
    then show ?thesis using rejected(3) Some by (auto simp: room_next_def next_group_of_def simp del: room_tables)
  qed
  then show ?thesis using adds_sound[OF rejected(2) sound] a(1) by simp
next
  case (accepted m)
  have "room_next C ctx' (ae_room_id cmd) = ae_next_group cmd" using accepted(3,4) by (simp add: room_next_def next_group_of_def del: room_tables)
  then show ?thesis using adds_sound[OF accepted(2) sound] proposed_alloc(1)[OF ok sound] by (simp add: alloc_ok_def)
qed

lemma snapshot_sound:
  assumes "adds C r [(room_next C ctx r, full_group st)] ctx ctx'"
    and "row (rc_meta C) ctx' T_ROOM r = Some m" and "rm_next_group m = room_next C ctx r + 1"
    and "has_room C ctx r" and "\<And>x. room_sound C ctx x"
  shows "room_sound C ctx' x"
proof -
  have "chains_ok (room_groups C ctx r) (room_next C ctx r)" using assms(5) by (simp add: room_sound_def)
  moreover have "unat (room_next C ctx r + 1) = Suc (unat (room_next C ctx r))"
    using assms(4) by (subst unat_add_lem[THEN iffD1]) (simp_all add: has_room_def)
  then have "room_next C ctx r < room_next C ctx r + 1" by (simp add: word_less_nat_alt)
  ultimately have "chains_ok ((room_groups C ctx r)(room_next C ctx r \<mapsto> full_group st)) (room_next C ctx r + 1)"
    by (rule chains_ok_add) (rule linked_full)
  moreover have "room_next C ctx' r = room_next C ctx r + 1" by (simp only: room_next_def[of C ctx'] assms(2) next_group_of_def option.case assms(3))
  ultimately show ?thesis using adds_sound[OF assms(1,5)] by (simp add: add_groups_def)
qed

lemma command_sound:
  assumes "room_command_run C cmd ctx = Inr (resp, ctx')" and "room_cmd_ok R C ctx cmd" and sound: "\<And>x. room_sound C ctx x"
  shows "room_sound C ctx' x"
proof (cases cmd)
  case (Append e)
  then show ?thesis using assms append_sound by (auto simp: room_command_run_def)
next
  case (ReceiptCommand r)
  have "off_groups (apply_receipt C r)" unfolding off_groups_def apply_receipt_def Let_def by (intro confined_intros) simp_all
  then have a: "adds C y [] ctx ctx'" "row (rc_meta C) ctx' T_ROOM y = row (rc_meta C) ctx T_ROOM y" for y
    using adds_off[of "apply_receipt C r"] assms(1) ReceiptCommand by (auto simp: room_command_run_def)
  have "room_next C ctx' x = room_next C ctx x" by (simp only: room_next_def a(2))
  then show ?thesis using adds_sound[OF a(1) sound, of x x] sound[of x] by (simp add: room_sound_def)
next
  case (Import i)
  then have run: "apply_import C i ctx = Inr (resp, ctx')" using assms(1) by (simp add: room_command_run_def)
  from run show ?thesis
    by (cases rule: import_adds) (use Import assms(2) snapshot_sound sound in auto)
next
  case (ImportHistory h)
  then have "apply_import_history C h ctx = Inr (resp, ctx')" using assms(1) by (simp add: room_command_run_def)
  note a = history_adds[OF this]
  show ?thesis using adds_sound[OF a(1) sound] sound[of "ih_room_id h"] by (simp add: a(2) room_sound_def)
next
  case (ImportSegment s)
  then have run: "apply_import_segment C s ctx = Inr (resp, ctx')" using assms(1) by (simp add: room_command_run_def)
  from run show ?thesis
    by (cases rule: segment_adds) (use ImportSegment assms(2) snapshot_sound sound in auto)
next
  case (AppendStamped e txn)
  then obtain r c1 where run: "apply_append C e ctx = Inr (r, c1)"
    "(case r of Accepted eid _ \<Rightarrow> put_txn txn eid | _ \<Rightarrow> aret ()) c1 = Inr ((), ctx')"
    using assms(1) by (auto simp: room_command_run_def apply_stamped_def)
  have off: "off_groups (case r of Accepted eid _ \<Rightarrow> put_txn txn eid | _ \<Rightarrow> aret ())"
    unfolding off_groups_def by (cases r) (auto intro!: confined_intros)
  have c1: "room_sound C c1 y" for y using append_sound[OF run(1) _ _ sound] AppendStamped assms(2) by auto
  have "room_next C ctx' x = room_next C c1 x" by (simp only: room_next_def adds_off(2)[OF off run(2)])
  then show ?thesis using adds_sound[OF adds_off(1)[OF off run(2)] c1, of x x] c1[of x] by (simp add: room_sound_def)
qed

end

lemma history_sound:
  assumes "room_wire C" and "room_history C (room_cmd_ok R C) s db seq out"
  shows "bt_wf db \<and> (\<forall>x. room_sound C (room_ctx s db seq) x)"
  using assms(2)
proof induction
  case start
  show ?case by (auto simp: room_sound_def chains_ok_def room_groups_def row_def room_ctx_get kv_get_def room_next_def next_group_of_def)
next
  case (batch db seq out ctx)
  have run: "\<forall>x. room_sound C c' x" if "room_run C (room_cmd_ok R C) c c'" "\<forall>x. room_sound C c x" for c c'
    using that by induction (auto intro: room_wire.command_sound[OF assms(1)])
  have io: "\<forall>x. room_sound C ctx x" using run[OF batch.hyps(2)] batch.IH by blast
  have f: "ctx_engine ctx = db" "ctx_shard ctx = s" using room_run_frame[OF batch.hyps(2)] by simp_all
  have same: "ctx_get (room_ctx s (committed ctx) q) t k = ctx_get ctx t k" "bt_wf (committed ctx)" for q t k
    using committed_room[of ctx] f batch.IH by auto
  then have "unchanged C x ctx (room_ctx s (committed ctx) (ctx_seq ctx))" for x by (simp add: unchanged_def)
  then show ?case using io same(2) unchanged_same(3) by metis
qed

lemma serves_db: "serves \<lparr>rd_shard = s, rd_engine = db\<rparr> (room_ctx s db seq)"
  by (simp add: serves_def rd_get_def room_ctx_get)

text \<open>
  C4: Every stored state group can be read. In any history of \<open>room_cmd_ok\<close>, in whatever batches, following the parents
  of a stored group ends after at most \<open>MAX_GROUP_CHAIN\<close> groups, all of them stored, and \<open>resolve_group\<close> returns
  the state that they overlay to. \<open>room_cmd_ok\<close> says that an append was computed by the pipeline from the
  metadata and the groups of the room that it meets when it is applied, and that the numbers of groups do not
  run out. The lock of the room gives the first against other pipelines; an import takes no lock, and when one
  falls between the reads of a pipeline and its append, the numbering is reset and the statement can fail.
\<close>

theorem state_groups_resolve:
  assumes "room_wire C" and "room_history C (room_cmd_ok R C) s db seq out"
    and "row (rc_group C) (room_ctx s db seq) T_GROUP (room_u64_key rid gid) \<noteq> None"
  shows "\<exists>gs. group_chain (rs_group C (Local \<lparr>rd_shard = s, rd_engine = db\<rparr>) rid) (Some gid) [] = Some (Inr gs) \<and>
     1 \<le> length gs \<and> length gs \<le> unat MAX_GROUP_CHAIN \<and>
     resolve_group C (Local \<lparr>rd_shard = s, rd_engine = db\<rparr>) rid gid = Some (Inr (overlay_groups gs))"
proof -
  let ?L = "room_groups C (room_ctx s db seq) rid" and ?rd = "\<lparr>rd_shard = s, rd_engine = db\<rparr>"
  have sound: "room_sound C (room_ctx s db seq) rid" using history_sound[OF assms(1,2)] by blast
  have chains: "chains_ok ?L (room_next C (room_ctx s db seq) rid)" using sound by (simp add: room_sound_def)
  obtain g where g: "?L gid = Some g" using assms(3) by (auto simp: room_groups_def simp del: room_tables)
  from path_exists[OF chains g] obtain gs where gs: "group_path ?L gid gs" "length gs = Suc (unat (sg_chain_len g))" by blast
  have len: "unat (sg_chain_len g) < unat MAX_GROUP_CHAIN" using chains_okD(3)[OF chains g] by (simp add: word_less_nat_alt)
  have "group_chain (rs_group C (Local ?rd) rid) (Some gid) [] = Some (Inr gs)"
    using path_chain[OF gs(1), of "[]"] by (simp add: read_group[OF serves_db sound])
  moreover have "resolve_group C (Local ?rd) rid gid = Some (Inr (overlay_groups gs))"
    using resolve_read[OF serves_db sound] gs(1) by (auto simp: state_is_def)
  ultimately show ?thesis using gs(2) len by auto
qed

end
