(* ===== verification/Room_Safety.thy ===== *)
theory Room_Safety
  imports Room_State Auth_Facts
begin

text \<open>
  What an accepted event has gone through, what the room is after it, and where the pipeline fails: the
  properties of the pipeline and the machine together.
\<close>

section \<open>What the rules see\<close>

definition full_view :: "state_ids \<Rightarrow> fetch \<Rightarrow> state_view" where
  "full_view st fetch ty sk = Option.bind (bt_get st (ty, sk)) fetch"

text \<open>The rules run on the entries they select; the verdict is the one on the whole state.\<close>

lemma state_view_get:
  assumes "state_view_of v event st fetch = Inr view"
  shows "agree_on (insert (''m.room.create'', []) (set (auth_types_of v event))) (state_map_get view) (full_view st fetch)"
proof -
  let ?f = "\<lambda>k view. case bt_get st k of None \<Rightarrow> Inr view
      | Some eid \<Rightarrow> rbind (ok_or (MissingEvents [eid]) (fetch eid)) (\<lambda>e. Inr (bt_insert k e view))"
  have "bt_get view k = (if k \<in> set ks then Option.bind (bt_get st k) fetch else bt_get acc k)"
    if "fold_r ?f ks acc = Inr view" "\<And>k. bt_get acc k = None \<or> bt_get acc k = Option.bind (bt_get st k) fetch" for ks acc k
    using that
  proof (induction ks arbitrary: acc)
    case (Cons x ks)
    then obtain acc' where acc': "?f x acc = Inr acc'" "fold_r ?f ks acc' = Inr view" by auto
    from acc'(1) have get: "bt_get acc' y = (if y = x \<and> bt_get st x \<noteq> None then Option.bind (bt_get st x) fetch else bt_get acc y)" for y
      by (auto split: option.splits)
    have "bt_get acc' y = None \<or> bt_get acc' y = Option.bind (bt_get st y) fetch" for y using Cons.prems(2)[of y] by (auto simp: get)
    from Cons.IH[OF acc'(2) this] show ?case using Cons.prems(2)[of x] by (auto simp: get)
  qed simp
  from this[of _ "[]"] assms show ?thesis
    by (auto simp: state_view_of_def agree_on_def state_map_get_def full_view_def)
qed

lemma fetched_auth:
  assumes "fold_r (fetch_auth R C store) ids (acc, []) = Inr (auth, [])"
  shows "\<exists>more. auth = acc @ more \<and> list_all2 (\<lambda>eid (e, rej). \<exists>se. rs_event C store eid = Inr (Some se) \<and>
     parse_stored R C eid se = Inr e \<and> rej = (se_rejected se \<noteq> None)) ids more"
  using assms
proof (induction ids arbitrary: acc)
  case (Cons x ids)
  have mono: "missing' \<noteq> []" if "fold_r (fetch_auth R C store) xs (a, missing) = Inr (a', missing')" "missing \<noteq> []" for xs a a' missing missing'
    using that by (induction xs arbitrary: a missing) (fastforce simp: fetch_auth_def split: option.splits)+
  from Cons.prems obtain found where f: "rs_event C store x = Inr found" by (auto simp: fetch_auth_def)
  have "found \<noteq> None"
  proof
    assume "found = None"
    then have "fetch_auth R C store x (acc, []) = Inr (acc, [x])" using f by (simp add: fetch_auth_def)
    then show False using Cons.prems mono[of ids acc "[x]"] by simp
  qed
  then obtain se where se: "found = Some se" by blast
  obtain e where e: "parse_stored R C x se = Inr e" "fold_r (fetch_auth R C store) ids (acc @ [(e, se_rejected se \<noteq> None)], []) = Inr (auth, [])"
  proof (cases "parse_stored R C x se")
    case (Inr e)
    then have "fetch_auth R C store x (acc, []) = Inr (acc @ [(e, se_rejected se \<noteq> None)], [])" using f se by (simp add: fetch_auth_def)
    then show ?thesis using that Cons.prems Inr by simp
  qed (use Cons.prems f se in \<open>simp add: fetch_auth_def\<close>)
  from Cons.IH[OF e(2)] obtain more where "auth = (acc @ [(e, se_rejected se \<noteq> None)]) @ more" "list_all2 (\<lambda>eid (e, rej). \<exists>se. rs_event C store eid = Inr (Some se) \<and>
     parse_stored R C eid se = Inr e \<and> rej = (se_rejected se \<noteq> None)) ids more" by blast
  then show ?case using f se e(1) by (intro exI[of _ "(e, se_rejected se \<noteq> None) # more"]) auto
qed simp

section \<open>Accepted events\<close>

lemma accepted_run:
  assumes "process_inner R C keys store raw v rid is_create relay rej txn = Some (Inr (Propose cmd t))" and "ae_rejected cmd = None"
  obtains raw' event meta auth prevs before bg al where
    "ready R C keys store raw v rid is_create raw' event meta auth prevs"
    "state_before R C store v rid is_create prevs (fetch_event R C store event) (next_group_of meta) = Some (Inr (before, bg, al))"
    "passes R C store v is_create meta event auth before"
    "accept_event R C store v rid is_create relay txn meta raw' event before bg al = Some (Inr (Propose cmd t))"
  using assms(1)
proof (cases rule: process_proposes)
  case (early raw' event meta kind)
  then show thesis using assms(2) by (auto simp: propose_rejected_def propose_rejected_with_state_def)
next
  case (rules raw' event meta auth prevs)
  from rules(2) show thesis
  proof (cases rule: authorise_proposes)
    case (accept before bg al)
    then show thesis using that rules(1) by blast
  qed (use assms(2) in \<open>auto simp: propose_rejected_def propose_rejected_with_state_def\<close>)
qed

text \<open>
  C2: An event enters a room only if it is authorised. A command that the pipeline proposes without a
  rejection comes from an event whose form validates and whose signatures verify (in the redacted form
  when its hash does not), whose identifier is the hash of that form and was not stored; all its auth
  events are stored, none of them is rejected, they are a selection the event may cite, and the rules pass on
  the state they make up, to which from version 12 on the room's own stored create event is added; and the
  rules pass on the whole state before the event: that of its only predecessor group, or the resolution over
  all of them.
\<close>

theorem accepted_event_authorised:
  assumes "process_inner R C keys store raw v rid is_create relay rej txn = Some (Inr (Propose cmd t))" and "ae_rejected cmd = None"
  shows "\<exists>raw' event auth prevs ast before.
     verified_form R keys raw v = Inr (raw', ip_pdu event) \<and> compute_event_id R raw' v = Inr (event_id event) \<and>
     ae_event_id cmd = event_id event \<and> rs_event C store (event_id event) = Inr None \<and>
     list_all2 (\<lambda>eid e. \<exists>se. rs_event C store eid = Inr (Some se) \<and> se_rejected se = None \<and> parse_stored R C eid se = Inr e)
       (auth_events event) auth \<and>
     check_auth_events v event (auth_entries (map (\<lambda>e. (e, False)) auth)) = Inr () \<and>
     (if is_create \<or> create_event_in_auth_events v then ast = bt_collect (map (\<lambda>e. (state_pair e, e)) auth)
      else \<exists>(m :: room_meta) se create. rs_meta C store rid = Inr (Some m) \<and> rs_event C store (rm_create_event_id m) = Inr (Some se) \<and>
        parse_stored R C (rm_create_event_id m) se = Inr create \<and>
        ast = bt_insert (''m.room.create'', []) create (bt_collect (map (\<lambda>e. (state_pair e, e)) auth))) \<and>
     check_state_dependent R v event (state_map_get ast) = Inr () \<and>
     fold_r (prev_group C store) (prev_events event) ([], []) = Inr (prevs, []) \<and>
     prior_state R C store v rid is_create prevs (fetch_event R C store event) before \<and>
     check_state_dependent R v event (full_view before (fetch_event R C store event)) = Inr ()"
proof -
  from assms obtain raw' event meta auth prevs before bg al where r: "ready R C keys store raw v rid is_create raw' event meta auth prevs"
    and b: "state_before R C store v rid is_create prevs (fetch_event R C store event) (next_group_of meta) = Some (Inr (before, bg, al))"
    and p: "passes R C store v is_create meta event auth before"
    and a: "accept_event R C store v rid is_create relay txn meta raw' event before bg al = Some (Inr (Propose cmd t))" by (rule accepted_run)
  from p obtain ast view where ast: "auth_state R C store v is_create meta auth = Some (Inr ast)" "check_state_dependent R v event (state_map_get ast) = Inr ()"
    and view: "state_view_of v event before (fetch_event R C store event) = Inr view" "check_state_dependent R v event (state_map_get view) = Inr ()"
    and chk: "check_auth_events v event (auth_entries auth) = Inr ()" by (auto simp: passes_def)
  have full: "check_state_dependent R v event (full_view before (fetch_event R C store event)) = Inr ()"
    using check_state_dependent_agree[OF state_view_get[OF view(1)]] view(2) by metis
  have f: "list_all2 (\<lambda>eid (e, rej). \<exists>se. rs_event C store eid = Inr (Some se) \<and> parse_stored R C eid se = Inr e \<and> rej = (se_rejected se \<noteq> None))
     (auth_events event) auth" using r fetched_auth[of R C store "auth_events event" "[]" auth] by (auto simp: ready_def)
  have accepted: "\<forall>x \<in> set auth. \<not> snd x"
    using chk[unfolded check_auth_events_exact] by (fastforce simp: auth_entries_def entry_fine_def)
  then have "map (\<lambda>e. (e, False)) (map fst auth) = auth" by (induction auth) auto
  then have chk': "check_auth_events v event (auth_entries (map (\<lambda>e. (e, False)) (map fst auth))) = Inr ()" using chk by simp
  from f accepted have auth: "list_all2 (\<lambda>eid e. \<exists>se. rs_event C store eid = Inr (Some se) \<and> se_rejected se = None \<and> parse_stored R C eid se = Inr e)
       (auth_events event) (map fst auth)"
    unfolding list.rel_map by (elim list.rel_mono_strong) auto
  have st: "if is_create \<or> create_event_in_auth_events v then ast = bt_collect (map (\<lambda>e. (state_pair e, e)) (map fst auth))
      else \<exists>(m :: room_meta) se create. rs_meta C store rid = Inr (Some m) \<and> rs_event C store (rm_create_event_id m) = Inr (Some se) \<and>
        parse_stored R C (rm_create_event_id m) se = Inr create \<and>
        ast = bt_insert (''m.room.create'', []) create (bt_collect (map (\<lambda>e. (state_pair e, e)) (map fst auth)))"
    using ast(1) r by (auto simp: auth_state_def ready_def Let_def comp_def case_prod_unfold split: if_splits option.splits)
  have eid: "ae_event_id cmd = event_id event" using a by (auto simp: accept_event_def Let_def)
  show ?thesis
    by (intro exI[of _ raw'] exI[of _ event] exI[of _ "map fst auth"] exI[of _ prevs] exI[of _ ast] exI[of _ before] conjI
        auth chk' st ast(2) full state_before_spec(1)[OF b] eid) (use r in \<open>simp_all add: ready_def\<close>)
qed

text \<open>The command of an event that is not stored yet is applied, whatever its stamp.\<close>

lemma append_command_run:
  assumes "room_command_run C (append_command stamped cmd t) ctx = Inr (resp, ctx')"
  obtains r c1 where "apply_append C cmd ctx = Inr (r, c1)" "\<And>x. adds C x [] c1 ctx'"
    "\<And>x. row (rc_meta C) ctx' T_ROOM x = row (rc_meta C) c1 T_ROOM x"
proof (cases "append_command stamped cmd t")
  case (AppendStamped e txn)
  then obtain r c1 where e: "e = cmd" and run: "apply_append C cmd ctx = Inr (r, c1)"
    "(case r of Accepted eid _ \<Rightarrow> put_txn txn eid | _ \<Rightarrow> aret ()) c1 = Inr ((), ctx')"
    using assms by (auto simp: room_command_run_def apply_stamped_def append_command_def split: option.splits if_splits)
  have off: "off_groups (case r of Accepted eid _ \<Rightarrow> put_txn txn eid | _ \<Rightarrow> aret ())"
    unfolding off_groups_def by (cases r) (auto intro!: confined_intros)
  show thesis by (rule that[OF run(1)]) (rule adds_off[OF off run(2)])+
qed (use assms that in \<open>auto simp: room_command_run_def append_command_def adds_def split: option.splits if_splits\<close>)

lemma accepted_command_effect:
  assumes "room_wire C" and "room_command_run C (append_command stamped cmd t) ctx = Inr (resp, ctx')"
    and "ctx_get ctx T_EVENT (ae_event_id cmd) = None" and "ae_rejected cmd = None"
  obtains m where "adds C (ae_room_id cmd) (ae_new_groups cmd) ctx ctx'" "row (rc_meta C) ctx' T_ROOM (ae_room_id cmd) = Some m"
    "rm_next_group m = ae_next_group cmd" "rm_extremities m = ae_new_extremities cmd" "rm_current_group m = ae_new_current_group cmd"
proof -
  from assms(2) obtain r c1 where run: "apply_append C cmd ctx = Inr (r, c1)" and a: "\<And>x. adds C x [] c1 ctx'"
    and m: "\<And>x. row (rc_meta C) ctx' T_ROOM x = row (rc_meta C) c1 T_ROOM x" by (rule append_command_run) blast
  have "r \<noteq> Duplicate (ae_event_id cmd)" using run assms(3,4) by (auto simp: apply_append_def append_accepted_def simp del: room_tables)
  with room_wire.append_adds[OF assms(1) run] assms(4) obtain m' where acc: "adds C (ae_room_id cmd) (ae_new_groups cmd) ctx c1"
    "row (rc_meta C) c1 T_ROOM (ae_room_id cmd) = Some m'" "rm_next_group m' = ae_next_group cmd"
    "rm_extremities m' = ae_new_extremities cmd" "rm_current_group m' = ae_new_current_group cmd" by (metis option.distinct(1))
  show thesis using that[of m'] adds_trans[OF acc(1) a] acc(2-5) by (simp add: m del: room_tables)
qed

lemma history_sees:
  assumes "room_wire C" and "room_history C (room_cmd_ok R C) s db seq out"
  shows "sees C \<lparr>rd_shard = s, rd_engine = db\<rparr> (room_ctx s db seq) rid
    (room_groups C (room_ctx s db seq) rid) (room_next C (room_ctx s db seq) rid)"
  using history_sound[OF assms] by (simp add: sees_def serves_db)

lemma history_extend:
  assumes "room_history C ok s db seq out" and "ok (room_ctx s db seq) cmd" and "room_command_run C cmd (room_ctx s db seq) = Inr (resp, ctx')"
  shows "room_history C ok s (committed ctx') (ctx_seq ctx') (out @ ctx_emits ctx')"
  by (rule room_history.batch[OF assms(1)]) (rule room_run.step[OF room_run.stay, of ok _ cmd, OF assms(2,3)])

lemma unchanged_refl: "unchanged C rid ctx ctx"
  by (simp add: unchanged_def)

lemma pipeline_proposes:
  assumes "process_inner R C keys (Local rd) raw v rid is_create relay rej txn = Some (Inr (Propose cmd t))"
    and "sees C rd ctx rid L n" and "unat n + 3 < 2 ^ 64"
  shows "room_cmd_ok R C ctx (append_command stamped cmd t)"
proof -
  have rid: "ae_room_id cmd = rid" by (rule process_alloc(2)[OF assms(2,1,3)])
  have "proposed R C ctx cmd" unfolding proposed_def rid
    by (intro exI conjI, rule assms(2)[unfolded sees_def, THEN conjunct1], rule unchanged_refl, rule assms(1))
  moreover have "has_room C ctx (ae_room_id cmd)" using assms(2,3) by (simp add: has_room_def rid sees_def)
  ultimately show ?thesis by (auto simp: append_command_def split: option.split)
qed

lemma set_extremities:
  "set (extremities_after meta event) = insert (event_id event)
     ((case meta of None \<Rightarrow> {} | Some m \<Rightarrow> set (rm_extremities m)) - set (prev_events event))"
proof -
  have "set (fold removeAll xs ys) = set ys - set xs" for xs ys :: "string list" by (induction xs arbitrary: ys) auto
  then show ?thesis by (simp add: extremities_after_def Let_def split: option.split)
qed

text \<open>
  C3: The state of a room after an accepted event other than its create event. The history is one of \<open>room_cmd_ok\<close>: every
  append so far was computed by the pipeline from the metadata and the groups of the room that it met when it
  was applied, and the numbers of groups have not run out. The lock of the room gives this against other
  pipelines; an import takes no lock, and one that falls between the reads of a pipeline and its append is
  outside the statement (C15 shows what it does). In such a history, when the pipeline reads the applied state
  and the command it proposes without a rejection is applied to that state, then the group stored with the
  event resolves to the state before the event with the event's own entry, however the group is encoded;
  the room's extremities are the old ones without the event's predecessors and with the event; and the
  room's current group resolves to the state after the event if that is its only extremity, and to the
  resolution over the states of all extremities otherwise.
\<close>

theorem accepted_event_state:
  assumes "room_wire C" and "room_history C (room_cmd_ok R C) s db seq out"
    and "unat (room_next C (room_ctx s db seq) rid) + 3 < 2 ^ 64"
    and "process_inner R C keys (Local \<lparr>rd_shard = s, rd_engine = db\<rparr>) raw v rid False relay rej txn = Some (Inr (Propose cmd t))"
    and "ae_rejected cmd = None"
    and "room_command_run C (append_command stamped cmd t) (room_ctx s db seq) = Inr (resp, ctx')"
  shows "\<exists>event prevs before m m' cur. event_id event = ae_event_id cmd \<and>
     fold_r (prev_group C (Local \<lparr>rd_shard = s, rd_engine = db\<rparr>)) (prev_events event) ([], []) = Inr (prevs, []) \<and>
     prior_state R C (Local \<lparr>rd_shard = s, rd_engine = db\<rparr>) v rid False prevs
       (fetch_event R C (Local \<lparr>rd_shard = s, rd_engine = db\<rparr>) event) before \<and>
     resolve_group C (Local \<lparr>rd_shard = s, rd_engine = committed ctx'\<rparr>) rid (ae_state_group_after cmd) = Some (Inr (with_event event before)) \<and>
     rs_meta C (Local \<lparr>rd_shard = s, rd_engine = db\<rparr>) rid = Inr (Some m) \<and>
     rs_meta C (Local \<lparr>rd_shard = s, rd_engine = committed ctx'\<rparr>) rid = Inr (Some m') \<and>
     set (rm_extremities m') = insert (event_id event) (set (rm_extremities m) - set (prev_events event)) \<and>
     tip_state R C (Local \<lparr>rd_shard = s, rd_engine = db\<rparr>) v rid (event_id event)
       (fetch_event R C (Local \<lparr>rd_shard = s, rd_engine = db\<rparr>) event) (rm_extremities m') (with_event event before) cur \<and>
     resolve_group C (Local \<lparr>rd_shard = s, rd_engine = committed ctx'\<rparr>) rid (rm_current_group m') = Some (Inr cur)"
proof -
  let ?rd = "\<lparr>rd_shard = s, rd_engine = db\<rparr>" and ?c = "room_ctx s db seq"
  let ?c' = "room_ctx s (committed ctx') (ctx_seq ctx')" and ?rd' = "\<lparr>rd_shard = s, rd_engine = committed ctx'\<rparr>"
  let ?L = "room_groups C ?c rid" and ?n = "room_next C ?c rid"
  note sees = history_sees[OF assms(1,2), of rid]
  from assms(4,5) obtain raw' event meta auth prevs before bg al where
    r: "ready R C keys (Local ?rd) raw v rid False raw' event meta auth prevs"
    and b: "state_before R C (Local ?rd) v rid False prevs (fetch_event R C (Local ?rd) event) (next_group_of meta) = Some (Inr (before, bg, al))"
    and a: "accept_event R C (Local ?rd) v rid False relay txn meta raw' event before bg al = Some (Inr (Propose cmd t))" by (rule accepted_run)
  from r obtain m where m: "rs_meta C (Local ?rd) rid = Inr (Some m)" "meta = Some m" by (auto simp: ready_def)
  have n: "next_group_of meta = ?n" using read_meta[OF serves_db[of s db seq] m(1)] m(2) by (simp add: room_next_def)
  note acc = accept_alloc[OF sees b[unfolded n] a assms(3)]
  have "rd_get ?rd T_EVENT (event_id event) = None"
    using r by (simp add: ready_def rs_event_def rs_typed_def rs_get_def decode_opt_None del: room_tables)
  then have new: "ctx_get ?c T_EVENT (ae_event_id cmd) = None" using serves_db[of s db seq] by (simp add: serves_def acc(3) del: room_tables)
  from accepted_command_effect[OF assms(1,6) new assms(5), unfolded acc(2)] obtain m' where
    eff: "adds C rid (ae_new_groups cmd) ?c ctx'" "row (rc_meta C) ctx' T_ROOM rid = Some m'"
      "rm_extremities m' = extremities_after meta event" "rm_current_group m' = ae_new_current_group cmd" using acc(5) by metis
  have hist: "room_history C (room_cmd_ok R C) s (committed ctx') (ctx_seq ctx') (out @ ctx_emits ctx')"
    by (rule history_extend[OF assms(2) pipeline_proposes[OF assms(4) sees assms(3)] assms(6)])
  have same: "ctx_get ?c' t k = ctx_get ctx' t k" for t k
    using committed_room(1)[of ctx' "ctx_seq ctx'" t k] room_command_frame(3,4)[OF assms(6)] history_sound[OF assms(1,2)] by simp
  have L': "room_groups C ?c' rid = add_groups (ae_new_groups cmd) ?L"
    using eff(1) by (auto simp: adds_def room_groups_def row_def fun_eq_iff same simp del: room_tables)
  have res: "resolve_group C (Local ?rd') rid gid = Some (Inr st)" if "state_is (add_groups (ae_new_groups cmd) ?L) gid st" for gid st
    using seesD(3)[OF history_sees[OF assms(1) hist]] that by (simp add: L')
  have m': "rs_meta C (Local ?rd') rid = Inr (Some m')"
  proof -
    have "rd_get ?rd' T_ROOM rid = ctx_get ctx' T_ROOM rid" using serves_db[of s "committed ctx'" "ctx_seq ctx'"] by (simp add: serves_def same del: room_tables)
    then show ?thesis using eff(2) by (auto simp: rs_meta_def rs_typed_def rs_get_def decode_opt_eq row_def bind_eq_Some_conv simp del: room_tables)
  qed
  from acc(7) obtain cur where st: "state_is (add_groups (ae_new_groups cmd) ?L) (ae_state_group_after cmd) (with_event event before)"
    "tip_state R C (Local ?rd) v rid (event_id event) (fetch_event R C (Local ?rd) event) (extremities_after meta event) (with_event event before) cur"
    "state_is (add_groups (ae_new_groups cmd) ?L) (ae_new_current_group cmd) cur" by auto
  show ?thesis
    by (intro exI[of _ event] exI[of _ prevs] exI[of _ before] exI[of _ m] exI[of _ m'] exI[of _ cur] conjI
        state_before_spec(1)[OF b] res[OF st(1)] m(1) m' res[OF st(3), folded eff(4)] st(2)[folded eff(3)])
      (use r acc(3) in \<open>simp_all add: ready_def eff(3) set_extremities m(2)\<close>)
qed

section \<open>Forks\<close>

text \<open>
  C14: A state event other than the create event merges no fork, in any history of \<open>room_cmd_ok\<close>, that is while no import, which
  takes no lock, has changed a room between the reads of a pipeline and its append. An event whose
  predecessors carry two or more state groups (or none) gets a group of its own for the state before it, which
  the command is yet to store; \<open>process_inner\<close> then looks that group up in the store as the parent of the group
  after the event, and fails, since no group is stored under the next free number. So a state event is accepted
  only where all its predecessors carry one and the same group. (Where an import has slipped in, the next free
  number can be that of a stored group, and the lookup succeeds with the wrong parent.)
\<close>

theorem state_events_merge_no_fork:
  assumes "room_wire C" and "room_history C (room_cmd_ok R C) s db seq out"
    and "process_inner R C keys (Local \<lparr>rd_shard = s, rd_engine = db\<rparr>) raw v rid False relay rej txn = Some (Inr (Propose cmd t))"
    and "ae_rejected cmd = None"
  shows "\<exists>event prevs. event_id event = ae_event_id cmd \<and>
     fold_r (prev_group C (Local \<lparr>rd_shard = s, rd_engine = db\<rparr>)) (prev_events event) ([], []) = Inr (prevs, []) \<and>
     (is_state event \<longrightarrow> length prevs = 1)"
proof -
  let ?rd = "\<lparr>rd_shard = s, rd_engine = db\<rparr>" and ?c = "room_ctx s db seq"
  note sees = history_sees[OF assms(1,2), of rid]
  from assms(3,4) obtain raw' event meta auth prevs before bg al where
    r: "ready R C keys (Local ?rd) raw v rid False raw' event meta auth prevs"
    and b: "state_before R C (Local ?rd) v rid False prevs (fetch_event R C (Local ?rd) event) (next_group_of meta) = Some (Inr (before, bg, al))"
    and a: "accept_event R C (Local ?rd) v rid False relay txn meta raw' event before bg al = Some (Inr (Propose cmd t))" by (rule accepted_run)
  from r have n: "next_group_of meta = room_next C ?c rid" using read_meta[OF serves_db[of s db seq]] by (auto simp: ready_def room_next_def)
  have "length prevs = 1" if "is_state event"
  proof (rule ccontr)
    assume "length prevs \<noteq> 1"
    then have "bg = room_next C ?c rid" using b by (auto simp: state_before_def n alloc_full_def alloc_group_def)
    then have "rs_group C (Local ?rd) rid bg = Inr None" using seesD(1,2)[OF sees] chains_ok_fresh by simp
    then show False using a that by (auto simp: accept_event_def state_after_def is_state_def Let_def)
  qed
  moreover have "event_id event = ae_event_id cmd" using a by (auto simp: accept_event_def Let_def)
  ultimately show ?thesis using r by (auto simp: ready_def)
qed

text \<open>The events of a segment that were not on the timeline are stored with the group of its snapshot.\<close>

definition points_at :: "room_codecs \<Rightarrow> u64 \<Rightarrow> apply_ctx \<Rightarrow> string \<Rightarrow> bool" where
  "points_at C gid ctx eid \<longleftrightarrow> (\<exists>se. row (rc_event C) ctx T_EVENT eid = Some se \<and> se_state_group_after se = gid)"

lemma segment_event_points:
  assumes "lossless (rc_event C)" and "segment_event C room gid ev acc ctx = Inr (acc', ctx')"
  shows "row (rc_event C) ctx' T_EVENT x = row (rc_event C) ctx T_EVENT x \<or> points_at C gid ctx' x"
    "\<not> on_timeline (row (rc_event C) ctx T_EVENT (ie_event_id ev)) \<Longrightarrow> points_at C gid ctx' (ie_event_id ev)"
proof -
  let ?e = "ie_event_id ev"
  have step: "(on_timeline (row (rc_event C) ctx T_EVENT ?e) \<and> ctx' = ctx) \<or>
      (\<exists>se. se_state_group_after se = gid \<and> row (rc_event C) ctx' T_EVENT y = (if y = ?e then Some se else row (rc_event C) ctx T_EVENT y))" for y
    using assms(2) unfolding segment_event_def get_event_def
  proof (rule abind_typedE)
    assume "(if on_timeline (row (rc_event C) ctx T_EVENT ?e) then aret acc
       else abind (emit_event C room ?e) (\<lambda>seq. aseq (put_event C ?e \<lparr>se_raw = ie_raw ev, se_seq = seq, se_state_group_after = gid,
            se_depth = ie_depth ev, se_rejected = None, se_history_idx = None, se_imported = False, se_relay = False\<rparr>)
        (aseq (put_timeline C room ?e seq) (aret \<lparr>sa_appended = sa_appended acc + 1,
                sa_first = (case sa_first acc of Some f \<Rightarrow> Some f | None \<Rightarrow> Some seq), sa_last = Some ?e\<rparr>)))) ctx = Inr (acc', ctx')"
    then show ?thesis using assms(1) by (auto simp: emit_event_def put_event_def put_timeline_def split: if_splits intro!: exI[of _ "stored_event.make _ _ gid _ _ _ _ _"] simp: stored_event.defs)
  qed
  show "row (rc_event C) ctx' T_EVENT x = row (rc_event C) ctx T_EVENT x \<or> points_at C gid ctx' x"
    "\<not> on_timeline (row (rc_event C) ctx T_EVENT ?e) \<Longrightarrow> points_at C gid ctx' ?e"
    using step[of x] step[of ?e] unfolding points_at_def by (auto simp del: room_tables)
qed

lemma segment_fold_points:
  assumes "lossless (rc_event C)" and "afold (segment_event C room gid) evs acc ctx = Inr (acc', ctx')"
  shows "(row (rc_event C) ctx' T_EVENT x = row (rc_event C) ctx T_EVENT x \<or> points_at C gid ctx' x) \<and>
    (x \<in> ie_event_id ` set evs \<longrightarrow> \<not> on_timeline (row (rc_event C) ctx T_EVENT x) \<longrightarrow> points_at C gid ctx' x)"
  using assms(2)
proof (induction evs arbitrary: acc ctx)
  case (Cons ev evs)
  then obtain acc1 c1 where run: "segment_event C room gid ev acc ctx = Inr (acc1, c1)" "afold (segment_event C room gid) evs acc1 c1 = Inr (acc', ctx')"
    by auto
  note one = segment_event_points[OF assms(1) run(1)] and IH = Cons.IH[OF run(2)]
  show ?case using IH one(1)[of x] one(2) unfolding points_at_def by (auto simp del: room_tables)
qed simp

lemma segment_points:
  assumes "room_wire C" and "apply_import_segment C seg ctx = Inr (resp, ctx')"
    and "x \<in> ie_event_id ` set (is_timeline seg)" and "\<not> on_timeline (row (rc_event C) ctx T_EVENT x)"
  shows "points_at C (room_next C ctx (is_room_id seg)) ctx' x"
proof -
  let ?r = "is_room_id seg"
  from assms(2) obtain m acc acc' c1 c2 c3 where m: "row (rc_meta C) ctx T_ROOM ?r = Some m"
    and c1: "afor (put_support C) (is_events seg) ctx = Inr ((), c1)"
    and c2: "put_group C ?r (rm_next_group m, full_group (Room_Types.is_state seg)) c1 = Inr ((), c2)"
    and c3: "afold (segment_event C ?r (rm_next_group m)) (is_timeline seg) acc c2 = Inr (acc', c3)"
    and fin: "segment_finish C seg m acc' c3 = Inr (resp, ctx')"
    unfolding apply_import_segment_def full_group_def by (auto dest!: decode_opt_row split: option.splits simp del: room_tables)
  have "\<not> on_timeline (row (rc_event C) c2 T_EVENT x)"
    using room_wire.support_offline[OF assms(1) c1 assms(4)] c2 by (auto simp: put_group_def)
  then have "points_at C (rm_next_group m) c3 x"
    using segment_fold_points[OF room_wire.wire_event[OF assms(1)] c3, of x] assms(3) by blast
  moreover have "confined {T_ROOM} (segment_finish C seg m acc')"
    unfolding segment_finish_def by (intro confined_intros; simp)
  from steps_in_row[OF confinedD[OF this fin], of T_EVENT] have "row (rc_event C) ctx' T_EVENT x = row (rc_event C) c3 T_EVENT x" by simp
  ultimately show ?thesis using m
    by (auto simp: points_at_def room_next_def next_group_of_def)
qed

lemma append_event_rows:
  assumes "apply_append C cmd ctx = Inr (r, ctx')" and "ae_rejected cmd = None" and "x \<noteq> ae_event_id cmd"
  shows "ctx_get ctx' T_EVENT x = ctx_get ctx T_EVENT x"
proof -
  let ?rest = "\<lambda>seq. aseq (put_timeline C (ae_room_id cmd) (ae_event_id cmd) seq)
      (aseq (case ae_redacts cmd of None \<Rightarrow> aret () | Some directive \<Rightarrow> put_redact directive (ae_event_id cmd))
      (aseq (afor (put_group C (ae_room_id cmd)) (ae_new_groups cmd))
      (abind (append_meta C cmd) (\<lambda>meta. aseq (put_meta C (ae_room_id cmd) meta) (aret (Accepted (ae_event_id cmd) seq))))))"
  have "confined {T_SEQ, T_ROOM_SEQ, T_REDACT, T_GROUP, T_ROOM} (?rest seq)" for seq by (intro confined_intros; simp)
  note rest = steps_in_frame(3)[OF confinedD[OF this]]
  from assms(1,2) consider "ctx' = ctx" | "append_accepted C cmd ctx = Inr (r, ctx')"
    unfolding apply_append_def by (auto split: if_splits simp del: room_tables)
  then show ?thesis
  proof cases
    case 2
    then obtain seq c1 c2 st where "emit_event C (ae_room_id cmd) (ae_event_id cmd) ctx = Inr (seq, c1)"
      "put_event C (ae_event_id cmd) st c1 = Inr ((), c2)" "?rest seq c2 = Inr (r, ctx')"
      unfolding append_accepted_def abind_eq aseq_eq by blast
    then show ?thesis using rest[of seq c2 r ctx' T_EVENT x] assms(3) by (auto simp: emit_event_def put_event_def)
  qed simp
qed

lemma append_rows:
  assumes "room_command_run C (append_command stamped cmd t) ctx = Inr (resp, ctx')" and "ae_rejected cmd = None" and "x \<noteq> ae_event_id cmd"
  shows "ctx_get ctx' T_EVENT x = ctx_get ctx T_EVENT x"
proof (cases "append_command stamped cmd t")
  case (AppendStamped e txn)
  then obtain r c1 where run: "apply_append C cmd ctx = Inr (r, c1)"
    "(case r of Accepted eid _ \<Rightarrow> put_txn txn eid | _ \<Rightarrow> aret ()) c1 = Inr ((), ctx')"
    using assms(1) by (auto simp: room_command_run_def apply_stamped_def append_command_def split: option.splits if_splits)
  have "confined {T_TXN, T_TXN_ECHO, T_TXN_IDX} (case r of Accepted eid _ \<Rightarrow> put_txn txn eid | _ \<Rightarrow> aret ())"
    by (cases r) (auto intro!: confined_intros)
  from steps_in_frame(3)[OF confinedD[OF this run(2)], of T_EVENT x] append_event_rows[OF run(1) assms(2,3)] show ?thesis by simp
qed (use assms append_event_rows in \<open>auto simp: room_command_run_def append_command_def split: option.splits if_splits simp del: room_tables\<close>)

text \<open>
  C15: What the lock of the room is for. \<open>import_segment\<close> proposes its command without it. When a segment is imported
  between the reads of a pipeline that accepts an event and its command, the snapshot of the segment, stored
  under the next free number, is replaced by the first group of the event, allocated the same number; and the
  events that the segment brought to the timeline point at that number, both before and after the event is
  stored. Up to this import the commands of the room were such as its lock demands.
\<close>

theorem unlocked_segment_loses_snapshot:
  assumes "room_wire C" and "room_history C (room_cmd_ok R C) s db seq out"
    and "unat (room_next C (room_ctx s db seq) rid) + 3 < 2 ^ 64"
    and "process_inner R C keys (Local \<lparr>rd_shard = s, rd_engine = db\<rparr>) raw v rid False relay rej txn = Some (Inr (Propose cmd t))"
    and "ae_rejected cmd = None" and "ae_new_groups cmd \<noteq> []"
    and "room_command_run C (ImportSegment seg) (room_ctx s db seq) = Inr (resp1, c1)" and "is_room_id seg = rid"
    and "ctx_get c1 T_EVENT (ae_event_id cmd) = None"
    and "room_command_run C (append_command stamped cmd t) c1 = Inr (resp2, c2)"
  shows "row (rc_group C) c1 T_GROUP (room_u64_key rid (room_next C (room_ctx s db seq) rid)) = Some (full_group (Room_Types.is_state seg)) \<and>
    (\<exists>g. (room_next C (room_ctx s db seq) rid, g) \<in> set (ae_new_groups cmd) \<and>
       row (rc_group C) c2 T_GROUP (room_u64_key rid (room_next C (room_ctx s db seq) rid)) = Some g) \<and>
    (\<forall>ev \<in> set (is_timeline seg). \<not> on_timeline (row (rc_event C) (room_ctx s db seq) T_EVENT (ie_event_id ev)) \<longrightarrow>
       points_at C (room_next C (room_ctx s db seq) rid) c1 (ie_event_id ev) \<and>
       points_at C (room_next C (room_ctx s db seq) rid) c2 (ie_event_id ev))"
proof -
  let ?c = "room_ctx s db seq" and ?n = "room_next C (room_ctx s db seq) rid"
  note p = process_alloc[OF history_sees[OF assms(1,2)] assms(4,3)]
  have first: "?n \<in> fst ` set (ae_new_groups cmd)" using p(1) assms(6) by (auto simp: alloc_ok_def neq_Nil_conv)
  have run1: "apply_import_segment C seg ?c = Inr (resp1, c1)" using assms(7) by (simp add: room_command_run_def)
  have points: "points_at C ?n c1 (ie_event_id ev) \<and> points_at C ?n c2 (ie_event_id ev)"
    if "ev \<in> set (is_timeline seg)" "\<not> on_timeline (row (rc_event C) ?c T_EVENT (ie_event_id ev))" for ev
  proof -
    have p1: "points_at C ?n c1 (ie_event_id ev)" using segment_points[OF assms(1) run1, of "ie_event_id ev"] that assms(8) by simp
    then have "ie_event_id ev \<noteq> ae_event_id cmd" using assms(9) by (auto simp: points_at_def row_def)
    from append_rows[OF assms(10,5) this] p1 show ?thesis by (simp add: points_at_def row_def)
  qed
  from room_wire.segment_adds[OF assms(1) run1] have "adds C rid [(?n, full_group (Room_Types.is_state seg))] ?c c1"
    unfolding assms(8) by blast
  then have "room_groups C c1 rid = (room_groups C ?c rid)(?n \<mapsto> full_group (Room_Types.is_state seg))"
    by (simp add: adds_def add_groups_def)
  then have seg: "room_groups C c1 rid ?n = Some (full_group (Room_Types.is_state seg))" by simp
  from accepted_command_effect[OF assms(1,10,9,5)] have eff: "adds C rid (ae_new_groups cmd) c1 c2" unfolding p(2) .
  then have "room_groups C c2 rid ?n = add_groups (ae_new_groups cmd) (room_groups C c1 rid) ?n" by (simp add: adds_def)
  moreover from add_groups_mem[OF first] obtain g where "(?n, g) \<in> set (ae_new_groups cmd)"
    "add_groups (ae_new_groups cmd) (room_groups C c1 rid) ?n = Some g" by blast
  ultimately show ?thesis using seg by (intro conjI exI[of _ g] ballI impI points[THEN conjunct1] points[THEN conjunct2]) (simp_all only: room_groups_def not_False_eq_True)
qed

end
