(* ===== verification/Room_Redactions.thy ===== *)
theory Room_Redactions
  imports Room_State
begin

text \<open>
  Redactions: what a redaction does to its target does not depend on which of the two arrives first.
\<close>

lemma pdu_json:
  assumes "from_canonical R raw = Inr p"
  shows "json_str raw ''room_id'' = pdu_room_id p" "json_str raw ''sender'' = Some (pdu_sender p)"
proof -
  from assms have r: "de_opt (de_string (room_id_ok R)) (bt_get raw ''room_id'') = Inr (pdu_room_id p)"
    and s: "de_string (user_id_ok R) (bt_get raw ''sender'') = Inr (pdu_sender p)"
    by (auto simp: from_canonical_def)
  show "json_str raw ''room_id'' = pdu_room_id p"
    using r by (cases "bt_get raw ''room_id''") (auto simp: json_str_def de_opt_def de_string_def split: json.splits if_splits)
  show "json_str raw ''sender'' = Some (pdu_sender p)"
    using s by (cases "bt_get raw ''sender''") (auto simp: json_str_def de_string_def split: json.splits if_splits)
qed

lemma canonicalize_Inr [simp]: "canonicalize x = Inr obj \<longleftrightarrow> x = Inr (JObj obj)"
  by (auto simp: canonicalize_def split: sum.split text_error.split json.split)

lemma parse_storedE:
  assumes "parse_stored R C eid se = Inr e"
  obtains obj where "canonical_of C (se_raw se) = Inr (JObj obj)" "from_canonical R obj = Inr (ip_pdu e)"
proof -
  from assms obtain obj where obj: "canonical_of C (se_raw se) = Inr (JObj obj)"
    "(case from_canonical R obj of Inl e \<Rightarrow> Inl (FormatError e) | Inr p \<Rightarrow> Inr \<lparr>ip_event_id = eid, ip_pdu = p\<rparr>) = Inr e"
    by (auto simp: parse_stored_def)
  then show thesis using that by (cases "from_canonical R obj") auto
qed

text \<open>
  C13: A redaction that arrives after its target is decided by the pipeline; one that overtakes it is stored as
  pending, with the half of the decision that does not need the target, and settled when the target is read.
  Both come to the same: it applies if the target is an event of the same room, sent by the sender of the
  redaction or by anyone if the sender of the redaction held the redact level.
\<close>

theorem redaction_order_irrelevant:
  assumes "rs_event C store tid = Inr (Some se)" and "se_rejected se = None" and "parse_stored R C tid se = Inr target"
    and "bt_get (content event) ''redacts'' = Some (JStr tid)" and "event_id_ok R tid"
    and "parse_stored R C (event_id event) red = Inr event" and "room_id event = Some rid"
    and "sender_may_redact R event v st fetch = Inr may"
    and "rs_event C early tid = Inr None"
  shows "redaction_directive R C early rid event v st fetch = Inr (Some (directive_encode (Pending tid may))) \<and>
    (redaction_directive R C store rid event v st fetch = Inr (Some (directive_encode (Applies tid))) \<and>
       settle_pending C (event_id event) may (se_raw se) (se_raw red) = Inr (Some (event_id event)) \<and>
       room_id target = Some rid \<and> (sender target = sender event \<or> may) \<or>
     redaction_directive R C store rid event v st fetch = Inr None \<and>
       settle_pending C (event_id event) may (se_raw se) (se_raw red) = Inr None \<and>
       \<not> (room_id target = Some rid \<and> (sender target = sender event \<or> may)))"
proof -
  from assms(3) obtain tobj where tobj: "canonical_of C (se_raw se) = Inr (JObj tobj)" "from_canonical R tobj = Inr (ip_pdu target)"
    by (rule parse_storedE)
  from assms(6) obtain robj where robj: "canonical_of C (se_raw red) = Inr (JObj robj)" "from_canonical R robj = Inr (ip_pdu event)"
    by (rule parse_storedE)
  note json = pdu_json[OF tobj(2)] pdu_json[OF robj(2)]
  have rid: "pdu_room_id (ip_pdu event) = Some rid" using assms(7) by (simp add: room_id_def)
  have settle: "settle_pending C (event_id event) may (se_raw se) (se_raw red) =
      Inr (if room_id target = Some rid \<and> (sender target = sender event \<or> may) then Some (event_id event) else None)"
    using tobj(1) robj(1) by (auto simp: settle_pending_def parse_raw_def json rid room_id_def sender_def split: option.split)
  have late: "redaction_directive R C store rid event v st fetch =
      Inr (if room_id target = Some rid \<and> (sender target = sender event \<or> may) then Some (directive_encode (Applies tid)) else None)"
    using assms(1-5,8) by (simp add: redaction_directive_def)
  have "redaction_directive R C early rid event v st fetch = Inr (Some (directive_encode (Pending tid may)))"
    using assms(4,5,8,9) by (simp add: redaction_directive_def)
  then show ?thesis by (simp add: settle late)
qed

text \<open>
  Up to room version 10 the target of a redaction is a field of the event and not of its content; an event
  without the field in its content redacts nothing.
\<close>

lemma redacts_outside_content: "bt_get (content event) ''redacts'' = None \<Longrightarrow> redaction_directive R C store rid event v st fetch = Inr None"
  by (simp add: redaction_directive_def)

end
