(* ===== verification/Room_Examples.thy ===== *)
theory Room_Examples
  imports Room_Codecs Room_Safety Room_Redactions Core_Examples
begin

text \<open>
  The theorems about the room shard, applied to a small room of version 11: it is imported with its create
  event and Alice's join, then Alice sets a topic.
\<close>

definition ev_topic :: identified_pdu where
  "ev_topic = mk_event ''$h'' ''m.room.topic'' (Some '''') ''@a:s'' [] [''$c'', ''$j''] [''$j''] 2"

definition ev_redaction :: identified_pdu where
  "ev_redaction = mk_event ''$x'' ''m.room.redaction'' None ''@a:s'' [(''redacts'', JStr ''$h'')] [] [] 3"

definition canon :: "identified_pdu \<Rightarrow> jobj" where
  "canon e = (case to_canonical (ip_pdu e) of Inr obj \<Rightarrow> obj | Inl _ \<Rightarrow> [])"

definition texts :: "bytes \<Rightarrow> jobj option" where
  "texts b = (if b = ''C'' then Some (canon ev_create) else if b = ''J'' then Some (canon ev_alice)
     else if b = ''T'' then Some (canon ev_topic) else if b = ''D'' then Some (canon ev_redaction) else None)"

definition text_of :: "jobj \<Rightarrow> bytes option" where
  "text_of obj = Some ''T''"

abbreviation rwire :: room_codecs where
  "rwire \<equiv> room_format texts text_of"

definition join_state :: state_ids where
  "join_state = [((''m.room.create'', ''''), ''$c''), ((''m.room.member'', ''@a:s''), ''$j'')]"

definition the_import :: import_room where
  "the_import = \<lparr>ir_room_id = ''!r:s'', ir_version = ''11'', ir_create_event_id = ''$c'',
     ir_events = [\<lparr>ie_event_id = ''$c'', ie_raw = ''C'', ie_depth = 0\<rparr>], ir_join_event_id = ''$j'', ir_join_raw = ''J'', ir_join_depth = 1,
     ir_state = join_state, ir_history_frontier = []\<rparr>"

definition se_create :: stored_event where
  "se_create = \<lparr>se_raw = ''C'', se_seq = 0, se_state_group_after = 0, se_depth = 0, se_rejected = None, se_history_idx = None,
     se_imported = True, se_relay = False\<rparr>"

definition se_join :: stored_event where
  "se_join = \<lparr>se_raw = ''J'', se_seq = 1, se_state_group_after = 1, se_depth = 1, se_rejected = None, se_history_idx = None,
     se_imported = True, se_relay = False\<rparr>"

definition joined_meta :: room_meta where
  "joined_meta = \<lparr>rm_version = ''11'', rm_create_event_id = ''$c'', rm_current_group = 1, rm_next_group = 2, rm_extremities = [''$j''],
     rm_history_frontier = [], rm_next_history_idx = 1, rm_gap_markers = []\<rparr>"

definition import_ctx :: apply_ctx where
  "import_ctx = ctx_put T_ROOM ''!r:s'' (enc (rc_meta rwire) joined_meta)
     (Room_Timeline.placed rwire ''!r:s'' ''$j'' se_join
       (ctx_put T_GROUP (room_u64_key ''!r:s'' 1) (enc (rc_group rwire) (full_group join_state))
         (ctx_put T_EVENT ''$c'' (enc (rc_event rwire) se_create) (room_ctx ROOM_SHARD [] 0))))"

lemma empty_room [simp]: "ctx_get (room_ctx s [] q) t k = None"
  by (simp add: room_ctx_get kv_get_def)

lemma decode_opt_enc [simp]: "decode_opt w c None = Inr None" "lossless c \<Longrightarrow> decode_opt w c (Some (enc c x)) = Inr (Some x)"
  by (simp_all add: decode_opt_def)

lemma aemit_run: "aemit p ctx = Inr (ctx_seq ctx + 1, snd (ctx_emit p ctx))"
  by (simp add: aemit_def ctx_emit_def Let_def)

lemmas room_runs = abind_def aseq_def aret_def alift_def aget_def aput_def aemit_run aget_typed_def

lemma run_import: "room_command_run rwire (Import the_import) (room_ctx ROOM_SHARD [] 0) = Inr (Accepted ''$j'' 1, import_ctx)"
  by (simp add: room_command_run_def apply_import_def import_known_def import_join_def import_finish_def the_import_def room_runs
      put_support_def put_event_def put_group_def put_meta_def emit_event_def put_timeline_def import_group_id_def
      import_ctx_def Room_Timeline.placed_def full_group_def se_create_def se_join_def joined_meta_def Let_def)

section \<open>The imported room\<close>

abbreviation jdb :: kv where "jdb \<equiv> committed import_ctx"
abbreviation jstore :: room_store where "jstore \<equiv> Local \<lparr>rd_shard = ROOM_SHARD, rd_engine = jdb\<rparr>"
abbreviation jctx :: apply_ctx where "jctx \<equiv> room_ctx ROOM_SHARD jdb 1"

lemma import_frame [simp]: "ctx_engine import_ctx = []" "ctx_shard import_ctx = ROOM_SHARD" "ctx_seq import_ctx = 1"
  by (simp_all add: import_ctx_def Room_Timeline.placed_def Let_def)

lemma jctx_get [simp]: "ctx_get jctx t k = ctx_get import_ctx t k"
  using committed_room(1)[of import_ctx 1 t k] by simp

lemma jstore_get [simp]: "rd_get \<lparr>rd_shard = ROOM_SHARD, rd_engine = jdb\<rparr> t k = ctx_get import_ctx t k"
  using serves_db[of ROOM_SHARD jdb 1] by (simp add: serves_def)

lemma import_rows:
  "ctx_get import_ctx T_EVENT e = (if e = ''$j'' then Some (enc (rc_event rwire) se_join)
     else if e = ''$c'' then Some (enc (rc_event rwire) se_create) else None)"
  "ctx_get import_ctx T_ROOM r = (if r = ''!r:s'' then Some (enc (rc_meta rwire) joined_meta) else None)"
  "ctx_get import_ctx T_GROUP (room_u64_key r i) = (if r = ''!r:s'' \<and> i = 1 then Some (enc (rc_group rwire) (full_group join_state)) else None)"
  by (simp_all add: import_ctx_def Room_Timeline.placed_def Let_def)

lemma jstore_reads:
  "rs_event rwire jstore ''$c'' = Inr (Some se_create)" "rs_event rwire jstore ''$j'' = Inr (Some se_join)" "rs_event rwire jstore ''$h'' = Inr None"
  "rs_meta rwire jstore ''!r:s'' = Inr (Some joined_meta)"
  "rs_group rwire jstore ''!r:s'' i = Inr (if i = 1 then Some (full_group join_state) else None)"
  "event_sync rwire jstore ''$c'' = Inr (Some se_create)" "event_sync rwire jstore ''$j'' = Inr (Some se_join)"
  by (simp_all add: rs_event_def rs_meta_def rs_group_def event_sync_def rs_typed_def rs_get_def import_rows del: room_tables)

lemma room_cmd_ok_import: "room_cmd_ok R rwire (room_ctx ROOM_SHARD [] 0) (Import the_import)"
  by (simp add: has_room_def room_next_def row_def next_group_of_def)

lemma history_joined: "room_history rwire (room_cmd_ok R rwire) ROOM_SHARD jdb 1 (ctx_emits import_ctx)"
  using history_extend[of rwire "room_cmd_ok R rwire" ROOM_SHARD "[]" 0 "[]", OF room_history.start room_cmd_ok_import run_import] by simp

lemma join_resolves: "resolve_group rwire jstore ''!r:s'' 1 = Some (Inr join_state)"
proof -
  have "overlay_groups [full_group join_state] = join_state"
    by (simp add: overlay_groups_def full_group_def collect_self join_state_def less_list_code less_char_def)
  then show ?thesis by (simp add: resolve_group_def group_chain.simps jstore_reads full_group_def)
qed

theorem state_groups_resolve_witness:
  "\<exists>gs. group_chain (rs_group rwire jstore ''!r:s'') (Some 1) [] = Some (Inr gs) \<and> 1 \<le> length gs \<and> length gs \<le> unat MAX_GROUP_CHAIN \<and>
     resolve_group rwire jstore ''!r:s'' 1 = Some (Inr (overlay_groups gs))"
  by (rule state_groups_resolve[OF room_format.room_wire_axioms history_joined[of rv_ruma]])
     (simp add: row_def import_rows del: room_tables)

section \<open>A topic\<close>

lemmas texts_eval = from_canonical_def canon_def to_canonical_def pdu_fields_def mk_event_def js_int_max_def sample_ruma_def
  de_opt_def de_string_def de_uint_def de_obj_def de_list_def de_hashes_def starts_with_def

lemma topic_text: "from_canonical rv_ruma (canon ev_topic) = Inr (ip_pdu ev_topic)"
  "from_canonical rv_ruma (canon ev_create) = Inr (ip_pdu ev_create)" "from_canonical rv_ruma (canon ev_alice) = Inr (ip_pdu ev_alice)"
  by (simp_all add: texts_eval ev_topic_def ev_create_def ev_alice_def)

lemma topic_rules:
  "check_auth_events V11 ev_topic (auth_entries [(ev_create, False), (ev_alice, False)]) = Inr ()"
  "check_state_dependent rv_ruma V11 ev_topic (state_map_get [((''m.room.create'', []), ev_create), ((''m.room.member'', ''@a:s''), ev_alice)]) = Inr ()"
  by code_simp+

lemma topic_verified: "verified_form rv_ruma [(''s'', [])] (canon ev_topic) V11 = Inr (canon ev_topic, ip_pdu ev_topic)"
proof -
  have "validate_pdu rv_ruma (canon ev_topic) V11 = Inr (ip_pdu ev_topic)"
    unfolding validate_pdu_def topic_text by (simp add: texts_eval ev_topic_def check_limits_def check_complete_def size_limits
        field_len_def strict_byte_limits_def room_id_is_create_event_id_def less_eq_room_version_def)
  moreover have "verify_event rv_ruma (canon ev_topic) V11 [(''s'', [])] = Inr Verified" by (simp add: verify_event_def sample_ruma_def)
  ultimately show ?thesis by (simp add: verified_form_def)
qed

lemma topic_id: "compute_event_id rv_ruma (canon ev_topic) V11 = Inr ''$h''"
  by (simp add: compute_event_id_def sample_ruma_def starts_with_def)

lemma ev_topic_simps [simp]: "ip_event_id ev_topic = ''$h''" "event_id ev_topic = ''$h''" "auth_events ev_topic = [''$c'', ''$j'']"
  "prev_events ev_topic = [''$j'']" "event_type ev_topic = ''m.room.topic''" "state_key ev_topic = Some []" "event_id ev_create = ''$c''" "event_id ev_alice = ''$j''"
  "state_pair ev_create = (''m.room.create'', [])" "state_pair ev_alice = (''m.room.member'', ''@a:s'')"
  by (simp_all add: ev_topic_def ev_create_def ev_alice_def state_pair_def mk_event_def event_id_def event_accessors)

lemma se_rows [simp]: "se_rejected se_create = None" "se_rejected se_join = None" "raw_of rwire = text_of"
  by (simp_all add: se_create_def se_join_def room_format_def)

lemma parse_rows: "parse_stored rv_ruma rwire ''$c'' se_create = Inr ev_create" "parse_stored rv_ruma rwire ''$j'' se_join = Inr ev_alice"
  by (simp_all add: parse_stored_def room_format_def texts_def se_create_def se_join_def topic_text)
     (simp_all add: ev_create_def ev_alice_def mk_event_def)

lemma topic_fetch: "fetch_event rv_ruma rwire jstore ev_topic ''$c'' = Some ev_create" "fetch_event rv_ruma rwire jstore ev_topic ''$j'' = Some ev_alice"
  by (simp_all add: fetch_event_def jstore_reads parse_rows)

lemma topic_refs:
  "fold_r (fetch_auth rv_ruma rwire jstore) [''$c'', ''$j''] ([], []) = Inr ([(ev_create, False), (ev_alice, False)], [])"
  "fold_r (prev_group rwire jstore) [''$j''] ([], []) = Inr ([1], [])"
  by (simp_all add: fetch_auth_def prev_group_def jstore_reads parse_rows) (simp_all add: se_create_def se_join_def)

lemma join_materializes: "materialize rv_ruma rwire jstore ''!r:s'' 1 = dret join_state"
  by (simp add: materialize_def join_resolves) (simp add: join_state_def sample_ruma_def starts_with_def)

lemma topic_view: "state_view_of V11 ev_topic join_state (fetch_event rv_ruma rwire jstore ev_topic) =
  Inr [((''m.room.create'', []), ev_create), ((''m.room.member'', ''@a:s''), ev_alice)]"
proof -
  have "bs_insert (''m.room.create'', []) (auth_types_of V11 ev_topic) = [(''m.room.create'', []), (''m.room.member'', ''@a:s''), (''m.room.power_levels'', [])]"
    by code_simp
  then show ?thesis by (simp add: state_view_of_def join_state_def topic_fetch less_list_code less_char_def)
qed

definition topic_cmd :: append_event where
  "topic_cmd = \<lparr>ae_room_id = ''!r:s'', ae_event_id = ''$h'', ae_raw = ''T'', ae_depth = 2, ae_rejected = None,
     ae_new_groups = [(2, delta_group 1 (full_group join_state) (''m.room.topic'', []) ''$h'')], ae_state_group_after = 2,
     ae_new_current_group = 2, ae_new_extremities = [''$h''], ae_next_group = 3, ae_create_version = None, ae_redacts = None, ae_relay = False\<rparr>"

lemma run_topic_relayed:
  "process_inner rv_ruma rwire [(''s'', [])] jstore (canon ev_topic) V11 ''!r:s'' False relay False None = Some (Inr (Propose (topic_cmd\<lparr>ae_relay := relay\<rparr>) None))"
proof -
  have e: "\<lparr>ip_event_id = ''$h'', ip_pdu = ip_pdu ev_topic\<rparr> = ev_topic" by (simp add: ev_topic_def mk_event_def)
  have n: "next_group_of (Some joined_meta) = 2" by (simp add: next_group_of_def joined_meta_def)
  have x: "extremities_after (Some joined_meta) ev_topic = [''$h'']" by (simp add: extremities_after_def joined_meta_def bs_of_def bs_extend_def)
  have ast: "auth_state rv_ruma rwire jstore V11 False (Some joined_meta) [(ev_create, False), (ev_alice, False)] =
      dret [((''m.room.create'', []), ev_create), ((''m.room.member'', ''@a:s''), ev_alice)]"
    by (simp add: auth_state_def create_event_in_auth_events_def bt_collect_def less_list_code less_char_def less_eq_room_version_def)
  have "state_after rwire jstore ''!r:s'' False ev_topic join_state 1 (2, []) = dret (bt_insert (''m.room.topic'', []) ''$h'' join_state, 2, 3,
      [(2, delta_group 1 (full_group join_state) (''m.room.topic'', []) ''$h'')])"
    by (simp add: state_after_def jstore_reads stored_def lift_err_def Let_def alloc_group_def MAX_GROUP_CHAIN_def)
      (simp add: full_group_def)
  then have "accept_event rv_ruma rwire jstore V11 ''!r:s'' False relay None (Some joined_meta) (canon ev_topic) ev_topic join_state 1 (2, []) =
      Some (Inr (Propose (topic_cmd\<lparr>ae_relay := relay\<rparr>) None))"
    by (simp add: accept_event_def x current_group_def dret_def Let_def raw_bytes_def text_of_def topic_cmd_def)
      (simp add: ev_topic_def mk_event_def)
  then have "authorise_event rv_ruma rwire jstore V11 ''!r:s'' False relay None (Some joined_meta) (canon ev_topic) ev_topic
      [(ev_create, False), (ev_alice, False)] [1] = Some (Inr (Propose (topic_cmd\<lparr>ae_relay := relay\<rparr>) None))"
    by (simp add: authorise_event_def topic_rules ast dret_def state_before_def join_materializes topic_view Let_def n)
  then show ?thesis
    by (simp add: process_inner_def topic_verified topic_id lift_err_def stored_def jstore_reads e topic_refs Let_def del: fold_r.simps)
qed

lemma run_topic: "process_inner rv_ruma rwire [(''s'', [])] jstore (canon ev_topic) V11 ''!r:s'' False False False None = Some (Inr (Propose topic_cmd None))"
  using run_topic_relayed[of False] by (simp add: topic_cmd_def)

theorem accepted_event_authorised_witness:
  "\<exists>event before. event_id event = ''$h'' \<and> auth_events event = [''$c'', ''$j''] \<and>
     prior_state rv_ruma rwire jstore V11 ''!r:s'' False [1] (fetch_event rv_ruma rwire jstore event) before \<and>
     check_state_dependent rv_ruma V11 event (full_view before (fetch_event rv_ruma rwire jstore event)) = Inr ()"
proof -
  have "ae_rejected topic_cmd = None" "ae_event_id topic_cmd = ''$h''" by (simp_all add: topic_cmd_def)
  with accepted_event_authorised[OF run_topic] obtain event prevs before where
    v: "verified_form rv_ruma [(''s'', [])] (canon ev_topic) V11 = Inr (canon ev_topic, ip_pdu event)" and e: "event_id event = ''$h''"
    and p: "fold_r (prev_group rwire jstore) (prev_events event) ([], []) = Inr (prevs, [])"
    and r: "prior_state rv_ruma rwire jstore V11 ''!r:s'' False prevs (fetch_event rv_ruma rwire jstore event) before"
      "check_state_dependent rv_ruma V11 event (full_view before (fetch_event rv_ruma rwire jstore event)) = Inr ()"
    by (auto simp: topic_verified)
  have "event = ev_topic" using v e topic_verified by (simp add: identified_pdu.equality event_id_def)
  then show ?thesis using p r topic_refs(2) by (intro exI[of _ ev_topic] exI[of _ before]) (simp del: fold_r.simps)
qed

theorem state_events_merge_no_fork_witness:
  "\<exists>event prevs. event_id event = ''$h'' \<and> fold_r (prev_group rwire jstore) (prev_events event) ([], []) = Inr (prevs, []) \<and>
     (is_state event \<longrightarrow> length prevs = 1)"
  using state_events_merge_no_fork[OF room_format.room_wire_axioms history_joined run_topic] by (simp add: topic_cmd_def)

lemma topic_room: "room_next rwire jctx ''!r:s'' = 2"
  by (simp add: room_next_def row_def import_rows next_group_of_def del: room_tables) (simp add: joined_meta_def)

lemma run_append: "\<exists>resp ctx'. room_command_run rwire (append_command b topic_cmd None) jctx = Inr (resp, ctx')"
  by (simp add: append_command_def room_command_run_def apply_append_def append_accepted_def append_meta_def room_runs topic_cmd_def
      put_event_def put_group_def put_meta_def emit_event_def put_timeline_def Let_def import_rows[unfolded room_tables])

theorem accepted_event_state_witness:
  "\<exists>event before ctx' m'. event_id event = ''$h'' \<and>
     resolve_group rwire (Local \<lparr>rd_shard = ROOM_SHARD, rd_engine = committed ctx'\<rparr>) ''!r:s'' 2 = Some (Inr (with_event event before)) \<and>
     rs_meta rwire (Local \<lparr>rd_shard = ROOM_SHARD, rd_engine = committed ctx'\<rparr>) ''!r:s'' = Inr (Some m') \<and>
     set (rm_extremities m') = insert ''$h'' ({''$j''} - set (prev_events event))"
proof -
  obtain resp ctx' where run: "room_command_run rwire (append_command True topic_cmd None) jctx = Inr (resp, ctx')" using run_append by blast
  have "unat (room_next rwire jctx ''!r:s'') + 3 < 2 ^ 64" "ae_rejected topic_cmd = None" "ae_event_id topic_cmd = ''$h''"
    "ae_state_group_after topic_cmd = 2" by (simp add: topic_room) (simp_all add: topic_cmd_def)
  moreover have "rm_extremities joined_meta = [''$j'']" by (simp add: joined_meta_def)
  ultimately obtain event before m' where "event_id event = ''$h''"
    "resolve_group rwire (Local \<lparr>rd_shard = ROOM_SHARD, rd_engine = committed ctx'\<rparr>) ''!r:s'' 2 = Some (Inr (with_event event before))"
    "rs_meta rwire (Local \<lparr>rd_shard = ROOM_SHARD, rd_engine = committed ctx'\<rparr>) ''!r:s'' = Inr (Some m')"
    "set (rm_extremities m') = insert ''$h'' ({''$j''} - set (prev_events event))"
    using accepted_event_state[OF room_format.room_wire_axioms history_joined _ run_topic _ run] by (auto simp: jstore_reads)
  then show ?thesis by (intro exI conjI)
qed

section \<open>An unlocked import\<close>

definition the_segment :: import_segment where
  "the_segment = \<lparr>is_room_id = ''!r:s'', is_events = [], is_state = [], is_timeline = [\<lparr>ie_event_id = ''$m'', ie_raw = ''M'', ie_depth = 5\<rparr>],
     is_frontier_add = []\<rparr>"

lemma run_segment: "\<exists>resp c1 resp2 c2. room_command_run rwire (ImportSegment the_segment) jctx = Inr (resp, c1) \<and> ctx_get c1 T_EVENT ''$h'' = None \<and>
    room_command_run rwire (append_command b topic_cmd None) c1 = Inr (resp2, c2)"
  by (simp add: append_command_def room_command_run_def apply_append_def append_accepted_def append_meta_def room_runs topic_cmd_def
      put_event_def put_group_def put_meta_def emit_event_def put_timeline_def Let_def import_rows[unfolded room_tables]
      apply_import_segment_def the_segment_def segment_event_def segment_finish_def get_event_def on_timeline_def)

theorem unlocked_segment_loses_snapshot_witness:
  "\<exists>c1 c2. row (rc_group rwire) c1 T_GROUP (room_u64_key ''!r:s'' 2) = Some (full_group []) \<and>
     row (rc_group rwire) c2 T_GROUP (room_u64_key ''!r:s'' 2) = Some (delta_group 1 (full_group join_state) (''m.room.topic'', []) ''$h'') \<and>
     points_at rwire 2 c1 ''$m'' \<and> points_at rwire 2 c2 ''$m''"
proof -
  have m: "\<not> on_timeline (row (rc_event rwire) jctx T_EVENT ''$m'')" by (simp add: row_def import_rows on_timeline_def del: room_tables)
  have seg: "is_timeline the_segment = [\<lparr>ie_event_id = ''$m'', ie_raw = ''M'', ie_depth = 5\<rparr>]" by (simp add: the_segment_def)
  obtain resp c1 resp2 c2 where run: "room_command_run rwire (ImportSegment the_segment) jctx = Inr (resp, c1)" "ctx_get c1 T_EVENT ''$h'' = None"
    "room_command_run rwire (append_command True topic_cmd None) c1 = Inr (resp2, c2)" using run_segment by blast
  have *: "unat (room_next rwire jctx ''!r:s'') + 3 < 2 ^ 64" "ae_rejected topic_cmd = None" "ae_event_id topic_cmd = ''$h''"
    "ae_new_groups topic_cmd = [(2, delta_group 1 (full_group join_state) (''m.room.topic'', []) ''$h'')]" "is_room_id the_segment = ''!r:s''"
    "Room_Types.is_state the_segment = []" by (simp add: topic_room) (simp_all add: topic_cmd_def the_segment_def)
  show ?thesis
    using unlocked_segment_loses_snapshot[OF room_format.room_wire_axioms history_joined *(1) run_topic *(2) _ run(1) *(5) _ run(3)] run(2) m
    unfolding topic_room by (auto simp: * seg simp del: room_tables)
qed

section \<open>Replay and timeline\<close>

lemma import_emits: "ctx_emits import_ctx = [(1, enc (rc_change rwire) (ChangeEvent ''!r:s'' ''$j''))]"
  by (simp add: import_ctx_def Room_Timeline.placed_def Let_def)

theorem change_stream_replayable_witness:
  "room_replay rwire \<lparr>rd_shard = ROOM_SHARD, rd_engine = jdb\<rparr> 0 10 = Inr [(1, enc (rc_change rwire) (ChangeEvent ''!r:s'' ''$j''))]"
  using change_stream_replayable[OF room_format.wire_seq history_joined[of rv_ruma], of 0 10] by (simp add: import_emits)

lemma history_import_ok: "room_history rwire (import_ok rwire) ROOM_SHARD jdb 1 (ctx_emits import_ctx)"
  using history_extend[of rwire "import_ok rwire" ROOM_SHARD "[]" 0 "[]", OF room_history.start _ run_import] by (simp add: on_timeline_def row_def)

theorem timeline_exact_witness:
  "ctx_get jctx T_ROOM_SEQ (room_u64_key ''!r:s'' 1) = Some ''$j'' \<and> (\<exists>se. row (rc_event rwire) jctx T_EVENT ''$j'' = Some se \<and> se_seq se = 1)"
proof -
  have "row (rc_event rwire) jctx T_EVENT ''$j'' = Some se_join" by (simp add: row_def import_rows del: room_tables)
  moreover have "ctx_get jctx T_ROOM_SEQ (room_u64_key ''!r:s'' 1) = Some ''$j''"
    unfolding jctx_get by (simp add: import_ctx_def Room_Timeline.placed_def Let_def)
  moreover note timeline_exact[OF room_format.room_wire_axioms history_import_ok, of "''$j''" 1 "''!r:s''"]
  ultimately show ?thesis by (auto simp: import_emits se_join_def simp del: room_tables)
qed

section \<open>A redaction\<close>

definition one_event :: "stored_event option \<Rightarrow> room_store" where
  "one_event se = Remote (\<lambda>_. Inr (Value (map_option (enc (rc_event rwire)) se)))"

definition se_text :: "bytes \<Rightarrow> stored_event" where
  "se_text b = se_create\<lparr>se_raw := b\<rparr>"

theorem redaction_order_irrelevant_witness:
  "redaction_directive rv_ruma rwire (one_event None) ''!r:s'' ev_redaction V11 [] (\<lambda>_. None) = Inr (Some (directive_encode (Pending ''$h'' False))) \<and>
   redaction_directive rv_ruma rwire (one_event (Some (se_text ''T''))) ''!r:s'' ev_redaction V11 [] (\<lambda>_. None) = Inr (Some (directive_encode (Applies ''$h''))) \<and>
   settle_pending rwire ''$x'' False ''T'' ''D'' = Inr (Some ''$x'')"
proof -
  have e: "event_id ev_redaction = ''$x''" "room_id ev_redaction = Some ''!r:s''" "sender ev_topic = sender ev_redaction" "room_id ev_topic = Some ''!r:s''"
    "content ev_redaction = [(''redacts'', JStr ''$h'')]"
    by (simp_all add: ev_redaction_def ev_topic_def)
  have t: "from_canonical rv_ruma (canon ev_redaction) = Inr (ip_pdu ev_redaction)" by (simp add: texts_eval ev_redaction_def)
  have p: "parse_stored rv_ruma rwire ''$h'' (se_text ''T'') = Inr ev_topic" "parse_stored rv_ruma rwire ''$x'' (se_text ''D'') = Inr ev_redaction"
    by (simp_all add: parse_stored_def room_format_def texts_def se_text_def topic_text t) (simp_all add: ev_topic_def ev_redaction_def mk_event_def)
  have r: "rs_event rwire (one_event (Some (se_text ''T''))) ''$h'' = Inr (Some (se_text ''T''))" "rs_event rwire (one_event None) ''$h'' = Inr None"
    by (simp_all add: rs_event_def rs_typed_def rs_get_def one_event_def)
  have m: "sender_may_redact rv_ruma ev_redaction V11 [] (\<lambda>_. None) = Inr False" by (simp add: sender_may_redact_def)
  have s: "se_rejected (se_text ''T'') = None" "se_raw (se_text b) = b" "event_id_ok rv_ruma ''$h''" for b
    by (simp_all add: se_text_def sample_ruma_def starts_with_def)
  show ?thesis
    using redaction_order_irrelevant[OF r(1) s(1) p(1) _ s(3) _ e(2) m r(2), of "se_text ''D''"] p(2) e by (simp add: s(2))
qed

end
