(* ===== verification/Room_Walk.thy ===== *)
theory Room_Walk
  imports Room_Alloc
begin

text \<open>
  The walks over the stored graph of a room that federation serves (\<open>lib.rs\<close> of the room server):
  \<open>/backfill\<close> and \<open>/get_missing_events\<close> follow \<open>prev_events\<close>, \<open>/event_auth\<close> follows \<open>auth_events\<close>.
\<close>

section \<open>Walking back\<close>

definition frontier_add ::
  "room_codecs \<Rightarrow> room_store \<Rightarrow> string btree_set \<Rightarrow> string \<Rightarrow> (u64 \<times> string) btree_set \<Rightarrow> room_error + (u64 \<times> string) btree_set" where
  "frontier_add C store seen eid frontier =
     (if eid \<in> set seen then Inr frontier
      else rbind (map_sum storage_err id (rs_event C store eid)) (\<lambda>found.
        case found of
          Some ev \<Rightarrow> if se_rejected ev = None then Inr (bs_insert (se_depth ev, eid) frontier) else Inr frontier
        | None \<Rightarrow> Inr frontier))"

text \<open>
  The loop takes the deepest entry of the frontier. Each round either yields an event, of which there
  are at most \<open>limit\<close>, or shrinks the frontier.
\<close>

function walk_loop ::
  "room_codecs \<Rightarrow> room_store \<Rightarrow> nat \<Rightarrow> u64 \<Rightarrow> (u64 \<times> string) btree_set \<Rightarrow> string btree_set \<Rightarrow> jobj list \<Rightarrow> room_error + jobj list" where
  "walk_loop C store limit min_depth frontier seen out =
     (if limit \<le> length out \<or> frontier = [] then Inr out
      else let eid = snd (last frontier); frontier = removeAll (last frontier) frontier in
        if eid \<in> set seen then walk_loop C store limit min_depth frontier seen out
        else let seen = bs_insert eid seen in
          rbind (map_sum storage_err id (rs_event C store eid)) (\<lambda>found.
          case found of
            None \<Rightarrow> walk_loop C store limit min_depth frontier seen out
          | Some s \<Rightarrow>
              if se_rejected s \<noteq> None \<or> se_depth s < min_depth
              then walk_loop C store limit min_depth frontier seen out
              else case object_of C (se_raw s) of
                     None \<Rightarrow> Inl (CodecError ''event'')
                   | Some raw \<Rightarrow> rbind (fold_r (frontier_add C store seen) (prev_event_ids raw) frontier) (\<lambda>frontier.
                       walk_loop C store limit min_depth frontier seen (out @ [raw]))))"
  by pat_completeness auto
termination
  by (relation "measures [\<lambda>(C, store, limit, min_depth, frontier, seen, out). limit - length out,
        \<lambda>(C, store, limit, min_depth, frontier, seen, out). length frontier]")
     (auto intro: length_removeAll_less)

declare walk_loop.simps [simp del]

definition walk_back ::
  "room_codecs \<Rightarrow> room_store \<Rightarrow> string list \<Rightarrow> string btree_set \<Rightarrow> nat \<Rightarrow> u64 \<Rightarrow> room_error + jobj list" where
  "walk_back C store seed stop limit min_depth =
     rbind (fold_r (frontier_add C store stop) seed []) (\<lambda>frontier.
       walk_loop C store limit min_depth frontier stop [])"

definition backfill :: "room_codecs \<Rightarrow> room_store \<Rightarrow> string list \<Rightarrow> nat \<Rightarrow> room_error + jobj list" where
  "backfill C store start limit = walk_back C store start [] limit 0"

definition missing_seed ::
  "room_codecs \<Rightarrow> room_store \<Rightarrow> string \<Rightarrow> string btree_set \<times> string list \<Rightarrow> room_error + string btree_set \<times> string list" where
  "missing_seed C store eid = (\<lambda>(stop, seed).
     rbind (load_raw C store eid) (\<lambda>found.
       case found of
         None \<Rightarrow> Inr (bs_insert eid stop, seed)
       | Some raw \<Rightarrow> Inr (bs_insert eid stop, seed @ prev_event_ids raw)))"

definition get_missing_events ::
  "room_codecs \<Rightarrow> room_store \<Rightarrow> string list \<Rightarrow> string list \<Rightarrow> nat \<Rightarrow> u64 \<Rightarrow> room_error + jobj list" where
  "get_missing_events C store earliest latest limit min_depth =
     rbind (fold_r (missing_seed C store) latest (bs_of earliest, [])) (\<lambda>(stop, seed).
     rbind (walk_back C store seed stop limit min_depth) (\<lambda>events. Inr (rev events)))"

section \<open>Auth chains\<close>

text \<open>The top of the stack is its head. A store that never runs out of new references keeps the loop going.\<close>

partial_function (option) chain_loop ::
  "room_codecs \<Rightarrow> room_store \<Rightarrow> string list \<Rightarrow> string btree_set \<Rightarrow> jobj list \<Rightarrow> (room_error + jobj list) option" where
  "chain_loop C store stack seen chain =
     (case stack of
        [] \<Rightarrow> Some (Inr chain)
      | eid # stack \<Rightarrow>
          if eid \<in> set seen then chain_loop C store stack seen chain
          else (case load_raw C store eid of
                  Inl e \<Rightarrow> Some (Inl e)
                | Inr None \<Rightarrow> chain_loop C store stack (bs_insert eid seen) chain
                | Inr (Some obj) \<Rightarrow>
                    chain_loop C store
                      (fold (\<lambda>a stack. if a \<in> set (bs_insert eid seen) then stack else a # stack) (auth_event_ids obj) stack)
                      (bs_insert eid seen) (chain @ [obj])))"

definition collect_auth_chain :: "room_codecs \<Rightarrow> room_store \<Rightarrow> string btree_set \<Rightarrow> (room_error + jobj list) option" where
  "collect_auth_chain C store seed = chain_loop C store (rev seed) [] []"

definition event_auth_chain :: "room_codecs \<Rightarrow> room_store \<Rightarrow> string \<Rightarrow> (room_error + jobj list option) option" where
  "event_auth_chain C store eid =
     dbind (Some (load_raw C store eid)) (\<lambda>found.
       case found of
         None \<Rightarrow> dret None
       | Some event \<Rightarrow> dbind (collect_auth_chain C store (bs_of (auth_event_ids event))) (\<lambda>chain. dret (Some chain)))"

section \<open>The stored graph\<close>

text \<open>
  The events a store holds, read without an error: \<open>stored_obj\<close> is the text of one, \<open>readable\<close> says
  that every one can be read.
\<close>

definition readable :: "room_codecs \<Rightarrow> room_store \<Rightarrow> bool" where
  "readable C store \<longleftrightarrow> (\<forall>eid. \<exists>found. rs_event C store eid = Inr found
     \<and> (\<forall>s. found = Some s \<longrightarrow> object_of C (se_raw s) \<noteq> None))"

definition held :: "room_codecs \<Rightarrow> room_store \<Rightarrow> string \<Rightarrow> stored_event option" where
  "held C store eid = (case rs_event C store eid of Inr found \<Rightarrow> found | Inl _ \<Rightarrow> None)"

definition held_obj :: "room_codecs \<Rightarrow> room_store \<Rightarrow> string \<Rightarrow> jobj" where
  "held_obj C store eid = the (object_of C (se_raw (the (held C store eid))))"

lemma read_held: "readable C store \<Longrightarrow> rs_event C store eid = Inr (held C store eid)"
  unfolding readable_def held_def by (metis old.sum.simps(6))

lemma held_text:
  assumes "readable C store" and "held C store eid = Some s"
  shows "object_of C (se_raw s) = Some (held_obj C store eid)"
proof -
  from assms(1) obtain found where "rs_event C store eid = Inr found" "\<forall>s. found = Some s \<longrightarrow> object_of C (se_raw s) \<noteq> None"
    unfolding readable_def by blast
  then show ?thesis using assms(2) by (auto simp: held_def held_obj_def)
qed

lemma load_held:
  "readable C store \<Longrightarrow> load_raw C store eid = Inr (case held C store eid of None \<Rightarrow> None | Some _ \<Rightarrow> Some (held_obj C store eid))"
  by (simp add: load_raw_def read_held held_text split: option.split)

text \<open>Which events a walk may serve: held, not rejected, and deep enough.\<close>

definition servable :: "room_codecs \<Rightarrow> room_store \<Rightarrow> u64 \<Rightarrow> string \<Rightarrow> bool" where
  "servable C store min_depth eid \<longleftrightarrow>
     (case held C store eid of Some s \<Rightarrow> se_rejected s = None \<and> min_depth \<le> se_depth s | None \<Rightarrow> False)"

text \<open>The events between the seeds and the stops, along predecessors that may be served.\<close>

inductive_set walked :: "room_codecs \<Rightarrow> room_store \<Rightarrow> string set \<Rightarrow> string set \<Rightarrow> u64 \<Rightarrow> string set"
  for C store seed stop min_depth where
  walked_seed: "eid \<in> seed \<Longrightarrow> eid \<notin> stop \<Longrightarrow> servable C store min_depth eid \<Longrightarrow> eid \<in> walked C store seed stop min_depth"
| walked_prev: "a \<in> walked C store seed stop min_depth \<Longrightarrow> eid \<in> set (prev_event_ids (held_obj C store a)) \<Longrightarrow> eid \<notin> stop
    \<Longrightarrow> servable C store min_depth eid \<Longrightarrow> eid \<in> walked C store seed stop min_depth"

definition walk_key :: "room_codecs \<Rightarrow> room_store \<Rightarrow> string \<Rightarrow> u64 \<times> string" where
  "walk_key C store eid = (se_depth (the (held C store eid)), eid)"

text \<open>Depths that grow from every event to its successors.\<close>

definition depths_grow :: "room_codecs \<Rightarrow> room_store \<Rightarrow> bool" where
  "depths_grow C store \<longleftrightarrow> (\<forall>a b s t. held C store a = Some s \<longrightarrow> b \<in> set (prev_event_ids (held_obj C store a))
     \<longrightarrow> held C store b = Some t \<longrightarrow> se_depth t < se_depth s)"

section \<open>The frontier\<close>

definition admitted :: "room_codecs \<Rightarrow> room_store \<Rightarrow> string set \<Rightarrow> string list \<Rightarrow> (u64 \<times> string) set" where
  "admitted C store seen ids = {walk_key C store i | i s. i \<in> set ids \<and> i \<notin> seen \<and> held C store i = Some s \<and> se_rejected s = None}"

lemma frontier_adds:
  assumes "readable C store"
  shows "\<exists>f'. fold_r (frontier_add C store seen) ids f = Inr f' \<and> set f' = set f \<union> admitted C store (set seen) ids
    \<and> (bs_wf f \<longrightarrow> bs_wf f')"
proof (induction ids arbitrary: f)
  case Nil
  show ?case by (simp add: admitted_def)
next
  case (Cons i ids)
  let ?add = "i \<notin> set seen \<and> (\<exists>s. held C store i = Some s \<and> se_rejected s = None)"
  let ?g = "if ?add then bs_insert (walk_key C store i) f else f"
  have step: "frontier_add C store seen i f = Inr ?g"
    by (auto simp: frontier_add_def read_held[OF assms] walk_key_def split: option.split)
  have "admitted C store (set seen) (i # ids) = (if ?add then {walk_key C store i} else {}) \<union> admitted C store (set seen) ids"
    by (auto simp: admitted_def)
  moreover obtain f' where "fold_r (frontier_add C store seen) ids ?g = Inr f'"
    "set f' = set ?g \<union> admitted C store (set seen) ids" "bs_wf ?g \<longrightarrow> bs_wf f'"
    using Cons.IH[of ?g] by blast
  ultimately show ?case using step by (intro exI[of _ f']) (auto split: if_splits)
qed

lemma last_max: "bs_wf (f :: 'a::linorder list) \<Longrightarrow> x \<in> set f \<Longrightarrow> x \<le> last f"
  by (induction f) (auto intro: less_imp_le)


section \<open>What a walk returns\<close>

text \<open>
  Between two rounds: the events yielded so far, in the order of the walk; the frontier holds events that
  are not rejected; whatever else may be served is behind the frontier.
\<close>

definition walk_inv ::
  "room_codecs \<Rightarrow> room_store \<Rightarrow> string set \<Rightarrow> string set \<Rightarrow> u64 \<Rightarrow> (u64 \<times> string) list \<Rightarrow> string list \<Rightarrow> string list \<Rightarrow> bool" where
  "walk_inv C store seed stop min_depth f seen ids \<longleftrightarrow>
     bs_wf f \<and> distinct ids \<and> set ids \<subseteq> walked C store seed stop min_depth \<and> set ids \<subseteq> set seen
   \<and> (\<forall>i \<in> set seen. i \<in> set ids \<or> i \<in> stop \<or> \<not> servable C store min_depth i)
   \<and> stop \<subseteq> set seen
   \<and> (\<forall>e \<in> set f. \<exists>s. e = walk_key C store (snd e) \<and> held C store (snd e) = Some s \<and> se_rejected s = None
        \<and> (servable C store min_depth (snd e) \<and> snd e \<notin> stop \<longrightarrow> snd e \<in> walked C store seed stop min_depth))
   \<and> (\<forall>i. (i \<in> seed \<or> (\<exists>a \<in> set ids. i \<in> set (prev_event_ids (held_obj C store a)))) \<longrightarrow> i \<notin> stop
        \<longrightarrow> servable C store min_depth i \<longrightarrow> i \<in> set ids \<or> walk_key C store i \<in> set f)
   \<and> (depths_grow C store \<longrightarrow> sorted_wrt (>) (map (walk_key C store) ids)
        \<and> (\<forall>a \<in> set ids. \<forall>e \<in> set f. e < walk_key C store a))"

lemma walk_invD:
  assumes "walk_inv C store seed stop min_depth f seen ids"
  shows "bs_wf f" "distinct ids" "set ids \<subseteq> walked C store seed stop min_depth" "set ids \<subseteq> set seen"
    "i \<in> set seen \<Longrightarrow> i \<in> set ids \<or> i \<in> stop \<or> \<not> servable C store min_depth i" "stop \<subseteq> set seen"
    "e \<in> set f \<Longrightarrow> \<exists>s. e = walk_key C store (snd e) \<and> held C store (snd e) = Some s \<and> se_rejected s = None
        \<and> (servable C store min_depth (snd e) \<and> snd e \<notin> stop \<longrightarrow> snd e \<in> walked C store seed stop min_depth)"
    "i \<in> seed \<or> (\<exists>a \<in> set ids. i \<in> set (prev_event_ids (held_obj C store a))) \<Longrightarrow> i \<notin> stop
        \<Longrightarrow> servable C store min_depth i \<Longrightarrow> i \<in> set ids \<or> walk_key C store i \<in> set f"
    "depths_grow C store \<Longrightarrow> sorted_wrt (>) (map (walk_key C store) ids)"
    "depths_grow C store \<Longrightarrow> a \<in> set ids \<Longrightarrow> e \<in> set f \<Longrightarrow> e < walk_key C store a"
  using assms unfolding walk_inv_def by blast+

lemma walk_inv_start:
  assumes "set f = admitted C store stop ids0" and "bs_wf f" and "set seen = stop" and "seed = set ids0"
  shows "walk_inv C store seed stop min_depth f seen []"
  unfolding walk_inv_def
  using assms by (auto simp: admitted_def walk_key_def servable_def intro: walked_seed split: option.splits)

lemma walk_inv_skip:
  assumes inv: "walk_inv C store seed stop min_depth f seen ids" and e: "e \<in> set f"
    and dead: "snd e \<in> set seen \<or> \<not> servable C store min_depth (snd e)" and seen': "set seen' = insert (snd e) (set seen)"
  shows "walk_inv C store seed stop min_depth (removeAll e f) seen' ids"
proof -
  note I = walk_invD[OF inv]
  have key: "e = walk_key C store (snd e)" using I(7)[OF e] by blast
  have drop: "walk_key C store i \<in> set (removeAll e f) \<or> i \<in> set ids"
    if "i \<notin> stop" "servable C store min_depth i" "i \<in> set ids \<or> walk_key C store i \<in> set f" for i
    using that dead I(5)[of i] key by (auto simp: walk_key_def)
  show ?thesis
    unfolding walk_inv_def
  proof (intro conjI)
    show "bs_wf (removeAll e f)" using I(1) by (simp add: removeAll_filter_not_eq)
    show "\<forall>i \<in> set seen'. i \<in> set ids \<or> i \<in> stop \<or> \<not> servable C store min_depth i" using seen' dead I(5) by auto
    show "\<forall>i. (i \<in> seed \<or> (\<exists>a \<in> set ids. i \<in> set (prev_event_ids (held_obj C store a)))) \<longrightarrow> i \<notin> stop
        \<longrightarrow> servable C store min_depth i \<longrightarrow> i \<in> set ids \<or> walk_key C store i \<in> set (removeAll e f)"
      using I(8) drop by blast
  qed (use I seen' in auto)
qed

lemma walk_inv_take:
  assumes inv: "walk_inv C store seed stop min_depth f seen ids" and f: "f \<noteq> []" and e: "e = last f"
    and live: "snd e \<notin> set seen" "servable C store min_depth (snd e)"
    and seen': "set seen' = insert (snd e) (set seen)"
    and f': "set f' = set (removeAll e f) \<union> admitted C store (set seen') (prev_event_ids (held_obj C store (snd e)))"
    and wf: "bs_wf f'"
  shows "walk_inv C store seed stop min_depth f' seen' (ids @ [snd e])"
proof -
  note I = walk_invD[OF inv]
  have ef: "e \<in> set f" using e f by simp
  obtain s where key: "e = walk_key C store (snd e)" and s: "held C store (snd e) = Some s"
    and W: "snd e \<in> walked C store seed stop min_depth"
    using I(7)[OF ef] I(6) live by blast
  have new: "walk_key C store i \<in> set f' \<or> i \<in> set ids \<or> i = snd e"
    if "servable C store min_depth i" "i \<notin> stop" "i \<in> set (prev_event_ids (held_obj C store (snd e)))" for i
    using that f' seen' I(5)[of i] by (auto simp: admitted_def servable_def split: option.splits)
  have old: "walk_key C store i \<in> set f' \<or> i \<in> set ids \<or> i = snd e"
    if "i \<in> seed \<or> (\<exists>a \<in> set ids. i \<in> set (prev_event_ids (held_obj C store a)))" "i \<notin> stop" "servable C store min_depth i" for i
    using I(8)[OF that] key f' by (auto simp: walk_key_def)
  have below: "x < e" if g: "depths_grow C store" and x: "x \<in> set f'" for x
  proof (cases "x \<in> set f")
    case True
    then have "x \<le> e" using last_max[OF I(1)] e by simp
    moreover have "x \<noteq> e \<or> x \<in> admitted C store (set seen') (prev_event_ids (held_obj C store (snd e)))"
      using x f' by auto
    moreover have "e \<notin> admitted C store (set seen') (prev_event_ids (held_obj C store (snd e)))"
      using seen' by (auto simp: admitted_def walk_key_def)
    ultimately show ?thesis by auto
  next
    case False
    then obtain i t where "x = walk_key C store i" "i \<in> set (prev_event_ids (held_obj C store (snd e)))" "held C store i = Some t"
      using x f' by (auto simp: admitted_def)
    then show ?thesis
      using g s key unfolding depths_grow_def by (metis less_prod_simp option.sel walk_key_def)
  qed
  show ?thesis
    unfolding walk_inv_def
  proof (intro conjI)
    show "\<forall>e' \<in> set f'. \<exists>s. e' = walk_key C store (snd e') \<and> held C store (snd e') = Some s \<and> se_rejected s = None
        \<and> (servable C store min_depth (snd e') \<and> snd e' \<notin> stop \<longrightarrow> snd e' \<in> walked C store seed stop min_depth)"
    proof
      fix x assume "x \<in> set f'"
      then consider "x \<in> set f" | i s where "x = walk_key C store i" "held C store i = Some s" "se_rejected s = None"
          "i \<in> set (prev_event_ids (held_obj C store (snd e)))"
        using f' by (auto simp: admitted_def)
      then show "\<exists>s. x = walk_key C store (snd x) \<and> held C store (snd x) = Some s \<and> se_rejected s = None
        \<and> (servable C store min_depth (snd x) \<and> snd x \<notin> stop \<longrightarrow> snd x \<in> walked C store seed stop min_depth)"
      proof cases
        case 1
        then show ?thesis by (rule I(7))
      next
        case 2
        then show ?thesis using walked_prev[OF W] by (auto simp: walk_key_def)
      qed
    qed
    show "\<forall>i. (i \<in> seed \<or> (\<exists>a \<in> set (ids @ [snd e]). i \<in> set (prev_event_ids (held_obj C store a)))) \<longrightarrow> i \<notin> stop
        \<longrightarrow> servable C store min_depth i \<longrightarrow> i \<in> set (ids @ [snd e]) \<or> walk_key C store i \<in> set f'"
      using new old by auto
    show "depths_grow C store \<longrightarrow> sorted_wrt (>) (map (walk_key C store) (ids @ [snd e]))
        \<and> (\<forall>a \<in> set (ids @ [snd e]). \<forall>x \<in> set f'. x < walk_key C store a)"
    proof (intro impI conjI ballI)
      assume g: "depths_grow C store"
      show "sorted_wrt (>) (map (walk_key C store) (ids @ [snd e]))"
        using I(9)[OF g] I(10)[OF g _ ef] key by (auto simp: sorted_wrt_append)
      fix a x assume a: "a \<in> set (ids @ [snd e])" and x: "x \<in> set f'"
      have "e \<le> walk_key C store a" using a I(10)[OF g _ ef, of a] key by auto
      then show "x < walk_key C store a" using below[OF g x] by simp
    qed
  qed (use I live W wf seen' in auto)
qed

lemma walked_behind:
  assumes inv: "walk_inv C store seed stop min_depth f seen ids" and w: "i \<in> walked C store seed stop min_depth"
  shows "i \<in> set ids \<or> f \<noteq> []"
    and "depths_grow C store \<Longrightarrow> i \<in> set ids \<or> (\<exists>e \<in> set f. walk_key C store i \<le> e)"
proof -
  note I = walk_invD[OF inv]
  from w show "i \<in> set ids \<or> f \<noteq> []" by induction (use I(8) in fastforce)+
  assume g: "depths_grow C store"
  from w show "i \<in> set ids \<or> (\<exists>e \<in> set f. walk_key C store i \<le> e)"
  proof induction
    case (walked_seed i)
    then show ?case using I(8)[of i] by blast
  next
    case (walked_prev a i)
    from walked_prev.IH show ?case
    proof
      assume "a \<in> set ids"
      then show ?thesis using I(8)[of i] walked_prev by blast
    next
      assume "\<exists>e \<in> set f. walk_key C store a \<le> e"
      then obtain e where e: "e \<in> set f" "walk_key C store a \<le> e" by blast
      obtain s t where "held C store a = Some s" "held C store i = Some t"
        using walked_prev.hyps by (auto elim: walked.cases simp: servable_def split: option.splits)
      then have "se_depth t < se_depth s" using g walked_prev.hyps(2) unfolding depths_grow_def by blast
      then have "walk_key C store i < walk_key C store a"
        using \<open>held C store a = Some s\<close> \<open>held C store i = Some t\<close> by (simp add: walk_key_def less_prod_def)
      then show ?thesis using e by (meson less_le_trans less_imp_le)
    qed
  qed
qed


definition walk_result ::
  "room_codecs \<Rightarrow> room_store \<Rightarrow> string set \<Rightarrow> string set \<Rightarrow> nat \<Rightarrow> u64 \<Rightarrow> string list \<Rightarrow> bool" where
  "walk_result C store seed stop limit min_depth ids \<longleftrightarrow>
     distinct ids \<and> length ids \<le> limit \<and> set ids \<subseteq> walked C store seed stop min_depth
   \<and> (length ids < limit \<longrightarrow> set ids = walked C store seed stop min_depth)
   \<and> (depths_grow C store \<longrightarrow> sorted_wrt (>) (map (walk_key C store) ids)
        \<and> (\<forall>i \<in> walked C store seed stop min_depth - set ids. \<forall>a \<in> set ids. walk_key C store i < walk_key C store a))"

lemma walk_inv_result:
  assumes inv: "walk_inv C store seed stop min_depth f seen ids" and stop: "limit \<le> length ids \<or> f = []" and len: "length ids \<le> limit"
  shows "walk_result C store seed stop limit min_depth ids"
proof -
  note I = walk_invD[OF inv]
  have all: "set ids = walked C store seed stop min_depth" if "length ids < limit"
    using I(3) walked_behind(1)[OF inv] stop that by auto
  have "walk_key C store i < walk_key C store a"
    if g: "depths_grow C store" and i: "i \<in> walked C store seed stop min_depth - set ids" and a: "a \<in> set ids" for i a
    using walked_behind(2)[OF inv _ g, of i] i I(10)[OF g a] by fastforce
  then show ?thesis using all I len unfolding walk_result_def by blast
qed

lemma walk_loop_exact:
  assumes "readable C store" and "walk_inv C store seed stop min_depth f seen ids"
    and "out = map (held_obj C store) ids" and "length ids \<le> limit"
  shows "\<exists>ids. walk_loop C store limit min_depth f seen out = Inr (map (held_obj C store) ids)
    \<and> walk_result C store seed stop limit min_depth ids"
  using assms
proof (induction C store limit min_depth f seen out arbitrary: ids rule: walk_loop.induct)
  case (1 C store limit min_depth f seen out)
  note IH = "1.IH" and inv = "1.prems"(2) and out = "1.prems"(3)
  let ?e = "last f" and ?f = "removeAll (last f) f" and ?seen = "bs_insert (snd (last f)) seen"
  show ?case
  proof (cases "limit \<le> length out \<or> f = []")
    case True
    then show ?thesis
      using walk_inv_result[OF inv _ "1.prems"(4)] out by (subst walk_loop.simps) (auto intro!: exI[of _ ids])
  next
    case False
    then have f: "f \<noteq> []" and e: "?e \<in> set f" and len: "length ids < limit" using out by auto
    obtain s where s: "held C store (snd ?e) = Some s" "se_rejected s = None"
      using walk_invD(7)[OF inv e] by blast
    have rd: "map_sum storage_err id (rs_event C store (snd ?e)) = Inr (Some s)"
      using read_held[OF "1.prems"(1)] s(1) by simp
    consider "snd ?e \<in> set seen" | "snd ?e \<notin> set seen" "se_depth s < min_depth" | "snd ?e \<notin> set seen" "\<not> se_depth s < min_depth"
      by blast
    then show ?thesis
    proof cases
      case a: 1
      have "walk_inv C store seed stop min_depth ?f seen ids"
        by (rule walk_inv_skip[OF inv e]) (use a in auto)
      from IH(1)[OF False refl refl a "1.prems"(1) this out "1.prems"(4)] show ?thesis
        using False a by (subst walk_loop.simps) (simp add: Let_def)
    next
      case a: 2
      have "walk_inv C store seed stop min_depth ?f ?seen ids"
        by (rule walk_inv_skip[OF inv e]) (use a s in \<open>auto simp: servable_def\<close>)
      from IH(3)[OF False refl refl a(1) refl rd refl _ "1.prems"(1) this out "1.prems"(4)] show ?thesis
        using False a rd by (subst walk_loop.simps) (simp add: Let_def)
    next
      case a: 3
      have srv: "servable C store min_depth (snd ?e)" using s a(2) by (simp add: servable_def)
      have obj: "object_of C (se_raw s) = Some (held_obj C store (snd ?e))" by (rule held_text[OF "1.prems"(1) s(1)])
      obtain f' where f': "fold_r (frontier_add C store ?seen) (prev_event_ids (held_obj C store (snd ?e))) ?f = Inr f'"
        "set f' = set ?f \<union> admitted C store (set ?seen) (prev_event_ids (held_obj C store (snd ?e)))" "bs_wf ?f \<longrightarrow> bs_wf f'"
        using frontier_adds[OF "1.prems"(1)] by blast
      have "bs_wf f'" using f'(3) walk_invD(1)[OF inv] by (simp add: removeAll_filter_not_eq)
      then have inv': "walk_inv C store seed stop min_depth f' ?seen (ids @ [snd ?e])"
        by (intro walk_inv_take[OF inv f refl a(1) srv]) (use f'(2) in auto)
      have "\<exists>ids'. walk_loop C store limit min_depth f' ?seen (out @ [held_obj C store (snd ?e)]) = Inr (map (held_obj C store) ids')
          \<and> walk_result C store seed stop limit min_depth ids'"
        by (rule IH(4)[OF False refl refl a(1) refl rd refl _ obj f'(1) "1.prems"(1) inv']) (use s a len out in auto)
      then show ?thesis
        using False a rd s obj f'(1) by (subst walk_loop.simps) (simp add: Let_def)
    qed
  qed
qed

lemma walk_back_result:
  assumes "readable C store"
  shows "\<exists>ids. walk_back C store seed stop limit min_depth = Inr (map (held_obj C store) ids)
    \<and> walk_result C store (set seed) (set stop) limit min_depth ids"
proof -
  obtain f where f: "fold_r (frontier_add C store stop) seed [] = Inr f" "set f = admitted C store (set stop) seed" "bs_wf f"
    using frontier_adds[OF assms, of stop seed "[]"] by auto
  have "walk_inv C store (set seed) (set stop) min_depth f stop []"
    by (rule walk_inv_start[OF f(2,3)]) simp_all
  from walk_loop_exact[OF assms this, of "[]" limit] show ?thesis using f(1) by (simp add: walk_back_def)
qed


definition prevs_of :: "room_codecs \<Rightarrow> room_store \<Rightarrow> string \<Rightarrow> string list" where
  "prevs_of C store eid = (case held C store eid of None \<Rightarrow> [] | Some _ \<Rightarrow> prev_event_ids (held_obj C store eid))"

lemma missing_seeds:
  assumes "readable C store"
  shows "\<exists>stop' seed'. fold_r (missing_seed C store) latest (stop, seed) = Inr (stop', seed') \<and> set stop' = set stop \<union> set latest
    \<and> set seed' = set seed \<union> (\<Union>l \<in> set latest. set (prevs_of C store l))"
proof (induction latest arbitrary: stop seed)
  case Nil
  show ?case by simp
next
  case (Cons l ls)
  have step: "missing_seed C store l (stop, seed) = Inr (bs_insert l stop, seed @ prevs_of C store l)"
    by (simp add: missing_seed_def load_held[OF assms] prevs_of_def split: option.split)
  show ?case using Cons.IH[of "bs_insert l stop" "seed @ prevs_of C store l"] by (auto simp: step)
qed

section \<open>What an auth chain holds\<close>

inductive_set auth_closure :: "room_codecs \<Rightarrow> room_store \<Rightarrow> string set \<Rightarrow> string set" for C store seed where
  closure_seed: "eid \<in> seed \<Longrightarrow> held C store eid \<noteq> None \<Longrightarrow> eid \<in> auth_closure C store seed"
| closure_auth: "a \<in> auth_closure C store seed \<Longrightarrow> eid \<in> set (auth_event_ids (held_obj C store a))
    \<Longrightarrow> held C store eid \<noteq> None \<Longrightarrow> eid \<in> auth_closure C store seed"

definition chain_inv :: "room_codecs \<Rightarrow> room_store \<Rightarrow> string set \<Rightarrow> string list \<Rightarrow> string list \<Rightarrow> string list \<Rightarrow> bool" where
  "chain_inv C store seed stack seen ids \<longleftrightarrow>
     distinct ids \<and> (\<forall>i. i \<in> set ids \<longleftrightarrow> i \<in> set seen \<and> held C store i \<noteq> None) \<and> set ids \<subseteq> auth_closure C store seed
   \<and> (\<forall>i \<in> set stack. held C store i \<noteq> None \<longrightarrow> i \<in> auth_closure C store seed)
   \<and> (\<forall>i. i \<in> seed \<or> (\<exists>a \<in> set ids. i \<in> set (auth_event_ids (held_obj C store a))) \<longrightarrow> i \<in> set seen \<union> set stack)"

lemma chain_invD:
  assumes "chain_inv C store seed stack seen ids"
  shows "distinct ids" "i \<in> set ids \<longleftrightarrow> i \<in> set seen \<and> held C store i \<noteq> None" "set ids \<subseteq> auth_closure C store seed"
    "i \<in> set stack \<Longrightarrow> held C store i \<noteq> None \<Longrightarrow> i \<in> auth_closure C store seed"
    "i \<in> seed \<Longrightarrow> i \<in> set seen \<union> set stack"
    "a \<in> set ids \<Longrightarrow> i \<in> set (auth_event_ids (held_obj C store a)) \<Longrightarrow> i \<in> set seen \<union> set stack"
  using assms unfolding chain_inv_def by blast+

lemma chain_inv_done:
  assumes "chain_inv C store seed [] seen ids"
  shows "set ids = auth_closure C store seed"
proof
  note I = chain_invD[OF assms]
  show "auth_closure C store seed \<subseteq> set ids"
  proof
    fix i assume "i \<in> auth_closure C store seed"
    then show "i \<in> set ids" by induction (use I(2,5,6) in auto)
  qed
  show "set ids \<subseteq> auth_closure C store seed" by (rule I(3))
qed

lemma push_new_set: "set (fold (\<lambda>a stack. if a \<in> S then stack else a # stack) as stack) = set stack \<union> (set as - S)"
  by (induction as arbitrary: stack) auto

lemma chain_inv_seen:
  "chain_inv C store seed (i # stack) seen ids \<Longrightarrow> i \<in> set seen \<Longrightarrow> chain_inv C store seed stack seen ids"
  unfolding chain_inv_def by (simp only: list.set) blast

lemma chain_inv_absent:
  "chain_inv C store seed (i # stack) seen ids \<Longrightarrow> held C store i = None \<Longrightarrow> chain_inv C store seed stack (bs_insert i seen) ids"
  unfolding chain_inv_def by (simp only: list.set set_bs_insert) blast

lemma chain_inv_take:
  assumes inv: "chain_inv C store seed (i # stack) seen ids" and i: "i \<notin> set seen" "held C store i \<noteq> None"
    and stack': "set stack' = set stack \<union> (set (auth_event_ids (held_obj C store i)) - insert i (set seen))"
  shows "chain_inv C store seed stack' (bs_insert i seen) (ids @ [i])"
proof -
  have "i \<in> auth_closure C store seed" using inv i(2) by (auto simp: chain_inv_def)
  then have "\<forall>j \<in> set stack'. held C store j \<noteq> None \<longrightarrow> j \<in> auth_closure C store seed"
    using inv stack' closure_auth[of i C store seed] by (auto simp: chain_inv_def)
  moreover have "j \<in> set (bs_insert i seen) \<union> set stack'"
    if "j \<in> seed \<or> (\<exists>a \<in> set (ids @ [i]). j \<in> set (auth_event_ids (held_obj C store a)))" for j
    using inv that stack' unfolding chain_inv_def by (simp only: list.set set_bs_insert set_append) blast
  ultimately show ?thesis
    using inv i \<open>i \<in> auth_closure C store seed\<close> unfolding chain_inv_def by auto
qed

text \<open>Each round pops the stack, or finds one more of the finitely many events the store holds.\<close>

lemma chain_loop_exact:
  assumes rd: "readable C store" and fin: "finite {i. held C store i \<noteq> None}"
    and "chain_inv C store seed stack seen ids"
  shows "\<exists>ids'. chain_loop C store stack seen (map (held_obj C store) ids) = Some (Inr (map (held_obj C store) ids'))
    \<and> distinct ids' \<and> set ids' = auth_closure C store seed"
  using assms(3)
proof (induction "card ({i. held C store i \<noteq> None} - set seen)" arbitrary: stack seen ids rule: less_induct)
  case outer: less
  from outer.prems outer.hyps show ?case
  proof (induction stack arbitrary: seen)
    case Nil
    then show ?case
      using chain_inv_done[OF Nil.prems(1)] chain_invD(1)[OF Nil.prems(1)]
      by (subst chain_loop.simps) (auto intro!: exI[of _ ids])
  next
    case (Cons i stack)
    note inv = Cons.prems(1)
    consider "i \<in> set seen" | "i \<notin> set seen" "held C store i = None" | s where "i \<notin> set seen" "held C store i = Some s"
      by (cases "held C store i") auto
    then show ?case
    proof cases
      case 1
      then show ?thesis
        using Cons.IH[OF chain_inv_seen[OF inv 1] Cons.prems(2)] by (subst chain_loop.simps) simp
    next
      case 2
      have "{j. held C store j \<noteq> None} - set (bs_insert i seen) = {j. held C store j \<noteq> None} - set seen"
        using 2 by auto
      then show ?thesis
        using Cons.IH[OF chain_inv_absent[OF inv 2(2)]] Cons.prems(2) 2
        by (subst chain_loop.simps) (simp add: load_held[OF rd])
    next
      case 3
      let ?stack = "fold (\<lambda>a stack. if a \<in> set (bs_insert i seen) then stack else a # stack) (auth_event_ids (held_obj C store i)) stack"
      have "card ({j. held C store j \<noteq> None} - set (bs_insert i seen)) < card ({j. held C store j \<noteq> None} - set seen)"
        by (intro psubset_card_mono finite_Diff fin) (use 3 in auto)
      moreover have "chain_inv C store seed ?stack (bs_insert i seen) (ids @ [i])"
        by (rule chain_inv_take[OF inv 3(1)]) (use 3 in \<open>simp_all only: push_new_set set_bs_insert\<close>, simp)
      ultimately have "\<exists>ids'. chain_loop C store ?stack (bs_insert i seen) (map (held_obj C store) (ids @ [i])) =
          Some (Inr (map (held_obj C store) ids')) \<and> distinct ids' \<and> set ids' = auth_closure C store seed"
        by (rule Cons.prems(2))
      then show ?thesis using 3 by (subst chain_loop.simps) (simp add: load_held[OF rd])
    qed
  qed
qed

lemma collect_auth_chain_result:
  assumes "readable C store" and "finite {i. held C store i \<noteq> None}"
  shows "\<exists>ids. collect_auth_chain C store seed = Some (Inr (map (held_obj C store) ids))
    \<and> distinct ids \<and> set ids = auth_closure C store (set seed)"
proof -
  have "chain_inv C store (set seed) (rev seed) [] []" by (auto simp: chain_inv_def intro: closure_seed)
  from chain_loop_exact[OF assms this] show ?thesis by (simp add: collect_auth_chain_def)
qed

text \<open>A store on the hosting node holds finitely many events.\<close>

lemma finite_keys: "finite {k. rd_get ctx t k \<noteq> None}"
proof -
  have "inj_on (ctx_key (rd_shard ctx) t) UNIV" by (rule inj_onI) simp
  moreover have "ctx_key (rd_shard ctx) t ` {k. rd_get ctx t k \<noteq> None} \<subseteq> dom (map_of (rd_engine ctx))"
    by (auto simp: rd_get_def kv_get_def dom_def)
  ultimately show ?thesis by (metis finite_dom_map_of finite_imageD finite_subset inj_on_subset subset_UNIV)
qed

lemma finite_held: "finite {i. held C (Local ctx) i \<noteq> None}"
proof (rule finite_subset[OF _ finite_keys[of ctx T_EVENT]])
  show "{i. held C (Local ctx) i \<noteq> None} \<subseteq> {k. rd_get ctx T_EVENT k \<noteq> None}"
    by (auto simp: held_def rs_event_def rs_typed_def rs_get_def decode_opt_def split: sum.splits option.splits)
qed


section \<open>Properties\<close>

text \<open>
  C24: \<open>/get_missing_events\<close> always answers. It returns distinct events, at most \<open>limit\<close>, each an ancestor
  of \<open>latest\<close> that is held, not rejected and deep enough, reached without crossing \<open>earliest\<close> or
  \<open>latest\<close>; when fewer than \<open>limit\<close> come back, all of them did. If depths grow along the graph they are
  ordered oldest first and are the deepest of all the candidates.
\<close>

theorem missing_events_exact:
  assumes "readable C store"
  shows "\<exists>ids. get_missing_events C store earliest latest limit min_depth = Inr (map (held_obj C store) (rev ids))
    \<and> walk_result C store (\<Union>l \<in> set latest. set (prevs_of C store l)) (set earliest \<union> set latest) limit min_depth ids"
proof -
  obtain stop seed where s: "fold_r (missing_seed C store) latest (bs_of earliest, []) = Inr (stop, seed)"
    "set stop = set earliest \<union> set latest" "set seed = (\<Union>l \<in> set latest. set (prevs_of C store l))"
    using missing_seeds[OF assms, of latest "bs_of earliest" "[]"] by auto
  obtain ids where "walk_back C store seed stop limit min_depth = Inr (map (held_obj C store) ids)"
    "walk_result C store (set seed) (set stop) limit min_depth ids"
    using walk_back_result[OF assms] by blast
  then show ?thesis using s by (auto simp: get_missing_events_def rev_map intro!: exI[of _ ids])
qed

text \<open>
  On the node that hosts the shard \<open>/event_auth\<close> always answers for a stored event: with every event
  that its references reach through stored events, each once, and nothing else.
\<close>

theorem event_auth_chain_exact:
  assumes "readable C (Local ctx)" and "held C (Local ctx) eid \<noteq> None"
  shows "\<exists>ids. event_auth_chain C (Local ctx) eid = Some (Inr (Some (map (held_obj C (Local ctx)) ids)))
    \<and> distinct ids \<and> set ids = auth_closure C (Local ctx) (set (auth_event_ids (held_obj C (Local ctx) eid)))"
  using collect_auth_chain_result[OF assms(1) finite_held, of "bs_of (auth_event_ids (held_obj C (Local ctx) eid))"] assms(2)
  by (auto simp: event_auth_chain_def load_held[OF assms(1)] dret_def)

end
