(* ===== verification/Room_Import.thy ===== *)
theory Room_Import
  imports Room_Walk
begin

text \<open>
  What the room server imports from other servers: the state dump of a \<open>send_join\<close>, pages of
  history, and segments recovered past a gap (\<open>import_room\<close>, \<open>import_history\<close> and
  \<open>import_segment\<close> of \<open>lib.rs\<close>). Each builds the command that the shard applies.
\<close>

definition uint_prop :: "jobj \<Rightarrow> string \<Rightarrow> u64" where
  "uint_prop obj k = (case bt_get obj k of Some (JInt i) \<Rightarrow> if 0 \<le> i then of_int i else 0 | _ \<Rightarrow> 0)"

definition state_entry :: "jobj \<Rightarrow> (string \<times> string) option" where
  "state_entry obj =
     (case (str_of obj ''type'', bt_get obj ''state_key'') of
        (Inr ty, Some (JStr sk)) \<Rightarrow> Some (ty, sk)
      | _ \<Rightarrow> None)"

definition event_id_of :: "room_version ruma \<Rightarrow> jobj \<Rightarrow> room_version \<Rightarrow> room_error + string" where
  "event_id_of R obj v = map_sum FormatError id (compute_event_id R obj v)"

section \<open>Joining through another server\<close>

definition push_event ::
  "room_version ruma \<Rightarrow> room_codecs \<Rightarrow> room_version \<Rightarrow> jobj \<Rightarrow> import_event list \<times> string btree_set \<times> state_ids
     \<Rightarrow> room_error + import_event list \<times> string btree_set \<times> state_ids" where
  "push_event R C v obj = (\<lambda>(events, seen, state_map).
     rbind (event_id_of R obj v) (\<lambda>eid.
     rbind (if eid \<in> set seen then Inr events
            else rbind (raw_bytes C obj) (\<lambda>raw.
              Inr (events @ [\<lparr>ie_event_id = eid, ie_raw = raw, ie_depth = uint_prop obj ''depth''\<rparr>]))) (\<lambda>events.
       Inr (events, bs_insert eid seen,
            case state_entry obj of Some k \<Rightarrow> bt_insert k eid state_map | None \<Rightarrow> state_map))))"

definition import_room_cmd ::
  "room_version ruma \<Rightarrow> room_codecs \<Rightarrow> room_version \<Rightarrow> jobj \<Rightarrow> jobj list \<Rightarrow> jobj list \<Rightarrow> room_error + import_room" where
  "import_room_cmd R C v join state auth_objs =
     rbind (event_id_of R join v) (\<lambda>join_id.
     rbind (str_of join ''room_id'') (\<lambda>rid.
     rbind (fold_r (push_event R C v) (auth_objs @ state) ([], [], [])) (\<lambda>(events, seen, state_map).
     rbind (str_of join ''sender'') (\<lambda>sndr.
     let state_map = bt_insert (''m.room.member'', sndr) join_id state_map;
         frontier = filter (\<lambda>i. i \<notin> set seen) (prev_event_ids join) in
     rbind (ok_or (MalformedEvent ''send_join state has no create event'') (bt_get state_map (''m.room.create'', []))) (\<lambda>create_id.
     rbind (raw_bytes C join) (\<lambda>raw.
       Inr \<lparr>ir_room_id = rid, ir_version = version_str v, ir_create_event_id = create_id, ir_events = events,
            ir_join_event_id = join_id, ir_join_raw = raw, ir_join_depth = uint_prop join ''depth'',
            ir_state = state_map, ir_history_frontier = frontier\<rparr>))))))"

definition import_outcome :: "room_version ruma \<Rightarrow> room_response \<Rightarrow> room_error + outcome" where
  "import_outcome R resp =
     (let parse_id = (\<lambda>s. if event_id_ok R s then Inr s else Inl (MalformedEvent ''event id'')) in
      case resp of
        Accepted eid seq \<Rightarrow> rbind (parse_id eid) (\<lambda>eid. Inr (OutAccepted eid seq))
      | Duplicate eid \<Rightarrow> rbind (parse_id eid) (\<lambda>eid. Inr (OutDuplicate eid))
      | _ \<Rightarrow> Inl (CodecError ''unexpected import response''))"

section \<open>Pages of history\<close>

definition history_item ::
  "room_version ruma \<Rightarrow> room_codecs \<Rightarrow> room_version \<Rightarrow> string \<Rightarrow> jobj \<Rightarrow> (u64 \<times> u64 \<times> string \<times> bytes) list \<times> string btree_set
     \<Rightarrow> room_error + (u64 \<times> u64 \<times> string \<times> bytes) list \<times> string btree_set" where
  "history_item R C v rid obj = (\<lambda>(events, seen).
     if (case bt_get obj ''room_id'' of Some (JStr r) \<Rightarrow> r \<noteq> rid | _ \<Rightarrow> False) then Inr (events, seen)
     else case compute_event_id R obj v of
            Inl _ \<Rightarrow> Inr (events, seen)
          | Inr eid \<Rightarrow>
              if eid \<in> set seen then Inr (events, seen)
              else rbind (raw_bytes C obj) (\<lambda>raw.
                Inr (events @ [(uint_prop obj ''depth'', uint_prop obj ''origin_server_ts'', eid, raw)], bs_insert eid seen)))"

definition newest_first :: "(u64 \<times> u64 \<times> string \<times> bytes) list \<Rightarrow> (u64 \<times> u64 \<times> string \<times> bytes) list" where
  "newest_first = sort_key (\<lambda>(depth, ts, eid, _). Reverse (depth, ts, eid))"

definition import_history_cmd ::
  "room_version ruma \<Rightarrow> room_codecs \<Rightarrow> room_store \<Rightarrow> string \<Rightarrow> jobj list \<Rightarrow> room_error + import_history" where
  "import_history_cmd R C store rid pdus =
     rbind (map_sum storage_err id (rs_meta C store rid)) (\<lambda>meta.
     rbind (ok_or (MalformedEvent (''history import: unknown room '' @ rid)) meta) (\<lambda>meta.
     rbind (map_sum VersionError id (parse_version (rm_version meta))) (\<lambda>v.
     rbind (fold_r (history_item R C v rid) pdus ([], [])) (\<lambda>(events, _).
       Inr \<lparr>ih_room_id = rid,
            ih_events = map (\<lambda>(depth, _, eid, raw). \<lparr>ie_event_id = eid, ie_raw = raw, ie_depth = depth\<rparr>) (newest_first events)\<rparr>))))"

section \<open>Segments past a gap\<close>

definition fetched_auth :: "room_version ruma \<Rightarrow> room_version \<Rightarrow> jobj list \<Rightarrow> (string, string list) btree_map" where
  "fetched_auth R v objs =
     fold (\<lambda>obj m. case compute_event_id R obj v of Inr eid \<Rightarrow> bt_insert eid (auth_event_ids obj) m | Inl _ \<Rightarrow> m) objs []"

text \<open>
  Whether every reference behind an event is part of the fetch or stored. The verdicts are kept between
  calls. The top of \<open>pending\<close> is its head.
\<close>

function resolvable_loop ::
  "room_codecs \<Rightarrow> room_store \<Rightarrow> (string, string list) btree_map \<Rightarrow> string \<Rightarrow> string list \<Rightarrow> string btree_set
     \<Rightarrow> (string, bool) btree_map \<Rightarrow> bool \<times> (string, bool) btree_map" where
  "resolvable_loop C store fetched seed [] visiting verdict = (True, fold (\<lambda>i. bt_insert i True) visiting verdict)"
| "resolvable_loop C store fetched seed (i # pending) visiting verdict =
     (if bt_get verdict i = Some False then (False, bt_insert seed False verdict)
      else if bt_get verdict i \<noteq> None \<or> i \<in> set visiting then resolvable_loop C store fetched seed pending visiting verdict
      else case bt_get fetched i of
             Some refs \<Rightarrow> resolvable_loop C store fetched seed (rev refs @ pending) (bs_insert i visiting) verdict
           | None \<Rightarrow>
               (case rs_event C store i of
                  Inr (Some _) \<Rightarrow> resolvable_loop C store fetched seed pending (bs_insert i visiting) (bt_insert i True verdict)
                | _ \<Rightarrow> (False, bt_insert seed False (bt_insert i False verdict))))"
  by pat_completeness auto
termination
proof (relation "measures [\<lambda>(C, store, fetched, seed, pending, visiting, verdict). card (dom (bt_get fetched) - set visiting),
      \<lambda>(C, store, fetched, seed, pending, visiting, verdict). length pending]")
  fix C :: room_codecs and store :: room_store and fetched :: "(string, string list) btree_map" and seed i :: string
    and pending refs :: "string list" and visiting :: "string btree_set" and verdict :: "(string, bool) btree_map"
  assume "\<not> (bt_get verdict i \<noteq> None \<or> i \<in> set visiting)" and "bt_get fetched i = Some refs"
  then have "card (dom (bt_get fetched) - set (bs_insert i visiting)) < card (dom (bt_get fetched) - set visiting)"
    by (intro psubset_card_mono finite_Diff finite_dom_map_of) auto
  then show "((C, store, fetched, seed, rev refs @ pending, bs_insert i visiting, verdict), (C, store, fetched, seed, i # pending, visiting, verdict))
    \<in> measures [\<lambda>(C, store, fetched, seed, pending, visiting, verdict). card (dom (bt_get fetched) - set visiting),
      \<lambda>(C, store, fetched, seed, pending, visiting, verdict). length pending]" by simp
next
  fix C :: room_codecs and store :: room_store and fetched :: "(string, string list) btree_map" and seed i :: string
    and pending :: "string list" and visiting :: "string btree_set" and verdict :: "(string, bool) btree_map"
  assume "bt_get fetched i = None"
  then have "dom (bt_get fetched) - set (bs_insert i visiting) = dom (bt_get fetched) - set visiting" by auto
  then show "((C, store, fetched, seed, pending, bs_insert i visiting, bt_insert i True verdict), (C, store, fetched, seed, i # pending, visiting, verdict))
    \<in> measures [\<lambda>(C, store, fetched, seed, pending, visiting, verdict). card (dom (bt_get fetched) - set visiting),
      \<lambda>(C, store, fetched, seed, pending, visiting, verdict). length pending]" by simp
qed auto

definition resolvable ::
  "room_codecs \<Rightarrow> room_store \<Rightarrow> (string, string list) btree_map \<Rightarrow> (string, bool) btree_map \<Rightarrow> string \<Rightarrow> bool \<times> (string, bool) btree_map" where
  "resolvable C store fetched verdict seed = resolvable_loop C store fetched seed [seed] [] verdict"

definition import_event_of :: "room_version ruma \<Rightarrow> room_codecs \<Rightarrow> room_version \<Rightarrow> jobj \<Rightarrow> import_event option" where
  "import_event_of R C v obj =
     (case (compute_event_id R obj v, raw_bytes C obj) of
        (Inr eid, Inr raw) \<Rightarrow> Some \<lparr>ie_event_id = eid, ie_raw = raw, ie_depth = uint_prop obj ''depth''\<rparr>
      | _ \<Rightarrow> None)"

record snapshot_acc =
  sa_events :: "import_event list"
  sa_seen :: "string btree_set"
  sa_state :: state_ids
  sa_verdict :: "(string, bool) btree_map"

definition segment_item ::
  "room_version ruma \<Rightarrow> room_codecs \<Rightarrow> room_store \<Rightarrow> room_version \<Rightarrow> (string, string list) btree_map \<Rightarrow> bool \<times> jobj \<Rightarrow> snapshot_acc \<Rightarrow> snapshot_acc" where
  "segment_item R C store v fetched = (\<lambda>(state_list, obj) acc.
     case import_event_of R C v obj of
       None \<Rightarrow> acc
     | Some ev \<Rightarrow>
         let r = resolvable C store fetched (sa_verdict acc) (ie_event_id ev); acc = acc\<lparr>sa_verdict := snd r\<rparr> in
         if \<not> fst r then acc
         else let acc = (if state_list
                         then case state_entry obj of
                                Some k \<Rightarrow> acc\<lparr>sa_state := bt_insert k (ie_event_id ev) (sa_state acc)\<rparr>
                              | None \<Rightarrow> acc
                         else acc) in
              if ie_event_id ev \<in> set (sa_seen acc) then acc
              else acc\<lparr>sa_events := sa_events acc @ [ev], sa_seen := bs_insert (ie_event_id ev) (sa_seen acc)\<rparr>)"

definition segment_frontier :: "room_version ruma \<Rightarrow> room_codecs \<Rightarrow> room_version \<Rightarrow> jobj list \<Rightarrow> string list" where
  "segment_frontier R C v chain =
     (case chain of
        obj # _ \<Rightarrow> if import_event_of R C v obj \<noteq> None then prev_event_ids obj else []
      | [] \<Rightarrow> [])"

definition import_segment_cmd ::
  "room_version ruma \<Rightarrow> room_codecs \<Rightarrow> room_store \<Rightarrow> string \<Rightarrow> jobj list \<Rightarrow> jobj list \<Rightarrow> jobj list \<Rightarrow> room_error + import_segment" where
  "import_segment_cmd R C store rid state auth_objs chain =
     rbind (map_sum storage_err id (rs_meta C store rid)) (\<lambda>meta.
     rbind (ok_or (MalformedEvent (''segment import: unknown room '' @ rid)) meta) (\<lambda>meta.
     rbind (map_sum VersionError id (parse_version (rm_version meta))) (\<lambda>v.
     let fetched = fetched_auth R v (auth_objs @ state @ chain);
         acc = fold (segment_item R C store v fetched) (map (Pair False) auth_objs @ map (Pair True) state)
           \<lparr>sa_events = [], sa_seen = [], sa_state = [], sa_verdict = []\<rparr> in
     Inr \<lparr>is_room_id = rid, is_events = sa_events acc, is_state = sa_state acc,
          is_timeline = List.map_filter (import_event_of R C v) chain,
          is_frontier_add = segment_frontier R C v chain\<rparr>)))"

section \<open>Verdicts\<close>

text \<open>
  The references of the fetch. An event is \<open>known\<close> when it is fetched or stored; its chain is complete when
  everything its references reach is.
\<close>

definition ref_edge :: "(string, string list) btree_map \<Rightarrow> (string \<times> string) set" where
  "ref_edge fetched = {(a, b). \<exists>refs. bt_get fetched a = Some refs \<and> b \<in> set refs}"

definition known :: "room_codecs \<Rightarrow> room_store \<Rightarrow> (string, string list) btree_map \<Rightarrow> string \<Rightarrow> bool" where
  "known C store fetched i \<longleftrightarrow> bt_get fetched i \<noteq> None \<or> held C store i \<noteq> None"

definition chain_complete :: "room_codecs \<Rightarrow> room_store \<Rightarrow> (string, string list) btree_map \<Rightarrow> string \<Rightarrow> bool" where
  "chain_complete C store fetched i \<longleftrightarrow> (\<forall>j. (i, j) \<in> (ref_edge fetched)\<^sup>* \<longrightarrow> known C store fetched j)"

definition verdicts_sound :: "room_codecs \<Rightarrow> room_store \<Rightarrow> (string, string list) btree_map \<Rightarrow> (string, bool) btree_map \<Rightarrow> bool" where
  "verdicts_sound C store fetched verdict \<longleftrightarrow> (\<forall>i b. bt_get verdict i = Some b \<longrightarrow> b = chain_complete C store fetched i)"

lemma incomplete_back:
  "(i, j) \<in> (ref_edge fetched)\<^sup>* \<Longrightarrow> \<not> chain_complete C store fetched j \<Longrightarrow> \<not> chain_complete C store fetched i"
  unfolding chain_complete_def by (meson rtrancl_trans)

lemma held_known: "held C store i \<noteq> None \<longleftrightarrow> (\<exists>s. rs_event C store i = Inr (Some s))"
  by (auto simp: held_def split: sum.splits)

lemma stored_complete:
  assumes "bt_get fetched i = None" and "held C store i \<noteq> None"
  shows "chain_complete C store fetched i"
proof -
  have "j = i" if "(i, j) \<in> (ref_edge fetched)\<^sup>*" for j
    using that assms(1) by (auto simp: ref_edge_def elim: converse_rtranclE)
  then show ?thesis using assms(2) by (auto simp: chain_complete_def known_def)
qed

text \<open>A set of known events that the references do not leave, but for complete ones, is complete.\<close>

lemma closed_complete:
  assumes i: "i \<in> S" and known: "\<And>a. a \<in> S \<Longrightarrow> known C store fetched a"
    and closed: "\<And>a b. a \<in> S \<Longrightarrow> (a, b) \<in> ref_edge fetched \<Longrightarrow> b \<in> S \<or> chain_complete C store fetched b"
  shows "chain_complete C store fetched i"
proof -
  have "j \<in> S \<or> chain_complete C store fetched j" if "(i, j) \<in> (ref_edge fetched)\<^sup>*" for j
    using that
  proof induction
    case base
    show ?case using i by simp
  next
    case (step a b)
    then show ?case using closed[of a b] by (auto simp: chain_complete_def intro: converse_rtrancl_into_rtrancl)
  qed
  then show ?thesis using known by (auto simp: chain_complete_def)
qed

definition visit_ok ::
  "room_codecs \<Rightarrow> room_store \<Rightarrow> (string, string list) btree_map \<Rightarrow> string \<Rightarrow> string list \<Rightarrow> string list \<Rightarrow> (string, bool) btree_map \<Rightarrow> bool" where
  "visit_ok C store fetched seed pending visiting verdict \<longleftrightarrow>
     verdicts_sound C store fetched verdict
   \<and> (\<forall>i \<in> set pending. (seed, i) \<in> (ref_edge fetched)\<^sup>*)
   \<and> (\<forall>i \<in> set visiting. (seed, i) \<in> (ref_edge fetched)\<^sup>* \<and> known C store fetched i
        \<and> (\<forall>j. (i, j) \<in> ref_edge fetched \<longrightarrow> j \<in> set visiting \<union> set pending \<or> bt_get verdict j = Some True))
   \<and> (seed \<in> set visiting \<union> set pending \<or> bt_get verdict seed = Some True)"

lemma visit_okD:
  assumes "visit_ok C store fetched seed pending visiting verdict"
  shows "verdicts_sound C store fetched verdict" "i \<in> set pending \<Longrightarrow> (seed, i) \<in> (ref_edge fetched)\<^sup>*"
    "i \<in> set visiting \<Longrightarrow> (seed, i) \<in> (ref_edge fetched)\<^sup>*" "i \<in> set visiting \<Longrightarrow> known C store fetched i"
    "i \<in> set visiting \<Longrightarrow> (i, j) \<in> ref_edge fetched \<Longrightarrow> j \<in> set visiting \<union> set pending \<or> bt_get verdict j = Some True"
    "seed \<in> set visiting \<union> set pending \<or> bt_get verdict seed = Some True"
  using assms unfolding visit_ok_def by blast+

lemma verdicts_insert:
  "verdicts_sound C store fetched verdict \<Longrightarrow> b = chain_complete C store fetched i \<Longrightarrow> verdicts_sound C store fetched (bt_insert i b verdict)"
  unfolding verdicts_sound_def by auto

lemma verdicts_true: "verdicts_sound C store fetched verdict \<Longrightarrow> bt_get verdict i = Some True \<Longrightarrow> chain_complete C store fetched i"
  unfolding verdicts_sound_def by blast

lemma verdicts_insert_all:
  "verdicts_sound C store fetched verdict \<Longrightarrow> \<forall>i \<in> set ids. chain_complete C store fetched i
    \<Longrightarrow> verdicts_sound C store fetched (fold (\<lambda>i. bt_insert i True) ids verdict)"
  by (induction ids arbitrary: verdict) (auto intro: verdicts_insert)

lemma visit_ok_skip:
  assumes ok: "visit_ok C store fetched seed (i # pending) visiting verdict"
    and i: "bt_get verdict i = Some True \<or> i \<in> set visiting"
  shows "visit_ok C store fetched seed pending visiting verdict"
  unfolding visit_ok_def using visit_okD[OF ok] i by fastforce

lemma visit_ok_fetched:
  assumes ok: "visit_ok C store fetched seed (i # pending) visiting verdict" and i: "bt_get fetched i = Some refs"
  shows "visit_ok C store fetched seed (rev refs @ pending) (bs_insert i visiting) verdict"
proof -
  note V = visit_okD[OF ok]
  have edge: "(i, j) \<in> ref_edge fetched \<longleftrightarrow> j \<in> set refs" for j using i by (simp add: ref_edge_def)
  have "(seed, j) \<in> (ref_edge fetched)\<^sup>*" if "j \<in> set refs" for j
    using V(2)[of i] that edge by (meson list.set_intros(1) rtrancl.rtrancl_into_rtrancl)
  moreover have "known C store fetched i" using i by (simp add: known_def)
  ultimately show ?thesis unfolding visit_ok_def using V edge by fastforce
qed

lemma visit_ok_stored:
  assumes ok: "visit_ok C store fetched seed (i # pending) visiting verdict"
    and i: "bt_get fetched i = None" "held C store i \<noteq> None"
  shows "visit_ok C store fetched seed pending (bs_insert i visiting) (bt_insert i True verdict)"
proof -
  note V = visit_okD[OF ok]
  have no: "(i, j) \<notin> ref_edge fetched" for j using i(1) by (simp add: ref_edge_def)
  have found: "j \<in> set (bs_insert i visiting) \<union> set pending \<or> bt_get (bt_insert i True verdict) j = Some True"
    if "j \<in> set visiting \<union> set (i # pending) \<or> bt_get verdict j = Some True" for j using that by auto
  show ?thesis
    unfolding visit_ok_def
  proof (intro conjI ballI allI impI)
    show "verdicts_sound C store fetched (bt_insert i True verdict)"
      by (rule verdicts_insert[OF V(1)]) (use stored_complete[OF i] in simp)
    fix k assume "k \<in> set (bs_insert i visiting)"
    then consider "k = i" | "k \<in> set visiting" by auto
    note k = this
    show "(seed, k) \<in> (ref_edge fetched)\<^sup>*" by (rule k) (use V(2,3) in auto)
    show "known C store fetched k" by (rule k) (use V(4) i in \<open>auto simp: known_def\<close>)
    fix j assume "(k, j) \<in> ref_edge fetched"
    then show "j \<in> set (bs_insert i visiting) \<union> set pending \<or> bt_get (bt_insert i True verdict) j = Some True"
      using k no found V(5) by metis
  qed (use V(2) found[OF V(6)] in auto)
qed

lemma visit_ok_done:
  assumes ok: "visit_ok C store fetched seed [] visiting verdict"
  shows "chain_complete C store fetched seed" and "verdicts_sound C store fetched (fold (\<lambda>i. bt_insert i True) visiting verdict)"
proof -
  note V = visit_okD[OF ok]
  have all: "chain_complete C store fetched i" if "i \<in> set visiting" for i
    using closed_complete[OF that, of C store fetched] V(4,5) verdicts_true[OF V(1)] by fastforce
  then show "chain_complete C store fetched seed" using V(6) verdicts_true[OF V(1)] by auto
  show "verdicts_sound C store fetched (fold (\<lambda>i. bt_insert i True) visiting verdict)"
    using verdicts_insert_all[OF V(1)] all by blast
qed

lemma resolvable_loop_exact:
  "visit_ok C store fetched seed pending visiting verdict \<Longrightarrow>
     fst (resolvable_loop C store fetched seed pending visiting verdict) = chain_complete C store fetched seed
   \<and> verdicts_sound C store fetched (snd (resolvable_loop C store fetched seed pending visiting verdict))"
proof (induction C store fetched seed pending visiting verdict rule: resolvable_loop.induct)
  case (1 C store fetched seed visiting verdict)
  then show ?case using visit_ok_done[OF "1.prems"] by simp
next
  case (2 C store fetched seed i pending visiting verdict)
  note V = visit_okD[OF "2.prems"]
  have bad: "\<not> chain_complete C store fetched seed" if "\<not> chain_complete C store fetched i"
    using incomplete_back[OF V(2) that] by simp
  show ?case
  proof (cases "bt_get verdict i = Some False")
    case True
    then have "\<not> chain_complete C store fetched i" using V(1) by (auto simp: verdicts_sound_def)
    then show ?thesis using True bad V(1) by (simp add: verdicts_insert)
  next
    case ok: False
    show ?thesis
    proof (cases "bt_get verdict i \<noteq> None \<or> i \<in> set visiting")
      case True
      then have "visit_ok C store fetched seed pending visiting verdict"
        by (intro visit_ok_skip[OF "2.prems"]) (use ok in auto)
      then show ?thesis using "2.IH"(1)[OF ok True] ok True by simp
    next
      case new: False
      consider refs where "bt_get fetched i = Some refs" | s where "bt_get fetched i = None" "rs_event C store i = Inr (Some s)"
        | "bt_get fetched i = None" "held C store i = None"
        by (cases "bt_get fetched i"; cases "held C store i") (auto simp: held_def split: sum.splits)
      then show ?thesis
      proof cases
        case 1
        then show ?thesis using "2.IH"(3)[OF ok new 1 visit_ok_fetched[OF "2.prems" 1]] ok new by simp
      next
        case a: 2
        then have "held C store i \<noteq> None" by (simp add: held_def)
        from "2.IH"(2)[OF ok new a(1,2) refl visit_ok_stored[OF "2.prems" a(1) this]] show ?thesis using a ok new by simp
      next
        case a: 3
        then have "\<not> chain_complete C store fetched i" by (auto simp: chain_complete_def known_def)
        moreover have "resolvable_loop C store fetched seed (i # pending) visiting verdict =
            (False, bt_insert seed False (bt_insert i False verdict))"
          using a ok new by (auto simp: held_def split: sum.split option.split)
        ultimately show ?thesis using bad V(1) by (simp add: verdicts_insert)
      qed
    qed
  qed
qed

lemma resolvable_exact:
  assumes "verdicts_sound C store fetched verdict"
  shows "fst (resolvable C store fetched verdict seed) = chain_complete C store fetched seed"
    and "verdicts_sound C store fetched (snd (resolvable C store fetched verdict seed))"
  using resolvable_loop_exact[of C store fetched seed "[seed]" "[]" verdict] assms
  by (auto simp: resolvable_def visit_ok_def)


section \<open>The snapshot of a segment\<close>

text \<open>The event that enters the snapshot for an object of the fetch, and the entry it sets.\<close>

definition admits ::
  "room_version ruma \<Rightarrow> room_codecs \<Rightarrow> room_store \<Rightarrow> room_version \<Rightarrow> (string, string list) btree_map \<Rightarrow> jobj \<Rightarrow> string option" where
  "admits R C store v fetched obj =
     (case import_event_of R C v obj of
        Some ev \<Rightarrow> if chain_complete C store fetched (ie_event_id ev) then Some (ie_event_id ev) else None
      | None \<Rightarrow> None)"

definition sets_entry ::
  "room_version ruma \<Rightarrow> room_codecs \<Rightarrow> room_store \<Rightarrow> room_version \<Rightarrow> (string, string list) btree_map \<Rightarrow> jobj
     \<Rightarrow> ((string \<times> string) \<times> string) option" where
  "sets_entry R C store v fetched obj =
     (case (admits R C store v fetched obj, state_entry obj) of (Some i, Some k) \<Rightarrow> Some (k, i) | _ \<Rightarrow> None)"

definition acc_ok :: "room_codecs \<Rightarrow> room_store \<Rightarrow> (string, string list) btree_map \<Rightarrow> snapshot_acc \<Rightarrow> bool" where
  "acc_ok C store fetched acc \<longleftrightarrow> verdicts_sound C store fetched (sa_verdict acc) \<and> set (sa_seen acc) = ie_event_id ` set (sa_events acc)"

lemma segment_item_step:
  fixes acc :: snapshot_acc
  assumes "acc_ok C store fetched acc" and "acc' = segment_item R C store v fetched (b, obj) acc"
  shows "acc_ok C store fetched acc'"
    and "ie_event_id ` set (sa_events acc') = ie_event_id ` set (sa_events acc) \<union> set_option (admits R C store v fetched obj)"
    and "bt_get (sa_state acc') = bt_get (sa_state acc) ++ map_of (if b then case sets_entry R C store v fetched obj of Some x \<Rightarrow> [x] | None \<Rightarrow> [] else [])"
  using assms resolvable_exact[of C store fetched "sa_verdict acc"]
  by (auto simp: segment_item_def acc_ok_def admits_def sets_entry_def Let_def split: option.splits if_splits)

lemma flagged_entries:
  "List.map_filter (\<lambda>(b, obj). if b then f obj else None) (map (Pair False) xs @ map (Pair True) ys) = List.map_filter f ys"
proof -
  have "List.map_filter (\<lambda>(b, obj). if b then f obj else None) (map (Pair True) ys) = List.map_filter f ys"
    by (induction ys) (auto simp: List.map_filter_simps split: option.split)
  then show ?thesis by (induction xs) (simp_all add: List.map_filter_simps)
qed

lemma segment_items:
  fixes acc :: snapshot_acc
  assumes "acc_ok C store fetched acc" and "acc' = fold (segment_item R C store v fetched) items acc"
  shows "ie_event_id ` set (sa_events acc') =
        ie_event_id ` set (sa_events acc) \<union> (\<Union>(_, obj) \<in> set items. set_option (admits R C store v fetched obj))
    \<and> bt_get (sa_state acc') =
        bt_get (sa_state acc) ++ map_of (rev (List.map_filter (\<lambda>(b, obj). if b then sets_entry R C store v fetched obj else None) items))"
  using assms
proof (induction items arbitrary: acc)
  case (Cons x items)
  obtain b obj where x: "x = (b, obj)" by (cases x)
  note S = segment_item_step[OF Cons.prems(1) refl, where R = R and v = v and b = b and obj = obj]
  have acc': "acc' = fold (segment_item R C store v fetched) items (segment_item R C store v fetched (b, obj) acc)"
    using Cons.prems(2) x by simp
  have "List.map_filter f ((b, obj) # items) = (case f (b, obj) of Some y \<Rightarrow> [y] | None \<Rightarrow> []) @ List.map_filter f items"
    for f :: "bool \<times> jobj \<Rightarrow> ((string \<times> string) \<times> string) option"
    by (simp add: List.map_filter_simps split: option.split)
  note filter = this
  show ?case
    unfolding x
  proof (rule conjI)
    show "ie_event_id ` set (sa_events acc') =
        ie_event_id ` set (sa_events acc) \<union> (\<Union>(_, obj) \<in> set ((b, obj) # items). set_option (admits R C store v fetched obj))"
      using Cons.IH[OF S(1) acc'] S(2) by auto
    show "bt_get (sa_state acc') = bt_get (sa_state acc) ++
        map_of (rev (List.map_filter (\<lambda>(b, obj). if b then sets_entry R C store v fetched obj else None) ((b, obj) # items)))"
      using conjunct2[OF Cons.IH[OF S(1) acc']] unfolding filter S(3)
      by (cases b; cases "sets_entry R C store v fetched obj") (simp_all add: fun_upd_def)
  qed
qed (simp add: List.map_filter_simps)

text \<open>
  C22: A segment enters the room with a snapshot of exactly the fetched events whose whole auth chain is
  fetched or stored: the verdicts remembered between them never change one. Its state is that of the
  \<open>state\<close> list alone, the last entry for a key counting, so that an event behind a hole can neither enter
  nor be replaced by the entry it superseded.
\<close>

theorem segment_snapshot_exact:
  assumes "import_segment_cmd R C store rid state auth_objs chain = Inr seg"
  shows "\<exists>meta v. rs_meta C store rid = Inr (Some meta) \<and> parse_version (rm_version meta) = Inr v
    \<and> ie_event_id ` set (is_events seg) =
        {i. \<exists>obj \<in> set (auth_objs @ state). admits R C store v (fetched_auth R v (auth_objs @ state @ chain)) obj = Some i}
    \<and> bt_get (Room_Types.is_state seg) = map_of (rev (List.map_filter (sets_entry R C store v (fetched_auth R v (auth_objs @ state @ chain))) state))"
proof -
  from assms obtain meta v where m: "rs_meta C store rid = Inr (Some meta)" "parse_version (rm_version meta) = Inr v"
    and seg: "is_events seg = sa_events (fold (segment_item R C store v (fetched_auth R v (auth_objs @ state @ chain)))
        (map (Pair False) auth_objs @ map (Pair True) state) \<lparr>sa_events = [], sa_seen = [], sa_state = [], sa_verdict = []\<rparr>)"
      "Room_Types.is_state seg = sa_state (fold (segment_item R C store v (fetched_auth R v (auth_objs @ state @ chain)))
        (map (Pair False) auth_objs @ map (Pair True) state) \<lparr>sa_events = [], sa_seen = [], sa_state = [], sa_verdict = []\<rparr>)"
    by (auto simp: import_segment_cmd_def Let_def)
  have ok: "acc_ok C store (fetched_auth R v (auth_objs @ state @ chain)) \<lparr>sa_events = [], sa_seen = [], sa_state = [], sa_verdict = []\<rparr>"
    by (simp add: acc_ok_def verdicts_sound_def)
  note I = segment_items[OF ok refl, of R v "map (Pair False) auth_objs @ map (Pair True) state", folded seg]
  show ?thesis using m I unfolding flagged_entries by auto
qed

end
