(* ===== verification/Room_Federation.thy ===== *)
theory Room_Federation
  imports Room_Walk Acl
begin

text \<open>
  What the room server answers to other servers (\<open>lib.rs\<close>): who is in a room, which events a server may
  see, the state before an event, the access list, and the event nearest to a time. The shard stores the
  text of canonical objects only, so an event read as a JSON value and as an object read alike.
\<close>

definition resolved :: "room_codecs \<Rightarrow> room_store \<Rightarrow> string \<Rightarrow> u64 \<Rightarrow> state_ids stage" where
  "resolved C store rid gid = map_option (map_sum storage_err id) (resolve_group C store rid gid)"

definition content_str :: "jobj \<Rightarrow> string \<Rightarrow> string option" where
  "content_str obj k = Option.bind (obj_prop obj ''content'') (\<lambda>c. str_prop c k)"

text \<open>A loop that stops at the first element that satisfies a test, which may fail.\<close>

fun any_r :: "('a \<Rightarrow> 'e + bool) \<Rightarrow> 'a list \<Rightarrow> 'e + bool" where
  "any_r f [] = Inr False"
| "any_r f (x # xs) = rbind (f x) (\<lambda>b. if b then Inr True else any_r f xs)"

section \<open>Room versions and identifiers\<close>

definition known_meta :: "room_codecs \<Rightarrow> room_store \<Rightarrow> string \<Rightarrow> room_error + room_meta option" where
  "known_meta C store rid = map_sum storage_err id (rs_meta C store rid)"

definition verify_pdu_at :: "room_version ruma \<Rightarrow> public_key_map \<Rightarrow> room_version \<Rightarrow> jobj \<Rightarrow> bool" where
  "verify_pdu_at R keys v raw =
     (is_ok (validate_pdu R raw v) \<and> verify_event R raw v keys = Inr Verified)"

definition verify_pdu :: "room_version ruma \<Rightarrow> room_codecs \<Rightarrow> public_key_map \<Rightarrow> room_store \<Rightarrow> string \<Rightarrow> jobj \<Rightarrow> bool" where
  "verify_pdu R C keys store rid raw =
     (case rs_meta C store rid of
        Inr (Some meta) \<Rightarrow> (case parse_version (rm_version meta) of Inr v \<Rightarrow> verify_pdu_at R keys v raw | Inl _ \<Rightarrow> False)
      | _ \<Rightarrow> False)"

definition pdu_event_id :: "room_version ruma \<Rightarrow> room_codecs \<Rightarrow> room_store \<Rightarrow> jobj \<Rightarrow> string option" where
  "pdu_event_id R C store raw =
     (case classify R C store raw of
        Inl _ \<Rightarrow> None
      | Inr (v, _, _) \<Rightarrow> (case compute_event_id R raw v of Inr eid \<Rightarrow> Some eid | Inl _ \<Rightarrow> None))"

definition room_extremities :: "room_codecs \<Rightarrow> room_store \<Rightarrow> string \<Rightarrow> room_error + string list" where
  "room_extremities C store rid =
     rbind (known_meta C store rid) (\<lambda>m. Inr (case m of Some m \<Rightarrow> rm_extremities m | None \<Rightarrow> []))"

definition history_frontier :: "room_codecs \<Rightarrow> room_store \<Rightarrow> string \<Rightarrow> room_error + string list" where
  "history_frontier C store rid =
     rbind (known_meta C store rid) (\<lambda>m. Inr (case m of Some m \<Rightarrow> rm_history_frontier m | None \<Rightarrow> []))"

section \<open>Members\<close>

definition joined_server ::
  "room_version ruma \<Rightarrow> room_codecs \<Rightarrow> room_store \<Rightarrow> string \<Rightarrow> (string \<times> string) \<times> string \<Rightarrow> string btree_set \<Rightarrow> room_error + string btree_set" where
  "joined_server R C store exclude = (\<lambda>((ty, sk), eid) servers.
     if ty \<noteq> ''m.room.member'' then Inr servers
     else rbind (load_raw C store eid) (\<lambda>found.
       case found of
         None \<Rightarrow> Inr servers
       | Some raw \<Rightarrow>
           if content_str raw ''membership'' = Some ''join'' \<and> user_id_ok R sk \<and> user_server_name R sk \<noteq> exclude
           then Inr (bs_insert (user_server_name R sk) servers)
           else Inr servers))"

definition remote_servers_in_room ::
  "room_version ruma \<Rightarrow> room_codecs \<Rightarrow> room_store \<Rightarrow> string \<Rightarrow> string \<Rightarrow> string list stage" where
  "remote_servers_in_room R C store rid exclude =
     dbind (Some (known_meta C store rid)) (\<lambda>meta.
     case meta of
       None \<Rightarrow> dret []
     | Some meta \<Rightarrow> dbind (resolved C store rid (rm_current_group meta)) (\<lambda>state.
         Some (fold_r (joined_server R C store exclude) state [])))"

definition server_in_room :: "room_version ruma \<Rightarrow> room_codecs \<Rightarrow> room_store \<Rightarrow> string \<Rightarrow> string \<Rightarrow> bool stage" where
  "server_in_room R C store rid server =
     dbind (remote_servers_in_room R C store rid []) (\<lambda>servers. dret (server \<in> set servers))"

definition invited_entry :: "room_codecs \<Rightarrow> room_store \<Rightarrow> string \<Rightarrow> (string \<times> string) \<times> string \<Rightarrow> room_error + bool" where
  "invited_entry C store server = (\<lambda>((ty, sk), eid).
     if ty \<noteq> ''m.room.member'' \<or> \<not> ends_with sk (CHR '':'' # server) then Inr False
     else rbind (load_raw C store eid) (\<lambda>found.
       Inr (case found of None \<Rightarrow> False | Some raw \<Rightarrow> content_str raw ''membership'' = Some ''invite'')))"

definition server_invited_to_room :: "room_codecs \<Rightarrow> room_store \<Rightarrow> string \<Rightarrow> string \<Rightarrow> bool stage" where
  "server_invited_to_room C store rid server =
     dbind (Some (known_meta C store rid)) (\<lambda>meta.
     case meta of
       None \<Rightarrow> dret False
     | Some meta \<Rightarrow> dbind (resolved C store rid (rm_current_group meta)) (\<lambda>state.
         Some (any_r (invited_entry C store server) state)))"

section \<open>History visibility\<close>

definition event_visibility :: "room_codecs \<Rightarrow> room_store \<Rightarrow> state_ids \<Rightarrow> string" where
  "event_visibility C store state =
     (case bt_get state (''m.room.history_visibility'', []) of
        None \<Rightarrow> ''shared''
      | Some eid \<Rightarrow> (case load_raw C store eid of
            Inr (Some ev) \<Rightarrow> (case content_str ev ''history_visibility'' of Some v \<Rightarrow> v | None \<Rightarrow> ''shared'')
          | _ \<Rightarrow> ''shared''))"

definition required_memberships :: "string \<Rightarrow> string list option" where
  "required_memberships vis =
     (if vis = ''joined'' then Some [''join'']
      else if vis = ''invited'' then Some [''join'', ''invite'']
      else None)"

definition member_of_server ::
  "room_version ruma \<Rightarrow> room_codecs \<Rightarrow> room_store \<Rightarrow> string \<Rightarrow> string list \<Rightarrow> (string \<times> string) \<times> string \<Rightarrow> room_error + bool" where
  "member_of_server R C store server required = (\<lambda>((ty, sk), eid).
     if ty \<noteq> ''m.room.member'' \<or> \<not> user_id_ok R sk \<or> user_server_name R sk \<noteq> server then Inr False
     else rbind (load_raw C store eid) (\<lambda>found.
       Inr (case Option.bind found (\<lambda>ev. content_str ev ''membership'') of None \<Rightarrow> False | Some m \<Rightarrow> m \<in> set required)))"

definition visible_to ::
  "room_version ruma \<Rightarrow> room_codecs \<Rightarrow> room_store \<Rightarrow> string \<Rightarrow> string \<Rightarrow> jobj \<Rightarrow> bool stage" where
  "visible_to R C store rid server raw =
     (case pdu_event_id R C store raw of
        None \<Rightarrow> dret True
      | Some eid \<Rightarrow> dbind (Some (map_sum storage_err id (rs_event C store eid))) (\<lambda>found.
          case found of
            None \<Rightarrow> dret True
          | Some s \<Rightarrow>
              if se_state_group_after s = 0 then dret True
              else dbind (resolved C store rid (se_state_group_after s)) (\<lambda>state.
                case required_memberships (event_visibility C store state) of
                  None \<Rightarrow> dret True
                | Some required \<Rightarrow> Some (any_r (member_of_server R C store server required) state))))"

definition filter_event ::
  "room_version ruma \<Rightarrow> room_codecs \<Rightarrow> room_store \<Rightarrow> room_version \<Rightarrow> string \<Rightarrow> string \<Rightarrow> jobj \<Rightarrow> jobj list \<Rightarrow> jobj list stage" where
  "filter_event R C store v rid server raw out =
     dbind (visible_to R C store rid server raw) (\<lambda>visible.
       if visible then dret (out @ [raw])
       else case Validation.redact R raw v of
              Inl _ \<Rightarrow> dfail (MalformedEvent ''redact'')
            | Inr r \<Rightarrow> dret (out @ [r]))"

definition filter_events_for_server ::
  "room_version ruma \<Rightarrow> room_codecs \<Rightarrow> room_store \<Rightarrow> string \<Rightarrow> string \<Rightarrow> jobj list \<Rightarrow> jobj list stage" where
  "filter_events_for_server R C store rid server pdus =
     dbind (Some (known_meta C store rid)) (\<lambda>meta.
     case meta of
       None \<Rightarrow> dret pdus
     | Some meta \<Rightarrow> dbind (lift_err VersionError (parse_version (rm_version meta))) (\<lambda>v.
         fold_d (filter_event R C store v rid server) pdus []))"

section \<open>Access lists\<close>

definition room_server_acl :: "room_codecs \<Rightarrow> room_store \<Rightarrow> string \<Rightarrow> server_acl option stage" where
  "room_server_acl C store rid =
     dbind (Some (known_meta C store rid)) (\<lambda>meta.
     case meta of
       None \<Rightarrow> dret None
     | Some meta \<Rightarrow> dbind (resolved C store rid (rm_current_group meta)) (\<lambda>current.
         case bt_get current (''m.room.server_acl'', []) of
           None \<Rightarrow> dret None
         | Some eid \<Rightarrow> dbind (Some (load_raw C store eid)) (\<lambda>found.
             dret (Option.bind found (\<lambda>raw. map_option acl_from_content (obj_prop raw ''content''))))))"

definition server_acl_denies :: "room_codecs \<Rightarrow> room_store \<Rightarrow> string \<Rightarrow> string \<Rightarrow> bool option" where
  "server_acl_denies C store rid server =
     (case room_server_acl C store rid of
        None \<Rightarrow> None
      | Some (Inr (Some acl)) \<Rightarrow> Some (\<not> is_allowed acl server)
      | Some _ \<Rightarrow> Some False)"

section \<open>The state before an event\<close>

text \<open>
  Both readers recover the event that a state event replaced from its \<open>auth_events\<close>: the first one with
  the same type and state key.
\<close>

fun superseded :: "room_codecs \<Rightarrow> room_store \<Rightarrow> string \<Rightarrow> string \<Rightarrow> string list \<Rightarrow> room_error + (string \<times> jobj) option" where
  "superseded C store ty sk [] = Inr None"
| "superseded C store ty sk (a # ids) =
     rbind (load_raw C store a) (\<lambda>found.
       case found of
         None \<Rightarrow> superseded C store ty sk ids
       | Some ae \<Rightarrow>
           if str_prop ae ''type'' = Some ty \<and> str_prop ae ''state_key'' = Some sk then Inr (Some (a, ae))
           else superseded C store ty sk ids)"

definition prev_state_content :: "room_codecs \<Rightarrow> room_store \<Rightarrow> string \<Rightarrow> room_error + (json \<times> string) option" where
  "prev_state_content C store eid =
     rbind (load_raw C store eid) (\<lambda>found.
     case found of
       None \<Rightarrow> Inr None
     | Some raw \<Rightarrow>
         (case (str_prop raw ''type'', str_prop raw ''state_key'') of
            (Some ty, Some sk) \<Rightarrow> rbind (superseded C store ty sk (auth_event_ids raw)) (\<lambda>prev.
              Inr (map_option (\<lambda>(_, ae).
                (case bt_get ae ''content'' of Some c \<Rightarrow> c | None \<Rightarrow> JNull,
                 case str_prop ae ''sender'' of Some s \<Rightarrow> s | None \<Rightarrow> [])) prev))
          | _ \<Rightarrow> Inr None))"

definition back_out ::
  "room_codecs \<Rightarrow> room_store \<Rightarrow> jobj \<Rightarrow> state_ids \<Rightarrow> room_error + state_ids" where
  "back_out C store raw state =
     (case (str_prop raw ''type'', str_prop raw ''state_key'') of
        (Some ty, Some sk) \<Rightarrow> rbind (superseded C store ty sk (auth_event_ids raw)) (\<lambda>prev.
          Inr (case prev of Some (a, _) \<Rightarrow> bt_insert (ty, sk) a state | None \<Rightarrow> bt_remove (ty, sk) state))
      | _ \<Rightarrow> Inr state)"

definition state_pdu ::
  "room_codecs \<Rightarrow> room_store \<Rightarrow> string \<Rightarrow> (string \<times> jobj) list \<times> string btree_set \<Rightarrow> room_error + (string \<times> jobj) list \<times> string btree_set" where
  "state_pdu C store eid = (\<lambda>(pdus, seed).
     rbind (load_raw C store eid) (\<lambda>found.
       case found of
         None \<Rightarrow> Inr (pdus, seed)
       | Some obj \<Rightarrow> Inr (pdus @ [(eid, obj)], bs_extend (auth_event_ids obj) seed)))"

definition state_before_event ::
  "room_version ruma \<Rightarrow> room_codecs \<Rightarrow> room_store \<Rightarrow> string \<Rightarrow> string \<Rightarrow> ((string \<times> jobj) list \<times> (string \<times> jobj) list) option stage" where
  "state_before_event R C store rid eid =
     dbind (Some (map_sum storage_err id (rs_event C store eid))) (\<lambda>found.
     case found of
       None \<Rightarrow> dret None
     | Some s \<Rightarrow>
         if se_state_group_after s = 0 then dret None
         else dbind (lift_err CodecError (ok_or ''event'' (object_of C (se_raw s)))) (\<lambda>raw.
           if str_prop raw ''room_id'' \<noteq> Some rid then dret None
           else dbind (resolved C store rid (se_state_group_after s)) (\<lambda>state.
                dbind (Some (back_out C store raw state)) (\<lambda>state.
                dbind (Some (fold_r (state_pdu C store) (map snd state) ([], []))) (\<lambda>(pdus, seed).
                dbind (collect_auth_chain C store seed) (\<lambda>chain.
                  dret (Some (pdus,
                    List.map_filter (\<lambda>obj. map_option (\<lambda>i. (i, obj)) (pdu_event_id R C store obj)) chain))))))))"

section \<open>The event nearest to a time\<close>

definition nearer :: "bool \<Rightarrow> u64 \<times> u64 \<times> u64 \<Rightarrow> (u64 \<times> (u64 \<times> u64) \<times> string) option \<Rightarrow> bool" where
  "nearer backward = (\<lambda>(ots, pos) best.
     case best of
       None \<Rightarrow> True
     | Some (bts, bpos, _) \<Rightarrow> if backward then (ots, pos) > (bts, bpos) else (ots, pos) < (bts, bpos))"

definition nearest_step ::
  "room_codecs \<Rightarrow> room_store \<Rightarrow> u64 \<Rightarrow> bool \<Rightarrow> (u64 \<times> u64) \<times> string \<Rightarrow> (u64 \<times> (u64 \<times> u64) \<times> string) option
     \<Rightarrow> room_error + (u64 \<times> (u64 \<times> u64) \<times> string) option" where
  "nearest_step C store ts backward = (\<lambda>(pos, eid) best.
     rbind (map_sum storage_err id (rs_event C store eid)) (\<lambda>found.
     case Option.bind found (\<lambda>s. object_of C (se_raw s)) of
       None \<Rightarrow> Inr best
     | Some raw \<Rightarrow>
         (case bt_get raw ''origin_server_ts'' of
            Some (JInt i) \<Rightarrow>
              let ots = of_int i in
              if i < 0 \<or> \<not> (if backward then ots \<le> ts else ts \<le> ots) then Inr best
              else if nearer backward (ots, pos) best then Inr (Some (ots, pos, eid))
              else Inr best
          | _ \<Rightarrow> Inr best)))"

definition timestamp_to_event ::
  "room_codecs \<Rightarrow> room_store \<Rightarrow> string \<Rightarrow> u64 \<Rightarrow> bool \<Rightarrow> bool \<Rightarrow> room_error + (string \<times> u64) option" where
  "timestamp_to_event C store rid ts backward include_history =
     rbind (map_sum storage_err id (room_timeline store rid 0 None usize_max False)) (\<lambda>tl.
     rbind (if include_history then map_sum storage_err id (room_history_page store rid 0 None usize_max False) else Inr []) (\<lambda>hist.
     rbind (fold_r (nearest_step C store ts backward)
              (map (\<lambda>(seq, eid). ((1, seq), eid)) tl @ map (\<lambda>(idx, eid). ((0, - 1 - idx), eid)) hist) None) (\<lambda>best.
       Inr (map_option (\<lambda>(ots, _, eid). (eid, ots)) best))))"


section \<open>What a server may see\<close>

lemma any_r_exact: "(\<And>x. x \<in> set xs \<Longrightarrow> f x = Inr (g x)) \<Longrightarrow> any_r f xs = Inr (\<exists>x \<in> set xs. g x)"
  by (induction xs) auto

lemma resolved_wf:
  assumes "resolved C store rid gid = Some (Inr st)"
  shows "bt_wf st"
  using assms by (auto simp: resolved_def resolve_group_def overlay_wf)

text \<open>
  Whether the state at an event lets a server see it: its visibility is neither \<open>joined\<close> nor \<open>invited\<close>, or
  a user of the server has a membership that it asks for.
\<close>

definition may_see :: "room_version ruma \<Rightarrow> room_codecs \<Rightarrow> room_store \<Rightarrow> string \<Rightarrow> state_ids \<Rightarrow> bool" where
  "may_see R C store server st \<longleftrightarrow>
     (case required_memberships (event_visibility C store st) of
        None \<Rightarrow> True
      | Some required \<Rightarrow> \<exists>sk eid m. bt_get st (''m.room.member'', sk) = Some eid \<and> user_id_ok R sk \<and> user_server_name R sk = server
          \<and> held C store eid \<noteq> None \<and> content_str (held_obj C store eid) ''membership'' = Some m \<and> m \<in> set required)"

lemma member_of_server_eq:
  assumes "readable C store"
  shows "member_of_server R C store server required ((ty, sk), eid) =
    Inr (ty = ''m.room.member'' \<and> user_id_ok R sk \<and> user_server_name R sk = server \<and> held C store eid \<noteq> None
      \<and> (\<exists>m. content_str (held_obj C store eid) ''membership'' = Some m \<and> m \<in> set required))"
  by (auto simp: member_of_server_def load_held[OF assms] split: option.split)

lemma visible_to_exact:
  assumes rd: "readable C store" and eid: "pdu_event_id R C store raw = Some eid" and s: "held C store eid = Some s"
    and g: "se_state_group_after s \<noteq> 0" and st: "resolved C store rid (se_state_group_after s) = Some (Inr st)"
  shows "visible_to R C store rid server raw = dret (may_see R C store server st)"
proof (cases "required_memberships (event_visibility C store st)")
  case None
  then show ?thesis using eid s g st by (simp add: visible_to_def read_held[OF rd] may_see_def dret_def)
next
  case (Some required)
  let ?ok = "\<lambda>((ty, sk), eid). ty = ''m.room.member'' \<and> user_id_ok R sk \<and> user_server_name R sk = server \<and> held C store eid \<noteq> None
      \<and> (\<exists>m. content_str (held_obj C store eid) ''membership'' = Some m \<and> m \<in> set required)"
  have "any_r (member_of_server R C store server required) st = Inr (\<exists>e \<in> set st. ?ok e)"
    by (rule any_r_exact) (auto simp: member_of_server_eq[OF rd])
  moreover have "(\<exists>e \<in> set st. ?ok e) \<longleftrightarrow> may_see R C store server st"
  proof
    assume "\<exists>e \<in> set st. ?ok e"
    then obtain ty sk i where "((ty, sk), i) \<in> set st" "?ok ((ty, sk), i)" by fastforce
    then show "may_see R C store server st"
      using bt_get_mem[OF resolved_wf[OF st]] Some unfolding may_see_def by (auto simp del: map_of_eq_Some_iff)
  next
    assume "may_see R C store server st"
    then obtain sk i m where "bt_get st (''m.room.member'', sk) = Some i" "?ok ((''m.room.member'', sk), i)"
      using Some unfolding may_see_def by auto
    then show "\<exists>e \<in> set st. ?ok e" using bt_get_mem[OF resolved_wf[OF st]] by blast
  qed
  ultimately have "any_r (member_of_server R C store server required) st = Inr (may_see R C store server st)" by simp
  then show ?thesis using eid s g st Some by (simp add: visible_to_def read_held[OF rd] dret_def)
qed

lemma filter_events_pointwise:
  assumes "fold_d (filter_event R C store v rid server) pdus out = Some (Inr out')"
  shows "\<exists>new. out' = out @ new \<and> list_all2 (\<lambda>raw served. \<exists>vis. visible_to R C store rid server raw = dret vis
      \<and> (if vis then served = raw else Validation.redact R raw v = Inr served)) pdus new"
  using assms
proof (induction pdus arbitrary: out)
  case Nil
  then show ?case by simp
next
  case (Cons raw pdus)
  from Cons.prems obtain mid where f: "filter_event R C store v rid server raw out = Some (Inr mid)"
    and rest: "fold_d (filter_event R C store v rid server) pdus mid = Some (Inr out')" by auto
  from f obtain vis served where "mid = out @ [served]" "visible_to R C store rid server raw = dret vis"
    "if vis then served = raw else Validation.redact R raw v = Inr served"
    by (auto simp: filter_event_def dret_def dfail_def split: if_splits sum.splits)
  note served = this
  obtain new where new: "out' = mid @ new" "list_all2 (\<lambda>raw served. \<exists>vis. visible_to R C store rid server raw = dret vis
      \<and> (if vis then served = raw else Validation.redact R raw v = Inr served)) pdus new"
    using Cons.IH[OF rest] by blast
  show ?case
  proof (intro exI conjI)
    show "out' = out @ served # new" using served(1) new(1) by simp
    show "list_all2 (\<lambda>raw served. \<exists>vis. visible_to R C store rid server raw = dret vis
      \<and> (if vis then served = raw else Validation.redact R raw v = Inr served)) (raw # pdus) (served # new)"
      unfolding list_all2_Cons using served(2,3) new(2) by blast
  qed
qed

text \<open>The state group that is known for an event: it has an identifier, is held, and its group is not 0.\<close>

definition group_known :: "room_version ruma \<Rightarrow> room_codecs \<Rightarrow> room_store \<Rightarrow> jobj \<Rightarrow> u64 option" where
  "group_known R C store raw = Option.bind (pdu_event_id R C store raw) (\<lambda>eid. Option.bind (held C store eid) (\<lambda>s.
     if se_state_group_after s = 0 then None else Some (se_state_group_after s)))"

lemma map_sum_InrE: "map_sum f id r = Inr a \<Longrightarrow> (r = Inr a \<Longrightarrow> P) \<Longrightarrow> P"
  by (cases r) auto

lemma visible_to_cases:
  assumes rd: "readable C store" and vis: "visible_to R C store rid server raw = dret vis"
  shows "case group_known R C store raw of
      None \<Rightarrow> vis
    | Some g \<Rightarrow> \<exists>st. resolve_group C store rid g = Some (Inr st) \<and> vis = may_see R C store server st"
proof (cases "group_known R C store raw")
  case None
  then show ?thesis using vis
    by (auto simp: group_known_def visible_to_def read_held[OF rd] dret_def split: option.splits bind_splits if_splits)
next
  case (Some g)
  then obtain eid s where e: "pdu_event_id R C store raw = Some eid" "held C store eid = Some s" "se_state_group_after s \<noteq> 0" "g = se_state_group_after s"
    by (auto simp: group_known_def split: bind_splits if_splits)
  obtain st where st: "resolved C store rid g = Some (Inr st)"
    using vis e by (cases "resolved C store rid g") (auto simp: visible_to_def read_held[OF rd] dret_def elim: dbind.elims)
  then have "resolve_group C store rid g = Some (Inr st)" unfolding resolved_def by (cases "resolve_group C store rid g") (auto elim: map_sum_InrE)
  moreover have "vis = may_see R C store server st"
    using visible_to_exact[OF rd e(1-3) st[unfolded e(4)]] vis by (simp add: dret_def)
  ultimately show ?thesis using Some by simp
qed

text \<open>
  C21: What federation serves of the history of a room, event by event and in the order given, when every stored
  event can be read and the answer is not an error. An event for which a state group is known is served as it is exactly to a server that the
  state of this group lets see it, and as its redacted form to any other. All else is served as it is to
  every server: an event without an identifier, one that is not held, one that was stored without a state
  group, as outliers and most rejected events are, and the events of a room that is not known.
\<close>

theorem filtered_events_visible:
  assumes rd: "readable C store" and out: "filter_events_for_server R C store rid server pdus = Some (Inr out)" and i: "i < length pdus"
  shows "length out = length pdus \<and>
    (case rs_meta C store rid of
       Inl _ \<Rightarrow> False
     | Inr None \<Rightarrow> out ! i = pdus ! i
     | Inr (Some meta) \<Rightarrow> \<exists>v. parse_version (rm_version meta) = Inr v \<and>
         (case group_known R C store (pdus ! i) of
            None \<Rightarrow> out ! i = pdus ! i
          | Some g \<Rightarrow> \<exists>st. resolve_group C store rid g = Some (Inr st) \<and>
              (if may_see R C store server st then out ! i = pdus ! i else Validation.redact R (pdus ! i) v = Inr (out ! i))))"
proof -
  consider (unknown) "rs_meta C store rid = Inr None" "out = pdus"
    | (known) meta v where "rs_meta C store rid = Inr (Some meta)" "parse_version (rm_version meta) = Inr v"
        "fold_d (filter_event R C store v rid server) pdus [] = Some (Inr out)"
  proof (cases "rs_meta C store rid")
    case (Inr found)
    then show thesis using out that
      by (cases found; cases "parse_version (rm_version (the found))") (auto simp: filter_events_for_server_def known_meta_def lift_err_def dret_def)
  qed (use out in \<open>simp add: filter_events_for_server_def known_meta_def\<close>)
  then show ?thesis
  proof cases
    case known
    note P = filter_events_pointwise[OF known(3)]
    then have len: "length out = length pdus" by (auto dest: list_all2_lengthD)
    from P i obtain vis where "visible_to R C store rid server (pdus ! i) = dret vis"
      and "if vis then out ! i = pdus ! i else Validation.redact R (pdus ! i) v = Inr (out ! i)"
      by (auto dest: list_all2_nthD)
    with visible_to_cases[OF rd this(1)] known(1,2) len show ?thesis by (auto split: option.splits if_splits)
  qed simp
qed

section \<open>What the state before an event is\<close>

text \<open>The first of the references that is held and has the key of the event.\<close>

definition replaced :: "room_codecs \<Rightarrow> room_store \<Rightarrow> string \<Rightarrow> string \<Rightarrow> string list \<Rightarrow> string option" where
  "replaced C store ty sk ids = find (\<lambda>a. held C store a \<noteq> None \<and> str_prop (held_obj C store a) ''type'' = Some ty
     \<and> str_prop (held_obj C store a) ''state_key'' = Some sk) ids"

lemma superseded_exact:
  assumes "readable C store"
  shows "superseded C store ty sk ids = Inr (map_option (\<lambda>a. (a, held_obj C store a)) (replaced C store ty sk ids))"
  by (induction ids) (auto simp: load_held[OF assms] replaced_def split: option.split)

definition state_without :: "room_codecs \<Rightarrow> room_store \<Rightarrow> jobj \<Rightarrow> state_ids \<Rightarrow> state_ids" where
  "state_without C store raw st =
     (case (str_prop raw ''type'', str_prop raw ''state_key'') of
        (Some ty, Some sk) \<Rightarrow> (case replaced C store ty sk (auth_event_ids raw) of
            Some a \<Rightarrow> bt_insert (ty, sk) a st
          | None \<Rightarrow> bt_remove (ty, sk) st)
      | _ \<Rightarrow> st)"

lemma back_out_exact: "readable C store \<Longrightarrow> back_out C store raw st = Inr (state_without C store raw st)"
  by (auto simp: back_out_def state_without_def superseded_exact split: option.split)

lemma state_pdus:
  assumes "readable C store"
  shows "\<exists>seed'. fold_r (state_pdu C store) ids (pdus, seed) =
      Inr (pdus @ map (\<lambda>i. (i, held_obj C store i)) (filter (\<lambda>i. held C store i \<noteq> None) ids), seed')
    \<and> set seed' = set seed \<union> (\<Union>i \<in> set (filter (\<lambda>i. held C store i \<noteq> None) ids). set (auth_event_ids (held_obj C store i)))"
proof (induction ids arbitrary: pdus seed)
  case Nil
  show ?case by simp
next
  case (Cons i ids)
  show ?case
  proof (cases "held C store i")
    case None
    then have "state_pdu C store i (pdus, seed) = Inr (pdus, seed)" by (simp add: state_pdu_def load_held[OF assms])
    then show ?thesis using Cons.IH[of pdus seed] None by simp
  next
    case (Some s)
    then have "state_pdu C store i (pdus, seed) =
        Inr (pdus @ [(i, held_obj C store i)], bs_extend (auth_event_ids (held_obj C store i)) seed)"
      by (simp add: state_pdu_def load_held[OF assms])
    then show ?thesis
      using Cons.IH[of "pdus @ [(i, held_obj C store i)]" "bs_extend (auth_event_ids (held_obj C store i)) seed"] Some
      by (auto simp: Un_assoc Un_commute)
  qed
qed


end
