(* ===== verification/Room_Shards.thy ===== *)
theory Room_Shards
  imports Room_Federation
begin

text \<open>
  The room-shard router (\<open>shards.rs\<close>): the frozen hash that assigns a room to one of the shard groups, and
  the room a PDU on the wire names. A slot of the router is represented by its store; the first eight
  bytes of the \<open>blake3\<close> digest of a room identifier are a parameter.
\<close>

definition shard_of :: "(string \<Rightarrow> bytes) \<Rightarrow> string \<Rightarrow> u16 \<Rightarrow> u16" where
  "shard_of first8 rid n =
     (if n \<le> 1 then 0 else of_nat (of_be_bytes (first8 rid) mod unat n))"

definition shard_count :: "'s list \<Rightarrow> u16" where
  "shard_count shards = of_nat (length shards)"

text \<open>An index out of range panics.\<close>

definition slot :: "'s list \<Rightarrow> u16 \<Rightarrow> 's option" where
  "slot shards idx = (if unat idx < length shards then Some (shards ! unat idx) else None)"

definition replace_slot :: "'s list \<Rightarrow> u16 \<Rightarrow> 's \<Rightarrow> 's list option" where
  "replace_slot shards idx server = (if unat idx < length shards then Some (shards[unat idx := server]) else None)"

definition for_room :: "(string \<Rightarrow> bytes) \<Rightarrow> 's list \<Rightarrow> string \<Rightarrow> 's option" where
  "for_room first8 shards rid = slot shards (shard_of first8 rid (shard_count shards))"

definition by_index :: "'s list \<Rightarrow> u16 \<Rightarrow> 's option" where
  "by_index shards idx = (if idx < shard_count shards then slot shards idx else None)"

fun for_event :: "room_codecs \<Rightarrow> room_store list \<Rightarrow> string \<Rightarrow> room_store option" where
  "for_event C [] eid = None"
| "for_event C (store # shards) eid =
     (case rs_event C store eid of Inr (Some _) \<Rightarrow> Some store | _ \<Rightarrow> for_event C shards eid)"

definition wire_room_id :: "room_version ruma \<Rightarrow> jobj \<Rightarrow> string option" where
  "wire_room_id R raw =
     (case bt_get raw ''room_id'' of
        Some (JStr r) \<Rightarrow> Some r
      | _ \<Rightarrow>
          if bt_get raw ''type'' = Some (JStr ''m.room.create'') \<and> bt_get raw ''state_key'' = Some (JStr [])
          then Option.bind (obj_prop raw ''content'') (\<lambda>c.
               Option.bind (str_prop c ''room_version'') (\<lambda>s.
               case parse_version s of
                 Inl _ \<Rightarrow> None
               | Inr v \<Rightarrow>
                   if room_id_is_create_event_id v
                   then (case room_id_for_create R raw v of Inr r \<Rightarrow> Some r | Inl _ \<Rightarrow> None)
                   else None))
          else None)"

definition for_pdu :: "room_version ruma \<Rightarrow> (string \<Rightarrow> bytes) \<Rightarrow> 's list \<Rightarrow> jobj \<Rightarrow> ('s \<times> string) option" where
  "for_pdu R first8 shards raw =
     Option.bind (wire_room_id R raw) (\<lambda>rid. Option.bind (for_room first8 shards rid) (\<lambda>s. Some (s, rid)))"

section \<open>Routing\<close>

lemma shard_of_bound:
  assumes "shards \<noteq> []"
  shows "unat (shard_of first8 rid (shard_count shards)) < length shards"
proof (cases "shard_count shards \<le> 1")
  case True
  then show ?thesis using assms by (simp add: shard_of_def)
next
  case False
  let ?c = "unat (shard_count shards)" and ?h = "of_be_bytes (first8 rid)"
  have "1 < ?c" using False by (simp add: word_le_nat_alt)
  then have "0 < ?c" by (rule less_trans[OF zero_less_one])
  then have lt: "?h mod ?c < ?c" by simp
  then have "unat (of_nat (?h mod ?c) :: u16) = ?h mod ?c"
    using less_trans[OF lt unsigned_less] by (simp add: unat_of_nat)
  moreover have "?c \<le> length shards" by (simp add: shard_count_def unat_of_nat take_bit_eq_mod)
  ultimately show ?thesis using False lt by (simp add: shard_of_def)
qed

text \<open>Every room has a slot: the router never indexes past its shards.\<close>

lemma for_room_total: "shards \<noteq> [] \<Longrightarrow> \<exists>s. for_room first8 shards rid = Some s \<and> s \<in> set shards"
  using shard_of_bound[of shards first8 rid] by (simp add: for_room_def slot_def)

text \<open>Swapping the backend of one slot leaves the assignment of every other room alone.\<close>

lemma replace_keeps:
  assumes "replace_slot shards idx server = Some shards'"
  shows "for_room first8 shards' rid =
    (if shard_of first8 rid (shard_count shards) = idx then Some server else for_room first8 shards rid)"
proof -
  from assms have r: "shards' = shards[unat idx := server]" "unat idx < length shards"
    by (auto simp: replace_slot_def split: if_splits)
  then have "shards \<noteq> []" by auto
  have "shard_of first8 rid (shard_count shards') = shard_of first8 rid (shard_count shards)" (is "?i' = ?i")
    using r by (simp add: shard_count_def)
  moreover have "unat ?i = unat idx \<longleftrightarrow> ?i = idx" by (simp add: word_unat_eq_iff)
  ultimately show ?thesis
    using shard_of_bound[OF \<open>shards \<noteq> []\<close>, of first8 rid] r by (simp add: for_room_def slot_def nth_list_update) metis
qed

text \<open>
  The shard that a PDU is sent to is that of the room under which the event pipeline files it. The two
  disagree on one kind of event only: a create event that carries a room identifier in a version whose
  rooms are named by their create event, and that one the authorisation rules reject.
\<close>

theorem routed_to_its_room:
  assumes r: "wire_room_id R raw = Some rid" and c: "classify R C store raw = Inr (v, rid', is_create)" and ne: "shards \<noteq> []"
  shows "(\<exists>s \<in> set shards. for_pdu R first8 shards raw = Some (s, rid) \<and> for_room first8 shards rid = Some s)
    \<and> (rid = rid' \<or> is_create \<and> (\<forall>event. from_canonical R raw = Inr (ip_pdu event) \<longrightarrow> (\<exists>rej. check_create R v event = Inl rej)))"
proof
  show "\<exists>s \<in> set shards. for_pdu R first8 shards raw = Some (s, rid) \<and> for_room first8 shards rid = Some s"
    using for_room_total[OF ne, of first8 rid] r by (auto simp: for_pdu_def)
  have field: "bt_get raw ''room_id'' = Some (JStr rid)" if "rid \<noteq> rid'"
    using r c that
    by (auto simp: wire_room_id_def classify_def room_id_of_def str_of_def bind_eq_Some_conv split: option.splits json.splits if_splits sum.splits)
  show "rid = rid' \<or> is_create \<and> (\<forall>event. from_canonical R raw = Inr (ip_pdu event) \<longrightarrow> (\<exists>rej. check_create R v event = Inl rej))"
  proof (cases "rid = rid'")
    case False
    then have "is_create" "room_id_is_create_event_id v"
      using field c by (auto simp: classify_def room_id_of_def str_of_def split: option.splits json.splits if_splits)
    moreover have "room_id event = Some rid" if "from_canonical R raw = Inr (ip_pdu event)" for event
      using that field[OF False]
      by (auto simp: from_canonical_def room_id_def de_opt_def de_string_def split: if_splits dest!: arg_cong[where f = pdu_room_id])
    ultimately show ?thesis by (auto simp: check_create_def reject_def)
  qed simp
qed

end
