(* ===== verification/Room_Changes.thy ===== *)
theory Room_Changes
  imports Room_Shards
begin

text \<open>
  The change stream of a room shard as its consumers read it: \<open>RoomChanges::recv\<close> of \<open>lib.rs\<close> refills what
  the broadcast channel skipped from the applied state, and \<open>ShardTail\<close> of \<open>shards.rs\<close> carries on when the
  backend of the shard is swapped.
\<close>

text \<open>
  What the receiver of the channel yields, each with the state of the shard at that moment: a record, the
  notice that records were dropped, or that the channel is closed. Resubscribing goes on with the rest.
\<close>

datatype signal = Got "u64 \<times> bytes" | Lagged | Closed

type_synonym signals = "(signal \<times> read_ctx) list"

definition REFILL :: nat where "REFILL = 256"

text \<open>
  One call of \<open>recv\<close>, from the last number delivered and the refill buffer. It returns the record or the end
  of the stream, with the new state; it has no result while it waits for a signal.
\<close>

fun changes_recv ::
  "room_codecs \<Rightarrow> u64 \<Rightarrow> (u64 \<times> bytes) list \<Rightarrow> signals \<Rightarrow> ((u64 \<times> bytes) option \<times> u64 \<times> (u64 \<times> bytes) list \<times> signals) option" where
  "changes_recv C at (r # buffer) sigs = Some (Some r, fst r, buffer, sigs)"
| "changes_recv C at [] [] = None"
| "changes_recv C at [] ((Got r, rd) # sigs) =
     (if fst r \<le> at then changes_recv C at [] sigs
      else if fst r > at + 1
      then (case room_replay C rd at REFILL of
              Inr (b # batch) \<Rightarrow> Some (Some b, fst b, batch, sigs)
            | Inr [] \<Rightarrow> changes_recv C at [] sigs
            | Inl _ \<Rightarrow> Some (Some r, fst r, [], sigs))
      else Some (Some r, fst r, [], sigs))"
| "changes_recv C at [] ((Lagged, rd) # sigs) =
     (case room_replay C rd at REFILL of
        Inr (b # batch) \<Rightarrow> Some (Some b, fst b, batch, sigs)
      | _ \<Rightarrow> changes_recv C at [] sigs)"
| "changes_recv C at [] ((Closed, rd) # sigs) = Some (None, at, [], sigs)"

text \<open>The records that a consumer reads until it waits or the stream ends.\<close>

lemma changes_recv_shrinks:
  "changes_recv C at buffer sigs = Some (r, at', buffer', sigs') \<Longrightarrow>
     length sigs' < length sigs \<or> sigs' = sigs \<and> length buffer' < length buffer"
  by (induction C at buffer sigs rule: changes_recv.induct) (auto split: if_splits sum.splits list.splits)

function changes_deliver :: "room_codecs \<Rightarrow> u64 \<Rightarrow> (u64 \<times> bytes) list \<Rightarrow> signals \<Rightarrow> (u64 \<times> bytes) list" where
  "changes_deliver C at buffer sigs =
     (case changes_recv C at buffer sigs of
        Some (Some r, at', buffer', sigs') \<Rightarrow> r # changes_deliver C at' buffer' sigs'
      | _ \<Rightarrow> [])"
  by pat_completeness auto
termination
  by (relation "measures [\<lambda>(C, at, buffer, sigs). length sigs, \<lambda>(C, at, buffer, sigs). length buffer]")
     (auto dest!: changes_recv_shrinks)

declare changes_deliver.simps [simp del]

text \<open>
  A backend of a slot: hosted, with the signals of its channel, or remote, with the answers of the
  subscription that starts after a number. Both last until the slot is swapped or the stream ends.
\<close>

datatype backend = Hosted signals | RemoteAt "u64 \<Rightarrow> (string + u64 \<times> bytes) list"

definition backend_deliver :: "room_codecs \<Rightarrow> u64 \<Rightarrow> backend \<Rightarrow> (u64 \<times> bytes) list" where
  "backend_deliver C at b =
     (case b of
        Hosted sigs \<Rightarrow> changes_deliver C at [] sigs
      | RemoteAt stream \<Rightarrow> List.map_filter (\<lambda>r. case r of Inr x \<Rightarrow> Some x | Inl _ \<Rightarrow> None) (takeWhile is_ok (stream at)))"

fun tail_deliver :: "room_codecs \<Rightarrow> u64 \<Rightarrow> backend list \<Rightarrow> (u64 \<times> bytes) list" where
  "tail_deliver C at [] = []"
| "tail_deliver C at (b # bs) =
     (let rs = backend_deliver C at b in rs @ tail_deliver C (fold (\<lambda>r at. max at (fst r)) rs at) bs)"

section \<open>Delivery without gaps\<close>

text \<open>The records of a shard are numbered from one.\<close>

definition numbered :: "(u64 \<times> bytes) list \<Rightarrow> bool" where
  "numbered out \<longleftrightarrow> (\<forall>i < length out. unat (fst (out ! i)) = Suc i)"

lemma history_numbered:
  assumes "room_history C ok s db seq out" and "length out < 2 ^ 64"
  shows "numbered out"
proof -
  obtain es where es: "out = journal_emits C 0 es" using history_journal[OF assms(1)] by blast
  have "unat (of_nat (Suc i) :: u64) = Suc i" if "i < length es" for i
    using that assms(2) unfolding es by (subst unat_of_nat) (simp add: journal_emits_nth)
  then show ?thesis unfolding numbered_def es journal_emits_nth by (simp del: of_nat_Suc)
qed

lemma numbered_mem: "numbered out \<Longrightarrow> r \<in> set out \<Longrightarrow> \<exists>i < length out. r = out ! i \<and> unat (fst r) = Suc i"
  unfolding numbered_def in_set_conv_nth by blast

lemma numbered_after:
  assumes "numbered out" and "unat at = n"
  shows "filter (\<lambda>(q, _). at < q) out = drop n out"
proof -
  have "at < fst (out ! i) \<longleftrightarrow> n \<le> i" if "i < length out" for i
    using assms that unfolding numbered_def word_less_nat_alt by auto
  note gt = this
  have low: "\<not> at < fst x" if x: "x \<in> set (take n out)" for x
  proof -
    from x obtain i where "i < n" "i < length out" "out ! i = x" unfolding in_set_conv_nth by auto
    then show ?thesis using gt[of i] by simp
  qed
  have high: "at < fst x" if x: "x \<in> set (drop n out)" for x
  proof -
    from x obtain i where "i < length out - n" "out ! (n + i) = x" unfolding in_set_conv_nth by auto
    then show ?thesis using gt[of "n + i"] by simp
  qed
  have "filter (\<lambda>x. at < fst x) (take n out @ drop n out) = drop n out"
    unfolding filter_append using low high by (simp add: filter_empty_conv filter_id_conv del: append_take_drop_id)
  then show ?thesis by (simp add: case_prod_unfold)
qed

text \<open>A signal is faithful when it comes with a state the shard was in, and announces what was applied.\<close>

definition faithful_signal ::
  "room_codecs \<Rightarrow> (apply_ctx \<Rightarrow> room_command \<Rightarrow> bool) \<Rightarrow> shard_id \<Rightarrow> (u64 \<times> bytes) list \<Rightarrow> signal \<times> read_ctx \<Rightarrow> bool" where
  "faithful_signal C ok s out = (\<lambda>(sig, rd).
     \<exists>db seq seen rest. rd = \<lparr>rd_shard = s, rd_engine = db\<rparr> \<and> room_history C ok s db seq seen \<and> out = seen @ rest
       \<and> (\<forall>r. sig = Got r \<longrightarrow> r \<in> set seen))"

lemma faithful_replay:
  assumes "faithful_signal C ok s out (sig, rd)" and "lossless (rc_seq C)" and "Suc (length out) < 2 ^ 64" and "unat at = n" and "n \<le> length out"
  shows "\<exists>m. room_replay C rd at limit = Inr (take (min limit m) (drop n out)) \<and> n + m \<le> length out
    \<and> (\<forall>r. sig = Got r \<longrightarrow> unat (fst r) \<le> n + m)"
proof -
  from assms(1) obtain db seq seen rest where rd: "rd = \<lparr>rd_shard = s, rd_engine = db\<rparr>" and h: "room_history C ok s db seq seen"
    and out: "out = seen @ rest" and got: "\<forall>r. sig = Got r \<longrightarrow> r \<in> set seen" by (auto simp: faithful_signal_def)
  have len: "length seen < 2 ^ 64" using out assms(3) by simp
  have "unat at \<noteq> unat (- 1 :: u64)" using assms(3-5) by (simp add: unsigned_minus_1_eq_mask mask_eq_exp_minus_1)
  then have "at \<noteq> - 1" by blast
  then have "room_replay C rd at limit = Inr (take limit (drop n seen))"
    using replay_emits[OF assms(2) h len] numbered_after[OF history_numbered[OF h len] assms(4)] rd by simp
  moreover have "take limit (drop n seen) = take (min limit (length seen - n)) (drop n out)"
    by (cases "limit \<le> length seen - n") (auto simp: out min_def)
  moreover have "unat (fst r) \<le> length seen" if "sig = Got r" for r
    using numbered_mem[OF history_numbered[OF h len]] got that by fastforce
  ultimately show ?thesis using out assms(5) by (intro exI[of _ "length seen - n"]) auto
qed


text \<open>
  A consumer that has read the first \<open>n\<close> records and holds a refill of the next ones, with faithful signals
  to come.
\<close>

definition resumes ::
  "room_codecs \<Rightarrow> (apply_ctx \<Rightarrow> room_command \<Rightarrow> bool) \<Rightarrow> shard_id \<Rightarrow> (u64 \<times> bytes) list \<Rightarrow> nat \<Rightarrow> u64 \<Rightarrow> (u64 \<times> bytes) list \<Rightarrow> signals \<Rightarrow> bool" where
  "resumes C ok s out n at buffer sigs \<longleftrightarrow> unat at = n \<and> n \<le> length out
     \<and> (\<exists>j. buffer = take j (drop n out)) \<and> (\<forall>x \<in> set sigs. faithful_signal C ok s out x)"

definition journal_ok :: "room_codecs \<Rightarrow> (u64 \<times> bytes) list \<Rightarrow> bool" where
  "journal_ok C out \<longleftrightarrow> lossless (rc_seq C) \<and> numbered out \<and> Suc (length out) < 2 ^ 64"

lemma resumes_step:
  assumes "unat at = n" and "numbered out" and "n < length out" and "\<forall>x \<in> set sigs. faithful_signal C ok s out x"
    and "buffer = take j (drop (Suc n) out)"
  shows "resumes C ok s out (Suc n) (fst (out ! n)) buffer sigs"
  using assms unfolding resumes_def numbered_def by auto

lemma refill_step:
  assumes "take j (drop n out) = b # batch"
  shows "n < length out \<and> b = out ! n \<and> batch = take (j - 1) (drop (Suc n) out)"
proof -
  have n: "n < length out" using assms by (cases "n < length out") auto
  then have "take j (drop n out) = take j (out ! n # drop (Suc n) out)" by (simp add: Cons_nth_drop_Suc)
  then show ?thesis using assms n by (cases j) auto
qed

text \<open>A call delivers the next record, and brings every record announced so far within the refill closer.\<close>

definition awaits :: "(u64 \<times> bytes) list \<Rightarrow> nat \<Rightarrow> (u64 \<times> bytes) list \<Rightarrow> signals \<Rightarrow> nat \<Rightarrow> bool" where
  "awaits out n buffer sigs q \<longleftrightarrow> q \<le> n + length buffer \<or> (\<exists>r rd. (Got r, rd) \<in> set sigs \<and> unat (fst r) = q)"

lemma awaits_skip:
  "awaits out n [] ((sg, rd) # sigs) q \<Longrightarrow> (\<And>r. sg = Got r \<Longrightarrow> unat (fst r) \<le> n) \<Longrightarrow> awaits out n [] sigs q"
  unfolding awaits_def list.set by (metis Pair_inject add_0_right insertE list.size(3))

lemma awaits_refill:
  assumes "awaits out n [] ((sg, rd) # sigs) q" and "q \<le> Suc n + length batch \<or> (\<forall>r. sg = Got r \<longrightarrow> unat (fst r) \<noteq> q)"
  shows "awaits out (Suc n) batch sigs q"
proof (cases "q \<le> Suc n + length batch")
  case False
  then obtain r rd' where "(Got r, rd') \<in> set ((sg, rd) # sigs)" "unat (fst r) = q"
    using assms(1) unfolding awaits_def by fastforce
  then have "(Got r, rd') \<in> set sigs" using assms(2) False by fastforce
  then show ?thesis using \<open>unat (fst r) = q\<close> unfolding awaits_def by blast
qed (simp add: awaits_def)

lemma unat_next: "unat (at :: u64) = n \<Longrightarrow> Suc n < 2 ^ 64 \<Longrightarrow> unat (at + 1) = Suc n"
  by (simp add: unat_word_ariths)

lemma refilled:
  assumes j: "journal_ok C out" and r: "resumes C ok s out n at [] ((sg, rd) # sigs)"
    and b: "room_replay C rd at REFILL = Inr (b # batch)"
  shows "n < length out \<and> b = out ! n \<and> resumes C ok s out (Suc n) (fst b) batch sigs
    \<and> (\<forall>q. awaits out n [] ((sg, rd) # sigs) q \<longrightarrow> q \<le> n + REFILL \<longrightarrow> awaits out (Suc n) batch sigs q)"
proof -
  have at: "unat at = n" "n \<le> length out" "faithful_signal C ok s out (sg, rd)" "\<forall>x \<in> set sigs. faithful_signal C ok s out x"
    using r by (auto simp: resumes_def)
  obtain m where m: "room_replay C rd at REFILL = Inr (take (min REFILL m) (drop n out))" "n + m \<le> length out"
    "\<forall>r. sg = Got r \<longrightarrow> unat (fst r) \<le> n + m"
    using faithful_replay[OF at(3) _ _ at(1,2)] j unfolding journal_ok_def by blast
  have B: "take (min REFILL m) (drop n out) = b # batch" using m(1) b by simp
  note R = refill_step[OF B]
  have "Suc n + length batch = n + min REFILL m" using arg_cong[OF B, of length] m(2) by simp
  then have "\<forall>q. awaits out n [] ((sg, rd) # sigs) q \<longrightarrow> q \<le> n + REFILL \<longrightarrow> awaits out (Suc n) batch sigs q"
    using m(3) by (intro allI impI awaits_refill) auto
  then show ?thesis using R resumes_step[OF at(1) _ _ at(4)] j by (simp add: journal_ok_def)
qed

lemma recv_next:
  assumes "journal_ok C out" and "resumes C ok s out n at buffer sigs"
  shows "case changes_recv C at buffer sigs of
      None \<Rightarrow> \<forall>q. awaits out n buffer sigs q \<longrightarrow> q \<le> n + REFILL \<longrightarrow> q \<le> n
    | Some (None, _, _, sigs') \<Rightarrow> Closed \<in> fst ` set sigs
    | Some (Some r, at', buffer', sigs') \<Rightarrow> n < length out \<and> r = out ! n \<and> resumes C ok s out (Suc n) at' buffer' sigs'
        \<and> set sigs' \<subseteq> set sigs \<and> (\<forall>q. awaits out n buffer sigs q \<longrightarrow> q \<le> n + REFILL \<longrightarrow> awaits out (Suc n) buffer' sigs' q)"
  using assms
proof (induction C at buffer sigs rule: changes_recv.induct)
  case (1 C at r buffer sigs)
  from "1.prems" obtain j where j: "take j (drop n out) = r # buffer" "unat at = n" "\<forall>x \<in> set sigs. faithful_signal C ok s out x"
    by (metis resumes_def)
  note R = refill_step[OF j(1)]
  have "resumes C ok s out (Suc n) (fst r) buffer sigs"
    using resumes_step[OF j(2) _ _ j(3)] R "1.prems"(1) by (simp add: journal_ok_def)
  then show ?case using R by (auto simp: awaits_def)
next
  case (2 C at)
  then show ?case by (simp add: awaits_def)
next
  case (3 C at r rd sigs)
  have at: "unat at = n" "n \<le> length out" "faithful_signal C ok s out (Got r, rd)"
    and rest: "resumes C ok s out n at [] sigs" and sigs: "\<forall>x \<in> set sigs. faithful_signal C ok s out x"
    using "3.prems"(2) by (auto simp: resumes_def)
  note J = "3.prems"(1)[unfolded journal_ok_def]
  obtain i where i: "i < length out" "r = out ! i" "unat (fst r) = Suc i"
  proof -
    have "r \<in> set out" using at(3) unfolding faithful_signal_def prod.case by (metis UnI1 set_append)
    then show ?thesis using numbered_mem[of out r] J that by blast
  qed
  consider "Suc i \<le> n" | "i = n" | "Suc n < Suc i" by linarith
  then show ?case
  proof cases
    case 1
    then have le: "fst r \<le> at" using i(3) at(1) by (simp add: word_le_nat_alt)
    have aw: "awaits out n [] sigs q" if "awaits out n [] ((Got r, rd) # sigs) q" for q
      by (rule awaits_skip[OF that]) (use 1 i(3) in simp)
    show ?thesis using "3.IH"(1)[OF le "3.prems"(1) rest] le aw
      by (auto split: option.splits prod.splits)
  next
    case 2
    then have c: "\<not> fst r \<le> at" "\<not> at + 1 < fst r"
      using i(3) at unat_next[OF at(1)] J by (simp_all add: word_le_nat_alt word_less_nat_alt)
    then have "changes_recv C at [] ((Got r, rd) # sigs) = Some (Some r, fst r, [], sigs)" by simp
    moreover have "resumes C ok s out (Suc n) (fst r) [] sigs"
      using resumes_step[OF at(1) _ _ sigs, of "[]" 0] i 2 J by simp
    moreover have "awaits out (Suc n) [] sigs q" if "awaits out n [] ((Got r, rd) # sigs) q" for q
      by (rule awaits_refill[OF that]) (use i(3) 2 in auto)
    ultimately show ?thesis using i 2 by auto
  next
    case 3
    then have c: "\<not> fst r \<le> at" "at + 1 < fst r"
      using i at unat_next[OF at(1)] J by (simp_all add: word_le_nat_alt word_less_nat_alt)
    obtain m where m: "room_replay C rd at REFILL = Inr (take (min REFILL m) (drop n out))" "unat (fst r) \<le> n + m"
      using faithful_replay[OF at(3) _ _ at(1,2), of REFILL] J by blast
    then have "take (min REFILL m) (drop n out) \<noteq> []" using 3 i by (auto simp: REFILL_def)
    then obtain b batch where b: "room_replay C rd at REFILL = Inr (b # batch)"
      using m(1) by (metis list.exhaust)
    then have "changes_recv C at [] ((Got r, rd) # sigs) = Some (Some b, fst b, batch, sigs)" using c by simp
    then show ?thesis using refilled[OF "3.prems" b] by auto
  qed
next
  case (4 C at rd sigs)
  have rest: "resumes C ok s out n at [] sigs" using "4.prems"(2) by (auto simp: resumes_def)
  have aw: "awaits out n [] sigs q" if "awaits out n [] ((Lagged, rd) # sigs) q" for q
    by (rule awaits_skip[OF that]) simp
  consider b batch where "room_replay C rd at REFILL = Inr (b # batch)"
    | e where "room_replay C rd at REFILL = Inl e" | "room_replay C rd at REFILL = Inr []"
    by (metis list.exhaust sum.exhaust)
  then show ?case
  proof cases
    case 1
    then show ?thesis using refilled[OF "4.prems" 1] by auto
  next
    case 2
    then show ?thesis using "4.IH"(1)[OF 2 "4.prems"(1) rest] aw by (auto split: option.splits prod.splits)
  next
    case 3
    then show ?thesis using "4.IH"(2)[OF 3 refl "4.prems"(1) rest] aw by (auto split: option.splits prod.splits)
  qed
next
  case (5 C at rd sigs)
  then show ?case by simp
qed


lemma deliver_exact:
  assumes "journal_ok C out" and "resumes C ok s out n at buffer sigs"
  shows "\<exists>k. changes_deliver C at buffer sigs = take k (drop n out) \<and> (Closed \<notin> fst ` set sigs \<longrightarrow>
    (\<forall>q. awaits out n buffer sigs q \<longrightarrow> q \<le> n + REFILL \<longrightarrow> q \<le> n + length (changes_deliver C at buffer sigs)))"
  using assms
proof (induction C at buffer sigs arbitrary: n rule: changes_deliver.induct)
  case (1 C at buffer sigs)
  note N = recv_next[OF "1.prems"]
  consider "changes_recv C at buffer sigs = None" | at' b' s' where "changes_recv C at buffer sigs = Some (None, at', b', s')"
    | r at' b' s' where "changes_recv C at buffer sigs = Some (Some r, at', b', s')"
    by (metis option.exhaust prod_cases4)
  then show ?case
  proof cases
    case 1
    then show ?thesis using N by (subst (1 2) changes_deliver.simps) (auto intro!: exI[of _ 0])
  next
    case 2
    then show ?thesis using N by (subst (1 2) changes_deliver.simps) (auto intro!: exI[of _ 0])
  next
    case 3
    then have R: "n < length out" "r = out ! n" "resumes C ok s out (Suc n) at' b' s'" "set s' \<subseteq> set sigs"
      "\<And>q. awaits out n buffer sigs q \<Longrightarrow> q \<le> n + REFILL \<Longrightarrow> awaits out (Suc n) b' s' q"
      using N by auto
    have eq: "changes_deliver C at buffer sigs = r # changes_deliver C at' b' s'"
      using 3 by (subst changes_deliver.simps) simp
    obtain k where k: "changes_deliver C at' b' s' = take k (drop (Suc n) out)" and live: "Closed \<notin> fst ` set s' \<Longrightarrow>
        awaits out (Suc n) b' s' q \<Longrightarrow> q \<le> Suc n + REFILL \<Longrightarrow> q \<le> Suc n + length (changes_deliver C at' b' s')" for q
      using "1.IH"[OF 3 refl refl refl refl "1.prems"(1) R(3)] by blast
    have "changes_deliver C at buffer sigs = take (Suc k) (drop n out)"
      using eq k R(1,2) by (simp flip: Cons_nth_drop_Suc)
    moreover have "q \<le> n + length (changes_deliver C at buffer sigs)"
      if "Closed \<notin> fst ` set sigs" "awaits out n buffer sigs q" "q \<le> n + REFILL" for q
      using live[of q] R(4,5) that eq by auto
    ultimately show ?thesis by blast
  qed
qed

lemma fold_max_numbered:
  assumes "numbered out" and "unat at = n" and "n \<le> length out" and "rs = take k (drop n out)"
  shows "unat (fold (\<lambda>r at. max at (fst r)) rs at) = n + length rs"
  using assms
proof (induction rs arbitrary: at n k)
  case (Cons r rs)
  note R = refill_step[OF Cons.prems(4)[symmetric]]
  have u: "unat (fst r) = Suc n" using R Cons.prems(1) by (simp add: numbered_def)
  then have "max at (fst r) = fst r" using Cons.prems(2) by (simp add: max_def word_le_nat_alt)
  then show ?case using Cons.IH[OF Cons.prems(1) u, of "k - 1"] R by simp
qed simp

definition faithful_backend ::
  "room_codecs \<Rightarrow> (apply_ctx \<Rightarrow> room_command \<Rightarrow> bool) \<Rightarrow> shard_id \<Rightarrow> (u64 \<times> bytes) list \<Rightarrow> backend \<Rightarrow> bool" where
  "faithful_backend C ok s out b =
     (case b of
        Hosted sigs \<Rightarrow> \<forall>x \<in> set sigs. faithful_signal C ok s out x
      | RemoteAt stream \<Rightarrow> \<forall>n \<le> length out. \<exists>k. backend_deliver C (of_nat n) (RemoteAt stream) = take k (drop n out))"

lemma backend_prefix:
  assumes "journal_ok C out" and "faithful_backend C ok s out b" and at: "unat at = n" "n \<le> length out"
  shows "\<exists>k. backend_deliver C at b = take k (drop n out)"
proof (cases b)
  case (Hosted sigs)
  then have "resumes C ok s out n at [] sigs" using assms by (auto simp: resumes_def faithful_backend_def intro: exI[of _ 0])
  then show ?thesis using deliver_exact[OF assms(1)] Hosted by (auto simp: backend_deliver_def)
next
  case (RemoteAt stream)
  moreover have "at = of_nat n" using at(1) by auto
  ultimately show ?thesis using assms(2) at(2) by (auto simp: faithful_backend_def)
qed

text \<open>
  C26: A consumer of a shard's changes reads the records of the shard one after the other, from where it started,
  none twice and none left out: whatever the channel drops, and however often the backend of the slot is
  swapped between this node and others. What a remote subscription is to do is hand on the records after its
  number in order.
\<close>

theorem changes_gap_free:
  assumes "lossless (rc_seq C)" and "room_history C ok s db seq out" and "Suc (length out) < 2 ^ 64"
    and "\<forall>b \<in> set backends. faithful_backend C ok s out b" and "unat at \<le> length out"
  shows "\<exists>k. tail_deliver C at backends = take k (drop (unat at) out)"
proof -
  have j: "journal_ok C out" using assms(1-3) history_numbered[OF assms(2)] by (simp add: journal_ok_def)
  show ?thesis
    using assms(4,5)
  proof (induction backends arbitrary: at)
    case Nil
    show ?case by (rule exI[of _ 0]) simp
  next
    case (Cons b bs)
    let ?n = "unat at" and ?rs = "backend_deliver C at b"
    let ?at = "fold (\<lambda>r at. max at (fst r)) ?rs at"
    obtain k where k: "?rs = take k (drop ?n out)" using backend_prefix[OF j _ refl Cons.prems(2), of ok s b] Cons.prems(1) by auto
    have u: "unat ?at = ?n + length ?rs"
      using fold_max_numbered[OF _ refl _ k] j Cons.prems(2) by (simp add: journal_ok_def)
    have le: "unat ?at \<le> length out" using u arg_cong[OF k, of length] Cons.prems(2) by simp
    obtain k' where k': "tail_deliver C ?at bs = take k' (drop (?n + length ?rs) out)"
      using Cons.IH[of ?at] Cons.prems(1) le u by auto
    have "?rs = take (length ?rs) (drop ?n out)" using k by (simp add: min_def)
    then have "?rs @ take k' (drop (length ?rs) (drop ?n out)) = take (length ?rs + k') (drop ?n out)"
      unfolding take_add by metis
    then show ?case using k' by (auto simp: Let_def add.commute)
  qed
qed

text \<open>
  C27: Whatever is announced is delivered: as long as the channel stays open, a record within one refill of the
  consumer reaches it once its announcement has been received.
\<close>

theorem announced_record_delivered:
  assumes "lossless (rc_seq C)" and "room_history C ok s db seq out" and "Suc (length out) < 2 ^ 64"
    and "\<forall>x \<in> set sigs. faithful_signal C ok s out x" and "unat at \<le> length out"
    and "(Got r, rd) \<in> set sigs" and "Closed \<notin> fst ` set sigs" and "at < fst r" and "unat (fst r) \<le> unat at + REFILL"
  shows "r \<in> set (changes_deliver C at [] sigs)"
proof -
  have j: "journal_ok C out" using assms(1-3) history_numbered[OF assms(2)] by (simp add: journal_ok_def)
  have "resumes C ok s out (unat at) at [] sigs" using assms(4,5) by (auto simp: resumes_def intro: exI[of _ 0])
  from deliver_exact[OF j this] obtain k where k: "changes_deliver C at [] sigs = take k (drop (unat at) out)"
    and q: "unat (fst r) \<le> unat at + length (changes_deliver C at [] sigs)"
    using assms(6,7,9) unfolding awaits_def by blast
  have "r \<in> set out" using assms(4,6) unfolding faithful_signal_def by fastforce
  then obtain i where i: "i < length out" "r = out ! i" "unat (fst r) = Suc i"
    using numbered_mem j by (metis journal_ok_def)
  have "unat at \<le> i" "i - unat at < length (changes_deliver C at [] sigs)" using q i(3) assms(8) by (auto simp: word_less_nat_alt)
  moreover then have "changes_deliver C at [] sigs ! (i - unat at) = r" unfolding k using i assms(5) by simp
  ultimately show ?thesis by (metis nth_mem)
qed


text \<open>
  After a gap the refill stops at its limit and the announcement is dropped: the rest of what the shard has
  applied, the announced record among it, is not delivered until the channel brings another signal.
\<close>

theorem refill_waits_at_limit:
  assumes "lossless (rc_seq C)" and "room_history C ok s db seq out" and "Suc (length out) < 2 ^ 64"
    and "r \<in> set out" and "unat at + 1 < unat (fst r)"
  shows "changes_deliver C at [] [(Got r, \<lparr>rd_shard = s, rd_engine = db\<rparr>)] = take REFILL (drop (unat at) out)"
proof -
  have len: "length out < 2 ^ 64" using assms(3) by simp
  note num = history_numbered[OF assms(2) len]
  obtain i where i: "i < length out" "unat (fst r) = Suc i" using numbered_mem[OF num assms(4)] by blast
  have "at \<noteq> - 1" using assms(3,5) i by (auto simp: unsigned_minus_1_eq_mask mask_eq_exp_minus_1)
  then have rep: "room_replay C \<lparr>rd_shard = s, rd_engine = db\<rparr> at REFILL = Inr (take REFILL (drop (unat at) out))"
    using replay_emits[OF assms(1,2) len] numbered_after[OF num refl] by simp
  have "take REFILL (drop (unat at) out) \<noteq> []" using i assms(5) by (simp add: REFILL_def)
  then obtain b batch where b: "take REFILL (drop (unat at) out) = b # batch" by (metis list.exhaust)
  have "unat (at + 1) = Suc (unat at)" by (rule unat_next[OF refl]) (use i assms(3,5) in simp)
  then have c: "\<not> fst r \<le> at" "at + 1 < fst r" using assms(5) by (simp_all add: word_le_nat_alt word_less_nat_alt)
  have drain: "changes_deliver C q bs [] = bs" for q bs
    by (induction bs arbitrary: q) (subst changes_deliver.simps; simp)+
  show ?thesis using c rep b by (subst changes_deliver.simps) (simp add: drain)
qed

end
