(* ===== verification/Room_Joins.thy ===== *)
theory Room_Joins
  imports Room_Shards
begin

text \<open>
  Events that the room server builds (\<open>lib.rs\<close>): local events on the tip of a room, templates for members of
  other servers, and who may vouch for a restricted join. Signing is a function of the signer.
\<close>

record signer =
  server_name :: string
  sign_event :: "jobj \<Rightarrow> room_version \<Rightarrow> string + jobj"

definition hash_and_sign_event :: "signer \<Rightarrow> jobj \<Rightarrow> room_version \<Rightarrow> room_error + jobj" where
  "hash_and_sign_event S raw v = map_sum SignFailed id (sign_event S raw v)"

section \<open>Reading memberships\<close>

definition state_event_content :: "room_codecs \<Rightarrow> room_store \<Rightarrow> state_ids \<Rightarrow> string \<Rightarrow> string \<Rightarrow> room_error + jobj option" where
  "state_event_content C store state ty sk =
     (case bt_get state (ty, sk) of None \<Rightarrow> Inr None | Some eid \<Rightarrow> load_raw C store eid)"

definition membership_in :: "room_codecs \<Rightarrow> room_store \<Rightarrow> state_ids \<Rightarrow> string \<Rightarrow> room_error + string" where
  "membership_in C store state user =
     rbind (state_event_content C store state ''m.room.member'' user) (\<lambda>found.
       Inr (case Option.bind found (\<lambda>obj. content_str obj ''membership'') of Some m \<Rightarrow> m | None \<Rightarrow> ''leave''))"

section \<open>Restricted joins\<close>

text \<open>\<open>CannotCheck\<close> and \<open>NoAuthoriser\<close> are \<open>RestrictedAuth::CannotValidate\<close> and \<open>RestrictedAuth::CannotGrant\<close>.\<close>

datatype restricted_auth = NotNeeded | Authorised string | FailsConditions | CannotCheck | NoAuthoriser

definition allow_room :: "json \<Rightarrow> string option" where
  "allow_room entry =
     (case entry of
        JObj o' \<Rightarrow> if str_prop o' ''type'' = Some ''m.room_membership'' then str_prop o' ''room_id'' else None
      | _ \<Rightarrow> None)"

definition local_member ::
  "room_version ruma \<Rightarrow> room_codecs \<Rightarrow> room_store \<Rightarrow> string \<Rightarrow> state_ids \<Rightarrow> (string \<times> string) \<times> string \<Rightarrow> room_error + bool" where
  "local_member R C store our_name state = (\<lambda>((ty, sk), _).
     if ty \<noteq> ''m.room.member'' \<or> \<not> user_id_ok R sk \<or> user_server_name R sk \<noteq> our_name then Inr False
     else rbind (membership_in C store state sk) (\<lambda>m. Inr (m = ''join'')))"

text \<open>Whether an allow condition is met, and whether one could not be checked. The router finds the store of a room.\<close>

fun allow_loop ::
  "room_version ruma \<Rightarrow> room_codecs \<Rightarrow> (string \<Rightarrow> room_store option) \<Rightarrow> string \<Rightarrow> string \<Rightarrow> json list \<Rightarrow> bool \<Rightarrow> (bool \<times> bool) stage" where
  "allow_loop R C route our_name joiner [] uncheckable = dret (False, uncheckable)"
| "allow_loop R C route our_name joiner (entry # entries) uncheckable =
     (case allow_room entry of
        None \<Rightarrow> allow_loop R C route our_name joiner entries uncheckable
      | Some allowed \<Rightarrow>
          (case route allowed of
             None \<Rightarrow> None
           | Some store \<Rightarrow>
               dbind (Some (known_meta C store allowed)) (\<lambda>m.
               case m of
                 None \<Rightarrow> allow_loop R C route our_name joiner entries True
               | Some m2 \<Rightarrow>
                   dbind (resolved C store allowed (rm_current_group m2)) (\<lambda>s2.
                   dbind (Some (any_r (local_member R C store our_name s2) s2)) (\<lambda>participating.
                   if \<not> participating then allow_loop R C route our_name joiner entries True
                   else dbind (Some (membership_in C store s2 joiner)) (\<lambda>mem.
                     if mem = ''join'' then dret (True, uncheckable)
                     else allow_loop R C route our_name joiner entries uncheckable))))))"

definition better_authoriser ::
  "room_version ruma \<Rightarrow> room_codecs \<Rightarrow> room_store \<Rightarrow> string \<Rightarrow> room_power_levels \<Rightarrow> state_ids
     \<Rightarrow> (string \<times> string) \<times> string \<Rightarrow> (string \<times> power_level) option \<Rightarrow> room_error + (string \<times> power_level) option" where
  "better_authoriser R C store our_name pwr state = (\<lambda>((ty, sk), eid) best.
     rbind (local_member R C store our_name state ((ty, sk), eid)) (\<lambda>joined.
       Inr (if joined \<and> satisfies (user_level pwr sk) (invite pwr)
              \<and> (case best of None \<Rightarrow> True | Some (_, b) \<Rightarrow> user_level pwr sk > b)
            then Some (sk, user_level pwr sk) else best)))"

definition identify_raw :: "room_version ruma \<Rightarrow> room_version \<Rightarrow> jobj \<Rightarrow> room_error + identified_pdu" where
  "identify_raw R v raw = map_sum (\<lambda>_. MalformedEvent ''event'') id (identify R raw v)"

definition pick_authoriser ::
  "room_version ruma \<Rightarrow> room_codecs \<Rightarrow> room_store \<Rightarrow> string \<Rightarrow> room_version \<Rightarrow> state_ids \<Rightarrow> room_error + restricted_auth" where
  "pick_authoriser R C store our_name v state =
     rbind (state_event_content C store state ''m.room.create'' []) (\<lambda>create_raw.
     rbind (ok_or (MalformedEvent ''room has no create event'') create_raw) (\<lambda>create_raw.
     rbind (identify_raw R v create_raw) (\<lambda>create.
     rbind (state_event_content C store state ''m.room.power_levels'' []) (\<lambda>pl_raw.
     rbind (case pl_raw of None \<Rightarrow> Inr None | Some raw \<Rightarrow> rbind (identify_raw R v raw) (\<lambda>e. Inr (Some e))) (\<lambda>pl.
     rbind (map_sum (\<lambda>_. MalformedEvent ''power levels'') id (resolve_levels R v create pl)) (\<lambda>pwr.
     rbind (fold_r (better_authoriser R C store our_name pwr state) state None) (\<lambda>best.
       Inr (case best of Some (u, _) \<Rightarrow> Authorised u | None \<Rightarrow> NoAuthoriser))))))))"

definition restricted_join_authoriser ::
  "room_version ruma \<Rightarrow> room_codecs \<Rightarrow> (string \<Rightarrow> room_store option) \<Rightarrow> room_store \<Rightarrow> string \<Rightarrow> string \<Rightarrow> string \<Rightarrow> restricted_auth stage" where
  "restricted_join_authoriser R C route store our_name rid joiner =
     dbind (Some (known_meta C store rid)) (\<lambda>meta.
     case meta of
       None \<Rightarrow> dret NotNeeded
     | Some meta \<Rightarrow>
         dbind (lift_err VersionError (parse_version (rm_version meta))) (\<lambda>v.
         dbind (resolved C store rid (rm_current_group meta)) (\<lambda>state.
         dbind (Some (state_event_content C store state ''m.room.join_rules'' [])) (\<lambda>jr.
         let jr_content = Option.bind jr (\<lambda>e. obj_prop e ''content'');
             join_rule = (case Option.bind jr_content (\<lambda>c. str_prop c ''join_rule'') of Some r \<Rightarrow> r | None \<Rightarrow> ''invite'') in
         if join_rule \<noteq> ''restricted'' \<and> join_rule \<noteq> ''knock_restricted'' then dret NotNeeded
         else dbind (Some (membership_in C store state joiner)) (\<lambda>mem.
           if mem = ''join'' \<or> mem = ''invite'' then dret NotNeeded
           else case Option.bind jr_content (\<lambda>c. bt_get c ''allow'') of
                  Some (JArr entries) \<Rightarrow>
                    dbind (allow_loop R C route our_name joiner entries False) (\<lambda>(met, uncheckable).
                      if \<not> met then dret (if uncheckable then CannotCheck else FailsConditions)
                      else Some (pick_authoriser R C store our_name v state))
                | _ \<Rightarrow> dret FailsConditions)))))"

section \<open>Building events\<close>

text \<open>
  An object assembled from canonical parts converts to canonical JSON when its integers are in range.
\<close>

definition canonical_obj :: "(string \<times> json) list \<Rightarrow> room_error + jobj" where
  "canonical_obj kvs =
     (if list_all (\<lambda>(_, j). case j of JInt i \<Rightarrow> \<bar>i\<bar> \<le> js_int_max | _ \<Rightarrow> True) kvs
      then Inr (bt_collect kvs) else Inl (MalformedEvent ''not canonical JSON''))"

definition tip_depth :: "room_codecs \<Rightarrow> room_store \<Rightarrow> string list \<Rightarrow> room_error + u64" where
  "tip_depth C store extremities =
     fold_r (\<lambda>eid depth.
       rbind (map_sum storage_err id (rs_event C store eid)) (\<lambda>found.
       rbind (ok_or (MissingEvents [eid]) found) (\<lambda>prev. Inr (max depth (se_depth prev))))) extremities 0"

definition ids_json :: "string list \<Rightarrow> json" where
  "ids_json ids = JArr (map JStr ids)"

definition selected_auth :: "room_version \<Rightarrow> string \<Rightarrow> string \<Rightarrow> string option \<Rightarrow> jobj \<Rightarrow> state_ids \<Rightarrow> string list" where
  "selected_auth v ty sndr sk c current = List.map_filter (bt_get current) (auth_types_for_event v ty sndr sk c)"

text \<open>The room as an event is built on it: its version, its current state and the depth of its tip.\<close>

definition room_tip :: "room_codecs \<Rightarrow> room_store \<Rightarrow> string \<Rightarrow> (room_meta \<times> room_version \<times> state_ids \<times> u64) stage" where
  "room_tip C store rid =
     dbind (Some (known_meta C store rid)) (\<lambda>meta.
     dbind (Some (ok_or (UnknownRoom rid) meta)) (\<lambda>meta.
     dbind (lift_err VersionError (parse_version (rm_version meta))) (\<lambda>v.
     dbind (resolved C store rid (rm_current_group meta)) (\<lambda>current.
     dbind (Some (tip_depth C store (rm_extremities meta))) (\<lambda>depth.
       dret (meta, v, current, depth))))))"

definition make_membership_template ::
  "room_codecs \<Rightarrow> room_store \<Rightarrow> u64 \<Rightarrow> string \<Rightarrow> string \<Rightarrow> string \<Rightarrow> string option \<Rightarrow> (room_version \<times> jobj) stage" where
  "make_membership_template C store now rid user mem authoriser =
     dbind (room_tip C store rid) (\<lambda>(meta, v, current, depth).
     let c = bt_collect ((''membership'', JStr mem) #
               (case authoriser of Some u \<Rightarrow> [(''join_authorised_via_users_server'', JStr u)] | None \<Rightarrow> [])) in
     dbind (Some (canonical_obj [(''room_id'', JStr rid), (''sender'', JStr user), (''state_key'', JStr user),
         (''origin_server_ts'', JInt (uint now)), (''type'', JStr ''m.room.member''), (''content'', JObj c),
         (''auth_events'', ids_json (selected_auth v ''m.room.member'' user (Some user) c current)),
         (''prev_events'', ids_json (rm_extremities meta)), (''depth'', JInt (uint (depth + 1)))])) (\<lambda>template.
       dret (v, template)))"

definition make_join_template ::
  "room_version ruma \<Rightarrow> room_codecs \<Rightarrow> (string \<Rightarrow> room_store option) \<Rightarrow> room_store \<Rightarrow> string \<Rightarrow> u64 \<Rightarrow> string \<Rightarrow> string
     \<Rightarrow> (room_version \<times> jobj) stage" where
  "make_join_template R C route store our_name now rid user =
     dbind (restricted_join_authoriser R C route store our_name rid user) (\<lambda>auth.
     case auth of
       NotNeeded \<Rightarrow> make_membership_template C store now rid user ''join'' None
     | Authorised u \<Rightarrow> make_membership_template C store now rid user ''join'' (Some u)
     | FailsConditions \<Rightarrow> dfail (CannotAuthoriseJoin Forbidden)
     | CannotCheck \<Rightarrow> dfail (CannotAuthoriseJoin CannotValidate)
     | NoAuthoriser \<Rightarrow> dfail (CannotAuthoriseJoin CannotGrant))"

definition make_leave_template :: "room_codecs \<Rightarrow> room_store \<Rightarrow> u64 \<Rightarrow> string \<Rightarrow> string \<Rightarrow> (room_version \<times> jobj) stage" where
  "make_leave_template C store now rid user = make_membership_template C store now rid user ''leave'' None"

definition make_knock_template :: "room_codecs \<Rightarrow> room_store \<Rightarrow> u64 \<Rightarrow> string \<Rightarrow> string \<Rightarrow> (room_version \<times> jobj) stage" where
  "make_knock_template C store now rid user = make_membership_template C store now rid user ''knock'' None"

text \<open>
  The content of a local event comes as its conversion to canonical JSON leaves it; that of an invite or a
  create event is canonical.
\<close>

definition build_local ::
  "room_version ruma \<Rightarrow> signer \<Rightarrow> room_codecs \<Rightarrow> room_store \<Rightarrow> u64 \<Rightarrow> string \<Rightarrow> string \<Rightarrow> string \<Rightarrow> string option \<Rightarrow> string + json
     \<Rightarrow> u64 option \<Rightarrow> (jobj \<times> room_version) stage" where
  "build_local R S C store now rid sndr ty sk c ts =
     dbind (room_tip C store rid) (\<lambda>(meta, v, current, depth).
     dbind (Some (case c of
                    Inl e \<Rightarrow> Inl (MalformedEvent (''content not canonical JSON: '' @ e))
                  | Inr (JObj o') \<Rightarrow> Inr o'
                  | Inr _ \<Rightarrow> Inl (MalformedEvent ''content must be an object''))) (\<lambda>c.
     dbind (Some (canonical_obj ([(''room_id'', JStr rid), (''sender'', JStr sndr),
         (''origin_server_ts'', JInt (uint (case ts of Some t \<Rightarrow> t | None \<Rightarrow> now))), (''type'', JStr ty), (''content'', JObj c),
         (''auth_events'', ids_json (selected_auth v ty sndr sk c current)),
         (''prev_events'', ids_json (rm_extremities meta)), (''depth'', JInt (uint (depth + 1)))]
         @ (case sk of Some k \<Rightarrow> [(''state_key'', JStr k)] | None \<Rightarrow> [])))) (\<lambda>raw.
     dbind (Some (ok_or (MalformedEvent ''unserializable'') (json_to_string R raw))) (\<lambda>text.
     if length text > MAX_PDU_BYTES then dfail (ValidationFailed (TooLarge (length text)))
     else dbind (Some (hash_and_sign_event S raw v)) (\<lambda>raw. dret (raw, v))))))"

definition build_invite ::
  "room_version ruma \<Rightarrow> signer \<Rightarrow> room_codecs \<Rightarrow> room_store \<Rightarrow> u64 \<Rightarrow> string \<Rightarrow> string \<Rightarrow> string \<Rightarrow> jobj \<Rightarrow> (room_version \<times> jobj) stage" where
  "build_invite R S C store now rid sndr target c =
     dbind (build_local R S C store now rid sndr ''m.room.member'' (Some target)
              (Inr (JObj (bt_insert ''membership'' (JStr ''invite'') c))) None) (\<lambda>(raw, v). dret (v, raw))"

text \<open>A local event, from its parts to the decision of the pipeline.\<close>

definition send_local ::
  "room_version ruma \<Rightarrow> signer \<Rightarrow> room_codecs \<Rightarrow> public_key_map \<Rightarrow> room_store \<Rightarrow> u64 \<Rightarrow> string \<Rightarrow> string \<Rightarrow> string
     \<Rightarrow> string option \<Rightarrow> string + json \<Rightarrow> u64 option \<Rightarrow> txn_stamp option \<Rightarrow> decision stage" where
  "send_local R S C keys store now rid sndr ty sk c ts txn =
     dbind (build_local R S C store now rid sndr ty sk c ts) (\<lambda>(raw, v).
       process_inner R C keys store raw v rid False False False txn)"

definition build_create ::
  "room_version ruma \<Rightarrow> signer \<Rightarrow> u64 \<Rightarrow> string \<Rightarrow> string \<Rightarrow> room_version \<Rightarrow> jobj \<Rightarrow> room_error + string \<times> jobj" where
  "build_create R S now new_room_id creator v c =
     (let c = bt_insert ''room_version'' (JStr (version_str v)) c;
          c = (if creator_in_create_content v then bt_insert ''creator'' (JStr creator) c else c) in
      rbind (canonical_obj ([(''sender'', JStr creator), (''origin_server_ts'', JInt (uint now)), (''type'', JStr ''m.room.create''),
          (''state_key'', JStr []), (''content'', JObj c), (''auth_events'', JArr []), (''prev_events'', JArr []), (''depth'', JInt 1)]
          @ (if room_id_is_create_event_id v then [] else [(''room_id'', JStr new_room_id)]))) (\<lambda>raw.
      rbind (hash_and_sign_event S raw v) (\<lambda>raw.
      rbind (if room_id_is_create_event_id v then map_sum FormatError id (room_id_for_create R raw v) else room_id_of R raw) (\<lambda>rid.
        Inr (rid, raw)))))"

section \<open>Answers to joins and knocks\<close>

definition join_state_event ::
  "room_codecs \<Rightarrow> room_store \<Rightarrow> string \<Rightarrow> jobj list \<times> string btree_set \<Rightarrow> room_error + jobj list \<times> string btree_set" where
  "join_state_event C store eid = (\<lambda>(state, seed).
     rbind (load_raw C store eid) (\<lambda>found.
       case found of
         None \<Rightarrow> Inr (state, seed)
       | Some obj \<Rightarrow> Inr (state @ [obj], bs_extend (auth_event_ids obj) seed)))"

text \<open>What \<open>send_join\<close> answers once the pipeline has taken the co-signed event.\<close>

definition send_join_result :: "room_codecs \<Rightarrow> room_store \<Rightarrow> string \<Rightarrow> outcome \<Rightarrow> jobj \<Rightarrow> (jobj \<times> jobj list \<times> jobj list) stage" where
  "send_join_result C store rid outcome event =
     (case outcome of
        OutRejected _ reason \<Rightarrow> dfail (MalformedEvent (''join rejected: '' @ reason))
      | _ \<Rightarrow>
          dbind (Some (known_meta C store rid)) (\<lambda>meta.
          dbind (Some (ok_or (UnknownRoom rid) meta)) (\<lambda>meta.
          dbind (resolved C store rid (rm_current_group meta)) (\<lambda>state_map.
          dbind (Some (fold_r (join_state_event C store) (map snd state_map) ([], []))) (\<lambda>(state, seed).
          dbind (collect_auth_chain C store seed) (\<lambda>chain. dret (event, state, chain)))))))"

definition KNOCK_STATE_TYPES :: "string list" where
  "KNOCK_STATE_TYPES = [''m.room.create'', ''m.room.join_rules'', ''m.room.canonical_alias'', ''m.room.name'',
     ''m.room.avatar'', ''m.room.topic'', ''m.room.encryption'']"

definition stripped_state_event :: "jobj \<Rightarrow> jobj" where
  "stripped_state_event raw =
     (let ks = (if bt_get raw ''type'' = Some (JStr ''m.room.create'')
                then [''content'', ''sender'', ''state_key'', ''type'', ''origin_server_ts'', ''auth_events'', ''depth'', ''hashes'',
                      ''prev_events'', ''signatures'']
                else [''content'', ''sender'', ''state_key'', ''type''])
      in bt_collect (List.map_filter (\<lambda>k. map_option (Pair k) (bt_get raw k)) ks))"

definition send_knock_result :: "room_codecs \<Rightarrow> room_store \<Rightarrow> string \<Rightarrow> string \<Rightarrow> outcome \<Rightarrow> jobj list stage" where
  "send_knock_result C store rid knocker outcome =
     (case outcome of
        OutRejected _ reason \<Rightarrow> dfail (MalformedEvent (''knock rejected: '' @ reason))
      | _ \<Rightarrow>
          dbind (Some (known_meta C store rid)) (\<lambda>meta.
          dbind (Some (ok_or (UnknownRoom rid) meta)) (\<lambda>meta.
          dbind (resolved C store rid (rm_current_group meta)) (\<lambda>state_map.
            Some (fold_r (\<lambda>k out. rbind (state_event_content C store state_map (fst k) (snd k)) (\<lambda>found.
                     Inr (case found of None \<Rightarrow> out | Some obj \<Rightarrow> out @ [stripped_state_event obj])))
                   (map (\<lambda>t. (t, [])) KNOCK_STATE_TYPES @ [(''m.room.member'', knocker)]) [])))))"


section \<open>Who vouches for a restricted join\<close>

text \<open>The events of a state as the authorisation rules see them.\<close>

definition views :: "room_version ruma \<Rightarrow> room_codecs \<Rightarrow> room_store \<Rightarrow> state_ids \<Rightarrow> state_view \<Rightarrow> bool" where
  "views R C store state st \<longleftrightarrow> (\<forall>ty sk. case bt_get state (ty, sk) of
       None \<Rightarrow> st ty sk = None
     | Some eid \<Rightarrow> held C store eid \<noteq> None \<and> (\<exists>e. st ty sk = Some e \<and> from_canonical R (held_obj C store eid) = Inr (ip_pdu e)))"

lemma viewsD:
  assumes "views R C store state st"
  shows "bt_get state (ty, sk) = None \<Longrightarrow> st ty sk = None"
    and "bt_get state (ty, sk) = Some eid \<Longrightarrow> held C store eid \<noteq> None \<and> (\<exists>e. st ty sk = Some e \<and> from_canonical R (held_obj C store eid) = Inr (ip_pdu e))"
proof -
  have "case bt_get state (ty, sk) of
       None \<Rightarrow> st ty sk = None
     | Some eid \<Rightarrow> held C store eid \<noteq> None \<and> (\<exists>e. st ty sk = Some e \<and> from_canonical R (held_obj C store eid) = Inr (ip_pdu e))"
    using assms unfolding views_def by blast
  then show "bt_get state (ty, sk) = None \<Longrightarrow> st ty sk = None"
    and "bt_get state (ty, sk) = Some eid \<Longrightarrow> held C store eid \<noteq> None \<and> (\<exists>e. st ty sk = Some e \<and> from_canonical R (held_obj C store eid) = Inr (ip_pdu e))"
    by simp_all
qed

lemma parsed_content: "from_canonical R raw = Inr (ip_pdu e) \<Longrightarrow> obj_prop raw ''content'' = Some (content e)"
  by (auto simp: from_canonical_def content_def de_obj_def obj_prop.simps split: option.splits json.splits dest!: arg_cong[where f = pdu_content])

lemma state_event_held:
  assumes "readable C store"
  shows "state_event_content C store state ty sk =
    Inr (case bt_get state (ty, sk) of None \<Rightarrow> None | Some eid \<Rightarrow> if held C store eid = None then None else Some (held_obj C store eid))"
  by (auto simp: state_event_content_def load_held[OF assms] split: option.split)

lemma membership_viewed:
  assumes rd: "readable C store" and v: "views R C store state st"
  shows "membership_in C store state user = Inr (membership st user)"
proof (cases "bt_get state (''m.room.member'', user)")
  case None
  then have "st ''m.room.member'' user = None" by (rule viewsD(1)[OF v])
  then show ?thesis using None by (simp add: membership_in_def state_event_held[OF rd] membership_def)
next
  case (Some eid)
  then obtain e where e: "held C store eid \<noteq> None" "st ''m.room.member'' user = Some e" "from_canonical R (held_obj C store eid) = Inr (ip_pdu e)"
    using viewsD(2)[OF v] by blast
  then show ?thesis
    using Some by (auto simp: membership_in_def state_event_held[OF rd] membership_def content_str_def parsed_content[OF e(3)])
qed

definition can_vouch :: "room_version ruma \<Rightarrow> string \<Rightarrow> state_view \<Rightarrow> room_power_levels \<Rightarrow> string \<Rightarrow> bool" where
  "can_vouch R our_name st pwr u \<longleftrightarrow> user_id_ok R u \<and> user_server_name R u = our_name \<and> membership st u = ''join''
     \<and> satisfies (user_level pwr u) (invite pwr)"

lemma better_viewed:
  assumes "readable C store" and "views R C store state st"
  shows "better_authoriser R C store our_name pwr state ((ty, sk), eid) best =
    Inr (if ty = ''m.room.member'' \<and> can_vouch R our_name st pwr sk \<and> (case best of None \<Rightarrow> True | Some (_, b) \<Rightarrow> user_level pwr sk > b)
         then Some (sk, user_level pwr sk) else best)"
  by (auto simp: better_authoriser_def local_member_def membership_viewed[OF assms] can_vouch_def)

text \<open>The loop keeps the strongest of the members that can vouch.\<close>

definition strongest :: "room_version ruma \<Rightarrow> string \<Rightarrow> state_view \<Rightarrow> room_power_levels \<Rightarrow> string set \<Rightarrow> (string \<times> power_level) option \<Rightarrow> bool" where
  "strongest R our_name st pwr us best \<longleftrightarrow>
     (case best of
        None \<Rightarrow> \<forall>u \<in> us. \<not> can_vouch R our_name st pwr u
      | Some (u, l) \<Rightarrow> u \<in> us \<and> can_vouch R our_name st pwr u \<and> l = user_level pwr u
          \<and> (\<forall>w \<in> us. can_vouch R our_name st pwr w \<longrightarrow> user_level pwr w \<le> l))"

lemma strongest_step:
  "strongest R our_name st pwr us best \<Longrightarrow> strongest R our_name st pwr (insert u us)
     (if can_vouch R our_name st pwr u \<and> (case best of None \<Rightarrow> True | Some (_, b) \<Rightarrow> user_level pwr u > b)
      then Some (u, user_level pwr u) else best)"
  unfolding strongest_def by (cases best) (auto intro: order.strict_implies_order less_le_trans)

definition members :: "((string \<times> string) \<times> string) list \<Rightarrow> string set" where
  "members entries = {u. \<exists>eid. ((''m.room.member'', u), eid) \<in> set entries}"

lemma best_authoriser:
  assumes "readable C store" and "views R C store state st" and "strongest R our_name st pwr us best"
    and "fold_r (better_authoriser R C store our_name pwr state) entries best = Inr best'"
  shows "strongest R our_name st pwr (members entries \<union> us) best'"
  using assms(3,4)
proof (induction entries arbitrary: us best)
  case Nil
  then show ?case by (simp add: members_def)
next
  case (Cons e entries)
  obtain ty sk eid where e: "e = ((ty, sk), eid)" by (metis prod.exhaust)
  let ?us = "if ty = ''m.room.member'' then insert sk us else us"
  obtain b where b: "better_authoriser R C store our_name pwr state e best = Inr b"
    "fold_r (better_authoriser R C store our_name pwr state) entries b = Inr best'" using Cons.prems(2) by auto
  have "strongest R our_name st pwr ?us b"
    using strongest_step[OF Cons.prems(1), of sk] Cons.prems(1) b(1) unfolding e better_viewed[OF assms(1,2)] by auto
  from Cons.IH[OF this b(2)] have "strongest R our_name st pwr (members entries \<union> ?us) best'" .
  moreover have "members entries \<union> ?us = members (e # entries) \<union> us" by (auto simp: members_def e)
  ultimately show ?case by simp
qed

lemma pick_viewed:
  assumes rd: "readable C store" and v: "views R C store state st" and pick: "pick_authoriser R C store our_name vn state = Inr (Authorised u)"
  shows "\<exists>create pl pwr. (\<exists>e. st ''m.room.create'' [] = Some e \<and> ip_pdu create = ip_pdu e)
    \<and> (case st ''m.room.power_levels'' [] of None \<Rightarrow> pl = None | Some e \<Rightarrow> \<exists>p. pl = Some p \<and> ip_pdu p = ip_pdu e)
    \<and> resolve_levels R vn create pl = Inr pwr \<and> can_vouch R our_name st pwr u
    \<and> (\<forall>w \<in> members state. can_vouch R our_name st pwr w \<longrightarrow> user_level pwr w \<le> user_level pwr u)"
proof -
  have ev: "case st ty sk of None \<Rightarrow> state_event_content C store state ty sk = Inr None
      | Some e \<Rightarrow> \<exists>raw. state_event_content C store state ty sk = Inr (Some raw) \<and> from_canonical R raw = Inr (ip_pdu e)" for ty sk
    using viewsD[OF v, of ty sk] unfolding state_event_held[OF rd] by (cases "bt_get state (ty, sk)") auto
  have idr: "ip_pdu x = p" if "identify_raw R vn raw = Inr x" "from_canonical R raw = Inr p" for x raw p
    using that by (auto simp: identify_raw_def identify_def split: sum.splits)
  from pick obtain craw create plraw pl pwr best where
    c: "state_event_content C store state ''m.room.create'' [] = Inr (Some craw)" "identify_raw R vn craw = Inr create"
    and p: "state_event_content C store state ''m.room.power_levels'' [] = Inr plraw"
      "(case plraw of None \<Rightarrow> Inr None | Some raw \<Rightarrow> rbind (identify_raw R vn raw) (\<lambda>e. Inr (Some e))) = Inr pl"
    and r: "resolve_levels R vn create pl = Inr pwr"
    and b: "fold_r (better_authoriser R C store our_name pwr state) state None = Inr best"
      "(case best of Some (u, _) \<Rightarrow> Authorised u | None \<Rightarrow> NoAuthoriser) = Authorised u"
    by (auto simp: pick_authoriser_def split: sum.splits)
  have "\<exists>e. st ''m.room.create'' [] = Some e \<and> ip_pdu create = ip_pdu e"
    using ev[of "''m.room.create''" "[]"] c idr[OF c(2)] by (auto split: option.splits)
  moreover have "case st ''m.room.power_levels'' [] of None \<Rightarrow> pl = None | Some e \<Rightarrow> \<exists>p. pl = Some p \<and> ip_pdu p = ip_pdu e"
    using ev[of "''m.room.power_levels''" "[]"] p idr by (auto split: option.splits)
  moreover have "strongest R our_name st pwr (members state \<union> {}) best"
    by (rule best_authoriser[OF rd v _ b(1)]) (simp add: strongest_def)
  ultimately show ?thesis using r b(2) unfolding strongest_def by (auto split: option.splits prod.splits)
qed


text \<open>A met condition: a room of the allow list that this server takes part in and the joiner is joined to.\<close>

definition allowed_by :: "room_version ruma \<Rightarrow> room_codecs \<Rightarrow> (string \<Rightarrow> room_store option) \<Rightarrow> string \<Rightarrow> string \<Rightarrow> json \<Rightarrow> bool" where
  "allowed_by R C route our_name joiner entry \<longleftrightarrow>
     (\<exists>allowed store m2 s2. allow_room entry = Some allowed \<and> route allowed = Some store \<and> known_meta C store allowed = Inr (Some m2)
        \<and> resolved C store allowed (rm_current_group m2) = Some (Inr s2) \<and> any_r (local_member R C store our_name s2) s2 = Inr True
        \<and> membership_in C store s2 joiner = Inr ''join'')"

lemma allow_loop_met:
  "allow_loop R C route our_name joiner entries unc = Some (Inr (True, unc')) \<Longrightarrow> \<exists>entry \<in> set entries. allowed_by R C route our_name joiner entry"
proof (induction entries arbitrary: unc)
  case Nil
  then show ?case by (simp add: dret_def)
next
  case (Cons entry entries)
  have rest: ?case if "allow_loop R C route our_name joiner entries b = Some (Inr (True, unc'))" for b
    using Cons.IH[OF that] by simp
  show ?case
  proof (cases "allow_room entry")
    case None
    then show ?thesis using Cons.prems rest by simp
  next
    case (Some allowed)
    from Cons.prems Some obtain store m where r: "route allowed = Some store" "known_meta C store allowed = Inr m"
      by (auto split: option.splits)
    show ?thesis
    proof (cases m)
      case None
      then show ?thesis using Cons.prems Some r rest by simp
    next
      case m2: (Some m2)
      from Cons.prems Some r m2 obtain s2 p where s: "resolved C store allowed (rm_current_group m2) = Some (Inr s2)"
        "any_r (local_member R C store our_name s2) s2 = Inr p" by auto
      show ?thesis
      proof (cases p)
        case False
        then show ?thesis using Cons.prems Some r m2 s rest by simp
      next
        case True
        then obtain mem where mem: "membership_in C store s2 joiner = Inr mem" using Cons.prems Some r m2 s by auto
        show ?thesis
        proof (cases "mem = ''join''")
          case True
          then have "allowed_by R C route our_name joiner entry"
            unfolding allowed_by_def using Some r m2 s mem \<open>p\<close> by auto
          then show ?thesis by simp
        next
          case False
          then show ?thesis using Cons.prems Some r m2 s mem \<open>p\<close> rest by simp
        qed
      qed
    qed
  qed
qed

text \<open>
  C23: A restricted join that this server vouches for, it may vouch for: the joiner is a member of a room of the
  allow list that a local user is in too, and the authorising user is a local member of the room whose power
  is enough to invite, the strongest of them. A join that names this user then passes the authorisation rule
  for joins, unless the joiner is banned.
\<close>

theorem restricted_join_vouched:
  assumes rd: "readable C store" and meta: "rs_meta C store rid = Inr (Some meta)"
    and state: "resolve_group C store rid (rm_current_group meta) = Some (Inr state)" and v: "views R C store state st"
    and auth: "restricted_join_authoriser R C route store our_name rid joiner = Some (Inr (Authorised u))"
    and event: "sender event = joiner" "str_prop (content event) ''join_authorised_via_users_server'' = Some u"
    and ban: "membership st joiner \<noteq> ''ban''"
  shows "\<exists>vn create pl pwr. parse_version (rm_version meta) = Inr vn
    \<and> (\<exists>e. st ''m.room.create'' [] = Some e \<and> ip_pdu create = ip_pdu e)
    \<and> (case st ''m.room.power_levels'' [] of None \<Rightarrow> pl = None | Some e \<Rightarrow> \<exists>p. pl = Some p \<and> ip_pdu p = ip_pdu e)
    \<and> resolve_levels R vn create pl = Inr pwr \<and> can_vouch R our_name st pwr u
    \<and> (\<forall>w \<in> members state. can_vouch R our_name st pwr w \<longrightarrow> user_level pwr w \<le> user_level pwr u)
    \<and> (\<exists>e entries. st ''m.room.join_rules'' [] = Some e \<and> bt_get (content e) ''allow'' = Some (JArr entries)
         \<and> (\<exists>entry \<in> set entries. allowed_by R C route our_name joiner entry))
    \<and> check_join R vn event create joiner st pwr = Inr ()"
proof -
  from auth meta state obtain vn jr entries m unc where vn: "parse_version (rm_version meta) = Inr vn"
    and jr: "state_event_content C store state ''m.room.join_rules'' [] = Inr jr"
    and rule: "Option.bind (Option.bind jr (\<lambda>e. obj_prop e ''content'')) (\<lambda>c. str_prop c ''join_rule'') \<in> {Some ''restricted'', Some ''knock_restricted''}"
    and mem: "membership_in C store state joiner = Inr m" "m \<noteq> ''join''" "m \<noteq> ''invite''"
    and allow: "Option.bind (Option.bind jr (\<lambda>e. obj_prop e ''content'')) (\<lambda>c. bt_get c ''allow'') = Some (JArr entries)"
    and loop: "allow_loop R C route our_name joiner entries False = Some (Inr (True, unc))"
    and pick: "pick_authoriser R C store our_name vn state = Inr (Authorised u)"
    by (auto simp: restricted_join_authoriser_def known_meta_def resolved_def Let_def lift_err_def dret_def
        split: if_splits option.splits json.splits sum.splits)
  obtain e where e: "st ''m.room.join_rules'' [] = Some e" "Option.bind jr (\<lambda>e. obj_prop e ''content'') = Some (content e)"
  proof (cases "bt_get state (''m.room.join_rules'', [])")
    case None
    then show ?thesis using jr allow by (simp add: state_event_held[OF rd])
  next
    case (Some i)
    then obtain e where "held C store i \<noteq> None" "st ''m.room.join_rules'' [] = Some e" "from_canonical R (held_obj C store i) = Inr (ip_pdu e)"
      using viewsD(2)[OF v] by blast
    then show ?thesis using that[of e] Some jr by (auto simp: state_event_held[OF rd] parsed_content)
  qed
  have m: "membership st joiner = m" using mem(1) membership_viewed[OF rd v] by simp
  have jrule: "join_rule_of st \<in> {''restricted'', ''knock_restricted''}" using rule e by (auto simp: join_rule_of_def)
  obtain create pl pwr where P: "\<exists>e. st ''m.room.create'' [] = Some e \<and> ip_pdu create = ip_pdu e"
    "case st ''m.room.power_levels'' [] of None \<Rightarrow> pl = None | Some e \<Rightarrow> \<exists>p. pl = Some p \<and> ip_pdu p = ip_pdu e"
    "resolve_levels R vn create pl = Inr pwr" "can_vouch R our_name st pwr u"
    "\<forall>w \<in> members state. can_vouch R our_name st pwr w \<longrightarrow> user_level pwr w \<le> user_level pwr u"
    using pick_viewed[OF rd v pick] by blast
  have "check_join R vn event create joiner st pwr = Inr ()"
    using jrule ban event P(4) by (auto simp: check_join_def check_restricted_join_def can_vouch_def Let_def)
  moreover have "bt_get (content e) ''allow'' = Some (JArr entries)" using allow e(2) by simp
  ultimately show ?thesis using vn P e(1) allow_loop_met[OF loop] by blast
qed

section \<open>The depth of local events\<close>

lemma tip_depth_exact:
  assumes rd: "readable C store" and held: "\<forall>e \<in> set es. held C store e \<noteq> None"
  shows "tip_depth C store es = Inr (fold (\<lambda>e d. max d (se_depth (the (held C store e)))) es 0)"
proof -
  have "fold_r (\<lambda>eid depth. rbind (map_sum storage_err id (rs_event C store eid)) (\<lambda>found.
      rbind (ok_or (MissingEvents [eid]) found) (\<lambda>prev. Inr (max depth (se_depth prev))))) es d
      = Inr (fold (\<lambda>e d. max d (se_depth (the (held C store e)))) es d)" for d
    using held by (induction es arbitrary: d) (auto simp: read_held[OF rd])
  then show ?thesis by (simp add: tip_depth_def)
qed

lemma fold_max_reached:
  "d \<le> m \<Longrightarrow> \<forall>e \<in> set es. f e \<le> m \<Longrightarrow> d = m \<or> (\<exists>e \<in> set es. f e = m) \<Longrightarrow> fold (\<lambda>e d. max d (f e)) es d = (m :: 'a::linorder)"
proof (induction es arbitrary: d)
  case (Cons e es)
  then show ?case by (cases "f e = m") (auto simp: max_def)
qed simp

text \<open>
  C28: Canonical JSON has integers of 53 bits, and an event of the greatest depth is valid. Once one is among the
  extremities of a room, no local event and no membership template can be built in the room any more: the
  depth of either would be out of range.
\<close>

theorem greatest_depth_stops_local_events:
  assumes rd: "readable C store" and meta: "rs_meta C store rid = Inr (Some meta)" and v: "parse_version (rm_version meta) = Inr v"
    and state: "resolve_group C store rid (rm_current_group meta) = Some (Inr current)"
    and tip: "\<forall>e \<in> set (rm_extremities meta). \<exists>s. held C store e = Some s \<and> uint (se_depth s) \<le> js_int_max"
    and top: "e \<in> set (rm_extremities meta)" "held C store e = Some s" "uint (se_depth s) = js_int_max"
  shows "(\<exists>err. build_local R S C store now rid sndr ty sk (Inr (JObj c)) ts = Some (Inl (MalformedEvent err)))
    \<and> (\<exists>err. make_membership_template C store now rid user mem authoriser = Some (Inl (MalformedEvent err)))"
proof -
  have m: "se_depth s = word_of_int js_int_max" using top(3) by (metis word_of_int_uint)
  have "tip_depth C store (rm_extremities meta) = Inr (fold (\<lambda>e d. max d (se_depth (the (held C store e)))) (rm_extremities meta) 0)"
    by (rule tip_depth_exact[OF rd]) (use tip in auto)
  also have "fold (\<lambda>e d. max d (se_depth (the (held C store e)))) (rm_extremities meta) 0 = se_depth s"
  proof (rule fold_max_reached)
    show "\<forall>e \<in> set (rm_extremities meta). se_depth (the (held C store e)) \<le> se_depth s"
      using tip top(3) by (auto simp: word_le_def)
    show "0 = se_depth s \<or> (\<exists>e \<in> set (rm_extremities meta). se_depth (the (held C store e)) = se_depth s)"
      using top(1,2) by (metis option.sel)
  qed simp
  finally have "room_tip C store rid = Some (Inr (meta, v, current, se_depth s))"
    using meta v state by (simp add: room_tip_def known_meta_def lift_err_def resolved_def dret_def)
  moreover have "uint (se_depth s + 1) = js_int_max + 1" unfolding m by (simp add: js_int_max_def)
  ultimately show ?thesis
    by (auto simp: build_local_def make_membership_template_def canonical_obj_def js_int_max_def)
qed

end
