(* ===== verification/Room_Fed_Examples.thy ===== *)
theory Room_Fed_Examples
  imports Room_Examples Room_Import Room_Changes Room_Joins
begin

text \<open>
  The theorems about what the room server tells other servers, applied to the imported room of
  \<open>Room_Examples\<close> and to small rooms on other nodes.
\<close>

section \<open>Walks\<close>

lemma object_rows: "object_of (room_format f g) = f"
  by (simp add: room_format_def)

lemma jstore_event: "rs_event rwire jstore e = Inr (if e = ''$j'' then Some se_join else if e = ''$c'' then Some se_create else None)"
  by (simp add: rs_event_def rs_typed_def rs_get_def import_rows del: room_tables)

lemma jstore_readable: "readable rwire jstore"
  by (simp add: readable_def jstore_event object_rows texts_def se_join_def se_create_def)

lemma jstore_held: "held rwire jstore e = (if e = ''$j'' then Some se_join else if e = ''$c'' then Some se_create else None)"
  by (simp add: held_def jstore_event)

lemma jstore_objs: "held_obj rwire jstore ''$j'' = canon ev_alice" "held_obj rwire jstore ''$c'' = canon ev_create"
  by (simp_all add: held_obj_def jstore_held object_rows texts_def se_join_def se_create_def)

lemma alice_refs: "prev_event_ids (canon ev_alice) = [''$c'']" "auth_event_ids (canon ev_alice) = [''$c'']"
  "prev_event_ids (canon ev_create) = []" "auth_event_ids (canon ev_create) = []"
  by (simp_all add: prev_event_ids_def auth_event_ids_def id_list_def texts_eval ev_alice_def ev_create_def List.map_filter_simps)

theorem missing_events_exact_witness:
  "readable rwire jstore \<and> (\<exists>ids. get_missing_events rwire jstore [] [''$j''] 10 0 = Inr (map (held_obj rwire jstore) (rev ids))
     \<and> set ids = walked rwire jstore {''$c''} {''$j''} 0)"
proof -
  obtain ids where ids: "get_missing_events rwire jstore [] [''$j''] 10 0 = Inr (map (held_obj rwire jstore) (rev ids))"
    "walk_result rwire jstore {''$c''} {''$j''} 10 0 ids"
    using missing_events_exact[OF jstore_readable, of "[]" "[''$j'']" 10 0] by (auto simp: prevs_of_def jstore_held jstore_objs alice_refs)
  have "set ids \<subseteq> {''$c''}"
  proof
    fix i assume "i \<in> set ids"
    then have "i \<in> walked rwire jstore {''$c''} {''$j''} 0" using ids(2) by (auto simp: walk_result_def)
    then show "i \<in> {''$c''}" by cases (auto simp: servable_def jstore_held jstore_objs alice_refs split: if_splits)
  qed
  then have "length ids \<le> 1" using ids(2) card_mono[of "{''$c''}" "set ids"] by (simp add: walk_result_def distinct_card)
  then show ?thesis using ids jstore_readable by (auto simp: walk_result_def)
qed

theorem event_auth_chain_exact_witness:
  "readable rwire jstore \<and> held rwire jstore ''$j'' \<noteq> None \<and> (\<exists>ids. event_auth_chain rwire jstore ''$j'' = Some (Inr (Some (map (held_obj rwire jstore) ids)))
     \<and> set ids = auth_closure rwire jstore {''$c''})"
  using event_auth_chain_exact[OF jstore_readable, of "''$j''"] jstore_readable by (auto simp: jstore_held jstore_objs alice_refs)

section \<open>Imports\<close>

text \<open>A segment for the imported room: its state holds a topic whose references are stored, and one behind a hole.\<close>

definition seg_raw :: "string \<Rightarrow> string \<Rightarrow> jobj" where
  "seg_raw ty a = [(''auth_events'', JArr [JStr a]), (''state_key'', JStr []), (''type'', JStr ty)]"

lemma segment_runs: "\<exists>seg. import_segment_cmd rv_ruma rwire jstore ''!r:s'' [seg_raw ''m.room.topic'' ''$c''] [] [] = Inr seg"
  by (simp add: import_segment_cmd_def jstore_reads joined_meta_def parse_version_def Let_def)

theorem segment_snapshot_exact_witness:
  "\<exists>seg. import_segment_cmd rv_ruma rwire jstore ''!r:s'' [seg_raw ''m.room.topic'' ''$c''] [] [] = Inr seg
     \<and> bt_get (Room_Types.is_state seg) (''m.room.topic'', []) = Some ''$h''"
proof -
  obtain seg where seg: "import_segment_cmd rv_ruma rwire jstore ''!r:s'' [seg_raw ''m.room.topic'' ''$c''] [] [] = Inr seg"
    using segment_runs by blast
  obtain meta v where v: "rs_meta rwire jstore ''!r:s'' = Inr (Some meta)" "parse_version (rm_version meta) = Inr v"
    and st: "bt_get (Room_Types.is_state seg) = map_of (rev (List.map_filter
       (sets_entry rv_ruma rwire jstore v (fetched_auth rv_ruma v ([] @ [seg_raw ''m.room.topic'' ''$c''] @ []))) [seg_raw ''m.room.topic'' ''$c'']))"
    using segment_snapshot_exact[OF seg] by blast
  have f: "fetched_auth rv_ruma v ([] @ [seg_raw ''m.room.topic'' ''$c''] @ []) = [(''$h'', [''$c''])]"
    by (simp add: fetched_auth_def compute_event_id_def sample_ruma_def starts_with_def seg_raw_def auth_event_ids_def id_list_def List.map_filter_simps)
  have ev: "import_event_of rv_ruma rwire v (seg_raw ''m.room.topic'' ''$c'') = Some \<lparr>ie_event_id = ''$h'', ie_raw = ''T'', ie_depth = 0\<rparr>"
    by (simp add: import_event_of_def compute_event_id_def sample_ruma_def starts_with_def raw_bytes_def text_of_def seg_raw_def uint_prop_def)
  have c: "chain_complete rwire jstore [(''$h'', [''$c''])] ''$h''"
  proof -
    have "(resolvable rwire jstore [(''$h'', [''$c''])] [] ''$h'') = (True, [(''$c'', True), (''$h'', True)])"
      by (simp add: resolvable_def jstore_event less_list_code less_char_def)
    then show ?thesis using resolvable_exact(1)[of rwire jstore "[(''$h'', [''$c''])]" "[]" "''$h''"] by (simp add: verdicts_sound_def)
  qed
  have "sets_entry rv_ruma rwire jstore v [(''$h'', [''$c''])] (seg_raw ''m.room.topic'' ''$c'') = Some ((''m.room.topic'', []), ''$h'')"
    using c ev by (simp add: sets_entry_def admits_def state_entry_def) (simp add: seg_raw_def str_of_def)
  then show ?thesis using seg st unfolding f by (simp add: List.map_filter_simps)
qed


section \<open>A room with restricted visibility\<close>

text \<open>On another node: a message in a room whose history only members see, with one member of the server \<open>s\<close>.\<close>

definition raw_message :: jobj where
  "raw_message = [(''content'', JObj []), (''room_id'', JStr ''!r:s''), (''type'', JStr ''m.room.message'')]"

definition vtexts :: "bytes \<Rightarrow> jobj option" where
  "vtexts b = Some (if b = ''V'' then [(''content'', JObj [(''history_visibility'', JStr ''joined'')])]
     else if b = ''J'' then [(''content'', JObj [(''membership'', JStr ''join'')])] else raw_message)"

abbreviation vwire :: room_codecs where
  "vwire \<equiv> room_format vtexts text_of"

definition vis_state :: state_ids where
  "vis_state = [((''m.room.history_visibility'', []), ''$v''), ((''m.room.member'', ''@a:s''), ''$j'')]"

definition vis_event :: "bytes \<Rightarrow> stored_event" where
  "vis_event b = se_join\<lparr>se_raw := b\<rparr>"

definition node_store :: "room_codecs \<Rightarrow> room_meta \<Rightarrow> state_ids \<Rightarrow> (string \<Rightarrow> stored_event option) \<Rightarrow> room_store" where
  "node_store C meta st ev = Remote (\<lambda>op. case op of
     ReadGet t k \<Rightarrow> Inr (Value (if t = T_ROOM then Some (enc (rc_meta C) meta)
       else if t = T_GROUP then Some (enc (rc_group C) (full_group st))
       else map_option (enc (rc_event C)) (ev k)))
   | _ \<Rightarrow> Inl [])"

lemma node_reads:
  "rs_event (room_format f g) (node_store (room_format f g) meta st ev) e = Inr (ev e)"
  "rs_meta (room_format f g) (node_store (room_format f g) meta st ev) r = Inr (Some meta)"
  "rs_group (room_format f g) (node_store (room_format f g) meta st ev) r i = Inr (Some (full_group st))"
  by (simp_all add: rs_event_def rs_meta_def rs_group_def rs_typed_def rs_get_def node_store_def split: option.split)
     (cases "ev e"; simp)

lemma node_resolves:
  "bt_wf st \<Longrightarrow> resolve_group (room_format f g) (node_store (room_format f g) meta st ev) r i = Some (Inr st)"
  by (simp add: resolve_group_def group_chain.simps node_reads full_group_def overlay_groups_def collect_self)

abbreviation vstore :: room_store where
  "vstore \<equiv> node_store vwire joined_meta vis_state (\<lambda>e. Some (vis_event (if e = ''$v'' then ''V'' else if e = ''$j'' then ''J'' else ''M'')))"

lemma vstore_readable: "readable vwire vstore"
  by (simp add: readable_def node_reads object_rows vtexts_def)


lemma vstore_held: "held vwire vstore e = Some (vis_event (if e = ''$v'' then ''V'' else if e = ''$j'' then ''J'' else ''M''))"
  by (simp add: held_def node_reads)

lemma vis_wf: "bt_wf vis_state"
  by (simp add: vis_state_def less_list_code less_char_def)

lemma vis_rules:
  "pdu_event_id rv_ruma vwire vstore raw_message = Some ''$h''" "event_visibility vwire vstore vis_state = ''joined''"
  by (simp_all add: pdu_event_id_def classify_def str_of_def room_id_of_def raw_message_def node_reads joined_meta_def parse_version_def
      compute_event_id_def sample_ruma_def starts_with_def event_visibility_def vis_state_def load_raw_def object_rows vis_event_def
      vtexts_def content_str_def obj_prop.simps str_prop.simps)

lemma vis_filter: "\<exists>out. filter_events_for_server rv_ruma vwire vstore ''!r:s'' ''t'' [raw_message] = Some (Inr out)"
proof -
  have "resolved vwire vstore ''!r:s'' 1 = Some (Inr vis_state)" using node_resolves[OF vis_wf] by (simp add: resolved_def)
  then have "visible_to rv_ruma vwire vstore ''!r:s'' ''t'' raw_message = dret (may_see rv_ruma vwire vstore ''t'' vis_state)"
    by (intro visible_to_exact[OF vstore_readable vis_rules(1) vstore_held]) (simp_all add: vis_event_def se_join_def)
  then show ?thesis
    by (auto simp: filter_events_for_server_def known_meta_def node_reads joined_meta_def parse_version_def lift_err_def filter_event_def
        Validation.redact_def sample_ruma_def dret_def)
qed

theorem filtered_events_visible_witness:
  "\<not> may_see rv_ruma vwire vstore ''t'' vis_state \<and> filter_events_for_server rv_ruma vwire vstore ''!r:s'' ''t'' [raw_message] = Some (Inr [[]])"
proof -
  obtain out where out: "filter_events_for_server rv_ruma vwire vstore ''!r:s'' ''t'' [raw_message] = Some (Inr out)" using vis_filter by blast
  have no: "\<not> may_see rv_ruma vwire vstore ''t'' vis_state"
    unfolding may_see_def vis_rules
    by (auto simp: required_memberships_def) (auto simp: vis_state_def sample_ruma_def after_colon_def split: if_splits)
  have g: "se_state_group_after (vis_event b) = 1" for b by (simp add: vis_event_def se_join_def)
  have "group_known rv_ruma vwire vstore raw_message = Some 1" by (simp add: group_known_def vis_rules vstore_held g)
  moreover have "parse_version (rm_version joined_meta) = Inr V11" by (simp add: joined_meta_def parse_version_def)
  ultimately have "length out = 1 \<and> Validation.redact rv_ruma raw_message V11 = Inr (out ! 0)"
    using filtered_events_visible[OF vstore_readable out, of 0] no by (simp add: node_reads node_resolves[OF vis_wf])
  then have "out = [[]]" by (cases out) (auto simp: Validation.redact_def sample_ruma_def)
  then show ?thesis using no out by simp
qed

section \<open>The state before an event\<close>


section \<open>Routing\<close>

theorem routed_to_its_room_witness:
  "\<exists>s \<in> {vstore}. for_pdu rv_ruma (\<lambda>_. ''abcdefgh'') [vstore] raw_message = Some (s, ''!r:s'')"
proof -
  have "wire_room_id rv_ruma raw_message = Some ''!r:s''" by (simp add: wire_room_id_def raw_message_def)
  moreover have "classify rv_ruma vwire vstore raw_message = Inr (V11, ''!r:s'', False)"
    by (simp add: classify_def str_of_def room_id_of_def raw_message_def node_reads joined_meta_def parse_version_def sample_ruma_def starts_with_def)
  ultimately show ?thesis using routed_to_its_room[of rv_ruma raw_message "''!r:s''" vwire vstore V11 "''!r:s''" False "[vstore]" "\<lambda>_. ''abcdefgh''"] by auto
qed


section \<open>Change streams\<close>

abbreviation jrec :: "u64 \<times> bytes" where
  "jrec \<equiv> (1, enc (rc_change rwire) (ChangeEvent ''!r:s'' ''$j''))"

lemma signal_joined: "faithful_signal rwire (room_cmd_ok rv_ruma rwire) ROOM_SHARD [jrec] (Got jrec, \<lparr>rd_shard = ROOM_SHARD, rd_engine = jdb\<rparr>)"
  using history_joined[of rv_ruma] unfolding import_emits faithful_signal_def by force

lemma history_one: "room_history rwire (room_cmd_ok rv_ruma rwire) ROOM_SHARD jdb 1 [jrec]"
  using history_joined[of rv_ruma] unfolding import_emits .

theorem changes_gap_free_witness:
  "\<exists>k. tail_deliver rwire 0 [Hosted [(Lagged, \<lparr>rd_shard = ROOM_SHARD, rd_engine = jdb\<rparr>)], RemoteAt (\<lambda>q. if q = 0 then [Inr jrec] else [])] = take k [jrec]"
proof -
  have "faithful_signal rwire (room_cmd_ok rv_ruma rwire) ROOM_SHARD [jrec] (Lagged, \<lparr>rd_shard = ROOM_SHARD, rd_engine = jdb\<rparr>)"
    using signal_joined unfolding faithful_signal_def by auto
  moreover have "faithful_backend rwire (room_cmd_ok rv_ruma rwire) ROOM_SHARD [jrec] (RemoteAt (\<lambda>q. if q = 0 then [Inr jrec] else []))"
  proof -
    have "\<exists>k. backend_deliver rwire (of_nat n) (RemoteAt (\<lambda>q. if q = 0 then [Inr jrec] else [])) = take k (drop n [jrec])" if "n \<le> 1" for n
      using that by (cases n) (auto simp: backend_deliver_def List.map_filter_simps intro: exI[of _ 1])
    then show ?thesis by (simp add: faithful_backend_def)
  qed
  ultimately show ?thesis
    using changes_gap_free[OF room_format.wire_seq history_one, of "[Hosted [(Lagged, \<lparr>rd_shard = ROOM_SHARD, rd_engine = jdb\<rparr>)], RemoteAt (\<lambda>q. if q = 0 then [Inr jrec] else [])]" 0]
    by (simp add: faithful_backend_def del: tail_deliver.simps)
qed

theorem announced_record_delivered_witness:
  "jrec \<in> set (changes_deliver rwire 0 [] [(Got jrec, \<lparr>rd_shard = ROOM_SHARD, rd_engine = jdb\<rparr>)])"
  by (rule announced_record_delivered[OF room_format.wire_seq history_one]) (use signal_joined in \<open>auto simp: REFILL_def\<close>)


section \<open>A restricted room\<close>

definition ev_rule :: identified_pdu where
  "ev_rule = mk_event ''$r'' ''m.room.join_rules'' (Some []) ''@a:s''
     [(''allow'', JArr [JObj [(''room_id'', JStr ''!q:s''), (''type'', JStr ''m.room_membership'')]]), (''join_rule'', JStr ''restricted'')]
     [''$c'', ''$j''] [''$j''] 2"

definition rtexts :: "bytes \<Rightarrow> jobj option" where
  "rtexts b = Some (if b = ''C'' then canon ev_create else if b = ''R'' then canon ev_rule else canon ev_alice)"

abbreviation jwire :: room_codecs where
  "jwire \<equiv> room_format rtexts text_of"

definition restricted_state :: state_ids where
  "restricted_state = [((''m.room.create'', []), ''$c''), ((''m.room.join_rules'', []), ''$r''), ((''m.room.member'', ''@a:s''), ''$j'')]"

definition allow_state :: state_ids where
  "allow_state = [((''m.room.member'', ''@a:s''), ''$j''), ((''m.room.member'', ''@b:t''), ''$k'')]"

abbreviation room_events :: "string \<Rightarrow> stored_event option" where
  "room_events \<equiv> (\<lambda>e. Some (vis_event (if e = ''$c'' then ''C'' else if e = ''$r'' then ''R'' else ''J'')))"

abbreviation rstore :: room_store where "rstore \<equiv> node_store jwire joined_meta restricted_state room_events"
abbreviation astore :: room_store where "astore \<equiv> node_store jwire joined_meta allow_state room_events"

definition the_route :: "string \<Rightarrow> room_store option" where
  "the_route r = Some (if r = ''!q:s'' then astore else rstore)"

definition ev_vouched :: identified_pdu where
  "ev_vouched = mk_event ''$n'' ''m.room.member'' (Some ''@b:t'') ''@b:t''
     [(''join_authorised_via_users_server'', JStr ''@a:s''), (''membership'', JStr ''join'')] [''$c'', ''$j'', ''$r''] [''$r''] 3"

definition restricted_view :: state_view where
  "restricted_view ty sk = map_of [((''m.room.create'', []), ev_create), ((''m.room.join_rules'', []), ev_rule), ((''m.room.member'', ''@a:s''), ev_alice)] (ty, sk)"

lemma node_load:
  "load_raw jwire (node_store jwire meta st room_events) e = Inr (Some (if e = ''$c'' then canon ev_create else if e = ''$r'' then canon ev_rule else canon ev_alice))"
  by (simp add: load_raw_def node_reads object_rows rtexts_def vis_event_def)

lemma rule_text: "from_canonical rv_ruma (canon ev_rule) = Inr (ip_pdu ev_rule)"
  by (simp add: texts_eval ev_rule_def)

lemma canon_contents:
  "obj_prop (canon ev_alice) ''content'' = Some [(''membership'', JStr ''join'')]" "obj_prop (canon ev_rule) ''content'' = Some (content ev_rule)"
  "obj_prop (canon ev_create) ''content'' = Some []"
  by (simp_all add: texts_eval ev_alice_def ev_rule_def ev_create_def content_def obj_prop.simps)

lemma rule_content: "content ev_rule = [(''allow'', JArr [JObj [(''room_id'', JStr ''!q:s''), (''type'', JStr ''m.room_membership'')]]), (''join_rule'', JStr ''restricted'')]"
  by (simp add: ev_rule_def mk_event_def content_def)

lemma rstore_readable: "readable jwire rstore"
  by (simp add: readable_def node_reads object_rows rtexts_def)

lemma restricted_wf: "bt_wf restricted_state" "bt_wf allow_state"
  by (simp_all add: restricted_state_def allow_state_def less_list_code less_char_def)

lemma restricted_views: "views rv_ruma jwire rstore restricted_state restricted_view"
  by (auto simp: views_def restricted_view_def restricted_state_def held_def held_obj_def node_reads object_rows rtexts_def vis_event_def
      topic_text rule_text split: option.splits if_splits)

lemma node_member: "membership_in jwire (node_store jwire meta st room_events) state u = Inr (case bt_get state (''m.room.member'', u) of None \<Rightarrow> ''leave''
    | Some e \<Rightarrow> if e = ''$c'' \<or> e = ''$r'' then ''leave'' else ''join'')"
  by (simp add: membership_in_def state_event_content_def node_load content_str_def canon_contents rule_content str_prop.simps split: option.split)

lemma sample_ids: "compute_event_id rv_ruma raw v = Inr ''$h''" "user_id_ok rv_ruma ''@a:s''" "user_server_name rv_ruma ''@a:s'' = ''s''"
  by (simp_all add: compute_event_id_def sample_ruma_def starts_with_def after_colon_def)

lemma allow_met: "allow_loop rv_ruma jwire the_route ''s'' ''@b:t'' [JObj [(''room_id'', JStr ''!q:s''), (''type'', JStr ''m.room_membership'')]] False = Some (Inr (True, False))"
proof -
  have m: "bt_get allow_state (''m.room.member'', ''@a:s'') = Some ''$j''" "bt_get allow_state (''m.room.member'', ''@b:t'') = Some ''$k''"
    by (simp_all add: allow_state_def)
  have "local_member rv_ruma jwire astore ''s'' allow_state ((''m.room.member'', ''@a:s''), ''$j'') = Inr True"
    by (simp add: local_member_def node_member m sample_ids)
  moreover have "F ((''m.room.member'', ''@a:s''), ''$j'') = Inr True \<Longrightarrow> any_r F allow_state = Inr True" for F :: "(string \<times> string) \<times> string \<Rightarrow> room_error + bool"
    by (simp add: allow_state_def)
  ultimately have "any_r (local_member rv_ruma jwire astore ''s'' allow_state) allow_state = Inr True" by blast
  then show ?thesis
    by (simp add: allow_room_def str_prop.simps the_route_def known_meta_def node_reads resolved_def node_resolves[OF restricted_wf(2)] node_member m dret_def)
qed

lemma restricted_pick: "pick_authoriser rv_ruma jwire rstore ''s'' V11 restricted_state = Inr (Authorised ''@a:s'')"
proof -
  obtain create where c: "identify_raw rv_ruma V11 (canon ev_create) = Inr create" "ip_pdu create = ip_pdu ev_create"
    by (simp add: identify_raw_def identify_def sample_ids topic_text)
  then have "sender create = ''@a:s''" by (simp add: sender_def ev_create_def mk_event_def)
  obtain pwr where p: "resolve_levels rv_ruma V11 create None = Inr pwr" "invite pwr = 0" "user_level pwr ''@a:s'' = PLInt 100"
    using \<open>sender create = _\<close> by (auto simp: resolve_levels_def users_map_def int_prop_def int_map_def user_level_def creators_def Let_def)
  have e: "state_event_content jwire rstore restricted_state ''m.room.create'' [] = Inr (Some (canon ev_create))"
    "state_event_content jwire rstore restricted_state ''m.room.power_levels'' [] = Inr None"
    by (simp_all add: state_event_content_def restricted_state_def node_load)
  have "fold_r (better_authoriser rv_ruma jwire rstore ''s'' pwr restricted_state) restricted_state None = Inr (Some (''@a:s'', PLInt 100))"
  proof -
    have m: "bt_get restricted_state (''m.room.member'', ''@a:s'') = Some ''$j''" by (simp add: restricted_state_def)
    have "better_authoriser rv_ruma jwire rstore ''s'' pwr restricted_state ((''m.room.create'', []), ''$c'') None = Inr None"
      "better_authoriser rv_ruma jwire rstore ''s'' pwr restricted_state ((''m.room.join_rules'', []), ''$r'') None = Inr None"
      "better_authoriser rv_ruma jwire rstore ''s'' pwr restricted_state ((''m.room.member'', ''@a:s''), ''$j'') None = Inr (Some (''@a:s'', PLInt 100))"
      using p(2,3) by (simp_all add: better_authoriser_def local_member_def node_member m sample_ids)
    moreover have "F ((''m.room.create'', []), ''$c'') None = Inr None \<Longrightarrow> F ((''m.room.join_rules'', []), ''$r'') None = Inr None \<Longrightarrow>
        F ((''m.room.member'', ''@a:s''), ''$j'') None = Inr x \<Longrightarrow> fold_r F restricted_state None = Inr x"
      for F :: "(string \<times> string) \<times> string \<Rightarrow> 'x option \<Rightarrow> room_error + 'x option" and x by (simp add: restricted_state_def)
    ultimately show ?thesis by blast
  qed
  then show ?thesis using c(1) p(1) e by (simp add: pick_authoriser_def)
qed


lemma restricted_authorised: "restricted_join_authoriser rv_ruma jwire the_route rstore ''s'' ''!r:s'' ''@b:t'' = Some (Inr (Authorised ''@a:s''))"
proof -
  have j: "state_event_content jwire rstore restricted_state ''m.room.join_rules'' [] = Inr (Some (canon ev_rule))"
    by (simp add: state_event_content_def restricted_state_def node_load)
  have "bt_get restricted_state (''m.room.member'', ''@b:t'') = None" by (simp add: restricted_state_def)
  moreover have "parse_version (rm_version joined_meta) = Inr V11" by (simp add: joined_meta_def parse_version_def)
  ultimately show ?thesis
    by (simp add: restricted_join_authoriser_def known_meta_def node_reads resolved_def node_resolves[OF restricted_wf(1)] j canon_contents
        rule_content str_prop.simps node_member allow_met Let_def lift_err_def restricted_pick del: allow_loop.simps)
qed

theorem restricted_join_vouched_witness:
  "\<exists>create pwr. check_join rv_ruma V11 ev_vouched create ''@b:t'' restricted_view pwr = Inr () \<and> can_vouch rv_ruma ''s'' restricted_view pwr ''@a:s''"
proof -
  have "membership restricted_view ''@b:t'' \<noteq> ''ban''" by (simp add: membership_def restricted_view_def)
  moreover have "sender ev_vouched = ''@b:t''" "str_prop (content ev_vouched) ''join_authorised_via_users_server'' = Some ''@a:s''"
    by (simp_all add: ev_vouched_def mk_event_def sender_def content_def str_prop.simps)
  ultimately show ?thesis
    using restricted_join_vouched[OF rstore_readable node_reads(2) node_resolves[OF restricted_wf(1)] restricted_views restricted_authorised, of ev_vouched]
    by (auto simp: joined_meta_def parse_version_def)
qed

section \<open>The greatest depth\<close>

definition deep_event :: stored_event where
  "deep_event = se_join\<lparr>se_depth := word_of_int js_int_max\<rparr>"

theorem greatest_depth_stops_local_events_witness:
  "\<exists>err. build_local rv_ruma \<lparr>server_name = ''s'', sign_event = (\<lambda>raw v. Inr raw)\<rparr> rwire (node_store rwire joined_meta join_state (\<lambda>e. Some deep_event)) 5 ''!r:s''
     ''@a:s'' ''m.room.message'' None (Inr (JObj [])) None = Some (Inl (MalformedEvent err))"
proof -
  let ?store = "node_store rwire joined_meta join_state (\<lambda>e. Some deep_event)"
  have "readable rwire ?store" by (simp add: readable_def node_reads object_rows texts_def deep_event_def se_join_def)
  moreover have "bt_wf join_state" by (simp add: join_state_def less_list_code less_char_def)
  moreover have "held rwire ?store e = Some deep_event" for e by (simp add: held_def node_reads)
  moreover have "uint (se_depth deep_event) = js_int_max" by (simp add: deep_event_def js_int_max_def)
  moreover have "parse_version (rm_version joined_meta) = Inr V11" "rm_extremities joined_meta = [''$j'']" by (simp_all add: joined_meta_def parse_version_def)
  ultimately show ?thesis
    using greatest_depth_stops_local_events[of rwire ?store "''!r:s''" joined_meta V11 join_state "''$j''" deep_event]
    by (simp add: node_reads node_resolves)
qed

end
