(* ===== verification/Room_Server.thy ===== *)
theory Room_Server
  imports Room_Joins Room_Import
begin

text \<open>
  The room server as a node runs it (\<open>lib.rs\<close>, \<open>remote.rs\<close>): the entry points that read the applied state, run
  the pipeline and propose a command, and the intents by which a node reaches a shard that other nodes host.
  The proposal of a command through Raft is a function of the environment; what other nodes commit meanwhile
  is part of the state it returns.
\<close>

section \<open>A node\<close>

text \<open>
  The state an entry point works on: the applied state of the shard, the keys trusted so far, the greatest
  schema version seen, the requests sent to other servers and the number of commands proposed, on which the
  answers may depend.
\<close>

datatype fed_request =
    AskMissing string string "string list" string nat
  | AskStateIds string string string
  | AskState string string string
  | AskEvent string string

record room_node =
  rn_reads :: read_ctx
  rn_keys :: public_key_map
  rn_schema :: u32
  rn_requests :: "fed_request list"
  rn_proposed :: nat

abbreviation rn_asked :: "room_node \<Rightarrow> nat" where
  "rn_asked n \<equiv> length (rn_requests n)"

abbreviation rn_store :: "room_node \<Rightarrow> room_store" where
  "rn_store n \<equiv> Local (rn_reads n)"

datatype intent_error =
    RemoteUnknownRoom string
  | RemoteMissingEvents "string list"
  | RemoteMissingAuthEvents "string list"
  | RemoteCannotAuthoriseJoin restricted_denial
  | OtherRemote string

datatype room_intent =
    SendMessage string string string "string + json" "u64 option" "txn_stamp option"
  | SendState string string string string "string + json" "u64 option"
  | CreateRoom string string jobj
  | WriteReceipt string string string string "string option" u64
  | IngestPdu jobj "string option" bool bool
  | BuildInvite string string string jobj
  | SendJoin jobj
  | SendLeave jobj
  | SendKnock jobj
  | ImportRoom string jobj "jobj list" "jobj list"
  | ImportPage string "jobj list"
  | TrustKeys string "(string, string) btree_map"

datatype intent_ok =
    IntentOutcome outcome
  | IntentCreated string outcome
  | IntentInvite string jobj
  | IntentJoin "jobj \<times> jobj list \<times> jobj list"
  | IntentKnock "jobj list"
  | IntentHistory u64 bool
  | IntentSeq u64
  | IntentUnit

record room_env =
  re_ruma :: "room_version ruma"
  re_codecs :: room_codecs
  re_signer :: signer
  re_schema_codec :: "u32 codec"
  re_intent :: "room_intent codec"
  re_reply :: "(intent_error + intent_ok) codec"
  re_message :: "room_error \<Rightarrow> string"
  re_now :: "room_node \<Rightarrow> u64"
  re_new_room_id :: "room_node \<Rightarrow> string"
  re_propose :: "nat \<Rightarrow> read_ctx \<Rightarrow> bytes \<Rightarrow> (string + bytes) \<times> read_ctx"

section \<open>Actions\<close>

type_synonym 'a act = "room_node \<Rightarrow> ((room_error + 'a) \<times> room_node) option"

definition nret :: "'a \<Rightarrow> 'a act" where
  "nret a n = Some (Inr a, n)"

definition nfail :: "room_error \<Rightarrow> 'a act" where
  "nfail e n = Some (Inl e, n)"

definition nbind :: "'a act \<Rightarrow> ('a \<Rightarrow> 'b act) \<Rightarrow> 'b act" where
  "nbind m f n =
     (case m n of
        None \<Rightarrow> None
      | Some (Inl e, n') \<Rightarrow> Some (Inl e, n')
      | Some (Inr a, n') \<Rightarrow> f a n')"

definition nstage :: "(room_node \<Rightarrow> 'a stage) \<Rightarrow> 'a act" where
  "nstage f n = map_option (\<lambda>r. (r, n)) (f n)"

definition nlift :: "(room_node \<Rightarrow> room_error + 'a) \<Rightarrow> 'a act" where
  "nlift f n = Some (f n, n)"

section \<open>Proposals\<close>

definition propose_cmd :: "room_env \<Rightarrow> room_command \<Rightarrow> room_response act" where
  "propose_cmd E cmd n =
     (let (r, reads) = re_propose E (rn_proposed n) (rn_reads n) (enc (rc_command (re_codecs E)) cmd);
          n = n\<lparr>rn_reads := reads, rn_proposed := rn_proposed n + 1\<rparr> in
      Some (case r of
              Inl e \<Rightarrow> Inl (ShardFailed e)
            | Inr b \<Rightarrow> ok_or (CodecError ''response'') (dec (rc_response (re_codecs E)) b), n))"

definition schema_at_least :: "room_env \<Rightarrow> u32 \<Rightarrow> room_node \<Rightarrow> bool \<times> room_node" where
  "schema_at_least E target n =
     (if rn_schema n \<ge> target then (True, n)
      else case stored_schema_version (re_schema_codec E) (rd_engine (rn_reads n)) (rd_shard (rn_reads n)) of
             Inl _ \<Rightarrow> (False, n)
           | Inr v \<Rightarrow> (v \<ge> target, n\<lparr>rn_schema := max (rn_schema n) v\<rparr>))"

definition propose :: "room_env \<Rightarrow> append_event \<Rightarrow> txn_stamp option \<Rightarrow> outcome act" where
  "propose E cmd txn n =
     (let (available, n) = (if txn = None then (False, n) else schema_at_least E 2 n) in
      nbind (propose_cmd E (append_command available cmd txn)) (\<lambda>resp.
        nlift (\<lambda>_. outcome_of (re_ruma E) resp)) n)"

text \<open>The pipeline to its end: what it decides is proposed.\<close>

definition settle :: "room_env \<Rightarrow> decision \<Rightarrow> outcome act" where
  "settle E d = (case d of AlreadyStored eid \<Rightarrow> nret (OutDuplicate eid) | Propose cmd txn \<Rightarrow> propose E cmd txn)"

definition process_event ::
  "room_env \<Rightarrow> jobj \<Rightarrow> room_version \<Rightarrow> string \<Rightarrow> bool \<Rightarrow> bool \<Rightarrow> bool \<Rightarrow> txn_stamp option \<Rightarrow> outcome act" where
  "process_event E raw v rid is_create relay reject_missing_auth txn =
     nbind (nstage (\<lambda>n. process_inner (re_ruma E) (re_codecs E) (rn_keys n) (rn_store n) raw v rid is_create relay reject_missing_auth txn))
       (settle E)"

definition process :: "room_env \<Rightarrow> jobj \<Rightarrow> room_version \<Rightarrow> string \<Rightarrow> bool \<Rightarrow> bool \<Rightarrow> outcome act" where
  "process E raw v rid is_create relay = process_event E raw v rid is_create relay False None"

section \<open>Reaching a shard elsewhere\<close>

text \<open>A slot hosts its shard, or executes intents at the node that leads it.\<close>

datatype room_backend = HostedShard | RemoteShard "bytes \<Rightarrow> room_node \<Rightarrow> ((string + bytes) \<times> room_node) option"

fun from_intent_error :: "intent_error \<Rightarrow> room_error" where
  "from_intent_error (RemoteUnknownRoom r) = UnknownRoom r"
| "from_intent_error (RemoteMissingEvents v) = MissingEvents v"
| "from_intent_error (RemoteMissingAuthEvents v) = MissingAuthEvents v"
| "from_intent_error (RemoteCannotAuthoriseJoin d) = CannotAuthoriseJoin d"
| "from_intent_error (OtherRemote m) = MalformedEvent (''remote: '' @ m)"

fun to_intent_error :: "(room_error \<Rightarrow> string) \<Rightarrow> room_error \<Rightarrow> intent_error" where
  "to_intent_error msg (UnknownRoom r) = RemoteUnknownRoom r"
| "to_intent_error msg (MissingEvents v) = RemoteMissingEvents v"
| "to_intent_error msg (MissingAuthEvents v) = RemoteMissingAuthEvents v"
| "to_intent_error msg (CannotAuthoriseJoin d) = RemoteCannotAuthoriseJoin d"
| "to_intent_error msg e = OtherRemote (msg e)"

definition call :: "room_env \<Rightarrow> (bytes \<Rightarrow> room_node \<Rightarrow> ((string + bytes) \<times> room_node) option) \<Rightarrow> room_intent \<Rightarrow> intent_ok act" where
  "call E exec intent n =
     (case exec (enc (re_intent E) intent) n of
        None \<Rightarrow> None
      | Some (Inl e, n') \<Rightarrow> Some (Inl (ShardFailed e), n')
      | Some (Inr resp, n') \<Rightarrow>
          Some (case dec (re_reply E) resp of
                  None \<Rightarrow> Inl (CodecError ''intent codec'')
                | Some wire \<Rightarrow> map_sum from_intent_error id wire, n'))"

definition remotely :: "room_env \<Rightarrow> room_backend \<Rightarrow> room_intent \<Rightarrow> (intent_ok \<Rightarrow> room_error + 'a) \<Rightarrow> 'a act \<Rightarrow> 'a act" where
  "remotely E B intent expect local =
     (case B of
        HostedShard \<Rightarrow> local
      | RemoteShard exec \<Rightarrow> nbind (call E exec intent) (\<lambda>ok. nlift (\<lambda>_. expect ok)))"

fun want_outcome :: "intent_ok \<Rightarrow> room_error + outcome" where
  "want_outcome (IntentOutcome o') = Inr o'"
| "want_outcome _ = Inl (CodecError ''intent response: expected Outcome'')"

section \<open>Entry points\<close>

definition ingest_pdu :: "room_env \<Rightarrow> room_backend \<Rightarrow> jobj \<Rightarrow> outcome act" where
  "ingest_pdu E B raw = remotely E B (IngestPdu raw None False False) want_outcome
     (nbind (nlift (\<lambda>n. classify (re_ruma E) (re_codecs E) (rn_store n) raw)) (\<lambda>(v, rid, is_create).
        process E raw v rid is_create False))"

definition ingest_pdu_rejecting_missing_auth :: "room_env \<Rightarrow> room_backend \<Rightarrow> jobj \<Rightarrow> outcome act" where
  "ingest_pdu_rejecting_missing_auth E B raw = remotely E B (IngestPdu raw None False True) want_outcome
     (nbind (nlift (\<lambda>n. classify (re_ruma E) (re_codecs E) (rn_store n) raw)) (\<lambda>(v, rid, is_create).
        process_event E raw v rid is_create False True None))"

definition apply_create :: "room_env \<Rightarrow> room_backend \<Rightarrow> string \<Rightarrow> room_version \<Rightarrow> jobj \<Rightarrow> outcome act" where
  "apply_create E B rid v raw =
     (case B of RemoteShard _ \<Rightarrow> ingest_pdu E B raw | HostedShard \<Rightarrow> process E raw v rid True False)"

definition create_room :: "room_env \<Rightarrow> room_backend \<Rightarrow> string \<Rightarrow> room_version \<Rightarrow> jobj \<Rightarrow> (string \<times> outcome) act" where
  "create_room E B creator v c = remotely E B (CreateRoom creator (version_str v) c)
     (\<lambda>ok. case ok of
        IntentCreated rid o' \<Rightarrow> if room_id_ok (re_ruma E) rid then Inr (rid, o') else Inl (MalformedEvent ''room id'')
      | _ \<Rightarrow> Inl (CodecError ''expected Created''))
     (nbind (nlift (\<lambda>n. build_create (re_ruma E) (re_signer E) (re_now E n) (re_new_room_id E n) creator v c)) (\<lambda>(rid, raw).
      nbind (apply_create E HostedShard rid v raw) (\<lambda>o'. nret (rid, o'))))"

definition send_local_event ::
  "room_env \<Rightarrow> string \<Rightarrow> string \<Rightarrow> string \<Rightarrow> string option \<Rightarrow> string + json \<Rightarrow> u64 option \<Rightarrow> txn_stamp option \<Rightarrow> outcome act" where
  "send_local_event E rid sndr ty sk c ts txn =
     nbind (nstage (\<lambda>n. send_local (re_ruma E) (re_signer E) (re_codecs E) (rn_keys n) (rn_store n) (re_now E n) rid sndr ty sk c ts txn))
       (settle E)"

definition send_state :: "room_env \<Rightarrow> room_backend \<Rightarrow> string \<Rightarrow> string \<Rightarrow> string \<Rightarrow> string \<Rightarrow> string + json \<Rightarrow> outcome act" where
  "send_state E B rid sndr ty sk c = remotely E B (SendState rid sndr ty sk c None) want_outcome
     (send_local_event E rid sndr ty (Some sk) c None None)"

definition send_state_at :: "room_env \<Rightarrow> room_backend \<Rightarrow> string \<Rightarrow> string \<Rightarrow> string \<Rightarrow> string \<Rightarrow> string + json \<Rightarrow> u64 \<Rightarrow> outcome act" where
  "send_state_at E B rid sndr ty sk c ts = remotely E B (SendState rid sndr ty sk c (Some ts)) want_outcome
     (send_local_event E rid sndr ty (Some sk) c (Some ts) None)"

definition send_message_stamped ::
  "room_env \<Rightarrow> room_backend \<Rightarrow> string \<Rightarrow> string \<Rightarrow> string \<Rightarrow> string + json \<Rightarrow> u64 option \<Rightarrow> txn_stamp option \<Rightarrow> outcome act" where
  "send_message_stamped E B rid sndr ty c ts txn = remotely E B (SendMessage rid sndr ty c ts txn) want_outcome
     (send_local_event E rid sndr ty None c ts txn)"

definition send_message :: "room_env \<Rightarrow> room_backend \<Rightarrow> string \<Rightarrow> string \<Rightarrow> string \<Rightarrow> string + json \<Rightarrow> outcome act" where
  "send_message E B rid sndr ty c = send_message_stamped E B rid sndr ty c None None"

definition send_message_at :: "room_env \<Rightarrow> room_backend \<Rightarrow> string \<Rightarrow> string \<Rightarrow> string \<Rightarrow> string + json \<Rightarrow> u64 \<Rightarrow> outcome act" where
  "send_message_at E B rid sndr ty c ts = send_message_stamped E B rid sndr ty c (Some ts) None"

definition invite_event :: "room_env \<Rightarrow> room_backend \<Rightarrow> string \<Rightarrow> string \<Rightarrow> string \<Rightarrow> jobj \<Rightarrow> (room_version \<times> jobj) act" where
  "invite_event E B rid sndr target c = remotely E B (BuildInvite rid sndr target c)
     (\<lambda>ok. case ok of
        IntentInvite s raw \<Rightarrow> rbind (map_sum VersionError id (parse_version s)) (\<lambda>v. Inr (v, raw))
      | _ \<Rightarrow> Inl (CodecError ''expected Invite''))
     (nstage (\<lambda>n. build_invite (re_ruma E) (re_signer E) (re_codecs E) (rn_store n) (re_now E n) rid sndr target c))"

definition send_leave :: "room_env \<Rightarrow> room_backend \<Rightarrow> jobj \<Rightarrow> outcome act" where
  "send_leave E B raw = remotely E B (SendLeave raw) want_outcome
     (nbind (nlift (\<lambda>n. classify (re_ruma E) (re_codecs E) (rn_store n) raw)) (\<lambda>(v, rid, _).
        process E raw v rid False True))"

definition send_join :: "room_env \<Rightarrow> room_backend \<Rightarrow> jobj \<Rightarrow> (jobj \<times> jobj list \<times> jobj list) act" where
  "send_join E B raw = remotely E B (SendJoin raw)
     (\<lambda>ok. case ok of IntentJoin r \<Rightarrow> Inr r | _ \<Rightarrow> Inl (CodecError ''expected Join''))
     (nbind (nlift (\<lambda>n. classify (re_ruma E) (re_codecs E) (rn_store n) raw)) (\<lambda>(v, rid, _).
      nbind (nlift (\<lambda>_. hash_and_sign_event (re_signer E) raw v)) (\<lambda>signed_raw.
      nbind (process E signed_raw v rid False True) (\<lambda>o'.
        nstage (\<lambda>n. send_join_result (re_codecs E) (rn_store n) rid o' signed_raw)))))"

definition send_knock :: "room_env \<Rightarrow> room_backend \<Rightarrow> jobj \<Rightarrow> jobj list act" where
  "send_knock E B raw = remotely E B (SendKnock raw)
     (\<lambda>ok. case ok of IntentKnock r \<Rightarrow> Inr r | _ \<Rightarrow> Inl (CodecError ''expected Knock''))
     (nbind (nlift (\<lambda>n. classify (re_ruma E) (re_codecs E) (rn_store n) raw)) (\<lambda>(v, rid, _).
      nbind (nlift (\<lambda>_. str_of raw ''state_key'')) (\<lambda>knocker.
      nbind (process E raw v rid False True) (\<lambda>o'.
        nstage (\<lambda>n. send_knock_result (re_codecs E) (rn_store n) rid knocker o')))))"

definition import_joined_room :: "room_env \<Rightarrow> room_backend \<Rightarrow> room_version \<Rightarrow> jobj \<Rightarrow> jobj list \<Rightarrow> jobj list \<Rightarrow> outcome act" where
  "import_joined_room E B v join state auth_objs = remotely E B (ImportRoom (version_str v) join state auth_objs) want_outcome
     (nbind (nlift (\<lambda>_. import_room_cmd (re_ruma E) (re_codecs E) v join state auth_objs)) (\<lambda>cmd.
      nbind (propose_cmd E (Import cmd)) (\<lambda>resp. nlift (\<lambda>_. import_outcome (re_ruma E) resp))))"

definition import_history_page :: "room_env \<Rightarrow> room_backend \<Rightarrow> string \<Rightarrow> jobj list \<Rightarrow> (u64 \<times> bool) act" where
  "import_history_page E B rid pdus = remotely E B (ImportPage rid pdus)
     (\<lambda>ok. case ok of IntentHistory indexed complete \<Rightarrow> Inr (indexed, complete) | _ \<Rightarrow> Inl (CodecError ''expected History''))
     (nbind (nlift (\<lambda>n. import_history_cmd (re_ruma E) (re_codecs E) (rn_store n) rid pdus)) (\<lambda>cmd.
      nbind (propose_cmd E (ImportHistory cmd)) (\<lambda>resp. nlift (\<lambda>_.
        case resp of History indexed complete \<Rightarrow> Inr (indexed, complete) | _ \<Rightarrow> Inl (CodecError ''unexpected history response'')))))"

definition import_gap_segment :: "room_env \<Rightarrow> string \<Rightarrow> jobj list \<Rightarrow> jobj list \<Rightarrow> jobj list \<Rightarrow> u64 act" where
  "import_gap_segment E rid state auth_objs chain =
     nbind (nlift (\<lambda>n. import_segment_cmd (re_ruma E) (re_codecs E) (rn_store n) rid state auth_objs chain)) (\<lambda>cmd.
     nbind (propose_cmd E (ImportSegment cmd)) (\<lambda>resp. nlift (\<lambda>_.
       case resp of Segment appended \<Rightarrow> Inr appended | _ \<Rightarrow> Inl (CodecError ''unexpected segment response''))))"

definition write_receipt ::
  "room_env \<Rightarrow> room_backend \<Rightarrow> string \<Rightarrow> string \<Rightarrow> string \<Rightarrow> string \<Rightarrow> string option \<Rightarrow> u64 \<Rightarrow> u64 act" where
  "write_receipt E B rid user ty eid thread ts = remotely E B (WriteReceipt rid user ty eid thread ts)
     (\<lambda>ok. case ok of IntentSeq seq \<Rightarrow> Inr seq | _ \<Rightarrow> Inl (CodecError ''expected Seq''))
     (nbind (propose_cmd E (ReceiptCommand \<lparr>rcp_room_id = rid, rcp_user_id = user, rcp_receipt_type = ty, rcp_event_id = eid,
          rcp_thread_id = thread, rcp_ts = ts\<rparr>)) (\<lambda>resp. nlift (\<lambda>_.
        case resp of ReceiptAt seq \<Rightarrow> Inr seq | _ \<Rightarrow> Inl (CodecError ''unexpected response to receipt''))))"

text \<open>
  Trusting keys. A slot without the shard passes them to the node that leads it, and drops an error; the keys
  such a slot keeps for itself are not part of the leader's state.
\<close>

definition trust_keys :: "room_env \<Rightarrow> room_backend \<Rightarrow> string \<Rightarrow> (string, string) btree_map \<Rightarrow> room_node \<Rightarrow> room_node option" where
  "trust_keys E B entity keys n =
     (case B of
        HostedShard \<Rightarrow> Some (n\<lparr>rn_keys := bt_insert entity keys (rn_keys n)\<rparr>)
      | RemoteShard exec \<Rightarrow> map_option snd (call E exec (TrustKeys entity keys) n))"

section \<open>Rules for actions\<close>

lemma nbind_Inr [simp]: "m n = Some (Inr a, n') \<Longrightarrow> nbind m f n = f a n'"
  and nbind_Inl [simp]: "m n = Some (Inl e, n') \<Longrightarrow> nbind m f n = Some (Inl e, n')"
  and nbind_None [simp]: "m n = None \<Longrightarrow> nbind m f n = None"
  by (simp_all add: nbind_def)

lemma nbindE:
  assumes "nbind m f n = Some (r, n')"
  obtains e where "m n = Some (Inl e, n')" "r = Inl e"
  | a n1 where "m n = Some (Inr a, n1)" "f a n1 = Some (r, n')"
  using assms by (auto simp: nbind_def split: option.splits sum.splits)

lemma nstageD:
  assumes "nstage f n = Some (r, n')"
  shows "f n = Some r \<and> n' = n"
  using assms by (cases "f n") (simp_all add: nstage_def)

lemma nlift_eq [simp]: "nlift f n = Some (r, n') \<longleftrightarrow> r = f n \<and> n' = n"
  by (auto simp: nlift_def)

lemma nret_eq [simp]: "nret a n = Some (r, n') \<longleftrightarrow> r = Inr a \<and> n' = n"
  by (auto simp: nret_def)

lemma nfail_eq [simp]: "nfail e n = Some (r, n') \<longleftrightarrow> r = Inl e \<and> n' = n"
  by (auto simp: nfail_def)

lemma hosted [simp]: "remotely E HostedShard intent expect local = local"
  by (simp add: remotely_def)

section \<open>What a joining server is told\<close>

lemma join_state_events:
  assumes "readable C store"
  shows "\<exists>seed'. fold_r (join_state_event C store) eids (state, seed) = Inr (state @ map (held_obj C store) (filter (\<lambda>i. held C store i \<noteq> None) eids), seed')
    \<and> set seed' = set seed \<union> (\<Union>i \<in> {i \<in> set eids. held C store i \<noteq> None}. set (auth_event_ids (held_obj C store i)))"
proof (induction eids arbitrary: state seed)
  case (Cons i eids)
  show ?case
  proof (cases "held C store i")
    case None
    then have "join_state_event C store i (state, seed) = Inr (state, seed)" by (simp add: join_state_event_def load_held[OF assms])
    moreover have "{j \<in> set (i # eids). held C store j \<noteq> None} = {j \<in> set eids. held C store j \<noteq> None}" using None by auto
    ultimately show ?thesis using Cons.IH[of state seed] None by simp
  next
    case (Some s)
    then have "join_state_event C store i (state, seed) = Inr (state @ [held_obj C store i], bs_extend (auth_event_ids (held_obj C store i)) seed)"
      by (simp add: join_state_event_def load_held[OF assms])
    moreover have "{j \<in> set (i # eids). held C store j \<noteq> None} = insert i {j \<in> set eids. held C store j \<noteq> None}" using Some by auto
    ultimately show ?thesis
      using Cons.IH[of "state @ [held_obj C store i]" "bs_extend (auth_event_ids (held_obj C store i)) seed"] Some by (auto simp: Un_assoc)
  qed
qed simp

text \<open>
  C19: The answer to a join that was taken: the event as this server signed it, the events of the current
  state of the room, each once and in the order of the state, and the whole auth chain behind them.
\<close>

theorem join_answer_complete:
  assumes "send_join E HostedShard raw n = Some (Inr (event, state, chain), n')" and "readable (re_codecs E) (rn_store n')"
  shows "\<exists>v rid creates meta current ids.
     classify (re_ruma E) (re_codecs E) (rn_store n) raw = Inr (v, rid, creates) \<and> hash_and_sign_event (re_signer E) raw v = Inr event \<and>
     rs_meta (re_codecs E) (rn_store n') rid = Inr (Some meta) \<and>
     resolve_group (re_codecs E) (rn_store n') rid (rm_current_group meta) = Some (Inr current) \<and>
     state = map (held_obj (re_codecs E) (rn_store n')) (filter (\<lambda>i. held (re_codecs E) (rn_store n') i \<noteq> None) (map snd current)) \<and>
     chain = map (held_obj (re_codecs E) (rn_store n')) ids \<and> distinct ids \<and>
     set ids = auth_closure (re_codecs E) (rn_store n') (\<Union>obj \<in> set state. set (auth_event_ids obj))"
proof -
  let ?C = "re_codecs E" and ?st = "rn_store n'"
  have "\<exists>v rid creates event' o' n1. Inr (v, rid, creates) = classify (re_ruma E) ?C (rn_store n) raw \<and> Inr event' = hash_and_sign_event (re_signer E) raw v
      \<and> nstage (\<lambda>n. send_join_result ?C (rn_store n) rid o' event') n1 = Some (Inr (event, state, chain), n')"
    using assms(1) by (auto simp: send_join_def elim!: nbindE split: prod.splits) (intro exI conjI, assumption+)
  then obtain v rid creates event' o' n1 where cl: "classify (re_ruma E) ?C (rn_store n) raw = Inr (v, rid, creates)" and h: "hash_and_sign_event (re_signer E) raw v = Inr event'"
    and "nstage (\<lambda>n. send_join_result ?C (rn_store n) rid o' event') n1 = Some (Inr (event, state, chain), n')" by metis
  then have r: "send_join_result ?C ?st rid o' event' = Some (Inr (event, state, chain))" using nstageD by blast
  then have "event' = event" by (auto simp: send_join_result_def dret_def dfail_def split: outcome.splits)
  note h = h[unfolded this] and r = r[unfolded this]
  from r obtain meta :: room_meta and current where m: "rs_meta ?C ?st rid = Inr (Some meta)"
      "resolve_group ?C ?st rid (rm_current_group meta) = Some (Inr current)"
    and rest: "dbind (Some (fold_r (join_state_event ?C ?st) (map snd current) ([], []))) (\<lambda>(state, seed).
          dbind (collect_auth_chain ?C ?st seed) (\<lambda>chain. dret (event, state, chain))) = Some (Inr (event, state, chain))"
    by (auto simp: send_join_result_def known_meta_def resolved_def dfail_def split: outcome.splits)
  obtain seed where s: "fold_r (join_state_event ?C ?st) (map snd current) ([], []) =
        Inr (map (held_obj ?C ?st) (filter (\<lambda>i. held ?C ?st i \<noteq> None) (map snd current)), seed)"
    "set seed = (\<Union>i \<in> {i \<in> set (map snd current). held ?C ?st i \<noteq> None}. set (auth_event_ids (held_obj ?C ?st i)))"
    using join_state_events[OF assms(2), of "map snd current" "[]" "[]"] by auto
  obtain ids where c: "collect_auth_chain ?C ?st seed = Some (Inr (map (held_obj ?C ?st) ids))" "distinct ids" "set ids = auth_closure ?C ?st (set seed)"
    using collect_auth_chain_result[OF assms(2) finite_held] by blast
  have "state = map (held_obj ?C ?st) (filter (\<lambda>i. held ?C ?st i \<noteq> None) (map snd current))" "chain = map (held_obj ?C ?st) ids"
    using rest s(1) c(1) by (simp_all add: dret_def)
  moreover from this(1) have "set seed = (\<Union>obj \<in> set state. set (auth_event_ids obj))" using s(2) by auto
  then have "set ids = auth_closure ?C ?st (\<Union>obj \<in> set state. set (auth_event_ids obj))" using c(3) by simp
  ultimately show ?thesis using cl h m c(2) by (intro exI conjI) assumption+
qed

end
