(* ===== verification/Room_Heal.thy ===== *)
theory Room_Heal
  imports Room_Server
begin

text \<open>
  Healing of inbound events (\<open>heal.rs\<close>): when an event cites predecessors or auth events that are not held,
  they are fetched from the origin, the event is tried again, and a hole that stays is settled as a
  rejection. The transport is a record of functions; an answer of the origin may depend on the number of
  requests made before, and every request is recorded in the node.
\<close>

definition GAP_FILL_LIMIT :: nat where "GAP_FILL_LIMIT = 50"

record event_fetcher =
  fetch_missing :: "nat \<Rightarrow> string \<Rightarrow> string \<Rightarrow> string list \<Rightarrow> string \<Rightarrow> nat \<Rightarrow> string + jobj list"
  fetch_state_ids :: "nat \<Rightarrow> string \<Rightarrow> string \<Rightarrow> string \<Rightarrow> string + string list \<times> string list"
  fetch_state :: "nat \<Rightarrow> string \<Rightarrow> string \<Rightarrow> string \<Rightarrow> string + jobj list \<times> jobj list"
  fetch_one :: "nat \<Rightarrow> string \<Rightarrow> string \<Rightarrow> string + jobj option"
  trust_origin :: "nat \<Rightarrow> string \<Rightarrow> public_key_map \<Rightarrow> public_key_map"
  trust_servers :: "nat \<Rightarrow> jobj list \<Rightarrow> public_key_map \<Rightarrow> public_key_map"

definition ask :: "fed_request \<Rightarrow> (nat \<Rightarrow> 'a) \<Rightarrow> room_node \<Rightarrow> 'a \<times> room_node" where
  "ask req q n = (q (rn_asked n), n\<lparr>rn_requests := rn_requests n @ [req]\<rparr>)"

definition learn_keys :: "(nat \<Rightarrow> public_key_map \<Rightarrow> public_key_map) \<Rightarrow> room_node \<Rightarrow> room_node" where
  "learn_keys t n = n\<lparr>rn_keys := t (rn_asked n) (rn_keys n)\<rparr>"

section \<open>Fetching by identifier\<close>

text \<open>The budget is what remains of \<open>GAP_FILL_LIMIT\<close>; the top of the queue is its head.\<close>

fun fetch_loop ::
  "room_env \<Rightarrow> event_fetcher \<Rightarrow> string \<Rightarrow> nat \<Rightarrow> string list \<Rightarrow> string set \<Rightarrow> bool \<Rightarrow> room_node \<Rightarrow> (bool \<times> room_node) option" where
  "fetch_loop E F origin 0 queue retried ingested n = Some (ingested, n)"
| "fetch_loop E F origin (Suc k) [] retried ingested n = Some (ingested, n)"
| "fetch_loop E F origin (Suc k) (i # queue) retried ingested n =
     (case ask (AskEvent origin i) (\<lambda>t. fetch_one F t origin i) n of
        (Inr (Some obj), n) \<Rightarrow>
          (case ingest_pdu E HostedShard obj n of
             None \<Rightarrow> None
           | Some (r, n) \<Rightarrow>
               (case r of
                  Inr _ \<Rightarrow> fetch_loop E F origin k queue retried True n
                | Inl (MissingEvents cited) \<Rightarrow>
                    if i \<notin> retried then fetch_loop E F origin k (rev cited @ i # queue) (insert i retried) ingested n
                    else fetch_loop E F origin k queue retried ingested n
                | Inl (MissingAuthEvents cited) \<Rightarrow>
                    if i \<notin> retried then fetch_loop E F origin k (rev cited @ i # queue) (insert i retried) ingested n
                    else (case ingest_pdu_rejecting_missing_auth E HostedShard obj n of
                            None \<Rightarrow> None
                          | Some (r, n) \<Rightarrow> fetch_loop E F origin k queue retried (ingested \<or> is_ok r) n)
                | Inl _ \<Rightarrow> fetch_loop E F origin k queue retried ingested n))
      | (_, n) \<Rightarrow> fetch_loop E F origin k queue retried ingested n)"

definition fetch_missing_by_id ::
  "room_env \<Rightarrow> event_fetcher \<Rightarrow> string \<Rightarrow> string list \<Rightarrow> room_node \<Rightarrow> (bool \<times> room_node) option" where
  "fetch_missing_by_id E F origin missing n =
     fetch_loop E F origin GAP_FILL_LIMIT (rev missing) {} False (learn_keys (\<lambda>t. trust_origin F t origin) n)"

definition resolve_id :: "room_env \<Rightarrow> event_fetcher \<Rightarrow> string \<Rightarrow> string \<Rightarrow> room_node \<Rightarrow> jobj option \<times> room_node" where
  "resolve_id E F origin i n =
     (case (case rs_event (re_codecs E) (rn_store n) i of
              Inr (Some s) \<Rightarrow> (case canonical_of (re_codecs E) (se_raw s) of Inr (JObj obj) \<Rightarrow> Some obj | _ \<Rightarrow> None)
            | _ \<Rightarrow> None) of
        Some obj \<Rightarrow> (Some obj, n)
      | None \<Rightarrow> (case ask (AskEvent origin i) (\<lambda>t. fetch_one F t origin i) n of (Inr found, n) \<Rightarrow> (found, n) | (Inl _, n) \<Rightarrow> (None, n)))"

fun resolve_ids :: "room_env \<Rightarrow> event_fetcher \<Rightarrow> string \<Rightarrow> string list \<Rightarrow> room_node \<Rightarrow> jobj list \<times> room_node" where
  "resolve_ids E F origin [] n = ([], n)"
| "resolve_ids E F origin (i # ids) n =
     (let (found, n) = resolve_id E F origin i n; (objs, n) = resolve_ids E F origin ids n in
      (case found of Some obj \<Rightarrow> obj # objs | None \<Rightarrow> objs, n))"

definition fetch_state_by_ids ::
  "room_env \<Rightarrow> event_fetcher \<Rightarrow> string \<Rightarrow> string \<Rightarrow> string \<Rightarrow> room_node \<Rightarrow> (jobj list \<times> jobj list) option \<times> room_node" where
  "fetch_state_by_ids E F origin rid eid n =
     (case ask (AskStateIds origin rid eid) (\<lambda>t. fetch_state_ids F t origin rid eid) n of
        (Inl _, n) \<Rightarrow> (None, n)
      | (Inr (pdu_ids, chain_ids), n) \<Rightarrow>
          if pdu_ids = [] then (None, n)
          else let (state, n) = resolve_ids E F origin pdu_ids n;
                   (chain, n) = resolve_ids E F origin chain_ids n in
               (if state = [] then None else Some (state, chain), n))"

section \<open>Filling a gap\<close>

fun ingest_chain :: "room_env \<Rightarrow> jobj list \<Rightarrow> nat \<Rightarrow> bool \<Rightarrow> room_node \<Rightarrow> ((nat \<times> bool) \<times> room_node) option" where
  "ingest_chain E [] ingested still n = Some ((ingested, still), n)"
| "ingest_chain E (obj # chain) ingested still n =
     (case ingest_pdu E HostedShard obj n of
        None \<Rightarrow> None
      | Some (Inr (OutAccepted _ _), n) \<Rightarrow> ingest_chain E chain (ingested + 1) still n
      | Some (Inr (OutDuplicate _), n) \<Rightarrow> ingest_chain E chain (ingested + 1) still n
      | Some (Inl (MissingEvents _), n) \<Rightarrow> ingest_chain E chain ingested True n
      | Some (Inl (MissingAuthEvents _), n) \<Rightarrow> ingest_chain E chain ingested True n
      | Some (_, n) \<Rightarrow> ingest_chain E chain ingested still n)"

definition anchor_prev :: "jobj \<Rightarrow> string option" where
  "anchor_prev e = (case bt_get e ''prev_events'' of Some (JArr (JStr p # _)) \<Rightarrow> Some p | _ \<Rightarrow> None)"

text \<open>The event before the chain, which neither the snapshot nor the chain holds.\<close>

definition breach_event ::
  "room_env \<Rightarrow> event_fetcher \<Rightarrow> string \<Rightarrow> string \<Rightarrow> string option \<Rightarrow> jobj list \<Rightarrow> room_node \<Rightarrow> jobj list \<times> room_node" where
  "breach_event E F origin rid prev chain n =
     (case prev of
        None \<Rightarrow> (chain, n)
      | Some p \<Rightarrow>
          (case rs_event (re_codecs E) (rn_store n) p of
             Inr (Some _) \<Rightarrow> (chain, n)
           | _ \<Rightarrow>
               (case ask (AskEvent origin p) (\<lambda>t. fetch_one F t origin p) n of
                  (Inr (Some obj), n) \<Rightarrow>
                    let n = learn_keys (\<lambda>t. trust_servers F t [obj]) n in
                    (if verify_pdu (re_ruma E) (re_codecs E) (rn_keys n) (rn_store n) rid obj then obj # chain else chain, n)
                | (_, n) \<Rightarrow> (chain, n))))"

definition import_snapshot ::
  "room_env \<Rightarrow> event_fetcher \<Rightarrow> string \<Rightarrow> jobj list \<Rightarrow> bool \<Rightarrow> jobj list \<times> jobj list \<Rightarrow> room_node \<Rightarrow> (bool \<times> room_node) option" where
  "import_snapshot E F rid chain ingested = (\<lambda>(state, auth_objs) n.
     if state = [] then Some (ingested, n)
     else let n = learn_keys (\<lambda>t. trust_servers F t (state @ auth_objs)) n in
       if \<not> list_all (verify_pdu (re_ruma E) (re_codecs E) (rn_keys n) (rn_store n) rid) (state @ auth_objs) then Some (ingested, n)
       else (case import_gap_segment E rid state auth_objs chain n of
               None \<Rightarrow> None
             | Some (Inr appended, n) \<Rightarrow> Some (appended > 0 \<or> ingested, n)
             | Some (Inl _, n) \<Rightarrow> Some (ingested, n)))"

definition anchor_gap ::
  "room_env \<Rightarrow> event_fetcher \<Rightarrow> string \<Rightarrow> string \<Rightarrow> jobj list \<Rightarrow> bool \<Rightarrow> room_node \<Rightarrow> (bool \<times> room_node) option" where
  "anchor_gap E F origin rid chain ingested n =
     (case chain of
        [] \<Rightarrow> Some (ingested, n)
      | oldest # _ \<Rightarrow>
          (case pdu_event_id (re_ruma E) (re_codecs E) (rn_store n) oldest of
             None \<Rightarrow> Some (ingested, n)
           | Some anchor \<Rightarrow>
               let prev = anchor_prev oldest;
                   (snapshot, n) = (case prev of Some p \<Rightarrow> fetch_state_by_ids E F origin rid p n | None \<Rightarrow> (None, n)) in
               (case snapshot of
                  Some s \<Rightarrow>
                    let (chain, n) = breach_event E F origin rid prev chain n in
                    import_snapshot E F rid chain ingested s n
                | None \<Rightarrow>
                    (case ask (AskState origin rid anchor) (\<lambda>t. fetch_state F t origin rid anchor) n of
                       (Inl _, n) \<Rightarrow> Some (ingested, n)
                     | (Inr s, n) \<Rightarrow> import_snapshot E F rid chain ingested s n))))"

definition heal_gap :: "room_env \<Rightarrow> event_fetcher \<Rightarrow> string \<Rightarrow> jobj \<Rightarrow> room_node \<Rightarrow> (bool \<times> room_node) option" where
  "heal_gap E F origin pdu n =
     (case (pdu_event_id (re_ruma E) (re_codecs E) (rn_store n) pdu, str_prop pdu ''room_id'') of
        (Some pdu_id, Some rid) \<Rightarrow>
          (case room_extremities (re_codecs E) (rn_store n) rid of
             Inr (e # es) \<Rightarrow>
               (case ask (AskMissing origin rid (e # es) pdu_id GAP_FILL_LIMIT)
                   (\<lambda>t. fetch_missing F t origin rid (e # es) pdu_id GAP_FILL_LIMIT) (learn_keys (\<lambda>t. trust_origin F t origin) n) of
                  (Inl _, n) \<Rightarrow> Some (False, n)
                | (Inr chain, n) \<Rightarrow>
                    (case ingest_chain E chain 0 False n of
                       None \<Rightarrow> None
                     | Some ((ingested, still), n) \<Rightarrow>
                         if \<not> still then Some (ingested > 0, n)
                         else anchor_gap E F origin rid chain (ingested > 0) n))
           | _ \<Rightarrow> Some (False, n))
      | _ \<Rightarrow> Some (False, n))"

section \<open>Ingesting with healing\<close>

function healing_loop ::
  "room_env \<Rightarrow> event_fetcher \<Rightarrow> string \<Rightarrow> jobj \<Rightarrow> bool \<Rightarrow> bool \<Rightarrow> room_node \<Rightarrow> ((room_error + outcome) \<times> room_node) option" where
  "healing_loop E F origin raw tried_gap tried_auth n =
     (case ingest_pdu E HostedShard raw n of
        None \<Rightarrow> None
      | Some (Inl (MissingEvents missing), n) \<Rightarrow>
          if tried_gap then Some (Inl (MissingEvents missing), n)
          else (case heal_gap E F origin raw n of
                  None \<Rightarrow> None
                | Some (True, n) \<Rightarrow> healing_loop E F origin raw True tried_auth n
                | Some (False, n) \<Rightarrow>
                    (case fetch_missing_by_id E F origin missing n of
                       None \<Rightarrow> None
                     | Some (True, n) \<Rightarrow> healing_loop E F origin raw True tried_auth n
                     | Some (False, n) \<Rightarrow> Some (Inl (MissingEvents missing), n)))
      | Some (Inl (MissingAuthEvents missing), n) \<Rightarrow>
          if tried_auth then ingest_pdu_rejecting_missing_auth E HostedShard raw n
          else (case fetch_missing_by_id E F origin missing n of
                  None \<Rightarrow> None
                | Some (_, n) \<Rightarrow> healing_loop E F origin raw tried_gap True n)
      | Some (r, n) \<Rightarrow> Some (r, n))"
  by pat_completeness auto
termination
  by (relation "measure (\<lambda>(E, F, origin, raw, tried_gap, tried_auth, n). of_bool (\<not> tried_gap) + of_bool (\<not> tried_auth))") auto

declare healing_loop.simps [simp del]

definition ingest_pdu_healing ::
  "room_env \<Rightarrow> room_backend \<Rightarrow> event_fetcher \<Rightarrow> string \<Rightarrow> jobj \<Rightarrow> outcome act" where
  "ingest_pdu_healing E B F origin raw = remotely E B (IngestPdu raw (Some origin) True False) want_outcome
     (healing_loop E F origin raw False False)"

end
