(* ===== verification/Room_Settle.thy ===== *)
theory Room_Settle
  imports Room_Heal "HOL-Library.Sublist"
begin

text \<open>
  What healing guarantees: it does not end for want of auth events, it gives up on predecessors only after asking
  the origin, its walk stays within its budget; and what it imports.
\<close>

section \<open>The errors of the pipeline\<close>

text \<open>
  A plain error that names missing events names at least one; strictly, it names no missing auth event. The
  rules follow the structure of the stages.
\<close>

named_theorems plain_intros \<open>the errors of a stage are plain\<close>

fun plain_error :: "bool \<Rightarrow> room_error \<Rightarrow> bool" where
  "plain_error strict (MissingAuthEvents m) = (m \<noteq> [] \<and> \<not> strict)"
| "plain_error strict (MissingEvents m) = (m \<noteq> [])"
| "plain_error strict _ = True"

definition plainr :: "bool \<Rightarrow> room_error + 'a \<Rightarrow> bool" where
  "plainr strict r = (\<forall>e. r = Inl e \<longrightarrow> plain_error strict e)"

definition plain :: "bool \<Rightarrow> 'a stage \<Rightarrow> bool" where
  "plain strict s = (\<forall>r. s = Some r \<longrightarrow> plainr strict r)"

lemma plain_storage [simp]: "plain_error strict (storage_err e)"
  by (cases e) simp

lemma plainr_value [plain_intros]: "plainr strict (Inr a)" "plain_error strict e \<Longrightarrow> plainr strict (Inl e)"
  by (simp_all add: plainr_def)

lemma plainr_rbind [plain_intros]: "plainr strict r \<Longrightarrow> (\<And>a. plainr strict (f a)) \<Longrightarrow> plainr strict (rbind r f)"
  by (cases r) (simp_all add: plainr_def)

lemma plainr_map [plain_intros]: "(\<And>e. plain_error strict (g e)) \<Longrightarrow> plainr strict (map_sum g id s)"
  by (cases s) (simp_all add: plainr_def)

lemma plainr_ok_or [plain_intros]: "plain_error strict e \<Longrightarrow> plainr strict (ok_or e x)"
  by (cases x) (simp_all add: plainr_def)

lemma plainr_fold [plain_intros]: "(\<And>x s. plainr strict (f x s)) \<Longrightarrow> plainr strict (fold_r f xs s)"
  by (induction xs arbitrary: s) (auto intro: plain_intros)

lemma plain_value [plain_intros]:
  "plain strict None" "plainr strict r \<Longrightarrow> plain strict (Some r)" "plain strict (dret a)" "plain_error strict e \<Longrightarrow> plain strict (dfail e)"
  by (auto simp: plain_def plainr_def dret_def dfail_def)

lemma plain_dbind [plain_intros]: "plain strict s \<Longrightarrow> (\<And>a. plain strict (f a)) \<Longrightarrow> plain strict (dbind s f)"
  by (cases "(s, f)" rule: dbind.cases) (auto simp: plain_def plainr_def)

lemma plain_lift [plain_intros]:
  "(\<And>e. plain_error strict (g e)) \<Longrightarrow> plain strict (lift_err g u)" "plain strict (stored t)"
  by (auto simp: plain_def plainr_def lift_err_def stored_def split: sum.splits)

lemma plain_map [plain_intros]: "(\<And>e. plain_error strict (g e)) \<Longrightarrow> plain strict (map_option (map_sum g id) w)"
  by (auto simp: plain_def plainr_map)

lemma plain_fold [plain_intros]: "(\<And>x s. plain strict (f x s)) \<Longrightarrow> plain strict (fold_d f xs s)"
  by (induction xs arbitrary: s) (auto intro: plain_intros)

lemma plain_stages [plain_intros]:
  "plainr strict (canonicalize j)" "plainr strict (raw_bytes C raw)" "plain strict (materialize R C store rid g)" "plain strict (resolve_stage R v sets fetch)"
  by (auto simp: canonicalize_def raw_bytes_def materialize_def resolve_stage_def intro!: plain_intros split: sum.splits json.splits text_error.splits)

lemma plain_parse [plain_intros]: "plainr strict (parse_stored R C eid se)"
  by (auto simp: parse_stored_def intro!: plain_intros split: sum.splits)

lemma plain_propose [plain_intros]:
  "plain strict (propose_rejected_with_state C rid event raw rej new_groups group_after next_group)" "plain strict (propose_rejected C rid event raw kind meta)"
  by (auto simp: propose_rejected_with_state_def propose_rejected_def intro!: plain_intros)

lemma plain_auth_state [plain_intros]: "plain strict (auth_state R C store v is_create meta auth)"
  by (auto simp: auth_state_def Let_def intro!: plain_intros split: option.splits)

lemma plain_state [plain_intros]:
  "plain strict (materialize_all R C store rid gids)" "plain strict (state_before R C store v rid is_create prev_groups fetch next_group)"
  "plainr strict (state_view_of v event st fetch)" "plain strict (state_after C store rid is_create event before before_group al)"
  by (auto simp: materialize_all_def state_before_def state_view_of_def state_after_def Let_def intro!: plain_intros split: option.splits)

lemma plain_tip [plain_intros]:
  "plain strict (extremity_state R C store rid this sa eid sets)" "plain strict (current_group R C store v rid event fetch extremities sa after_group al)"
  by (auto simp: extremity_state_def current_group_def intro!: plain_intros split: option.splits)

lemma plain_redaction [plain_intros]:
  "plainr strict (sender_may_redact R event v st fetch)" "plainr strict (redaction_directive R C store rid event v st fetch)"
  by (auto simp: sender_may_redact_def redaction_directive_def intro!: plain_intros split: option.splits sum.splits json.splits)

lemma plain_accept [plain_intros]: "plain strict (accept_event R C store v rid is_create relay txn meta raw event before before_group al)"
  by (auto simp: accept_event_def Let_def intro!: plain_intros split: prod.splits)

lemma plain_authorise [plain_intros]: "plain strict (authorise_event R C store v rid is_create relay txn meta raw event auth prevs)"
  by (auto simp: authorise_event_def Let_def intro!: plain_intros split: sum.splits prod.splits)

lemma plain_references [plain_intros]:
  "plainr strict (verified_form R keys raw v)" "plainr strict (fetch_auth R C store eid acc)" "plainr strict (prev_group C store eid acc')"
  "plainr strict (str_of raw k)"
  by (auto simp: verified_form_def fetch_auth_def prev_group_def str_of_def Let_def intro!: plain_intros split: prod.splits option.splits verify_outcome.splits json.splits)

lemma plain_process [plain_intros]:
  "(strict \<Longrightarrow> rej) \<Longrightarrow> plain strict (process_inner R C keys store raw v rid is_create relay rej txn)"
  by (auto simp: process_inner_def Let_def intro!: plain_intros split: prod.splits)

lemma plain_classify [plain_intros]: "plainr strict (room_id_of R raw)" "plainr strict (classify R C store raw)"
  by (auto simp: room_id_of_def classify_def Let_def intro!: plain_intros split: option.splits json.splits sum.splits)

section \<open>Actions with plain errors\<close>

definition plain_act :: "bool \<Rightarrow> 'a act \<Rightarrow> bool" where
  "plain_act strict m = (\<forall>n r n'. m n = Some (r, n') \<longrightarrow> plainr strict r)"

lemma plain_nbind [plain_intros]: "plain_act strict m \<Longrightarrow> (\<And>a. plain_act strict (f a)) \<Longrightarrow> plain_act strict (nbind m f)"
  unfolding plain_act_def plainr_def by (blast elim: nbindE)

lemma plain_nstage [plain_intros]: "(\<And>n. plain strict (f n)) \<Longrightarrow> plain_act strict (nstage f)"
  unfolding plain_act_def using nstageD plain_def by blast

lemma plain_nlift [plain_intros]: "(\<And>n. plainr strict (f n)) \<Longrightarrow> plain_act strict (nlift f)"
  by (simp add: plain_act_def)

lemma plain_nret [plain_intros]: "plain_act strict (nret a)"
  by (simp add: plain_act_def plainr_def)

lemma plain_proposals [plain_intros]: "plain_act strict (propose_cmd E cmd)" "plainr strict (outcome_of R resp)"
  by (auto simp: plain_act_def propose_cmd_def outcome_of_def Let_def intro!: plain_intros split: prod.splits sum.splits room_response.splits)

lemma plain_settle [plain_intros]: "plain_act strict (settle E d)"
proof -
  have "plain_act strict (nbind (propose_cmd E c) (\<lambda>resp. nlift (\<lambda>_. outcome_of (re_ruma E) resp)))" for c
    by (intro plain_intros)
  then have "plain_act strict (propose E cmd txn)" for cmd txn
    by (simp add: plain_act_def propose_def split: prod.splits)
  then show ?thesis by (auto simp: settle_def intro: plain_intros split: decision.splits)
qed

lemma plain_ingest:
  "plain_act False (ingest_pdu E HostedShard raw)" "plain_act True (ingest_pdu_rejecting_missing_auth E HostedShard raw)"
  by (auto simp: ingest_pdu_def ingest_pdu_rejecting_missing_auth_def process_def process_event_def intro!: plain_intros split: prod.splits)

section \<open>How healing ends\<close>

lemma ask_sends: "ask req q n = (x, n') \<Longrightarrow> x = q (rn_asked n) \<and> n' = n\<lparr>rn_requests := rn_requests n @ [req]\<rparr>"
  by (auto simp: ask_def)

lemma learn_requests [simp]: "rn_requests (learn_keys t n) = rn_requests n" "rn_reads (learn_keys t n) = rn_reads n"
  by (simp_all add: learn_keys_def)

text \<open>The entry points that a node runs itself ask no other server.\<close>

named_theorems quiet_intros \<open>an action that sends no request\<close>

definition quiet :: "'a act \<Rightarrow> bool" where
  "quiet m = (\<forall>n r n'. m n = Some (r, n') \<longrightarrow> rn_requests n' = rn_requests n)"

lemma quiet_nbind [quiet_intros]: "quiet m \<Longrightarrow> (\<And>a. quiet (f a)) \<Longrightarrow> quiet (nbind m f)"
  unfolding quiet_def by (metis nbindE)

lemma quiet_rules [quiet_intros]: "quiet (nstage g)" "quiet (nlift h)" "quiet (nret a)" "quiet (propose_cmd E cmd)"
  by (auto simp: quiet_def propose_cmd_def dest: nstageD split: prod.splits)

lemma quiet_settle [quiet_intros]: "quiet (settle E d)"
proof -
  have "quiet (nbind (propose_cmd E c) (\<lambda>resp. nlift (\<lambda>_. outcome_of (re_ruma E) resp)))" for c
    by (intro quiet_intros)
  moreover have "rn_requests (snd (schema_at_least E 2 n)) = rn_requests n" for n
    by (auto simp: schema_at_least_def split: sum.splits)
  ultimately have "quiet (propose E cmd txn)" for cmd txn
    by (auto simp: quiet_def propose_def split: prod.splits if_splits) (metis snd_conv)+
  then show ?thesis by (auto simp: settle_def intro: quiet_intros split: decision.splits)
qed

lemma quiet_ingest:
  "quiet (ingest_pdu E HostedShard raw)" "quiet (ingest_pdu_rejecting_missing_auth E HostedShard raw)"
  by (auto simp: ingest_pdu_def ingest_pdu_rejecting_missing_auth_def process_def process_event_def intro!: quiet_intros split: prod.splits)

lemma quiet_segment: "quiet (import_gap_segment E rid state auth_objs chain)"
  by (auto simp: import_gap_segment_def intro!: quiet_intros)

lemmas quiet_ingestD = quiet_ingest[unfolded quiet_def, rule_format]

text \<open>One round of the walk by identifiers: it asks for the event on top, and goes on with what it then knows.\<close>

lemma fetch_loop_step:
  assumes "fetch_loop E F origin (Suc k) (i # queue) retried ingested n = Some (b, n')"
  shows "\<exists>queue' retried' ingested' n1. rn_asked n1 = rn_asked n + 1 \<and> fetch_loop E F origin k queue' retried' ingested' n1 = Some (b, n')"
proof -
  obtain ans n1 where a: "ask (AskEvent origin i) (\<lambda>t. fetch_one F t origin i) n = (ans, n1)" by fastforce
  then have n1: "rn_asked n1 = rn_asked n + 1" by (auto dest: ask_sends)
  show ?thesis
  proof (cases "\<exists>obj. ans = Inr (Some obj)")
    case False
    then have "fetch_loop E F origin k queue retried ingested n1 = Some (b, n')"
      using assms a by (auto split: sum.splits option.splits)
    with n1 show ?thesis by blast
  next
    case True
    then obtain obj where "ans = Inr (Some obj)" by blast
    with assms a obtain r n2 where r: "ingest_pdu E HostedShard obj n1 = Some (r, n2)" by (auto split: option.splits)
    have n2: "rn_asked n2 = rn_asked n + 1" using quiet_ingestD(1)[OF r] n1 by simp
    show ?thesis
    proof (cases "\<exists>m. r = Inl (MissingAuthEvents m) \<and> i \<in> retried")
      case True
      with assms a r \<open>ans = _\<close> obtain r' n3 where
        "ingest_pdu_rejecting_missing_auth E HostedShard obj n2 = Some (r', n3)" "fetch_loop E F origin k queue retried (ingested \<or> is_ok r') n3 = Some (b, n')"
        by (auto split: option.splits)
      then show ?thesis using quiet_ingestD(2)[of E obj n2 r' n3] n2 by (metis (no_types))
    next
      case False
      with assms a r \<open>ans = _\<close> show ?thesis using n2 by (auto split: sum.splits room_error.splits if_splits)
    qed
  qed
qed

lemma fetch_loop_asks:
  "fetch_loop E F origin k queue retried ingested n = Some (b, n') \<Longrightarrow> rn_asked n' \<le> rn_asked n + k"
proof (induction k arbitrary: queue retried ingested n)
  case (Suc k)
  show ?case
  proof (cases queue)
    case (Cons i rest)
    with Suc.prems fetch_loop_step obtain queue' retried' ingested' n1 where
      "rn_asked n1 = rn_asked n + 1" "fetch_loop E F origin k queue' retried' ingested' n1 = Some (b, n')" by blast
    then show ?thesis using Suc.IH by force
  qed (use Suc.prems in auto)
qed auto

section \<open>Runs of healing\<close>

text \<open>
  The requests sent from one node state to a later one.
\<close>

definition later :: "room_node \<Rightarrow> room_node \<Rightarrow> bool" where
  "later m m' \<longleftrightarrow> prefix (rn_requests m) (rn_requests m')"

definition sent :: "room_node \<Rightarrow> room_node \<Rightarrow> fed_request set" where
  "sent m m' = set (drop (rn_asked m) (rn_requests m'))"

lemma later_refl [simp]: "later m m" "rn_requests m' = rn_requests m \<Longrightarrow> later m m'"
  by (simp_all add: later_def)

lemma later_trans: "later a b \<Longrightarrow> later b c \<Longrightarrow> later a c"
  by (simp add: later_def)

lemma sent_mono: "later a b \<Longrightarrow> later b c \<Longrightarrow> sent b c \<subseteq> sent a c \<and> sent a b \<subseteq> sent a c"
  by (auto simp: later_def sent_def prefix_def)

lemma later_ask: "ask req q m = (x, m') \<Longrightarrow> later m m' \<and> req \<in> sent m m'"
  by (auto simp: later_def sent_def dest: ask_sends)

text \<open>
  The request that walks the gap before an event, as the node makes it in a state: the events between the
  room's extremities and the event.
\<close>

definition gap_request :: "room_env \<Rightarrow> string \<Rightarrow> jobj \<Rightarrow> room_node \<Rightarrow> fed_request \<Rightarrow> bool" where
  "gap_request E origin raw m req \<longleftrightarrow> (\<exists>rid earliest pdu_id. pdu_event_id (re_ruma E) (re_codecs E) (rn_store m) raw = Some pdu_id \<and>
     str_prop raw ''room_id'' = Some rid \<and> room_extremities (re_codecs E) (rn_store m) rid = Inr earliest \<and>
     req = AskMissing origin rid earliest pdu_id GAP_FILL_LIMIT)"

text \<open>
  An attempt at an event, in a state of \<open>I\<close> later than \<open>n\<close>, found predecessors missing, and the origin was asked for
  them between that attempt and \<open>n'\<close>.
\<close>

definition asked_for :: "room_env \<Rightarrow> string \<Rightarrow> (room_node \<Rightarrow> bool) \<Rightarrow> jobj \<Rightarrow> room_node \<Rightarrow> room_node \<Rightarrow> bool" where
  "asked_for E origin I raw n n' \<longleftrightarrow> (\<exists>m m' missing. I m \<and> later n m \<and> ingest_pdu E HostedShard raw m = Some (Inl (MissingEvents missing), m') \<and>
     later m' n' \<and> ((\<exists>req \<in> sent m' n'. gap_request E origin raw m' req) \<or> AskEvent origin (List.last missing) \<in> sent m' n'))"

lemma asked_for_mono: "asked_for E origin I raw m n' \<Longrightarrow> later n m \<Longrightarrow> asked_for E origin I raw n n'"
  unfolding asked_for_def using later_trans by blast

text \<open>An auth chain that stays missing is settled: the event is then proposed as rejected.\<close>

lemma settle_errors: "settle E d n = Some (Inl e, n') \<Longrightarrow> (\<exists>s. e = ShardFailed s) \<or> (\<exists>s. e = CodecError s)"
proof -
  have *: "(\<exists>s. e = ShardFailed s) \<or> (\<exists>s. e = CodecError s)"
    if "nbind (propose_cmd E c) (\<lambda>resp. nlift (\<lambda>_. outcome_of (re_ruma E) resp)) m = Some (Inl e, n')" for c m
    using that by (auto simp: nbind_def nlift_def propose_cmd_def outcome_of_def Let_def split: prod.splits sum.splits option.splits if_splits room_response.splits)
  assume "settle E d n = Some (Inl e, n')"
  then show ?thesis using * by (auto simp: settle_def nret_def propose_def split: decision.splits prod.splits)
qed

definition hole_settled :: "room_codecs \<Rightarrow> string \<Rightarrow> decision stage \<Rightarrow> decision stage \<Rightarrow> bool" where
  "hole_settled C rid s s' \<longleftrightarrow> (\<forall>m. s = Some (Inl (MissingAuthEvents m)) \<longrightarrow>
     (\<exists>event raw meta. s' = propose_rejected C rid event raw (AuthChain ''auth events unfetchable'') meta))"

lemma hole_rules:
  "plain True s \<Longrightarrow> (\<And>a. hole_settled C rid (f a) (g a)) \<Longrightarrow> hole_settled C rid (dbind s f) (dbind s g)"
  "(c \<Longrightarrow> hole_settled C rid a a') \<Longrightarrow> (\<not> c \<Longrightarrow> hole_settled C rid b b') \<Longrightarrow>
     hole_settled C rid (if c then a else b) (if c then a' else b')"
  "(\<And>x y. hole_settled C rid (h x y) (h' x y)) \<Longrightarrow> hole_settled C rid (case p of (x, y) \<Rightarrow> h x y) (case p of (x, y) \<Rightarrow> h' x y)"
  "hole_settled C rid (if False then t else dfail (MissingAuthEvents ids))
     (if True then propose_rejected C rid event raw (AuthChain ''auth events unfetchable'') meta else t')"
  by (cases "(s, f)" rule: dbind.cases; auto simp: plain_def plainr_def hole_settled_def)
    (auto simp: hole_settled_def split: prod.split)

lemma hole_plain: "plain True s \<Longrightarrow> hole_settled C rid s s'"
  by (auto simp: plain_def plainr_def hole_settled_def)

lemma missing_auth_rejected:
  "hole_settled C rid (process_inner R C keys store raw v rid is_create relay False txn) (process_inner R C keys store raw v rid is_create relay True txn)"
  unfolding process_inner_def Let_def
  by (intro hole_rules; (rule hole_plain)?; (intro plain_intros; simp)?; simp)

lemma strict_no_gap:
  assumes "ingest_pdu E HostedShard raw n = Some (Inl (MissingAuthEvents m), n1)"
    and "ingest_pdu_rejecting_missing_auth E HostedShard raw n1 = Some (r, n2)"
  shows "\<forall>m. r \<noteq> Inl (MissingEvents m)"
proof -
  from assms(1) obtain v rid c where cl: "classify (re_ruma E) (re_codecs E) (rn_store n) raw = Inr (v, rid, c)"
    and p: "process_event E raw v rid c False False None n = Some (Inl (MissingAuthEvents m), n1)"
    using plain_classify(2)[of True "re_ruma E" "re_codecs E" "rn_store n" raw]
    by (auto simp: ingest_pdu_def remotely_def process_def nbind_def nlift_def plainr_def split: sum.splits)
  have "n1 = n" and inner: "process_inner (re_ruma E) (re_codecs E) (rn_keys n) (rn_store n) raw v rid c False False None = Some (Inl (MissingAuthEvents m))"
    using p settle_errors[of E _ n "MissingAuthEvents m" n1] by (auto simp: process_event_def nbind_def nstage_def split: option.splits sum.splits)
  from missing_auth_rejected[unfolded hole_settled_def, rule_format, OF inner] obtain event raw' meta where
    rej: "process_inner (re_ruma E) (re_codecs E) (rn_keys n) (rn_store n) raw v rid c False True None =
      propose_rejected (re_codecs E) rid event raw' (AuthChain ''auth events unfetchable'') meta" by blast
  show ?thesis using assms(2) unfolding \<open>n1 = n\<close>
    by (auto simp: ingest_pdu_rejecting_missing_auth_def remotely_def process_event_def nbind_def nlift_def nstage_def cl rej
        propose_rejected_def propose_rejected_with_state_def raw_bytes_def dret_def dest: settle_errors split: option.splits sum.splits)
      (cases "raw_of (re_codecs E) raw'"; auto)
qed

text \<open>
  A set \<open>I\<close> of node states in which a run stays, and a set \<open>objs\<close> of events that it may be given: the answers of
  the origin bring no others, on these the pipeline returns, and neither it nor a request, a key learnt or
  an imported segment leaves the set.
\<close>

locale healing_run =
  fixes E :: room_env and F :: event_fetcher and origin :: string and objs :: "jobj set" and I :: "room_node \<Rightarrow> bool"
  assumes ingest_runs: "obj \<in> objs \<Longrightarrow> I m \<Longrightarrow> \<exists>r m'. ingest_pdu E HostedShard obj m = Some (r, m') \<and> I m'"
    and reject_runs: "obj \<in> objs \<Longrightarrow> I m \<Longrightarrow> \<exists>r m'. ingest_pdu_rejecting_missing_auth E HostedShard obj m = Some (r, m') \<and> I m'"
    and stays_asked: "I m \<Longrightarrow> I (m\<lparr>rn_requests := reqs\<rparr>)"
    and stays_trusting: "I m \<Longrightarrow> I (learn_keys (\<lambda>t. trust_origin F t origin) m)" "I m \<Longrightarrow> I (learn_keys (\<lambda>t. trust_servers F t evs) m)"
    and stays_importing: "I m \<Longrightarrow> import_gap_segment E rid state auth_objs chain m = Some (r, m') \<Longrightarrow> I m'"
    and answers: "fetch_one F t origin i = Inr (Some obj) \<Longrightarrow> obj \<in> objs" "fetch_missing F t origin rid es i k = Inr chain \<Longrightarrow> set chain \<subseteq> objs"
begin

lemma stays_ask: "I m \<Longrightarrow> ask req q m = (x, m') \<Longrightarrow> I m'"
  using stays_asked by (auto dest: ask_sends)

lemma ingestE:
  assumes "obj \<in> objs" "I m"
  obtains r m' where "ingest_pdu E HostedShard obj m = Some (r, m')" "I m'" "rn_requests m' = rn_requests m"
  using ingest_runs[OF assms] quiet_ingestD(1) by blast

lemma rejectE:
  assumes "obj \<in> objs" "I m"
  obtains r m' where "ingest_pdu_rejecting_missing_auth E HostedShard obj m = Some (r, m')" "I m'" "rn_requests m' = rn_requests m"
  using reject_runs[OF assms] quiet_ingestD(2) by blast

lemma fetch_loop_round:
  assumes "I n"
  shows "\<exists>queue' retried' ingested' n1. I n1 \<and> later n n1 \<and> AskEvent origin i \<in> sent n n1 \<and>
    fetch_loop E F origin (Suc k) (i # queue) retried ingested n = fetch_loop E F origin k queue' retried' ingested' n1"
proof -
  obtain ans n1 where a: "ask (AskEvent origin i) (\<lambda>t. fetch_one F t origin i) n = (ans, n1)" by fastforce
  note n1 = stays_ask[OF assms a] and s1 = later_ask[OF a]
  have step: "\<exists>queue' retried' ingested' n3. I n3 \<and> rn_requests n3 = rn_requests n1 \<and>
    fetch_loop E F origin (Suc k) (i # queue) retried ingested n = fetch_loop E F origin k queue' retried' ingested' n3"
  proof (cases "\<exists>obj. ans = Inr (Some obj)")
    case False
    then have "fetch_loop E F origin (Suc k) (i # queue) retried ingested n = fetch_loop E F origin k queue retried ingested n1"
      using a by (auto split: sum.splits option.splits)
    with n1 show ?thesis by blast
  next
    case True
    then obtain obj where obj: "ans = Inr (Some obj)" by blast
    then have o: "obj \<in> objs" using a answers(1) by (auto dest: ask_sends)
    obtain r n2 where r: "ingest_pdu E HostedShard obj n1 = Some (r, n2)" "I n2" "rn_requests n2 = rn_requests n1" by (rule ingestE[OF o n1])
    show ?thesis
    proof (cases "\<exists>m. r = Inl (MissingAuthEvents m) \<and> i \<in> retried")
      case True
      obtain r' n3 where r': "ingest_pdu_rejecting_missing_auth E HostedShard obj n2 = Some (r', n3)" "I n3" "rn_requests n3 = rn_requests n2"
        by (rule rejectE[OF o r(2)])
      then have "fetch_loop E F origin (Suc k) (i # queue) retried ingested n = fetch_loop E F origin k queue retried (ingested \<or> is_ok r') n3"
        using a obj r(1) True by auto
      with r' r(3) show ?thesis by (metis (no_types))
    next
      case False
      then have "\<exists>queue' retried' ingested'.
          fetch_loop E F origin (Suc k) (i # queue) retried ingested n = fetch_loop E F origin k queue' retried' ingested' n2"
        using a obj r(1) by (auto split: sum.split room_error.split)
      with r(2,3) show ?thesis by blast
    qed
  qed
  then obtain queue' retried' ingested' n3 where "I n3" and r: "rn_requests n3 = rn_requests n1"
    "fetch_loop E F origin (Suc k) (i # queue) retried ingested n = fetch_loop E F origin k queue' retried' ingested' n3" by blast
  moreover have "later n n3 \<and> AskEvent origin i \<in> sent n n3" using s1 r(1) by (simp add: later_def sent_def)
  ultimately show ?thesis by blast
qed

lemma fetch_loop_runs:
  "I n \<Longrightarrow> \<exists>b n'. fetch_loop E F origin k queue retried ingested n = Some (b, n') \<and> I n' \<and> later n n' \<and>
     (k \<noteq> 0 \<longrightarrow> queue \<noteq> [] \<longrightarrow> AskEvent origin (hd queue) \<in> sent n n')"
proof (induction k arbitrary: queue retried ingested n)
  case (Suc k)
  show ?case
  proof (cases queue)
    case (Cons i rest)
    from fetch_loop_round[OF Suc.prems, of i k rest retried ingested] obtain queue' retried' ingested' n1 where
      1: "I n1" "later n n1" "AskEvent origin i \<in> sent n n1"
      "fetch_loop E F origin (Suc k) (i # rest) retried ingested n = fetch_loop E F origin k queue' retried' ingested' n1" by blast
    from Suc.IH[OF 1(1), of queue' retried' ingested'] obtain b n' where
      "fetch_loop E F origin k queue' retried' ingested' n1 = Some (b, n')" "I n'" "later n1 n'" by blast
    then show ?thesis using 1 later_trans sent_mono Cons by (metis list.sel(1) subsetD)
  qed (use Suc.prems in auto)
qed simp

lemma fetch_by_id_runs:
  assumes "I n"
  shows "\<exists>b n'. fetch_missing_by_id E F origin missing n = Some (b, n') \<and> I n' \<and> later n n' \<and>
    (missing \<noteq> [] \<longrightarrow> AskEvent origin (List.last missing) \<in> sent n n')"
  using fetch_loop_runs[OF stays_trusting(1)[OF assms], of GAP_FILL_LIMIT "rev missing" "{}" False]
  by (auto simp: fetch_missing_by_id_def later_def sent_def hd_rev GAP_FILL_LIMIT_def)

lemma resolve_ids_runs: "I n \<Longrightarrow> resolve_ids E F origin ids n = (os, n') \<Longrightarrow> I n' \<and> later n n'"
proof (induction ids arbitrary: os n)
  case (Cons i ids)
  have one: "I m' \<and> later m m'" if "resolve_id E F origin i m = (x, m')" "I m" for m x m'
  proof -
    have "I m' \<and> later m m'" if "(case y of Some obj \<Rightarrow> (Some obj, m)
        | None \<Rightarrow> (case ask req q m of (Inr found, n) \<Rightarrow> (found, n) | (Inl _, n) \<Rightarrow> (None, n))) = (x, m')"
      for y :: "jobj option" and req and q :: "nat \<Rightarrow> string + jobj option"
    proof (cases y)
      case None
      obtain z m1 where "ask req q m = (z, m1)" by fastforce
      then show ?thesis using None that stays_ask[OF \<open>I m\<close>] later_ask[of req q m] by (auto split: sum.splits)
    qed (use that \<open>I m\<close> in auto)
    then show ?thesis using that(1) unfolding resolve_id_def by blast
  qed
  then show ?case using Cons later_trans by (auto split: prod.splits) blast+
qed simp

lemma state_by_ids_runs:
  assumes "I n" and "fetch_state_by_ids E F origin rid eid n = (s, n')"
  shows "I n' \<and> later n n'"
proof -
  obtain ans n1 where a: "ask (AskStateIds origin rid eid) (\<lambda>t. fetch_state_ids F t origin rid eid) n = (ans, n1)" by fastforce
  note 1 = stays_ask[OF assms(1) a] later_ask[OF a, THEN conjunct1]
  show ?thesis
  proof (cases ans)
    case (Inr p)
    obtain ids cids where p: "p = (ids, cids)" by fastforce
    obtain st n2 where 2: "resolve_ids E F origin ids n1 = (st, n2)" by fastforce
    obtain ch n3 where 3: "resolve_ids E F origin cids n2 = (ch, n3)" by fastforce
    note r2 = resolve_ids_runs[OF 1(1) 2]
    note r3 = resolve_ids_runs[OF r2[THEN conjunct1] 3]
    have "later n n3" using later_trans[OF later_trans[OF 1(2) r2[THEN conjunct2]] r3[THEN conjunct2]] .
    then show ?thesis using assms(2) a Inr p 1 2 3 r3 by (auto simp: fetch_state_by_ids_def split: if_splits)
  qed (use assms a 1 in \<open>auto simp: fetch_state_by_ids_def\<close>)
qed

lemma breach_runs:
  assumes "I n" and "breach_event E F origin rid prev chain n = (chain', n')"
  shows "I n' \<and> later n n'"
proof (cases "n' = n")
  case False
  then obtain p ans n1 where a: "ask (AskEvent origin p) (\<lambda>t. fetch_one F t origin p) n = (ans, n1)"
    and n': "n' = n1 \<or> (\<exists>obj. n' = learn_keys (\<lambda>t. trust_servers F t [obj]) n1)"
    using assms(2) by (fastforce simp: breach_event_def Let_def split: option.splits sum.splits prod.splits)
  note 1 = stays_ask[OF assms(1) a] later_ask[OF a, THEN conjunct1]
  from n' show ?thesis using 1 stays_trusting(2)[OF 1(1)] by (auto simp: later_def)
qed (use assms in simp)

lemma import_snapshot_runs:
  assumes "I n"
  shows "\<exists>b n'. import_snapshot E F rid chain ingested s n = Some (b, n') \<and> I n' \<and> later n n'"
proof -
  obtain state auth_objs where s: "s = (state, auth_objs)" by fastforce
  let ?n = "learn_keys (\<lambda>t. trust_servers F t (state @ auth_objs)) n"
  have "import_gap_segment E rid state auth_objs chain ?n \<noteq> None"
    by (auto simp: import_gap_segment_def nbind_def nlift_def propose_cmd_def Let_def split: prod.splits sum.splits)
  then obtain r n1 where g: "import_gap_segment E rid state auth_objs chain ?n = Some (r, n1)" by fastforce
  then have "I n1" "rn_requests n1 = rn_requests n"
    using stays_importing[OF stays_trusting(2)[OF assms] g] quiet_segment[unfolded quiet_def, rule_format, OF g] by auto
  then show ?thesis using g s assms stays_trusting(2)[OF assms]
    by (auto simp: import_snapshot_def Let_def split: sum.split)
qed

lemma anchor_gap_runs:
  assumes "I n"
  shows "\<exists>b n'. anchor_gap E F origin rid chain ingested n = Some (b, n') \<and> I n' \<and> later n n'"
proof (cases "\<exists>oldest rest anchor. chain = oldest # rest \<and> pdu_event_id (re_ruma E) (re_codecs E) (rn_store n) oldest = Some anchor")
  case True
  then obtain oldest rest anchor where c: "chain = oldest # rest" "pdu_event_id (re_ruma E) (re_codecs E) (rn_store n) oldest = Some anchor" by blast
  obtain sn n1 where f: "(case anchor_prev oldest of Some p \<Rightarrow> fetch_state_by_ids E F origin rid p n | None \<Rightarrow> (None, n)) = (sn, n1)" by (metis surj_pair)
  have 1: "I n1" "later n n1" using f state_by_ids_runs[OF assms] assms by (auto split: option.splits)
  show ?thesis
  proof (cases sn)
    case (Some s)
    obtain c' n2 where b: "breach_event E F origin rid (anchor_prev oldest) chain n1 = (c', n2)" by fastforce
    note 2 = breach_runs[OF 1(1) b]
    from import_snapshot_runs[of n2 rid c' ingested s] 2 obtain r n3 where
      "import_snapshot E F rid c' ingested s n2 = Some (r, n3)" "I n3" "later n2 n3" by blast
    moreover have "later n n3" using later_trans[OF later_trans[OF 1(2) conjunct2[OF 2]] \<open>later n2 n3\<close>] .
    ultimately show ?thesis using c f Some b by (simp add: anchor_gap_def)
  next
    case None
    obtain ans n2 where a: "ask (AskState origin rid anchor) (\<lambda>t. fetch_state F t origin rid anchor) n1 = (ans, n2)" by fastforce
    note 2 = stays_ask[OF 1(1) a] later_ask[OF a, THEN conjunct1]
    show ?thesis
    proof (cases ans)
      case (Inr s)
      from import_snapshot_runs[OF 2(1), of rid chain ingested s] obtain r n3 where
        "import_snapshot E F rid chain ingested s n2 = Some (r, n3)" "I n3" "later n2 n3" by blast
      moreover have "later n n3" using later_trans[OF later_trans[OF 1(2) 2(2)] \<open>later n2 n3\<close>] .
      ultimately show ?thesis using c f None a Inr by (simp add: anchor_gap_def)
    qed (use c f None a 2(1) later_trans[OF 1(2) 2(2)] in \<open>simp add: anchor_gap_def\<close>)
  qed
qed (use assms in \<open>auto simp: anchor_gap_def split: list.splits option.splits\<close>)

lemma ingest_chain_runs:
  "I n \<Longrightarrow> set chain \<subseteq> objs \<Longrightarrow> \<exists>x n'. ingest_chain E chain ingested still n = Some (x, n') \<and> I n' \<and> rn_requests n' = rn_requests n"
proof (induction chain arbitrary: ingested still n)
  case (Cons obj chain)
  then have o: "obj \<in> objs" by simp
  obtain r n1 where r: "ingest_pdu E HostedShard obj n = Some (r, n1)" "I n1" "rn_requests n1 = rn_requests n"
    by (rule ingestE[OF o Cons.prems(1)])
  have "\<exists>i s. ingest_chain E (obj # chain) ingested still n = ingest_chain E chain i s n1"
    using r(1) by (auto split: sum.split outcome.split room_error.split)
  then obtain i s where "ingest_chain E (obj # chain) ingested still n = ingest_chain E chain i s n1" by blast
  with Cons.IH[OF r(2), of i s] Cons.prems(2) r(3) show ?case by auto
qed simp

lemma heal_gap_runs:
  assumes "I n"
  shows "\<exists>b n'. heal_gap E F origin raw n = Some (b, n') \<and> I n' \<and> later n n' \<and> (b \<longrightarrow> (\<exists>req \<in> sent n n'. gap_request E origin raw n req))"
proof (cases "\<exists>pdu_id rid e es. pdu_event_id (re_ruma E) (re_codecs E) (rn_store n) raw = Some pdu_id \<and> str_prop raw ''room_id'' = Some rid \<and>
    room_extremities (re_codecs E) (rn_store n) rid = Inr (e # es)")
  case True
  then obtain pdu_id rid e es where c: "pdu_event_id (re_ruma E) (re_codecs E) (rn_store n) raw = Some pdu_id" "str_prop raw ''room_id'' = Some rid"
    "room_extremities (re_codecs E) (rn_store n) rid = Inr (e # es)" by blast
  let ?req = "AskMissing origin rid (e # es) pdu_id GAP_FILL_LIMIT"
  obtain ans n1 where a: "ask ?req (\<lambda>t. fetch_missing F t origin rid (e # es) pdu_id GAP_FILL_LIMIT) (learn_keys (\<lambda>t. trust_origin F t origin) n) = (ans, n1)"
    by fastforce
  have 1: "I n1" "later n n1" "?req \<in> sent n n1"
    using stays_ask[OF stays_trusting(1)[OF assms] a] later_ask[OF a] by (simp_all add: later_def sent_def)
  have req: "gap_request E origin raw n ?req" using c by (auto simp: gap_request_def)
  show ?thesis
  proof (cases ans)
    case (Inl x)
    then show ?thesis using c a 1 by (auto simp: heal_gap_def)
  next
    case (Inr chain)
    then have "set chain \<subseteq> objs" using ask_sends[OF a] answers(2) by metis
    from ingest_chain_runs[OF 1(1) this, of 0 False] obtain k still n2 where
      2: "ingest_chain E chain 0 False n1 = Some ((k, still), n2)" "I n2" "rn_requests n2 = rn_requests n1" by auto
    have "\<exists>b n'. heal_gap E F origin raw n = Some (b, n') \<and> I n' \<and> later n2 n'"
      using c a Inr 2 anchor_gap_runs[OF 2(2), of rid chain "k > 0"] by (auto simp: heal_gap_def)
    then obtain b n' where "heal_gap E F origin raw n = Some (b, n')" "I n'" "later n2 n'" by blast
    moreover from this have "later n1 n'" using 2(3) by (simp add: later_def)
    ultimately show ?thesis using 1(2,3) later_trans sent_mono req by (metis subsetD)
  qed
qed (use assms in \<open>auto simp: heal_gap_def split: option.splits sum.splits list.splits\<close>)

lemma healing_loop_runs:
  assumes "raw \<in> objs" and "I n"
  shows "\<exists>r n'. healing_loop E F origin raw tried_gap tried_auth n = Some (r, n') \<and> I n' \<and> later n n' \<and> (\<forall>m. r \<noteq> Inl (MissingAuthEvents m)) \<and>
    (\<forall>m. r = Inl (MissingEvents m) \<longrightarrow> tried_gap \<or> asked_for E origin I raw n n')"
  using assms(2)
proof (induction "of_bool (\<not> tried_gap) + of_bool (\<not> tried_auth) :: nat" arbitrary: tried_gap tried_auth n rule: less_induct)
  case less
  obtain r1 n1 where i: "ingest_pdu E HostedShard raw n = Some (r1, n1)" "I n1" "rn_requests n1 = rn_requests n"
    by (rule ingestE[OF assms(1) less.prems])
  note run = healing_loop.simps[of E F origin raw tried_gap tried_auth n, unfolded i(1) option.case prod.case]
  consider (gap) m where "r1 = Inl (MissingEvents m)" | (auth) m where "r1 = Inl (MissingAuthEvents m)"
    | (other) "\<forall>m. r1 \<noteq> Inl (MissingEvents m)" "\<forall>m. r1 \<noteq> Inl (MissingAuthEvents m)" by blast
  then show ?case
  proof cases
    case other
    then have "healing_loop E F origin raw tried_gap tried_auth n = Some (r1, n1)" unfolding run by (auto split: sum.split room_error.split)
    then show ?thesis using other i by auto
  next
    case gap
    show ?thesis
    proof (cases tried_gap)
      case True
      then show ?thesis unfolding run gap using i by auto
    next
      case False
      have "m \<noteq> []" using plain_ingest(1)[of E raw] i gap by (force simp: plain_act_def plainr_def)
      have asked: "asked_for E origin I raw n n'" if "later n1 n'" "(\<exists>req \<in> sent n1 n'. gap_request E origin raw n1 req) \<or> AskEvent origin (List.last m) \<in> sent n1 n'" for n'
        unfolding asked_for_def using that less.prems i(1,3) gap by (intro exI[of _ n] exI[of _ n1] exI[of _ m]) simp
      from heal_gap_runs[OF i(2), of raw] obtain b n2 where
        h: "heal_gap E F origin raw n1 = Some (b, n2)" "I n2" "later n1 n2" "b \<longrightarrow> (\<exists>req \<in> sent n1 n2. gap_request E origin raw n1 req)" by blast
      have again: ?thesis if "healing_loop E F origin raw tried_gap tried_auth n = healing_loop E F origin raw True tried_auth n3"
        "I n3" "later n1 n3" "(\<exists>req \<in> sent n1 n3. gap_request E origin raw n1 req) \<or> AskEvent origin (List.last m) \<in> sent n1 n3" for n3
      proof -
        from less.hyps[of True tried_auth n3] that(2) False obtain r n' where
          r: "healing_loop E F origin raw True tried_auth n3 = Some (r, n')" "I n'" "later n3 n'" "\<forall>m. r \<noteq> Inl (MissingAuthEvents m)" by auto
        have "later n1 n'" using later_trans[OF that(3) r(3)] .
        moreover have "(\<exists>req \<in> sent n1 n'. gap_request E origin raw n1 req) \<or> AskEvent origin (List.last m) \<in> sent n1 n'"
          using that(4) sent_mono[OF that(3) r(3)] by blast
        ultimately show ?thesis using r that(1) asked i(3) by (auto simp: later_def)
      qed
      show ?thesis
      proof (cases b)
        case True
        then show ?thesis using again[of n2] h run gap False by auto
      next
        case none: False
        from fetch_by_id_runs[OF h(2), of m] \<open>m \<noteq> []\<close> obtain b' n3 where
          f: "fetch_missing_by_id E F origin m n2 = Some (b', n3)" "I n3" "later n2 n3" "AskEvent origin (List.last m) \<in> sent n2 n3" by blast
        have n3: "later n1 n3" "AskEvent origin (List.last m) \<in> sent n1 n3"
          using later_trans[OF h(3) f(3)] sent_mono[OF h(3) f(3)] f(4) by auto
        show ?thesis
        proof (cases b')
          case True
          then have "healing_loop E F origin raw tried_gap tried_auth n = healing_loop E F origin raw True tried_auth n3"
            using h(1) f(1) run gap False none by simp
          then show ?thesis using again f(2) n3 by blast
        next
          case b': False
          then have "healing_loop E F origin raw tried_gap tried_auth n = Some (Inl (MissingEvents m), n3)"
            using h f run gap False none by auto
          then show ?thesis using f(2) n3 asked i(3) by (auto simp: later_def)
        qed
      qed
    qed
  next
    case auth
    show ?thesis
    proof (cases tried_auth)
      case True
      obtain r' n2 where r': "ingest_pdu_rejecting_missing_auth E HostedShard raw n1 = Some (r', n2)" "I n2" "rn_requests n2 = rn_requests n1"
        by (rule rejectE[OF assms(1) i(2)])
      have no: "\<forall>m. r' \<noteq> Inl (MissingAuthEvents m)" using plain_ingest(2)[of E raw] r'(1) by (fastforce simp: plain_act_def plainr_def)
      show ?thesis unfolding run auth using True r' i(3) no strict_no_gap[OF i(1)[unfolded auth] r'(1)] by (auto simp: later_def)
    next
      case False
      from fetch_by_id_runs[OF i(2), of m] obtain b n2 where f: "fetch_missing_by_id E F origin m n1 = Some (b, n2)" "I n2" "later n1 n2" by blast
      have "healing_loop E F origin raw tried_gap tried_auth n = healing_loop E F origin raw tried_gap True n2"
        unfolding run auth using False f by simp
      moreover from less.hyps[of tried_gap True n2] f(2) False obtain r n' where
        "healing_loop E F origin raw tried_gap True n2 = Some (r, n')" "I n'" "later n2 n'" "\<forall>m. r \<noteq> Inl (MissingAuthEvents m)"
        "\<forall>m. r = Inl (MissingEvents m) \<longrightarrow> tried_gap \<or> asked_for E origin I raw n2 n'" by auto
      moreover have "later n n2" using f(3) i(3) by (simp add: later_def)
      ultimately show ?thesis using later_trans asked_for_mono by (metis (no_types, lifting))
    qed
  qed
qed

end

section \<open>What a gap brings in\<close>

lemma segment_command:
  assumes "import_segment_cmd R C store rid state auth_objs chain = Inr seg"
  obtains meta v where "rs_meta C store rid = Inr (Some meta)" "parse_version (rm_version meta) = Inr v"
    "is_timeline seg = List.map_filter (import_event_of R C v) chain"
  using assms by (auto simp: import_segment_cmd_def Let_def)

definition proposes_segment :: "room_env \<Rightarrow> import_segment \<Rightarrow> room_node \<Rightarrow> room_node \<Rightarrow> bool" where
  "proposes_segment E seg m n' =
     (rn_reads n' = snd (re_propose E (rn_proposed m) (rn_reads m) (enc (rc_command (re_codecs E)) (ImportSegment seg))))"

lemma import_snapshot_proposes:
  assumes "import_snapshot E F rid chain ingested (state, auth_objs) n = Some (b, n')" and "rn_proposed n' \<noteq> rn_proposed n"
  obtains m seg where "import_segment_cmd (re_ruma E) (re_codecs E) (rn_store m) rid state auth_objs chain = Inr seg"
    "proposes_segment E seg m n'" "m = learn_keys (\<lambda>t. trust_servers F t (state @ auth_objs)) n"
    "list_all (verify_pdu (re_ruma E) (re_codecs E) (rn_keys m) (rn_store m) rid) (state @ auth_objs)"
proof -
  let ?m = "learn_keys (\<lambda>t. trust_servers F t (state @ auth_objs)) n"
  from assms have s: "state \<noteq> []" by (auto simp: import_snapshot_def)
  from assms s have v: "list_all (verify_pdu (re_ruma E) (re_codecs E) (rn_keys ?m) (rn_store ?m) rid) (state @ auth_objs)"
    by (auto simp: import_snapshot_def Let_def learn_keys_def split: if_splits)
  obtain r n1 where g: "import_gap_segment E rid state auth_objs chain ?m = Some (r, n1)" and "n1 = n'"
    using assms s v by (auto simp: import_snapshot_def Let_def split: option.splits sum.splits)
  obtain seg where "import_segment_cmd (re_ruma E) (re_codecs E) (rn_store ?m) rid state auth_objs chain = Inr seg"
    using g assms(2) \<open>n1 = n'\<close> by (auto simp: import_gap_segment_def nlift_def learn_keys_def elim!: nbindE)
  moreover from this have "proposes_segment E seg ?m n'"
    using g \<open>n1 = n'\<close> by (auto simp: import_gap_segment_def proposes_segment_def propose_cmd_def nlift_def Let_def elim!: nbindE split: prod.splits)
  ultimately show thesis using that[OF _ _ refl] v by blast
qed

text \<open>
  Requests leave the applied state and the commands proposed alone; a breach event may add keys.
\<close>

definition same_state :: "room_node \<Rightarrow> room_node \<Rightarrow> bool" where
  "same_state n n' \<longleftrightarrow> rn_reads n' = rn_reads n \<and> rn_proposed n' = rn_proposed n \<and> rn_keys n' = rn_keys n"

lemma ask_same: "ask req q n = (x, n') \<Longrightarrow> same_state n n'"
  by (auto simp: same_state_def dest: ask_sends)

lemma resolve_ids_same: "resolve_ids E F origin ids n = (objs, n') \<Longrightarrow> same_state n n'"
proof (induction ids arbitrary: objs n)
  case Nil
  then show ?case by (simp add: same_state_def)
next
  case (Cons i ids)
  have one: "same_state k k'" if "resolve_id E F origin i k = (x, k')" for x k k'
  proof -
    have "same_state k k'" if "(case y of Some obj \<Rightarrow> (Some obj, k)
        | None \<Rightarrow> (case ask req q k of (Inr f, k) \<Rightarrow> (f, k) | (Inl _, k) \<Rightarrow> (None, k))) = (x, k')"
      for y :: "jobj option" and req and q :: "nat \<Rightarrow> string + jobj option"
      using that by (cases y; cases "q (rn_asked k)") (auto simp: ask_def same_state_def)
    then show ?thesis using that unfolding resolve_id_def by blast
  qed
  from Cons.prems obtain x k objs' where "resolve_id E F origin i n = (x, k)" "resolve_ids E F origin ids k = (objs', n')"
    by (auto split: prod.splits)
  with one Cons.IH show ?case by (fastforce simp: same_state_def)
qed

lemma state_by_ids_same: "fetch_state_by_ids E F origin rid p n = (s, n') \<Longrightarrow> same_state n n'"
  by (auto simp: fetch_state_by_ids_def split: prod.splits sum.splits if_splits dest!: ask_same resolve_ids_same) (auto simp: same_state_def)

definition trusts :: "event_fetcher \<Rightarrow> public_key_map \<Rightarrow> public_key_map \<Rightarrow> bool" where
  "trusts F ks ks' \<longleftrightarrow> ks' = ks \<or> (\<exists>t obj. ks' = trust_servers F t [obj] ks)"

lemma breach_same:
  assumes "breach_event E F origin rid p chain n = (c, n')"
  shows "rn_reads n' = rn_reads n" "rn_proposed n' = rn_proposed n" "trusts F (rn_keys n) (rn_keys n')" "c = chain \<or> tl c = chain"
proof -
  have [simp]: "trusts F ks (trust_servers F t [obj] ks)" "trusts F ks ks" for t obj ks by (auto simp: trusts_def)
  show "rn_reads n' = rn_reads n" "rn_proposed n' = rn_proposed n" "trusts F (rn_keys n) (rn_keys n')" "c = chain \<or> tl c = chain"
    using assms by (auto simp: breach_event_def ask_def learn_keys_def Let_def split: option.splits sum.splits if_splits)
qed

lemma anchor_gap_imports:
  assumes "anchor_gap E F origin rid chain ingested n = Some (b, n')" and "rn_proposed n' \<noteq> rn_proposed n"
  obtains chain' s n1 where "import_snapshot E F rid chain' ingested s n1 = Some (b, n')" "rn_proposed n1 = rn_proposed n"
    "rn_reads n1 = rn_reads n" "trusts F (rn_keys n) (rn_keys n1)" "chain' = chain \<or> tl chain' = chain"
proof -
  obtain oldest rest anchor where c: "chain = oldest # rest" "pdu_event_id (re_ruma E) (re_codecs E) (rn_store n) oldest = Some anchor"
    using assms by (auto simp: anchor_gap_def split: list.splits option.splits)
  obtain sn n1 where f: "(case anchor_prev oldest of Some p \<Rightarrow> fetch_state_by_ids E F origin rid p n | None \<Rightarrow> (None, n)) = (sn, n1)" by (metis surj_pair)
  then have n1: "same_state n n1" using state_by_ids_same by (auto simp: same_state_def split: option.splits)
  show thesis
  proof (cases sn)
    case (Some s)
    obtain c' n2 where b: "breach_event E F origin rid (anchor_prev oldest) chain n1 = (c', n2)" by fastforce
    show thesis using assms(1) c f Some b that[of c' s n2] breach_same[OF b] n1 by (simp add: anchor_gap_def same_state_def)
  next
    case None
    obtain ans n2 where a: "ask (AskState origin rid anchor) (\<lambda>t. fetch_state F t origin rid anchor) n1 = (ans, n2)" by fastforce
    note n2 = ask_same[OF a]
    have "\<exists>s. ans = Inr s" using assms c f None a n1 n2 by (cases ans) (auto simp: anchor_gap_def same_state_def)
    then obtain s where "ans = Inr s" ..
    then show thesis using assms(1) c f None a n1 n2 that[of chain s n2] by (simp add: anchor_gap_def same_state_def trusts_def)
  qed
qed

section \<open>The claims\<close>

text \<open>
  C16: Healing ends, and not for want of auth events. Take a set of node states that no step of healing leaves,
  and a set of events that holds all that the origin may answer, such that the pipeline returns on these events
  in these states (\<open>healing_run\<close>). Then healing an event of the set returns, in a state of the set. Its result is
  never that auth events are missing. And if its result is that predecessors are missing, then an attempt at
  this event, in a state of the set and after the start, had reported predecessors missing, and after this
  attempt the origin was asked: for the events between the room's extremities and this event, or by identifier
  for the last of those that the attempt had reported.
\<close>

theorem healing_settles:
  assumes "healing_run E F origin objs I" and "raw \<in> objs" and "I n"
  shows "\<exists>r n'. ingest_pdu_healing E HostedShard F origin raw n = Some (r, n') \<and> I n' \<and> (\<forall>m. r \<noteq> Inl (MissingAuthEvents m)) \<and>
    (\<forall>m. r = Inl (MissingEvents m) \<longrightarrow> asked_for E origin I raw n n')"
  using healing_run.healing_loop_runs[OF assms, of False False] by (auto simp: ingest_pdu_healing_def)

text \<open>
  The walk by identifiers sends at most \<open>GAP_FILL_LIMIT\<close> requests, whatever the origin answers.
\<close>

theorem fetches_bounded:
  assumes "fetch_missing_by_id E F origin missing n = Some (b, n')"
  shows "rn_asked n' \<le> rn_asked n + GAP_FILL_LIMIT"
  using fetch_loop_asks[OF assms[unfolded fetch_missing_by_id_def]] by simp


end
