(* ===== verification/Room_Intents.thy ===== *)
theory Room_Intents
  imports Room_Heal
begin

text \<open>
  The server side of intents (\<open>run_intent\<close> and \<open>apply_intent\<close> of \<open>remote.rs\<close>): a node without the shard gets
  the answer that the node with the shard gives, up to the errors that the wire does not keep.
\<close>

definition parsed_room :: "room_env \<Rightarrow> string \<Rightarrow> string act" where
  "parsed_room E s = nlift (\<lambda>_. if room_id_ok (re_ruma E) s then Inr s else Inl (MalformedEvent ''room id''))"

definition parsed_user :: "room_env \<Rightarrow> string \<Rightarrow> string act" where
  "parsed_user E s = nlift (\<lambda>_. if user_id_ok (re_ruma E) s then Inr s else Inl (MalformedEvent ''user id''))"

definition parsed_event :: "room_env \<Rightarrow> string \<Rightarrow> string act" where
  "parsed_event E s = nlift (\<lambda>_. if event_id_ok (re_ruma E) s then Inr s else Inl (MalformedEvent ''event id''))"

definition nversion :: "string \<Rightarrow> room_version act" where
  "nversion s = nlift (\<lambda>_. map_sum VersionError id (parse_version s))"

definition nmap :: "('a \<Rightarrow> 'b) \<Rightarrow> 'a act \<Rightarrow> 'b act" where
  "nmap f m = nbind m (\<lambda>a. nret (f a))"

fun run_intent :: "room_env \<Rightarrow> event_fetcher option \<Rightarrow> room_intent \<Rightarrow> intent_ok act" where
  "run_intent E F (SendMessage rid sndr ty c ts txn) =
     nbind (parsed_room E rid) (\<lambda>rid. nbind (parsed_user E sndr) (\<lambda>sndr.
       nmap IntentOutcome (send_message_stamped E HostedShard rid sndr ty c ts txn)))"
| "run_intent E F (SendState rid sndr ty sk c ts) =
     nbind (parsed_room E rid) (\<lambda>rid. nbind (parsed_user E sndr) (\<lambda>sndr.
       nmap IntentOutcome (case ts of
         None \<Rightarrow> send_state E HostedShard rid sndr ty sk c
       | Some t \<Rightarrow> send_state_at E HostedShard rid sndr ty sk c t)))"
| "run_intent E F (CreateRoom creator s c) =
     nbind (parsed_user E creator) (\<lambda>creator. nbind (nversion s) (\<lambda>v.
       nmap (\<lambda>(rid, o'). IntentCreated rid o') (create_room E HostedShard creator v c)))"
| "run_intent E F (WriteReceipt rid user ty eid thread ts) =
     nbind (parsed_room E rid) (\<lambda>rid. nbind (parsed_user E user) (\<lambda>user. nbind (parsed_event E eid) (\<lambda>eid.
       nmap IntentSeq (write_receipt E HostedShard rid user ty eid thread ts))))"
| "run_intent E F (IngestPdu raw origin healing reject_missing_auth) =
     nmap IntentOutcome
       (if healing
        then (case (F, origin) of
                (Some fetcher, Some origin) \<Rightarrow> ingest_pdu_healing E HostedShard fetcher origin raw
              | _ \<Rightarrow> nfail (MalformedEvent ''healing ingest needs a federation-backed executor''))
        else if reject_missing_auth then ingest_pdu_rejecting_missing_auth E HostedShard raw
        else ingest_pdu E HostedShard raw)"
| "run_intent E F (BuildInvite rid sndr target c) =
     nbind (parsed_room E rid) (\<lambda>rid. nbind (parsed_user E sndr) (\<lambda>sndr. nbind (parsed_user E target) (\<lambda>target.
       nmap (\<lambda>(v, raw). IntentInvite (version_str v) raw) (invite_event E HostedShard rid sndr target c))))"
| "run_intent E F (SendJoin raw) = nmap IntentJoin (send_join E HostedShard raw)"
| "run_intent E F (SendLeave raw) = nmap IntentOutcome (send_leave E HostedShard raw)"
| "run_intent E F (SendKnock raw) = nmap IntentKnock (send_knock E HostedShard raw)"
| "run_intent E F (ImportRoom s event state auth_objs) =
     nbind (nversion s) (\<lambda>v. nmap IntentOutcome (import_joined_room E HostedShard v event state auth_objs))"
| "run_intent E F (ImportPage rid pdus) =
     nmap (\<lambda>(indexed, complete). IntentHistory indexed complete) (import_history_page E HostedShard rid pdus)"
| "run_intent E F (TrustKeys entity keys) =
     (\<lambda>n. map_option (\<lambda>n'. (Inr IntentUnit, n')) (trust_keys E HostedShard entity keys n))"

definition apply_intent :: "room_env \<Rightarrow> event_fetcher option \<Rightarrow> bytes \<Rightarrow> room_node \<Rightarrow> (bytes \<times> room_node) option" where
  "apply_intent E F b n =
     (case dec (re_intent E) b of
        None \<Rightarrow> Some (enc (re_reply E) (Inl (OtherRemote ''intent decode'')), n)
      | Some intent \<Rightarrow>
          map_option (\<lambda>(r, n'). (enc (re_reply E) (map_sum (to_intent_error (re_message E)) id r), n')) (run_intent E F intent n))"

text \<open>The slot of a node that does not host the shard: intents go to the node that does.\<close>

definition leader :: "room_env \<Rightarrow> event_fetcher option \<Rightarrow> room_backend" where
  "leader E F = RemoteShard (\<lambda>b n. map_option (\<lambda>(reply, n'). (Inr reply, n')) (apply_intent E F b n))"

section \<open>Errors on the wire\<close>

text \<open>What is promised of an error that crosses the wire: four kinds survive with what they carry, the others become a text.\<close>

fun over_wire :: "room_env \<Rightarrow> room_error \<Rightarrow> room_error" where
  "over_wire E (UnknownRoom rid) = UnknownRoom rid"
| "over_wire E (MissingEvents ids) = MissingEvents ids"
| "over_wire E (MissingAuthEvents ids) = MissingAuthEvents ids"
| "over_wire E (CannotAuthoriseJoin denial) = CannotAuthoriseJoin denial"
| "over_wire E e = MalformedEvent (''remote: '' @ re_message E e)"

lemma wire_errors [simp]: "from_intent_error (to_intent_error (re_message E) e) = over_wire E e"
  by (cases e) simp_all

definition at_leader :: "room_env \<Rightarrow> 'a act \<Rightarrow> 'a act" where
  "at_leader E m n = map_option (\<lambda>(r, n'). (map_sum (over_wire E) id r, n')) (m n)"

text \<open>The status and the code that a client is answered (\<open>error.rs\<close> of the client API).\<close>

fun api_error :: "room_error \<Rightarrow> nat \<times> string" where
  "api_error (UnknownRoom _) = (404, ''M_NOT_FOUND'')"
| "api_error (ValidationFailed (TooLarge _)) = (413, ''M_TOO_LARGE'')"
| "api_error (ValidationFailed _) = (400, ''M_BAD_JSON'')"
| "api_error (VerificationFailed _) = (400, ''M_BAD_JSON'')"
| "api_error (FormatError _) = (400, ''M_BAD_JSON'')"
| "api_error (MalformedEvent _) = (400, ''M_BAD_JSON'')"
| "api_error (VersionError _) = (400, ''M_UNSUPPORTED_ROOM_VERSION'')"
| "api_error (CannotAuthoriseJoin _) = (403, ''M_FORBIDDEN'')"
| "api_error _ = (500, ''M_UNKNOWN'')"

section \<open>Transparency\<close>

lemma nmap_eq: "nmap f m n = map_option (\<lambda>(r, n'). (map_sum id f r, n')) (m n)"
  by (auto simp: nmap_def nbind_def nret_def split: option.split sum.split)

lemma nbind_nlift [simp]: "nbind (nlift g) f n = (case g n of Inl e \<Rightarrow> Some (Inl e, n) | Inr a \<Rightarrow> f a n)"
  by (simp add: nbind_def nlift_def split: sum.split)

lemma leader_answers:
  assumes "lossless (re_intent E)" "lossless (re_reply E)"
    and "run_intent E F intent n = nmap wrap local n"
    and "\<And>a n'. local n = Some (Inr a, n') \<Longrightarrow> expect (wrap a) = Inr a"
  shows "remotely E (leader E F) intent expect local n = at_leader E local n"
proof (cases "local n")
  case None
  with assms show ?thesis by (simp add: remotely_def leader_def call_def apply_intent_def at_leader_def nmap_eq)
next
  case (Some a)
  then obtain r n' where "local n = Some (r, n')" by (cases a) simp
  with assms show ?thesis
    by (cases r) (simp_all add: remotely_def leader_def call_def apply_intent_def at_leader_def nmap_eq nbind_def)
qed

lemma version_text [simp]: "parse_version (version_str v) = Inr v"
  by (cases v) (simp_all add: parse_version_def)

lemma created_ids: "build_create R S now fresh creator v c = Inr (rid, raw) \<Longrightarrow> room_id_ok R rid"
  by (auto simp: build_create_def room_id_for_create_def room_id_of_def Let_def split: if_splits)

lemma create_room_ids: "create_room E HostedShard creator v c n = Some (Inr (rid, o'), n') \<Longrightarrow> room_id_ok (re_ruma E) rid"
proof -
  assume "create_room E HostedShard creator v c n = Some (Inr (rid, o'), n')"
  then have "\<exists>raw. build_create (re_ruma E) (re_signer E) (re_now E n) (re_new_room_id E n) creator v c = Inr (rid, raw)"
    by (auto simp: create_room_def nbind_def nret_def split: option.splits sum.splits)
  then show ?thesis by (elim exE) (rule created_ids)
qed

lemmas intents = parsed_room_def parsed_user_def parsed_event_def nversion_def

lemma leader_ingests:
  assumes "lossless (re_intent E)" "lossless (re_reply E)"
  shows "ingest_pdu E (leader E F) raw n = at_leader E (ingest_pdu E HostedShard raw) n"
    and "ingest_pdu_rejecting_missing_auth E (leader E F) raw n = at_leader E (ingest_pdu_rejecting_missing_auth E HostedShard raw) n"
    and "ingest_pdu_healing E (leader E (Some G)) F' origin raw n = at_leader E (ingest_pdu_healing E HostedShard G origin raw) n"
proof -
  note answers = leader_answers[OF assms, where wrap = IntentOutcome and expect = want_outcome]
  show "ingest_pdu E (leader E F) raw n = at_leader E (ingest_pdu E HostedShard raw) n"
    using answers[of F "IngestPdu raw None False False" n "ingest_pdu E HostedShard raw"] by (simp add: ingest_pdu_def)
  show "ingest_pdu_rejecting_missing_auth E (leader E F) raw n = at_leader E (ingest_pdu_rejecting_missing_auth E HostedShard raw) n"
    using answers[of F "IngestPdu raw None False True" n "ingest_pdu_rejecting_missing_auth E HostedShard raw"]
    by (simp add: ingest_pdu_rejecting_missing_auth_def)
  have "remotely E (leader E (Some G)) i want_outcome l = remotely E (leader E (Some G)) i want_outcome l'" for i l l'
    by (simp add: remotely_def leader_def)
  then show "ingest_pdu_healing E (leader E (Some G)) F' origin raw n = at_leader E (ingest_pdu_healing E HostedShard G origin raw) n"
    using answers[of "Some G" "IngestPdu raw (Some origin) True False" n "ingest_pdu_healing E HostedShard G origin raw"]
    by (simp add: ingest_pdu_healing_def) metis
qed

lemma leader_sends:
  assumes "lossless (re_intent E)" "lossless (re_reply E)" and "room_id_ok (re_ruma E) rid" "user_id_ok (re_ruma E) user"
  shows "send_state E (leader E F) rid user ty sk c n = at_leader E (send_state E HostedShard rid user ty sk c) n"
    and "send_state_at E (leader E F) rid user ty sk c ts n = at_leader E (send_state_at E HostedShard rid user ty sk c ts) n"
    and "send_message_stamped E (leader E F) rid user ty c t txn n = at_leader E (send_message_stamped E HostedShard rid user ty c t txn) n"
proof -
  note answers = leader_answers[OF assms(1,2), where wrap = IntentOutcome and expect = want_outcome]
  show "send_state E (leader E F) rid user ty sk c n = at_leader E (send_state E HostedShard rid user ty sk c) n"
    using answers[of F "SendState rid user ty sk c None" n "send_state E HostedShard rid user ty sk c"] assms(3,4)
    by (simp add: send_state_def intents)
  show "send_state_at E (leader E F) rid user ty sk c ts n = at_leader E (send_state_at E HostedShard rid user ty sk c ts) n"
    using answers[of F "SendState rid user ty sk c (Some ts)" n "send_state_at E HostedShard rid user ty sk c ts"] assms(3,4)
    by (simp add: send_state_at_def intents)
  show "send_message_stamped E (leader E F) rid user ty c t txn n = at_leader E (send_message_stamped E HostedShard rid user ty c t txn) n"
    using answers[of F "SendMessage rid user ty c t txn" n "send_message_stamped E HostedShard rid user ty c t txn"] assms(3,4)
    by (simp add: send_message_stamped_def intents)
qed

lemma leader_handshakes:
  assumes "lossless (re_intent E)" "lossless (re_reply E)"
  shows "send_join E (leader E F) raw n = at_leader E (send_join E HostedShard raw) n"
    and "send_leave E (leader E F) raw n = at_leader E (send_leave E HostedShard raw) n"
    and "send_knock E (leader E F) raw n = at_leader E (send_knock E HostedShard raw) n"
proof -
  show "send_join E (leader E F) raw n = at_leader E (send_join E HostedShard raw) n"
    using leader_answers[OF assms, of F "SendJoin raw" n IntentJoin "send_join E HostedShard raw" "\<lambda>ok. case ok of IntentJoin r \<Rightarrow> Inr r | _ \<Rightarrow> Inl (CodecError ''expected Join'')"]
    by (simp add: send_join_def)
  show "send_leave E (leader E F) raw n = at_leader E (send_leave E HostedShard raw) n"
    using leader_answers[OF assms, of F "SendLeave raw" n IntentOutcome "send_leave E HostedShard raw" want_outcome] by (simp add: send_leave_def)
  show "send_knock E (leader E F) raw n = at_leader E (send_knock E HostedShard raw) n"
    using leader_answers[OF assms, of F "SendKnock raw" n IntentKnock "send_knock E HostedShard raw" "\<lambda>ok. case ok of IntentKnock r \<Rightarrow> Inr r | _ \<Rightarrow> Inl (CodecError ''expected Knock'')"]
    by (simp add: send_knock_def)
qed

lemma leader_imports:
  assumes "lossless (re_intent E)" "lossless (re_reply E)"
  shows "import_joined_room E (leader E F) v join state auth_objs n = at_leader E (import_joined_room E HostedShard v join state auth_objs) n"
    and "import_history_page E (leader E F) rid pdus n = at_leader E (import_history_page E HostedShard rid pdus) n"
proof -
  show "import_joined_room E (leader E F) v join state auth_objs n = at_leader E (import_joined_room E HostedShard v join state auth_objs) n"
    using leader_answers[OF assms, of F "ImportRoom (version_str v) join state auth_objs" n IntentOutcome "import_joined_room E HostedShard v join state auth_objs" want_outcome]
    by (simp add: import_joined_room_def intents)
  show "import_history_page E (leader E F) rid pdus n = at_leader E (import_history_page E HostedShard rid pdus) n"
    using leader_answers[OF assms, of F "ImportPage rid pdus" n "\<lambda>(indexed, complete). IntentHistory indexed complete" "import_history_page E HostedShard rid pdus"
        "\<lambda>ok. case ok of IntentHistory indexed complete \<Rightarrow> Inr (indexed, complete) | _ \<Rightarrow> Inl (CodecError ''expected History'')"]
    by (simp add: import_history_page_def split: prod.splits)
qed

lemma leader_writes:
  assumes "lossless (re_intent E)" "lossless (re_reply E)" and "room_id_ok (re_ruma E) rid" "user_id_ok (re_ruma E) user"
  shows "user_id_ok (re_ruma E) target \<Longrightarrow> invite_event E (leader E F) rid user target c n = at_leader E (invite_event E HostedShard rid user target c) n"
    and "event_id_ok (re_ruma E) eid \<Longrightarrow> write_receipt E (leader E F) rid user ty eid thread ts n = at_leader E (write_receipt E HostedShard rid user ty eid thread ts) n"
    and "create_room E (leader E F) user v c n = at_leader E (create_room E HostedShard user v c) n"
proof -
  assume "user_id_ok (re_ruma E) target"
  then show "invite_event E (leader E F) rid user target c n = at_leader E (invite_event E HostedShard rid user target c) n"
    using leader_answers[OF assms(1,2), of F "BuildInvite rid user target c" n "\<lambda>(v, raw). IntentInvite (version_str v) raw" "invite_event E HostedShard rid user target c"
        "\<lambda>ok. case ok of IntentInvite s raw \<Rightarrow> rbind (map_sum VersionError id (parse_version s)) (\<lambda>v. Inr (v, raw)) | _ \<Rightarrow> Inl (CodecError ''expected Invite'')"] assms(3,4)
    by (simp add: invite_event_def intents split: prod.splits)
next
  assume "event_id_ok (re_ruma E) eid"
  then show "write_receipt E (leader E F) rid user ty eid thread ts n = at_leader E (write_receipt E HostedShard rid user ty eid thread ts) n"
    using leader_answers[OF assms(1,2), of F "WriteReceipt rid user ty eid thread ts" n IntentSeq "write_receipt E HostedShard rid user ty eid thread ts"
        "\<lambda>ok. case ok of IntentSeq seq \<Rightarrow> Inr seq | _ \<Rightarrow> Inl (CodecError ''expected Seq'')"] assms(3,4)
    by (simp add: write_receipt_def intents)
next
  let ?expect = "\<lambda>ok. case ok of
        IntentCreated rid o' \<Rightarrow> if room_id_ok (re_ruma E) rid then Inr (rid, o') else Inl (MalformedEvent ''room id'')
      | _ \<Rightarrow> Inl (CodecError ''expected Created'')"
  have "remotely E (leader E F) (CreateRoom user (version_str v) c) ?expect (create_room E HostedShard user v c) n
      = at_leader E (create_room E HostedShard user v c) n"
    by (rule leader_answers[OF assms(1,2), where wrap = "\<lambda>(rid, o'). IntentCreated rid o'"])
       (use assms(4) in \<open>auto simp: intents dest: create_room_ids\<close>)
  then show "create_room E (leader E F) user v c n = at_leader E (create_room E HostedShard user v c) n"
    by (simp add: create_room_def)
qed

lemma leader_trusts:
  assumes "lossless (re_intent E)" "lossless (re_reply E)"
  shows "trust_keys E (leader E F) entity keys n = trust_keys E HostedShard entity keys n"
  using assms by (simp add: trust_keys_def leader_def call_def apply_intent_def)

section \<open>The claims\<close>

text \<open>
  C18: Writing through a node that does not host the shard. When intents and their answers survive their encoding
  and the identifiers given are well formed, every entry point does at the leader what it does there locally
  and answers the same, but for its errors. Of these an unknown room, missing events, missing auth events and a
  join that cannot be authorised arrive as they are, with what they carry; every other error arrives as a
  malformed event, with the message of the error.
\<close>

theorem remote_transparent:
  assumes "lossless (re_intent E)" "lossless (re_reply E)"
    and "room_id_ok (re_ruma E) rid" "user_id_ok (re_ruma E) user" "user_id_ok (re_ruma E) target" "event_id_ok (re_ruma E) eid"
  shows "ingest_pdu E (leader E F) raw n = at_leader E (ingest_pdu E HostedShard raw) n \<and>
     ingest_pdu_rejecting_missing_auth E (leader E F) raw n = at_leader E (ingest_pdu_rejecting_missing_auth E HostedShard raw) n \<and>
     ingest_pdu_healing E (leader E (Some G)) G' origin raw n = at_leader E (ingest_pdu_healing E HostedShard G origin raw) n \<and>
     send_message_stamped E (leader E F) rid user ty c t txn n = at_leader E (send_message_stamped E HostedShard rid user ty c t txn) n \<and>
     send_state E (leader E F) rid user ty sk c n = at_leader E (send_state E HostedShard rid user ty sk c) n \<and>
     send_state_at E (leader E F) rid user ty sk c ts n = at_leader E (send_state_at E HostedShard rid user ty sk c ts) n \<and>
     send_join E (leader E F) raw n = at_leader E (send_join E HostedShard raw) n \<and>
     send_leave E (leader E F) raw n = at_leader E (send_leave E HostedShard raw) n \<and>
     send_knock E (leader E F) raw n = at_leader E (send_knock E HostedShard raw) n \<and>
     invite_event E (leader E F) rid user target obj n = at_leader E (invite_event E HostedShard rid user target obj) n \<and>
     create_room E (leader E F) user v obj n = at_leader E (create_room E HostedShard user v obj) n \<and>
     write_receipt E (leader E F) rid user ty eid thread ts n = at_leader E (write_receipt E HostedShard rid user ty eid thread ts) n \<and>
     import_joined_room E (leader E F) v raw state auth_objs n = at_leader E (import_joined_room E HostedShard v raw state auth_objs) n \<and>
     import_history_page E (leader E F) rid pdus n = at_leader E (import_history_page E HostedShard rid pdus) n \<and>
     trust_keys E (leader E F) entity keys n = trust_keys E HostedShard entity keys n"
  by (intro conjI leader_ingests[OF assms(1,2)] leader_sends[OF assms(1-4)] leader_handshakes[OF assms(1,2)] leader_imports[OF assms(1,2)]
      leader_writes[OF assms(1-4)] leader_trusts[OF assms(1,2)] assms(5,6))

text \<open>
  The errors that the wire does not keep are not only texts: a client is answered differently when its room is
  hosted elsewhere. An event that is too large is then bad JSON, and so is a failure of the server itself.
\<close>

theorem wire_changes_status:
  "api_error (over_wire E e) = api_error e \<longleftrightarrow>
     (case e of
        ValidationFailed x \<Rightarrow> (case x of TooLarge _ \<Rightarrow> False | _ \<Rightarrow> True)
      | UnknownRoom _ \<Rightarrow> True | MissingEvents _ \<Rightarrow> True | MissingAuthEvents _ \<Rightarrow> True | CannotAuthoriseJoin _ \<Rightarrow> True
      | VerificationFailed _ \<Rightarrow> True | FormatError _ \<Rightarrow> True | MalformedEvent _ \<Rightarrow> True
      | _ \<Rightarrow> False)"
  by (cases e) (auto split: validation_error.split)

end
