(* ===== verification/Room_Summary.thy ===== *)
theory Room_Summary
  imports Room_Joins
begin

text \<open>
  Summaries of rooms for the hierarchy of a space (\<open>hierarchy.rs\<close>): the projection of the current state to a
  summary and its child links, the links of another server read back, and the order in which links are shown.
\<close>

record child_link =
  cl_target :: string
  cl_order :: "string option"
  cl_ts :: int
  cl_suggested :: bool
  cl_stripped :: json

record room_summary_data =
  rs_summary :: json
  rs_children :: "child_link list"
  rs_is_space :: bool
  rs_join_rule :: string
  rs_world_readable :: bool
  rs_allowed_room_ids :: "string list"

section \<open>Reading values\<close>

definition jget :: "json \<Rightarrow> string \<Rightarrow> json option" where
  "jget j k = (case j of JObj o' \<Rightarrow> bt_get o' k | _ \<Rightarrow> None)"

definition jstr :: "json \<Rightarrow> string \<Rightarrow> string option" where
  "jstr j k = (case jget j k of Some (JStr s) \<Rightarrow> Some s | _ \<Rightarrow> None)"

definition jint :: "json \<Rightarrow> string \<Rightarrow> int" where
  "jint j k = (case jget j k of Some (JInt i) \<Rightarrow> i | _ \<Rightarrow> 0)"

definition jflag :: "json \<Rightarrow> string \<Rightarrow> bool" where
  "jflag j k = (case jget j k of Some (JBool b) \<Rightarrow> b | _ \<Rightarrow> False)"

definition jarr :: "json \<Rightarrow> string \<Rightarrow> json list option" where
  "jarr j k = (case jget j k of Some (JArr xs) \<Rightarrow> Some xs | _ \<Rightarrow> None)"

definition or_null :: "json option \<Rightarrow> json" where
  "or_null v = (case v of Some j \<Rightarrow> j | None \<Rightarrow> JNull)"

definition valid_order :: "json \<Rightarrow> string option" where
  "valid_order c =
     (case jstr c ''order'' of
        Some s \<Rightarrow> if length s \<le> 50 \<and> list_all (\<lambda>b. 32 \<le> (of_char b :: nat) \<and> of_char b \<le> (126 :: nat)) s then Some s else None
      | None \<Rightarrow> None)"

definition stored_json :: "room_codecs \<Rightarrow> room_store \<Rightarrow> string \<Rightarrow> store_error + json option" where
  "stored_json C store eid =
     rbind (rs_event C store eid) (\<lambda>found.
       case found of
         None \<Rightarrow> Inr None
       | Some s \<Rightarrow> (case object_of C (se_raw s) of
             None \<Rightarrow> Inl (Engine ''hierarchy summary'')
           | Some o' \<Rightarrow> Inr (Some (JObj o'))))"

definition content_of :: "room_codecs \<Rightarrow> room_store \<Rightarrow> state_ids \<Rightarrow> string \<Rightarrow> store_error + json option" where
  "content_of C store current ty =
     (case bt_get current (ty, []) of
        None \<Rightarrow> Inr None
      | Some eid \<Rightarrow> rbind (stored_json C store eid) (\<lambda>v. Inr (Option.bind v (\<lambda>j. jget j ''content''))))"

definition str_field :: "room_codecs \<Rightarrow> room_store \<Rightarrow> state_ids \<Rightarrow> string \<Rightarrow> string \<Rightarrow> store_error + string option" where
  "str_field C store current ty k =
     rbind (content_of C store current ty) (\<lambda>c. Inr (Option.bind c (\<lambda>c. jstr c k)))"

section \<open>The summary\<close>

definition link_of :: "string \<Rightarrow> json \<Rightarrow> child_link option" where
  "link_of sk ev =
     (let c = or_null (jget ev ''content''); ts = jint ev ''origin_server_ts'' in
      if jarr c ''via'' = None then None
      else Some \<lparr>cl_target = sk, cl_order = valid_order c, cl_ts = ts, cl_suggested = jflag c ''suggested'',
        cl_stripped = JObj (bt_collect [(''type'', JStr ''m.space.child''), (''state_key'', JStr sk), (''content'', c),
          (''sender'', or_null (jget ev ''sender'')), (''origin_server_ts'', JInt ts)])\<rparr>)"

definition summary_item ::
  "room_codecs \<Rightarrow> room_store \<Rightarrow> (string \<times> string) \<times> string \<Rightarrow> u64 \<times> child_link list \<Rightarrow> store_error + u64 \<times> child_link list" where
  "summary_item C store = (\<lambda>((ty, sk), eid) (joined, links).
     if ty = ''m.room.member''
     then rbind (stored_json C store eid) (\<lambda>v.
       Inr (if Option.bind (Option.bind v (\<lambda>j. jget j ''content'')) (\<lambda>c. jstr c ''membership'') = Some ''join''
            then joined + 1 else joined, links))
     else if ty \<noteq> ''m.space.child'' then Inr (joined, links)
     else rbind (stored_json C store eid) (\<lambda>v.
       Inr (joined, links @ (case Option.bind v (link_of sk) of Some l \<Rightarrow> [l] | None \<Rightarrow> []))))"

definition allowed_rooms :: "json option \<Rightarrow> string list" where
  "allowed_rooms join_rules =
     (case Option.bind join_rules (\<lambda>c. jarr c ''allow'') of
        Some entries \<Rightarrow> List.map_filter (\<lambda>a. jstr a ''room_id'') (filter (\<lambda>a. jstr a ''type'' = Some ''m.room_membership'') entries)
      | None \<Rightarrow> [])"

definition optional_str :: "string \<Rightarrow> string option \<Rightarrow> (string \<times> json) list" where
  "optional_str k v = (case v of Some s \<Rightarrow> [(k, JStr s)] | None \<Rightarrow> [])"

definition summarise :: "room_codecs \<Rightarrow> room_store \<Rightarrow> string \<Rightarrow> state_ids \<Rightarrow> store_error + room_summary_data" where
  "summarise C store rid current =
     rbind (fold_r (summary_item C store) current (0, [])) (\<lambda>(joined, links).
     rbind (content_of C store current ''m.room.create'') (\<lambda>create.
     rbind (content_of C store current ''m.room.join_rules'') (\<lambda>join_rules.
     rbind (str_field C store current ''m.room.history_visibility'' ''history_visibility'') (\<lambda>visibility.
     rbind (str_field C store current ''m.room.guest_access'' ''guest_access'') (\<lambda>guests.
     rbind (str_field C store current ''m.room.name'' ''name'') (\<lambda>name.
     rbind (str_field C store current ''m.room.topic'' ''topic'') (\<lambda>topic.
     rbind (str_field C store current ''m.room.canonical_alias'' ''alias'') (\<lambda>alias.
     rbind (str_field C store current ''m.room.avatar'' ''url'') (\<lambda>avatar.
     let room_type = Option.bind create (\<lambda>c. jstr c ''type'');
         join_rule = (case Option.bind join_rules (\<lambda>c. jstr c ''join_rule'') of Some r \<Rightarrow> r | None \<Rightarrow> ''invite'');
         allowed = allowed_rooms join_rules;
         world_readable = (visibility = Some ''world_readable'') in
     Inr \<lparr>rs_summary = JObj (bt_collect ([(''room_id'', JStr rid), (''num_joined_members'', JInt (uint joined)),
          (''world_readable'', JBool world_readable), (''guest_can_join'', JBool (guests = Some ''can_join'')),
          (''join_rule'', JStr join_rule)] @ optional_str ''name'' name @ optional_str ''topic'' topic
          @ optional_str ''canonical_alias'' alias @ optional_str ''avatar_url'' avatar @ optional_str ''room_type'' room_type
          @ (if allowed = [] then [] else [(''allowed_room_ids'', JArr (map JStr allowed))]))),
        rs_children = links, rs_is_space = (room_type = Some ''m.space''), rs_join_rule = join_rule,
        rs_world_readable = world_readable, rs_allowed_room_ids = allowed\<rparr>)))))))))"

definition room_summary :: "room_codecs \<Rightarrow> room_store \<Rightarrow> string \<Rightarrow> (store_error + room_summary_data option) option" where
  "room_summary C store rid =
     dbind (Some (rs_meta C store rid)) (\<lambda>meta.
     case meta of
       None \<Rightarrow> Some (Inr None)
     | Some meta \<Rightarrow>
         dbind (resolve_group C store rid (rm_current_group meta)) (\<lambda>current.
           Some (rbind (summarise C store rid current) (\<lambda>s. Inr (Some s)))))"

section \<open>Links of another server\<close>

definition child_link_from_stripped :: "json \<Rightarrow> child_link option" where
  "child_link_from_stripped stripped =
     (case jstr stripped ''state_key'' of
        None \<Rightarrow> None
      | Some target \<Rightarrow>
          let c = or_null (jget stripped ''content'') in
          if jarr c ''via'' = None then None
          else Some \<lparr>cl_target = target, cl_order = valid_order c, cl_ts = jint stripped ''origin_server_ts'',
            cl_suggested = jflag c ''suggested'', cl_stripped = stripped\<rparr>)"

text \<open>Links with an order come first, by order, time and target; the others follow by time and target.\<close>

definition child_key :: "child_link \<Rightarrow> bool \<times> string \<times> int \<times> string" where
  "child_key l = (case cl_order l of
      Some x \<Rightarrow> (False, x, cl_ts l, cl_target l)
    | None \<Rightarrow> (True, [], cl_ts l, cl_target l))"

definition ordered_children :: "child_link list \<Rightarrow> bool \<Rightarrow> child_link list" where
  "ordered_children links suggested_only = sort_key child_key (filter (\<lambda>l. \<not> suggested_only \<or> cl_suggested l) links)"

section \<open>What the order is\<close>

lemma child_key_less:
  "child_key a < child_key b \<longleftrightarrow>
     (case (cl_order a, cl_order b) of
        (Some x, Some y) \<Rightarrow> x < y \<or> x = y \<and> (cl_ts a < cl_ts b \<or> cl_ts a = cl_ts b \<and> cl_target a < cl_target b)
      | (Some _, None) \<Rightarrow> True
      | (None, Some _) \<Rightarrow> False
      | (None, None) \<Rightarrow> cl_ts a < cl_ts b \<or> cl_ts a = cl_ts b \<and> cl_target a < cl_target b)"
  by (auto simp: child_key_def split: option.split)

lemma link_reads_back: "link_of sk ev = Some l \<Longrightarrow> child_link_from_stripped (cl_stripped l) = Some l \<and> cl_target l = sk"
proof -
  assume "link_of sk ev = Some l"
  then obtain c sndr ts where l: "l = \<lparr>cl_target = sk, cl_order = valid_order c, cl_ts = ts, cl_suggested = jflag c ''suggested'',
        cl_stripped = JObj (bt_collect [(''type'', JStr ''m.space.child''), (''state_key'', JStr sk), (''content'', c),
          (''sender'', sndr), (''origin_server_ts'', JInt ts)])\<rparr>" and v: "jarr c ''via'' \<noteq> None"
    by (auto simp: link_of_def Let_def split: if_splits)
  show ?thesis unfolding l
    using v by (simp add: child_link_from_stripped_def jstr_def jget_def jint_def or_null_def bt_collect_def)
qed

lemma summary_items:
  assumes "fold_r (summary_item C store) current (joined, links) = Inr (joined', links')" and "distinct (map fst current)"
  shows "\<exists>new. links' = links @ new \<and> distinct (map cl_target new) \<and> (\<forall>l \<in> set new. (''m.space.child'', cl_target l) \<in> fst ` set current)
    \<and> (\<forall>l \<in> set new. child_link_from_stripped (cl_stripped l) = Some l)"
  using assms
proof (induction current arbitrary: joined links)
  case (Cons e current)
  obtain ty sk eid where e: "e = ((ty, sk), eid)" by (metis prod.collapse)
  from Cons.prems(1) obtain j1 l1 where 1: "summary_item C store e (joined, links) = Inr (j1, l1)"
    "fold_r (summary_item C store) current (j1, l1) = Inr (joined', links')" by auto
  have "\<exists>add. l1 = links @ add \<and> length add \<le> 1 \<and> (\<forall>l \<in> set add. ty = ''m.space.child'' \<and> cl_target l = sk \<and> child_link_from_stripped (cl_stripped l) = Some l)"
  proof -
    have "child_link_from_stripped (cl_stripped l) = Some l \<and> cl_target l = sk" if "Option.bind b (link_of sk) = Some l" for b l
      using that link_reads_back by (cases b) auto
    then show ?thesis using 1(1) by (cases "stored_json C store eid") (auto simp: summary_item_def e split: if_splits option.splits)
  qed
  then obtain add where add: "l1 = links @ add" "length add \<le> 1"
    "\<forall>l \<in> set add. ty = ''m.space.child'' \<and> cl_target l = sk \<and> child_link_from_stripped (cl_stripped l) = Some l" by blast
  from Cons.IH[OF 1(2)] Cons.prems(2) obtain new where new: "links' = l1 @ new" "distinct (map cl_target new)"
    "\<forall>l \<in> set new. (''m.space.child'', cl_target l) \<in> fst ` set current" "\<forall>l \<in> set new. child_link_from_stripped (cl_stripped l) = Some l" by auto
  have "distinct (map cl_target (add @ new))"
  proof -
    have "cl_target l \<notin> cl_target ` set new" if "l \<in> set add" for l
    proof
      assume "cl_target l \<in> cl_target ` set new"
      then have "(''m.space.child'', cl_target l) \<in> fst ` set current" using new(3) by auto
      then have "fst e \<in> fst ` set current" using add(3) that e by simp
      then show False using Cons.prems(2) by simp
    qed
    moreover have "distinct (map cl_target add)" using add(2) by (cases add) auto
    ultimately show ?thesis using new(2) by auto
  qed
  then show ?case using new add e by (intro exI[of _ "add @ new"]) auto
qed simp

section \<open>The claim\<close>

text \<open>
  C20: A space looks the same from another server: when the child links of a summary travel as \<open>children_state\<close>, in
  whatever order, the links read back and ordered are the links that this server orders itself, and they
  are all its links, by their order key.
\<close>

theorem hierarchy_links_agree:
  assumes "room_summary C store rid = Some (Inr (Some s))" and "mset children_state = mset (map cl_stripped (rs_children s))"
  shows "ordered_children (List.map_filter child_link_from_stripped children_state) only = ordered_children (rs_children s) only
    \<and> mset (ordered_children (rs_children s) only) = filter_mset (\<lambda>l. \<not> only \<or> cl_suggested l) (mset (rs_children s))
    \<and> sorted_wrt (\<lambda>a b. child_key a < child_key b) (ordered_children (rs_children s) only)"
proof -
  from assms(1) obtain meta :: room_meta and current where c: "resolve_group C store rid (rm_current_group meta) = Some (Inr current)"
    and "summarise C store rid current = Inr s"
    by (auto simp: room_summary_def split: option.splits)
  then have "\<exists>joined. fold_r (summary_item C store) current (0, []) = Inr (joined, rs_children s)"
    by (auto simp: summarise_def Let_def)
  then obtain joined where f: "fold_r (summary_item C store) current (0, []) = Inr (joined, rs_children s)" by blast
  have "bt_wf current" using c by (auto simp: resolve_group_def overlay_wf)
  then have d: "distinct (map fst current)" by (rule bt_wf_distinct)
  from summary_items[OF f d] have l: "distinct (map cl_target (rs_children s))"
    "\<forall>l \<in> set (rs_children s). child_link_from_stripped (cl_stripped l) = Some l" by auto
  let ?read = "List.map_filter child_link_from_stripped"
  have "?read (map cl_stripped ls) = ls" if "\<forall>l \<in> set ls. child_link_from_stripped (cl_stripped l) = Some l" for ls
    using that by (induction ls) (simp_all add: List.map_filter_simps)
  then have "?read (map cl_stripped (rs_children s)) = rs_children s" using l(2) by blast
  moreover have "mset (?read xs) = mset (?read ys)" if "mset xs = mset ys" for xs ys
    using that by (simp add: List.map_filter_def)
  ultimately have m: "mset (?read children_state) = mset (rs_children s)" using assms(2) by metis
  have inj: "inj_on child_key (set ls)" if "distinct (map cl_target ls)" for ls
  proof (rule inj_onI)
    fix a b assume "a \<in> set ls" "b \<in> set ls" "child_key a = child_key b"
    moreover from this have "cl_target a = cl_target b" by (auto simp: child_key_def split: option.splits)
    ultimately show "a = b" using that by (auto simp: distinct_map dest: inj_onD)
  qed
  let ?F = "filter (\<lambda>l. \<not> only \<or> cl_suggested l)"
  have dF: "distinct (map cl_target (?F (rs_children s)))" using l(1) by (simp add: distinct_map_filter)
  have "mset (?F (?read children_state)) = mset (?F (rs_children s))" using m by simp
  moreover have "set (?read children_state) = set (rs_children s)" using m by (rule mset_eq_setD)
  ultimately have "ordered_children (?read children_state) only = ordered_children (rs_children s) only"
    unfolding ordered_children_def using inj[OF dF] by (intro sort_key_inj_key_eq) simp_all
  moreover have "sorted_wrt (\<lambda>a b. child_key a < child_key b) (ordered_children (rs_children s) only)"
  proof -
    have "sorted (map child_key (ordered_children (rs_children s) only))" by (simp add: ordered_children_def)
    moreover have "distinct (map child_key (ordered_children (rs_children s) only))"
      using inj[OF dF] dF by (simp add: ordered_children_def distinct_map)
    ultimately have "sorted_wrt (<) (map child_key (ordered_children (rs_children s) only))" by (simp add: strict_sorted_iff)
    then show ?thesis by (simp add: sorted_wrt_map)
  qed
  ultimately show ?thesis by (simp add: ordered_children_def)
qed

end
