(* ===== verification/Room_Node_Examples.thy ===== *)
theory Room_Node_Examples
  imports Room_Fed_Examples Room_Settle Room_Intents Room_Summary "HOL-Library.Countable"
begin

text \<open>
  The theorems about a running node, applied to the imported room of \<open>Room_Examples\<close>. Intents and their answers
  are numbered, and a number is written as so many bytes, which is lossless.
\<close>

section \<open>A wire for intents\<close>

instance word :: (len) countable
  by (rule countable_classI[of unat]) (simp add: word_unat_eq_iff)

instance txn_stamp_ext :: (countable) countable
  by (rule countable_classI[of "\<lambda>t. to_nat (txn_user_id t, txn_device_id t, txn_scope t, txn_txn_id t, txn_ts t, txn_stamp.more t)"]) simp

instance json :: countable by countable_datatype

instance restricted_denial :: countable by countable_datatype

instance intent_error :: countable by countable_datatype

instance outcome :: countable by countable_datatype

instance intent_ok :: countable by countable_datatype

instance room_intent :: countable by countable_datatype

definition counted :: "'a::countable codec" where
  "counted = \<lparr>enc = (\<lambda>x. replicate (to_nat x) (byte 0)), dec = (\<lambda>b. Some (from_nat (length b)))\<rparr>"

lemma counted_lossless: "lossless counted"
  by (simp add: lossless_def counted_def)

section \<open>A node\<close>

definition the_env :: room_env where
  "the_env = \<lparr>re_ruma = rv_ruma, re_codecs = rwire, re_signer = \<lparr>server_name = ''s'', sign_event = (\<lambda>raw v. Inr raw)\<rparr>,
     re_schema_codec = counted, re_intent = counted, re_reply = counted, re_message = (\<lambda>_. ''error''), re_now = (\<lambda>_. 5),
     re_new_room_id = (\<lambda>_. ''!n:s''), re_propose = (\<lambda>_ reads _. (Inl ''no quorum'', reads))\<rparr>"

definition the_node :: room_node where
  "the_node = \<lparr>rn_reads = \<lparr>rd_shard = ROOM_SHARD, rd_engine = jdb\<rparr>, rn_keys = [(''s'', [])], rn_schema = 0, rn_requests = [], rn_proposed = 0\<rparr>"

lemma env_simps [simp]: "re_ruma the_env = rv_ruma" "re_codecs the_env = rwire" "re_intent the_env = counted" "re_reply the_env = counted"
  "hash_and_sign_event (re_signer the_env) raw v = Inr raw" "rn_reads the_node = \<lparr>rd_shard = ROOM_SHARD, rd_engine = jdb\<rparr>" "rn_keys the_node = [(''s'', [])]"
  by (simp_all add: the_env_def the_node_def hash_and_sign_event_def)

theorem remote_transparent_witness:
  "send_state_at the_env (leader the_env None) ''!r:s'' ''@a:s'' ''m.room.topic'' [] (Inr (JObj [])) 7 the_node =
     at_leader the_env (send_state_at the_env HostedShard ''!r:s'' ''@a:s'' ''m.room.topic'' [] (Inr (JObj [])) 7) the_node"
proof -
  have "room_id_ok (re_ruma the_env) ''!r:s''" "user_id_ok (re_ruma the_env) ''@a:s''" "event_id_ok (re_ruma the_env) ''$h''"
    by (simp_all add: sample_ruma_def starts_with_def)
  then show ?thesis
    using remote_transparent[of the_env "''!r:s''" "''@a:s''" "''@a:s''" "''$h''" None] by (simp add: counted_lossless)
qed

section \<open>The answer to a join\<close>

text \<open>Alice's server sends her join again; it is stored already, and the answer is the room with its create event.\<close>

definition join_ruma :: "room_version ruma" where
  "join_ruma = rv_ruma\<lparr>reference_hash := (\<lambda>_ _. Some ''j'')\<rparr>"

abbreviation join_env :: room_env where "join_env \<equiv> the_env\<lparr>re_ruma := join_ruma\<rparr>"

lemma join_verified: "verified_form join_ruma [(''s'', [])] (canon ev_alice) V11 = Inr (canon ev_alice, ip_pdu ev_alice)"
proof -
  have "from_canonical join_ruma (canon ev_alice) = Inr (ip_pdu ev_alice)"
    by (simp add: texts_eval ev_alice_def join_ruma_def)
  then have "validate_pdu join_ruma (canon ev_alice) V11 = Inr (ip_pdu ev_alice)"
    by (simp add: validate_pdu_def texts_eval join_ruma_def ev_alice_def check_limits_def check_complete_def size_limits
        field_len_def strict_byte_limits_def room_id_is_create_event_id_def less_eq_room_version_def)
  moreover have "verify_event join_ruma (canon ev_alice) V11 [(''s'', [])] = Inr Verified" by (simp add: verify_event_def sample_ruma_def join_ruma_def)
  ultimately show ?thesis by (simp add: verified_form_def)
qed

lemma join_stored: "process_inner join_ruma rwire [(''s'', [])] jstore (canon ev_alice) V11 ''!r:s'' False True False None = Some (Inr (AlreadyStored ''$j''))"
proof -
  have "compute_event_id join_ruma (canon ev_alice) V11 = Inr ''$j''" by (simp add: compute_event_id_def sample_ruma_def join_ruma_def starts_with_def)
  then show ?thesis by (simp add: process_inner_def join_verified lift_err_def stored_def jstore_reads Let_def dret_def)
qed

lemma join_classified: "classify join_ruma rwire jstore (canon ev_alice) = Inr (V11, ''!r:s'', False)"
proof -
  have "str_of (canon ev_alice) ''type'' = Inr ''m.room.member''" "room_id_of join_ruma (canon ev_alice) = Inr ''!r:s''"
    by (simp_all add: str_of_def room_id_of_def join_ruma_def texts_eval ev_alice_def)
  then show ?thesis by (simp add: classify_def jstore_reads) (simp add: joined_meta_def parse_version_def)
qed

theorem join_answer_complete_witness:
  "\<exists>state chain ids. send_join join_env HostedShard (canon ev_alice) the_node = Some (Inr (canon ev_alice, state, chain), the_node) \<and>
     state = [canon ev_create, canon ev_alice] \<and> chain = map (held_obj rwire jstore) ids \<and> distinct ids \<and> set ids = auth_closure rwire jstore {''$c''}"
proof -
  have "\<exists>state chain. send_join_result rwire jstore ''!r:s'' (OutDuplicate ''$j'') (canon ev_alice) = Some (Inr (canon ev_alice, state, chain))"
  proof -
    obtain seed where "fold_r (join_state_event rwire jstore) (map snd join_state) ([], []) =
        Inr (map (held_obj rwire jstore) (filter (\<lambda>i. held rwire jstore i \<noteq> None) (map snd join_state)), seed)"
      using join_state_events[OF jstore_readable, of "map snd join_state" "[]" "[]"] by auto
    moreover obtain ids where "collect_auth_chain rwire jstore seed = Some (Inr (map (held_obj rwire jstore) ids))"
      using collect_auth_chain_result[OF jstore_readable finite_held] by blast
    moreover have "rm_current_group joined_meta = 1" by (simp add: joined_meta_def)
    ultimately show ?thesis by (simp add: send_join_result_def known_meta_def jstore_reads resolved_def join_resolves dret_def)
  qed
  then obtain state chain where "send_join join_env HostedShard (canon ev_alice) the_node = Some (Inr (canon ev_alice, state, chain), the_node)"
    by (auto simp: send_join_def nbind_def nlift_def nstage_def process_def process_event_def settle_def nret_def join_classified join_stored hash_and_sign_event_def the_env_def)
  moreover have "readable (re_codecs join_env) (rn_store the_node)" using jstore_readable by simp
  ultimately obtain v rid creates current ids and meta :: room_meta where
    "classify (re_ruma join_env) (re_codecs join_env) (rn_store the_node) (canon ev_alice) = Inr (v, rid, creates)"
    and a: "rs_meta rwire jstore rid = Inr (Some meta)" "resolve_group rwire jstore rid (rm_current_group meta) = Some (Inr current)"
      "state = map (held_obj rwire jstore) (filter (\<lambda>i. held rwire jstore i \<noteq> None) (map snd current))"
      "chain = map (held_obj rwire jstore) ids" "distinct ids" "set ids = auth_closure rwire jstore (\<Union>obj \<in> set state. set (auth_event_ids obj))"
    using join_answer_complete[of join_env "canon ev_alice" the_node "canon ev_alice" state chain the_node] by auto
  then have "rid = ''!r:s''" by (simp add: join_classified)
  moreover from this have "meta = joined_meta" using a(1) by (simp add: jstore_reads)
  moreover have "rm_current_group joined_meta = 1" by (simp add: joined_meta_def)
  ultimately have "current = join_state" using a(2) join_resolves by simp
  then have "state = [canon ev_create, canon ev_alice]" using a(3) by (simp add: join_state_def jstore_held jstore_objs)
  moreover from this have "(\<Union>obj \<in> set state. set (auth_event_ids obj)) = {''$c''}" by (simp add: alice_refs)
  ultimately show ?thesis using a(4-6) \<open>send_join _ _ _ _ = _\<close> by auto
qed

section \<open>An unverified chain\<close>

text \<open>
  The origin of a gap sends a chain of one event without sender or signature, and a state that verifies.
\<close>

definition forged :: jobj where
  "forged = [(''room_id'', JStr ''!r:s''), (''type'', JStr ''m.room.message'')]"

definition the_origin :: event_fetcher where
  "the_origin = \<lparr>fetch_missing = (\<lambda>_ _ _ _ _ _. Inr [forged]), fetch_state_ids = (\<lambda>_ _ _ _. Inl ''404''),
     fetch_state = (\<lambda>_ _ _ _. Inr ([canon ev_topic], [])), fetch_one = (\<lambda>_ _ _. Inr None), trust_origin = (\<lambda>_ _ keys. keys),
     trust_servers = (\<lambda>_ _ keys. keys)\<rparr>"

lemma joined_version: "parse_version (rm_version joined_meta) = Inr V11"
  by (simp add: joined_meta_def parse_version_def)

lemma forged_id: "pdu_event_id rv_ruma rwire jstore forged = Some ''$h''" "import_event_of rv_ruma rwire V11 forged \<noteq> None"
proof -
  have id: "compute_event_id rv_ruma forged V11 = Inr ''$h''" by (simp add: compute_event_id_def sample_ruma_def starts_with_def)
  have "room_id_of rv_ruma forged = Inr ''!r:s''" "str_of forged ''type'' = Inr ''m.room.message''"
    by (simp_all add: room_id_of_def str_of_def forged_def sample_ruma_def starts_with_def)
  then show "pdu_event_id rv_ruma rwire jstore forged = Some ''$h''"
    by (simp add: pdu_event_id_def classify_def jstore_reads joined_version id)
  show "import_event_of rv_ruma rwire V11 forged \<noteq> None" by (simp add: import_event_of_def id raw_bytes_def text_of_def)
qed

lemma topic_verifies: "verify_pdu rv_ruma rwire [(''s'', [])] jstore ''!r:s'' (canon ev_topic)"
proof -
  have "verify_event rv_ruma (canon ev_topic) V11 [(''s'', [])] = Inr Verified" by (simp add: verify_event_def sample_ruma_def)
  then show ?thesis using topic_verified by (auto simp: verify_pdu_def verify_pdu_at_def jstore_reads joined_version verified_form_def is_ok_iff)
qed

lemma forged_unverified: "\<not> verify_pdu rv_ruma rwire keys jstore ''!r:s'' forged"
  by (simp add: verify_pdu_def verify_pdu_at_def jstore_reads joined_version validate_pdu_def texts_eval forged_def is_ok_iff)


section \<open>A gap that stays\<close>

text \<open>
  An event cites a predecessor that the origin does not give out. Healing ends with the predecessor missing,
  after the gap was walked and the predecessor asked for.
\<close>

definition ev_gap :: identified_pdu where
  "ev_gap = mk_event ''$h'' ''m.room.topic'' (Some []) ''@a:s'' [] [''$c'', ''$j''] [''$p''] 2"

definition silent_origin :: event_fetcher where
  "silent_origin = \<lparr>fetch_missing = (\<lambda>_ _ _ _ _ _. Inr []), fetch_state_ids = (\<lambda>_ _ _ _. Inl ''404''), fetch_state = (\<lambda>_ _ _ _. Inl ''404''),
     fetch_one = (\<lambda>_ _ _. Inr None), trust_origin = (\<lambda>_ _ keys. keys), trust_servers = (\<lambda>_ _ keys. keys)\<rparr>"

definition at_room :: "room_node \<Rightarrow> bool" where
  "at_room m \<longleftrightarrow> rn_reads m = \<lparr>rd_shard = ROOM_SHARD, rd_engine = jdb\<rparr> \<and> rn_keys m = [(''s'', [])]"

lemma at_room_frame: "at_room (m\<lparr>rn_requests := reqs\<rparr>) = at_room m" "at_room (m\<lparr>rn_keys := rn_keys m\<rparr>) = at_room m"
  by (simp_all add: at_room_def)

lemma gap_verified: "verified_form rv_ruma [(''s'', [])] (canon ev_gap) V11 = Inr (canon ev_gap, ip_pdu ev_gap)"
proof -
  have "from_canonical rv_ruma (canon ev_gap) = Inr (ip_pdu ev_gap)" by (simp add: texts_eval ev_gap_def)
  then have "validate_pdu rv_ruma (canon ev_gap) V11 = Inr (ip_pdu ev_gap)"
    by (simp add: validate_pdu_def texts_eval ev_gap_def check_limits_def check_complete_def size_limits
        field_len_def strict_byte_limits_def room_id_is_create_event_id_def less_eq_room_version_def)
  moreover have "verify_event rv_ruma (canon ev_gap) V11 [(''s'', [])] = Inr Verified" by (simp add: verify_event_def sample_ruma_def)
  ultimately show ?thesis by (simp add: verified_form_def)
qed

lemma gap_missing: "process_inner rv_ruma rwire [(''s'', [])] jstore (canon ev_gap) V11 ''!r:s'' False relay rej None = Some (Inl (MissingEvents [''$p'']))"
proof -
  have id: "compute_event_id rv_ruma (canon ev_gap) V11 = Inr ''$h''" by (simp add: compute_event_id_def sample_ruma_def starts_with_def)
  have e: "\<lparr>ip_event_id = ''$h'', ip_pdu = ip_pdu ev_gap\<rparr> = ev_gap" by (simp add: ev_gap_def mk_event_def)
  have refs: "auth_events ev_gap = [''$c'', ''$j'']" "prev_events ev_gap = [''$p'']" by (simp_all add: ev_gap_def mk_event_def event_accessors)
  have "rs_event rwire jstore ''$p'' = Inr None"
    by (simp add: rs_event_def rs_typed_def rs_get_def import_rows del: room_tables)
  then have "fold_r (prev_group rwire jstore) [''$p''] ([], []) = Inr ([], [''$p''])" by (simp add: prev_group_def)
  then show ?thesis
    by (simp add: process_inner_def gap_verified id lift_err_def stored_def jstore_reads e refs topic_refs dfail_def Let_def del: fold_r.simps)
qed

lemma gap_classified: "classify rv_ruma rwire jstore (canon ev_gap) = Inr (V11, ''!r:s'', False)"
proof -
  have "str_of (canon ev_gap) ''type'' = Inr ''m.room.topic''" "room_id_of rv_ruma (canon ev_gap) = Inr ''!r:s''"
    by (simp_all add: str_of_def room_id_of_def texts_eval ev_gap_def)
  then show ?thesis by (simp add: classify_def jstore_reads joined_version)
qed

lemma gap_attempt:
  assumes "at_room m"
  shows "ingest_pdu the_env HostedShard (canon ev_gap) m = Some (Inl (MissingEvents [''$p'']), m)"
    "ingest_pdu_rejecting_missing_auth the_env HostedShard (canon ev_gap) m = Some (Inl (MissingEvents [''$p'']), m)"
  using assms by (simp_all add: at_room_def ingest_pdu_def ingest_pdu_rejecting_missing_auth_def remotely_def process_def process_event_def
      nbind_def nlift_def nstage_def gap_classified gap_missing)

lemma import_stays: "at_room m \<Longrightarrow> import_gap_segment the_env rid state auth_objs chain m = Some (r, m') \<Longrightarrow> at_room m'"
  by (auto simp: at_room_def import_gap_segment_def nbind_def nlift_def propose_cmd_def the_env_def Let_def split: sum.splits)

interpretation silent: healing_run the_env silent_origin "''t''" "{canon ev_gap}" at_room
  by unfold_locales (auto simp: gap_attempt at_room_frame silent_origin_def learn_keys_def dest: import_stays)

lemma gap_walk: "heal_gap the_env silent_origin ''t'' (canon ev_gap) the_node =
  Some (False, the_node\<lparr>rn_requests := [AskMissing ''t'' ''!r:s'' [''$j''] ''$h'' GAP_FILL_LIMIT]\<rparr>)"
proof -
  have id: "compute_event_id rv_ruma (canon ev_gap) V11 = Inr ''$h''" by (simp add: compute_event_id_def sample_ruma_def starts_with_def)
  have "str_prop (canon ev_gap) ''room_id'' = Some ''!r:s''" by (simp add: str_prop.simps texts_eval ev_gap_def)
  moreover have "room_extremities rwire jstore ''!r:s'' = Inr [''$j'']" by (simp add: room_extremities_def known_meta_def jstore_reads joined_meta_def)
  ultimately show ?thesis
    by (simp add: heal_gap_def pdu_event_id_def gap_classified id ask_def learn_keys_def silent_origin_def) (simp add: the_node_def)
qed

theorem healing_settles_witness:
  "\<exists>n'. ingest_pdu_healing the_env HostedShard silent_origin ''t'' (canon ev_gap) the_node = Some (Inl (MissingEvents [''$p'']), n') \<and>
     asked_for the_env ''t'' at_room (canon ev_gap) the_node n'"
proof -
  have at: "at_room the_node" by (simp add: at_room_def)
  let ?n = "the_node\<lparr>rn_requests := [AskMissing ''t'' ''!r:s'' [''$j''] ''$h'' GAP_FILL_LIMIT]\<rparr>"
  have "\<exists>n'. fetch_missing_by_id the_env silent_origin ''t'' [''$p''] ?n = Some (False, n')"
  proof -
    have "\<exists>k. GAP_FILL_LIMIT = Suc (Suc k)" by (rule exI[of _ 48]) (simp add: GAP_FILL_LIMIT_def)
    then obtain k where k: "GAP_FILL_LIMIT = Suc (Suc k)" ..
    show ?thesis unfolding fetch_missing_by_id_def k by (simp add: ask_def silent_origin_def)
  qed
  then obtain n' where "fetch_missing_by_id the_env silent_origin ''t'' [''$p''] ?n = Some (False, n')" ..
  then have "ingest_pdu_healing the_env HostedShard silent_origin ''t'' (canon ev_gap) the_node = Some (Inl (MissingEvents [''$p'']), n')"
    by (simp add: ingest_pdu_healing_def remotely_def healing_loop.simps[of the_env] gap_attempt[OF at] gap_walk)
  then show ?thesis using healing_settles[OF silent.healing_run_axioms _ at, of "canon ev_gap"] by auto
qed

section \<open>A space\<close>

definition space_child :: jobj where
  "space_child = [(''content'', JObj [(''via'', JArr [JStr ''s''])]), (''origin_server_ts'', JInt 3), (''sender'', JStr ''@a:s'')]"

abbreviation swire :: room_codecs where "swire \<equiv> room_format (\<lambda>_. Some space_child) text_of"

definition space_state :: state_ids where
  "space_state = [((''m.space.child'', ''!x:s''), ''$x''), ((''m.space.child'', ''!y:s''), ''$y'')]"

abbreviation space_store :: room_store where "space_store \<equiv> node_store swire joined_meta space_state (\<lambda>e. Some se_join)"

theorem hierarchy_links_agree_witness:
  "\<exists>s. room_summary swire space_store ''!r:s'' = Some (Inr (Some s)) \<and> map cl_target (rs_children s) = [''!x:s'', ''!y:s''] \<and>
     ordered_children (List.map_filter child_link_from_stripped (rev (map cl_stripped (rs_children s)))) False = ordered_children (rs_children s) False"
proof -
  have "bt_wf space_state" by (simp add: space_state_def less_list_code less_char_def)
  moreover have "\<exists>s. summarise swire space_store ''!r:s'' space_state = Inr s \<and> map cl_target (rs_children s) = [''!x:s'', ''!y:s'']"
    by (simp add: summarise_def summary_item_def stored_json_def node_reads object_rows content_of_def str_field_def Let_def space_child_def link_of_def jget_def jarr_def or_null_def space_state_def)
  ultimately obtain s where s: "room_summary swire space_store ''!r:s'' = Some (Inr (Some s))" "map cl_target (rs_children s) = [''!x:s'', ''!y:s'']"
    by (auto simp: room_summary_def node_reads node_resolves)
  then show ?thesis using hierarchy_links_agree[OF s(1), of "rev (map cl_stripped (rs_children s))" False] by auto
qed

end
