(* ===== verification/Spec2Isabelle.thy ===== *)
theory Spec2Isabelle
  imports Acl Validation Core_Examples Cluster_Examples User_Examples User_Read_Facts Room_Examples Room_Node_Examples
begin

text \<open>
  A verification library for saltator, a Matrix homeserver written in Rust (\<open>src/crates\<close>).

  \<^bold>\<open>The program.\<close> A homeserver keeps rooms: graphs of events whose current state is decided by rules of
  authorisation and, where the graph forks, by state resolution. saltator replicates everything it
  stores through Raft groups ("shards"). A shard runs one application: a deterministic machine that
  consumes committed commands, reads and writes a table space of an ordered key-value engine, and emits
  records that other parts follow. A metadata group holds the roster of nodes and the placement of
  groups; a failure detector feeds it. HTTP front ends propose commands and read applied state.

  \<^bold>\<open>Layers and theories.\<close>

  \<^item> \<open>Prelude\<close>, \<open>Rust_Std\<close>: results and folds over them, ordered maps (\<open>bt_*\<close>, Rust's \<open>BTreeMap\<close> as a
    sorted association list), big-endian encodings, saturating arithmetic, UTF-8 and the string
    operations of the standard library that the code uses.
  \<^item> \<open>Canonical_Json\<close>, \<open>Room_Version\<close>, \<open>Event\<close>, \<open>Power_Levels\<close>, \<open>Auth_Rules\<close>, \<open>Acl\<close>, \<open>Validation\<close>,
    \<open>State_Res\<close>: the data and the functions of \<open>saltator-core\<close>, file by file. \<open>Auth_Facts\<close> and
    \<open>Auth_Powers\<close> hold what the authorisation rules guarantee; \<open>Auth_Chain\<close>, \<open>Power_Order\<close> and
    \<open>Resolution\<close> relate the iterative algorithms of state resolution to their specification.
  \<^item> \<open>Store\<close>: write batches over the engine and the overlay of staged writes (\<open>saltator-store\<close>).
    \<open>Shard\<close>, \<open>Shard_Runtime\<close>: the context of an application, reads, the Raft log and the state machine of
    \<open>saltator-shard\<close>; \<open>Shard_Facts\<close> and \<open>Shard_Reads\<close> their theorems. The locale \<open>shard_app\<close> is the
    interface of an application to the runtime; it is interpreted on the federation-out, the user and
    the room application.
  \<^item> \<open>Fedout\<close>: the federation-out application (\<open>saltator-fedout\<close>).
  \<^item> \<open>Ctx_Monad\<close>: applications as programs over a context, with the frame rules (which tables a program
    writes) that the user and room applications need. \<open>User_Types\<close>, \<open>User_Commands\<close>: \<open>types.rs\<close> of
    \<open>saltator-userserver\<close>. \<open>User_Sessions\<close>, \<open>User_Rooms\<close>, \<open>User_Keys\<close>, \<open>User_Machine\<close>: every arm of
    \<open>apply_command\<close> and the migrations of \<open>machine.rs\<close>. \<open>User_Frames\<close> computes the tables each command
    writes; \<open>User_Auth\<close>, \<open>User_Names\<close> and \<open>User_Claims\<close> hold the theorems. \<open>User_Reads\<close>: the typed reads of
    \<open>UserStore\<close>, of a half hosted here or elsewhere; \<open>User_Read_Facts\<close> what they return.
  \<^item> \<open>Room_Types\<close>, \<open>Room_Machine\<close>, \<open>Room_Store\<close>: \<open>types.rs\<close> and \<open>machine.rs\<close> of \<open>saltator-roomserver\<close>, every
    command and every typed reader. \<open>Room_Pipeline\<close>: \<open>process_inner\<close> of its \<open>lib.rs\<close> with the functions it
    calls, from the JSON of an event to the command that persists its outcome. \<open>Room_Frames\<close>: the tables
    of every command. \<open>Room_Journal\<close> and \<open>Room_Timeline\<close>: replay and the timeline, over histories of
    commands in arbitrary batches. \<open>Room_Groups\<close>, \<open>Room_Alloc\<close>, \<open>Room_State\<close>: state groups as chains of
    deltas, what the pipeline adds to them, what every command does to them. \<open>Room_Safety\<close> and
    \<open>Room_Redactions\<close>: the properties of pipeline and machine together.
  \<^item> The rest of \<open>saltator-roomserver\<close>. \<open>Room_Walk\<close>: the walks over stored events (missing events, backfill, auth
    chains) and \<open>readable\<close>, \<open>held\<close>: what a node has. \<open>Room_Federation\<close>: what it serves to other servers
    (history by visibility, state at an event, access lists, the event nearest to a time). \<open>Room_Import\<close>: the
    commands for imported rooms, histories and segments. \<open>Room_Joins\<close>: local events, templates and restricted
    joins. \<open>Room_Shards\<close>: the router of \<open>shards.rs\<close>; \<open>Room_Changes\<close>: change streams over backends that drop and
    move. \<open>Room_Server\<close>: a node (its applied state, the keys it trusts, the requests it has sent) and its entry
    points, here or for a shard hosted elsewhere; \<open>Room_Heal\<close> and \<open>Room_Settle\<close>: \<open>heal.rs\<close> and what it guarantees, in the locale \<open>healing_run\<close>;
    \<open>Room_Intents\<close>: the answering side of \<open>remote.rs\<close>; \<open>Room_Summary\<close>: \<open>hierarchy.rs\<close>.
  \<^item> \<open>Placement\<close>, \<open>Meta_Group\<close>, \<open>Control_Plane\<close>, \<open>Liveness\<close>: \<open>placement.rs\<close>, \<open>lib.rs\<close> and \<open>liveness.rs\<close> of
    \<open>saltator-cluster\<close>.
  \<^item> \<open>Core_Examples\<close>, \<open>Shard_Examples\<close>, \<open>Cluster_Examples\<close>, \<open>Wire_Codecs\<close>, \<open>User_Codecs\<close>, \<open>User_Examples\<close>,
    \<open>Room_Codecs\<close>, \<open>Room_Examples\<close>, \<open>Room_Fed_Examples\<close>, \<open>Room_Node_Examples\<close>: concrete instances of the parameters, the interpretations of the locales on them, and the theorems applied.

  \<^bold>\<open>What is shown.\<close> State resolution returns, refines the specification by full sorting and replay, does
  not depend on the order of its inputs, agrees with the inputs where they agree, and lets every other event
  enter only the state on which the authorisation rules passed it; its traversals compute the chains,
  subgraphs and orders they are meant to. The rules admit no escalation of power, and joins, removals and power
  levels only in the permitted cases. Access lists match as their specification says. A batch applied by a
  shard changes only its own table space, emits consecutive numbers and survives a snapshot. Cursors of the
  federation-out shard grow. In the user shard names stay taken and registration tokens are not overspent, in
  whatever batches; the state on a token is the state of its account; identity links are symmetric, login
  tokens are redeemed once, claims take the oldest key and the projection of memberships keeps the newest
  change; the pages of accounts cover them. In the room shard an event is accepted only if it is verified and
  authorised by its auth events and by the whole state before it; the state group stored with it, delta or
  snapshot, resolves to that state with the event's entry, and the room's current group to the resolution over
  its extremities; every stored group resolves within \<open>MAX_GROUP_CHAIN\<close> steps; the three tables of the
  timeline agree; the change stream can be replayed from them; a redaction comes to the same before and after
  its target. Of a node: missing events and auth chains are walked exactly; history is filtered by the
  visibility at each event; the snapshot of a segment is exactly the complete part of the state sent; a
  restricted join is vouched for by a member who may invite; an answer to a join is complete; change streams
  have no gap and no duplicate, and announced records arrive; healing settles; an entry point answers the same
  for a shard hosted elsewhere, but for the errors that the wire does not keep; a space is ordered the same here and
  over federation. Rosters keep every group hosted and the quorums of blobs intersect. Where the code departs
  from what it says, a theorem shows the departure.

  \<^bold>\<open>Histories.\<close> Three conditions single out the histories in which a theorem holds. \<open>room_cmd_ok\<close>
  (\<open>Room_State\<close>): an append was computed by the pipeline from the metadata and groups that it meets when applied, and group
  numbers do not run out. The room's lock gives this against other pipelines; an import takes no lock, and
  \<open>unlocked_segment_loses_snapshot\<close> shows what one does that falls in between. \<open>import_ok\<close> (\<open>Room_Timeline\<close>): the
  join of an unknown room is not on the timeline yet. \<open>cmd_ok\<close> (\<open>User_Auth\<close>): what the gateway provides with the
  commands of sessions. The user theorems on names and tokens take logs in arbitrary batches; that on the state of tokens
  takes one command per batch, since it fails within one. The control plane relies on a failed proposal being decided when it returns.

  \<^bold>\<open>Conventions.\<close> Machine integers are words and wrap as in the release profile, which does not check
  overflow. Strings are lists of bytes. Errors are values of a sum type, and an error of an
  application drops its batch. Loops over a worklist that might not end are \<open>partial_function (option)\<close>
  or carry fuel, and the theorems state that they return: the fuel of a matcher or traversal is a
  bound on its number of rounds computed from the input. A context's \<open>range\<close> reads the engine and
  does not see what the same batch has staged, as in \<open>app.rs\<close>; theorems about commands that range over a
  table they may have written say so by \<open>settled\<close>, and hold at the start of a batch.

  \<^bold>\<open>Parameters.\<close> Code outside the repository is a parameter: signature checks, hashes and redaction of
  \<open>ruma\<close> (a record of functions), the encodings of \<open>postcard\<close> and \<open>serde_json\<close> (records of codecs, with
  losslessness as hypothesis where a theorem needs it), the log identifiers and memberships of
  \<open>openraft\<close>, the engine \<open>rocksdb\<close> as an ordered map. Of a node: the signer, the clock, the prefix of \<open>blake3\<close>
  that routes a room, the proposal of a command through Raft (with whatever other nodes commit meanwhile), the
  encodings of intents, and the fetcher, whose answers may depend on the requests made before.

  \<^bold>\<open>Not modelled.\<close> The asynchronous drivers (Raft handles, gRPC, TLS, HTTP routes, federation clients,
  background tasks), media stores, metrics, configuration and the admin interface are I/O. Of the user server
  the service wrapper of \<open>lib.rs\<close>, and of the room server the tasks that start, stop and lock a shard, are not
  modelled. The texts of errors and of rejections are abridged to their fixed part, for a rejection by a rule
  to the tag of the rule.
\<close>

end
